(* ===== verification/JS_Prelude.thy ===== *)
theory JS_Prelude
  imports Main "HOL-Library.Sublist" "HOL-Library.Multiset" "HOL-Library.Code_Target_Nat"
begin

text \<open>
  Shared vocabulary of the development: the JavaScript values and library operations the
  modelled modules use. Strings are lists of code units (\<^typ>\<open>char\<close>, that is, code units
  below 256), \<open>Record<string, V>\<close> objects are association lists in the property order of
  the language, and every array operation whose index can be absent returns an option.
  Property lookups read own properties only.
\<close>

section \<open>Collections of facts\<close>

named_theorems js_simps \<open>evaluation rules of the JavaScript library operations\<close>
named_theorems inv_intros \<open>preservation facts of component invariants\<close>

type_synonym jstr = string

section \<open>Arrays\<close>

text \<open>\<open>Array.prototype.findIndex\<close>: \<open>None\<close> stands for \<open>-1\<close>.\<close>

fun find_index :: "('a \<Rightarrow> bool) \<Rightarrow> 'a list \<Rightarrow> nat option" where
  "find_index P [] = None"
| "find_index P (x # xs) = (if P x then Some 0 else map_option Suc (find_index P xs))"

lemma find_index_Some:
  "find_index P xs = Some i \<Longrightarrow> i < length xs \<and> P (xs ! i) \<and> (\<forall>j < i. \<not> P (xs ! j))"
  by (induction xs arbitrary: i) (auto simp: less_Suc_eq_0_disj nth_Cons' split: if_splits)

lemma find_index_None: "find_index P xs = None \<longleftrightarrow> (\<forall>x \<in> set xs. \<not> P x)"
  by (induction xs) auto

lemma find_index_ex: "x \<in> set xs \<Longrightarrow> P x \<Longrightarrow> \<exists>i. find_index P xs = Some i"
  by (cases "find_index P xs") (auto simp: find_index_None)

lemma find_index_or:
  "find_index (\<lambda>x. P x \<or> Q x) xs =
     (case find_index P xs of
        None \<Rightarrow> find_index Q xs
      | Some a \<Rightarrow> (case find_index Q xs of None \<Rightarrow> Some a | Some b \<Rightarrow> Some (min a b)))"
proof (induction xs)
  case (Cons x xs)
  then show ?case
    by (cases "find_index P xs"; cases "find_index Q xs"; cases "P x"; cases "Q x") simp_all
qed simp

lemma split_at_find_index:
  "(case find_index P xs of None \<Rightarrow> (xs, []) | Some i \<Rightarrow> (take i xs, drop i xs))
     = (takeWhile (\<lambda>x. \<not> P x) xs, dropWhile (\<lambda>x. \<not> P x) xs)"
proof (induction xs)
  case (Cons x xs)
  then show ?case by (cases "find_index P xs"; cases "P x") simp_all
qed simp

lemma find_index_map: "find_index (\<lambda>x. P (f x)) xs = find_index P (map f xs)"
  by (induction xs) simp_all

lemma find_of_index: "find_index P xs = Some i \<Longrightarrow> find P xs = Some (xs ! i)"
  by (induction xs arbitrary: i) (auto split: if_splits)

lemma find_in_set: "find P xs = Some x \<Longrightarrow> x \<in> set xs \<and> P x"
  by (auto simp: find_Some_iff)

text \<open>\<open>Array.prototype.slice(0, i)\<close>, the element removed, and \<open>slice(i + 1)\<close>.\<close>

definition remove_nth :: "nat \<Rightarrow> 'a list \<Rightarrow> 'a list" where
  "remove_nth i xs = take i xs @ drop (Suc i) xs"

definition insert_nth :: "nat \<Rightarrow> 'a \<Rightarrow> 'a list \<Rightarrow> 'a list" where
  "insert_nth i x xs = take i xs @ x # drop i xs"

lemma mset_remove_nth: "i < length xs \<Longrightarrow> mset xs = add_mset (xs ! i) (mset (remove_nth i xs))"
proof -
  assume "i < length xs"
  then have "mset xs = mset (take i xs @ xs ! i # drop (Suc i) xs)"
    by (simp add: id_take_nth_drop [symmetric])
  then show ?thesis by (simp add: remove_nth_def)
qed

lemma mset_insert_nth: "mset (insert_nth i x xs) = add_mset x (mset xs)"
proof -
  have "mset xs = mset (take i xs) + mset (drop i xs)"
    by (metis append_take_drop_id mset_append)
  then show ?thesis by (simp add: insert_nth_def)
qed

lemma set_remove_nth_subset: "set (remove_nth i xs) \<subseteq> set xs"
  by (auto simp: remove_nth_def dest: in_set_takeD in_set_dropD)

lemma set_insert_nth: "set (insert_nth i x xs) = insert x (set xs)"
proof -
  have "set_mset (mset (insert_nth i x xs)) = insert x (set_mset (mset xs))"
    by (simp add: mset_insert_nth)
  then show ?thesis by simp
qed

section \<open>Lists in two zones\<close>

text \<open>
  A list whose elements with a property all precede those without it, and the length of its
  first zone.
\<close>

definition zoned :: "('a \<Rightarrow> bool) \<Rightarrow> 'a list \<Rightarrow> bool" where
  "zoned P xs = sorted_wrt (\<lambda>a b. P b \<longrightarrow> P a) xs"

definition zone_length :: "('a \<Rightarrow> bool) \<Rightarrow> 'a list \<Rightarrow> nat" where
  "zone_length P xs = length (takeWhile P xs)"

lemma zoned_simps [simp]:
  "zoned P [] = True"
  "zoned P (x # xs) = ((\<forall>y \<in> set xs. P y \<longrightarrow> P x) \<and> zoned P xs)"
  by (simp_all add: zoned_def)

lemma zoned_append:
  "zoned P (a @ b) \<longleftrightarrow> zoned P a \<and> zoned P b \<and> (\<forall>x \<in> set a. \<forall>y \<in> set b. P y \<longrightarrow> P x)"
  by (simp add: zoned_def sorted_wrt_append)

lemma zoned_filter: "zoned P xs \<Longrightarrow> zoned P (filter Q xs)"
  by (simp add: zoned_def sorted_wrt_filter)

lemma zoned_sorted: "zoned P xs \<longleftrightarrow> sorted (map (\<lambda>x. if P x then 0 else 1 :: nat) xs)"
  by (induction xs) auto

lemma zoned_map: "zoned P xs = zoned (\<lambda>b. b) (map P xs)"
  by (induction xs) auto

lemma zone_take_drop:
  "take (zone_length P xs) xs = takeWhile P xs" "drop (zone_length P xs) xs = dropWhile P xs"
  by (induction xs) (simp_all add: zone_length_def)

lemma zoned_dropWhile: "zoned P xs \<Longrightarrow> \<forall>x \<in> set (dropWhile P xs). \<not> P x"
proof (induction xs)
  case (Cons x xs)
  from Cons.prems have front: "\<forall>y \<in> set xs. P y \<longrightarrow> P x" and rest: "zoned P xs"
    unfolding zoned_simps by blast+
  show ?case
  proof (cases "P x")
    case True
    with Cons.IH [OF rest] show ?thesis by (simp only: dropWhile.simps if_True)
  next
    case False
    with front have "\<forall>y \<in> set (x # xs). \<not> P y" by simp
    with False show ?thesis by (simp only: dropWhile.simps if_False)
  qed
qed simp

lemma zone_length_le: "zone_length P xs \<le> length xs"
  by (simp add: zone_length_def length_takeWhile_le)

lemma zone_iff:
  assumes "zoned P xs" "i < length xs"
  shows "P (xs ! i) \<longleftrightarrow> i < zone_length P xs"
proof -
  have eq: "xs = takeWhile P xs @ dropWhile P xs" by simp
  show ?thesis
  proof (cases "i < zone_length P xs")
    case True
    then have "xs ! i = takeWhile P xs ! i"
      by (simp add: zone_length_def takeWhile_nth)
    with True show ?thesis
      by (metis nth_mem set_takeWhileD zone_length_def)
  next
    case False
    then have "xs ! i = dropWhile P xs ! (i - zone_length P xs)"
      by (metis eq nth_append zone_length_def)
    moreover have "i - zone_length P xs < length (dropWhile P xs)"
      using False assms(2) by (simp add: zone_length_def dropWhile_eq_drop)
    ultimately show ?thesis
      using zoned_dropWhile [OF assms(1)] False by (metis nth_mem)
  qed
qed

lemma zoned_remove: "zoned P xs \<Longrightarrow> zoned P (remove_nth i xs)"
proof -
  assume "zoned P xs"
  then have "zoned P (take i xs @ drop i xs)" by simp
  moreover have "drop (Suc i) xs = tl (drop i xs)" by (simp add: drop_Suc tl_drop)
  ultimately show "zoned P (remove_nth i xs)"
    by (cases "drop i xs") (simp_all add: remove_nth_def zoned_append)
qed

text \<open>Inserting an element into its own zone.\<close>

lemma zoned_insert:
  assumes "zoned P xs" and "if P x then j \<le> zone_length P xs else zone_length P xs \<le> j"
  shows "zoned P (insert_nth j x xs)"
proof -
  have parts: "zoned P (take j xs)" "zoned P (drop j xs)"
      "\<forall>a \<in> set (take j xs). \<forall>b \<in> set (drop j xs). P b \<longrightarrow> P a"
    using assms(1) zoned_append [of P "take j xs" "drop j xs"] by simp_all
  show ?thesis
  proof (cases "P x")
    case True
    with assms(2) have "set (take j xs) \<subseteq> set (takeWhile P xs)"
      by (simp add: set_take_subset_set_take flip: zone_take_drop)
    then have "\<forall>a \<in> set (take j xs). P a" by (auto dest: set_takeWhileD)
    with parts True show ?thesis
      by (simp add: insert_nth_def zoned_append)
  next
    case False
    with assms(2) have "set (drop j xs) \<subseteq> set (dropWhile P xs)"
      by (simp add: set_drop_subset_set_drop flip: zone_take_drop)
    then have "\<forall>a \<in> set (drop j xs). \<not> P a" using zoned_dropWhile [OF assms(1)] by blast
    with parts False show ?thesis
      by (simp add: insert_nth_def zoned_append)
  qed
qed

lemma zone_length_remove:
  assumes "zoned P xs" "i < length xs"
  shows "zone_length P (remove_nth i xs) = (if P (xs ! i) then zone_length P xs - 1 else zone_length P xs)"
  using assms
proof (induction xs arbitrary: i)
  case (Cons x xs)
  show ?case
  proof (cases i)
    case 0
    have "takeWhile P xs = []" if "\<not> P x"
      using that Cons.prems(1) by (cases xs) simp_all
    with 0 show ?thesis by (auto simp: remove_nth_def zone_length_def)
  next
    case (Suc j)
    have "remove_nth i (x # xs) = x # remove_nth j xs" by (simp add: remove_nth_def Suc)
    moreover have "zoned P xs" "j < length xs" using Cons.prems Suc by auto
    moreover have "P (xs ! j) \<Longrightarrow> P x" "P (xs ! j) \<Longrightarrow> 0 < zone_length P xs"
      using Cons.prems Suc zone_iff [of P xs j] \<open>zoned P xs\<close> \<open>j < length xs\<close>
      by auto
    ultimately show ?thesis
      using Cons.IH [of j] Suc by (auto simp: zone_length_def)
  qed
qed simp

text \<open>Replacing the value of one key in an association list.\<close>

lemma map_of_replace:
  "map_of (map (\<lambda>(k', v'). (k', if k' = k then v else v')) xs) k' =
     (if k' = k \<and> k \<in> fst ` set xs then Some v else map_of xs k')"
proof (induction xs)
  case (Cons x xs)
  then show ?case by (cases x; cases "k' = k") simp_all
qed simp

section \<open>Strings\<close>

definition str_starts :: "jstr \<Rightarrow> jstr \<Rightarrow> bool" where
  "str_starts s p = prefix p s"

text \<open>\<open>s.indexOf(c)\<close> for a one-character needle.\<close>

definition str_index_of :: "jstr \<Rightarrow> char \<Rightarrow> nat option" where
  "str_index_of s c = find_index (\<lambda>d. d = c) s"

text \<open>\<open>s.split(c)\<close> for a one-character separator: never the empty list.\<close>

fun str_split :: "char \<Rightarrow> jstr \<Rightarrow> jstr list" where
  "str_split d [] = [[]]"
| "str_split d (c # cs) =
     (if c = d then [] # str_split d cs
      else (case str_split d cs of [] \<Rightarrow> [[c]] | w # ws \<Rightarrow> (c # w) # ws))"

text \<open>\<open>xs.join(c)\<close>.\<close>

fun str_join :: "char \<Rightarrow> jstr list \<Rightarrow> jstr" where
  "str_join d [] = []"
| "str_join d [w] = w"
| "str_join d (w # ws) = w @ d # str_join d ws"

lemma str_split_ne [simp]: "str_split d s \<noteq> []"
  by (induction s) (auto split: list.splits)

lemma str_join_split: "str_join d (str_split d s) = s"
proof (induction s)
  case (Cons c s)
  show ?case
  proof (cases "str_split d s")
    case (Cons w ws)
    with Cons.IH show ?thesis
      by (cases ws) auto
  qed simp
qed simp

lemma str_split_no_sep: "d \<notin> set s \<Longrightarrow> str_split d s = [s]"
  by (induction s) auto

lemma str_split_append: "d \<notin> set w \<Longrightarrow> str_split d (w @ d # s) = w # str_split d s"
  by (induction w) auto

lemma str_split_join:
  "ws \<noteq> [] \<Longrightarrow> \<forall>w \<in> set ws. d \<notin> set w \<Longrightarrow> str_split d (str_join d ws) = ws"
  by (induction d ws rule: str_join.induct) (auto simp: str_split_no_sep str_split_append)

lemma str_split_parts: "w \<in> set (str_split d s) \<Longrightarrow> d \<notin> set w \<and> set w \<subseteq> set s"
proof (induction s arbitrary: w)
  case (Cons c s)
  show ?case
  proof (cases "str_split d s")
    case (Cons v vs)
    then have "v \<in> set (str_split d s)" "\<And>u. u \<in> set vs \<Longrightarrow> u \<in> set (str_split d s)"
      by auto
    with Cons Cons.prems Cons.IH show ?thesis
      by (auto split: if_splits) blast+
  qed simp
qed simp

text \<open>White space as \<open>trim\<close> and \<open>\s\<close> read it, among code units below 256.\<close>

definition is_space :: "char \<Rightarrow> bool" where
  "is_space c = (let n = (of_char c :: nat) in (9 \<le> n \<and> n \<le> 13) \<or> n = 32 \<or> n = 160)"

definition str_trim_end :: "jstr \<Rightarrow> jstr" where
  "str_trim_end s = rev (dropWhile is_space (rev s))"

definition str_trim :: "jstr \<Rightarrow> jstr" where
  "str_trim s = str_trim_end (dropWhile is_space s)"

lemma str_trim_id:
  "s \<noteq> [] \<Longrightarrow> \<not> is_space (hd s) \<Longrightarrow> \<not> is_space (last s) \<Longrightarrow> str_trim s = s"
proof -
  assume ne: "s \<noteq> []" and first: "\<not> is_space (hd s)" and final: "\<not> is_space (last s)"
  from ne first have "dropWhile is_space s = s" by (simp add: dropWhile_eq_self_iff)
  moreover from ne final have "dropWhile is_space (rev s) = rev s"
    by (simp add: dropWhile_eq_self_iff hd_rev)
  ultimately show ?thesis by (simp add: str_trim_def str_trim_end_def)
qed

section \<open>Decimal numerals\<close>

definition is_digit :: "char \<Rightarrow> bool" where
  "is_digit c = (let n = (of_char c :: nat) in 48 \<le> n \<and> n \<le> 57)"

definition digit_val :: "char \<Rightarrow> nat" where
  "digit_val c = of_char c - 48"

definition digit_char :: "nat \<Rightarrow> char" where
  "digit_char n = char_of (48 + n)"

text \<open>The regular expression \<open>^\d+$\<close>.\<close>

definition all_digits :: "jstr \<Rightarrow> bool" where
  "all_digits s = (s \<noteq> [] \<and> list_all is_digit s)"

text \<open>\<open>Number(s)\<close> of a digit string, and \<open>String(n)\<close> of a natural number.\<close>

definition nat_of_digits :: "jstr \<Rightarrow> nat" where
  "nat_of_digits s = foldl (\<lambda>a c. 10 * a + digit_val c) 0 s"

fun string_of_nat :: "nat \<Rightarrow> jstr" where
  "string_of_nat n =
     (if n < 10 then [digit_char n] else string_of_nat (n div 10) @ [digit_char (n mod 10)])"

declare string_of_nat.simps [simp del]

lemma digit_val_char: "n < 10 \<Longrightarrow> digit_val (digit_char n) = n"
  by (simp add: digit_val_def digit_char_def of_char_of)

lemma is_digit_char: "n < 10 \<Longrightarrow> is_digit (digit_char n)"
  by (simp add: is_digit_def digit_char_def of_char_of)

lemma nat_of_digits_snoc: "nat_of_digits (s @ [c]) = 10 * nat_of_digits s + digit_val c"
  by (simp add: nat_of_digits_def)

lemma nat_of_string_of_nat [simp]: "nat_of_digits (string_of_nat n) = n"
proof (induction n rule: string_of_nat.induct)
  case (1 n)
  then show ?case
    by (cases "n < 10")
      (simp_all add: string_of_nat.simps [of n] nat_of_digits_snoc digit_val_char,
       simp add: nat_of_digits_def digit_val_char)
qed

lemma list_all_string_of_nat: "list_all is_digit (string_of_nat n)"
proof (induction n rule: string_of_nat.induct)
  case (1 n)
  then show ?case
    by (cases "n < 10") (simp_all add: string_of_nat.simps [of n] is_digit_char)
qed

lemma string_of_nat_ne [simp]: "string_of_nat n \<noteq> []"
  by (simp add: string_of_nat.simps [of n])

lemma all_digits_string_of_nat [simp]: "all_digits (string_of_nat n)"
  by (simp add: all_digits_def list_all_string_of_nat)

lemma string_of_nat_inj: "string_of_nat m = string_of_nat n \<Longrightarrow> m = n"
  by (metis nat_of_string_of_nat)

lemma string_of_nat_digit: "c \<in> set (string_of_nat n) \<Longrightarrow> is_digit c"
  using list_all_string_of_nat by (auto simp: list_all_iff)

end
