(* ===== verification/JS_Object.thy ===== *)
theory JS_Object
  imports JS_Prelude
begin

text \<open>
  String-keyed JavaScript objects used as dictionaries (\<open>Record<string, V>\<close>) and
  \<open>Map\<close>s, as association lists. An object lists its own properties in the language's
  property order: canonical array indices in ascending order, then the other keys in
  insertion order; a \<open>Map\<close> is in insertion order throughout. Both provide the interface
  \<open>keyed_store\<close>, against which the stores that hold them are verified.
\<close>

section \<open>The dictionary interface\<close>

locale keyed_store =
  fixes lookup :: "'s \<Rightarrow> 'k \<Rightarrow> 'v option"
    and update :: "'k \<Rightarrow> 'v \<Rightarrow> 's \<Rightarrow> 's"
    and remove :: "'k \<Rightarrow> 's \<Rightarrow> 's"
    and keys :: "'s \<Rightarrow> 'k list"
    and ok :: "'s \<Rightarrow> bool"
  assumes lookup_update: "ok s \<Longrightarrow> lookup (update k v s) k' = (if k' = k then Some v else lookup s k')"
    and lookup_remove: "ok s \<Longrightarrow> lookup (remove k s) k' = (if k' = k then None else lookup s k')"
    and keys_lookup: "ok s \<Longrightarrow> k \<in> set (keys s) \<longleftrightarrow> lookup s k \<noteq> None"
    and keys_distinct: "ok s \<Longrightarrow> distinct (keys s)"
    and ok_update: "ok s \<Longrightarrow> ok (update k v s)"
    and ok_remove: "ok s \<Longrightarrow> ok (remove k s)"
begin

lemma keys_update: "ok s \<Longrightarrow> set (keys (update k v s)) = insert k (set (keys s))"
  by (auto simp: keys_lookup ok_update lookup_update split: if_splits)

lemma keys_remove: "ok s \<Longrightarrow> set (keys (remove k s)) = set (keys s) - {k}"
  by (auto simp: keys_lookup ok_remove lookup_remove split: if_splits)

text \<open>A property of every entry survives an update by an entry that has it.\<close>

lemma entries_update:
  "ok s \<Longrightarrow> \<forall>k v. lookup s k = Some v \<longrightarrow> P k v \<Longrightarrow> P k v \<Longrightarrow>
   \<forall>k' v'. lookup (update k v s) k' = Some v' \<longrightarrow> P k' v'"
  by (auto simp: lookup_update)

lemma entries_remove:
  "ok s \<Longrightarrow> \<forall>k v. lookup s k = Some v \<longrightarrow> P k v \<Longrightarrow>
   \<forall>k' v'. lookup (remove k s) k' = Some v' \<longrightarrow> P k' v'"
  by (auto simp: lookup_remove)

lemma lookup_fold_update:
  "ok s \<Longrightarrow> distinct (map fst kvs) \<Longrightarrow>
   lookup (fold (\<lambda>(k, v). update k v) kvs s) k' =
     (case map_of kvs k' of Some v \<Rightarrow> Some v | None \<Rightarrow> lookup s k')"
proof (induction kvs arbitrary: s)
  case (Cons kv kvs)
  obtain k v where kv: "kv = (k, v)" by (cases kv)
  with Cons.prems have "map_of kvs k = None" by (simp add: map_of_eq_None_iff)
  with Cons kv show ?case
    by (cases "k' = k") (simp_all add: ok_update lookup_update split: option.splits)
qed simp

lemma ok_fold_update: "ok s \<Longrightarrow> ok (fold (\<lambda>(k, v). update k v) kvs s)"
  by (induction kvs arbitrary: s) (auto simp: ok_update)

end

section \<open>Objects\<close>

type_synonym 'v jsobj = "(jstr \<times> 'v) list"

text \<open>
  Array indices as the language defines them: the property name is the canonical numeral of
  a number below \<open>2^32 - 1\<close>.
\<close>

definition is_index :: "jstr \<Rightarrow> bool" where
  "is_index k = (string_of_nat (nat_of_digits k) = k \<and> nat_of_digits k < 4294967295)"

lemma is_index_code [code]:
  "is_index k = (all_digits k \<and> string_of_nat (nat_of_digits k) = k \<and> nat_of_digits k < 4294967295)"
  by (metis is_index_def all_digits_string_of_nat)

lemma is_index_inj:
  "nat_of_digits k' = nat_of_digits k \<Longrightarrow> is_index k \<Longrightarrow> is_index k' \<Longrightarrow> k' = k"
  by (metis is_index_def)

definition key_before :: "jstr \<Rightarrow> jstr \<Rightarrow> bool" where
  "key_before k k' = (is_index k \<and> (\<not> is_index k' \<or> nat_of_digits k < nat_of_digits k'))"

definition obj_get :: "'v jsobj \<Rightarrow> jstr \<Rightarrow> 'v option" where
  "obj_get ob k = map_of ob k"

fun obj_insert :: "jstr \<Rightarrow> 'v \<Rightarrow> 'v jsobj \<Rightarrow> 'v jsobj" where
  "obj_insert k v [] = [(k, v)]"
| "obj_insert k v ((k', v') # ob) =
     (if key_before k k' then (k, v) # (k', v') # ob else (k', v') # obj_insert k v ob)"

definition obj_keys :: "'v jsobj \<Rightarrow> jstr list" where
  "obj_keys ob = map fst ob"

text \<open>Assignment keeps the position of an existing property.\<close>

definition obj_set :: "jstr \<Rightarrow> 'v \<Rightarrow> 'v jsobj \<Rightarrow> 'v jsobj" where
  "obj_set k v ob =
     (if k \<in> set (obj_keys ob) then map (\<lambda>(k', v'). (k', if k' = k then v else v')) ob
      else obj_insert k v ob)"

definition obj_delete :: "jstr \<Rightarrow> 'v jsobj \<Rightarrow> 'v jsobj" where
  "obj_delete k ob = filter (\<lambda>(k', v'). k' \<noteq> k) ob"

definition obj_ok :: "'v jsobj \<Rightarrow> bool" where
  "obj_ok ob = (distinct (obj_keys ob) \<and>
     sorted_wrt (\<lambda>k k'. is_index k' \<longrightarrow> key_before k k') (obj_keys ob))"

text \<open>Two spreads: \<open>{...a, ...b}\<close> assigns the entries of \<open>b\<close> in order.\<close>

definition obj_assign :: "'v jsobj \<Rightarrow> 'v jsobj \<Rightarrow> 'v jsobj" where
  "obj_assign a b = fold (\<lambda>(k, v). obj_set k v) b a"

lemma map_of_obj_insert:
  "k \<notin> set (obj_keys ob) \<Longrightarrow> map_of (obj_insert k v ob) k' = (if k' = k then Some v else map_of ob k')"
  by (induction k v ob rule: obj_insert.induct) (auto simp: obj_keys_def)


lemma obj_keys_replace [simp]:
  "obj_keys (map (\<lambda>(k', v'). (k', if k' = k then v else v')) ob) = obj_keys ob"
  by (induction ob) (auto simp: obj_keys_def)

lemma obj_get_set [js_simps]:
  "obj_get (obj_set k v ob) k' = (if k' = k then Some v else obj_get ob k')"
  by (simp add: obj_get_def obj_set_def map_of_replace map_of_obj_insert) (simp add: obj_keys_def)

lemma obj_get_delete [js_simps]:
  "obj_get (obj_delete k ob) k' = (if k' = k then None else obj_get ob k')"
  by (induction ob) (auto simp: obj_get_def obj_delete_def)

lemma obj_keys_get: "k \<in> set (obj_keys ob) \<longleftrightarrow> obj_get ob k \<noteq> None"
  by (auto simp: obj_get_def obj_keys_def map_of_eq_None_iff)

lemma set_keys_obj_insert: "set (obj_keys (obj_insert k v ob)) = insert k (set (obj_keys ob))"
  by (induction k v ob rule: obj_insert.induct) (auto simp: obj_keys_def)

lemma obj_ok_insert:
  "obj_ok ob \<Longrightarrow> k \<notin> set (obj_keys ob) \<Longrightarrow> obj_ok (obj_insert k v ob)"
proof (induction k v ob rule: obj_insert.induct)
  case (1 k v)
  then show ?case by (simp add: obj_ok_def obj_keys_def)
next
  case (2 k v k' v' ob)
  have keys_tail: "obj_keys ((k', v') # ob) = k' # obj_keys ob" by (simp add: obj_keys_def)
  show ?case
  proof (cases "key_before k k'")
    case True
    have "is_index x \<longrightarrow> key_before k x" if "x \<in> set (obj_keys ob)" for x
      using that True "2.prems"(1) by (auto simp: obj_ok_def keys_tail key_before_def)
    with True "2.prems" show ?thesis by (auto simp: obj_ok_def obj_keys_def)
  next
    case False
    from "2.prems" have tail: "obj_ok ob" "k \<notin> set (obj_keys ob)" "k' \<noteq> k"
      by (auto simp: obj_ok_def keys_tail)
    have new: "is_index k \<longrightarrow> key_before k' k"
    proof
      assume ix: "is_index k"
      with False have ix': "is_index k'" and le: "nat_of_digits k' \<le> nat_of_digits k"
        by (auto simp: key_before_def)
      show "key_before k' k"
      proof (cases "nat_of_digits k' = nat_of_digits k")
        case True
        then have "k' = k" using ix ix' by (rule is_index_inj)
        with tail(3) show ?thesis by simp
      next
        case False
        with le ix' show ?thesis by (simp add: key_before_def)
      qed
    qed
    from False "2.IH" tail have IH: "obj_ok (obj_insert k v ob)" by simp
    have "obj_keys (obj_insert k v ((k', v') # ob)) = k' # obj_keys (obj_insert k v ob)"
      using False by (simp add: obj_keys_def)
    with IH new tail "2.prems" show ?thesis
      by (auto simp: obj_ok_def keys_tail set_keys_obj_insert)
  qed
qed

lemma obj_ok_set: "obj_ok ob \<Longrightarrow> obj_ok (obj_set k v ob)"
  by (simp add: obj_set_def obj_ok_insert) (simp add: obj_ok_def)

lemma obj_ok_delete: "obj_ok ob \<Longrightarrow> obj_ok (obj_delete k ob)"
proof -
  have "obj_keys (obj_delete k ob) = filter (\<lambda>k'. k' \<noteq> k) (obj_keys ob)"
    by (induction ob) (auto simp: obj_keys_def obj_delete_def)
  then show "obj_ok ob \<Longrightarrow> obj_ok (obj_delete k ob)"
    by (simp add: obj_ok_def sorted_wrt_filter)
qed

lemma obj_ok_Nil [simp]: "obj_ok []"
  by (simp add: obj_ok_def obj_keys_def)

interpretation obj: keyed_store obj_get obj_set obj_delete obj_keys obj_ok
  by unfold_locales
    (auto simp: obj_get_set obj_get_delete obj_keys_get obj_ok_set obj_ok_delete,
     simp add: obj_ok_def)

lemma obj_get_Nil [simp, js_simps]: "obj_get [] k = None"
  by (simp add: obj_get_def)

lemma obj_get_in: "obj_get ob k = Some v \<Longrightarrow> (k, v) \<in> set ob"
  by (simp add: obj_get_def map_of_SomeD)

lemma obj_in_get: "obj_ok ob \<Longrightarrow> (k, v) \<in> set ob \<Longrightarrow> obj_get ob k = Some v"
  by (simp add: obj_get_def obj_ok_def obj_keys_def)

text \<open>Appending the entries of an object in order rebuilds it.\<close>

lemma obj_set_snoc:
  assumes "obj_ok (ob @ [(k, v)])"
  shows "obj_set k v ob = ob @ [(k, v)]"
proof -
  have fresh: "k \<notin> set (obj_keys ob)"
    using assms by (auto simp: obj_ok_def obj_keys_def)
  have "\<forall>k' \<in> set (obj_keys ob). \<not> key_before k k'"
    using assms by (auto simp: obj_ok_def obj_keys_def sorted_wrt_append key_before_def)
  then have "obj_insert k v ob = ob @ [(k, v)]"
    by (induction k v ob rule: obj_insert.induct) (auto simp: obj_keys_def)
  with fresh show ?thesis by (simp add: obj_set_def)
qed

lemma obj_ok_prefix: "obj_ok (a @ b) \<Longrightarrow> obj_ok a"
  by (auto simp: obj_ok_def obj_keys_def sorted_wrt_append)

lemma obj_rebuild_append: "obj_ok (a @ b) \<Longrightarrow> obj_assign a b = a @ b"
proof (induction b arbitrary: a)
  case (Cons kv b)
  obtain k v where kv: "kv = (k, v)" by (cases kv)
  from Cons.prems have "obj_ok ((a @ [(k, v)]) @ b)" by (simp add: kv)
  then have "obj_set k v a = a @ [(k, v)]" "obj_assign (a @ [(k, v)]) b = (a @ [(k, v)]) @ b"
    by (blast intro: obj_set_snoc obj_ok_prefix) (rule Cons.IH, simp add: kv Cons.prems [unfolded kv])
  then show ?case by (simp add: obj_assign_def kv)
qed (simp add: obj_assign_def)

lemma obj_rebuild: "obj_ok ob \<Longrightarrow> obj_assign [] ob = ob"
  using obj_rebuild_append [of "[]" ob] by simp

lemma obj_ok_map_values:
  "obj_ok (map (\<lambda>(k, v). (k, f k v)) ob) \<longleftrightarrow> obj_ok ob"
proof -
  have "obj_keys (map (\<lambda>(k, v). (k, f k v)) ob) = obj_keys ob"
    by (induction ob) (auto simp: obj_keys_def)
  then show ?thesis by (simp add: obj_ok_def)
qed

lemma obj_ok_filter: "obj_ok ob \<Longrightarrow> obj_ok (filter P ob)"
  unfolding obj_ok_def obj_keys_def sorted_wrt_map
  by (blast intro: distinct_map_filter sorted_wrt_filter)

text \<open>A second assignment to the same property replaces the first.\<close>

lemma obj_insert_replace:
  "k \<notin> set (obj_keys ob) \<Longrightarrow>
   map (\<lambda>(k', v'). (k', if k' = k then w else v')) (obj_insert k v ob) = obj_insert k w ob"
proof (induction k v ob rule: obj_insert.induct)
  case (2 k v k' v' ob)
  have "map (\<lambda>(k', v'). (k', if k' = k then w else v')) ob = ob" if "k \<notin> set (obj_keys ob)"
    using that by (intro map_idI) (force simp: obj_keys_def)
  with 2 show ?case by (auto simp: obj_keys_def)
qed simp

lemma obj_set_set: "obj_set k w (obj_set k v ob) = obj_set k w ob"
  by (auto simp: obj_set_def set_keys_obj_insert obj_insert_replace)

lemma obj_set_same: "obj_ok ob \<Longrightarrow> obj_get ob k = Some v \<Longrightarrow> obj_set k v ob = ob"
  by (auto simp: obj_set_def obj_keys_get obj_in_get intro!: map_idI dest: obj_in_get [of ob])

lemma set_obj_set: "set (obj_set k v ob) \<subseteq> insert (k, v) (set ob)"
proof -
  have "set (obj_insert k v ob) = insert (k, v) (set ob)" by (induction k v ob rule: obj_insert.induct) auto
  then show ?thesis by (auto simp: obj_set_def split: if_splits)
qed

section \<open>Maps\<close>

type_synonym ('k, 'v) jsmap = "('k \<times> 'v) list"

definition map_get :: "('k, 'v) jsmap \<Rightarrow> 'k \<Rightarrow> 'v option" where
  "map_get m k = map_of m k"

definition map_keys :: "('k, 'v) jsmap \<Rightarrow> 'k list" where
  "map_keys m = map fst m"

definition map_set :: "'k \<Rightarrow> 'v \<Rightarrow> ('k, 'v) jsmap \<Rightarrow> ('k, 'v) jsmap" where
  "map_set k v m =
     (if k \<in> set (map_keys m) then map (\<lambda>(k', v'). (k', if k' = k then v else v')) m
      else m @ [(k, v)])"

definition map_delete :: "'k \<Rightarrow> ('k, 'v) jsmap \<Rightarrow> ('k, 'v) jsmap" where
  "map_delete k m = filter (\<lambda>(k', v'). k' \<noteq> k) m"

definition map_ok :: "('k, 'v) jsmap \<Rightarrow> bool" where
  "map_ok m = distinct (map_keys m)"

lemma map_get_set [js_simps]:
  "map_get (map_set k v m) k' = (if k' = k then Some v else map_get m k')"
proof (cases "k \<in> fst ` set m")
  case True
  then show ?thesis by (simp add: map_get_def map_set_def map_keys_def map_of_replace)
next
  case False
  then have "map_of m k = None" by (simp add: map_of_eq_None_iff)
  with False show ?thesis
    by (cases "map_of m k'") (auto simp: map_get_def map_set_def map_keys_def map_add_def)
qed

lemma map_get_delete [js_simps]:
  "map_get (map_delete k m) k' = (if k' = k then None else map_get m k')"
  by (induction m) (auto simp: map_get_def map_delete_def)

lemma map_keys_get: "k \<in> set (map_keys m) \<longleftrightarrow> map_get m k \<noteq> None"
  by (auto simp: map_get_def map_keys_def map_of_eq_None_iff)

lemma map_get_Nil [simp, js_simps]: "map_get [] k = None"
  by (simp add: map_get_def)

lemma map_ok_Nil [simp]: "map_ok []"
  by (simp add: map_ok_def map_keys_def)

lemma map_keys_set:
  "map_keys (map_set k v m) = (if k \<in> set (map_keys m) then map_keys m else map_keys m @ [k])"
  by (auto simp: map_set_def map_keys_def)

lemma map_ok_set: "map_ok m \<Longrightarrow> map_ok (map_set k v m)"
  by (simp add: map_ok_def map_keys_set)

lemma map_ok_delete: "map_ok m \<Longrightarrow> map_ok (map_delete k m)"
  by (auto simp: map_ok_def map_keys_def map_delete_def distinct_map_filter)

interpretation jsmap: keyed_store map_get map_set map_delete map_keys map_ok
  by unfold_locales
    (auto simp: map_get_set map_get_delete map_keys_get map_ok_set map_ok_delete,
     simp add: map_ok_def)

text \<open>
  JSON values, and the reads the code makes of values of unknown shape. Numbers are integers.
\<close>

datatype json = JNull | JBool bool | JNum int | JStr jstr | JArr "json list" | JObj "(jstr \<times> json) list"

text \<open>A property of a value: \<open>None\<close> is \<open>undefined\<close>, and only objects have the ones read here.\<close>

definition json_field :: "json \<Rightarrow> jstr \<Rightarrow> json option" where
  "json_field v name = (case v of JObj fs \<Rightarrow> map_of fs name | _ \<Rightarrow> None)"

text \<open>\<open>String(v)\<close> of an integer.\<close>

definition string_of_int :: "int \<Rightarrow> jstr" where
  "string_of_int n = (if n < 0 then CHR ''-'' # string_of_nat (nat (- n)) else string_of_nat (nat n))"

text \<open>The entries of an object, spread into another.\<close>

definition json_entries :: "json \<Rightarrow> json jsobj" where
  "json_entries v = (case v of JObj fs \<Rightarrow> fs | _ \<Rightarrow> [])"

text \<open>A property that is a string.\<close>

definition str_field :: "json \<Rightarrow> jstr \<Rightarrow> jstr option" where
  "str_field v name = (case json_field v name of Some (JStr s) \<Rightarrow> Some s | _ \<Rightarrow> None)"

text \<open>An object that is not \<open>null\<close>; arrays are objects without the fields read here.\<close>

definition is_object :: "json \<Rightarrow> bool" where
  "is_object v = (case v of JObj _ \<Rightarrow> True | JArr _ \<Rightarrow> True | _ \<Rightarrow> False)"

definition js_truthy :: "json \<Rightarrow> bool" where
  "js_truthy v = (case v of JNull \<Rightarrow> False | JBool b \<Rightarrow> b | JNum n \<Rightarrow> n \<noteq> 0 | JStr s \<Rightarrow> s \<noteq> [] | _ \<Rightarrow> True)"

end
