(* ===== verification/Tab_Urls.thy ===== *)
theory Tab_Urls
  imports JS_Object
begin

text \<open>
  Tab URLs of the desktop shell: the reserved workspace slugs
  (\<open>packages/core/paths/reserved-slugs.ts\<close>) and the URL helpers of
  \<open>apps/desktop/src/renderer/src/stores/tab-store.ts\<close>. The lemmas show that
  \<open>sanitizeTabPath\<close> is a normaliser: what it returns is workspace-scoped, it keeps the slug
  and the view state (search and hash), and applying it twice changes nothing.
\<close>

definition reserved_slugs :: "jstr list" where
  "reserved_slugs =
   [''login'', ''logout'', ''signin'', ''signout'', ''signup'', ''auth'',
    ''oauth'', ''callback'', ''invite'', ''invitations'', ''verify'', ''reset'',
    ''password'', ''onboarding'', ''api'', ''admin'', ''silieco'', ''www'',
    ''new'', ''home'', ''homepage'', ''dashboard'', ''help'', ''about'',
    ''pricing'', ''changelog'', ''docs'', ''support'', ''status'', ''legal'',
    ''privacy'', ''terms'', ''security'', ''contact'', ''contact-sales'', ''blog'',
    ''careers'', ''press'', ''download'', ''usecases'', ''profile'', ''account'',
    ''billing'', ''notifications'', ''search'', ''members'', ''tasks'', ''issues'',
    ''projects'', ''autopilots'', ''agents'', ''squads'', ''inbox'', ''my-tasks'',
    ''my-issues'', ''usage'', ''runtimes'', ''skills'', ''settings'', ''workspaces'',
    ''teams'', ''v1'', ''v2'', ''graphql'', ''webhooks'', ''sdk'',
    ''tokens'', ''cli'', ''health'', ''readyz'', ''healthz'', ''ws'',
    ''metrics'', ''ping'', ''postmaster'', ''abuse'', ''noreply'', ''webmaster'',
    ''hostmaster'', ''mail'', ''ftp'', ''static'', ''cdn'', ''assets'',
    ''public'', ''files'', ''uploads'', ''_next'', ''favicon.ico'', ''robots.txt'',
    ''sitemap.xml'', ''manifest.json'', ''.well-known'']"

definition isReservedSlug :: "jstr \<Rightarrow> bool" where
  "isReservedSlug slug = (slug \<in> set reserved_slugs)"

text \<open>\<open>path.split("/").filter(Boolean)\<close>.\<close>

definition path_segments :: "jstr \<Rightarrow> jstr list" where
  "path_segments path = filter (\<lambda>w. w \<noteq> []) (str_split CHR ''/'' path)"

definition extractWorkspaceSlug :: "jstr \<Rightarrow> jstr option" where
  "extractWorkspaceSlug path =
     (case path_segments path of
        [] \<Rightarrow> None
      | first # _ \<Rightarrow> if isReservedSlug first then None else Some first)"

text \<open>The index of the first \<open>?\<close> or \<open>#\<close>, as the code computes it from two searches.\<close>

definition url_cut :: "jstr \<Rightarrow> nat option" where
  "url_cut url =
     (case str_index_of url CHR ''?'' of
        None \<Rightarrow> str_index_of url CHR ''#''
      | Some a \<Rightarrow>
          (case str_index_of url CHR ''#'' of None \<Rightarrow> Some a | Some b \<Rightarrow> Some (min a b)))"

definition splitTabUrl :: "jstr \<Rightarrow> jstr \<times> jstr" where
  "splitTabUrl url =
     (case url_cut url of None \<Rightarrow> (url, []) | Some i \<Rightarrow> (take i url, drop i url))"

definition resourceKeyForUrl :: "jstr \<Rightarrow> jstr" where
  "resourceKeyForUrl url = fst (splitTabUrl url)"

definition sanitizeTabPath :: "jstr \<Rightarrow> jstr option" where
  "sanitizeTabPath path =
     (let (pathname, suffix) = splitTabUrl path in
      case path_segments pathname of
        [] \<Rightarrow> None
      | [first] \<Rightarrow> if isReservedSlug first then None else Some (''/'' @ first @ ''/tasks'' @ suffix)
      | first # _ \<Rightarrow> if isReservedSlug first then None else Some path)"

definition defaultPathFor :: "jstr \<Rightarrow> jstr" where
  "defaultPathFor slug = ''/'' @ slug @ ''/tasks''"

section \<open>Splitting a URL\<close>

definition is_suffix_char :: "char \<Rightarrow> bool" where
  "is_suffix_char c = (c = CHR ''?'' \<or> c = CHR ''#'')"

lemma url_cut_eq: "url_cut url = find_index is_suffix_char url"
  unfolding is_suffix_char_def url_cut_def str_index_of_def find_index_or by simp

lemma splitTabUrl_eq:
  "splitTabUrl url = (takeWhile (\<lambda>c. \<not> is_suffix_char c) url, dropWhile (\<lambda>c. \<not> is_suffix_char c) url)"
  unfolding splitTabUrl_def url_cut_eq by (rule split_at_find_index)

lemma resourceKeyForUrl_eq: "resourceKeyForUrl url = takeWhile (\<lambda>c. \<not> is_suffix_char c) url"
  by (simp add: resourceKeyForUrl_def splitTabUrl_eq)

lemma splitTabUrl_join: "fst (splitTabUrl url) @ snd (splitTabUrl url) = url"
  by (simp add: splitTabUrl_eq)

lemma splitTabUrl_append:
  assumes "\<forall>c \<in> set p. \<not> is_suffix_char c"
  shows "splitTabUrl (p @ snd (splitTabUrl url)) = (p, snd (splitTabUrl url))"
proof -
  let ?s = "dropWhile (\<lambda>c. \<not> is_suffix_char c) url"
  have "?s = [] \<or> is_suffix_char (hd ?s)"
    by (metis hd_dropWhile)
  then have "takeWhile (\<lambda>c. \<not> is_suffix_char c) ?s = []" "dropWhile (\<lambda>c. \<not> is_suffix_char c) ?s = ?s"
    by (auto simp: takeWhile_eq_Nil_iff)
  with assms show ?thesis
    by (simp add: splitTabUrl_eq takeWhile_append dropWhile_append)
qed

lemma resourceKey_no_suffix: "c \<in> set (resourceKeyForUrl url) \<Longrightarrow> \<not> is_suffix_char c"
  by (auto simp: resourceKeyForUrl_eq dest: set_takeWhileD)

section \<open>Segments\<close>

lemma path_segments_ne: "w \<in> set (path_segments p) \<Longrightarrow> w \<noteq> [] \<and> CHR ''/'' \<notin> set w"
  by (auto simp: path_segments_def dest: str_split_parts)

lemma path_segments_chars: "w \<in> set (path_segments p) \<Longrightarrow> set w \<subseteq> set p"
  by (auto simp: path_segments_def dest: str_split_parts)

lemma path_segments_slash: "path_segments (CHR ''/'' # p) = path_segments p"
  by (simp add: path_segments_def)

lemma path_segments_Nil [simp]: "path_segments [] = []"
  by (simp add: path_segments_def)

lemma path_segments_word:
  "w \<noteq> [] \<Longrightarrow> CHR ''/'' \<notin> set w \<Longrightarrow> path_segments w = [w]"
  by (simp add: path_segments_def str_split_no_sep)

lemma path_segments_cons:
  "w \<noteq> [] \<Longrightarrow> CHR ''/'' \<notin> set w \<Longrightarrow> path_segments (w @ CHR ''/'' # p) = w # path_segments p"
  by (simp add: path_segments_def str_split_append)

lemma path_segments_default:
  "slug \<noteq> [] \<Longrightarrow> CHR ''/'' \<notin> set slug \<Longrightarrow>
   path_segments (''/'' @ slug @ ''/tasks'') = [slug, ''tasks'']"
  by (simp add: path_segments_slash path_segments_cons path_segments_word)

text \<open>Appending to a path leaves every segment but its last one unchanged.\<close>

lemma str_split_append_any:
  "str_split d (p @ s) =
     butlast (str_split d p) @ (last (str_split d p) @ hd (str_split d s)) # tl (str_split d s)"
proof (induction p)
  case Nil
  show ?case by (cases "str_split d s") auto
next
  case (Cons c p)
  then show ?case by (cases "str_split d p") auto
qed

lemma path_segments_append:
  assumes "path_segments p = w # v # ws"
  shows "\<exists>u us. path_segments (p @ s) = w # u # us \<or> path_segments (p @ s) = [w]"
proof -
  let ?ne = "filter (\<lambda>w. w \<noteq> [])"
  have "str_split CHR ''/'' p = butlast (str_split CHR ''/'' p) @ [last (str_split CHR ''/'' p)]"
    by simp
  then have "path_segments p = ?ne (butlast (str_split CHR ''/'' p)) @ ?ne [last (str_split CHR ''/'' p)]"
    unfolding path_segments_def by (metis filter_append)
  with assms obtain r where "?ne (butlast (str_split CHR ''/'' p)) = w # r"
    by (cases "?ne (butlast (str_split CHR ''/'' p))") (auto split: if_splits)
  then have "path_segments (p @ s) = w # r @ ?ne ((last (str_split CHR ''/'' p) @ hd (str_split CHR ''/'' s))
    # tl (str_split CHR ''/'' s))"
    by (simp only: path_segments_def str_split_append_any filter_append append_Cons)
  then show ?thesis by (metis neq_Nil_conv)
qed

section \<open>The normaliser\<close>

text \<open>The result of a successful call, by the number of segments of the pathname.\<close>

lemma sanitize_cases:
  assumes "sanitizeTabPath path = Some clean"
  obtains (bare) slug where "path_segments (resourceKeyForUrl path) = [slug]"
      and "\<not> isReservedSlug slug" and "clean = defaultPathFor slug @ snd (splitTabUrl path)"
    | (full) slug seg rest where "path_segments (resourceKeyForUrl path) = slug # seg # rest"
      and "\<not> isReservedSlug slug" and "clean = path"
  using assms
  by (auto simp: sanitizeTabPath_def resourceKeyForUrl_def defaultPathFor_def Let_def
      split: prod.splits list.splits if_splits)

lemma slug_no_suffix:
  "slug \<in> set (path_segments (resourceKeyForUrl path)) \<Longrightarrow> c \<in> set (defaultPathFor slug) \<Longrightarrow>
   \<not> is_suffix_char c"
  using path_segments_chars resourceKey_no_suffix
  by (auto simp: defaultPathFor_def is_suffix_char_def) blast+

lemma sanitize_bare_split:
  assumes "path_segments (resourceKeyForUrl path) = [slug]"
  shows "splitTabUrl (defaultPathFor slug @ snd (splitTabUrl path)) = (defaultPathFor slug, snd (splitTabUrl path))"
  using assms slug_no_suffix [of slug path] by (intro splitTabUrl_append) auto

lemma sanitize_segments:
  assumes "sanitizeTabPath path = Some clean"
  shows "\<exists>slug seg rest. path_segments (resourceKeyForUrl clean) = slug # seg # rest \<and> \<not> isReservedSlug slug"
  using assms
proof (cases rule: sanitize_cases)
  case (bare slug)
  then have "slug \<noteq> []" "CHR ''/'' \<notin> set slug"
    using path_segments_ne [of slug "resourceKeyForUrl path"] by auto
  then have "path_segments (defaultPathFor slug) = [slug, ''tasks'']"
    unfolding defaultPathFor_def by (rule path_segments_default)
  moreover from bare have "resourceKeyForUrl clean = defaultPathFor slug"
    by (simp only: resourceKeyForUrl_def sanitize_bare_split [OF bare(1)] fst_conv)
  ultimately show ?thesis using bare(2) by simp
qed auto

lemma sanitize_idem: "sanitizeTabPath path = Some clean \<Longrightarrow> sanitizeTabPath clean = Some clean"
  using sanitize_segments [of path clean]
  by (auto simp: sanitizeTabPath_def [of clean] resourceKeyForUrl_def split: prod.splits)

text \<open>The slug \<open>extractWorkspaceSlug\<close> reads off a normalised URL is the first segment of its pathname.\<close>

lemma sanitize_slug:
  assumes "sanitizeTabPath path = Some clean"
  shows "extractWorkspaceSlug clean = extractWorkspaceSlug (resourceKeyForUrl clean)"
    and "\<exists>slug. extractWorkspaceSlug clean = Some slug \<and> slug \<noteq> []"
proof -
  obtain slug seg rest where segs: "path_segments (resourceKeyForUrl clean) = slug # seg # rest"
    and free: "\<not> isReservedSlug slug"
    using sanitize_segments [OF assms] by blast
  have "clean = resourceKeyForUrl clean @ snd (splitTabUrl clean)"
    by (simp add: resourceKeyForUrl_def splitTabUrl_join)
  with path_segments_append [OF segs, of "snd (splitTabUrl clean)"]
  obtain us where "path_segments clean = slug # us" by metis
  with segs free show "extractWorkspaceSlug clean = extractWorkspaceSlug (resourceKeyForUrl clean)"
    by (simp add: extractWorkspaceSlug_def)
  have "slug \<noteq> []" using path_segments_ne [of slug "resourceKeyForUrl clean"] segs by auto
  with free \<open>path_segments clean = slug # us\<close>
  show "\<exists>slug. extractWorkspaceSlug clean = Some slug \<and> slug \<noteq> []"
    by (simp add: extractWorkspaceSlug_def)
qed

lemma sanitize_default:
  assumes "slug \<noteq> []" "CHR ''/'' \<notin> set slug" "\<forall>c \<in> set slug. \<not> is_suffix_char c" "\<not> isReservedSlug slug"
  shows "sanitizeTabPath (defaultPathFor slug) = Some (defaultPathFor slug)"
    and "extractWorkspaceSlug (defaultPathFor slug) = Some slug"
proof -
  have "\<forall>c \<in> set (defaultPathFor slug). \<not> is_suffix_char c"
    using assms(3) by (auto simp: defaultPathFor_def is_suffix_char_def)
  then have "splitTabUrl (defaultPathFor slug) = (defaultPathFor slug, [])"
    by (auto simp: splitTabUrl_eq takeWhile_eq_all_conv dropWhile_eq_Nil_conv)
  moreover have "path_segments (defaultPathFor slug) = [slug, ''tasks'']"
    unfolding defaultPathFor_def using assms(1,2) by (rule path_segments_default)
  ultimately show "sanitizeTabPath (defaultPathFor slug) = Some (defaultPathFor slug)"
    and "extractWorkspaceSlug (defaultPathFor slug) = Some slug"
    using assms(4) by (simp_all add: sanitizeTabPath_def extractWorkspaceSlug_def)
qed

end
