(* ===== verification/Machines.thy ===== *)
theory Machines
  imports JS_Prelude
begin

text \<open>
  The interface under which the stateful components are verified: a start state, a step
  function over operations (one per store action or event handler), the condition under
  which the environment offers an operation, and an invariant every step keeps. A component
  interprets \<open>invariant_machine\<close> on its own step function and obtains the invariant for
  every state reachable by any interleaving of its operations.
\<close>

inductive reachable :: "('s \<Rightarrow> bool) \<Rightarrow> ('s \<Rightarrow> 'e \<Rightarrow> 's) \<Rightarrow> ('s \<Rightarrow> 'e \<Rightarrow> bool) \<Rightarrow> 's \<Rightarrow> bool"
  for start step enabled where
  init: "start s \<Longrightarrow> reachable start step enabled s"
| step: "reachable start step enabled s \<Longrightarrow> enabled s e \<Longrightarrow> reachable start step enabled (step s e)"

text \<open>The executable counterpart: a run over a list of operations, each offered when due.\<close>

fun run_ok :: "('s \<Rightarrow> 'e \<Rightarrow> 's) \<Rightarrow> ('s \<Rightarrow> 'e \<Rightarrow> bool) \<Rightarrow> 's \<Rightarrow> 'e list \<Rightarrow> bool" where
  "run_ok step enabled s [] = True"
| "run_ok step enabled s (e # es) = (enabled s e \<and> run_ok step enabled (step s e) es)"

lemma run_ok_append:
  "run_ok step enabled s (es @ fs) \<longleftrightarrow> run_ok step enabled s es \<and> run_ok step enabled (foldl step s es) fs"
  by (induction es arbitrary: s) simp_all

lemma reachable_run:
  "reachable start step enabled s \<Longrightarrow> run_ok step enabled s es \<Longrightarrow>
   reachable start step enabled (foldl step s es)"
  by (induction es arbitrary: s) (auto intro: reachable.step)

locale invariant_machine =
  fixes start :: "'s \<Rightarrow> bool"
    and step :: "'s \<Rightarrow> 'e \<Rightarrow> 's"
    and enabled :: "'s \<Rightarrow> 'e \<Rightarrow> bool"
    and inv :: "'s \<Rightarrow> bool"
  assumes inv_start: "start s \<Longrightarrow> inv s"
    and inv_step: "inv s \<Longrightarrow> enabled s e \<Longrightarrow> inv (step s e)"
begin

lemma inv_reachable: "reachable start step enabled s \<Longrightarrow> inv s"
  by (induction rule: reachable.induct) (auto intro: inv_start inv_step)

lemma inv_run: "inv s \<Longrightarrow> run_ok step enabled s es \<Longrightarrow> inv (foldl step s es)"
  by (induction es arbitrary: s) (auto intro: inv_step)

text \<open>A quantity no step decreases is monotone along every run.\<close>

lemma run_mono:
  fixes f :: "'s \<Rightarrow> 'b::preorder"
  assumes "\<And>s e. inv s \<Longrightarrow> enabled s e \<Longrightarrow> f s \<le> f (step s e)"
  shows "inv s \<Longrightarrow> run_ok step enabled s es \<Longrightarrow> f s \<le> f (foldl step s es)"
proof (induction es arbitrary: s)
  case (Cons e es)
  then have "f s \<le> f (step s e)" "f (step s e) \<le> f (foldl step (step s e) es)"
    by (auto intro: assms inv_step)
  then show ?case by (auto intro: order_trans)
qed simp

end

end
