(* ===== verification/Tab_Store.thy ===== *)
theory Tab_Store
  imports Tab_Urls Machines
begin

text \<open>
  The desktop tab store (\<open>apps/desktop/src/renderer/src/stores/tab-store.ts\<close>): its state and
  one definition per action, in the order of the source. An action is a function on the
  store; an action that creates a tab takes the identifier \<open>createSafeId\<close> returns as its
  argument \<open>fresh\<close>, and \<open>moveTab\<close> takes the \<open>arrayMove\<close> function of \<open>@dnd-kit/sortable\<close>
  as a parameter. Console warnings are not part of the state.
\<close>

section \<open>State\<close>

record scroll_offset =
  so_top :: int
  so_height :: int

type_synonym scroll_map = "scroll_offset jsobj"

definition emptyMemento :: scroll_map where
  "emptyMemento = []"

definition scrollMementoKey :: "jstr \<Rightarrow> jstr \<Rightarrow> jstr" where
  "scrollMementoKey routeKey containerKey = routeKey @ ''::'' @ containerKey"

record tab_history =
  hist_stack :: "jstr list"
  hist_index :: nat

record tab_session =
  tab_id :: jstr
  tab_url :: jstr
  resourceKey :: jstr
  tab_title :: jstr
  pinned :: bool
  history :: tab_history
  tab_scroll :: scroll_map

record tab_group =
  tabs :: "tab_session list"
  activeTabId :: jstr

record tab_store =
  activeWorkspaceSlug :: "jstr option"
  byWorkspace :: "tab_group jsobj"
  mountGeneration :: nat

definition initial_tab_store :: tab_store where
  "initial_tab_store = \<lparr>activeWorkspaceSlug = None, byWorkspace = [], mountGeneration = 0\<rparr>"

section \<open>Session factory and group helpers\<close>

definition makeSession :: "jstr \<Rightarrow> jstr \<Rightarrow> jstr \<Rightarrow> tab_session" where
  "makeSession fresh url title =
     \<lparr>tab_id = fresh, tab_url = url, resourceKey = resourceKeyForUrl url, tab_title = title,
      pinned = False, history = \<lparr>hist_stack = [url], hist_index = 0\<rparr>,
      tab_scroll = emptyMemento\<rparr>"

fun pinnedBoundary :: "tab_session list \<Rightarrow> nat" where
  "pinnedBoundary [] = 0"
| "pinnedBoundary (t # ts) = (if pinned t then Suc (pinnedBoundary ts) else 0)"

definition defaultTabFor :: "jstr \<Rightarrow> jstr \<Rightarrow> tab_session" where
  "defaultTabFor fresh slug = makeSession fresh (defaultPathFor slug) ''Tasks''"

text \<open>The first group, in property order, that holds the tab.\<close>

fun findTabLocation :: "tab_group jsobj \<Rightarrow> jstr \<Rightarrow> (jstr \<times> tab_group \<times> nat) option" where
  "findTabLocation [] tabId = None"
| "findTabLocation ((slug, grp) # rest) tabId =
     (case find_index (\<lambda>t. tab_id t = tabId) (tabs grp) of
        Some index \<Rightarrow> Some (slug, grp, index)
      | None \<Rightarrow> findTabLocation rest tabId)"

definition buildCloseOtherTabsResult :: "tab_group jsobj \<Rightarrow> jstr \<Rightarrow> tab_group jsobj option" where
  "buildCloseOtherTabsResult bw tabId =
     (case findTabLocation bw tabId of
        None \<Rightarrow> None
      | Some (slug, grp, _) \<Rightarrow>
          let closingTabs = filter (\<lambda>t. \<not> pinned t \<and> tab_id t \<noteq> tabId) (tabs grp) in
          if closingTabs = [] then None
          else
            let closingIds = map tab_id closingTabs;
                nextTabs = filter (\<lambda>t. tab_id t \<notin> set closingIds) (tabs grp);
                nextActive = (if activeTabId grp \<in> set closingIds then tabId else activeTabId grp)
            in Some (obj_set slug \<lparr>tabs = nextTabs, activeTabId = nextActive\<rparr> bw))"

text \<open>
  A nullable slug as JavaScript's truth test reads it: \<open>null\<close> and the empty string are false.
\<close>

definition truthy :: "jstr option \<Rightarrow> jstr option" where
  "truthy v = (case v of Some (c # cs) \<Rightarrow> Some (c # cs) | _ \<Rightarrow> None)"

text \<open>The active group, as most actions look it up: the slug must be set and have a group.\<close>

definition active_group :: "tab_store \<Rightarrow> (jstr \<times> tab_group) option" where
  "active_group s =
     (case truthy (activeWorkspaceSlug s) of
        None \<Rightarrow> None
      | Some slug \<Rightarrow> map_option (Pair slug) (obj_get (byWorkspace s) slug))"

definition put_group :: "jstr \<Rightarrow> tab_group \<Rightarrow> tab_store \<Rightarrow> tab_store" where
  "put_group slug g s = s\<lparr>byWorkspace := obj_set slug g (byWorkspace s)\<rparr>"

section \<open>Actions\<close>

definition switchWorkspace :: "jstr \<Rightarrow> jstr \<Rightarrow> jstr option \<Rightarrow> tab_store \<Rightarrow> tab_store" where
  "switchWorkspace fresh slug openPath s =
     (if slug = [] then s
      else
        case obj_get (byWorkspace s) slug of
          None \<Rightarrow>
            let desiredPath = (case openPath of Some p \<Rightarrow> p | None \<Rightarrow> defaultPathFor slug);
                cleanDesired = (if desiredPath \<noteq> [] then sanitizeTabPath desiredPath else None);
                seedPath = (case cleanDesired of Some p \<Rightarrow> p | None \<Rightarrow> defaultPathFor slug);
                tab = makeSession fresh seedPath ''Tasks''
            in (put_group slug \<lparr>tabs = [tab], activeTabId = tab_id tab\<rparr> s)\<lparr>activeWorkspaceSlug := Some slug\<rparr>
        | Some existing \<Rightarrow>
            (case truthy openPath of
               None \<Rightarrow> s\<lparr>activeWorkspaceSlug := Some slug\<rparr>
             | Some desiredPath \<Rightarrow>
                 (case sanitizeTabPath desiredPath of
                    None \<Rightarrow> s\<lparr>activeWorkspaceSlug := Some slug\<rparr>
                  | Some clean \<Rightarrow>
                      (case find (\<lambda>t. resourceKey t = resourceKeyForUrl clean) (tabs existing) of
                         Some match \<Rightarrow>
                           (put_group slug (existing\<lparr>activeTabId := tab_id match\<rparr>) s)
                             \<lparr>activeWorkspaceSlug := Some slug\<rparr>
                       | None \<Rightarrow>
                           let tab = makeSession fresh clean ''Tasks'' in
                           (put_group slug \<lparr>tabs = tabs existing @ [tab], activeTabId = tab_id tab\<rparr> s)
                             \<lparr>activeWorkspaceSlug := Some slug\<rparr>))))"

text \<open>\<open>openTab\<close> and \<open>addTab\<close> return the identifier of the tab, or the empty string.\<close>

definition openTab :: "jstr \<Rightarrow> jstr \<Rightarrow> jstr \<Rightarrow> bool \<Rightarrow> tab_store \<Rightarrow> tab_store \<times> jstr" where
  "openTab fresh path title activate s =
     (case sanitizeTabPath path of
        None \<Rightarrow> (s, [])
      | Some clean \<Rightarrow>
          (case active_group s of
             None \<Rightarrow> (s, [])
           | Some (slug, grp) \<Rightarrow>
               (case find (\<lambda>t. resourceKey t = resourceKeyForUrl clean) (tabs grp) of
                  Some existing \<Rightarrow>
                    (put_group slug (grp\<lparr>activeTabId := tab_id existing\<rparr>) s, tab_id existing)
                | None \<Rightarrow>
                    let tab = makeSession fresh clean title in
                    (put_group slug
                       \<lparr>tabs = tabs grp @ [tab],
                        activeTabId = (if activate then tab_id tab else activeTabId grp)\<rparr> s,
                     tab_id tab))))"

definition addTab :: "jstr \<Rightarrow> jstr \<Rightarrow> jstr \<Rightarrow> tab_store \<Rightarrow> tab_store \<times> jstr" where
  "addTab fresh path title s =
     (case sanitizeTabPath path of
        None \<Rightarrow> (s, [])
      | Some clean \<Rightarrow>
          (case active_group s of
             None \<Rightarrow> (s, [])
           | Some (slug, grp) \<Rightarrow>
               let tab = makeSession fresh clean title in
               (put_group slug \<lparr>tabs = tabs grp @ [tab], activeTabId = activeTabId grp\<rparr> s,
                tab_id tab)))"

definition closeTab :: "jstr \<Rightarrow> jstr \<Rightarrow> tab_store \<Rightarrow> tab_store" where
  "closeTab fresh tabId s =
     (case findTabLocation (byWorkspace s) tabId of
        None \<Rightarrow> s
      | Some (slug, grp, index) \<Rightarrow>
          if length (tabs grp) = 1 then
            let tab = defaultTabFor fresh slug in
            put_group slug \<lparr>tabs = [tab], activeTabId = tab_id tab\<rparr> s
          else
            let nextTabs = filter (\<lambda>t. tab_id t \<noteq> tabId) (tabs grp);
                nextActive = (if activeTabId grp = tabId
                              then tab_id (nextTabs ! min index (length nextTabs - 1))
                              else activeTabId grp)
            in put_group slug \<lparr>tabs = nextTabs, activeTabId = nextActive\<rparr> s)"

definition closeOtherTabs :: "jstr \<Rightarrow> tab_store \<Rightarrow> tab_store" where
  "closeOtherTabs tabId s =
     (case buildCloseOtherTabsResult (byWorkspace s) tabId of
        None \<Rightarrow> s
      | Some nxt \<Rightarrow> s\<lparr>byWorkspace := nxt\<rparr>)"

definition setActiveTab :: "jstr \<Rightarrow> tab_store \<Rightarrow> tab_store" where
  "setActiveTab tabId s =
     (case findTabLocation (byWorkspace s) tabId of
        None \<Rightarrow> s
      | Some (slug, grp, _) \<Rightarrow>
          if activeWorkspaceSlug s = Some slug \<and> activeTabId grp = tabId then s
          else (put_group slug (grp\<lparr>activeTabId := tabId\<rparr>) s)\<lparr>activeWorkspaceSlug := Some slug\<rparr>)"

text \<open>\<open>patch\<close> is the title of the patch, if it has one.\<close>

definition updateTab :: "jstr \<Rightarrow> jstr option \<Rightarrow> tab_store \<Rightarrow> tab_store" where
  "updateTab tabId patch s =
     (case findTabLocation (byWorkspace s) tabId of
        None \<Rightarrow> s
      | Some (slug, grp, index) \<Rightarrow>
          let current = tabs grp ! index;
              nxt = (case patch of None \<Rightarrow> current | Some title \<Rightarrow> current\<lparr>tab_title := title\<rparr>)
          in if tab_title nxt = tab_title current then s
             else put_group slug (grp\<lparr>tabs := (tabs grp)[index := nxt]\<rparr>) s)"

definition push_history :: "bool \<Rightarrow> jstr \<Rightarrow> tab_history \<Rightarrow> tab_history" where
  "push_history replace url h =
     (if replace
      then \<lparr>hist_stack = take (hist_index h) (hist_stack h) @ url # drop (hist_index h + 1) (hist_stack h),
            hist_index = hist_index h\<rparr>
      else \<lparr>hist_stack = take (hist_index h + 1) (hist_stack h) @ [url],
            hist_index = hist_index h + 1\<rparr>)"

definition navigateActiveSession :: "jstr \<Rightarrow> bool \<Rightarrow> tab_store \<Rightarrow> tab_store" where
  "navigateActiveSession url replace s =
     (case active_group s of
        None \<Rightarrow> s
      | Some (slug, grp) \<Rightarrow>
          (case find_index (\<lambda>t. tab_id t = activeTabId grp) (tabs grp) of
             None \<Rightarrow> s
           | Some index \<Rightarrow>
               (case sanitizeTabPath url of
                  None \<Rightarrow> s
                | Some clean \<Rightarrow>
                    if extractWorkspaceSlug clean \<noteq> Some slug then s
                    else
                      let current = tabs grp ! index in
                      if tab_url current = clean then s
                      else
                        let nxt = current\<lparr>tab_url := clean, resourceKey := resourceKeyForUrl clean,
                                          history := push_history replace clean (history current)\<rparr>
                        in put_group slug (grp\<lparr>tabs := (tabs grp)[index := nxt]\<rparr>) s)))"

text \<open>\<open>stepHistory\<close>; \<open>delta\<close> is \<open>-1\<close> (\<open>goBack\<close>) or \<open>1\<close> (\<open>goForward\<close>).\<close>

definition stepHistory :: "int \<Rightarrow> tab_store \<Rightarrow> tab_store" where
  "stepHistory delta s =
     (case active_group s of
        None \<Rightarrow> s
      | Some (slug, grp) \<Rightarrow>
          (case find_index (\<lambda>t. tab_id t = activeTabId grp) (tabs grp) of
             None \<Rightarrow> s
           | Some index \<Rightarrow>
               let current = tabs grp ! index;
                   h = history current;
                   nextIndex = int (hist_index h) + delta
               in if nextIndex < 0 \<or> nextIndex \<ge> int (length (hist_stack h)) then s
                  else
                    let url = hist_stack h ! nat nextIndex;
                        nxt = current\<lparr>tab_url := url, resourceKey := resourceKeyForUrl url,
                                      history := h\<lparr>hist_index := nat nextIndex\<rparr>\<rparr>
                    in put_group slug (grp\<lparr>tabs := (tabs grp)[index := nxt]\<rparr>) s))"

definition goBack :: "tab_store \<Rightarrow> tab_store" where
  "goBack s = stepHistory (-1) s"

definition goForward :: "tab_store \<Rightarrow> tab_store" where
  "goForward s = stepHistory 1 s"

text \<open>The scroll map \<open>commitScrollMemento\<close> computes: the route's entries are replaced.\<close>

definition next_scroll :: "jstr \<Rightarrow> scroll_map \<Rightarrow> scroll_map \<Rightarrow> scroll_map" where
  "next_scroll routeKey entries scroll =
     fold (\<lambda>(containerKey, v). obj_set (scrollMementoKey routeKey containerKey) v) entries
       (fold (\<lambda>(k, v) acc. if str_starts k (routeKey @ ''::'') then acc else obj_set k v acc) scroll [])"

definition scroll_unchanged :: "scroll_map \<Rightarrow> scroll_map \<Rightarrow> bool" where
  "scroll_unchanged prev nxt =
     (length (obj_keys prev) = length (obj_keys nxt) \<and>
      list_all (\<lambda>k. case obj_get prev k of
                      None \<Rightarrow> False
                    | Some p \<Rightarrow> (case obj_get nxt k of
                                  None \<Rightarrow> False
                                | Some n \<Rightarrow> so_top p = so_top n \<and> so_height p = so_height n))
        (obj_keys nxt))"

definition commitScrollMemento :: "jstr \<Rightarrow> jstr \<Rightarrow> scroll_map \<Rightarrow> tab_store \<Rightarrow> tab_store" where
  "commitScrollMemento tabId routeKey entries s =
     (case findTabLocation (byWorkspace s) tabId of
        None \<Rightarrow> s
      | Some (slug, grp, index) \<Rightarrow>
          let current = tabs grp ! index;
              nextScroll = next_scroll routeKey entries (tab_scroll current)
          in if scroll_unchanged (tab_scroll current) nextScroll then s
             else put_group slug
                    (grp\<lparr>tabs := (tabs grp)[index := current\<lparr>tab_scroll := nextScroll\<rparr>]\<rparr>) s)"

definition reloadActiveTab :: "tab_store \<Rightarrow> tab_store" where
  "reloadActiveTab s =
     (case active_group s of
        None \<Rightarrow> s
      | Some (_, grp) \<Rightarrow>
          if \<not> list_ex (\<lambda>t. tab_id t = activeTabId grp) (tabs grp) then s
          else s\<lparr>mountGeneration := mountGeneration s + 1\<rparr>)"

definition closeActiveTab :: "jstr \<Rightarrow> tab_store \<Rightarrow> tab_store" where
  "closeActiveTab fresh s =
     (case active_group s of
        None \<Rightarrow> s
      | Some (_, grp) \<Rightarrow> closeTab fresh (activeTabId grp) s)"

text \<open>\<open>am\<close> is \<open>arrayMove\<close>: the array, the index moved from, the index moved to.\<close>

type_synonym array_move = "tab_session list \<Rightarrow> nat \<Rightarrow> nat \<Rightarrow> tab_session list"

definition moveTab :: "array_move \<Rightarrow> int \<Rightarrow> int \<Rightarrow> tab_store \<Rightarrow> tab_store" where
  "moveTab am fromIndex toIndex s =
     (if fromIndex = toIndex then s
      else
        case active_group s of
          None \<Rightarrow> s
        | Some (slug, grp) \<Rightarrow>
            if fromIndex < 0 \<or> fromIndex \<ge> int (length (tabs grp)) then s
            else
              let boundary = int (pinnedBoundary (tabs grp));
                  source = tabs grp ! nat fromIndex;
                  clampedTo = (if pinned source
                               then max 0 (min toIndex (boundary - 1))
                               else max boundary (min toIndex (int (length (tabs grp)) - 1)))
              in if clampedTo = fromIndex then s
                 else put_group slug
                        (grp\<lparr>tabs := am (tabs grp) (nat fromIndex) (nat clampedTo)\<rparr>) s)"

definition togglePin :: "jstr \<Rightarrow> tab_store \<Rightarrow> tab_store" where
  "togglePin tabId s =
     (case findTabLocation (byWorkspace s) tabId of
        None \<Rightarrow> s
      | Some (slug, grp, index) \<Rightarrow>
          let current = tabs grp ! index;
              nextTab = current\<lparr>pinned := \<not> pinned current\<rparr>;
              withoutCurrent = remove_nth index (tabs grp);
              nextTabs = insert_nth (pinnedBoundary withoutCurrent) nextTab withoutCurrent
          in put_group slug (grp\<lparr>tabs := nextTabs\<rparr>) s)"

text \<open>\<open>validSlugs\<close> is a \<open>Set\<close>, listed in its iteration order.\<close>

definition first_key :: "'v jsobj \<Rightarrow> jstr option" where
  "first_key ob = (case obj_keys ob of [] \<Rightarrow> None | k # _ \<Rightarrow> Some k)"

definition validateWorkspaceSlugs :: "jstr \<Rightarrow> jstr list \<Rightarrow> tab_store \<Rightarrow> tab_store" where
  "validateWorkspaceSlugs fresh validSlugs s =
     (let kept = filter (\<lambda>(slug, _). slug \<in> set validSlugs) (byWorkspace s);
          changed0 = list_ex (\<lambda>(slug, _). slug \<notin> set validSlugs) (byWorkspace s);
          active0 = activeWorkspaceSlug s;
          (active1, changed1) =
            (case truthy active0 of
               Some a \<Rightarrow> if a \<notin> set validSlugs then (first_key kept, True) else (active0, changed0)
             | None \<Rightarrow> (active0, changed0));
          (active2, changed2) =
            (case truthy active1 of
               Some a \<Rightarrow> (active1, changed1)
             | None \<Rightarrow> (first_key kept, changed1 \<or> truthy (first_key kept) \<noteq> None));
          (kept3, active3, changed3) =
            (case truthy active2 of
               Some a \<Rightarrow> (kept, active2, changed2)
             | None \<Rightarrow>
                 (case validSlugs of
                    [] \<Rightarrow> (kept, active2, changed2)
                  | fallback # _ \<Rightarrow>
                      if fallback = [] then (kept, active2, changed2)
                      else
                        let tab = defaultTabFor fresh fallback in
                        (obj_set fallback \<lparr>tabs = [tab], activeTabId = tab_id tab\<rparr> kept,
                         Some fallback, True)))
      in if \<not> changed3 then s else s\<lparr>byWorkspace := kept3, activeWorkspaceSlug := active3\<rparr>)"

definition reset_tabs :: "tab_store \<Rightarrow> tab_store" where
  "reset_tabs s = \<lparr>activeWorkspaceSlug = None, byWorkspace = [], mountGeneration = 0\<rparr>"

definition getActiveTab :: "tab_store \<Rightarrow> tab_session option" where
  "getActiveTab s =
     (case active_group s of
        None \<Rightarrow> None
      | Some (_, grp) \<Rightarrow> find (\<lambda>t. tab_id t = activeTabId grp) (tabs grp))"

section \<open>The store as a machine\<close>

datatype tab_op =
    SwitchWorkspace jstr "jstr option"
  | OpenTab jstr jstr bool
  | AddTab jstr jstr
  | CloseTab jstr
  | CloseOtherTabs jstr
  | SetActiveTab jstr
  | UpdateTab jstr "jstr option"
  | NavigateActiveSession jstr bool
  | GoBack
  | GoForward
  | CommitScrollMemento jstr jstr scroll_map
  | ReloadActiveTab
  | CloseActiveTab
  | MoveTab int int
  | TogglePin jstr
  | ValidateWorkspaceSlugs "jstr list"
  | Reset

fun tab_step :: "array_move \<Rightarrow> tab_store \<Rightarrow> jstr \<times> tab_op \<Rightarrow> tab_store" where
  "tab_step am s (fresh, SwitchWorkspace slug openPath) = switchWorkspace fresh slug openPath s"
| "tab_step am s (fresh, OpenTab path title activate) = fst (openTab fresh path title activate s)"
| "tab_step am s (fresh, AddTab path title) = fst (addTab fresh path title s)"
| "tab_step am s (fresh, CloseTab tabId) = closeTab fresh tabId s"
| "tab_step am s (fresh, CloseOtherTabs tabId) = closeOtherTabs tabId s"
| "tab_step am s (fresh, SetActiveTab tabId) = setActiveTab tabId s"
| "tab_step am s (fresh, UpdateTab tabId patch) = updateTab tabId patch s"
| "tab_step am s (fresh, NavigateActiveSession url replace) = navigateActiveSession url replace s"
| "tab_step am s (fresh, GoBack) = goBack s"
| "tab_step am s (fresh, GoForward) = goForward s"
| "tab_step am s (fresh, CommitScrollMemento tabId routeKey entries) =
     commitScrollMemento tabId routeKey entries s"
| "tab_step am s (fresh, ReloadActiveTab) = reloadActiveTab s"
| "tab_step am s (fresh, CloseActiveTab) = closeActiveTab fresh s"
| "tab_step am s (fresh, MoveTab i j) = moveTab am i j s"
| "tab_step am s (fresh, TogglePin tabId) = togglePin tabId s"
| "tab_step am s (fresh, ValidateWorkspaceSlugs validSlugs) = validateWorkspaceSlugs fresh validSlugs s"
| "tab_step am s (fresh, Reset) = reset_tabs s"

end
