(* ===== verification/Tab_Invariants.thy ===== *)
theory Tab_Invariants
  imports Tab_Store
begin

text \<open>
  The invariants of the tab store. A URL policy says which URLs a tab of a workspace may
  show; for every policy that admits in-tab navigation and the default page, each action
  keeps the store invariant, so every reachable store satisfies it. The two policies
  interpreted are "any normalised URL" and "only URLs of the tab's own workspace".
\<close>

section \<open>Well-formed sessions and groups\<close>

definition workspace_slug :: "jstr \<Rightarrow> bool" where
  "workspace_slug slug = (slug \<noteq> [] \<and> CHR ''/'' \<notin> set slug \<and> list_all (\<lambda>c. \<not> is_suffix_char c) slug
     \<and> \<not> isReservedSlug slug)"

definition url_ok :: "(jstr \<Rightarrow> jstr \<Rightarrow> bool) \<Rightarrow> jstr \<Rightarrow> jstr \<Rightarrow> bool" where
  "url_ok Q k u = (sanitizeTabPath u = Some u \<and> Q k u)"

definition history_ok :: "(jstr \<Rightarrow> bool) \<Rightarrow> jstr \<Rightarrow> tab_history \<Rightarrow> bool" where
  "history_ok P url h = (hist_index h < length (hist_stack h) \<and> hist_stack h ! hist_index h = url
     \<and> list_all P (hist_stack h))"

definition session_ok :: "(jstr \<Rightarrow> jstr \<Rightarrow> bool) \<Rightarrow> jstr \<Rightarrow> tab_session \<Rightarrow> bool" where
  "session_ok Q k t = (resourceKey t = resourceKeyForUrl (tab_url t)
     \<and> history_ok (url_ok Q k) (tab_url t) (history t) \<and> obj_ok (tab_scroll t))"

definition pinned_first :: "tab_session list \<Rightarrow> bool" where
  "pinned_first ts = sorted_wrt (\<lambda>a b. pinned b \<longrightarrow> pinned a) ts"

definition ids :: "tab_group \<Rightarrow> jstr list" where
  "ids g = map tab_id (tabs g)"

definition group_ok :: "(jstr \<Rightarrow> jstr \<Rightarrow> bool) \<Rightarrow> jstr \<Rightarrow> tab_group \<Rightarrow> bool" where
  "group_ok Q k g = (distinct (ids g) \<and> activeTabId g \<in> set (ids g) \<and> pinned_first (tabs g)
     \<and> list_all (session_ok Q k) (tabs g))"

definition tab_inv :: "(jstr \<Rightarrow> jstr \<Rightarrow> bool) \<Rightarrow> tab_store \<Rightarrow> bool" where
  "tab_inv Q s = (obj_ok (byWorkspace s)
     \<and> (\<forall>k g. obj_get (byWorkspace s) k = Some g \<longrightarrow> workspace_slug k \<and> group_ok Q k g)
     \<and> (\<forall>k k' g g' x. obj_get (byWorkspace s) k = Some g \<longrightarrow> obj_get (byWorkspace s) k' = Some g'
          \<longrightarrow> x \<in> set (ids g) \<longrightarrow> x \<in> set (ids g') \<longrightarrow> k = k')
     \<and> (case activeWorkspaceSlug s of None \<Rightarrow> byWorkspace s = []
        | Some a \<Rightarrow> obj_get (byWorkspace s) a \<noteq> None))"

definition used_id :: "tab_store \<Rightarrow> jstr \<Rightarrow> bool" where
  "used_id s x = list_ex (\<lambda>(_, g). x \<in> set (ids g)) (byWorkspace s)"

lemma group_ok_nonempty: "group_ok Q k g \<Longrightarrow> tabs g \<noteq> []"
  by (auto simp: group_ok_def ids_def)

section \<open>Pinned tabs first\<close>

lemma pinned_first_zoned: "pinned_first ts = zoned pinned ts"
  by (simp add: pinned_first_def zoned_def)

lemma pinnedBoundary_zone: "pinnedBoundary ts = zone_length pinned ts"
  by (induction ts) (simp_all add: zone_length_def)

section \<open>Groups\<close>

lemma ids_simps [simp]:
  "ids (g\<lparr>activeTabId := a\<rparr>) = ids g"
  "ids \<lparr>tabs = ts, activeTabId = a\<rparr> = map tab_id ts"
  "ids (g\<lparr>tabs := ts\<rparr>) = map tab_id ts"
  by (simp_all add: ids_def)

lemma group_ok_activate: "group_ok Q k g \<Longrightarrow> a \<in> set (ids g) \<Longrightarrow> group_ok Q k (g\<lparr>activeTabId := a\<rparr>)"
  by (simp add: group_ok_def)

lemma session_ok_make: "url_ok Q k url \<Longrightarrow> session_ok Q k (makeSession fresh url title)"
  by (simp add: session_ok_def makeSession_def history_ok_def emptyMemento_def)

lemma makeSession_sel [simp]:
  "tab_id (makeSession fresh url title) = fresh" "pinned (makeSession fresh url title) = False"
  by (simp_all add: makeSession_def)

lemma group_ok_single: "url_ok Q k url \<Longrightarrow> group_ok Q k \<lparr>tabs = [makeSession fresh url title], activeTabId = fresh\<rparr>"
  by (simp add: group_ok_def ids_def pinned_first_zoned session_ok_make)

lemma group_ok_append:
  assumes "group_ok Q k g" "url_ok Q k url" "fresh \<notin> set (ids g)" "a \<in> insert fresh (set (ids g))"
  shows "group_ok Q k \<lparr>tabs = tabs g @ [makeSession fresh url title], activeTabId = a\<rparr>"
  using assms by (auto simp: group_ok_def ids_def pinned_first_zoned zoned_append session_ok_make)

lemma group_ok_filter:
  assumes "group_ok Q k g" "a \<in> tab_id ` set (filter P (tabs g))"
  shows "group_ok Q k \<lparr>tabs = filter P (tabs g), activeTabId = a\<rparr>"
  using assms
  by (simp add: group_ok_def ids_def distinct_map_filter pinned_first_zoned zoned_filter list_all_iff)

lemma group_ok_replace:
  assumes "group_ok Q k g" "i < length (tabs g)" "session_ok Q k t"
    and "tab_id t = tab_id (tabs g ! i)" "pinned t = pinned (tabs g ! i)"
  shows "group_ok Q k (g\<lparr>tabs := (tabs g)[i := t]\<rparr>)" "map tab_id ((tabs g)[i := t]) = ids g"
proof -
  show same: "map tab_id ((tabs g)[i := t]) = ids g"
    using assms(2,4) by (simp add: ids_def map_update list_update_same_conv)
  have "map pinned ((tabs g)[i := t]) = map pinned (tabs g)"
    using assms(2,5) by (simp add: map_update list_update_same_conv)
  then have "pinned_first ((tabs g)[i := t]) = pinned_first (tabs g)"
    unfolding pinned_first_zoned by (simp only: zoned_map [of pinned])
  moreover have "list_all (session_ok Q k) ((tabs g)[i := t])"
    using assms(1,3) set_update_subset_insert [of "tabs g" i t]
    unfolding group_ok_def list_all_iff by blast
  ultimately show "group_ok Q k (g\<lparr>tabs := (tabs g)[i := t]\<rparr>)"
    using assms(1) same by (simp add: group_ok_def)
qed

text \<open>A permutation of the tabs that keeps the zones keeps the group well formed.\<close>

lemma group_ok_permute:
  assumes "group_ok Q k g" "mset ts = mset (tabs g)" "pinned_first ts"
  shows "group_ok Q k (g\<lparr>tabs := ts\<rparr>)" "set (map tab_id ts) = set (ids g)"
proof -
  have "set ts = set (tabs g)" using assms(2) by (metis set_mset_mset)
  then show "set (map tab_id ts) = set (ids g)" by (simp add: ids_def)
  moreover have "distinct (map tab_id ts) = distinct (ids g)"
    unfolding ids_def using assms(2) by (metis mset_eq_imp_distinct_iff mset_map)
  ultimately show "group_ok Q k (g\<lparr>tabs := ts\<rparr>)"
    using assms \<open>set ts = set (tabs g)\<close> by (simp add: group_ok_def list_all_iff)
qed

section \<open>The store\<close>

lemma findTabLocation_Some:
  assumes "findTabLocation bw tabId = Some (slug, g, i)"
  shows "(slug, g) \<in> set bw" "i < length (tabs g)" "tab_id (tabs g ! i) = tabId"
    "tabId \<in> set (ids g)"
proof -
  have main: "(slug, g) \<in> set bw \<and> find_index (\<lambda>t. tab_id t = tabId) (tabs g) = Some i"
    using assms by (induction bw tabId rule: findTabLocation.induct) (auto split: option.splits)
  then show "(slug, g) \<in> set bw" by simp
  from main show len: "i < length (tabs g)" and eq: "tab_id (tabs g ! i) = tabId"
    by (auto dest: find_index_Some)
  then show "tabId \<in> set (ids g)" by (auto simp: ids_def)
qed

lemma findTabLocation_get:
  "tab_inv Q s \<Longrightarrow> findTabLocation (byWorkspace s) tabId = Some (slug, g, i) \<Longrightarrow>
   obj_get (byWorkspace s) slug = Some g"
  by (auto simp: tab_inv_def dest: findTabLocation_Some(1) intro: obj_in_get)

lemma tab_inv_group:
  "tab_inv Q s \<Longrightarrow> obj_get (byWorkspace s) k = Some g \<Longrightarrow> workspace_slug k \<and> group_ok Q k g"
  by (simp add: tab_inv_def)

lemma tab_inv_found:
  assumes "tab_inv Q s" "findTabLocation (byWorkspace s) tabId = Some (slug, g, i)"
  shows "obj_get (byWorkspace s) slug = Some g" "workspace_slug slug" "group_ok Q slug g"
    "i < length (tabs g)" "tab_id (tabs g ! i) = tabId" "tabId \<in> set (ids g)"
    "session_ok Q slug (tabs g ! i)"
  using findTabLocation_get [OF assms] tab_inv_group [OF assms(1)] findTabLocation_Some [OF assms(2)]
  by (auto simp: group_ok_def list_all_length)

lemma active_group_Some:
  assumes "active_group s = Some (slug, g)"
  shows "activeWorkspaceSlug s = Some slug" "slug \<noteq> []" "obj_get (byWorkspace s) slug = Some g"
  using assms by (auto simp: active_group_def truthy_def split: option.splits list.splits)

lemma tab_inv_active:
  assumes "tab_inv Q s" "active_group s = Some (slug, g)"
  shows "obj_get (byWorkspace s) slug = Some g" "workspace_slug slug" "group_ok Q slug g"
  using active_group_Some [OF assms(2)] tab_inv_group [OF assms(1)] by auto

lemma used_id_get: "obj_get (byWorkspace s) k = Some g \<Longrightarrow> x \<in> set (ids g) \<Longrightarrow> used_id s x"
  by (auto simp: used_id_def list_ex_iff dest: obj_get_in)

text \<open>The one update every action makes: one group is written, its tabs old or freshly made.\<close>

lemma tab_inv_put:
  assumes inv: "tab_inv Q s" and ok: "workspace_slug slug" "group_ok Q slug g'"
    and own: "\<forall>x \<in> set (ids g'). \<not> used_id s x
      \<or> (\<exists>g. obj_get (byWorkspace s) slug = Some g \<and> x \<in> set (ids g))"
    and act: "act = Some slug \<or> act = activeWorkspaceSlug s \<and> obj_get (byWorkspace s) slug \<noteq> None"
  shows "tab_inv Q ((put_group slug g' s)\<lparr>activeWorkspaceSlug := act\<rparr>)"
proof -
  let ?bw = "byWorkspace s"
  let ?bw' = "obj_set slug g' ?bw"
  have old: "obj_ok ?bw" "\<And>k g. obj_get ?bw k = Some g \<Longrightarrow> workspace_slug k \<and> group_ok Q k g"
    "\<And>k k' g g' x. obj_get ?bw k = Some g \<Longrightarrow> obj_get ?bw k' = Some g' \<Longrightarrow> x \<in> set (ids g) \<Longrightarrow>
       x \<in> set (ids g') \<Longrightarrow> k = k'"
    using inv unfolding tab_inv_def by blast+
  have disj: "k = slug" if "obj_get ?bw k = Some g" "x \<in> set (ids g)" "x \<in> set (ids g')" for k g x
    using own that old(3) used_id_get [OF that(1,2)] by blast
  have "obj_ok ?bw'" using old(1) by (rule obj_ok_set)
  moreover have "workspace_slug k \<and> group_ok Q k g" if "obj_get ?bw' k = Some g" for k g
    using that old(2) ok by (auto simp: obj_get_set split: if_splits)
  moreover have "k = k'" if "obj_get ?bw' k = Some g" "obj_get ?bw' k' = Some h"
    "x \<in> set (ids g)" "x \<in> set (ids h)" for k k' g h x
    using that disj old(3) by (auto simp: obj_get_set split: if_splits)
  moreover have "act \<noteq> None \<and> obj_get ?bw' (the act) \<noteq> None"
    using act inv by (auto simp: obj_get_set tab_inv_def split: option.splits)
  ultimately show ?thesis
    unfolding tab_inv_def put_group_def by (auto split: option.splits)
qed

lemma tab_inv_put_same:
  assumes "tab_inv Q s" "obj_get (byWorkspace s) slug = Some g" "group_ok Q slug g'"
    and "\<forall>x \<in> set (ids g'). \<not> used_id s x \<or> x \<in> set (ids g)"
  shows "tab_inv Q (put_group slug g' s)" "tab_inv Q ((put_group slug g' s)\<lparr>activeWorkspaceSlug := Some slug\<rparr>)"
proof -
  have "tab_inv Q ((put_group slug g' s)\<lparr>activeWorkspaceSlug := act\<rparr>)"
    if "act = activeWorkspaceSlug s \<or> act = Some slug" for act
    using that assms tab_inv_group [OF assms(1,2)] by (intro tab_inv_put) auto
  from this [of "activeWorkspaceSlug s"] this [of "Some slug"]
  show "tab_inv Q (put_group slug g' s)" "tab_inv Q ((put_group slug g' s)\<lparr>activeWorkspaceSlug := Some slug\<rparr>)"
    by (simp_all add: put_group_def)
qed

lemma tab_inv_select:
  "tab_inv Q s \<Longrightarrow> obj_get (byWorkspace s) slug \<noteq> None \<Longrightarrow> tab_inv Q (s\<lparr>activeWorkspaceSlug := Some slug\<rparr>)"
  by (simp add: tab_inv_def)

end
