(* ===== verification/Tab_Preservation.thy ===== *)
theory Tab_Preservation
  imports Tab_Invariants
begin

text \<open>
  Every action of the tab store keeps the store invariant. What the environment must
  respect is stated by \<open>tab_enabled\<close>: identifiers are fresh, workspace slugs are valid ones,
  paths to open satisfy the URL policy, and \<open>arrayMove\<close> moves the element as its package
  documents.
\<close>

section \<open>What the environment offers\<close>

definition path_ok :: "(jstr \<Rightarrow> jstr \<Rightarrow> bool) \<Rightarrow> jstr \<Rightarrow> jstr \<Rightarrow> bool" where
  "path_ok Q k p = (case sanitizeTabPath p of None \<Rightarrow> True | Some clean \<Rightarrow> Q k clean)"

definition active_path_ok :: "(jstr \<Rightarrow> jstr \<Rightarrow> bool) \<Rightarrow> tab_store \<Rightarrow> jstr \<Rightarrow> bool" where
  "active_path_ok Q s p = (case activeWorkspaceSlug s of None \<Rightarrow> True | Some k \<Rightarrow> path_ok Q k p)"

text \<open>\<open>arrayMove\<close> on the tabs at hand: the element leaves its index and arrives at the other.\<close>

definition array_move_at :: "array_move \<Rightarrow> tab_session list \<Rightarrow> bool" where
  "array_move_at am ts = (\<forall>i \<in> {0..<length ts}. \<forall>j \<in> {0..<length ts}.
     am ts i j = insert_nth j (ts ! i) (remove_nth i ts))"

definition array_move_active :: "array_move \<Rightarrow> tab_store \<Rightarrow> bool" where
  "array_move_active am s = (case active_group s of None \<Rightarrow> True | Some (_, g) \<Rightarrow> array_move_at am (tabs g))"

fun op_enabled :: "array_move \<Rightarrow> (jstr \<Rightarrow> jstr \<Rightarrow> bool) \<Rightarrow> tab_store \<Rightarrow> tab_op \<Rightarrow> bool" where
  "op_enabled am Q s (SwitchWorkspace slug openPath) =
     ((slug = [] \<or> workspace_slug slug) \<and> (case openPath of None \<Rightarrow> True | Some p \<Rightarrow> path_ok Q slug p))"
| "op_enabled am Q s (OpenTab path title activate) = active_path_ok Q s path"
| "op_enabled am Q s (AddTab path title) = active_path_ok Q s path"
| "op_enabled am Q s (ValidateWorkspaceSlugs validSlugs) = list_all workspace_slug validSlugs"
| "op_enabled am Q s (MoveTab i j) = array_move_active am s"
| "op_enabled am Q s _ = True"

fun tab_enabled :: "array_move \<Rightarrow> (jstr \<Rightarrow> jstr \<Rightarrow> bool) \<Rightarrow> tab_store \<Rightarrow> jstr \<times> tab_op \<Rightarrow> bool" where
  "tab_enabled am Q s (fresh, oper) = (\<not> used_id s fresh \<and> op_enabled am Q s oper)"

section \<open>URL policies\<close>

locale url_policy =
  fixes Q :: "jstr \<Rightarrow> jstr \<Rightarrow> bool"
  assumes nav_allowed: "sanitizeTabPath u = Some clean \<Longrightarrow> extractWorkspaceSlug clean = Some k \<Longrightarrow> Q k clean"
begin

lemma default_ok: "workspace_slug k \<Longrightarrow> url_ok Q k (defaultPathFor k)"
  using sanitize_default [of k]
  by (auto simp: workspace_slug_def url_ok_def list_all_iff intro: nav_allowed)

lemma clean_ok: "sanitizeTabPath p = Some clean \<Longrightarrow> path_ok Q k p \<Longrightarrow> url_ok Q k clean"
  by (auto simp: url_ok_def path_ok_def intro: sanitize_idem)

lemma nav_ok: "sanitizeTabPath p = Some clean \<Longrightarrow> extractWorkspaceSlug clean = Some k \<Longrightarrow> url_ok Q k clean"
  by (auto simp: url_ok_def intro: sanitize_idem nav_allowed)

lemma fresh_single:
  assumes "tab_inv Q s" "workspace_slug slug" "url_ok Q slug url" "\<not> used_id s fresh"
  shows "tab_inv Q ((put_group slug \<lparr>tabs = [makeSession fresh url title], activeTabId = fresh\<rparr> s)
           \<lparr>activeWorkspaceSlug := Some slug\<rparr>)"
  using assms by (intro tab_inv_put) (auto simp: group_ok_single)

lemma fresh_append:
  assumes "tab_inv Q s" "obj_get (byWorkspace s) slug = Some g" "url_ok Q slug url"
    and "\<not> used_id s fresh" "a \<in> insert fresh (set (ids g))"
  shows "tab_inv Q (put_group slug \<lparr>tabs = tabs g @ [makeSession fresh url title], activeTabId = a\<rparr> s)"
    "tab_inv Q ((put_group slug \<lparr>tabs = tabs g @ [makeSession fresh url title], activeTabId = a\<rparr> s)
       \<lparr>activeWorkspaceSlug := Some slug\<rparr>)"
proof -
  have "fresh \<notin> set (ids g)" using assms(2,4) used_id_get by blast
  then have "group_ok Q slug \<lparr>tabs = tabs g @ [makeSession fresh url title], activeTabId = a\<rparr>"
    using assms tab_inv_group [OF assms(1,2)] by (intro group_ok_append) auto
  then show "tab_inv Q (put_group slug \<lparr>tabs = tabs g @ [makeSession fresh url title], activeTabId = a\<rparr> s)"
    "tab_inv Q ((put_group slug \<lparr>tabs = tabs g @ [makeSession fresh url title], activeTabId = a\<rparr> s)
       \<lparr>activeWorkspaceSlug := Some slug\<rparr>)"
    using assms by (auto intro!: tab_inv_put_same simp: ids_def)
qed

lemma activate_found:
  assumes "tab_inv Q s" "obj_get (byWorkspace s) slug = Some g" "find P (tabs g) = Some t"
  shows "tab_inv Q (put_group slug (g\<lparr>activeTabId := tab_id t\<rparr>) s)"
    "tab_inv Q ((put_group slug (g\<lparr>activeTabId := tab_id t\<rparr>) s)\<lparr>activeWorkspaceSlug := Some slug\<rparr>)"
proof -
  have "tab_id t \<in> set (ids g)" using find_in_set [OF assms(3)] by (simp add: ids_def)
  then have "group_ok Q slug (g\<lparr>activeTabId := tab_id t\<rparr>)"
    using tab_inv_group [OF assms(1,2)] by (simp add: group_ok_activate)
  then show "tab_inv Q (put_group slug (g\<lparr>activeTabId := tab_id t\<rparr>) s)"
    "tab_inv Q ((put_group slug (g\<lparr>activeTabId := tab_id t\<rparr>) s)\<lparr>activeWorkspaceSlug := Some slug\<rparr>)"
    using assms by (auto intro!: tab_inv_put_same)
qed

text \<open>Writing one session in place, with its identifier and pin kept.\<close>

lemma replace_session:
  assumes "tab_inv Q s" "obj_get (byWorkspace s) slug = Some g" "i < length (tabs g)"
    and "session_ok Q slug t" "tab_id t = tab_id (tabs g ! i)" "pinned t = pinned (tabs g ! i)"
  shows "tab_inv Q (put_group slug (g\<lparr>tabs := (tabs g)[i := t]\<rparr>) s)"
proof -
  have "group_ok Q slug g" using tab_inv_group [OF assms(1,2)] by simp
  note rep = group_ok_replace [OF this assms(3-6)]
  show ?thesis
    using assms(1,2) rep by (intro tab_inv_put_same(1)) (auto simp only: ids_simps)
qed

lemma permute_tabs:
  assumes "tab_inv Q s" "obj_get (byWorkspace s) slug = Some g"
    and "mset ts = mset (tabs g)" "pinned_first ts"
  shows "tab_inv Q (put_group slug (g\<lparr>tabs := ts\<rparr>) s)"
proof -
  have "group_ok Q slug g" using tab_inv_group [OF assms(1,2)] by simp
  note perm = group_ok_permute [OF this assms(3,4)]
  show ?thesis
    using assms(1,2) perm by (intro tab_inv_put_same(1)) (auto simp only: ids_simps)
qed

section \<open>Actions\<close>

lemma switchWorkspace_inv [inv_intros]:
  assumes "tab_inv Q s" "tab_enabled am Q s (fresh, SwitchWorkspace slug openPath)"
  shows "tab_inv Q (switchWorkspace fresh slug openPath s)"
proof (cases "slug = []")
  case False
  with assms(2) have slug: "workspace_slug slug" and fresh: "\<not> used_id s fresh" by auto
  show ?thesis
  proof (cases "obj_get (byWorkspace s) slug")
    case None
    define seed where "seed = (case openPath of None \<Rightarrow> defaultPathFor slug
      | Some p \<Rightarrow> (case (if p \<noteq> [] then sanitizeTabPath p else None) of
          Some q \<Rightarrow> q | None \<Rightarrow> defaultPathFor slug))"
    have "url_ok Q slug seed"
      using assms(2) default_ok [OF slug] False clean_ok
      by (auto simp: seed_def split: option.splits)
    moreover have "switchWorkspace fresh slug openPath s =
        (put_group slug \<lparr>tabs = [makeSession fresh seed ''Tasks''], activeTabId = fresh\<rparr> s)
          \<lparr>activeWorkspaceSlug := Some slug\<rparr>"
      using False None sanitize_default [of slug] slug
      by (auto simp: switchWorkspace_def seed_def Let_def workspace_slug_def list_all_iff
          split: option.splits)
    ultimately show ?thesis using fresh_single [OF assms(1) slug _ fresh] by simp
  next
    case (Some g)
    show ?thesis
    proof (cases "truthy openPath")
      case None
      with False Some assms(1) show ?thesis by (simp add: switchWorkspace_def tab_inv_select)
    next
      case truthy: (Some p)
      then have p: "openPath = Some p" by (auto simp: truthy_def split: option.splits list.splits)
      show ?thesis
      proof (cases "sanitizeTabPath p")
        case None
        with False Some assms(1) truthy show ?thesis by (simp add: switchWorkspace_def tab_inv_select)
      next
        case clean: (Some clean)
        have ok: "url_ok Q slug clean" using clean p assms(2) by (auto intro: clean_ok)
        show ?thesis
          using False Some truthy clean activate_found(2) [OF assms(1) Some]
            fresh_append(2) [OF assms(1) Some ok fresh]
          by (simp add: switchWorkspace_def Let_def split: option.splits)
      qed
    qed
  qed
qed (use assms in \<open>simp add: switchWorkspace_def\<close>)

lemma active_clean_ok:
  assumes "active_group s = Some (slug, g)" "active_path_ok Q s path" "sanitizeTabPath path = Some clean"
  shows "url_ok Q slug clean"
  using assms active_group_Some [OF assms(1)] by (auto simp: active_path_ok_def intro: clean_ok)

lemma active_in_group: "tab_inv Q s \<Longrightarrow> active_group s = Some (slug, g) \<Longrightarrow> activeTabId g \<in> set (ids g)"
  using tab_inv_active(3) by (auto simp: group_ok_def)

lemma openTab_inv [inv_intros]:
  assumes "tab_inv Q s" "\<not> used_id s fresh" "active_path_ok Q s path"
  shows "tab_inv Q (fst (openTab fresh path title activate s))"
proof (cases "sanitizeTabPath path")
  case clean: (Some clean)
  show ?thesis
  proof (cases "active_group s")
    case (Some kg)
    obtain slug g where kg: "active_group s = Some (slug, g)" using Some by (cases kg) auto
    note get = active_group_Some(3) [OF kg]
    show ?thesis
      using clean kg activate_found(1) [OF assms(1) get] active_in_group [OF assms(1) kg]
        fresh_append(1) [OF assms(1) get active_clean_ok [OF kg assms(3) clean] assms(2)]
      by (simp add: openTab_def Let_def split: option.splits)
  qed (use assms clean in \<open>simp add: openTab_def\<close>)
qed (use assms in \<open>simp add: openTab_def\<close>)

lemma addTab_inv [inv_intros]:
  assumes "tab_inv Q s" "\<not> used_id s fresh" "active_path_ok Q s path"
  shows "tab_inv Q (fst (addTab fresh path title s))"
proof (cases "sanitizeTabPath path")
  case clean: (Some clean)
  show ?thesis
  proof (cases "active_group s")
    case (Some kg)
    obtain slug g where kg: "active_group s = Some (slug, g)" using Some by (cases kg) auto
    note get = active_group_Some(3) [OF kg]
    show ?thesis
      using clean kg active_in_group [OF assms(1) kg]
        fresh_append(1) [OF assms(1) get active_clean_ok [OF kg assms(3) clean] assms(2)]
      by (simp add: addTab_def Let_def)
  qed (use assms clean in \<open>simp add: addTab_def\<close>)
qed (use assms in \<open>simp add: addTab_def\<close>)

end

end
