(* ===== verification/Tab_Machine.thy ===== *)
theory Tab_Machine
  imports Tab_Preservation
begin

text \<open>
  The remaining actions of the tab store, and the store as an invariant machine: every
  interleaving of actions the environment offers keeps the store invariant. The machine is
  interpreted for the two URL policies of the store, "any normalised URL" and "only URLs of
  the tab's own workspace".
\<close>

section \<open>Sessions\<close>

lemma push_history_ok:
  assumes "history_ok P url h" "P url'"
  shows "history_ok P url' (push_history replace url' h)"
proof (cases replace)
  case True
  then show ?thesis
    using assms by (auto simp: push_history_def history_ok_def nth_append list_all_iff
        dest: in_set_takeD in_set_dropD)
next
  case False
  then show ?thesis
    using assms by (auto simp: push_history_def history_ok_def nth_append list_all_iff min_def
        dest: in_set_takeD)
qed

lemma obj_ok_keep_fold: "obj_ok acc \<Longrightarrow>
  obj_ok (fold (\<lambda>(k, v) acc. if p k then acc else obj_set k v acc) kvs acc)"
  by (induction kvs arbitrary: acc) (auto simp: obj_ok_set)

lemma obj_ok_key_fold: "obj_ok acc \<Longrightarrow> obj_ok (fold (\<lambda>(k, v). obj_set (f k) v) kvs acc)"
  by (induction kvs arbitrary: acc) (auto simp: obj_ok_set)

lemma next_scroll_ok: "obj_ok (next_scroll routeKey entries scroll)"
  by (simp add: next_scroll_def obj_ok_keep_fold obj_ok_key_fold)

lemma find_active_ok:
  assumes "tab_inv Q s" "active_group s = Some (slug, g)"
    and "find_index (\<lambda>t. tab_id t = activeTabId g) (tabs g) = Some i"
  shows "i < length (tabs g)" "session_ok Q slug (tabs g ! i)"
  using tab_inv_active(3) [OF assms(1,2)] find_index_Some [OF assms(3)]
  by (auto simp: group_ok_def list_all_length)

text \<open>Writing the active session back in place leaves it the active session.\<close>

lemma active_group_put:
  "active_group s = Some (slug, g) \<Longrightarrow> active_group (put_group slug g' s) = Some (slug, g')"
  by (auto simp: active_group_def put_group_def obj_get_set split: option.splits)

lemma put_group_put_group: "put_group slug g (put_group slug g' s) = put_group slug g s"
  by (simp add: put_group_def obj_set_set)

lemma find_index_write:
  assumes "find_index (\<lambda>t. tab_id t = a) ts = Some i" "tab_id t = tab_id (ts ! i)"
  shows "find_index (\<lambda>t. tab_id t = a) (ts[i := t]) = Some i"
proof -
  have "map tab_id (ts[i := t]) = map tab_id ts"
    using assms find_index_Some [OF assms(1)] by (simp add: map_update list_update_same_conv)
  then show ?thesis
    using assms(1) by (simp only: find_index_map [of "\<lambda>x. x = a" tab_id])
qed

section \<open>Pinned order\<close>

lemma toggle_zoned:
  assumes "zoned P xs"
  shows "zoned P (insert_nth (zone_length P (remove_nth i xs)) x (remove_nth i xs))"
  by (rule zoned_insert) (auto simp: zoned_remove assms)

lemma move_zoned:
  assumes "zoned P xs" "i < length xs"
    and "if P (xs ! i) then j < zone_length P xs else zone_length P xs \<le> j"
  shows "zoned P (insert_nth j (xs ! i) (remove_nth i xs))"
  using assms by (intro zoned_insert) (auto simp: zoned_remove zone_length_remove)

lemma mset_move: "i < length xs \<Longrightarrow> mset (insert_nth j (xs ! i) (remove_nth i xs)) = mset xs"
  using mset_remove_nth [of i xs] by (simp add: mset_insert_nth)

section \<open>Actions\<close>

lemma setActiveTab_inv [inv_intros]:
  assumes "tab_inv Q s"
  shows "tab_inv Q (setActiveTab tabId s)"
proof (cases "findTabLocation (byWorkspace s) tabId")
  case (Some hit)
  obtain slug g i where hit: "findTabLocation (byWorkspace s) tabId = Some (slug, g, i)"
    using Some by (cases hit) auto
  note found = tab_inv_found [OF assms hit]
  have "tab_inv Q ((put_group slug (g\<lparr>activeTabId := tabId\<rparr>) s)\<lparr>activeWorkspaceSlug := Some slug\<rparr>)"
    using found by (intro tab_inv_put_same(2) [OF assms found(1)]) (auto simp: group_ok_activate)
  with assms hit show ?thesis by (simp add: setActiveTab_def)
qed (use assms in \<open>simp add: setActiveTab_def\<close>)

lemma filter_group_inv:
  assumes "tab_inv Q s" "obj_get (byWorkspace s) slug = Some g" "a \<in> tab_id ` set (filter P (tabs g))"
  shows "tab_inv Q (put_group slug \<lparr>tabs = filter P (tabs g), activeTabId = a\<rparr> s)"
  using assms tab_inv_group [OF assms(1,2)]
  by (intro tab_inv_put_same(1)) (auto simp: group_ok_filter ids_def)

lemma closeOtherTabs_inv [inv_intros]:
  assumes "tab_inv Q s"
  shows "tab_inv Q (closeOtherTabs tabId s)"
proof (cases "findTabLocation (byWorkspace s) tabId")
  case None
  with assms show ?thesis by (simp add: closeOtherTabs_def buildCloseOtherTabsResult_def)
next
  case (Some hit)
  obtain slug g i where hit: "findTabLocation (byWorkspace s) tabId = Some (slug, g, i)"
    using Some by (cases hit) auto
  note found = tab_inv_found [OF assms hit]
  let ?closing = "map tab_id (filter (\<lambda>t. \<not> pinned t \<and> tab_id t \<noteq> tabId) (tabs g))"
  let ?P = "\<lambda>t. tab_id t \<notin> set ?closing"
  let ?a = "if activeTabId g \<in> set ?closing then tabId else activeTabId g"
  have "tabId \<in> tab_id ` set (filter ?P (tabs g))" using found(6) by (auto simp: ids_def)
  moreover have "activeTabId g \<in> set (ids g)" using found(3) by (simp add: group_ok_def)
  ultimately have "?a \<in> tab_id ` set (filter ?P (tabs g))" by (auto simp: ids_def)
  then have inv: "tab_inv Q (put_group slug \<lparr>tabs = filter ?P (tabs g), activeTabId = ?a\<rparr> s)"
    by (rule filter_group_inv [OF assms found(1)])
  have "closeOtherTabs tabId s =
      (if filter (\<lambda>t. \<not> pinned t \<and> tab_id t \<noteq> tabId) (tabs g) = [] then s
       else put_group slug \<lparr>tabs = filter ?P (tabs g), activeTabId = ?a\<rparr> s)"
    unfolding closeOtherTabs_def buildCloseOtherTabsResult_def hit option.case prod.case Let_def put_group_def
    by (simp only: option.case if_distrib [of "case_option s f" for f])
  with inv assms show ?thesis by (simp only: split: if_split) blast
qed

lemma filter_other_nonempty:
  assumes "distinct (map f xs)" "length xs \<noteq> 1" "xs \<noteq> []"
  shows "filter (\<lambda>x. f x \<noteq> k) xs \<noteq> []"
proof -
  obtain x y ys where "xs = x # y # ys"
    using assms(2,3) by (cases xs rule: list.exhaust) (auto simp: neq_Nil_conv)
  with assms(1) show ?thesis by auto
qed

text \<open>A tab created by the store itself reads its workspace from the group it belongs to.\<close>

context url_policy
begin

lemma closeTab_inv [inv_intros]:
  assumes "tab_inv Q s" "\<not> used_id s fresh"
  shows "tab_inv Q (closeTab fresh tabId s)"
proof (cases "findTabLocation (byWorkspace s) tabId")
  case (Some hit)
  obtain slug g i where hit: "findTabLocation (byWorkspace s) tabId = Some (slug, g, i)"
    using Some by (cases hit) auto
  note found = tab_inv_found [OF assms(1) hit]
  show ?thesis
  proof (cases "length (tabs g) = 1")
    case True
    have "tab_inv Q (put_group slug \<lparr>tabs = [defaultTabFor fresh slug], activeTabId = fresh\<rparr> s)"
      using assms found default_ok [OF found(2)]
      by (intro tab_inv_put_same(1)) (auto simp: defaultTabFor_def group_ok_single)
    with True hit show ?thesis by (simp add: closeTab_def defaultTabFor_def)
  next
    case False
    let ?next = "filter (\<lambda>t. tab_id t \<noteq> tabId) (tabs g)"
    let ?a = "if activeTabId g = tabId then tab_id (?next ! min i (length ?next - 1)) else activeTabId g"
    have "distinct (map tab_id (tabs g))" "activeTabId g \<in> set (ids g)"
      using found(3) by (simp_all add: group_ok_def ids_def)
    moreover have "?next \<noteq> []"
      using filter_other_nonempty [OF calculation(1) False] found(4) by fastforce
    then have "?next ! min i (length ?next - 1) \<in> set ?next" by (intro nth_mem) (cases ?next, auto)
    ultimately have "?a \<in> tab_id ` set ?next" by (auto simp: ids_def simp del: set_filter)
        (auto simp: ids_def)
    from filter_group_inv [OF assms(1) found(1) this] False hit show ?thesis
      by (simp add: closeTab_def Let_def)
  qed
qed (use assms in \<open>simp add: closeTab_def\<close>)

lemma closeActiveTab_inv [inv_intros]:
  assumes "tab_inv Q s" "\<not> used_id s fresh"
  shows "tab_inv Q (closeActiveTab fresh s)"
  using closeTab_inv [OF assms] assms by (simp add: closeActiveTab_def split: option.splits)

lemma updateTab_inv [inv_intros]:
  assumes "tab_inv Q s"
  shows "tab_inv Q (updateTab tabId patch s)"
proof (cases "findTabLocation (byWorkspace s) tabId")
  case (Some hit)
  obtain slug g i where hit: "findTabLocation (byWorkspace s) tabId = Some (slug, g, i)"
    using Some by (cases hit) auto
  note found = tab_inv_found [OF assms hit]
  have "tab_inv Q (put_group slug (g\<lparr>tabs := (tabs g)[i := (tabs g ! i)\<lparr>tab_title := title\<rparr>]\<rparr>) s)" for title
    using found by (intro replace_session [OF assms found(1,4)]) (auto simp: session_ok_def)
  with assms hit show ?thesis by (simp add: updateTab_def Let_def split: option.splits)
qed (use assms in \<open>simp add: updateTab_def\<close>)

lemma commitScrollMemento_inv [inv_intros]:
  assumes "tab_inv Q s"
  shows "tab_inv Q (commitScrollMemento tabId routeKey entries s)"
proof (cases "findTabLocation (byWorkspace s) tabId")
  case (Some hit)
  obtain slug g i where hit: "findTabLocation (byWorkspace s) tabId = Some (slug, g, i)"
    using Some by (cases hit) auto
  note found = tab_inv_found [OF assms hit]
  have "tab_inv Q (put_group slug (g\<lparr>tabs := (tabs g)[i := (tabs g ! i)\<lparr>tab_scroll :=
      next_scroll routeKey entries (tab_scroll (tabs g ! i))\<rparr>]\<rparr>) s)"
    using found by (intro replace_session [OF assms found(1,4)]) (auto simp: session_ok_def next_scroll_ok)
  with assms hit show ?thesis by (simp add: commitScrollMemento_def Let_def)
qed (use assms in \<open>simp add: commitScrollMemento_def\<close>)

lemma navigateActiveSession_inv [inv_intros]:
  assumes "tab_inv Q s"
  shows "tab_inv Q (navigateActiveSession url replace s)"
proof (cases "navigateActiveSession url replace s = s")
  case False
  then obtain slug g i clean where kg: "active_group s = Some (slug, g)"
    and i: "find_index (\<lambda>t. tab_id t = activeTabId g) (tabs g) = Some i"
    and clean: "sanitizeTabPath url = Some clean" "extractWorkspaceSlug clean = Some slug"
    by (auto simp: navigateActiveSession_def split: option.splits if_splits)
  note act = find_active_ok [OF assms kg i]
  let ?cur = "tabs g ! i"
  let ?nxt = "?cur\<lparr>tab_url := clean, resourceKey := resourceKeyForUrl clean,
    history := push_history replace clean (history ?cur)\<rparr>"
  have "url_ok Q slug clean" using clean by (rule nav_ok)
  with act(2) have "session_ok Q slug ?nxt" by (auto simp: session_ok_def push_history_ok)
  from replace_session [OF assms active_group_Some(3) [OF kg] act(1) this]
  show ?thesis using False kg i clean
    by (auto simp: navigateActiveSession_def Let_def split: if_splits)
qed (use assms in simp)

lemma stepHistory_inv:
  assumes "tab_inv Q s"
  shows "tab_inv Q (stepHistory delta s)"
proof (cases "stepHistory delta s = s")
  case False
  then obtain slug g i where kg: "active_group s = Some (slug, g)"
    and i: "find_index (\<lambda>t. tab_id t = activeTabId g) (tabs g) = Some i"
    by (auto simp: stepHistory_def split: option.splits)
  note act = find_active_ok [OF assms kg i]
  let ?cur = "tabs g ! i"
  let ?k = "int (hist_index (history ?cur)) + delta"
  have k: "0 \<le> ?k" "nat ?k < length (hist_stack (history ?cur))"
    using False kg i by (auto simp: stepHistory_def Let_def split: if_splits)
  let ?url = "hist_stack (history ?cur) ! nat ?k"
  let ?nxt = "?cur\<lparr>tab_url := ?url, resourceKey := resourceKeyForUrl ?url,
    history := (history ?cur)\<lparr>hist_index := nat ?k\<rparr>\<rparr>"
  have "session_ok Q slug ?nxt" using act(2) k by (auto simp: session_ok_def history_ok_def)
  from replace_session [OF assms active_group_Some(3) [OF kg] act(1) this]
  show ?thesis using False kg i k by (auto simp: stepHistory_def Let_def split: if_splits)
qed (use assms in simp)

lemma moveTab_inv [inv_intros]:
  assumes "tab_inv Q s" "array_move_active am s"
  shows "tab_inv Q (moveTab am i j s)"
proof (cases "moveTab am i j s = s")
  case False
  then obtain slug g where kg: "active_group s = Some (slug, g)"
    by (auto simp: moveTab_def split: option.splits if_splits)
  let ?b = "int (pinnedBoundary (tabs g))"
  let ?to = "if pinned (tabs g ! nat i) then max 0 (min j (?b - 1))
    else max ?b (min j (int (length (tabs g)) - 1))"
  have unfold: "moveTab am i j s = (if i = j then s else if i < 0 \<or> i \<ge> int (length (tabs g)) then s
      else if ?to = i then s else put_group slug (g\<lparr>tabs := am (tabs g) (nat i) (nat ?to)\<rparr>) s)"
    by (simp only: moveTab_def kg option.case prod.case Let_def)
  with False have range: "\<not> (i < 0 \<or> i \<ge> int (length (tabs g)))" by metis
  with False unfold have eq: "moveTab am i j s = put_group slug (g\<lparr>tabs := am (tabs g) (nat i) (nat ?to)\<rparr>) s"
    by metis
  have i: "0 \<le> i" "nat i < length (tabs g)" using range by auto
  have pf: "zoned pinned (tabs g)"
    using tab_inv_active(3) [OF assms(1) kg] by (simp add: group_ok_def pinned_first_zoned)
  note iff = zone_iff [OF pf i(2)]
  have to: "nat ?to < length (tabs g)" "if pinned (tabs g ! nat i) then nat ?to < zone_length pinned (tabs g)
      else zone_length pinned (tabs g) \<le> nat ?to"
    using i iff zone_length_le [of pinned "tabs g"] by (auto simp: pinnedBoundary_zone)
  let ?ts = "insert_nth (nat ?to) (tabs g ! nat i) (remove_nth (nat i) (tabs g))"
  have "am (tabs g) (nat i) (nat ?to) = ?ts"
    using assms(2) kg i(2) to(1) by (simp add: array_move_active_def array_move_at_def)
  moreover have "tab_inv Q (put_group slug (g\<lparr>tabs := ?ts\<rparr>) s)"
    by (rule permute_tabs [OF assms(1) active_group_Some(3) [OF kg] mset_move [OF i(2)]])
      (unfold pinned_first_zoned, rule move_zoned [OF pf i(2) to(2)])
  ultimately show ?thesis by (simp only: eq)
qed (use assms in simp)

end

end
