(* ===== verification/Tab_Safety.thy ===== *)
theory Tab_Safety
  imports Tab_Machine
begin

text \<open>
  Pinning, pruning and reset, and then the tab store as an invariant machine: every
  interleaving of the actions the environment offers keeps the store invariant. The machine
  is interpreted for the two URL policies of the store, "any normalised URL" and "only URLs
  of the tab's own workspace".
\<close>

section \<open>Pinning\<close>

lemma group_ok_rebuild:
  assumes "group_ok Q k g" "mset (map tab_id ts) = mset (ids g)" "pinned_first ts"
    and "list_all (session_ok Q k) ts"
  shows "group_ok Q k (g\<lparr>tabs := ts\<rparr>)" "set (map tab_id ts) = set (ids g)"
proof -
  show "set (map tab_id ts) = set (ids g)" using assms(2) by (metis set_mset_mset)
  moreover have "distinct (map tab_id ts) = distinct (ids g)"
    using assms(2) by (metis mset_eq_imp_distinct_iff)
  ultimately show "group_ok Q k (g\<lparr>tabs := ts\<rparr>)"
    using assms by (simp add: group_ok_def)
qed

lemma mset_toggle_ids:
  assumes "i < length ts" "tab_id t = tab_id (ts ! i)"
  shows "mset (map tab_id (insert_nth j t (remove_nth i ts))) = mset (map tab_id ts)"
  using mset_remove_nth [OF assms(1)] assms(2) by (simp add: mset_insert_nth)

lemma togglePin_inv [inv_intros]:
  assumes "tab_inv Q s"
  shows "tab_inv Q (togglePin tabId s)"
proof (cases "findTabLocation (byWorkspace s) tabId")
  case (Some hit)
  obtain slug g i where hit: "findTabLocation (byWorkspace s) tabId = Some (slug, g, i)"
    using Some by (cases hit) auto
  note found = tab_inv_found [OF assms hit]
  let ?t = "(tabs g ! i)\<lparr>pinned := \<not> pinned (tabs g ! i)\<rparr>"
  let ?rest = "remove_nth i (tabs g)"
  let ?ts = "insert_nth (pinnedBoundary ?rest) ?t ?rest"
  have ids: "mset (map tab_id ?ts) = mset (ids g)"
    unfolding ids_def by (rule mset_toggle_ids [OF found(4)]) simp
  have "pinned_first ?ts"
    using found(3) unfolding group_ok_def pinned_first_zoned pinnedBoundary_zone
    by (blast intro: toggle_zoned)
  moreover have "list_all (session_ok Q slug) ?ts"
    using found(3,7) set_remove_nth_subset [of i "tabs g"]
    by (auto simp: list_all_iff set_insert_nth group_ok_def session_ok_def)
  ultimately have "group_ok Q slug (g\<lparr>tabs := ?ts\<rparr>)" "set (map tab_id ?ts) = set (ids g)"
    using group_ok_rebuild [OF found(3) ids] by blast+
  then have "tab_inv Q (put_group slug (g\<lparr>tabs := ?ts\<rparr>) s)"
    by (intro tab_inv_put_same(1) [OF assms found(1)]) (auto simp only: ids_simps)
  with hit show ?thesis by (simp add: togglePin_def Let_def)
qed (use assms in \<open>simp add: togglePin_def\<close>)

section \<open>Pruning\<close>

lemma obj_get_filter_keys:
  "obj_get (filter (\<lambda>(k, _). P k) ob) k = (if P k then obj_get ob k else None)"
  by (induction ob) (auto simp: obj_get_def)

lemma first_key_get:
  "first_key ob = Some k \<Longrightarrow> obj_get ob k \<noteq> None"
  "first_key ob = None \<longleftrightarrow> ob = []"
  by (auto simp: first_key_def obj_keys_def obj_get_def split: list.splits)

lemma tab_inv_restrict:
  assumes "tab_inv Q s"
    and "case act of None \<Rightarrow> kept = [] | Some a \<Rightarrow> obj_get kept a \<noteq> None"
    and kept: "kept = filter (\<lambda>(k, _). P k) (byWorkspace s)"
  shows "tab_inv Q (s\<lparr>byWorkspace := kept, activeWorkspaceSlug := act\<rparr>)"
proof -
  have sub: "obj_get (byWorkspace s) k = Some g" if "obj_get kept k = Some g" for k g
    using that unfolding kept by (simp add: obj_get_filter_keys split: if_splits)
  have "obj_ok kept" using assms(1) unfolding kept tab_inv_def by (blast intro: obj_ok_filter)
  moreover have "\<forall>k g. obj_get kept k = Some g \<longrightarrow> workspace_slug k \<and> group_ok Q k g"
    using assms(1) sub unfolding tab_inv_def by blast
  moreover have "\<forall>k k' g g' x. obj_get kept k = Some g \<longrightarrow> obj_get kept k' = Some g' \<longrightarrow>
      x \<in> set (ids g) \<longrightarrow> x \<in> set (ids g') \<longrightarrow> k = k'"
    using assms(1) sub unfolding tab_inv_def by blast
  ultimately show ?thesis using assms(2) by (cases act) (simp_all add: tab_inv_def)
qed

lemma tab_inv_empty: "tab_inv Q s \<Longrightarrow> byWorkspace s = [] \<Longrightarrow> activeWorkspaceSlug s = None"
  by (auto simp: tab_inv_def split: option.splits)

lemma truthy_active:
  "tab_inv Q s \<Longrightarrow> truthy (activeWorkspaceSlug s) = activeWorkspaceSlug s"
  by (auto simp: tab_inv_def truthy_def workspace_slug_def split: option.splits list.splits)

lemma truthy_first_key:
  assumes "tab_inv Q s"
  shows "truthy (first_key (filter (\<lambda>(k, _). P k) (byWorkspace s))) = first_key (filter (\<lambda>(k, _). P k) (byWorkspace s))"
proof (cases "first_key (filter (\<lambda>(k, _). P k) (byWorkspace s))")
  case (Some k)
  then have "obj_get (byWorkspace s) k \<noteq> None"
    using first_key_get(1) [OF Some] by (simp add: obj_get_filter_keys split: if_splits)
  then have "k \<noteq> []" using tab_inv_group [OF assms] by (auto simp: workspace_slug_def)
  with Some show ?thesis by (auto simp: truthy_def neq_Nil_conv)
qed (simp add: truthy_def)

text \<open>The active slug that survives pruning, and whether anything remains to be shown.\<close>

definition kept_active :: "jstr list \<Rightarrow> tab_store \<Rightarrow> jstr option" where
  "kept_active validSlugs s =
     (case activeWorkspaceSlug s of
        Some a \<Rightarrow> if a \<in> set validSlugs then Some a
                  else first_key (filter (\<lambda>(k, _). k \<in> set validSlugs) (byWorkspace s))
      | None \<Rightarrow> None)"

text \<open>On a store satisfying the invariant the action has one of three effects.\<close>

lemma validate_cases:
  assumes inv: "tab_inv Q s" and slugs: "list_all workspace_slug validSlugs"
  defines "kept \<equiv> filter (\<lambda>(k, _). k \<in> set validSlugs) (byWorkspace s)"
  shows "validateWorkspaceSlugs fresh validSlugs s =
     (case kept_active validSlugs s of
        Some a \<Rightarrow> s\<lparr>byWorkspace := kept, activeWorkspaceSlug := Some a\<rparr>
      | None \<Rightarrow>
          (case validSlugs of
             [] \<Rightarrow> s\<lparr>byWorkspace := [], activeWorkspaceSlug := None\<rparr>
           | fallback # _ \<Rightarrow>
               s\<lparr>byWorkspace := [(fallback, \<lparr>tabs = [defaultTabFor fresh fallback], activeTabId = fresh\<rparr>)],
                 activeWorkspaceSlug := Some fallback\<rparr>))"
proof -
  note truthy_key = truthy_first_key [OF inv, of "\<lambda>k. k \<in> set validSlugs", folded kept_def]
  note truthy_act = truthy_active [OF inv]
  have same: "kept = byWorkspace s" if "\<not> list_ex (\<lambda>(slug, _). slug \<notin> set validSlugs) (byWorkspace s)"
    using that unfolding kept_def by (intro filter_True) (auto simp: list_ex_iff)
  show ?thesis
  proof (cases "activeWorkspaceSlug s")
    case None
    then have empty: "byWorkspace s = []" using inv by (simp add: tab_inv_def)
    with None slugs show ?thesis
      by (cases validSlugs)
        (auto simp: validateWorkspaceSlugs_def kept_def Let_def truthy_def kept_active_def first_key_def
          obj_keys_def obj_set_def defaultTabFor_def workspace_slug_def)
  next
    case (Some a)
    then have a: "truthy (Some a) = Some a" using truthy_act by simp
    show ?thesis
    proof (cases "a \<in> set validSlugs")
      case True
      have "validateWorkspaceSlugs fresh validSlugs s =
          (if \<not> list_ex (\<lambda>(slug, _). slug \<notin> set validSlugs) (byWorkspace s) then s
           else s\<lparr>byWorkspace := kept, activeWorkspaceSlug := Some a\<rparr>)"
        by (simp add: validateWorkspaceSlugs_def Some a True Let_def kept_def)
      moreover have "kept_active validSlugs s = Some a" by (simp add: kept_active_def Some True)
      ultimately show ?thesis using same Some by simp
    next
      case False
      have act: "kept_active validSlugs s = first_key kept"
        by (simp add: kept_active_def Some False kept_def)
      show ?thesis
      proof (cases "first_key kept")
        case fk: (Some b)
        then have "truthy (Some b) = Some b" using truthy_key by simp
        then show ?thesis
          using fk act by (simp add: validateWorkspaceSlugs_def Some a False Let_def kept_def)
      next
        case None
        then have empty: "filter (\<lambda>(k, _). k \<in> set validSlugs) (byWorkspace s) = []"
          by (simp add: first_key_get kept_def)
        have none: "truthy None = None" "first_key [] = None"
          by (simp_all add: truthy_def first_key_def obj_keys_def)
        have "validateWorkspaceSlugs fresh validSlugs s =
          (case validSlugs of [] \<Rightarrow> s\<lparr>byWorkspace := [], activeWorkspaceSlug := None\<rparr>
           | fallback # _ \<Rightarrow> if fallback = [] then s\<lparr>byWorkspace := [], activeWorkspaceSlug := None\<rparr>
               else s\<lparr>byWorkspace := [(fallback, \<lparr>tabs = [defaultTabFor fresh fallback], activeTabId = fresh\<rparr>)],
                 activeWorkspaceSlug := Some fallback\<rparr>)"
          unfolding validateWorkspaceSlugs_def
          by (simp add: Some a False Let_def none empty obj_set_def obj_keys_def defaultTabFor_def
              split: list.splits)
        then show ?thesis
          using None act slugs by (simp add: workspace_slug_def split: list.splits)
      qed
    qed
  qed
qed

section \<open>Every action\<close>

lemma tab_inv_initial: "tab_inv Q initial_tab_store"
  by (simp add: tab_inv_def initial_tab_store_def)

lemma reset_inv: "tab_inv Q (reset_tabs s)"
  by (simp add: tab_inv_def reset_tabs_def)

lemma reloadActiveTab_inv: "tab_inv Q s \<Longrightarrow> tab_inv Q (reloadActiveTab s)"
  by (auto simp: reloadActiveTab_def tab_inv_def split: option.splits)

context url_policy
begin

lemma single_group_inv:
  assumes "workspace_slug slug"
  shows "tab_inv Q (s\<lparr>byWorkspace := [(slug, \<lparr>tabs = [defaultTabFor fresh slug], activeTabId = fresh\<rparr>)],
    activeWorkspaceSlug := Some slug\<rparr>)"
proof -
  let ?g = "\<lparr>tabs = [defaultTabFor fresh slug], activeTabId = fresh\<rparr>"
  have get: "obj_get [(slug, ?g)] k = (if k = slug then Some ?g else None)" for k
    by (simp add: obj_get_def)
  have "group_ok Q slug ?g"
    unfolding defaultTabFor_def by (rule group_ok_single [OF default_ok [OF assms]])
  moreover have "obj_ok [(slug, ?g)]" by (simp add: obj_ok_def obj_keys_def)
  ultimately show ?thesis using assms get by (simp add: tab_inv_def)
qed

lemma validateWorkspaceSlugs_inv:
  assumes "tab_inv Q s" "list_all workspace_slug validSlugs"
  shows "tab_inv Q (validateWorkspaceSlugs fresh validSlugs s)"
proof (cases "kept_active validSlugs s")
  case None
  show ?thesis
  proof (cases validSlugs)
    case Nil
    have "tab_inv Q (s\<lparr>byWorkspace := [], activeWorkspaceSlug := None\<rparr>)" by (simp add: tab_inv_def)
    with None show ?thesis unfolding validate_cases [OF assms] by (simp add: Nil)
  next
    case (Cons fallback rest)
    with assms(2) have "workspace_slug fallback" by simp
    from single_group_inv [OF this] None show ?thesis
      unfolding validate_cases [OF assms] by (simp add: Cons)
  qed
next
  case (Some a)
  let ?kept = "filter (\<lambda>(k, _). k \<in> set validSlugs) (byWorkspace s)"
  have "obj_get ?kept a \<noteq> None"
  proof (cases "activeWorkspaceSlug s = Some a \<and> a \<in> set validSlugs")
    case True
    with assms(1) show ?thesis by (simp add: obj_get_filter_keys tab_inv_def)
  next
    case False
    with Some have "first_key ?kept = Some a"
      by (auto simp: kept_active_def split: option.splits if_splits)
    then show ?thesis by (rule first_key_get(1))
  qed
  with assms(1) have "tab_inv Q (s\<lparr>byWorkspace := ?kept, activeWorkspaceSlug := Some a\<rparr>)"
    by (intro tab_inv_restrict [where P = "\<lambda>k. k \<in> set validSlugs"]) simp_all
  with Some show ?thesis unfolding validate_cases [OF assms] by simp
qed

lemma tab_step_inv:
  assumes "tab_inv Q s" "tab_enabled am Q s e"
  shows "tab_inv Q (tab_step am s e)"
proof -
  obtain fresh oper where e: "e = (fresh, oper)" by (cases e)
  note here = assms [unfolded e]
  from here(2) have fresh: "\<not> used_id s fresh" and en: "op_enabled am Q s oper" by simp_all
  show ?thesis
  proof (cases oper)
    case (SwitchWorkspace slug p)
    with here show ?thesis by (simp add: e switchWorkspace_inv [where am = am])
  next
    case (MoveTab i j)
    with here(1) en show ?thesis by (simp add: e moveTab_inv)
  qed (use here(1) fresh en in \<open>simp_all add: e openTab_inv addTab_inv closeTab_inv closeOtherTabs_inv
      setActiveTab_inv updateTab_inv navigateActiveSession_inv goBack_def goForward_def stepHistory_inv
      commitScrollMemento_inv reloadActiveTab_inv closeActiveTab_inv togglePin_inv
      validateWorkspaceSlugs_inv reset_inv\<close>)
qed

end

section \<open>The machine and its policies\<close>

definition tab_start :: "tab_store \<Rightarrow> bool" where
  "tab_start s = (s = initial_tab_store)"

sublocale url_policy \<subseteq> machine: invariant_machine tab_start "tab_step am" "tab_enabled am Q" "tab_inv Q" for am
  by unfold_locales (auto simp: tab_start_def tab_inv_initial intro: tab_step_inv)

text \<open>Any normalised URL; only URLs of the tab's own workspace.\<close>

definition any_url :: "jstr \<Rightarrow> jstr \<Rightarrow> bool" where
  "any_url k u = True"

definition own_url :: "jstr \<Rightarrow> jstr \<Rightarrow> bool" where
  "own_url k u = (extractWorkspaceSlug u = Some k)"

interpretation any: url_policy any_url
  by unfold_locales (simp add: any_url_def)

interpretation own: url_policy own_url
  by unfold_locales (simp add: own_url_def)

end
