(* ===== verification/Tab_Example.thy ===== *)
theory Tab_Example
  imports Tab_Safety
begin

text \<open>
  A concrete run of the tab store, used to show that the hypotheses of its theorems can hold:
  a workspace is opened, a second tab opened and navigated, a third one added and pinned, and
  the two unpinned tabs swapped.
\<close>

section \<open>A concrete run\<close>

definition move_element :: "array_move" where
  "move_element ts i j = insert_nth j (ts ! i) (remove_nth i ts)"

definition example_run :: "(jstr \<times> tab_op) list" where
  "example_run =
     [(''t1'', SwitchWorkspace ''acme'' None),
      (''t2'', OpenTab ''/acme/issues?status=open'' ''Issues'' True),
      (''t3'', NavigateActiveSession ''/acme/issues/SIL-1'' False),
      (''t3'', AddTab ''/acme/settings'' ''Settings''),
      (''t4'', TogglePin ''t3'')]"

definition example_store :: tab_store where
  "example_store =
     tab_step move_element (foldl (tab_step move_element) initial_tab_store example_run) (''t4'', MoveTab 1 2)"

lemma example_enabled:
  "run_ok (tab_step move_element) (tab_enabled move_element own_url) initial_tab_store example_run"
  by code_simp

lemma example_enabled_any:
  "run_ok (tab_step move_element) (tab_enabled move_element any_url) initial_tab_store example_run"
  by code_simp

lemma move_element_active: "array_move_active move_element s"
  by (simp add: array_move_active_def array_move_at_def move_element_def split: option.splits)

lemma example_fresh: "\<not> used_id (foldl (tab_step move_element) initial_tab_store example_run) ''t4''"
  by code_simp

lemma example_reachable_by:
  assumes "run_ok (tab_step move_element) (tab_enabled move_element Q) initial_tab_store example_run"
  shows "reachable tab_start (tab_step move_element) (tab_enabled move_element Q) example_store"
  unfolding example_store_def
  by (rule reachable.step [OF reachable_run [OF reachable.init assms]])
    (simp_all add: tab_start_def move_element_active example_fresh)

lemmas example_reachable =
  example_reachable_by [OF example_enabled] example_reachable_by [OF example_enabled_any]

text \<open>What the run leads to: the pinned tab first, then the two others, swapped.\<close>

definition example_tab :: "jstr \<Rightarrow> jstr \<Rightarrow> jstr \<Rightarrow> bool \<Rightarrow> jstr list \<Rightarrow> tab_session" where
  "example_tab i url title pin stack =
     \<lparr>tab_id = i, tab_url = url, resourceKey = resourceKeyForUrl url, tab_title = title, pinned = pin,
      history = \<lparr>hist_stack = stack, hist_index = length stack - 1\<rparr>, tab_scroll = []\<rparr>"

definition example_group :: tab_group where
  "example_group =
     \<lparr>tabs =
       [example_tab ''t3'' ''/acme/settings'' ''Settings'' True [''/acme/settings''],
        example_tab ''t2'' ''/acme/issues/SIL-1'' ''Issues'' False
          [''/acme/issues?status=open'', ''/acme/issues/SIL-1''],
        example_tab ''t1'' ''/acme/tasks'' ''Tasks'' False [''/acme/tasks'']],
      activeTabId = ''t2''\<rparr>"

lemma example_store_eq:
  "example_store =
     \<lparr>activeWorkspaceSlug = Some ''acme'', byWorkspace = [(''acme'', example_group)], mountGeneration = 0\<rparr>"
  by code_simp

declare example_store_eq [code]

lemma example_inv: "tab_inv any_url example_store" "tab_inv own_url example_store"
  using any.machine.inv_reachable [OF example_reachable(2)]
    own.machine.inv_reachable [OF example_reachable(1)] by simp_all

lemma example_get: "obj_get (byWorkspace example_store) ''acme'' = Some example_group"
  by (simp add: example_store_eq obj_get_def)

lemma example_active: "active_group example_store = Some (''acme'', example_group)"
  by (simp add: example_store_eq active_group_def truthy_def obj_get_def)

lemma example_location: "findTabLocation (byWorkspace example_store) ''t1'' = Some (''acme'', example_group, 2)"
  by (simp add: example_store_eq example_group_def example_tab_def)

end
