(* ===== verification/Tab_Persist.thy ===== *)
theory Tab_Persist
  imports Tab_Safety
begin

text \<open>
  Persistence of the tab store: \<open>partialize\<close>, \<open>mergePersistedTabs\<close> and the migrations of
  older payloads. A persisted payload is untrusted, so its optional fields are options:
  \<open>None\<close> is a missing field, or one whose type the code rejects.
\<close>

section \<open>Payloads\<close>

record v4_history =
  p_stack :: "jstr list option"
  p_index :: "int option"

record v4_tab =
  p_id :: jstr
  p_url :: jstr
  p_title :: jstr
  p_pinned :: bool
  p_history :: "v4_history option"
  p_scroll :: "scroll_map option"

record 't persisted_group =
  p_tabs :: "'t list"
  p_activeTabId :: jstr

record 't persisted_state =
  p_activeWorkspaceSlug :: "jstr option"
  p_byWorkspace :: "'t persisted_group jsobj option"

section \<open>Writing and reading back\<close>

definition partialize_tab :: "tab_session \<Rightarrow> v4_tab" where
  "partialize_tab t =
     \<lparr>p_id = tab_id t, p_url = tab_url t, p_title = tab_title t, p_pinned = pinned t,
      p_history = Some \<lparr>p_stack = Some (hist_stack (history t)), p_index = Some (int (hist_index (history t)))\<rparr>,
      p_scroll = Some (tab_scroll t)\<rparr>"

definition partialize :: "tab_store \<Rightarrow> v4_tab persisted_state" where
  "partialize s =
     \<lparr>p_activeWorkspaceSlug = activeWorkspaceSlug s,
      p_byWorkspace = Some (map (\<lambda>(slug, grp).
        (slug, \<lparr>p_tabs = map partialize_tab (tabs grp), p_activeTabId = activeTabId grp\<rparr>)) (byWorkspace s))\<rparr>"

definition merge_history :: "jstr \<Rightarrow> v4_history option \<Rightarrow> tab_history" where
  "merge_history clean h =
     (let stack = (case h of Some h' \<Rightarrow> (case p_stack h' of Some (u # us) \<Rightarrow> u # us | _ \<Rightarrow> [clean])
                   | None \<Rightarrow> [clean]);
          lastIndex = int (length stack) - 1;
          wanted = (case h of Some h' \<Rightarrow> (case p_index h' of Some i \<Rightarrow> i | None \<Rightarrow> lastIndex)
                    | None \<Rightarrow> lastIndex)
      in \<lparr>hist_stack = stack, hist_index = nat (min (max wanted 0) lastIndex)\<rparr>)"

definition merge_tab :: "jstr \<Rightarrow> v4_tab \<Rightarrow> tab_session option" where
  "merge_tab slug p =
     (case sanitizeTabPath (p_url p) of
        None \<Rightarrow> None
      | Some clean \<Rightarrow>
          if extractWorkspaceSlug clean \<noteq> Some slug then None
          else Some
            \<lparr>tab_id = p_id p, tab_url = clean, resourceKey = resourceKeyForUrl clean,
             tab_title = p_title p, pinned = p_pinned p,
             history = merge_history clean (p_history p),
             tab_scroll = (case p_scroll p of Some m \<Rightarrow> m | None \<Rightarrow> emptyMemento)\<rparr>)"

text \<open>\<open>sort\<close> with the pinned-first comparator is stable, as the language requires.\<close>

definition merge_group :: "jstr \<Rightarrow> v4_tab persisted_group \<Rightarrow> tab_group option" where
  "merge_group slug p =
     (case sort_key (\<lambda>t. if pinned t then 0 else (1::nat)) (List.map_filter (merge_tab slug) (p_tabs p)) of
        [] \<Rightarrow> None
      | t # ts \<Rightarrow>
          Some \<lparr>tabs = t # ts,
                activeTabId = (if list_ex (\<lambda>x. tab_id x = p_activeTabId p) (t # ts)
                               then p_activeTabId p else tab_id t)\<rparr>)"

definition merge_groups :: "v4_tab persisted_group jsobj \<Rightarrow> tab_group jsobj" where
  "merge_groups pbw =
     fold (\<lambda>(slug, p) acc. case merge_group slug p of None \<Rightarrow> acc | Some g \<Rightarrow> obj_set slug g acc) pbw []"

definition mergePersistedTabs :: "v4_tab persisted_state \<Rightarrow> tab_store \<Rightarrow> tab_store" where
  "mergePersistedTabs p current =
     (case p_byWorkspace p of
        None \<Rightarrow> current
      | Some pbw \<Rightarrow>
          let bw = merge_groups pbw;
              active = (case truthy (p_activeWorkspaceSlug p) of
                          Some a \<Rightarrow> if obj_get bw a \<noteq> None then Some a else first_key bw
                        | None \<Rightarrow> first_key bw)
          in current\<lparr>byWorkspace := bw, activeWorkspaceSlug := active\<rparr>)"

section \<open>Older payloads\<close>

text \<open>\<open>V1Tab\<close> and \<open>V2PersistedTab\<close> have the same fields; \<open>V3PersistedTab\<close> adds the pin.\<close>

record v2_tab =
  lt_id :: jstr
  lt_path :: jstr
  lt_title :: jstr
  lt_icon :: jstr

record v3_tab = v2_tab +
  lt_pinned :: bool

record v1_state =
  v1_tabs :: "v2_tab list option"
  v1_activeTabId :: "jstr option"

definition v1_group_tab :: "v2_tab \<Rightarrow> v2_tab persisted_group jsobj \<Rightarrow> v2_tab persisted_group jsobj" where
  "v1_group_tab tab bw =
     (case extractWorkspaceSlug (lt_path tab) of
        None \<Rightarrow> bw
      | Some slug \<Rightarrow>
          let grp = (case obj_get bw slug of None \<Rightarrow> \<lparr>p_tabs = [], p_activeTabId = []\<rparr> | Some g \<Rightarrow> g)
          in obj_set slug (grp\<lparr>p_tabs := p_tabs grp @ [tab]\<rparr>) bw)"

definition v1_activate :: "jstr option \<Rightarrow> v2_tab persisted_group \<Rightarrow> v2_tab persisted_group" where
  "v1_activate active grp =
     grp\<lparr>p_activeTabId :=
       (if list_ex (\<lambda>t. Some (lt_id t) = active) (p_tabs grp) then the active
        else lt_id (hd (p_tabs grp)))\<rparr>"

definition migrateV1ToV2 :: "v1_state \<Rightarrow> v2_tab persisted_state" where
  "migrateV1ToV2 v1 =
     (let oldTabs = (case v1_tabs v1 of None \<Rightarrow> [] | Some ts \<Rightarrow> ts);
          bw = map (\<lambda>(slug, grp). (slug, v1_activate (v1_activeTabId v1) grp)) (fold v1_group_tab oldTabs []);
          active = (case find (\<lambda>(slug, grp). Some (p_activeTabId grp) = v1_activeTabId v1) bw of
                      Some (slug, _) \<Rightarrow> Some slug
                    | None \<Rightarrow> first_key bw)
      in \<lparr>p_activeWorkspaceSlug = active, p_byWorkspace = Some bw\<rparr>)"

definition map_groups :: "('a \<Rightarrow> 'b) \<Rightarrow> 'a persisted_state \<Rightarrow> 'b persisted_state" where
  "map_groups f st =
     \<lparr>p_activeWorkspaceSlug = p_activeWorkspaceSlug st,
      p_byWorkspace = Some (map (\<lambda>(slug, grp).
        (slug, \<lparr>p_tabs = map f (p_tabs grp), p_activeTabId = p_activeTabId grp\<rparr>))
        (case p_byWorkspace st of None \<Rightarrow> [] | Some bw \<Rightarrow> bw))\<rparr>"

definition migrateV2ToV3 :: "v2_tab persisted_state \<Rightarrow> v3_tab persisted_state" where
  "migrateV2ToV3 v2 = map_groups (\<lambda>t.
     \<lparr>lt_id = lt_id t, lt_path = lt_path t, lt_title = lt_title t, lt_icon = lt_icon t, lt_pinned = False\<rparr>) v2"

definition migrateV3ToV4 :: "v3_tab persisted_state \<Rightarrow> v4_tab persisted_state" where
  "migrateV3ToV4 v3 = map_groups (\<lambda>t.
     \<lparr>p_id = lt_id t, p_url = lt_path t, p_title = lt_title t, p_pinned = lt_pinned t,
      p_history = Some \<lparr>p_stack = Some [lt_path t], p_index = Some 0\<rparr>,
      p_scroll = Some emptyMemento\<rparr>) v3"

text \<open>The \<open>migrate\<close> hook, by the version a payload was written with.\<close>

datatype persisted_payload =
    V1 v1_state
  | V2 "v2_tab persisted_state"
  | V3 "v3_tab persisted_state"
  | V4 "v4_tab persisted_state"

fun migrate :: "persisted_payload \<Rightarrow> v4_tab persisted_state" where
  "migrate (V1 st) = migrateV3ToV4 (migrateV2ToV3 (migrateV1ToV2 st))"
| "migrate (V2 st) = migrateV3ToV4 (migrateV2ToV3 st)"
| "migrate (V3 st) = migrateV3ToV4 st"
| "migrate (V4 st) = st"

section \<open>Rehydration of any payload\<close>

lemma merge_history_bounds:
  "hist_index (merge_history clean h) < length (hist_stack (merge_history clean h))"
proof -
  have "nat (min (max w 0) (int (length st) - 1)) < length st" if "st \<noteq> []" for w :: int and st :: "jstr list"
    using that by (cases st) auto
  moreover have "(case h of Some h' \<Rightarrow> (case p_stack h' of Some (u # us) \<Rightarrow> u # us | _ \<Rightarrow> [clean])
      | None \<Rightarrow> [clean]) \<noteq> []"
    by (auto split: option.splits list.splits)
  ultimately show ?thesis by (simp add: merge_history_def Let_def)
qed

text \<open>What a rehydrated tab and group satisfy, whatever was stored.\<close>

definition merged_tab_ok :: "jstr \<Rightarrow> tab_session \<Rightarrow> bool" where
  "merged_tab_ok slug t = (url_ok own_url slug (tab_url t) \<and> resourceKey t = resourceKeyForUrl (tab_url t)
     \<and> hist_index (history t) < length (hist_stack (history t)))"

definition merged_group_ok :: "jstr \<Rightarrow> tab_group \<Rightarrow> bool" where
  "merged_group_ok slug g = (tabs g \<noteq> [] \<and> activeTabId g \<in> set (ids g) \<and> pinned_first (tabs g)
     \<and> list_all (merged_tab_ok slug) (tabs g))"

lemma merge_tab_ok: "merge_tab slug p = Some t \<Longrightarrow> merged_tab_ok slug t"
  by (auto simp: merge_tab_def merged_tab_ok_def url_ok_def own_url_def merge_history_bounds
      intro: sanitize_idem split: option.splits if_splits)

lemma pinned_first_sorted: "pinned_first ts \<longleftrightarrow> sorted (map (\<lambda>t. if pinned t then 0 else (1::nat)) ts)"
  unfolding pinned_first_zoned by (rule zoned_sorted)

lemma merge_group_ok:
  assumes "merge_group slug p = Some g"
  shows "merged_group_ok slug g"
proof -
  let ?ts = "sort_key (\<lambda>t. if pinned t then 0 else (1::nat)) (List.map_filter (merge_tab slug) (p_tabs p))"
  have "pinned_first ?ts" by (simp add: pinned_first_sorted)
  moreover have "list_all (merged_tab_ok slug) ?ts"
    by (auto simp: list_all_iff map_filter_def intro: merge_tab_ok)
  moreover obtain t ts where "?ts = t # ts" "tabs g = ?ts"
      "activeTabId g = (if list_ex (\<lambda>x. tab_id x = p_activeTabId p) ?ts then p_activeTabId p else tab_id t)"
    using assms by (auto simp: merge_group_def split: list.splits)
  ultimately show ?thesis
    by (auto simp: merged_group_ok_def ids_def list_ex_iff intro: rev_image_eqI)
qed

lemma merge_fold_ok:
  assumes "obj_ok acc" "\<forall>k g. obj_get acc k = Some g \<longrightarrow> merged_group_ok k g"
  shows "obj_ok (fold (\<lambda>(slug, p) acc. case merge_group slug p of None \<Rightarrow> acc | Some g \<Rightarrow> obj_set slug g acc) pbw acc)
    \<and> (\<forall>k g. obj_get (fold (\<lambda>(slug, p) acc. case merge_group slug p of None \<Rightarrow> acc
        | Some g \<Rightarrow> obj_set slug g acc) pbw acc) k = Some g \<longrightarrow> merged_group_ok k g)"
  using assms
proof (induction pbw arbitrary: acc)
  case (Cons sp pbw)
  obtain slug p where sp: "sp = (slug, p)" by (cases sp)
  show ?case
  proof (cases "merge_group slug p")
    case None
    with Cons sp show ?thesis by simp
  next
    case (Some g)
    have "obj_ok (obj_set slug g acc)" using Cons.prems(1) by (rule obj_ok_set)
    moreover have "\<forall>k h. obj_get (obj_set slug g acc) k = Some h \<longrightarrow> merged_group_ok k h"
      using obj.entries_update [OF Cons.prems(1,2)] merge_group_ok [OF Some] by blast
    ultimately show ?thesis using Cons.IH sp Some by simp
  qed
qed simp

lemma merge_groups_ok:
  "obj_ok (merge_groups pbw)" "obj_get (merge_groups pbw) k = Some g \<Longrightarrow> merged_group_ok k g"
  using merge_fold_ok [of "[]" pbw] by (simp_all add: merge_groups_def)

section \<open>Round trip\<close>

lemma merge_history_partialize:
  assumes "history_ok P url h"
  shows "merge_history clean (Some \<lparr>p_stack = Some (hist_stack h), p_index = Some (int (hist_index h))\<rparr>) = h"
proof -
  obtain u us where st: "hist_stack h = u # us" "hist_index h < length (u # us)"
    using assms by (cases "hist_stack h") (auto simp: history_ok_def)
  then have "int (hist_index h) \<le> int (length us)" by simp
  with st show ?thesis by (simp add: merge_history_def)
qed

lemma merge_tab_partialize:
  assumes "session_ok own_url slug t"
  shows "merge_tab slug (partialize_tab t) = Some t"
proof -
  have "url_ok own_url slug (tab_url t)"
    using assms by (auto simp: session_ok_def history_ok_def list_all_length)
  then have "sanitizeTabPath (tab_url t) = Some (tab_url t)" "extractWorkspaceSlug (tab_url t) = Some slug"
    by (simp_all add: url_ok_def own_url_def)
  moreover have "merge_history (tab_url t) (p_history (partialize_tab t)) = history t"
    using assms unfolding partialize_tab_def v4_tab.simps session_ok_def
    by (blast intro: merge_history_partialize)
  ultimately show ?thesis
    using assms by (simp add: merge_tab_def partialize_tab_def session_ok_def)
qed

lemma map_filter_id: "\<forall>x \<in> set xs. f (h x) = Some x \<Longrightarrow> List.map_filter f (map h xs) = xs"
  by (induction xs) simp_all

lemma merge_group_partialize:
  assumes "group_ok own_url slug g"
  shows "merge_group slug \<lparr>p_tabs = map partialize_tab (tabs g), p_activeTabId = activeTabId g\<rparr> = Some g"
proof -
  have "List.map_filter (merge_tab slug) (map partialize_tab (tabs g)) = tabs g"
    using assms by (intro map_filter_id) (auto simp: group_ok_def list_all_iff merge_tab_partialize)
  moreover have "sort_key (\<lambda>t. if pinned t then 0 else (1::nat)) (tabs g) = tabs g"
    using assms by (intro sort_key_id_if_sorted) (simp add: group_ok_def flip: pinned_first_sorted)
  moreover obtain t ts where "tabs g = t # ts"
    using group_ok_nonempty [OF assms] by (cases "tabs g") auto
  moreover have "list_ex (\<lambda>x. tab_id x = activeTabId g) (tabs g)"
    using assms by (auto simp: group_ok_def ids_def list_ex_iff)
  ultimately show ?thesis by (simp add: merge_group_def)
qed

lemma merge_groups_partialize:
  assumes "obj_ok bw" "\<forall>(k, g) \<in> set bw. group_ok own_url k g"
  shows "merge_groups (map (\<lambda>(slug, grp).
      (slug, \<lparr>p_tabs = map partialize_tab (tabs grp), p_activeTabId = activeTabId grp\<rparr>)) bw) = bw"
proof -
  have "fold (\<lambda>(slug, p) acc. case merge_group slug p of None \<Rightarrow> acc | Some g \<Rightarrow> obj_set slug g acc)
      (map (\<lambda>(slug, grp). (slug, \<lparr>p_tabs = map partialize_tab (tabs grp), p_activeTabId = activeTabId grp\<rparr>)) bw) acc
      = obj_assign acc bw" for acc
    using assms(2) by (induction bw arbitrary: acc) (auto simp: obj_assign_def merge_group_partialize)
  then show ?thesis using obj_rebuild [OF assms(1)] by (simp add: merge_groups_def)
qed

lemma merge_partialize:
  assumes "tab_inv own_url s"
  shows "mergePersistedTabs (partialize s) current
    = s\<lparr>mountGeneration := mountGeneration current\<rparr>"
proof -
  have ok: "obj_ok (byWorkspace s)" "\<forall>(k, g) \<in> set (byWorkspace s). group_ok own_url k g"
    using assms by (auto simp: tab_inv_def dest: obj_in_get)
  have "(case truthy (activeWorkspaceSlug s) of
      Some a \<Rightarrow> if obj_get (byWorkspace s) a \<noteq> None then Some a else first_key (byWorkspace s)
    | None \<Rightarrow> first_key (byWorkspace s)) = activeWorkspaceSlug s"
    using assms truthy_active [OF assms]
    by (auto simp: tab_inv_def first_key_def obj_keys_def split: option.splits)
  then show ?thesis
    by (simp add: mergePersistedTabs_def partialize_def merge_groups_partialize [OF ok] Let_def)
qed

section \<open>Migration of the first format\<close>

text \<open>The tabs of one workspace, in their old order.\<close>

definition tabs_of_slug :: "jstr \<Rightarrow> v2_tab list \<Rightarrow> v2_tab list" where
  "tabs_of_slug slug ts = filter (\<lambda>t. extractWorkspaceSlug (lt_path t) = Some slug) ts"

lemma fold_v1_group_tab:
  "obj_get (fold v1_group_tab ts bw) k =
     (let old = obj_get bw k; new = tabs_of_slug k ts in
      if old = None \<and> new = [] then None
      else Some (case old of None \<Rightarrow> \<lparr>p_tabs = new, p_activeTabId = []\<rparr>
                 | Some g \<Rightarrow> g\<lparr>p_tabs := p_tabs g @ new\<rparr>))"
proof (induction ts arbitrary: bw)
  case Nil
  show ?case by (auto simp: tabs_of_slug_def Let_def split: option.splits)
next
  case (Cons t ts)
  show ?case
  proof (cases "extractWorkspaceSlug (lt_path t)")
    case None
    then have "v1_group_tab t bw = bw" "tabs_of_slug k (t # ts) = tabs_of_slug k ts"
      by (simp_all add: v1_group_tab_def tabs_of_slug_def)
    then show ?thesis by (simp add: Cons.IH)
  next
    case (Some slug)
    show ?thesis
      unfolding fold.simps o_apply Cons.IH
      by (cases "obj_get bw slug"; cases "k = slug"; cases "tabs_of_slug k ts")
        (auto simp add: v1_group_tab_def tabs_of_slug_def Some obj_get_set Let_def split: option.splits)
  qed
qed

lemma obj_ok_fold_v1: "obj_ok bw \<Longrightarrow> obj_ok (fold v1_group_tab ts bw)"
  by (induction ts arbitrary: bw) (auto simp: v1_group_tab_def Let_def obj_ok_set split: option.splits)

lemma obj_get_map_values: "obj_get (map (\<lambda>(k, v). (k, f v)) ob) k = map_option f (obj_get ob k)"
  by (induction ob) (auto simp: obj_get_def)

lemma migrateV1ToV2_get:
  "obj_get (the (p_byWorkspace (migrateV1ToV2 v1))) k =
     (let new = tabs_of_slug k (case v1_tabs v1 of None \<Rightarrow> [] | Some ts \<Rightarrow> ts) in
      if new = [] then None
      else Some \<lparr>p_tabs = new, p_activeTabId = (if list_ex (\<lambda>t. Some (lt_id t) = v1_activeTabId v1) new
        then the (v1_activeTabId v1) else lt_id (hd new))\<rparr>)"
  by (simp add: migrateV1ToV2_def Let_def obj_get_map_values fold_v1_group_tab v1_activate_def)

end
