(* ===== verification/Tab_Properties.thy ===== *)
theory Tab_Properties
  imports Tab_Example Tab_Persist
begin

text \<open>
  What the tab store guarantees: its invariant on every reachable store, workspace isolation,
  persistence, and the functional behaviour of the actions users see (history, pinning,
  reordering, closing, deduplication).
\<close>

section \<open>Reachable stores\<close>

text \<open>C1: whatever actions are performed, in whatever order, every group has an active tab of
  its own, distinct tab identifiers, pinned tabs first, a history whose current entry is the
  tab's URL, and the active workspace has a group.\<close>

theorem tab_store_invariant:
  assumes "reachable tab_start (tab_step am) (tab_enabled am any_url) s"
  shows "tab_inv any_url s"
  using assms by (rule any.machine.inv_reachable)

lemma tab_store_invariant_witness: "tab_inv any_url example_store"
  by (rule tab_store_invariant [OF example_reachable(2)])

text \<open>C3: tabs never leave their workspace. As long as callers open only URLs of the workspace
  they name, every URL in the history of every tab of a group carries that group's slug.\<close>

theorem tabs_stay_in_workspace:
  assumes "reachable tab_start (tab_step am) (tab_enabled am own_url) s"
    and "obj_get (byWorkspace s) slug = Some g" "t \<in> set (tabs g)"
    and "u \<in> insert (tab_url t) (set (hist_stack (history t)))"
  shows "extractWorkspaceSlug u = Some slug"
proof -
  have "session_ok own_url slug t"
    using tab_inv_group [OF own.machine.inv_reachable [OF assms(1)] assms(2)] assms(3)
    by (auto simp: group_ok_def list_all_iff)
  then have "url_ok own_url slug u"
    using assms(4) nth_mem [of "hist_index (history t)" "hist_stack (history t)"]
    by (auto simp: session_ok_def history_ok_def list_all_iff)
  then show ?thesis by (simp add: url_ok_def own_url_def)
qed

lemma tabs_stay_in_workspace_witness:
  "extractWorkspaceSlug ''/acme/issues/SIL-1'' = Some ''acme''"
  by (rule tabs_stay_in_workspace [OF example_reachable(1) example_get, of "tabs example_group ! 1"])
    (simp_all add: example_group_def example_tab_def)

text \<open>Every URL of the history of a tab carries the slug of the group the tab is in.\<close>

definition tabs_at_home :: "tab_store \<Rightarrow> bool" where
  "tabs_at_home s = list_all (\<lambda>(slug, g). list_all (\<lambda>t. list_all (\<lambda>u. extractWorkspaceSlug u = Some slug)
     (hist_stack (history t))) (tabs g)) (byWorkspace s)"

lemma at_home_inv:
  assumes inv: "tab_inv any_url s" and home: "tabs_at_home s"
  shows "tab_inv own_url s"
proof -
  have "group_ok own_url k g" if g: "obj_get (byWorkspace s) k = Some g" for k g
  proof -
    have "(k, g) \<in> set (byWorkspace s)" using g by (auto simp: obj_get_def dest: map_of_SomeD)
    then have "list_all (\<lambda>t. list_all (\<lambda>u. extractWorkspaceSlug u = Some k) (hist_stack (history t))) (tabs g)"
      using home by (auto simp: tabs_at_home_def list_all_iff)
    with tab_inv_group [OF inv g] show ?thesis
      by (auto simp: group_ok_def list_all_iff session_ok_def history_ok_def url_ok_def own_url_def)
  qed
  with inv show ?thesis by (auto simp: tab_inv_def)
qed

text \<open>C5: a store reached by any actions, all of whose tabs only hold URLs of the workspace of their
  group, is the same store after it was written to disk and read back, except for the mount generation,
  which is deliberately not persisted. A tab at a URL of another workspace is dropped by the reader; no
  tab gets there while callers open only URLs of the workspace they name.\<close>

theorem persistence_roundtrip:
  assumes "reachable tab_start (tab_step am) (tab_enabled am any_url) s" "tabs_at_home s"
  shows "mergePersistedTabs (partialize s) current = s\<lparr>mountGeneration := mountGeneration current\<rparr>"
  using at_home_inv [OF any.machine.inv_reachable [OF assms(1)] assms(2)] by (rule merge_partialize)

lemma persistence_roundtrip_witness:
  "mergePersistedTabs (partialize example_store) initial_tab_store = example_store\<lparr>mountGeneration := 0\<rparr>"
proof -
  have "tabs_at_home example_store"
    unfolding example_store_eq by code_simp
  from persistence_roundtrip [OF example_reachable(2) this, of initial_tab_store] show ?thesis
    by (simp add: initial_tab_store_def)
qed

section \<open>Rehydration\<close>

text \<open>C34: whatever payload is found on disk, the rehydrated groups are non-empty, their active
  tab is one of their tabs, pinned tabs come first, every URL is normalised and belongs to the
  group's workspace, history indices are in range, and the active workspace has a group.\<close>

theorem merge_any_payload:
  assumes pbw: "p_byWorkspace p = Some pbw" and m: "m = mergePersistedTabs p current"
  shows "(\<forall>slug g. obj_get (byWorkspace m) slug = Some g \<longrightarrow> merged_group_ok slug g) \<and>
    (case activeWorkspaceSlug m of None \<Rightarrow> byWorkspace m = [] | Some a \<Rightarrow> obj_get (byWorkspace m) a \<noteq> None)"
proof
  have bw: "byWorkspace m = merge_groups pbw"
    by (simp add: m mergePersistedTabs_def pbw Let_def)
  then show "\<forall>slug g. obj_get (byWorkspace m) slug = Some g \<longrightarrow> merged_group_ok slug g"
    by (simp add: merge_groups_ok(2))
  have "activeWorkspaceSlug m = first_key (merge_groups pbw) \<or>
      (\<exists>a. activeWorkspaceSlug m = Some a \<and> obj_get (merge_groups pbw) a \<noteq> None)"
    by (simp add: m mergePersistedTabs_def pbw Let_def split: option.splits)
  then show "case activeWorkspaceSlug m of None \<Rightarrow> byWorkspace m = [] | Some a \<Rightarrow> obj_get (byWorkspace m) a \<noteq> None"
    unfolding bw using first_key_get [of "merge_groups pbw"] by (auto split: option.splits)
qed

definition example_payload :: "v4_tab persisted_state" where
  "example_payload =
     \<lparr>p_activeWorkspaceSlug = Some ''gone'',
      p_byWorkspace = Some
        [(''acme'',
          \<lparr>p_tabs =
            [\<lparr>p_id = ''a'', p_url = ''/acme'', p_title = ''A'', p_pinned = False, p_history = None, p_scroll = None\<rparr>,
             \<lparr>p_id = ''b'', p_url = ''/other/issues'', p_title = ''B'', p_pinned = False, p_history = None, p_scroll = None\<rparr>,
             \<lparr>p_id = ''c'', p_url = ''/acme/inbox'', p_title = ''C'', p_pinned = True,
              p_history = Some \<lparr>p_stack = Some [], p_index = Some 7\<rparr>, p_scroll = None\<rparr>],
           p_activeTabId = ''b''\<rparr>),
         (''gone'', \<lparr>p_tabs = [], p_activeTabId = ''x''\<rparr>)]\<rparr>"

definition example_merged_group :: tab_group where
  "example_merged_group =
     \<lparr>tabs =
       [example_tab ''c'' ''/acme/inbox'' ''C'' True [''/acme/inbox''],
        example_tab ''a'' ''/acme/tasks'' ''A'' False [''/acme/tasks'']],
      activeTabId = ''c''\<rparr>"

lemma example_merged:
  "mergePersistedTabs example_payload initial_tab_store =
     \<lparr>activeWorkspaceSlug = Some ''acme'', byWorkspace = [(''acme'', example_merged_group)], mountGeneration = 0\<rparr>"
  by code_simp

lemma merge_any_payload_witness:
  "merged_group_ok ''acme'' example_merged_group \<and> activeTabId example_merged_group = ''c''"
proof -
  have "p_byWorkspace example_payload = Some (the (p_byWorkspace example_payload))"
    by (simp add: example_payload_def)
  from merge_any_payload [OF this example_merged [symmetric]]
  have "merged_group_ok ''acme'' example_merged_group" by (auto simp: obj_get_def)
  then show ?thesis by (simp add: example_merged_group_def)
qed

text \<open>The URL normaliser is idempotent, keeps the search and hash of a URL, and what it
  returns names a workspace that is not a reserved word.\<close>

theorem sanitize_normalises:
  assumes "sanitizeTabPath path = Some clean"
  shows "sanitizeTabPath clean = Some clean \<and> snd (splitTabUrl clean) = snd (splitTabUrl path)
    \<and> (\<exists>slug. extractWorkspaceSlug clean = Some slug \<and> slug \<noteq> [] \<and> \<not> isReservedSlug slug)"
proof (intro conjI)
  show "sanitizeTabPath clean = Some clean" using assms by (rule sanitize_idem)
  show "snd (splitTabUrl clean) = snd (splitTabUrl path)"
    using assms
  proof (cases rule: sanitize_cases)
    case (bare slug)
    then show ?thesis by (simp only: sanitize_bare_split [OF bare(1)] snd_conv)
  qed simp
  show "\<exists>slug. extractWorkspaceSlug clean = Some slug \<and> slug \<noteq> [] \<and> \<not> isReservedSlug slug"
    using sanitize_slug(2) [OF assms]
    by (auto simp: extractWorkspaceSlug_def split: list.splits if_splits)
qed

lemma sanitize_normalises_witness:
  "sanitizeTabPath ''/acme/tasks?q=1'' = Some ''/acme/tasks?q=1''"
proof -
  have "sanitizeTabPath ''/acme?q=1'' = Some ''/acme/tasks?q=1''" by code_simp
  from sanitize_normalises [OF this] show ?thesis by simp
qed

end
