(* ===== verification/Tab_Behaviour.thy ===== *)
theory Tab_Behaviour
  imports Tab_Persist Tab_Example
begin

text \<open>
  The functional behaviour of the tab actions users see: in-tab history, pinning, reordering,
  closing the others, deduplication, pruning of workspaces, and the migration of the first
  persisted format.
\<close>

section \<open>In-tab history\<close>

text \<open>The result of a navigation or a history step that does something.\<close>

lemma navigate_effect:
  assumes "navigateActiveSession url replace s \<noteq> s"
  obtains slug g i clean where "active_group s = Some (slug, g)"
    "find_index (\<lambda>t. tab_id t = activeTabId g) (tabs g) = Some i"
    "sanitizeTabPath url = Some clean"
    "navigateActiveSession url replace s = put_group slug (g\<lparr>tabs := (tabs g)[i :=
       (tabs g ! i)\<lparr>tab_url := clean, resourceKey := resourceKeyForUrl clean,
         history := push_history replace clean (history (tabs g ! i))\<rparr>]\<rparr>) s"
  using assms by (auto simp: navigateActiveSession_def Let_def split: option.splits if_splits)

lemma stepHistory_at:
  assumes "active_group s = Some (slug, g)" "find_index (\<lambda>t. tab_id t = activeTabId g) (tabs g) = Some i"
    and "int (hist_index (history (tabs g ! i))) + delta = int k" "k < length (hist_stack (history (tabs g ! i)))"
  shows "stepHistory delta s = put_group slug (g\<lparr>tabs := (tabs g)[i :=
     (tabs g ! i)\<lparr>tab_url := hist_stack (history (tabs g ! i)) ! k,
       resourceKey := resourceKeyForUrl (hist_stack (history (tabs g ! i)) ! k),
       history := (history (tabs g ! i))\<lparr>hist_index := k\<rparr>\<rparr>]\<rparr>) s"
  unfolding stepHistory_def Let_def using assms by simp

lemma active_tab_at:
  "active_group s = Some (slug, g) \<Longrightarrow> find_index (\<lambda>t. tab_id t = activeTabId g) (tabs g) = Some i \<Longrightarrow>
   getActiveTab s = Some (tabs g ! i)"
  by (simp add: getActiveTab_def find_of_index)

lemma push_then_back:
  assumes "history_ok P url h"
  shows "hist_index (push_history False clean h) = Suc (hist_index h)"
    "hist_stack (push_history False clean h) ! hist_index h = url"
    "hist_stack (push_history False clean h) ! Suc (hist_index h) = clean"
    "length (hist_stack (push_history False clean h)) = Suc (Suc (hist_index h))"
  using assms by (auto simp: push_history_def history_ok_def nth_append min_def)

text \<open>C38: after an in-tab navigation that went through, going back shows the URL the tab showed
  before, and going forward again restores the navigated store exactly.\<close>

theorem back_forward_navigate:
  assumes inv: "tab_inv Q s" and moved: "navigateActiveSession url False s \<noteq> s"
  shows "map_option tab_url (getActiveTab (goBack (navigateActiveSession url False s)))
      = map_option tab_url (getActiveTab s)
    \<and> goForward (goBack (navigateActiveSession url False s)) = navigateActiveSession url False s"
proof -
  obtain slug g i clean where kg: "active_group s = Some (slug, g)"
    and i: "find_index (\<lambda>t. tab_id t = activeTabId g) (tabs g) = Some i"
    and nav: "navigateActiveSession url False s = put_group slug (g\<lparr>tabs := (tabs g)[i :=
       (tabs g ! i)\<lparr>tab_url := clean, resourceKey := resourceKeyForUrl clean,
         history := push_history False clean (history (tabs g ! i))\<rparr>]\<rparr>) s"
    using navigate_effect [OF moved] by metis
  let ?t = "tabs g ! i"
  let ?h = "push_history False clean (history ?t)"
  let ?t1 = "?t\<lparr>tab_url := clean, resourceKey := resourceKeyForUrl clean, history := ?h\<rparr>"
  let ?g1 = "g\<lparr>tabs := (tabs g)[i := ?t1]\<rparr>"
  note act = find_active_ok [OF inv kg i]
  from act(2) have "history_ok (url_ok Q slug) (tab_url ?t) (history ?t)" by (simp add: session_ok_def)
  note push = push_then_back [OF this, of clean]
  have kg1: "active_group (navigateActiveSession url False s) = Some (slug, ?g1)"
    unfolding nav using kg by (rule active_group_put)
  have i1: "find_index (\<lambda>t. tab_id t = activeTabId ?g1) (tabs ?g1) = Some i"
    using find_index_write [OF i, of ?t1] by simp
  have cur1: "tabs ?g1 ! i = ?t1" using act(1) by simp
  let ?t2 = "?t1\<lparr>tab_url := tab_url ?t, resourceKey := resourceKeyForUrl (tab_url ?t),
    history := ?h\<lparr>hist_index := hist_index (history ?t)\<rparr>\<rparr>"
  let ?g2 = "g\<lparr>tabs := (tabs g)[i := ?t2]\<rparr>"
  have gone_back: "goBack (navigateActiveSession url False s) = put_group slug ?g2 s"
    unfolding goBack_def using stepHistory_at [OF kg1 i1, of "-1" "hist_index (history ?t)"] push act(1)
    by (simp add: cur1) (simp add: nav put_group_put_group)
  have kg2: "active_group (put_group slug ?g2 s) = Some (slug, ?g2)"
    using kg by (rule active_group_put)
  have i2: "find_index (\<lambda>t. tab_id t = activeTabId ?g2) (tabs ?g2) = Some i"
    using find_index_write [OF i, of ?t2] by simp
  have cur2: "tabs ?g2 ! i = ?t2" using act(1) by simp
  have whole: "?h\<lparr>hist_index := Suc (hist_index (history ?t))\<rparr> = ?h"
    using push(1) by (cases ?h) simp
  have "goForward (put_group slug ?g2 s) = navigateActiveSession url False s"
    unfolding goForward_def
    using stepHistory_at [OF kg2 i2, of 1 "Suc (hist_index (history ?t))"] push act(1)
    by (simp add: cur2) (simp add: nav put_group_put_group whole)
  moreover have "map_option tab_url (getActiveTab (put_group slug ?g2 s)) = map_option tab_url (getActiveTab s)"
    unfolding active_tab_at [OF kg2 i2] active_tab_at [OF kg i] using act(1) by simp
  ultimately show ?thesis by (simp add: gone_back)
qed

lemma back_forward_navigate_witness:
  "goForward (goBack (navigateActiveSession ''/acme/inbox'' False example_store))
     = navigateActiveSession ''/acme/inbox'' False example_store"
proof -
  have "map_option tab_url (getActiveTab (navigateActiveSession ''/acme/inbox'' False example_store))
      \<noteq> map_option tab_url (getActiveTab example_store)" by code_simp
  then have "navigateActiveSession ''/acme/inbox'' False example_store \<noteq> example_store" by metis
  from back_forward_navigate [OF example_inv(1) this] show ?thesis by simp
qed

section \<open>Pinning and reordering\<close>

lemma takeWhile_zoned: "zoned P xs \<Longrightarrow> takeWhile P xs = filter P xs \<and> dropWhile P xs = filter (\<lambda>x. \<not> P x) xs"
proof (induction xs)
  case (Cons x xs)
  from Cons.prems have front: "\<forall>y \<in> set xs. P y \<longrightarrow> P x" and rest: "zoned P xs" by simp_all
  show ?case
  proof (cases "P x")
    case True
    with Cons.IH [OF rest] show ?thesis by simp
  next
    case False
    with front have none: "\<forall>y \<in> set xs. \<not> P y" by blast
    then have "filter P xs = []" "filter (\<lambda>x. \<not> P x) xs = xs" by simp_all
    with False show ?thesis by simp
  qed
qed simp

lemma filter_remove_nth_distinct:
  assumes "distinct (map f xs)" "i < length xs"
  shows "remove_nth i xs = filter (\<lambda>x. f x \<noteq> f (xs ! i)) xs"
  using assms
proof (induction xs arbitrary: i)
  case (Cons x xs)
  show ?case
  proof (cases i)
    case 0
    have "filter (\<lambda>y. f y \<noteq> f x) xs = xs" using Cons.prems(1)
      by (intro filter_True) (metis distinct.simps(2) image_eqI list.set_map list.simps(9))
    with 0 show ?thesis by (simp add: remove_nth_def)
  next
    case (Suc j)
    have "f x \<noteq> f (xs ! j)" using Cons.prems Suc by auto
    moreover have "remove_nth i (x # xs) = x # remove_nth j xs" by (simp add: remove_nth_def Suc)
    ultimately show ?thesis using Cons.IH [of j] Cons.prems Suc by simp
  qed
qed simp

text \<open>\<open>togglePin\<close> moves the tab to the boundary of the two zones: the pinned other tabs, the
  toggled tab, the unpinned other tabs, each in their old order.\<close>

theorem togglePin_effect:
  assumes inv: "tab_inv Q s" and hit: "findTabLocation (byWorkspace s) tabId = Some (slug, g, i)"
    and others: "others = filter (\<lambda>t. tab_id t \<noteq> tabId) (tabs g)"
  shows "togglePin tabId s = put_group slug (g\<lparr>tabs := filter pinned others
    @ (tabs g ! i)\<lparr>pinned := \<not> pinned (tabs g ! i)\<rparr> # filter (\<lambda>t. \<not> pinned t) others\<rparr>) s"
proof -
  note found = tab_inv_found [OF inv hit]
  have "distinct (map tab_id (tabs g))" using found(3) by (simp add: group_ok_def ids_def)
  from filter_remove_nth_distinct [OF this found(4)] have rest: "remove_nth i (tabs g) = others"
    by (simp add: others found(5))
  have "zoned pinned (tabs g)" using found(3) by (simp add: group_ok_def pinned_first_zoned)
  then have "zoned pinned others" unfolding rest [symmetric] by (rule zoned_remove)
  note zone = takeWhile_zoned [OF this]
  have "take (pinnedBoundary others) others = filter pinned others"
    "drop (pinnedBoundary others) others = filter (\<lambda>t. \<not> pinned t) others"
    using zone by (simp_all add: pinnedBoundary_zone zone_take_drop)
  then show ?thesis by (simp add: togglePin_def hit Let_def rest insert_nth_def)
qed

lemma togglePin_effect_witness:
  "map tab_id (tabs (the (obj_get (byWorkspace (togglePin ''t1'' example_store)) ''acme''))) = [''t3'', ''t1'', ''t2'']"
  unfolding togglePin_effect [OF example_inv(1) example_location refl]
  by (simp add: put_group_def obj_get_set) (simp add: example_group_def example_tab_def)

text \<open>Moving permutes one zone and leaves the other one as it is.\<close>

lemma filter_insert_nth_other:
  "\<not> P x \<Longrightarrow> filter P (insert_nth j x xs) = filter P xs"
proof -
  have "filter P xs = filter P (take j xs) @ filter P (drop j xs)"
    by (metis append_take_drop_id filter_append)
  then show "\<not> P x \<Longrightarrow> filter P (insert_nth j x xs) = filter P xs" by (simp add: insert_nth_def)
qed

lemma filter_remove_nth_other:
  assumes "i < length xs" "\<not> P (xs ! i)"
  shows "filter P (remove_nth i xs) = filter P xs"
proof -
  have "filter P xs = filter P (take i xs @ xs ! i # drop (Suc i) xs)"
    using assms(1) by (simp only: id_take_nth_drop [symmetric])
  with assms(2) show ?thesis by (simp add: remove_nth_def)
qed

text \<open>A drag that changes anything permutes the tabs of the active group, keeps pinned tabs
  first, and leaves the zone the dragged tab is not in exactly as it was.\<close>

theorem moveTab_effect:
  assumes inv: "tab_inv Q s" and am: "array_move_active am s" and kg: "active_group s = Some (slug, g)"
    and moved: "moveTab am i j s \<noteq> s"
  shows "\<exists>ts. moveTab am i j s = put_group slug (g\<lparr>tabs := ts\<rparr>) s
    \<and> mset ts = mset (tabs g) \<and> pinned_first ts
    \<and> filter (\<lambda>t. pinned t \<noteq> pinned (tabs g ! nat i)) ts = filter (\<lambda>t. pinned t \<noteq> pinned (tabs g ! nat i)) (tabs g)"
proof -
  let ?b = "int (pinnedBoundary (tabs g))"
  let ?to = "if pinned (tabs g ! nat i) then max 0 (min j (?b - 1))
    else max ?b (min j (int (length (tabs g)) - 1))"
  let ?ts = "insert_nth (nat ?to) (tabs g ! nat i) (remove_nth (nat i) (tabs g))"
  have unfold: "moveTab am i j s = (if i = j then s else if i < 0 \<or> i \<ge> int (length (tabs g)) then s
      else if ?to = i then s else put_group slug (g\<lparr>tabs := am (tabs g) (nat i) (nat ?to)\<rparr>) s)"
    by (simp only: moveTab_def kg option.case prod.case Let_def)
  with moved have range: "\<not> (i < 0 \<or> i \<ge> int (length (tabs g)))" by metis
  with moved unfold have eq: "moveTab am i j s = put_group slug (g\<lparr>tabs := am (tabs g) (nat i) (nat ?to)\<rparr>) s"
    by metis
  have i: "0 \<le> i" "nat i < length (tabs g)" using range by auto
  have pf: "zoned pinned (tabs g)"
    using tab_inv_active(3) [OF inv kg] by (simp add: group_ok_def pinned_first_zoned)
  note iff = zone_iff [OF pf i(2)]
  have to: "nat ?to < length (tabs g)" "if pinned (tabs g ! nat i) then nat ?to < zone_length pinned (tabs g)
      else zone_length pinned (tabs g) \<le> nat ?to"
    using i iff zone_length_le [of pinned "tabs g"] by (auto simp: pinnedBoundary_zone)
  have "am (tabs g) (nat i) (nat ?to) = ?ts"
    using am kg i(2) to(1) by (simp add: array_move_active_def array_move_at_def)
  moreover have "pinned_first ?ts"
    unfolding pinned_first_zoned by (rule move_zoned [OF pf i(2) to(2)])
  moreover have "filter (\<lambda>t. pinned t \<noteq> pinned (tabs g ! nat i)) ?ts
      = filter (\<lambda>t. pinned t \<noteq> pinned (tabs g ! nat i)) (tabs g)"
    by (simp add: filter_insert_nth_other filter_remove_nth_other i(2))
  ultimately show ?thesis using mset_move [OF i(2)] eq by metis
qed

lemma moveTab_effect_witness:
  "\<exists>ts. moveTab move_element 2 0 example_store = put_group ''acme'' (example_group\<lparr>tabs := ts\<rparr>) example_store
    \<and> pinned_first ts \<and> hd ts = hd (tabs example_group)"
proof -
  have "map tab_id (tabs (the (obj_get (byWorkspace (moveTab move_element 2 0 example_store)) ''acme'')))
      \<noteq> map tab_id (tabs (the (obj_get (byWorkspace example_store) ''acme'')))" by code_simp
  then have "moveTab move_element 2 0 example_store \<noteq> example_store" by metis
  from moveTab_effect [OF example_inv(1) move_element_active example_active this] obtain ts where
    ts: "moveTab move_element 2 0 example_store = put_group ''acme'' (example_group\<lparr>tabs := ts\<rparr>) example_store"
      "pinned_first ts" "filter pinned ts = [tabs example_group ! 0]"
    by (auto simp: example_group_def example_tab_def)
  then have "takeWhile pinned ts = [tabs example_group ! 0]"
    using takeWhile_zoned [of pinned ts] by (simp add: pinned_first_zoned)
  then have "hd ts = tabs example_group ! 0" by (cases ts) (auto split: if_splits)
  with ts show ?thesis by (auto simp: example_group_def)
qed

section \<open>Closing the others\<close>

text \<open>Closing the others keeps exactly the pinned tabs and the target, in order, and the
  active tab stays active unless it was closed, in which case the target becomes active.\<close>

theorem closeOtherTabs_effect:
  assumes inv: "tab_inv Q s" and hit: "findTabLocation (byWorkspace s) tabId = Some (slug, g, i)"
  shows "\<exists>a. closeOtherTabs tabId s = put_group slug
      \<lparr>tabs = filter (\<lambda>t. pinned t \<or> tab_id t = tabId) (tabs g), activeTabId = a\<rparr> s
    \<and> a = (if activeTabId g \<in> tab_id ` set (filter (\<lambda>t. pinned t \<or> tab_id t = tabId) (tabs g))
           then activeTabId g else tabId)"
proof -
  note found = tab_inv_found [OF inv hit]
  let ?closing = "filter (\<lambda>t. \<not> pinned t \<and> tab_id t \<noteq> tabId) (tabs g)"
  let ?kept = "filter (\<lambda>t. pinned t \<or> tab_id t = tabId) (tabs g)"
  have dist: "distinct (map tab_id (tabs g))" and act: "activeTabId g \<in> tab_id ` set (tabs g)"
    using found(3) by (auto simp: group_ok_def ids_def)
  have inj: "t = t'" if "t \<in> set (tabs g)" "t' \<in> set (tabs g)" "tab_id t = tab_id t'" for t t'
    using dist that by (auto simp: distinct_map inj_on_def)
  have kept: "filter (\<lambda>t. tab_id t \<notin> set (map tab_id ?closing)) (tabs g) = ?kept"
    by (rule filter_cong) (auto dest: inj)
  have active: "(if activeTabId g \<in> set (map tab_id ?closing) then tabId else activeTabId g)
      = (if activeTabId g \<in> tab_id ` set ?kept then activeTabId g else tabId)"
    using act by (auto dest: inj)
  show ?thesis
  proof (cases "?closing = []")
    case True
    then have all: "?kept = tabs g" by (intro filter_True) (auto simp: filter_empty_conv)
    have "put_group slug g s = s"
      using inv found(1) by (simp add: put_group_def obj_set_same tab_inv_def)
    then have "put_group slug \<lparr>tabs = tabs g, activeTabId = activeTabId g\<rparr> s = s" by (cases g) simp
    then have "closeOtherTabs tabId s = put_group slug \<lparr>tabs = ?kept, activeTabId = activeTabId g\<rparr> s"
      using True hit unfolding all by (simp add: closeOtherTabs_def buildCloseOtherTabsResult_def)
    then show ?thesis unfolding all using act by auto
  next
    case False
    then have "closeOtherTabs tabId s = put_group slug \<lparr>tabs = ?kept,
        activeTabId = (if activeTabId g \<in> set (map tab_id ?closing) then tabId else activeTabId g)\<rparr> s"
      unfolding closeOtherTabs_def buildCloseOtherTabsResult_def hit option.case prod.case Let_def kept
      by (simp only: if_False option.case put_group_def)
    then show ?thesis unfolding active by blast
  qed
qed

lemma closeOtherTabs_effect_witness:
  "map tab_id (tabs (the (obj_get (byWorkspace (closeOtherTabs ''t1'' example_store)) ''acme''))) = [''t3'', ''t1'']"
  using closeOtherTabs_effect [OF example_inv(1) example_location]
  by (auto simp: put_group_def obj_get_set) (simp_all add: example_group_def example_tab_def)

section \<open>Deduplication\<close>

text \<open>How many tabs of a group show a resource.\<close>

definition showing :: "jstr \<Rightarrow> tab_group \<Rightarrow> nat" where
  "showing key g = length (filter (\<lambda>t. resourceKey t = key) (tabs g))"

text \<open>Opening a path leaves exactly as many tabs on its resource as before, or one if there
  was none; the identifier returned is the one of such a tab, and no other tab is touched.\<close>

theorem openTab_effect:
  assumes clean: "sanitizeTabPath path = Some clean" and kg: "active_group s = Some (slug, g)"
  shows "\<exists>g'. active_group (fst (openTab fresh path title activate s)) = Some (slug, g')
    \<and> showing (resourceKeyForUrl clean) g' = max 1 (showing (resourceKeyForUrl clean) g)
    \<and> snd (openTab fresh path title activate s) \<in> tab_id ` {t \<in> set (tabs g'). resourceKey t = resourceKeyForUrl clean}
    \<and> filter (\<lambda>t. resourceKey t \<noteq> resourceKeyForUrl clean) (tabs g')
        = filter (\<lambda>t. resourceKey t \<noteq> resourceKeyForUrl clean) (tabs g)"
proof (cases "find (\<lambda>t. resourceKey t = resourceKeyForUrl clean) (tabs g)")
  case None
  then have none: "filter (\<lambda>t. resourceKey t = resourceKeyForUrl clean) (tabs g) = []"
    by (auto simp: find_None_iff filter_empty_conv)
  have key: "resourceKey (makeSession fresh clean title) = resourceKeyForUrl clean"
    by (simp add: makeSession_def)
  show ?thesis
    using None clean kg none
    by (auto simp: openTab_def Let_def active_group_put showing_def key
        intro!: image_eqI [where x = "makeSession fresh clean title"])
next
  case (Some t)
  from find_in_set [OF Some] have t: "t \<in> set (tabs g)" "resourceKey t = resourceKeyForUrl clean" by auto
  then have "filter (\<lambda>t. resourceKey t = resourceKeyForUrl clean) (tabs g) \<noteq> []"
    by (auto simp: filter_empty_conv)
  then have "1 \<le> showing (resourceKeyForUrl clean) g" by (simp add: showing_def Suc_le_eq)
  with t Some clean kg show ?thesis
    by (auto simp: openTab_def Let_def active_group_put showing_def max_def Suc_le_eq)
qed

lemma openTab_effect_witness:
  "\<exists>g'. active_group (fst (openTab ''t9'' ''/acme/tasks?x=1'' ''T'' True example_store)) = Some (''acme'', g')
    \<and> showing ''/acme/tasks'' g' = 1"
proof -
  have "sanitizeTabPath ''/acme/tasks?x=1'' = Some ''/acme/tasks?x=1''" by code_simp
  moreover have "resourceKeyForUrl ''/acme/tasks?x=1'' = ''/acme/tasks''" by code_simp
  moreover have "showing ''/acme/tasks'' example_group = 1" by code_simp
  ultimately show ?thesis using openTab_effect [OF _ example_active, of "''/acme/tasks?x=1''"] by fastforce
qed

section \<open>Pruning\<close>

text \<open>After the workspace list arrives, exactly the groups of listed workspaces survive,
  unchanged; the active workspace stays active if it is listed, else the first survivor is shown,
  and if nothing survives a default tab of the first listed workspace is seeded.\<close>

theorem validateWorkspaceSlugs_effect:
  assumes "tab_inv Q s" "list_all workspace_slug validSlugs"
  shows "validateWorkspaceSlugs fresh validSlugs s =
     (case kept_active validSlugs s of
        Some a \<Rightarrow> s\<lparr>byWorkspace := filter (\<lambda>(k, _). k \<in> set validSlugs) (byWorkspace s),
                    activeWorkspaceSlug := Some a\<rparr>
      | None \<Rightarrow>
          (case validSlugs of
             [] \<Rightarrow> s\<lparr>byWorkspace := [], activeWorkspaceSlug := None\<rparr>
           | fallback # _ \<Rightarrow>
               s\<lparr>byWorkspace := [(fallback, \<lparr>tabs = [defaultTabFor fresh fallback], activeTabId = fresh\<rparr>)],
                 activeWorkspaceSlug := Some fallback\<rparr>))"
  using assms by (rule validate_cases)

lemma validateWorkspaceSlugs_effect_witness:
  "activeWorkspaceSlug (validateWorkspaceSlugs ''n1'' [''globex''] example_store) = Some ''globex''"
proof -
  have "list_all workspace_slug [''globex'']" by code_simp
  note eff = validateWorkspaceSlugs_effect [OF example_inv(1) this, of "''n1''"]
  have "kept_active [''globex''] example_store = None" by code_simp
  then show ?thesis unfolding eff by simp
qed

section \<open>Migration\<close>

text \<open>Migrating a first-format payload puts every workspace-scoped tab into the group of its
  workspace, in the old order, drops the others, and gives each group the old active tab if the
  group has it, else its first tab.\<close>

theorem migrate_v1:
  "obj_get (the (p_byWorkspace (migrateV1ToV2 v1))) k =
     (let new = tabs_of_slug k (case v1_tabs v1 of None \<Rightarrow> [] | Some ts \<Rightarrow> ts) in
      if new = [] then None
      else Some \<lparr>p_tabs = new, p_activeTabId = (if list_ex (\<lambda>t. Some (lt_id t) = v1_activeTabId v1) new
        then the (v1_activeTabId v1) else lt_id (hd new))\<rparr>)"
  by (rule migrateV1ToV2_get)

end
