(* ===== verification/Cron_Fields.thy ===== *)
theory Cron_Fields
  imports JS_Prelude
begin

text \<open>
  The field grammar of the autopilot schedule editor
  (\<open>packages/views/autopilots/components/schedule-editor/cron-mapping.ts\<close>): what one cron
  field means, the normalisation of its lexical variants and the rewrites that bring a field
  into the form the structured editor can hold. Numbers of a field are naturals; a digit
  string above the safe-integer range is kept as text, as the code does.
\<close>

section \<open>Bounds and names\<close>

record field_bounds =
  fb_min :: nat
  fb_max :: nat
  fb_names :: "(jstr \<times> nat) list"

definition DOW_NAMES :: "(jstr \<times> nat) list" where
  "DOW_NAMES = [(''SUN'', 0), (''MON'', 1), (''TUE'', 2), (''WED'', 3), (''THU'', 4), (''FRI'', 5), (''SAT'', 6)]"

definition MONTH_NAMES :: "(jstr \<times> nat) list" where
  "MONTH_NAMES = [(''JAN'', 1), (''FEB'', 2), (''MAR'', 3), (''APR'', 4), (''MAY'', 5), (''JUN'', 6),
     (''JUL'', 7), (''AUG'', 8), (''SEP'', 9), (''OCT'', 10), (''NOV'', 11), (''DEC'', 12)]"

definition MINUTE :: field_bounds where "MINUTE = \<lparr>fb_min = 0, fb_max = 59, fb_names = []\<rparr>"
definition HOUR :: field_bounds where "HOUR = \<lparr>fb_min = 0, fb_max = 23, fb_names = []\<rparr>"
definition DOM :: field_bounds where "DOM = \<lparr>fb_min = 1, fb_max = 31, fb_names = []\<rparr>"
definition MONTH :: field_bounds where "MONTH = \<lparr>fb_min = 1, fb_max = 12, fb_names = MONTH_NAMES\<rparr>"
definition DOW :: field_bounds where "DOW = \<lparr>fb_min = 0, fb_max = 6, fb_names = DOW_NAMES\<rparr>"

section \<open>One part of a field\<close>

record range_part =
  rp_lo :: nat
  rp_hi :: nat
  rp_step :: nat
  wildcard :: bool
  stepped :: bool
  explicitRange :: bool

definition max_safe_integer :: nat where
  "max_safe_integer = 9007199254740991"

definition char_upper :: "char \<Rightarrow> char" where
  "char_upper c = (let n = (of_char c :: nat) in if 97 \<le> n \<and> n \<le> 122 then char_of (n - 32) else c)"

definition fieldValue :: "jstr \<Rightarrow> field_bounds \<Rightarrow> nat option" where
  "fieldValue s bounds =
     (case map_of (fb_names bounds) (map char_upper s) of
        Some named \<Rightarrow> Some named
      | None \<Rightarrow>
          if \<not> all_digits s then None
          else
            let n = nat_of_digits s in
            if n > max_safe_integer \<or> n < fb_min bounds \<or> n > fb_max bounds then None else Some n)"

text \<open>The step of a part: \<open>None\<close> if it is malformed, 1 if there is none.\<close>

definition parse_step :: "jstr option \<Rightarrow> nat option" where
  "parse_step stepStr =
     (case stepStr of
        None \<Rightarrow> Some 1
      | Some s \<Rightarrow>
          if \<not> all_digits s then None
          else
            let n = nat_of_digits s in if n > max_safe_integer \<or> n < 1 then None else Some n)"

definition parse_bounds_of :: "jstr \<Rightarrow> bool \<Rightarrow> nat \<Rightarrow> field_bounds \<Rightarrow> range_part option" where
  "parse_bounds_of rangeStr is_stepped step bounds =
     (case str_split CHR ''-'' rangeStr of
        [] \<Rightarrow> None
      | loStr # his \<Rightarrow>
          if length his > 1 \<or> loStr = [] then None
          else
            (case fieldValue loStr bounds of
               None \<Rightarrow> None
             | Some lo \<Rightarrow>
                 (case (case his of [] \<Rightarrow> Some (if is_stepped then fb_max bounds else lo)
                        | hiStr # _ \<Rightarrow> fieldValue hiStr bounds) of
                    None \<Rightarrow> None
                  | Some hi \<Rightarrow>
                      if hi < lo then None
                      else Some \<lparr>rp_lo = lo, rp_hi = hi, rp_step = step, wildcard = False,
                                 stepped = is_stepped, explicitRange = (his \<noteq> [])\<rparr>)))"

definition parseRangePart :: "jstr \<Rightarrow> field_bounds \<Rightarrow> range_part option" where
  "parseRangePart part bounds =
     (case str_split CHR ''/'' part of
        [] \<Rightarrow> None
      | rangeStr # steps \<Rightarrow>
          if length steps > 1 \<or> rangeStr = [] then None
          else
            let stepStr = (case steps of [] \<Rightarrow> None | s # _ \<Rightarrow> Some s) in
            (case parse_step stepStr of
               None \<Rightarrow> None
             | Some step \<Rightarrow>
                 if rangeStr = ''*''
                 then Some \<lparr>rp_lo = fb_min bounds, rp_hi = fb_max bounds, rp_step = step, wildcard = True,
                            stepped = (stepStr \<noteq> None), explicitRange = False\<rparr>
                 else parse_bounds_of rangeStr (stepStr \<noteq> None) step bounds))"

definition plainValue :: "jstr \<Rightarrow> field_bounds \<Rightarrow> nat option" where
  "plainValue field bounds =
     (case parseRangePart field bounds of
        None \<Rightarrow> None
      | Some r \<Rightarrow> if wildcard r \<or> stepped r \<or> explicitRange r then None else Some (rp_lo r))"

section \<open>Day-of-week lists\<close>

text \<open>The values \<open>for (d = lo; d <= hi; d += step)\<close> visits; the parser only yields steps of at
  least 1.\<close>

function step_values :: "nat \<Rightarrow> nat \<Rightarrow> nat \<Rightarrow> nat list" where
  "step_values lo hi step = (if hi < lo \<or> step = 0 then [] else lo # step_values (lo + step) hi step)"
  by auto
termination by (relation "measure (\<lambda>(lo, hi, step). Suc hi - lo)") auto

declare step_values.simps [simp del]

text \<open>The values the parts of a field select, in the order they are written.\<close>

fun part_values :: "field_bounds \<Rightarrow> jstr list \<Rightarrow> nat list option" where
  "part_values bounds [] = Some []"
| "part_values bounds (part # parts) =
     (case parseRangePart part bounds of
        None \<Rightarrow> None
      | Some r \<Rightarrow> map_option ((@) (step_values (rp_lo r) (rp_hi r) (rp_step r))) (part_values bounds parts))"

definition expandDow :: "jstr \<Rightarrow> nat list option" where
  "expandDow field =
     (case part_values DOW (str_split CHR '','' field) of
        None \<Rightarrow> None
      | Some days \<Rightarrow> if days = [] then None else Some (sort (remdups days)))"

text \<open>The end of the run of consecutive values a list starts with, and what follows it.\<close>

fun run_end :: "nat \<Rightarrow> nat list \<Rightarrow> nat \<times> nat list" where
  "run_end e [] = (e, [])"
| "run_end e (x # xs) = (if x = e + 1 then run_end x xs else (e, x # xs))"

lemma run_end_length: "length (snd (run_end e xs)) \<le> length xs"
  by (induction e xs rule: run_end.induct) auto

function runs_of :: "nat list \<Rightarrow> (nat \<times> nat) list" where
  "runs_of [] = []"
| "runs_of (x # xs) = (x, fst (run_end x xs)) # runs_of (snd (run_end x xs))"
  by pat_completeness auto
termination by (relation "measure length") (auto simp: less_Suc_eq_le run_end_length)

definition consecutiveRuns :: "nat list \<Rightarrow> (nat \<times> nat) list" where
  "consecutiveRuns days = runs_of (sort (remdups days))"

definition run_text :: "nat \<times> nat \<Rightarrow> jstr" where
  "run_text r = (if snd r > fst r then string_of_nat (fst r) @ ''-'' @ string_of_nat (snd r)
                 else string_of_nat (fst r))"

definition dowFieldFromDays :: "nat list \<Rightarrow> jstr" where
  "dowFieldFromDays days = str_join CHR '','' (map run_text (consecutiveRuns days))"

section \<open>Lexical normalisation\<close>

definition normalizeRange :: "jstr \<Rightarrow> jstr" where
  "normalizeRange part =
     (let slash = str_index_of part CHR ''/'';
          range = (case slash of None \<Rightarrow> part | Some i \<Rightarrow> take i part);
          step = (case slash of None \<Rightarrow> [] | Some i \<Rightarrow> drop i part);
          low = hd (str_split CHR ''-'' range)
      in if low = ''*'' \<or> low = ''?'' then CHR ''*'' # step else part)"

text \<open>The replacement of every match of \<open>\+?\d+\<close> by its canonical numeral.\<close>

definition canonical_number :: "jstr \<Rightarrow> jstr \<Rightarrow> jstr" where
  "canonical_number sign digits =
     (if nat_of_digits digits \<le> max_safe_integer then string_of_nat (nat_of_digits digits) else sign @ digits)"

function normalize_numbers :: "jstr \<Rightarrow> jstr" where
  "normalize_numbers [] = []"
| "normalize_numbers (c # cs) =
     (if is_digit c then canonical_number [] (c # takeWhile is_digit cs) @ normalize_numbers (dropWhile is_digit cs)
      else if c = CHR ''+'' \<and> cs \<noteq> [] \<and> is_digit (hd cs)
      then canonical_number [c] (takeWhile is_digit cs) @ normalize_numbers (dropWhile is_digit cs)
      else c # normalize_numbers cs)"
  by pat_completeness auto
termination
  by (relation "measure length") (auto simp: less_Suc_eq_le length_dropWhile_le)

definition normalizeField :: "jstr \<Rightarrow> jstr" where
  "normalizeField field =
     str_join CHR '','' (map normalize_numbers (map normalizeRange
       (filter (\<lambda>part. part \<noteq> []) (str_split CHR '','' field))))"

section \<open>Rewrites\<close>

definition collapse_part :: "field_bounds \<Rightarrow> bool \<Rightarrow> jstr \<Rightarrow> jstr" where
  "collapse_part bounds rangeSlot part =
     (case parseRangePart part bounds of
        None \<Rightarrow> part
      | Some r \<Rightarrow>
          if rangeSlot \<and> \<not> stepped r then part
          else if rangeSlot \<and> explicitRange r \<and> rp_step r \<le> fb_max bounds then part
          else if rp_step r > rp_hi r - rp_lo r then string_of_nat (rp_lo r) else part)"

definition collapseDegenerateRange :: "jstr \<Rightarrow> field_bounds \<Rightarrow> bool \<Rightarrow> jstr" where
  "collapseDegenerateRange field bounds rangeSlot =
     str_join CHR '','' (map (collapse_part bounds rangeSlot) (str_split CHR '','' field))"

definition collapseWildcardList :: "jstr \<Rightarrow> field_bounds \<Rightarrow> jstr" where
  "collapseWildcardList field bounds =
     (let parts = str_split CHR '','' field;
          ranges = map (\<lambda>part. parseRangePart part bounds) parts
      in if length parts < 2 then field
         else if list_ex (\<lambda>r. r = None) ranges then field
         else if list_ex (\<lambda>r. wildcard (the r) \<and> rp_step (the r) = 1) ranges then ''*'' else field)"

section \<open>Step values\<close>

lemma set_step_values:
  "0 < step \<Longrightarrow> x \<in> set (step_values lo hi step) \<longleftrightarrow> lo \<le> x \<and> x \<le> hi \<and> (x - lo) mod step = 0"
proof (induction lo hi step rule: step_values.induct)
  case (1 lo hi step)
  show ?case
  proof (cases "hi < lo")
    case True
    then show ?thesis by (subst step_values.simps) auto
  next
    case False
    have rec: "x \<in> set (step_values lo hi step) \<longleftrightarrow> x = lo \<or> x \<in> set (step_values (lo + step) hi step)"
      using False "1.prems" by (subst step_values.simps) auto
    have "x \<in> set (step_values (lo + step) hi step) \<longleftrightarrow> lo + step \<le> x \<and> x \<le> hi \<and> (x - (lo + step)) mod step = 0"
      using "1.IH" "1.prems" False by simp
    moreover have "(x - (lo + step)) mod step = (x - lo) mod step" if "lo + step \<le> x"
      using that by (metis Nat.diff_diff_right diff_diff_left le_add_diff_inverse2 le_diff_conv2 add_leD1 mod_add_self2 add.commute add_le_imp_le_diff)
    moreover have "x < lo + step \<Longrightarrow> lo \<le> x \<Longrightarrow> (x - lo) mod step = x - lo" by simp
    ultimately show ?thesis using rec False "1.prems"
      by (cases "lo + step \<le> x") auto
  qed
qed

lemma step_values_one: "step_values lo hi 1 = [lo..<Suc hi]"
proof (induction "Suc hi - lo" arbitrary: lo)
  case 0
  then show ?case by (subst step_values.simps) simp
next
  case (Suc n)
  then have "step_values (Suc lo) hi 1 = [Suc lo..<Suc hi]" by simp
  with Suc(2) show ?case by (subst step_values.simps) (simp add: upt_conv_Cons)
qed

lemma step_values_single: "step > hi - lo \<Longrightarrow> lo \<le> hi \<Longrightarrow> step_values lo hi step = [lo]"
  by (simp add: step_values.simps [of lo] step_values.simps [of "lo + step"])

lemma step_values_hi: "lo \<le> hi \<Longrightarrow> 0 < step \<Longrightarrow> step_values lo hi step \<noteq> []"
  by (subst step_values.simps) simp

end
