(* ===== verification/Cron_Config.thy ===== *)
theory Cron_Config
  imports Cron_Fields
begin

text \<open>
  The structured schedule of the autopilot editor (\<open>schedule-editor/model.ts\<close>) and its
  translation from and to cron expressions (\<open>schedule-editor/cron-mapping.ts\<close>). The platform's
  time-zone lookup (\<open>Intl.DateTimeFormat\<close>) is the parameter \<open>canonicalPickerZone\<close> of the
  definitions that use it. A number that \<open>parseInt\<close> cannot read is \<open>NaN\<close>, here \<open>None\<close>.
\<close>

section \<open>The model\<close>

record time_window =
  win_from :: jstr
  win_to :: jstr

datatype every_unit = Minutes | Hours

datatype TimePattern =
    At jstr
  | Every (interval: nat) (unit_of: every_unit) (window_of: "time_window option") (minute_of: nat)

datatype DayPattern =
    EveryDay
  | Weekly "nat list"
  | Monthly nat

record ScheduleConfig =
  cfg_time :: TimePattern
  cfg_days :: DayPattern
  cfg_timezone :: jstr
  cfg_raw :: "jstr option"

definition getDefaultScheduleConfig :: "jstr \<Rightarrow> ScheduleConfig" where
  "getDefaultScheduleConfig tz =
     \<lparr>cfg_time = At ''09:00'', cfg_days = EveryDay, cfg_timezone = tz, cfg_raw = None\<rparr>"

definition pad2 :: "nat \<Rightarrow> jstr" where
  "pad2 n = replicate (2 - length (string_of_nat n)) CHR ''0'' @ string_of_nat n"

text \<open>\<open>parseInt(s, 10)\<close>: leading white space, a sign, then the longest run of digits.\<close>

definition parse_int :: "jstr \<Rightarrow> int option" where
  "parse_int s =
     (let t = dropWhile is_space s;
          (neg, ds) = (case t of c # cs \<Rightarrow> if c = CHR ''-'' then (True, cs)
                                           else if c = CHR ''+'' then (False, cs) else (False, t)
                       | [] \<Rightarrow> (False, []));
          digits = takeWhile is_digit ds
      in if digits = [] then None
         else Some (if neg then - int (nat_of_digits digits) else int (nat_of_digits digits)))"

definition string_of_num :: "int option \<Rightarrow> jstr" where
  "string_of_num n =
     (case n of None \<Rightarrow> ''NaN''
      | Some i \<Rightarrow> if i < 0 then CHR ''-'' # string_of_nat (nat (- i)) else string_of_nat (nat i))"

definition timeParts :: "jstr \<Rightarrow> int option \<times> int option" where
  "timeParts time =
     (case str_split CHR '':'' time of
        h # m # _ \<Rightarrow> (parse_int h, parse_int m)
      | [h] \<Rightarrow> (parse_int h, parse_int ''0'')
      | [] \<Rightarrow> (parse_int ''0'', parse_int ''0''))"

section \<open>Reading the time fields\<close>

text \<open>The interval, and the window unless it spans the day.\<close>

definition parseHourPattern :: "jstr \<Rightarrow> (nat \<times> (nat \<times> nat) option) option" where
  "parseHourPattern field =
     (case parseRangePart field HOUR of
        None \<Rightarrow> None
      | Some r \<Rightarrow>
          if rp_step r > fb_max HOUR then None
          else
            let spansDay = (wildcard r \<or> (rp_lo r = fb_min HOUR \<and> rp_hi r = fb_max HOUR))
            in Some (rp_step r, if spansDay then None else Some (rp_lo r, rp_hi r)))"

definition parseMinuteInterval :: "jstr \<Rightarrow> nat option" where
  "parseMinuteInterval field =
     (case parseRangePart field MINUTE of
        None \<Rightarrow> None
      | Some r \<Rightarrow>
          if explicitRange r \<or> rp_step r > fb_max MINUTE then None
          else if rp_lo r \<noteq> fb_min MINUTE then None
          else if \<not> stepped r \<and> \<not> wildcard r then None
          else Some (rp_step r))"

definition parseTimeFields :: "jstr \<Rightarrow> jstr \<Rightarrow> TimePattern option" where
  "parseTimeFields minuteField hourField =
     (case plainValue minuteField MINUTE of
        Some plainMinute \<Rightarrow>
          (case plainValue hourField HOUR of
             Some plainHour \<Rightarrow> Some (At (pad2 plainHour @ '':'' @ pad2 plainMinute))
           | None \<Rightarrow>
               (case parseHourPattern hourField of
                  None \<Rightarrow> None
                | Some (hours, span) \<Rightarrow>
                    Some (Every hours Hours
                      (case span of
                         None \<Rightarrow> None
                       | Some (lo, hi) \<Rightarrow> Some \<lparr>win_from = pad2 lo @ '':'' @ pad2 plainMinute,
                                               win_to = pad2 hi @ '':'' @ pad2 plainMinute\<rparr>)
                      plainMinute)))
      | None \<Rightarrow>
          (case parseMinuteInterval minuteField of
             None \<Rightarrow> None
           | Some mins \<Rightarrow>
               (case parseHourPattern hourField of
                  None \<Rightarrow> None
                | Some (hours, None) \<Rightarrow>
                    if hours \<noteq> 1 then None else Some (Every mins Minutes None 0)
                | Some (hours, Some (lo, hi)) \<Rightarrow>
                    let selectsOneHour = (hours > hi - lo) in
                    if \<not> selectsOneHour \<and> hours \<noteq> 1 then None
                    else Some (Every mins Minutes
                      (Some \<lparr>win_from = pad2 lo @ '':00'',
                             win_to = pad2 (if selectsOneHour then lo else hi) @ '':59''\<rparr>) 0))))"

section \<open>Time zones\<close>

definition hasTimezonePrefix :: "jstr \<Rightarrow> bool" where
  "hasTimezonePrefix s = (str_starts s ''TZ='' \<or> str_starts s ''CRON_TZ='')"

definition extractTimezonePrefix :: "(jstr \<Rightarrow> jstr option) \<Rightarrow> jstr \<Rightarrow> (jstr \<times> jstr) option" where
  "extractTimezonePrefix canonicalPickerZone expr =
     (if \<not> hasTimezonePrefix expr then None
      else
        case str_index_of expr CHR '' '' of
          None \<Rightarrow> None
        | Some space \<Rightarrow>
            let start = (case str_index_of expr CHR ''='' of None \<Rightarrow> 0 | Some e \<Rightarrow> Suc e);
                name = drop start (take space expr);
                rest = str_trim (drop space expr)
            in if rest = [] then None
               else if hasTimezonePrefix rest then None
               else (case canonicalPickerZone (if name = [] then ''UTC'' else name) of
                       None \<Rightarrow> None
                     | Some tz \<Rightarrow> Some (tz, rest)))"

section \<open>From cron to the model\<close>

text \<open>\<open>s.split(/\s+/)\<close>.\<close>

function split_spaces :: "jstr \<Rightarrow> jstr list" where
  "split_spaces s =
     (let w = takeWhile (\<lambda>c. \<not> is_space c) s; rest = dropWhile (\<lambda>c. \<not> is_space c) s in
      if rest = [] then [w] else w # split_spaces (dropWhile is_space rest))"
  by pat_completeness auto
termination
proof (relation "measure length")
  fix s w rest
  assume rest: "rest = dropWhile (\<lambda>c. \<not> is_space c) s" "rest \<noteq> []"
  then have "is_space (hd rest)" by (metis hd_dropWhile)
  then have "length (dropWhile is_space rest) < length rest"
    using rest(2) by (cases rest) (auto simp: less_Suc_eq_le length_dropWhile_le)
  also have "length rest \<le> length s" using rest(1) by (simp add: length_dropWhile_le)
  finally show "(dropWhile is_space rest, s) \<in> measure length" by simp
qed simp

declare split_spaces.simps [simp del]

definition parseDays :: "jstr \<Rightarrow> jstr \<Rightarrow> DayPattern option" where
  "parseDays domField dowField =
     (if domField = ''*''
      then if dowField = ''*'' then Some EveryDay else map_option Weekly (expandDow dowField)
      else if dowField \<noteq> ''*'' then None
      else map_option Monthly (plainValue domField DOM))"

definition parseFields :: "jstr list \<Rightarrow> (TimePattern \<times> DayPattern) option" where
  "parseFields parts =
     (case map normalizeField parts of
        [rawMinute, rawHour, rawDom, rawMonth, rawDow] \<Rightarrow>
          let minuteField = collapseDegenerateRange (collapseWildcardList rawMinute MINUTE) MINUTE False;
              hourField = collapseDegenerateRange (collapseWildcardList rawHour HOUR) HOUR True;
              domField = collapseDegenerateRange (collapseWildcardList rawDom DOM) DOM False;
              monthField = collapseWildcardList rawMonth MONTH;
              dowField = collapseWildcardList rawDow DOW
          in if monthField \<noteq> ''*'' then None
             else (case parseDays domField dowField of
                     None \<Rightarrow> None
                   | Some days \<Rightarrow> map_option (\<lambda>time. (time, days)) (parseTimeFields minuteField hourField))
      | _ \<Rightarrow> None)"

definition parseCron :: "(jstr \<Rightarrow> jstr option) \<Rightarrow> jstr \<Rightarrow> jstr \<Rightarrow> ScheduleConfig" where
  "parseCron canonicalPickerZone expr timezone =
     (let (tz, body) = (case extractTimezonePrefix canonicalPickerZone expr of
                          None \<Rightarrow> (timezone, expr) | Some (tz, rest) \<Rightarrow> (tz, rest));
          advanced = (getDefaultScheduleConfig tz)\<lparr>cfg_raw := Some body\<rparr>
      in case parseFields (split_spaces (str_trim body)) of
           None \<Rightarrow> advanced
         | Some (time, days) \<Rightarrow> \<lparr>cfg_time = time, cfg_days = days, cfg_timezone = tz, cfg_raw = None\<rparr>)"

section \<open>From the model to cron\<close>

definition step_text :: "nat \<Rightarrow> jstr" where
  "step_text n = (if n = 1 then ''*'' else ''*/'' @ string_of_nat n)"

definition same_number :: "int option \<Rightarrow> int option \<Rightarrow> bool" where
  "same_number a b = (a \<noteq> None \<and> a = b)"

text \<open>The minute and the hour field.\<close>

fun timeFields :: "TimePattern \<Rightarrow> jstr \<times> jstr" where
  "timeFields (At time) =
     (let (h, m) = timeParts time in (string_of_num m, string_of_num h))"
| "timeFields (Every n Hours None minute) = (string_of_nat minute, step_text n)"
| "timeFields (Every n Hours (Some w) minute) =
     (let (fh, fm) = timeParts (win_from w); (th, tm) = timeParts (win_to w) in
      (string_of_num fm,
       string_of_num fh @ ''-'' @ string_of_num th @ (if n = 1 then [] else ''/'' @ string_of_nat n)))"
| "timeFields (Every n Minutes None minute) = (step_text n, ''*'')"
| "timeFields (Every n Minutes (Some w) minute) =
     (let (fh, fm) = timeParts (win_from w); (th, tm) = timeParts (win_to w) in
      (step_text n,
       if same_number fh th then string_of_num fh
       else string_of_num fh @ ''-'' @ string_of_num th))"

text \<open>The day-of-month and the day-of-week field.\<close>

fun dayFields :: "DayPattern \<Rightarrow> jstr \<times> jstr" where
  "dayFields EveryDay = (''*'', ''*'')"
| "dayFields (Weekly days) = (''*'', if length days > 0 then dowFieldFromDays days else ''1'')"
| "dayFields (Monthly day) = (string_of_nat day, ''*'')"

definition cronFields :: "ScheduleConfig \<Rightarrow> jstr" where
  "cronFields config =
     (case cfg_raw config of
        Some raw \<Rightarrow> raw
      | None \<Rightarrow>
          let (minuteField, hourField) = timeFields (cfg_time config);
              (domText, dowText) = dayFields (cfg_days config)
          in minuteField @ '' '' @ hourField @ '' '' @ domText @ '' * '' @ dowText)"

definition toCron :: "ScheduleConfig \<Rightarrow> jstr" where
  "toCron config =
     (let fields = cronFields config in
      if hasTimezonePrefix fields then fields
      else if fields = [] \<or> fields \<noteq> str_trim fields then fields
      else if cfg_timezone config = [] \<or> CHR '' '' \<in> set (cfg_timezone config) then fields
      else ''TZ='' @ cfg_timezone config @ '' '' @ fields)"

end
