(* ===== verification/Cron_Text.thy ===== *)
theory Cron_Text
  imports Cron_Config
begin

text \<open>
  How the reader of the cron mapping acts on the text its writer produces: numerals survive
  every pass, the four shapes of a field part are read back as they were written, and the five
  fields and the time-zone prefix are split where they were joined.
\<close>

section \<open>Numerals\<close>

lemma digit_plain: "is_digit c \<Longrightarrow> \<not> is_space c \<and> c \<noteq> CHR ''-'' \<and> c \<noteq> CHR ''/'' \<and> c \<noteq> CHR '','' \<and>
  c \<noteq> CHR ''*'' \<and> c \<noteq> CHR ''?'' \<and> c \<noteq> CHR ''+'' \<and> c \<noteq> CHR '':'' \<and> c \<noteq> CHR '' '' \<and> char_upper c = c \<and> c \<noteq> CHR ''T'' \<and> c \<noteq> CHR ''C''"
  by (auto simp: is_digit_def is_space_def char_upper_def Let_def)

lemma numeral_plain:
  "c \<in> set (string_of_nat n) \<Longrightarrow> \<not> is_space c"
  "CHR ''-'' \<notin> set (string_of_nat n)" "CHR ''/'' \<notin> set (string_of_nat n)"
  "CHR '','' \<notin> set (string_of_nat n)" "CHR ''*'' \<notin> set (string_of_nat n)"
  "CHR '':'' \<notin> set (string_of_nat n)" "CHR '' '' \<notin> set (string_of_nat n)"
  "map char_upper (string_of_nat n) = string_of_nat n"
  using digit_plain string_of_nat_digit by (blast, blast, blast, blast, blast, blast, blast) (auto intro!: map_idI dest: string_of_nat_digit digit_plain)

lemma numeral_neq: "string_of_nat n \<noteq> ''*''" "string_of_nat n \<noteq> ''?''" "string_of_nat n @ r \<noteq> ''*''" "string_of_nat n @ r \<noteq> ''?''"
proof -
  obtain c cs where s: "string_of_nat n = c # cs" by (cases "string_of_nat n") auto
  then have "is_digit c" using string_of_nat_digit [of c n] by simp
  then have "c \<noteq> CHR ''*''" "c \<noteq> CHR ''?''" using digit_plain by blast+
  then show "string_of_nat n \<noteq> ''*''" "string_of_nat n \<noteq> ''?''" "string_of_nat n @ r \<noteq> ''*''" "string_of_nat n @ r \<noteq> ''?''"
    by (auto simp: s)
qed

lemma takeWhile_digits:
  "r = [] \<or> \<not> is_digit (hd r) \<Longrightarrow> takeWhile is_digit (string_of_nat n @ r) = string_of_nat n"
  "r = [] \<or> \<not> is_digit (hd r) \<Longrightarrow> dropWhile is_digit (string_of_nat n @ r) = r"
proof -
  assume r: "r = [] \<or> \<not> is_digit (hd r)"
  have all: "\<forall>c \<in> set (string_of_nat n). is_digit c" using string_of_nat_digit by blast
  have "takeWhile is_digit r = []" "dropWhile is_digit r = r" using r by (cases r; simp)+
  with all show "takeWhile is_digit (string_of_nat n @ r) = string_of_nat n"
    "dropWhile is_digit (string_of_nat n @ r) = r"
    by (simp_all add: takeWhile_append dropWhile_append)
qed

lemma normalize_number:
  assumes "n \<le> max_safe_integer" "r = [] \<or> \<not> is_digit (hd r)"
  shows "normalize_numbers (string_of_nat n @ r) = string_of_nat n @ normalize_numbers r"
proof -
  obtain c cs where s: "string_of_nat n = c # cs" by (cases "string_of_nat n") auto
  then have c: "is_digit c" using string_of_nat_digit [of c n] by simp
  have "takeWhile is_digit (c # cs @ r) = c # cs" "dropWhile is_digit (c # cs @ r) = r"
    using takeWhile_digits [OF assms(2), of n] by (simp_all add: s)
  then have "c # takeWhile is_digit (cs @ r) = string_of_nat n" "dropWhile is_digit (cs @ r) = r"
    using c by (simp_all add: s)
  with c show ?thesis
    using assms(1) by (simp add: s) (simp add: canonical_number_def flip: s)
qed

lemma normalize_other: "\<not> is_digit c \<Longrightarrow> c \<noteq> CHR ''+'' \<Longrightarrow> normalize_numbers (c # r) = c # normalize_numbers r"
  by simp

lemma sep_not_digit: "\<not> is_digit CHR ''-''" "\<not> is_digit CHR ''/''" "\<not> is_digit CHR ''*''" "\<not> is_digit CHR '',''"
  by (simp_all add: is_digit_def)

section \<open>Numbers in clock times\<close>

lemma nat_of_digits_zeros: "nat_of_digits (replicate k CHR ''0'' @ s) = nat_of_digits s"
  by (induction k) (simp_all add: nat_of_digits_def digit_val_def)

lemma pad2_digits: "c \<in> set (pad2 n) \<Longrightarrow> is_digit c"
  using string_of_nat_digit by (auto simp: pad2_def) (simp add: is_digit_def)

lemma pad2_ne: "pad2 n \<noteq> []"
  by (simp add: pad2_def)

lemma parse_int_pad2: "parse_int (pad2 n) = Some (int n)"
proof -
  obtain c cs where s: "pad2 n = c # cs" using pad2_ne by (cases "pad2 n") auto
  have all: "\<forall>c \<in> set (c # cs). is_digit c" using pad2_digits s by metis
  then have c: "\<not> is_space c" "c \<noteq> CHR ''-''" "c \<noteq> CHR ''+''" using digit_plain by auto
  have tw: "takeWhile is_digit (c # cs) = c # cs" using all by (intro takeWhile_eq_all_conv [THEN iffD2])
  have "nat_of_digits (pad2 n) = n" by (simp add: pad2_def nat_of_digits_zeros)
  with c show ?thesis by (simp add: parse_int_def s Let_def tw del: takeWhile.simps)
qed

definition clock :: "nat \<Rightarrow> nat \<Rightarrow> jstr" where
  "clock h m = pad2 h @ '':'' @ pad2 m"

lemma timeParts_clock: "timeParts (clock h m) = (Some (int h), Some (int m))"
proof -
  have "CHR '':'' \<notin> set (pad2 n)" for n using pad2_digits digit_plain by blast
  then have "str_split CHR '':'' (clock h m) = [pad2 h, pad2 m]"
    by (simp add: clock_def str_split_append str_split_no_sep)
  then show ?thesis by (simp add: timeParts_def parse_int_pad2)
qed

lemma string_of_num_nat [simp]: "string_of_num (Some (int n)) = string_of_nat n"
  by (simp add: string_of_num_def)

section \<open>The shapes of a field part\<close>

text \<open>A number is never a name.\<close>

definition alpha_names :: "field_bounds \<Rightarrow> bool" where
  "alpha_names b = (list_all (\<lambda>(k, _). \<not> list_all is_digit k) (fb_names b) \<and> fb_max b \<le> max_safe_integer)"

lemma alpha_fields: "alpha_names MINUTE" "alpha_names HOUR" "alpha_names DOM" "alpha_names MONTH" "alpha_names DOW"
  by (simp_all add: alpha_names_def MINUTE_def HOUR_def DOM_def MONTH_def DOW_def DOW_NAMES_def MONTH_NAMES_def
      max_safe_integer_def is_digit_def)

lemma fieldValue_numeral:
  assumes "alpha_names b" "fb_min b \<le> n" "n \<le> fb_max b"
  shows "fieldValue (string_of_nat n) b = Some n"
proof -
  have "map_of (fb_names b) (string_of_nat n) = None"
    using assms(1) list_all_string_of_nat [of n]
    by (auto simp: alpha_names_def list_all_iff map_of_eq_None_iff)
  moreover have "n \<le> max_safe_integer" using assms by (simp add: alpha_names_def)
  ultimately show ?thesis using assms by (simp add: fieldValue_def numeral_plain(8) Let_def)
qed

lemma parse_step_numeral: "1 \<le> n \<Longrightarrow> n \<le> max_safe_integer \<Longrightarrow> parse_step (Some (string_of_nat n)) = Some n"
  by (simp add: parse_step_def Let_def)

text \<open>What each shape is read as: a value, \<open>*\<close>, \<open>*/s\<close>, \<open>a-b\<close> and \<open>a-b/s\<close>.\<close>

lemma parse_value:
  assumes "alpha_names b" "fb_min b \<le> n" "n \<le> fb_max b"
  shows "parseRangePart (string_of_nat n) b =
    Some \<lparr>rp_lo = n, rp_hi = n, rp_step = 1, wildcard = False, stepped = False, explicitRange = False\<rparr>"
  using assms
  by (simp add: parseRangePart_def str_split_no_sep numeral_plain numeral_neq parse_step_def
      parse_bounds_of_def fieldValue_numeral)

lemma parse_star:
  "parseRangePart ''*'' b =
    Some \<lparr>rp_lo = fb_min b, rp_hi = fb_max b, rp_step = 1, wildcard = True, stepped = False, explicitRange = False\<rparr>"
  by (simp add: parseRangePart_def parse_step_def)

lemma parse_star_step:
  assumes "1 \<le> n" "n \<le> max_safe_integer"
  shows "parseRangePart (''*/'' @ string_of_nat n) b =
    Some \<lparr>rp_lo = fb_min b, rp_hi = fb_max b, rp_step = n, wildcard = True, stepped = True, explicitRange = False\<rparr>"
proof -
  have "str_split CHR ''/'' (''*/'' @ string_of_nat n) = [''*'', string_of_nat n]"
    by (simp add: str_split_no_sep numeral_plain)
  then show ?thesis
    using assms unfolding parseRangePart_def by (simp add: parse_step_numeral)
qed

lemma range_text_split:
  "str_split CHR ''-'' (string_of_nat lo @ CHR ''-'' # string_of_nat hi) = [string_of_nat lo, string_of_nat hi]"
  by (simp add: str_split_append str_split_no_sep numeral_plain)

lemma range_text_neq: "string_of_nat lo @ CHR ''-'' # s \<noteq> ''*''"
  using numeral_neq(3) by blast

lemma parse_range:
  assumes "alpha_names b" "fb_min b \<le> lo" "lo \<le> hi" "hi \<le> fb_max b"
  shows "parse_bounds_of (string_of_nat lo @ CHR ''-'' # string_of_nat hi) st n b =
    Some \<lparr>rp_lo = lo, rp_hi = hi, rp_step = n, wildcard = False, stepped = st, explicitRange = True\<rparr>"
  using assms by (simp add: parse_bounds_of_def range_text_split fieldValue_numeral)

lemma parse_span:
  assumes "alpha_names b" "fb_min b \<le> lo" "lo \<le> hi" "hi \<le> fb_max b"
  shows "parseRangePart (string_of_nat lo @ CHR ''-'' # string_of_nat hi) b =
    Some \<lparr>rp_lo = lo, rp_hi = hi, rp_step = 1, wildcard = False, stepped = False, explicitRange = True\<rparr>"
proof -
  have "str_split CHR ''/'' (string_of_nat lo @ CHR ''-'' # string_of_nat hi) = [string_of_nat lo @ CHR ''-'' # string_of_nat hi]"
    by (rule str_split_no_sep) (simp add: numeral_plain)
  with parse_range [OF assms, of False 1] show ?thesis
    unfolding parseRangePart_def by (simp add: parse_step_def range_text_neq)
qed

lemma parse_span_step:
  assumes "alpha_names b" "fb_min b \<le> lo" "lo \<le> hi" "hi \<le> fb_max b" "1 \<le> n" "n \<le> max_safe_integer"
  shows "parseRangePart (string_of_nat lo @ CHR ''-'' # string_of_nat hi @ CHR ''/'' # string_of_nat n) b =
    Some \<lparr>rp_lo = lo, rp_hi = hi, rp_step = n, wildcard = False, stepped = True, explicitRange = True\<rparr>"
proof -
  have "str_split CHR ''/'' ((string_of_nat lo @ CHR ''-'' # string_of_nat hi) @ CHR ''/'' # string_of_nat n)
    = (string_of_nat lo @ CHR ''-'' # string_of_nat hi) # str_split CHR ''/'' (string_of_nat n)"
    by (rule str_split_append) (simp add: numeral_plain)
  then have "str_split CHR ''/'' (string_of_nat lo @ CHR ''-'' # string_of_nat hi @ CHR ''/'' # string_of_nat n)
    = [string_of_nat lo @ CHR ''-'' # string_of_nat hi, string_of_nat n]"
    by (simp add: str_split_no_sep numeral_plain)
  with parse_range [OF assms(1-4), of True n] show ?thesis
    unfolding parseRangePart_def by (simp add: parse_step_numeral [OF assms(5,6)] range_text_neq)
qed

section \<open>Normalisation leaves them as they are\<close>

lemma normalizeRange_low:
  assumes "str_split CHR ''/'' part = r # rs" "hd (str_split CHR ''-'' r) \<noteq> ''*''" "hd (str_split CHR ''-'' r) \<noteq> ''?''"
  shows "normalizeRange part = part"
proof -
  have "hd (str_split CHR ''-'' (take i part)) = hd (str_split CHR ''-'' r)"
    if "str_index_of part CHR ''/'' = Some i" for i
  proof -
    have "part ! i = CHR ''/''" "i < length part" "\<forall>j < i. part ! j \<noteq> CHR ''/''"
      using find_index_Some [of "\<lambda>d. d = CHR ''/''" part i] that by (auto simp: str_index_of_def)
    then have "part = take i part @ CHR ''/'' # drop (Suc i) part" "CHR ''/'' \<notin> set (take i part)"
      by (auto simp: id_take_nth_drop [symmetric] in_set_conv_nth dest!: sym [of "CHR ''/''"])
        (metis id_take_nth_drop)
    then have "str_split CHR ''/'' part = take i part # str_split CHR ''/'' (drop (Suc i) part)"
      by (metis str_split_append)
    with assms(1) show ?thesis by simp
  qed
  moreover have "r = part" if "str_index_of part CHR ''/'' = None"
  proof -
    have "CHR ''/'' \<notin> set part" using that by (auto simp: str_index_of_def find_index_None)
    with assms(1) show ?thesis by (simp add: str_split_no_sep)
  qed
  ultimately show ?thesis
    using assms(2,3) by (cases "str_index_of part CHR ''/''") (auto simp: normalizeRange_def Let_def)
qed

end
