(* ===== verification/Cron_Roundtrip.thy ===== *)
theory Cron_Roundtrip
  imports Cron_Text
begin

text \<open>
  Writing a structured schedule as a cron expression and reading it back: the schedules the
  editor produces are exactly the ones the reader produces, and each is read back unchanged.
\<close>

section \<open>Shapes of a part\<close>

datatype shape = Val nat | Star | StarStep nat | Span nat nat | SpanStep nat nat nat

fun shape_text :: "shape \<Rightarrow> jstr" where
  "shape_text (Val n) = string_of_nat n"
| "shape_text Star = ''*''"
| "shape_text (StarStep n) = ''*/'' @ string_of_nat n"
| "shape_text (Span lo hi) = string_of_nat lo @ CHR ''-'' # string_of_nat hi"
| "shape_text (SpanStep lo hi n) = string_of_nat lo @ CHR ''-'' # string_of_nat hi @ CHR ''/'' # string_of_nat n"

fun shape_part :: "field_bounds \<Rightarrow> shape \<Rightarrow> range_part" where
  "shape_part b (Val n) =
     \<lparr>rp_lo = n, rp_hi = n, rp_step = 1, wildcard = False, stepped = False, explicitRange = False\<rparr>"
| "shape_part b Star =
     \<lparr>rp_lo = fb_min b, rp_hi = fb_max b, rp_step = 1, wildcard = True, stepped = False, explicitRange = False\<rparr>"
| "shape_part b (StarStep n) =
     \<lparr>rp_lo = fb_min b, rp_hi = fb_max b, rp_step = n, wildcard = True, stepped = True, explicitRange = False\<rparr>"
| "shape_part b (Span lo hi) =
     \<lparr>rp_lo = lo, rp_hi = hi, rp_step = 1, wildcard = False, stepped = False, explicitRange = True\<rparr>"
| "shape_part b (SpanStep lo hi n) =
     \<lparr>rp_lo = lo, rp_hi = hi, rp_step = n, wildcard = False, stepped = True, explicitRange = True\<rparr>"

fun shape_ok :: "field_bounds \<Rightarrow> shape \<Rightarrow> bool" where
  "shape_ok b (Val n) = (fb_min b \<le> n \<and> n \<le> fb_max b)"
| "shape_ok b Star = True"
| "shape_ok b (StarStep n) = (1 \<le> n \<and> n \<le> max_safe_integer)"
| "shape_ok b (Span lo hi) = (fb_min b \<le> lo \<and> lo \<le> hi \<and> hi \<le> fb_max b)"
| "shape_ok b (SpanStep lo hi n) = (fb_min b \<le> lo \<and> lo \<le> hi \<and> hi \<le> fb_max b \<and> 1 \<le> n \<and> n \<le> max_safe_integer)"

lemma parse_shape:
  "alpha_names b \<Longrightarrow> shape_ok b sh \<Longrightarrow> parseRangePart (shape_text sh) b = Some (shape_part b sh)"
  by (cases sh) (simp_all add: parse_value parse_star parse_star_step parse_span parse_span_step
      del: append_Cons append_Nil)

lemma shape_chars:
  "CHR '','' \<notin> set (shape_text sh)" "c \<in> set (shape_text sh) \<Longrightarrow> \<not> is_space c" "shape_text sh \<noteq> []"
  by (cases sh; auto simp: numeral_plain is_space_def dest: numeral_plain(1))+

lemma normalizeRange_shape: "normalizeRange (shape_text sh) = shape_text sh"
proof -
  have span: "hd (str_split CHR ''-'' (string_of_nat lo @ CHR ''-'' # s)) = string_of_nat lo" for lo s
    by (simp add: str_split_append numeral_plain)
  have star: "normalizeRange (CHR ''*'' # CHR ''/'' # s) = CHR ''*'' # CHR ''/'' # s" for s
    by (simp add: normalizeRange_def str_index_of_def Let_def)
  show ?thesis
  proof (cases sh)
    case (Val n)
    have "str_split CHR ''/'' (string_of_nat n) = [string_of_nat n]"
      by (simp add: str_split_no_sep numeral_plain)
    then show ?thesis
      unfolding Val shape_text.simps
      by (rule normalizeRange_low) (simp_all add: str_split_no_sep numeral_plain numeral_neq)
  next
    case (Span lo hi)
    have "str_split CHR ''/'' (shape_text sh) = [shape_text sh]"
      unfolding Span by (rule str_split_no_sep) (simp add: numeral_plain)
    then show ?thesis
      by (rule normalizeRange_low) (simp_all add: Span span numeral_neq)
  next
    case (SpanStep lo hi n)
    have "str_split CHR ''/'' ((string_of_nat lo @ CHR ''-'' # string_of_nat hi) @ CHR ''/'' # string_of_nat n)
      = (string_of_nat lo @ CHR ''-'' # string_of_nat hi) # str_split CHR ''/'' (string_of_nat n)"
      by (rule str_split_append) (simp add: numeral_plain)
    then have "str_split CHR ''/'' (shape_text sh) = (string_of_nat lo @ CHR ''-'' # string_of_nat hi)
        # str_split CHR ''/'' (string_of_nat n)"
      by (simp add: SpanStep)
    then show ?thesis by (rule normalizeRange_low) (simp_all add: span numeral_neq)
  next
    case Star
    then show ?thesis by (simp add: normalizeRange_def str_index_of_def)
  next
    case (StarStep n)
    then show ?thesis by (simp add: star)
  qed
qed

lemma normalize_numeral: "n \<le> max_safe_integer \<Longrightarrow> normalize_numbers (string_of_nat n) = string_of_nat n"
  using normalize_number [of n "[]"] by simp

lemma normalize_shape:
  assumes "shape_ok b sh" "fb_max b \<le> max_safe_integer"
  shows "normalize_numbers (shape_text sh) = shape_text sh"
  using assms
  by (cases sh) (simp_all add: normalize_numeral normalize_number sep_not_digit del: normalize_numbers.simps(2)
      add: normalize_other)

text \<open>A list of parts, as it is written, is its own normal form.\<close>

lemma filter_shapes: "filter (\<lambda>part. part \<noteq> []) (map shape_text shs) = map shape_text shs"
  by (rule filter_True) (auto simp: shape_chars(3))

lemma split_shapes:
  "shs \<noteq> [] \<Longrightarrow> str_split CHR '','' (str_join CHR '','' (map shape_text shs)) = map shape_text shs"
  by (rule str_split_join) (auto simp: shape_chars(1))

lemma normalizeField_shapes:
  assumes "shs \<noteq> []" "\<forall>sh \<in> set shs. shape_ok b sh" "fb_max b \<le> max_safe_integer"
  shows "normalizeField (str_join CHR '','' (map shape_text shs)) = str_join CHR '','' (map shape_text shs)"
proof -
  have eq: "map normalize_numbers (map normalizeRange (map shape_text shs)) = map shape_text shs"
    using assms(2,3) normalize_shape by (auto simp: normalizeRange_shape)
  show ?thesis
    unfolding normalizeField_def split_shapes [OF assms(1)] filter_shapes eq by (rule refl)
qed

lemma normalizeField_shape:
  "shape_ok b sh \<Longrightarrow> fb_max b \<le> max_safe_integer \<Longrightarrow> normalizeField (shape_text sh) = shape_text sh"
  using normalizeField_shapes [of "[sh]" b] by simp

lemma split_shape: "str_split CHR '','' (shape_text sh) = [shape_text sh]"
  by (rule str_split_no_sep) (rule shape_chars)

lemma collapseWildcardList_shape: "collapseWildcardList (shape_text sh) b = shape_text sh"
  by (simp add: collapseWildcardList_def split_shape)

text \<open>When the degenerate-range rewrite keeps a part.\<close>

definition part_kept :: "field_bounds \<Rightarrow> bool \<Rightarrow> range_part \<Rightarrow> bool" where
  "part_kept b rangeSlot r = ((rangeSlot \<and> \<not> stepped r) \<or> (rangeSlot \<and> explicitRange r \<and> rp_step r \<le> fb_max b)
     \<or> rp_step r \<le> rp_hi r - rp_lo r)"

lemma collapse_shape:
  assumes "alpha_names b" "shape_ok b sh" "part_kept b rs (shape_part b sh) \<or> shape_text sh = string_of_nat (rp_lo (shape_part b sh))"
  shows "collapseDegenerateRange (shape_text sh) b rs = shape_text sh"
  using assms by (auto simp: collapseDegenerateRange_def split_shape collapse_part_def parse_shape part_kept_def)

section \<open>The schedules of the editor\<close>

definition clock_window :: "nat \<Rightarrow> nat \<Rightarrow> nat \<Rightarrow> nat \<Rightarrow> time_window" where
  "clock_window lo m hi m' = \<lparr>win_from = clock lo m, win_to = clock hi m'\<rparr>"

text \<open>A window of hours that does not span the day.\<close>

definition window_ok :: "nat \<Rightarrow> nat \<Rightarrow> time_window \<Rightarrow> bool" where
  "window_ok m m' w = list_ex (\<lambda>hi. list_ex (\<lambda>lo. lo \<le> hi \<and> \<not> (lo = 0 \<and> hi = 23) \<and> w = clock_window lo m hi m')
     [0..<24]) [0..<24]"

fun time_ok :: "TimePattern \<Rightarrow> bool" where
  "time_ok (At t) = list_ex (\<lambda>h. list_ex (\<lambda>m. t = clock h m) [0..<60]) [0..<24]"
| "time_ok (Every n Hours w m) = (1 \<le> n \<and> n \<le> 23 \<and> m < 60 \<and> (case w of None \<Rightarrow> True | Some w' \<Rightarrow> window_ok m m w'))"
| "time_ok (Every n Minutes w m) = (1 \<le> n \<and> n \<le> 59 \<and> m = 0 \<and> (case w of None \<Rightarrow> True | Some w' \<Rightarrow> window_ok 0 59 w'))"

fun days_ok :: "DayPattern \<Rightarrow> bool" where
  "days_ok EveryDay = True"
| "days_ok (Weekly ds) = (ds \<noteq> [] \<and> sorted ds \<and> distinct ds \<and> list_all (\<lambda>d. d < 7) ds)"
| "days_ok (Monthly d) = (1 \<le> d \<and> d \<le> 31)"

definition canonical_config :: "ScheduleConfig \<Rightarrow> bool" where
  "canonical_config c = (time_ok (cfg_time c) \<and> days_ok (cfg_days c) \<and> cfg_raw c = None
     \<and> cfg_timezone c \<noteq> [] \<and> CHR '' '' \<notin> set (cfg_timezone c))"

text \<open>
  The minute of a pattern in minutes is carried and unused (\<open>model.ts\<close>), and the reader leaves it at 0.
  The editor holds a canonical schedule up to that minute.
\<close>

definition forget_minute :: "TimePattern \<Rightarrow> TimePattern" where
  "forget_minute t = (case t of Every n Minutes w m \<Rightarrow> Every n Minutes w 0 | _ \<Rightarrow> t)"

definition carried_minute :: "TimePattern \<Rightarrow> nat" where
  "carried_minute t = (case t of At _ \<Rightarrow> 0 | Every _ _ _ m \<Rightarrow> m)"

definition config_ok :: "ScheduleConfig \<Rightarrow> bool" where
  "config_ok c = (canonical_config (c\<lparr>cfg_time := forget_minute (cfg_time c)\<rparr>) \<and> carried_minute (cfg_time c) < 60)"

lemma window_okE:
  assumes "window_ok m m' w"
  obtains lo hi where "lo \<le> hi" "hi < 24" "\<not> (lo = 0 \<and> hi = 23)" "w = clock_window lo m hi m'"
  using assms by (auto simp: window_ok_def list_ex_iff)

section \<open>Time fields\<close>

text \<open>The shapes a time pattern is written in.\<close>

definition step_shape :: "nat \<Rightarrow> shape" where
  "step_shape n = (if n = 1 then Star else StarStep n)"

lemma step_text_shape: "step_text n = shape_text (step_shape n)"
  by (simp add: step_text_def step_shape_def)

definition fields_read :: "shape \<Rightarrow> shape \<Rightarrow> bool" where
  "fields_read mi ho = (shape_ok MINUTE mi \<and> shape_ok HOUR ho
     \<and> (part_kept MINUTE False (shape_part MINUTE mi) \<or> shape_text mi = string_of_nat (rp_lo (shape_part MINUTE mi)))
     \<and> part_kept HOUR True (shape_part HOUR ho))"

lemma bounds_simps:
  "fb_min MINUTE = 0" "fb_max MINUTE = 59" "fb_min HOUR = 0" "fb_max HOUR = 23" "fb_min DOM = 1" "fb_max DOM = 31"
  "fb_min MONTH = 1" "fb_max MONTH = 12" "fb_min DOW = 0" "fb_max DOW = 6"
  by (simp_all add: MINUTE_def HOUR_def DOM_def MONTH_def DOW_def)

lemma small_safe: "n \<le> 100 \<Longrightarrow> n \<le> max_safe_integer"
  by (simp add: max_safe_integer_def)

lemma read_minute:
  "m < 60 \<Longrightarrow> plainValue (shape_text (Val m)) MINUTE = Some m"
  "1 \<le> n \<Longrightarrow> n \<le> 59 \<Longrightarrow> plainValue (shape_text (step_shape n)) MINUTE = None"
  "1 \<le> n \<Longrightarrow> n \<le> 59 \<Longrightarrow> parseMinuteInterval (shape_text (step_shape n)) = Some n"
  unfolding plainValue_def parseMinuteInterval_def
  by (simp_all add: parse_shape alpha_fields step_shape_def bounds_simps small_safe del: shape_text.simps)

lemma read_hour:
  assumes "shape_ok HOUR ho"
  shows "plainValue (shape_text ho) HOUR = (case ho of Val h \<Rightarrow> Some h | _ \<Rightarrow> None)"
    "parseHourPattern (shape_text ho) = (case ho of
       Val h \<Rightarrow> Some (1, Some (h, h)) | Star \<Rightarrow> Some (1, None)
     | StarStep n \<Rightarrow> if n > 23 then None else Some (n, None)
     | Span lo hi \<Rightarrow> Some (1, if lo = 0 \<and> hi = 23 then None else Some (lo, hi))
     | SpanStep lo hi n \<Rightarrow> if n > 23 then None else Some (n, if lo = 0 \<and> hi = 23 then None else Some (lo, hi)))"
proof -
  have part: "parseRangePart (shape_text ho) HOUR = Some (shape_part HOUR ho)"
    using alpha_fields(2) assms by (rule parse_shape)
  show "plainValue (shape_text ho) HOUR = (case ho of Val h \<Rightarrow> Some h | _ \<Rightarrow> None)"
    unfolding plainValue_def part by (cases ho) simp_all
  show "parseHourPattern (shape_text ho) = (case ho of
       Val h \<Rightarrow> Some (1, Some (h, h)) | Star \<Rightarrow> Some (1, None)
     | StarStep n \<Rightarrow> if n > 23 then None else Some (n, None)
     | Span lo hi \<Rightarrow> Some (1, if lo = 0 \<and> hi = 23 then None else Some (lo, hi))
     | SpanStep lo hi n \<Rightarrow> if n > 23 then None else Some (n, if lo = 0 \<and> hi = 23 then None else Some (lo, hi)))"
    unfolding parseHourPattern_def part by (cases ho) (auto simp: bounds_simps)
qed

lemma star_shape: "''*'' = shape_text Star"
  by simp

lemma time_written:
  assumes "time_ok t"
  obtains mi ho where "timeFields t = (shape_text mi, shape_text ho)" "fields_read mi ho"
    "parseTimeFields (shape_text mi) (shape_text ho) = Some t"
proof (cases t)
  case (At time)
  with assms obtain h m where hm: "h < 24" "m < 60" "time = clock h m"
    by (auto simp: list_ex_iff)
  have "shape_ok HOUR (Val h)" using hm by (simp add: bounds_simps)
  note rh = read_hour [OF this]
  show ?thesis
  proof (rule that [of "Val m" "Val h"])
    show "timeFields t = (shape_text (Val m), shape_text (Val h))"
      by (simp add: At hm timeParts_clock)
    show "fields_read (Val m) (Val h)"
      using hm by (simp add: fields_read_def part_kept_def bounds_simps)
    show "parseTimeFields (shape_text (Val m)) (shape_text (Val h)) = Some t"
      unfolding parseTimeFields_def read_minute(1) [OF hm(2)] rh by (simp add: At hm clock_def)
  qed
next
  case (Every n u w m)
  show ?thesis
  proof (cases u)
    case Hours
    with assms Every have n: "1 \<le> n" "n \<le> 23" "m < 60" by auto
    show ?thesis
    proof (cases w)
      case None
      have "shape_ok HOUR (step_shape n)" using n by (simp add: step_shape_def small_safe)
      note rh = read_hour [OF this]
      show ?thesis
      proof (rule that [of "Val m" "step_shape n"])
        show "timeFields t = (shape_text (Val m), shape_text (step_shape n))"
          by (simp add: Every Hours None step_text_shape del: shape_text.simps) simp
        show "fields_read (Val m) (step_shape n)"
          using n by (simp add: fields_read_def part_kept_def bounds_simps step_shape_def small_safe)
        show "parseTimeFields (shape_text (Val m)) (shape_text (step_shape n)) = Some t"
          unfolding parseTimeFields_def read_minute(1) [OF n(3)] rh
          using n by (simp add: Every Hours None step_shape_def)
      qed
    next
      case (Some w')
      with assms Every Hours have "window_ok m m w'" by simp
      then obtain lo hi where w: "lo \<le> hi" "hi < 24" "\<not> (lo = 0 \<and> hi = 23)" "w' = clock_window lo m hi m"
        by (rule window_okE)
      let ?ho = "if n = 1 then Span lo hi else SpanStep lo hi n"
      have "shape_ok HOUR ?ho" using n w by (simp add: small_safe bounds_simps)
      note rh = read_hour [OF this]
      show ?thesis
      proof (rule that [of "Val m" ?ho])
        show "timeFields t = (shape_text (Val m), shape_text ?ho)"
          by (simp add: Every Hours Some w(4) clock_window_def timeParts_clock)
        show "fields_read (Val m) ?ho"
          using n w by (simp add: fields_read_def part_kept_def bounds_simps small_safe)
        show "parseTimeFields (shape_text (Val m)) (shape_text ?ho) = Some t"
          unfolding parseTimeFields_def read_minute(1) [OF n(3)] rh
          using n w by (auto simp: Every Hours Some clock_window_def clock_def)
      qed
    qed
  next
    case Minutes
    with assms Every have n: "1 \<le> n" "n \<le> 59" "m = 0" by auto
    have mi: "shape_ok MINUTE (step_shape n)" "part_kept MINUTE False (shape_part MINUTE (step_shape n))"
      using n by (simp_all add: step_shape_def small_safe bounds_simps part_kept_def)
    show ?thesis
    proof (cases w)
      case None
      have "shape_ok HOUR Star" by simp
      note rh = read_hour [OF this]
      show ?thesis
      proof (rule that [of "step_shape n" Star])
        show "timeFields t = (shape_text (step_shape n), shape_text Star)"
          by (simp add: Every Minutes None step_text_shape)
        show "fields_read (step_shape n) Star"
          using mi by (simp add: fields_read_def part_kept_def bounds_simps)
        show "parseTimeFields (shape_text (step_shape n)) (shape_text Star) = Some t"
          unfolding parseTimeFields_def read_minute(2,3) [OF n(1,2)] rh
          using n by (simp add: Every Minutes None)
      qed
    next
      case (Some w')
      with assms Every Minutes have "window_ok 0 59 w'" by simp
      then obtain lo hi where w: "lo \<le> hi" "hi < 24" "\<not> (lo = 0 \<and> hi = 23)" "w' = clock_window lo 0 hi 59"
        by (rule window_okE)
      let ?ho = "if lo = hi then Val lo else Span lo hi"
      have "shape_ok HOUR ?ho" using w by (simp add: bounds_simps)
      note rh = read_hour [OF this]
      have pads: "pad2 0 = ''00''" "pad2 59 = ''59''"
        by (simp_all add: pad2_def string_of_nat.simps digit_char_def) (code_simp+)?
      show ?thesis
      proof (rule that [of "step_shape n" ?ho])
        show "timeFields t = (shape_text (step_shape n), shape_text ?ho)"
          by (simp add: Every Minutes Some w(4) clock_window_def timeParts_clock step_text_shape same_number_def)
        show "fields_read (step_shape n) ?ho"
          using mi w by (simp add: fields_read_def part_kept_def bounds_simps)
        show "parseTimeFields (shape_text (step_shape n)) (shape_text ?ho) = Some t"
          unfolding parseTimeFields_def read_minute(2,3) [OF n(1,2)] rh
          using n w by (auto simp: Every Minutes Some clock_window_def clock_def pads)
      qed
    qed
  qed
qed

end
