(* ===== verification/Cron_Correct.thy ===== *)
theory Cron_Correct
  imports Cron_Roundtrip
begin

text \<open>
  Correctness of the cron mapping: structured schedules survive \<open>toCron\<close> and \<open>parseCron\<close>,
  every expression the reader structures is a schedule the editor can hold, reading is stable
  under rewriting, and the lexical rewrites of a field select the same values.
\<close>

section \<open>Runs of days\<close>

lemma run_end_spec: "run_end e xs = (e', rest) \<Longrightarrow> e \<le> e' \<and> xs = [Suc e..<Suc e'] @ rest"
proof (induction e xs arbitrary: e' rest rule: run_end.induct)
  case (2 e x xs)
  show ?case
  proof (cases "x = e + 1")
    case True
    with 2 have "x \<le> e'" "xs = [Suc x..<Suc e'] @ rest" by auto
    with True show ?thesis by (simp add: upt_rec [of "Suc e"])
  qed (use "2.prems" in simp)
qed simp

fun run_days :: "nat \<times> nat \<Rightarrow> nat list" where
  "run_days (lo, hi) = [lo..<Suc hi]"

lemma concat_runs: "concat (map run_days (runs_of ds)) = ds"
proof (induction ds rule: runs_of.induct)
  case (2 x xs)
  obtain e rest where re: "run_end x xs = (e, rest)" by (cases "run_end x xs")
  from run_end_spec [OF this] have "x \<le> e" "xs = [Suc x..<Suc e] @ rest" by auto
  with 2 re show ?case by (simp add: upt_rec [of x])
qed simp

lemma runs_ordered: "r \<in> set (runs_of ds) \<Longrightarrow> fst r \<le> snd r \<and> fst r \<in> set ds \<and> snd r \<in> set ds"
proof (induction ds rule: runs_of.induct)
  case (2 x xs)
  obtain e rest where re: "run_end x xs = (e, rest)" by (cases "run_end x xs")
  from run_end_spec [OF this] have e: "x \<le> e" "xs = [Suc x..<Suc e] @ rest" by auto
  then have "e \<in> set (x # xs)" "set rest \<subseteq> set xs" by (auto simp: upt_rec [of x])
  with 2 re e(1) show ?case by fastforce
qed simp

lemma consecutiveRuns_id: "sorted ds \<Longrightarrow> distinct ds \<Longrightarrow> consecutiveRuns ds = runs_of ds"
  by (simp add: consecutiveRuns_def distinct_remdups_id sorted_sort_id)

section \<open>Day fields\<close>

definition run_shape :: "nat \<times> nat \<Rightarrow> shape" where
  "run_shape r = (if snd r > fst r then Span (fst r) (snd r) else Val (fst r))"

lemma run_text_shape: "run_text = (\<lambda>r. shape_text (run_shape r))"
  by (rule ext) (simp add: run_text_def run_shape_def)

lemma run_part:
  "fst r \<le> snd r \<Longrightarrow> step_values (rp_lo (shape_part b (run_shape r))) (rp_hi (shape_part b (run_shape r)))
     (rp_step (shape_part b (run_shape r))) = run_days r \<and> \<not> wildcard (shape_part b (run_shape r))"
  by (cases r) (simp add: run_shape_def step_values_one del: One_nat_def)

lemma part_values_runs:
  assumes "\<forall>r \<in> set rs. fst r \<le> snd r \<and> shape_ok DOW (run_shape r)"
  shows "part_values DOW (map (\<lambda>r. shape_text (run_shape r)) rs) = Some (concat (map run_days rs))"
  using assms
proof (induction rs)
  case (Cons r rs)
  then have "parseRangePart (shape_text (run_shape r)) DOW = Some (shape_part DOW (run_shape r))"
    by (intro parse_shape) (simp_all add: alpha_fields)
  with Cons run_part [of r DOW] show ?case by simp
qed simp

lemma first_run_text:
  assumes "rs \<noteq> []"
  shows "str_join CHR '','' (map (\<lambda>r. shape_text (run_shape r)) rs) \<noteq> ''*''"
proof -
  obtain r rs' where rs: "rs = r # rs'" using assms by (cases rs) auto
  obtain t where "shape_text (run_shape r) = string_of_nat (fst r) @ t"
    by (cases "snd r > fst r") (auto simp: run_shape_def)
  then obtain t' where "str_join CHR '','' (map (\<lambda>r. shape_text (run_shape r)) rs) = string_of_nat (fst r) @ t'"
    by (cases rs') (simp_all add: rs)
  then show ?thesis using numeral_neq(3) by metis
qed

lemma weekly_written:
  assumes "days_ok (Weekly ds)"
  shows "dowFieldFromDays ds = str_join CHR '','' (map (\<lambda>r. shape_text (run_shape r)) (runs_of ds))"
    "normalizeField (dowFieldFromDays ds) = dowFieldFromDays ds"
    "collapseWildcardList (dowFieldFromDays ds) DOW = dowFieldFromDays ds"
    "dowFieldFromDays ds \<noteq> ''*''" "expandDow (dowFieldFromDays ds) = Some ds"
proof -
  let ?rs = "runs_of ds"
  from assms have ds: "ds \<noteq> []" "sorted ds" "distinct ds" "\<forall>d \<in> set ds. d < 7"
    by (auto simp: list_all_iff)
  show form: "dowFieldFromDays ds = str_join CHR '','' (map (\<lambda>r. shape_text (run_shape r)) ?rs)"
    by (simp add: dowFieldFromDays_def consecutiveRuns_id ds run_text_shape)
  have shapes: "(\<lambda>r. shape_text (run_shape r)) = shape_text \<circ> run_shape" by auto
  have form': "dowFieldFromDays ds = str_join CHR '','' (map shape_text (map run_shape ?rs))"
    by (simp add: form shapes)
  have ne: "?rs \<noteq> []" using ds(1) by (cases ds) auto
  have ok: "\<forall>r \<in> set ?rs. fst r \<le> snd r \<and> shape_ok DOW (run_shape r)"
    using runs_ordered ds(4) by (fastforce simp: run_shape_def bounds_simps)
  show "normalizeField (dowFieldFromDays ds) = dowFieldFromDays ds"
    unfolding form' using ne ok by (intro normalizeField_shapes [of _ DOW]) (auto simp: bounds_simps small_safe)
  have parts_of: "str_split CHR '','' (dowFieldFromDays ds) = map (\<lambda>r. shape_text (run_shape r)) ?rs"
    unfolding form' by (subst split_shapes) (use ne in auto)
  have parts: "parseRangePart (shape_text (run_shape r)) DOW = Some (shape_part DOW (run_shape r))"
      "\<not> wildcard (shape_part DOW (run_shape r))" if "r \<in> set ?rs" for r
    using ok run_part [of r DOW] that by (auto intro!: parse_shape simp: alpha_fields)
  then have "\<not> list_ex (\<lambda>r. wildcard (the r) \<and> rp_step (the r) = 1)
      (map (\<lambda>part. parseRangePart part DOW) (str_split CHR '','' (dowFieldFromDays ds)))"
    unfolding parts_of by (auto simp: list_ex_iff)
  then show "collapseWildcardList (dowFieldFromDays ds) DOW = dowFieldFromDays ds"
    by (simp only: collapseWildcardList_def Let_def if_False) simp
  show "dowFieldFromDays ds \<noteq> ''*''" unfolding form using ne by (rule first_run_text)
  have "part_values DOW (str_split CHR '','' (dowFieldFromDays ds)) = Some ds"
    unfolding parts_of part_values_runs [OF ok] by (simp add: concat_runs)
  then show "expandDow (dowFieldFromDays ds) = Some ds"
    using ds by (simp add: expandDow_def distinct_remdups_id sorted_sort_id)
qed

text \<open>What the reader makes of the two day fields, after the rewrites.\<close>

definition read_days :: "jstr \<Rightarrow> jstr \<Rightarrow> DayPattern option" where
  "read_days d w =
     parseDays (collapseDegenerateRange (collapseWildcardList (normalizeField d) DOM) DOM False)
       (collapseWildcardList (normalizeField w) DOW)"

lemma star_read:
  "normalizeField ''*'' = ''*''" "collapseWildcardList ''*'' b = ''*''"
  "collapseDegenerateRange ''*'' DOM False = ''*''"
proof -
  show "normalizeField ''*'' = ''*''" "collapseWildcardList ''*'' b = ''*''"
    using normalizeField_shape [of MINUTE Star] collapseWildcardList_shape [of Star]
    by (simp_all add: bounds_simps small_safe)
  show "collapseDegenerateRange ''*'' DOM False = ''*''"
    using collapse_shape [of DOM Star False] by (simp add: alpha_fields part_kept_def bounds_simps)
qed

lemma days_written:
  assumes "days_ok p"
  shows "read_days (fst (dayFields p)) (snd (dayFields p)) = Some p"
proof (cases p)
  case EveryDay
  then show ?thesis by (simp add: read_days_def star_read parseDays_def)
next
  case (Weekly ds)
  with assms have "ds \<noteq> []" by simp
  with Weekly show ?thesis
    using weekly_written(2-5) [OF assms [unfolded Weekly]]
    by (simp add: read_days_def star_read parseDays_def)
next
  case (Monthly d)
  with assms have ok: "shape_ok DOM (Val d)" by (simp add: bounds_simps)
  have "normalizeField (shape_text (Val d)) = shape_text (Val d)"
    using ok by (rule normalizeField_shape) (simp add: bounds_simps small_safe)
  moreover have "collapseDegenerateRange (shape_text (Val d)) DOM False = shape_text (Val d)"
    using ok by (intro collapse_shape) (simp_all add: alpha_fields)
  moreover have "plainValue (shape_text (Val d)) DOM = Some d"
    unfolding plainValue_def by (subst parse_shape [OF _ ok]) (simp_all add: alpha_fields)
  ultimately show ?thesis
    using collapseWildcardList_shape [of "Val d" DOM]
    by (simp add: Monthly read_days_def star_read parseDays_def numeral_neq)
qed

section \<open>Splitting the expression\<close>

lemma split_spaces_word: "w \<noteq> [] \<Longrightarrow> \<forall>c \<in> set w. \<not> is_space c \<Longrightarrow> split_spaces w = [w]"
  by (subst split_spaces.simps) (simp add: takeWhile_eq_all_conv [THEN iffD2] dropWhile_eq_Nil_conv [THEN iffD2])

lemma split_spaces_cons:
  assumes "\<forall>c \<in> set w. \<not> is_space c" "s \<noteq> []" "\<not> is_space (hd s)"
  shows "split_spaces (w @ CHR '' '' # s) = w # split_spaces s"
proof -
  have sp: "is_space CHR '' ''" by (simp add: is_space_def)
  have "takeWhile (\<lambda>c. \<not> is_space c) (w @ CHR '' '' # s) = w"
    "dropWhile (\<lambda>c. \<not> is_space c) (w @ CHR '' '' # s) = CHR '' '' # s"
    using assms(1) sp by (simp_all add: takeWhile_append dropWhile_append)
  moreover have "dropWhile is_space (CHR '' '' # s) = s"
    using assms(2,3) sp by (cases s) simp_all
  ultimately show ?thesis by (subst split_spaces.simps) simp
qed

text \<open>Texts without white space at their ends, made of words separated by single spaces.\<close>

definition word :: "jstr \<Rightarrow> bool" where
  "word w = (w \<noteq> [] \<and> (\<forall>c \<in> set w. \<not> is_space c))"

lemma word_ends: "word w \<Longrightarrow> \<not> is_space (hd w) \<and> \<not> is_space (last w)"
  by (auto simp: word_def)

lemma five_fields:
  assumes "word a" "word b" "word c" "word d" "word e"
  defines "t \<equiv> a @ CHR '' '' # b @ CHR '' '' # c @ CHR '' '' # d @ CHR '' '' # e"
  shows "split_spaces t = [a, b, c, d, e]" "str_trim t = t" "t \<noteq> []" "\<not> is_space (hd t)"
    "str_trim (CHR '' '' # t) = t"
proof -
  have hds: "hd (w @ r) = hd w" if "word w" for w r using that by (auto simp: word_def)
  have nes: "w @ r \<noteq> []" if "word w" for w r using that by (auto simp: word_def)
  have sp: "\<forall>x \<in> set w. \<not> is_space x" if "word w" for w using that by (simp add: word_def)
  show "split_spaces t = [a, b, c, d, e]"
    unfolding t_def using assms(1-5) word_ends
    by (simp add: split_spaces_cons sp nes hds split_spaces_word word_def [of e] word_def [of "_ @ _"] del: append_is_Nil_conv)
  show ne: "t \<noteq> []" unfolding t_def by simp
  show hd: "\<not> is_space (hd t)" unfolding t_def using assms(1) word_ends hds by metis
  have "last t = last e" unfolding t_def using assms(5) by (simp add: word_def)
  then have lst: "\<not> is_space (last t)" using assms(5) word_ends by metis
  show trim: "str_trim t = t" by (rule str_trim_id [OF ne hd lst])
  have "dropWhile is_space (CHR '' '' # t) = t" "dropWhile is_space t = t"
    using ne hd by (simp_all add: is_space_def [of "CHR '' ''"] dropWhile_eq_self_iff)
  with trim show "str_trim (CHR '' '' # t) = t" by (simp add: str_trim_def)
qed

lemma shape_word: "word (shape_text sh)"
  using shape_chars by (auto simp: word_def)

lemma day_words:
  assumes "days_ok p"
  shows "word (fst (dayFields p))" "word (snd (dayFields p))"
proof -
  have star: "word ''*''" using shape_word [of Star] by simp
  have joined: "word (str_join CHR '','' (map (\<lambda>r. shape_text (run_shape r)) rs))" if "rs \<noteq> []" for rs
    using that
  proof (induction rs rule: induct_list012)
    case (3 r r' rs)
    then have "word (str_join CHR '','' (map (\<lambda>r. shape_text (run_shape r)) (r' # rs)))" by simp
    with shape_word [of "run_shape r"] show ?case
      by (auto simp: word_def) (simp add: is_space_def)
  qed (use shape_word in auto)
  show "word (fst (dayFields p))"
    using star shape_word [of "Val d" for d] by (cases p) (auto simp: numeral_plain)
  show "word (snd (dayFields p))"
  proof (cases p)
    case (Weekly ds)
    with assms have "ds \<noteq> []" "runs_of ds \<noteq> []" by (cases ds; auto)+
    with assms Weekly joined [of "runs_of ds"] weekly_written(1) [of ds] show ?thesis by simp
  qed (use star in auto)
qed

section \<open>Writing and reading back\<close>

lemma read_time_fields:
  assumes "fields_read mi ho"
  shows "collapseDegenerateRange (collapseWildcardList (normalizeField (shape_text mi)) MINUTE) MINUTE False = shape_text mi"
    "collapseDegenerateRange (collapseWildcardList (normalizeField (shape_text ho)) HOUR) HOUR True = shape_text ho"
proof -
  have ok: "shape_ok MINUTE mi" "shape_ok HOUR ho" using assms by (simp_all add: fields_read_def)
  have "normalizeField (shape_text mi) = shape_text mi" "normalizeField (shape_text ho) = shape_text ho"
    using normalizeField_shape [OF ok(1)] normalizeField_shape [OF ok(2)] by (simp_all add: bounds_simps small_safe)
  moreover have "collapseDegenerateRange (shape_text mi) MINUTE False = shape_text mi"
    using assms ok by (intro collapse_shape) (auto simp: alpha_fields fields_read_def)
  moreover have "collapseDegenerateRange (shape_text ho) HOUR True = shape_text ho"
    using assms ok by (intro collapse_shape) (auto simp: alpha_fields fields_read_def)
  ultimately show "collapseDegenerateRange (collapseWildcardList (normalizeField (shape_text mi)) MINUTE) MINUTE False = shape_text mi"
    "collapseDegenerateRange (collapseWildcardList (normalizeField (shape_text ho)) HOUR) HOUR True = shape_text ho"
    by (simp_all only: collapseWildcardList_shape)
qed

lemma fields_written:
  assumes "time_ok t" "days_ok p"
  obtains a b where "timeFields t = (a, b)" "word a" "word b" "hd a \<noteq> CHR ''T''" "hd a \<noteq> CHR ''C''"
    "parseFields [a, b, fst (dayFields p), ''*'', snd (dayFields p)] = Some (t, p)"
proof -
  obtain mi ho where w: "timeFields t = (shape_text mi, shape_text ho)" "fields_read mi ho"
    "parseTimeFields (shape_text mi) (shape_text ho) = Some t"
    using time_written [OF assms(1)] by blast
  have "parseFields [shape_text mi, shape_text ho, fst (dayFields p), ''*'', snd (dayFields p)] = Some (t, p)"
    using w(3) days_written [OF assms(2), unfolded read_days_def] read_time_fields [OF w(2)]
    by (simp add: parseFields_def Let_def star_read)
  moreover have "hd (string_of_nat n) \<noteq> CHR ''T'' \<and> hd (string_of_nat n) \<noteq> CHR ''C''" for n
    using digit_plain [of "hd (string_of_nat n)"] string_of_nat_digit [of "hd (string_of_nat n)" n] by simp
  then have "hd (shape_text mi) \<noteq> CHR ''T'' \<and> hd (shape_text mi) \<noteq> CHR ''C''"
    by (cases mi) simp_all
  ultimately show ?thesis using that [OF w(1) shape_word shape_word] by blast
qed

lemma no_prefix: "s \<noteq> [] \<Longrightarrow> hd s \<noteq> CHR ''T'' \<Longrightarrow> hd s \<noteq> CHR ''C'' \<Longrightarrow> \<not> hasTimezonePrefix s"
  by (cases s) (auto simp: hasTimezonePrefix_def str_starts_def)

lemma find_index_append: "\<forall>x \<in> set xs. \<not> P x \<Longrightarrow> find_index P (xs @ ys) = map_option ((+) (length xs)) (find_index P ys)"
proof (induction xs)
  case (Cons x xs)
  then show ?case by (simp add: option.map_comp o_def)
next
  case Nil
  show ?case by (cases "find_index P ys") simp_all
qed

lemma prefix_extracted:
  assumes "CHR '' '' \<notin> set tz" "canon (if tz = [] then ''UTC'' else tz) = Some tz'"
    and "str_trim (CHR '' '' # t) = t" "t \<noteq> []" "\<not> hasTimezonePrefix t"
  shows "extractTimezonePrefix canon (''TZ='' @ tz @ '' '' @ t) = Some (tz', t)"
proof -
  have "find_index (\<lambda>d. d = CHR '' '') ((''TZ='' @ tz) @ CHR '' '' # t) = Some (3 + length tz)"
    using assms(1) by (subst find_index_append) auto
  then have sp: "str_index_of (''TZ='' @ tz @ '' '' @ t) CHR '' '' = Some (3 + length tz)"
    by (simp add: str_index_of_def)
  have eq: "str_index_of (''TZ='' @ tz @ '' '' @ t) CHR ''='' = Some 2"
    by (simp add: str_index_of_def)
  have "hasTimezonePrefix (''TZ='' @ tz @ '' '' @ t)" by (simp add: hasTimezonePrefix_def str_starts_def)
  moreover have "take (3 + length tz) (''TZ='' @ tz @ '' '' @ t) = ''TZ='' @ tz"
    "drop (3 + length tz) (''TZ='' @ tz @ '' '' @ t) = CHR '' '' # t"
    by (simp_all add: numeral_3_eq_3)
  ultimately show ?thesis
    unfolding extractTimezonePrefix_def sp eq using assms(2-5) by (cases "tz = []") simp_all
qed

lemma cron_roundtrip_lemma:
  assumes "canonical_config c" "canon (cfg_timezone c) = Some (cfg_timezone c)"
  shows "parseCron canon (toCron c) tz = c"
proof -
  from assms(1) have ok: "time_ok (cfg_time c)" "days_ok (cfg_days c)" "cfg_raw c = None"
    "cfg_timezone c \<noteq> []" "CHR '' '' \<notin> set (cfg_timezone c)" by (simp_all add: canonical_config_def)
  obtain a b where ab: "timeFields (cfg_time c) = (a, b)" "word a" "word b" "hd a \<noteq> CHR ''T''" "hd a \<noteq> CHR ''C''"
    "parseFields [a, b, fst (dayFields (cfg_days c)), ''*'', snd (dayFields (cfg_days c))]
      = Some (cfg_time c, cfg_days c)"
    using fields_written [OF ok(1,2)] by blast
  have star: "word ''*''" using shape_word [of Star] by simp
  define t where "t = a @ CHR '' '' # b @ CHR '' '' # fst (dayFields (cfg_days c)) @ CHR '' '' # ''*''
    @ CHR '' '' # snd (dayFields (cfg_days c))"
  note five = five_fields [OF ab(2,3) day_words(1) [OF ok(2)] star day_words(2) [OF ok(2)], folded t_def]
  have fields: "cronFields c = t"
    by (simp add: cronFields_def ok(3) ab(1) t_def split: prod.splits)
  have "hd t = hd a" using ab(2) by (simp add: t_def word_def)
  with ab(4,5) five(3) have free: "\<not> hasTimezonePrefix t" by (intro no_prefix) simp_all
  have cron: "toCron c = ''TZ='' @ cfg_timezone c @ '' '' @ t"
    using five(2,3) free ok(4,5) by (simp add: toCron_def fields)
  have "extractTimezonePrefix canon (toCron c) = Some (cfg_timezone c, t)"
    unfolding cron by (rule prefix_extracted) (use ok assms(2) five free in simp_all)
  then show ?thesis
    using five(1,2) ab(6) ok(3) by (simp add: parseCron_def)
qed

text \<open>A schedule with a carried minute is written like the one without it.\<close>

lemma toCron_forget: "toCron (c\<lparr>cfg_time := forget_minute (cfg_time c)\<rparr>) = toCron c"
proof -
  have "timeFields (forget_minute t) = timeFields t" for t
    by (cases t; cases "unit_of t"; cases "window_of t") (auto simp: forget_minute_def split: every_unit.splits)
  note same = this
  obtain t d z r where "c = \<lparr>cfg_time = t, cfg_days = d, cfg_timezone = z, cfg_raw = r\<rparr>" by (cases c)
  then show ?thesis
    unfolding toCron_def cronFields_def by (simp only: same ScheduleConfig.simps)
qed

end
