(* ===== verification/Cron_Semantics.thy ===== *)
theory Cron_Semantics
  imports Cron_Correct
begin

text \<open>
  What the reader of the cron mapping yields: the schedules it structures are exactly those
  the editor can hold, so that writing and reading again changes nothing; and the rewrites it
  applies to a field select the same values as the field itself.
\<close>

section \<open>Parts the reader accepts\<close>

definition bounds_ok :: "field_bounds \<Rightarrow> bool" where
  "bounds_ok b = (alpha_names b \<and> fb_min b \<le> fb_max b
     \<and> list_all (\<lambda>(_, v). fb_min b \<le> v \<and> v \<le> fb_max b) (fb_names b))"

lemma bounds_ok_fields: "bounds_ok MINUTE" "bounds_ok HOUR" "bounds_ok DOM" "bounds_ok MONTH" "bounds_ok DOW"
  by (simp_all add: bounds_ok_def alpha_fields)
    (simp_all add: MINUTE_def HOUR_def DOM_def MONTH_def DOW_def DOW_NAMES_def MONTH_NAMES_def)

lemma fieldValue_bounds:
  "bounds_ok b \<Longrightarrow> fieldValue s b = Some v \<Longrightarrow> fb_min b \<le> v \<and> v \<le> fb_max b"
  by (auto simp: fieldValue_def bounds_ok_def list_all_iff Let_def dest: map_of_SomeD
      split: option.splits if_splits)

definition part_ok :: "field_bounds \<Rightarrow> range_part \<Rightarrow> bool" where
  "part_ok b r = (fb_min b \<le> rp_lo r \<and> rp_lo r \<le> rp_hi r \<and> rp_hi r \<le> fb_max b \<and> 1 \<le> rp_step r
     \<and> (stepped r \<or> rp_step r = 1) \<and> (wildcard r \<longrightarrow> rp_lo r = fb_min b \<and> rp_hi r = fb_max b)
     \<and> (\<not> wildcard r \<and> \<not> stepped r \<and> \<not> explicitRange r \<longrightarrow> rp_hi r = rp_lo r))"

lemma parse_step_pos: "parse_step st = Some n \<Longrightarrow> 1 \<le> n \<and> (st \<noteq> None \<or> n = 1)"
  by (auto simp: parse_step_def Let_def split: option.splits if_splits)

lemma parse_bounds_of_ok:
  assumes "bounds_ok b" "parse_bounds_of s st n b = Some r"
  shows "fb_min b \<le> rp_lo r \<and> rp_lo r \<le> rp_hi r \<and> rp_hi r \<le> fb_max b \<and> rp_step r = n \<and> stepped r = st
    \<and> \<not> wildcard r \<and> (\<not> st \<and> \<not> explicitRange r \<longrightarrow> rp_hi r = rp_lo r)"
proof -
  obtain loStr his lo hi where "str_split CHR ''-'' s = loStr # his" "fieldValue loStr b = Some lo"
    and hi: "(case his of [] \<Rightarrow> Some (if st then fb_max b else lo) | hiStr # _ \<Rightarrow> fieldValue hiStr b) = Some hi"
    and le: "\<not> hi < lo" and r: "r = \<lparr>rp_lo = lo, rp_hi = hi, rp_step = n, wildcard = False, stepped = st,
      explicitRange = (his \<noteq> [])\<rparr>"
    using assms(2) unfolding parse_bounds_of_def by (auto split: list.splits option.splits if_splits)
  then have "fb_min b \<le> lo" "lo \<le> fb_max b" using fieldValue_bounds [OF assms(1)] by blast+
  moreover have "hi \<le> fb_max b"
    using hi calculation fieldValue_bounds [OF assms(1)] by (auto split: list.splits if_splits)
  ultimately show ?thesis using le hi by (auto simp: r split: list.splits)
qed

lemma parseRangePart_ok:
  assumes "bounds_ok b" "parseRangePart part b = Some r"
  shows "part_ok b r"
proof -
  obtain rangeStr st n where n: "parse_step st = Some n"
    and r: "(if rangeStr = ''*''
        then Some \<lparr>rp_lo = fb_min b, rp_hi = fb_max b, rp_step = n, wildcard = True,
                   stepped = (st \<noteq> None), explicitRange = False\<rparr>
        else parse_bounds_of rangeStr (st \<noteq> None) n b) = Some r"
    using assms(2) unfolding parseRangePart_def Let_def
    by (auto split: list.splits option.splits if_splits)
  show ?thesis
  proof (cases "rangeStr = ''*''")
    case True
    with r have "r = \<lparr>rp_lo = fb_min b, rp_hi = fb_max b, rp_step = n, wildcard = True,
      stepped = (st \<noteq> None), explicitRange = False\<rparr>" by simp
    with parse_step_pos [OF n] assms(1) show ?thesis by (simp add: part_ok_def bounds_ok_def)
  next
    case False
    with r have "parse_bounds_of rangeStr (st \<noteq> None) n b = Some r" by simp
    with parse_bounds_of_ok [OF assms(1) this] parse_step_pos [OF n] show ?thesis
      by (auto simp: part_ok_def)
  qed
qed

section \<open>The reader yields schedules of the editor\<close>

lemma plainValue_bounds: "bounds_ok b \<Longrightarrow> plainValue f b = Some v \<Longrightarrow> fb_min b \<le> v \<and> v \<le> fb_max b"
  using parseRangePart_ok [of b f]
  by (auto simp: plainValue_def part_ok_def split: option.splits if_splits)

lemma parseHourPattern_ok:
  assumes "parseHourPattern f = Some (n, w)"
  shows "1 \<le> n \<and> n \<le> 23 \<and> (case w of None \<Rightarrow> True | Some (lo, hi) \<Rightarrow> lo \<le> hi \<and> hi \<le> 23 \<and> \<not> (lo = 0 \<and> hi = 23))"
proof -
  obtain r where r: "parseRangePart f HOUR = Some r" "\<not> rp_step r > 23" "n = rp_step r"
    "w = (if wildcard r \<or> (rp_lo r = 0 \<and> rp_hi r = 23) then None else Some (rp_lo r, rp_hi r))"
    using assms by (auto simp: parseHourPattern_def Let_def bounds_simps split: option.splits if_splits)
  with parseRangePart_ok [OF bounds_ok_fields(2) r(1)] show ?thesis
    by (auto simp: part_ok_def bounds_simps)
qed

lemma parseMinuteInterval_ok: "parseMinuteInterval f = Some n \<Longrightarrow> 1 \<le> n \<and> n \<le> 59"
  using parseRangePart_ok [OF bounds_ok_fields(1), of f]
  by (auto simp: parseMinuteInterval_def part_ok_def bounds_simps split: option.splits if_splits)

lemma window_okI:
  assumes "lo \<le> hi" "hi \<le> 23" "\<not> (lo = 0 \<and> hi = 23)"
  shows "window_ok m m' \<lparr>win_from = clock lo m, win_to = clock hi m'\<rparr>"
  using assms unfolding window_ok_def clock_window_def list_ex_iff
  by (intro bexI [of _ hi] bexI [of _ lo]) auto

lemma pads: "pad2 0 = ''00''" "pad2 59 = ''59''"
  by code_simp+

lemma clock_texts: "pad2 h @ CHR '':'' # pad2 m = clock h m" "pad2 h @ '':00'' = clock h 0" "pad2 h @ '':59'' = clock h 59"
  by (simp_all add: clock_def pads)

lemma parseTimeFields_ok:
  assumes "parseTimeFields mf hf = Some t"
  shows "time_ok t"
proof (cases "plainValue mf MINUTE")
  case (Some m)
  then have m: "m < 60" using plainValue_bounds [OF bounds_ok_fields(1)] by (fastforce simp: bounds_simps)
  show ?thesis
  proof (cases "plainValue hf HOUR")
    case hour: (Some h)
    then have "h < 24" using plainValue_bounds [OF bounds_ok_fields(2)] by (fastforce simp: bounds_simps)
    moreover have "t = At (clock h m)" using assms Some hour by (simp add: parseTimeFields_def clock_def)
    moreover have "time_ok (At (clock h m))" if "h < 24"
      unfolding time_ok.simps list_ex_iff using m that by (intro bexI [of _ h] bexI [of _ m]) simp_all
    ultimately show ?thesis by simp
  next
    case None
    with assms Some obtain n w where w: "parseHourPattern hf = Some (n, w)"
      "t = Every n Hours (case w of None \<Rightarrow> None
         | Some (lo, hi) \<Rightarrow> Some \<lparr>win_from = clock lo m, win_to = clock hi m\<rparr>) m"
      by (auto simp: parseTimeFields_def clock_texts split: option.splits)
    with parseHourPattern_ok [OF w(1)] m show ?thesis
      by (auto intro: window_okI split: option.splits)
  qed
next
  case None
  with assms obtain n where n: "parseMinuteInterval mf = Some n"
    by (auto simp: parseTimeFields_def split: option.splits)
  with assms None obtain h w where w: "parseHourPattern hf = Some (h, w)"
    by (auto simp: parseTimeFields_def split: option.splits)
  note nb = parseMinuteInterval_ok [OF n] and hb = parseHourPattern_ok [OF w]
  show ?thesis
  proof (cases w)
    case wn: None
    with assms None n w nb show ?thesis by (auto simp: parseTimeFields_def split: if_splits)
  next
    case ws: (Some lohi)
    obtain lo hi where lohi: "lohi = (lo, hi)" by (cases lohi)
    with assms None n w ws have "t = Every n Minutes (Some \<lparr>win_from = clock lo 0,
        win_to = clock (if h > hi - lo then lo else hi) 59\<rparr>) 0"
      by (auto simp: parseTimeFields_def clock_texts Let_def split: if_splits)
    moreover have "window_ok 0 59 \<lparr>win_from = clock lo 0, win_to = clock (if h > hi - lo then lo else hi) 59\<rparr>"
      using hb ws lohi by (intro window_okI) auto
    ultimately show ?thesis using nb by simp
  qed
qed

lemma part_values_bounds:
  "part_values DOW parts = Some ds \<Longrightarrow> \<forall>d \<in> set ds. d < 7"
proof (induction parts arbitrary: ds)
  case (Cons p ps)
  then obtain r ds' where r: "parseRangePart p DOW = Some r" "part_values DOW ps = Some ds'"
    "ds = step_values (rp_lo r) (rp_hi r) (rp_step r) @ ds'"
    by (auto split: option.splits)
  have "part_ok DOW r" by (rule parseRangePart_ok [OF bounds_ok_fields(5) r(1)])
  then have "\<forall>d \<in> set (step_values (rp_lo r) (rp_hi r) (rp_step r)). d < 7"
    by (auto simp: set_step_values part_ok_def bounds_simps)
  with Cons.IH [OF r(2)] r(3) show ?case by auto
qed simp

lemma parseDays_ok: "parseDays df ef = Some p \<Longrightarrow> days_ok p"
proof -
  assume p: "parseDays df ef = Some p"
  have ne: "sort (remdups x) \<noteq> []" if "x \<noteq> []" for x :: "nat list"
    using that by (metis set_empty set_remdups set_sort)
  have "days_ok (Weekly ds)" if "expandDow ef = Some ds" for ds
    using that ne part_values_bounds [of "str_split CHR '','' ef"]
    by (auto simp: expandDow_def list_all_iff split: option.splits if_splits)
  moreover have "days_ok (Monthly d)" if "plainValue df DOM = Some d" for d
    using plainValue_bounds [OF bounds_ok_fields(3) that] by (simp add: bounds_simps)
  ultimately show ?thesis using p by (auto simp: parseDays_def split: if_splits)
qed

lemma parseFields_ok: "parseFields parts = Some (t, p) \<Longrightarrow> time_ok t \<and> days_ok p"
  by (auto simp: parseFields_def Let_def intro: parseTimeFields_ok parseDays_ok
      split: list.splits option.splits if_splits)

lemma parse_structured:
  assumes "cfg_raw (parseCron canon e tz) = None"
  shows "time_ok (cfg_time (parseCron canon e tz)) \<and> days_ok (cfg_days (parseCron canon e tz))"
  using assms parseFields_ok
  by (auto simp: parseCron_def Let_def split: option.splits prod.splits)

section \<open>The rewrites select the same values\<close>

lemma collapse_part_values:
  assumes b: "bounds_ok b"
  shows "part_values b (map (collapse_part b rs) parts) = None \<longleftrightarrow> part_values b parts = None"
    and "part_values b parts = Some vs \<Longrightarrow> part_values b (map (collapse_part b rs) parts) = Some vs"
proof -
  have part: "part_values b [collapse_part b rs p] = part_values b [p]" for p
  proof (cases "parseRangePart p b")
    case None
    then show ?thesis by (simp add: collapse_part_def)
  next
    case (Some r)
    have ok: "part_ok b r" by (rule parseRangePart_ok [OF b Some])
    show ?thesis
    proof (cases "collapse_part b rs p = p")
      case False
      with Some have wide: "rp_step r > rp_hi r - rp_lo r" "collapse_part b rs p = string_of_nat (rp_lo r)"
        by (auto simp: collapse_part_def split: if_splits)
      have "parseRangePart (shape_text (Val (rp_lo r))) b = Some (shape_part b (Val (rp_lo r)))"
        using b ok by (intro parse_shape) (auto simp: bounds_ok_def part_ok_def)
      moreover have "step_values (rp_lo r) (rp_hi r) (rp_step r) = [rp_lo r]"
        using wide(1) ok by (intro step_values_single) (simp_all add: part_ok_def)
      moreover have "step_values (rp_lo r) (rp_lo r) 1 = [rp_lo r]" by (rule step_values_single) simp_all
      ultimately show ?thesis using Some wide(2) by simp
    qed simp
  qed
  have all: "part_values b (map (collapse_part b rs) parts) = part_values b parts"
  proof (induction parts)
    case (Cons p ps)
    have cons_eq: "part_values b (x # xs) = (case part_values b [x] of None \<Rightarrow> None
      | Some vs \<Rightarrow> map_option ((@) vs) (part_values b xs))" for x xs
      by (cases "parseRangePart x b") (simp_all add: o_def)
    show ?case unfolding list.map cons_eq [of "collapse_part b rs p" "map (collapse_part b rs) ps"]
        cons_eq [of p ps] part Cons.IH by (rule refl)
  qed simp
  show "part_values b (map (collapse_part b rs) parts) = None \<longleftrightarrow> part_values b parts = None"
    "part_values b parts = Some vs \<Longrightarrow> part_values b (map (collapse_part b rs) parts) = Some vs"
    by (simp_all add: all)
qed

definition field_values :: "field_bounds \<Rightarrow> jstr \<Rightarrow> nat set option" where
  "field_values b f = map_option set (part_values b (str_split CHR '','' f))"

lemma collapse_part_no_comma: "CHR '','' \<notin> set p \<Longrightarrow> CHR '','' \<notin> set (collapse_part b rs p)"
  by (auto simp: collapse_part_def numeral_plain split: option.splits)

lemma degenerate_values:
  assumes "bounds_ok b"
  shows "field_values b (collapseDegenerateRange f b rs) = field_values b f"
proof -
  let ?parts = "str_split CHR '','' f"
  have "str_split CHR '','' (collapseDegenerateRange f b rs) = map (collapse_part b rs) ?parts"
    unfolding collapseDegenerateRange_def
    by (rule str_split_join) (auto dest: str_split_parts collapse_part_no_comma)
  then show ?thesis
    using collapse_part_values [OF assms, where rs = rs and parts = ?parts]
    by (cases "part_values b ?parts") (simp_all add: field_values_def)
qed

lemma part_values_all:
  assumes "bounds_ok b" "\<forall>p \<in> set parts. parseRangePart p b \<noteq> None"
  shows "\<exists>vs. part_values b parts = Some vs \<and> set vs \<subseteq> {fb_min b..fb_max b}
    \<and> (\<forall>p \<in> set parts. \<forall>r. parseRangePart p b = Some r \<longrightarrow> set (step_values (rp_lo r) (rp_hi r) (rp_step r)) \<subseteq> set vs)"
  using assms(2)
proof (induction parts)
  case (Cons p ps)
  then obtain r vs where r: "parseRangePart p b = Some r" "part_values b ps = Some vs"
    "set vs \<subseteq> {fb_min b..fb_max b}"
    "\<forall>p \<in> set ps. \<forall>r. parseRangePart p b = Some r \<longrightarrow> set (step_values (rp_lo r) (rp_hi r) (rp_step r)) \<subseteq> set vs"
    by auto
  have "part_ok b r" by (rule parseRangePart_ok [OF assms(1) r(1)])
  then have "set (step_values (rp_lo r) (rp_hi r) (rp_step r)) \<subseteq> {fb_min b..fb_max b}"
    by (auto simp: set_step_values part_ok_def)
  with r show ?case by auto
qed simp

lemma wildcard_values:
  assumes b: "bounds_ok b"
  shows "field_values b (collapseWildcardList f b) = field_values b f"
proof (cases "collapseWildcardList f b = f")
  case False
  let ?parts = "str_split CHR '','' f"
  from False have ne: "\<forall>p \<in> set ?parts. parseRangePart p b \<noteq> None" and star: "collapseWildcardList f b = ''*''"
    and wild: "\<exists>p \<in> set ?parts. wildcard (the (parseRangePart p b)) \<and> rp_step (the (parseRangePart p b)) = 1"
    by (auto simp: collapseWildcardList_def Let_def list_ex_iff split: if_splits)
      (metis (no_types, lifting) image_iff option.exhaust)
  obtain vs where vs: "part_values b ?parts = Some vs" "set vs \<subseteq> {fb_min b..fb_max b}"
    "\<forall>p \<in> set ?parts. \<forall>r. parseRangePart p b = Some r \<longrightarrow> set (step_values (rp_lo r) (rp_hi r) (rp_step r)) \<subseteq> set vs"
    using part_values_all [OF b ne] by blast
  obtain p r where p: "p \<in> set ?parts" "parseRangePart p b = Some r" "wildcard r" "rp_step r = 1"
    using wild ne by (metis option.exhaust_sel)
  have "part_ok b r" by (rule parseRangePart_ok [OF b p(2)])
  with p have "{fb_min b..fb_max b} \<subseteq> set vs"
    using vs(3) by (fastforce simp: part_ok_def set_step_values)
  with vs have "field_values b f = Some {fb_min b..fb_max b}" by (auto simp: field_values_def)
  moreover have "field_values b ''*'' = Some {fb_min b..fb_max b}"
    by (auto simp: field_values_def parse_star set_step_values)
  ultimately show ?thesis by (simp add: star)
qed simp

section \<open>Properties\<close>

text \<open>C7: every schedule the structured editor can hold survives being written as a cron
  expression and read back, whatever zone the reader falls back to, provided the platform
  spells the schedule's zone the way the schedule does. The one thing that is lost is the firing
  minute that a pattern in minutes carries along unused, which is read back as 0.\<close>

theorem cron_roundtrip:
  assumes "config_ok c" "canonicalPickerZone (cfg_timezone c) = Some (cfg_timezone c)"
  shows "parseCron canonicalPickerZone (toCron c) tz = c\<lparr>cfg_time := forget_minute (cfg_time c)\<rparr>"
proof -
  have "canonical_config (c\<lparr>cfg_time := forget_minute (cfg_time c)\<rparr>)" using assms(1) by (simp add: config_ok_def)
  from cron_roundtrip_lemma [where c = "c\<lparr>cfg_time := forget_minute (cfg_time c)\<rparr>", OF this] assms(2)
  show ?thesis by (simp add: toCron_forget)
qed

definition example_config :: ScheduleConfig where
  "example_config =
     \<lparr>cfg_time = Every 2 Hours (Some \<lparr>win_from = ''09:30'', win_to = ''17:30''\<rparr>) 30,
      cfg_days = Weekly [1, 2, 3, 5], cfg_timezone = ''Asia/Tokyo'', cfg_raw = None\<rparr>"

lemma example_config_ok: "config_ok example_config"
  by code_simp

lemma cron_roundtrip_witness:
  "toCron example_config = ''TZ=Asia/Tokyo 30 9-17/2 * * 1-3,5'' \<and>
   parseCron Some (toCron example_config) ''UTC'' = example_config"
proof
  show "toCron example_config = ''TZ=Asia/Tokyo 30 9-17/2 * * 1-3,5''" by code_simp
  show "parseCron Some (toCron example_config) ''UTC'' = example_config"
    using cron_roundtrip [OF example_config_ok, of Some "''UTC''"] by (simp add: example_config_def forget_minute_def)
qed

text \<open>An expression the reader structures is read the same way after the editor has
  rewritten it: saving an untouched schedule is idempotent. The zone lookup of the platform is
  assumed to return names it knows itself, without spaces.\<close>

theorem cron_stable:
  assumes "\<forall>z z'. canonicalPickerZone z = Some z' \<longrightarrow>
      canonicalPickerZone z' = Some z' \<and> z' \<noteq> [] \<and> CHR '' '' \<notin> set z'"
    and "canonicalPickerZone tz = Some tz"
    and "cfg_raw (parseCron canonicalPickerZone e tz) = None"
  shows "parseCron canonicalPickerZone (toCron (parseCron canonicalPickerZone e tz)) tz'
    = parseCron canonicalPickerZone e tz"
proof -
  let ?c = "parseCron canonicalPickerZone e tz"
  have "\<exists>z. canonicalPickerZone z = Some (cfg_timezone ?c)"
    using assms(2)
    by (auto simp: parseCron_def extractTimezonePrefix_def getDefaultScheduleConfig_def Let_def
        split: option.splits prod.splits if_splits)
  then have zone: "canonicalPickerZone (cfg_timezone ?c) = Some (cfg_timezone ?c)"
      "cfg_timezone ?c \<noteq> []" "CHR '' '' \<notin> set (cfg_timezone ?c)"
    using assms(1) by blast+
  have "canonical_config ?c" using parse_structured [OF assms(3)] assms(3) zone by (simp add: canonical_config_def)
  then show ?thesis using zone(1) by (rule cron_roundtrip_lemma)
qed

definition example_zones :: "jstr \<Rightarrow> jstr option" where
  "example_zones z = (if z = ''asia/tokyo'' \<or> z = ''Asia/Tokyo'' then Some ''Asia/Tokyo''
     else if z = ''UTC'' then Some ''UTC'' else None)"

lemma cron_stable_witness:
  "parseCron example_zones (toCron (parseCron example_zones ''CRON_TZ=asia/tokyo +05,*  ? * * fri,MON-2'' ''UTC'')) ''UTC''
     = parseCron example_zones ''CRON_TZ=asia/tokyo +05,*  ? * * fri,MON-2'' ''UTC''"
  by (rule cron_stable) (simp_all add: example_zones_def, code_simp)

text \<open>A schedule the reader structures is one the editor can hold: times are clock times,
  intervals fit their unit, windows are ordered and never span the day, and day sets are
  non-empty, ascending and without duplicates.\<close>

theorem parse_yields_editor_schedule:
  assumes "cfg_raw (parseCron canonicalPickerZone e tz) = None"
  shows "time_ok (cfg_time (parseCron canonicalPickerZone e tz))
    \<and> days_ok (cfg_days (parseCron canonicalPickerZone e tz))"
  using assms by (rule parse_structured)

lemma parse_yields_editor_schedule_witness:
  "time_ok (cfg_time (parseCron Some ''*/15 9-9 * * *'' ''UTC''))"
  by (rule parse_yields_editor_schedule [THEN conjunct1]) code_simp

text \<open>Rewriting a field, wildcard lists and degenerate ranges alike, never changes which
  values it selects, nor whether the server would accept it.\<close>

theorem rewrites_select_same_values:
  assumes "b \<in> {MINUTE, HOUR, DOM, MONTH, DOW}"
  shows "field_values b (collapseDegenerateRange (collapseWildcardList f b) b rangeSlot) = field_values b f"
proof -
  have "bounds_ok b" using assms bounds_ok_fields by auto
  then show ?thesis by (simp add: degenerate_values wildcard_values)
qed

lemma rewrites_select_same_values_witness:
  "field_values MINUTE (collapseDegenerateRange (collapseWildcardList ''10-20/30,7'' MINUTE) MINUTE False)
     = field_values MINUTE ''10-20/30,7''
   \<and> collapseDegenerateRange (collapseWildcardList ''10-20/30,7'' MINUTE) MINUTE False = ''10,7''"
proof
  show "field_values MINUTE (collapseDegenerateRange (collapseWildcardList ''10-20/30,7'' MINUTE) MINUTE False)
     = field_values MINUTE ''10-20/30,7''"
    by (rule rewrites_select_same_values) simp
  show "collapseDegenerateRange (collapseWildcardList ''10-20/30,7'' MINUTE) MINUTE False = ''10,7''"
    by code_simp
qed

end
