(* ===== verification/Issue_Model.thy ===== *)
theory Issue_Model
  imports JS_Object Complex_Main
begin

text \<open>
  The issue entity and the per-status bucket cache of the web and desktop clients
  (\<open>packages/core/types/issue.ts\<close>, \<open>types/api.ts\<close>, \<open>issues/cache-helpers.ts\<close>,
  \<open>issues/surface/membership.ts\<close>). A \<open>Partial<Issue>\<close> has an option per field; \<open>None\<close> is an
  absent property, and a present one holds a value (never an explicit \<open>undefined\<close>). The
  fields no rule reads by name are kept in \<open>iss_other\<close>, where object-valued ones stand for
  their reference.
\<close>

section \<open>Issues\<close>

datatype IssueStatus = Backlog | Todo | InProgress | InReview | Done | Blocked | Cancelled

datatype IssuePriority = Urgent | High | Medium | Low | NoPriority

datatype IssueAssigneeType = AMember | AAgent | ASquad

record issue =
  iss_id :: jstr
  iss_title :: jstr
  iss_status :: IssueStatus
  iss_priority :: IssuePriority
  iss_assignee_type :: "IssueAssigneeType option"
  iss_assignee_id :: "jstr option"
  iss_creator_id :: jstr
  iss_parent_issue_id :: "jstr option"
  iss_project_id :: "jstr option"
  iss_position :: rat
  iss_start_date :: "jstr option"
  iss_due_date :: "jstr option"
  iss_created_at :: jstr
  iss_updated_at :: jstr
  iss_other :: "jstr jsobj"

text \<open>\<open>Partial<Issue>\<close>; the identifier of an issue is never patched.\<close>

record issue_patch =
  p_title :: "jstr option"
  p_status :: "IssueStatus option"
  p_priority :: "IssuePriority option"
  p_assignee_type :: "IssueAssigneeType option option"
  p_assignee_id :: "jstr option option"
  p_creator_id :: "jstr option"
  p_parent_issue_id :: "jstr option option"
  p_project_id :: "jstr option option"
  p_position :: "rat option"
  p_start_date :: "jstr option option"
  p_due_date :: "jstr option option"
  p_created_at :: "jstr option"
  p_updated_at :: "jstr option"
  p_other :: "jstr jsobj"

definition no_patch :: issue_patch where
  "no_patch = \<lparr>p_title = None, p_status = None, p_priority = None, p_assignee_type = None,
     p_assignee_id = None, p_creator_id = None, p_parent_issue_id = None, p_project_id = None,
     p_position = None, p_start_date = None, p_due_date = None, p_created_at = None,
     p_updated_at = None, p_other = []\<rparr>"

definition over :: "'a option \<Rightarrow> 'a \<Rightarrow> 'a" where
  "over new old = (case new of None \<Rightarrow> old | Some v \<Rightarrow> v)"

text \<open>\<open>{ ...issue, ...patch }\<close>.\<close>

definition merge_issue :: "issue \<Rightarrow> issue_patch \<Rightarrow> issue" where
  "merge_issue i p =
     \<lparr>iss_id = iss_id i,
      iss_title = over (p_title p) (iss_title i),
      iss_status = over (p_status p) (iss_status i),
      iss_priority = over (p_priority p) (iss_priority i),
      iss_assignee_type = over (p_assignee_type p) (iss_assignee_type i),
      iss_assignee_id = over (p_assignee_id p) (iss_assignee_id i),
      iss_creator_id = over (p_creator_id p) (iss_creator_id i),
      iss_parent_issue_id = over (p_parent_issue_id p) (iss_parent_issue_id i),
      iss_project_id = over (p_project_id p) (iss_project_id i),
      iss_position = over (p_position p) (iss_position i),
      iss_start_date = over (p_start_date p) (iss_start_date i),
      iss_due_date = over (p_due_date p) (iss_due_date i),
      iss_created_at = over (p_created_at p) (iss_created_at i),
      iss_updated_at = over (p_updated_at p) (iss_updated_at i),
      iss_other = obj_assign (iss_other i) (p_other p)\<rparr>"

section \<open>Buckets\<close>

record bucket =
  b_issues :: "issue list"
  b_total :: nat

type_synonym list_cache = "(IssueStatus, bucket) jsmap"

definition ALL_STATUSES :: "IssueStatus list" where
  "ALL_STATUSES = [Backlog, Todo, InProgress, InReview, Done, Blocked, Cancelled]"

definition PAGINATED_STATUSES :: "IssueStatus list" where
  "PAGINATED_STATUSES = ALL_STATUSES"

definition EMPTY_BUCKET :: bucket where
  "EMPTY_BUCKET = \<lparr>b_issues = [], b_total = 0\<rparr>"

definition getBucket :: "list_cache \<Rightarrow> IssueStatus \<Rightarrow> bucket" where
  "getBucket resp status = (case map_get resp status of None \<Rightarrow> EMPTY_BUCKET | Some b \<Rightarrow> b)"

definition setBucket :: "list_cache \<Rightarrow> IssueStatus \<Rightarrow> bucket \<Rightarrow> list_cache" where
  "setBucket resp status b = map_set status b resp"

definition find_in_bucket :: "list_cache \<Rightarrow> jstr \<Rightarrow> IssueStatus \<Rightarrow> issue option" where
  "find_in_bucket resp issueId status =
     (case map_get resp status of None \<Rightarrow> None | Some b \<Rightarrow> find (\<lambda>i. iss_id i = issueId) (b_issues b))"

fun find_in_statuses :: "list_cache \<Rightarrow> jstr \<Rightarrow> IssueStatus list \<Rightarrow> (IssueStatus \<times> issue) option" where
  "find_in_statuses resp issueId [] = None"
| "find_in_statuses resp issueId (status # rest) =
     (case find_in_bucket resp issueId status of
        Some found \<Rightarrow> Some (status, found)
      | None \<Rightarrow> find_in_statuses resp issueId rest)"

definition findIssueLocation :: "list_cache \<Rightarrow> jstr \<Rightarrow> (IssueStatus \<times> issue) option" where
  "findIssueLocation resp issueId = find_in_statuses resp issueId PAGINATED_STATUSES"

text \<open>
  The operations return the very object they were given when there is nothing to do, and the
  coordinator tests for that identity: \<open>None\<close> stands for the unchanged argument. Totals are
  naturals, so \<open>Math.max(0, total - 1)\<close> is truncated subtraction.
\<close>

definition addIssueToBuckets :: "list_cache \<Rightarrow> issue \<Rightarrow> list_cache option" where
  "addIssueToBuckets resp i =
     (let b = getBucket resp (iss_status i) in
      if list_ex (\<lambda>j. iss_id j = iss_id i) (b_issues b) then None
      else Some (setBucket resp (iss_status i) \<lparr>b_issues = b_issues b @ [i], b_total = b_total b + 1\<rparr>))"

definition removeIssueFromBuckets :: "list_cache \<Rightarrow> jstr \<Rightarrow> list_cache option" where
  "removeIssueFromBuckets resp issueId =
     (case findIssueLocation resp issueId of
        None \<Rightarrow> None
      | Some (status, _) \<Rightarrow>
          let b = getBucket resp status in
          Some (setBucket resp status
            \<lparr>b_issues = filter (\<lambda>i. iss_id i \<noteq> issueId) (b_issues b), b_total = b_total b - 1\<rparr>))"

definition moveBucketTotal :: "list_cache \<Rightarrow> IssueStatus \<Rightarrow> IssueStatus \<Rightarrow> list_cache option" where
  "moveBucketTotal resp src dst =
     (if src = dst then None
      else
        let fromBucket = getBucket resp src;
            toBucket = getBucket resp dst;
            nxt = setBucket resp src (fromBucket\<lparr>b_total := b_total fromBucket - 1\<rparr>)
        in Some (setBucket nxt dst (toBucket\<lparr>b_total := b_total toBucket + 1\<rparr>)))"

definition decrementBucketTotal :: "list_cache \<Rightarrow> IssueStatus \<Rightarrow> list_cache option" where
  "decrementBucketTotal resp status =
     (let b = getBucket resp status in Some (setBucket resp status (b\<lparr>b_total := b_total b - 1\<rparr>)))"

definition insertByPosition :: "issue list \<Rightarrow> issue \<Rightarrow> issue list" where
  "insertByPosition issues i =
     (case find_index (\<lambda>j. iss_position j > iss_position i) issues of
        None \<Rightarrow> issues @ [i]
      | Some idx \<Rightarrow> insert_nth idx i issues)"

definition patchIssueInBuckets :: "list_cache \<Rightarrow> jstr \<Rightarrow> issue_patch \<Rightarrow> list_cache option" where
  "patchIssueInBuckets resp issueId patch =
     (case findIssueLocation resp issueId of
        None \<Rightarrow> None
      | Some (status, found) \<Rightarrow>
          let merged = merge_issue found patch;
              nextStatus = over (p_status patch) status
          in if nextStatus = status
             then
               let b = getBucket resp status;
                   positionChanged = (p_position patch \<noteq> None \<and> the (p_position patch) \<noteq> iss_position found)
               in if \<not> positionChanged
                  then Some (setBucket resp status
                         (b\<lparr>b_issues := map (\<lambda>i. if iss_id i = issueId then merged else i) (b_issues b)\<rparr>))
                  else Some (setBucket resp status
                         (b\<lparr>b_issues := insertByPosition (filter (\<lambda>i. iss_id i \<noteq> issueId) (b_issues b)) merged\<rparr>))
             else
               let fromBucket = getBucket resp status;
                   toBucket = getBucket resp nextStatus;
                   nxt = setBucket resp status
                     \<lparr>b_issues = filter (\<lambda>i. iss_id i \<noteq> issueId) (b_issues fromBucket), b_total = b_total fromBucket - 1\<rparr>
               in Some (setBucket nxt nextStatus
                    \<lparr>b_issues = insertByPosition (b_issues toBucket) merged, b_total = b_total toBucket + 1\<rparr>))"

section \<open>Membership of filtered lists\<close>

text \<open>The filter and the sort bags of query keys; \<open>bag_rest\<close> stands for the fields no rule reads, and
  \<open>f_properties\<close> for the identifiers of the filtered custom properties.\<close>

record query_bag =
  f_assignee_id :: "jstr option"
  f_assignee_ids :: "jstr list option"
  f_assignee_types :: "IssueAssigneeType list option"
  f_creator_id :: "jstr option"
  f_project_id :: "jstr option"
  f_involves_user_id :: "jstr option"
  f_q :: "jstr option"
  f_statuses :: "IssueStatus list option"
  f_priorities :: "IssuePriority list option"
  f_assignee_filters :: "jstr list option"
  f_include_no_assignee :: bool
  f_project_ids :: "jstr list option"
  f_include_no_project :: bool
  f_top_level_only :: bool
  f_label_ids :: "jstr list option"
  f_properties :: "jstr list option"
  s_sort_by :: "jstr option"
  s_date_field :: "jstr option"
  bag_rest :: jstr

definition empty_bag :: query_bag where
  "empty_bag = \<lparr>f_assignee_id = None, f_assignee_ids = None, f_assignee_types = None,
     f_creator_id = None, f_project_id = None, f_involves_user_id = None, f_q = None,
     f_statuses = None, f_priorities = None, f_assignee_filters = None,
     f_include_no_assignee = False, f_project_ids = None, f_include_no_project = False,
     f_top_level_only = False, f_label_ids = None,
     f_properties = None, s_sort_by = None, s_date_field = None, bag_rest = []\<rparr>"

datatype IssueMembership = IsMember | NotMember | MemberUnknown

record IssueChangedDims =
  d_assignee :: bool
  d_project :: bool
  d_status :: bool

text \<open>The fields of a partial issue that decide membership.\<close>

record partial_issue =
  q_assignee_type :: "IssueAssigneeType option option"
  q_assignee_id :: "jstr option option"
  q_creator_id :: "jstr option"
  q_project_id :: "jstr option option"

definition partial_of_issue :: "issue \<Rightarrow> partial_issue" where
  "partial_of_issue i =
     \<lparr>q_assignee_type = Some (iss_assignee_type i), q_assignee_id = Some (iss_assignee_id i),
      q_creator_id = Some (iss_creator_id i), q_project_id = Some (iss_project_id i)\<rparr>"

definition later :: "'a option \<Rightarrow> 'a option \<Rightarrow> 'a option" where
  "later new old = (case new of None \<Rightarrow> old | Some v \<Rightarrow> Some v)"

text \<open>\<open>{ ...baseIssue, ...patch }\<close> with an optional base.\<close>

definition partial_merge :: "issue option \<Rightarrow> issue_patch \<Rightarrow> partial_issue" where
  "partial_merge base p =
     \<lparr>q_assignee_type = later (p_assignee_type p) (map_option iss_assignee_type base),
      q_assignee_id = later (p_assignee_id p) (map_option iss_assignee_id base),
      q_creator_id = later (p_creator_id p) (map_option iss_creator_id base),
      q_project_id = later (p_project_id p) (map_option iss_project_id base)\<rparr>"

text \<open>A field of the patch that is written, and differs from the base if there is one.\<close>

definition field_changed :: "'a option \<Rightarrow> 'a option \<Rightarrow> bool" where
  "field_changed new base = (case new of None \<Rightarrow> False | Some v \<Rightarrow> base \<noteq> Some v)"

definition issueChangedDims :: "issue_patch \<Rightarrow> issue option \<Rightarrow> IssueChangedDims" where
  "issueChangedDims p base =
     \<lparr>d_assignee = (field_changed (p_assignee_id p) (map_option iss_assignee_id base)
        \<or> field_changed (p_assignee_type p) (map_option iss_assignee_type base)),
      d_project = field_changed (p_project_id p) (map_option iss_project_id base),
      d_status = field_changed (p_status p) (map_option iss_status base)\<rparr>"

definition listFilterDependsOn :: "jstr option \<Rightarrow> query_bag \<Rightarrow> IssueChangedDims \<Rightarrow> bool" where
  "listFilterDependsOn scope f changed =
     (if scope = Some ''all'' then d_assignee changed
      else if d_assignee changed \<and> (f_assignee_id f \<noteq> None \<or> f_assignee_ids f \<noteq> None
             \<or> f_assignee_types f \<noteq> None \<or> f_involves_user_id f \<noteq> None) then True
      else if d_project changed \<and> f_project_id f \<noteq> None then True
      else False)"

text \<open>One filter field against one field of the issue: the test is \<open>None\<close> for an absent filter.\<close>

definition filter_field :: "('v \<Rightarrow> bool) option \<Rightarrow> 'v option \<Rightarrow> IssueMembership" where
  "filter_field test v =
     (case test of None \<Rightarrow> IsMember
      | Some ok \<Rightarrow> (case v of None \<Rightarrow> MemberUnknown | Some x \<Rightarrow> if ok x then IsMember else NotMember))"

text \<open>The verdicts of the fields in order: a definitive miss wins, then any uncertainty.\<close>

definition all_members :: "IssueMembership list \<Rightarrow> IssueMembership" where
  "all_members vs =
     (if list_ex (\<lambda>v. v = NotMember) vs then NotMember
      else if list_ex (\<lambda>v. v = MemberUnknown) vs then MemberUnknown else IsMember)"

definition issueMatchesListFilter :: "partial_issue \<Rightarrow> jstr option \<Rightarrow> query_bag \<Rightarrow> IssueMembership" where
  "issueMatchesListFilter i scope f =
     (if scope = Some ''all'' then MemberUnknown
      else all_members
        [filter_field (map_option (\<lambda>a v. v = Some a) (f_assignee_id f)) (q_assignee_id i),
         filter_field (map_option (\<lambda>ids v. (case v of None \<Rightarrow> False | Some a \<Rightarrow> a \<in> set ids)) (f_assignee_ids f))
           (q_assignee_id i),
         filter_field (map_option (\<lambda>types v. (case v of None \<Rightarrow> False | Some t \<Rightarrow> t \<in> set types)) (f_assignee_types f))
           (q_assignee_type i),
         filter_field (map_option (\<lambda>c v. v = c) (f_creator_id f)) (q_creator_id i),
         filter_field (map_option (\<lambda>p v. v = Some p) (f_project_id f)) (q_project_id i),
         (if f_involves_user_id f \<noteq> None then MemberUnknown else IsMember)])"

end
