(* ===== verification/Issue_Cache.thy ===== *)
theory Issue_Cache
  imports Issue_Model
begin

text \<open>
  The issue cache coordinator (\<open>packages/core/issues/cache-coordinator.ts\<close>): how one issue
  change propagates through the query cache, and how it is rolled back. The query client is
  third-party code (\<open>@tanstack/react-query\<close>); the definitions take the operations the code
  calls as a record of functions, and \<open>query_client_ok\<close> states what is documented about them.
\<close>

section \<open>Query keys and cached data\<close>

datatype key_part = KStr jstr | KBag query_bag | KList "jstr list" | KNull | KOther jstr

type_synonym query_key = "key_part list"

definition issue_all :: "jstr \<Rightarrow> query_key" where
  "issue_all ws = [KStr ''issues'', KStr ws]"

definition issue_list :: "jstr \<Rightarrow> query_key" where
  "issue_list ws = issue_all ws @ [KStr ''list'']"

definition issue_flatAll :: "jstr \<Rightarrow> query_key" where
  "issue_flatAll ws = issue_all ws @ [KStr ''flat'']"

definition issue_tableAll :: "jstr \<Rightarrow> query_key" where
  "issue_tableAll ws = issue_all ws @ [KStr ''table-query'']"

definition issue_myAll :: "jstr \<Rightarrow> query_key" where
  "issue_myAll ws = issue_all ws @ [KStr ''my'']"

definition issue_listSorted :: "jstr \<Rightarrow> query_bag \<Rightarrow> query_key" where
  "issue_listSorted ws srt = issue_list ws @ [KBag srt]"

definition issue_myListSorted :: "jstr \<Rightarrow> jstr \<Rightarrow> query_bag \<Rightarrow> query_bag \<Rightarrow> query_key" where
  "issue_myListSorted ws scope f srt = issue_myAll ws @ [KStr scope, KBag f, KBag srt]"

definition issue_flat :: "jstr \<Rightarrow> jstr \<Rightarrow> query_bag \<Rightarrow> query_bag \<Rightarrow> query_key" where
  "issue_flat ws scope f srt = issue_flatAll ws @ [KStr scope, KBag f, KBag srt]"

definition issue_detail :: "jstr \<Rightarrow> jstr \<Rightarrow> query_key" where
  "issue_detail ws issueId = issue_all ws @ [KStr ''detail'', KStr issueId]"

definition inbox_list :: "jstr \<Rightarrow> query_key" where
  "inbox_list ws = [KStr ''inbox'', KStr ws, KStr ''list'']"

definition inbox_archived :: "jstr \<Rightarrow> query_key" where
  "inbox_archived ws = [KStr ''inbox'', KStr ws, KStr ''archived'']"

lemmas key_defs = issue_all_def issue_list_def issue_flatAll_def issue_tableAll_def issue_myAll_def
  issue_listSorted_def issue_myListSorted_def issue_flat_def issue_detail_def inbox_list_def inbox_archived_def

record flat_page =
  fp_issues :: "issue list"
  fp_total :: nat

record table_row =
  tr_issue :: issue
  tr_direct_child_count :: nat

record inbox_item =
  ib_id :: jstr
  ib_issue_id :: "jstr option"
  ib_issue_status :: "IssueStatus option"
  ib_read :: bool
  ib_archived :: bool
  ib_created_at :: jstr
  ib_comment_id :: "jstr option"
  ib_rest :: jstr

text \<open>What the cache holds under a key: the shape tests of the code are the constructors.\<close>

datatype cache_data =
    DBuckets list_cache
  | DFlat "flat_page list" jstr
  | DTable "table_row list" jstr
  | DIssue issue
  | DIssueList "issue list"
  | DInbox "inbox_item list"
  | DLabels jstr jstr
  | DOther jstr

section \<open>The query client\<close>

record 'q query_client =
  getQueryData :: "'q \<Rightarrow> query_key \<Rightarrow> cache_data option"
  setQueryData :: "query_key \<Rightarrow> cache_data \<Rightarrow> 'q \<Rightarrow> 'q"
  getQueriesData :: "query_key \<Rightarrow> 'q \<Rightarrow> (query_key \<times> cache_data option) list"

definition query_client_ok :: "'q query_client \<Rightarrow> bool" where
  "query_client_ok qc =
     ((\<forall>q k d k'. getQueryData qc (setQueryData qc k d q) k' = (if k' = k then Some d else getQueryData qc q k'))
      \<and> (\<forall>q p. distinct (map fst (getQueriesData qc p q)))
      \<and> (\<forall>q p k d. (k, d) \<in> set (getQueriesData qc p q) \<longrightarrow> prefix p k \<and> d = getQueryData qc q k)
      \<and> (\<forall>q p k. prefix p k \<longrightarrow> getQueryData qc q k \<noteq> None \<longrightarrow> (k, getQueryData qc q k) \<in> set (getQueriesData qc p q)))"

section \<open>Contracts of list keys\<close>

definition nth_part :: "query_key \<Rightarrow> nat \<Rightarrow> key_part option" where
  "nth_part key n = (if n < length key then Some (key ! n) else None)"

text \<open>\<open>(key[n] ?? {})\<close> read as a bag: a part that is not an object has none of its fields.\<close>

definition part_bag :: "key_part option \<Rightarrow> query_bag" where
  "part_bag p = (case p of Some (KBag b) \<Rightarrow> b | _ \<Rightarrow> empty_bag)"

definition part_scope :: "key_part option \<Rightarrow> jstr option" where
  "part_scope p = (case p of Some (KStr s) \<Rightarrow> Some s | _ \<Rightarrow> None)"

definition listContractFromKey :: "query_key \<Rightarrow> jstr option \<times> query_bag \<times> query_bag" where
  "listContractFromKey key =
     (if nth_part key 2 = Some (KStr ''my'')
      then (part_scope (nth_part key 3), part_bag (nth_part key 4), part_bag (nth_part key 5))
      else (None, empty_bag, part_bag (nth_part key 3)))"

definition flatContractFromKey :: "query_key \<Rightarrow> jstr option \<times> query_bag \<times> query_bag" where
  "flatContractFromKey key =
     (part_scope (nth_part key 3), part_bag (nth_part key 4), part_bag (nth_part key 5))"

definition bucketedListEntries :: "'q query_client \<Rightarrow> jstr \<Rightarrow> 'q \<Rightarrow> (query_key \<times> list_cache) list" where
  "bucketedListEntries qc ws q =
     List.map_filter (\<lambda>(key, d). case d of Some (DBuckets c) \<Rightarrow> Some (key, c) | _ \<Rightarrow> None)
       (getQueriesData qc (issue_list ws) q @ getQueriesData qc (issue_myAll ws) q)"

definition flatListEntries :: "'q query_client \<Rightarrow> jstr \<Rightarrow> 'q \<Rightarrow> (query_key \<times> flat_page list \<times> jstr) list" where
  "flatListEntries qc ws q =
     List.map_filter (\<lambda>(key, d). case d of Some (DFlat pages rest) \<Rightarrow> Some (key, pages, rest) | _ \<Rightarrow> None)
       (getQueriesData qc (issue_flatAll ws) q)"

definition tableRowEntries :: "'q query_client \<Rightarrow> jstr \<Rightarrow> 'q \<Rightarrow> (query_key \<times> table_row list \<times> jstr) list" where
  "tableRowEntries qc ws q =
     List.map_filter (\<lambda>(key, d). case d of Some (DTable rows rest) \<Rightarrow> Some (key, rows, rest) | _ \<Rightarrow> None)
       (getQueriesData qc (issue_tableAll ws) q)"

section \<open>What a patch changes\<close>

definition patchChangesAnyIssueField :: "issue_patch \<Rightarrow> issue option \<Rightarrow> bool" where
  "patchChangesAnyIssueField p base =
     (field_changed (p_title p) (map_option iss_title base)
      \<or> field_changed (p_status p) (map_option iss_status base)
      \<or> field_changed (p_priority p) (map_option iss_priority base)
      \<or> field_changed (p_assignee_type p) (map_option iss_assignee_type base)
      \<or> field_changed (p_assignee_id p) (map_option iss_assignee_id base)
      \<or> field_changed (p_creator_id p) (map_option iss_creator_id base)
      \<or> field_changed (p_parent_issue_id p) (map_option iss_parent_issue_id base)
      \<or> field_changed (p_project_id p) (map_option iss_project_id base)
      \<or> field_changed (p_position p) (map_option iss_position base)
      \<or> field_changed (p_start_date p) (map_option iss_start_date base)
      \<or> field_changed (p_due_date p) (map_option iss_due_date base)
      \<or> field_changed (p_created_at p) (map_option iss_created_at base)
      \<or> field_changed (p_updated_at p) (map_option iss_updated_at base)
      \<or> list_ex (\<lambda>(k, v). case base of None \<Rightarrow> True | Some b \<Rightarrow> obj_get (iss_other b) k \<noteq> Some v) (p_other p))"

text \<open>\<open>(xs?.length ?? 0) > 0\<close>, and the truth of an optional string.\<close>

definition some_items :: "'a list option \<Rightarrow> bool" where
  "some_items xs = (case xs of None \<Rightarrow> False | Some ys \<Rightarrow> ys \<noteq> [])"

definition flatWindowNeedsReconcile ::
    "query_key \<Rightarrow> issue_patch \<Rightarrow> issue option \<Rightarrow> IssueChangedDims \<Rightarrow> bool" where
  "flatWindowNeedsReconcile key p base changed =
     (let (scope, f, srt) = flatContractFromKey key;
          anyIssueFieldChanged = patchChangesAnyIssueField p base;
          titleChanged = field_changed (p_title p) (map_option iss_title base);
          priorityChanged = field_changed (p_priority p) (map_option iss_priority base);
          createdChanged = field_changed (p_created_at p) (map_option iss_created_at base)
      in if listFilterDependsOn scope f changed then True
         else if some_items (f_q f) \<and> titleChanged then True
         else if d_status changed \<and> some_items (f_statuses f) then True
         else if priorityChanged \<and> some_items (f_priorities f) then True
         else if d_assignee changed \<and> (some_items (f_assignee_filters f) \<or> f_include_no_assignee f) then True
         else if d_project changed \<and> (some_items (f_project_ids f) \<or> f_include_no_project f) then True
         else if field_changed (p_parent_issue_id p) (map_option iss_parent_issue_id base) \<and> f_top_level_only f then True
         else if s_date_field srt = Some ''updated_at'' \<and> anyIssueFieldChanged then True
         else if s_date_field srt = Some ''created_at'' \<and> createdChanged then True
         else
           let by = (case s_sort_by srt of None \<Rightarrow> ''position'' | Some b \<Rightarrow> b) in
           if by = ''title'' then titleChanged
           else if by = ''status'' then d_status changed
           else if by = ''priority'' then priorityChanged
           else if by = ''created_at'' then createdChanged
           else if by = ''updated_at'' then anyIssueFieldChanged
           else if by = ''start_date'' then field_changed (p_start_date p) (map_option iss_start_date base)
           else if by = ''due_date'' then field_changed (p_due_date p) (map_option iss_due_date base)
           else if by = ''position'' then field_changed (p_position p) (map_option iss_position base)
           else False)"

section \<open>One bucketed list\<close>

text \<open>
  The body of the loop over bucketed lists: the cache to write, if any, and how often the key
  is marked stale (once per \<open>push\<close>).
\<close>

definition reconcile_present ::
    "jstr \<Rightarrow> issue_patch \<Rightarrow> jstr option \<Rightarrow> query_bag \<Rightarrow> bool \<Rightarrow> list_cache \<Rightarrow> issue \<Rightarrow> list_cache option \<times> bool" where
  "reconcile_present issueId p scope f filterTouched data found =
     (if filterTouched
      then (case issueMatchesListFilter (partial_merge (Some found) p) scope f of
              NotMember \<Rightarrow> (removeIssueFromBuckets data issueId, False)
            | MemberUnknown \<Rightarrow> (patchIssueInBuckets data issueId p, True)
            | IsMember \<Rightarrow> (patchIssueInBuckets data issueId p, False))
      else (patchIssueInBuckets data issueId p, False))"

definition reconcile_absent ::
    "issue_patch \<Rightarrow> IssueChangedDims \<Rightarrow> issue option \<Rightarrow> jstr option \<Rightarrow> query_bag \<Rightarrow> bool \<Rightarrow> list_cache
     \<Rightarrow> list_cache option \<times> bool" where
  "reconcile_absent p changed base scope f filterTouched data =
     (if \<not> filterTouched \<and> \<not> d_status changed then (None, False)
      else
        let wasMember = (case base of Some b \<Rightarrow> issueMatchesListFilter (partial_of_issue b) scope f
                         | None \<Rightarrow> MemberUnknown);
            isMember = issueMatchesListFilter (partial_merge base p) scope f
        in if wasMember = NotMember \<and> isMember = NotMember then (None, False)
           else if wasMember = IsMember \<and> base \<noteq> None \<and> isMember = IsMember
           then (if \<not> d_status changed \<or> p_status p = None then (None, False)
                 else (case moveBucketTotal data (iss_status (the base)) (the (p_status p)) of
                         None \<Rightarrow> (None, False)
                       | Some nxt \<Rightarrow> (Some nxt, True)))
           else if wasMember = IsMember \<and> base \<noteq> None \<and> isMember = NotMember
           then (decrementBucketTotal data (iss_status (the base)), False)
           else (None, True))"

definition reconcile_list ::
    "jstr \<Rightarrow> issue_patch \<Rightarrow> IssueChangedDims \<Rightarrow> issue option \<Rightarrow> query_key \<Rightarrow> list_cache
     \<Rightarrow> list_cache option \<times> query_key list" where
  "reconcile_list issueId p changed base key data =
     (let (scope, f, srt) = listContractFromKey key;
          loc = findIssueLocation data issueId;
          filterTouched = listFilterDependsOn scope f changed;
          resorted = (s_sort_by srt = Some ''updated_at'' \<and>
                      patchChangesAnyIssueField p (case loc of Some (_, i) \<Rightarrow> Some i | None \<Rightarrow> base));
          (nxt, stale) = (case loc of
                            Some (_, found) \<Rightarrow> reconcile_present issueId p scope f filterTouched data found
                          | None \<Rightarrow> reconcile_absent p changed base scope f filterTouched data)
      in (nxt, (if resorted then [key] else []) @ (if stale then [key] else [])))"

section \<open>The whole change\<close>

record 'q change =
  ch_client :: 'q
  prevLists :: "(query_key \<times> list_cache) list"
  prevFlatLists :: "(query_key \<times> flat_page list \<times> jstr) list"
  prevTableRows :: "(query_key \<times> table_row list \<times> jstr) list"
  prevDetail :: "issue option"
  prevInboxList :: "inbox_item list option"
  staleKeys :: "query_key list"
  prevIssue :: "issue option"

definition first_known :: "'a option \<Rightarrow> 'a option \<Rightarrow> 'a option" where
  "first_known a b = (case a of None \<Rightarrow> b | Some v \<Rightarrow> Some v)"

definition change_list ::
    "'q query_client \<Rightarrow> jstr \<Rightarrow> issue_patch \<Rightarrow> IssueChangedDims \<Rightarrow> issue option
     \<Rightarrow> query_key \<times> list_cache \<Rightarrow> 'q change \<Rightarrow> 'q change" where
  "change_list qc issueId p changed base entry ch =
     (let (key, data) = entry;
          (nxt, stale) = reconcile_list issueId p changed base key data;
          ch1 = ch\<lparr>staleKeys := staleKeys ch @ stale,
                   prevIssue := first_known (prevIssue ch) (map_option snd (findIssueLocation data issueId))\<rparr>
      in case nxt of
           None \<Rightarrow> ch1
         | Some c \<Rightarrow> ch1\<lparr>prevLists := prevLists ch1 @ [(key, data)],
                         ch_client := setQueryData qc key (DBuckets c) (ch_client ch1)\<rparr>)"

text \<open>The last row with the identifier, as the \<open>map\<close> callback leaves it in \<open>found\<close>.\<close>

definition found_in :: "jstr \<Rightarrow> issue list \<Rightarrow> issue option" where
  "found_in issueId issues =
     (case rev (filter (\<lambda>i. iss_id i = issueId) issues) of [] \<Rightarrow> None | i # _ \<Rightarrow> Some i)"

definition patch_row :: "jstr \<Rightarrow> issue_patch \<Rightarrow> issue \<Rightarrow> issue" where
  "patch_row issueId p i = (if iss_id i \<noteq> issueId then i else merge_issue i p)"

definition change_flat ::
    "'q query_client \<Rightarrow> jstr \<Rightarrow> issue_patch \<Rightarrow> IssueChangedDims \<Rightarrow> issue option
     \<Rightarrow> query_key \<times> flat_page list \<times> jstr \<Rightarrow> 'q change \<Rightarrow> 'q change" where
  "change_flat qc issueId p changed base entry ch =
     (let (key, pages, rest) = entry;
          pages' = map (\<lambda>page. page\<lparr>fp_issues := map (patch_row issueId p) (fp_issues page)\<rparr>) pages;
          found = found_in issueId (concat (map fp_issues pages));
          ch1 = (if found = None then ch
                 else ch\<lparr>prevIssue := first_known (prevIssue ch) found,
                         prevFlatLists := prevFlatLists ch @ [(key, pages, rest)],
                         ch_client := setQueryData qc key (DFlat pages' rest) (ch_client ch)\<rparr>)
      in if flatWindowNeedsReconcile key p (first_known found base) changed
         then ch1\<lparr>staleKeys := staleKeys ch1 @ [key]\<rparr> else ch1)"

definition change_table ::
    "'q query_client \<Rightarrow> jstr \<Rightarrow> issue_patch \<Rightarrow> query_key \<times> table_row list \<times> jstr \<Rightarrow> 'q change \<Rightarrow> 'q change" where
  "change_table qc issueId p entry ch =
     (let (key, rows, rest) = entry;
          rows' = map (\<lambda>row. row\<lparr>tr_issue := patch_row issueId p (tr_issue row)\<rparr>) rows;
          found = found_in issueId (map tr_issue rows)
      in if found = None then ch
         else ch\<lparr>prevIssue := first_known (prevIssue ch) found,
                 prevTableRows := prevTableRows ch @ [(key, rows, rest)],
                 ch_client := setQueryData qc key (DTable rows' rest) (ch_client ch)\<rparr>)"

definition change_detail :: "'q query_client \<Rightarrow> jstr \<Rightarrow> jstr \<Rightarrow> issue_patch \<Rightarrow> 'q change \<Rightarrow> 'q change" where
  "change_detail qc ws issueId p ch =
     (case getQueryData qc (ch_client ch) (issue_detail ws issueId) of
        Some (DIssue i) \<Rightarrow>
          ch\<lparr>prevDetail := Some i,
             ch_client := setQueryData qc (issue_detail ws issueId) (DIssue (merge_issue i p)) (ch_client ch),
             prevIssue := first_known (prevIssue ch) (Some i)\<rparr>
      | _ \<Rightarrow> ch)"

text \<open>\<open>patchInboxIssueStatus\<close> of \<open>inbox/ws-updaters.ts\<close>: both lists, where they are loaded.\<close>

definition patch_inbox :: "jstr \<Rightarrow> IssueStatus \<Rightarrow> inbox_item list \<Rightarrow> inbox_item list" where
  "patch_inbox issueId status items =
     map (\<lambda>i. if ib_issue_id i = Some issueId then i\<lparr>ib_issue_status := Some status\<rparr> else i) items"

definition update_inbox :: "'q query_client \<Rightarrow> (inbox_item list \<Rightarrow> inbox_item list) \<Rightarrow> query_key \<Rightarrow> 'q \<Rightarrow> 'q" where
  "update_inbox qc f key q =
     (case getQueryData qc q key of Some (DInbox items) \<Rightarrow> setQueryData qc key (DInbox (f items)) q | _ \<Rightarrow> q)"

definition patchInboxIssueStatus :: "'q query_client \<Rightarrow> jstr \<Rightarrow> jstr \<Rightarrow> IssueStatus \<Rightarrow> 'q \<Rightarrow> 'q" where
  "patchInboxIssueStatus qc ws issueId status q =
     update_inbox qc (patch_inbox issueId status) (inbox_archived ws)
       (update_inbox qc (patch_inbox issueId status) (inbox_list ws) q)"

definition change_inbox :: "'q query_client \<Rightarrow> jstr \<Rightarrow> jstr \<Rightarrow> issue_patch \<Rightarrow> 'q change \<Rightarrow> 'q change" where
  "change_inbox qc ws issueId p ch =
     (case p_status p of
        None \<Rightarrow> ch
      | Some status \<Rightarrow>
          (case getQueryData qc (ch_client ch) (inbox_list ws) of
             Some (DInbox items) \<Rightarrow>
               ch\<lparr>prevInboxList := Some items,
                  ch_client := patchInboxIssueStatus qc ws issueId status (ch_client ch)\<rparr>
           | _ \<Rightarrow> ch))"

definition change_start :: "issue option \<Rightarrow> 'q \<Rightarrow> 'q change" where
  "change_start base q =
     \<lparr>ch_client = q, prevLists = [], prevFlatLists = [], prevTableRows = [], prevDetail = None,
      prevInboxList = None, staleKeys = [], prevIssue = base\<rparr>"

definition applyIssueChange ::
    "'q query_client \<Rightarrow> jstr \<Rightarrow> jstr \<Rightarrow> issue_patch \<Rightarrow> IssueChangedDims \<Rightarrow> issue option \<Rightarrow> 'q \<Rightarrow> 'q change" where
  "applyIssueChange qc ws issueId p changed base q =
     (let ch1 = fold (change_list qc issueId p changed base) (bucketedListEntries qc ws q) (change_start base q);
          ch2 = fold (change_flat qc issueId p changed base) (flatListEntries qc ws (ch_client ch1)) ch1;
          ch3 = fold (change_table qc issueId p) (tableRowEntries qc ws (ch_client ch2)) ch2
      in change_inbox qc ws issueId p (change_detail qc ws issueId p ch3))"

definition rollbackIssueChange :: "'q query_client \<Rightarrow> jstr \<Rightarrow> jstr \<Rightarrow> 'q change \<Rightarrow> 'q \<Rightarrow> 'q" where
  "rollbackIssueChange qc ws issueId ch q =
     (let q1 = fold (\<lambda>(key, data). setQueryData qc key (DBuckets data)) (prevLists ch) q;
          q2 = fold (\<lambda>(key, pages, rest). setQueryData qc key (DFlat pages rest)) (prevFlatLists ch) q1;
          q3 = fold (\<lambda>(key, rows, rest). setQueryData qc key (DTable rows rest)) (prevTableRows ch) q2;
          q4 = (case prevDetail ch of None \<Rightarrow> q3
                | Some i \<Rightarrow> setQueryData qc (issue_detail ws issueId) (DIssue i) q3)
      in case prevInboxList ch of None \<Rightarrow> q4
         | Some items \<Rightarrow> setQueryData qc (inbox_list ws) (DInbox items) q4)"

end
