(* ===== verification/Issue_Coherence.thy ===== *)
theory Issue_Coherence
  imports Issue_Cache
begin

text \<open>
  When is a bucketed list cache right? Against the server's issues and the list's membership
  predicate, every loaded row is a current member with its bucket's status, and every bucket
  total is the number of such members. This theory shows that reconciling one list with an
  issue change keeps it right or marks its key stale.
\<close>

section \<open>Locating an issue\<close>

lemma getBucket_set: "getBucket (setBucket c s b) s' = (if s' = s then b else getBucket c s')"
  by (simp add: getBucket_def setBucket_def map_get_set)

lemma all_statuses: "s \<in> set PAGINATED_STATUSES"
  by (cases s) (simp_all add: PAGINATED_STATUSES_def ALL_STATUSES_def)

lemma find_in_bucket_get: "find_in_bucket c k s = find (\<lambda>i. iss_id i = k) (b_issues (getBucket c s))"
  by (simp add: find_in_bucket_def getBucket_def EMPTY_BUCKET_def split: option.splits)

lemma find_in_statuses_Some:
  "find_in_statuses c k ss = Some (s, i) \<Longrightarrow> i \<in> set (b_issues (getBucket c s)) \<and> iss_id i = k"
  by (induction ss) (auto simp: find_in_bucket_get dest: find_in_set split: option.splits)

lemma find_in_statuses_None:
  "find_in_statuses c k ss = None \<Longrightarrow> s \<in> set ss \<Longrightarrow> i \<in> set (b_issues (getBucket c s)) \<Longrightarrow> iss_id i \<noteq> k"
  by (induction ss) (auto simp: find_in_bucket_get find_None_iff split: option.splits)

lemma location_Some:
  "findIssueLocation c k = Some (s, i) \<Longrightarrow> i \<in> set (b_issues (getBucket c s)) \<and> iss_id i = k"
  unfolding findIssueLocation_def by (rule find_in_statuses_Some)

lemma location_None:
  "findIssueLocation c k = None \<Longrightarrow> i \<in> set (b_issues (getBucket c s)) \<Longrightarrow> iss_id i \<noteq> k"
  unfolding findIssueLocation_def using all_statuses by (blast dest: find_in_statuses_None)

section \<open>Position slots\<close>

lemma mset_insertByPosition: "mset (insertByPosition xs i) = add_mset i (mset xs)"
  by (simp add: insertByPosition_def mset_insert_nth split: option.splits)

lemma set_insertByPosition: "set (insertByPosition xs i) = insert i (set xs)"
proof -
  have "set_mset (mset (insertByPosition xs i)) = insert i (set xs)" by (simp add: mset_insertByPosition)
  then show ?thesis by simp
qed

lemma insertByPosition_sorted:
  assumes "sorted (map iss_position xs)"
  shows "sorted (map iss_position (insertByPosition xs i))"
proof (cases "find_index (\<lambda>j. iss_position j > iss_position i) xs")
  case None
  then have "\<forall>j \<in> set xs. iss_position j \<le> iss_position i"
    by (force simp: find_index_None)
  with assms None show ?thesis by (simp add: insertByPosition_def sorted_append)
next
  case (Some n)
  from find_index_Some [OF Some] have n: "n < length xs" "iss_position (xs ! n) > iss_position i"
    "\<forall>j < n. iss_position (xs ! j) \<le> iss_position i" by auto
  have split: "sorted (map iss_position (take n xs))" "sorted (map iss_position (drop n xs))"
    using assms by (simp_all add: sorted_wrt_take sorted_wrt_drop flip: take_map drop_map)
  have low: "\<forall>j \<in> set (take n xs). iss_position j \<le> iss_position i"
    using n by (auto simp: in_set_conv_nth)
  have high: "\<forall>j \<in> set (drop n xs). iss_position i \<le> iss_position j"
  proof
    fix j assume "j \<in> set (drop n xs)"
    then obtain m where "m < length xs - n" "j = xs ! (n + m)" by (auto simp: in_set_conv_nth)
    then have "iss_position (xs ! n) \<le> iss_position j"
      using sorted_nth_mono [OF assms, of n "n + m"] by simp
    with n(2) show "iss_position i \<le> iss_position j" by simp
  qed
  have "\<forall>a \<in> set (take n xs). \<forall>b \<in> set (drop n xs). iss_position a \<le> iss_position b"
    using low high by (meson order_trans)
  with split low high Some show ?thesis
    by (simp add: insertByPosition_def insert_nth_def sorted_append)
qed

section \<open>The server's issues\<close>

definition accurate_bucket :: "issue list \<Rightarrow> (issue \<Rightarrow> bool) \<Rightarrow> IssueStatus \<Rightarrow> bucket \<Rightarrow> bool" where
  "accurate_bucket db mem s b =
     (set (b_issues b) \<subseteq> {i \<in> set db. mem i \<and> iss_status i = s}
      \<and> distinct (map iss_id (b_issues b))
      \<and> b_total b = length (filter (\<lambda>i. mem i \<and> iss_status i = s) db))"

definition accurate :: "issue list \<Rightarrow> (issue \<Rightarrow> bool) \<Rightarrow> list_cache \<Rightarrow> bool" where
  "accurate db mem c = list_all (\<lambda>s. accurate_bucket db mem s (getBucket c s)) ALL_STATUSES"

lemma accurate_all: "accurate db mem c \<longleftrightarrow> (\<forall>s. accurate_bucket db mem s (getBucket c s))"
  using all_statuses by (auto simp: accurate_def list_all_iff PAGINATED_STATUSES_def)

text \<open>The server's issues after the change.\<close>

definition server_patch :: "jstr \<Rightarrow> issue_patch \<Rightarrow> issue list \<Rightarrow> issue list" where
  "server_patch k p db = map (patch_row k p) db"

lemma merge_id [simp]: "iss_id (merge_issue i p) = iss_id i"
  by (simp add: merge_issue_def)

lemma merge_status: "iss_status (merge_issue i p) = over (p_status p) (iss_status i)"
  by (simp add: merge_issue_def)

lemma patch_row_id [simp]: "iss_id (patch_row k p i) = iss_id i"
  by (simp add: patch_row_def)

lemma count_patch:
  assumes "distinct (map iss_id db)" "old \<in> set db" "iss_id old = k"
  shows "length (filter P (server_patch k p db)) + (if P old then 1 else 0)
    = length (filter P db) + (if P (merge_issue old p) then 1 else 0)"
proof -
  obtain xs ys where db: "db = xs @ old # ys" using assms(2) by (meson split_list)
  have ne: "iss_id i \<noteq> k" if "i \<in> set xs \<or> i \<in> set ys" for i
    using assms(1,3) that unfolding db by (auto simp: rev_image_eqI)
  then have "map (patch_row k p) xs = xs" "map (patch_row k p) ys = ys"
    by (auto intro!: map_idI simp: patch_row_def)
  then have "server_patch k p db = xs @ merge_issue old p # ys"
    by (simp add: server_patch_def db patch_row_def assms(3))
  then show ?thesis by (simp add: db)
qed

lemma set_server_patch:
  assumes "distinct (map iss_id db)" "old \<in> set db" "iss_id old = k"
  shows "set (server_patch k p db) = insert (merge_issue old p) (set db - {old})"
proof -
  have "patch_row k p i = i" if "i \<in> set db" "i \<noteq> old" for i
    using assms that by (auto simp: patch_row_def distinct_map inj_on_def)
  then have "patch_row k p ` (set db - {old}) = set db - {old}" by (auto simp: image_iff)
  moreover have "patch_row k p old = merge_issue old p" using assms(3) by (simp add: patch_row_def)
  moreover have "set db = insert old (set db - {old})" using assms(2) by blast
  ultimately show ?thesis unfolding server_patch_def by (metis image_insert list.set_map)
qed

text \<open>One bucket across the change: its rows lose the old entity and may gain the new one.\<close>

lemma bucket_step:
  assumes db: "distinct (map iss_id db)" "old \<in> set db" "iss_id old = k"
    and acc: "accurate_bucket db mem s b"
    and rows: "set rows \<subseteq> (set (b_issues b) - {old})
      \<union> (if mem (merge_issue old p) \<and> iss_status (merge_issue old p) = s then {merge_issue old p} else {})"
    and ids: "distinct (map iss_id rows)"
    and count: "tot + (if mem old \<and> iss_status old = s then 1 else 0)
      = b_total b + (if mem (merge_issue old p) \<and> iss_status (merge_issue old p) = s then 1 else 0)"
  shows "accurate_bucket (server_patch k p db) mem s \<lparr>b_issues = rows, b_total = tot\<rparr>"
proof -
  have "set rows \<subseteq> {i \<in> set (server_patch k p db). mem i \<and> iss_status i = s}"
    using rows acc unfolding set_server_patch [OF db] accurate_bucket_def by (auto split: if_splits)
  moreover have "tot = length (filter (\<lambda>i. mem i \<and> iss_status i = s) (server_patch k p db))"
    using count acc count_patch [OF db, of "\<lambda>i. mem i \<and> iss_status i = s" p]
    by (auto simp: accurate_bucket_def split: if_splits)
  ultimately show ?thesis using ids by (simp add: accurate_bucket_def)
qed

text \<open>A bucket the change does not concern.\<close>

lemma bucket_keep:
  assumes "distinct (map iss_id db)" "old \<in> set db" "iss_id old = k"
    and "accurate_bucket db mem s b" "old \<notin> set (b_issues b)"
    and "(mem old \<and> iss_status old = s) = (mem (merge_issue old p) \<and> iss_status (merge_issue old p) = s)"
  shows "accurate_bucket (server_patch k p db) mem s b"
  using bucket_step [OF assms(1-4), of "b_issues b" p "b_total b"] assms(4-6)
  by (auto simp: accurate_bucket_def)

text \<open>A loaded issue is the server's, in the bucket of its status.\<close>

lemma loaded_is_old:
  assumes db: "distinct (map iss_id db)" "old \<in> set db" "iss_id old = k"
    and acc: "accurate db mem c" and i: "i \<in> set (b_issues (getBucket c s))" "iss_id i = k"
  shows "i = old \<and> s = iss_status old \<and> mem old"
proof -
  have "i \<in> set db" "mem i" "iss_status i = s"
    using acc i(1) by (auto simp: accurate_all accurate_bucket_def)
  with db i(2) show ?thesis by (auto simp: distinct_map inj_on_def)
qed

lemma row_count:
  assumes "accurate_bucket db mem (iss_status old) b" "old \<in> set db" "mem old"
  shows "1 \<le> b_total b"
proof -
  have "filter (\<lambda>i. mem i \<and> iss_status i = iss_status old) db \<noteq> []"
    using assms(2,3) by (auto simp: filter_empty_conv)
  with assms(1) show ?thesis by (simp add: accurate_bucket_def Suc_le_eq)
qed

section \<open>The bucket operations\<close>

lemma removed_rows:
  assumes "distinct (map iss_id rows)"
  shows "distinct (map iss_id (filter (\<lambda>i. iss_id i \<noteq> k) rows))"
  using assms by (simp add: distinct_map_filter)

lemma inserted_distinct:
  assumes "distinct (map iss_id rows)" "iss_id i \<notin> iss_id ` set rows"
  shows "distinct (map iss_id (insertByPosition rows i))"
proof -
  have "mset (map iss_id (insertByPosition rows i)) = mset (iss_id i # map iss_id rows)"
    by (simp add: mset_insertByPosition)
  then have "distinct (map iss_id (insertByPosition rows i)) = distinct (iss_id i # map iss_id rows)"
    by (rule mset_eq_imp_distinct_iff)
  with assms show ?thesis by simp
qed

lemma removed_accurate:
  assumes db: "distinct (map iss_id db)" "old \<in> set db" "iss_id old = k"
    and acc: "accurate db mem c" and loc: "findIssueLocation c k = Some (s, i)"
    and gone: "\<not> mem (merge_issue old p)" and res: "removeIssueFromBuckets c k = Some c'"
  shows "accurate (server_patch k p db) mem c'"
proof -
  have i: "i = old" "s = iss_status old" "mem old"
    using loaded_is_old [OF db acc] location_Some [OF loc] by blast+
  let ?b = "getBucket c s"
  have c': "c' = setBucket c s \<lparr>b_issues = filter (\<lambda>i. iss_id i \<noteq> k) (b_issues ?b), b_total = b_total ?b - 1\<rparr>"
    using res loc by (simp add: removeIssueFromBuckets_def Let_def)
  have accs: "accurate_bucket db mem s' (getBucket c s')" for s' using acc by (simp add: accurate_all)
  have "accurate_bucket (server_patch k p db) mem s' (getBucket c' s')" for s'
  proof (cases "s' = s")
    case True
    have "1 \<le> b_total ?b" using row_count [OF accs [of s, unfolded i(2)] db(2) i(3)] by (simp add: i(2))
    then have "accurate_bucket (server_patch k p db) mem s
        \<lparr>b_issues = filter (\<lambda>i. iss_id i \<noteq> k) (b_issues ?b), b_total = b_total ?b - 1\<rparr>"
      using accs [of s] gone i db(3)
      by (intro bucket_step [OF db accs]) (auto simp: accurate_bucket_def removed_rows)
    with True show ?thesis by (simp add: c' getBucket_set)
  next
    case False
    have "old \<notin> set (b_issues (getBucket c s'))" using accs [of s'] False i(2) by (auto simp: accurate_bucket_def)
    with False show ?thesis
      unfolding c' getBucket_set using gone i(2) by (auto intro: bucket_keep [OF db accs])
  qed
  then show ?thesis by (simp add: accurate_all)
qed

lemma patched_rows:
  assumes "distinct (map iss_id rows)" "old \<in> set rows" "iss_id old = k" "iss_id new = k"
  shows "set (map (\<lambda>i. if iss_id i = k then new else i) rows) \<subseteq> (set rows - {old}) \<union> {new}"
    "distinct (map iss_id (map (\<lambda>i. if iss_id i = k then new else i) rows))"
proof -
  have "i = old" if "i \<in> set rows" "iss_id i = k" for i
    using assms(1-3) that by (auto simp: distinct_map inj_on_def)
  then show "set (map (\<lambda>i. if iss_id i = k then new else i) rows) \<subseteq> (set rows - {old}) \<union> {new}"
    using assms(3) by auto
  have "map iss_id (map (\<lambda>i. if iss_id i = k then new else i) rows) = map iss_id rows"
    using assms(4) by auto
  with assms(1) show "distinct (map iss_id (map (\<lambda>i. if iss_id i = k then new else i) rows))" by (simp only:)
qed

lemma patched_accurate:
  assumes db: "distinct (map iss_id db)" "old \<in> set db" "iss_id old = k"
    and acc: "accurate db mem c" and loc: "findIssueLocation c k = Some (s, i)"
    and stays: "mem (merge_issue old p)" and res: "patchIssueInBuckets c k p = Some c'"
  shows "accurate (server_patch k p db) mem c'"
proof -
  have i: "i = old" "s = iss_status old" "mem old"
    using loaded_is_old [OF db acc] location_Some [OF loc] by blast+
  let ?new = "merge_issue old p"
  let ?b = "getBucket c s"
  have accs: "accurate_bucket db mem s' (getBucket c s')" for s' using acc by (simp add: accurate_all)
  have row: "old \<in> set (b_issues ?b)" using location_Some [OF loc] i(1) by simp
  have dist: "distinct (map iss_id (b_issues (getBucket c s')))" for s'
    using accs [of s'] by (simp add: accurate_bucket_def)
  have other: "old \<notin> set (b_issues (getBucket c s'))" "k \<notin> iss_id ` set (b_issues (getBucket c s'))" if "s' \<noteq> s" for s'
    using accs [of s'] that i(2) loaded_is_old [OF db acc] by (auto simp: accurate_bucket_def)
  have filtered: "set (filter (\<lambda>i. iss_id i \<noteq> k) (b_issues ?b)) \<subseteq> set (b_issues ?b) - {old}"
    "k \<notin> iss_id ` set (filter (\<lambda>i. iss_id i \<noteq> k) (b_issues ?b))" using db(3) by auto
  have new: "iss_id ?new = k" "iss_status ?new = over (p_status p) s" using db(3) i(2) by (simp_all add: merge_status)
  have kept: "accurate_bucket (server_patch k p db) mem s' (getBucket c s')" if "s' \<noteq> s" "s' \<noteq> iss_status ?new" for s'
    using that i(2) other(1) by (intro bucket_keep [OF db accs]) auto
  have fresh: "distinct (map iss_id (insertByPosition (filter (\<lambda>i. iss_id i \<noteq> k) (b_issues ?b)) ?new))"
    using filtered(2) new(1) by (intro inserted_distinct removed_rows dist) simp
  show ?thesis
  proof (cases "over (p_status p) s = s")
    case True
    then have st: "iss_status ?new = s" using new(2) by simp
    define r1 where "r1 = map (\<lambda>i. if iss_id i = k then ?new else i) (b_issues ?b)"
    define r2 where "r2 = insertByPosition (filter (\<lambda>i. iss_id i \<noteq> k) (b_issues ?b)) ?new"
    have "set r1 \<subseteq> (set (b_issues ?b) - {old}) \<union> {?new}" "distinct (map iss_id r1)"
      unfolding r1_def using patched_rows [OF dist row db(3) new(1)] by blast+
    moreover have "set r2 \<subseteq> (set (b_issues ?b) - {old}) \<union> {?new}" "distinct (map iss_id r2)"
      unfolding r2_def using filtered(1) fresh unfolding set_insertByPosition by blast+
    moreover have "c' = setBucket c s \<lparr>b_issues = r1, b_total = b_total ?b\<rparr>
        \<or> c' = setBucket c s \<lparr>b_issues = r2, b_total = b_total ?b\<rparr>"
      using res loc True i(1) unfolding r1_def r2_def
      by (cases ?b) (auto simp: patchIssueInBuckets_def Let_def split: if_splits)
    ultimately obtain rows where rows: "c' = setBucket c s \<lparr>b_issues = rows, b_total = b_total ?b\<rparr>"
      "set rows \<subseteq> (set (b_issues ?b) - {old}) \<union> {?new}" "distinct (map iss_id rows)"
      by blast
    have "accurate_bucket (server_patch k p db) mem s \<lparr>b_issues = rows, b_total = b_total ?b\<rparr>"
      using rows(2,3) stays st i(2,3) by (intro bucket_step [OF db accs]) auto
    then show ?thesis using kept st by (auto simp: accurate_all rows(1) getBucket_set)
  next
    case False
    let ?t = "over (p_status p) s"
    let ?bt = "getBucket c ?t"
    have st: "iss_status ?new = ?t" "?t \<noteq> s" using new(2) False by simp_all
    have c': "c' = setBucket (setBucket c s \<lparr>b_issues = filter (\<lambda>i. iss_id i \<noteq> k) (b_issues ?b), b_total = b_total ?b - 1\<rparr>)
        ?t \<lparr>b_issues = insertByPosition (b_issues ?bt) ?new, b_total = b_total ?bt + 1\<rparr>"
      using res loc False i(1) by (simp add: patchIssueInBuckets_def Let_def)
    have "1 \<le> b_total ?b" using row_count [OF accs [of s, unfolded i(2)] db(2) i(3)] by (simp add: i(2))
    then have "accurate_bucket (server_patch k p db) mem s
        \<lparr>b_issues = filter (\<lambda>i. iss_id i \<noteq> k) (b_issues ?b), b_total = b_total ?b - 1\<rparr>"
      using filtered(1) removed_rows [OF dist] st i(2,3) by (intro bucket_step [OF db accs]) auto
    moreover have "accurate_bucket (server_patch k p db) mem ?t
        \<lparr>b_issues = insertByPosition (b_issues ?bt) ?new, b_total = b_total ?bt + 1\<rparr>"
    proof (rule bucket_step [OF db accs])
      show "set (insertByPosition (b_issues ?bt) ?new) \<subseteq> set (b_issues ?bt) - {old}
          \<union> (if mem ?new \<and> iss_status ?new = ?t then {?new} else {})"
        using other(1) [OF st(2)] stays st(1) by (auto simp: set_insertByPosition)
      show "distinct (map iss_id (insertByPosition (b_issues ?bt) ?new))"
        using other(2) [OF st(2)] new(1) by (intro inserted_distinct dist) simp
    qed (use st stays i(2) in auto)
    ultimately show ?thesis using kept st by (auto simp: accurate_all c' getBucket_set)
  qed
qed

lemma decremented_accurate:
  assumes db: "distinct (map iss_id db)" "old \<in> set db" "iss_id old = k"
    and acc: "accurate db mem c" and loc: "findIssueLocation c k = None"
    and "mem old" "\<not> mem (merge_issue old p)" and res: "decrementBucketTotal c (iss_status old) = Some c'"
  shows "accurate (server_patch k p db) mem c'"
proof -
  let ?s = "iss_status old"
  let ?b = "getBucket c ?s"
  have accs: "accurate_bucket db mem s' (getBucket c s')" for s' using acc by (simp add: accurate_all)
  have absent: "old \<notin> set (b_issues (getBucket c s'))" for s' using location_None [OF loc] db(3) by blast
  have c': "c' = setBucket c ?s \<lparr>b_issues = b_issues ?b, b_total = b_total ?b - 1\<rparr>"
    using res by (cases ?b) (simp add: decrementBucketTotal_def Let_def)
  have "1 \<le> b_total ?b" using row_count [OF accs db(2)] assms(6) by blast
  then have "accurate_bucket (server_patch k p db) mem ?s \<lparr>b_issues = b_issues ?b, b_total = b_total ?b - 1\<rparr>"
    using absent assms(6,7) accs [of ?s] by (intro bucket_step [OF db accs]) (auto simp: accurate_bucket_def)
  moreover have "accurate_bucket (server_patch k p db) mem s' (getBucket c s')" if "s' \<noteq> ?s" for s'
    using that absent assms(7) by (intro bucket_keep [OF db accs]) auto
  ultimately show ?thesis by (auto simp: accurate_all c' getBucket_set)
qed

lemma unchanged_accurate:
  assumes db: "distinct (map iss_id db)" "old \<in> set db" "iss_id old = k"
    and acc: "accurate db mem c" and loc: "findIssueLocation c k = None"
    and "mem old = mem (merge_issue old p)" "mem old \<Longrightarrow> iss_status (merge_issue old p) = iss_status old"
  shows "accurate (server_patch k p db) mem c"
proof -
  have "old \<notin> set (b_issues (getBucket c s'))" for s' using location_None [OF loc] db(3) by blast
  then show ?thesis
    using acc assms(6,7) by (auto simp: accurate_all intro!: bucket_keep [OF db])
qed

end
