(* ===== verification/Issue_Change.thy ===== *)
theory Issue_Change
  imports Issue_Coherence
begin

text \<open>
  The coordinator as a whole: after an issue change, every bucketed list of the workspace is
  right for the server's new state or its key is marked stale; a rollback restores every cache
  the change snapshotted; and the one cache it does not restore.
\<close>

section \<open>Membership\<close>

text \<open>
  What the client's filter code relies on about the server: its definite verdicts on full
  issues are the server's, and membership depends on the fields named by the filter only (the
  union list \<open>all\<close> on assignee and creator, a list without a project filter not on the project).
\<close>

definition same_for_filter :: "jstr option \<Rightarrow> query_bag \<Rightarrow> issue \<Rightarrow> issue \<Rightarrow> bool" where
  "same_for_filter scope f i j =
     (iss_id i = iss_id j \<and> iss_creator_id i = iss_creator_id j \<and> iss_assignee_type i = iss_assignee_type j
      \<and> iss_assignee_id i = iss_assignee_id j
      \<and> (scope = Some ''all'' \<or> f_project_id f = None \<or> iss_project_id i = iss_project_id j))"

lemma same_for_filter_refl [simp]: "same_for_filter scope f i i"
  by (simp add: same_for_filter_def)

definition server_contract :: "(issue \<Rightarrow> bool) \<Rightarrow> jstr option \<Rightarrow> query_bag \<Rightarrow> bool" where
  "server_contract mem scope f =
     ((\<forall>i. issueMatchesListFilter (partial_of_issue i) scope f = IsMember \<longrightarrow> mem i)
      \<and> (\<forall>i. issueMatchesListFilter (partial_of_issue i) scope f = NotMember \<longrightarrow> \<not> mem i)
      \<and> (\<forall>i j. same_for_filter scope f i j \<longrightarrow> mem i = mem j))"

text \<open>
  The sort bag of a key may carry a date window and a filter by custom properties, which no rule of the
  coordinator reads (\<open>win\<close>; a list without them shows every issue in its relation \<open>rel\<close>).
\<close>

definition listed_by :: "(issue \<Rightarrow> bool) \<Rightarrow> (issue \<Rightarrow> bool) \<Rightarrow> issue \<Rightarrow> bool" where
  "listed_by rel win i = (rel i \<and> win i)"

text \<open>What one change needs of the list: the verdicts are right for the issue before and after it.\<close>

definition judged :: "(issue \<Rightarrow> bool) \<Rightarrow> jstr option \<Rightarrow> query_bag \<Rightarrow> issue \<Rightarrow> issue \<Rightarrow> bool" where
  "judged mem scope f old new =
     ((\<forall>i \<in> {old, new}. issueMatchesListFilter (partial_of_issue i) scope f = IsMember \<longrightarrow> mem i)
      \<and> (\<forall>i \<in> {old, new}. issueMatchesListFilter (partial_of_issue i) scope f = NotMember \<longrightarrow> \<not> mem i)
      \<and> (same_for_filter scope f new old \<longrightarrow> mem new = mem old))"

lemma judged_inside:
  assumes "server_contract rel scope f" "win old" "win new"
  shows "judged (listed_by rel win) scope f old new"
  using assms unfolding server_contract_def judged_def listed_by_def by blast

text \<open>
  What the coordinator relies on about the changed dimensions: a dimension that is not flagged is
  the same before and after, the project only where the list is one of a project. They may be flagged
  without having changed.
\<close>

definition dims_cover :: "jstr option \<Rightarrow> query_bag \<Rightarrow> IssueChangedDims \<Rightarrow> issue_patch \<Rightarrow> issue \<Rightarrow> bool" where
  "dims_cover scope f changed p old =
     ((d_assignee changed \<or> iss_assignee_id (merge_issue old p) = iss_assignee_id old
         \<and> iss_assignee_type (merge_issue old p) = iss_assignee_type old)
      \<and> (d_project changed \<or> scope = Some ''all'' \<or> f_project_id f = None
         \<or> iss_project_id (merge_issue old p) = iss_project_id old)
      \<and> (d_status changed \<or> iss_status (merge_issue old p) = iss_status old))"

lemma computed_dims_cover:
  assumes "base = None \<or> base = Some old"
  shows "dims_cover scope f (issueChangedDims p base) p old"
  using assms by (auto simp: dims_cover_def issueChangedDims_def merge_issue_def field_changed_def over_def
      split: option.splits)

lemma dims_unchanged:
  assumes "dims_cover scope f changed p old"
  shows "\<not> d_assignee changed \<Longrightarrow>
      iss_assignee_id (merge_issue old p) = iss_assignee_id old
      \<and> iss_assignee_type (merge_issue old p) = iss_assignee_type old"
    "\<not> d_project changed \<Longrightarrow> scope = Some ''all'' \<or> f_project_id f = None
      \<or> iss_project_id (merge_issue old p) = iss_project_id old"
    "\<not> d_status changed \<Longrightarrow> iss_status (merge_issue old p) = iss_status old"
  using assms by (auto simp: dims_cover_def)

lemma membership_untouched:
  assumes dims: "dims_cover scope f changed p old" and creator: "iss_creator_id (merge_issue old p) = iss_creator_id old"
    and srv: "judged mem scope f old (merge_issue old p)"
    and untouched: "\<not> listFilterDependsOn scope f changed"
  shows "mem (merge_issue old p) = mem old"
proof -
  let ?new = "merge_issue old p"
  note same = dims_unchanged [OF dims]
  show ?thesis
  proof (cases "d_assignee changed")
    case False
    then have "same_for_filter scope f ?new old"
      using untouched same creator by (auto simp: same_for_filter_def listFilterDependsOn_def split: if_splits)
    then show ?thesis using srv unfolding judged_def by blast
  next
    case True
    with untouched have f: "scope \<noteq> Some ''all''" "f_assignee_id f = None" "f_assignee_ids f = None"
      "f_assignee_types f = None" "f_involves_user_id f = None"
      "f_project_id f = None \<or> iss_project_id ?new = iss_project_id old"
      using same(2) by (auto simp: listFilterDependsOn_def split: if_splits)
    then have verdict: "issueMatchesListFilter (partial_of_issue ?new) scope f
        = issueMatchesListFilter (partial_of_issue old) scope f"
      using creator
      by (auto simp: issueMatchesListFilter_def partial_of_issue_def filter_field_def split: option.splits)
    have "issueMatchesListFilter (partial_of_issue old) scope f \<noteq> MemberUnknown"
      using f by (auto simp: issueMatchesListFilter_def all_members_def filter_field_def partial_of_issue_def
          split: option.splits)
    then show ?thesis
      using srv verdict unfolding judged_def
      by (cases "issueMatchesListFilter (partial_of_issue old) scope f") auto
  qed
qed

lemma partial_merge_known: "partial_merge (Some old) p = partial_of_issue (merge_issue old p)"
  by (auto simp: partial_merge_def partial_of_issue_def merge_issue_def later_def over_def split: option.splits)

text \<open>The base entity, if there is one, agrees with the old one where the list depends on it.\<close>

definition known_as :: "jstr option \<Rightarrow> query_bag \<Rightarrow> issue option \<Rightarrow> issue \<Rightarrow> bool" where
  "known_as scope f base old =
     (\<forall>b. base = Some b \<longrightarrow> iss_status b = iss_status old \<and> same_for_filter scope f b old)"

lemma known_base: "base = None \<or> base = Some old \<Longrightarrow> known_as scope f base old"
  by (auto simp: known_as_def)

lemma verdict_same:
  assumes "q_assignee_type i = q_assignee_type j" "q_assignee_id i = q_assignee_id j" "q_creator_id i = q_creator_id j"
    and "scope = Some ''all'' \<or> f_project_id f = None \<or> q_project_id i = q_project_id j"
  shows "issueMatchesListFilter i scope f = issueMatchesListFilter j scope f"
proof (cases "scope = Some ''all''")
  case False
  with assms(4) consider "f_project_id f = None" | "q_project_id i = q_project_id j" by metis
  then have "filter_field (map_option (\<lambda>p v. v = Some p) (f_project_id f)) (q_project_id i)
      = filter_field (map_option (\<lambda>p v. v = Some p) (f_project_id f)) (q_project_id j)"
    by cases (simp add: filter_field_def, simp only:)
  then show ?thesis unfolding issueMatchesListFilter_def assms(1-3) by (rule arg_cong)
qed (simp add: issueMatchesListFilter_def)

lemma verdict_alike:
  assumes "same_for_filter scope f b old"
  shows "issueMatchesListFilter (partial_merge (Some b) p) scope f
      = issueMatchesListFilter (partial_of_issue (merge_issue old p)) scope f"
    "issueMatchesListFilter (partial_of_issue b) scope f = issueMatchesListFilter (partial_of_issue old) scope f"
  using assms unfolding partial_merge_known [symmetric]
  by (auto intro!: verdict_same simp: same_for_filter_def partial_merge_def partial_of_issue_def)

section \<open>One list\<close>

lemma reconcile_accurate:
  assumes db: "distinct (map iss_id db)" "old \<in> set db" "iss_id old = k"
    and base: "known_as scope f base old" and dims: "dims_cover scope f changed p old"
    and creator: "iss_creator_id (merge_issue old p) = iss_creator_id old"
    and key: "listContractFromKey key = (scope, f, srt)"
    and srv: "judged mem scope f old (merge_issue old p)"
    and acc: "accurate db mem c"
    and res: "reconcile_list k p changed base key c = (nxt, stale)"
  shows "key \<in> set stale \<or> accurate (server_patch k p db) mem (case nxt of None \<Rightarrow> c | Some c' \<Rightarrow> c')"
proof (cases "findIssueLocation c k")
  case loc: (Some si)
  obtain s i where si: "si = (s, i)" by (cases si)
  note loc = loc [unfolded si]
  have i: "i = old" "mem old" using loaded_is_old [OF db acc] location_Some [OF loc] by blast+
  let ?touched = "listFilterDependsOn scope f changed"
  let ?verdict = "issueMatchesListFilter (partial_of_issue (merge_issue old p)) scope f"
  have present: "(nxt, key \<in> set stale) = reconcile_present k p scope f ?touched c old
      \<or> key \<in> set stale"
    using res loc i(1)
    by (auto simp: reconcile_list_def key Let_def split: prod.splits if_splits)
  have "patchIssueInBuckets c k p \<noteq> None" "removeIssueFromBuckets c k \<noteq> None"
    using loc by (simp_all add: patchIssueInBuckets_def removeIssueFromBuckets_def Let_def)
  then obtain c1 c2 where ops: "patchIssueInBuckets c k p = Some c1" "removeIssueFromBuckets c k = Some c2"
    by blast
  have stays: "accurate (server_patch k p db) mem c1" if "mem (merge_issue old p)"
    using patched_accurate [OF db acc loc that ops(1)] .
  have leaves: "accurate (server_patch k p db) mem c2" if "\<not> mem (merge_issue old p)"
    using removed_accurate [OF db acc loc that ops(2)] .
  show ?thesis
  proof (cases "key \<in> set stale")
    case False
    with present have pr: "reconcile_present k p scope f ?touched c old = (nxt, False)" by simp
    show ?thesis
    proof (cases ?touched)
      case True
      with pr srv ops stays leaves show ?thesis
        unfolding reconcile_present_def partial_merge_known judged_def
        by (cases ?verdict) auto
    next
      case False
      with membership_untouched [OF dims creator srv] i(2) have "mem (merge_issue old p)" by simp
      with False pr ops stays show ?thesis by (auto simp: reconcile_present_def)
    qed
  qed simp
next
  case loc: None
  let ?new = "merge_issue old p"
  let ?touched = "listFilterDependsOn scope f changed"
  have absent: "(nxt, key \<in> set stale) = reconcile_absent p changed base scope f ?touched c \<or> key \<in> set stale"
    using res loc by (auto simp: reconcile_list_def key Let_def split: prod.splits if_splits)
  show ?thesis
  proof (cases "key \<in> set stale")
    case False
    with absent have ab: "reconcile_absent p changed base scope f ?touched c = (nxt, False)" by simp
    have same: "accurate (server_patch k p db) mem c"
      if "mem old = mem ?new" "mem old \<Longrightarrow> iss_status ?new = iss_status old"
      using unchanged_accurate [OF db acc loc that] .
    show ?thesis
    proof (cases "?touched \<or> d_status changed")
      case False
      with ab have "nxt = None" by (simp add: reconcile_absent_def)
      moreover have "mem ?new = mem old" using membership_untouched [OF dims creator srv] False by simp
      ultimately show ?thesis using same dims_unchanged(3) [OF dims] False by simp
    next
      case True
      then have "\<not> (\<not> ?touched \<and> \<not> d_status changed)" by blast
      note step = ab [unfolded reconcile_absent_def if_not_P [OF this] Let_def]
      have "base \<noteq> None" using step by (cases base) auto
      then obtain b where base': "base = Some b" by blast
      with base have b: "iss_status b = iss_status old" "same_for_filter scope f b old"
        by (simp_all add: known_as_def)
      let ?was = "issueMatchesListFilter (partial_of_issue old) scope f"
      let ?is = "issueMatchesListFilter (partial_of_issue ?new) scope f"
      note step = step [unfolded base' option.case verdict_alike [OF b(2)] b(1) option.sel]
      have mems: "?was = IsMember \<Longrightarrow> mem old" "?was = NotMember \<Longrightarrow> \<not> mem old"
        "?is = IsMember \<Longrightarrow> mem ?new" "?is = NotMember \<Longrightarrow> \<not> mem ?new"
        using srv unfolding judged_def by blast+
      consider (out) "?was = NotMember" "?is = NotMember" "nxt = None"
        | (within) "?was = IsMember" "?is = IsMember" "nxt = None" "iss_status ?new = iss_status old"
        | (left) "?was = IsMember" "?is = NotMember" "nxt = decrementBucketTotal c (iss_status old)"
      proof (cases "?was = IsMember \<and> ?is = IsMember")
        case both: True
        have "iss_status ?new = iss_status old" if "\<not> d_status changed \<or> p_status p = None"
          using that dims_unchanged(3) [OF dims] by (auto simp: merge_status over_def)
        moreover have "iss_status ?new = iss_status old"
          if "p_status p = Some t" "moveBucketTotal c (iss_status old) t = None" for t
          using that by (auto simp: merge_status over_def moveBucketTotal_def Let_def split: if_splits)
        ultimately show ?thesis
          using both step within base' by (auto split: if_splits option.splits)
      next
        case False
        with step out left show ?thesis by (auto split: if_splits)
      qed
      then show ?thesis
      proof cases
        case out
        with mems same show ?thesis by simp
      next
        case within
        with mems same show ?thesis by simp
      next
        case left
        then obtain c' where "decrementBucketTotal c (iss_status old) = Some c'"
          by (auto simp: decrementBucketTotal_def Let_def)
        with left mems decremented_accurate [OF db acc loc] show ?thesis by simp
      qed
    qed
  qed simp
qed

end
