(* ===== verification/Issue_Client.thy ===== *)
theory Issue_Client
  imports Issue_Change
begin

text \<open>
  The coordinator on the query client: what each stage of \<open>applyIssueChange\<close> writes, the
  snapshots it keeps, and the properties of a change and of its rollback.
\<close>

section \<open>The client\<close>

lemma in_map_filter: "y \<in> set (List.map_filter f xs) \<longleftrightarrow> (\<exists>x \<in> set xs. f x = Some y)"
  by (induction xs) (auto split: option.splits)

lemma client_get_set:
  "query_client_ok qc \<Longrightarrow> getQueryData qc (setQueryData qc k d q) k' = (if k' = k then Some d else getQueryData qc q k')"
  unfolding query_client_ok_def by blast

lemma client_find:
  assumes "query_client_ok qc"
  shows "distinct (map fst (getQueriesData qc p q))"
    "(k, d) \<in> set (getQueriesData qc p q) \<Longrightarrow> prefix p k \<and> d = getQueryData qc q k"
    "prefix p k \<Longrightarrow> getQueryData qc q k = Some v \<Longrightarrow> (k, Some v) \<in> set (getQueriesData qc p q)"
  using assms unfolding query_client_ok_def by (blast, blast, metis option.discI)

text \<open>The third part of a key tells the kinds of caches apart.\<close>

definition issue_part :: "query_key \<Rightarrow> key_part option" where
  "issue_part k = (if nth_part k 0 = Some (KStr ''issues'') then nth_part k 2 else None)"

lemma prefix_part: "prefix (issue_all ws @ [x]) k \<Longrightarrow> issue_part k = Some x"
  by (auto simp: prefix_def issue_all_def nth_part_def issue_part_def)

lemma key_parts:
  "prefix (issue_list ws) k \<Longrightarrow> issue_part k = Some (KStr ''list'')"
  "prefix (issue_myAll ws) k \<Longrightarrow> issue_part k = Some (KStr ''my'')"
  "prefix (issue_flatAll ws) k \<Longrightarrow> issue_part k = Some (KStr ''flat'')"
  "prefix (issue_tableAll ws) k \<Longrightarrow> issue_part k = Some (KStr ''table-query'')"
  "issue_part (issue_detail ws i) = Some (KStr ''detail'')"
  unfolding issue_list_def issue_myAll_def issue_flatAll_def issue_tableAll_def
  by (blast intro: prefix_part)+ (simp add: issue_detail_def issue_all_def nth_part_def issue_part_def)

lemma inbox_part: "issue_part (inbox_list ws) = None" "issue_part (inbox_archived ws) = None"
  by (simp_all add: inbox_list_def inbox_archived_def nth_part_def issue_part_def)

definition bucketed_key :: "query_key \<Rightarrow> bool" where
  "bucketed_key k = (issue_part k = Some (KStr ''list'') \<or> issue_part k = Some (KStr ''my''))"

lemma bucketed_entries:
  assumes ok: "query_client_ok qc"
  shows "(k, c) \<in> set (bucketedListEntries qc ws q) \<Longrightarrow> getQueryData qc q k = Some (DBuckets c) \<and> bucketed_key k"
    "prefix (issue_list ws) k \<or> prefix (issue_myAll ws) k \<Longrightarrow> getQueryData qc q k = Some (DBuckets c) \<Longrightarrow>
     (k, c) \<in> set (bucketedListEntries qc ws q)"
    "distinct (map fst (bucketedListEntries qc ws q))"
proof -
  let ?all = "getQueriesData qc (issue_list ws) q @ getQueriesData qc (issue_myAll ws) q"
  let ?pick = "\<lambda>(key, d). case d of Some (DBuckets c) \<Rightarrow> Some (key, c) | _ \<Rightarrow> None"
  have mem: "(k, c) \<in> set (bucketedListEntries qc ws q) \<longleftrightarrow> (k, Some (DBuckets c)) \<in> set ?all" for k c
    unfolding bucketedListEntries_def in_map_filter
    by (auto split: option.splits cache_data.splits intro!: bexI [of _ "(k, Some (DBuckets c))"])
  show "(k, c) \<in> set (bucketedListEntries qc ws q) \<Longrightarrow> getQueryData qc q k = Some (DBuckets c) \<and> bucketed_key k"
    using client_find(2) [OF ok, of k "Some (DBuckets c)"] unfolding mem bucketed_key_def set_append Un_iff
    by (metis key_parts(1,2))
  show "prefix (issue_list ws) k \<or> prefix (issue_myAll ws) k \<Longrightarrow> getQueryData qc q k = Some (DBuckets c) \<Longrightarrow>
     (k, c) \<in> set (bucketedListEntries qc ws q)"
    using client_find(3) [OF ok] by (auto simp: mem)
  have "k \<noteq> k'" if "k \<in> fst ` set (getQueriesData qc (issue_list ws) q)"
    "k' \<in> fst ` set (getQueriesData qc (issue_myAll ws) q)" for k k'
  proof -
    note kk = that
    obtain x y where "x \<in> set (getQueriesData qc (issue_list ws) q)" "k = fst x"
      "y \<in> set (getQueriesData qc (issue_myAll ws) q)" "k' = fst y" using kk by blast
    then have "prefix (issue_list ws) k" "prefix (issue_myAll ws) k'"
      using client_find(2) [OF ok, of "fst x" "snd x"] client_find(2) [OF ok, of "fst y" "snd y"] by auto
    then have "issue_part k = Some (KStr ''list'')" "issue_part k' = Some (KStr ''my'')"
      using key_parts(1,2) by blast+
    then show ?thesis by auto
  qed
  then have "distinct (map fst ?all)" using client_find(1) [OF ok] by (auto simp: distinct_append)
  moreover have "distinct (map fst (List.map_filter ?pick xs))" if "distinct (map fst xs)" for xs
    using that
  proof (induction xs)
    case (Cons x xs)
    have "fst ` set (List.map_filter ?pick xs) \<subseteq> fst ` set xs"
      by (auto simp: in_map_filter split: option.splits cache_data.splits) (force intro: rev_image_eqI)
    with Cons show ?case by (cases x) (auto split: option.splits cache_data.splits)
  qed simp
  ultimately show "distinct (map fst (bucketedListEntries qc ws q))"
    unfolding bucketedListEntries_def by blast
qed

lemma flat_entries:
  assumes "query_client_ok qc" "(k, pages, rest) \<in> set (flatListEntries qc ws q)"
  shows "getQueryData qc q k = Some (DFlat pages rest) \<and> issue_part k = Some (KStr ''flat'')"
proof -
  have "(k, Some (DFlat pages rest)) \<in> set (getQueriesData qc (issue_flatAll ws) q)"
    using assms(2) unfolding flatListEntries_def in_map_filter
    by (auto split: option.splits cache_data.splits)
  from client_find(2) [OF assms(1) this] key_parts(3) show ?thesis by auto
qed

lemma table_entries:
  assumes "query_client_ok qc" "(k, rows, rest) \<in> set (tableRowEntries qc ws q)"
  shows "getQueryData qc q k = Some (DTable rows rest) \<and> issue_part k = Some (KStr ''table-query'')"
proof -
  have "(k, Some (DTable rows rest)) \<in> set (getQueriesData qc (issue_tableAll ws) q)"
    using assms(2) unfolding tableRowEntries_def in_map_filter
    by (auto split: option.splits cache_data.splits)
  from client_find(2) [OF assms(1) this] key_parts(4) show ?thesis by auto
qed

section \<open>What the stages write\<close>

lemma fold_inv: "(\<And>e ch. e \<in> set es \<Longrightarrow> I ch \<Longrightarrow> I (f e ch)) \<Longrightarrow> I ch \<Longrightarrow> I (fold f es ch)"
  by (induction es arbitrary: ch) auto

lemma change_list_effect:
  assumes "query_client_ok qc" "reconcile_list i p changed base key data = (nxt, stale)"
  shows "getQueryData qc (ch_client (change_list qc i p changed base (key, data) ch)) k =
      (if k = key \<and> nxt \<noteq> None then Some (DBuckets (the nxt)) else getQueryData qc (ch_client ch) k)"
    "staleKeys (change_list qc i p changed base (key, data) ch) = staleKeys ch @ stale"
    "prevLists (change_list qc i p changed base (key, data) ch) =
      prevLists ch @ (if nxt = None then [] else [(key, data)])"
    "prevFlatLists (change_list qc i p changed base (key, data) ch) = prevFlatLists ch"
    "prevTableRows (change_list qc i p changed base (key, data) ch) = prevTableRows ch"
    "prevDetail (change_list qc i p changed base (key, data) ch) = prevDetail ch"
    "prevInboxList (change_list qc i p changed base (key, data) ch) = prevInboxList ch"
  using assms(2) by (simp_all add: change_list_def Let_def client_get_set [OF assms(1)] split: option.splits)

lemma fold_change_list:
  fixes qc :: "'q query_client" and ch :: "'q change"
  assumes ok: "query_client_ok qc" and "distinct (map fst es)" "(key, data) \<in> set es"
    and "getQueryData qc (ch_client ch) key = Some (DBuckets data)"
    and res: "reconcile_list i p changed base key data = (nxt, stale)"
  shows "getQueryData qc (ch_client (fold (change_list qc i p changed base) es ch)) key
      = Some (DBuckets (case nxt of None \<Rightarrow> data | Some c \<Rightarrow> c))
    \<and> set stale \<subseteq> set (staleKeys (fold (change_list qc i p changed base) es ch))"
  using assms(2-4)
proof (induction es arbitrary: ch)
  case (Cons e es)
  let ?f = "change_list qc i p changed base"
  have grow: "set (staleKeys ch) \<subseteq> set (staleKeys (fold ?f es ch))" for ch :: "'q change"
  proof (rule fold_inv [of es "\<lambda>c. set (staleKeys ch) \<subseteq> set (staleKeys c)"])
    fix e and c :: "'q change"
    assume "set (staleKeys ch) \<subseteq> set (staleKeys c)"
    moreover obtain k' d' n' s' where "e = (k', d')" "reconcile_list i p changed base k' d' = (n', s')"
      by (metis surj_pair)
    ultimately show "set (staleKeys ch) \<subseteq> set (staleKeys (?f e c))"
      using change_list_effect(2) [OF ok, of i p changed base k' d'] by auto
  qed simp
  show ?case
  proof (cases "e = (key, data)")
    case True
    then have notin: "key \<notin> fst ` set es" using Cons.prems(1) by auto
    have "getQueryData qc (ch_client (fold ?f es ch')) key = getQueryData qc (ch_client ch') key" for ch' :: "'q change"
    proof (rule fold_inv [of es "\<lambda>c. getQueryData qc (ch_client c) key = getQueryData qc (ch_client ch') key"])
      fix e and c :: "'q change"
      assume e: "e \<in> set es" "getQueryData qc (ch_client c) key = getQueryData qc (ch_client ch') key"
      obtain k' d' n' s' where kd: "e = (k', d')" "reconcile_list i p changed base k' d' = (n', s')"
        by (metis surj_pair)
      with e(1) notin have "key \<noteq> k'" by force
      with e(2) kd show "getQueryData qc (ch_client (?f e c)) key = getQueryData qc (ch_client ch') key"
        by (simp add: change_list_effect(1) [OF ok kd(2)])
    qed simp
    moreover have "getQueryData qc (ch_client (?f e ch)) key = Some (DBuckets (case nxt of None \<Rightarrow> data | Some c \<Rightarrow> c))"
      using Cons.prems(3) unfolding True by (simp add: change_list_effect(1) [OF ok res] split: option.splits)
    moreover have "set stale \<subseteq> set (staleKeys (?f e ch))"
      unfolding True by (simp add: change_list_effect(2) [OF ok res])
    ultimately show ?thesis using grow [of "?f e ch"] by auto
  next
    case False
    obtain k' d' n' s' where kd: "e = (k', d')" "reconcile_list i p changed base k' d' = (n', s')"
      by (metis surj_pair)
    have in_es: "(key, data) \<in> set es" using Cons.prems(2) False by auto
    then have "k' \<noteq> key" using Cons.prems(1) kd(1) by force
    then have "getQueryData qc (ch_client (?f e ch)) key = Some (DBuckets data)"
      using Cons.prems(3) unfolding kd(1) by (simp add: change_list_effect(1) [OF ok kd(2)])
    with Cons.IH [OF _ in_es, of "?f e ch"] Cons.prems(1) show ?thesis by simp
  qed
qed simp

text \<open>The stages after the lists leave bucketed caches and stale marks alone.\<close>

definition keeps :: "'q query_client \<Rightarrow> query_key \<Rightarrow> 'q change \<Rightarrow> 'q change \<Rightarrow> bool" where
  "keeps qc key a b = (getQueryData qc (ch_client b) key = getQueryData qc (ch_client a) key
     \<and> set (staleKeys a) \<subseteq> set (staleKeys b))"

lemma keeps_refl [simp]: "keeps qc key a a"
  by (simp add: keeps_def)

lemma keeps_trans: "keeps qc key a b \<Longrightarrow> keeps qc key b c \<Longrightarrow> keeps qc key a c"
  by (auto simp: keeps_def)

lemma change_flat_keeps:
  "query_client_ok qc \<Longrightarrow> key \<noteq> fst e \<Longrightarrow> keeps qc key ch (change_flat qc i p changed base e ch)"
  by (cases e) (auto simp: keeps_def change_flat_def Let_def client_get_set)

lemma change_table_keeps:
  "query_client_ok qc \<Longrightarrow> key \<noteq> fst e \<Longrightarrow> keeps qc key ch (change_table qc i p e ch)"
  by (cases e) (auto simp: keeps_def change_table_def Let_def client_get_set)

lemma change_detail_keeps:
  "query_client_ok qc \<Longrightarrow> key \<noteq> issue_detail ws i \<Longrightarrow> keeps qc key ch (change_detail qc ws i p ch)"
  by (auto simp: keeps_def change_detail_def client_get_set split: option.splits cache_data.splits)

lemma update_inbox_get:
  "query_client_ok qc \<Longrightarrow> key \<noteq> k \<Longrightarrow> getQueryData qc (update_inbox qc f k q) key = getQueryData qc q key"
  by (auto simp: update_inbox_def client_get_set split: option.splits cache_data.splits)

lemma change_inbox_keeps:
  "query_client_ok qc \<Longrightarrow> key \<noteq> inbox_list ws \<Longrightarrow> key \<noteq> inbox_archived ws \<Longrightarrow>
   keeps qc key ch (change_inbox qc ws i p ch)"
  by (auto simp: keeps_def change_inbox_def patchInboxIssueStatus_def update_inbox_get
      split: option.splits cache_data.splits)

lemma fold_keeps:
  "(\<And>e ch. e \<in> set es \<Longrightarrow> keeps qc key ch (f e ch)) \<Longrightarrow> keeps qc key ch (fold f es ch)"
  by (rule fold_inv [of es "keeps qc key ch"]) (auto intro: keeps_trans)

lemma bucketed_not_inbox: "bucketed_key k \<Longrightarrow> k \<noteq> inbox_list ws' \<and> k \<noteq> inbox_archived ws'"
  using inbox_part by (auto simp: bucketed_key_def)

lemma later_stages_keep:
  assumes ok: "query_client_ok qc" and key: "prefix (issue_list ws) key \<or> prefix (issue_myAll ws) key"
  shows "keeps qc key (fold (change_list qc i p changed base) (bucketedListEntries qc ws q) (change_start base q))
    (applyIssueChange qc ws i p changed base q)"
proof -
  define ch1 where "ch1 = fold (change_list qc i p changed base) (bucketedListEntries qc ws q) (change_start base q)"
  define ch2 where "ch2 = fold (change_flat qc i p changed base) (flatListEntries qc ws (ch_client ch1)) ch1"
  define ch3 where "ch3 = fold (change_table qc i p) (tableRowEntries qc ws (ch_client ch2)) ch2"
  have part: "issue_part key = Some (KStr ''list'') \<or> issue_part key = Some (KStr ''my'')"
    using key key_parts(1,2) by blast
  have "keeps qc key ch1 ch2"
    unfolding ch2_def
  proof (rule fold_keeps)
    fix e ch assume "e \<in> set (flatListEntries qc ws (ch_client ch1))"
    then have "issue_part (fst e) = Some (KStr ''flat'')" using flat_entries [OF ok] by (metis prod.collapse)
    then have "key \<noteq> fst e" using part by auto
    then show "keeps qc key ch (change_flat qc i p changed base e ch)" by (rule change_flat_keeps [OF ok])
  qed
  moreover have "keeps qc key ch2 ch3"
    unfolding ch3_def
  proof (rule fold_keeps)
    fix e ch assume "e \<in> set (tableRowEntries qc ws (ch_client ch2))"
    then have "issue_part (fst e) = Some (KStr ''table-query'')" using table_entries [OF ok] by (metis prod.collapse)
    then have "key \<noteq> fst e" using part by auto
    then show "keeps qc key ch (change_table qc i p e ch)" by (rule change_table_keeps [OF ok])
  qed
  moreover have "keeps qc key ch3 (change_detail qc ws i p ch3)"
    using part key_parts(5) by (intro change_detail_keeps [OF ok]) auto
  moreover have "keeps qc key (change_detail qc ws i p ch3) (change_inbox qc ws i p (change_detail qc ws i p ch3))"
    using bucketed_not_inbox [of key ws] part by (intro change_inbox_keeps [OF ok]) (auto simp: bucketed_key_def)
  ultimately have "keeps qc key ch1 (change_inbox qc ws i p (change_detail qc ws i p ch3))"
    by (blast intro: keeps_trans)
  then show ?thesis by (simp add: applyIssueChange_def Let_def ch1_def ch2_def ch3_def)
qed

end
