(* ===== verification/Issue_Properties.thy ===== *)
theory Issue_Properties
  imports Issue_Client
begin

text \<open>
  The guarantees of the issue cache coordinator, with a concrete query client on which their
  hypotheses hold.
\<close>

section \<open>Snapshots\<close>

text \<open>
  What every stage preserves: each snapshot is what the cache held before the change, and a
  cache without a snapshot, the archived inbox aside, is as it was.
\<close>

definition snapshot_keys :: "jstr \<Rightarrow> jstr \<Rightarrow> 'q change \<Rightarrow> query_key set" where
  "snapshot_keys ws i ch =
     fst ` set (prevLists ch) \<union> fst ` set (prevFlatLists ch) \<union> fst ` set (prevTableRows ch)
     \<union> (if prevDetail ch = None then {} else {issue_detail ws i})
     \<union> (if prevInboxList ch = None then {} else {inbox_list ws})"

definition snapshots_ok :: "'q query_client \<Rightarrow> jstr \<Rightarrow> jstr \<Rightarrow> 'q \<Rightarrow> 'q change \<Rightarrow> bool" where
  "snapshots_ok qc ws i q0 ch =
     ((\<forall>(k, c) \<in> set (prevLists ch). getQueryData qc q0 k = Some (DBuckets c))
      \<and> (\<forall>(k, pages, rest) \<in> set (prevFlatLists ch). getQueryData qc q0 k = Some (DFlat pages rest))
      \<and> (\<forall>(k, rows, rest) \<in> set (prevTableRows ch). getQueryData qc q0 k = Some (DTable rows rest))
      \<and> (\<forall>d. prevDetail ch = Some d \<longrightarrow> getQueryData qc q0 (issue_detail ws i) = Some (DIssue d))
      \<and> (\<forall>l. prevInboxList ch = Some l \<longrightarrow> getQueryData qc q0 (inbox_list ws) = Some (DInbox l)))"

definition restorable :: "'q query_client \<Rightarrow> jstr \<Rightarrow> jstr \<Rightarrow> 'q \<Rightarrow> 'q change \<Rightarrow> bool" where
  "restorable qc ws i q0 ch =
     (snapshots_ok qc ws i q0 ch
      \<and> (\<forall>k. k = inbox_archived ws \<or> k \<in> snapshot_keys ws i ch
           \<or> getQueryData qc (ch_client ch) k = getQueryData qc q0 k))"

lemma fold_set_get:
  assumes ok: "query_client_ok qc" and "\<forall>(k', d) \<in> set xs. getQueryData qc q0 k' = Some (F d)"
  shows "getQueryData qc (fold (\<lambda>(k, d). setQueryData qc k (F d)) xs q) k
    = (if k \<in> fst ` set xs then getQueryData qc q0 k else getQueryData qc q k)"
  using assms(2) by (induction xs arbitrary: q) (auto simp: client_get_set [OF ok])

lemma rollback_get:
  assumes ok: "query_client_ok qc" and snap: "snapshots_ok qc ws i q0 ch"
  shows "getQueryData qc (rollbackIssueChange qc ws i ch r) k
    = (if k \<in> snapshot_keys ws i ch then getQueryData qc q0 k else getQueryData qc r k)"
proof -
  let ?flat = "\<lambda>(pages, rest). DFlat pages rest"
  let ?table = "\<lambda>(rows, rest). DTable rows rest"
  have lists: "\<forall>(k', d) \<in> set (prevLists ch). getQueryData qc q0 k' = Some (DBuckets d)"
    and flats: "\<forall>(k', d) \<in> set (prevFlatLists ch). getQueryData qc q0 k' = Some (?flat d)"
    and tables: "\<forall>(k', d) \<in> set (prevTableRows ch). getQueryData qc q0 k' = Some (?table d)"
    using snap by (auto simp: snapshots_ok_def)
  define q1 where "q1 = fold (\<lambda>(k, d). setQueryData qc k (DBuckets d)) (prevLists ch) r"
  define q2 where "q2 = fold (\<lambda>(k, d). setQueryData qc k (?flat d)) (prevFlatLists ch) q1"
  define q3 where "q3 = fold (\<lambda>(k, d). setQueryData qc k (?table d)) (prevTableRows ch) q2"
  have "(\<lambda>(key, pages, rest). setQueryData qc key (DFlat pages rest)) = (\<lambda>(k, d). setQueryData qc k (?flat d))"
    "(\<lambda>(key, rows, rest). setQueryData qc key (DTable rows rest)) = (\<lambda>(k, d). setQueryData qc k (?table d))"
    by auto
  note shape = this
  have roll: "rollbackIssueChange qc ws i ch r =
      (let q4 = (case prevDetail ch of None \<Rightarrow> q3
         | Some d \<Rightarrow> setQueryData qc (issue_detail ws i) (DIssue d) q3)
       in case prevInboxList ch of None \<Rightarrow> q4
          | Some l \<Rightarrow> setQueryData qc (inbox_list ws) (DInbox l) q4)"
    unfolding rollbackIssueChange_def q1_def q2_def q3_def Let_def shape by (rule refl)
  have q3: "getQueryData qc q3 k = (if k \<in> fst ` set (prevTableRows ch) \<union> fst ` set (prevFlatLists ch) \<union> fst ` set (prevLists ch)
      then getQueryData qc q0 k else getQueryData qc r k)"
    unfolding q3_def q2_def q1_def fold_set_get [OF ok tables] fold_set_get [OF ok flats] fold_set_get [OF ok lists]
    by auto
  show ?thesis
    unfolding roll Let_def using q3 snap
    by (auto simp: client_get_set [OF ok] snapshot_keys_def snapshots_ok_def split: option.splits)
qed

lemma rollback_restores:
  assumes ok: "query_client_ok qc" and r: "restorable qc ws i q0 ch" and k: "k \<noteq> inbox_archived ws"
  shows "getQueryData qc (rollbackIssueChange qc ws i ch (ch_client ch)) k = getQueryData qc q0 k"
proof -
  have "snapshots_ok qc ws i q0 ch"
    "k \<in> snapshot_keys ws i ch \<or> getQueryData qc (ch_client ch) k = getQueryData qc q0 k"
    using r k by (auto simp: restorable_def)
  then show ?thesis by (auto simp: rollback_get [OF ok])
qed

text \<open>The stages.\<close>

lemma restorable_start: "restorable qc ws i q (change_start base q)"
  by (simp add: restorable_def snapshots_ok_def change_start_def)

lemma restorable_list:
  assumes ok: "query_client_ok qc" and r: "restorable qc ws i q0 ch"
    and e: "getQueryData qc q0 key = Some (DBuckets data)"
  shows "restorable qc ws i q0 (change_list qc i p changed base (key, data) ch)"
proof -
  obtain nxt stale where res: "reconcile_list i p changed base key data = (nxt, stale)" by (metis surj_pair)
  note eff = change_list_effect [OF ok res]
  show ?thesis
    using r e by (cases nxt) (auto simp: restorable_def snapshots_ok_def snapshot_keys_def eff)
qed

lemma restorable_flat:
  assumes ok: "query_client_ok qc" and r: "restorable qc ws i q0 ch"
    and e: "getQueryData qc q0 key = Some (DFlat pages rest)"
  shows "restorable qc ws i q0 (change_flat qc i p changed base (key, pages, rest) ch)"
  using r e by (auto simp: restorable_def snapshots_ok_def snapshot_keys_def change_flat_def Let_def client_get_set [OF ok])

lemma restorable_table:
  assumes ok: "query_client_ok qc" and r: "restorable qc ws i q0 ch"
    and e: "getQueryData qc q0 key = Some (DTable rows rest)"
  shows "restorable qc ws i q0 (change_table qc i p (key, rows, rest) ch)"
  using r e by (auto simp: restorable_def snapshots_ok_def snapshot_keys_def change_table_def Let_def client_get_set [OF ok])

text \<open>Stages write only their own kind of cache.\<close>

definition only_parts :: "'q query_client \<Rightarrow> jstr set \<Rightarrow> 'q \<Rightarrow> 'q \<Rightarrow> bool" where
  "only_parts qc parts a b =
     (\<forall>k. (\<forall>x \<in> parts. issue_part k \<noteq> Some (KStr x)) \<longrightarrow> getQueryData qc b k = getQueryData qc a k)"

lemma list_stage:
  assumes ok: "query_client_ok qc"
    and ch1_def: "ch1 = fold (change_list qc i p changed base) (bucketedListEntries qc ws q) (change_start base q)"
  shows "restorable qc ws i q ch1" "only_parts qc {''list'', ''my''} q (ch_client ch1)"
    "prevDetail ch1 = None \<and> prevInboxList ch1 = None"
proof -
  have "restorable qc ws i q ch1 \<and> only_parts qc {''list'', ''my''} q (ch_client ch1)
      \<and> prevDetail ch1 = None \<and> prevInboxList ch1 = None"
    unfolding ch1_def
  proof (rule fold_inv [of _ "\<lambda>ch. restorable qc ws i q ch \<and> only_parts qc {''list'', ''my''} q (ch_client ch)
      \<and> prevDetail ch = None \<and> prevInboxList ch = None"])
    fix e and ch :: "'a change"
    assume e: "e \<in> set (bucketedListEntries qc ws q)"
      and I: "restorable qc ws i q ch \<and> only_parts qc {''list'', ''my''} q (ch_client ch)
        \<and> prevDetail ch = None \<and> prevInboxList ch = None"
    obtain key data nxt stale where kd: "e = (key, data)" "reconcile_list i p changed base key data = (nxt, stale)"
      by (metis surj_pair)
    from bucketed_entries(1) [OF ok e [unfolded kd(1)]] have b: "getQueryData qc q key = Some (DBuckets data)"
      "bucketed_key key" by auto
    note eff = change_list_effect [OF ok kd(2)]
    have "only_parts qc {''list'', ''my''} q (ch_client (change_list qc i p changed base e ch))"
      using I b(2) unfolding kd(1) by (auto simp: only_parts_def eff bucketed_key_def)
    then show "restorable qc ws i q (change_list qc i p changed base e ch)
        \<and> only_parts qc {''list'', ''my''} q (ch_client (change_list qc i p changed base e ch))
        \<and> prevDetail (change_list qc i p changed base e ch) = None
        \<and> prevInboxList (change_list qc i p changed base e ch) = None"
      using I restorable_list [OF ok _ b(1)] unfolding kd(1) by (simp add: eff)
  qed (simp add: restorable_start, simp add: only_parts_def change_start_def)
  then show "restorable qc ws i q ch1" "only_parts qc {''list'', ''my''} q (ch_client ch1)"
    "prevDetail ch1 = None \<and> prevInboxList ch1 = None" by simp_all
qed

lemma flat_stage:
  assumes ok: "query_client_ok qc" and I0: "restorable qc ws i q ch1" "only_parts qc {''list'', ''my''} q (ch_client ch1)"
    "prevDetail ch1 = None \<and> prevInboxList ch1 = None"
    and ch2_def: "ch2 = fold (change_flat qc i p changed base) (flatListEntries qc ws (ch_client ch1)) ch1"
  shows "restorable qc ws i q ch2" "only_parts qc {''list'', ''my'', ''flat''} q (ch_client ch2)"
    "prevDetail ch2 = None \<and> prevInboxList ch2 = None"
proof -
  let ?I = "\<lambda>ch. restorable qc ws i q ch \<and> only_parts qc {''list'', ''my'', ''flat''} q (ch_client ch)
    \<and> prevDetail ch = None \<and> prevInboxList ch = None"
  have "?I ch2"
    unfolding ch2_def
  proof (rule fold_inv [of _ ?I])
    fix e and ch :: "'a change"
    assume e: "e \<in> set (flatListEntries qc ws (ch_client ch1))" and I: "?I ch"
    obtain key pages rest where kd: "e = (key, pages, rest)" by (metis surj_pair)
    from flat_entries [OF ok e [unfolded kd]] I0(2) have b: "getQueryData qc q key = Some (DFlat pages rest)"
      "issue_part key = Some (KStr ''flat'')" by (auto simp: only_parts_def)
    have "only_parts qc {''list'', ''my'', ''flat''} q (ch_client (change_flat qc i p changed base e ch))"
      using I b(2) unfolding kd by (auto simp: only_parts_def change_flat_def Let_def client_get_set [OF ok])
    moreover have "prevDetail (change_flat qc i p changed base e ch) = None
        \<and> prevInboxList (change_flat qc i p changed base e ch) = None"
      using I unfolding kd by (simp add: change_flat_def Let_def)
    ultimately show "?I (change_flat qc i p changed base e ch)"
      using I restorable_flat [OF ok _ b(1)] unfolding kd by blast
  qed (use I0 in \<open>auto simp: only_parts_def\<close>)
  then show "restorable qc ws i q ch2" "only_parts qc {''list'', ''my'', ''flat''} q (ch_client ch2)"
    "prevDetail ch2 = None \<and> prevInboxList ch2 = None" by simp_all
qed

lemma table_stage:
  assumes ok: "query_client_ok qc" and I0: "restorable qc ws i q ch2"
    "only_parts qc {''list'', ''my'', ''flat''} q (ch_client ch2)" "prevDetail ch2 = None \<and> prevInboxList ch2 = None"
    and ch3_def: "ch3 = fold (change_table qc i p) (tableRowEntries qc ws (ch_client ch2)) ch2"
  shows "restorable qc ws i q ch3" "only_parts qc {''list'', ''my'', ''flat'', ''table-query''} q (ch_client ch3)"
    "prevDetail ch3 = None \<and> prevInboxList ch3 = None"
proof -
  let ?I = "\<lambda>ch. restorable qc ws i q ch
    \<and> only_parts qc {''list'', ''my'', ''flat'', ''table-query''} q (ch_client ch)
    \<and> prevDetail ch = None \<and> prevInboxList ch = None"
  have "?I ch3"
    unfolding ch3_def
  proof (rule fold_inv [of _ ?I])
    fix e and ch :: "'a change"
    assume e: "e \<in> set (tableRowEntries qc ws (ch_client ch2))" and I: "?I ch"
    obtain key rows rest where kd: "e = (key, rows, rest)" by (metis surj_pair)
    from table_entries [OF ok e [unfolded kd]] I0(2) have b: "getQueryData qc q key = Some (DTable rows rest)"
      "issue_part key = Some (KStr ''table-query'')" by (auto simp: only_parts_def)
    have "only_parts qc {''list'', ''my'', ''flat'', ''table-query''} q (ch_client (change_table qc i p e ch))"
      using I b(2) unfolding kd by (auto simp: only_parts_def change_table_def Let_def client_get_set [OF ok])
    moreover have "prevDetail (change_table qc i p e ch) = None \<and> prevInboxList (change_table qc i p e ch) = None"
      using I unfolding kd by (simp add: change_table_def Let_def)
    ultimately show "?I (change_table qc i p e ch)"
      using I restorable_table [OF ok _ b(1)] unfolding kd by blast
  qed (use I0 in \<open>auto simp: only_parts_def\<close>)
  then show "restorable qc ws i q ch3" "only_parts qc {''list'', ''my'', ''flat'', ''table-query''} q (ch_client ch3)"
    "prevDetail ch3 = None \<and> prevInboxList ch3 = None" by simp_all
qed

lemma detail_stage:
  assumes ok: "query_client_ok qc" and I0: "restorable qc ws i q ch3"
    "only_parts qc {''list'', ''my'', ''flat'', ''table-query''} q (ch_client ch3)"
    "prevDetail ch3 = None \<and> prevInboxList ch3 = None"
  shows "restorable qc ws i q (change_detail qc ws i p ch3)"
    "only_parts qc {''list'', ''my'', ''flat'', ''table-query'', ''detail''} q (ch_client (change_detail qc ws i p ch3))"
    "prevInboxList (change_detail qc ws i p ch3) = None"
proof -
  have here: "getQueryData qc (ch_client ch3) (issue_detail ws i) = getQueryData qc q (issue_detail ws i)"
    using I0(2) by (simp add: only_parts_def key_parts(5))
  show "restorable qc ws i q (change_detail qc ws i p ch3)"
    using I0 here
    by (auto simp: change_detail_def restorable_def snapshots_ok_def snapshot_keys_def client_get_set [OF ok]
        split: option.splits cache_data.splits)
  show "only_parts qc {''list'', ''my'', ''flat'', ''table-query'', ''detail''} q (ch_client (change_detail qc ws i p ch3))"
    using I0(2)
    by (auto simp: change_detail_def only_parts_def client_get_set [OF ok] key_parts(5)
        split: option.splits cache_data.splits)
  show "prevInboxList (change_detail qc ws i p ch3) = None"
    using I0(3) by (simp add: change_detail_def split: option.splits cache_data.splits)
qed

lemma inbox_stage:
  assumes ok: "query_client_ok qc" and I0: "restorable qc ws i q ch"
    "only_parts qc parts q (ch_client ch)" "prevInboxList ch = None"
  shows "restorable qc ws i q (change_inbox qc ws i p ch)"
proof -
  have here: "getQueryData qc (ch_client ch) (inbox_list ws) = getQueryData qc q (inbox_list ws)"
    using I0(2) by (simp add: only_parts_def inbox_part)
  have patched: "getQueryData qc (patchInboxIssueStatus qc ws i st q') k = getQueryData qc q' k"
    if "k \<noteq> inbox_list ws" "k \<noteq> inbox_archived ws" for st q' k
    using that by (simp add: patchInboxIssueStatus_def update_inbox_get [OF ok])
  show ?thesis
  proof (cases "change_inbox qc ws i p ch = ch")
    case True
    then show ?thesis using I0(1) by simp
  next
    case False
    then obtain st items where st: "getQueryData qc (ch_client ch) (inbox_list ws) = Some (DInbox items)"
      "change_inbox qc ws i p ch = ch\<lparr>prevInboxList := Some items,
         ch_client := patchInboxIssueStatus qc ws i st (ch_client ch)\<rparr>"
      by (auto simp: change_inbox_def split: option.splits cache_data.splits)
    have "snapshots_ok qc ws i q (change_inbox qc ws i p ch)"
      using I0(1) st(1) here by (simp add: st(2) restorable_def snapshots_ok_def)
    moreover have "snapshot_keys ws i (change_inbox qc ws i p ch) = insert (inbox_list ws) (snapshot_keys ws i ch)"
      using I0(3) by (simp add: st(2) snapshot_keys_def)
    moreover have "\<forall>k. k = inbox_archived ws \<or> k \<in> snapshot_keys ws i ch
        \<or> getQueryData qc (ch_client ch) k = getQueryData qc q k"
      using I0(1) by (simp add: restorable_def)
    ultimately show ?thesis
      unfolding restorable_def using patched [of _ st "ch_client ch"]
      by (simp add: st(2)) metis
  qed
qed

lemma change_restorable:
  assumes ok: "query_client_ok qc"
  shows "restorable qc ws i q (applyIssueChange qc ws i p changed base q)"
proof -
  define ch1 where "ch1 = fold (change_list qc i p changed base) (bucketedListEntries qc ws q) (change_start base q)"
  define ch2 where "ch2 = fold (change_flat qc i p changed base) (flatListEntries qc ws (ch_client ch1)) ch1"
  define ch3 where "ch3 = fold (change_table qc i p) (tableRowEntries qc ws (ch_client ch2)) ch2"
  note s1 = list_stage [OF ok ch1_def]
  note s2 = flat_stage [OF ok s1 ch2_def]
  note s3 = table_stage [OF ok s2 ch3_def]
  note s4 = detail_stage [OF ok s3, of p]
  from inbox_stage [OF ok s4, of p] show ?thesis
    by (simp add: applyIssueChange_def Let_def ch1_def ch2_def ch3_def)
qed

text \<open>The archived inbox list is patched with the inbox list, and has no snapshot.\<close>

lemma inbox_keys: "inbox_list ws \<noteq> inbox_archived ws" "inbox_list ws \<noteq> issue_detail ws i"
  "inbox_archived ws \<noteq> issue_detail ws i"
  by (simp_all add: inbox_list_def inbox_archived_def issue_detail_def issue_all_def)

lemma archived_after_change:
  assumes ok: "query_client_ok qc"
    and arch: "getQueryData qc q (inbox_archived ws) = Some (DInbox archived)"
    and inbox: "getQueryData qc q (inbox_list ws) = Some (DInbox items)" and st: "p_status p = Some st"
  shows "getQueryData qc (ch_client (applyIssueChange qc ws i p changed base q)) (inbox_archived ws)
    = Some (DInbox (patch_inbox i st archived))"
proof -
  define ch1 where "ch1 = fold (change_list qc i p changed base) (bucketedListEntries qc ws q) (change_start base q)"
  define ch2 where "ch2 = fold (change_flat qc i p changed base) (flatListEntries qc ws (ch_client ch1)) ch1"
  define ch3 where "ch3 = fold (change_table qc i p) (tableRowEntries qc ws (ch_client ch2)) ch2"
  note s1 = list_stage [OF ok ch1_def]
  note s2 = flat_stage [OF ok s1 ch2_def]
  note s3 = table_stage [OF ok s2 ch3_def]
  let ?ch4 = "change_detail qc ws i p ch3"
  from detail_stage(2) [OF ok s3, of p]
  have "getQueryData qc (ch_client ?ch4) (inbox_list ws) = Some (DInbox items)"
    "getQueryData qc (ch_client ?ch4) (inbox_archived ws) = Some (DInbox archived)"
    using arch inbox by (simp_all add: only_parts_def inbox_part)
  then have "getQueryData qc (ch_client (change_inbox qc ws i p ?ch4)) (inbox_archived ws)
      = Some (DInbox (patch_inbox i st archived))"
    using inbox_keys(1) [of ws]
    by (simp add: change_inbox_def st patchInboxIssueStatus_def update_inbox_def client_get_set [OF ok])
  then show ?thesis by (simp add: applyIssueChange_def Let_def ch1_def ch2_def ch3_def)
qed

section \<open>A concrete client\<close>

text \<open>The cache as an association list, newest entry first.\<close>

definition list_client :: "(query_key \<times> cache_data) list query_client" where
  "list_client =
     \<lparr>getQueryData = map_of,
      setQueryData = (\<lambda>k d q. (k, d) # q),
      getQueriesData = (\<lambda>p q. map (\<lambda>k. (k, map_of q k)) (filter (prefix p) (remdups (map fst q))))\<rparr>"

lemma list_client_ok: "query_client_ok list_client"
proof -
  have keys: "map fst (map (\<lambda>k. (k, f k)) ks) = ks" for ks and f :: "query_key \<Rightarrow> cache_data option"
    by (induction ks) simp_all
  show ?thesis
    unfolding query_client_ok_def list_client_def query_client.simps keys
    by (auto simp: map_of_eq_None_iff)
qed

text \<open>A workspace with two issues, its plain list, and both inbox lists.\<close>

definition some_issue :: "jstr \<Rightarrow> IssueStatus \<Rightarrow> rat \<Rightarrow> issue" where
  "some_issue i st pos =
     \<lparr>iss_id = i, iss_title = ''Task'', iss_status = st, iss_priority = Medium, iss_assignee_type = None,
      iss_assignee_id = None, iss_creator_id = ''u1'', iss_parent_issue_id = None, iss_project_id = None,
      iss_position = pos, iss_start_date = None, iss_due_date = None, iss_created_at = ''2026-01-01'',
      iss_updated_at = ''2026-01-01'', iss_other = []\<rparr>"

definition some_db :: "issue list" where
  "some_db = [some_issue ''i1'' Todo 1, some_issue ''i2'' Done 2]"

definition some_cache :: list_cache where
  "some_cache = [(Todo, \<lparr>b_issues = [some_issue ''i1'' Todo 1], b_total = 1\<rparr>),
                 (Done, \<lparr>b_issues = [], b_total = 1\<rparr>)]"

definition some_item :: inbox_item where
  "some_item = \<lparr>ib_id = ''n1'', ib_issue_id = Some ''i1'', ib_issue_status = Some Todo, ib_read = False,
     ib_archived = False, ib_created_at = ''2026-01-01'', ib_comment_id = None, ib_rest = []\<rparr>"

definition some_key :: query_key where
  "some_key = issue_listSorted ''ws'' empty_bag"

definition some_queries :: "(query_key \<times> cache_data) list" where
  "some_queries = [(some_key, DBuckets some_cache), (inbox_list ''ws'', DInbox [some_item]),
     (inbox_archived ''ws'', DInbox [some_item\<lparr>ib_archived := True\<rparr>])]"

definition to_done :: issue_patch where
  "to_done = no_patch\<lparr>p_status := Some Done\<rparr>"

lemmas some_defs = some_issue_def some_db_def some_cache_def some_item_def some_queries_def to_done_def no_patch_def

lemma some_accurate: "accurate some_db (\<lambda>_. True) some_cache"
  by code_simp

lemma listed_everywhere: "listed_by (\<lambda>_. True) (\<lambda>_. True) = (\<lambda>_. True)"
  by (simp add: listed_by_def fun_eq_iff)

lemma some_contract: "server_contract (\<lambda>_. True) None empty_bag"
  by (simp add: server_contract_def issueMatchesListFilter_def empty_bag_def all_members_def filter_field_def)

lemma some_inside: "accurate some_db (listed_by (\<lambda>_. True) (\<lambda>_. True)) some_cache"
  by (simp add: listed_everywhere some_accurate)

lemma some_reads:
  "getQueryData list_client some_queries some_key = Some (DBuckets some_cache)"
  "getQueryData list_client some_queries (inbox_list ''ws'') = Some (DInbox [some_item])"
  "getQueryData list_client some_queries (inbox_archived ''ws'') = Some (DInbox [some_item\<lparr>ib_archived := True\<rparr>])"
  by (simp_all add: list_client_def some_queries_def some_key_def key_defs)

lemma some_contract_key: "listContractFromKey some_key = (None, empty_bag, empty_bag)"
  by (simp add: some_key_def listContractFromKey_def key_defs nth_part_def part_bag_def)

section \<open>Properties\<close>

text \<open>What a change makes of one bucketed list.\<close>

lemma change_one_list:
  assumes ok: "query_client_ok qc" and key: "prefix (issue_list ws) key \<or> prefix (issue_myAll ws) key"
    and data: "getQueryData qc q key = Some (DBuckets c)"
    and ch: "ch = applyIssueChange qc ws k p changed base q"
    and res: "reconcile_list k p changed base key c = (nxt, stale)"
  shows "getQueryData qc (ch_client ch) key = Some (DBuckets (case nxt of None \<Rightarrow> c | Some c' \<Rightarrow> c'))"
    "set stale \<subseteq> set (staleKeys ch)"
proof -
  let ?f = "change_list qc k p changed base"
  note entries = bucketed_entries [OF ok]
  have "getQueryData qc (ch_client (change_start base q)) key = Some (DBuckets c)"
    using data by (simp add: change_start_def)
  from fold_change_list [OF ok entries(3) entries(2) [OF key data] this res]
  have one: "getQueryData qc (ch_client (fold ?f (bucketedListEntries qc ws q) (change_start base q))) key
      = Some (DBuckets (case nxt of None \<Rightarrow> c | Some c' \<Rightarrow> c'))"
    "set stale \<subseteq> set (staleKeys (fold ?f (bucketedListEntries qc ws q) (change_start base q)))" by auto
  with later_stages_keep [OF ok key, of k p changed base q]
  show "getQueryData qc (ch_client ch) key = Some (DBuckets (case nxt of None \<Rightarrow> c | Some c' \<Rightarrow> c'))"
    "set stale \<subseteq> set (staleKeys ch)" by (auto simp: keeps_def ch)
qed

lemma change_keeps_list:
  assumes "query_client_ok qc" "prefix (issue_list ws) key \<or> prefix (issue_myAll ws) key"
    "getQueryData qc q key = Some (DBuckets c)"
  shows "\<exists>c'. getQueryData qc (ch_client (applyIssueChange qc ws k p changed base q)) key = Some (DBuckets c')"
proof -
  obtain nxt stale where "reconcile_list k p changed base key c = (nxt, stale)" by (metis surj_pair)
  from change_one_list(1) [OF assms refl this] show ?thesis by blast
qed

text \<open>The change as a whole, for any changed dimensions that cover the patch.\<close>

lemma change_coherent:
  assumes ok: "query_client_ok qc" and db: "distinct (map iss_id db)" "old \<in> set db" "iss_id old = k"
    and base: "known_as scope f base old" and dims: "dims_cover scope f changed p old"
    and creator: "iss_creator_id (merge_issue old p) = iss_creator_id old"
    and key: "prefix (issue_list ws) key \<or> prefix (issue_myAll ws) key" "listContractFromKey key = (scope, f, srt)"
    and srv: "judged mem scope f old (merge_issue old p)"
    and data: "getQueryData qc q key = Some (DBuckets c)" "accurate db mem c"
    and ch: "ch = applyIssueChange qc ws k p changed base q"
  shows "\<exists>c'. getQueryData qc (ch_client ch) key = Some (DBuckets c')
    \<and> (key \<in> set (staleKeys ch) \<or> accurate (server_patch k p db) mem c')"
proof -
  obtain nxt stale where res: "reconcile_list k p changed base key c = (nxt, stale)"
    by (metis surj_pair)
  from change_one_list [OF ok key(1) data(1) ch res] reconcile_accurate [OF db base dims creator key(2) srv data(2) res]
  show ?thesis by blast
qed

text \<open>C2: after an issue change, whoever made it, a bucketed list of the workspace that was right
  before agrees with the server's new state (every loaded row a member with its bucket's status,
  every total the number of members) or its key is among the keys reported stale, provided that
  the server filters by assignee, creator and project as the list's key says, that the creator does
  not change, that the pre-change entity is known exactly or not at all, and that the issue is inside
  the date window and the property filter of the list (\<open>win\<close>) before and after the change. A list
  without such a window or filter has a \<open>win\<close> that is always true, and the last condition is void.\<close>

theorem issue_change_coherent:
  assumes ok: "query_client_ok qc" and db: "distinct (map iss_id db)" "old \<in> set db" "iss_id old = k"
    and base: "base = None \<or> base = Some old"
    and creator: "iss_creator_id (merge_issue old p) = iss_creator_id old"
    and key: "prefix (issue_list ws) key \<or> prefix (issue_myAll ws) key" "listContractFromKey key = (scope, f, srt)"
    and srv: "server_contract rel scope f" and inside: "win old" "win (merge_issue old p)"
    and data: "getQueryData qc q key = Some (DBuckets c)" "accurate db (listed_by rel win) c"
    and ch: "ch = applyIssueChange qc ws k p (issueChangedDims p base) base q"
  shows "key \<in> set (staleKeys ch)
    \<or> (\<exists>c'. getQueryData qc (ch_client ch) key = Some (DBuckets c')
          \<and> accurate (server_patch k p db) (listed_by rel win) c')"
  using change_coherent [OF ok db known_base [OF base] computed_dims_cover [OF base] creator key
      judged_inside [OF srv inside] data ch] by blast

theorem issue_change_coherent_witness:
  "let base = Some (some_issue ''i1'' Todo 1);
       ch = applyIssueChange list_client ''ws'' ''i1'' to_done (issueChangedDims to_done base) base some_queries
   in some_key \<in> set (staleKeys ch)
      \<or> (\<exists>c'. getQueryData list_client (ch_client ch) some_key = Some (DBuckets c')
            \<and> accurate (server_patch ''i1'' to_done some_db) (listed_by (\<lambda>_. True) (\<lambda>_. True)) c')"
proof -
  let ?old = "some_issue ''i1'' Todo 1"
  have db: "distinct (map iss_id some_db)" "?old \<in> set some_db" "iss_id ?old = ''i1''"
    by (simp_all add: some_defs)
  have creator: "iss_creator_id (merge_issue ?old to_done) = iss_creator_id ?old"
    by (simp add: some_defs merge_issue_def over_def)
  have key: "prefix (issue_list ''ws'') some_key \<or> prefix (issue_myAll ''ws'') some_key"
    by (simp add: some_key_def issue_listSorted_def)
  show ?thesis
    unfolding Let_def
    by (rule issue_change_coherent [where rel = "\<lambda>_. True" and win = "\<lambda>_. True", OF list_client_ok db _ creator key some_contract_key some_contract
          TrueI TrueI some_reads(1) some_inside refl]) simp
qed

text \<open>Rolling an optimistic change back restores every cache of the client except the
  archived inbox list: lists, flat windows, table rows, the detail entity and the inbox list
  read exactly as before the change.\<close>

theorem rollback_restores_all:
  assumes "query_client_ok qc" "key \<noteq> inbox_archived ws"
    and "ch = applyIssueChange qc ws k p changed base q"
  shows "getQueryData qc (rollbackIssueChange qc ws k ch (ch_client ch)) key = getQueryData qc q key"
  unfolding assms(3) by (rule rollback_restores [OF assms(1) change_restorable [OF assms(1)] assms(2)])

theorem rollback_restores_all_witness:
  "getQueryData list_client
     (rollbackIssueChange list_client ''ws'' ''i1''
        (applyIssueChange list_client ''ws'' ''i1'' to_done (issueChangedDims to_done None) None some_queries)
        (ch_client (applyIssueChange list_client ''ws'' ''i1'' to_done (issueChangedDims to_done None) None some_queries)))
     some_key = Some (DBuckets some_cache)"
proof -
  have "some_key \<noteq> inbox_archived ''ws''" by (simp add: some_key_def key_defs)
  from rollback_restores_all [OF list_client_ok this refl] some_reads(1) show ?thesis by simp
qed

text \<open>The archived inbox list is not rolled back: where both inbox lists are loaded, a status
  change patches both, and after the rollback the archived items of the issue still carry the
  status that was rolled back.\<close>

theorem archived_inbox_not_rolled_back:
  assumes ok: "query_client_ok qc"
    and arch: "getQueryData qc q (inbox_archived ws) = Some (DInbox archived)"
    and inbox: "getQueryData qc q (inbox_list ws) = Some (DInbox items)" and st: "p_status p = Some st"
    and ch: "ch = applyIssueChange qc ws k p changed base q"
  shows "getQueryData qc (rollbackIssueChange qc ws k ch (ch_client ch)) (inbox_archived ws)
    = Some (DInbox (patch_inbox k st archived))"
proof -
  have snap: "snapshots_ok qc ws k q ch" using change_restorable [OF ok] by (simp add: restorable_def ch)
  then have "inbox_archived ws \<notin> snapshot_keys ws k ch"
    using arch inbox_keys inbox_keys(1) [symmetric] by (auto simp: snapshot_keys_def snapshots_ok_def)
  then show ?thesis
    using archived_after_change [OF ok arch inbox st] unfolding rollback_get [OF ok snap]
    by (simp add: ch)
qed

theorem archived_inbox_not_rolled_back_witness:
  "let ch = applyIssueChange list_client ''ws'' ''i1'' to_done (issueChangedDims to_done None) None some_queries
   in getQueryData list_client (rollbackIssueChange list_client ''ws'' ''i1'' ch (ch_client ch)) (inbox_archived ''ws'')
      = Some (DInbox [some_item\<lparr>ib_archived := True, ib_issue_status := Some Done\<rparr>])"
proof -
  have "p_status to_done = Some Done" by (simp add: to_done_def)
  from archived_inbox_not_rolled_back [OF list_client_ok some_reads(3,2) this refl]
  show ?thesis by (simp add: Let_def patch_inbox_def some_item_def)
qed

end
