(* ===== verification/Flag_Hash.thy ===== *)
theory Flag_Hash
  imports JS_Prelude "HOL-Library.Word" Complex_Main
begin

text \<open>
  The signed 32-bit operators of the language on ordinary integers, and their meaning on
  unsigned 32-bit words.
\<close>

unbundle bit_operations_syntax

section \<open>The operators of the language\<close>

text \<open>\<open>ToInt32\<close>, \<open>^\<close>, \<open><<\<close> by less than 32, \<open>Math.imul\<close> and \<open>>>> 0\<close> on integers.\<close>

definition to_int32 :: "int \<Rightarrow> int" where
  "to_int32 n = (n + 2 ^ 31) mod 2 ^ 32 - 2 ^ 31"

definition js_xor :: "int \<Rightarrow> int \<Rightarrow> int" where
  "js_xor a b = to_int32 a XOR to_int32 b"

definition js_shl :: "int \<Rightarrow> nat \<Rightarrow> int" where
  "js_shl a n = to_int32 (to_int32 a * 2 ^ n)"

definition js_imul :: "int \<Rightarrow> int \<Rightarrow> int" where
  "js_imul a b = to_int32 (a * b)"

definition js_to_uint32 :: "int \<Rightarrow> int" where
  "js_to_uint32 a = a mod 2 ^ 32"

section \<open>On words\<close>

lemma word_to_int32: "(word_of_int (to_int32 n) :: 32 word) = word_of_int n"
proof -
  have "to_int32 n mod 2 ^ 32 = n mod 2 ^ 32"
    unfolding to_int32_def by (metis add_diff_cancel_right' mod_diff_left_eq)
  then show ?thesis by (simp add: word_of_int_eq_iff take_bit_eq_mod)
qed

lemma word_xor_of_int: "(word_of_int (a XOR b) :: 32 word) = word_of_int a XOR word_of_int b"
  by transfer simp

lemma word_js_xor: "(word_of_int (js_xor a b) :: 32 word) = word_of_int a XOR word_of_int b"
  by (simp add: js_xor_def word_xor_of_int word_to_int32)

lemma word_js_imul: "(word_of_int (js_imul a b) :: 32 word) = word_of_int a * word_of_int b"
  by (simp add: js_imul_def word_to_int32)

lemma word_js_shl: "(word_of_int (js_shl a n) :: 32 word) = word_of_int a * 2 ^ n"
proof -
  have "(word_of_int (to_int32 a * 2 ^ n) :: 32 word) = word_of_int (to_int32 a) * word_of_int (2 ^ n)"
    by simp
  then show ?thesis by (simp add: js_shl_def word_to_int32)
qed

text \<open>
  The rollout hash of the feature flags (\<open>packages/core/feature-flags/hash.ts\<close>). The code
  computes FNV-1a with the signed 32-bit operators of the language on ordinary numbers; the
  reference is FNV-1a on unsigned 32-bit words, the arithmetic of the server's implementation.
\<close>

unbundle bit_operations_syntax

section \<open>The encoding of strings\<close>

text \<open>\<open>TextEncoder.encode\<close> for code points below 256.\<close>

definition utf8_char :: "char \<Rightarrow> nat list" where
  "utf8_char c = (let n = of_char c in if n < 128 then [n] else [192 + n div 64, 128 + n mod 64])"

definition utf8_encode :: "jstr \<Rightarrow> nat list" where
  "utf8_encode s = concat (map utf8_char s)"

section \<open>The code\<close>

definition hash_byte :: "int \<Rightarrow> nat \<Rightarrow> int" where
  "hash_byte h b = js_imul (js_xor h (int b)) 0x01000193"

text \<open>One turn of the loop over the parts; \<open>p\<close> is the index of the part.\<close>

definition hash_part :: "nat \<Rightarrow> jstr \<Rightarrow> int \<Rightarrow> int" where
  "hash_part p s h =
     (let h1 = (if p > 0 then js_imul (js_xor h 0) 0x01000193 else h)
      in foldl hash_byte h1 (utf8_encode s))"

fun hash_parts :: "nat \<Rightarrow> jstr list \<Rightarrow> int \<Rightarrow> int" where
  "hash_parts p [] h = h"
| "hash_parts p (s # parts) h = hash_parts (Suc p) parts (hash_part p s h)"

definition fnv1a :: "jstr list \<Rightarrow> int" where
  "fnv1a parts = js_to_uint32 (hash_parts 0 parts 0x811c9dc5)"

definition bucketFor :: "jstr \<Rightarrow> jstr \<Rightarrow> int" where
  "bucketFor key identifier = fnv1a [key, identifier] mod 100"

text \<open>Percentages are fractions: a rollout may be configured at 12.5.\<close>

definition inPercent :: "jstr \<Rightarrow> jstr \<Rightarrow> rat \<Rightarrow> bool" where
  "inPercent key identifier percent =
     (if percent \<le> 0 then False
      else if percent \<ge> 100 then True
      else of_int (bucketFor key identifier) < percent)"

section \<open>The reference\<close>

definition fnv_step :: "32 word \<Rightarrow> nat \<Rightarrow> 32 word" where
  "fnv_step h b = (h XOR of_nat b) * 0x01000193"

definition fnv_bytes :: "nat list \<Rightarrow> 32 word" where
  "fnv_bytes bs = foldl fnv_step 0x811c9dc5 bs"

definition hash_input :: "jstr \<Rightarrow> jstr \<Rightarrow> nat list" where
  "hash_input key identifier = utf8_encode key @ 0 # utf8_encode identifier"

lemma word_hash_byte: "word_of_int (hash_byte h b) = fnv_step (word_of_int h) b"
  by (simp add: hash_byte_def fnv_step_def word_js_xor word_js_imul)

lemma word_hash_bytes: "word_of_int (foldl hash_byte h bs) = foldl fnv_step (word_of_int h) bs"
  by (induction bs arbitrary: h) (simp_all add: word_hash_byte)

lemma fnv_separator: "hash_part p s h = foldl hash_byte h ((if p > 0 then [0] else []) @ utf8_encode s)"
  by (simp add: hash_part_def hash_byte_def)

lemma fnv1a_pair: "fnv1a [key, identifier] = uint (fnv_bytes (hash_input key identifier))"
proof -
  let ?h = "foldl hash_byte 0x811c9dc5 (hash_input key identifier)"
  have "hash_parts 0 [key, identifier] 0x811c9dc5 = ?h"
    by (simp add: fnv_separator hash_input_def)
  moreover have "uint (word_of_int ?h :: 32 word) = ?h mod 2 ^ 32"
    by (simp add: uint_word_of_int)
  moreover have "(word_of_int ?h :: 32 word) = fnv_bytes (hash_input key identifier)"
    by (simp add: word_hash_bytes fnv_bytes_def)
  ultimately show ?thesis by (simp add: fnv1a_def js_to_uint32_def)
qed

section \<open>Collisions\<close>

text \<open>A step of the hash is a bijection: the prime is odd, and so has an inverse.\<close>

lemma fnv_prime_inverse: "(0x01000193 :: 32 word) * 0x359c449b = 1"
  by simp

lemma fnv_mult_inj:
  assumes "(a :: 32 word) * 0x01000193 = b * 0x01000193"
  shows "a = b"
proof -
  have undo: "x * 0x01000193 * 0x359c449b = x" for x :: "32 word"
    by (simp only: mult.assoc fnv_prime_inverse mult_1_right)
  show ?thesis using arg_cong [OF assms, of "\<lambda>x. x * 0x359c449b"] by (simp only: undo)
qed

lemma xor_right_inj: "(a :: 32 word) XOR c = b XOR c \<Longrightarrow> a = b"
  by (metis xor.assoc xor_self_eq xor.right_neutral)

lemma fnv_step_hash_inj: "fnv_step h b = fnv_step h' b \<Longrightarrow> h = h'"
  unfolding fnv_step_def by (blast dest: fnv_mult_inj xor_right_inj)

lemma fnv_step_byte_inj:
  assumes "b < 256" "b' < 256" "fnv_step h b = fnv_step h b'"
  shows "b = b'"
proof -
  have "h XOR of_nat b = h XOR of_nat b'" using assms(3) unfolding fnv_step_def by (rule fnv_mult_inj)
  then have "(of_nat b :: 32 word) = of_nat b'" by (metis xor.commute xor_right_inj)
  then have "unat (of_nat b :: 32 word) = unat (of_nat b' :: 32 word)" by simp
  with assms(1,2) show ?thesis by (simp add: unat_of_nat)
qed

lemma foldl_fnv_inj: "foldl fnv_step h bs = foldl fnv_step h' bs \<Longrightarrow> h = h'"
  by (induction bs arbitrary: h h') (auto dest: fnv_step_hash_inj)

lemma fnv_one_byte:
  assumes "x < 256" "y < 256" "x \<noteq> y"
  shows "fnv_bytes (a @ x # z) \<noteq> fnv_bytes (a @ y # z)"
proof
  assume "fnv_bytes (a @ x # z) = fnv_bytes (a @ y # z)"
  then have "fnv_step (fnv_bytes a) x = fnv_step (fnv_bytes a) y"
    by (auto simp: fnv_bytes_def dest: foldl_fnv_inj)
  with fnv_step_byte_inj assms show False by blast
qed

text \<open>The separator makes the hashed bytes determine the pair.\<close>

lemma utf8_char_ne: "utf8_char c \<noteq> []"
  by (simp add: utf8_char_def Let_def)

lemma of_char_256: "(of_char c :: nat) < 256"
  using nat_of_char_less_256 by simp

lemma utf8_char_inj:
  assumes "utf8_char c @ xs = utf8_char d @ ys"
  shows "c = d \<and> xs = ys"
proof -
  let ?n = "of_char c :: nat" and ?m = "of_char d :: nat"
  have "?n = ?m"
  proof -
    have "192 + ?n div 64 \<noteq> ?m" if "?m < 128" using that by linarith
    moreover have "192 + ?m div 64 \<noteq> ?n" if "?n < 128" using that by linarith
    moreover have "?n = ?m" if "?n div 64 = ?m div 64" "?n mod 64 = ?m mod 64"
      using that by (metis div_mult_mod_eq)
    ultimately show ?thesis
      using assms by (auto simp: utf8_char_def Let_def split: if_splits)
  qed
  then have "c = d" by (metis char_of_char)
  with assms show ?thesis by simp
qed

lemma utf8_encode_inj: "utf8_encode s = utf8_encode t \<Longrightarrow> s = t"
proof (induction s arbitrary: t)
  case Nil
  then show ?case using utf8_char_ne by (cases t) (auto simp: utf8_encode_def)
next
  case (Cons c s)
  then obtain d t' where t: "t = d # t'"
    using utf8_char_ne by (cases t) (auto simp: utf8_encode_def)
  from Cons.prems have "c = d \<and> utf8_encode s = utf8_encode t'"
    unfolding t utf8_encode_def by (intro utf8_char_inj) simp
  with Cons.IH t show ?case by blast
qed

lemma utf8_zero: "0 \<in> set (utf8_encode s) \<longleftrightarrow> CHR 0x00 \<in> set s"
proof (induction s)
  case (Cons c s)
  have "of_char c = (0 :: nat) \<longleftrightarrow> c = CHR 0x00"
    using of_char_eq_iff [of c "CHR 0x00", where ?'a = nat] by simp
  then have "0 \<in> set (utf8_char c) \<longleftrightarrow> c = CHR 0x00"
    by (auto simp: utf8_char_def Let_def)
  with Cons show ?case by (auto simp: utf8_encode_def)
qed (simp add: utf8_encode_def)

lemma first_split_unique:
  "a @ x # b = a' @ x # b' \<Longrightarrow> x \<notin> set a \<Longrightarrow> x \<notin> set a' \<Longrightarrow> a = a' \<and> b = b'"
proof (induction a arbitrary: a')
  case Nil
  then show ?case by (cases a') auto
next
  case (Cons y a)
  then show ?case by (cases a') auto
qed

lemma hash_input_inj:
  assumes "CHR 0x00 \<notin> set k" "CHR 0x00 \<notin> set k'" "hash_input k i = hash_input k' i'"
  shows "k = k' \<and> i = i'"
  using first_split_unique [OF assms(3) [unfolded hash_input_def]] assms(1,2)
  by (auto simp: utf8_zero dest: utf8_encode_inj)

end
