(* ===== verification/Flag_Service.thy ===== *)
theory Flag_Service
  imports Flag_Hash JS_Object "HOL-Library.Char_ord" "HOL-Library.List_Lexorder"
begin

text \<open>
  Feature flags (\<open>packages/core/feature-flags/\<close>): decisions, targeting rules, the static
  provider, the chain of providers and the service that asks them. The contract every provider
  of the module keeps is the locale \<open>flag_provider\<close>.
\<close>

section \<open>Types\<close>

datatype Reason = RStatic | RPercent | ROverride | RDefault | RError

record Decision =
  d_key :: jstr
  d_enabled :: bool
  d_variant :: jstr
  d_reason :: Reason
  d_source :: jstr

record EvalContext =
  userId :: "jstr option"
  workspaceId :: "jstr option"
  attributes :: "jstr jsobj option"

record PercentRollout =
  percent :: rat
  by_attr :: "jstr option"

record Rule =
  r_default :: "bool option"
  r_variant :: "jstr option"
  r_allow :: "jstr list option"
  r_allowBy :: "jstr option"
  r_deny :: "jstr list option"
  r_denyBy :: "jstr option"
  r_percent :: "PercentRollout option"

text \<open>A \<open>lookup\<close> method: \<open>None\<close> is \<open>undefined\<close>.\<close>

type_synonym flag_lookup = "jstr \<Rightarrow> EvalContext \<Rightarrow> Decision option"

section \<open>The static provider\<close>

definition boolToVariant :: "bool \<Rightarrow> jstr" where
  "boolToVariant b = (if b then ''on'' else ''off'')"

definition nonEmpty :: "jstr option \<Rightarrow> jstr option" where
  "nonEmpty v = (case v of None \<Rightarrow> None | Some s \<Rightarrow> if s = [] then None else Some s)"

definition lookupAttr :: "EvalContext \<Rightarrow> jstr \<Rightarrow> jstr option" where
  "lookupAttr ctx name =
     (if name = ''user_id'' then nonEmpty (userId ctx)
      else if name = ''workspace_id'' then nonEmpty (workspaceId ctx)
      else nonEmpty (case attributes ctx of None \<Rightarrow> None | Some attrs \<Rightarrow> obj_get attrs name))"

definition decisionFromRule :: "jstr \<Rightarrow> Rule \<Rightarrow> bool \<Rightarrow> Reason \<Rightarrow> Decision" where
  "decisionFromRule key rule enabled reason =
     (let variant = (case r_variant rule of
                       Some v \<Rightarrow> if enabled \<and> v \<noteq> [] then v else boolToVariant enabled
                     | None \<Rightarrow> boolToVariant enabled)
      in \<lparr>d_key = key, d_enabled = enabled, d_variant = variant, d_reason = reason, d_source = ''static''\<rparr>)"

text \<open>The test of a deny or an allow list.\<close>

definition listed :: "jstr list option \<Rightarrow> jstr option \<Rightarrow> EvalContext \<Rightarrow> bool" where
  "listed entries attr ctx =
     (case entries of
        None \<Rightarrow> False
      | Some xs \<Rightarrow>
          if length xs > 0
          then (case lookupAttr ctx (case attr of None \<Rightarrow> ''user_id'' | Some a \<Rightarrow> a) of
                  None \<Rightarrow> False
                | Some v \<Rightarrow> v \<in> set xs)
          else False)"

definition evaluateRule :: "jstr \<Rightarrow> Rule \<Rightarrow> EvalContext \<Rightarrow> Decision" where
  "evaluateRule key rule ctx =
     (if listed (r_deny rule) (r_denyBy rule) ctx then decisionFromRule key rule False RStatic
      else if listed (r_allow rule) (r_allowBy rule) ctx then decisionFromRule key rule True RStatic
      else case r_percent rule of
             Some p \<Rightarrow>
               let ident = (case lookupAttr ctx (case by_attr p of None \<Rightarrow> ''user_id'' | Some a \<Rightarrow> a) of
                              None \<Rightarrow> [] | Some v \<Rightarrow> v)
               in decisionFromRule key rule (inPercent key ident (percent p)) RPercent
           | None \<Rightarrow>
               decisionFromRule key rule (case r_default rule of None \<Rightarrow> False | Some b \<Rightarrow> b) RStatic)"

text \<open>The provider's state is the map of its rules.\<close>

type_synonym static_provider = "(jstr, Rule) jsmap"

definition entries_of :: "Rule jsobj \<Rightarrow> static_provider" where
  "entries_of rules = fold (\<lambda>(k, r). map_set k r) rules []"

definition static_new :: "Rule jsobj \<Rightarrow> static_provider" where
  "static_new rules = entries_of rules"

definition static_set :: "jstr \<Rightarrow> Rule \<Rightarrow> static_provider \<Rightarrow> static_provider" where
  "static_set key rule s = map_set key rule s"

definition static_loadRules :: "Rule jsobj \<Rightarrow> static_provider \<Rightarrow> static_provider" where
  "static_loadRules rules s = entries_of rules"

definition static_keys :: "static_provider \<Rightarrow> jstr list" where
  "static_keys s = sort (map_keys s)"

definition static_lookup :: "static_provider \<Rightarrow> flag_lookup" where
  "static_lookup s key ctx =
     (case map_get s key of None \<Rightarrow> None | Some rule \<Rightarrow> Some (evaluateRule key rule ctx))"

section \<open>The chain and the service\<close>

text \<open>\<open>null\<close> and \<open>undefined\<close> entries of the constructor's array are \<open>None\<close>.\<close>

definition chain_new :: "flag_lookup option list \<Rightarrow> flag_lookup list" where
  "chain_new providers = map the (filter (\<lambda>p. p \<noteq> None) providers)"

fun chain_lookup :: "flag_lookup list \<Rightarrow> flag_lookup" where
  "chain_lookup [] key ctx = None"
| "chain_lookup (p # ps) key ctx =
     (case p key ctx of Some d \<Rightarrow> Some d | None \<Rightarrow> chain_lookup ps key ctx)"

definition defaultDecision :: "jstr \<Rightarrow> bool \<Rightarrow> Decision" where
  "defaultDecision key v =
     \<lparr>d_key = key, d_enabled = v, d_variant = (if v then ''on'' else ''off''),
      d_reason = RDefault, d_source = ''default''\<rparr>"

text \<open>The service holds a provider or none; \<open>setProvider\<close> replaces it.\<close>

type_synonym flag_service = "flag_lookup option"

definition setProvider :: "flag_lookup option \<Rightarrow> flag_service \<Rightarrow> flag_service" where
  "setProvider p s = p"

definition flag_decision :: "flag_service \<Rightarrow> jstr \<Rightarrow> EvalContext \<Rightarrow> bool \<Rightarrow> Decision" where
  "flag_decision s key ctx defaultValue =
     (case s of
        None \<Rightarrow> defaultDecision key defaultValue
      | Some p \<Rightarrow> (case p key ctx of
                    None \<Rightarrow> defaultDecision key defaultValue
                  | Some d \<Rightarrow> d\<lparr>d_key := key\<rparr>))"

definition isEnabled :: "flag_service \<Rightarrow> jstr \<Rightarrow> EvalContext \<Rightarrow> bool \<Rightarrow> bool" where
  "isEnabled s key ctx defaultValue = d_enabled (flag_decision s key ctx defaultValue)"

definition flag_variant :: "flag_service \<Rightarrow> jstr \<Rightarrow> EvalContext \<Rightarrow> jstr \<Rightarrow> jstr" where
  "flag_variant s key ctx defaultValue =
     (case s of
        None \<Rightarrow> defaultValue
      | Some p \<Rightarrow> (case p key ctx of None \<Rightarrow> defaultValue | Some d \<Rightarrow> d_variant d))"

section \<open>The contract of a provider\<close>

text \<open>A decision is about the key asked for, and a disabled flag shows the \<open>off\<close> variant.\<close>

locale flag_provider =
  fixes lookup :: flag_lookup
  assumes answers_key: "lookup key ctx = Some d \<Longrightarrow> d_key d = key"
    and disabled_off: "lookup key ctx = Some d \<Longrightarrow> \<not> d_enabled d \<Longrightarrow> d_variant d = ''off''"
begin

lemma decision_unchanged: "lookup key ctx = Some d \<Longrightarrow> flag_decision (Some lookup) key ctx v = d"
  using answers_key by (simp add: flag_decision_def)

lemma service_off:
  "\<not> isEnabled (Some lookup) key ctx v \<Longrightarrow> flag_variant (Some lookup) key ctx ''off'' = ''off''"
  by (auto simp: isEnabled_def flag_decision_def flag_variant_def disabled_off split: option.splits)

end

lemma decision_fields [simp]:
  "d_key (decisionFromRule key rule b r) = key" "d_enabled (decisionFromRule key rule b r) = b"
  "d_variant (decisionFromRule key rule False r) = ''off''"
  by (simp_all add: decisionFromRule_def boolToVariant_def Let_def split: option.splits)

lemma decision_off: "\<not> b \<Longrightarrow> d_variant (decisionFromRule key rule b r) = ''off''"
  by (cases b) simp_all

lemma evaluate_key [simp]: "d_key (evaluateRule key rule ctx) = key"
  by (simp add: evaluateRule_def Let_def split: option.splits)

lemma evaluate_off: "\<not> d_enabled (evaluateRule key rule ctx) \<Longrightarrow> d_variant (evaluateRule key rule ctx) = ''off''"
  by (auto simp: evaluateRule_def Let_def decision_off split: option.splits if_splits)

interpretation static: flag_provider "static_lookup s" for s
  by unfold_locales (auto simp: static_lookup_def evaluate_off split: option.splits)

lemma chain_first:
  "chain_lookup ps key ctx = (case find (\<lambda>p. p key ctx \<noteq> None) ps of None \<Rightarrow> None | Some p \<Rightarrow> p key ctx)"
  by (induction ps) (auto split: option.splits)

lemma chain_provider: "\<forall>p \<in> set ps. flag_provider p \<Longrightarrow> flag_provider (chain_lookup ps)"
  unfolding flag_provider_def chain_first
  by (auto split: option.splits dest: find_in_set)

interpretation static_chain: flag_provider "chain_lookup (map static_lookup ss)" for ss
  by (rule chain_provider) (auto intro: static.flag_provider_axioms)

lemma chain_append:
  "chain_lookup (ps @ qs) key ctx = (case chain_lookup ps key ctx of Some d \<Rightarrow> Some d | None \<Rightarrow> chain_lookup qs key ctx)"
  by (induction ps) (auto split: option.splits)

section \<open>Rollouts\<close>

lemma bucket_range: "0 \<le> bucketFor key i \<and> bucketFor key i < 100"
  by (simp add: bucketFor_def)

lemma inPercent_mono: "p \<le> p' \<Longrightarrow> inPercent key i p \<Longrightarrow> inPercent key i p'"
  by (auto simp: inPercent_def split: if_splits)

lemma inPercent_buckets: "inPercent key i p \<longleftrightarrow> of_int (bucketFor key i) < p"
proof -
  have "(0 :: rat) \<le> of_int (bucketFor key i)" "of_int (bucketFor key i) < (100 :: rat)"
    using bucket_range [of key i] by simp_all
  then show ?thesis by (auto simp: inPercent_def)
qed

text \<open>What the loading of rules leaves.\<close>

lemma entries_of_get: "obj_ok rules \<Longrightarrow> map_get (entries_of rules) k = obj_get rules k"
  using jsmap.lookup_fold_update [of "[]" rules k]
  by (simp add: entries_of_def obj_ok_def obj_keys_def obj_get_def split: option.splits)

text \<open>
  The guarantees of the feature flags: the rollout hash, the stability of rollouts, the kill
  switch, and the agreement of the two questions a caller can ask.
\<close>

section \<open>The rollout hash\<close>

text \<open>C28: the bucket of a user, computed with the signed operators of the language, is FNV-1a on
  unsigned 32-bit words over the UTF-8 bytes of the key, a zero byte and the bytes of the
  identifier, modulo 100: the value the server computes.\<close>

theorem bucket_is_reference_fnv:
  "bucketFor key identifier = uint (fnv_bytes (hash_input key identifier)) mod 100"
  by (simp add: bucketFor_def fnv1a_pair)

lemma utf8_bytes: "b \<in> set (utf8_encode s) \<Longrightarrow> b < 256"
proof -
  have "b < 256" if "b \<in> set (utf8_char c)" for c
  proof -
    have "(of_char c :: nat) div 64 < 4" using of_char_256 [of c] by (simp add: less_mult_imp_div_less)
    with that show ?thesis by (auto simp: utf8_char_def Let_def split: if_splits)
  qed
  then show "b \<in> set (utf8_encode s) \<Longrightarrow> b < 256" by (auto simp: utf8_encode_def)
qed

text \<open>Two identifiers whose encodings differ in exactly one byte never have the same hash under
  one flag, whatever precedes and follows the byte.\<close>

theorem single_byte_never_collides:
  assumes u: "utf8_encode u = a @ x # z" and v: "utf8_encode v = a @ y # z" and ne: "x \<noteq> y"
  shows "fnv1a [key, u] \<noteq> fnv1a [key, v]"
proof -
  have "x < 256" "y < 256" using utf8_bytes [of x u] utf8_bytes [of y v] by (simp_all add: u v)
  from fnv_one_byte [OF this ne, of "utf8_encode key @ 0 # a" z]
  show ?thesis by (auto simp: fnv1a_pair hash_input_def u v dest: unsigned_word_eqI)
qed

theorem single_byte_never_collides_witness:
  "fnv1a [''flag'', ''user-1''] \<noteq> fnv1a [''flag'', ''user-2'']"
proof -
  have "utf8_encode ''user-1'' = utf8_encode ''user-'' @ 49 # []"
    "utf8_encode ''user-2'' = utf8_encode ''user-'' @ 50 # []" by code_simp+
  then show ?thesis by (rule single_byte_never_collides) simp
qed

section \<open>Rules\<close>

text \<open>Growing a rollout never takes the flag away from anyone who has it: with every other
  part of the rule unchanged, whoever is enabled at a percentage is enabled at each larger one.\<close>

theorem rollout_monotone:
  assumes "p \<le> p'"
    and "d_enabled (evaluateRule key (rule\<lparr>r_percent := Some \<lparr>percent = p, by_attr = b\<rparr>\<rparr>) ctx)"
  shows "d_enabled (evaluateRule key (rule\<lparr>r_percent := Some \<lparr>percent = p', by_attr = b\<rparr>\<rparr>) ctx)"
  using assms(2) inPercent_mono [OF assms(1)]
  by (auto simp: evaluateRule_def Let_def split: if_splits)

definition some_rule :: Rule where
  "some_rule = \<lparr>r_default = None, r_variant = Some ''v2'', r_allow = None, r_allowBy = None,
     r_deny = Some [''user-9''], r_denyBy = None, r_percent = None\<rparr>"

definition some_ctx :: "jstr \<Rightarrow> EvalContext" where
  "some_ctx u = \<lparr>userId = Some u, workspaceId = None, attributes = None\<rparr>"

theorem rollout_monotone_witness:
  "d_enabled (evaluateRule ''feature_a'' (some_rule\<lparr>r_percent := Some \<lparr>percent = 80, by_attr = None\<rparr>\<rparr>) (some_ctx ''user-1''))"
proof -
  have b: "bucketFor ''feature_a'' ''user-1'' = 50" by code_simp
  have "d_enabled (evaluateRule ''feature_a'' (some_rule\<lparr>r_percent := Some \<lparr>percent = 51, by_attr = None\<rparr>\<rparr>) (some_ctx ''user-1''))"
    by (simp add: evaluateRule_def some_rule_def some_ctx_def listed_def lookupAttr_def nonEmpty_def inPercent_def b)
  then show ?thesis by (rule rollout_monotone [rotated]) simp
qed

section \<open>The service\<close>

text \<open>The deny list is a kill switch that stays reachable: when no earlier provider of the
  chain answers for the flag, a user on the deny list of the static rule gets it disabled with
  the \<open>off\<close> variant, whatever the rule's allow list, rollout, variant and default say, whatever
  later providers say, and whatever default the caller passes.\<close>

theorem deny_list_wins:
  assumes "\<forall>p \<in> set ps. p key ctx = None"
    and "map_get s key = Some rule"
    and "r_deny rule = Some xs" "lookupAttr ctx (case r_denyBy rule of None \<Rightarrow> ''user_id'' | Some a \<Rightarrow> a) = Some v"
      "v \<in> set xs"
  shows "\<not> isEnabled (Some (chain_lookup (ps @ static_lookup s # qs))) key ctx dflt
    \<and> flag_variant (Some (chain_lookup (ps @ static_lookup s # qs))) key ctx dvar = ''off''"
proof -
  have "chain_lookup ps key ctx = None" using assms(1) by (induction ps) auto
  moreover have "listed (r_deny rule) (r_denyBy rule) ctx" using assms(3-5) by (auto simp: listed_def)
  ultimately have "chain_lookup (ps @ static_lookup s # qs) key ctx = Some (decisionFromRule key rule False RStatic)"
    by (simp add: chain_append static_lookup_def assms(2) evaluateRule_def)
  then show ?thesis by (simp add: isEnabled_def flag_decision_def flag_variant_def)
qed

theorem deny_list_wins_witness:
  "\<not> isEnabled (Some (chain_lookup ([\<lambda>_ _. None] @ static_lookup (static_set ''f'' some_rule []) # []))) ''f'' (some_ctx ''user-9'') True
   \<and> flag_variant (Some (chain_lookup ([\<lambda>_ _. None] @ static_lookup (static_set ''f'' some_rule []) # []))) ''f'' (some_ctx ''user-9'') ''v2''
     = ''off''"
  by (rule deny_list_wins [where rule = some_rule and xs = "[''user-9'']" and v = "''user-9''"])
    (simp_all add: static_set_def js_simps some_rule_def some_ctx_def lookupAttr_def nonEmpty_def)

text \<open>Over any chain of static providers, a flag that is reported disabled also shows the
  \<open>off\<close> variant: code that branches on the variant never enters an experiment arm for a user
  the rollout left out.\<close>

theorem disabled_flag_shows_off:
  assumes "\<not> isEnabled (Some (chain_lookup (map static_lookup ss))) key ctx dflt"
  shows "flag_variant (Some (chain_lookup (map static_lookup ss))) key ctx ''off'' = ''off''"
  using assms by (rule static_chain.service_off)

theorem disabled_flag_shows_off_witness:
  "flag_variant (Some (chain_lookup (map static_lookup [static_set ''f'' some_rule []]))) ''f'' (some_ctx ''user-1'') ''off'' = ''off''"
  by (rule disabled_flag_shows_off [where dflt = True])
    (simp add: isEnabled_def flag_decision_def static_lookup_def static_set_def js_simps evaluateRule_def
      some_rule_def some_ctx_def listed_def lookupAttr_def nonEmpty_def)

end
