(* ===== verification/Permission_Rules.thy ===== *)
theory Permission_Rules
  imports Machines
begin

text \<open>
  The permission rules of the client (\<open>packages/core/permissions/\<close>): pure functions from a
  resource and the caller's identity and role to a decision. Resources carry the fields the
  rules read, and a dash of the copy is written \<open>-\<close>. And the members page
  (\<open>packages/views/settings/components/members-tab.tsx\<close>), which has gates of its own. The server's gates on role
  changes and removals (\<open>core/internal/handler/workspace.go\<close>, \<open>UpdateMember\<close> and
  \<open>DeleteMember\<close> behind their route) are the specification both are compared with.
\<close>

section \<open>Types\<close>

datatype MemberRole = Owner | Admin | Member

record PermissionContext =
  pc_userId :: "jstr option"
  pc_role :: "MemberRole option"

datatype DecisionReason =
    Allowed | NotAuthenticated | NotMember | NotOwnerRole | NotAdminRole | NotResourceOwner
  | LastOwner | PrivateVisibility | UnknownReason

record permission_decision =
  allowed :: bool
  reason :: DecisionReason
  message :: jstr

definition ALLOW :: permission_decision where
  "ALLOW = \<lparr>allowed = True, reason = Allowed, message = []\<rparr>"

definition deny :: "DecisionReason \<Rightarrow> jstr \<Rightarrow> permission_decision" where
  "deny r m = \<lparr>allowed = False, reason = r, message = m\<rparr>"

datatype AgentPermissionMode = PrivateMode | PublicTo

datatype target_type = WorkspaceTarget | MemberTarget | TeamTarget

record AgentInvocationTarget =
  t_type :: target_type
  t_id :: "jstr option"

text \<open>\<open>invocation_targets\<close> may be missing on the wire.\<close>

record Agent =
  a_owner_id :: "jstr option"
  a_permission_mode :: AgentPermissionMode
  a_invocation_targets :: "AgentInvocationTarget list option"

record Skill =
  sk_created_by :: "jstr option"

datatype CommentAuthorType = MemberAuthor | AgentAuthor | SystemAuthor

record Comment =
  c_author_type :: CommentAuthorType
  c_author_id :: jstr

record RuntimeDevice =
  rt_owner_id :: "jstr option"

section \<open>Rules\<close>

definition isAdminLike :: "MemberRole option \<Rightarrow> bool" where
  "isAdminLike role = (role = Some Owner \<or> role = Some Admin)"

definition canEditAgent :: "Agent \<Rightarrow> PermissionContext \<Rightarrow> permission_decision" where
  "canEditAgent agent ctx =
     (if pc_userId ctx = None then deny NotAuthenticated ''Sign in to edit this agent.''
      else if isAdminLike (pc_role ctx) then ALLOW
      else if a_owner_id agent \<noteq> None \<and> a_owner_id agent = pc_userId ctx then ALLOW
      else deny NotResourceOwner ''Only the agent owner and workspace admins can edit this agent.'')"

definition canAssignAgentToIssue :: "Agent \<Rightarrow> PermissionContext \<Rightarrow> permission_decision" where
  "canAssignAgentToIssue agent ctx =
     (if pc_userId ctx = None then deny NotAuthenticated ''Sign in to assign agents.''
      else if a_owner_id agent \<noteq> None \<and> a_owner_id agent = pc_userId ctx then ALLOW
      else if a_permission_mode agent = PrivateMode
      then deny PrivateVisibility ''Personal agent - only the owner can assign work.''
      else
        let targets = (case a_invocation_targets agent of None \<Rightarrow> [] | Some ts \<Rightarrow> ts) in
        if list_ex (\<lambda>t. t_type t = WorkspaceTarget) targets
        then (if pc_role ctx = None then deny NotMember ''Join this workspace to assign agents.'' else ALLOW)
        else if list_ex (\<lambda>t. t_type t = MemberTarget \<and> t_id t = pc_userId ctx) targets then ALLOW
        else deny PrivateVisibility ''Restricted agent - you don't have access to assign work to it.'')"

definition canEditSkill :: "Skill \<Rightarrow> PermissionContext \<Rightarrow> permission_decision" where
  "canEditSkill skill ctx =
     (if pc_userId ctx = None then deny NotAuthenticated ''Sign in to edit this skill.''
      else if isAdminLike (pc_role ctx) then ALLOW
      else if sk_created_by skill \<noteq> None \<and> sk_created_by skill = pc_userId ctx then ALLOW
      else deny NotResourceOwner ''Only the creator and workspace admins can edit this skill.'')"

definition canDeleteSkill :: "Skill \<Rightarrow> PermissionContext \<Rightarrow> permission_decision" where
  "canDeleteSkill skill ctx = canEditSkill skill ctx"

definition canEditComment :: "Comment \<Rightarrow> PermissionContext \<Rightarrow> permission_decision" where
  "canEditComment comment ctx =
     (if pc_userId ctx = None then deny NotAuthenticated ''Sign in to edit comments.''
      else if c_author_type comment \<noteq> MemberAuthor
      then deny NotResourceOwner ''Agent-authored comments cannot be edited.''
      else if Some (c_author_id comment) = pc_userId ctx then ALLOW
      else if isAdminLike (pc_role ctx) then ALLOW
      else deny NotResourceOwner ''Only the author and workspace admins can edit this comment.'')"

definition canDeleteComment :: "Comment \<Rightarrow> PermissionContext \<Rightarrow> permission_decision" where
  "canDeleteComment comment ctx =
     (if pc_userId ctx = None then deny NotAuthenticated ''Sign in to delete comments.''
      else if c_author_type comment = MemberAuthor \<and> Some (c_author_id comment) = pc_userId ctx then ALLOW
      else if isAdminLike (pc_role ctx) then ALLOW
      else deny NotResourceOwner ''Only the author and workspace admins can delete this comment.'')"

definition canDeleteRuntime :: "RuntimeDevice \<Rightarrow> PermissionContext \<Rightarrow> permission_decision" where
  "canDeleteRuntime runtime ctx =
     (if pc_userId ctx = None then deny NotAuthenticated ''Sign in to delete runtimes.''
      else if isAdminLike (pc_role ctx) then ALLOW
      else if rt_owner_id runtime \<noteq> None \<and> rt_owner_id runtime = pc_userId ctx then ALLOW
      else deny NotResourceOwner ''Only the runtime owner and workspace admins can delete this runtime.'')"

definition canUpdateWorkspaceSettings :: "PermissionContext \<Rightarrow> permission_decision" where
  "canUpdateWorkspaceSettings ctx =
     (if isAdminLike (pc_role ctx) then ALLOW
      else deny NotAdminRole ''Only workspace owners and admins can update workspace settings.'')"

definition canDeleteWorkspace :: "PermissionContext \<Rightarrow> permission_decision" where
  "canDeleteWorkspace ctx =
     (if pc_role ctx = Some Owner then ALLOW
      else deny NotOwnerRole ''Only the workspace owner can delete this workspace.'')"

definition canManageMembers :: "PermissionContext \<Rightarrow> permission_decision" where
  "canManageMembers ctx =
     (if isAdminLike (pc_role ctx) then ALLOW
      else deny NotAdminRole ''Only workspace owners and admins can manage members.'')"

definition canChangeMemberRole :: "MemberRole \<Rightarrow> nat \<Rightarrow> PermissionContext \<Rightarrow> permission_decision" where
  "canChangeMemberRole targetRole ownerCount ctx =
     (let manage = canManageMembers ctx in
      if \<not> allowed manage then manage
      else if targetRole = Owner
      then (if pc_role ctx \<noteq> Some Owner
            then deny NotOwnerRole ''Only the workspace owner can change another owner's role.''
            else if ownerCount \<le> 1
            then deny LastOwner
              ''Promote another member to owner first - a workspace must keep at least one owner.''
            else ALLOW)
      else ALLOW)"

section \<open>The server's gate\<close>

text \<open>The status codes of the refusals, in the order of the handler.\<close>

datatype http_error = Forbidden | BadRequest | NotFound

definition server_change_role :: "MemberRole option \<Rightarrow> MemberRole \<Rightarrow> MemberRole \<Rightarrow> nat \<Rightarrow> http_error option" where
  "server_change_role requester targetRole role ownerCount =
     (if requester \<noteq> Some Owner \<and> requester \<noteq> Some Admin then Some Forbidden
      else if (targetRole = Owner \<or> role = Owner) \<and> requester \<noteq> Some Owner then Some Forbidden
      else if targetRole = Owner \<and> role \<noteq> Owner \<and> ownerCount \<le> 1 then Some BadRequest
      else None)"

section \<open>Facts the rules share\<close>

lemma decision_simps [simp]:
  "allowed ALLOW" "\<not> allowed (deny r m)" "reason ALLOW = Allowed" "reason (deny r m) = r"
  "message ALLOW = []" "message (deny r m) = m"
  by (simp_all add: ALLOW_def deny_def)

lemmas rule_defs = canEditAgent_def canAssignAgentToIssue_def canEditSkill_def canDeleteSkill_def
  canEditComment_def canDeleteComment_def canDeleteRuntime_def canUpdateWorkspaceSettings_def
  canDeleteWorkspace_def canManageMembers_def canChangeMemberRole_def

text \<open>One request per rule.\<close>

datatype perm_request =
    EditAgent Agent | AssignAgent Agent | EditSkill Skill | DeleteSkill Skill
  | EditComment Comment | DeleteComment Comment | DeleteRuntime RuntimeDevice
  | UpdateSettings | DeleteWorkspace | ManageMembers | ChangeRole MemberRole nat

fun decide :: "perm_request \<Rightarrow> PermissionContext \<Rightarrow> permission_decision" where
  "decide (EditAgent a) ctx = canEditAgent a ctx"
| "decide (AssignAgent a) ctx = canAssignAgentToIssue a ctx"
| "decide (EditSkill s) ctx = canEditSkill s ctx"
| "decide (DeleteSkill s) ctx = canDeleteSkill s ctx"
| "decide (EditComment c) ctx = canEditComment c ctx"
| "decide (DeleteComment c) ctx = canDeleteComment c ctx"
| "decide (DeleteRuntime r) ctx = canDeleteRuntime r ctx"
| "decide UpdateSettings ctx = canUpdateWorkspaceSettings ctx"
| "decide DeleteWorkspace ctx = canDeleteWorkspace ctx"
| "decide ManageMembers ctx = canManageMembers ctx"
| "decide (ChangeRole t n) ctx = canChangeMemberRole t n ctx"

text \<open>Roles by rank; no role is below every role.\<close>

fun role_rank :: "MemberRole option \<Rightarrow> nat" where
  "role_rank None = 0"
| "role_rank (Some Member) = 1"
| "role_rank (Some Admin) = 2"
| "role_rank (Some Owner) = 3"

lemma admin_rank: "isAdminLike r \<longleftrightarrow> 2 \<le> role_rank r"
  by (cases r rule: role_rank.cases) (simp_all add: isAdminLike_def)

lemma owner_rank: "r = Some Owner \<longleftrightarrow> 3 \<le> role_rank r"
  by (cases r rule: role_rank.cases) simp_all

lemma no_rank: "r = None \<longleftrightarrow> role_rank r < 1"
  by (cases r rule: role_rank.cases) simp_all

section \<open>The members of a workspace\<close>

text \<open>The members page (\<open>packages/views/settings/components/members-tab.tsx\<close>): what \<open>MembersTab\<close> reads
  off the list of members, and what the menu of a \<open>MemberRow\<close> offers. \<open>me\<close> is the identifier of the user who looks
  at the page.\<close>

record workspace_member =
  mb_id :: jstr
  mb_user_id :: jstr
  mb_role :: MemberRole

definition currentMember :: "workspace_member list \<Rightarrow> jstr option \<Rightarrow> workspace_member option" where
  "currentMember members me = find (\<lambda>m. Some (mb_user_id m) = me) members"

definition canManageWorkspace :: "workspace_member list \<Rightarrow> jstr option \<Rightarrow> bool" where
  "canManageWorkspace members me =
     (map_option mb_role (currentMember members me) = Some Owner \<or> map_option mb_role (currentMember members me) = Some Admin)"

definition isOwner :: "workspace_member list \<Rightarrow> jstr option \<Rightarrow> bool" where
  "isOwner members me = (map_option mb_role (currentMember members me) = Some Owner)"

definition ownerCount :: "workspace_member list \<Rightarrow> nat" where
  "ownerCount members = length (filter (\<lambda>m. mb_role m = Owner) members)"

definition isSelf :: "jstr option \<Rightarrow> workspace_member \<Rightarrow> bool" where
  "isSelf me m = (Some (mb_user_id m) = me)"

definition canEditRole :: "bool \<Rightarrow> bool \<Rightarrow> bool \<Rightarrow> workspace_member \<Rightarrow> bool" where
  "canEditRole canManage canManageOwners self m =
     (canManage \<and> \<not> self \<and> (mb_role m \<noteq> Owner \<or> canManageOwners))"

definition canRemove :: "bool \<Rightarrow> bool \<Rightarrow> bool \<Rightarrow> workspace_member \<Rightarrow> bool" where
  "canRemove canManage canManageOwners self m =
     (canManage \<and> \<not> self \<and> (mb_role m \<noteq> Owner \<or> canManageOwners))"

definition isLastOwner :: "nat \<Rightarrow> workspace_member \<Rightarrow> bool" where
  "isLastOwner owners m = (mb_role m = Owner \<and> owners \<le> 1)"

text \<open>The items of the menu that do something when clicked.\<close>

definition role_item :: "bool \<Rightarrow> nat \<Rightarrow> workspace_member \<Rightarrow> MemberRole \<Rightarrow> bool" where
  "role_item canManageOwners owners m role =
     ((role \<noteq> Owner \<or> canManageOwners) \<and> \<not> (isLastOwner owners m \<and> role \<noteq> Owner))"

datatype member_action = ChangeRoleTo jstr MemberRole | RemoveMember jstr

fun offers :: "workspace_member list \<Rightarrow> jstr option \<Rightarrow> member_action \<Rightarrow> bool" where
  "offers members me (ChangeRoleTo i role) =
     list_ex (\<lambda>m. mb_id m = i
       \<and> canEditRole (canManageWorkspace members me) (isOwner members me) (isSelf me m) m
       \<and> role_item (isOwner members me) (ownerCount members) m role) members"
| "offers members me (RemoveMember i) =
     list_ex (\<lambda>m. mb_id m = i
       \<and> canRemove (canManageWorkspace members me) (isOwner members me) (isSelf me m) m) members"

text \<open>What the server does with the request (\<open>UpdateMember\<close> and \<open>DeleteMember\<close> behind their route): the user is
  looked up among its own members, the target too, and the gates answer.\<close>

definition server_remove :: "MemberRole option \<Rightarrow> MemberRole \<Rightarrow> nat \<Rightarrow> http_error option" where
  "server_remove requester targetRole owners =
     (if requester \<noteq> Some Owner \<and> requester \<noteq> Some Admin then Some Forbidden
      else if targetRole = Owner \<and> requester \<noteq> Some Owner then Some Forbidden
      else if targetRole = Owner \<and> owners \<le> 1 then Some BadRequest
      else None)"

fun server_answer :: "workspace_member list \<Rightarrow> jstr option \<Rightarrow> member_action \<Rightarrow> http_error option" where
  "server_answer members me (ChangeRoleTo i role) =
     (case find (\<lambda>m. mb_id m = i) members of
        None \<Rightarrow> Some NotFound
      | Some m \<Rightarrow> server_change_role (map_option mb_role (currentMember members me)) (mb_role m) role (ownerCount members))"
| "server_answer members me (RemoveMember i) =
     (case find (\<lambda>m. mb_id m = i) members of
        None \<Rightarrow> Some NotFound
      | Some m \<Rightarrow> server_remove (map_option mb_role (currentMember members me)) (mb_role m) (ownerCount members))"

fun perform :: "member_action \<Rightarrow> workspace_member list \<Rightarrow> workspace_member list" where
  "perform (ChangeRoleTo i role) members = map (\<lambda>m. if mb_id m = i then m\<lparr>mb_role := role\<rparr> else m) members"
| "perform (RemoveMember i) members = filter (\<lambda>m. mb_id m \<noteq> i) members"

fun target_of :: "member_action \<Rightarrow> jstr" where
  "target_of (ChangeRoleTo i _) = i"
| "target_of (RemoveMember i) = i"

text \<open>The members over time. A request is sent when the page, with the list it shows, offers it; the list may be out of
  date, the confirmation of a removal may have been open for long, and the server performs what its gate lets
  through, one request at a time. Invitations, which are never for an owner, bring new members, and members leave
  (\<open>LeaveWorkspace\<close>).\<close>

datatype member_event =
    PageRequest "jstr option" "workspace_member list" member_action
  | Joined workspace_member
  | Left jstr

fun members_step :: "workspace_member list \<Rightarrow> member_event \<Rightarrow> workspace_member list" where
  "members_step members (PageRequest me shown a) = (if server_answer members me a = None then perform a members else members)"
| "members_step members (Joined m) = members @ [m]"
| "members_step members (Left u) =
     (case currentMember members (Some u) of
        None \<Rightarrow> members
      | Some m \<Rightarrow> if mb_role m = Owner \<and> ownerCount members \<le> 1 then members
          else filter (\<lambda>x. mb_id x \<noteq> mb_id m) members)"

fun members_enabled :: "workspace_member list \<Rightarrow> member_event \<Rightarrow> bool" where
  "members_enabled members (PageRequest me shown a) = offers shown me a"
| "members_enabled members (Joined m) =
     (mb_role m \<noteq> Owner \<and> mb_id m \<notin> mb_id ` set members \<and> mb_user_id m \<notin> mb_user_id ` set members)"
| "members_enabled members (Left u) = True"

definition members_inv :: "workspace_member list \<Rightarrow> bool" where
  "members_inv members = (distinct (map mb_id members) \<and> distinct (map mb_user_id members) \<and> 1 \<le> ownerCount members)"

definition members_start :: "workspace_member list \<Rightarrow> bool" where
  "members_start members = (\<exists>i u. members = [\<lparr>mb_id = i, mb_user_id = u, mb_role = Owner\<rparr>])"

lemma ownerCount_simps [simp]:
  "ownerCount [] = 0" "ownerCount (m # ms) = (if mb_role m = Owner then 1 else 0) + ownerCount ms"
  "ownerCount (xs @ ys) = ownerCount xs + ownerCount ys"
  by (simp_all add: ownerCount_def)

lemma current_is_self: "currentMember ms me = Some m \<Longrightarrow> m \<in> set ms \<and> isSelf me m"
  by (auto simp: currentMember_def isSelf_def find_Some_iff)

text \<open>A role change or a removal costs at most the one owner it is about.\<close>

lemma ownerCount_perform:
  "distinct (map mb_id ms) \<Longrightarrow> m \<in> set ms \<Longrightarrow> mb_id m = target_of a \<Longrightarrow>
   ownerCount ms \<le> ownerCount (perform a ms) + (if mb_role m = Owner then 1 else 0)"
proof (induction ms)
  case (Cons x ms)
  show ?case
  proof (cases "x = m")
    case True
    then have "mb_id y \<noteq> target_of a" if "y \<in> set ms" for y using Cons.prems(1,3) that by (auto simp: image_iff)
    then have "perform a ms = ms" by (cases a) (auto intro: map_idI simp: filter_id_conv)
    with True Cons.prems(3) show ?thesis by (cases a) auto
  next
    case False
    with Cons have "mb_id x \<noteq> target_of a" by (auto simp: image_iff)
    with False Cons show ?thesis by (cases a) auto
  qed
qed simp

lemma two_owners: "m \<in> set ms \<Longrightarrow> x \<in> set ms \<Longrightarrow> m \<noteq> x \<Longrightarrow> mb_role m = Owner \<Longrightarrow> mb_role x = Owner \<Longrightarrow> 2 \<le> ownerCount ms"
proof (induction ms)
  case (Cons y ms)
  have one: "z \<in> set zs \<Longrightarrow> mb_role z = Owner \<Longrightarrow> 1 \<le> ownerCount zs" for z zs by (induction zs) auto
  from Cons one [of m ms] one [of x ms] show ?case by auto
qed simp

lemma perform_inv:
  assumes "members_inv ms" "server_answer ms me a = None"
  shows "members_inv (perform a ms)"
proof -
  obtain m where m: "find (\<lambda>x. mb_id x = target_of a) ms = Some m"
    using assms(2) by (cases a) (auto split: option.splits)
  then have m: "m \<in> set ms" "mb_id m = target_of a" "find (\<lambda>x. mb_id x = target_of a) ms = Some m"
    by (auto simp: find_Some_iff)
  have "distinct (map mb_id (perform a ms))" "distinct (map mb_user_id (perform a ms))"
    using assms(1) by (cases a; simp add: members_inv_def distinct_map_filter comp_def if_distrib cong: if_cong)+
  moreover have "1 \<le> ownerCount (perform a ms)"
  proof (cases a)
    case (ChangeRoleTo i role)
    show ?thesis
    proof (cases "role = Owner")
      case True
      have "m\<lparr>mb_role := Owner\<rparr> \<in> set (perform a ms)" using m(1,2) True by (force simp: ChangeRoleTo)
      then have "\<exists>x \<in> set (perform a ms). mb_role x = Owner" by force
      then show ?thesis by (auto simp: ownerCount_def filter_empty_conv Suc_le_eq)
    next
      case False
      with ownerCount_perform [OF _ m(1,2)] assms m(3) show ?thesis
        by (auto simp: members_inv_def ChangeRoleTo server_change_role_def split: if_splits)
    qed
  next
    case (RemoveMember i)
    with ownerCount_perform [OF _ m(1,2)] assms m(3) show ?thesis
      by (auto simp: members_inv_def server_remove_def split: if_splits)
  qed
  ultimately show ?thesis by (simp add: members_inv_def)
qed

lemma leave_inv:
  assumes "members_inv ms" "m \<in> set ms" "mb_role m = Owner \<longrightarrow> 2 \<le> ownerCount ms"
  shows "members_inv (filter (\<lambda>x. mb_id x \<noteq> mb_id m) ms)"
  using ownerCount_perform [of ms m "RemoveMember (mb_id m)"] assms
  by (auto simp: members_inv_def distinct_map_filter split: if_splits)

interpretation members: invariant_machine members_start members_step members_enabled members_inv
proof
  show "members_start ms \<Longrightarrow> members_inv ms" for ms by (auto simp: members_start_def members_inv_def)
  show "members_inv ms \<Longrightarrow> members_enabled ms e \<Longrightarrow> members_inv (members_step ms e)" for ms e
  proof (cases e)
    case (PageRequest me shown a)
    then show "members_inv ms \<Longrightarrow> ?thesis" using perform_inv by auto
  next
    case (Joined m)
    then show "members_inv ms \<Longrightarrow> members_enabled ms e \<Longrightarrow> ?thesis" by (auto simp: members_inv_def)
  next
    case (Left u)
    then show "members_inv ms \<Longrightarrow> ?thesis"
      using leave_inv [of ms] by (auto split: option.split dest!: current_is_self)
  qed
qed

text \<open>With the current list, the page offers what the server accepts, except on the own row.\<close>

lemma offers_iff:
  assumes "members_inv ms"
  shows "offers ms me a \<longleftrightarrow> server_answer ms me a = None \<and> (\<forall>m \<in> set ms. mb_id m = target_of a \<longrightarrow> \<not> isSelf me m)"
proof (cases "find (\<lambda>m. mb_id m = target_of a) ms")
  case None
  then have "\<forall>m \<in> set ms. mb_id m \<noteq> target_of a" by (simp add: find_None_iff)
  with None show ?thesis by (cases a) (auto simp: list_ex_iff)
next
  case (Some m)
  then have m: "m \<in> set ms" "mb_id m = target_of a" by (auto simp: find_Some_iff)
  have only: "x = m" if "x \<in> set ms" "mb_id x = target_of a" for x
    using that m assms by (auto simp: members_inv_def distinct_map inj_on_def)
  define req where "req = map_option mb_role (currentMember ms me)"
  have two: "2 \<le> ownerCount ms" if "req = Some Owner" "mb_role m = Owner" "\<not> isSelf me m"
    using that current_is_self [of ms me] two_owners [OF m(1)] by (auto simp: req_def)
  have mgr: "canManageWorkspace ms me \<longleftrightarrow> req = Some Owner \<or> req = Some Admin" "isOwner ms me \<longleftrightarrow> req = Some Owner"
    by (simp_all add: canManageWorkspace_def isOwner_def req_def)
  have row: "list_ex (\<lambda>x. mb_id x = target_of a \<and> P x) ms \<longleftrightarrow> P m" for P
    unfolding list_ex_iff using m only by blast
  have self: "(\<forall>x \<in> set ms. mb_id x = target_of a \<longrightarrow> \<not> isSelf me x) \<longleftrightarrow> \<not> isSelf me m"
    using m only by blast
  show ?thesis
  proof (cases a)
    case (ChangeRoleTo i role)
    have off: "offers ms me a \<longleftrightarrow> canEditRole (canManageWorkspace ms me) (isOwner ms me) (isSelf me m) m
        \<and> role_item (isOwner ms me) (ownerCount ms) m role"
      using row by (simp add: ChangeRoleTo)
    have srv: "server_answer ms me a = server_change_role req (mb_role m) role (ownerCount ms)"
      using Some by (simp add: ChangeRoleTo req_def)
    show ?thesis unfolding off srv self mgr canEditRole_def role_item_def isLastOwner_def server_change_role_def
      by (cases "mb_role m = Owner"; cases "role = Owner"; cases "req = Some Owner"; simp)
  next
    case (RemoveMember i)
    have off: "offers ms me a \<longleftrightarrow> canRemove (canManageWorkspace ms me) (isOwner ms me) (isSelf me m) m"
      using row by (simp add: RemoveMember)
    have srv: "server_answer ms me a = server_remove req (mb_role m) (ownerCount ms)"
      using Some by (simp add: RemoveMember req_def)
    show ?thesis unfolding off srv self mgr canRemove_def server_remove_def using two by (cases "isSelf me m") auto
  qed
qed

text \<open>The guarantees of the permission rules, and the one place they differ from the server.\<close>

text \<open>No rule ever grants less to a higher role: with the same user, whatever is allowed to
  someone outside the workspace, a member or an admin is allowed to every higher role.\<close>

theorem permissions_grow_with_role:
  assumes "role_rank r \<le> role_rank r'" and "allowed (decide req (ctx\<lparr>pc_role := r\<rparr>))"
  shows "allowed (decide req (ctx\<lparr>pc_role := r'\<rparr>))"
proof -
  have "isAdminLike r \<Longrightarrow> isAdminLike r'" "r = Some Owner \<Longrightarrow> r' = Some Owner" "r \<noteq> None \<Longrightarrow> r' \<noteq> None"
    using assms(1) unfolding admin_rank owner_rank no_rank by linarith+
  with assms(2) show ?thesis
    by (cases req) (auto simp: rule_defs Let_def split: if_splits)
qed

definition some_member :: PermissionContext where
  "some_member = \<lparr>pc_userId = Some ''bob'', pc_role = Some Member\<rparr>"

theorem permissions_grow_with_role_witness:
  "allowed (decide (EditSkill \<lparr>sk_created_by = Some ''bob''\<rparr>) (some_member\<lparr>pc_role := Some Admin\<rparr>))"
  by (rule permissions_grow_with_role [where r = "Some Member"])
    (simp_all add: some_member_def canEditSkill_def)

text \<open>Every decision is consistent: it is allowed exactly when its reason is \<open>allowed\<close> and
  exactly when it carries no message, so a surface that disables a control always has copy to
  show, and never shows copy for an enabled one.\<close>

theorem decision_reason_consistent:
  "(allowed (decide req ctx) = (reason (decide req ctx) = Allowed))
   \<and> (allowed (decide req ctx) = (message (decide req ctx) = []))"
  by (cases req) (simp_all add: rule_defs Let_def)

text \<open>A private agent obeys its owner alone: nobody else may give it work, whatever their role
  and whatever invocation targets the agent still carries.\<close>

theorem private_agent_owner_only:
  assumes "a_permission_mode agent = PrivateMode"
  shows "allowed (canAssignAgentToIssue agent ctx) = (pc_userId ctx \<noteq> None \<and> a_owner_id agent = pc_userId ctx)"
  using assms by (auto simp: canAssignAgentToIssue_def)

theorem private_agent_owner_only_witness:
  "\<not> allowed (canAssignAgentToIssue
     \<lparr>a_owner_id = Some ''ann'', a_permission_mode = PrivateMode,
      a_invocation_targets = Some [\<lparr>t_type = WorkspaceTarget, t_id = None\<rparr>]\<rparr>
     \<lparr>pc_userId = Some ''bob'', pc_role = Some Owner\<rparr>)"
  by (subst private_agent_owner_only) simp_all

text \<open>C23: a workspace never loses its last owner, and the members page knows the server's rules. Start with the
  workspace just created, and let its members change: role changes and removals sent by the members pages of any
  users, with lists that may be out of date, joins and leaves, one request at a time. Then there is an owner; a page
  whose list is up to date offers, on every row but the user's own, exactly the changes the server accepts; and
  what it offers would leave an owner even without the server's gate.\<close>

theorem workspace_keeps_an_owner:
  assumes "reachable members_start members_step members_enabled ms"
  shows "1 \<le> ownerCount ms
    \<and> (\<forall>me a. offers ms me a \<longleftrightarrow>
        server_answer ms me a = None \<and> (\<forall>m \<in> set ms. mb_id m = target_of a \<longrightarrow> \<not> isSelf me m))
    \<and> (\<forall>me a. offers ms me a \<longrightarrow> 1 \<le> ownerCount (perform a ms))"
proof -
  have inv: "members_inv ms" using assms by (rule members.inv_reachable)
  with offers_iff [OF inv] perform_inv [OF inv] show ?thesis by (auto simp: members_inv_def)
qed

definition example_members :: "workspace_member list" where
  "example_members = [\<lparr>mb_id = ''m1'', mb_user_id = ''ann'', mb_role = Owner\<rparr>, \<lparr>mb_id = ''m2'', mb_user_id = ''bob'', mb_role = Owner\<rparr>]"

theorem workspace_keeps_an_owner_witness:
  "offers example_members (Some ''ann'') (ChangeRoleTo ''m2'' Admin) \<and> 1 \<le> ownerCount (perform (ChangeRoleTo ''m2'' Admin) example_members)"
proof -
  let ?start = "[\<lparr>mb_id = ''m1'', mb_user_id = ''ann'', mb_role = Owner\<rparr>]"
  let ?events = "[Joined \<lparr>mb_id = ''m2'', mb_user_id = ''bob'', mb_role = Member\<rparr>,
    PageRequest (Some ''ann'') (?start @ [\<lparr>mb_id = ''m2'', mb_user_id = ''bob'', mb_role = Member\<rparr>]) (ChangeRoleTo ''m2'' Owner)]"
  have "reachable members_start members_step members_enabled (foldl members_step ?start ?events)"
  proof (rule reachable_run [OF reachable.init])
    show "members_start ?start" by (simp add: members_start_def)
    show "run_ok members_step members_enabled ?start ?events" by code_simp
  qed
  moreover have "foldl members_step ?start ?events = example_members" by code_simp
  ultimately have reach: "reachable members_start members_step members_enabled example_members" by (simp only:)
  have "offers example_members (Some ''ann'') (ChangeRoleTo ''m2'' Admin)" by code_simp
  with workspace_keeps_an_owner [OF reach] show ?thesis by blast
qed

text \<open>The rule \<open>canChangeMemberRole\<close>, which no page asks yet, agrees with the server's gate on every change that does not make the
  target an owner: demotions and changes among lower roles are allowed exactly when the server
  accepts them.\<close>

theorem demotions_mirror_server:
  assumes "role \<noteq> Owner"
  shows "allowed (canChangeMemberRole target n ctx) = (server_change_role (pc_role ctx) target role n = None)"
  using assms by (auto simp: rule_defs server_change_role_def isAdminLike_def Let_def)

theorem demotions_mirror_server_witness:
  "allowed (canChangeMemberRole Admin 1 (some_member\<lparr>pc_role := Some Admin\<rparr>))
   = (server_change_role (pc_role (some_member\<lparr>pc_role := Some Admin\<rparr>)) Admin Member 1 = None)"
  by (rule demotions_mirror_server) simp

text \<open>Promotions to owner differ: the rule is not asked for the new role, and allows an admin
  every change of a non-owner although the server refuses the promotion; for an owner's target
  it refuses a change of the last owner although keeping the role is accepted.\<close>

theorem promotion_gap:
  "allowed (canChangeMemberRole Member n \<lparr>pc_userId = u, pc_role = Some Admin\<rparr>)
   \<and> server_change_role (Some Admin) Member Owner n = Some Forbidden
   \<and> \<not> allowed (canChangeMemberRole Owner 1 \<lparr>pc_userId = u, pc_role = Some Owner\<rparr>)
   \<and> server_change_role (Some Owner) Owner Owner 1 = None"
  by (simp add: rule_defs isAdminLike_def server_change_role_def)

end
