(* ===== verification/Ws_Client.thy ===== *)
theory Ws_Client
  imports Machines JS_Object Complex_Main
begin

text \<open>
  The realtime client (\<open>packages/core/api/ws-client.ts\<close>) with the browser around it: sockets in
  the order of their creation, pending timeouts, and a log of the effects. One step is one
  callback of the browser or one call of the application. Handlers are identifiers; what they
  do to the client in turn are later steps. \<open>JSON.parse\<close> is a parameter: \<open>None\<close> where it
  throws.
\<close>

section \<open>Data\<close>

text \<open>An upgrade URL: the base and the query parameters set on it.\<close>

type_synonym ws_url = "jstr \<times> (jstr, jstr) jsmap"

record WSClientIdentity =
  platform :: "jstr option"
  version :: "jstr option"
  os :: "jstr option"

record WSClient =
  ws :: "nat option"
  baseUrl :: jstr
  token :: "jstr option"
  workspaceSlug :: "jstr option"
  cookieAuth :: bool
  identity :: "WSClientIdentity option"
  handlers :: "(jstr, nat list) jsmap"
  reconnectTimer :: "nat option"
  reconnectAttempt :: nat
  hasConnectedBefore :: bool
  badFrameLogged :: bool
  onReconnectCallbacks :: "nat list"
  anyHandlers :: "nat list"

datatype socket_phase = Connecting | Open | Closing | Closed

text \<open>\<open>s_hooked\<close>: the socket still has its \<open>onclose\<close> handler.\<close>

record socket =
  s_url :: ws_url
  s_phase :: socket_phase
  s_hooked :: bool

datatype ws_effect =
    SentAuth nat jstr | SentMessage nat json
  | LogConnected | LogUnparseable jstr | LogBadFrame jstr | LogReconnecting int nat
  | CallHandler nat "json option" "json option" "json option" | CallAny nat json | CallReconnect nat

record ws_world = WSClient +
  sockets :: "socket list"
  timers :: "nat list"
  next_timer :: nat
  ws_log :: "ws_effect list"

definition emit :: "ws_effect list \<Rightarrow> ws_world \<Rightarrow> ws_world" where
  "emit es w = w\<lparr>ws_log := ws_log w @ es\<rparr>"

definition set_add :: "'a \<Rightarrow> 'a list \<Rightarrow> 'a list" where
  "set_add x xs = (if x \<in> set xs then xs else xs @ [x])"

definition set_remove :: "'a \<Rightarrow> 'a list \<Rightarrow> 'a list" where
  "set_remove x xs = filter (\<lambda>y. y \<noteq> x) xs"

definition UNPARSEABLE_LOG_MAX_CHARS :: nat where
  "UNPARSEABLE_LOG_MAX_CHARS = 200"

definition RECONNECT_BASE_DELAY_MS :: nat where
  "RECONNECT_BASE_DELAY_MS = 1000"

definition RECONNECT_MAX_DELAY_MS :: nat where
  "RECONNECT_MAX_DELAY_MS = 30000"

text \<open>The ellipsis of the original is written as three dots.\<close>

definition summarizeUnparseable :: "jstr \<Rightarrow> jstr" where
  "summarizeUnparseable s =
     (if length s \<le> UNPARSEABLE_LOG_MAX_CHARS then s
      else take UNPARSEABLE_LOG_MAX_CHARS s @ ''... (truncated, '' @ string_of_nat (length s) @ '' chars total)'')"

section \<open>Connecting\<close>

text \<open>A truthy string.\<close>

definition truthy :: "jstr option \<Rightarrow> bool" where
  "truthy s = (s \<noteq> None \<and> s \<noteq> Some [])"

definition set_param :: "jstr \<Rightarrow> jstr option \<Rightarrow> (jstr, jstr) jsmap \<Rightarrow> (jstr, jstr) jsmap" where
  "set_param name v ps = (if truthy v then map_set name (the v) ps else ps)"

definition connect_url :: "ws_world \<Rightarrow> ws_url" where
  "connect_url w =
     (let ident = (\<lambda>f. case identity w of None \<Rightarrow> None | Some i \<Rightarrow> f i);
          ps1 = set_param ''workspace_slug'' (workspaceSlug w) [];
          ps2 = set_param ''client_platform'' (ident platform) ps1;
          ps3 = set_param ''client_version'' (ident version) ps2
      in (baseUrl w, set_param ''client_os'' (ident os) ps3))"

definition new_client :: "jstr \<Rightarrow> bool \<Rightarrow> WSClientIdentity option \<Rightarrow> ws_world" where
  "new_client url cookie ident =
     \<lparr>ws = None, baseUrl = url, token = None, workspaceSlug = None, cookieAuth = cookie,
      identity = ident, handlers = [], reconnectTimer = None, reconnectAttempt = 0,
      hasConnectedBefore = False, badFrameLogged = False, onReconnectCallbacks = [], anyHandlers = [],
      sockets = [], timers = [], next_timer = 1, ws_log = []\<rparr>"

definition setAuth :: "jstr option \<Rightarrow> jstr \<Rightarrow> ws_world \<Rightarrow> ws_world" where
  "setAuth tok slug w = w\<lparr>token := tok, workspaceSlug := Some slug\<rparr>"

definition connect :: "ws_world \<Rightarrow> ws_world" where
  "connect w =
     w\<lparr>badFrameLogged := False,
       sockets := sockets w @ [\<lparr>s_url = connect_url w, s_phase = Connecting, s_hooked = True\<rparr>],
       ws := Some (length (sockets w))\<rparr>"

text \<open>\<open>this.ws.send\<close>: only an open socket transmits (it throws while connecting, and drops the
  data once closing); no code of the client follows the call.\<close>

definition ws_send :: "(nat \<Rightarrow> ws_effect) \<Rightarrow> ws_world \<Rightarrow> ws_world" where
  "ws_send e w =
     (case ws w of
        None \<Rightarrow> w
      | Some s \<Rightarrow> if s < length (sockets w) \<and> s_phase (sockets w ! s) = Open then emit [e s] w else w)"

definition onAuthenticated :: "ws_world \<Rightarrow> ws_world" where
  "onAuthenticated w =
     (let w1 = (emit [LogConnected] w)\<lparr>reconnectAttempt := 0\<rparr>;
          w2 = (if hasConnectedBefore w1 then emit (map CallReconnect (onReconnectCallbacks w1)) w1 else w1)
      in w2\<lparr>hasConnectedBefore := True\<rparr>)"

definition onopen :: "ws_world \<Rightarrow> ws_world" where
  "onopen w =
     (if \<not> cookieAuth w \<and> truthy (token w) then ws_send (\<lambda>s. SentAuth s (the (token w))) w
      else onAuthenticated w)"

section \<open>Messages\<close>

text \<open>\<open>typeof msg.type === "string"\<close> for a truthy \<open>msg\<close>; the fields of other values are absent.\<close>

definition frame_type :: "json \<Rightarrow> jstr option" where
  "frame_type v = (case json_field v ''type'' of Some (JStr t) \<Rightarrow> Some t | _ \<Rightarrow> None)"

definition onmessage :: "(jstr \<Rightarrow> json option) \<Rightarrow> jstr \<Rightarrow> ws_world \<Rightarrow> ws_world" where
  "onmessage parse data w =
     (case parse data of
        None \<Rightarrow> emit [LogUnparseable (summarizeUnparseable data)] w
      | Some msg \<Rightarrow>
          (case frame_type msg of
             None \<Rightarrow>
               if badFrameLogged w then w
               else emit [LogBadFrame (summarizeUnparseable data)] (w\<lparr>badFrameLogged := True\<rparr>)
           | Some t \<Rightarrow>
               if t = ''auth_ack'' then onAuthenticated w
               else
                 let eventHandlers = (case map_get (handlers w) t of None \<Rightarrow> [] | Some hs \<Rightarrow> hs)
                 in emit (map (\<lambda>h. CallHandler h (json_field msg ''payload'') (json_field msg ''actor_id'')
                                     (json_field msg ''actor_type'')) eventHandlers
                          @ map (\<lambda>h. CallAny h msg) (anyHandlers w)) w))"

section \<open>Reconnecting\<close>

text \<open>\<open>Math.round\<close>, and the delay for a random number below 1 (rationals stand for doubles).\<close>

definition math_round :: "rat \<Rightarrow> int" where
  "math_round x = \<lfloor>x + 1 / 2\<rfloor>"

definition reconnect_delay :: "nat \<Rightarrow> rat \<Rightarrow> int" where
  "reconnect_delay attempt random =
     (let base = of_nat (min (RECONNECT_BASE_DELAY_MS * 2 ^ attempt) RECONNECT_MAX_DELAY_MS);
          jitter = base * (1 / 5) * (random * 2 - 1)
      in math_round (min (base + jitter) (of_nat RECONNECT_MAX_DELAY_MS)))"

definition scheduleReconnect :: "rat \<Rightarrow> ws_world \<Rightarrow> ws_world" where
  "scheduleReconnect random w =
     (let delay = reconnect_delay (reconnectAttempt w) random;
          w1 = w\<lparr>reconnectAttempt := reconnectAttempt w + 1\<rparr>;
          w2 = emit [LogReconnecting delay (reconnectAttempt w1)] w1
      in w2\<lparr>timers := timers w2 @ [next_timer w2], reconnectTimer := Some (next_timer w2),
            next_timer := next_timer w2 + 1\<rparr>)"

text \<open>\<open>clearTimeout\<close>, and \<open>close()\<close> after the handlers were removed.\<close>

definition close_socket :: "nat \<Rightarrow> ws_world \<Rightarrow> ws_world" where
  "close_socket s w =
     (if s < length (sockets w)
      then w\<lparr>sockets := (sockets w)[s := (sockets w ! s)
             \<lparr>s_hooked := False,
              s_phase := (if s_phase (sockets w ! s) = Closed then Closed else Closing)\<rparr>]\<rparr>
      else w)"

definition disconnect :: "ws_world \<Rightarrow> ws_world" where
  "disconnect w =
     (let w1 = (case reconnectTimer w of
                  None \<Rightarrow> w
                | Some t \<Rightarrow> w\<lparr>timers := set_remove t (timers w), reconnectTimer := None\<rparr>);
          w2 = (case ws w1 of None \<Rightarrow> w1 | Some s \<Rightarrow> (close_socket s w1)\<lparr>ws := None\<rparr>)
      in w2\<lparr>hasConnectedBefore := False, reconnectAttempt := 0, handlers := [], anyHandlers := [],
            onReconnectCallbacks := []\<rparr>)"

section \<open>Subscriptions\<close>

definition ws_on :: "jstr \<Rightarrow> nat \<Rightarrow> ws_world \<Rightarrow> ws_world" where
  "ws_on event h w =
     (let hs = (if map_get (handlers w) event = None then map_set event [] (handlers w) else handlers w)
      in w\<lparr>handlers := map_set event (set_add h (the (map_get hs event))) hs\<rparr>)"

definition ws_off :: "jstr \<Rightarrow> nat \<Rightarrow> ws_world \<Rightarrow> ws_world" where
  "ws_off event h w =
     (case map_get (handlers w) event of
        None \<Rightarrow> w
      | Some hs \<Rightarrow> w\<lparr>handlers := map_set event (set_remove h hs) (handlers w)\<rparr>)"

section \<open>Steps\<close>

datatype ws_event =
    SetAuth "jstr option" jstr | Connect | Disconnect | Send json
  | On jstr nat | Off jstr nat | OnAny nat | OffAny nat | OnReconnect nat | OffReconnect nat
  | SocketOpen nat | SocketMessage nat jstr | SocketClose nat rat | TimerFires nat

definition set_phase :: "nat \<Rightarrow> socket_phase \<Rightarrow> ws_world \<Rightarrow> ws_world" where
  "set_phase s p w = w\<lparr>sockets := (sockets w)[s := (sockets w ! s)\<lparr>s_phase := p\<rparr>]\<rparr>"

fun ws_step :: "(jstr \<Rightarrow> json option) \<Rightarrow> ws_world \<Rightarrow> ws_event \<Rightarrow> ws_world" where
  "ws_step parse w (SetAuth tok slug) = setAuth tok slug w"
| "ws_step parse w Connect = connect w"
| "ws_step parse w Disconnect = disconnect w"
| "ws_step parse w (Send msg) = ws_send (\<lambda>s. SentMessage s msg) w"
| "ws_step parse w (On event h) = ws_on event h w"
| "ws_step parse w (Off event h) = ws_off event h w"
| "ws_step parse w (OnAny h) = w\<lparr>anyHandlers := set_add h (anyHandlers w)\<rparr>"
| "ws_step parse w (OffAny h) = w\<lparr>anyHandlers := set_remove h (anyHandlers w)\<rparr>"
| "ws_step parse w (OnReconnect h) = w\<lparr>onReconnectCallbacks := set_add h (onReconnectCallbacks w)\<rparr>"
| "ws_step parse w (OffReconnect h) = w\<lparr>onReconnectCallbacks := set_remove h (onReconnectCallbacks w)\<rparr>"
| "ws_step parse w (SocketOpen s) = onopen (set_phase s Open w)"
| "ws_step parse w (SocketMessage s data) = onmessage parse data w"
| "ws_step parse w (SocketClose s random) =
     (if s_hooked (sockets w ! s) then scheduleReconnect random (set_phase s Closed w) else set_phase s Closed w)"
| "ws_step parse w (TimerFires t) = connect (w\<lparr>timers := set_remove t (timers w)\<rparr>)"

text \<open>
  When the browser delivers a callback; and the application's discipline: it connects a client
  that is new or disconnected, as the provider does.
\<close>

definition from_browser :: "ws_event \<Rightarrow> bool" where
  "from_browser e = (case e of SocketOpen _ \<Rightarrow> True | SocketMessage _ _ \<Rightarrow> True | SocketClose _ _ \<Rightarrow> True
     | TimerFires _ \<Rightarrow> True | _ \<Rightarrow> False)"

fun ws_enabled :: "ws_world \<Rightarrow> ws_event \<Rightarrow> bool" where
  "ws_enabled w (SocketOpen s) = (s < length (sockets w) \<and> s_phase (sockets w ! s) = Connecting)"
| "ws_enabled w (SocketMessage s data) = (s < length (sockets w) \<and> s_phase (sockets w ! s) = Open)"
| "ws_enabled w (SocketClose s random) =
     (s < length (sockets w) \<and> s_phase (sockets w ! s) \<noteq> Closed \<and> 0 \<le> random \<and> random < 1)"
| "ws_enabled w (TimerFires t) = (t \<in> set (timers w))"
| "ws_enabled w Connect = (ws w = None \<and> timers w = [])"
| "ws_enabled w e = True"

definition ws_start :: "ws_world \<Rightarrow> bool" where
  "ws_start w = (\<exists>url cookie ident. w = new_client url cookie ident)"

end
