(* ===== verification/Ws_Properties.thy ===== *)
theory Ws_Properties
  imports Ws_Client
begin

text \<open>
  The guarantees of the realtime client: one connection at a time, a final disconnect, the
  bounds of the back-off, and what reaches the handlers.
\<close>

section \<open>The connection invariant\<close>

definition live :: "socket \<Rightarrow> bool" where
  "live s = (s_hooked s \<and> s_phase s \<noteq> Closed)"

text \<open>
  Only the current socket is live; a pending timeout is the client's own and excludes a live
  socket; a socket the client let go of is closing or closed.
\<close>

definition conn_inv :: "ws_world \<Rightarrow> bool" where
  "conn_inv w =
     ((\<forall>s < length (sockets w). live (sockets w ! s) \<longrightarrow> ws w = Some s)
      \<and> (\<forall>s < length (sockets w). s_hooked (sockets w ! s) \<or> s_phase (sockets w ! s) \<in> {Closing, Closed})
      \<and> (ws w = None \<longrightarrow> timers w = [])
      \<and> (timers w = [] \<or> (\<exists>t. timers w = [t] \<and> reconnectTimer w = Some t
            \<and> (\<forall>s < length (sockets w). \<not> live (sockets w ! s)))))"

text \<open>
  The effects so far: handlers were only given objects with a string type, and every callback
  run is preceded by two authentications.
\<close>

definition connected_count :: "ws_effect list \<Rightarrow> nat" where
  "connected_count es = length (filter (\<lambda>e. e = LogConnected) es)"

definition is_callback :: "ws_effect \<Rightarrow> bool" where
  "is_callback e = (case e of CallReconnect _ \<Rightarrow> True | _ \<Rightarrow> False)"

definition callbacks_late :: "ws_effect list \<Rightarrow> bool" where
  "callbacks_late es = (\<forall>i < length es. is_callback (es ! i) \<longrightarrow> 2 \<le> connected_count (take i es))"

definition log_inv :: "ws_world \<Rightarrow> bool" where
  "log_inv w = (callbacks_late (ws_log w) \<and> (hasConnectedBefore w \<longrightarrow> 1 \<le> connected_count (ws_log w)))"

lemma connected_append [simp]: "connected_count (a @ b) = connected_count a + connected_count b"
  by (simp add: connected_count_def)

lemma callbacks_append:
  "callbacks_late a \<Longrightarrow> \<forall>e \<in> set b. is_callback e \<longrightarrow> 2 \<le> connected_count a \<Longrightarrow> callbacks_late (a @ b)"
proof -
  assume a: "callbacks_late a" and b: "\<forall>e \<in> set b. is_callback e \<longrightarrow> 2 \<le> connected_count a"
  show ?thesis
    unfolding callbacks_late_def
  proof (intro allI impI)
    fix i assume i: "i < length (a @ b)" "is_callback ((a @ b) ! i)"
    show "2 \<le> connected_count (take i (a @ b))"
    proof (cases "i < length a")
      case True
      with a i(2) show ?thesis by (simp add: callbacks_late_def nth_append)
    next
      case False
      with i have "(a @ b) ! i \<in> set b" by (simp add: nth_append)
      with b i(2) False show ?thesis by auto
    qed
  qed
qed

lemma emit_fields [simp]:
  "ws (emit es w) = ws w" "sockets (emit es w) = sockets w" "timers (emit es w) = timers w"
  "reconnectTimer (emit es w) = reconnectTimer w" "ws_log (emit es w) = ws_log w @ es"
  "hasConnectedBefore (emit es w) = hasConnectedBefore w" "reconnectAttempt (emit es w) = reconnectAttempt w"
  "onReconnectCallbacks (emit es w) = onReconnectCallbacks w" "next_timer (emit es w) = next_timer w"
  by (simp_all add: emit_def)

text \<open>Steps that touch neither the sockets nor the timers.\<close>

definition same_conn :: "ws_world \<Rightarrow> ws_world \<Rightarrow> bool" where
  "same_conn w w' = (ws w' = ws w \<and> sockets w' = sockets w \<and> timers w' = timers w
     \<and> reconnectTimer w' = reconnectTimer w)"

lemma same_conn_inv: "same_conn w w' \<Longrightarrow> conn_inv w' = conn_inv w"
  by (simp add: same_conn_def conn_inv_def)

lemma same_conn_ops [simp]:
  "same_conn w (setAuth tok slug w)" "same_conn w (ws_send e w)" "same_conn w (ws_on ev h w)"
  "same_conn w (ws_off ev h w)" "same_conn w (onAuthenticated w)" "same_conn w (onopen w)"
  "same_conn w (onmessage parse data w)"
proof -
  show send: "same_conn w (ws_send e w)" for e
    by (simp add: same_conn_def ws_send_def split: option.split)
  show auth: "same_conn w (onAuthenticated w)"
    by (simp add: same_conn_def onAuthenticated_def Let_def)
  show "same_conn w (setAuth tok slug w)" "same_conn w (ws_on ev h w)" "same_conn w (ws_off ev h w)"
    by (simp_all add: same_conn_def setAuth_def ws_on_def ws_off_def Let_def split: option.split)
  show "same_conn w (onopen w)" using send auth by (simp add: onopen_def)
  have "same_conn w w" "same_conn w (emit es w)" "same_conn w (emit es (w\<lparr>badFrameLogged := b\<rparr>))" for es b
    by (simp_all add: same_conn_def)
  with auth show "same_conn w (onmessage parse data w)"
    by (simp add: onmessage_def Let_def split: option.split)
qed

lemma conn_connect:
  assumes "conn_inv w" "\<forall>s < length (sockets w). \<not> live (sockets w ! s)" "timers w' = []"
    "sockets w' = sockets w"
  shows "conn_inv (connect w')"
  using assms by (auto simp: conn_inv_def connect_def nth_append less_Suc_eq)

lemma conn_phase:
  assumes "conn_inv w" "s < length (sockets w)" "s_phase (sockets w ! s) \<noteq> Closed" "p \<noteq> Connecting"
    "p \<in> {Closing, Closed} \<or> s_hooked (sockets w ! s)"
  shows "conn_inv (set_phase s p w)"
proof -
  have live: "live (sockets (set_phase s p w) ! s') \<Longrightarrow> live (sockets w ! s')" for s'
    using assms(2,3) by (cases "s' = s") (auto simp: set_phase_def live_def)
  have same: "ws (set_phase s p w) = ws w" "timers (set_phase s p w) = timers w"
    "reconnectTimer (set_phase s p w) = reconnectTimer w"
    "length (sockets (set_phase s p w)) = length (sockets w)" by (simp_all add: set_phase_def)
  have "\<forall>s' < length (sockets w). s_hooked (sockets (set_phase s p w) ! s')
      \<or> s_phase (sockets (set_phase s p w) ! s') \<in> {Closing, Closed}"
    using assms(1,2,5) by (auto simp: set_phase_def nth_list_update conn_inv_def)
  with assms(1) live show ?thesis unfolding conn_inv_def same by blast
qed

lemma conn_close:
  assumes inv: "conn_inv w" and s: "s < length (sockets w)" "s_phase (sockets w ! s) \<noteq> Closed"
    and hooked: "s_hooked (sockets w ! s)"
  shows "conn_inv (scheduleReconnect r (set_phase s Closed w))"
proof -
  have "live (sockets w ! s)" using s hooked by (simp add: live_def)
  with inv s have cur: "ws w = Some s" "timers w = []" by (auto simp: conn_inv_def)
  have dead: "\<not> live (sockets (set_phase s Closed w) ! s')" if "s' < length (sockets w)" for s'
  proof (cases "s' = s")
    case True
    with s(1) show ?thesis by (simp add: set_phase_def live_def)
  next
    case False
    with that inv cur(1) show ?thesis by (auto simp: set_phase_def conn_inv_def)
  qed
  have hooks: "s_hooked (sockets (set_phase s Closed w) ! s') \<or> s_phase (sockets (set_phase s Closed w) ! s') \<in> {Closing, Closed}"
    if "s' < length (sockets w)" for s'
    using conn_phase [OF inv s, of Closed] that by (simp add: conn_inv_def set_phase_def)
  have "length (sockets (set_phase s Closed w)) = length (sockets w)" "timers (set_phase s Closed w) = []"
    "ws (set_phase s Closed w) = Some s"
    using cur by (simp_all add: set_phase_def)
  with dead hooks show ?thesis
    by (simp add: conn_inv_def scheduleReconnect_def Let_def)
qed

lemma conn_disconnect: "conn_inv w \<Longrightarrow> timers (disconnect w) = [] \<and> ws (disconnect w) = None
    \<and> (\<forall>s < length (sockets (disconnect w)). \<not> s_hooked (sockets (disconnect w) ! s) \<or> s_phase (sockets (disconnect w) ! s) = Closed)
    \<and> (\<forall>s < length (sockets (disconnect w)). s_phase (sockets (disconnect w) ! s) \<in> {Closing, Closed})
    \<and> length (sockets (disconnect w)) = length (sockets w)"
proof -
  assume inv: "conn_inv w"
  define w1 where "w1 = (case reconnectTimer w of None \<Rightarrow> w
    | Some t \<Rightarrow> w\<lparr>timers := set_remove t (timers w), reconnectTimer := None\<rparr>)"
  have w1: "timers w1 = []" "ws w1 = ws w" "sockets w1 = sockets w"
    using inv by (auto simp: w1_def conn_inv_def set_remove_def split: option.split)
  define w2 where "w2 = (case ws w1 of None \<Rightarrow> w1 | Some s \<Rightarrow> (close_socket s w1)\<lparr>ws := None\<rparr>)"
  have w2: "timers w2 = []" "ws w2 = None" "length (sockets w2) = length (sockets w)"
    using w1 by (simp_all add: w2_def close_socket_def split: option.split)
  have socks: "(\<not> s_hooked (sockets w2 ! s) \<or> s_phase (sockets w2 ! s) = Closed)
      \<and> s_phase (sockets w2 ! s) \<in> {Closing, Closed}" if "s < length (sockets w)" for s
  proof (cases "ws w = Some s")
    case True
    with that w1 show ?thesis by (auto simp: w2_def close_socket_def)
  next
    case False
    with that inv have "\<not> live (sockets w ! s)" "s_hooked (sockets w ! s) \<or> s_phase (sockets w ! s) \<in> {Closing, Closed}"
      by (auto simp: conn_inv_def)
    moreover have "sockets w2 ! s = sockets w ! s"
      using False w1 by (auto simp: w2_def close_socket_def split: option.split)
    ultimately show ?thesis by (auto simp: live_def)
  qed
  have d: "timers (disconnect w) = timers w2" "ws (disconnect w) = ws w2" "sockets (disconnect w) = sockets w2"
    unfolding disconnect_def Let_def w1_def [symmetric] w2_def [symmetric] by simp_all
  show ?thesis unfolding d using w2 socks by simp
qed

lemma conn_disconnect_inv:
  assumes "conn_inv w"
  shows "conn_inv (disconnect w)"
  using conn_disconnect [OF assms] by (simp add: conn_inv_def live_def)

lemma conn_subs:
  "conn_inv (w\<lparr>anyHandlers := hs\<rparr>) = conn_inv w" "conn_inv (w\<lparr>onReconnectCallbacks := hs\<rparr>) = conn_inv w"
  by (rule same_conn_inv, simp add: same_conn_def)+

lemma conn_step:
  assumes inv: "conn_inv w" and en: "ws_enabled w e"
  shows "conn_inv (ws_step parse w e)"
proof (cases e)
  case Connect
  with en inv have "conn_inv (connect w)" by (intro conn_connect [OF inv]) (auto simp: conn_inv_def)
  with Connect show ?thesis by simp
next
  case (TimerFires t)
  with en inv have "\<forall>s < length (sockets w). \<not> live (sockets w ! s)" "set_remove t (timers w) = []"
    by (auto simp: conn_inv_def set_remove_def)
  with TimerFires inv show ?thesis by (auto intro!: conn_connect)
next
  case (SocketOpen s)
  with en have s: "s < length (sockets w)" "s_phase (sockets w ! s) = Connecting" by auto
  with inv have "s_hooked (sockets w ! s)" by (auto simp: conn_inv_def)
  with s have "conn_inv (set_phase s Open w)" by (intro conn_phase [OF inv]) auto
  with SocketOpen show ?thesis using same_conn_inv [OF same_conn_ops(6)] by simp
next
  case (SocketClose s r)
  with en inv show ?thesis by (auto intro: conn_close conn_phase)
next
  case Disconnect
  with inv show ?thesis by (simp add: conn_disconnect_inv)
next
  case (SocketMessage s data)
  then show ?thesis using inv same_conn_inv [OF same_conn_ops(7)] by simp
qed (use inv in \<open>simp_all add: same_conn_inv [OF same_conn_ops(1)] same_conn_inv [OF same_conn_ops(2)]
  same_conn_inv [OF same_conn_ops(3)] same_conn_inv [OF same_conn_ops(4)] conn_subs\<close>)

section \<open>The effects\<close>

text \<open>A step that adds no callback run and forgets no authentication.\<close>

definition plain_log :: "ws_world \<Rightarrow> ws_world \<Rightarrow> bool" where
  "plain_log w w' = (\<exists>es. ws_log w' = ws_log w @ es \<and> (\<forall>e \<in> set es. \<not> is_callback e)
     \<and> (hasConnectedBefore w' \<longrightarrow> hasConnectedBefore w))"

lemma plain_log_inv: "plain_log w w' \<Longrightarrow> log_inv w \<Longrightarrow> log_inv w'"
  by (auto simp: plain_log_def log_inv_def intro!: callbacks_append)

lemma plain_same: "ws_log w' = ws_log w \<Longrightarrow> hasConnectedBefore w' = hasConnectedBefore w \<Longrightarrow> plain_log w w'"
  by (simp add: plain_log_def)

lemma plain_emit: "\<forall>e \<in> set es. \<not> is_callback e \<Longrightarrow> plain_log w (emit es w)"
  by (auto simp: plain_log_def)

lemma plain_send: "(\<And>s. \<not> is_callback (e s)) \<Longrightarrow> plain_log w (ws_send e w)"
  by (auto simp: ws_send_def intro: plain_emit plain_same split: option.split)

lemma log_auth: "log_inv w \<Longrightarrow> log_inv (onAuthenticated w)"
proof -
  assume inv: "log_inv w"
  have late: "callbacks_late (ws_log w @ [LogConnected])"
    using inv by (intro callbacks_append) (auto simp: log_inv_def is_callback_def)
  show ?thesis
  proof (cases "hasConnectedBefore w")
    case True
    with inv have "2 \<le> connected_count (ws_log w @ [LogConnected])"
      by (simp add: log_inv_def connected_count_def)
    with late have "callbacks_late ((ws_log w @ [LogConnected]) @ map CallReconnect (onReconnectCallbacks w))"
      by (intro callbacks_append [OF late]) auto
    with True show ?thesis
      by (simp add: onAuthenticated_def Let_def log_inv_def connected_count_def)
  next
    case False
    with late show ?thesis by (simp add: onAuthenticated_def Let_def log_inv_def connected_count_def)
  qed
qed

lemma log_open: "log_inv w \<Longrightarrow> log_inv (onopen w)"
  using log_auth plain_log_inv [OF plain_send, of "\<lambda>s. SentAuth s (the (token w))" w]
  by (auto simp: onopen_def is_callback_def)

lemma log_message: "log_inv w \<Longrightarrow> log_inv (onmessage parse data w)"
proof -
  assume inv: "log_inv w"
  have quiet: "log_inv (emit es w)" if "\<forall>e \<in> set es. \<not> is_callback e" for es
    using plain_log_inv [OF plain_emit [OF that] inv] .
  show ?thesis
  proof (cases "parse data")
    case (Some msg)
    show ?thesis
    proof (cases "frame_type msg")
      case None
      have "plain_log w (emit [LogBadFrame m] (w\<lparr>badFrameLogged := True\<rparr>))" for m
        by (simp add: plain_log_def is_callback_def)
      with None Some inv show ?thesis by (auto simp: onmessage_def intro: plain_log_inv)
    next
      case (Some t)
      with \<open>parse data = Some msg\<close> inv show ?thesis
        by (auto simp: onmessage_def Let_def is_callback_def intro!: quiet log_auth)
    qed
  qed (auto simp: onmessage_def is_callback_def intro: quiet)
qed

lemma plain_ops:
  "plain_log w (setAuth tok slug w)" "plain_log w (connect w)" "plain_log w (disconnect w)"
  "plain_log w (ws_on ev h w)" "plain_log w (ws_off ev h w)" "plain_log w (scheduleReconnect r w)"
  "plain_log w (set_phase s p w)"
proof -
  show "plain_log w (disconnect w)"
    by (simp add: plain_log_def disconnect_def Let_def close_socket_def split: option.split)
  show "plain_log w (scheduleReconnect r w)"
    by (simp add: plain_log_def scheduleReconnect_def Let_def is_callback_def)
qed (simp_all add: plain_log_def setAuth_def connect_def ws_on_def ws_off_def set_phase_def Let_def split: option.split)

lemma log_step: "log_inv w \<Longrightarrow> log_inv (ws_step parse w e)"
proof (cases e)
  case (SocketOpen s)
  assume "log_inv w"
  from log_open [OF plain_log_inv [OF plain_ops(7) this]] SocketOpen show ?thesis by simp
next
  case (SocketClose s r)
  assume "log_inv w"
  from plain_log_inv [OF plain_ops(7) this] plain_log_inv [OF plain_ops(6)] SocketClose show ?thesis by simp
next
  case (TimerFires t)
  assume "log_inv w"
  from plain_log_inv [OF plain_same this, of "w\<lparr>timers := set_remove t (timers w)\<rparr>"]
    plain_log_inv [OF plain_ops(2)] TimerFires show ?thesis by simp
next
  case (Send msg)
  assume "log_inv w"
  with plain_log_inv [OF plain_send] Send show ?thesis by (simp add: is_callback_def)
next
  case (SocketMessage s data)
  assume "log_inv w"
  then show ?thesis using SocketMessage by (simp add: log_message)
qed (auto intro: plain_log_inv [OF plain_ops(1)] plain_log_inv [OF plain_ops(2)] plain_log_inv [OF plain_ops(3)]
    plain_log_inv [OF plain_ops(4)] plain_log_inv [OF plain_ops(5)] plain_log_inv [OF plain_same])

section \<open>Reachable states\<close>

definition ws_inv :: "ws_world \<Rightarrow> bool" where
  "ws_inv w = (conn_inv w \<and> log_inv w)"

interpretation wsm: invariant_machine ws_start "ws_step parse" ws_enabled ws_inv for parse
proof unfold_locales
  show "ws_inv w" if "ws_start w" for w
    using that by (auto simp: ws_start_def new_client_def ws_inv_def conn_inv_def log_inv_def callbacks_late_def)
  show "ws_inv (ws_step parse w e)" if "ws_inv w" "ws_enabled w e" for w e
    using that conn_step log_step by (simp add: ws_inv_def)
qed

text \<open>A client that was let go: nothing the browser still delivers has an effect.\<close>

definition quiet :: "ws_world \<Rightarrow> bool" where
  "quiet w = (timers w = [] \<and> ws w = None
     \<and> (\<forall>s \<in> set (sockets w). s_phase s \<in> {Closing, Closed} \<and> (\<not> s_hooked s \<or> s_phase s = Closed)))"

lemma quiet_step:
  assumes "quiet w" "ws_enabled w e" "from_browser e"
  shows "quiet (ws_step parse w e) \<and> ws_log (ws_step parse w e) = ws_log w
    \<and> length (sockets (ws_step parse w e)) = length (sockets w)"
proof -
  have socks: "s_phase (sockets w ! s) \<in> {Closing, Closed} \<and> (\<not> s_hooked (sockets w ! s) \<or> s_phase (sockets w ! s) = Closed)"
    if "s < length (sockets w)" for s using assms(1) that by (simp add: quiet_def)
  show ?thesis
  proof (cases e)
    case (SocketOpen s)
    with assms(2) socks [of s] show ?thesis by simp
  next
    case (SocketMessage s data)
    with assms(2) socks [of s] show ?thesis by simp
  next
    case (SocketClose s r)
    with assms(2) socks [of s] have s: "s < length (sockets w)" "\<not> s_hooked (sockets w ! s)" by auto
    have "x \<in> set ((sockets w)[s := (sockets w ! s)\<lparr>s_phase := Closed\<rparr>]) \<Longrightarrow>
        s_phase x \<in> {Closing, Closed} \<and> (\<not> s_hooked x \<or> s_phase x = Closed)" for x
      using assms(1) s(2)
        subsetD [OF set_update_subset_insert [of "sockets w" s "(sockets w ! s)\<lparr>s_phase := Closed\<rparr>"], of x]
      unfolding quiet_def by auto
    with assms(1) s SocketClose show ?thesis by (simp add: quiet_def set_phase_def)
  next
    case (TimerFires t)
    with assms(1,2) show ?thesis by (simp add: quiet_def)
  qed (use assms(3) in \<open>simp_all add: from_browser_def\<close>)
qed

lemma quiet_run:
  "quiet w \<Longrightarrow> run_ok (ws_step parse) (\<lambda>w e. ws_enabled w e \<and> from_browser e) w es \<Longrightarrow>
   ws_log (foldl (ws_step parse) w es) = ws_log w \<and> length (sockets (foldl (ws_step parse) w es)) = length (sockets w)"
proof (induction es arbitrary: w)
  case (Cons e es)
  then have "ws_enabled w e" "from_browser e" by auto
  from quiet_step [OF Cons.prems(1) this, of parse] Cons show ?case by auto
qed simp

section \<open>Properties\<close>

text \<open>C18: at any moment the client has at most one way to the server: one live socket or one pending
  reconnection, never both and never two, whatever the browser delivers and the application
  calls, as long as it connects only a new or disconnected client.\<close>

theorem one_connection:
  assumes "reachable ws_start (ws_step parse) ws_enabled w"
  shows "length (filter live (sockets w)) + length (timers w) \<le> 1"
proof -
  from wsm.inv_reachable [OF assms] have inv: "conn_inv w" by (simp add: ws_inv_def)
  have "card {s. s < length (sockets w) \<and> live (sockets w ! s)} \<le> card (set_option (ws w))"
    using inv by (intro card_mono) (auto simp: conn_inv_def)
  moreover have "card (set_option (ws w)) \<le> 1" by (cases "ws w") simp_all
  ultimately have one: "length (filter live (sockets w)) \<le> 1" by (simp add: length_filter_conv_card)
  show ?thesis
  proof (cases "timers w = []")
    case False
    with inv have "length (timers w) = 1" "\<forall>s < length (sockets w). \<not> live (sockets w ! s)"
      by (auto simp: conn_inv_def)
    then show ?thesis by (auto simp: filter_empty_conv in_set_conv_nth)
  qed (use one in simp)
qed

text \<open>C35: a disconnect is final: from any reachable state, after \<open>disconnect\<close> nothing the browser
  still delivers (late messages, the close event, a fired timeout) calls a handler, sends,
  schedules a reconnection or opens a socket.\<close>

theorem disconnect_is_final:
  assumes w: "reachable ws_start (ws_step parse) ws_enabled w"
    and es: "run_ok (ws_step parse) (\<lambda>w e. ws_enabled w e \<and> from_browser e) (disconnect w) es"
  shows "ws_log (foldl (ws_step parse) (disconnect w) es) = ws_log w
    \<and> length (sockets (foldl (ws_step parse) (disconnect w) es)) = length (sockets w)"
proof -
  from wsm.inv_reachable [OF w] have inv: "conn_inv w" by (simp add: ws_inv_def)
  have "quiet (disconnect w)"
    using conn_disconnect [OF inv] by (auto simp: quiet_def in_set_conv_nth)
  moreover have "ws_log (disconnect w) = ws_log w"
    by (simp add: disconnect_def Let_def close_socket_def split: option.split)
  ultimately show ?thesis using quiet_run [OF _ es] conn_disconnect [OF inv] by simp
qed

text \<open>Reconnect callbacks run only after a reconnection: in the whole history of a client every
  run of a callback is preceded by two authentications, so a first connection never triggers
  the recovery of missed events.\<close>

theorem callbacks_after_reconnection:
  assumes "reachable ws_start (ws_step parse) ws_enabled w"
    and "i < length (ws_log w)" "ws_log w ! i = CallReconnect cb"
  shows "2 \<le> connected_count (take i (ws_log w))"
proof -
  from wsm.inv_reachable [OF assms(1)] have "callbacks_late (ws_log w)" by (simp add: ws_inv_def log_inv_def)
  with assms(2,3) show ?thesis by (auto simp: callbacks_late_def is_callback_def)
qed

text \<open>The back-off is bounded: whatever the number of failed attempts and whatever the random
  number, the delay is between 800 milliseconds and 30 seconds, and from the fifth attempt on at
  least 24 seconds.\<close>

theorem backoff_bounds:
  assumes "0 \<le> r" "r < 1"
  shows "800 \<le> reconnect_delay n r \<and> reconnect_delay n r \<le> 30000 \<and> (5 \<le> n \<longrightarrow> 24000 \<le> reconnect_delay n r)"
proof -
  define b :: rat where "b = of_nat (min (RECONNECT_BASE_DELAY_MS * 2 ^ n) RECONNECT_MAX_DELAY_MS)"
  have "(1 :: nat) \<le> 2 ^ n" by simp
  then have "1000 \<le> min (RECONNECT_BASE_DELAY_MS * 2 ^ n) RECONNECT_MAX_DELAY_MS"
    by (simp add: RECONNECT_BASE_DELAY_MS_def RECONNECT_MAX_DELAY_MS_def)
  then have b: "1000 \<le> b" "b \<le> 30000"
    unfolding b_def by (simp_all add: RECONNECT_MAX_DELAY_MS_def min_def split: if_splits)
  have late: "b = 30000" if "5 \<le> n"
  proof -
    have "(2 :: nat) ^ 5 \<le> 2 ^ n" using that by (rule power_increasing) simp
    then show ?thesis by (simp add: b_def RECONNECT_BASE_DELAY_MS_def RECONNECT_MAX_DELAY_MS_def)
  qed
  define d where "d = min (b + b * (1 / 5) * (r * 2 - 1)) 30000"
  have j: "b * (1 / 5) * (r * 2 - 1) = b * r * (2 / 5) - b / 5" by (simp add: field_simps)
  have "0 \<le> b * r" using b assms by simp
  then have low: "b * 4 / 5 \<le> d" unfolding d_def j using b by simp
  have high: "d \<le> 30000" by (simp add: d_def)
  have delay: "reconnect_delay n r = \<lfloor>d + 1 / 2\<rfloor>"
    by (simp add: reconnect_delay_def math_round_def Let_def d_def b_def RECONNECT_MAX_DELAY_MS_def)
  have "800 \<le> \<lfloor>d + 1 / 2\<rfloor>" using low b by (simp add: le_floor_iff)
  moreover have "\<lfloor>d + 1 / 2\<rfloor> \<le> 30000" using high by (simp add: floor_le_iff)
  moreover have "24000 \<le> \<lfloor>d + 1 / 2\<rfloor>" if "5 \<le> n"
    using low late [OF that] by (simp add: le_floor_iff)
  ultimately show ?thesis unfolding delay by blast
qed

theorem backoff_bounds_witness: "800 \<le> reconnect_delay 0 (1 / 4) \<and> reconnect_delay 0 (1 / 4) = 900"
proof -
  have "reconnect_delay 0 (1 / 4) = 900"
    by (simp add: reconnect_delay_def math_round_def RECONNECT_BASE_DELAY_MS_def RECONNECT_MAX_DELAY_MS_def
      floor_eq_iff)
  moreover have "800 \<le> reconnect_delay 0 (1 / 4)" using backoff_bounds [of "1 / 4" 0] by simp
  ultimately show ?thesis by blast
qed

section \<open>A session\<close>

text \<open>Open, acknowledged, closed by the server, reconnected and acknowledged again.\<close>

definition some_parse :: "jstr \<Rightarrow> json option" where
  "some_parse data = (if data = ''ack'' then Some (JObj [(''type'', JStr ''auth_ack'')]) else None)"

definition some_session :: "ws_event list" where
  "some_session = [SetAuth (Some ''t'') ''acme'', Connect, OnReconnect 7, SocketOpen 0, SocketMessage 0 ''ack'',
     SocketClose 0 (1 / 4), TimerFires 1, SocketOpen 1, SocketMessage 1 ''ack'']"

lemmas session_simps = some_session_def some_parse_def new_client_def setAuth_def connect_def connect_url_def
  set_param_def truthy_def onopen_def ws_send_def emit_def onmessage_def frame_type_def json_field_def
  onAuthenticated_def scheduleReconnect_def set_phase_def set_add_def set_remove_def Let_def

lemma some_reachable:
  "reachable ws_start (ws_step some_parse) ws_enabled (foldl (ws_step some_parse) (new_client ''wss://x'' False None) some_session)"
proof (rule reachable_run)
  show "reachable ws_start (ws_step some_parse) ws_enabled (new_client ''wss://x'' False None)"
    by (rule reachable.init) (auto simp: ws_start_def)
  show "run_ok (ws_step some_parse) ws_enabled (new_client ''wss://x'' False None) some_session"
    by (simp add: session_simps)
qed

theorem one_connection_witness:
  "length (filter live (sockets (foldl (ws_step some_parse) (new_client ''wss://x'' False None) some_session)))
   + length (timers (foldl (ws_step some_parse) (new_client ''wss://x'' False None) some_session)) \<le> 1"
  by (rule one_connection [OF some_reachable])

theorem disconnect_is_final_witness:
  "length (sockets (foldl (ws_step some_parse)
     (disconnect (foldl (ws_step some_parse) (new_client ''wss://x'' False None) some_session)) [SocketClose 1 (1 / 4)]))
   = length (sockets (foldl (ws_step some_parse) (new_client ''wss://x'' False None) some_session))"
  by (rule conjunct2 [OF disconnect_is_final [OF some_reachable]])
    (simp add: session_simps disconnect_def close_socket_def from_browser_def)

theorem callbacks_after_reconnection_witness:
  "2 \<le> connected_count (take 5 (ws_log (foldl (ws_step some_parse) (new_client ''wss://x'' False None) some_session)))"
  by (rule callbacks_after_reconnection [OF some_reachable, of _ 7]) (simp_all add: session_simps)

end
