(* ===== verification/Presence.thy ===== *)
theory Presence
  imports JS_Object
begin

text \<open>
  The presence of agents (\<open>packages/core/agents/derive-presence.ts\<close>,
  \<open>packages/core/runtimes/derive-health.ts\<close>): runtime health from timestamps, workload from
  tasks, and the map the workspace pages read. \<open>Date\<close> parsing is a parameter: \<open>None\<close> stands for
  \<open>NaN\<close>, every comparison with which is false.
\<close>

section \<open>Types\<close>

datatype RuntimeHealth = HealthOnline | RecentlyLost | HealthOffline | AboutToGc

datatype AgentAvailability = AvOnline | Unstable | AvOffline | Archived

datatype Workload = Working | Queued | Idle

datatype TaskStatus =
    TQueued | TDispatched | TWaitingLocalDirectory | TRunning | TCompleted | TFailed | TCancelled

record agent_runtime =
  rn_id :: jstr
  rn_online :: bool
  rn_last_seen_at :: "jstr option"

record presence_agent =
  ag_id :: jstr
  ag_runtime_id :: jstr
  ag_archived_at :: "jstr option"
  ag_max_concurrent_tasks :: nat

record agent_task =
  tk_agent_id :: jstr
  tk_status :: TaskStatus

record AgentPresenceDetail =
  availability :: AgentAvailability
  workload :: Workload
  runningCount :: nat
  queuedCount :: nat
  capacity :: nat

section \<open>Health\<close>

definition FIVE_MINUTES_MS :: int where
  "FIVE_MINUTES_MS = 5 * 60 * 1000"

definition ABOUT_TO_GC_THRESHOLD_MS :: int where
  "ABOUT_TO_GC_THRESHOLD_MS = 6 * 24 * 3600 * 1000"

text \<open>\<open>last_seen_at\<close> is read as zero when it is null or empty.\<close>

definition last_seen :: "(jstr \<Rightarrow> int option) \<Rightarrow> agent_runtime \<Rightarrow> int option" where
  "last_seen date r =
     (case rn_last_seen_at r of None \<Rightarrow> Some 0 | Some s \<Rightarrow> if s = [] then Some 0 else date s)"

definition deriveRuntimeHealth :: "(jstr \<Rightarrow> int option) \<Rightarrow> agent_runtime \<Rightarrow> int \<Rightarrow> RuntimeHealth" where
  "deriveRuntimeHealth date r now =
     (if rn_online r then HealthOnline
      else case last_seen date r of
             None \<Rightarrow> HealthOffline
           | Some seen \<Rightarrow>
               if now - seen < FIVE_MINUTES_MS then RecentlyLost
               else if now - seen > ABOUT_TO_GC_THRESHOLD_MS then AboutToGc
               else HealthOffline)"

definition deriveAgentAvailability ::
    "(jstr \<Rightarrow> int option) \<Rightarrow> agent_runtime option \<Rightarrow> int \<Rightarrow> AgentAvailability" where
  "deriveAgentAvailability date runtime now =
     (case runtime of
        None \<Rightarrow> AvOffline
      | Some r \<Rightarrow>
          let health = deriveRuntimeHealth date r now in
          if health = HealthOnline then AvOnline
          else if health = RecentlyLost then Unstable
          else AvOffline)"

section \<open>Workload\<close>

definition deriveWorkload :: "nat \<Rightarrow> nat \<Rightarrow> Workload" where
  "deriveWorkload running queued = (if running > 0 then Working else if queued > 0 then Queued else Idle)"

text \<open>The loop over the tasks, with its two counters.\<close>

fun count_tasks :: "agent_task list \<Rightarrow> nat \<times> nat \<Rightarrow> nat \<times> nat" where
  "count_tasks [] (running, queued) = (running, queued)"
| "count_tasks (t # ts) (running, queued) =
     (if tk_status t = TRunning then count_tasks ts (running + 1, queued)
      else if tk_status t = TQueued \<or> tk_status t = TDispatched \<or> tk_status t = TWaitingLocalDirectory
      then count_tasks ts (running, queued + 1)
      else count_tasks ts (running, queued))"

definition deriveWorkloadDetail :: "agent_task list \<Rightarrow> Workload \<times> nat \<times> nat" where
  "deriveWorkloadDetail tasks =
     (let (running, queued) = count_tasks tasks (0, 0) in (deriveWorkload running queued, running, queued))"

definition deriveAgentPresenceDetail ::
    "(jstr \<Rightarrow> int option) \<Rightarrow> presence_agent \<Rightarrow> agent_runtime option \<Rightarrow> agent_task list \<Rightarrow> int \<Rightarrow> AgentPresenceDetail" where
  "deriveAgentPresenceDetail date agent runtime tasks now =
     (if ag_archived_at agent \<noteq> None \<and> ag_archived_at agent \<noteq> Some []
      then \<lparr>availability = Archived, workload = Idle, runningCount = 0, queuedCount = 0,
            capacity = ag_max_concurrent_tasks agent\<rparr>
      else
        let (load, running, queued) = deriveWorkloadDetail tasks
        in \<lparr>availability = deriveAgentAvailability date runtime now, workload = load,
            runningCount = running, queuedCount = queued, capacity = ag_max_concurrent_tasks agent\<rparr>)"

section \<open>The map of a workspace\<close>

definition index_runtimes :: "agent_runtime list \<Rightarrow> (jstr, agent_runtime) jsmap" where
  "index_runtimes runtimes = foldl (\<lambda>m r. map_set (rn_id r) r m) [] runtimes"

definition add_task :: "(jstr, agent_task list) jsmap \<Rightarrow> agent_task \<Rightarrow> (jstr, agent_task list) jsmap" where
  "add_task m t =
     (case map_get m (tk_agent_id t) of
        Some ts \<Rightarrow> map_set (tk_agent_id t) (ts @ [t]) m
      | None \<Rightarrow> map_set (tk_agent_id t) [t] m)"

definition index_tasks :: "agent_task list \<Rightarrow> (jstr, agent_task list) jsmap" where
  "index_tasks snapshot = foldl add_task [] snapshot"

definition buildPresenceMap ::
    "(jstr \<Rightarrow> int option) \<Rightarrow> presence_agent list \<Rightarrow> agent_runtime list \<Rightarrow> agent_task list \<Rightarrow> int
     \<Rightarrow> (jstr, AgentPresenceDetail) jsmap" where
  "buildPresenceMap date agents runtimes snapshot now =
     (let runtimesById = index_runtimes runtimes;
          tasksByAgent = index_tasks snapshot
      in foldl (\<lambda>out agent.
           let runtime = map_get runtimesById (ag_runtime_id agent);
               tasks = (case map_get tasksByAgent (ag_id agent) of None \<Rightarrow> [] | Some ts \<Rightarrow> ts)
           in map_set (ag_id agent) (deriveAgentPresenceDetail date agent runtime tasks now) out) [] agents)"

section \<open>The indices\<close>

text \<open>A fold of insertions holds, for each key, the last value inserted.\<close>

lemma map_get_foldl_set:
  "map_get (foldl (\<lambda>m x. map_set (key x) (val x) m) m0 xs) k =
     (case find (\<lambda>x. key x = k) (rev xs) of None \<Rightarrow> map_get m0 k | Some x \<Rightarrow> Some (val x))"
  by (induction xs rule: rev_induct) (auto simp: map_get_set)

lemma index_runtimes_get: "map_get (index_runtimes rs) k = find (\<lambda>r. rn_id r = k) (rev rs)"
  by (simp add: index_runtimes_def map_get_foldl_set split: option.split)

definition tasks_of :: "jstr \<Rightarrow> agent_task list \<Rightarrow> agent_task list" where
  "tasks_of a ts = filter (\<lambda>t. tk_agent_id t = a) ts"

lemma index_tasks_get:
  "map_get (index_tasks ts) a = (if tasks_of a ts = [] then None else Some (tasks_of a ts))"
proof (induction ts rule: rev_induct)
  case (snoc t ts)
  then show ?case
    by (auto simp: index_tasks_def add_task_def tasks_of_def map_get_set split: option.split)
qed (simp add: index_tasks_def tasks_of_def)

lemma count_tasks_eq:
  "count_tasks ts (r, q) =
     (r + length (filter (\<lambda>t. tk_status t = TRunning) ts),
      q + length (filter (\<lambda>t. tk_status t \<in> {TQueued, TDispatched, TWaitingLocalDirectory}) ts))"
  by (induction ts "(r, q)" arbitrary: r q rule: count_tasks.induct) auto

section \<open>Properties\<close>

text \<open>The presence map, built in one pass over indices, holds for every agent exactly the presence
  derived from the agent's own row, the last runtime row with its runtime identifier, and the
  tasks that carry the agent's identifier; nothing else is in the map.\<close>

theorem presence_map_correct:
  assumes "distinct (map ag_id agents)"
  shows "map_get (buildPresenceMap date agents runtimes snapshot now) k =
    map_option (\<lambda>a. deriveAgentPresenceDetail date a (find (\<lambda>r. rn_id r = ag_runtime_id a) (rev runtimes))
                 (tasks_of k snapshot) now)
      (find (\<lambda>a. ag_id a = k) agents)"
proof -
  have "find (\<lambda>a. ag_id a = k) (rev agents) = find (\<lambda>a. ag_id a = k) agents"
    using assms
  proof (induction agents)
    case (Cons a as)
    have "find P (xs @ ys) = (case find P xs of None \<Rightarrow> find P ys | Some x \<Rightarrow> Some x)" for P and xs ys :: "presence_agent list"
      by (induction xs) auto
    moreover have "find (\<lambda>b. ag_id b = k) as = None" if "ag_id a = k"
      using that Cons.prems by (auto simp: find_None_iff image_iff)
    ultimately show ?case
      using Cons by (cases "find (\<lambda>a. ag_id a = k) as") auto
  qed simp
  then show ?thesis
    by (auto simp: buildPresenceMap_def Let_def map_get_foldl_set index_runtimes_get index_tasks_get
        split: option.split dest: find_in_set)
qed

theorem presence_map_correct_witness:
  "map_get (buildPresenceMap (\<lambda>_. None)
      [\<lparr>ag_id = ''a'', ag_runtime_id = ''r'', ag_archived_at = None, ag_max_concurrent_tasks = 3\<rparr>]
      [\<lparr>rn_id = ''r'', rn_online = True, rn_last_seen_at = None\<rparr>]
      [\<lparr>tk_agent_id = ''a'', tk_status = TRunning\<rparr>, \<lparr>tk_agent_id = ''b'', tk_status = TQueued\<rparr>] 0) ''a''
   = Some \<lparr>availability = AvOnline, workload = Working, runningCount = 1, queuedCount = 0, capacity = 3\<rparr>"
  by (subst presence_map_correct)
    (simp_all add: deriveAgentPresenceDetail_def deriveAgentAvailability_def deriveRuntimeHealth_def
      deriveWorkloadDetail_def deriveWorkload_def tasks_of_def)

text \<open>The stages of an outage.\<close>

fun health_stage :: "RuntimeHealth \<Rightarrow> nat" where
  "health_stage HealthOnline = 0"
| "health_stage RecentlyLost = 1"
| "health_stage HealthOffline = 2"
| "health_stage AboutToGc = 3"

text \<open>Health follows the clock: a runtime that stays offline with a readable timestamp passes
  through \<open>recently_lost\<close>, \<open>offline\<close> and \<open>about_to_gc\<close> in this order as time goes on and never
  returns to an earlier one.\<close>

theorem health_decays:
  assumes "now \<le> later"
  shows "health_stage (deriveRuntimeHealth date r now) \<le> health_stage (deriveRuntimeHealth date r later)"
  using assms
  by (auto simp: deriveRuntimeHealth_def FIVE_MINUTES_MS_def ABOUT_TO_GC_THRESHOLD_MS_def split: option.split)

theorem health_decays_witness:
  "health_stage (deriveRuntimeHealth (\<lambda>_. Some 0) \<lparr>rn_id = ''r'', rn_online = False, rn_last_seen_at = Some ''t''\<rparr> 0)
   \<le> health_stage (deriveRuntimeHealth (\<lambda>_. Some 0) \<lparr>rn_id = ''r'', rn_online = False, rn_last_seen_at = Some ''t''\<rparr> 300000)"
  by (rule health_decays) simp

end
