(* ===== verification/Inbox_Groups.thy ===== *)
theory Inbox_Groups
  imports Issue_Cache
begin

text \<open>
  The inbox lists as the pages show them (\<open>packages/core/inbox/queries.ts\<close>): one row per issue,
  the newest notification first. \<open>new Date(s).getTime()\<close> is a parameter, an integer for each
  timestamp (the lists hold valid ones); \<open>Array.prototype.sort\<close> is stable, as \<^const>\<open>sort_key\<close>.
  Of \<open>details\<close> the code reads \<open>comment_id\<close> only.
\<close>

section \<open>Definitions\<close>

definition item_key :: "inbox_item \<Rightarrow> jstr" where
  "item_key i = (case ib_issue_id i of None \<Rightarrow> ib_id i | Some k \<Rightarrow> k)"

definition add_item :: "(jstr, inbox_item list) jsmap \<Rightarrow> inbox_item \<Rightarrow> (jstr, inbox_item list) jsmap" where
  "add_item m i =
     (let grp = (case map_get m (item_key i) of None \<Rightarrow> [] | Some g \<Rightarrow> g)
      in map_set (item_key i) (grp @ [i]) m)"

definition newest_first :: "(jstr \<Rightarrow> int) \<Rightarrow> inbox_item list \<Rightarrow> inbox_item list" where
  "newest_first time xs = sort_key (\<lambda>i. - time (ib_created_at i)) xs"

definition has_comment :: "inbox_item \<Rightarrow> bool" where
  "has_comment i = (ib_comment_id i \<noteq> None \<and> ib_comment_id i \<noteq> Some [])"

text \<open>The row of one group, \<open>None\<close> for an empty one.\<close>

definition merge_items :: "(jstr \<Rightarrow> int) \<Rightarrow> inbox_item list \<Rightarrow> inbox_item option" where
  "merge_items time grp =
     (case newest_first time grp of
        [] \<Rightarrow> None
      | newest # others \<Rightarrow>
          let commentId = (case ib_comment_id newest of
                             Some c \<Rightarrow> Some c
                           | None \<Rightarrow> (case find has_comment (newest # others) of
                                       None \<Rightarrow> None | Some i \<Rightarrow> ib_comment_id i))
          in if commentId \<noteq> None \<and> commentId \<noteq> Some [] \<and> ib_comment_id newest \<noteq> commentId
             then Some (newest\<lparr>ib_comment_id := commentId\<rparr>)
             else Some newest)"

definition groupInboxItemsByIssue :: "(jstr \<Rightarrow> int) \<Rightarrow> inbox_item list \<Rightarrow> inbox_item list" where
  "groupInboxItemsByIssue time items =
     (let groups = foldl add_item [] items;
          merged = List.map_filter (merge_items time) (map snd groups)
      in newest_first time merged)"

definition deduplicateInboxItems :: "(jstr \<Rightarrow> int) \<Rightarrow> inbox_item list \<Rightarrow> inbox_item list" where
  "deduplicateInboxItems time items = groupInboxItemsByIssue time (filter (\<lambda>i. \<not> ib_archived i) items)"

definition deduplicateArchivedInboxItems :: "(jstr \<Rightarrow> int) \<Rightarrow> inbox_item list \<Rightarrow> inbox_item list" where
  "deduplicateArchivedInboxItems time items = groupInboxItemsByIssue time (filter ib_archived items)"

text \<open>The count \<open>useInboxUnreadCount\<close> selects.\<close>

definition unread_count :: "(jstr \<Rightarrow> int) \<Rightarrow> inbox_item list \<Rightarrow> nat" where
  "unread_count time items = length (filter (\<lambda>i. \<not> ib_read i) (deduplicateInboxItems time items))"

record InboxWorkspaceUnread =
  wu_workspace_id :: jstr
  wu_count :: nat

definition hasOtherWorkspaceUnread :: "InboxWorkspaceUnread list \<Rightarrow> jstr option \<Rightarrow> bool" where
  "hasOtherWorkspaceUnread summary cur = list_ex (\<lambda>s. Some (wu_workspace_id s) \<noteq> cur \<and> wu_count s > 0) summary"

definition unreadWorkspaceIds :: "InboxWorkspaceUnread list \<Rightarrow> jstr set" where
  "unreadWorkspaceIds summary = set (map wu_workspace_id (filter (\<lambda>s. wu_count s > 0) summary))"

section \<open>Groups\<close>

lemma groups_get:
  "map_get (foldl add_item [] items) k =
     (let g = filter (\<lambda>i. item_key i = k) items in if g = [] then None else Some g)"
  by (induction items rule: rev_induct)
    (auto simp: add_item_def Let_def map_get_set split: option.split if_splits)

lemma groups_ok: "map_ok (foldl add_item [] items)"
  by (induction items rule: rev_induct) (auto simp: add_item_def Let_def map_ok_set)

text \<open>A group's row comes from its newest item.\<close>

definition row_of :: "(jstr \<Rightarrow> int) \<Rightarrow> inbox_item list \<Rightarrow> inbox_item \<Rightarrow> bool" where
  "row_of time items x =
     (\<exists>i \<in> set items. (\<exists>c. x = i\<lparr>ib_comment_id := c\<rparr>)
        \<and> (\<forall>j \<in> set items. item_key j = item_key i \<longrightarrow> time (ib_created_at j) \<le> time (ib_created_at i)))"

lemma newest_first_set [simp]: "set (newest_first time xs) = set xs"
  by (simp add: newest_first_def)

lemma newest_first_sorted:
  "sorted_wrt (\<lambda>a b. time (ib_created_at b) \<le> time (ib_created_at a)) (newest_first time xs)"
proof -
  have "sorted (map (\<lambda>i. - time (ib_created_at i)) (newest_first time xs))"
    unfolding newest_first_def by (rule sorted_sort_key)
  then show ?thesis by (simp add: sorted_wrt_map)
qed

lemma merge_items_cases:
  assumes "newest_first time grp = i # others"
  shows "\<exists>c. merge_items time grp = Some (i\<lparr>ib_comment_id := c\<rparr>)"
proof -
  have same: "i\<lparr>ib_comment_id := ib_comment_id i\<rparr> = i" by simp
  show ?thesis
    unfolding merge_items_def assms list.case Let_def
    by (cases "ib_comment_id i"; rule case_split) (metis same)+
qed

lemma merge_items_row:
  assumes "grp \<noteq> []"
  shows "\<exists>i c. i \<in> set grp \<and> merge_items time grp = Some (i\<lparr>ib_comment_id := c\<rparr>)
    \<and> (\<forall>j \<in> set grp. time (ib_created_at j) \<le> time (ib_created_at i))"
proof (cases "newest_first time grp")
  case Nil
  with assms show ?thesis by (metis newest_first_set set_empty)
next
  case (Cons i others)
  have members: "set grp = set (i # others)" using newest_first_set [of time grp] unfolding Cons by simp
  have "\<forall>j \<in> set grp. time (ib_created_at j) \<le> time (ib_created_at i)"
    using newest_first_sorted [of time grp] unfolding Cons members by auto
  moreover have "i \<in> set grp" unfolding members by simp
  ultimately show ?thesis using merge_items_cases [OF Cons] by blast
qed

lemma row_key [simp]: "item_key (i\<lparr>ib_comment_id := c\<rparr>) = item_key i"
  by (simp add: item_key_def split: option.split)

text \<open>The rows before the last sort, in the order of the groups.\<close>

lemma merged_rows:
  assumes "\<And>k g. (k, g) \<in> set gs \<Longrightarrow> g \<noteq> [] \<and> (\<forall>i \<in> set g. item_key i = k)"
  shows "map item_key (List.map_filter (merge_items time) (map snd gs)) = map fst gs
    \<and> (\<forall>x \<in> set (List.map_filter (merge_items time) (map snd gs)). \<exists>(k, g) \<in> set gs. merge_items time g = Some x)"
  using assms
proof (induction gs)
  case (Cons kg gs)
  obtain k g where kg: "kg = (k, g)" by (cases kg)
  with Cons.prems have g: "g \<noteq> []" "\<forall>i \<in> set g. item_key i = k" by auto
  obtain i c where row: "i \<in> set g" "merge_items time g = Some (i\<lparr>ib_comment_id := c\<rparr>)"
    using merge_items_row [OF g(1)] by blast
  with g(2) Cons show ?case by (auto simp: kg)
qed simp

lemma group_entries:
  assumes "(k, g) \<in> set (foldl add_item [] items)"
  shows "g = filter (\<lambda>i. item_key i = k) items" "g \<noteq> []"
proof -
  from assms groups_ok [of items] have "map_get (foldl add_item [] items) k = Some g"
    by (simp add: map_get_def map_ok_def map_keys_def)
  then show "g = filter (\<lambda>i. item_key i = k) items" "g \<noteq> []"
    unfolding groups_get by (auto simp: Let_def split: if_splits)
qed

lemma groups_rows:
  assumes rows_def: "rows = List.map_filter (merge_items time) (map snd (foldl add_item [] items))"
  shows "distinct (map item_key rows)" "set (map item_key rows) = item_key ` set items"
    "\<forall>x \<in> set rows. row_of time items x"
proof -
  have m: "map item_key rows = map fst (foldl add_item [] items)
      \<and> (\<forall>x \<in> set rows. \<exists>(k, g) \<in> set (foldl add_item [] items). merge_items time g = Some x)"
    unfolding rows_def
  proof (rule merged_rows)
    fix k g assume "(k, g) \<in> set (foldl add_item [] items)"
    from group_entries [OF this] show "g \<noteq> [] \<and> (\<forall>i \<in> set g. item_key i = k)" by auto
  qed
  then show "distinct (map item_key rows)" using groups_ok [of items] by (simp add: map_ok_def map_keys_def)
  have "k \<in> set (map_keys (foldl add_item [] items)) \<longleftrightarrow> k \<in> item_key ` set items" for k
    unfolding map_keys_get groups_get by (auto simp: Let_def filter_empty_conv)
  with m show "set (map item_key rows) = item_key ` set items" by (auto simp: map_keys_def)
  show "\<forall>x \<in> set rows. row_of time items x"
  proof
    fix x assume "x \<in> set rows"
    with m obtain k g where kg: "(k, g) \<in> set (foldl add_item [] items)" "merge_items time g = Some x" by blast
    note g = group_entries [OF kg(1)]
    obtain i c where "i \<in> set g" "x = i\<lparr>ib_comment_id := c\<rparr>"
      "\<forall>j \<in> set g. time (ib_created_at j) \<le> time (ib_created_at i)"
      using merge_items_row [OF g(2), of time] kg(2) by auto
    with g(1) show "row_of time items x" unfolding row_of_def by auto
  qed
qed

section \<open>Properties\<close>

text \<open>The inbox list shows one row per issue (or per notification without an issue), a row for
  every issue with an unarchived notification and for no other, each row the newest notification
  of its issue but for the comment anchor it may borrow from an older one, newest rows first.\<close>

theorem inbox_one_row_per_issue:
  fixes time :: "jstr \<Rightarrow> int"
  shows "distinct (map item_key (deduplicateInboxItems time items))
    \<and> set (map item_key (deduplicateInboxItems time items)) = item_key ` {i \<in> set items. \<not> ib_archived i}
    \<and> (\<forall>x \<in> set (deduplicateInboxItems time items). row_of time (filter (\<lambda>i. \<not> ib_archived i) items) x)
    \<and> sorted_wrt (\<lambda>a b. time (ib_created_at b) \<le> time (ib_created_at a)) (deduplicateInboxItems time items)"
proof -
  let ?its = "filter (\<lambda>i. \<not> ib_archived i) items"
  let ?rows = "List.map_filter (merge_items time) (map snd (foldl add_item [] ?its))"
  have d: "deduplicateInboxItems time items = newest_first time ?rows"
    by (simp add: deduplicateInboxItems_def groupInboxItemsByIssue_def Let_def)
  note rows = groups_rows [OF refl, of time ?its]
  have "distinct (map item_key (newest_first time ?rows))"
  proof -
    have "mset (map item_key (newest_first time ?rows)) = mset (map item_key ?rows)"
      by (simp add: newest_first_def)
    then show ?thesis using rows(1) by (metis mset_eq_imp_distinct_iff)
  qed
  moreover have "set (map item_key (newest_first time ?rows)) = item_key ` {i \<in> set items. \<not> ib_archived i}"
    using rows(2) by simp
  ultimately show ?thesis unfolding d using rows(3) newest_first_sorted by auto
qed

theorem inbox_one_row_per_issue_witness:
  "distinct (map item_key (deduplicateInboxItems (\<lambda>_. 0)
     [\<lparr>ib_id = ''n1'', ib_issue_id = Some ''i1'', ib_issue_status = None, ib_read = False, ib_archived = False,
       ib_created_at = ''2026'', ib_comment_id = None, ib_rest = []\<rparr>]))"
  by (rule conjunct1 [OF inbox_one_row_per_issue])

end
