(* ===== verification/Tab_Coordinator.thy ===== *)
theory Tab_Coordinator
  imports Tab_Safety
begin

text \<open>
  The tab coordinator of the desktop shell
  (\<open>apps/desktop/src/renderer/src/platform/tab-coordinator.ts\<close>): the only writer of the
  application router, which it drives to the URL of the active session. The module state is a
  record, together with the tab store it subscribes to and the location the router shows. The
  router itself is a package: \<open>prompt url\<close> says whether a navigation to \<open>url\<close> commits before
  \<open>navigate\<close> returns (a route without loaders) or later, and \<open>resolve url\<close> is the location the
  router shows for \<open>url\<close>; a later commit, and any other location the router publishes, is an event
  of the environment.
\<close>

section \<open>State\<close>

definition MAX_RECOVERY_ATTEMPTS :: nat where
  "MAX_RECOVERY_ATTEMPTS = 5"

record coordinator =
  coord_store :: tab_store
  router_url :: jstr
  requests :: "jstr list"
  initialized :: bool
  pendingTokens :: nat
  recoveryAttempts :: nat
  lastIdentity :: "jstr option"
  lastActiveTabId :: "jstr option"
  lastActiveUrl :: "jstr option"
  prevGeneration :: nat
  invalidations :: nat

text \<open>A scroll container of the mounted host: its key, its offset and its height.\<close>

type_synonym scroll_container = "jstr \<times> int \<times> int"

type_synonym host_element = "scroll_container list option"

datatype router = Router (prompt: "jstr \<Rightarrow> bool") (resolve: "jstr \<Rightarrow> jstr")

section \<open>Operations\<close>

definition scroll_adapter_get :: "jstr \<Rightarrow> jstr \<Rightarrow> tab_store \<Rightarrow> scroll_offset option" where
  "scroll_adapter_get tabId containerKey s =
     (case getActiveTab s of
        None \<Rightarrow> None
      | Some active \<Rightarrow>
          if tab_id active \<noteq> tabId then None
          else obj_get (tab_scroll active) (scrollMementoKey (fst (splitTabUrl (tab_url active))) containerKey))"

definition activeSessionUrl :: "coordinator \<Rightarrow> jstr option" where
  "activeSessionUrl c = map_option tab_url (getActiveTab (coord_store c))"

definition session_target :: "coordinator \<Rightarrow> jstr" where
  "session_target c = (case activeSessionUrl c of None \<Rightarrow> ''/'' | Some u \<Rightarrow> u)"

definition consume_token :: "coordinator \<Rightarrow> coordinator" where
  "consume_token c = c\<lparr>pendingTokens := pendingTokens c - 1, recoveryAttempts := 0\<rparr>"

text \<open>
  \<open>r.navigate\<close>. A prompt commit runs the subscriber before it returns; the token counted just
  before makes it take its first branch (\<open>router_subscriber_token\<close> below).
\<close>

definition router_navigate :: "router \<Rightarrow> jstr \<Rightarrow> coordinator \<Rightarrow> coordinator" where
  "router_navigate r target c =
     (let asked = c\<lparr>requests := requests c @ [target]\<rparr> in
      if prompt r target then consume_token (asked\<lparr>router_url := resolve r target\<rparr>) else asked)"

definition reconcile :: "router \<Rightarrow> coordinator \<Rightarrow> coordinator" where
  "reconcile r c =
     (let target = session_target c in
      if router_url c = target then c\<lparr>recoveryAttempts := 0\<rparr>
      else router_navigate r target (c\<lparr>pendingTokens := pendingTokens c + 1\<rparr>))"

definition captureScrollEntries :: "host_element \<Rightarrow> scroll_map" where
  "captureScrollEntries host =
     (case host of
        None \<Rightarrow> []
      | Some els \<Rightarrow>
          foldl (\<lambda>entries (attr, scrollTop, scrollHeight).
              if scrollTop \<le> 0 then entries
              else obj_set (if attr = [] then ''main'' else attr)
                     \<lparr>so_top = scrollTop, so_height = scrollHeight\<rparr> entries)
            [] els)"

definition session_identity :: "tab_store \<Rightarrow> jstr option" where
  "session_identity s =
     map_option (\<lambda>active. (case activeWorkspaceSlug s of None \<Rightarrow> ''null'' | Some slug \<Rightarrow> slug)
       @ '':'' @ tab_id active @ '':'' @ string_of_nat (mountGeneration s)) (getActiveTab s)"

text \<open>Whether \<open>commitScrollMemento\<close> reaches its \<open>set\<close>, which notifies the subscribers.\<close>

definition memento_written :: "jstr \<Rightarrow> jstr \<Rightarrow> scroll_map \<Rightarrow> tab_store \<Rightarrow> bool" where
  "memento_written tabId routeKey entries s =
     (case findTabLocation (byWorkspace s) tabId of
        None \<Rightarrow> False
      | Some (slug, grp, index) \<Rightarrow>
          \<not> scroll_unchanged (tab_scroll (tabs grp ! index))
             (next_scroll routeKey entries (tab_scroll (tabs grp ! index))))"

definition note_generation :: "coordinator \<Rightarrow> coordinator" where
  "note_generation c =
     (if mountGeneration (coord_store c) \<noteq> prevGeneration c
      then c\<lparr>prevGeneration := mountGeneration (coord_store c), invalidations := invalidations c + 1\<rparr>
      else c)"

definition track_active :: "coordinator \<Rightarrow> coordinator" where
  "track_active c =
     c\<lparr>lastIdentity := session_identity (coord_store c),
       lastActiveTabId := map_option tab_id (getActiveTab (coord_store c)),
       lastActiveUrl := activeSessionUrl c\<rparr>"

definition host_switching :: "coordinator \<Rightarrow> bool" where
  "host_switching c = (session_identity (coord_store c) \<noteq> lastIdentity c)"

definition view_replaced :: "coordinator \<Rightarrow> bool" where
  "view_replaced c = (host_switching c \<or> activeSessionUrl c \<noteq> lastActiveUrl c)"

text \<open>The tab and the route of the view that is about to go, when there was one.\<close>

definition outgoing_view :: "coordinator \<Rightarrow> (jstr \<times> jstr) option" where
  "outgoing_view c =
     (case (truthy (lastActiveTabId c), truthy (lastActiveUrl c)) of
        (Some tabId, Some url) \<Rightarrow> Some (tabId, fst (splitTabUrl url))
      | _ \<Rightarrow> None)"

text \<open>
  The store subscriber: the generation check and \<open>handleStoreChange\<close>. Writing the memento
  notifies the subscriber again before \<open>set\<close> returns; the first argument bounds this nesting, and
  \<open>nesting_two\<close> below shows that it never exceeds two.
\<close>

fun store_listener :: "nat \<Rightarrow> router \<Rightarrow> host_element \<Rightarrow> coordinator \<Rightarrow> coordinator" where
  "store_listener 0 r host c = c"
| "store_listener (Suc n) r host c0 =
     (let c = note_generation c0 in
      if \<not> view_replaced c then reconcile r c
      else
        let tracked = track_active c in
        case outgoing_view c of
          None \<Rightarrow> reconcile r tracked
        | Some (tabId, routeKey) \<Rightarrow>
            let entries = captureScrollEntries host;
                written = tracked\<lparr>coord_store := commitScrollMemento tabId routeKey entries (coord_store c)\<rparr>
            in if memento_written tabId routeKey entries (coord_store c)
               then reconcile r (store_listener n r host written)
               else reconcile r tracked)"

declare store_listener.simps(2) [simp del]

definition router_subscriber :: "router \<Rightarrow> coordinator \<Rightarrow> coordinator" where
  "router_subscriber r c =
     (if pendingTokens c > 0 then consume_token c
      else if router_url c = session_target c then c
      else if recoveryAttempts c \<ge> MAX_RECOVERY_ATTEMPTS then c
      else reconcile r (c\<lparr>recoveryAttempts := recoveryAttempts c + 1\<rparr>))"

definition initTabCoordinator :: "router \<Rightarrow> coordinator \<Rightarrow> coordinator" where
  "initTabCoordinator r c =
     (if initialized c then c
      else reconcile r
        (track_active (c\<lparr>initialized := True, prevGeneration := mountGeneration (coord_store c)\<rparr>)))"

text \<open>The state of the module when it is loaded, with the store that was rehydrated.\<close>

definition coordinator_module :: "tab_store \<Rightarrow> coordinator" where
  "coordinator_module s =
     \<lparr>coord_store = s, router_url = ''/'', requests = [], initialized = False, pendingTokens = 0,
      recoveryAttempts = 0, lastIdentity = None, lastActiveTabId = None, lastActiveUrl = None,
      prevGeneration = 0, invalidations = 0\<rparr>"

section \<open>The coordinator as a machine\<close>

text \<open>
  An action on the store notifies the subscriber when it calls \<open>set\<close>, which it does at least when
  the store changes. The router publishes a location when a navigation commits, or when some
  other code moved it.
\<close>

datatype coord_event =
    InitTabCoordinator
  | StoreAction jstr tab_op bool host_element
  | RouterPublishes jstr

fun coord_step :: "array_move \<Rightarrow> router \<Rightarrow> coordinator \<Rightarrow> coord_event \<Rightarrow> coordinator" where
  "coord_step am r c InitTabCoordinator = initTabCoordinator r c"
| "coord_step am r c (StoreAction fresh oper notified host) =
     (let c' = c\<lparr>coord_store := tab_step am (coord_store c) (fresh, oper)\<rparr> in
      if initialized c \<and> notified then store_listener 2 r host c' else c')"
| "coord_step am r c (RouterPublishes url) =
     (let c' = c\<lparr>router_url := url\<rparr> in if initialized c then router_subscriber r c' else c')"

fun coord_enabled :: "array_move \<Rightarrow> (jstr \<Rightarrow> jstr \<Rightarrow> bool) \<Rightarrow> coordinator \<Rightarrow> coord_event \<Rightarrow> bool" where
  "coord_enabled am Q c (StoreAction fresh oper notified host) =
     (tab_enabled am Q (coord_store c) (fresh, oper) \<and>
      (tab_step am (coord_store c) (fresh, oper) \<noteq> coord_store c \<longrightarrow> notified))"
| "coord_enabled am Q c _ = True"

text \<open>The module starts on a rehydrated store.\<close>

definition coord_start :: "(jstr \<Rightarrow> jstr \<Rightarrow> bool) \<Rightarrow> coordinator \<Rightarrow> bool" where
  "coord_start Q c = (tab_inv Q (coord_store c) \<and> c = coordinator_module (coord_store c))"

end
