(* ===== verification/Tab_Coordinator_Inv.thy ===== *)
theory Tab_Coordinator_Inv
  imports Tab_Coordinator
begin

text \<open>
  What every event of the coordinator keeps: the store stays well formed, the tracked view is the
  active one, and a recovery is always covered by a token. With a router that commits within
  \<open>navigate\<close>, the router shows the session URL after every event.
\<close>

section \<open>Writing a memento\<close>

definition view_of :: "tab_store \<Rightarrow> jstr option \<times> nat \<times> (jstr \<times> jstr) option" where
  "view_of s = (activeWorkspaceSlug s, mountGeneration s,
     map_option (\<lambda>t. (tab_id t, tab_url t)) (getActiveTab s))"

lemma find_update:
  assumes "i < length ts" "P t = P (ts ! i)" "h t = h (ts ! i)"
  shows "map_option h (find P (ts[i := t])) = map_option h (find P ts)"
  using assms
proof (induction ts arbitrary: i)
  case (Cons a ts)
  then show ?case by (cases i) auto
qed simp

lemma memento_view:
  assumes "tab_inv Q s"
  shows "view_of (commitScrollMemento tabId routeKey entries s) = view_of s"
proof (cases "findTabLocation (byWorkspace s) tabId")
  case (Some hit)
  obtain slug g i where hit: "findTabLocation (byWorkspace s) tabId = Some (slug, g, i)"
    using Some by (cases hit) auto
  note found = tab_inv_found [OF assms hit]
  define t where "t = (tabs g ! i)\<lparr>tab_scroll := next_scroll routeKey entries (tab_scroll (tabs g ! i))\<rparr>"
  let ?s = "put_group slug (g\<lparr>tabs := (tabs g)[i := t]\<rparr>) s"
  have same: "map_option (\<lambda>t. (tab_id t, tab_url t)) (find (\<lambda>u. tab_id u = a) ((tabs g)[i := t]))
      = map_option (\<lambda>t. (tab_id t, tab_url t)) (find (\<lambda>u. tab_id u = a) (tabs g))" for a
    using found(4) by (rule find_update) (simp_all add: t_def)
  have "active_group ?s = (case active_group s of None \<Rightarrow> None
      | Some (k, h) \<Rightarrow> Some (k, if k = slug then g\<lparr>tabs := (tabs g)[i := t]\<rparr> else h))"
    using found(1) by (auto simp: active_group_def put_group_def obj_get_set split: option.split)
  then have "map_option (\<lambda>t. (tab_id t, tab_url t)) (getActiveTab ?s)
      = map_option (\<lambda>t. (tab_id t, tab_url t)) (getActiveTab s)"
    using same found(1) by (auto simp: getActiveTab_def dest: active_group_Some split: option.split)
  then have "view_of ?s = view_of s" by (simp add: view_of_def put_group_def)
  then show ?thesis by (simp add: commitScrollMemento_def hit Let_def t_def)
qed (simp add: commitScrollMemento_def)

lemma view_url: "view_of s' = view_of s \<Longrightarrow> map_option tab_url (getActiveTab s') = map_option tab_url (getActiveTab s)"
  "view_of s' = view_of s \<Longrightarrow> map_option tab_id (getActiveTab s') = map_option tab_id (getActiveTab s)"
  by (auto simp: view_of_def map_option_case split: option.splits)

lemma view_identity: "view_of s' = view_of s \<Longrightarrow> session_identity s' = session_identity s"
  by (auto simp: view_of_def session_identity_def map_option_case split: option.splits)

section \<open>What the operations leave alone\<close>

text \<open>Everything but the router side.\<close>

definition same_tracking :: "coordinator \<Rightarrow> coordinator \<Rightarrow> bool" where
  "same_tracking c c' = (coord_store c' = coord_store c \<and> initialized c' = initialized c
     \<and> lastIdentity c' = lastIdentity c \<and> lastActiveTabId c' = lastActiveTabId c
     \<and> lastActiveUrl c' = lastActiveUrl c \<and> prevGeneration c' = prevGeneration c)"

lemma same_tracking_refl: "same_tracking c c"
  by (simp add: same_tracking_def)

lemma reconcile_tracking: "same_tracking c (reconcile r c)"
  by (simp add: same_tracking_def reconcile_def router_navigate_def consume_token_def Let_def)

lemma subscriber_tracking: "same_tracking c (router_subscriber r c)"
  by (simp add: same_tracking_def reconcile_def router_navigate_def consume_token_def Let_def
      router_subscriber_def)

lemma target_tracking: "same_tracking c c' \<Longrightarrow> session_target c' = session_target c"
  by (simp add: same_tracking_def session_target_def activeSessionUrl_def)

lemma track_active_fields [simp]:
  "coord_store (track_active c) = coord_store c" "initialized (track_active c) = initialized c"
  "prevGeneration (track_active c) = prevGeneration c" "router_url (track_active c) = router_url c"
  "requests (track_active c) = requests c" "pendingTokens (track_active c) = pendingTokens c"
  "recoveryAttempts (track_active c) = recoveryAttempts c"
  by (simp_all add: track_active_def)

lemma note_generation_fields [simp]:
  "coord_store (note_generation c) = coord_store c" "initialized (note_generation c) = initialized c"
  "prevGeneration (note_generation c) = mountGeneration (coord_store c)"
  "router_url (note_generation c) = router_url c" "requests (note_generation c) = requests c"
  "pendingTokens (note_generation c) = pendingTokens c"
  "recoveryAttempts (note_generation c) = recoveryAttempts c"
  by (simp_all add: note_generation_def)

text \<open>The tracked view is the active one.\<close>

definition tracked :: "coordinator \<Rightarrow> bool" where
  "tracked c = (lastIdentity c = session_identity (coord_store c)
     \<and> lastActiveUrl c = activeSessionUrl c \<and> prevGeneration c = mountGeneration (coord_store c))"

lemma tracked_track: "prevGeneration c = mountGeneration (coord_store c) \<Longrightarrow> tracked (track_active c)"
  by (simp add: tracked_def track_active_def activeSessionUrl_def)

lemma tracked_tracking: "same_tracking c c' \<Longrightarrow> tracked c' = tracked c"
  by (simp add: same_tracking_def tracked_def activeSessionUrl_def)

lemma tracked_quiet: "tracked c \<Longrightarrow> note_generation c = c \<and> \<not> view_replaced c"
  by (simp add: tracked_def note_generation_def view_replaced_def host_switching_def)

lemma tracked_view:
  "tracked c \<Longrightarrow> view_of s = view_of (coord_store c) \<Longrightarrow> tracked (c\<lparr>coord_store := s\<rparr>)"
  using view_url [of s "coord_store c"] view_identity [of s "coord_store c"]
  by (simp add: tracked_def activeSessionUrl_def view_of_def)

lemma tracked_listener: "tracked c \<Longrightarrow> store_listener (Suc n) r host c = reconcile r c"
  using tracked_quiet [of c] by (simp add: store_listener.simps Let_def)

lemma router_subscriber_token: "pendingTokens c > 0 \<Longrightarrow> router_subscriber r c = consume_token c"
  by (simp add: router_subscriber_def)

section \<open>The subscriber of the store\<close>

text \<open>
  The whole of a notification: the view is tracked, the memento of the view that goes is written
  once, and the router is reconciled once or, after a write, twice.
\<close>

definition after_memento :: "host_element \<Rightarrow> coordinator \<Rightarrow> coordinator" where
  "after_memento host c =
     (if view_replaced c
      then (case outgoing_view c of
              None \<Rightarrow> track_active c
            | Some (tabId, routeKey) \<Rightarrow>
                (track_active c)\<lparr>coord_store :=
                   commitScrollMemento tabId routeKey (captureScrollEntries host) (coord_store c)\<rparr>)
      else c)"

definition writes_memento :: "host_element \<Rightarrow> coordinator \<Rightarrow> bool" where
  "writes_memento host c =
     (view_replaced c \<and>
      (case outgoing_view c of
         None \<Rightarrow> False
       | Some (tabId, routeKey) \<Rightarrow> memento_written tabId routeKey (captureScrollEntries host) (coord_store c)))"

lemma unwritten_memento: "\<not> memento_written tabId routeKey entries s \<Longrightarrow> commitScrollMemento tabId routeKey entries s = s"
  by (auto simp: memento_written_def commitScrollMemento_def Let_def split: option.splits)

lemma after_memento_tracked:
  assumes "tab_inv Q (coord_store c)"
  shows "view_replaced (note_generation c) \<Longrightarrow> tracked (after_memento host (note_generation c))"
proof -
  assume rep: "view_replaced (note_generation c)"
  let ?c = "note_generation c"
  have tr: "tracked (track_active ?c)" by (rule tracked_track) simp
  show ?thesis
  proof (cases "outgoing_view ?c")
    case None
    with tr rep show ?thesis by (simp add: after_memento_def)
  next
    case (Some v)
    obtain tabId rk where v: "v = (tabId, rk)" by (cases v)
    have "view_of (commitScrollMemento tabId rk (captureScrollEntries host) (coord_store c))
        = view_of (coord_store (track_active ?c))"
      using memento_view [OF assms] by simp
    from tracked_view [OF tr this] Some rep show ?thesis by (simp add: after_memento_def v)
  qed
qed

lemma store_listener_eq:
  assumes "tab_inv Q (coord_store c)"
  shows "store_listener (Suc (Suc n)) r host c =
    (let d = after_memento host (note_generation c) in
     if writes_memento host (note_generation c) then reconcile r (reconcile r d) else reconcile r d)"
proof (cases "view_replaced (note_generation c)")
  case True
  let ?c = "note_generation c"
  show ?thesis
  proof (cases "outgoing_view ?c")
    case None
    then show ?thesis
      using True by (simp add: store_listener.simps(2) [of "Suc n"] Let_def after_memento_def writes_memento_def)
  next
    case (Some v)
    obtain tabId rk where v: "v = (tabId, rk)" by (cases v)
    let ?es = "captureScrollEntries host"
    let ?d = "(track_active ?c)\<lparr>coord_store := commitScrollMemento tabId rk ?es (coord_store c)\<rparr>"
    have d: "after_memento host ?c = ?d" using True Some v by (simp add: after_memento_def)
    have "tracked ?d" using after_memento_tracked [OF assms True, of host] by (simp only: d)
    note again = tracked_listener [OF this, of n r host]
    show ?thesis
    proof (cases "memento_written tabId rk ?es (coord_store c)")
      case True
      with Some v d again \<open>view_replaced ?c\<close> show ?thesis
        by (simp add: store_listener.simps(2) [of "Suc n"] Let_def writes_memento_def)
    next
      case False
      then have "?d = track_active ?c" by (simp add: unwritten_memento)
      with False Some v d \<open>view_replaced ?c\<close> show ?thesis
        by (simp add: store_listener.simps(2) [of "Suc n"] Let_def writes_memento_def)
    qed
  qed
qed (simp add: store_listener.simps(2) [of "Suc n"] Let_def after_memento_def writes_memento_def)

text \<open>So the nesting never exceeds two.\<close>

lemma nesting_two:
  assumes "tab_inv Q (coord_store c)"
  shows "store_listener (Suc (Suc n)) r host c = store_listener 2 r host c"
  using store_listener_eq [OF assms, of n] store_listener_eq [OF assms, of 0]
  by (simp add: numeral_2_eq_2)

section \<open>The invariant\<close>

text \<open>A recovery in progress is covered by a token, and every token by a request.\<close>

definition recovery_covered :: "coordinator \<Rightarrow> bool" where
  "recovery_covered c = (recoveryAttempts c \<le> 1 \<and> (recoveryAttempts c > 0 \<longrightarrow> pendingTokens c > 0)
     \<and> pendingTokens c \<le> length (requests c))"

definition coord_inv :: "(jstr \<Rightarrow> jstr \<Rightarrow> bool) \<Rightarrow> coordinator \<Rightarrow> bool" where
  "coord_inv Q c = (tab_inv Q (coord_store c) \<and> recovery_covered c \<and> (initialized c \<longrightarrow> tracked c)
     \<and> (\<not> initialized c \<longrightarrow> pendingTokens c = 0 \<and> requests c = []))"

lemma recovery_reconcile:
  "recovery_covered c \<Longrightarrow> recovery_covered (reconcile r c)"
  "\<lbrakk>recovery_covered c; pendingTokens c = 0; router_url c \<noteq> session_target c\<rbrakk> \<Longrightarrow>
   recovery_covered (reconcile r (c\<lparr>recoveryAttempts := recoveryAttempts c + 1\<rparr>))"
  by (auto simp: recovery_covered_def reconcile_def router_navigate_def consume_token_def Let_def
      session_target_def activeSessionUrl_def)

lemma recovery_subscriber: "recovery_covered c \<Longrightarrow> recovery_covered (router_subscriber r c)"
  unfolding router_subscriber_def using recovery_reconcile(2) [of c r]
  by (auto simp: recovery_covered_def consume_token_def)

lemma recovery_fields:
  "\<lbrakk>recovery_covered c; recoveryAttempts d = recoveryAttempts c; pendingTokens d = pendingTokens c;
    requests d = requests c\<rbrakk> \<Longrightarrow> recovery_covered d"
  by (simp add: recovery_covered_def)

lemma after_memento_router [simp]:
  "router_url (after_memento host c) = router_url c" "requests (after_memento host c) = requests c"
  "pendingTokens (after_memento host c) = pendingTokens c" "initialized (after_memento host c) = initialized c"
  "recoveryAttempts (after_memento host c) = recoveryAttempts c"
  by (simp_all add: after_memento_def split: option.split prod.split)

lemma after_memento_keeps:
  assumes "tab_inv Q (coord_store c)"
  shows "tracked (after_memento host (note_generation c))"
proof (cases "view_replaced (note_generation c)")
  case False
  then show ?thesis
    by (simp add: after_memento_def tracked_def view_replaced_def host_switching_def)
qed (rule after_memento_tracked [OF assms])

lemma tracking_trans: "same_tracking a b \<Longrightarrow> same_tracking b c \<Longrightarrow> same_tracking a c"
  by (simp add: same_tracking_def)

lemma listener_tracking:
  assumes "tab_inv Q (coord_store c)"
  shows "same_tracking (after_memento host (note_generation c)) (store_listener 2 r host c)"
  using store_listener_eq [OF assms, of 0 r host]
  by (auto simp: numeral_2_eq_2 Let_def intro: reconcile_tracking tracking_trans)

context url_policy begin

lemma after_memento_store:
  "tab_inv Q (coord_store c) \<Longrightarrow> tab_inv Q (coord_store (after_memento host c))"
  by (simp add: after_memento_def commitScrollMemento_inv split: option.split prod.split)

lemma listener_inv:
  assumes "tab_inv Q (coord_store c)" "recovery_covered c" "initialized c"
  shows "coord_inv Q (store_listener 2 r host c)"
proof -
  let ?d = "after_memento host (note_generation c)"
  have inv: "tab_inv Q (coord_store ?d)" using assms(1) by (simp add: after_memento_store)
  have rec: "recovery_covered ?d" using assms(2) by (rule recovery_fields) simp_all
  then have "recovery_covered (store_listener 2 r host c)"
    using store_listener_eq [OF assms(1), of 0 r host]
    by (auto simp: numeral_2_eq_2 Let_def intro: recovery_reconcile(1))
  moreover have "tracked (store_listener 2 r host c)"
    using tracked_tracking [OF listener_tracking [OF assms(1)]] after_memento_keeps [OF assms(1)] by simp
  ultimately show ?thesis
    using listener_tracking [OF assms(1), of host r] inv assms(3)
    by (simp add: coord_inv_def same_tracking_def)
qed

lemma coord_step_inv:
  assumes "coord_inv Q c" "coord_enabled am Q c e"
  shows "coord_inv Q (coord_step am r c e)"
proof (cases e)
  case InitTabCoordinator
  let ?d = "track_active (c\<lparr>initialized := True, prevGeneration := mountGeneration (coord_store c)\<rparr>)"
  have "tracked ?d" by (rule tracked_track) simp
  then have "tracked (reconcile r ?d)" using tracked_tracking [OF reconcile_tracking, of r ?d] by simp
  moreover have "recovery_covered (reconcile r ?d)"
    using assms(1) recovery_fields [of c ?d] by (intro recovery_reconcile(1)) (simp add: coord_inv_def)
  ultimately show ?thesis
    using assms(1) reconcile_tracking [of ?d r]
    by (simp add: InitTabCoordinator coord_inv_def initTabCoordinator_def same_tracking_def)
next
  case (StoreAction fresh oper notified host)
  let ?s = "tab_step am (coord_store c) (fresh, oper)"
  have s: "tab_inv Q ?s"
    using assms by (intro tab_step_inv [where am = am]) (simp_all add: coord_inv_def StoreAction)
  have rec: "recovery_covered (c\<lparr>coord_store := ?s\<rparr>)"
    using assms(1) recovery_fields [of c "c\<lparr>coord_store := ?s\<rparr>"] by (simp add: coord_inv_def)
  show ?thesis
  proof (cases "initialized c \<and> notified")
    case True
    with listener_inv [of "c\<lparr>coord_store := ?s\<rparr>" r host] s rec show ?thesis
      by (simp add: StoreAction)
  next
    case False
    with assms have "initialized c \<longrightarrow> ?s = coord_store c" by (auto simp: StoreAction)
    then have "initialized c \<longrightarrow> c\<lparr>coord_store := ?s\<rparr> = c" by simp
    with False assms(1) s rec show ?thesis by (auto simp: StoreAction coord_inv_def)
  qed
next
  case (RouterPublishes url)
  let ?d = "c\<lparr>router_url := url\<rparr>"
  have rec: "recovery_covered ?d" using assms(1) recovery_fields [of c ?d] by (simp add: coord_inv_def)
  have tr: "tracked ?d = tracked c" by (simp add: tracked_def activeSessionUrl_def)
  show ?thesis
    using assms(1) recovery_subscriber [OF rec, of r] rec tr tracked_tracking [OF subscriber_tracking, of r ?d]
      subscriber_tracking [of ?d r]
    by (auto simp: RouterPublishes coord_inv_def same_tracking_def)
qed

lemma coord_start_inv: "coord_start Q c \<Longrightarrow> coord_inv Q c"
proof -
  assume "coord_start Q c"
  then have "tab_inv Q (coord_store c)" "c = coordinator_module (coord_store c)" by (simp_all add: coord_start_def)
  moreover have "recovery_covered (coordinator_module s) \<and> \<not> initialized (coordinator_module s)
      \<and> pendingTokens (coordinator_module s) = 0 \<and> requests (coordinator_module s) = []" for s
    by (simp add: coordinator_module_def recovery_covered_def)
  ultimately show ?thesis unfolding coord_inv_def by metis
qed

end

sublocale url_policy \<subseteq> coord: invariant_machine "coord_start Q" "coord_step am r" "coord_enabled am Q" "coord_inv Q"
  for am r
  by unfold_locales (auto intro: coord_start_inv coord_step_inv)

section \<open>A router that commits within the call\<close>

definition prompt_router :: "router \<Rightarrow> bool" where
  "prompt_router r = (\<forall>url. prompt r url)"

definition projects :: "router \<Rightarrow> coordinator \<Rightarrow> bool" where
  "projects r c = (initialized c \<longrightarrow> pendingTokens c = 0 \<and>
     router_url c \<in> {session_target c, resolve r (session_target c)})"

lemma reconcile_projects:
  assumes "prompt_router r" "pendingTokens c = 0"
  shows "projects r (reconcile r c)" "pendingTokens (reconcile r c) = 0"
  using assms
  by (auto simp: prompt_router_def projects_def reconcile_def router_navigate_def consume_token_def Let_def
      session_target_def activeSessionUrl_def)

lemma projects_step:
  assumes r: "prompt_router r" and inv: "coord_inv Q c" and proj: "projects r c"
    and store: "tab_inv Q (coord_store (coord_step am r c e))" and en: "coord_enabled am Q c e"
    and next_store: "\<And>fresh oper. tab_enabled am Q (coord_store c) (fresh, oper) \<Longrightarrow>
      tab_inv Q (tab_step am (coord_store c) (fresh, oper))"
  shows "projects r (coord_step am r c e)"
proof (cases e)
  case InitTabCoordinator
  have "projects r (reconcile r d)" if "pendingTokens d = 0" for d
    using reconcile_projects [OF r that] by simp
  with inv proj show ?thesis by (auto simp: InitTabCoordinator initTabCoordinator_def coord_inv_def)
next
  case (StoreAction fresh oper notified host)
  let ?d = "c\<lparr>coord_store := tab_step am (coord_store c) (fresh, oper)\<rparr>"
  have s: "tab_inv Q (coord_store ?d)" using en next_store by (simp add: StoreAction)
  show ?thesis
  proof (cases "initialized c \<and> notified")
    case True
    have tok: "pendingTokens (after_memento host (note_generation ?d)) = 0"
      using True proj by (simp add: projects_def)
    note one = reconcile_projects [OF r tok]
    have "projects r (store_listener 2 r host ?d)"
      using store_listener_eq [OF s, of 0 r host] one reconcile_projects(1) [OF r one(2)]
      by (simp add: numeral_2_eq_2 Let_def)
    with True show ?thesis by (simp add: StoreAction)
  next
    case False
    with en have "initialized c \<longrightarrow> ?d = c" by (auto simp: StoreAction)
    with False proj show ?thesis by (auto simp: StoreAction projects_def)
  qed
next
  case (RouterPublishes url)
  show ?thesis
  proof (cases "initialized c")
    case True
    let ?d = "c\<lparr>router_url := url\<rparr>"
    have tok: "pendingTokens c = 0" using True proj by (simp add: projects_def)
    then have att: "recoveryAttempts c = 0" using inv by (auto simp: coord_inv_def recovery_covered_def)
    have "projects r (reconcile r (?d\<lparr>recoveryAttempts := Suc 0\<rparr>))"
      using reconcile_projects(1) [OF r, of "?d\<lparr>recoveryAttempts := Suc 0\<rparr>"] tok by simp
    moreover have "projects r ?d" if "url = session_target ?d"
      using that tok by (simp add: projects_def)
    ultimately have "projects r (router_subscriber r ?d)"
      using tok att by (simp add: router_subscriber_def MAX_RECOVERY_ATTEMPTS_def)
    with True show ?thesis by (simp add: RouterPublishes)
  qed (simp add: RouterPublishes projects_def)
qed

end
