(* ===== verification/Tab_Scroll.thy ===== *)
theory Tab_Scroll
  imports Tab_Coordinator_Inv
begin

text \<open>
  The scroll memory of the tabs: what writing a memento leaves in the store, and what a mounting
  view reads back from it.
\<close>

section \<open>The scroll map\<close>

lemma memento_key_inj [simp]: "scrollMementoKey r k = scrollMementoKey r k' \<longleftrightarrow> k = k'"
  by (simp add: scrollMementoKey_def)

lemma memento_key_prefix: "str_starts (scrollMementoKey r k) (r @ ''::'')"
  by (simp add: scrollMementoKey_def str_starts_def)

lemma fold_keep_get:
  assumes "p x"
  shows "obj_get acc x = None \<Longrightarrow>
    obj_get (fold (\<lambda>(k, v) acc. if p k then acc else obj_set k v acc) kvs acc) x = None"
proof (induction kvs arbitrary: acc)
  case (Cons kv kvs)
  obtain k v where kv: "kv = (k, v)" by (cases kv)
  have "obj_get (if p k then acc else obj_set k v acc) x = None"
    using Cons.prems assms by (auto simp: obj_get_set)
  from Cons.IH [OF this] kv show ?case by simp
qed simp

lemma fold_set_other:
  assumes "x \<notin> f ` fst ` set kvs"
  shows "obj_get (fold (\<lambda>(k, v). obj_set (f k) v) kvs acc) x = obj_get acc x"
  using assms by (induction kvs arbitrary: acc) (auto simp: obj_get_set)

lemma fold_set_key:
  assumes "inj f"
  shows "distinct (map fst kvs) \<Longrightarrow>
    obj_get (fold (\<lambda>(k, v). obj_set (f k) v) kvs acc) (f k) =
      (case map_of kvs k of None \<Rightarrow> obj_get acc (f k) | Some v \<Rightarrow> Some v)"
proof (induction kvs arbitrary: acc)
  case (Cons kv kvs)
  obtain k' v where kv: "kv = (k', v)" by (cases kv)
  show ?case
  proof (cases "k = k'")
    case True
    with Cons.prems kv have "map_of kvs k = None" by (simp add: map_of_eq_None_iff)
    with Cons True kv show ?thesis by (simp add: obj_get_set)
  next
    case False
    with assms have "f k \<noteq> f k'" by (simp add: inj_eq)
    with Cons False kv show ?thesis by (simp add: obj_get_set split: option.split)
  qed
qed simp

lemma next_scroll_get:
  assumes "obj_ok entries"
  shows "obj_get (next_scroll r entries scroll) (scrollMementoKey r k) = obj_get entries k"
proof -
  have "inj (scrollMementoKey r)" by (simp add: inj_on_def)
  moreover have "distinct (map fst entries)" using assms by (simp add: obj_ok_def obj_keys_def)
  moreover have "obj_get (fold (\<lambda>(k, v) acc. if str_starts k (r @ ''::'') then acc else obj_set k v acc) scroll [])
      (scrollMementoKey r k) = None"
    by (rule fold_keep_get) (simp_all add: memento_key_prefix)
  ultimately show ?thesis
    by (simp add: next_scroll_def fold_set_key obj_get_def [of entries] split: option.split)
qed

lemma unchanged_get:
  assumes "obj_ok prev" "obj_ok nxt" "scroll_unchanged prev nxt"
  shows "obj_get prev k = obj_get nxt k"
proof -
  have sub: "set (obj_keys nxt) \<subseteq> set (obj_keys prev)"
    using assms(3) by (auto simp: scroll_unchanged_def list_all_iff obj_keys_get split: option.splits)
  have "card (set (obj_keys nxt)) = card (set (obj_keys prev))"
    using assms by (simp add: scroll_unchanged_def obj_ok_def distinct_card)
  with sub have eq: "set (obj_keys nxt) = set (obj_keys prev)" by (simp add: card_subset_eq)
  show ?thesis
  proof (cases "k \<in> set (obj_keys nxt)")
    case True
    with assms(3) show ?thesis
      by (fastforce simp: scroll_unchanged_def list_all_iff split: option.splits)
  next
    case False
    with eq have "obj_get prev k = None" "obj_get nxt k = None" by (metis obj_keys_get)+
    then show ?thesis by simp
  qed
qed

lemma capture_ok: "obj_ok (captureScrollEntries host)"
proof -
  have "obj_ok acc \<Longrightarrow> obj_ok (foldl (\<lambda>entries (attr, scrollTop, scrollHeight).
      if scrollTop \<le> 0 then entries
      else obj_set (if attr = [] then ''main'' else attr) \<lparr>so_top = scrollTop, so_height = scrollHeight\<rparr> entries)
    acc els)" for acc els
    by (induction els arbitrary: acc) (auto simp: obj_ok_set)
  then show ?thesis by (simp add: captureScrollEntries_def split: option.split)
qed

section \<open>The tabs after a memento\<close>

definition remember :: "jstr \<Rightarrow> jstr \<Rightarrow> scroll_map \<Rightarrow> tab_session \<Rightarrow> tab_session" where
  "remember tabId routeKey entries t =
     (let nxt = next_scroll routeKey entries (tab_scroll t) in
      if tab_id t \<noteq> tabId \<or> scroll_unchanged (tab_scroll t) nxt then t else t\<lparr>tab_scroll := nxt\<rparr>)"

lemma remember_same [simp]:
  "tab_id (remember i r es t) = tab_id t" "tab_url (remember i r es t) = tab_url t"
  by (simp_all add: remember_def Let_def)

lemma remember_get:
  assumes "obj_ok es" "obj_ok (tab_scroll t)"
  shows "obj_get (tab_scroll (remember (tab_id t) r es t)) (scrollMementoKey r k) = obj_get es k"
  using unchanged_get [OF assms(2) next_scroll_ok, of r es "tab_scroll t" "scrollMementoKey r k"]
    next_scroll_get [OF assms(1), of r "tab_scroll t" k]
  by (auto simp: remember_def Let_def)

lemma remember_other: "tab_id t \<noteq> i \<Longrightarrow> remember i r es t = t"
  by (simp add: remember_def Let_def)

lemma update_one:
  assumes "distinct (map tab_id ts)" "i < length ts"
  shows "ts[i := f (ts ! i)] = map (\<lambda>t. if tab_id t = tab_id (ts ! i) then f t else t) ts"
proof (rule nth_equalityI)
  fix j assume j: "j < length (ts[i := f (ts ! i)])"
  then have "tab_id (ts ! j) = tab_id (ts ! i) \<longleftrightarrow> j = i"
    using assms nth_eq_iff_index_eq [OF assms(1), of j i] by simp
  with j show "ts[i := f (ts ! i)] ! j = map (\<lambda>t. if tab_id t = tab_id (ts ! i) then f t else t) ts ! j"
    by (auto simp: nth_list_update)
qed simp

lemma findTabLocation_None:
  "findTabLocation bw i = None \<Longrightarrow> (k, h) \<in> set bw \<Longrightarrow> i \<notin> set (ids h)"
proof (induction bw i rule: findTabLocation.induct)
  case (2 slug grp rest i)
  then show ?case by (auto simp: ids_def find_index_None split: option.splits)
qed simp

lemma memento_group:
  assumes "tab_inv Q s" "obj_get (byWorkspace s) slug = Some g"
  shows "obj_get (byWorkspace (commitScrollMemento tabId r es s)) slug
    = Some (g\<lparr>tabs := map (remember tabId r es) (tabs g)\<rparr>)"
proof (cases "findTabLocation (byWorkspace s) tabId")
  case None
  then have "tabId \<notin> set (ids g)" using findTabLocation_None obj_get_in [OF assms(2)] by blast
  then have "map (remember tabId r es) (tabs g) = tabs g"
    by (intro map_idI remember_other) (auto simp: ids_def)
  with None assms(2) show ?thesis by (simp add: commitScrollMemento_def)
next
  case (Some hit)
  obtain k h i where hit: "findTabLocation (byWorkspace s) tabId = Some (k, h, i)"
    using Some by (cases hit) auto
  note found = tab_inv_found [OF assms(1) hit]
  have dist: "distinct (map tab_id (tabs h))" using found(3) by (simp add: group_ok_def ids_def)
  have upd: "map (remember tabId r es) (tabs h) = (tabs h)[i := remember tabId r es (tabs h ! i)]"
    unfolding update_one [OF dist found(4)]
    by (rule map_cong [OF refl]) (auto simp: found(5) remember_other)
  show ?thesis
  proof (cases "k = slug")
    case True
    with found(1) assms(2) have "h = g" by simp
    with True upd hit assms(2) found(5) show ?thesis
      by (auto simp: commitScrollMemento_def Let_def remember_def put_group_def obj_get_set)
  next
    case False
    then have "tabId \<notin> set (ids g)" using assms found(1,6) unfolding tab_inv_def by blast
    then have "map (remember tabId r es) (tabs g) = tabs g"
      by (intro map_idI remember_other) (auto simp: ids_def)
    with False hit assms(2) show ?thesis
      by (simp add: commitScrollMemento_def Let_def put_group_def obj_get_set)
  qed
qed

lemma set_active_group:
  assumes "tab_inv Q s" "obj_get (byWorkspace s) slug = Some g" "t \<in> set (tabs g)"
  shows "active_group (setActiveTab (tab_id t) s) = Some (slug, g\<lparr>activeTabId := tab_id t\<rparr>)"
    "mountGeneration (setActiveTab (tab_id t) s) = mountGeneration s"
proof -
  have mem: "tab_id t \<in> set (ids g)" using assms(3) by (simp add: ids_def)
  obtain k h i where hit: "findTabLocation (byWorkspace s) (tab_id t) = Some (k, h, i)"
  proof (cases "findTabLocation (byWorkspace s) (tab_id t)")
    case None
    with mem findTabLocation_None obj_get_in [OF assms(2)] show ?thesis by blast
  qed (use that in auto)
  note found = tab_inv_found [OF assms(1) hit]
  have "k = slug" using assms(1) found(1,6) assms(2) mem unfolding tab_inv_def by blast
  with found(1) assms(2) have kh: "k = slug" "h = g" by simp_all
  have ne: "slug \<noteq> []" using found(2) kh by (simp add: workspace_slug_def)
  show "active_group (setActiveTab (tab_id t) s) = Some (slug, g\<lparr>activeTabId := tab_id t\<rparr>)"
    using hit kh ne assms(2)
    by (auto simp: setActiveTab_def active_group_def truthy_def put_group_def obj_get_set split: list.split)
  show "mountGeneration (setActiveTab (tab_id t) s) = mountGeneration s"
    using hit by (simp add: setActiveTab_def put_group_def)
qed

lemma find_by_id:
  assumes "distinct (map tab_id ts)" "t \<in> set ts"
  shows "find (\<lambda>u. tab_id u = tab_id t) ts = Some t"
  using assms by (induction ts) force+

end
