(* ===== verification/Tab_Coordinator_Properties.thy ===== *)
theory Tab_Coordinator_Properties
  imports Tab_Scroll Tab_Example
begin

text \<open>
  The guarantees of the tab coordinator: the router is a projection of the active session, it
  settles on the session URL however late it commits, recoveries are never cut off, and each tab
  gets its scroll offsets back.
\<close>

section \<open>Switching tabs\<close>

lemma identity_eq:
  assumes "active_group s = Some (slug, g)" "getActiveTab s = Some t"
  shows "session_identity s = Some (slug @ '':'' @ tab_id t @ '':'' @ string_of_nat (mountGeneration s))"
  using assms by (simp add: session_identity_def active_group_Some(1))

lemma active_of_group:
  assumes "active_group s = Some (slug, g)" "distinct (map tab_id (tabs g))" "t \<in> set (tabs g)"
    and "activeTabId g = tab_id t"
  shows "getActiveTab s = Some t"
  using assms find_by_id [of "tabs g" t] by (simp add: getActiveTab_def)

text \<open>A coordinator that tracks tab \<open>t\<close> of group \<open>g\<close>.\<close>

definition tracks_tab :: "coordinator \<Rightarrow> jstr \<Rightarrow> tab_group \<Rightarrow> tab_session \<Rightarrow> bool" where
  "tracks_tab c slug g t = (initialized c \<and> tracked c \<and> lastActiveTabId c = Some (tab_id t)
     \<and> active_group (coord_store c) = Some (slug, g) \<and> activeTabId g = tab_id t
     \<and> t \<in> set (tabs g) \<and> tab_id t \<noteq> [])"

lemma tracks_active:
  assumes "tracks_tab c slug g t" "tab_inv Q (coord_store c)"
  shows "getActiveTab (coord_store c) = Some t"
proof -
  have g: "active_group (coord_store c) = Some (slug, g)" using assms(1) by (simp add: tracks_tab_def)
  have "distinct (map tab_id (tabs g))" using tab_inv_active(3) [OF assms(2) g] by (simp add: group_ok_def ids_def)
  then show ?thesis using assms(1) g by (intro active_of_group [OF g]) (simp_all add: tracks_tab_def)
qed

context url_policy begin

lemma switch_tab:
  assumes inv: "tab_inv Q (coord_store c)" and here: "tracks_tab c slug g t"
    and u: "u \<in> set (tabs g)" "tab_id u \<noteq> tab_id t" "tab_id u \<noteq> []"
    and c': "c' = coord_step am r c (StoreAction fresh (SetActiveTab (tab_id u)) True host)"
    and old: "old = remember (tab_id t) (fst (splitTabUrl (tab_url t))) (captureScrollEntries host)"
  shows "tracks_tab c' slug (g\<lparr>activeTabId := tab_id u, tabs := map old (tabs g)\<rparr>) (old u)"
    "tab_inv Q (coord_store c')"
proof -
  let ?s = "setActiveTab (tab_id u) (coord_store c)"
  let ?d = "c\<lparr>coord_store := ?s\<rparr>"
  let ?n = "note_generation ?d"
  let ?g = "g\<lparr>activeTabId := tab_id u\<rparr>"
  have grp: "active_group (coord_store c) = Some (slug, g)" "activeTabId g = tab_id t" "t \<in> set (tabs g)"
    using here by (simp_all add: tracks_tab_def)
  note act = tab_inv_active [OF inv grp(1)]
  have dist: "distinct (map tab_id (tabs g))" using act(3) by (simp add: group_ok_def ids_def)
  have t: "getActiveTab (coord_store c) = Some t" using here inv by (rule tracks_active)
  have "url_ok Q slug (tab_url t)"
    using act(3) grp(3) nth_mem [of "hist_index (history t)" "hist_stack (history t)"]
    by (auto simp: group_ok_def list_all_iff session_ok_def history_ok_def)
  then have url: "tab_url t \<noteq> []"
    by (auto simp: url_ok_def sanitizeTabPath_def splitTabUrl_eq path_segments_Nil)
  note s = set_active_group [OF inv act(1) u(1)]
  have sinv: "tab_inv Q ?s" using inv by (rule setActiveTab_inv)
  have su: "getActiveTab ?s = Some u" by (rule active_of_group [OF s(1)]) (simp_all add: dist u(1))
  have "session_identity ?s \<noteq> session_identity (coord_store c)"
    using identity_eq [OF s(1) su] identity_eq [OF grp(1) t] s(2) u(2) by simp
  then have rep: "view_replaced ?n"
    using here by (simp add: view_replaced_def host_switching_def tracks_tab_def tracked_def note_generation_def)
  have out: "outgoing_view ?n = Some (tab_id t, fst (splitTabUrl (tab_url t)))"
    using here t url
    by (simp add: outgoing_view_def note_generation_def tracks_tab_def tracked_def activeSessionUrl_def
        truthy_def split: list.split)
  have tracking: "same_tracking (after_memento host ?n) c'"
    using listener_tracking [of Q ?d host r] sinv here by (simp add: c' tracks_tab_def)
  have store: "coord_store c' = commitScrollMemento (tab_id t) (fst (splitTabUrl (tab_url t))) (captureScrollEntries host) ?s"
    using tracking rep out by (simp add: same_tracking_def after_memento_def)
  show inv': "tab_inv Q (coord_store c')" using sinv by (simp add: store commitScrollMemento_inv)
  have "obj_get (byWorkspace ?s) slug = Some ?g" using active_group_Some(3) [OF s(1)] .
  from memento_group [OF sinv this] have get: "obj_get (byWorkspace (coord_store c')) slug = Some (?g\<lparr>tabs := map old (tabs g)\<rparr>)"
    by (simp add: store old)
  have "view_of (coord_store c') = view_of ?s" using memento_view [OF sinv] by (simp add: store)
  then have "activeWorkspaceSlug (coord_store c') = Some slug"
    using active_group_Some(1) [OF s(1)] by (simp add: view_of_def)
  with get active_group_Some(2) [OF grp(1)]
  have "active_group (coord_store c') = Some (slug, ?g\<lparr>tabs := map old (tabs g)\<rparr>)"
    by (cases slug) (simp_all add: active_group_def truthy_def)
  moreover have "tracked c'"
    using tracked_tracking [OF tracking] after_memento_keeps [of Q ?d host] sinv by simp
  moreover have "lastActiveTabId c' = Some (tab_id u)"
    using tracking rep out su by (simp add: same_tracking_def after_memento_def track_active_def)
  moreover have "initialized c'" using tracking here by (simp add: same_tracking_def tracks_tab_def)
  ultimately show "tracks_tab c' slug (g\<lparr>activeTabId := tab_id u, tabs := map old (tabs g)\<rparr>) (old u)"
    using u by (simp add: tracks_tab_def old)
qed

end

section \<open>A router that has yet to commit\<close>

text \<open>The router publishes the location it was last asked for, or again the one it shows.\<close>

definition router_catches_up :: "array_move \<Rightarrow> router \<Rightarrow> coordinator \<Rightarrow> coordinator" where
  "router_catches_up am r c =
     coord_step am r c
       (RouterPublishes (if requests c = [] then router_url c else resolve r (last (requests c))))"

definition on_session :: "router \<Rightarrow> coordinator \<Rightarrow> bool" where
  "on_session r c = (router_url c \<in> {session_target c, resolve r (session_target c)})"

lemma publish_tracking: "same_tracking c (c\<lparr>router_url := url\<rparr>)"
  by (simp add: same_tracking_def)

lemma catches_up_tracking: "same_tracking c (router_catches_up am r c)"
  using tracking_trans [OF publish_tracking subscriber_tracking]
  by (auto simp: router_catches_up_def Let_def intro: publish_tracking same_tracking_refl)

lemma publish_token:
  "\<lbrakk>initialized c; pendingTokens c > 0\<rbrakk> \<Longrightarrow>
   coord_step am r c (RouterPublishes url) = consume_token (c\<lparr>router_url := url\<rparr>)"
  by (simp add: router_subscriber_token)

lemma consume_fields [simp]:
  "router_url (consume_token c) = router_url c" "requests (consume_token c) = requests c"
  "pendingTokens (consume_token c) = pendingTokens c - 1" "session_target (consume_token c) = session_target c"
  by (simp_all add: consume_token_def session_target_def activeSessionUrl_def)

lemma publish_target [simp]: "session_target (c\<lparr>router_url := url\<rparr>) = session_target c"
  "session_target (c\<lparr>recoveryAttempts := n\<rparr>) = session_target c"
  "session_target (c\<lparr>pendingTokens := k\<rparr>) = session_target c"
  "session_target (c\<lparr>requests := l\<rparr>) = session_target c"
  by (simp_all add: session_target_def activeSessionUrl_def)

text \<open>A location published without a token: the coordinator accepts it or asks for the session URL.\<close>

lemma rogue_publication:
  assumes "coord_inv Q c" "initialized c" "pendingTokens c = 0" "url \<noteq> session_target c"
  shows "requests (coord_step am r c (RouterPublishes url)) = requests c @ [session_target c]"
    "if prompt r (session_target c)
     then router_url (coord_step am r c (RouterPublishes url)) = resolve r (session_target c)
     else pendingTokens (coord_step am r c (RouterPublishes url)) > 0"
  using assms
  by (simp_all add: coord_inv_def recovery_covered_def router_subscriber_def MAX_RECOVERY_ATTEMPTS_def
      reconcile_def router_navigate_def Let_def)

lemma settle_target:
  assumes "initialized c" "pendingTokens c > 0" "requests c \<noteq> []" "last (requests c) = session_target c"
  shows "on_session r (router_catches_up am r c)"
  using assms by (simp add: router_catches_up_def router_subscriber_token on_session_def Let_def)

lemma settle_idle:
  assumes inv: "coord_inv Q c" and ini: "initialized c" and idle: "pendingTokens c = 0"
  shows "\<exists>n \<le> 2. on_session r ((router_catches_up am r ^^ n) c)"
proof -
  define url where "url = (if requests c = [] then router_url c else resolve r (last (requests c)))"
  let ?d = "coord_step am r c (RouterPublishes url)"
  have d: "router_catches_up am r c = ?d" by (simp add: router_catches_up_def url_def)
  have tr: "same_tracking c ?d" using catches_up_tracking [of c am r] d by simp
  show ?thesis
  proof (cases "url = session_target c")
    case True
    with ini idle have "on_session r ?d" by (simp add: router_subscriber_def on_session_def)
    with d show ?thesis by (intro exI [of _ 1]) simp
  next
    case False
    note rogue = rogue_publication [OF inv ini idle False, where am = am and r = r]
    show ?thesis
    proof (cases "prompt r (session_target c)")
      case True
      with rogue(2) target_tracking [OF tr] have "on_session r ?d" by (simp add: on_session_def)
      with d show ?thesis by (intro exI [of _ 1]) simp
    next
      case False
      have "on_session r (router_catches_up am r ?d)"
        using False rogue tr ini target_tracking [OF tr]
        by (intro settle_target) (auto simp: same_tracking_def)
      with d show ?thesis by (intro exI [of _ 2]) (simp add: numeral_2_eq_2)
    qed
  qed
qed

lemma settle:
  "\<lbrakk>coord_inv Q c; initialized c; url_policy Q\<rbrakk> \<Longrightarrow>
   \<exists>n \<le> pendingTokens c + 2. on_session r ((router_catches_up am r ^^ n) c)"
proof (induction "pendingTokens c" arbitrary: c)
  case 0
  then show ?case using settle_idle [of Q c r am] by (simp add: numeral_2_eq_2)
next
  case (Suc k)
  let ?d = "router_catches_up am r c"
  have "coord_inv Q ?d"
    unfolding router_catches_up_def by (rule url_policy.coord_step_inv [OF Suc.prems(3,1)]) simp
  moreover have "initialized ?d" using Suc.prems(2) catches_up_tracking [of c am r] by (simp add: same_tracking_def)
  moreover have "k = pendingTokens ?d"
    using Suc.hyps(2) Suc.prems(2) by (simp add: router_catches_up_def router_subscriber_token Let_def)
  ultimately obtain n where "n \<le> k + 2" "on_session r ((router_catches_up am r ^^ n) ?d)"
    using Suc.hyps(1) [of ?d] Suc.prems(3) by auto
  then show ?case using Suc.hyps(2) by (intro exI [of _ "Suc n"]) (simp add: funpow_swap1)
qed

section \<open>Guarantees\<close>

context url_policy begin

lemma prompt_projects:
  assumes "prompt_router r" "reachable (coord_start Q) (coord_step am r) (coord_enabled am Q) c"
  shows "projects r c"
  using assms(2)
proof (induction rule: reachable.induct)
  case (init c)
  have "\<not> initialized (coordinator_module s)" for s by (simp add: coordinator_module_def)
  with init show ?case unfolding coord_start_def projects_def by metis
next
  case (step c e)
  have inv: "coord_inv Q c" using step.hyps(1) by (rule coord.inv_reachable)
  have "coord_inv Q (coord_step am r c e)" using inv step.hyps(2) by (rule coord_step_inv)
  then show ?case
    using assms(1) step inv by (intro projects_step [of r Q]) (auto simp: coord_inv_def intro: tab_step_inv)
qed

end

abbreviation coord_reachable :: "array_move \<Rightarrow> router \<Rightarrow> coordinator \<Rightarrow> bool" where
  "coord_reachable am r \<equiv> reachable (coord_start own_url) (coord_step am r) (coord_enabled am own_url)"

lemma reached: "coord_reachable am r c \<Longrightarrow> coord_inv own_url c"
  by (rule own.coord.inv_reachable)

lemma projected:
  assumes "prompt_router r" "coord_reachable am r c"
  shows "projects r c"
  using assms by (rule own.prompt_projects)

lemma target_workspace:
  assumes "tab_inv own_url (coord_store c)" "getActiveTab (coord_store c) = Some t"
  shows "extractWorkspaceSlug (session_target c) = activeWorkspaceSlug (coord_store c)"
proof -
  obtain slug g where g: "active_group (coord_store c) = Some (slug, g)"
    and t: "find (\<lambda>u. tab_id u = activeTabId g) (tabs g) = Some t"
    using assms(2) by (auto simp: getActiveTab_def split: option.splits)
  have "session_ok own_url slug t"
    using tab_inv_active(3) [OF assms(1) g] find_in_set [OF t] by (simp add: group_ok_def list_all_iff)
  then have "own_url slug (tab_url t)"
    using nth_mem [of "hist_index (history t)" "hist_stack (history t)"]
    by (auto simp: session_ok_def history_ok_def url_ok_def list_all_iff)
  then show ?thesis
    using active_group_Some(1) [OF g] assms(2) by (simp add: own_url_def session_target_def activeSessionUrl_def)
qed

text \<open>C8: the router is a projection of the tab store. With a router that commits within
  \<open>navigate\<close>, whatever the user does, whichever URLs the callers open and wherever other code moves
  the router, after every event it shows the URL of the active session and no token is left over. If
  moreover the callers open only URLs of the workspace they name, and the store held only such URLs
  when the module started (the code enforces neither), the URL belongs to the active workspace.\<close>

theorem router_projects_session:
  assumes "prompt_router r" "reachable (coord_start any_url) (coord_step am r) (coord_enabled am any_url) c"
    and "initialized c"
  shows "router_url c \<in> {session_target c, resolve r (session_target c)} \<and> pendingTokens c = 0
    \<and> (reachable (coord_start own_url) (coord_step am r) (coord_enabled am own_url) c \<longrightarrow>
         getActiveTab (coord_store c) \<noteq> None \<longrightarrow>
         extractWorkspaceSlug (session_target c) = activeWorkspaceSlug (coord_store c))"
  using any.prompt_projects [OF assms(1,2)] target_workspace [of c] reached [of am r c] assms(3)
  by (auto simp: projects_def coord_inv_def)

text \<open>C19: the projection always catches up. From every reachable state of a router that may commit
  late, lose navigations or be moved by other code, as soon as it keeps publishing the location it
  was last asked for, it shows the session URL after at most two more publications than there are
  tokens.\<close>

theorem coordinator_settles:
  assumes "coord_reachable am r c" "initialized c"
  shows "\<exists>n \<le> pendingTokens c + 2.
    router_url ((router_catches_up am r ^^ n) c) \<in> {session_target c, resolve r (session_target c)}"
proof -
  have "same_tracking c ((router_catches_up am r ^^ n) c)" for n
    by (induction n) (auto intro: same_tracking_refl tracking_trans catches_up_tracking)
  from target_tracking [OF this] settle [OF reached [OF assms(1)] assms(2) own.url_policy_axioms, where am = am and r = r]
  show ?thesis by (auto simp: on_session_def)
qed

text \<open>The bound on recoveries is never reached. Whatever the router does, at most one recovery is
  counted at any time, so the branch that gives up is dead; and a page that moves the router away
  \<open>n\<close> times is brought back \<open>n\<close> times, for every \<open>n\<close>.\<close>

theorem recovery_never_gives_up:
  assumes "coord_reachable am r c" "initialized c"
  shows "recoveryAttempts c < MAX_RECOVERY_ATTEMPTS
    \<and> (prompt_router r \<longrightarrow> url \<notin> {session_target c, resolve r (session_target c)} \<longrightarrow>
       requests (foldl (coord_step am r) c (replicate n (RouterPublishes url)))
         = requests c @ replicate n (session_target c))"
proof -
  have "recoveryAttempts c < MAX_RECOVERY_ATTEMPTS"
    using reached [OF assms(1)] by (simp add: coord_inv_def recovery_covered_def MAX_RECOVERY_ATTEMPTS_def)
  moreover have "requests (foldl (coord_step am r) c (replicate n (RouterPublishes url)))
      = requests c @ replicate n (session_target c)"
    if r: "prompt_router r" "url \<notin> {session_target c, resolve r (session_target c)}"
    using assms r(2)
  proof (induction n arbitrary: c)
    case (Suc n)
    let ?d = "coord_step am r c (RouterPublishes url)"
    have "pendingTokens c = 0" using projected [OF r(1) Suc.prems(1)] Suc.prems(2) by (simp add: projects_def)
    note rogue = rogue_publication(1) [OF reached [OF Suc.prems(1)] Suc.prems(2) this, of url am r]
    have tr: "same_tracking c ?d"
      using tracking_trans [OF publish_tracking subscriber_tracking]
      by (auto simp: Let_def intro: publish_tracking same_tracking_refl)
    have "coord_reachable am r ?d" using Suc.prems(1) by (rule reachable.step) simp
    moreover have "initialized ?d" using tr Suc.prems(2) by (simp add: same_tracking_def)
    ultimately show ?case
      using Suc.IH [of ?d] rogue Suc.prems(3) target_tracking [OF tr] by simp
  qed simp
  ultimately show ?thesis by blast
qed

text \<open>Each tab gets its scroll offsets back. Leaving tab \<open>t\<close> for another tab of its group and
  coming back, a view of \<open>t\<close> reads for every container the offset it had when the tab was left,
  and none for a container that was at the top.\<close>

theorem scroll_restored:
  assumes "coord_reachable am r c" "tracks_tab c slug g t"
    and "u \<in> set (tabs g)" "tab_id u \<noteq> tab_id t" "tab_id u \<noteq> []"
  shows "scroll_adapter_get (tab_id t) key
      (coord_store (foldl (coord_step am r) c
        [StoreAction fresh (SetActiveTab (tab_id u)) True host,
         StoreAction fresh' (SetActiveTab (tab_id t)) True host']))
    = obj_get (captureScrollEntries host) key"
proof -
  let ?away = "coord_step am r c (StoreAction fresh (SetActiveTab (tab_id u)) True host)"
  let ?old = "remember (tab_id t) (fst (splitTabUrl (tab_url t))) (captureScrollEntries host)"
  let ?g = "g\<lparr>activeTabId := tab_id u, tabs := map ?old (tabs g)\<rparr>"
  let ?returned = "coord_step am r ?away (StoreAction fresh' (SetActiveTab (tab_id t)) True host')"
  let ?new = "remember (tab_id u) (fst (splitTabUrl (tab_url u))) (captureScrollEntries host')"
  have inv: "tab_inv own_url (coord_store c)" using reached [OF assms(1)] by (simp add: coord_inv_def)
  note away = own.switch_tab [OF inv assms(2-5) refl refl, of am r fresh host]
  have t: "?old t \<in> set (tabs ?g)" "tab_id t \<noteq> []" using assms(2) by (auto simp: tracks_tab_def)
  have again: "tracks_tab ?returned slug (?g\<lparr>activeTabId := tab_id t, tabs := map ?new (tabs ?g)\<rparr>) (?new (?old t))"
    using own.switch_tab(1) [OF away(2,1) t(1), where am = am and r = r and fresh = fresh' and host = host'
        and c' = ?returned and old = ?new] assms(4) t(2) by simp
  have same: "?new (?old t) = ?old t" using assms(4) by (intro remember_other) simp
  have scroll: "obj_ok (tab_scroll t)"
    using assms(2) tab_inv_active(3) [OF inv, of slug g]
    by (auto simp: tracks_tab_def group_ok_def ids_def list_all_iff session_ok_def)
  have inv': "tab_inv own_url (coord_store ?returned)"
    using own.switch_tab(2) [OF away(2,1) t(1), where am = am and r = r and fresh = fresh' and host = host'
        and c' = ?returned and old = ?new] assms(4) t(2) by simp
  from tracks_active [OF again inv'] have "getActiveTab (coord_store ?returned) = Some (?new (?old t))" .
  then show ?thesis
    by (simp add: scroll_adapter_get_def same remember_get [OF capture_ok scroll])
qed

section \<open>A concrete coordinator\<close>

definition prompt_example :: router where
  "prompt_example = Router (\<lambda>_. True) (\<lambda>url. url)"

definition late_example :: router where
  "late_example = Router (\<lambda>_. False) (\<lambda>url. url)"

definition example_coordinator :: "router \<Rightarrow> coordinator" where
  "example_coordinator r = coord_step move_element r (coordinator_module example_store) InitTabCoordinator"

lemma example_coordinator_any:
  "reachable (coord_start any_url) (coord_step move_element r) (coord_enabled move_element any_url) (example_coordinator r)"
  unfolding example_coordinator_def
  by (rule reachable.step [OF reachable.init])
    (simp_all add: coord_start_def coordinator_module_def example_inv(1))

lemma example_coordinator_reachable: "coord_reachable move_element r (example_coordinator r)"
  unfolding example_coordinator_def
  by (rule reachable.step [OF reachable.init])
    (simp_all add: coord_start_def coordinator_module_def example_inv(2))

lemma example_session: "getActiveTab example_store = Some (tabs example_group ! 1)"
  by (simp add: getActiveTab_def example_active) (simp add: example_group_def example_tab_def)

lemma example_coordinator_eq:
  "initialized (example_coordinator r)" "coord_store (example_coordinator r) = example_store"
  "session_target (example_coordinator r) = ''/acme/issues/SIL-1''"
  "lastActiveTabId (example_coordinator r) = Some ''t2''"
  "tracked (example_coordinator r)"
proof -
  let ?d = "track_active ((coordinator_module example_store)\<lparr>initialized := True, prevGeneration := mountGeneration example_store\<rparr>)"
  have c: "example_coordinator r = reconcile r ?d"
    by (simp add: example_coordinator_def initTabCoordinator_def coordinator_module_def)
  note tr = reconcile_tracking [of ?d r, folded c]
  show "initialized (example_coordinator r)" "coord_store (example_coordinator r) = example_store"
    "lastActiveTabId (example_coordinator r) = Some ''t2''"
    using tr by (simp_all add: same_tracking_def track_active_def coordinator_module_def example_session)
      (simp add: example_group_def example_tab_def)
  then show "session_target (example_coordinator r) = ''/acme/issues/SIL-1''"
    by (simp add: session_target_def activeSessionUrl_def example_session) (simp add: example_group_def example_tab_def)
  have "tracked ?d" by (rule tracked_track) (simp add: coordinator_module_def)
  with tracked_tracking [OF tr] show "tracked (example_coordinator r)" by simp
qed

lemma example_tracks:
  "tracks_tab (example_coordinator r) ''acme'' example_group (tabs example_group ! 1)"
  by (simp add: tracks_tab_def example_coordinator_eq example_active) (simp add: example_group_def example_tab_def)

theorem router_projects_session_witness:
  "router_url (example_coordinator prompt_example) = ''/acme/issues/SIL-1''
    \<and> extractWorkspaceSlug ''/acme/issues/SIL-1'' = Some ''acme''"
  using router_projects_session [OF _ example_coordinator_any example_coordinator_eq(1), of prompt_example]
    example_coordinator_reachable [of prompt_example]
  by (simp add: prompt_router_def prompt_example_def example_coordinator_eq example_session
      active_group_Some(1) [OF example_active])

theorem coordinator_settles_witness:
  "\<exists>n \<le> pendingTokens (example_coordinator late_example) + 2.
    router_url ((router_catches_up move_element late_example ^^ n) (example_coordinator late_example))
      = ''/acme/issues/SIL-1''"
  using coordinator_settles [OF example_coordinator_reachable example_coordinator_eq(1), of late_example]
  by (simp add: late_example_def example_coordinator_eq)

theorem recovery_never_gives_up_witness:
  "length (requests (foldl (coord_step move_element prompt_example) (example_coordinator prompt_example)
      (replicate 100 (RouterPublishes ''/acme/inbox'')))) \<ge> 100"
  using recovery_never_gives_up [OF example_coordinator_reachable example_coordinator_eq(1),
      where r = prompt_example and url = "''/acme/inbox''" and n = 100]
  by (simp add: prompt_router_def prompt_example_def example_coordinator_eq del: foldl_Cons replicate.simps)

theorem scroll_restored_witness:
  "scroll_adapter_get ''t2'' ''main''
     (coord_store (foldl (coord_step move_element prompt_example) (example_coordinator prompt_example)
       [StoreAction ''x'' (SetActiveTab ''t1'') True (Some [([], 120, 900), (''list'', 0, 400)]),
        StoreAction ''y'' (SetActiveTab ''t2'') True (Some [])]))
   = Some \<lparr>so_top = 120, so_height = 900\<rparr>"
proof -
  have tabs: "tabs example_group ! 2 \<in> set (tabs example_group)" "tab_id (tabs example_group ! 2) = ''t1''"
    "tab_id (tabs example_group ! 1) = ''t2''"
    by (simp_all add: example_group_def example_tab_def)
  have ne: "''t1'' \<noteq> (''t2'' :: jstr)" "''t1'' \<noteq> ([] :: jstr)" by simp_all
  have captured: "obj_get (captureScrollEntries (Some [([], 120, 900), (''list'', 0, 400)])) ''main''
      = Some \<lparr>so_top = 120, so_height = 900\<rparr>"
    by (simp add: captureScrollEntries_def obj_get_set)
  show ?thesis
    using scroll_restored [OF example_coordinator_reachable example_tracks tabs(1), where key = "''main''"
        and host = "Some [([], 120, 900), (''list'', 0, 400)]" and fresh = "''x''" and fresh' = "''y''"
        and host' = "Some []" and r = prompt_example]
    unfolding tabs captured using ne by blast
qed

end
