(* ===== verification/Tab_Navigation.thy ===== *)
theory Tab_Navigation
  imports Tab_Safety
begin

text \<open>
  The navigation adapter of the desktop shell
  (\<open>apps/desktop/src/renderer/src/platform/navigation.tsx\<close>) with the overlay store
  (\<open>stores/window-overlay-store.ts\<close>): how every push, replace and open of the shared pages
  becomes a call of the tab store. \<open>decodeURIComponent\<close> is a parameter, \<open>None\<close> when it throws. A
  call that may create a tab takes the identifier \<open>createSafeId\<close> would return.
\<close>

section \<open>State\<close>

datatype WindowOverlay = NewWorkspaceOverlay | InviteOverlay jstr | InvitationsOverlay | OnboardingOverlay

record shell =
  tab_state :: tab_store
  window_overlay :: "WindowOverlay option"
  logouts :: nat

definition overlay_open :: "WindowOverlay \<Rightarrow> shell \<Rightarrow> shell" where
  "overlay_open ov sh = sh\<lparr>window_overlay := Some ov\<rparr>"

definition overlay_close :: "shell \<Rightarrow> shell" where
  "overlay_close sh = sh\<lparr>window_overlay := None\<rparr>"

definition on_tabs :: "(tab_store \<Rightarrow> tab_store) \<Rightarrow> shell \<Rightarrow> shell" where
  "on_tabs f sh = sh\<lparr>tab_state := f (tab_state sh)\<rparr>"

section \<open>Interceptions\<close>

text \<open>Each returns whether it handled the navigation.\<close>

definition tryRouteToOverlay :: "(jstr \<Rightarrow> jstr option) \<Rightarrow> jstr \<Rightarrow> shell \<Rightarrow> bool \<times> shell" where
  "tryRouteToOverlay decode path sh =
     (if path = ''/workspaces/new'' then (True, overlay_open NewWorkspaceOverlay sh)
      else if path = ''/onboarding'' then (True, overlay_open OnboardingOverlay sh)
      else if path = ''/invitations'' then (True, overlay_open InvitationsOverlay sh)
      else
        let otherwise = (False, if window_overlay sh \<noteq> None then overlay_close sh else sh) in
        if str_starts path ''/invite/''
        then (case decode (drop (length ''/invite/'') path) of
                None \<Rightarrow> (True, sh)
              | Some i \<Rightarrow> if i \<noteq> [] then (True, overlay_open (InviteOverlay i) sh) else otherwise)
        else otherwise)"

definition tryRouteToOtherWorkspace :: "jstr \<Rightarrow> jstr \<Rightarrow> shell \<Rightarrow> bool \<times> shell" where
  "tryRouteToOtherWorkspace fresh path sh =
     (case extractWorkspaceSlug path of
        None \<Rightarrow> (False, sh)
      | Some targetSlug \<Rightarrow>
          if activeWorkspaceSlug (tab_state sh) = Some targetSlug then (False, sh)
          else (True, on_tabs (switchWorkspace fresh targetSlug (Some path)) sh))"

definition tryRouteToPinnedNewTab :: "jstr \<Rightarrow> jstr \<Rightarrow> shell \<Rightarrow> bool \<times> shell" where
  "tryRouteToPinnedNewTab fresh path sh =
     (case getActiveTab (tab_state sh) of
        None \<Rightarrow> (False, sh)
      | Some active \<Rightarrow>
          if \<not> pinned active then (False, sh)
          else if fst (splitTabUrl (tab_url active)) = fst (splitTabUrl path) then (False, sh)
          else (True, on_tabs (\<lambda>s. fst (openTab fresh path [] True s)) sh))"

section \<open>The adapter\<close>

definition nav_push :: "(jstr \<Rightarrow> jstr option) \<Rightarrow> jstr \<Rightarrow> jstr \<Rightarrow> shell \<Rightarrow> shell" where
  "nav_push decode fresh path sh0 =
     (if path = ''/login'' then sh0\<lparr>logouts := logouts sh0 + 1\<rparr>
      else
        let (handled, sh) = tryRouteToOverlay decode path sh0 in
        if handled then sh
        else if map_option tab_url (getActiveTab (tab_state sh)) = Some path then sh
        else
          let (other, sh1) = tryRouteToOtherWorkspace fresh path sh in
          if other then sh1
          else
            let (pinned_tab, sh2) = tryRouteToPinnedNewTab fresh path sh1 in
            if pinned_tab then sh2
            else on_tabs (navigateActiveSession path False) sh2)"

definition nav_replace :: "(jstr \<Rightarrow> jstr option) \<Rightarrow> jstr \<Rightarrow> jstr \<Rightarrow> shell \<Rightarrow> shell" where
  "nav_replace decode fresh path sh0 =
     (let (handled, sh) = tryRouteToOverlay decode path sh0 in
      if handled then sh
      else
        let (other, sh1) = tryRouteToOtherWorkspace fresh path sh in
        if other then sh1 else on_tabs (navigateActiveSession path True) sh1)"

definition nav_back :: "shell \<Rightarrow> shell" where
  "nav_back sh = on_tabs goBack sh"

definition canGoBack :: "shell \<Rightarrow> bool" where
  "canGoBack sh = (case getActiveTab (tab_state sh) of None \<Rightarrow> False | Some active \<Rightarrow> hist_index (history active) > 0)"

definition nav_location :: "shell \<Rightarrow> jstr \<times> jstr" where
  "nav_location sh =
     (let url = (case getActiveTab (tab_state sh) of None \<Rightarrow> ''/'' | Some t \<Rightarrow> tab_url t);
          (pathname, suffix) = splitTabUrl url
      in (pathname, case str_index_of suffix CHR ''#'' of None \<Rightarrow> suffix | Some i \<Rightarrow> take i suffix))"

definition openInNewTab :: "jstr \<Rightarrow> jstr \<Rightarrow> jstr option \<Rightarrow> bool \<Rightarrow> shell \<Rightarrow> shell" where
  "openInNewTab fresh path title activate sh =
     (case extractWorkspaceSlug path of
        Some slug \<Rightarrow>
          if activeWorkspaceSlug (tab_state sh) \<noteq> Some slug
          then on_tabs (switchWorkspace fresh slug (Some path)) sh
          else on_tabs (\<lambda>s. fst (openTab fresh path (case title of None \<Rightarrow> [] | Some t \<Rightarrow> t) activate s)) sh
      | None \<Rightarrow>
          on_tabs (\<lambda>s. fst (openTab fresh path (case title of None \<Rightarrow> [] | Some t \<Rightarrow> t) activate s)) sh)"

definition getShareableUrl :: "jstr \<Rightarrow> jstr \<Rightarrow> jstr" where
  "getShareableUrl appUrl path = appUrl @ path"

definition routeContentLinkPath :: "jstr \<Rightarrow> jstr \<Rightarrow> shell \<Rightarrow> shell" where
  "routeContentLinkPath fresh path sh =
     (let open_here = on_tabs (\<lambda>s. let (s', tabId) = openTab fresh path [] False s in setActiveTab tabId s') sh in
      case extractWorkspaceSlug path of
        Some slug \<Rightarrow>
          if activeWorkspaceSlug (tab_state sh) \<noteq> Some slug
          then on_tabs (switchWorkspace fresh slug (Some path)) sh
          else open_here
      | None \<Rightarrow> open_here)"

text \<open>The calls of the adapter.\<close>

datatype nav_call =
    Push jstr
  | Replace jstr
  | Back
  | OpenInNewTab jstr "jstr option" bool
  | RouteContentLink jstr

fun nav_path :: "nav_call \<Rightarrow> jstr" where
  "nav_path (Push path) = path"
| "nav_path (Replace path) = path"
| "nav_path Back = []"
| "nav_path (OpenInNewTab path title activate) = path"
| "nav_path (RouteContentLink path) = path"

fun nav_step :: "(jstr \<Rightarrow> jstr option) \<Rightarrow> jstr \<Rightarrow> shell \<Rightarrow> nav_call \<Rightarrow> shell" where
  "nav_step decode fresh sh (Push path) = nav_push decode fresh path sh"
| "nav_step decode fresh sh (Replace path) = nav_replace decode fresh path sh"
| "nav_step decode fresh sh Back = nav_back sh"
| "nav_step decode fresh sh (OpenInNewTab path title activate) = openInNewTab fresh path title activate sh"
| "nav_step decode fresh sh (RouteContentLink path) = routeContentLinkPath fresh path sh"

section \<open>Paths of the application\<close>

text \<open>
  The slug is read off the whole path, so it is the one of the pathname when the first segment
  carries no query and no fragment.
\<close>

definition plain_path :: "jstr \<Rightarrow> bool" where
  "plain_path path =
     (case path_segments path of [] \<Rightarrow> True | first # _ \<Rightarrow> list_all (\<lambda>c. \<not> is_suffix_char c) first)"

lemma first_segment_append:
  assumes "path_segments p = w # ws"
  shows "path_segments (p @ s) \<noteq> [] \<and>
    (\<exists>x. hd (path_segments (p @ s)) = w @ x \<and> (x = [] \<or> s \<noteq> [] \<and> hd x = hd s))"
proof -
  let ?ne = "filter (\<lambda>w. w \<noteq> [])"
  let ?a = "str_split CHR ''/'' p" and ?b = "str_split CHR ''/'' s"
  have "?a = butlast ?a @ [last ?a]" by simp
  then have segs: "path_segments p = ?ne (butlast ?a) @ ?ne [last ?a]"
    unfolding path_segments_def by (metis filter_append)
  have app: "path_segments (p @ s) = ?ne (butlast ?a) @ ?ne [last ?a @ hd ?b] @ ?ne (tl ?b)"
    by (simp add: path_segments_def str_split_append_any)
  have hd: "hd ?b = [] \<or> s \<noteq> [] \<and> hd (hd ?b) = hd s"
  proof (cases s)
    case (Cons c cs)
    then show ?thesis by (cases "str_split CHR ''/'' cs") auto
  qed simp
  show ?thesis
  proof (cases "?ne (butlast ?a)")
    case Nil
    with segs assms have "w = last ?a" "w \<noteq> []" by (auto split: if_splits)
    with Nil app hd show ?thesis by (intro conjI exI [of _ "hd ?b"]) auto
  next
    case (Cons v vs)
    with segs assms app show ?thesis by (intro conjI exI [of _ "[]"]) auto
  qed
qed

lemma plain_slug:
  assumes "plain_path path" "sanitizeTabPath path = Some clean"
  shows "extractWorkspaceSlug clean = extractWorkspaceSlug path"
    and "\<exists>k. extractWorkspaceSlug path = Some k \<and> workspace_slug k"
proof -
  let ?p = "resourceKeyForUrl path" and ?s = "snd (splitTabUrl path)"
  have path: "path = ?p @ ?s" by (simp add: resourceKeyForUrl_def splitTabUrl_join)
  obtain w ws where w: "path_segments ?p = w # ws" "\<not> isReservedSlug w"
    using assms(2) by (cases rule: sanitize_cases) auto
  obtain x us where x: "path_segments path = (w @ x) # us" "x = [] \<or> ?s \<noteq> [] \<and> hd x = hd ?s"
    using first_segment_append [OF w(1), of ?s] path list.collapse by metis
  have "is_suffix_char (hd ?s)" if "?s \<noteq> []"
    using that hd_dropWhile [of "\<lambda>c. \<not> is_suffix_char c" path] by (simp add: splitTabUrl_eq)
  with x assms(1) have "x = []" by (cases x) (auto simp: plain_path_def)
  with x w(2) have raw: "extractWorkspaceSlug path = Some w" by (simp add: extractWorkspaceSlug_def)
  have "w \<noteq> []" "CHR ''/'' \<notin> set w" "\<forall>c \<in> set w. \<not> is_suffix_char c"
    using w(1) path_segments_ne [of w ?p] path_segments_chars [of w ?p] resourceKey_no_suffix [of _ path] by auto
  with w(2) have ok: "workspace_slug w" by (simp add: workspace_slug_def list_all_iff)
  with raw show "\<exists>k. extractWorkspaceSlug path = Some k \<and> workspace_slug k" by blast
  show "extractWorkspaceSlug clean = extractWorkspaceSlug path"
    using assms(2)
  proof (cases rule: sanitize_cases)
    case (bare slug)
    with w have "slug = w" by simp
    have "extractWorkspaceSlug clean = extractWorkspaceSlug (resourceKeyForUrl clean)"
      using assms(2) by (rule sanitize_slug(1))
    also have "resourceKeyForUrl clean = defaultPathFor w"
      using sanitize_bare_split [OF bare(1)] bare(3) \<open>slug = w\<close> by (simp add: resourceKeyForUrl_def)
    also have "extractWorkspaceSlug (defaultPathFor w) = Some w"
      using ok by (intro sanitize_default(2)) (auto simp: workspace_slug_def list_all_iff)
    finally show ?thesis by (simp add: raw)
  qed simp
qed

end
