(* ===== verification/Tab_Nav_Properties.thy ===== *)
theory Tab_Nav_Properties
  imports Tab_Navigation Tab_Example
begin

text \<open>
  The adapter keeps its side of the tab store's contract: on the paths of the application every
  call is a run of store actions the store admits, so tabs stay in their workspace; a pinned tab
  never leaves its page by a push; and what happens on a path whose slug carries a query.
\<close>

section \<open>Calls as runs of the store\<close>

abbreviation tabs_reachable :: "array_move \<Rightarrow> tab_store \<Rightarrow> bool" where
  "tabs_reachable am \<equiv> reachable tab_start (tab_step am) (tab_enabled am own_url)"

lemma fresh_exists: "\<exists>x. \<not> used_id s x"
proof -
  have "{x. used_id s x} = (\<Union>(k, g) \<in> set (byWorkspace s). set (ids g))"
    by (auto simp: used_id_def list_ex_iff)
  then have "finite {x. used_id s x}" by auto
  then have "{x. used_id s x} \<noteq> UNIV" using infinite_UNIV_listI by auto
  then show ?thesis by auto
qed

lemma reach_action:
  "\<lbrakk>tabs_reachable am s; \<not> used_id s fresh; op_enabled am own_url s oper\<rbrakk> \<Longrightarrow>
   tabs_reachable am (tab_step am s (fresh, oper))"
  by (rule reachable.step) simp_all

lemma reach_switch:
  assumes "tabs_reachable am s" "\<not> used_id s fresh" "plain_path path" "extractWorkspaceSlug path = Some slug"
  shows "tabs_reachable am (switchWorkspace fresh slug (Some path) s)"
proof -
  obtain rest where seg: "path_segments path = slug # rest" "\<not> isReservedSlug slug"
    using assms(4) by (auto simp: extractWorkspaceSlug_def split: list.splits if_splits)
  with assms(3) path_segments_ne [of slug path] have "workspace_slug slug"
    by (simp add: workspace_slug_def plain_path_def)
  then have "op_enabled am own_url s (SwitchWorkspace slug (Some path))"
    using plain_slug(1) [OF assms(3)] assms(4) by (simp add: path_ok_def own_url_def split: option.split)
  from reach_action [OF assms(1,2) this] show ?thesis by simp
qed

lemma reach_open:
  assumes "tabs_reachable am s" "\<not> used_id s fresh" "plain_path path"
    and "\<forall>slug. extractWorkspaceSlug path = Some slug \<longrightarrow> activeWorkspaceSlug s = Some slug"
  shows "tabs_reachable am (fst (openTab fresh path title activate s))"
proof -
  have "op_enabled am own_url s (OpenTab path title activate)"
    using plain_slug [OF assms(3)] assms(4)
    by (fastforce simp: active_path_ok_def path_ok_def own_url_def split: option.split)
  from reach_action [OF assms(1,2) this] show ?thesis by simp
qed

lemma reach_free:
  assumes "tabs_reachable am s"
  shows "tabs_reachable am (navigateActiveSession path replace s)" "tabs_reachable am (goBack s)"
    "tabs_reachable am (setActiveTab tabId s)"
proof -
  obtain x where x: "\<not> used_id s x" using fresh_exists by blast
  show "tabs_reachable am (navigateActiveSession path replace s)" "tabs_reachable am (goBack s)"
    "tabs_reachable am (setActiveTab tabId s)"
    using reach_action [OF assms x, of "NavigateActiveSession path replace"]
      reach_action [OF assms x, of GoBack] reach_action [OF assms x, of "SetActiveTab tabId"] by simp_all
qed

lemma overlay_tabs: "tab_state (snd (tryRouteToOverlay decode path sh)) = tab_state sh"
  by (simp add: tryRouteToOverlay_def overlay_open_def overlay_close_def Let_def split: option.split)

lemma other_workspace_unhandled:
  "tryRouteToOtherWorkspace fresh path sh = (False, sh1) \<Longrightarrow>
   sh1 = sh \<and> (\<forall>slug. extractWorkspaceSlug path = Some slug \<longrightarrow> activeWorkspaceSlug (tab_state sh) = Some slug)"
  by (auto simp: tryRouteToOtherWorkspace_def split: option.splits if_splits)

lemma other_workspace_handled:
  assumes "tabs_reachable am (tab_state sh)" "\<not> used_id (tab_state sh) fresh" "plain_path path"
    and "tryRouteToOtherWorkspace fresh path sh = (True, sh1)"
  shows "tabs_reachable am (tab_state sh1)"
  using assms(4) reach_switch [OF assms(1-3)]
  by (auto simp: tryRouteToOtherWorkspace_def on_tabs_def split: option.splits if_splits)

lemma pinned_new_tab:
  "tryRouteToPinnedNewTab fresh path sh = (False, sh2) \<Longrightarrow> sh2 = sh"
  "tryRouteToPinnedNewTab fresh path sh = (True, sh2) \<Longrightarrow>
   tab_state sh2 = fst (openTab fresh path [] True (tab_state sh))"
  by (auto simp: tryRouteToPinnedNewTab_def on_tabs_def split: option.splits if_splits)

lemma push_reachable:
  assumes "tabs_reachable am (tab_state sh)" "\<not> used_id (tab_state sh) fresh" "plain_path path"
  shows "tabs_reachable am (tab_state (nav_push decode fresh path sh))"
proof -
  obtain h sh0 where o0: "tryRouteToOverlay decode path sh = (h, sh0)" by fastforce
  with overlay_tabs [of decode path sh] have eq: "tab_state sh0 = tab_state sh" by simp
  obtain h1 sh1 where o1: "tryRouteToOtherWorkspace fresh path sh0 = (h1, sh1)" by fastforce
  obtain h2 sh2 where o2: "tryRouteToPinnedNewTab fresh path sh1 = (h2, sh2)" by fastforce
  note here = assms(1,2) [folded eq] assms(3)
  have r1: "tabs_reachable am (tab_state sh1)" if h1
    using other_workspace_handled [OF here] o1 that by simp
  have r2: "tabs_reachable am (tab_state sh2)" if "\<not> h1" h2
    using pinned_new_tab(2) other_workspace_unhandled [of fresh path sh0 sh1] reach_open [OF here] o1 o2 that by auto
  have r3: "tabs_reachable am (navigateActiveSession path False (tab_state sh2))" if "\<not> h1" "\<not> h2"
    using pinned_new_tab(1) [of fresh path sh1 sh2] other_workspace_unhandled [of fresh path sh0 sh1] reach_free(1) [OF here(1)]
      o1 o2 that by auto
  show ?thesis
    using assms(1) eq r1 r2 r3 by (simp add: nav_push_def o0 o1 o2 on_tabs_def)
qed

lemma replace_reachable:
  assumes "tabs_reachable am (tab_state sh)" "\<not> used_id (tab_state sh) fresh" "plain_path path"
  shows "tabs_reachable am (tab_state (nav_replace decode fresh path sh))"
proof -
  obtain h sh0 where o0: "tryRouteToOverlay decode path sh = (h, sh0)" by fastforce
  with overlay_tabs [of decode path sh] have eq: "tab_state sh0 = tab_state sh" by simp
  obtain h1 sh1 where o1: "tryRouteToOtherWorkspace fresh path sh0 = (h1, sh1)" by fastforce
  note here = assms(1,2) [folded eq] assms(3)
  have "tabs_reachable am (tab_state sh1)" if h1
    using other_workspace_handled [OF here] o1 that by simp
  moreover have "tabs_reachable am (navigateActiveSession path True (tab_state sh1))" if "\<not> h1"
    using other_workspace_unhandled [of fresh path sh0 sh1] reach_free(1) [OF here(1)] o1 that by auto
  ultimately show ?thesis
    using assms(1) eq by (simp add: nav_replace_def o0 o1 on_tabs_def)
qed

section \<open>Guarantees\<close>

text \<open>C14: the adapter respects the contract of the tab store. On a path of the application, whatever
  the call, the store it leaves is one the store's own actions reach under the policy that tabs
  show only URLs of their workspace.\<close>

theorem adapter_respects_store:
  assumes "tabs_reachable am (tab_state sh)" "\<not> used_id (tab_state sh) fresh" "plain_path (nav_path call)"
  shows "tabs_reachable am (tab_state (nav_step decode fresh sh call))"
proof (cases call)
  case (Push path)
  with assms push_reachable show ?thesis by simp
next
  case (Replace path)
  with assms replace_reachable show ?thesis by simp
next
  case Back
  with assms(1) show ?thesis by (simp add: nav_back_def on_tabs_def reach_free(2))
next
  case (OpenInNewTab path title activate)
  with assms reach_switch reach_open show ?thesis
    by (simp add: openInNewTab_def on_tabs_def split: option.split)
next
  case (RouteContentLink path)
  have "tabs_reachable am (setActiveTab i s)"
    if "openTab fresh path [] False (tab_state sh) = (s, i)"
      "\<forall>slug. extractWorkspaceSlug path = Some slug \<longrightarrow> activeWorkspaceSlug (tab_state sh) = Some slug" for i s
    using reach_free(3) [OF reach_open [OF assms(1,2) _ that(2), of "[]" False]] that(1) assms(3) RouteContentLink
    by simp
  with RouteContentLink assms reach_switch show ?thesis
    by (auto simp: routeContentLinkPath_def on_tabs_def Let_def split: option.split prod.split)
qed

text \<open>The pinned tab, by identifier and page, in the group of its workspace.\<close>

definition pinned_at :: "tab_store \<Rightarrow> jstr \<Rightarrow> jstr \<Rightarrow> jstr \<Rightarrow> bool" where
  "pinned_at s slug tabId key =
     (case obj_get (byWorkspace s) slug of
        None \<Rightarrow> False
      | Some g \<Rightarrow> list_ex (\<lambda>t. tab_id t = tabId \<and> resourceKey t = key \<and> pinned t) (tabs g))"

lemma pinned_at_switch:
  "pinned_at s slug i key \<Longrightarrow> other \<noteq> slug \<Longrightarrow> pinned_at (switchWorkspace fresh other p s) slug i key"
  by (auto simp: pinned_at_def switchWorkspace_def Let_def put_group_def obj_get_set split: option.split)

lemma pinned_at_open:
  "pinned_at s slug i key \<Longrightarrow> pinned_at (fst (openTab fresh path title activate s)) slug i key"
  by (auto simp: pinned_at_def openTab_def Let_def put_group_def obj_get_set
      dest!: active_group_Some(3) split: option.splits prod.splits)

lemma navigate_same_page:
  assumes "tab_inv Q s" "active_group s = Some (slug, g)" "getActiveTab s = Some t" "pinned t"
    and "fst (splitTabUrl (tab_url t)) = fst (splitTabUrl path)"
  shows "pinned_at (navigateActiveSession path replace s) slug (tab_id t) (resourceKey t)"
proof -
  have find: "find (\<lambda>u. tab_id u = activeTabId g) (tabs g) = Some t"
    using assms(2,3) by (simp add: getActiveTab_def)
  then obtain i where i: "find_index (\<lambda>u. tab_id u = activeTabId g) (tabs g) = Some i"
    using find_in_set [OF find] find_index_ex [of t "tabs g" "\<lambda>u. tab_id u = activeTabId g"] by auto
  have t: "tabs g ! i = t" using find_of_index [OF i] find by simp
  have len: "i < length (tabs g)" using find_index_Some [OF i] by simp
  have ok: "session_ok Q slug t"
    using tab_inv_active(3) [OF assms(1,2)] find_in_set [OF find] by (simp add: group_ok_def list_all_iff)
  then have clean_url: "sanitizeTabPath (tab_url t) = Some (tab_url t)" and key: "resourceKey t = resourceKeyForUrl (tab_url t)"
    using nth_mem [of "hist_index (history t)" "hist_stack (history t)"]
    by (auto simp: session_ok_def history_ok_def url_ok_def list_all_iff)
  have pathname: "resourceKeyForUrl path = resourceKeyForUrl (tab_url t)"
    using assms(5) by (simp add: resourceKeyForUrl_def)
  obtain w v ws where "path_segments (resourceKeyForUrl path) = w # v # ws" "\<not> isReservedSlug w"
    using sanitize_segments [OF clean_url] pathname by auto
  then have same: "sanitizeTabPath path = Some path"
    by (auto simp: sanitizeTabPath_def resourceKeyForUrl_def split: prod.splits)
  have here: "obj_get (byWorkspace s) slug = Some g" using active_group_Some(3) [OF assms(2)] .
  have old: "t \<in> set (tabs g)" using find_in_set [OF find] by simp
  define u where "u = t\<lparr>tab_url := path, resourceKey := resourceKeyForUrl path,
    history := push_history replace path (history t)\<rparr>"
  have u: "tab_id u = tab_id t" "resourceKey u = resourceKey t" "pinned u"
    using key pathname assms(4) by (simp_all add: u_def)
  have "navigateActiveSession path replace s = s \<or>
      navigateActiveSession path replace s = put_group slug (g\<lparr>tabs := (tabs g)[i := u]\<rparr>) s"
    by (simp add: navigateActiveSession_def assms(2) i t same u_def Let_def)
  then show ?thesis
  proof
    assume "navigateActiveSession path replace s = s"
    with here old assms(4) show ?thesis by (auto simp: pinned_at_def list_ex_iff)
  next
    assume "navigateActiveSession path replace s = put_group slug (g\<lparr>tabs := (tabs g)[i := u]\<rparr>) s"
    moreover have "u \<in> set ((tabs g)[i := u])" using len by (rule set_update_memI)
    ultimately show ?thesis
      using u by (auto simp: pinned_at_def put_group_def obj_get_set list_ex_iff)
  qed
qed

text \<open>A pinned tab never leaves its page by a push. Whatever path a page pushes while a pinned tab
  is active, the tab is still there afterwards, pinned and on the same page; only its query and
  fragment may have changed.\<close>

theorem push_keeps_pinned_page:
  assumes "tabs_reachable am (tab_state sh)" "active_group (tab_state sh) = Some (slug, g)"
    and "getActiveTab (tab_state sh) = Some t" "pinned t"
  shows "pinned_at (tab_state (nav_push decode fresh path sh)) slug (tab_id t) (resourceKey t)"
proof -
  obtain h sh0 where o0: "tryRouteToOverlay decode path sh = (h, sh0)" by fastforce
  with overlay_tabs [of decode path sh] have eq: "tab_state sh0 = tab_state sh" by simp
  obtain h1 sh1 where o1: "tryRouteToOtherWorkspace fresh path sh0 = (h1, sh1)" by fastforce
  obtain h2 sh2 where o2: "tryRouteToPinnedNewTab fresh path sh1 = (h2, sh2)" by fastforce
  have inv: "tab_inv own_url (tab_state sh)" using assms(1) by (rule own.machine.inv_reachable)
  have now: "pinned_at (tab_state sh) slug (tab_id t) (resourceKey t)"
    using assms(2-4) find_in_set [of _ "tabs g" t] active_group_Some(3) [OF assms(2)]
    by (auto simp: pinned_at_def getActiveTab_def list_ex_iff)
  have r1: "pinned_at (tab_state sh1) slug (tab_id t) (resourceKey t)" if h1
    using o1 that now eq active_group_Some(1) [OF assms(2)]
    by (auto simp: tryRouteToOtherWorkspace_def on_tabs_def split: option.splits if_splits intro!: pinned_at_switch)
  have r2: "pinned_at (tab_state sh2) slug (tab_id t) (resourceKey t)" if "\<not> h1" h2
    using pinned_new_tab(2) other_workspace_unhandled [of fresh path sh0 sh1] o1 o2 that now eq
    by (auto intro!: pinned_at_open)
  have r3: "pinned_at (navigateActiveSession path False (tab_state sh2)) slug (tab_id t) (resourceKey t)"
    if "\<not> h1" "\<not> h2"
  proof -
    have same: "sh1 = sh0" using other_workspace_unhandled o1 that(1) by simp
    with o2 that(2) have sh2: "sh2 = sh0" using pinned_new_tab(1) by simp
    have "fst (splitTabUrl (tab_url t)) = fst (splitTabUrl path)"
      using o2 that(2) same eq assms(3,4) by (auto simp: tryRouteToPinnedNewTab_def split: if_splits)
    from navigate_same_page [OF inv assms(2-4) this] show ?thesis by (simp add: sh2 eq)
  qed
  show ?thesis
    using now eq r1 r2 r3 by (simp add: nav_push_def o0 o1 o2 on_tabs_def)
qed

section \<open>Concrete calls\<close>

definition example_shell :: shell where
  "example_shell = \<lparr>tab_state = setActiveTab ''t3'' example_store, window_overlay = Some OnboardingOverlay, logouts = 0\<rparr>"

lemma example_shell_reachable: "tabs_reachable move_element (tab_state example_shell)"
  unfolding example_shell_def shell.simps by (rule reach_free(3) [OF example_reachable(1)])

lemma example_shell_active:
  "active_group (tab_state example_shell) = Some (''acme'', example_group\<lparr>activeTabId := ''t3''\<rparr>)"
  by code_simp

lemma example_shell_tab: "getActiveTab (tab_state example_shell) = Some (tabs example_group ! 0)"
  by (simp add: getActiveTab_def example_shell_active) (simp add: example_group_def example_tab_def)

lemma adapter_respects_store_witness:
  "tabs_reachable move_element
     (tab_state (nav_step (\<lambda>_. None) ''t9'' example_shell (RouteContentLink ''/beta/issues/B-1'')))"
  by (rule adapter_respects_store [OF example_shell_reachable]) code_simp+

lemma push_keeps_pinned_page_witness:
  "pinned_at (tab_state (nav_push (\<lambda>_. None) ''t9'' ''/acme/inbox'' example_shell)) ''acme'' ''t3'' ''/acme/settings''"
  using push_keeps_pinned_page [OF example_shell_reachable example_shell_active example_shell_tab,
      of "\<lambda>_. None" "''t9''" "''/acme/inbox''"]
  by (simp add: example_group_def example_tab_def resourceKeyForUrl_eq is_suffix_char_def)

text \<open>
  A path whose slug carries a query is not plain: the adapter reads \<open>acme?x=1\<close> as the slug of
  another workspace and opens a group of that name, whose tab shows a page of \<open>acme\<close>.
\<close>

lemma query_read_as_slug:
  "\<not> plain_path ''/acme?x=1''"
  "map_option (\<lambda>g. map tab_url (tabs g)) (obj_get (byWorkspace (tab_state
      (nav_push (\<lambda>_. None) ''t9'' ''/acme?x=1'' example_shell))) ''acme?x=1'') = Some [''/acme/tasks?x=1'']"
  "extractWorkspaceSlug ''/acme/tasks?x=1'' = Some ''acme''"
  by code_simp+

end
