(* ===== verification/Timeline.thy ===== *)
theory Timeline
  imports JS_Object "HOL-Library.Char_ord" "HOL-Library.List_Lexorder" "HOL-Library.Product_Lexorder"
begin

text \<open>
  The timeline of an issue: the order of its entries
  (\<open>packages/core/issues/timeline-sort.ts\<close>), the threads of its comments
  (\<open>packages/views/issues/components/thread-utils.ts\<close>) and the view the detail page builds
  (\<open>timelineView\<close>, \<open>flattenGroups\<close> and the resolve handler of \<open>issue-detail.tsx\<close>). Timestamps
  are compared as strings, and read as dates by a parameter (\<open>None\<close> is \<open>NaN\<close>). The walks over
  the parent graph take a bound on the depth of the call stack and return \<open>None\<close> beyond it; the
  reuse of unchanged arrays between renders does not show in values.
\<close>

section \<open>Entries\<close>

datatype entry_type = Activity | CommentEntry

record TimelineEntry =
  te_type :: entry_type
  te_id :: jstr
  te_actor_type :: jstr
  te_actor_id :: jstr
  te_created_at :: jstr
  te_action :: "jstr option"
  te_parent_id :: "jstr option"
  te_resolved_at :: "jstr option"
  te_coalesced_count :: "nat option"
  te_rest :: jstr

text \<open>The truth of an optional string.\<close>

definition some_text :: "jstr option \<Rightarrow> bool" where
  "some_text s = (s \<noteq> None \<and> s \<noteq> Some [])"

definition sortTimelineEntriesAsc :: "'a TimelineEntry_scheme list \<Rightarrow> 'a TimelineEntry_scheme list" where
  "sortTimelineEntriesAsc es = sort_key (\<lambda>e. (te_created_at e, te_id e)) es"

section \<open>Threads\<close>

type_synonym replies_map = "(jstr, TimelineEntry list) jsmap"

definition is_reply :: "TimelineEntry \<Rightarrow> bool" where
  "is_reply e = (te_type e = CommentEntry \<and> some_text (te_parent_id e))"

definition is_root :: "TimelineEntry \<Rightarrow> bool" where
  "is_root e = (te_type e = CommentEntry \<and> \<not> some_text (te_parent_id e))"

definition add_reply :: "replies_map \<Rightarrow> TimelineEntry \<Rightarrow> replies_map" where
  "add_reply m e =
     (if is_reply e
      then let p = the (te_parent_id e);
               l = (case map_get m p of None \<Rightarrow> [] | Some l \<Rightarrow> l)
           in map_set p (l @ [e]) m
      else m)"

definition repliesByParent :: "TimelineEntry list \<Rightarrow> replies_map" where
  "repliesByParent entries = foldl add_reply [] entries"

definition children_of :: "replies_map \<Rightarrow> jstr \<Rightarrow> TimelineEntry list" where
  "children_of m i = (case map_get m i of None \<Rightarrow> [] | Some l \<Rightarrow> l)"

fun walk :: "nat \<Rightarrow> replies_map \<Rightarrow> jstr \<Rightarrow> TimelineEntry list option" where
  "walk 0 m i = None"
| "walk (Suc n) m i =
     foldr (\<lambda>child rest.
         case walk n m (te_id child) of
           None \<Rightarrow> None
         | Some below \<Rightarrow> map_option (\<lambda>r. child # below @ r) rest)
       (children_of m i) (Some [])"

definition collectThreadReplies :: "nat \<Rightarrow> jstr \<Rightarrow> replies_map \<Rightarrow> TimelineEntry list option" where
  "collectThreadReplies n rootId m = map_option sortTimelineEntriesAsc (walk n m rootId)"

datatype ThreadResolution = NoResolution | RootResolution | ReplyResolution jstr

fun latest_resolved :: "TimelineEntry option \<Rightarrow> TimelineEntry list \<Rightarrow> TimelineEntry option" where
  "latest_resolved chosen [] = chosen"
| "latest_resolved chosen (reply # replies) =
     (if \<not> some_text (te_resolved_at reply) then latest_resolved chosen replies
      else case chosen of
             None \<Rightarrow> latest_resolved (Some reply) replies
           | Some c \<Rightarrow>
               if the (te_resolved_at c) < the (te_resolved_at reply) then latest_resolved (Some reply) replies
               else latest_resolved chosen replies)"

definition deriveThreadResolution :: "TimelineEntry \<Rightarrow> TimelineEntry list \<Rightarrow> ThreadResolution" where
  "deriveThreadResolution root replies =
     (if some_text (te_resolved_at root) then RootResolution
      else case latest_resolved None replies of
             None \<Rightarrow> NoResolution
           | Some c \<Rightarrow> ReplyResolution (te_id c))"

definition rootCommentIds :: "TimelineEntry list \<Rightarrow> jstr list" where
  "rootCommentIds entries = map te_id (filter is_root entries)"

text \<open>\<open>None\<close> when some walk exceeds the stack.\<close>

definition resolvedThreadRootIds :: "nat \<Rightarrow> TimelineEntry list \<Rightarrow> jstr list option" where
  "resolvedThreadRootIds n entries =
     (let m = repliesByParent entries;
          roots = filter is_root entries;
          threads = map (\<lambda>root. map_option (deriveThreadResolution root) (collectThreadReplies n (te_id root) m)) roots
      in if list_ex (\<lambda>t. t = None) threads then None
         else Some (map (te_id \<circ> fst) (filter (\<lambda>(root, t). t \<noteq> Some NoResolution) (zip roots threads))))"

section \<open>The view of the page\<close>

definition topLevel :: "TimelineEntry list \<Rightarrow> TimelineEntry list" where
  "topLevel timeline = filter (\<lambda>e. te_type e = Activity \<or> \<not> some_text (te_parent_id e)) timeline"

definition threadReplies :: "nat \<Rightarrow> TimelineEntry list \<Rightarrow> (jstr, TimelineEntry list option) jsmap" where
  "threadReplies n timeline =
     foldl (\<lambda>m root. map_set (te_id root) (collectThreadReplies n (te_id root) (repliesByParent timeline)) m) []
       (filter (\<lambda>e. te_type e = CommentEntry) (topLevel timeline))"

definition COALESCE_MS :: int where
  "COALESCE_MS = 2 * 60 * 1000"

definition NO_TIME_LIMIT_ACTIONS :: "jstr option list" where
  "NO_TIME_LIMIT_ACTIONS = [Some ''task_completed'', Some ''task_failed'']"

definition NEVER_COALESCE_ACTIONS :: "jstr option list" where
  "NEVER_COALESCE_ACTIONS = [Some ''squad_leader_evaluated'']"

definition within_window :: "(jstr \<Rightarrow> int option) \<Rightarrow> TimelineEntry \<Rightarrow> TimelineEntry \<Rightarrow> bool" where
  "within_window date e prev =
     (case (date (te_created_at e), date (te_created_at prev)) of
        (Some a, Some b) \<Rightarrow> \<bar>a - b\<bar> \<le> COALESCE_MS
      | _ \<Rightarrow> False)"

definition coalesces :: "(jstr \<Rightarrow> int option) \<Rightarrow> TimelineEntry \<Rightarrow> TimelineEntry \<Rightarrow> bool" where
  "coalesces date prev e =
     (te_action e \<notin> set NEVER_COALESCE_ACTIONS \<and> te_type prev = Activity \<and> te_action prev = te_action e
      \<and> te_actor_type prev = te_actor_type e \<and> te_actor_id prev = te_actor_id e
      \<and> (te_action e \<in> set NO_TIME_LIMIT_ACTIONS \<or> within_window date e prev))"

definition entry_count :: "TimelineEntry \<Rightarrow> nat" where
  "entry_count e = (case te_coalesced_count e of None \<Rightarrow> 1 | Some n \<Rightarrow> n)"

definition coalesce_step :: "(jstr \<Rightarrow> int option) \<Rightarrow> TimelineEntry list \<Rightarrow> TimelineEntry \<Rightarrow> TimelineEntry list" where
  "coalesce_step date coalesced e =
     (if te_type e = Activity \<and> coalesced \<noteq> [] \<and> coalesces date (last coalesced) e
      then butlast coalesced @ [e\<lparr>te_coalesced_count := Some (entry_count (last coalesced) + 1)\<rparr>]
      else coalesced @ [e])"

definition coalesced_entries :: "(jstr \<Rightarrow> int option) \<Rightarrow> TimelineEntry list \<Rightarrow> TimelineEntry list" where
  "coalesced_entries date es = foldl (coalesce_step date) [] es"

datatype group_type = ActivitiesGroup | CommentGroup

type_synonym timeline_group = "group_type \<times> TimelineEntry list"

definition group_step :: "timeline_group list \<Rightarrow> TimelineEntry \<Rightarrow> timeline_group list" where
  "group_step groups e =
     (if te_type e = Activity
      then if groups \<noteq> [] \<and> fst (last groups) = ActivitiesGroup
           then butlast groups @ [(ActivitiesGroup, snd (last groups) @ [e])]
           else groups @ [(ActivitiesGroup, [e])]
      else groups @ [(CommentGroup, [e])])"

definition timeline_groups :: "(jstr \<Rightarrow> int option) \<Rightarrow> TimelineEntry list \<Rightarrow> timeline_group list" where
  "timeline_groups date timeline = foldl group_step [] (coalesced_entries date (topLevel timeline))"

datatype TimelineItem =
    CommentItem jstr TimelineEntry | ResolvedBar jstr TimelineEntry | ActivityGroup jstr "TimelineEntry list"

definition flatten_group :: "jstr set \<Rightarrow> timeline_group \<Rightarrow> TimelineItem" where
  "flatten_group expandedResolved g =
     (let e = hd (snd g) in
      if fst g = CommentGroup
      then (if some_text (te_resolved_at e) \<and> te_id e \<notin> expandedResolved then ResolvedBar (te_id e) e
            else CommentItem (te_id e) e)
      else ActivityGroup (te_id e) (snd g))"

definition flattenGroups :: "timeline_group list \<Rightarrow> jstr set \<Rightarrow> TimelineItem list" where
  "flattenGroups groups expandedResolved = map (flatten_group expandedResolved) groups"

definition lastActivityGroupId :: "timeline_group list \<Rightarrow> jstr option" where
  "lastActivityGroupId groups =
     map_option (\<lambda>g. te_id (hd (snd g))) (find (\<lambda>g. fst g = ActivitiesGroup) (rev groups))"

text \<open>
  The root a resolve handler clears: a walk up \<open>parent_id\<close> while the parent is in the timeline,
  at most \<open>n\<close> steps.
\<close>

definition by_id :: "TimelineEntry list \<Rightarrow> (jstr, TimelineEntry) jsmap" where
  "by_id timeline = foldl (\<lambda>m e. map_set (te_id e) e m) [] timeline"

definition parent_in :: "(jstr, TimelineEntry) jsmap \<Rightarrow> TimelineEntry \<Rightarrow> TimelineEntry option" where
  "parent_in m e = (if some_text (te_parent_id e) then map_get m (the (te_parent_id e)) else None)"

fun climb :: "nat \<Rightarrow> (jstr, TimelineEntry) jsmap \<Rightarrow> TimelineEntry \<Rightarrow> TimelineEntry option" where
  "climb n m e =
     (case parent_in m e of
        None \<Rightarrow> Some e
      | Some p \<Rightarrow> (case n of 0 \<Rightarrow> None | Suc k \<Rightarrow> climb k m p))"

declare climb.simps [simp del]

definition resolve_root :: "nat \<Rightarrow> TimelineEntry list \<Rightarrow> jstr \<Rightarrow> jstr option" where
  "resolve_root n timeline commentId =
     (let m = by_id timeline in
      case map_get m commentId of
        None \<Rightarrow> Some commentId
      | Some e \<Rightarrow> map_option te_id (climb n m e))"

section \<open>The parent graph\<close>

lemma children_of_replies:
  "children_of (repliesByParent es) i = filter (\<lambda>e. is_reply e \<and> te_parent_id e = Some i) es"
proof -
  have "map_get (repliesByParent es) i =
      (let l = filter (\<lambda>e. is_reply e \<and> te_parent_id e = Some i) es in if l = [] then None else Some l)"
    by (induction es rule: rev_induct)
      (auto simp: repliesByParent_def add_reply_def Let_def map_get_set is_reply_def some_text_def
        split: option.split if_splits)
  then show ?thesis by (simp add: children_of_def Let_def)
qed

text \<open>A path down from an identifier.\<close>

fun chain :: "TimelineEntry list \<Rightarrow> jstr \<Rightarrow> TimelineEntry list \<Rightarrow> bool" where
  "chain es i [] = True"
| "chain es i (c # cs) = (c \<in> set es \<and> is_reply c \<and> te_parent_id c = Some i \<and> chain es (te_id c) cs)"

lemma path_append:
  "chain es i (cs @ ds) = (chain es i cs \<and> chain es (if cs = [] then i else te_id (last cs)) ds)"
  by (induction cs arbitrary: i) auto

lemma chain_members: "chain es i cs \<Longrightarrow> set cs \<subseteq> set es \<and> (\<forall>c \<in> set cs. is_reply c)"
  by (induction cs arbitrary: i) auto

lemma chain_snoc: "chain es i (cs @ [c]) \<Longrightarrow> te_parent_id c = Some (if cs = [] then i else te_id (last cs))"
  by (simp add: path_append)

lemma same_entry:
  "distinct (map te_id es) \<Longrightarrow> a \<in> set es \<Longrightarrow> b \<in> set es \<Longrightarrow> te_id a = te_id b \<Longrightarrow> a = b"
  by (simp add: distinct_map inj_on_def)

text \<open>Two paths from roots to the same entry are the same.\<close>

lemma chain_unique:
  assumes ids: "distinct (map te_id es)"
  shows "r \<in> set es \<Longrightarrow> r' \<in> set es \<Longrightarrow> is_root r \<Longrightarrow> is_root r' \<Longrightarrow>
    chain es (te_id r) cs \<Longrightarrow> chain es (te_id r') cs' \<Longrightarrow> last (r # cs) = last (r' # cs') \<Longrightarrow> r # cs = r' # cs'"
proof (induction cs arbitrary: cs' rule: rev_induct)
  case Nil
  show ?case
  proof (cases cs' rule: rev_cases)
    case (snoc ds d)
    with Nil have "r = d" "is_reply d" using chain_members [of es "te_id r'" cs'] by auto
    with Nil show ?thesis by (simp add: is_root_def is_reply_def)
  qed (use Nil in simp)
next
  case (snoc c cs)
  show ?case
  proof (cases cs' rule: rev_cases)
    case Nil
    with snoc have "r' = c" "is_reply c" using chain_members [of es "te_id r" "cs @ [c]"] by auto
    with snoc show ?thesis by (simp add: is_root_def is_reply_def)
  next
    case ds: (snoc ds d)
    with snoc have cd: "c = d" by simp
    have "te_id (last (r # cs)) = te_id (last (r' # ds))"
      using chain_snoc [of es "te_id r" cs c] chain_snoc [of es "te_id r'" ds d] snoc.prems(5,6) ds cd
      by (simp split: if_splits)
    moreover have "last (r # cs) \<in> set es" "last (r' # ds) \<in> set es"
      using chain_members [of es "te_id r" "cs @ [c]"] chain_members [of es "te_id r'" cs'] snoc.prems ds
      by (auto simp: last_in_set subset_iff)
    ultimately have "last (r # cs) = last (r' # ds)" by (rule same_entry [OF ids, rotated -1])
    moreover have "chain es (te_id r) cs" "chain es (te_id r') ds"
      using snoc.prems(5,6) ds by (simp_all add: path_append)
    ultimately have "r # cs = r' # ds" using snoc.IH snoc.prems(1-4) by blast
    with ds cd show ?thesis by simp
  qed
qed

text \<open>So a path never meets an entry twice, and is shorter than the timeline.\<close>

lemma chain_distinct:
  assumes ids: "distinct (map te_id es)" and r: "r \<in> set es" "is_root r"
  shows "chain es (te_id r) cs \<Longrightarrow> distinct (r # cs)"
proof (induction cs rule: rev_induct)
  case (snoc c cs)
  then have IH: "distinct (r # cs)" and ch: "chain es (te_id r) cs" by (auto simp: path_append)
  have "c \<notin> set (r # cs)"
  proof
    assume "c \<in> set (r # cs)"
    then obtain us vs where split: "r # cs = us @ c # vs" by (meson split_list)
    have shorter: "\<exists>ds. us @ [c] = r # ds \<and> chain es (te_id r) ds"
    proof (cases us)
      case Nil
      with split show ?thesis by simp
    next
      case (Cons u us')
      with split have "cs = (us' @ [c]) @ vs" "u = r" by auto
      with Cons ch show ?thesis by (metis append_Cons path_append)
    qed
    then obtain ds where ds: "us @ [c] = r # ds" "chain es (te_id r) ds" by blast
    then have "last (r # ds) = last (r # (cs @ [c]))" by (metis last_ConsR last_snoc snoc_eq_iff_butlast)
    with chain_unique [OF ids r(1) r(1) r(2) r(2) ds(2) snoc.prems] have "r # ds = r # cs @ [c]" by blast
    with ds(1) split have "length (us @ [c]) = length (us @ c # vs) + 1" by simp
    then show False by simp
  qed
  with IH show ?case by auto
qed simp

lemma chain_short:
  assumes "distinct (map te_id es)" "r \<in> set es" "is_root r" "chain es (te_id r) cs"
  shows "length cs < length es"
proof -
  have "distinct (r # cs)" "set (r # cs) \<subseteq> set es"
    using chain_distinct [OF assms] chain_members [OF assms(4)] assms(2) by auto
  then have "length (r # cs) \<le> card (set es)" by (metis card_mono distinct_card finite_set)
  also have "\<dots> \<le> length es" by (rule card_length)
  finally show ?thesis by simp
qed

text \<open>
  The threads of a timeline: the walks end on every timeline with distinct identifiers, cyclic
  ones included, and the threads hold every comment exactly once.
\<close>

section \<open>The walk as an enumeration of paths\<close>

definition kids :: "TimelineEntry list \<Rightarrow> jstr \<Rightarrow> TimelineEntry list" where
  "kids es i = filter (\<lambda>e. is_reply e \<and> te_parent_id e = Some i) es"

fun paths :: "nat \<Rightarrow> TimelineEntry list \<Rightarrow> jstr \<Rightarrow> TimelineEntry list list" where
  "paths 0 es i = []"
| "paths (Suc n) es i = concat (map (\<lambda>c. [c] # map ((#) c) (paths n es (te_id c))) (kids es i))"

lemma walk_Suc:
  "walk (Suc n) (repliesByParent es) i =
     (if \<exists>c \<in> set (kids es i). walk n (repliesByParent es) (te_id c) = None then None
      else Some (concat (map (\<lambda>c. c # the (walk n (repliesByParent es) (te_id c))) (kids es i))))"
proof -
  have "foldr (\<lambda>c rest. case f c of None \<Rightarrow> None | Some b \<Rightarrow> map_option (\<lambda>r. c # b @ r) rest) cs (Some [])
      = (if \<exists>c \<in> set cs. f c = None then None else Some (concat (map (\<lambda>c. c # the (f c)) cs)))"
    for f :: "TimelineEntry \<Rightarrow> TimelineEntry list option" and cs
    by (induction cs) (auto split: option.split)
  note step = this
  show ?thesis unfolding walk.simps children_of_replies kids_def [symmetric] step ..
qed

declare walk.simps [simp del]

lemma walk_zero: "walk 0 m i = None"
  by (simp add: walk.simps)

lemma walk_None: "walk n (repliesByParent es) i = None \<Longrightarrow> \<exists>cs. length cs = n \<and> chain es i cs"
proof (induction n arbitrary: i)
  case (Suc n)
  then obtain c where c: "c \<in> set (kids es i)" "walk n (repliesByParent es) (te_id c) = None"
    by (auto simp: walk_Suc split: if_splits)
  from Suc.IH [OF c(2)] obtain cs where "length cs = n" "chain es (te_id c) cs" by blast
  with c(1) show ?case by (intro exI [of _ "c # cs"]) (simp add: kids_def)
qed simp

lemma paths_ne: "p \<in> set (paths n es i) \<Longrightarrow> p \<noteq> []"
  by (cases n) auto

lemma walk_paths: "walk n (repliesByParent es) i = Some xs \<Longrightarrow> xs = map last (paths n es i)"
proof (induction n arbitrary: i xs)
  case 0
  then show ?case by (simp add: walk_zero)
next
  case (Suc n)
  let ?sub = "\<lambda>c. the (walk n (repliesByParent es) (te_id c))"
  have "xs = concat (map (\<lambda>c. c # ?sub c) (kids es i))"
    and all: "\<forall>c \<in> set (kids es i). walk n (repliesByParent es) (te_id c) \<noteq> None"
    using Suc.prems by (auto simp: walk_Suc split: if_splits)
  moreover have "c # ?sub c = map last ([c] # map ((#) c) (paths n es (te_id c)))" if "c \<in> set (kids es i)" for c
  proof -
    from all that obtain ys where ys: "walk n (repliesByParent es) (te_id c) = Some ys" by blast
    have "map last (map ((#) c) (paths n es (te_id c))) = map last (paths n es (te_id c))"
      using paths_ne by (auto simp: last_ConsR)
    with ys Suc.IH [OF ys] show ?thesis by simp
  qed
  then have "map (\<lambda>c. c # ?sub c) (kids es i)
      = map (\<lambda>c. map last ([c] # map ((#) c) (paths n es (te_id c)))) (kids es i)"
    by (rule map_cong [OF refl])
  ultimately show ?case by (simp add: map_concat comp_def)
qed

lemma paths_chain: "p \<in> set (paths n es i) \<longleftrightarrow> p \<noteq> [] \<and> length p \<le> n \<and> chain es i p"
proof (induction n arbitrary: i p)
  case (Suc n)
  have k: "c \<in> set (kids es i) \<longleftrightarrow> c \<in> set es \<and> is_reply c \<and> te_parent_id c = Some i" for c
    by (auto simp: kids_def)
  show ?case
  proof (cases p)
    case (Cons c cs)
    have "p \<in> set (paths (Suc n) es i) \<longleftrightarrow> c \<in> set (kids es i) \<and> (cs = [] \<or> cs \<in> set (paths n es (te_id c)))"
      by (auto simp: Cons)
    then show ?thesis unfolding k Suc.IH by (auto simp: Cons)
  qed (use paths_ne in blast)
qed auto

lemma paths_distinct: "distinct es \<Longrightarrow> distinct (paths n es i)"
proof (induction n arbitrary: i)
  case (Suc n)
  have "distinct (concat (map (\<lambda>c. [c] # map ((#) c) (paths n es (te_id c))) ks))" if "distinct ks" for ks
    using that
  proof (induction ks)
    case (Cons k ks)
    have "distinct ([k] # map ((#) k) (paths n es (te_id k)))"
      using Suc.IH [OF Suc.prems] paths_ne [of "[]"] by (auto simp: distinct_map inj_on_def)
    moreover have "set ([k] # map ((#) k) (paths n es (te_id k)))
        \<inter> set (concat (map (\<lambda>c. [c] # map ((#) c) (paths n es (te_id c))) ks)) = {}"
      using Cons.prems by auto
    ultimately show ?case using Cons by simp
  qed simp
  then show ?case using Suc.prems by (simp add: kids_def)
qed simp

section \<open>Termination\<close>

lemma walk_ends:
  assumes "distinct (map te_id es)" "r \<in> set es" "is_root r"
  shows "walk (length es) (repliesByParent es) (te_id r) \<noteq> None"
proof
  assume "walk (length es) (repliesByParent es) (te_id r) = None"
  from walk_None [OF this] obtain cs where "length cs = length es" "chain es (te_id r) cs" by blast
  with chain_short [OF assms] show False by fastforce
qed

section \<open>Every comment once\<close>

text \<open>The paths of all roots together, each entry named by the root and the path.\<close>

definition thread_of :: "TimelineEntry list \<Rightarrow> TimelineEntry \<Rightarrow> TimelineEntry list" where
  "thread_of es r = r # map last (paths (length es) es (te_id r))"

lemma thread_member:
  assumes "distinct (map te_id es)" "r \<in> set es" "is_root r"
  shows "x \<in> set (thread_of es r) \<longleftrightarrow> (\<exists>cs. chain es (te_id r) cs \<and> x = last (r # cs))"
proof
  assume "x \<in> set (thread_of es r)"
  then consider "x = r" | p where "p \<in> set (paths (length es) es (te_id r))" "x = last p"
    by (auto simp: thread_of_def)
  then show "\<exists>cs. chain es (te_id r) cs \<and> x = last (r # cs)"
  proof cases
    case 1
    then show ?thesis by (intro exI [of _ "[]"]) simp
  next
    case (2 p)
    then show ?thesis unfolding paths_chain by (intro exI [of _ p]) simp
  qed
next
  assume "\<exists>cs. chain es (te_id r) cs \<and> x = last (r # cs)"
  then obtain cs where cs: "chain es (te_id r) cs" "x = last (r # cs)" by blast
  show "x \<in> set (thread_of es r)"
  proof (cases "cs = []")
    case False
    with cs chain_short [OF assms cs(1)] have "cs \<in> set (paths (length es) es (te_id r))" by (simp add: paths_chain)
    with False cs(2) show ?thesis by (auto simp: thread_of_def)
  qed (use cs in \<open>simp add: thread_of_def\<close>)
qed

lemma thread_distinct:
  assumes ids: "distinct (map te_id es)" and r: "r \<in> set es" "is_root r"
  shows "distinct (thread_of es r)"
proof -
  let ?ps = "paths (length es) es (te_id r)"
  have eq: "p = q" if "p \<in> set ?ps" "q \<in> set ?ps" "last p = last q" for p q
  proof -
    have "last (r # p) = last (r # q)" "chain es (te_id r) p" "chain es (te_id r) q"
      using that by (auto simp: paths_chain)
    with chain_unique [OF ids r(1) r(1) r(2) r(2)] show ?thesis by blast
  qed
  have "distinct es" using ids by (simp add: distinct_map)
  then have "distinct (map last ?ps)"
    using eq by (auto simp: distinct_map inj_on_def paths_distinct)
  moreover have "r \<noteq> last p" if "p \<in> set ?ps" for p
  proof -
    have "last p \<in> set p" "\<forall>c \<in> set p. is_reply c"
      using that chain_members [of es "te_id r" p] by (auto simp: paths_chain)
    with r(2) show ?thesis by (auto simp: is_root_def is_reply_def)
  qed
  ultimately show ?thesis by (auto simp: thread_of_def)
qed

lemma threads_disjoint:
  assumes ids: "distinct (map te_id es)" and "r \<in> set es" "is_root r" "r' \<in> set es" "is_root r'" "r \<noteq> r'"
  shows "set (thread_of es r) \<inter> set (thread_of es r') = {}"
proof (rule ccontr)
  assume "set (thread_of es r) \<inter> set (thread_of es r') \<noteq> {}"
  then obtain cs cs' where "chain es (te_id r) cs" "chain es (te_id r') cs'" "last (r # cs) = last (r' # cs')"
    using assms by (auto simp: thread_member)
  from chain_unique [OF ids assms(2,4,3,5) this] assms(6) show False by simp
qed

text \<open>
  A timeline fetched in full: the parent of every reply is a comment of the timeline, and the
  parent graph has a rank (the creation order, for instance).
\<close>

definition rooted :: "TimelineEntry list \<Rightarrow> (TimelineEntry \<Rightarrow> nat) \<Rightarrow> bool" where
  "rooted es rank =
     (\<forall>e \<in> set es. is_reply e \<longrightarrow>
        (\<exists>p \<in> set es. te_type p = CommentEntry \<and> te_parent_id e = Some (te_id p) \<and> rank p < rank e))"

lemma comment_cases: "te_type e = CommentEntry \<longleftrightarrow> is_root e \<or> is_reply e"
  by (auto simp: is_root_def is_reply_def)

lemma rooted_chain:
  assumes "rooted es rank" "e \<in> set es" "te_type e = CommentEntry"
  shows "\<exists>r cs. r \<in> set es \<and> is_root r \<and> chain es (te_id r) cs \<and> e = last (r # cs)"
  using assms(2,3)
proof (induction e rule: measure_induct_rule [of rank])
  case (less e)
  show ?case
  proof (cases "is_reply e")
    case True
    with assms(1) less.prems obtain p where p: "p \<in> set es" "te_type p = CommentEntry"
      "te_parent_id e = Some (te_id p)" "rank p < rank e" by (auto simp: rooted_def)
    from less.IH [OF p(4,1,2)] obtain r cs where r: "r \<in> set es" "is_root r" "chain es (te_id r) cs" "p = last (r # cs)"
      by blast
    have "chain es (te_id r) (cs @ [e])"
      using r(3,4) p(3) less.prems(1) True by (simp add: path_append)
    with r(1,2) show ?thesis by (intro exI [of _ r] exI [of _ "cs @ [e]"]) simp
  next
    case False
    with less.prems have "is_root e" by (simp add: comment_cases)
    with less.prems show ?thesis by (intro exI [of _ e] exI [of _ "[]"]) simp
  qed
qed

lemma threads_cover:
  assumes ids: "distinct (map te_id es)" and ro: "rooted es rank"
  shows "mset (concat (map (thread_of es) (filter is_root es))) = mset (filter (\<lambda>e. te_type e = CommentEntry) es)"
proof -
  have ds: "distinct es" using ids by (simp add: distinct_map)
  let ?roots = "filter is_root es"
  have "distinct (concat (map (thread_of es) rs))" if "set rs \<subseteq> set ?roots" "distinct rs" for rs
    using that
  proof (induction rs)
    case (Cons r rs)
    have "set (thread_of es r) \<inter> set (thread_of es r') = {}" if "r' \<in> set rs" for r'
      using threads_disjoint [OF ids] Cons.prems that by auto
    with Cons thread_distinct [OF ids] show ?case by auto
  qed simp
  with ds have dist: "distinct (concat (map (thread_of es) ?roots))" by simp
  have "set (concat (map (thread_of es) ?roots)) = {e \<in> set es. te_type e = CommentEntry}"
  proof (intro set_eqI iffI)
    fix x assume "x \<in> set (concat (map (thread_of es) ?roots))"
    then obtain r cs where r: "r \<in> set es" "is_root r" "chain es (te_id r) cs" "x = last (r # cs)"
      using thread_member [OF ids] by auto
    from chain_members [OF r(3)] r show "x \<in> {e \<in> set es. te_type e = CommentEntry}"
      by (cases "cs = []") (auto simp: comment_cases subset_iff last_in_set)
  next
    fix x assume "x \<in> {e \<in> set es. te_type e = CommentEntry}"
    with rooted_chain [OF ro] obtain r cs where "r \<in> set es" "is_root r" "chain es (te_id r) cs" "x = last (r # cs)"
      by blast
    with thread_member [OF ids, of r x] show "x \<in> set (concat (map (thread_of es) ?roots))" by auto
  qed
  then have "set (concat (map (thread_of es) ?roots)) = set (filter (\<lambda>e. te_type e = CommentEntry) es)" by auto
  with dist ds show ?thesis by (intro set_eq_iff_mset_eq_distinct [THEN iffD1]) simp_all
qed

lemma collect_thread:
  assumes "distinct (map te_id es)" "r \<in> set es" "is_root r"
  shows "collectThreadReplies (length es) (te_id r) (repliesByParent es)
    = Some (sortTimelineEntriesAsc (tl (thread_of es r)))"
proof -
  obtain xs where xs: "walk (length es) (repliesByParent es) (te_id r) = Some xs"
    using walk_ends [OF assms] by blast
  with walk_paths [OF xs] show ?thesis by (simp add: collectThreadReplies_def thread_of_def)
qed

end
