(* ===== verification/Timeline_Properties.thy ===== *)
theory Timeline_Properties
  imports Timeline
begin

text \<open>
  The guarantees of the timeline: its walks end, its threads partition the comments, the resolve
  handler finds the thread, and coalescing loses nothing.
\<close>

section \<open>The resolve handler\<close>

lemma by_id_get: "map_get (by_id es) i = find (\<lambda>e. te_id e = i) (rev es)"
  by (induction es rule: rev_induct) (auto simp: by_id_def map_get_set)

lemma by_id_member: "distinct (map te_id es) \<Longrightarrow> e \<in> set es \<Longrightarrow> map_get (by_id es) (te_id e) = Some e"
proof -
  assume ids: "distinct (map te_id es)" and e: "e \<in> set es"
  then obtain x where x: "find (\<lambda>d. te_id d = te_id e) (rev es) = Some x"
    by (cases "find (\<lambda>d. te_id d = te_id e) (rev es)") (auto simp: find_None_iff)
  with find_in_set [OF x] same_entry [OF ids _ e] show ?thesis by (simp add: by_id_get)
qed

lemma root_no_parent: "is_root e \<Longrightarrow> parent_in m e = None"
  by (auto simp: parent_in_def is_root_def)

lemma climb_chain:
  assumes ids: "distinct (map te_id es)" and r: "r \<in> set es" "is_root r"
  shows "chain es (te_id r) cs \<Longrightarrow> length cs \<le> n \<Longrightarrow> climb n (by_id es) (last (r # cs)) = Some r"
proof (induction cs arbitrary: n rule: rev_induct)
  case Nil
  then show ?case using root_no_parent [OF r(2)] by (simp add: climb.simps [of n])
next
  case (snoc c cs)
  let ?p = "last (r # cs)"
  have "?p \<in> set es" using chain_members [of es "te_id r" cs] snoc.prems r(1) by (auto simp: path_append subset_iff last_in_set)
  moreover have "te_parent_id c = Some (te_id ?p)"
    using chain_snoc [OF snoc.prems(1)] by (simp split: if_splits)
  moreover have "is_reply c" using snoc.prems by (simp add: path_append)
  ultimately have "parent_in (by_id es) c = Some ?p"
    using by_id_member [OF ids] by (simp add: parent_in_def is_reply_def)
  moreover from snoc.prems(2) obtain k where k: "n = Suc k" "length cs \<le> k" by (cases n) auto
  moreover have "chain es (te_id r) cs" using snoc.prems(1) by (simp add: path_append)
  then have "climb k (by_id es) ?p = Some r" using snoc.IH [OF _ k(2)] by blast
  ultimately show ?case by (simp add: climb.simps [of "Suc k"])
qed

text \<open>On a cycle of parents the loop has no bound: it exceeds every stack.\<close>

lemma climb_cycle:
  assumes "parent_in m a = Some b" "parent_in m b = Some a"
  shows "climb n m a = None \<and> climb n m b = None"
proof (induction n)
  case 0
  then show ?case using assms by (simp add: climb.simps [of 0])
next
  case (Suc n)
  then show ?case using assms by (simp add: climb.simps [of "Suc n"])
qed

section \<open>Coalescing\<close>

lemma coalesced_snoc: "coalesced_entries date (es @ [e]) = coalesce_step date (coalesced_entries date es) e"
  by (simp add: coalesced_entries_def)

definition activities :: "TimelineEntry list \<Rightarrow> TimelineEntry list" where
  "activities es = filter (\<lambda>e. te_type e = Activity) es"

definition comments :: "TimelineEntry list \<Rightarrow> TimelineEntry list" where
  "comments es = filter (\<lambda>e. te_type e = CommentEntry) es"

lemma entry_count_set [simp]: "entry_count (e\<lparr>te_coalesced_count := Some n\<rparr>) = n"
  by (simp add: entry_count_def)

lemma split_last: "xs \<noteq> [] \<Longrightarrow> \<exists>ys y. xs = ys @ [y]"
  by (cases xs rule: rev_cases) auto

lemma coalesced_conserved:
  "\<forall>e \<in> set es. te_coalesced_count e = None \<Longrightarrow>
   sum_list (map entry_count (activities (coalesced_entries date es))) = length (activities es)
   \<and> comments (coalesced_entries date es) = comments es"
proof (induction es rule: rev_induct)
  case Nil
  then show ?case by (simp add: coalesced_entries_def activities_def comments_def)
next
  case (snoc e es)
  let ?c = "coalesced_entries date es"
  from snoc have IH: "sum_list (map entry_count (activities ?c)) = length (activities es)" "comments ?c = comments es"
    by auto
  have one: "entry_count e = 1" using snoc.prems by (simp add: entry_count_def)
  show ?case
  proof (cases "te_type e = Activity \<and> ?c \<noteq> [] \<and> coalesces date (last ?c) e")
    case True
    then obtain ys y where y: "?c = ys @ [y]" using split_last by blast
    with True have "te_type y = Activity" by (simp add: coalesces_def)
    with True IH y show ?thesis
      by (simp add: coalesced_snoc coalesce_step_def activities_def comments_def)
  next
    case False
    then have "coalesced_entries date (es @ [e]) = ?c @ [e]" by (auto simp: coalesced_snoc coalesce_step_def)
    with IH one show ?thesis by (auto simp: activities_def comments_def)
  qed
qed

lemma top_level_parts: "activities (topLevel es) = activities es" "comments (topLevel es) = filter is_root es"
proof -
  show "activities (topLevel es) = activities es" by (induction es) (auto simp: topLevel_def activities_def)
  have "te_type e = CommentEntry \<and> (te_type e = Activity \<or> \<not> some_text (te_parent_id e)) \<longleftrightarrow> is_root e" for e
    by (auto simp: is_root_def)
  then show "comments (topLevel es) = filter is_root es" by (simp add: comments_def topLevel_def conj_commute)
qed

text \<open>What the groups keep of the entries, and that activity blocks are maximal.\<close>

definition groups_of :: "group_type \<Rightarrow> timeline_group list \<Rightarrow> TimelineEntry list" where
  "groups_of t gs = concat (map snd (filter (\<lambda>g. fst g = t) gs))"

fun maximal_blocks :: "timeline_group list \<Rightarrow> bool" where
  "maximal_blocks (g # h # gs) = (\<not> (fst g = ActivitiesGroup \<and> fst h = ActivitiesGroup) \<and> maximal_blocks (h # gs))"
| "maximal_blocks gs = True"

lemma maximal_snoc:
  "maximal_blocks (gs @ [g]) = (maximal_blocks gs \<and> (gs = [] \<or> \<not> (fst (last gs) = ActivitiesGroup \<and> fst g = ActivitiesGroup)))"
  by (induction gs rule: maximal_blocks.induct) auto

lemma groups_inv:
  "let gs = foldl group_step [] es in
   groups_of ActivitiesGroup gs = activities es \<and> groups_of CommentGroup gs = comments es \<and> maximal_blocks gs"
proof (induction es rule: rev_induct)
  case Nil
  then show ?case by (simp add: groups_of_def activities_def comments_def)
next
  case (snoc e es)
  define gs where "gs = foldl group_step [] es"
  have step: "foldl group_step [] (es @ [e]) = group_step gs e" by (simp add: gs_def)
  have IH: "groups_of ActivitiesGroup gs = activities es" "groups_of CommentGroup gs = comments es" "maximal_blocks gs"
    using snoc by (simp_all add: gs_def Let_def)
  show ?case
  proof (cases "te_type e = Activity \<and> gs \<noteq> [] \<and> fst (last gs) = ActivitiesGroup")
    case True
    then obtain hs h where h: "gs = hs @ [h]" using split_last by blast
    with True IH show ?thesis
      unfolding step by (auto simp: Let_def group_step_def groups_of_def activities_def comments_def maximal_snoc)
  next
    case False
    then have g: "group_step gs e = gs @ [(if te_type e = Activity then ActivitiesGroup else CommentGroup, [e])]"
      by (auto simp: group_step_def)
    have "te_type e = Activity \<or> te_type e = CommentEntry" by (cases "te_type e") simp_all
    with False IH show ?thesis
      unfolding step g by (auto simp: Let_def groups_of_def activities_def comments_def maximal_snoc)
  qed
qed

lemma none_absent:
  assumes "\<And>r. r \<in> set rs \<Longrightarrow> f r \<noteq> None"
  shows "\<not> list_ex (\<lambda>t. t = None) (map f rs)"
  using assms by (induction rs) auto

section \<open>Properties\<close>

text \<open>Deriving the resolved threads ends on every timeline with distinct identifiers, even one
  whose parent identifiers form cycles, with a stack no deeper than the timeline is long.\<close>

theorem resolved_threads_terminate:
  assumes "distinct (map te_id entries)"
  shows "resolvedThreadRootIds (length entries) entries \<noteq> None"
proof -
  let ?derive = "\<lambda>r. map_option (deriveThreadResolution r)
      (collectThreadReplies (length entries) (te_id r) (repliesByParent entries))"
  have ends: "?derive r \<noteq> None" if "r \<in> set (filter is_root entries)" for r
    using that walk_ends [OF assms, of r] by (simp add: collectThreadReplies_def)
  have all: "\<not> list_ex (\<lambda>t. t = None) (map ?derive (filter is_root entries))"
    by (rule none_absent) (rule ends)
  show ?thesis unfolding resolvedThreadRootIds_def Let_def if_not_P [OF all] by simp
qed

text \<open>C24: the page shows every comment exactly once: in a timeline fetched in full, the root comments
  together with the replies of their threads are the comments of the timeline, none missing and
  none repeated.\<close>

theorem threads_partition_comments:
  assumes "distinct (map te_id entries)" "rooted entries rank"
  shows "mset (filter (\<lambda>e. te_type e = CommentEntry) entries) =
    mset (filter is_root entries) +
    mset (concat (map (\<lambda>r. the (collectThreadReplies (length entries) (te_id r) (repliesByParent entries)))
                   (filter is_root entries)))"
proof -
  have "mset (concat (map (thread_of entries) rs)) = mset rs +
      mset (concat (map (\<lambda>r. the (collectThreadReplies (length entries) (te_id r) (repliesByParent entries))) rs))"
    if "set rs \<subseteq> set (filter is_root entries)" for rs
    using that
  proof (induction rs)
    case (Cons r rs)
    then have "r \<in> set entries" "is_root r" by auto
    from collect_thread [OF assms(1) this] Cons show ?case
      by (simp add: sortTimelineEntriesAsc_def thread_of_def)
  qed simp
  from this [of "filter is_root entries"] threads_cover [OF assms] show ?thesis by simp
qed

text \<open>The resolve handler folds the right thread: climbing from any comment of a timeline fetched
  in full ends at the root under which the page shows the comment.\<close>

theorem resolve_finds_thread:
  assumes "distinct (map te_id entries)" "rooted entries rank" "e \<in> set entries" "te_type e = CommentEntry"
  shows "\<exists>r \<in> set entries. is_root r \<and> resolve_root (length entries) entries (te_id e) = Some (te_id r)
    \<and> (e = r \<or> e \<in> set (the (collectThreadReplies (length entries) (te_id r) (repliesByParent entries))))"
proof -
  obtain r cs where r: "r \<in> set entries" "is_root r" "chain entries (te_id r) cs" "e = last (r # cs)"
    using rooted_chain [OF assms(2-4)] by blast
  have "e \<in> set (thread_of entries r)" using thread_member [OF assms(1) r(1,2)] r(3,4) by blast
  then have "e = r \<or> e \<in> set (tl (thread_of entries r))" by (simp add: thread_of_def)
  moreover have "climb (length entries) (by_id entries) e = Some r"
    using climb_chain [OF assms(1) r(1,2,3)] chain_short [OF assms(1) r(1,2,3)] r(4) by simp
  then have "resolve_root (length entries) entries (te_id e) = Some (te_id r)"
    using by_id_member [OF assms(1,3)] by (simp add: resolve_root_def Let_def)
  ultimately show ?thesis
    using r(1,2) collect_thread [OF assms(1) r(1,2)] by (intro bexI [of _ r]) (auto simp: sortTimelineEntriesAsc_def)
qed

text \<open>Coalescing loses nothing: the counts shown on the coalesced activities add up to the number
  of activities of the timeline, the root comments stay in their order, and no two activity
  blocks are adjacent.\<close>

theorem coalescing_conserves:
  assumes "\<forall>e \<in> set timeline. te_coalesced_count e = None"
  shows "sum_list (map entry_count (groups_of ActivitiesGroup (timeline_groups date timeline)))
      = length (activities timeline)
    \<and> groups_of CommentGroup (timeline_groups date timeline) = filter is_root timeline
    \<and> maximal_blocks (timeline_groups date timeline)"
proof -
  have "\<forall>e \<in> set (topLevel timeline). te_coalesced_count e = None" using assms by (simp add: topLevel_def)
  from coalesced_conserved [OF this, of date] groups_inv [of "coalesced_entries date (topLevel timeline)"]
  show ?thesis by (simp add: timeline_groups_def Let_def top_level_parts)
qed

section \<open>A timeline\<close>

definition some_entry :: "entry_type \<Rightarrow> jstr \<Rightarrow> jstr option \<Rightarrow> jstr \<Rightarrow> TimelineEntry" where
  "some_entry t i p at_time =
     \<lparr>te_type = t, te_id = i, te_actor_type = ''agent'', te_actor_id = ''a'', te_created_at = at_time,
      te_action = Some ''task_completed'', te_parent_id = p, te_resolved_at = None, te_coalesced_count = None,
      te_rest = []\<rparr>"

definition some_timeline :: "TimelineEntry list" where
  "some_timeline = [some_entry CommentEntry ''c1'' None ''1'', some_entry CommentEntry ''c2'' (Some ''c1'') ''2'',
     some_entry Activity ''t1'' None ''3'', some_entry Activity ''t2'' None ''4'',
     some_entry CommentEntry ''c3'' (Some ''c2'') ''5'']"

lemma some_timeline_ok: "distinct (map te_id some_timeline)"
    "rooted some_timeline (\<lambda>e. nat_of_digits (te_created_at e))"
  by (simp add: some_timeline_def some_entry_def)
    (simp add: rooted_def some_timeline_def some_entry_def is_reply_def some_text_def nat_of_digits_def digit_val_def)

definition cyclic_timeline :: "TimelineEntry list" where
  "cyclic_timeline =
     [some_entry CommentEntry ''x'' (Some ''y'') ''1'', some_entry CommentEntry ''y'' (Some ''x'') ''2'']"

theorem resolved_threads_terminate_witness: "resolvedThreadRootIds 2 cyclic_timeline \<noteq> None"
proof -
  have "distinct (map te_id cyclic_timeline)" "length cyclic_timeline = 2"
    by (simp_all add: cyclic_timeline_def some_entry_def)
  with resolved_threads_terminate [of cyclic_timeline] show ?thesis by simp
qed

theorem threads_partition_comments_witness:
  "size (mset (filter is_root some_timeline) +
    mset (concat (map (\<lambda>r. the (collectThreadReplies (length some_timeline) (te_id r) (repliesByParent some_timeline)))
                   (filter is_root some_timeline)))) = 3"
  unfolding threads_partition_comments [OF some_timeline_ok, symmetric]
  by (simp add: some_timeline_def some_entry_def)

theorem resolve_finds_thread_witness:
  "\<exists>r \<in> set some_timeline. is_root r
     \<and> resolve_root (length some_timeline) some_timeline (te_id (some_entry CommentEntry ''c3'' (Some ''c2'') ''5'')) = Some (te_id r)"
proof -
  have "some_entry CommentEntry ''c3'' (Some ''c2'') ''5'' \<in> set some_timeline" by (simp add: some_timeline_def)
  from resolve_finds_thread [OF some_timeline_ok this] show ?thesis by (auto simp: some_entry_def)
qed

theorem coalescing_conserves_witness:
  "sum_list (map entry_count (groups_of ActivitiesGroup (timeline_groups (\<lambda>_. None) some_timeline))) = 2"
proof -
  have "\<forall>e \<in> set some_timeline. te_coalesced_count e = None" by (simp add: some_timeline_def some_entry_def)
  from coalescing_conserves [OF this] show ?thesis
    by (simp add: activities_def some_timeline_def some_entry_def)
qed

end
