(* ===== verification/Exception_Fuse.thy ===== *)
theory Exception_Fuse
  imports Flag_Hash JS_Object
begin

text \<open>
  The session fuse on exception events (\<open>packages/core/analytics/exception-dedupe.ts\<close>). The
  session storage is its blob, and every access may fail; \<open>JSON.parse\<close> and \<open>JSON.stringify\<close> are
  parameters with the round trip of the language as their law. \<open>None\<close> stands for \<open>undefined\<close>.
\<close>

section \<open>The fingerprint\<close>

definition EXCEPTION_SAMPLE_LIMIT :: int where
  "EXCEPTION_SAMPLE_LIMIT = 3"

definition MAX_FINGERPRINTS :: nat where
  "MAX_FINGERPRINTS = 50"

definition readString :: "json option \<Rightarrow> jstr option" where
  "readString v = (case v of Some (JStr s) \<Rightarrow> if s = [] then None else Some s | _ \<Rightarrow> None)"

definition readNumberAsString :: "json option \<Rightarrow> jstr option" where
  "readNumberAsString v = (case v of Some (JNum n) \<Rightarrow> Some (string_of_int n) | _ \<Rightarrow> None)"

definition or_empty :: "jstr option \<Rightarrow> jstr" where
  "or_empty s = (case s of None \<Rightarrow> [] | Some t \<Rightarrow> t)"

definition or_else :: "'a option \<Rightarrow> 'a option \<Rightarrow> 'a option" where
  "or_else a b = (case a of None \<Rightarrow> b | Some v \<Rightarrow> Some v)"

text \<open>Values that pass \<open>v && typeof v === "object"\<close>; reading a property of an array here yields
  \<open>undefined\<close>, as arrays of JSON have no such property.\<close>

definition is_object :: "json option \<Rightarrow> bool" where
  "is_object v = (case v of Some (JObj fs) \<Rightarrow> True | Some (JArr vs) \<Rightarrow> True | _ \<Rightarrow> False)"

definition field_of :: "json option \<Rightarrow> jstr \<Rightarrow> json option" where
  "field_of v name = (case v of None \<Rightarrow> None | Some w \<Rightarrow> json_field w name)"

record TopFrame =
  filename :: jstr
  fn :: jstr
  lineno :: jstr
  colno :: jstr

definition topFrame :: "json option \<Rightarrow> TopFrame option" where
  "topFrame entry =
     (case entry of
        None \<Rightarrow> None
      | Some _ \<Rightarrow>
          let stacktrace = field_of entry ''stacktrace'';
              frames = (if is_object stacktrace then field_of stacktrace ''frames'' else None)
          in case frames of
               Some (JArr fs) \<Rightarrow>
                 (if fs = [] then None
                  else
                    let f = Some (last fs) in
                    if \<not> is_object f then None
                    else Some
                      \<lparr>filename = or_empty (readString (field_of f ''filename'')),
                       fn = or_empty (readString (field_of f ''function'')),
                       lineno = or_empty (readNumberAsString (field_of f ''lineno'')),
                       colno = or_empty (readNumberAsString (field_of f ''colno''))\<rparr>)
             | _ \<Rightarrow> None)"

text \<open>djb2, and \<open>toString(36)\<close>.\<close>

definition hash_char :: "int \<Rightarrow> char \<Rightarrow> int" where
  "hash_char h c = js_xor (js_shl h 5 + h) (of_char c)"

definition digit36 :: "nat \<Rightarrow> char" where
  "digit36 d = (if d < 10 then char_of (48 + d) else char_of (87 + d))"

fun radix36 :: "nat \<Rightarrow> jstr" where
  "radix36 n = (if n < 36 then [digit36 n] else radix36 (n div 36) @ [digit36 (n mod 36)])"

declare radix36.simps [simp del]

definition fuse_hash :: "jstr \<Rightarrow> jstr" where
  "fuse_hash input = radix36 (nat (js_to_uint32 (foldl hash_char 5381 input)))"

definition buildFingerprint :: "json option \<Rightarrow> jstr option" where
  "buildFingerprint properties =
     (if \<not> is_object properties then None
      else
        let entry = (case field_of properties ''$exception_list'' of
                       Some (JArr vs) \<Rightarrow>
                         (if vs \<noteq> [] \<and> is_object (Some (hd vs)) then Some (hd vs) else None)
                     | _ \<Rightarrow> None);
            ty = or_empty (or_else (readString (field_of entry ''type''))
                                   (readString (field_of properties ''$exception_type'')));
            val = or_empty (or_else (readString (field_of entry ''value''))
                                    (readString (field_of properties ''$exception_message'')));
            frame = topFrame entry
        in if ty = [] \<and> val = [] \<and> frame = None then None
           else
             let parts = [ty, val] @
               (case frame of None \<Rightarrow> [] | Some f \<Rightarrow> [filename f, fn f, lineno f, colno f])
             in Some (fuse_hash (str_join (CHR 0x01) parts)))"

section \<open>The fuse\<close>

text \<open>
  The accesses of one call: whether the storage can be reached at all, whether reading throws and
  whether writing throws.
\<close>

record storage_mood =
  reachable_storage :: bool
  getItem_ok :: bool
  setItem_ok :: bool

type_synonym fingerprint_counts = "json jsobj"

definition readCounts :: "(jstr \<Rightarrow> json option) \<Rightarrow> jstr option \<Rightarrow> fingerprint_counts" where
  "readCounts parse raw =
     (case raw of
        None \<Rightarrow> []
      | Some s \<Rightarrow>
          if s = [] then []
          else (case parse s of Some (JObj fs) \<Rightarrow> fs | _ \<Rightarrow> []))"

definition count_of :: "fingerprint_counts \<Rightarrow> jstr \<Rightarrow> int" where
  "count_of counts fp = (case obj_get counts fp of Some (JNum n) \<Rightarrow> n | _ \<Rightarrow> 0)"

text \<open>The decision, and the blob afterwards.\<close>

definition shouldDropException ::
    "(jstr \<Rightarrow> json option) \<Rightarrow> (json \<Rightarrow> jstr) \<Rightarrow> storage_mood \<Rightarrow> json option \<Rightarrow> jstr option \<Rightarrow> bool \<times> jstr option" where
  "shouldDropException parse stringify mood properties blob =
     (case buildFingerprint properties of
        None \<Rightarrow> (False, blob)
      | Some fp \<Rightarrow>
          if \<not> reachable_storage mood then (False, blob)
          else if \<not> getItem_ok mood then (False, blob)
          else
            let counts = readCounts parse blob;
                current = count_of counts fp
            in if current \<ge> EXCEPTION_SAMPLE_LIMIT then (True, blob)
               else if current = 0 \<and> length (obj_keys counts) \<ge> MAX_FINGERPRINTS then (False, blob)
               else (False,
                     if setItem_ok mood then Some (stringify (JObj (obj_set fp (JNum (current + 1)) counts))) else blob))"

section \<open>Sessions\<close>

text \<open>An event of a session; the storage may have been cleared before it.\<close>

record fuse_event =
  fe_cleared :: bool
  fe_mood :: storage_mood
  fe_properties :: "json option"

definition fuse_step ::
    "(jstr \<Rightarrow> json option) \<Rightarrow> (json \<Rightarrow> jstr) \<Rightarrow> fuse_event \<Rightarrow> jstr option \<Rightarrow> bool \<times> jstr option" where
  "fuse_step parse stringify e blob =
     shouldDropException parse stringify (fe_mood e) (fe_properties e) (if fe_cleared e then None else blob)"

fun fuse_run :: "(jstr \<Rightarrow> json option) \<Rightarrow> (json \<Rightarrow> jstr) \<Rightarrow> jstr option \<Rightarrow> fuse_event list \<Rightarrow> bool list" where
  "fuse_run parse stringify blob [] = []"
| "fuse_run parse stringify blob (e # es) =
     (let (dropped, blob') = fuse_step parse stringify e blob in dropped # fuse_run parse stringify blob' es)"

text \<open>The abstract fuse: a counter per fingerprint that never fails.\<close>

fun ideal_run :: "(jstr \<Rightarrow> nat) \<Rightarrow> jstr option list \<Rightarrow> bool list" where
  "ideal_run seen [] = []"
| "ideal_run seen (None # fps) = False # ideal_run seen fps"
| "ideal_run seen (Some fp # fps) = (seen fp \<ge> 3) # ideal_run (seen(fp := seen fp + 1)) fps"

text \<open>The objects the fuse writes: positive counters.\<close>

definition numeric_object :: "json jsobj \<Rightarrow> bool" where
  "numeric_object fs = (obj_ok fs \<and> (\<forall>v \<in> snd ` set fs. \<exists>n \<ge> 1. v = JNum n))"

definition json_ok :: "(jstr \<Rightarrow> json option) \<Rightarrow> (json \<Rightarrow> jstr) \<Rightarrow> bool" where
  "json_ok parse stringify =
     (\<forall>fs. numeric_object fs \<longrightarrow> parse (stringify (JObj fs)) = Some (JObj fs) \<and> stringify (JObj fs) \<noteq> [])"

text \<open>The relation of the two: the blob counts no more than was seen.\<close>

definition blob_counts :: "(jstr \<Rightarrow> json option) \<Rightarrow> (json \<Rightarrow> jstr) \<Rightarrow> jstr option \<Rightarrow> fingerprint_counts \<Rightarrow> bool" where
  "blob_counts parse stringify blob counts =
     (numeric_object counts \<and> readCounts parse blob = counts)"

definition under_counts :: "(jstr \<Rightarrow> json option) \<Rightarrow> (json \<Rightarrow> jstr) \<Rightarrow> jstr option \<Rightarrow> (jstr \<Rightarrow> nat) \<Rightarrow> bool" where
  "under_counts parse stringify blob seen =
     (\<exists>counts. blob_counts parse stringify blob counts \<and> (\<forall>fp. count_of counts fp \<le> int (seen fp)))"

text \<open>
  The fuse refines a counter that never fails: it drops nothing the counter would keep, whatever
  the storage does, and with a working storage and few enough errors it decides the same.
\<close>

section \<open>One event\<close>

lemma count_set [simp]: "count_of (obj_set fp (JNum n) counts) fp' = (if fp' = fp then n else count_of counts fp')"
  by (simp add: count_of_def obj_get_set)

lemma count_nil [simp]: "count_of [] fp = 0"
  by (simp add: count_of_def)

lemma obj_set_values: "snd ` set (obj_set k v ob) \<subseteq> insert v (snd ` set ob)"
proof -
  have "snd ` set (obj_insert k v ob) \<subseteq> insert v (snd ` set ob)"
    by (induction k v ob rule: obj_insert.induct) auto
  moreover have "snd ` set (map (\<lambda>(k', v'). (k', if k' = k then v else v')) ob) \<subseteq> insert v (snd ` set ob)"
    by force
  ultimately show ?thesis by (simp add: obj_set_def)
qed

lemma blob_none: "blob_counts parse stringify None []"
  by (simp add: blob_counts_def readCounts_def numeric_object_def)

lemma blob_count_nonneg:
  assumes "blob_counts parse stringify blob counts"
  shows "0 \<le> count_of counts fp" "count_of counts fp = 0 \<longleftrightarrow> fp \<notin> set (obj_keys counts)"
proof -
  have "count_of counts fp \<ge> 1" if "fp \<in> set (obj_keys counts)"
  proof -
    from that obtain v where v: "obj_get counts fp = Some v" by (auto simp: obj_keys_get)
    then have "v \<in> snd ` set counts" using obj_get_in by force
    with assms obtain n where "v = JNum n" "1 \<le> n" by (auto simp: blob_counts_def numeric_object_def)
    with v show ?thesis by (simp add: count_of_def)
  qed
  moreover have "count_of counts fp = 0" if "fp \<notin> set (obj_keys counts)"
    using that by (simp add: obj_keys_get count_of_def)
  ultimately show "0 \<le> count_of counts fp" "count_of counts fp = 0 \<longleftrightarrow> fp \<notin> set (obj_keys counts)"
    by (cases "fp \<in> set (obj_keys counts)"; fastforce)+
qed

lemma blob_write:
  assumes "json_ok parse stringify" "blob_counts parse stringify blob counts" "1 \<le> n"
  shows "blob_counts parse stringify (Some (stringify (JObj (obj_set fp (JNum n) counts)))) (obj_set fp (JNum n) counts)"
proof -
  have "\<forall>v \<in> insert (JNum n) (snd ` set counts). \<exists>m \<ge> 1. v = JNum m"
    using assms(2,3) by (simp add: blob_counts_def numeric_object_def)
  then have "\<forall>v \<in> snd ` set (obj_set fp (JNum n) counts). \<exists>m \<ge> 1. v = JNum m"
    using subsetD [OF obj_set_values [of fp "JNum n" counts]] by metis
  moreover have "obj_ok (obj_set fp (JNum n) counts)"
    using assms(2) by (simp add: blob_counts_def numeric_object_def obj_ok_set)
  ultimately have ok: "numeric_object (obj_set fp (JNum n) counts)" by (simp add: numeric_object_def)
  with assms(1) have "readCounts parse (Some (stringify (JObj (obj_set fp (JNum n) counts)))) = obj_set fp (JNum n) counts"
    by (simp add: json_ok_def readCounts_def)
  with ok show ?thesis by (simp add: blob_counts_def)
qed

text \<open>What a call does, by cases on where it returns.\<close>

lemma fuse_cases:
  assumes "blob_counts parse stringify blob counts" "shouldDropException parse stringify mood props blob = (dropped, blob')"
  shows "(buildFingerprint props = None \<and> \<not> dropped \<and> blob' = blob)
    \<or> (\<exists>fp. buildFingerprint props = Some fp \<and> dropped \<and> count_of counts fp \<ge> 3 \<and> blob' = blob)
    \<or> (\<exists>fp. buildFingerprint props = Some fp \<and> \<not> dropped \<and> blob' = blob
        \<and> (\<not> (reachable_storage mood \<and> getItem_ok mood \<and> setItem_ok mood)
           \<or> (count_of counts fp = 0 \<and> length (obj_keys counts) \<ge> 50)))
    \<or> (\<exists>fp. buildFingerprint props = Some fp \<and> \<not> dropped \<and> count_of counts fp < 3
        \<and> blob' = Some (stringify (JObj (obj_set fp (JNum (count_of counts fp + 1)) counts))))"
proof -
  have "readCounts parse blob = counts" using assms(1) by (simp add: blob_counts_def)
  with assms(2) show ?thesis
    by (auto simp: shouldDropException_def Let_def EXCEPTION_SAMPLE_LIMIT_def MAX_FINGERPRINTS_def
        split: option.splits if_splits)
qed

text \<open>The counter after an event.\<close>

definition seen_after :: "jstr option \<Rightarrow> (jstr \<Rightarrow> nat) \<Rightarrow> jstr \<Rightarrow> nat" where
  "seen_after fp seen = (case fp of None \<Rightarrow> seen | Some f \<Rightarrow> seen(f := seen f + 1))"

lemma ideal_step:
  "ideal_run seen (fp # fps) = (case fp of None \<Rightarrow> False | Some f \<Rightarrow> seen f \<ge> 3) # ideal_run (seen_after fp seen) fps"
  by (cases fp) (simp_all add: seen_after_def)

lemma under_step:
  assumes js: "json_ok parse stringify" and under: "under_counts parse stringify blob seen"
    and step: "fuse_step parse stringify e blob = (dropped, blob')"
  shows "under_counts parse stringify blob' (seen_after (buildFingerprint (fe_properties e)) seen)
    \<and> (dropped \<longrightarrow> (\<exists>fp. buildFingerprint (fe_properties e) = Some fp \<and> 3 \<le> seen fp))"
proof -
  let ?fp = "buildFingerprint (fe_properties e)"
  define b where "b = (if fe_cleared e then None else blob)"
  obtain counts where c: "blob_counts parse stringify b counts" "\<forall>fp. count_of counts fp \<le> int (seen fp)"
    using under blob_none [of parse stringify] by (cases "fe_cleared e") (auto simp: b_def under_counts_def)
  have st: "shouldDropException parse stringify (fe_mood e) (fe_properties e) b = (dropped, blob')"
    using step by (simp add: fuse_step_def b_def)
  have grow: "int (seen fp) \<le> int (seen_after ?fp seen fp)" for fp
    by (simp add: seen_after_def split: option.split)
  have keep: "under_counts parse stringify b (seen_after ?fp seen)"
    unfolding under_counts_def using c grow by (meson order_trans)
  from fuse_cases [OF c(1) st] show ?thesis
  proof (elim disjE exE conjE)
    fix fp assume "?fp = Some fp" "3 \<le> count_of counts fp" "blob' = b"
    with keep c(2) have "int 3 \<le> int (seen fp)" by (metis of_nat_numeral order_trans)
    with keep \<open>?fp = Some fp\<close> \<open>blob' = b\<close> show ?thesis by auto
  next
    fix fp assume fp: "?fp = Some fp" "\<not> dropped"
      and b': "blob' = Some (stringify (JObj (obj_set fp (JNum (count_of counts fp + 1)) counts)))"
    have "blob_counts parse stringify blob' (obj_set fp (JNum (count_of counts fp + 1)) counts)"
      unfolding b' using blob_write [OF js c(1)] blob_count_nonneg(1) [OF c(1), of fp] by simp
    moreover have "\<forall>f. count_of (obj_set fp (JNum (count_of counts fp + 1)) counts) f \<le> int (seen_after ?fp seen f)"
      using c(2) fp(1) by (simp add: seen_after_def)
    ultimately show ?thesis using fp(2) unfolding under_counts_def by blast
  qed (use keep in simp_all)
qed

section \<open>Properties\<close>

lemma fuse_run_under:
  assumes js: "json_ok parse stringify"
  shows "under_counts parse stringify blob seen \<Longrightarrow>
    list_all2 (\<longrightarrow>) (fuse_run parse stringify blob es)
      (ideal_run seen (map (\<lambda>e. buildFingerprint (fe_properties e)) es))"
proof (induction es arbitrary: blob seen)
  case (Cons e es)
  obtain dropped blob' where step: "fuse_step parse stringify e blob = (dropped, blob')" by (metis surj_pair)
  from under_step [OF js Cons.prems step] Cons.IH show ?case
    by (auto simp: step ideal_step split: option.split)
qed simp

text \<open>C29: the fuse fails open: over any session, with the storage unreachable, throwing or cleared at
  any moment, an event is dropped only when the ideal counter drops it, that is, when at least
  three earlier events of the session had its fingerprint.\<close>

theorem fuse_refines_ideal:
  assumes "json_ok parse stringify"
  shows "list_all2 (\<longrightarrow>) (fuse_run parse stringify None es)
    (ideal_run (\<lambda>_. 0) (map (\<lambda>e. buildFingerprint (fe_properties e)) es))"
proof (rule fuse_run_under [OF assms])
  show "under_counts parse stringify None (\<lambda>_. 0)"
    unfolding under_counts_def using blob_none by (intro exI [of _ "[]"]) simp
qed

text \<open>The precise relation, for a storage that works.\<close>

definition exact_counts :: "(jstr \<Rightarrow> json option) \<Rightarrow> (json \<Rightarrow> jstr) \<Rightarrow> jstr set \<Rightarrow> jstr option \<Rightarrow> (jstr \<Rightarrow> nat) \<Rightarrow> bool" where
  "exact_counts parse stringify F blob seen =
     (\<exists>counts. blob_counts parse stringify blob counts \<and> set (obj_keys counts) \<subseteq> F
        \<and> (\<forall>fp. count_of counts fp = int (min 3 (seen fp))))"

definition working :: "fuse_event \<Rightarrow> bool" where
  "working e = (\<not> fe_cleared e \<and> reachable_storage (fe_mood e) \<and> getItem_ok (fe_mood e) \<and> setItem_ok (fe_mood e))"

lemma exact_step:
  assumes js: "json_ok parse stringify" and ex: "exact_counts parse stringify F blob seen"
    and F: "finite F" "card F \<le> 50" and w: "working e"
    and fp: "\<And>f. buildFingerprint (fe_properties e) = Some f \<Longrightarrow> f \<in> F"
    and step: "fuse_step parse stringify e blob = (dropped, blob')"
  shows "exact_counts parse stringify F blob' (seen_after (buildFingerprint (fe_properties e)) seen)
    \<and> (dropped \<longleftrightarrow> (\<exists>f. buildFingerprint (fe_properties e) = Some f \<and> 3 \<le> seen f))"
proof -
  let ?fp = "buildFingerprint (fe_properties e)"
  obtain counts where c: "blob_counts parse stringify blob counts" "set (obj_keys counts) \<subseteq> F"
    "\<forall>f. count_of counts f = int (min 3 (seen f))" using ex by (auto simp: exact_counts_def)
  have st: "shouldDropException parse stringify (fe_mood e) (fe_properties e) blob = (dropped, blob')"
    using step w by (simp add: fuse_step_def working_def)
  have room: "length (obj_keys counts) < 50" if "f \<in> F" "count_of counts f = 0" for f
  proof -
    have "f \<notin> set (obj_keys counts)" using blob_count_nonneg(2) [OF c(1)] that(2) by blast
    with that(1) c(2) F(1) have "card (set (obj_keys counts)) < card F" by (metis psubset_card_mono psubsetI)
    moreover have "distinct (obj_keys counts)" using c(1) by (simp add: blob_counts_def numeric_object_def obj_ok_def)
    ultimately show ?thesis using F(2) by (simp add: distinct_card)
  qed
  from fuse_cases [OF c(1) st] show ?thesis
  proof (elim disjE exE conjE)
    fix f assume "?fp = Some f" "dropped" "3 \<le> count_of counts f" "blob' = blob"
    moreover from this c(3) have "3 \<le> seen f" by (auto simp: min_def split: if_splits)
    ultimately show ?thesis using c by (auto simp: exact_counts_def seen_after_def intro!: exI [of _ counts])
  next
    fix f assume "?fp = Some f" "\<not> dropped" "count_of counts f < 3"
      and b': "blob' = Some (stringify (JObj (obj_set f (JNum (count_of counts f + 1)) counts)))"
    then have few: "seen f < 3" using c(3) by (auto simp: min_def split: if_splits)
    have "blob_counts parse stringify blob' (obj_set f (JNum (count_of counts f + 1)) counts)"
      unfolding b' using blob_write [OF js c(1)] blob_count_nonneg(1) [OF c(1), of f] by simp
    moreover have "set (obj_keys (obj_set f (JNum (count_of counts f + 1)) counts)) \<subseteq> F"
      using c(2) fp [OF \<open>?fp = Some f\<close>] by (auto simp: obj_set_def set_keys_obj_insert)
    moreover have "\<forall>g. count_of (obj_set f (JNum (count_of counts f + 1)) counts) g = int (min 3 (seen_after ?fp seen g))"
      using c(3) few \<open>?fp = Some f\<close> by (auto simp: seen_after_def)
    ultimately show ?thesis using \<open>\<not> dropped\<close> few \<open>?fp = Some f\<close> unfolding exact_counts_def by auto
  next
    fix f assume "?fp = Some f" "count_of counts f = 0" "50 \<le> length (obj_keys counts)"
    with room fp show ?thesis by fastforce
  next
    assume "?fp = None" "\<not> dropped" "blob' = blob"
    with ex show ?thesis by (simp add: seen_after_def)
  qed (use w in \<open>simp_all add: working_def\<close>)
qed

lemma fuse_run_exact:
  assumes js: "json_ok parse stringify" and F: "finite F" "card F \<le> 50"
  shows "exact_counts parse stringify F blob seen \<Longrightarrow> \<forall>e \<in> set es. working e \<Longrightarrow>
    \<forall>e \<in> set es. \<forall>f. buildFingerprint (fe_properties e) = Some f \<longrightarrow> f \<in> F \<Longrightarrow>
    fuse_run parse stringify blob es = ideal_run seen (map (\<lambda>e. buildFingerprint (fe_properties e)) es)"
proof (induction es arbitrary: blob seen)
  case (Cons e es)
  obtain dropped blob' where step: "fuse_step parse stringify e blob = (dropped, blob')" by (metis surj_pair)
  have "working e" "\<And>f. buildFingerprint (fe_properties e) = Some f \<Longrightarrow> f \<in> F" using Cons.prems by auto
  from exact_step [OF js Cons.prems(1) F this step] Cons.IH Cons.prems(2,3) show ?case
    by (auto simp: step ideal_step split: option.split)
qed simp

text \<open>With a working storage and at most fifty different fingerprints the fuse is the ideal
  counter: it keeps exactly the first three events of each fingerprint.\<close>

theorem fuse_equals_ideal:
  assumes "json_ok parse stringify" and "\<forall>e \<in> set es. working e"
    and "card {f. \<exists>e \<in> set es. buildFingerprint (fe_properties e) = Some f} \<le> 50"
  shows "fuse_run parse stringify None es = ideal_run (\<lambda>_. 0) (map (\<lambda>e. buildFingerprint (fe_properties e)) es)"
proof -
  let ?F = "{f. \<exists>e \<in> set es. buildFingerprint (fe_properties e) = Some f}"
  have "finite ?F"
  proof (rule finite_subset)
    show "?F \<subseteq> the ` (\<lambda>e. buildFingerprint (fe_properties e)) ` set es" by force
  qed simp
  moreover have "exact_counts parse stringify ?F None (\<lambda>_. 0)"
    unfolding exact_counts_def using blob_none by (intro exI [of _ "[]"]) (simp add: obj_keys_def)
  ultimately show ?thesis using fuse_run_exact [OF assms(1) _ assms(3)] assms(2) by blast
qed

section \<open>A session\<close>

text \<open>A printer of objects of positive numbers, and its reader.\<close>

fun print_counts :: "(jstr \<times> json) list \<Rightarrow> jstr" where
  "print_counts [] = ''.''"
| "print_counts ((k, v) # fs) =
     concat (map (\<lambda>c. [CHR ''c'', c]) k) @ CHR ''='' #
     replicate (case v of JNum n \<Rightarrow> nat n | _ \<Rightarrow> 0) (CHR ''1'') @ print_counts fs"

fun read_from :: "nat \<Rightarrow> jstr \<Rightarrow> nat \<Rightarrow> jstr \<Rightarrow> (jstr \<times> json) list option" where
  "read_from 0 k n [] = None"
| "read_from 0 k n (x # s) =
     (if x = CHR ''.'' then Some []
      else if x = CHR ''='' then read_from 1 k 0 s
      else (case s of [] \<Rightarrow> None | c # s' \<Rightarrow> read_from 0 (k @ [c]) 0 s'))"
| "read_from (Suc m) k n [] = None"
| "read_from (Suc m) k n (x # s) =
     (if x = CHR ''1'' then read_from (Suc m) k (n + 1) s
      else map_option ((#) (k, JNum (int n))) (read_from 0 [] 0 (x # s)))"

definition some_stringify :: "json \<Rightarrow> jstr" where
  "some_stringify v = (case v of JObj fs \<Rightarrow> print_counts fs | _ \<Rightarrow> [])"

definition read_counts :: "jstr \<Rightarrow> json option" where
  "read_counts s = map_option JObj (read_from 0 [] 0 s)"

lemma read_key:
  "read_from 0 k 0 (concat (map (\<lambda>c. [CHR ''c'', c]) k') @ CHR ''='' # s) = read_from 1 (k @ k') 0 s"
  by (induction k' arbitrary: k) simp_all

lemma print_counts_head: "\<exists>x s. print_counts fs = x # s \<and> x \<noteq> CHR ''1''"
proof (cases fs)
  case (Cons f fs')
  obtain k v where "f = (k, v)" by (cases f)
  with Cons show ?thesis by (cases k) simp_all
qed simp

lemma read_number:
  "read_from (Suc 0) k n (replicate m (CHR ''1'') @ print_counts fs)
     = map_option ((#) (k, JNum (int (n + m)))) (read_from 0 [] 0 (print_counts fs))"
proof (induction m arbitrary: n)
  case 0
  from print_counts_head [of fs] obtain x s where "print_counts fs = x # s" "x \<noteq> CHR ''1''" by blast
  then show ?case by simp
qed (simp add: ac_simps)

lemma read_print:
  "\<forall>v \<in> snd ` set fs. \<exists>n \<ge> 1. v = JNum n \<Longrightarrow> read_from 0 [] 0 (print_counts fs) = Some fs"
proof (induction fs)
  case (Cons f fs)
  then obtain k n where "f = (k, JNum n)" "1 \<le> n" by (cases f) auto
  with Cons show ?case by (simp add: read_key read_number)
qed simp

lemma some_json: "json_ok read_counts some_stringify"
  unfolding json_ok_def read_counts_def some_stringify_def
  using read_print print_counts_head by (fastforce simp: numeric_object_def)

definition some_event :: "bool \<Rightarrow> fuse_event" where
  "some_event writable =
     \<lparr>fe_cleared = False,
      fe_mood = \<lparr>reachable_storage = True, getItem_ok = True, setItem_ok = writable\<rparr>,
      fe_properties = Some (JObj [(''$exception_message'', JStr ''boom'')])\<rparr>"

lemma some_fingerprint: "\<exists>fp. buildFingerprint (fe_properties (some_event w)) = Some fp"
  by (simp add: some_event_def buildFingerprint_def is_object_def field_of_def json_field_def readString_def
      or_empty_def or_else_def topFrame_def)

lemma fingerprint_same: "fe_properties (some_event w) = fe_properties (some_event True)"
  by (simp add: some_event_def)

theorem fuse_refines_ideal_witness:
  "list_all2 (\<longrightarrow>) (fuse_run read_counts some_stringify None [some_event False, some_event True])
     (ideal_run (\<lambda>_. 0) (map (\<lambda>e. buildFingerprint (fe_properties e)) [some_event False, some_event True]))"
  by (rule fuse_refines_ideal [OF some_json])

theorem fuse_equals_ideal_witness:
  "fuse_run read_counts some_stringify None (replicate 4 (some_event True)) = [False, False, False, True]"
proof -
  obtain fp where fp: "buildFingerprint (fe_properties (some_event True)) = Some fp" using some_fingerprint by blast
  have "fuse_run read_counts some_stringify None (replicate 4 (some_event True))
      = ideal_run (\<lambda>_. 0) (map (\<lambda>e. buildFingerprint (fe_properties e)) (replicate 4 (some_event True)))"
  proof (rule fuse_equals_ideal [OF some_json])
    show "\<forall>e \<in> set (replicate 4 (some_event True)). working e" by (simp add: working_def some_event_def)
    have "{f. \<exists>e \<in> set (replicate 4 (some_event True)). buildFingerprint (fe_properties e) = Some f} = {fp}"
      using fp by auto
    then show "card {f. \<exists>e \<in> set (replicate 4 (some_event True)). buildFingerprint (fe_properties e) = Some f} \<le> 50"
      by simp
  qed
  also have "\<dots> = [False, False, False, True]" by (simp add: fp eval_nat_numeral)
  finally show ?thesis .
qed

end
