(* ===== verification/Recent_Issues.thy ===== *)
theory Recent_Issues
  imports JS_Object Machines
begin

text \<open>
  The store of recently visited issues (\<open>packages/core/issues/stores/recent-issues-store.ts\<close>).
  \<open>now\<close> is what \<open>Date.now()\<close> returns.
\<close>

section \<open>The store\<close>

definition MAX_RECENT_ISSUES :: nat where
  "MAX_RECENT_ISSUES = 20"

definition MAX_WORKSPACES :: nat where
  "MAX_WORKSPACES = 50"

record recent_entry =
  re_id :: jstr
  re_visitedAt :: int

type_synonym recent_store = "recent_entry list jsobj"

definition recent_bucket :: "recent_store \<Rightarrow> jstr \<Rightarrow> recent_entry list" where
  "recent_bucket s wsId = (case obj_get s wsId of None \<Rightarrow> [] | Some l \<Rightarrow> l)"

text \<open>\<open>nextByWorkspace[id]?.[0]?.visitedAt ?? 0\<close>.\<close>

definition last_visit :: "recent_store \<Rightarrow> jstr \<Rightarrow> int" where
  "last_visit s wsId = (case recent_bucket s wsId of [] \<Rightarrow> 0 | e # _ \<Rightarrow> re_visitedAt e)"

fun oldest_workspace :: "recent_store \<Rightarrow> jstr \<Rightarrow> jstr list \<Rightarrow> jstr" where
  "oldest_workspace s oldestId [] = oldestId"
| "oldest_workspace s oldestId (candidateId # rest) =
     oldest_workspace s (if last_visit s candidateId < last_visit s oldestId then candidateId else oldestId) rest"

definition recordVisit :: "int \<Rightarrow> jstr \<Rightarrow> jstr \<Rightarrow> recent_store \<Rightarrow> recent_store" where
  "recordVisit now wsId i s =
     (let filtered = filter (\<lambda>e. re_id e \<noteq> i) (recent_bucket s wsId);
          nextBucket = take MAX_RECENT_ISSUES (\<lparr>re_id = i, re_visitedAt = now\<rparr> # filtered);
          nextByWorkspace = obj_set wsId nextBucket s;
          ks = obj_keys nextByWorkspace
      in if length ks > MAX_WORKSPACES
         then obj_delete (oldest_workspace nextByWorkspace (hd ks) (tl ks)) nextByWorkspace
         else nextByWorkspace)"

definition forgetIssue :: "jstr \<Rightarrow> jstr \<Rightarrow> recent_store \<Rightarrow> recent_store" where
  "forgetIssue wsId i s =
     (case obj_get s wsId of
        None \<Rightarrow> s
      | Some bucket \<Rightarrow>
          let nextBucket = filter (\<lambda>e. re_id e \<noteq> i) bucket in
          if length nextBucket = length bucket then s
          else if nextBucket = [] then obj_delete wsId s
          else obj_set wsId nextBucket s)"

definition pruneWorkspaces :: "jstr list \<Rightarrow> recent_store \<Rightarrow> recent_store" where
  "pruneWorkspaces activeWsIds s =
     (if list_ex (\<lambda>(k, _). k \<notin> set activeWsIds) s
      then foldl (\<lambda>nxt (k, items). if k \<in> set activeWsIds then obj_set k items nxt else nxt) [] s
      else s)"

definition selectRecentIssues :: "jstr option \<Rightarrow> recent_store \<Rightarrow> recent_entry list" where
  "selectRecentIssues wsId s =
     (case wsId of None \<Rightarrow> [] | Some w \<Rightarrow> if w = [] then [] else recent_bucket s w)"

text \<open>The actions; the clock never runs backwards.\<close>

datatype recent_op = RecordVisit int jstr jstr | ForgetIssue jstr jstr | PruneWorkspaces "jstr list"

fun recent_step :: "recent_store \<Rightarrow> recent_op \<Rightarrow> recent_store" where
  "recent_step s (RecordVisit now wsId i) = recordVisit now wsId i s"
| "recent_step s (ForgetIssue wsId i) = forgetIssue wsId i s"
| "recent_step s (PruneWorkspaces activeWsIds) = pruneWorkspaces activeWsIds s"

fun recent_enabled :: "recent_store \<Rightarrow> recent_op \<Rightarrow> bool" where
  "recent_enabled s (RecordVisit now wsId i) =
     (0 < now \<and> list_all (\<lambda>(k, es). list_all (\<lambda>e. re_visitedAt e \<le> now) es) s)"
| "recent_enabled s _ = True"

section \<open>The invariant\<close>

definition bucket_ok :: "recent_entry list \<Rightarrow> bool" where
  "bucket_ok es = (es \<noteq> [] \<and> length es \<le> MAX_RECENT_ISSUES \<and> distinct (map re_id es)
     \<and> sorted_wrt (\<lambda>a b. re_visitedAt b \<le> re_visitedAt a) es)"

definition recent_ok :: "recent_store \<Rightarrow> bool" where
  "recent_ok s = (obj_ok s \<and> length s \<le> MAX_WORKSPACES \<and> (\<forall>k es. obj_get s k = Some es \<longrightarrow> bucket_ok es))"

lemma recent_bucket_ok: "recent_ok s \<Longrightarrow> recent_bucket s k = [] \<or> bucket_ok (recent_bucket s k)"
  by (auto simp: recent_ok_def recent_bucket_def split: option.split)

lemma oldest_member: "oldest_workspace s k ks \<in> insert k (set ks)"
  by (induction s k ks rule: oldest_workspace.induct) auto

lemma oldest_least: "\<forall>j \<in> insert k (set ks). last_visit s (oldest_workspace s k ks) \<le> last_visit s j"
  by (induction s k ks rule: oldest_workspace.induct) auto

lemma length_obj_set:
  assumes "obj_ok s"
  shows "length (obj_set k v s) = (if k \<in> set (obj_keys s) then length s else Suc (length s))"
proof -
  have "length (obj_insert k v s) = Suc (length s)" by (induction k v s rule: obj_insert.induct) auto
  then show ?thesis by (simp add: obj_set_def)
qed

lemma length_obj_delete:
  assumes "obj_ok s" "k \<in> set (obj_keys s)"
  shows "Suc (length (obj_delete k s)) = length s"
proof -
  have keys: "map fst (obj_delete k s) = filter (\<lambda>x. x \<noteq> k) (map fst s)"
    by (induction s) (auto simp: obj_delete_def)
  have drop_one: "Suc (length (filter (\<lambda>x. x \<noteq> k) xs)) = length xs" if "distinct xs" "k \<in> set xs" for xs
    using that
  proof (induction xs)
    case (Cons x xs)
    have "filter (\<lambda>y. y \<noteq> k) xs = xs" if "k \<notin> set xs" using that by (auto simp: filter_id_conv)
    with Cons show ?case by (cases "x = k") auto
  qed simp
  have "length (obj_delete k s) = length (filter (\<lambda>x. x \<noteq> k) (map fst s))"
    unfolding keys [symmetric] by simp
  with drop_one [of "map fst s"] assms show ?thesis by (simp add: obj_ok_def obj_keys_def)
qed

lemma visited_bucket_ok:
  assumes "recent_ok s" "\<forall>e \<in> set (recent_bucket s w). re_visitedAt e \<le> now"
  shows "bucket_ok (take MAX_RECENT_ISSUES (\<lparr>re_id = i, re_visitedAt = now\<rparr> # filter (\<lambda>e. re_id e \<noteq> i) (recent_bucket s w)))"
proof -
  let ?es = "\<lparr>re_id = i, re_visitedAt = now\<rparr> # filter (\<lambda>e. re_id e \<noteq> i) (recent_bucket s w)"
  have b: "distinct (map re_id (recent_bucket s w))"
    "sorted_wrt (\<lambda>a b. re_visitedAt b \<le> re_visitedAt a) (recent_bucket s w)"
    using recent_bucket_ok [OF assms(1), of w] by (auto simp: bucket_ok_def)
  then have "distinct (map re_id ?es)" "sorted_wrt (\<lambda>a b. re_visitedAt b \<le> re_visitedAt a) ?es"
    using assms(2) by (auto simp: distinct_map_filter sorted_wrt_filter)
  then have "distinct (map re_id (take MAX_RECENT_ISSUES ?es))"
    "sorted_wrt (\<lambda>a b. re_visitedAt b \<le> re_visitedAt a) (take MAX_RECENT_ISSUES ?es)"
    using distinct_take [of "map re_id ?es" MAX_RECENT_ISSUES] sorted_wrt_take [of _ ?es MAX_RECENT_ISSUES]
    by (simp_all only: take_map)
  then show ?thesis by (simp add: bucket_ok_def MAX_RECENT_ISSUES_def del: take_Suc_Cons)
qed

lemma keep_fold_get:
  "obj_ok acc \<Longrightarrow> distinct (obj_keys s) \<Longrightarrow>
   obj_get (foldl (\<lambda>nxt (k, items). if P k then obj_set k items nxt else nxt) acc s) k
     = (if P k \<and> k \<in> set (obj_keys s) then obj_get s k else obj_get acc k)
   \<and> obj_ok (foldl (\<lambda>nxt (k, items). if P k then obj_set k items nxt else nxt) acc s)
   \<and> length (foldl (\<lambda>nxt (k, items). if P k then obj_set k items nxt else nxt) acc s) \<le> length acc + length s"
proof (induction s arbitrary: acc)
  case (Cons e s)
  obtain k' v where e: "e = (k', v)" by (cases e)
  let ?acc = "if P k' then obj_set k' v acc else acc"
  have len: "length ?acc \<le> Suc (length acc)" using Cons.prems(1) by (simp add: length_obj_set)
  have "obj_ok ?acc" "distinct (obj_keys s)" "k' \<notin> set (obj_keys s)"
    using Cons.prems e by (simp_all add: obj_ok_set obj_keys_def)
  moreover have "obj_get (e # s) k = (if k = k' then Some v else obj_get s k)"
    "set (obj_keys (e # s)) = insert k' (set (obj_keys s))"
    by (simp_all add: e obj_get_def obj_keys_def)
  ultimately show ?case using Cons.IH [of ?acc] len by (auto simp: e obj_get_set)
qed (simp add: obj_keys_def)

lemma prune_ok:
  assumes "recent_ok s"
  shows "recent_ok (pruneWorkspaces ws s)"
proof -
  have s: "obj_ok s" "distinct (obj_keys s)" "length s \<le> MAX_WORKSPACES"
    using assms by (simp_all add: recent_ok_def obj_ok_def)
  note fold = keep_fold_get [of "[]" s "\<lambda>k. k \<in> set ws", OF _ s(2)]
  have "length (foldl (\<lambda>nxt (k, items). if k \<in> set ws then obj_set k items nxt else nxt) [] s) \<le> MAX_WORKSPACES"
    using fold [where k = "[]"] s(3) by simp
  then have "recent_ok (foldl (\<lambda>nxt (k, items). if k \<in> set ws then obj_set k items nxt else nxt) [] s)"
    using fold assms unfolding recent_ok_def by (auto split: if_splits)
  with assms show ?thesis by (simp add: pruneWorkspaces_def)
qed

lemma bucket_ok_filter: "bucket_ok es \<Longrightarrow> filter P es \<noteq> [] \<Longrightarrow> bucket_ok (filter P es)"
  by (auto simp: bucket_ok_def distinct_map_filter sorted_wrt_filter intro: le_trans [OF length_filter_le])

lemma forget_ok:
  assumes "recent_ok s"
  shows "recent_ok (forgetIssue w i s)"
proof (cases "obj_get s w")
  case (Some es)
  let ?es = "filter (\<lambda>e. re_id e \<noteq> i) es"
  have key: "w \<in> set (obj_keys s)" using Some by (simp add: obj_keys_get)
  have "recent_ok (obj_delete w s)"
    using assms length_obj_delete [OF _ key] by (auto simp: recent_ok_def obj_ok_delete obj_get_delete)
  moreover have "recent_ok (obj_set w ?es s)" if "?es \<noteq> []"
    using assms Some key that bucket_ok_filter
    by (auto simp: recent_ok_def obj_ok_set obj_get_set length_obj_set)
  ultimately show ?thesis using assms Some by (simp add: forgetIssue_def Let_def)
qed (use assms in \<open>simp add: forgetIssue_def\<close>)

lemma visit_ok:
  assumes "recent_ok s" "recent_enabled s (RecordVisit now w i)"
  shows "recent_ok (recordVisit now w i s)"
proof -
  have past: "\<forall>e \<in> set (recent_bucket s w). re_visitedAt e \<le> now"
  proof (cases "obj_get s w")
    case (Some es)
    from obj_get_in [OF this] assms(2) have "\<forall>e \<in> set es. re_visitedAt e \<le> now" by (auto simp: list_all_iff)
    with Some show ?thesis by (simp add: recent_bucket_def)
  qed (simp add: recent_bucket_def)
  define b where "b = take MAX_RECENT_ISSUES (\<lparr>re_id = i, re_visitedAt = now\<rparr> # filter (\<lambda>e. re_id e \<noteq> i) (recent_bucket s w))"
  have b: "bucket_ok b" unfolding b_def by (rule visited_bucket_ok [OF assms(1) past])
  let ?s = "obj_set w b s"
  have ok: "obj_ok ?s" "\<forall>k es. obj_get ?s k = Some es \<longrightarrow> bucket_ok es" "length ?s \<le> Suc MAX_WORKSPACES"
    using assms(1) b by (auto simp: recent_ok_def obj_ok_set obj_get_set length_obj_set)
  have len: "length (obj_keys ?s) = length ?s" by (simp add: obj_keys_def)
  have visit: "recordVisit now w i s =
      (if length ?s > MAX_WORKSPACES
       then obj_delete (oldest_workspace ?s (hd (obj_keys ?s)) (tl (obj_keys ?s))) ?s else ?s)"
    by (simp add: recordVisit_def b_def [symmetric] len Let_def)
  show ?thesis
  proof (cases "length ?s > MAX_WORKSPACES")
    case True
    then have ne: "obj_keys ?s \<noteq> []" by (auto simp: obj_keys_def MAX_WORKSPACES_def)
    have "oldest_workspace ?s (hd (obj_keys ?s)) (tl (obj_keys ?s)) \<in> set (obj_keys ?s)"
      using oldest_member [of ?s "hd (obj_keys ?s)" "tl (obj_keys ?s)"] ne by (cases "obj_keys ?s") auto
    from length_obj_delete [OF ok(1) this] ok True show ?thesis
      unfolding visit by (auto simp: recent_ok_def obj_ok_delete obj_get_delete)
  next
    case False
    with ok show ?thesis unfolding visit by (simp add: recent_ok_def)
  qed
qed

definition recent_start :: "recent_store \<Rightarrow> bool" where
  "recent_start s = (s = [])"

interpretation recents: invariant_machine recent_start recent_step recent_enabled recent_ok
proof
  show "recent_start s \<Longrightarrow> recent_ok s" for s
    by (simp add: recent_start_def recent_ok_def obj_get_def)
  show "recent_ok s \<Longrightarrow> recent_enabled s e \<Longrightarrow> recent_ok (recent_step s e)" for s e
    by (cases e) (simp_all add: visit_ok forget_ok prune_ok del: recent_enabled.simps)
qed

text \<open>The list of recent issues stays bounded whatever is visited, and useful: at most fifty
  workspaces of at most twenty issues each, without repetition and the latest first; and a visit
  later than all others is the first entry of its workspace, which is not the one evicted.\<close>

theorem recent_issues_bounded:
  assumes "reachable recent_start recent_step recent_enabled s"
  shows "length s \<le> 50 \<and> (\<forall>(w, es) \<in> set s. bucket_ok es)
    \<and> (recent_enabled s (RecordVisit now w i) \<longrightarrow> (\<forall>(k, es) \<in> set s. \<forall>e \<in> set es. re_visitedAt e < now) \<longrightarrow>
       (\<exists>es. obj_get (recordVisit now w i s) w = Some (\<lparr>re_id = i, re_visitedAt = now\<rparr> # es)))"
proof -
  have ok: "recent_ok s" using assms by (rule recents.inv_reachable)
  have "\<exists>es. obj_get (recordVisit now w i s) w = Some (\<lparr>re_id = i, re_visitedAt = now\<rparr> # es)"
    if en: "recent_enabled s (RecordVisit now w i)" and later: "\<forall>(k, es) \<in> set s. \<forall>e \<in> set es. re_visitedAt e < now"
  proof -
    let ?e = "\<lparr>re_id = i, re_visitedAt = now\<rparr>"
    define es where "es = take 19 (filter (\<lambda>e. re_id e \<noteq> i) (recent_bucket s w))"
    let ?s = "obj_set w (?e # es) s"
    have here: "last_visit ?s w = now" by (simp add: last_visit_def recent_bucket_def obj_get_set)
    have other: "last_visit ?s k < now" if k: "k \<noteq> w" for k
    proof (cases "recent_bucket s k")
      case (Cons e rest)
      then have "obj_get s k = Some (e # rest)" by (auto simp: recent_bucket_def split: option.splits)
      from obj_get_in [OF this] later k Cons show ?thesis
        by (auto simp: last_visit_def recent_bucket_def obj_get_set split: option.splits)
    next
      case Nil
      with en k show ?thesis by (auto simp: last_visit_def recent_bucket_def obj_get_set split: option.splits)
    qed
    have visit: "recordVisit now w i s =
      (if length (obj_keys ?s) > MAX_WORKSPACES
       then obj_delete (oldest_workspace ?s (hd (obj_keys ?s)) (tl (obj_keys ?s))) ?s else ?s)"
      by (simp add: recordVisit_def es_def MAX_RECENT_ISSUES_def Let_def)
    have "oldest_workspace ?s (hd (obj_keys ?s)) (tl (obj_keys ?s)) \<noteq> w" if many: "length (obj_keys ?s) > MAX_WORKSPACES"
    proof
      assume old: "oldest_workspace ?s (hd (obj_keys ?s)) (tl (obj_keys ?s)) = w"
      obtain a b rest where ks: "obj_keys ?s = a # b # rest"
        using many by (cases "obj_keys ?s" rule: remdups_adj.cases) (auto simp: MAX_WORKSPACES_def)
      have "distinct (obj_keys ?s)" using obj_ok_set [of s w] ok by (simp add: recent_ok_def obj_ok_def)
      with ks have "a \<noteq> w \<or> b \<noteq> w" by auto
      with oldest_least [of a "b # rest" ?s] old ks here other show False by fastforce
    qed
    then show ?thesis unfolding visit by (auto simp: obj_get_delete obj_get_set)
  qed
  moreover have "length s \<le> 50" using ok by (simp add: recent_ok_def MAX_WORKSPACES_def)
  moreover have "\<forall>(w, es) \<in> set s. bucket_ok es"
    using ok by (auto simp: recent_ok_def dest!: obj_in_get)
  ultimately show ?thesis by blast
qed

theorem recent_issues_bounded_witness:
  "\<exists>es. obj_get (recordVisit 9 ''w1'' ''i3'' (foldl recent_step [] [RecordVisit 5 ''w1'' ''i1'', RecordVisit 6 ''w2'' ''i2'']))
     ''w1'' = Some (\<lparr>re_id = ''i3'', re_visitedAt = 9\<rparr> # es)"
proof -
  let ?ops = "[RecordVisit 5 ''w1'' ''i1'', RecordVisit 6 ''w2'' ''i2'']"
  have "run_ok recent_step recent_enabled [] ?ops" by code_simp
  then have "reachable recent_start recent_step recent_enabled (foldl recent_step [] ?ops)"
    by (intro reachable_run reachable.init) (simp_all add: recent_start_def)
  moreover have "recent_enabled (foldl recent_step [] ?ops) (RecordVisit 9 ''w1'' ''i3'')" by code_simp
  moreover have "\<forall>(k, es) \<in> set (foldl recent_step [] ?ops). \<forall>e \<in> set es. re_visitedAt e < 9" by code_simp
  ultimately show ?thesis using recent_issues_bounded by blast
qed

end
