(* ===== verification/Issue_Delete.thy ===== *)
theory Issue_Delete
  imports Issue_Client Recent_Issues
begin

text \<open>
  Removing and invalidating queries: the query keys of the caches around an issue
  (\<open>issues/queries.ts\<close> and others), the part of the query client the mutations and the realtime
  handlers use to mark queries stale, and the invalidation helpers of the cache coordinator
  (\<open>issues/cache-coordinator.ts\<close>).
\<close>

section \<open>Keys\<close>

definition issue_assigneeGroupsAll :: "jstr \<Rightarrow> query_key" where
  "issue_assigneeGroupsAll ws = issue_all ws @ [KStr ''assignee-groups'']"

definition issue_myAssigneeGroupsAll :: "jstr \<Rightarrow> query_key" where
  "issue_myAssigneeGroupsAll ws = issue_myAll ws @ [KStr ''assignee-groups'']"

definition issue_myAssigneeGroups :: "jstr \<Rightarrow> jstr \<Rightarrow> query_bag \<Rightarrow> query_key" where
  "issue_myAssigneeGroups ws scope f = issue_myAssigneeGroupsAll ws @ [KStr scope, KBag f]"

definition issue_projectGanttAll :: "jstr \<Rightarrow> query_key" where
  "issue_projectGanttAll ws = issue_all ws @ [KStr ''project-gantt'']"

definition issue_childrenAll :: "jstr \<Rightarrow> query_key" where
  "issue_childrenAll ws = issue_all ws @ [KStr ''children'']"

definition issue_children :: "jstr \<Rightarrow> jstr \<Rightarrow> query_key" where
  "issue_children ws i = issue_childrenAll ws @ [KStr i]"

definition issue_childrenByParentsAll :: "jstr \<Rightarrow> query_key" where
  "issue_childrenByParentsAll ws = issue_all ws @ [KStr ''children-by-parents'']"

definition issue_childProgress :: "jstr \<Rightarrow> query_key" where
  "issue_childProgress ws = issue_all ws @ [KStr ''child-progress'']"

text \<open>The per-issue keys without a workspace: \<open>timeline\<close>, \<open>reactions\<close>, \<open>subscribers\<close>, \<open>usage\<close>,
  \<open>attachments\<close> and \<open>tasks\<close>.\<close>

definition issue_scoped :: "jstr \<Rightarrow> jstr \<Rightarrow> query_key" where
  "issue_scoped kind i = [KStr ''issues'', KStr kind, KStr i]"

definition label_byIssue :: "jstr \<Rightarrow> jstr \<Rightarrow> query_key" where
  "label_byIssue ws i = [KStr ''labels'', KStr ws, KStr ''issue'', KStr i]"

definition agentTaskSnapshot_list :: "jstr \<Rightarrow> query_key" where
  "agentTaskSnapshot_list ws = [KStr ''workspaces'', KStr ws, KStr ''agent-task-snapshot'', KStr ''list'']"

definition agentActivity_last30d :: "jstr \<Rightarrow> query_key" where
  "agentActivity_last30d ws = [KStr ''workspaces'', KStr ws, KStr ''agent-activity'', KStr ''30d'']"

definition agentRunCounts_last30d :: "jstr \<Rightarrow> query_key" where
  "agentRunCounts_last30d ws = [KStr ''workspaces'', KStr ws, KStr ''agent-run-counts'', KStr ''30d'']"

definition agentTasks_all :: "jstr \<Rightarrow> query_key" where
  "agentTasks_all ws = [KStr ''workspaces'', KStr ws, KStr ''agent-tasks'']"

definition project_all :: "jstr \<Rightarrow> query_key" where
  "project_all ws = [KStr ''projects'', KStr ws]"

lemmas delete_key_defs = issue_assigneeGroupsAll_def issue_myAssigneeGroupsAll_def issue_myAssigneeGroups_def
  issue_projectGanttAll_def issue_childrenAll_def issue_children_def issue_childrenByParentsAll_def
  issue_childProgress_def issue_scoped_def label_byIssue_def agentTaskSnapshot_list_def
  agentActivity_last30d_def agentRunCounts_last30d_def agentTasks_all_def project_all_def

section \<open>The administration of the client\<close>

text \<open>\<open>invalidateQueries\<close> with a key, with a key and a predicate, and with an exact key.\<close>

record 'q query_admin =
  removeQueries :: "query_key \<Rightarrow> 'q \<Rightarrow> 'q"
  invalidateQueries :: "query_key \<Rightarrow> 'q \<Rightarrow> 'q"
  invalidateWhere :: "query_key \<Rightarrow> (query_key \<Rightarrow> bool) \<Rightarrow> 'q \<Rightarrow> 'q"
  invalidateExact :: "query_key \<Rightarrow> 'q \<Rightarrow> 'q"
  isStale :: "'q \<Rightarrow> query_key \<Rightarrow> bool"

text \<open>
  They act on the queries whose key has the given prefix, and leave what is cached; writing one
  query leaves the others as stale as they were.
\<close>

definition marks_where :: "'q query_client \<Rightarrow> 'q query_admin \<Rightarrow> (query_key \<Rightarrow> bool) \<Rightarrow> ('q \<Rightarrow> 'q) \<Rightarrow> bool" where
  "marks_where qc ad P step =
     ((\<forall>q k. getQueryData qc (step q) k = getQueryData qc q k)
      \<and> (\<forall>q k. getQueryData qc q k \<noteq> None \<longrightarrow> isStale ad (step q) k = (P k \<or> isStale ad q k)))"

definition query_admin_ok :: "'q query_client \<Rightarrow> 'q query_admin \<Rightarrow> bool" where
  "query_admin_ok qc ad =
     ((\<forall>p q k. getQueryData qc (removeQueries ad p q) k = (if prefix p k then None else getQueryData qc q k))
      \<and> (\<forall>p q k. \<not> prefix p k \<longrightarrow> isStale ad (removeQueries ad p q) k = isStale ad q k)
      \<and> (\<forall>k d q k'. k' \<noteq> k \<longrightarrow> isStale ad (setQueryData qc k d q) k' = isStale ad q k')
      \<and> (\<forall>p. marks_where qc ad (prefix p) (invalidateQueries ad p))
      \<and> (\<forall>p P. marks_where qc ad (\<lambda>k. prefix p k \<and> P k) (invalidateWhere ad p P))
      \<and> (\<forall>p. marks_where qc ad (\<lambda>k. k = p) (invalidateExact ad p)))"

lemma admin_get:
  assumes "query_admin_ok qc ad"
  shows "getQueryData qc (removeQueries ad p q) k = (if prefix p k then None else getQueryData qc q k)"
    "getQueryData qc (invalidateQueries ad p q) k = getQueryData qc q k"
    "getQueryData qc q k \<noteq> None \<Longrightarrow> isStale ad (invalidateQueries ad p q) k = (prefix p k \<or> isStale ad q k)"
  using assms by (simp_all add: query_admin_ok_def marks_where_def)

lemma admin_marks:
  assumes "query_admin_ok qc ad"
  shows "marks_where qc ad (prefix p) (invalidateQueries ad p)"
    "marks_where qc ad (\<lambda>k. prefix p k \<and> P k) (invalidateWhere ad p P)"
    "marks_where qc ad (\<lambda>k. k = p) (invalidateExact ad p)"
    "k \<noteq> p \<Longrightarrow> isStale ad (setQueryData qc p d q) k = isStale ad q k"
    "\<not> prefix p k \<Longrightarrow> isStale ad (removeQueries ad p q) k = isStale ad q k"
  using assms by (simp_all add: query_admin_ok_def)

section \<open>Steps that may throw\<close>

fun fold_throw :: "('a \<Rightarrow> 'b \<Rightarrow> 'b option) \<Rightarrow> 'a list \<Rightarrow> 'b \<Rightarrow> 'b option" where
  "fold_throw f [] acc = Some acc"
| "fold_throw f (x # xs) acc = (case f x acc of None \<Rightarrow> None | Some acc' \<Rightarrow> fold_throw f xs acc')"

section \<open>The helpers of the coordinator\<close>

definition invalidateIssueDerivatives :: "'q query_admin \<Rightarrow> jstr \<Rightarrow> bool \<Rightarrow> 'q \<Rightarrow> 'q" where
  "invalidateIssueDerivatives ad ws statusOrProjectChanged q =
     (let q1 = fold (invalidateQueries ad)
                 [issue_assigneeGroupsAll ws, issue_myAssigneeGroupsAll ws, issue_projectGanttAll ws] q
      in if statusOrProjectChanged then invalidateQueries ad (project_all ws) q1 else q1)"

definition queryKeyHasUpdatedAtSort :: "query_key \<Rightarrow> bool" where
  "queryKeyHasUpdatedAtSort key =
     list_ex (\<lambda>part. case part of KBag b \<Rightarrow> s_sort_by b = Some ''updated_at'' | _ \<Rightarrow> False) key"

definition invalidateUpdatedAtSortedIssueLists :: "'q query_admin \<Rightarrow> jstr \<Rightarrow> 'q \<Rightarrow> 'q" where
  "invalidateUpdatedAtSortedIssueLists ad ws q =
     invalidateWhere ad (issue_all ws) queryKeyHasUpdatedAtSort q"

text \<open>\<open>seen\<close> holds the keys themselves: keys have the same hash when they are equal.\<close>

fun invalidate_unseen :: "'q query_admin \<Rightarrow> query_key list \<Rightarrow> query_key list \<Rightarrow> 'q \<Rightarrow> 'q" where
  "invalidate_unseen ad seen [] q = q"
| "invalidate_unseen ad seen (key # rest) q =
     (if key \<in> set seen then invalidate_unseen ad seen rest q
      else invalidate_unseen ad (key # seen) rest (invalidateExact ad key q))"

definition invalidateStaleListKeys :: "'q query_admin \<Rightarrow> query_key list \<Rightarrow> 'q \<Rightarrow> 'q" where
  "invalidateStaleListKeys ad stale q = invalidate_unseen ad [] stale q"

section \<open>What they mark\<close>

lemma marks_then:
  assumes "marks_where qc ad P f" "marks_where qc ad Q g"
  shows "marks_where qc ad (\<lambda>k. P k \<or> Q k) (\<lambda>q. g (f q))"
  using assms unfolding marks_where_def by auto

lemma marks_nothing: "marks_where qc ad (\<lambda>k. False) (\<lambda>q. q)"
  by (simp add: marks_where_def)

lemma marks_cong: "marks_where qc ad P f \<Longrightarrow> (\<And>k. P k = Q k) \<Longrightarrow> (\<And>q. f q = g q) \<Longrightarrow> marks_where qc ad Q g"
  by (simp add: marks_where_def)

lemma marks_get: "marks_where qc ad P f \<Longrightarrow> getQueryData qc (f q) k = getQueryData qc q k"
  by (simp add: marks_where_def)

lemma marks_stale:
  "marks_where qc ad P f \<Longrightarrow> getQueryData qc q k \<noteq> None \<Longrightarrow> isStale ad (f q) k = (P k \<or> isStale ad q k)"
  by (simp add: marks_where_def)

lemma marks_fold:
  assumes "query_admin_ok qc ad"
  shows "marks_where qc ad (\<lambda>k. \<exists>p \<in> set ps. prefix p k) (fold (invalidateQueries ad) ps)"
proof (induction ps)
  case Nil
  show ?case using marks_nothing by (rule marks_cong) simp_all
next
  case (Cons p ps)
  show ?case using marks_then [OF admin_marks(1) [OF assms, of p] Cons.IH] by (rule marks_cong) auto
qed

lemma marks_unseen:
  assumes "query_admin_ok qc ad"
  shows "marks_where qc ad (\<lambda>k. k \<in> set keys - set seen) (invalidate_unseen ad seen keys)"
proof (induction keys arbitrary: seen)
  case Nil
  show ?case using marks_nothing by (rule marks_cong) simp_all
next
  case (Cons key keys)
  show ?case
  proof (cases "key \<in> set seen")
    case True
    show ?thesis using Cons.IH [of seen] by (rule marks_cong) (use True in auto)
  next
    case False
    show ?thesis using marks_then [OF admin_marks(3) [OF assms, of key] Cons.IH [of "key # seen"]]
      by (rule marks_cong) (use False in auto)
  qed
qed

lemma marks_stale_keys:
  "query_admin_ok qc ad \<Longrightarrow> marks_where qc ad (\<lambda>k. k \<in> set keys) (invalidateStaleListKeys ad keys)"
  by (rule marks_cong [OF marks_unseen [of qc ad keys "[]"]]) (simp_all add: invalidateStaleListKeys_def)

lemma marks_derivatives:
  assumes "query_admin_ok qc ad"
  shows "marks_where qc ad
    (\<lambda>k. (\<exists>p \<in> {issue_assigneeGroupsAll ws, issue_myAssigneeGroupsAll ws, issue_projectGanttAll ws}. prefix p k)
       \<or> (b \<and> prefix (project_all ws) k)) (invalidateIssueDerivatives ad ws b)"
proof (cases b)
  case True
  show ?thesis
    by (rule marks_cong [OF marks_then [OF marks_fold [OF assms,
            of "[issue_assigneeGroupsAll ws, issue_myAssigneeGroupsAll ws, issue_projectGanttAll ws]"]
            admin_marks(1) [OF assms, of "project_all ws"]]])
      (use True in \<open>auto simp: invalidateIssueDerivatives_def\<close>)
next
  case False
  show ?thesis
    by (rule marks_cong [OF marks_fold [OF assms,
            of "[issue_assigneeGroupsAll ws, issue_myAssigneeGroupsAll ws, issue_projectGanttAll ws]"]])
      (use False in \<open>auto simp: invalidateIssueDerivatives_def\<close>)
qed

lemma marks_updated:
  "query_admin_ok qc ad \<Longrightarrow>
   marks_where qc ad (\<lambda>k. prefix (issue_all ws) k \<and> queryKeyHasUpdatedAtSort k) (invalidateUpdatedAtSortedIssueLists ad ws)"
  by (rule marks_cong [OF admin_marks(2) [of qc ad "issue_all ws" queryKeyHasUpdatedAtSort]])
    (simp_all add: invalidateUpdatedAtSortedIssueLists_def)

text \<open>
  Deleting an issue: the clean-up of the query cache (\<open>packages/core/issues/delete-cache.ts\<close>) and
  the delete mutation around it (\<open>useDeleteIssue\<close> of \<open>issues/mutations.ts\<close>), on the query client
  of \<open>Issue_Invalidate\<close>. An operation that reads a
  property of \<open>undefined\<close>, as \<open>resp.byStatus[status]\<close> does on a cache of another shape, throws:
  its result is \<open>None\<close>.
\<close>

section \<open>Parents of the deleted issue\<close>

definition collectParentId :: "jstr option \<Rightarrow> jstr list \<Rightarrow> jstr list" where
  "collectParentId parentId ids =
     (case parentId of None \<Rightarrow> ids | Some p \<Rightarrow> if p = [] \<or> p \<in> set ids then ids else ids @ [p])"

definition collectParentFromListCache :: "jstr \<Rightarrow> cache_data option \<Rightarrow> jstr list \<Rightarrow> jstr list option" where
  "collectParentFromListCache issueId data ids =
     (case data of
        None \<Rightarrow> Some ids
      | Some (DBuckets c) \<Rightarrow>
          Some (collectParentId (case findIssueLocation c issueId of None \<Rightarrow> None | Some (_, i) \<Rightarrow> iss_parent_issue_id i) ids)
      | Some _ \<Rightarrow> None)"

definition parentIdFromChildrenKey :: "query_key \<Rightarrow> jstr option" where
  "parentIdFromChildrenKey key = (case rev key of KStr s # _ \<Rightarrow> Some s | _ \<Rightarrow> None)"

definition parent_in_page :: "jstr \<Rightarrow> flat_page \<Rightarrow> jstr option" where
  "parent_in_page issueId page =
     (case find (\<lambda>i. iss_id i = issueId) (fp_issues page) of None \<Rightarrow> None | Some i \<Rightarrow> iss_parent_issue_id i)"

definition collect_flat :: "jstr \<Rightarrow> query_key \<times> cache_data option \<Rightarrow> jstr list \<Rightarrow> jstr list" where
  "collect_flat issueId entry ids =
     (case snd entry of
        Some (DFlat pages rest) \<Rightarrow> fold (\<lambda>page. collectParentId (parent_in_page issueId page)) pages ids
      | _ \<Rightarrow> ids)"

definition collect_children :: "jstr \<Rightarrow> query_key \<times> cache_data option \<Rightarrow> jstr list \<Rightarrow> jstr list option" where
  "collect_children issueId entry ids =
     (case snd entry of
        None \<Rightarrow> Some ids
      | Some (DIssueList l) \<Rightarrow>
          Some (case find (\<lambda>i. iss_id i = issueId) l of
                  None \<Rightarrow> ids
                | Some child \<Rightarrow>
                    collectParentId (parentIdFromChildrenKey (fst entry))
                      (collectParentId (iss_parent_issue_id child) ids))
      | Some _ \<Rightarrow> None)"

definition collectDeletedIssueCacheMetadata :: "'q query_client \<Rightarrow> jstr \<Rightarrow> jstr \<Rightarrow> 'q \<Rightarrow> jstr list option" where
  "collectDeletedIssueCacheMetadata qc ws issueId q =
     (let from_list = (\<lambda>entry. collectParentFromListCache issueId (snd entry));
          p0 = collectParentId (case getQueryData qc q (issue_detail ws issueId) of
                                  Some (DIssue i) \<Rightarrow> iss_parent_issue_id i | _ \<Rightarrow> None) []
      in case fold_throw from_list (getQueriesData qc (issue_list ws) q) p0 of
           None \<Rightarrow> None
         | Some p1 \<Rightarrow>
             (case fold_throw from_list (getQueriesData qc (issue_myAll ws) q)
                     (fold (collect_flat issueId) (getQueriesData qc (issue_flatAll ws) q) p1) of
                None \<Rightarrow> None
              | Some p2 \<Rightarrow>
                  fold_throw (collect_children issueId) (getQueriesData qc (issue_childrenAll ws) q) p2))"

section \<open>Pruning\<close>

definition prune_buckets :: "jstr \<Rightarrow> list_cache \<Rightarrow> list_cache" where
  "prune_buckets issueId c = (case removeIssueFromBuckets c issueId of None \<Rightarrow> c | Some c' \<Rightarrow> c')"

definition prune_list_key :: "'q query_client \<Rightarrow> jstr \<Rightarrow> query_key \<times> cache_data option \<Rightarrow> 'q \<Rightarrow> 'q option" where
  "prune_list_key qc issueId entry q =
     (let key = fst entry in
      case getQueryData qc q key of
        None \<Rightarrow> Some q
      | Some (DBuckets c) \<Rightarrow> Some (setQueryData qc key (DBuckets (prune_buckets issueId c)) q)
      | Some _ \<Rightarrow> None)"

definition prune_page :: "jstr \<Rightarrow> flat_page \<Rightarrow> flat_page" where
  "prune_page issueId page =
     page\<lparr>fp_total := fp_total page - 1, fp_issues := filter (\<lambda>i. iss_id i \<noteq> issueId) (fp_issues page)\<rparr>"

definition prune_flat_key :: "'q query_client \<Rightarrow> jstr \<Rightarrow> query_key \<times> cache_data option \<Rightarrow> 'q \<Rightarrow> 'q" where
  "prune_flat_key qc issueId entry q =
     (case snd entry of
        Some (DFlat pages rest) \<Rightarrow>
          if list_ex (\<lambda>page. list_ex (\<lambda>i. iss_id i = issueId) (fp_issues page)) pages
          then setQueryData qc (fst entry) (DFlat (map (prune_page issueId) pages) rest) q
          else q
      | _ \<Rightarrow> q)"

definition pruneDeletedIssueFromListCaches :: "'q query_client \<Rightarrow> jstr \<Rightarrow> jstr \<Rightarrow> 'q \<Rightarrow> 'q option" where
  "pruneDeletedIssueFromListCaches qc ws issueId q =
     (case fold_throw (prune_list_key qc issueId) (getQueriesData qc (issue_list ws) q) q of
        None \<Rightarrow> None
      | Some q1 \<Rightarrow>
          (case fold_throw (prune_list_key qc issueId) (getQueriesData qc (issue_myAll ws) q1) q1 of
             None \<Rightarrow> None
           | Some q2 \<Rightarrow> Some (fold (prune_flat_key qc issueId) (getQueriesData qc (issue_flatAll ws) q2) q2)))"

definition prune_children :: "'q query_client \<Rightarrow> jstr \<Rightarrow> jstr \<Rightarrow> jstr \<Rightarrow> 'q \<Rightarrow> 'q option" where
  "prune_children qc ws issueId parentId q =
     (case getQueryData qc q (issue_children ws parentId) of
        None \<Rightarrow> Some q
      | Some (DIssueList l) \<Rightarrow>
          Some (setQueryData qc (issue_children ws parentId) (DIssueList (filter (\<lambda>i. iss_id i \<noteq> issueId) l)) q)
      | Some _ \<Rightarrow> None)"

definition pruneDeletedIssueFromParentChildrenCaches ::
    "'q query_client \<Rightarrow> jstr \<Rightarrow> jstr \<Rightarrow> jstr list \<Rightarrow> 'q \<Rightarrow> 'q option" where
  "pruneDeletedIssueFromParentChildrenCaches qc ws issueId metadata q =
     fold_throw (prune_children qc ws issueId) metadata q"

section \<open>Invalidation and the whole clean-up\<close>

definition invalidateDeletedIssueParentCaches :: "'q query_admin \<Rightarrow> jstr \<Rightarrow> jstr list \<Rightarrow> 'q \<Rightarrow> 'q" where
  "invalidateDeletedIssueParentCaches ad ws metadata q =
     (if metadata = [] then q
      else
        let q1 = fold (\<lambda>parentId. invalidateQueries ad (issue_children ws parentId)) metadata q
        in invalidateQueries ad (issue_childrenByParentsAll ws) (invalidateQueries ad (issue_childProgress ws) q1))"

definition invalidateDeletedIssueDependentCaches :: "'q query_admin \<Rightarrow> jstr \<Rightarrow> 'q \<Rightarrow> 'q" where
  "invalidateDeletedIssueDependentCaches ad ws q =
     fold (invalidateQueries ad)
       [agentTaskSnapshot_list ws, agentActivity_last30d ws, agentRunCounts_last30d ws, agentTasks_all ws] q"

definition scoped_keys :: "jstr \<Rightarrow> jstr \<Rightarrow> query_key list" where
  "scoped_keys ws i =
     map (\<lambda>kind. issue_scoped kind i)
       [''timeline'', ''reactions'', ''subscribers'', ''usage'', ''attachments'', ''tasks'']
     @ [issue_children ws i, label_byIssue ws i]"

definition invalidateIssueScopedCaches :: "'q query_admin \<Rightarrow> jstr \<Rightarrow> jstr \<Rightarrow> 'q \<Rightarrow> 'q" where
  "invalidateIssueScopedCaches ad ws issueId q = fold (invalidateQueries ad) (scoped_keys ws issueId) q"

definition cleanup_with ::
    "'q query_client \<Rightarrow> 'q query_admin \<Rightarrow> jstr \<Rightarrow> jstr \<Rightarrow> jstr list \<Rightarrow> 'q \<times> recent_store \<Rightarrow> ('q \<times> recent_store) option" where
  "cleanup_with qc ad ws issueId metadata st =
     (case pruneDeletedIssueFromListCaches qc ws issueId (fst st) of
        None \<Rightarrow> None
      | Some q1 \<Rightarrow>
          (case pruneDeletedIssueFromParentChildrenCaches qc ws issueId metadata q1 of
             None \<Rightarrow> None
           | Some q2 \<Rightarrow>
               let q3 = invalidateDeletedIssueParentCaches ad ws metadata q2;
                   q4 = fold (removeQueries ad) (issue_detail ws issueId # scoped_keys ws issueId) q3;
                   q5 = fold (invalidateQueries ad)
                          [issue_childProgress ws, issue_list ws, issue_myAll ws, issue_flatAll ws,
                           issue_tableAll ws, issue_projectGanttAll ws] q4
               in Some (invalidateDeletedIssueDependentCaches ad ws q5, forgetIssue ws issueId (snd st))))"

text \<open>The metadata is collected when the caller has none.\<close>

definition cleanupDeletedIssueCaches ::
    "'q query_client \<Rightarrow> 'q query_admin \<Rightarrow> jstr \<Rightarrow> jstr \<Rightarrow> jstr list option \<Rightarrow> 'q \<times> recent_store \<Rightarrow> ('q \<times> recent_store) option" where
  "cleanupDeletedIssueCaches qc ad ws issueId metadata st =
     (case (case metadata of Some m \<Rightarrow> Some m | None \<Rightarrow> collectDeletedIssueCacheMetadata qc ws issueId (fst st)) of
        None \<Rightarrow> None
      | Some m \<Rightarrow> cleanup_with qc ad ws issueId m st)"

section \<open>The delete mutation\<close>

record delete_context =
  dc_id :: jstr
  dc_metadata :: "jstr list"
  dc_lists :: "(query_key \<times> cache_data option) list"
  dc_my :: "(query_key \<times> cache_data option) list"
  dc_flat :: "(query_key \<times> cache_data option) list"
  dc_detail :: "cache_data option"
  dc_children :: "(jstr \<times> cache_data option) list"

text \<open>\<open>onMutate\<close>; cancelling fetches in flight does not show in the cache.\<close>

definition delete_onMutate ::
    "'q query_client \<Rightarrow> 'q query_admin \<Rightarrow> jstr \<Rightarrow> jstr \<Rightarrow> 'q \<Rightarrow> ('q \<times> delete_context) option" where
  "delete_onMutate qc ad ws i q =
     (case collectDeletedIssueCacheMetadata qc ws i q of
        None \<Rightarrow> None
      | Some m \<Rightarrow>
          let ctx = \<lparr>dc_id = i, dc_metadata = m, dc_lists = getQueriesData qc (issue_list ws) q,
                     dc_my = getQueriesData qc (issue_myAll ws) q, dc_flat = getQueriesData qc (issue_flatAll ws) q,
                     dc_detail = getQueryData qc q (issue_detail ws i),
                     dc_children = map (\<lambda>p. (p, getQueryData qc q (issue_children ws p))) m\<rparr>
          in case pruneDeletedIssueFromListCaches qc ws i q of
               None \<Rightarrow> None
             | Some q1 \<Rightarrow>
                 (case pruneDeletedIssueFromParentChildrenCaches qc ws i m q1 of
                    None \<Rightarrow> None
                  | Some q2 \<Rightarrow> Some (removeQueries ad (issue_detail ws i) q2, ctx)))"

text \<open>\<open>setQueryData(key, undefined)\<close> does nothing.\<close>

definition restore_query :: "'q query_client \<Rightarrow> query_key \<times> cache_data option \<Rightarrow> 'q \<Rightarrow> 'q" where
  "restore_query qc entry q = (case snd entry of None \<Rightarrow> q | Some d \<Rightarrow> setQueryData qc (fst entry) d q)"

definition delete_onError :: "'q query_client \<Rightarrow> jstr \<Rightarrow> delete_context \<Rightarrow> 'q \<Rightarrow> 'q" where
  "delete_onError qc ws ctx q =
     (let q1 = fold (restore_query qc) (dc_lists ctx) q;
          q2 = fold (restore_query qc) (dc_my ctx) q1;
          q3 = fold (restore_query qc) (dc_flat ctx) q2;
          q4 = restore_query qc (issue_detail ws (dc_id ctx), dc_detail ctx) q3
      in fold (\<lambda>(p, snapshot). restore_query qc (issue_children ws p, snapshot)) (dc_children ctx) q4)"

definition delete_onSettled :: "'q query_admin \<Rightarrow> jstr \<Rightarrow> delete_context option \<Rightarrow> 'q \<Rightarrow> 'q" where
  "delete_onSettled ad ws ctx q =
     (let q1 = fold (invalidateQueries ad)
                 [issue_list ws, issue_flatAll ws, issue_tableAll ws, issue_assigneeGroupsAll ws,
                  issue_myAssigneeGroupsAll ws, issue_projectGanttAll ws, project_all ws] q
      in case ctx of None \<Rightarrow> q1 | Some c \<Rightarrow> invalidateDeletedIssueParentCaches ad ws (dc_metadata c) q1)"

text \<open>
  A run of the mutation: a throw in \<open>onMutate\<close> settles it with the error, without a request; otherwise
  the server's answer decides.
\<close>

datatype delete_outcome = NotSent | Failed | Deleted

definition useDeleteIssue ::
    "'q query_client \<Rightarrow> 'q query_admin \<Rightarrow> jstr \<Rightarrow> bool \<Rightarrow> jstr \<Rightarrow> 'q \<times> recent_store \<Rightarrow> delete_outcome \<times> 'q \<times> recent_store" where
  "useDeleteIssue qc ad ws server_ok i st =
     (case delete_onMutate qc ad ws i (fst st) of
        None \<Rightarrow> (NotSent, delete_onSettled ad ws None (fst st), snd st)
      | Some (q1, ctx) \<Rightarrow>
          if \<not> server_ok
          then (Failed, delete_onSettled ad ws (Some ctx) (delete_onError qc ws ctx q1), snd st)
          else (case cleanupDeletedIssueCaches qc ad ws i (Some (dc_metadata ctx)) (q1, snd st) of
                  None \<Rightarrow> (Failed, delete_onSettled ad ws (Some ctx) (delete_onError qc ws ctx q1), snd st)
                | Some (q2, recents) \<Rightarrow> (Deleted, delete_onSettled ad ws (Some ctx) q2, recents)))"

end
