(* ===== verification/Issue_Events.thy ===== *)
theory Issue_Events
  imports Issue_Delete "HOL-Library.Monad_Syntax"
begin

text \<open>
  The handlers of the realtime issue events (\<open>packages/core/issues/ws-updaters.ts\<close>): each brings
  the query cache up to date with a change the server has committed. Label lists, metadata and
  property bags are fields of \<open>iss_other\<close> and stand for their reference. An operation that calls a
  method of data of another shape throws: its result is \<open>None\<close>.
\<close>

section \<open>Patching every copy\<close>

text \<open>The patch \<open>{ [name]: v }\<close> of one of the fields no rule reads.\<close>

definition field_patch :: "jstr \<Rightarrow> jstr \<Rightarrow> issue_patch" where
  "field_patch name v = no_patch\<lparr>p_other := [(name, v)]\<rparr>"

definition patch_list_entry ::
    "'q query_client \<Rightarrow> jstr \<Rightarrow> issue_patch \<Rightarrow> query_key \<times> cache_data option \<Rightarrow> 'q \<Rightarrow> 'q option" where
  "patch_list_entry qc issueId p entry q =
     (case snd entry of
        None \<Rightarrow> Some q
      | Some (DBuckets c) \<Rightarrow>
          Some (setQueryData qc (fst entry)
                  (DBuckets (case patchIssueInBuckets c issueId p of None \<Rightarrow> c | Some c' \<Rightarrow> c')) q)
      | Some _ \<Rightarrow> None)"

definition patch_list_caches :: "'q query_client \<Rightarrow> jstr \<Rightarrow> jstr \<Rightarrow> issue_patch \<Rightarrow> 'q \<Rightarrow> 'q option" where
  "patch_list_caches qc ws issueId p q =
     fold_throw (patch_list_entry qc issueId p) (getQueriesData qc (issue_list ws) q) q"

definition patch_flat_entry ::
    "'q query_client \<Rightarrow> jstr \<Rightarrow> issue_patch \<Rightarrow> query_key \<times> cache_data option \<Rightarrow> 'q \<Rightarrow> 'q" where
  "patch_flat_entry qc issueId p entry q =
     (case snd entry of
        Some (DFlat pages rest) \<Rightarrow>
          setQueryData qc (fst entry)
            (DFlat (map (\<lambda>page. page\<lparr>fp_issues := map (patch_row issueId p) (fp_issues page)\<rparr>) pages) rest) q
      | _ \<Rightarrow> q)"

definition patchIssueInFlatCaches :: "'q query_client \<Rightarrow> jstr \<Rightarrow> jstr \<Rightarrow> issue_patch \<Rightarrow> 'q \<Rightarrow> 'q" where
  "patchIssueInFlatCaches qc ws issueId p q =
     fold (patch_flat_entry qc issueId p) (getQueriesData qc (issue_flatAll ws) q) q"

definition patch_children_entry ::
    "'q query_client \<Rightarrow> jstr \<Rightarrow> issue_patch \<Rightarrow> query_key \<times> cache_data option \<Rightarrow> 'q \<Rightarrow> 'q option" where
  "patch_children_entry qc issueId p entry q =
     (case snd entry of
        None \<Rightarrow> Some q
      | Some (DIssueList l) \<Rightarrow>
          Some (if list_ex (\<lambda>child. iss_id child = issueId) l
                then setQueryData qc (fst entry) (DIssueList (map (patch_row issueId p) l)) q else q)
      | Some _ \<Rightarrow> None)"

definition patchIssueInChildrenCaches :: "'q query_client \<Rightarrow> jstr \<Rightarrow> jstr \<Rightarrow> issue_patch \<Rightarrow> 'q \<Rightarrow> 'q option" where
  "patchIssueInChildrenCaches qc ws issueId p q =
     fold_throw (patch_children_entry qc issueId p) (getQueriesData qc (issue_childrenAll ws) q) q"

definition patch_table_entry ::
    "'q query_client \<Rightarrow> jstr \<Rightarrow> issue_patch \<Rightarrow> query_key \<times> cache_data option \<Rightarrow> 'q \<Rightarrow> 'q" where
  "patch_table_entry qc issueId p entry q =
     (case snd entry of
        Some (DTable rows rest) \<Rightarrow>
          if list_ex (\<lambda>row. iss_id (tr_issue row) = issueId) rows
          then setQueryData qc (fst entry)
                 (DTable (map (\<lambda>row. row\<lparr>tr_issue := patch_row issueId p (tr_issue row)\<rparr>) rows) rest) q
          else q
      | _ \<Rightarrow> q)"

definition patchIssueInTableCaches :: "'q query_client \<Rightarrow> jstr \<Rightarrow> jstr \<Rightarrow> issue_patch \<Rightarrow> 'q \<Rightarrow> 'q" where
  "patchIssueInTableCaches qc ws issueId p q =
     fold (patch_table_entry qc issueId p) (getQueriesData qc (issue_tableAll ws) q) q"

definition patch_detail :: "'q query_client \<Rightarrow> jstr \<Rightarrow> jstr \<Rightarrow> issue_patch \<Rightarrow> 'q \<Rightarrow> 'q" where
  "patch_detail qc ws issueId p q =
     (case getQueryData qc q (issue_detail ws issueId) of
        Some (DIssue i) \<Rightarrow> setQueryData qc (issue_detail ws issueId) (DIssue (merge_issue i p)) q
      | _ \<Rightarrow> q)"

definition patch_byIssue :: "'q query_client \<Rightarrow> jstr \<Rightarrow> jstr \<Rightarrow> jstr \<Rightarrow> 'q \<Rightarrow> 'q" where
  "patch_byIssue qc ws issueId labels q =
     (case getQueryData qc q (label_byIssue ws issueId) of
        Some (DLabels _ rest) \<Rightarrow> setQueryData qc (label_byIssue ws issueId) (DLabels labels rest) q
      | _ \<Rightarrow> q)"

definition patch_gantt_entry ::
    "'q query_client \<Rightarrow> jstr \<Rightarrow> issue_patch \<Rightarrow> query_key \<times> cache_data option \<Rightarrow> 'q \<Rightarrow> 'q option" where
  "patch_gantt_entry qc issueId p entry q =
     (case snd entry of
        None \<Rightarrow> Some q
      | Some (DIssueList l) \<Rightarrow> Some (setQueryData qc (fst entry) (DIssueList (map (patch_row issueId p) l)) q)
      | Some _ \<Rightarrow> None)"

definition patch_gantt_caches :: "'q query_client \<Rightarrow> jstr \<Rightarrow> jstr \<Rightarrow> issue_patch \<Rightarrow> 'q \<Rightarrow> 'q option" where
  "patch_gantt_caches qc ws issueId p q =
     fold_throw (patch_gantt_entry qc issueId p) (getQueriesData qc (issue_projectGanttAll ws) q) q"

section \<open>Labels, metadata and properties\<close>

definition patchIssueLabels :: "'q query_client \<Rightarrow> jstr \<Rightarrow> jstr \<Rightarrow> jstr \<Rightarrow> 'q \<Rightarrow> 'q option" where
  "patchIssueLabels qc ws issueId labels q =
     (let p = field_patch ''labels'' labels in
      do {
        q1 \<leftarrow> patch_list_caches qc ws issueId p q;
        let q2 = patchIssueInTableCaches qc ws issueId p (patchIssueInFlatCaches qc ws issueId p q1);
        let q3 = patch_byIssue qc ws issueId labels (patch_detail qc ws issueId p q2);
        q4 \<leftarrow> patchIssueInChildrenCaches qc ws issueId p q3;
        patch_gantt_caches qc ws issueId p q4
      })"

definition hasLabelFilter :: "query_key \<Rightarrow> bool" where
  "hasLabelFilter key = list_ex (\<lambda>part. case part of KBag b \<Rightarrow> some_items (f_label_ids b) | _ \<Rightarrow> False) key"

definition invalidateIssueLabelDerivatives :: "'q query_admin \<Rightarrow> jstr \<Rightarrow> 'q \<Rightarrow> 'q" where
  "invalidateIssueLabelDerivatives ad ws q =
     invalidateWhere ad (issue_flatAll ws) hasLabelFilter
       (fold (invalidateQueries ad)
          [issue_childrenAll ws, issue_childrenByParentsAll ws, issue_myAll ws, issue_assigneeGroupsAll ws,
           issue_myAssigneeGroupsAll ws, issue_tableAll ws] q)"

definition onIssueLabelsChanged ::
    "'q query_client \<Rightarrow> 'q query_admin \<Rightarrow> jstr \<Rightarrow> jstr \<Rightarrow> jstr \<Rightarrow> 'q \<Rightarrow> 'q option" where
  "onIssueLabelsChanged qc ad ws issueId labels q =
     do {
       q1 \<leftarrow> patchIssueLabels qc ws issueId labels q;
       Some (invalidateIssueLabelDerivatives ad ws q1)
     }"

definition onIssueMetadataChanged ::
    "'q query_client \<Rightarrow> 'q query_admin \<Rightarrow> jstr \<Rightarrow> jstr \<Rightarrow> jstr \<Rightarrow> 'q \<Rightarrow> 'q option" where
  "onIssueMetadataChanged qc ad ws issueId metadata q =
     (let p = field_patch ''metadata'' metadata in
      do {
        q1 \<leftarrow> patch_list_caches qc ws issueId p q;
        let q2 = patchIssueInTableCaches qc ws issueId p (patchIssueInFlatCaches qc ws issueId p q1);
        let q3 = invalidateQueries ad (issue_myAll ws) (patch_detail qc ws issueId p q2);
        Some (invalidateQueries ad (issue_tableAll ws) (invalidateUpdatedAtSortedIssueLists ad ws q3))
      })"

definition patchIssueProperties :: "'q query_client \<Rightarrow> jstr \<Rightarrow> jstr \<Rightarrow> jstr \<Rightarrow> 'q \<Rightarrow> 'q option" where
  "patchIssueProperties qc ws issueId properties q =
     (let p = field_patch ''properties'' properties in
      do {
        q1 \<leftarrow> patch_list_caches qc ws issueId p q;
        let q2 = patchIssueInTableCaches qc ws issueId p (patchIssueInFlatCaches qc ws issueId p q1);
        patchIssueInChildrenCaches qc ws issueId p (patch_detail qc ws issueId p q2)
      })"

definition hasPropertyWindow :: "query_key \<Rightarrow> bool" where
  "hasPropertyWindow key =
     list_ex (\<lambda>part. case part of
                KBag b \<Rightarrow> some_items (f_properties b)
                  \<or> (case s_sort_by b of None \<Rightarrow> False | Some s \<Rightarrow> prefix ''property:'' s)
              | _ \<Rightarrow> False) key"

definition invalidatePropertyWindowQueries :: "'q query_admin \<Rightarrow> jstr \<Rightarrow> 'q \<Rightarrow> 'q" where
  "invalidatePropertyWindowQueries ad ws q = invalidateWhere ad (issue_all ws) hasPropertyWindow q"

definition onIssuePropertiesChanged ::
    "'q query_client \<Rightarrow> 'q query_admin \<Rightarrow> jstr \<Rightarrow> jstr \<Rightarrow> jstr \<Rightarrow> 'q \<Rightarrow> 'q option" where
  "onIssuePropertiesChanged qc ad ws issueId properties q =
     do {
       q1 \<leftarrow> patchIssueProperties qc ws issueId properties q;
       let q2 = fold (invalidateQueries ad)
                  [issue_childrenAll ws, issue_childrenByParentsAll ws, issue_myAll ws, issue_assigneeGroupsAll ws,
                   issue_myAssigneeGroupsAll ws, issue_tableAll ws] q1;
       Some (invalidateUpdatedAtSortedIssueLists ad ws (invalidatePropertyWindowQueries ad ws q2))
     }"

section \<open>Creation and deletion\<close>

text \<open>\<open>if (id)\<close> of an optional identifier.\<close>

definition given :: "jstr option \<Rightarrow> jstr list" where
  "given i = (case i of None \<Rightarrow> [] | Some s \<Rightarrow> if s = [] then [] else [s])"

definition add_list_entry ::
    "'q query_client \<Rightarrow> issue \<Rightarrow> query_key \<times> cache_data option \<Rightarrow> 'q \<Rightarrow> 'q option" where
  "add_list_entry qc i entry q =
     (case snd entry of
        None \<Rightarrow> Some q
      | Some (DBuckets c) \<Rightarrow>
          Some (setQueryData qc (fst entry)
                  (DBuckets (case addIssueToBuckets c i of None \<Rightarrow> c | Some c' \<Rightarrow> c')) q)
      | Some _ \<Rightarrow> None)"

definition onIssueCreated :: "'q query_client \<Rightarrow> 'q query_admin \<Rightarrow> jstr \<Rightarrow> issue \<Rightarrow> 'q \<Rightarrow> 'q option" where
  "onIssueCreated qc ad ws i q =
     do {
       q1 \<leftarrow> fold_throw (add_list_entry qc i) (getQueriesData qc (issue_list ws) q) q;
       let q2 = fold (invalidateQueries ad)
                  [issue_myAll ws, issue_flatAll ws, issue_tableAll ws, issue_assigneeGroupsAll ws,
                   issue_myAssigneeGroupsAll ws] q1;
       let q3 = (if given (iss_project_id i) = [] then q2 else invalidateQueries ad (project_all ws) q2);
       let q4 = invalidateQueries ad (issue_projectGanttAll ws) q3;
       Some (fold (\<lambda>parent q. invalidateQueries ad (issue_childProgress ws)
                                (invalidateQueries ad (issue_children ws parent) q))
               (given (iss_parent_issue_id i)) q4)
     }"

definition onIssueDeleted ::
    "'q query_client \<Rightarrow> 'q query_admin \<Rightarrow> jstr \<Rightarrow> jstr \<Rightarrow> 'q \<times> recent_store \<Rightarrow> ('q \<times> recent_store) option" where
  "onIssueDeleted qc ad ws issueId st =
     do {
       (q, recents) \<leftarrow> cleanupDeletedIssueCaches qc ad ws issueId None st;
       Some (fold (invalidateQueries ad)
               [issue_assigneeGroupsAll ws, issue_myAssigneeGroupsAll ws, project_all ws] q, recents)
     }"

section \<open>Updates\<close>

fun find_in_pages :: "jstr \<Rightarrow> flat_page list \<Rightarrow> issue option" where
  "find_in_pages issueId [] = None"
| "find_in_pages issueId (page # pages) =
     (case find (\<lambda>i. iss_id i = issueId) (fp_issues page) of
        Some i \<Rightarrow> Some i | None \<Rightarrow> find_in_pages issueId pages)"

fun find_in_entries :: "jstr \<Rightarrow> (query_key \<times> cache_data option) list \<Rightarrow> issue option" where
  "find_in_entries issueId [] = None"
| "find_in_entries issueId ((_, d) # rest) =
     (case (case d of Some (DFlat pages _) \<Rightarrow> find_in_pages issueId pages | _ \<Rightarrow> None) of
        Some i \<Rightarrow> Some i | None \<Rightarrow> find_in_entries issueId rest)"

definition findIssueInFlatCaches :: "'q query_client \<Rightarrow> jstr \<Rightarrow> jstr \<Rightarrow> 'q \<Rightarrow> issue option" where
  "findIssueInFlatCaches qc ws issueId q = find_in_entries issueId (getQueriesData qc (issue_flatAll ws) q)"

text \<open>The issue in the first list query; its data may be missing or of another shape.\<close>

definition find_in_first_list :: "jstr \<Rightarrow> (query_key \<times> cache_data option) list \<Rightarrow> issue option option" where
  "find_in_first_list issueId entries =
     (case entries of
        (_, Some (DBuckets c)) # _ \<Rightarrow> Some (map_option snd (findIssueLocation c issueId))
      | (_, Some _) # _ \<Rightarrow> None
      | _ \<Rightarrow> Some None)"

definition detail_data :: "'q query_client \<Rightarrow> jstr \<Rightarrow> jstr \<Rightarrow> 'q \<Rightarrow> issue option" where
  "detail_data qc ws issueId q =
     (case getQueryData qc q (issue_detail ws issueId) of Some (DIssue i) \<Rightarrow> Some i | _ \<Rightarrow> None)"

text \<open>\<open>??\<close> evaluates its right side only when it is needed.\<close>

definition cachedIssue :: "'q query_client \<Rightarrow> jstr \<Rightarrow> jstr \<Rightarrow> 'q \<Rightarrow> issue option option" where
  "cachedIssue qc ws issueId q =
     (case detail_data qc ws issueId q of
        Some i \<Rightarrow> Some (Some i)
      | None \<Rightarrow>
          (case find_in_first_list issueId (getQueriesData qc (issue_list ws) q) of
             None \<Rightarrow> None
           | Some (Some i) \<Rightarrow> Some (Some i)
           | Some None \<Rightarrow> Some (findIssueInFlatCaches qc ws issueId q)))"

record update_meta =
  m_assigneeChanged :: "bool option"
  m_statusChanged :: "bool option"
  m_projectChanged :: "bool option"

text \<open>A written field that differs from the cached copy, if there is one.\<close>

definition differs :: "'a option \<Rightarrow> (issue \<Rightarrow> 'a) \<Rightarrow> issue option \<Rightarrow> bool" where
  "differs written field cached =
     (case (written, cached) of (Some v, Some i) \<Rightarrow> v \<noteq> field i | _ \<Rightarrow> False)"

definition event_dims :: "update_meta \<Rightarrow> issue_patch \<Rightarrow> issue option \<Rightarrow> IssueChangedDims" where
  "event_dims meta p cached =
     \<lparr>d_assignee = (case m_assigneeChanged meta of
         Some b \<Rightarrow> b
       | None \<Rightarrow> differs (p_assignee_id p) iss_assignee_id cached \<or> differs (p_assignee_type p) iss_assignee_type cached),
      d_project = (case m_projectChanged meta of
         Some b \<Rightarrow> b
       | None \<Rightarrow> (case p_project_id p of
                    None \<Rightarrow> False
                  | Some v \<Rightarrow> v \<noteq> Option.bind cached iss_project_id)),
      d_status = (case m_statusChanged meta of
         Some b \<Rightarrow> b
       | None \<Rightarrow> differs (p_status p) iss_status cached)\<rparr>"

text \<open>The old parent's children list takes the patch when the issue stays, and is marked stale when
  it leaves.\<close>

definition sync_old_parent ::
    "'q query_client \<Rightarrow> 'q query_admin \<Rightarrow> jstr \<Rightarrow> jstr \<Rightarrow> issue_patch \<Rightarrow> bool \<Rightarrow> jstr \<Rightarrow> 'q \<Rightarrow> 'q option" where
  "sync_old_parent qc ad ws issueId p parentChanged parent q =
     (if parentChanged then Some (invalidateQueries ad (issue_children ws parent) q)
      else (case getQueryData qc q (issue_children ws parent) of
              None \<Rightarrow> Some q
            | Some (DIssueList l) \<Rightarrow>
                Some (setQueryData qc (issue_children ws parent) (DIssueList (map (patch_row issueId p) l)) q)
            | Some _ \<Rightarrow> None))"

definition onIssueUpdated ::
    "'q query_client \<Rightarrow> 'q query_admin \<Rightarrow> jstr \<Rightarrow> jstr \<Rightarrow> issue_patch \<Rightarrow> update_meta \<Rightarrow> 'q \<Rightarrow> 'q option" where
  "onIssueUpdated qc ad ws issueId p meta q =
     do {
       cached \<leftarrow> cachedIssue qc ws issueId q;
       let oldParentId = Option.bind cached iss_parent_issue_id;
       let newParentId = Option.bind (p_parent_issue_id p) (\<lambda>v. v);
       let parentChanged = (p_parent_issue_id p \<noteq> None \<and> newParentId \<noteq> oldParentId);
       let change = applyIssueChange qc ws issueId p (event_dims meta p cached) cached q;
       let q1 = invalidateStaleListKeys ad (staleKeys change) (ch_client change);
       let q2 = invalidateIssueDerivatives ad ws (p_status p \<noteq> None \<or> p_project_id p \<noteq> None) q1;
       let q3 = invalidateQueries ad (issue_tableAll ws) q2;
       q4 \<leftarrow> fold_throw (sync_old_parent qc ad ws issueId p parentChanged) (given oldParentId) q3;
       let q5 = (if parentChanged
                 then fold (\<lambda>parent. invalidateQueries ad (issue_children ws parent)) (given newParentId) q4 else q4);
       Some (if given oldParentId = [] \<and> given newParentId = [] then q5
             else
               let q6 = (if p_status p \<noteq> None \<or> p_parent_issue_id p \<noteq> None
                         then invalidateQueries ad (issue_childProgress ws) q5 else q5)
               in invalidateQueries ad (issue_childrenByParentsAll ws) q6)
     }"

end
