(* ===== verification/Issue_Update.thy ===== *)
theory Issue_Update
  imports Issue_Events
begin

text \<open>
  Creating and updating an issue and loading more of a list (\<open>useCreateIssue\<close>, \<open>useUpdateIssue\<close> and
  \<open>useLoadMoreByStatus\<close> of \<open>packages/core/issues/mutations.ts\<close>): the optimistic change, its
  reconciliation with the server's answer, its rollback, and what is refreshed when it settles.
\<close>

section \<open>Loading more\<close>

text \<open>The page appended to a bucket: the issues it does not hold yet, and the server's new total.\<close>

definition append_page :: "list_cache \<Rightarrow> IssueStatus \<Rightarrow> issue list \<Rightarrow> nat \<Rightarrow> list_cache" where
  "append_page old status fetched n =
     (let prev = getBucket old status;
          appended = filter (\<lambda>i. iss_id i \<notin> iss_id ` set (b_issues prev)) fetched
      in setBucket old status \<lparr>b_issues = b_issues prev @ appended, b_total = n\<rparr>)"

definition load_more_loaded :: "list_cache option \<Rightarrow> IssueStatus \<Rightarrow> nat \<times> nat" where
  "load_more_loaded cache status =
     (case cache of
        None \<Rightarrow> (0, 0)
      | Some c \<Rightarrow> (case map_get c status of None \<Rightarrow> (0, 0) | Some b \<Rightarrow> (length (b_issues b), b_total b)))"

text \<open>The server's page at an offset is a parameter; \<open>None\<close> is a failed request.\<close>

definition loadMore ::
    "(IssueStatus \<Rightarrow> nat \<Rightarrow> (issue list \<times> nat) option) \<Rightarrow> IssueStatus \<Rightarrow> list_cache option \<Rightarrow> list_cache option" where
  "loadMore fetch status cache =
     (let (loaded, known) = load_more_loaded cache status in
      if \<not> loaded < known then cache
      else (case fetch status loaded of
              None \<Rightarrow> cache
            | Some (issues, n) \<Rightarrow> map_option (\<lambda>old. append_page old status issues n) cache))"

section \<open>Creating\<close>

definition workflow_instance :: "jstr \<Rightarrow> jstr \<Rightarrow> query_key" where
  "workflow_instance ws i = [KStr ''workflows'', KStr ws, KStr ''instance'', KStr i]"

definition workflow_of :: "jstr jsobj \<Rightarrow> jstr option" where
  "workflow_of bag = obj_get bag ''workflow_instance_id''"

definition create_onSuccess ::
    "'q query_client \<Rightarrow> 'q query_admin \<Rightarrow> int \<Rightarrow> jstr \<Rightarrow> issue \<Rightarrow> 'q \<times> recent_store \<Rightarrow> ('q \<times> recent_store) option" where
  "create_onSuccess qc ad now ws newIssue st =
     (let (q, recents) = st in
      do {
        q1 \<leftarrow> fold_throw (add_list_entry qc newIssue) (getQueriesData qc (issue_list ws) q) q;
        let q2 = fold (\<lambda>i. invalidateQueries ad (workflow_instance ws i)) (given (workflow_of (iss_other newIssue))) q1;
        let recents' = recordVisit now ws (iss_id newIssue) recents;
        Some (fold (\<lambda>parent q. invalidateQueries ad (issue_childProgress ws)
                                 (invalidateQueries ad (issue_children ws parent) q))
                (given (iss_parent_issue_id newIssue)) q2, recents')
      })"

definition create_onSettled :: "'q query_admin \<Rightarrow> jstr \<Rightarrow> 'q \<Rightarrow> 'q" where
  "create_onSettled ad ws q =
     fold (invalidateQueries ad)
       [issue_list ws, issue_flatAll ws, issue_tableAll ws, issue_assigneeGroupsAll ws,
        issue_myAssigneeGroupsAll ws, issue_projectGanttAll ws, project_all ws] q"

section \<open>Updating\<close>

text \<open>The written fields, without the control fields, and whether attachments are bound.\<close>

record update_vars =
  uv_patch :: issue_patch
  uv_attachments :: bool

record 'q update_context =
  uc_change :: "'q change"
  uc_prevChildren :: "cache_data option"
  uc_parentId :: "jstr option"

fun parent_from_children :: "jstr \<Rightarrow> (query_key \<times> cache_data option) list \<Rightarrow> jstr option option" where
  "parent_from_children issueId [] = Some None"
| "parent_from_children issueId ((key, d) # rest) =
     (case d of
        None \<Rightarrow> parent_from_children issueId rest
      | Some (DIssueList l) \<Rightarrow>
          if list_ex (\<lambda>c. iss_id c = issueId) l
          then (case parentIdFromChildrenKey key of
                  Some candidate \<Rightarrow> Some (Some candidate)
                | None \<Rightarrow> parent_from_children issueId rest)
          else parent_from_children issueId rest
      | Some _ \<Rightarrow> None)"

definition resolve_parent ::
    "'q query_client \<Rightarrow> jstr \<Rightarrow> jstr \<Rightarrow> issue option \<Rightarrow> issue option \<Rightarrow> 'q \<Rightarrow> jstr option option" where
  "resolve_parent qc ws issueId detail prev q =
     (case given (first_known (Option.bind detail iss_parent_issue_id) (Option.bind prev iss_parent_issue_id)) of
        p # _ \<Rightarrow> Some (Some p)
      | [] \<Rightarrow> parent_from_children issueId (getQueriesData qc (issue_childrenAll ws) q))"

definition patch_children_of ::
    "'q query_client \<Rightarrow> jstr \<Rightarrow> jstr \<Rightarrow> issue_patch \<Rightarrow> jstr \<Rightarrow> 'q \<Rightarrow> 'q option" where
  "patch_children_of qc ws issueId p parentId q =
     (let detachedFromParent = (case p_parent_issue_id p of None \<Rightarrow> False | Some v \<Rightarrow> v \<noteq> Some parentId) in
      case getQueryData qc q (issue_children ws parentId) of
        None \<Rightarrow> Some q
      | Some (DIssueList l) \<Rightarrow>
          Some (setQueryData qc (issue_children ws parentId)
                  (DIssueList (if detachedFromParent then filter (\<lambda>c. iss_id c \<noteq> issueId) l
                               else map (patch_row issueId p) l)) q)
      | Some _ \<Rightarrow> None)"

text \<open>A throw leaves the cache as the change has written it, and no context to roll back.\<close>

definition update_onMutate ::
    "'q query_client \<Rightarrow> jstr \<Rightarrow> jstr \<Rightarrow> issue_patch \<Rightarrow> 'q \<Rightarrow> 'q \<times> 'q update_context option" where
  "update_onMutate qc ws issueId p q =
     (let prevDetail = detail_data qc ws issueId q;
          change = applyIssueChange qc ws issueId p (issueChangedDims p prevDetail) prevDetail q;
          q1 = ch_client change
      in case resolve_parent qc ws issueId prevDetail (prevIssue change) q1 of
           None \<Rightarrow> (q1, None)
         | Some parentId \<Rightarrow>
             let prevChildren = (case given parentId of [] \<Rightarrow> None
                                 | parent # _ \<Rightarrow> getQueryData qc q1 (issue_children ws parent))
             in (case fold_throw (patch_children_of qc ws issueId p) (given parentId) q1 of
                   None \<Rightarrow> (q1, None)
                 | Some q2 \<Rightarrow>
                     (q2, Some \<lparr>uc_change = change, uc_prevChildren = prevChildren, uc_parentId = parentId\<rparr>)))"

definition update_onError :: "'q query_client \<Rightarrow> jstr \<Rightarrow> jstr \<Rightarrow> 'q update_context \<Rightarrow> 'q \<Rightarrow> 'q" where
  "update_onError qc ws issueId ctx q =
     (let q1 = rollbackIssueChange qc ws issueId (uc_change ctx) q in
      case (given (uc_parentId ctx), uc_prevChildren ctx) of
        (parent # _, Some d) \<Rightarrow> setQueryData qc (issue_children ws parent) d q1
      | _ \<Rightarrow> q1)"

text \<open>\<open>{ ...serverIssue }\<close> without its \<open>properties\<close>.\<close>

definition reconcilable :: "issue \<Rightarrow> issue_patch" where
  "reconcilable s =
     \<lparr>p_title = Some (iss_title s), p_status = Some (iss_status s), p_priority = Some (iss_priority s),
      p_assignee_type = Some (iss_assignee_type s), p_assignee_id = Some (iss_assignee_id s),
      p_creator_id = Some (iss_creator_id s), p_parent_issue_id = Some (iss_parent_issue_id s),
      p_project_id = Some (iss_project_id s), p_position = Some (iss_position s),
      p_start_date = Some (iss_start_date s), p_due_date = Some (iss_due_date s),
      p_created_at = Some (iss_created_at s), p_updated_at = Some (iss_updated_at s),
      p_other = obj_delete ''properties'' (iss_other s)\<rparr>"

definition update_onSuccess ::
    "'q query_client \<Rightarrow> 'q query_admin \<Rightarrow> jstr \<Rightarrow> issue \<Rightarrow> issue_patch \<Rightarrow> 'q \<Rightarrow> 'q" where
  "update_onSuccess qc ad ws serverIssue intent q =
     (let reconcile = applyIssueChange qc ws (iss_id serverIssue) (reconcilable serverIssue)
                        (issueChangedDims intent (Some serverIssue)) (Some serverIssue) q
      in invalidateStaleListKeys ad (staleKeys reconcile) (ch_client reconcile))"

definition settle_parents ::
    "'q query_admin \<Rightarrow> jstr \<Rightarrow> jstr option \<Rightarrow> jstr option \<Rightarrow> 'q \<Rightarrow> 'q" where
  "settle_parents ad ws old new q =
     (let refresh = (\<lambda>parent q. invalidateQueries ad (issue_childProgress ws)
                                  (invalidateQueries ad (issue_children ws parent) q));
          q1 = fold refresh (given old) q;
          q2 = (if new \<noteq> old then fold refresh (given new) q1 else q1)
      in if given old = [] \<and> given new = [] then q2 else invalidateQueries ad (issue_childrenByParentsAll ws) q2)"

definition update_onSettled ::
    "'q query_admin \<Rightarrow> jstr \<Rightarrow> jstr \<Rightarrow> update_vars \<Rightarrow> issue option \<Rightarrow> 'q update_context option \<Rightarrow> 'q \<Rightarrow> 'q" where
  "update_onSettled ad ws issueId vars answer ctx q =
     (let p = uv_patch vars;
          q1 = invalidateIssueDerivatives ad ws (p_status p \<noteq> None \<or> p_project_id p \<noteq> None) q;
          q2 = invalidateQueries ad (issue_tableAll ws) q1;
          q3 = (case ctx of None \<Rightarrow> q2 | Some c \<Rightarrow> invalidateStaleListKeys ad (staleKeys (uc_change c)) q2);
          q4 = (if uv_attachments vars then invalidateQueries ad (issue_scoped ''attachments'' issueId) q3 else q3);
          q5 = settle_parents ad ws (Option.bind ctx uc_parentId) (Option.bind (p_parent_issue_id p) (\<lambda>v. v)) q4;
          prev = Option.bind ctx (\<lambda>c. prevIssue (uc_change c));
          affected = remdups (concat (map given
            [Option.bind prev (\<lambda>i. workflow_of (iss_other i)), Option.bind answer (\<lambda>i. workflow_of (iss_other i)),
             workflow_of (p_other p)]))
      in fold (\<lambda>i. invalidateQueries ad (workflow_instance ws i)) affected q5)"

text \<open>A run of the mutation; \<open>answer\<close> is the server's entity, or \<open>None\<close> for a refused request.\<close>

datatype update_outcome = UpdateNotSent | UpdateFailed | Updated

definition useUpdateIssue ::
    "'q query_client \<Rightarrow> 'q query_admin \<Rightarrow> jstr \<Rightarrow> jstr \<Rightarrow> update_vars \<Rightarrow> issue option \<Rightarrow> 'q \<Rightarrow> update_outcome \<times> 'q" where
  "useUpdateIssue qc ad ws issueId vars answer q =
     (case update_onMutate qc ws issueId (uv_patch vars) q of
        (q1, None) \<Rightarrow> (UpdateNotSent, update_onSettled ad ws issueId vars None None q1)
      | (q1, Some ctx) \<Rightarrow>
          (case answer of
             None \<Rightarrow> (UpdateFailed, update_onSettled ad ws issueId vars None (Some ctx) (update_onError qc ws issueId ctx q1))
           | Some serverIssue \<Rightarrow>
               (Updated, update_onSettled ad ws issueId vars answer (Some ctx)
                           (update_onSuccess qc ad ws serverIssue (uv_patch vars) q1))))"

end
