(* ===== verification/Issue_Delete_Properties.thy ===== *)
theory Issue_Delete_Properties
  imports Issue_Delete Issue_Properties
begin

text \<open>
  The guarantees of deleting an issue: a deletion the server accepts leaves no trace of the issue in
  the lists, a refused one restores every query, and the one shape of cache that prevents it.
\<close>

section \<open>Steps that may throw\<close>

lemma fold_throw_None: "x \<in> set xs \<Longrightarrow> (\<And>acc. f x acc = None) \<Longrightarrow> fold_throw f xs acc = None"
  by (induction xs arbitrary: acc) (auto split: option.split)

lemma fold_throw_Some:
  assumes "\<And>x acc. x \<in> set xs \<Longrightarrow> I acc \<Longrightarrow> \<exists>acc'. f x acc = Some acc' \<and> I acc'"
  shows "I acc \<Longrightarrow> \<exists>acc'. fold_throw f xs acc = Some acc' \<and> I acc'"
  using assms
proof (induction xs arbitrary: acc)
  case (Cons x xs)
  from Cons.prems(2) [of x acc] Cons.prems(1) obtain a where a: "f x acc = Some a" "I a" by auto
  from Cons.IH [OF a(2)] Cons.prems(2) have "\<exists>acc'. fold_throw f xs a = Some acc' \<and> I acc'" by simp
  with a(1) show ?case by simp
qed simp

text \<open>A step keeps what it has and adds what its element calls for.\<close>

lemma fold_throw_collects:
  assumes "fold_throw f xs acc = Some acc'" "x \<in> set xs"
    and "\<And>x a a'. x \<in> set xs \<Longrightarrow> f x a = Some a' \<Longrightarrow> set a \<subseteq> set a'"
    and "\<And>a a'. f x a = Some a' \<Longrightarrow> p \<in> set a'"
  shows "p \<in> set acc'"
proof -
  have grow: "(\<And>x a a'. x \<in> set ys \<Longrightarrow> f x a = Some a' \<Longrightarrow> set a \<subseteq> set a') \<Longrightarrow>
      fold_throw f ys a = Some a' \<Longrightarrow> set a \<subseteq> set a'" for ys a a'
  proof (induction ys arbitrary: a)
    case (Cons y ys)
    from Cons.prems(2) obtain b where b: "f y a = Some b" "fold_throw f ys b = Some a'"
      by (auto split: option.splits)
    have "set a \<subseteq> set b" using Cons.prems(1) [of y a b] b(1) by simp
    moreover have "set b \<subseteq> set a'" by (rule Cons.IH [OF _ b(2)]) (rule Cons.prems(1), simp_all)
    ultimately show ?case by simp
  qed simp
  show ?thesis
    using assms
  proof (induction xs arbitrary: acc)
    case (Cons y ys)
    from Cons.prems(1) obtain b where b: "f y acc = Some b" "fold_throw f ys b = Some acc'"
      by (auto split: option.splits)
    show ?case
    proof (cases "x = y")
      case True
      with Cons.prems(4) b(1) have "p \<in> set b" by simp
      moreover have "set b \<subseteq> set acc'" by (rule grow [OF _ b(2)]) (rule Cons.prems(3), simp_all)
      ultimately show ?thesis by blast
    next
      case False
      with Cons.prems(2) have "x \<in> set ys" by simp
      from Cons.IH [OF b(2) this] Cons.prems(3,4) show ?thesis by (meson list.set_intros(2))
    qed
  qed simp
qed

section \<open>The administration\<close>

lemma fold_invalidate:
  assumes "query_admin_ok qc ad"
  shows "getQueryData qc (fold (invalidateQueries ad) ps q) k = getQueryData qc q k"
    "getQueryData qc q k \<noteq> None \<Longrightarrow>
     isStale ad (fold (invalidateQueries ad) ps q) k = ((\<exists>p \<in> set ps. prefix p k) \<or> isStale ad q k)"
proof -
  show get: "getQueryData qc (fold (invalidateQueries ad) ps q) k = getQueryData qc q k" for ps q
    by (induction ps arbitrary: q) (simp_all add: admin_get(2) [OF assms])
  show "getQueryData qc q k \<noteq> None \<Longrightarrow>
     isStale ad (fold (invalidateQueries ad) ps q) k = ((\<exists>p \<in> set ps. prefix p k) \<or> isStale ad q k)"
  proof (induction ps arbitrary: q)
    case (Cons p ps)
    then have "getQueryData qc (invalidateQueries ad p q) k \<noteq> None" by (simp add: admin_get(2) [OF assms])
    from Cons.IH [OF this] admin_get(3) [OF assms Cons.prems, of p] show ?case by auto
  qed simp
qed

lemma fold_remove:
  assumes "query_admin_ok qc ad"
  shows "getQueryData qc (fold (removeQueries ad) ps q) k = (if \<exists>p \<in> set ps. prefix p k then None else getQueryData qc q k)"
  by (induction ps arbitrary: q) (auto simp: admin_get(1) [OF assms])

lemma parents_fold: "fold (\<lambda>p. invalidateQueries ad (issue_children ws p)) m = fold (invalidateQueries ad) (map (issue_children ws) m)"
  by (simp add: fold_map comp_def)

lemma parents_get:
  assumes "query_admin_ok qc ad"
  shows "getQueryData qc (invalidateDeletedIssueParentCaches ad ws m q) k = getQueryData qc q k"
    "getQueryData qc q k \<noteq> None \<Longrightarrow> isStale ad q k \<Longrightarrow> isStale ad (invalidateDeletedIssueParentCaches ad ws m q) k"
  by (simp_all add: invalidateDeletedIssueParentCaches_def Let_def parents_fold fold_invalidate [OF assms]
      admin_get(2,3) [OF assms])

section \<open>What pruning leaves\<close>

definition pruned_list :: "jstr \<Rightarrow> cache_data \<Rightarrow> cache_data" where
  "pruned_list i d = (case d of DBuckets c \<Rightarrow> DBuckets (prune_buckets i c) | _ \<Rightarrow> d)"

definition pruned_flat :: "jstr \<Rightarrow> cache_data \<Rightarrow> cache_data" where
  "pruned_flat i d =
     (case d of
        DFlat pages rest \<Rightarrow>
          if list_ex (\<lambda>page. list_ex (\<lambda>j. iss_id j = i) (fp_issues page)) pages
          then DFlat (map (prune_page i) pages) rest else d
      | _ \<Rightarrow> d)"

definition pruned_children :: "jstr \<Rightarrow> cache_data \<Rightarrow> cache_data" where
  "pruned_children i d = (case d of DIssueList l \<Rightarrow> DIssueList (filter (\<lambda>j. iss_id j \<noteq> i) l) | _ \<Rightarrow> d)"

lemma prune_list_effect:
  assumes ok: "query_client_ok qc"
  shows "fold_throw (prune_list_key qc i) es q = Some q' \<Longrightarrow> distinct (map fst es) \<Longrightarrow>
    getQueryData qc q' k = (if k \<in> fst ` set es then map_option (pruned_list i) (getQueryData qc q k) else getQueryData qc q k)"
proof (induction es arbitrary: q)
  case (Cons e es)
  from Cons.prems(1) obtain b where b: "prune_list_key qc i e q = Some b" "fold_throw (prune_list_key qc i) es b = Some q'"
    by (auto split: option.splits)
  have "getQueryData qc b k = (if k = fst e then map_option (pruned_list i) (getQueryData qc q k) else getQueryData qc q k)"
    using b(1) by (auto simp: prune_list_key_def Let_def pruned_list_def client_get_set [OF ok]
        split: option.splits cache_data.splits)
  with Cons.IH [OF b(2)] Cons.prems(2) show ?case by auto
qed simp

lemma prune_flat_effect:
  assumes ok: "query_client_ok qc"
  shows "distinct (map fst es) \<Longrightarrow> \<forall>(k, d) \<in> set es. d = getQueryData qc q k \<Longrightarrow>
    getQueryData qc (fold (prune_flat_key qc i) es q) k
      = (if k \<in> fst ` set es then map_option (pruned_flat i) (getQueryData qc q k) else getQueryData qc q k)"
proof (induction es arbitrary: q)
  case (Cons e es)
  let ?b = "prune_flat_key qc i e q"
  have b: "getQueryData qc ?b j = (if j = fst e then map_option (pruned_flat i) (getQueryData qc q j) else getQueryData qc q j)" for j
    using Cons.prems(2) by (cases e) (auto simp: prune_flat_key_def pruned_flat_def client_get_set [OF ok]
        split: option.splits cache_data.splits)
  have "\<forall>(j, d) \<in> set es. d = getQueryData qc ?b j"
  proof clarify
    fix j d assume jd: "(j, d) \<in> set es"
    then have "j \<in> fst ` set es" by force
    with Cons.prems(1) have "j \<noteq> fst e" by (cases "j = fst e") simp_all
    with Cons.prems(2) jd show "d = getQueryData qc ?b j" by (auto simp: b)
  qed
  from Cons.IH [OF _ this] Cons.prems(1) b show ?case by auto
qed simp

lemma pruned_children_twice: "pruned_children i (pruned_children i d) = pruned_children i d"
  by (simp add: pruned_children_def split: cache_data.split)

lemma prune_children_effect:
  assumes ok: "query_client_ok qc"
  shows "pruneDeletedIssueFromParentChildrenCaches qc ws i m q = Some q' \<Longrightarrow>
    getQueryData qc q' k = (if k \<in> issue_children ws ` set m then map_option (pruned_children i) (getQueryData qc q k)
      else getQueryData qc q k)"
  unfolding pruneDeletedIssueFromParentChildrenCaches_def
proof (induction m arbitrary: q)
  case (Cons p m)
  from Cons.prems obtain b where b: "prune_children qc ws i p q = Some b" "fold_throw (prune_children qc ws i) m b = Some q'"
    by (auto split: option.splits)
  have "getQueryData qc b k = (if k = issue_children ws p then map_option (pruned_children i) (getQueryData qc q k) else getQueryData qc q k)"
    using b(1) by (auto simp: prune_children_def pruned_children_def client_get_set [OF ok]
        split: option.splits cache_data.splits)
  with Cons.IH [OF b(2)] show ?case by (auto simp: option.map_comp comp_def pruned_children_twice)
qed simp

text \<open>The prefixes of the lists exclude one another.\<close>

lemma list_prefixes:
  "prefix (issue_list ws) k \<Longrightarrow> \<not> prefix (issue_myAll ws') k \<and> \<not> prefix (issue_flatAll ws') k"
  "prefix (issue_myAll ws) k \<Longrightarrow> \<not> prefix (issue_flatAll ws') k"
  using key_parts(1-3) by fastforce+

lemma listed:
  assumes "query_client_ok qc"
  shows "k \<in> fst ` set (getQueriesData qc p q) \<Longrightarrow> prefix p k"
    "getQueryData qc q k \<noteq> None \<Longrightarrow> prefix p k \<Longrightarrow> k \<in> fst ` set (getQueriesData qc p q)"
proof -
  show "prefix p k" if "k \<in> fst ` set (getQueriesData qc p q)"
  proof -
    from that obtain d where "(k, d) \<in> set (getQueriesData qc p q)" by force
    from client_find(2) [OF assms this] show ?thesis by simp
  qed
  show "k \<in> fst ` set (getQueriesData qc p q)" if "getQueryData qc q k \<noteq> None" "prefix p k"
  proof -
    from that(1) obtain v where "getQueryData qc q k = Some v" by auto
    from client_find(3) [OF assms that(2) this] show ?thesis by force
  qed
qed

lemma prune_lists_effect:
  assumes ok: "query_client_ok qc" and res: "pruneDeletedIssueFromListCaches qc ws i q = Some q'"
  shows "getQueryData qc q' k =
    (if prefix (issue_list ws) k \<or> prefix (issue_myAll ws) k then map_option (pruned_list i) (getQueryData qc q k)
     else if prefix (issue_flatAll ws) k then map_option (pruned_flat i) (getQueryData qc q k)
     else getQueryData qc q k)"
proof -
  obtain q1 q2 where q1: "fold_throw (prune_list_key qc i) (getQueriesData qc (issue_list ws) q) q = Some q1"
    and q2: "fold_throw (prune_list_key qc i) (getQueriesData qc (issue_myAll ws) q1) q1 = Some q2"
    and q': "q' = fold (prune_flat_key qc i) (getQueriesData qc (issue_flatAll ws) q2) q2"
    using res by (auto simp: pruneDeletedIssueFromListCaches_def split: option.splits)
  have member: "(if k \<in> fst ` set (getQueriesData qc p r) then map_option f (getQueryData qc r k) else getQueryData qc r k)
      = (if prefix p k then map_option f (getQueryData qc r k) else getQueryData qc r k)" for p r f
    using listed [OF ok] by (cases "getQueryData qc r k") auto
  have g1: "getQueryData qc q1 k = (if prefix (issue_list ws) k then map_option (pruned_list i) (getQueryData qc q k) else getQueryData qc q k)"
    using prune_list_effect [OF ok q1 client_find(1) [OF ok], of k] unfolding member .
  have g2: "getQueryData qc q2 k = (if prefix (issue_myAll ws) k then map_option (pruned_list i) (getQueryData qc q1 k) else getQueryData qc q1 k)"
    using prune_list_effect [OF ok q2 client_find(1) [OF ok], of k] unfolding member .
  have "\<forall>(k, d) \<in> set (getQueriesData qc (issue_flatAll ws) q2). d = getQueryData qc q2 k"
    using client_find(2) [OF ok] by blast
  from prune_flat_effect [OF ok client_find(1) [OF ok] this, of i k]
  have g3: "getQueryData qc q' k = (if prefix (issue_flatAll ws) k then map_option (pruned_flat i) (getQueryData qc q2 k) else getQueryData qc q2 k)"
    unfolding q' member .
  show ?thesis unfolding g3 g2 g1 using list_prefixes [of ws k] by auto
qed

section \<open>A refused deletion\<close>

lemma restore_fold:
  assumes ok: "query_client_ok qc"
  shows "\<forall>(k, d) \<in> set es. d = g k \<Longrightarrow>
    getQueryData qc (fold (restore_query qc) es q) k = (if k \<in> fst ` set es \<and> g k \<noteq> None then g k else getQueryData qc q k)"
proof (induction es arbitrary: q)
  case (Cons e es)
  have "getQueryData qc (restore_query qc e q) k = (if k = fst e \<and> g k \<noteq> None then g k else getQueryData qc q k)"
    using Cons.prems by (cases e) (auto simp: restore_query_def client_get_set [OF ok] split: option.split)
  with Cons show ?case by auto
qed simp

lemma restore_listing:
  assumes ok: "query_client_ok qc"
  shows "getQueryData qc (fold (restore_query qc) (getQueriesData qc p q0) q) k
    = (if prefix p k \<and> getQueryData qc q0 k \<noteq> None then getQueryData qc q0 k else getQueryData qc q k)"
proof -
  have "\<forall>(k, d) \<in> set (getQueriesData qc p q0). d = getQueryData qc q0 k" using client_find(2) [OF ok] by blast
  from restore_fold [OF ok this, where q = q and k = k] listed [OF ok, where k = k and p = p and q = q0] show ?thesis by auto
qed

lemma restore_children:
  assumes ok: "query_client_ok qc"
  shows "getQueryData qc (fold (\<lambda>(p, snapshot). restore_query qc (issue_children ws p, snapshot))
      (map (\<lambda>p. (p, getQueryData qc q0 (issue_children ws p))) m) q) k
    = (if k \<in> issue_children ws ` set m \<and> getQueryData qc q0 k \<noteq> None then getQueryData qc q0 k else getQueryData qc q k)"
proof -
  have "fold (\<lambda>(p, snapshot). restore_query qc (issue_children ws p, snapshot)) (map (\<lambda>p. (p, getQueryData qc q0 (issue_children ws p))) m)
      = fold (restore_query qc) (map (\<lambda>p. (issue_children ws p, getQueryData qc q0 (issue_children ws p))) m)"
    by (simp add: fold_map comp_def)
  moreover have "\<forall>(k, d) \<in> set (map (\<lambda>p. (issue_children ws p, getQueryData qc q0 (issue_children ws p))) m). d = getQueryData qc q0 k"
    by auto
  ultimately show ?thesis
    using restore_fold [OF ok, of "map (\<lambda>p. (issue_children ws p, getQueryData qc q0 (issue_children ws p))) m" "getQueryData qc q0", where q = q and k = k]
    by (simp add: image_image comp_def)
qed

text \<open>What \<open>onMutate\<close> changes, for the keys the snapshots cover.\<close>

lemma mutate_effect:
  assumes ok: "query_client_ok qc" "query_admin_ok qc ad" and res: "delete_onMutate qc ad ws i q = Some (q', ctx)"
  shows "ctx = \<lparr>dc_id = i, dc_metadata = dc_metadata ctx, dc_lists = getQueriesData qc (issue_list ws) q,
      dc_my = getQueriesData qc (issue_myAll ws) q, dc_flat = getQueriesData qc (issue_flatAll ws) q,
      dc_detail = getQueryData qc q (issue_detail ws i),
      dc_children = map (\<lambda>p. (p, getQueryData qc q (issue_children ws p))) (dc_metadata ctx)\<rparr>"
    "collectDeletedIssueCacheMetadata qc ws i q = Some (dc_metadata ctx)"
    "\<exists>q1 q2. pruneDeletedIssueFromListCaches qc ws i q = Some q1
      \<and> pruneDeletedIssueFromParentChildrenCaches qc ws i (dc_metadata ctx) q1 = Some q2
      \<and> q' = removeQueries ad (issue_detail ws i) q2"
  using res by (auto simp: delete_onMutate_def Let_def split: option.splits)

lemma mutate_get:
  assumes ok: "query_client_ok qc" "query_admin_ok qc ad" and res: "delete_onMutate qc ad ws i q = Some (q', ctx)"
  shows "getQueryData qc q' k =
    (if prefix (issue_detail ws i) k then None
     else if k \<in> issue_children ws ` set (dc_metadata ctx) then map_option (pruned_children i) (getQueryData qc q k)
     else if prefix (issue_list ws) k \<or> prefix (issue_myAll ws) k then map_option (pruned_list i) (getQueryData qc q k)
     else if prefix (issue_flatAll ws) k then map_option (pruned_flat i) (getQueryData qc q k)
     else getQueryData qc q k)"
proof -
  obtain q1 q2 where q1: "pruneDeletedIssueFromListCaches qc ws i q = Some q1"
    and q2: "pruneDeletedIssueFromParentChildrenCaches qc ws i (dc_metadata ctx) q1 = Some q2"
    and q': "q' = removeQueries ad (issue_detail ws i) q2"
    using mutate_effect(3) [OF ok res] by blast
  have "issue_part (issue_children ws p) = Some (KStr ''children'')" for p
    by (simp add: issue_part_def nth_part_def issue_children_def issue_childrenAll_def issue_all_def)
  then have "\<not> prefix (issue_list ws) (issue_children ws p) \<and> \<not> prefix (issue_myAll ws) (issue_children ws p)
      \<and> \<not> prefix (issue_flatAll ws) (issue_children ws p)" for p
    using key_parts(1-3) [of ws "issue_children ws p"] by auto
  then show ?thesis
    unfolding q' admin_get(1) [OF ok(2)] prune_children_effect [OF ok(1) q2] prune_lists_effect [OF ok(1) q1] by auto
qed

lemma error_restores:
  assumes ok: "query_client_ok qc" "query_admin_ok qc ad" and res: "delete_onMutate qc ad ws i q = Some (q', ctx)"
    and k: "prefix (issue_detail ws i) k \<longrightarrow> k = issue_detail ws i"
  shows "getQueryData qc (delete_onError qc ws ctx q') k = getQueryData qc q k"
proof -
  note g = mutate_get [OF ok res, of k]
  have detail: "getQueryData qc (restore_query qc (issue_detail ws i, getQueryData qc q (issue_detail ws i)) r) k
      = (if k = issue_detail ws i \<and> getQueryData qc q k \<noteq> None then getQueryData qc q k else getQueryData qc r k)" for r
    by (auto simp: restore_query_def client_get_set [OF ok(1)] split: option.split)
  show ?thesis
    unfolding delete_onError_def Let_def
    by (subst (1 2 3 4 5 6) mutate_effect(1) [OF ok res])
      (use g k in \<open>auto simp: restore_children [OF ok(1)] restore_listing [OF ok(1)] detail\<close>)
qed

text \<open>C30: a deletion that does not happen leaves no mark. Whether the server refuses it or it never
  gets there, every query reads afterwards exactly as before, and so does the list of recent issues.\<close>

theorem failed_delete_restores:
  assumes "query_client_ok qc" "query_admin_ok qc ad"
    and "\<forall>k. prefix (issue_detail ws i) k \<longrightarrow> getQueryData qc q k \<noteq> None \<longrightarrow> k = issue_detail ws i"
    and "useDeleteIssue qc ad ws False i (q, recents) = (outcome, q', recents')"
  shows "outcome \<noteq> Deleted \<and> recents' = recents \<and> getQueryData qc q' k = getQueryData qc q k"
proof (cases "delete_onMutate qc ad ws i q")
  case None
  with assms(4) show ?thesis
    by (auto simp: useDeleteIssue_def delete_onSettled_def fold_invalidate [OF assms(2)] simp del: fold.simps)
next
  case (Some r)
  obtain q1 ctx where r: "delete_onMutate qc ad ws i q = Some (q1, ctx)" using Some by (cases r) auto
  have "getQueryData qc (delete_onError qc ws ctx q1) k = getQueryData qc q k"
  proof (cases "prefix (issue_detail ws i) k \<and> k \<noteq> issue_detail ws i")
    case False
    then show ?thesis using error_restores [OF assms(1,2) r] by blast
  next
    case True
    then have none: "getQueryData qc q k = None" using assms(3) by blast
    have "getQueryData qc q1 k = None" using mutate_get [OF assms(1,2) r, of k] True by simp
    moreover have "getQueryData qc (restore_query qc (issue_detail ws i, d) s) k = getQueryData qc s k" for d s
      using True by (simp add: restore_query_def client_get_set [OF assms(1)] split: option.split)
    ultimately show ?thesis
      unfolding delete_onError_def Let_def
      by (subst (1 2 3 4 5 6) mutate_effect(1) [OF assms(1,2) r])
        (simp add: restore_children [OF assms(1)] restore_listing [OF assms(1)] none)
  qed
  with r assms(4) show ?thesis
    by (auto simp: useDeleteIssue_def delete_onSettled_def Let_def fold_invalidate [OF assms(2)] parents_get [OF assms(2)]
        simp del: fold.simps)
qed

section \<open>An accepted deletion\<close>

definition holds_issue :: "jstr \<Rightarrow> cache_data \<Rightarrow> bool" where
  "holds_issue i d =
     (case d of
        DBuckets c \<Rightarrow> list_ex (\<lambda>s. list_ex (\<lambda>j. iss_id j = i) (b_issues (getBucket c s))) ALL_STATUSES
      | DFlat pages rest \<Rightarrow> list_ex (\<lambda>page. list_ex (\<lambda>j. iss_id j = i) (fp_issues page)) pages
      | DIssueList l \<Rightarrow> list_ex (\<lambda>j. iss_id j = i) l
      | _ \<Rightarrow> False)"

text \<open>An issue is in one bucket at most.\<close>

definition single_home :: "jstr \<Rightarrow> list_cache \<Rightarrow> bool" where
  "single_home i c = (\<forall>s s'. i \<in> iss_id ` set (b_issues (getBucket c s)) \<longrightarrow>
     i \<in> iss_id ` set (b_issues (getBucket c s')) \<longrightarrow> s = s')"

lemma holds_buckets: "holds_issue i (DBuckets c) \<longleftrightarrow> (\<exists>s. i \<in> iss_id ` set (b_issues (getBucket c s)))"
  using all_statuses by (force simp: holds_issue_def list_ex_iff PAGINATED_STATUSES_def)

lemma pruned_list_gone:
  assumes "single_home i c"
  shows "\<not> holds_issue i (pruned_list i (DBuckets c))"
proof (cases "findIssueLocation c i")
  case None
  then have "\<not> holds_issue i (DBuckets c)" using location_None [OF None] by (auto simp: holds_buckets)
  with None show ?thesis by (simp add: pruned_list_def prune_buckets_def removeIssueFromBuckets_def)
next
  case (Some loc)
  obtain s found where loc: "findIssueLocation c i = Some (s, found)" using Some by (cases loc) auto
  have "i \<in> iss_id ` set (b_issues (getBucket c s))" using location_Some [OF loc] by force
  with assms have "s' = s" if "i \<in> iss_id ` set (b_issues (getBucket c s'))" for s'
    using that unfolding single_home_def by blast
  then show ?thesis
    unfolding pruned_list_def prune_buckets_def removeIssueFromBuckets_def
    by (auto simp: loc Let_def holds_buckets getBucket_set split: if_splits)
qed

lemma pruned_list_twice:
  "\<not> holds_issue i (pruned_list i d) \<Longrightarrow> pruned_list i (pruned_list i d) = pruned_list i d"
proof (cases d)
  case (DBuckets c)
  assume "\<not> holds_issue i (pruned_list i d)"
  then have "findIssueLocation (prune_buckets i c) i = None"
    using location_Some [of "prune_buckets i c" i]
    by (cases "findIssueLocation (prune_buckets i c) i") (force simp: DBuckets pruned_list_def holds_buckets)+
  then show ?thesis
    by (simp add: DBuckets pruned_list_def prune_buckets_def [of i "prune_buckets i c"] removeIssueFromBuckets_def)
qed (simp_all add: pruned_list_def)

lemma pruned_flat_gone: "\<not> holds_issue i (pruned_flat i (DFlat pages rest))"
  by (auto simp: pruned_flat_def holds_issue_def prune_page_def list_ex_iff)

lemma pruned_flat_twice: "pruned_flat i (pruned_flat i d) = pruned_flat i d"
  by (auto simp: pruned_flat_def prune_page_def list_ex_iff split: cache_data.split)

lemma pruned_children_gone: "\<not> holds_issue i (pruned_children i (DIssueList l))"
  by (simp add: pruned_children_def holds_issue_def list_ex_iff)

text \<open>The shapes the code expects of the caches it prunes.\<close>

definition shape_ok :: "'q query_client \<Rightarrow> jstr \<Rightarrow> 'q \<Rightarrow> bool" where
  "shape_ok qc ws q = (\<forall>k d. getQueryData qc q k = Some d \<longrightarrow>
     (prefix (issue_list ws) k \<or> prefix (issue_myAll ws) k \<longrightarrow> (\<exists>c. d = DBuckets c))
     \<and> (prefix (issue_childrenAll ws) k \<longrightarrow> (\<exists>l. d = DIssueList l)))"

lemma children_part: "prefix (issue_childrenAll ws) k \<Longrightarrow> issue_part k = Some (KStr ''children'')"
  unfolding issue_childrenAll_def by (rule prefix_part)

lemma children_key: "prefix (issue_childrenAll ws) (issue_children ws p)"
  by (simp add: issue_children_def)

lemma prune_lists_total:
  assumes ok: "query_client_ok qc" and shape: "shape_ok qc ws q"
  shows "\<exists>q'. pruneDeletedIssueFromListCaches qc ws i q = Some q'"
proof -
  have step: "\<exists>r'. prune_list_key qc i e r = Some r' \<and> shape_ok qc ws r'"
    if "shape_ok qc ws r" "prefix (issue_list ws) (fst e) \<or> prefix (issue_myAll ws) (fst e)" for e r
  proof (cases "getQueryData qc r (fst e)")
    case (Some d)
    with that obtain c where d: "d = DBuckets c" unfolding shape_ok_def by blast
    have "\<not> prefix (issue_childrenAll ws) (fst e)"
      using that(2) children_part [of ws "fst e"] key_parts(1,2) [of ws "fst e"] by auto
    with that(1) have "shape_ok qc ws (setQueryData qc (fst e) (DBuckets (prune_buckets i c)) r)"
      by (simp add: shape_ok_def client_get_set [OF ok])
    with Some d show ?thesis by (simp add: prune_list_key_def)
  qed (use that(1) in \<open>simp add: prune_list_key_def\<close>)
  have run: "\<exists>r'. fold_throw (prune_list_key qc i) (getQueriesData qc p r0) r = Some r' \<and> shape_ok qc ws r'"
    if "shape_ok qc ws r" "p = issue_list ws \<or> p = issue_myAll ws" for p r0 r
    using that listed(1) [OF ok, of _ p r0] by (intro fold_throw_Some [where I = "shape_ok qc ws"] step) auto
  from run [OF shape, of "issue_list ws" q] obtain q1 where
    q1: "fold_throw (prune_list_key qc i) (getQueriesData qc (issue_list ws) q) q = Some q1" "shape_ok qc ws q1"
    by auto
  from run [OF q1(2), of "issue_myAll ws" q1] q1(1) show ?thesis
    by (auto simp: pruneDeletedIssueFromListCaches_def)
qed

lemma prune_children_total:
  assumes ok: "query_client_ok qc" and shape: "shape_ok qc ws q"
  shows "\<exists>q'. pruneDeletedIssueFromParentChildrenCaches qc ws i m q = Some q'"
proof -
  have step: "\<exists>r'. prune_children qc ws i p r = Some r' \<and> shape_ok qc ws r'" if "shape_ok qc ws r" for p r
  proof (cases "getQueryData qc r (issue_children ws p)")
    case (Some d)
    with that children_key obtain l where d: "d = DIssueList l" unfolding shape_ok_def by blast
    have "\<not> prefix (issue_list ws) (issue_children ws p)" "\<not> prefix (issue_myAll ws) (issue_children ws p)"
      using children_part [OF children_key, of ws p] key_parts(1,2) [of ws "issue_children ws p"] by auto
    with that have "shape_ok qc ws (setQueryData qc (issue_children ws p) (DIssueList (filter (\<lambda>j. iss_id j \<noteq> i) l)) r)"
      by (simp add: shape_ok_def client_get_set [OF ok])
    with Some d show ?thesis by (simp add: prune_children_def)
  qed (use that in \<open>simp add: prune_children_def\<close>)
  have "\<exists>q'. fold_throw (prune_children qc ws i) m q = Some q' \<and> shape_ok qc ws q'"
    using shape by (intro fold_throw_Some [where I = "shape_ok qc ws"] step)
  then show ?thesis unfolding pruneDeletedIssueFromParentChildrenCaches_def by blast
qed

lemma collect_total:
  assumes ok: "query_client_ok qc" and shape: "shape_ok qc ws q"
  shows "\<exists>m. collectDeletedIssueCacheMetadata qc ws i q = Some m"
proof -
  have entry: "d = None \<or> (\<exists>c. d = Some (DBuckets c))"
    if "(k, d) \<in> set (getQueriesData qc p q)" "p = issue_list ws \<or> p = issue_myAll ws" for k d p
  proof -
    have d: "prefix p k" "getQueryData qc q k = d" using client_find(2) [OF ok that(1)] by simp_all
    then show ?thesis using that(2) shape unfolding shape_ok_def by (cases d) blast+
  qed
  have lists: "\<exists>m'. fold_throw (\<lambda>entry. collectParentFromListCache i (snd entry)) (getQueriesData qc p q) m = Some m' \<and> True"
    if "p = issue_list ws \<or> p = issue_myAll ws" for p and m :: "jstr list"
  proof (rule fold_throw_Some [where I = "\<lambda>_. True"])
    fix e and acc :: "jstr list"
    assume "e \<in> set (getQueriesData qc p q)"
    then have "(fst e, snd e) \<in> set (getQueriesData qc p q)" by simp
    from entry [OF this that] show "\<exists>acc'. collectParentFromListCache i (snd e) acc = Some acc' \<and> True"
      by (auto simp: collectParentFromListCache_def)
  qed simp
  have children: "\<exists>m'. fold_throw (collect_children i) (getQueriesData qc (issue_childrenAll ws) q) m = Some m' \<and> True" for m
  proof (rule fold_throw_Some [where I = "\<lambda>_. True"])
    fix e and acc :: "jstr list"
    assume e: "e \<in> set (getQueriesData qc (issue_childrenAll ws) q)"
    then have "prefix (issue_childrenAll ws) (fst e)" "snd e = getQueryData qc q (fst e)"
      using client_find(2) [OF ok, of "fst e" "snd e"] by auto
    then have "snd e = None \<or> (\<exists>l. snd e = Some (DIssueList l))"
      using shape unfolding shape_ok_def by (cases "getQueryData qc q (fst e)") (simp, metis)
    then show "\<exists>acc'. collect_children i e acc = Some acc' \<and> True" by (auto simp: collect_children_def)
  qed simp
  let ?p0 = "collectParentId (case getQueryData qc q (issue_detail ws i) of Some (DIssue i) \<Rightarrow> iss_parent_issue_id i | _ \<Rightarrow> None) []"
  obtain p1 where p1: "fold_throw (\<lambda>entry. collectParentFromListCache i (snd entry)) (getQueriesData qc (issue_list ws) q) ?p0 = Some p1"
    using lists [of "issue_list ws" ?p0] by blast
  obtain p2 where p2: "fold_throw (\<lambda>entry. collectParentFromListCache i (snd entry)) (getQueriesData qc (issue_myAll ws) q)
      (fold (collect_flat i) (getQueriesData qc (issue_flatAll ws) q) p1) = Some p2"
    using lists [of "issue_myAll ws"] by blast
  from children [of p2] show ?thesis
    unfolding collectDeletedIssueCacheMetadata_def Let_def p1 option.case p2 by blast
qed

lemma collect_parents:
  assumes ok: "query_client_ok qc" and res: "collectDeletedIssueCacheMetadata qc ws i q = Some m"
    and l: "getQueryData qc q (issue_children ws p) = Some (DIssueList l)" "i \<in> iss_id ` set l" and p: "p \<noteq> []"
  shows "p \<in> set m"
proof -
  obtain m0 where m: "fold_throw (collect_children i) (getQueriesData qc (issue_childrenAll ws) q) m0 = Some m"
    using res by (auto simp: collectDeletedIssueCacheMetadata_def Let_def split: option.splits)
  have entry: "(issue_children ws p, Some (DIssueList l)) \<in> set (getQueriesData qc (issue_childrenAll ws) q)"
    by (rule client_find(3) [OF ok children_key l(1)])
  have add: "set a \<subseteq> set (collectParentId x a)" "x = Some y \<Longrightarrow> y \<noteq> [] \<Longrightarrow> y \<in> set (collectParentId x a)" for x y a
    by (auto simp: collectParentId_def split: option.split)
  have last: "parentIdFromChildrenKey (issue_children ws p) = Some p"
    by (simp add: parentIdFromChildrenKey_def issue_children_def)
  have found: "find (\<lambda>j. iss_id j = i) l \<noteq> None" using l(2) by (auto simp: find_None_iff)
  show ?thesis
  proof (rule fold_throw_collects [OF m entry])
    show "set a \<subseteq> set a'" if "collect_children i x a = Some a'" for x a a'
    proof -
      have "set a \<subseteq> set (collectParentId u (collectParentId v a))" for u v using add(1) by blast
      with that show ?thesis by (auto simp: collect_children_def split: option.splits cache_data.splits)
    qed
    show "p \<in> set a'" if "collect_children i (issue_children ws p, Some (DIssueList l)) a = Some a'" for a a'
      using that found add(2) [OF last p] by (auto simp: collect_children_def split: option.splits)
  qed
qed

lemma cleanup_get:
  assumes ok: "query_client_ok qc" "query_admin_ok qc ad" and res: "cleanup_with qc ad ws i m (q, r) = Some (q', r')"
  shows "r' = forgetIssue ws i r"
    "getQueryData qc q' k =
      (if \<exists>p \<in> set (issue_detail ws i # scoped_keys ws i). prefix p k then None
       else if k \<in> issue_children ws ` set m then map_option (pruned_children i) (getQueryData qc q k)
       else if prefix (issue_list ws) k \<or> prefix (issue_myAll ws) k then map_option (pruned_list i) (getQueryData qc q k)
       else if prefix (issue_flatAll ws) k then map_option (pruned_flat i) (getQueryData qc q k)
       else getQueryData qc q k)"
    "getQueryData qc q' k \<noteq> None \<Longrightarrow>
     \<exists>p \<in> {issue_list ws, issue_myAll ws, issue_flatAll ws, issue_tableAll ws, issue_projectGanttAll ws}. prefix p k \<Longrightarrow> isStale ad q' k"
proof -
  obtain q1 q2 where q1: "pruneDeletedIssueFromListCaches qc ws i q = Some q1"
    and q2: "pruneDeletedIssueFromParentChildrenCaches qc ws i m q1 = Some q2"
    using res by (auto simp: cleanup_with_def split: option.splits)
  define q4 where "q4 = fold (removeQueries ad) (issue_detail ws i # scoped_keys ws i)
    (invalidateDeletedIssueParentCaches ad ws m q2)"
  let ?inv = "[issue_childProgress ws, issue_list ws, issue_myAll ws, issue_flatAll ws, issue_tableAll ws, issue_projectGanttAll ws]"
  let ?dep = "[agentTaskSnapshot_list ws, agentActivity_last30d ws, agentRunCounts_last30d ws, agentTasks_all ws]"
  have q': "q' = fold (invalidateQueries ad) ?dep (fold (invalidateQueries ad) ?inv q4)"
    and r': "r' = forgetIssue ws i r"
    using res q1 q2
    by (simp_all only: cleanup_with_def fst_conv snd_conv option.case Let_def option.inject prod.inject
        invalidateDeletedIssueDependentCaches_def q4_def)
  show "r' = forgetIssue ws i r" by (rule r')
  note part = children_part [OF children_key] key_parts(1-3)
  have other: "\<not> prefix (issue_list ws) (issue_children ws p) \<and> \<not> prefix (issue_myAll ws) (issue_children ws p)
      \<and> \<not> prefix (issue_flatAll ws) (issue_children ws p)" for p
    using part(1) [of ws p] part(2-4) [of ws "issue_children ws p"] by auto
  have same: "getQueryData qc q' k = getQueryData qc q4 k" by (simp only: q' fold_invalidate(1) [OF ok(2)])
  show "getQueryData qc q' k =
      (if \<exists>p \<in> set (issue_detail ws i # scoped_keys ws i). prefix p k then None
       else if k \<in> issue_children ws ` set m then map_option (pruned_children i) (getQueryData qc q k)
       else if prefix (issue_list ws) k \<or> prefix (issue_myAll ws) k then map_option (pruned_list i) (getQueryData qc q k)
       else if prefix (issue_flatAll ws) k then map_option (pruned_flat i) (getQueryData qc q k)
       else getQueryData qc q k)"
    unfolding same q4_def fold_remove [OF ok(2)] parents_get(1) [OF ok(2)] prune_children_effect [OF ok(1) q2]
      prune_lists_effect [OF ok(1) q1]
    using other by auto
  show "isStale ad q' k" if "getQueryData qc q' k \<noteq> None"
    "\<exists>p \<in> {issue_list ws, issue_myAll ws, issue_flatAll ws, issue_tableAll ws, issue_projectGanttAll ws}. prefix p k"
  proof -
    have "getQueryData qc q4 k \<noteq> None" using that(1) same by simp
    moreover have "\<exists>p \<in> set ?inv. prefix p k" using that(2) by auto
    ultimately have "isStale ad (fold (invalidateQueries ad) ?inv q4) k" using fold_invalidate(2) [OF ok(2)] by blast
    then show ?thesis
      unfolding q' using that(1) same by (subst fold_invalidate(2) [OF ok(2)]) (simp_all only: fold_invalidate(1) [OF ok(2)] simp_thms)
  qed
qed

lemma forget_gone: "i \<notin> re_id ` set (recent_bucket (forgetIssue ws i r) ws)"
proof (cases "obj_get r ws")
  case (Some es)
  have "\<forall>e \<in> set es. re_id e \<noteq> i" if "length (filter (\<lambda>e. re_id e \<noteq> i) es) = length es"
  proof (rule ccontr)
    assume "\<not> (\<forall>e \<in> set es. re_id e \<noteq> i)"
    then obtain e where "e \<in> set es" "\<not> re_id e \<noteq> i" by blast
    then have "length (filter (\<lambda>e. re_id e \<noteq> i) es) < length es" by (rule length_filter_less)
    with that show False by simp
  qed
  note same = this
  show ?thesis
  proof (cases "length (filter (\<lambda>e. re_id e \<noteq> i) es) = length es")
    case True
    then have "recent_bucket (forgetIssue ws i r) ws = es"
      using Some by (simp add: forgetIssue_def recent_bucket_def)
    with same [OF True] show ?thesis by auto
  next
    case False
    then have "set (recent_bucket (forgetIssue ws i r) ws) \<subseteq> set (filter (\<lambda>e. re_id e \<noteq> i) es)"
      using Some by (simp add: forgetIssue_def recent_bucket_def Let_def obj_get_delete obj_get_set)
    then show ?thesis by auto
  qed
qed (simp add: forgetIssue_def recent_bucket_def)

lemma settled_get:
  assumes "query_admin_ok qc ad"
  shows "getQueryData qc (delete_onSettled ad ws (Some ctx) q) k = getQueryData qc q k"
    "getQueryData qc q k \<noteq> None \<Longrightarrow> isStale ad q k \<Longrightarrow> isStale ad (delete_onSettled ad ws (Some ctx) q) k"
    "getQueryData qc q k \<noteq> None \<Longrightarrow>
     \<exists>p \<in> {issue_list ws, issue_flatAll ws, issue_tableAll ws, issue_projectGanttAll ws}. prefix p k \<Longrightarrow>
     isStale ad (delete_onSettled ad ws (Some ctx) q) k"
proof -
  let ?ps = "[issue_list ws, issue_flatAll ws, issue_tableAll ws, issue_assigneeGroupsAll ws,
    issue_myAssigneeGroupsAll ws, issue_projectGanttAll ws, project_all ws]"
  have eq: "delete_onSettled ad ws (Some ctx) q = invalidateDeletedIssueParentCaches ad ws (dc_metadata ctx)
      (fold (invalidateQueries ad) ?ps q)"
    by (simp only: delete_onSettled_def Let_def option.case)
  note get = fold_invalidate(1) [OF assms, of ?ps q k]
  show "getQueryData qc (delete_onSettled ad ws (Some ctx) q) k = getQueryData qc q k"
    by (simp only: eq parents_get(1) [OF assms] get)
  show "isStale ad (delete_onSettled ad ws (Some ctx) q) k" if "getQueryData qc q k \<noteq> None" "isStale ad q k"
    unfolding eq
    by (rule parents_get(2) [OF assms])
      (simp_all only: get that(1) fold_invalidate(2) [OF assms that(1), of ?ps] that(2) not_False_eq_True simp_thms)
  show "isStale ad (delete_onSettled ad ws (Some ctx) q) k" if "getQueryData qc q k \<noteq> None"
    "\<exists>p \<in> {issue_list ws, issue_flatAll ws, issue_tableAll ws, issue_projectGanttAll ws}. prefix p k"
  proof -
    have "\<exists>p \<in> set ?ps. prefix p k" using that(2) by auto
    with that(1) have "isStale ad (fold (invalidateQueries ad) ?ps q) k" using fold_invalidate(2) [OF assms, of q k ?ps] by blast
    then show ?thesis unfolding eq by (intro parents_get(2) [OF assms]) (simp_all only: get that(1) not_False_eq_True)
  qed
qed

text \<open>What the caches of the lists are like before a deletion.\<close>

definition ready_to_delete :: "'q query_client \<Rightarrow> jstr \<Rightarrow> jstr \<Rightarrow> 'q \<Rightarrow> bool" where
  "ready_to_delete qc ws i q =
     (shape_ok qc ws q
      \<and> (\<forall>k c. getQueryData qc q k = Some (DBuckets c) \<longrightarrow> single_home i c)
      \<and> (\<forall>k. prefix (issue_childrenAll ws) k \<longrightarrow> getQueryData qc q k \<noteq> None \<longrightarrow> (\<exists>p. p \<noteq> [] \<and> k = issue_children ws p)))"

definition list_key :: "jstr \<Rightarrow> query_key \<Rightarrow> cache_data \<Rightarrow> bool" where
  "list_key ws k d =
     (prefix (issue_list ws) k \<or> prefix (issue_myAll ws) k \<or> prefix (issue_childrenAll ws) k
      \<or> prefix (issue_flatAll ws) k \<and> (case d of DFlat _ _ \<Rightarrow> True | _ \<Rightarrow> False))"

lemma shape_kept:
  assumes keep: "\<And>k. getQueryData qc q' k = None \<or> getQueryData qc q' k = getQueryData qc p k
      \<or> getQueryData qc q' k = map_option (pruned_list i) (getQueryData qc p k)
      \<or> getQueryData qc q' k = map_option (pruned_flat i) (getQueryData qc p k) \<and> prefix (issue_flatAll ws) k
      \<or> getQueryData qc q' k = map_option (pruned_children i) (getQueryData qc p k)" and shape: "shape_ok qc ws p"
  shows "shape_ok qc ws q'"
  unfolding shape_ok_def
proof (intro allI impI)
  fix k d assume d: "getQueryData qc q' k = Some d"
  have flat: "prefix (issue_flatAll ws) k \<Longrightarrow> \<not> prefix (issue_list ws) k \<and> \<not> prefix (issue_myAll ws) k \<and> \<not> prefix (issue_childrenAll ws) k"
    using key_parts(1-3) [of ws k] children_part [of ws k] by auto
  show "(prefix (issue_list ws) k \<or> prefix (issue_myAll ws) k \<longrightarrow> (\<exists>c. d = DBuckets c)) \<and>
        (prefix (issue_childrenAll ws) k \<longrightarrow> (\<exists>l. d = DIssueList l))"
    using keep [of k] shape [unfolded shape_ok_def, rule_format, of k] d flat
    by (cases "getQueryData qc p k") (auto simp: pruned_list_def pruned_children_def split: cache_data.splits)
qed

text \<open>Both prunings run, and keep the shapes.\<close>

lemma prunes_total:
  assumes ok: "query_client_ok qc" and shape: "shape_ok qc ws q"
  shows "\<exists>p1 p2. pruneDeletedIssueFromListCaches qc ws i q = Some p1
    \<and> pruneDeletedIssueFromParentChildrenCaches qc ws i m p1 = Some p2 \<and> shape_ok qc ws p2"
proof -
  obtain p1 where p1: "pruneDeletedIssueFromListCaches qc ws i q = Some p1" using prune_lists_total [OF ok shape] by blast
  have s1: "shape_ok qc ws p1" using prune_lists_effect [OF ok p1] shape by (intro shape_kept [of qc p1 q i]) auto
  obtain p2 where p2: "pruneDeletedIssueFromParentChildrenCaches qc ws i m p1 = Some p2"
    using prune_children_total [OF ok s1] by blast
  have "shape_ok qc ws p2" using prune_children_effect [OF ok p2] s1 by (intro shape_kept [of qc p2 p1 i]) auto
  with p1 p2 show ?thesis by blast
qed

lemma cleanup_total:
  assumes "query_client_ok qc" "shape_ok qc ws q"
  shows "\<exists>q' r'. cleanup_with qc ad ws i m (q, r) = Some (q', r')"
  using prunes_total [OF assms, of i m] by (auto simp: cleanup_with_def Let_def)

lemma delete_runs:
  assumes ok: "query_client_ok qc" "query_admin_ok qc ad" and ready: "ready_to_delete qc ws i q"
  shows "\<exists>q1 ctx q2 r'. delete_onMutate qc ad ws i q = Some (q1, ctx)
    \<and> cleanup_with qc ad ws i (dc_metadata ctx) (q1, r) = Some (q2, r')"
proof -
  have shape: "shape_ok qc ws q" using ready by (simp add: ready_to_delete_def)
  obtain m where m: "collectDeletedIssueCacheMetadata qc ws i q = Some m" using collect_total [OF ok(1) shape] by blast
  obtain p1 p2 where p: "pruneDeletedIssueFromListCaches qc ws i q = Some p1"
    "pruneDeletedIssueFromParentChildrenCaches qc ws i m p1 = Some p2" "shape_ok qc ws p2"
    using prunes_total [OF ok(1) shape] by blast
  let ?q1 = "removeQueries ad (issue_detail ws i) p2"
  have "shape_ok qc ws ?q1" using admin_get(1) [OF ok(2)] p(3) by (intro shape_kept [of qc ?q1 p2 i]) auto
  from cleanup_total [OF ok(1) this] show ?thesis using m p by (simp add: delete_onMutate_def Let_def)
qed

text \<open>C25: a deletion the server accepts leaves no trace: no list of the workspace, no window, no list of
  children holds the issue any more, its own queries are gone, it is not among the recent issues, and
  every remaining list is marked stale.\<close>

theorem deleted_issue_gone:
  assumes ok: "query_client_ok qc" "query_admin_ok qc ad" and ready: "ready_to_delete qc ws i q"
    and res: "useDeleteIssue qc ad ws True i (q, r) = (outcome, q', r')"
  shows "outcome = Deleted
    \<and> (\<forall>k d. getQueryData qc q' k = Some d \<longrightarrow> list_key ws k d \<longrightarrow> \<not> holds_issue i d)
    \<and> (\<forall>p \<in> set (issue_detail ws i # scoped_keys ws i). \<forall>k. prefix p k \<longrightarrow> getQueryData qc q' k = None)
    \<and> i \<notin> re_id ` set (recent_bucket r' ws)
    \<and> (\<forall>k. getQueryData qc q' k \<noteq> None \<longrightarrow>
         (\<exists>p \<in> {issue_list ws, issue_myAll ws, issue_flatAll ws, issue_tableAll ws, issue_projectGanttAll ws}. prefix p k) \<longrightarrow>
         isStale ad q' k)"
proof -
  obtain q1 ctx q2 r2 where mut: "delete_onMutate qc ad ws i q = Some (q1, ctx)"
    and clean: "cleanup_with qc ad ws i (dc_metadata ctx) (q1, r) = Some (q2, r2)"
    using delete_runs [OF ok ready] by blast
  have out: "outcome = Deleted" "q' = delete_onSettled ad ws (Some ctx) q2" "r' = r2"
    using res mut clean by (simp_all add: useDeleteIssue_def cleanupDeletedIssueCaches_def)
  note get = settled_get(1) [OF ok(2), of ws ctx q2, folded out(2)]
  note c = cleanup_get [OF ok clean]
  have gone: "\<not> holds_issue i d" if d: "getQueryData qc q' k = Some d" and lk: "list_key ws k d" for k d
  proof -
    note g1 = mutate_get [OF ok mut, of k] and g2 = c(2) [of k]
    have d2: "getQueryData qc q2 k = Some d" using d get by simp
    have no: "\<not> (\<exists>p \<in> set (issue_detail ws i # scoped_keys ws i). prefix p k)"
    proof
      assume "\<exists>p \<in> set (issue_detail ws i # scoped_keys ws i). prefix p k"
      with g2 d2 show False by (simp only: if_True option.distinct)
    qed
    then have nd: "\<not> prefix (issue_detail ws i) k" by simp
    have kids: "k \<in> issue_children ws ` set (dc_metadata ctx) \<Longrightarrow> prefix (issue_childrenAll ws) k"
      using children_key by blast
    note parts = key_parts(1-3) [of ws k] children_part [of ws k]
    show ?thesis
    proof (cases "prefix (issue_childrenAll ws) k")
      case True
      then have others: "\<not> prefix (issue_list ws) k" "\<not> prefix (issue_myAll ws) k" "\<not> prefix (issue_flatAll ws) k"
        using parts by auto
      have had: "getQueryData qc q k \<noteq> None" using d2 g1 g2 no nd others by (auto split: if_splits)
      then obtain p where p: "p \<noteq> []" "k = issue_children ws p" using ready True unfolding ready_to_delete_def by blast
      obtain l where l: "getQueryData qc q k = Some (DIssueList l)"
        using ready True had unfolding ready_to_delete_def shape_ok_def by blast
      show ?thesis
      proof (cases "k \<in> issue_children ws ` set (dc_metadata ctx)")
        case True
        then have "d = pruned_children i (pruned_children i (DIssueList l))" using d2 g1 g2 l no nd by auto
        then show ?thesis by (simp add: pruned_children_twice pruned_children_gone)
      next
        case False
        then have "d = DIssueList l" using d2 g1 g2 l no nd others by auto
        moreover have "i \<notin> iss_id ` set l"
          using collect_parents [OF ok(1) mutate_effect(2) [OF ok mut] l [unfolded p(2)] _ p(1)] False p(2) by blast
        ultimately show ?thesis by (auto simp: holds_issue_def list_ex_iff)
      qed
    next
      case False
      with kids have nk: "k \<notin> issue_children ws ` set (dc_metadata ctx)" by blast
      show ?thesis
      proof (cases "prefix (issue_list ws) k \<or> prefix (issue_myAll ws) k")
        case True
        then have had: "getQueryData qc q k \<noteq> None" using d2 g1 g2 no nd nk by (auto split: if_splits)
        then obtain b where b: "getQueryData qc q k = Some (DBuckets b)" "single_home i b"
          using ready True unfolding ready_to_delete_def shape_ok_def by blast
        have "d = pruned_list i (pruned_list i (DBuckets b))" using d2 g1 g2 b(1) no nd nk True by auto
        with pruned_list_gone [OF b(2)] pruned_list_twice [OF pruned_list_gone [OF b(2)]] show ?thesis by simp
      next
        case no_list: False
        with False lk have fl: "prefix (issue_flatAll ws) k" and flat: "\<exists>pages rest. d = DFlat pages rest"
          by (auto simp: list_key_def split: cache_data.splits)
        from d2 g1 g2 no nd nk no_list fl obtain e where "d = pruned_flat i e"
          by (cases "getQueryData qc q k") (auto simp: pruned_flat_twice)
        with flat obtain pages rest where "d = pruned_flat i (DFlat pages rest)"
          by (cases e) (auto simp: pruned_flat_def)
        then show ?thesis by (simp add: pruned_flat_gone)
      qed
    qed
  qed
  have removed: "getQueryData qc q' k = None" if "p \<in> set (issue_detail ws i # scoped_keys ws i)" "prefix p k" for p k
  proof -
    have "\<exists>p \<in> set (issue_detail ws i # scoped_keys ws i). prefix p k" using that by blast
    with c(2) [of k] get show ?thesis by (simp only: if_True)
  qed
  have stale: "isStale ad q' k" if "getQueryData qc q' k \<noteq> None"
    "\<exists>p \<in> {issue_list ws, issue_myAll ws, issue_flatAll ws, issue_tableAll ws, issue_projectGanttAll ws}. prefix p k" for k
  proof (cases "prefix (issue_myAll ws) k")
    case True
    with c(3) [of k] that get settled_get(2) [OF ok(2), of q2 k ws ctx] show ?thesis by (simp add: out(2))
  next
    case False
    with that get settled_get(3) [OF ok(2), of q2 k ws ctx] show ?thesis by (simp add: out(2))
  qed
  show ?thesis using out(1,3) gone removed c(1) forget_gone stale by blast
qed

text \<open>A grouped list of the user's own tasks blocks every deletion. While a query under the \<open>my\<close>
  prefix holds data of another shape, as the list grouped by assignee does, the delete mutation
  throws before it sends its request, whatever the issue.\<close>

theorem grouped_list_blocks_delete:
  assumes "query_client_ok qc" "getQueryData qc q k = Some (DOther groups)" "prefix (issue_myAssigneeGroupsAll ws) k"
  shows "fst (useDeleteIssue qc ad ws server_ok i (q, r)) = NotSent"
proof -
  have "prefix (issue_myAll ws) k"
    using assms(3) by (auto simp: issue_myAssigneeGroupsAll_def prefix_def)
  from client_find(3) [OF assms(1) this assms(2)]
  have "(k, Some (DOther groups)) \<in> set (getQueriesData qc (issue_myAll ws) q)" .
  from fold_throw_None [OF this, of "\<lambda>entry. collectParentFromListCache i (snd entry)"]
  have "fold_throw (\<lambda>entry. collectParentFromListCache i (snd entry)) (getQueriesData qc (issue_myAll ws) q) m = None" for m
    by (simp add: collectParentFromListCache_def)
  then have "collectDeletedIssueCacheMetadata qc ws i q = None"
    by (simp add: collectDeletedIssueCacheMetadata_def Let_def split: option.split)
  then show ?thesis by (simp add: useDeleteIssue_def delete_onMutate_def)
qed

section \<open>A concrete client\<close>

text \<open>The association list of queries, and the tests invalidated so far.\<close>

type_synonym listed_queries = "(query_key \<times> cache_data) list \<times> (query_key \<Rightarrow> bool) list"

definition marked_client :: "listed_queries query_client" where
  "marked_client =
     \<lparr>getQueryData = (\<lambda>q. getQueryData list_client (fst q)),
      setQueryData = (\<lambda>k d q. (setQueryData list_client k d (fst q), snd q)),
      getQueriesData = (\<lambda>p q. getQueriesData list_client p (fst q))\<rparr>"

definition marked_admin :: "listed_queries query_admin" where
  "marked_admin =
     \<lparr>removeQueries = (\<lambda>p q. (filter (\<lambda>(k, d). \<not> prefix p k) (fst q), snd q)),
      invalidateQueries = (\<lambda>p q. (fst q, (\<lambda>k. prefix p k) # snd q)),
      invalidateWhere = (\<lambda>p P q. (fst q, (\<lambda>k. prefix p k \<and> P k) # snd q)),
      invalidateExact = (\<lambda>p q. (fst q, (\<lambda>k. k = p) # snd q)),
      isStale = (\<lambda>q k. list_ex (\<lambda>P. P k) (snd q))\<rparr>"

lemma marked_ok: "query_client_ok marked_client" "query_admin_ok marked_client marked_admin"
proof -
  show "query_client_ok marked_client"
    using list_client_ok unfolding query_client_ok_def marked_client_def by simp
  have "map_of (filter (\<lambda>(k, d). \<not> P k) q) k = (if P k then None else map_of q k)" for q :: "(query_key \<times> cache_data) list" and P k
    by (induction q) auto
  then show "query_admin_ok marked_client marked_admin"
    by (simp add: query_admin_ok_def marks_where_def marked_client_def marked_admin_def list_client_def)
qed

text \<open>An issue with a parent, in the plain list, among the children of the parent, and opened.\<close>

definition child_issue :: issue where
  "child_issue = (some_issue ''i1'' Todo 1)\<lparr>iss_parent_issue_id := Some ''p1''\<rparr>"

definition delete_queries :: listed_queries where
  "delete_queries =
     ([(some_key, DBuckets [(Todo, \<lparr>b_issues = [child_issue], b_total = 1\<rparr>)]),
       (issue_children ''ws'' ''p1'', DIssueList [child_issue]),
       (issue_detail ''ws'' ''i1'', DIssue child_issue)], [])"

definition delete_recents :: recent_store where
  "delete_recents = [(''ws'', [\<lparr>re_id = ''i1'', re_visitedAt = 5\<rparr>])]"

lemma delete_reads:
  "getQueryData marked_client delete_queries k =
     (if k = some_key then Some (DBuckets [(Todo, \<lparr>b_issues = [child_issue], b_total = 1\<rparr>)])
      else if k = issue_children ''ws'' ''p1'' then Some (DIssueList [child_issue])
      else if k = issue_detail ''ws'' ''i1'' then Some (DIssue child_issue) else None)"
  by (simp add: marked_client_def list_client_def delete_queries_def)

lemma delete_parts:
  "issue_part some_key = Some (KStr ''list'')" "issue_part (issue_children ''ws'' ''p1'') = Some (KStr ''children'')"
  "issue_part (issue_detail ''ws'' ''i1'') = Some (KStr ''detail'')"
  using children_part [OF children_key] key_parts(1) [of "''ws''" some_key] key_parts(5)
  by (simp_all add: some_key_def issue_listSorted_def)

lemma delete_ready: "ready_to_delete marked_client ''ws'' ''i1'' delete_queries"
proof -
  have home: "single_home ''i1'' [(Todo, \<lparr>b_issues = [child_issue], b_total = 1\<rparr>)]"
    by (auto simp: single_home_def getBucket_def map_get_def EMPTY_BUCKET_def split: if_splits)
  have "shape_ok marked_client ''ws'' delete_queries"
    using delete_parts key_parts(1,2) [of "''ws''"] children_part [of "''ws''"]
    by (auto simp: shape_ok_def delete_reads split: if_splits)
  moreover have "\<exists>p. p \<noteq> [] \<and> k = issue_children ''ws'' p"
    if "prefix (issue_childrenAll ''ws'') k" "getQueryData marked_client delete_queries k \<noteq> None" for k
    using that delete_parts children_part [of "''ws''" k]
    by (auto simp: delete_reads split: if_splits)
  moreover have "single_home ''i1'' c" if "getQueryData marked_client delete_queries k = Some (DBuckets c)" for k c
    using that home by (auto simp: delete_reads split: if_splits)
  ultimately show ?thesis unfolding ready_to_delete_def by blast
qed

theorem deleted_issue_gone_witness:
  "fst (useDeleteIssue marked_client marked_admin ''ws'' True ''i1'' (delete_queries, delete_recents)) = Deleted
   \<and> recent_bucket (snd (snd (useDeleteIssue marked_client marked_admin ''ws'' True ''i1'' (delete_queries, delete_recents)))) ''ws'' = []"
proof -
  obtain out q' r' where run: "useDeleteIssue marked_client marked_admin ''ws'' True ''i1'' (delete_queries, delete_recents) = (out, q', r')"
    by (metis surj_pair)
  have recents: "r' = forgetIssue ''ws'' ''i1'' delete_recents \<or> r' = delete_recents"
    using run by (auto simp: useDeleteIssue_def cleanupDeletedIssueCaches_def cleanup_with_def Let_def
        split: option.splits prod.splits if_splits)
  from deleted_issue_gone [OF marked_ok delete_ready run] run recents show ?thesis
    by (auto simp: delete_recents_def recent_bucket_def forgetIssue_def obj_get_def obj_delete_def)
qed

theorem failed_delete_restores_witness:
  "getQueryData marked_client (fst (snd (useDeleteIssue marked_client marked_admin ''ws'' False ''i1'' (delete_queries, delete_recents))))
     (issue_detail ''ws'' ''i1'') = Some (DIssue child_issue)"
proof -
  obtain out q' r' where run: "useDeleteIssue marked_client marked_admin ''ws'' False ''i1'' (delete_queries, delete_recents) = (out, q', r')"
    by (metis surj_pair)
  have only: "\<forall>k. prefix (issue_detail ''ws'' ''i1'') k \<longrightarrow> getQueryData marked_client delete_queries k \<noteq> None \<longrightarrow>
      k = issue_detail ''ws'' ''i1''"
    by (auto simp: delete_reads some_key_def key_defs issue_children_def issue_childrenAll_def split: if_splits)
  have "some_key \<noteq> issue_detail ''ws'' ''i1''" "issue_children ''ws'' ''p1'' \<noteq> issue_detail ''ws'' ''i1''"
    using delete_parts by auto
  then have "getQueryData marked_client delete_queries (issue_detail ''ws'' ''i1'') = Some (DIssue child_issue)"
    by (simp add: delete_reads)
  with failed_delete_restores [OF marked_ok only run] run show ?thesis by simp
qed

theorem grouped_list_blocks_delete_witness:
  "fst (useDeleteIssue list_client
      \<lparr>removeQueries = \<lambda>p. filter (\<lambda>(k, d). \<not> prefix p k), invalidateQueries = \<lambda>p q. q, invalidateWhere = \<lambda>p P q. q,
        invalidateExact = \<lambda>p q. q, isStale = \<lambda>q k. True\<rparr> ''ws'' True ''i1''
      ([(issue_myAssigneeGroups ''ws'' ''assigned'' empty_bag, DOther ''groups'')], [])) = NotSent"
proof -
  have "getQueryData list_client [(issue_myAssigneeGroups ''ws'' ''assigned'' empty_bag, DOther ''groups'')]
      (issue_myAssigneeGroups ''ws'' ''assigned'' empty_bag) = Some (DOther ''groups'')"
    by (simp add: list_client_def)
  from grouped_list_blocks_delete [OF list_client_ok this] show ?thesis by (simp add: issue_myAssigneeGroups_def)
qed

end
