(* ===== verification/Issue_Event_Properties.thy ===== *)
theory Issue_Event_Properties
  imports Issue_Events Issue_Delete_Properties
begin

text \<open>
  What the realtime events guarantee: after an update every list agrees with the server or is marked
  stale, after a change of labels, metadata or properties every copy of the issue carries the new
  value or is marked stale, and a created or deleted issue is in every list or in none.
\<close>

section \<open>One query across a step\<close>

text \<open>A step leaves what is cached under a key, and does not make it less stale.\<close>

definition keeps_key :: "'q query_client \<Rightarrow> 'q query_admin \<Rightarrow> query_key \<Rightarrow> 'q \<Rightarrow> 'q \<Rightarrow> bool" where
  "keeps_key qc ad k q q' =
     (getQueryData qc q' k = getQueryData qc q k
      \<and> (getQueryData qc q k \<noteq> None \<longrightarrow> isStale ad q k \<longrightarrow> isStale ad q' k))"

lemma keeps_key_refl [simp]: "keeps_key qc ad k q q"
  by (simp add: keeps_key_def)

lemma keeps_key_trans: "keeps_key qc ad k a b \<Longrightarrow> keeps_key qc ad k b c \<Longrightarrow> keeps_key qc ad k a c"
  by (simp add: keeps_key_def)

lemma keeps_key_marks: "marks_where qc ad P f \<Longrightarrow> keeps_key qc ad k q (f q)"
  by (simp add: keeps_key_def marks_get marks_stale)

lemma keeps_key_set:
  "query_client_ok qc \<Longrightarrow> query_admin_ok qc ad \<Longrightarrow> k \<noteq> p \<Longrightarrow> keeps_key qc ad k q (setQueryData qc p d q)"
  by (simp add: keeps_key_def client_get_set admin_marks(4))

lemma keeps_key_fold:
  "(\<And>x q. x \<in> set xs \<Longrightarrow> keeps_key qc ad k q (f x q)) \<Longrightarrow> keeps_key qc ad k q (fold f xs q)"
proof (induction xs arbitrary: q)
  case (Cons x xs)
  have "keeps_key qc ad k (f x q) (fold f xs (f x q))" by (rule Cons.IH) (rule Cons.prems, simp)
  with Cons.prems [of x q] show ?case by (simp add: keeps_key_trans)
qed simp

section \<open>Steps over the queries of a prefix\<close>

lemma fold_throw_total: "(\<And>x acc. x \<in> set xs \<Longrightarrow> f x acc \<noteq> None) \<Longrightarrow> \<exists>acc'. fold_throw f xs acc = Some acc'"
proof (induction xs arbitrary: acc)
  case (Cons x xs)
  obtain a where "f x acc = Some a" using Cons.prems [of x acc] by auto
  with Cons.IH [of a] Cons.prems show ?case by simp
qed simp

lemma fold_is_throw: "fold_throw (\<lambda>x a. Some (g x a)) xs a = Some (fold g xs a)"
  by (induction xs arbitrary: a) simp_all

text \<open>A step that writes the query of its entry from the data the entry was listed with.\<close>

definition writes_entry ::
    "'q query_client \<Rightarrow> (cache_data \<Rightarrow> cache_data) \<Rightarrow> (query_key \<times> cache_data option \<Rightarrow> 'q \<Rightarrow> 'q option) \<Rightarrow> bool" where
  "writes_entry qc f step = (\<forall>e q q' k. step e q = Some q' \<longrightarrow> snd e = getQueryData qc q (fst e) \<longrightarrow>
     getQueryData qc q' k = (if k = fst e then map_option f (snd e) else getQueryData qc q k))"

lemma writes_entriesD:
  assumes wr: "writes_entry qc f step"
  shows "fold_throw step es q = Some q' \<Longrightarrow> distinct (map fst es) \<Longrightarrow> \<forall>(k, d) \<in> set es. d = getQueryData qc q k \<Longrightarrow>
    getQueryData qc q' k = (if k \<in> fst ` set es then map_option f (getQueryData qc q k) else getQueryData qc q k)"
proof (induction es arbitrary: q)
  case (Cons e es)
  from Cons.prems(1) obtain b where b: "step e q = Some b" "fold_throw step es b = Some q'"
    by (auto split: option.splits)
  have e: "snd e = getQueryData qc q (fst e)" using Cons.prems(3) by (cases e) simp
  have get: "getQueryData qc b j = (if j = fst e then map_option f (getQueryData qc q j) else getQueryData qc q j)" for j
    using wr [unfolded writes_entry_def, rule_format, OF b(1) e, of j] e by simp
  have "\<forall>(j, d) \<in> set es. d = getQueryData qc b j"
  proof clarify
    fix j d assume jd: "(j, d) \<in> set es"
    then have "j \<in> fst ` set es" by force
    then have "j \<noteq> fst e" using Cons.prems(2) by (cases "j = fst e") simp_all
    with Cons.prems(3) jd show "d = getQueryData qc b j" by (auto simp: get)
  qed
  from Cons.IH [OF b(2) _ this] Cons.prems(2) get show ?case by auto
qed simp

lemma writes_prefix:
  assumes ok: "query_client_ok qc" and wr: "writes_entry qc f step"
    and res: "fold_throw step (getQueriesData qc p q) q = Some q'"
  shows "getQueryData qc q' k = (if prefix p k then map_option f (getQueryData qc q k) else getQueryData qc q k)"
proof -
  have "\<forall>(k, d) \<in> set (getQueriesData qc p q). d = getQueryData qc q k" using client_find(2) [OF ok] by blast
  from writes_entriesD [OF wr res client_find(1) [OF ok] this, of k] listed [OF ok, where k = k and p = p and q = q] show ?thesis
    by (cases "getQueryData qc q k") auto
qed

section \<open>Updates\<close>

text \<open>
  The flags of the event: those that are present hold where their dimension changed; and they are all
  present, as the current server sends them, or the cached copy tells the old values.
\<close>

definition flags_right :: "jstr option \<Rightarrow> query_bag \<Rightarrow> update_meta \<Rightarrow> issue_patch \<Rightarrow> issue \<Rightarrow> bool" where
  "flags_right scope f meta p old =
     ((m_assigneeChanged meta = Some False \<longrightarrow> iss_assignee_id (merge_issue old p) = iss_assignee_id old
         \<and> iss_assignee_type (merge_issue old p) = iss_assignee_type old)
      \<and> (m_projectChanged meta = Some False \<longrightarrow> scope = Some ''all'' \<or> f_project_id f = None
         \<or> iss_project_id (merge_issue old p) = iss_project_id old)
      \<and> (m_statusChanged meta = Some False \<longrightarrow> iss_status (merge_issue old p) = iss_status old))"

definition flags_present :: "update_meta \<Rightarrow> bool" where
  "flags_present meta = (m_assigneeChanged meta \<noteq> None \<and> m_projectChanged meta \<noteq> None \<and> m_statusChanged meta \<noteq> None)"

lemma event_dims_cover:
  assumes "flags_right scope f meta p old" "flags_present meta \<or> cached = Some old"
  shows "dims_cover scope f (event_dims meta p cached) p old"
proof -
  have "d_assignee (event_dims meta p cached) \<or> iss_assignee_id (merge_issue old p) = iss_assignee_id old
      \<and> iss_assignee_type (merge_issue old p) = iss_assignee_type old"
    using assms by (cases "m_assigneeChanged meta"; cases "p_assignee_id p"; cases "p_assignee_type p")
      (auto simp: event_dims_def flags_right_def flags_present_def differs_def merge_issue_def over_def)
  moreover have "d_project (event_dims meta p cached) \<or> scope = Some ''all'' \<or> f_project_id f = None
      \<or> iss_project_id (merge_issue old p) = iss_project_id old"
    using assms by (cases "m_projectChanged meta"; cases "p_project_id p")
      (auto simp: event_dims_def flags_right_def flags_present_def merge_issue_def over_def)
  moreover have "d_status (event_dims meta p cached) \<or> iss_status (merge_issue old p) = iss_status old"
    using assms by (cases "m_statusChanged meta"; cases "p_status p")
      (auto simp: event_dims_def flags_right_def flags_present_def differs_def merge_issue_def over_def)
  ultimately show ?thesis by (simp add: dims_cover_def)
qed

lemma cached_total:
  assumes ok: "query_client_ok qc" and shape: "shape_ok qc ws q"
  shows "cachedIssue qc ws i q \<noteq> None"
proof -
  have "find_in_first_list i (getQueriesData qc (issue_list ws) q) \<noteq> None"
  proof (cases "getQueriesData qc (issue_list ws) q")
    case (Cons e es)
    obtain k d where e: "e = (k, d)" by (cases e)
    with Cons have "(k, d) \<in> set (getQueriesData qc (issue_list ws) q)" by simp
    from client_find(2) [OF ok this] shape have "d = None \<or> (\<exists>c. d = Some (DBuckets c))"
      unfolding shape_ok_def by (cases d) blast+
    with Cons e show ?thesis by (auto simp: find_in_first_list_def)
  qed (simp add: find_in_first_list_def)
  then show ?thesis by (auto simp: cachedIssue_def split: option.splits)
qed

text \<open>The change itself writes no list of children.\<close>

lemma change_keeps_children:
  assumes ok: "query_client_ok qc" and key: "issue_part key = Some (KStr ''children'')"
  shows "getQueryData qc (ch_client (applyIssueChange qc ws i p changed base q)) key = getQueryData qc q key"
proof -
  define ch1 where "ch1 = fold (change_list qc i p changed base) (bucketedListEntries qc ws q) (change_start base q)"
  define ch2 where "ch2 = fold (change_flat qc i p changed base) (flatListEntries qc ws (ch_client ch1)) ch1"
  define ch3 where "ch3 = fold (change_table qc i p) (tableRowEntries qc ws (ch_client ch2)) ch2"
  note s1 = list_stage [OF ok ch1_def]
  note s2 = flat_stage [OF ok s1 ch2_def]
  note s3 = table_stage [OF ok s2 ch3_def]
  have "getQueryData qc (ch_client (change_detail qc ws i p ch3)) key = getQueryData qc q key"
    using detail_stage(2) [OF ok s3, of p] key by (simp add: only_parts_def)
  moreover have "key \<noteq> inbox_list ws" "key \<noteq> inbox_archived ws" using key inbox_part by auto
  ultimately show ?thesis
    using change_inbox_keeps [OF ok, of key ws "change_detail qc ws i p ch3" i p]
    by (simp add: keeps_def applyIssueChange_def Let_def ch1_def ch2_def ch3_def)
qed

lemma sync_parent_keeps:
  assumes ok: "query_client_ok qc" "query_admin_ok qc ad" and key: "issue_part key \<noteq> Some (KStr ''children'')"
    and res: "sync_old_parent qc ad ws i p moved parent q = Some q'"
  shows "keeps_key qc ad key q q'"
proof -
  have "key \<noteq> issue_children ws parent" using key children_part [OF children_key, of ws parent] by auto
  then show ?thesis
    using res keeps_key_set [OF ok] keeps_key_marks [OF admin_marks(1) [OF ok(2)]]
    by (auto simp: sync_old_parent_def split: if_splits option.splits cache_data.splits)
qed

lemma sync_parent_total:
  "getQueryData qc q (issue_children ws parent) = None \<or> (\<exists>l. getQueryData qc q (issue_children ws parent) = Some (DIssueList l)) \<Longrightarrow>
   sync_old_parent qc ad ws i p moved parent q \<noteq> None"
  by (auto simp: sync_old_parent_def)

text \<open>What follows the change, given that it does not throw.\<close>

lemma update_runs:
  assumes ok: "query_client_ok qc" "query_admin_ok qc ad" and shape: "shape_ok qc ws q"
    and cached: "cachedIssue qc ws i q = Some base"
    and ch_def: "ch = applyIssueChange qc ws i p (event_dims meta p base) base q"
  shows "\<exists>q'. onIssueUpdated qc ad ws i p meta q = Some q'
    \<and> (\<forall>key. issue_part key \<noteq> Some (KStr ''children'') \<longrightarrow>
         keeps_key qc ad key (invalidateStaleListKeys ad (staleKeys ch) (ch_client ch)) q')"
proof -
  let ?old = "Option.bind base iss_parent_issue_id"
  let ?new = "Option.bind (p_parent_issue_id p) (\<lambda>v. v)"
  let ?moved = "p_parent_issue_id p \<noteq> None \<and> ?new \<noteq> ?old"
  let ?q1 = "invalidateStaleListKeys ad (staleKeys ch) (ch_client ch)"
  let ?q3 = "invalidateQueries ad (issue_tableAll ws)
    (invalidateIssueDerivatives ad ws (p_status p \<noteq> None \<or> p_project_id p \<noteq> None) ?q1)"
  note marks = admin_marks(1) [OF ok(2)]
  have q3: "keeps_key qc ad key ?q1 ?q3" for key
    by (rule keeps_key_trans [OF keeps_key_marks [OF marks_derivatives [OF ok(2)]] keeps_key_marks [OF marks]])
  have get3: "getQueryData qc ?q3 (issue_children ws parent) = getQueryData qc q (issue_children ws parent)" for parent
    by (simp add: marks_get [OF marks] marks_get [OF marks_derivatives [OF ok(2)]]
        marks_get [OF marks_stale_keys [OF ok(2)]] ch_def change_keeps_children [OF ok(1) children_part [OF children_key]])
  have "\<exists>q4. fold_throw (sync_old_parent qc ad ws i p ?moved) (given ?old) ?q3 = Some q4
      \<and> (\<forall>key. issue_part key \<noteq> Some (KStr ''children'') \<longrightarrow> keeps_key qc ad key ?q3 q4)"
  proof (cases "given ?old")
    case (Cons parent rest)
    then have rest: "rest = []" by (auto simp: given_def split: option.splits if_splits)
    have "getQueryData qc q (issue_children ws parent) = None
        \<or> (\<exists>l. getQueryData qc q (issue_children ws parent) = Some (DIssueList l))"
      using shape children_key [of ws parent] unfolding shape_ok_def
      by (cases "getQueryData qc q (issue_children ws parent)") blast+
    with sync_parent_total [of qc ?q3 ws parent ad i p ?moved] get3 [of parent]
    have "sync_old_parent qc ad ws i p ?moved parent ?q3 \<noteq> None" by metis
    then obtain q4 where q4: "sync_old_parent qc ad ws i p ?moved parent ?q3 = Some q4" by auto
    then show ?thesis using sync_parent_keeps [OF ok _ q4] by (simp add: Cons rest)
  qed simp
  then obtain q4 where q4: "fold_throw (sync_old_parent qc ad ws i p ?moved) (given ?old) ?q3 = Some q4"
    "issue_part key \<noteq> Some (KStr ''children'') \<Longrightarrow> keeps_key qc ad key ?q3 q4" for key by blast
  let ?q5 = "if ?moved then fold (\<lambda>parent. invalidateQueries ad (issue_children ws parent)) (given ?new) q4 else q4"
  let ?q6 = "if p_status p \<noteq> None \<or> p_parent_issue_id p \<noteq> None then invalidateQueries ad (issue_childProgress ws) ?q5 else ?q5"
  let ?q7 = "if given ?old = [] \<and> given ?new = [] then ?q5 else invalidateQueries ad (issue_childrenByParentsAll ws) ?q6"
  have q5: "keeps_key qc ad key q4 ?q5" for key
    using keeps_key_fold [of "given ?new" qc ad key "\<lambda>parent. invalidateQueries ad (issue_children ws parent)" q4]
      keeps_key_marks [OF marks] by simp
  have "keeps_key qc ad key ?q5 ?q7" for key
    using keeps_key_marks [OF marks] keeps_key_trans [OF keeps_key_marks [OF marks] keeps_key_marks [OF marks]] by simp
  with q3 q4(2) q5 have "issue_part key \<noteq> Some (KStr ''children'') \<Longrightarrow> keeps_key qc ad key ?q1 ?q7" for key
    by (blast intro: keeps_key_trans)
  moreover have "onIssueUpdated qc ad ws i p meta q = Some ?q7"
    using cached q4(1) by (simp add: onIssueUpdated_def Let_def ch_def)
  ultimately show ?thesis by blast
qed

text \<open>C4: a committed update, announced by the server, is handled without a throw and leaves a
  bucketed list of the workspace that was right before right for the server's new state or marked
  stale, provided that the caches have the shapes the code expects, that a cached copy of the issue,
  if there is one, is the server's previous state, that the flags of the event are right for the list
  (an event without flags, from an older server, needs the cached copy; a project that changed without
  being flagged is harmless except to the lists of a project, see \<open>derived_project_missed\<close>), that the
  creator does not change, that the server filters by assignee, creator and project as the list's key says, and that the issue is inside
  the date window and the property filter of the list before and after.\<close>

theorem update_event_coherent:
  assumes ok: "query_client_ok qc" "query_admin_ok qc ad" and shape: "shape_ok qc ws q"
    and db: "distinct (map iss_id db)" "old \<in> set db" "iss_id old = i"
    and cached: "cachedIssue qc ws i q \<in> {Some None, Some (Some old)}"
    and flags: "flags_right scope f meta p old" "flags_present meta \<or> cachedIssue qc ws i q = Some (Some old)"
    and creator: "iss_creator_id (merge_issue old p) = iss_creator_id old"
    and key: "prefix (issue_list ws) key \<or> prefix (issue_myAll ws) key" "listContractFromKey key = (scope, f, srt)"
    and srv: "server_contract rel scope f" and inside: "win old" "win (merge_issue old p)"
    and data: "getQueryData qc q key = Some (DBuckets c)" "accurate db (listed_by rel win) c"
  shows "\<exists>q' c'. onIssueUpdated qc ad ws i p meta q = Some q' \<and> getQueryData qc q' key = Some (DBuckets c')
    \<and> (isStale ad q' key \<or> accurate (server_patch i p db) (listed_by rel win) c')"
proof -
  obtain base where base: "cachedIssue qc ws i q = Some base" "base = None \<or> base = Some old" using cached by auto
  define ch where "ch = applyIssueChange qc ws i p (event_dims meta p base) base q"
  let ?q1 = "invalidateStaleListKeys ad (staleKeys ch) (ch_client ch)"
  have dims: "dims_cover scope f (event_dims meta p base) p old"
    using event_dims_cover [OF flags(1), of base] flags(2) base by auto
  obtain c' where c': "getQueryData qc (ch_client ch) key = Some (DBuckets c')"
    "key \<in> set (staleKeys ch) \<or> accurate (server_patch i p db) (listed_by rel win) c'"
    using change_coherent [OF ok(1) db known_base [OF base(2)] dims creator key judged_inside [OF srv inside] data ch_def]
    by blast
  have q1: "getQueryData qc ?q1 key = Some (DBuckets c')" "key \<in> set (staleKeys ch) \<longrightarrow> isStale ad ?q1 key"
    using c'(1) by (simp_all add: marks_get [OF marks_stale_keys [OF ok(2)]] marks_stale [OF marks_stale_keys [OF ok(2)]])
  have part: "issue_part key \<noteq> Some (KStr ''children'')" using key(1) key_parts(1,2) [of ws key] by auto
  with update_runs [OF ok shape base(1) ch_def] obtain q' where
    "onIssueUpdated qc ad ws i p meta q = Some q'" "keeps_key qc ad key ?q1 q'" by blast
  with q1 c'(2) show ?thesis unfolding keeps_key_def by auto
qed

section \<open>Snapshots of labels, metadata and properties\<close>

text \<open>The copies of an issue in the data of a query, and that they all carry a field's new value.\<close>

definition copies :: "cache_data \<Rightarrow> issue list" where
  "copies d =
     (case d of
        DBuckets c \<Rightarrow> concat (map (\<lambda>s. b_issues (getBucket c s)) ALL_STATUSES)
      | DFlat pages _ \<Rightarrow> concat (map fp_issues pages)
      | DTable rows _ \<Rightarrow> map tr_issue rows
      | DIssue j \<Rightarrow> [j]
      | DIssueList l \<Rightarrow> l
      | _ \<Rightarrow> [])"

definition carries :: "jstr \<Rightarrow> jstr \<Rightarrow> jstr \<Rightarrow> cache_data \<Rightarrow> bool" where
  "carries i name v d = (\<forall>j \<in> set (copies d). iss_id j = i \<longrightarrow> obj_get (iss_other j) name = Some v)"

lemma merged_field: "obj_get (iss_other (merge_issue j (field_patch name v))) name = Some v"
  by (simp add: merge_issue_def field_patch_def obj_assign_def obj_get_set)

lemma patched_field: "iss_id j = i \<Longrightarrow> obj_get (iss_other (patch_row i (field_patch name v) j)) name = Some v"
  by (simp add: patch_row_def merged_field)

definition list_data :: "jstr \<Rightarrow> issue_patch \<Rightarrow> cache_data \<Rightarrow> cache_data" where
  "list_data i p d =
     (case d of DBuckets c \<Rightarrow> DBuckets (case patchIssueInBuckets c i p of None \<Rightarrow> c | Some c' \<Rightarrow> c') | _ \<Rightarrow> d)"

definition flat_data :: "jstr \<Rightarrow> issue_patch \<Rightarrow> cache_data \<Rightarrow> cache_data" where
  "flat_data i p d =
     (case d of
        DFlat pages rest \<Rightarrow> DFlat (map (\<lambda>page. page\<lparr>fp_issues := map (patch_row i p) (fp_issues page)\<rparr>) pages) rest
      | _ \<Rightarrow> d)"

definition table_data :: "jstr \<Rightarrow> issue_patch \<Rightarrow> cache_data \<Rightarrow> cache_data" where
  "table_data i p d =
     (case d of
        DTable rows rest \<Rightarrow> DTable (map (\<lambda>row. row\<lparr>tr_issue := patch_row i p (tr_issue row)\<rparr>) rows) rest
      | _ \<Rightarrow> d)"

definition issues_data :: "jstr \<Rightarrow> issue_patch \<Rightarrow> cache_data \<Rightarrow> cache_data" where
  "issues_data i p d = (case d of DIssueList l \<Rightarrow> DIssueList (map (patch_row i p) l) | _ \<Rightarrow> d)"

lemma field_patch_plain: "p_status (field_patch name v) = None" "p_position (field_patch name v) = None"
  by (simp_all add: field_patch_def no_patch_def)

lemma list_data_carries:
  assumes "single_home i c"
  shows "carries i name v (list_data i (field_patch name v) (DBuckets c))"
proof (cases "findIssueLocation c i")
  case None
  have "iss_id j \<noteq> i" if "j \<in> set (b_issues (getBucket c s))" for j s using location_None [OF None] that by blast
  with None show ?thesis by (auto simp: list_data_def carries_def copies_def patchIssueInBuckets_def)
next
  case (Some loc)
  obtain s found where loc: "findIssueLocation c i = Some (s, found)" using Some by (cases loc) auto
  have home: "s' = s" if "j \<in> set (b_issues (getBucket c s'))" "iss_id j = i" for j s'
  proof -
    have "i \<in> iss_id ` set (b_issues (getBucket c s))" "i \<in> iss_id ` set (b_issues (getBucket c s'))"
      using location_Some [OF loc] that by (simp, metis imageI)+
    with assms show ?thesis unfolding single_home_def by blast
  qed
  have patch: "patchIssueInBuckets c i (field_patch name v) = Some (setBucket c s
      ((getBucket c s)\<lparr>b_issues := map (\<lambda>j. if iss_id j = i then merge_issue found (field_patch name v) else j)
         (b_issues (getBucket c s))\<rparr>))"
    using field_patch_plain [of name v] by (simp add: patchIssueInBuckets_def loc Let_def over_def)
  show ?thesis
    by (auto simp: list_data_def patch carries_def copies_def getBucket_set merged_field split: if_splits dest: home)
qed

lemma other_data_carries:
  "carries i name v (flat_data i (field_patch name v) (DFlat pages rest))"
  "carries i name v (table_data i (field_patch name v) (DTable rows rest))"
  "carries i name v (issues_data i (field_patch name v) (DIssueList l))"
  "carries i name v (DIssue (merge_issue j (field_patch name v)))"
  by (auto simp: carries_def copies_def flat_data_def table_data_def issues_data_def patched_field merged_field)

lemma patch_row_absent: "i \<notin> iss_id ` set l \<Longrightarrow> map (patch_row i p) l = l"
  by (rule map_idI) (auto simp: patch_row_def)

lemma patch_steps_write:
  assumes ok: "query_client_ok qc"
  shows "writes_entry qc (list_data i p) (patch_list_entry qc i p)"
    "writes_entry qc (flat_data i p) (\<lambda>e q. Some (patch_flat_entry qc i p e q))"
    "writes_entry qc (table_data i p) (\<lambda>e q. Some (patch_table_entry qc i p e q))"
    "writes_entry qc (issues_data i p) (patch_children_entry qc i p)"
    "writes_entry qc (issues_data i p) (patch_gantt_entry qc i p)"
proof -
  show "writes_entry qc (list_data i p) (patch_list_entry qc i p)"
    by (auto simp: writes_entry_def patch_list_entry_def list_data_def client_get_set [OF ok]
        split: option.splits cache_data.splits)
  show "writes_entry qc (flat_data i p) (\<lambda>e q. Some (patch_flat_entry qc i p e q))"
    by (auto simp: writes_entry_def patch_flat_entry_def flat_data_def client_get_set [OF ok]
        split: option.splits cache_data.splits)
  have table: "map (\<lambda>row. row\<lparr>tr_issue := patch_row i p (tr_issue row)\<rparr>) rows = rows"
    if "\<not> list_ex (\<lambda>row. iss_id (tr_issue row) = i) rows" for rows
    using that by (auto simp: list_ex_iff patch_row_def intro!: map_idI)
  show "writes_entry qc (table_data i p) (\<lambda>e q. Some (patch_table_entry qc i p e q))"
    by (auto simp: writes_entry_def patch_table_entry_def table_data_def client_get_set [OF ok] table
        split: option.splits cache_data.splits)
  have rows: "map (patch_row i p) l = l" if "\<not> list_ex (\<lambda>child. iss_id child = i) l" for l
    using that by (intro patch_row_absent) (auto simp: list_ex_iff)
  show "writes_entry qc (issues_data i p) (patch_children_entry qc i p)"
    by (auto simp: writes_entry_def patch_children_entry_def issues_data_def client_get_set [OF ok] rows
        split: option.splits cache_data.splits)
  show "writes_entry qc (issues_data i p) (patch_gantt_entry qc i p)"
    by (auto simp: writes_entry_def patch_gantt_entry_def issues_data_def client_get_set [OF ok]
        split: option.splits cache_data.splits)
qed

text \<open>The shapes of the queries that hold copies, and the queries themselves.\<close>

definition copies_shaped :: "'q query_client \<Rightarrow> jstr \<Rightarrow> jstr \<Rightarrow> 'q \<Rightarrow> bool" where
  "copies_shaped qc ws i q = (\<forall>k d. getQueryData qc q k = Some d \<longrightarrow>
     (prefix (issue_list ws) k \<longrightarrow> (\<exists>c. d = DBuckets c \<and> single_home i c))
     \<and> (prefix (issue_childrenAll ws) k \<or> prefix (issue_projectGanttAll ws) k \<longrightarrow> (\<exists>l. d = DIssueList l)))"

definition main_copy :: "jstr \<Rightarrow> jstr \<Rightarrow> query_key \<Rightarrow> cache_data \<Rightarrow> bool" where
  "main_copy ws i k d =
     (prefix (issue_list ws) k \<or> prefix (issue_myAll ws) k \<or> prefix (issue_tableAll ws) k
      \<or> prefix (issue_flatAll ws) k \<and> (case d of DFlat _ _ \<Rightarrow> True | _ \<Rightarrow> False)
      \<or> k = issue_detail ws i \<and> (case d of DIssue _ \<Rightarrow> True | _ \<Rightarrow> False))"

lemma gantt_part: "prefix (issue_projectGanttAll ws) k \<Longrightarrow> issue_part k = Some (KStr ''project-gantt'')"
  unfolding issue_projectGanttAll_def by (rule prefix_part)

lemmas copy_parts = key_parts children_part gantt_part

text \<open>The stages every one of the three events starts with.\<close>

definition patch_main ::
    "'q query_client \<Rightarrow> jstr \<Rightarrow> jstr \<Rightarrow> issue_patch \<Rightarrow> 'q \<Rightarrow> 'q" where
  "patch_main qc ws i p q = patch_detail qc ws i p (patchIssueInTableCaches qc ws i p (patchIssueInFlatCaches qc ws i p q))"

lemma list_caches_total:
  assumes ok: "query_client_ok qc" and shape: "copies_shaped qc ws i q"
  shows "\<exists>q1. patch_list_caches qc ws i p q = Some q1"
  unfolding patch_list_caches_def
proof (rule fold_throw_total)
  fix e and acc assume "e \<in> set (getQueriesData qc (issue_list ws) q)"
  with client_find(2) [OF ok, of "fst e" "snd e"] have "prefix (issue_list ws) (fst e)" "snd e = getQueryData qc q (fst e)" by auto
  with shape have "snd e = None \<or> (\<exists>c. snd e = Some (DBuckets c))"
    unfolding copies_shaped_def by (cases "getQueryData qc q (fst e)") auto
  then show "patch_list_entry qc i p e acc \<noteq> None" by (auto simp: patch_list_entry_def)
qed

lemma main_effect:
  assumes ok: "query_client_ok qc" and q1: "patch_list_caches qc ws i p q = Some q1"
  shows "getQueryData qc (patch_main qc ws i p q1) k =
    (if prefix (issue_list ws) k then map_option (list_data i p) (getQueryData qc q k)
     else if prefix (issue_flatAll ws) k then map_option (flat_data i p) (getQueryData qc q k)
     else if prefix (issue_tableAll ws) k then map_option (table_data i p) (getQueryData qc q k)
     else if k = issue_detail ws i
     then (case getQueryData qc q k of Some (DIssue j) \<Rightarrow> Some (DIssue (merge_issue j p)) | d \<Rightarrow> d)
     else getQueryData qc q k)"
proof -
  note writes = patch_steps_write [OF ok, of i p]
  define q2 where "q2 = patchIssueInFlatCaches qc ws i p q1"
  define q3 where "q3 = patchIssueInTableCaches qc ws i p q2"
  have g1: "getQueryData qc q1 k = (if prefix (issue_list ws) k then map_option (list_data i p) (getQueryData qc q k)
      else getQueryData qc q k)" for k
    using writes_prefix [OF ok writes(1)] q1 unfolding patch_list_caches_def by blast
  have g2: "getQueryData qc q2 k = (if prefix (issue_flatAll ws) k then map_option (flat_data i p) (getQueryData qc q1 k)
      else getQueryData qc q1 k)" for k
    using writes_prefix [OF ok writes(2) fold_is_throw] unfolding q2_def patchIssueInFlatCaches_def .
  have g3: "getQueryData qc q3 k = (if prefix (issue_tableAll ws) k then map_option (table_data i p) (getQueryData qc q2 k)
      else getQueryData qc q2 k)" for k
    using writes_prefix [OF ok writes(3) fold_is_throw] unfolding q3_def patchIssueInTableCaches_def .
  have parts: "prefix (issue_list ws) k \<Longrightarrow> \<not> prefix (issue_flatAll ws) k \<and> \<not> prefix (issue_tableAll ws) k \<and> k \<noteq> issue_detail ws i"
    "prefix (issue_flatAll ws) k \<Longrightarrow> \<not> prefix (issue_tableAll ws) k \<and> k \<noteq> issue_detail ws i"
    "prefix (issue_tableAll ws) k \<Longrightarrow> k \<noteq> issue_detail ws i" for k
    using copy_parts(1,3,4) [of ws k] copy_parts(5) [of ws i] by auto
  have here: "getQueryData qc q3 (issue_detail ws i) = getQueryData qc q (issue_detail ws i)"
    using g3 [of "issue_detail ws i"] g2 [of "issue_detail ws i"] g1 [of "issue_detail ws i"] parts [of "issue_detail ws i"] by auto
  have detail: "getQueryData qc (patch_detail qc ws i p q3) k =
      (if k = issue_detail ws i
       then (case getQueryData qc q k of Some (DIssue j) \<Rightarrow> Some (DIssue (merge_issue j p)) | d \<Rightarrow> d)
       else getQueryData qc q3 k)"
    using here by (auto simp: patch_detail_def client_get_set [OF ok] split: option.splits cache_data.splits)
  show ?thesis
    unfolding patch_main_def q2_def [symmetric] q3_def [symmetric] detail g3 g2 g1 using parts [of k] by auto
qed

lemma main_carries:
  assumes ok: "query_client_ok qc" and shape: "copies_shaped qc ws i q"
    and q1: "patch_list_caches qc ws i (field_patch name v) q = Some q1"
    and d: "getQueryData qc (patch_main qc ws i (field_patch name v) q1) k = Some d"
    and key: "main_copy ws i k d" "\<not> prefix (issue_myAll ws) k" "\<not> prefix (issue_tableAll ws) k"
  shows "carries i name v d"
proof -
  note g = d [unfolded main_effect [OF ok q1]]
  consider "prefix (issue_list ws) k" | "prefix (issue_flatAll ws) k" "\<exists>pages rest. d = DFlat pages rest"
    | "k = issue_detail ws i" "\<exists>j. d = DIssue j" "\<not> prefix (issue_list ws) k" "\<not> prefix (issue_flatAll ws) k"
  proof -
    have "k = issue_detail ws i \<Longrightarrow> \<not> prefix (issue_list ws) k \<and> \<not> prefix (issue_flatAll ws) k"
      using copy_parts(1,3) [of ws k] copy_parts(5) [of ws i] by auto
    with key that show ?thesis unfolding main_copy_def by (cases d) auto
  qed
  then show ?thesis
  proof cases
    case 1
    then obtain e where e: "getQueryData qc q k = Some e" "d = list_data i (field_patch name v) e" using g by auto
    with shape 1 obtain c where "e = DBuckets c" "single_home i c" unfolding copies_shaped_def by blast
    with e(2) list_data_carries show ?thesis by simp
  next
    case 2
    then have "\<not> prefix (issue_list ws) k" using copy_parts(1,3) [of ws k] by auto
    with 2 g obtain e where e: "d = flat_data i (field_patch name v) e" by (auto dest: sym)
    with 2(2) obtain pages rest where "e = DFlat pages rest" by (cases e) (auto simp: flat_data_def)
    with e other_data_carries(1) show ?thesis by simp
  next
    case 3
    with g key(3) obtain j where "d = DIssue (merge_issue j (field_patch name v))"
      by (auto split: option.splits cache_data.splits)
    with other_data_carries(4) show ?thesis by simp
  qed
qed

lemma issues_caches_total:
  assumes ok: "query_client_ok qc" and shape: "copies_shaped qc ws i q" and p: "p \<in> {issue_childrenAll ws, issue_projectGanttAll ws}"
    and e: "e \<in> set (getQueriesData qc p r)" and same: "\<And>k. prefix p k \<Longrightarrow> getQueryData qc r k = getQueryData qc q k"
  shows "snd e = None \<or> (\<exists>l. snd e = Some (DIssueList l))"
proof -
  have "prefix p (fst e)" "snd e = getQueryData qc q (fst e)"
    using client_find(2) [OF ok, of "fst e" "snd e" p r] e same [of "fst e"] by auto
  with shape p show ?thesis unfolding copies_shaped_def by (cases "getQueryData qc q (fst e)") auto
qed

lemma children_caches_total:
  assumes ok: "query_client_ok qc" and shape: "copies_shaped qc ws i q"
    and same: "\<And>k. prefix (issue_childrenAll ws) k \<Longrightarrow> getQueryData qc r k = getQueryData qc q k"
  shows "\<exists>r'. patchIssueInChildrenCaches qc ws i p r = Some r'"
  unfolding patchIssueInChildrenCaches_def
proof (rule fold_throw_total)
  fix e and acc assume "e \<in> set (getQueriesData qc (issue_childrenAll ws) r)"
  from issues_caches_total [OF ok shape _ this same] show "patch_children_entry qc i p e acc \<noteq> None"
    by (auto simp: patch_children_entry_def)
qed

lemma gantt_caches_total:
  assumes ok: "query_client_ok qc" and shape: "copies_shaped qc ws i q"
    and same: "\<And>k. prefix (issue_projectGanttAll ws) k \<Longrightarrow> getQueryData qc r k = getQueryData qc q k"
  shows "\<exists>r'. patch_gantt_caches qc ws i p r = Some r'"
  unfolding patch_gantt_caches_def
proof (rule fold_throw_total)
  fix e and acc assume "e \<in> set (getQueriesData qc (issue_projectGanttAll ws) r)"
  from issues_caches_total [OF ok shape _ this same] show "patch_gantt_entry qc i p e acc \<noteq> None"
    by (auto simp: patch_gantt_entry_def)
qed

lemma main_other_parts:
  assumes ok: "query_client_ok qc" and q1: "patch_list_caches qc ws i p q = Some q1"
    and "issue_part k \<notin> {Some (KStr ''list''), Some (KStr ''flat''), Some (KStr ''table-query''), Some (KStr ''detail'')}"
  shows "getQueryData qc (patch_main qc ws i p q1) k = getQueryData qc q k"
proof -
  have "\<not> prefix (issue_list ws) k" "\<not> prefix (issue_flatAll ws) k" "\<not> prefix (issue_tableAll ws) k" "k \<noteq> issue_detail ws i"
    using assms(3) copy_parts(1,3,4) [of ws k] copy_parts(5) [of ws i] by auto
  then show ?thesis by (simp add: main_effect [OF ok q1])
qed

text \<open>The keys each event invalidates.\<close>

lemma marks_label:
  assumes "query_admin_ok qc ad"
  shows "marks_where qc ad (\<lambda>k. (\<exists>p \<in> {issue_childrenAll ws, issue_childrenByParentsAll ws, issue_myAll ws,
      issue_assigneeGroupsAll ws, issue_myAssigneeGroupsAll ws, issue_tableAll ws}. prefix p k)
    \<or> prefix (issue_flatAll ws) k \<and> hasLabelFilter k) (invalidateIssueLabelDerivatives ad ws)"
  by (rule marks_cong [OF marks_then [OF marks_fold [OF assms, of "[issue_childrenAll ws, issue_childrenByParentsAll ws,
        issue_myAll ws, issue_assigneeGroupsAll ws, issue_myAssigneeGroupsAll ws, issue_tableAll ws]"]
        admin_marks(2) [OF assms, of "issue_flatAll ws" hasLabelFilter]]])
    (simp, simp only: invalidateIssueLabelDerivatives_def)

lemma label_event:
  assumes ok: "query_client_ok qc" "query_admin_ok qc ad" and shape: "copies_shaped qc ws i q"
  shows "\<exists>q'. onIssueLabelsChanged qc ad ws i v q = Some q'
      \<and> (\<forall>k d. getQueryData qc q' k = Some d \<longrightarrow>
           main_copy ws i k d \<or> prefix (issue_childrenAll ws) k \<or> prefix (issue_projectGanttAll ws) k \<longrightarrow>
           carries i ''labels'' v d \<or> isStale ad q' k)
      \<and> (\<forall>old rest. getQueryData qc q (label_byIssue ws i) = Some (DLabels old rest) \<longrightarrow>
           getQueryData qc q' (label_byIssue ws i) = Some (DLabels v rest))"
proof -
  let ?p = "field_patch ''labels'' v"
  note writes = patch_steps_write [OF ok(1), of i ?p]
  obtain q1 where q1: "patch_list_caches qc ws i ?p q = Some q1" using list_caches_total [OF ok(1) shape] by blast
  define q2 where "q2 = patch_main qc ws i ?p q1"
  define q3 where "q3 = patch_byIssue qc ws i v q2"
  have label_part: "issue_part (label_byIssue ws i) = None"
    by (simp add: issue_part_def label_byIssue_def nth_part_def)
  have g3: "k \<noteq> label_byIssue ws i \<Longrightarrow> getQueryData qc q3 k = getQueryData qc q2 k" for k
    by (auto simp: q3_def patch_byIssue_def client_get_set [OF ok(1)] split: option.splits cache_data.splits)
  have others: "getQueryData qc q3 k = getQueryData qc q k" if "issue_part k \<in> {Some (KStr ''children''), Some (KStr ''project-gantt'')}" for k
  proof -
    have "k \<noteq> label_byIssue ws i" using that label_part by auto
    then show ?thesis using that g3 [of k] main_other_parts [OF ok(1) q1, of k] unfolding q2_def by auto
  qed
  obtain q4 where q4: "patchIssueInChildrenCaches qc ws i ?p q3 = Some q4"
    using children_caches_total [OF ok(1) shape, of q3] others children_part by blast
  have g4: "getQueryData qc q4 k = (if prefix (issue_childrenAll ws) k then map_option (issues_data i ?p) (getQueryData qc q3 k)
      else getQueryData qc q3 k)" for k
    using writes_prefix [OF ok(1) writes(4)] q4 unfolding patchIssueInChildrenCaches_def by blast
  have gantt: "getQueryData qc q4 k = getQueryData qc q k" if "prefix (issue_projectGanttAll ws) k" for k
    using that others [of k] gantt_part [of ws k] children_part [of ws k] g4 [of k] by auto
  obtain q5 where q5: "patch_gantt_caches qc ws i ?p q4 = Some q5"
    using gantt_caches_total [OF ok(1) shape, of q4] gantt by blast
  have g5: "getQueryData qc q5 k = (if prefix (issue_projectGanttAll ws) k then map_option (issues_data i ?p) (getQueryData qc q4 k)
      else getQueryData qc q4 k)" for k
    using writes_prefix [OF ok(1) writes(5)] q5 unfolding patch_gantt_caches_def by blast
  let ?q' = "invalidateIssueLabelDerivatives ad ws q5"
  note m = marks_label [OF ok(2), of ws]
  have run: "onIssueLabelsChanged qc ad ws i v q = Some ?q'"
    using q1 q4 q5 by (simp add: onIssueLabelsChanged_def patchIssueLabels_def Let_def q3_def q2_def patch_main_def)
  have good: "carries i ''labels'' v d \<or> isStale ad ?q' k"
    if d: "getQueryData qc ?q' k = Some d"
      and key: "main_copy ws i k d \<or> prefix (issue_childrenAll ws) k \<or> prefix (issue_projectGanttAll ws) k" for k d
  proof (cases "prefix (issue_myAll ws) k \<or> prefix (issue_tableAll ws) k \<or> prefix (issue_childrenAll ws) k")
    case True
    have "getQueryData qc q5 k \<noteq> None" using d by (simp add: marks_get [OF m])
    from marks_stale [OF m this] True show ?thesis by blast
  next
    case False
    have d5: "getQueryData qc q5 k = Some d" using d by (simp add: marks_get [OF m])
    show ?thesis
    proof (cases "prefix (issue_projectGanttAll ws) k")
      case True
      with d5 g5 [of k] gantt [of k] obtain e where "getQueryData qc q k = Some e" "d = issues_data i ?p e" by auto
      moreover from this True shape obtain l where "e = DIssueList l" unfolding copies_shaped_def by blast
      ultimately show ?thesis using other_data_carries(3) by simp
    next
      case no: False
      with key False have main: "main_copy ws i k d" by blast
      then have "issue_part k \<noteq> None"
        using copy_parts(1-4) [of ws k] copy_parts(5) [of ws i] unfolding main_copy_def by auto
      with label_part have "k \<noteq> label_byIssue ws i" by auto
      with d5 g5 [of k] g4 [of k] g3 no False have "getQueryData qc q2 k = Some d" by simp
      from main_carries [OF ok(1) shape q1 this [unfolded q2_def] main] False show ?thesis by blast
    qed
  qed
  have picker: "getQueryData qc ?q' (label_byIssue ws i) = Some (DLabels v rest)"
    if "getQueryData qc q (label_byIssue ws i) = Some (DLabels old rest)" for old rest
  proof -
    have "getQueryData qc q2 (label_byIssue ws i) = Some (DLabels old rest)"
      using that main_other_parts [OF ok(1) q1, of "label_byIssue ws i"] label_part by (simp add: q2_def)
    then have "getQueryData qc q3 (label_byIssue ws i) = Some (DLabels v rest)"
      by (simp add: q3_def patch_byIssue_def client_get_set [OF ok(1)])
    then show ?thesis
      using g5 [of "label_byIssue ws i"] g4 [of "label_byIssue ws i"] label_part gantt_part [of ws "label_byIssue ws i"]
        children_part [of ws "label_byIssue ws i"] by (auto simp: marks_get [OF m])
  qed
  show ?thesis using run good picker by blast
qed

lemma properties_event:
  assumes ok: "query_client_ok qc" "query_admin_ok qc ad" and shape: "copies_shaped qc ws i q"
  shows "\<exists>q'. onIssuePropertiesChanged qc ad ws i v q = Some q'
      \<and> (\<forall>k d. getQueryData qc q' k = Some d \<longrightarrow> main_copy ws i k d \<or> prefix (issue_childrenAll ws) k \<longrightarrow>
           carries i ''properties'' v d \<or> isStale ad q' k)"
proof -
  let ?p = "field_patch ''properties'' v"
  let ?ps = "[issue_childrenAll ws, issue_childrenByParentsAll ws, issue_myAll ws, issue_assigneeGroupsAll ws,
    issue_myAssigneeGroupsAll ws, issue_tableAll ws]"
  obtain q1 where q1: "patch_list_caches qc ws i ?p q = Some q1" using list_caches_total [OF ok(1) shape] by blast
  define q2 where "q2 = patch_main qc ws i ?p q1"
  have others: "getQueryData qc q2 k = getQueryData qc q k" if "prefix (issue_childrenAll ws) k" for k
    using main_other_parts [OF ok(1) q1, of k] children_part [OF that] by (simp add: q2_def)
  obtain q3 where q3: "patchIssueInChildrenCaches qc ws i ?p q2 = Some q3"
    using children_caches_total [OF ok(1) shape, of q2] others by blast
  have g3: "getQueryData qc q3 k = (if prefix (issue_childrenAll ws) k then map_option (issues_data i ?p) (getQueryData qc q2 k)
      else getQueryData qc q2 k)" for k
    using writes_prefix [OF ok(1) patch_steps_write(4) [OF ok(1), of i ?p]] q3 unfolding patchIssueInChildrenCaches_def by blast
  let ?q' = "invalidateUpdatedAtSortedIssueLists ad ws (invalidatePropertyWindowQueries ad ws (fold (invalidateQueries ad) ?ps q3))"
  note m = marks_fold [OF ok(2), of ?ps]
  have after: "keeps_key qc ad k (fold (invalidateQueries ad) ?ps q3) ?q'" for k
    unfolding invalidatePropertyWindowQueries_def
    by (rule keeps_key_trans [OF keeps_key_marks [OF admin_marks(2) [OF ok(2)]] keeps_key_marks [OF marks_updated [OF ok(2)]]])
  have run: "onIssuePropertiesChanged qc ad ws i v q = Some ?q'"
    using q1 q3 by (simp add: onIssuePropertiesChanged_def patchIssueProperties_def Let_def q2_def patch_main_def del: fold.simps)
  have "carries i ''properties'' v d \<or> isStale ad ?q' k"
    if d: "getQueryData qc ?q' k = Some d" and key: "main_copy ws i k d \<or> prefix (issue_childrenAll ws) k" for k d
  proof -
    have d3: "getQueryData qc q3 k = Some d"
      using d after [of k] marks_get [OF m, of q3 k] unfolding keeps_key_def by (simp del: fold.simps)
    show ?thesis
    proof (cases "prefix (issue_myAll ws) k \<or> prefix (issue_tableAll ws) k \<or> prefix (issue_childrenAll ws) k")
      case True
      then have "\<exists>p \<in> set ?ps. prefix p k" by auto
      with marks_stale [OF m, of q3 k] d3 have "isStale ad (fold (invalidateQueries ad) ?ps q3) k" by blast
      with after [of k] d3 marks_get [OF m, of q3 k] show ?thesis unfolding keeps_key_def by (simp del: fold.simps)
    next
      case False
      with d3 g3 [of k] have "getQueryData qc q2 k = Some d" by simp
      from main_carries [OF ok(1) shape q1 this [unfolded q2_def]] key False show ?thesis by blast
    qed
  qed
  with run show ?thesis by blast
qed

lemma metadata_event:
  assumes ok: "query_client_ok qc" "query_admin_ok qc ad" and shape: "copies_shaped qc ws i q"
  shows "\<exists>q'. onIssueMetadataChanged qc ad ws i v q = Some q'
      \<and> (\<forall>k d. getQueryData qc q' k = Some d \<longrightarrow> main_copy ws i k d \<longrightarrow> carries i ''metadata'' v d \<or> isStale ad q' k)"
proof -
  let ?p = "field_patch ''metadata'' v"
  obtain q1 where q1: "patch_list_caches qc ws i ?p q = Some q1" using list_caches_total [OF ok(1) shape] by blast
  define q2 where "q2 = patch_main qc ws i ?p q1"
  let ?q' = "invalidateQueries ad (issue_tableAll ws)
    (invalidateUpdatedAtSortedIssueLists ad ws (invalidateQueries ad (issue_myAll ws) q2))"
  note m = marks_then [OF marks_then [OF admin_marks(1) [OF ok(2), of "issue_myAll ws"] marks_updated [OF ok(2), of ws]]
      admin_marks(1) [OF ok(2), of "issue_tableAll ws"]]
  have run: "onIssueMetadataChanged qc ad ws i v q = Some ?q'"
    using q1 by (simp add: onIssueMetadataChanged_def Let_def q2_def patch_main_def)
  have "carries i ''metadata'' v d \<or> isStale ad ?q' k" if d: "getQueryData qc ?q' k = Some d" and key: "main_copy ws i k d" for k d
  proof -
    have d2: "getQueryData qc q2 k = Some d" using d marks_get [OF m, of q2 k] by simp
    show ?thesis
    proof (cases "prefix (issue_myAll ws) k \<or> prefix (issue_tableAll ws) k")
      case True
      with marks_stale [OF m, of q2 k] d2 show ?thesis by blast
    next
      case False
      with main_carries [OF ok(1) shape q1 d2 [unfolded q2_def] key] show ?thesis by blast
    qed
  qed
  with run show ?thesis by blast
qed

text \<open>C20: an event that replaces the labels, the metadata or the properties of an issue is handled
  without a throw, and afterwards every cached copy of the issue carries the new value or belongs to a
  query marked stale: in the lists, the user's own lists, the windows and the table pages and in the
  issue's own query; for labels and properties also among the children of any parent, and for labels
  in the project charts and in the label picker's own query.\<close>

theorem snapshot_events_reach_copies:
  assumes ok: "query_client_ok qc" "query_admin_ok qc ad" and shape: "copies_shaped qc ws i q"
  shows "(\<exists>q'. onIssueLabelsChanged qc ad ws i v q = Some q'
      \<and> (\<forall>k d. getQueryData qc q' k = Some d \<longrightarrow>
           main_copy ws i k d \<or> prefix (issue_childrenAll ws) k \<or> prefix (issue_projectGanttAll ws) k \<longrightarrow>
           carries i ''labels'' v d \<or> isStale ad q' k)
      \<and> (\<forall>old rest. getQueryData qc q (label_byIssue ws i) = Some (DLabels old rest) \<longrightarrow>
           getQueryData qc q' (label_byIssue ws i) = Some (DLabels v rest)))
    \<and> (\<exists>q'. onIssuePropertiesChanged qc ad ws i v q = Some q'
      \<and> (\<forall>k d. getQueryData qc q' k = Some d \<longrightarrow> main_copy ws i k d \<or> prefix (issue_childrenAll ws) k \<longrightarrow>
           carries i ''properties'' v d \<or> isStale ad q' k))
    \<and> (\<exists>q'. onIssueMetadataChanged qc ad ws i v q = Some q'
      \<and> (\<forall>k d. getQueryData qc q' k = Some d \<longrightarrow> main_copy ws i k d \<longrightarrow>
           carries i ''metadata'' v d \<or> isStale ad q' k))"
  using label_event [OF assms] properties_event [OF assms] metadata_event [OF assms] by blast

section \<open>Creation and deletion\<close>

definition added :: "issue \<Rightarrow> cache_data \<Rightarrow> cache_data" where
  "added i d = (case d of DBuckets c \<Rightarrow> DBuckets (case addIssueToBuckets c i of None \<Rightarrow> c | Some c' \<Rightarrow> c') | _ \<Rightarrow> d)"

lemma add_writes: "query_client_ok qc \<Longrightarrow> writes_entry qc (added i) (add_list_entry qc i)"
  by (auto simp: writes_entry_def add_list_entry_def added_def client_get_set split: option.splits cache_data.splits)

lemma created_effect:
  assumes ok: "query_client_ok qc" "query_admin_ok qc ad" and shape: "shape_ok qc ws q"
  shows "\<exists>q'. onIssueCreated qc ad ws i q = Some q'
    \<and> (\<forall>k. getQueryData qc q' k = (if prefix (issue_list ws) k then map_option (added i) (getQueryData qc q k)
            else getQueryData qc q k))
    \<and> (\<forall>k. getQueryData qc q' k \<noteq> None \<longrightarrow>
         prefix (issue_myAll ws) k \<or> prefix (issue_flatAll ws) k \<or> prefix (issue_tableAll ws) k \<longrightarrow> isStale ad q' k)"
proof -
  let ?ps = "[issue_myAll ws, issue_flatAll ws, issue_tableAll ws, issue_assigneeGroupsAll ws, issue_myAssigneeGroupsAll ws]"
  have "\<exists>q1. fold_throw (add_list_entry qc i) (getQueriesData qc (issue_list ws) q) q = Some q1"
  proof (rule fold_throw_total)
    fix e and acc assume "e \<in> set (getQueriesData qc (issue_list ws) q)"
    with client_find(2) [OF ok(1), of "fst e" "snd e"] have "prefix (issue_list ws) (fst e)" "snd e = getQueryData qc q (fst e)"
      by auto
    with shape have "snd e = None \<or> (\<exists>c. snd e = Some (DBuckets c))"
      unfolding shape_ok_def by (cases "getQueryData qc q (fst e)") auto
    then show "add_list_entry qc i e acc \<noteq> None" by (auto simp: add_list_entry_def)
  qed
  then obtain q1 where q1: "fold_throw (add_list_entry qc i) (getQueriesData qc (issue_list ws) q) q = Some q1" by blast
  let ?q2 = "fold (invalidateQueries ad) ?ps q1"
  let ?q3 = "if given (iss_project_id i) = [] then ?q2 else invalidateQueries ad (project_all ws) ?q2"
  let ?q' = "fold (\<lambda>parent q. invalidateQueries ad (issue_childProgress ws) (invalidateQueries ad (issue_children ws parent) q))
    (given (iss_parent_issue_id i)) (invalidateQueries ad (issue_projectGanttAll ws) ?q3)"
  have run: "onIssueCreated qc ad ws i q = Some ?q'" by (simp add: onIssueCreated_def q1 Let_def del: fold.simps)
  note mark = keeps_key_marks [OF admin_marks(1) [OF ok(2)]]
  have "keeps_key qc ad k ?q2 ?q3" for k using mark by (simp del: fold.simps)
  moreover have "keeps_key qc ad k (invalidateQueries ad (issue_projectGanttAll ws) ?q3) ?q'" for k
    by (rule keeps_key_fold) (rule keeps_key_trans [OF mark mark])
  ultimately have after: "keeps_key qc ad k ?q2 ?q'" for k using mark by (meson keeps_key_trans)
  note m = marks_fold [OF ok(2), of ?ps]
  have get: "getQueryData qc ?q' k = getQueryData qc q1 k" for k
    using after [of k] marks_get [OF m, of q1 k] unfolding keeps_key_def by (simp only:)
  have stale: "isStale ad ?q' k" if "getQueryData qc ?q' k \<noteq> None"
    "prefix (issue_myAll ws) k \<or> prefix (issue_flatAll ws) k \<or> prefix (issue_tableAll ws) k" for k
  proof -
    have "\<exists>p \<in> set ?ps. prefix p k" using that(2) by auto
    with that(1) marks_stale [OF m, of q1 k] get have "isStale ad ?q2 k" by metis
    with after [of k] that(1) get marks_get [OF m, of q1 k] show ?thesis unfolding keeps_key_def by metis
  qed
  have "getQueryData qc ?q' k = (if prefix (issue_list ws) k then map_option (added i) (getQueryData qc q k)
      else getQueryData qc q k)" for k
    unfolding get by (rule writes_prefix [OF ok(1) add_writes [OF ok(1)] q1])
  with run stale show ?thesis by blast
qed

lemma added_accurate:
  assumes fresh: "iss_id i \<notin> iss_id ` set db" and acc: "accurate db (\<lambda>_. True) c"
  shows "\<exists>c'. addIssueToBuckets c i = Some c' \<and> accurate (db @ [i]) (\<lambda>_. True) c' \<and> addIssueToBuckets c' i = None"
proof -
  let ?b = "getBucket c (iss_status i)"
  let ?c' = "setBucket c (iss_status i) \<lparr>b_issues = b_issues ?b @ [i], b_total = b_total ?b + 1\<rparr>"
  have old: "accurate_bucket db (\<lambda>_. True) s (getBucket c s)" for s using acc by (simp add: accurate_all)
  have ne: "iss_id j \<noteq> iss_id i" if "j \<in> set (b_issues ?b)" for j
  proof -
    have "j \<in> set db" using old [of "iss_status i"] that unfolding accurate_bucket_def by blast
    with fresh show ?thesis by (metis imageI)
  qed
  then have add: "addIssueToBuckets c i = Some ?c'" by (simp add: addIssueToBuckets_def Let_def list_ex_iff)
  have "accurate_bucket (db @ [i]) (\<lambda>_. True) s (getBucket ?c' s)" for s
    using old [of s] ne by (auto simp: accurate_bucket_def getBucket_set) metis
  then have "accurate (db @ [i]) (\<lambda>_. True) ?c'" by (simp add: accurate_all)
  moreover have "addIssueToBuckets ?c' i = None" by (simp add: addIssueToBuckets_def Let_def getBucket_set)
  ultimately show ?thesis using add by blast
qed

text \<open>An event that announces a new issue brings every workspace list up to date, with the issue in
  the bucket of its status and counted once, and marks the user's own lists, the windows and the
  tables stale; and announcing it again changes no list.\<close>

theorem created_event_counted_once:
  assumes ok: "query_client_ok qc" "query_admin_ok qc ad" and shape: "shape_ok qc ws q"
    and fresh: "iss_id i \<notin> iss_id ` set db"
    and key: "prefix (issue_list ws) key" and data: "getQueryData qc q key = Some (DBuckets c)" "accurate db (\<lambda>_. True) c"
  shows "\<exists>q' q'' c'. onIssueCreated qc ad ws i q = Some q' \<and> onIssueCreated qc ad ws i q' = Some q''
    \<and> getQueryData qc q' key = Some (DBuckets c') \<and> accurate (db @ [i]) (\<lambda>_. True) c'
    \<and> getQueryData qc q'' key = Some (DBuckets c')
    \<and> (\<forall>k. getQueryData qc q' k \<noteq> None \<longrightarrow>
         prefix (issue_myAll ws) k \<or> prefix (issue_flatAll ws) k \<or> prefix (issue_tableAll ws) k \<longrightarrow> isStale ad q' k)"
proof -
  obtain q' where q': "onIssueCreated qc ad ws i q = Some q'"
    and g': "getQueryData qc q' k = (if prefix (issue_list ws) k then map_option (added i) (getQueryData qc q k)
            else getQueryData qc q k)"
    and stale: "getQueryData qc q' k \<noteq> None \<Longrightarrow>
         prefix (issue_myAll ws) k \<or> prefix (issue_flatAll ws) k \<or> prefix (issue_tableAll ws) k \<Longrightarrow> isStale ad q' k" for k
    using created_effect [OF ok shape, of i] by blast
  have "shape_ok qc ws q'"
    unfolding shape_ok_def
  proof (intro allI impI)
    fix k d assume "getQueryData qc q' k = Some d"
    with g' [of k] shape [unfolded shape_ok_def, rule_format, of k] key_parts(1) [of ws k] children_part [of ws k]
    show "(prefix (issue_list ws) k \<or> prefix (issue_myAll ws) k \<longrightarrow> (\<exists>c. d = DBuckets c)) \<and>
        (prefix (issue_childrenAll ws) k \<longrightarrow> (\<exists>l. d = DIssueList l))"
      by (cases "prefix (issue_list ws) k"; cases "getQueryData qc q k") (auto simp: added_def)
  qed
  then obtain q'' where q'': "onIssueCreated qc ad ws i q' = Some q''"
    and g'': "getQueryData qc q'' key = map_option (added i) (getQueryData qc q' key)"
    using created_effect [OF ok, of ws q' i] key by auto
  obtain c' where c': "addIssueToBuckets c i = Some c'" "accurate (db @ [i]) (\<lambda>_. True) c'" "addIssueToBuckets c' i = None"
    using added_accurate [OF fresh data(2)] by blast
  have "getQueryData qc q' key = Some (DBuckets c')" using g' [of key] key data(1) c'(1) by (simp add: added_def)
  moreover from this have "getQueryData qc q'' key = Some (DBuckets c')" using g'' c'(3) by (simp add: added_def)
  ultimately show ?thesis using q' q'' c'(2) stale by blast
qed

lemma cleanup_gone:
  assumes ok: "query_client_ok qc" "query_admin_ok qc ad" and ready: "ready_to_delete qc ws i q"
    and m: "collectDeletedIssueCacheMetadata qc ws i q = Some m"
    and clean: "cleanup_with qc ad ws i m (q, r) = Some (q2, r')"
    and d: "getQueryData qc q2 k = Some d" and lk: "list_key ws k d"
  shows "\<not> holds_issue i d"
proof -
  note c = cleanup_get [OF ok clean]
  have shape: "shape_ok qc ws q" using ready by (simp add: ready_to_delete_def)
  from d c(2) [of k] have no: "\<not> (\<exists>p \<in> set (issue_detail ws i # scoped_keys ws i). prefix p k)" by (metis option.distinct(1))
  note g = c(2) [of k, unfolded if_not_P [OF no] d]
  show ?thesis
  proof (cases "prefix (issue_childrenAll ws) k")
    case True
    then have part: "\<not> prefix (issue_list ws) k" "\<not> prefix (issue_myAll ws) k" "\<not> prefix (issue_flatAll ws) k"
      using children_part [of ws k] key_parts(1-3) [of ws k] by auto
    with g have had: "getQueryData qc q k \<noteq> None" by (cases "getQueryData qc q k") (auto split: if_splits)
    with ready True obtain p where p: "p \<noteq> []" "k = issue_children ws p" unfolding ready_to_delete_def by blast
    from had shape True obtain l where l: "getQueryData qc q k = Some (DIssueList l)" unfolding shape_ok_def by blast
    show ?thesis
    proof (cases "k \<in> issue_children ws ` set m")
      case True
      with g l show ?thesis using pruned_children_gone by auto
    next
      case False
      then have "d = DIssueList l" using g l part by simp
      moreover have "i \<notin> iss_id ` set l" using collect_parents [OF ok(1) m l [unfolded p(2)] _ p(1)] False p(2) by blast
      ultimately show ?thesis by (auto simp: holds_issue_def list_ex_iff)
    qed
  next
    case False
    then have nk: "k \<notin> issue_children ws ` set m" using children_key by blast
    show ?thesis
    proof (cases "prefix (issue_list ws) k \<or> prefix (issue_myAll ws) k")
      case True
      with g nk have had: "getQueryData qc q k \<noteq> None" by (auto split: if_splits)
      with ready True obtain b where b: "getQueryData qc q k = Some (DBuckets b)" "single_home i b"
        unfolding ready_to_delete_def shape_ok_def by blast
      with g nk True have "d = pruned_list i (DBuckets b)" by simp
      with pruned_list_gone [OF b(2)] show ?thesis by simp
    next
      case no_list: False
      with False lk have fl: "prefix (issue_flatAll ws) k" and flat: "\<exists>pages rest. d = DFlat pages rest"
        by (auto simp: list_key_def split: cache_data.splits)
      from g nk no_list fl obtain e where "d = pruned_flat i e" by (auto dest: sym)
      with flat obtain pages rest where "d = pruned_flat i (DFlat pages rest)"
        by (cases e) (auto simp: pruned_flat_def)
      then show ?thesis by (simp add: pruned_flat_gone)
    qed
  qed
qed

text \<open>An event that announces a deletion is handled like the deletion itself: no list, window or
  list of children holds the issue any more, its own queries are gone, it is not among the recent
  issues, and every remaining list is marked stale.\<close>

theorem deleted_event_gone:
  assumes ok: "query_client_ok qc" "query_admin_ok qc ad" and ready: "ready_to_delete qc ws i q"
  shows "\<exists>q' r'. onIssueDeleted qc ad ws i (q, r) = Some (q', r')
    \<and> (\<forall>k d. getQueryData qc q' k = Some d \<longrightarrow> list_key ws k d \<longrightarrow> \<not> holds_issue i d)
    \<and> (\<forall>p \<in> set (issue_detail ws i # scoped_keys ws i). \<forall>k. prefix p k \<longrightarrow> getQueryData qc q' k = None)
    \<and> i \<notin> re_id ` set (recent_bucket r' ws)
    \<and> (\<forall>k. getQueryData qc q' k \<noteq> None \<longrightarrow>
         (\<exists>p \<in> {issue_list ws, issue_myAll ws, issue_flatAll ws, issue_tableAll ws, issue_projectGanttAll ws}. prefix p k) \<longrightarrow>
         isStale ad q' k)"
proof -
  have shape: "shape_ok qc ws q" using ready by (simp add: ready_to_delete_def)
  obtain m where m: "collectDeletedIssueCacheMetadata qc ws i q = Some m" using collect_total [OF ok(1) shape] by blast
  obtain q2 r' where clean: "cleanup_with qc ad ws i m (q, r) = Some (q2, r')" using cleanup_total [OF ok(1) shape] by blast
  note c = cleanup_get [OF ok clean]
  let ?ps = "[issue_assigneeGroupsAll ws, issue_myAssigneeGroupsAll ws, project_all ws]"
  let ?q' = "fold (invalidateQueries ad) ?ps q2"
  have run: "onIssueDeleted qc ad ws i (q, r) = Some (?q', r')"
    using m clean by (simp add: onIssueDeleted_def cleanupDeletedIssueCaches_def del: fold.simps)
  note get = marks_get [OF marks_fold [OF ok(2), of ?ps], of q2]
  have gone: "\<not> holds_issue i d" if "getQueryData qc ?q' k = Some d" "list_key ws k d" for k d
    using cleanup_gone [OF ok ready m clean] that get [of k] by metis
  have removed: "getQueryData qc ?q' k = None" if "p \<in> set (issue_detail ws i # scoped_keys ws i)" "prefix p k" for p k
  proof -
    have "\<exists>p \<in> set (issue_detail ws i # scoped_keys ws i). prefix p k" using that by blast
    with c(2) [of k] get [of k] show ?thesis by (simp only: if_True)
  qed
  have stale: "isStale ad ?q' k" if "getQueryData qc ?q' k \<noteq> None"
    "\<exists>p \<in> {issue_list ws, issue_myAll ws, issue_flatAll ws, issue_tableAll ws, issue_projectGanttAll ws}. prefix p k" for k
    using c(3) [of k] that get [of k] marks_stale [OF marks_fold [OF ok(2), of ?ps], of q2 k] by metis
  show ?thesis using run gone removed c(1) forget_gone stale by blast
qed

section \<open>A concrete client\<close>

definition server_flags :: update_meta where
  "server_flags = \<lparr>m_assigneeChanged = Some False, m_statusChanged = Some True, m_projectChanged = Some False\<rparr>"

lemma child_accurate: "accurate [child_issue] (\<lambda>_. True) [(Todo, \<lparr>b_issues = [child_issue], b_total = 1\<rparr>)]"
  by (simp add: accurate_def ALL_STATUSES_def accurate_bucket_def getBucket_def map_get_def EMPTY_BUCKET_def child_issue_def
      some_issue_def)

lemma child_inside:
  "accurate [child_issue] (listed_by (\<lambda>_. True) (\<lambda>_. True)) [(Todo, \<lparr>b_issues = [child_issue], b_total = 1\<rparr>)]"
  using child_accurate by (simp only: listed_everywhere)

lemma child_read: "getQueryData marked_client delete_queries some_key = Some (DBuckets [(Todo, \<lparr>b_issues = [child_issue], b_total = 1\<rparr>)])"
  by (simp add: delete_reads)

lemma some_listed: "prefix (issue_list ''ws'') some_key"
  by (simp add: some_key_def issue_listSorted_def)

lemma delete_shaped: "shape_ok marked_client ''ws'' delete_queries"
  using delete_ready by (simp add: ready_to_delete_def)

lemma child_cached: "cachedIssue marked_client ''ws'' ''i1'' delete_queries = Some (Some child_issue)"
proof -
  have "some_key \<noteq> issue_detail ''ws'' ''i1''" "issue_children ''ws'' ''p1'' \<noteq> issue_detail ''ws'' ''i1''"
    using delete_parts by auto
  then have "detail_data marked_client ''ws'' ''i1'' delete_queries = Some child_issue"
    by (simp add: detail_data_def delete_reads)
  then show ?thesis by (simp add: cachedIssue_def)
qed

theorem update_event_coherent_witness:
  "\<exists>q' c'. onIssueUpdated marked_client marked_admin ''ws'' ''i1'' to_done server_flags delete_queries = Some q'
    \<and> getQueryData marked_client q' some_key = Some (DBuckets c')
    \<and> (isStale marked_admin q' some_key \<or> accurate (server_patch ''i1'' to_done [child_issue]) (\<lambda>_. True) c')"
proof -
  have db: "distinct (map iss_id [child_issue])" "child_issue \<in> set [child_issue]" "iss_id child_issue = ''i1''"
    by (simp_all add: child_issue_def some_issue_def)
  have cached: "cachedIssue marked_client ''ws'' ''i1'' delete_queries \<in> {Some None, Some (Some child_issue)}"
    using child_cached by simp
  have flags: "flags_right None empty_bag server_flags to_done child_issue"
    "flags_present server_flags \<or> cachedIssue marked_client ''ws'' ''i1'' delete_queries = Some (Some child_issue)"
    by (simp_all add: flags_right_def flags_present_def server_flags_def to_done_def no_patch_def merge_issue_def over_def)
  have creator: "iss_creator_id (merge_issue child_issue to_done) = iss_creator_id child_issue"
    by (simp add: to_done_def no_patch_def merge_issue_def over_def)
  show ?thesis
    by (rule update_event_coherent [where rel = "\<lambda>_. True" and win = "\<lambda>_. True", OF marked_ok delete_shaped db cached flags creator _ some_contract_key some_contract
          TrueI TrueI child_read child_inside, unfolded listed_everywhere]) (simp add: some_listed)
qed

theorem snapshot_events_reach_copies_witness:
  "\<exists>q'. onIssueLabelsChanged marked_client marked_admin ''ws'' ''i1'' ''urgent'' delete_queries = Some q'
    \<and> (\<forall>d. getQueryData marked_client q' some_key = Some d \<longrightarrow>
         carries ''i1'' ''labels'' ''urgent'' d \<or> isStale marked_admin q' some_key)"
proof -
  have home: "single_home ''i1'' [(Todo, \<lparr>b_issues = [child_issue], b_total = 1\<rparr>)]"
    by (auto simp: single_home_def getBucket_def map_get_def EMPTY_BUCKET_def split: if_splits)
  have "copies_shaped marked_client ''ws'' ''i1'' delete_queries"
    using home delete_parts key_parts(1) [of "''ws''"] children_part [of "''ws''"] gantt_part [of "''ws''"]
    by (auto simp: copies_shaped_def delete_reads split: if_splits)
  from snapshot_events_reach_copies [OF marked_ok this, of "''urgent''"] some_listed show ?thesis
    unfolding main_copy_def by blast
qed

theorem created_event_counted_once_witness:
  "\<exists>q' c'. onIssueCreated marked_client marked_admin ''ws'' (some_issue ''i2'' Todo 2) delete_queries = Some q'
    \<and> getQueryData marked_client q' some_key = Some (DBuckets c')
    \<and> accurate [child_issue, some_issue ''i2'' Todo 2] (\<lambda>_. True) c'"
proof -
  have "iss_id (some_issue ''i2'' Todo 2) \<notin> iss_id ` set [child_issue]"
    by (simp add: child_issue_def some_issue_def)
  from created_event_counted_once [OF marked_ok delete_shaped this some_listed child_read child_accurate]
  show ?thesis by auto
qed

theorem deleted_event_gone_witness:
  "\<exists>q' r'. onIssueDeleted marked_client marked_admin ''ws'' ''i1'' (delete_queries, delete_recents) = Some (q', r')
    \<and> getQueryData marked_client q' (issue_detail ''ws'' ''i1'') = None"
proof -
  from deleted_event_gone [OF marked_ok delete_ready, of delete_recents] obtain q' r' where
    run: "onIssueDeleted marked_client marked_admin ''ws'' ''i1'' (delete_queries, delete_recents) = Some (q', r')"
    and gone: "\<forall>p \<in> set (issue_detail ''ws'' ''i1'' # scoped_keys ''ws'' ''i1''). \<forall>k. prefix p k \<longrightarrow>
      getQueryData marked_client q' k = None" by blast
  from gone have "getQueryData marked_client q' (issue_detail ''ws'' ''i1'') = None" by simp
  with run show ?thesis by blast
qed

end
