(* ===== verification/Issue_Update_Properties.thy ===== *)
theory Issue_Update_Properties
  imports Issue_Update Issue_Event_Properties
begin

text \<open>
  What the update mutation guarantees: after a refused update every query but the archived inbox reads
  as before; after an accepted one every list agrees with the server or is marked stale; and what it
  does not guarantee when the server changes a field nobody wrote.
\<close>

section \<open>The optimistic leg\<close>

lemma parent_scan_total:
  "(\<And>e. e \<in> set es \<Longrightarrow> snd e = None \<or> (\<exists>l. snd e = Some (DIssueList l))) \<Longrightarrow> \<exists>r. parent_from_children i es = Some r"
proof (induction es)
  case (Cons e es)
  obtain key d where e: "e = (key, d)" by (cases e)
  have "d = None \<or> (\<exists>l. d = Some (DIssueList l))" using Cons.prems [of e] e by simp
  moreover obtain r where "parent_from_children i es = Some r" using Cons.IH Cons.prems by auto
  ultimately show ?case by (auto simp: e split: option.split)
qed simp

lemma children_data:
  assumes ok: "query_client_ok qc" and shape: "shape_ok qc ws q"
    and same: "\<And>k. issue_part k = Some (KStr ''children'') \<Longrightarrow> getQueryData qc r k = getQueryData qc q k"
  shows "prefix (issue_childrenAll ws) k \<Longrightarrow> getQueryData qc r k = None \<or> (\<exists>l. getQueryData qc r k = Some (DIssueList l))"
  using shape same [of k] children_part [of ws k] unfolding shape_ok_def by (cases "getQueryData qc q k") auto

lemma resolve_total:
  assumes ok: "query_client_ok qc" and shape: "shape_ok qc ws q"
    and same: "\<And>k. issue_part k = Some (KStr ''children'') \<Longrightarrow> getQueryData qc r k = getQueryData qc q k"
  shows "\<exists>parent. resolve_parent qc ws i detail prev r = Some parent"
proof -
  have "\<exists>p. parent_from_children i (getQueriesData qc (issue_childrenAll ws) r) = Some p"
  proof (rule parent_scan_total)
    fix e assume "e \<in> set (getQueriesData qc (issue_childrenAll ws) r)"
    with client_find(2) [OF ok, of "fst e" "snd e"] have "prefix (issue_childrenAll ws) (fst e)" "snd e = getQueryData qc r (fst e)"
      by auto
    with children_data [OF ok shape same] show "snd e = None \<or> (\<exists>l. snd e = Some (DIssueList l))" by auto
  qed
  then show ?thesis by (auto simp: resolve_parent_def split: list.split)
qed

lemma given_cases: "given x = [] \<or> (\<exists>p. given x = [p] \<and> x = Some p)"
  by (auto simp: given_def split: option.split)

text \<open>What the optimistic leg writes beside the change: the children of one parent.\<close>

lemma mutate_update:
  assumes ok: "query_client_ok qc" "query_admin_ok qc ad" and shape: "shape_ok qc ws q"
    and ch: "ch = applyIssueChange qc ws i p (issueChangedDims p (detail_data qc ws i q)) (detail_data qc ws i q) q"
  shows "\<exists>q2 ctx. update_onMutate qc ws i p q = (q2, Some ctx) \<and> uc_change ctx = ch
    \<and> (\<forall>k. issue_part k \<noteq> Some (KStr ''children'') \<longrightarrow> keeps_key qc ad k (ch_client ch) q2)
    \<and> (\<forall>k. getQueryData qc q2 k \<noteq> getQueryData qc (ch_client ch) k \<longrightarrow>
         (\<exists>parent. given (uc_parentId ctx) = [parent] \<and> k = issue_children ws parent
            \<and> uc_prevChildren ctx = getQueryData qc q k \<and> getQueryData qc q k \<noteq> None))
    \<and> (\<forall>parent. given (uc_parentId ctx) = [parent] \<longrightarrow> uc_prevChildren ctx = getQueryData qc q (issue_children ws parent))"
proof -
  let ?q1 = "ch_client ch"
  have same: "getQueryData qc ?q1 k = getQueryData qc q k" if "issue_part k = Some (KStr ''children'')" for k
    unfolding ch by (rule change_keeps_children [OF ok(1) that])
  obtain parentId where par: "resolve_parent qc ws i (detail_data qc ws i q) (prevIssue ch) ?q1 = Some parentId"
    using resolve_total [OF ok(1) shape same] by blast
  note part = children_part [OF children_key]
  show ?thesis
  proof (cases "given parentId")
    case Nil
    let ?ctx = "\<lparr>uc_change = ch, uc_prevChildren = None, uc_parentId = parentId\<rparr>"
    have "update_onMutate qc ws i p q = (?q1, Some ?ctx)"
      using par Nil by (simp add: update_onMutate_def Let_def ch [symmetric])
    then show ?thesis using Nil by (intro exI [of _ ?q1] exI [of _ ?ctx]) simp
  next
    case (Cons parent rest)
    with given_cases [of parentId] have rest: "given parentId = [parent]" by auto
    let ?k = "issue_children ws parent"
    let ?ctx = "\<lparr>uc_change = ch, uc_prevChildren = getQueryData qc ?q1 ?k, uc_parentId = parentId\<rparr>"
    from children_data [OF ok(1) shape same, where k = ?k] children_key
    obtain q2 where q2: "patch_children_of qc ws i p parent ?q1 = Some q2"
      by (cases "getQueryData qc ?q1 ?k") (auto simp: patch_children_of_def Let_def)
    have "update_onMutate qc ws i p q = (q2, Some ?ctx)"
      using par rest q2 by (simp add: update_onMutate_def Let_def ch [symmetric])
    moreover have "keeps_key qc ad k ?q1 q2" if "issue_part k \<noteq> Some (KStr ''children'')" for k
    proof -
      have "k \<noteq> ?k" using that part by auto
      then show ?thesis using q2 keeps_key_set [OF ok]
        by (auto simp: patch_children_of_def Let_def split: option.splits cache_data.splits)
    qed
    moreover have "k = ?k \<and> getQueryData qc q k \<noteq> None" if "getQueryData qc q2 k \<noteq> getQueryData qc ?q1 k" for k
      using that q2 same [OF part, of ws parent]
      by (auto simp: patch_children_of_def Let_def client_get_set [OF ok(1)] split: option.splits cache_data.splits if_splits)
    ultimately show ?thesis using rest same [OF part, of ws parent] by (intro exI [of _ q2] exI [of _ ?ctx]) auto
  qed
qed

section \<open>Settling\<close>

lemma keeps_invalidate:
  assumes "query_admin_ok qc ad"
  shows "keeps_key qc ad k q (invalidateQueries ad p q)"
  by (rule keeps_key_marks [OF admin_marks(1) [OF assms]])

lemma settle_parents_keeps:
  assumes "query_admin_ok qc ad"
  shows "keeps_key qc ad k q (settle_parents ad ws old new q)"
proof -
  let ?refresh = "\<lambda>parent q. invalidateQueries ad (issue_childProgress ws) (invalidateQueries ad (issue_children ws parent) q)"
  note inv = keeps_invalidate [OF assms]
  have refresh: "keeps_key qc ad k q (fold ?refresh ps q)" for ps q
    by (rule keeps_key_fold) (rule keeps_key_trans [OF inv inv])
  define q1 where "q1 = fold ?refresh (given old) q"
  define q2 where "q2 = (if new \<noteq> old then fold ?refresh (given new) q1 else q1)"
  have "keeps_key qc ad k q q1" "keeps_key qc ad k q1 q2" using refresh by (simp_all add: q1_def q2_def)
  then have q2: "keeps_key qc ad k q q2" by (rule keeps_key_trans)
  have "settle_parents ad ws old new q =
      (if given old = [] \<and> given new = [] then q2 else invalidateQueries ad (issue_childrenByParentsAll ws) q2)"
    by (simp only: settle_parents_def Let_def q1_def q2_def)
  with q2 keeps_key_trans [OF q2 inv] show ?thesis by presburger
qed

lemma update_settled:
  assumes ok: "query_admin_ok qc ad"
  shows "keeps_key qc ad k q (update_onSettled ad ws i vars answer ctx q)"
    "ctx = Some c \<Longrightarrow> k \<in> set (staleKeys (uc_change c)) \<Longrightarrow> getQueryData qc q k \<noteq> None \<Longrightarrow>
     isStale ad (update_onSettled ad ws i vars answer ctx q) k"
proof -
  note inv = keeps_invalidate [OF ok]
  let ?b = "p_status (uv_patch vars) \<noteq> None \<or> p_project_id (uv_patch vars) \<noteq> None"
  define q2 where "q2 = invalidateQueries ad (issue_tableAll ws) (invalidateIssueDerivatives ad ws ?b q)"
  define q3 where "q3 = (case ctx of None \<Rightarrow> q2 | Some c \<Rightarrow> invalidateStaleListKeys ad (staleKeys (uc_change c)) q2)"
  have q2: "keeps_key qc ad k q q2"
    unfolding q2_def by (rule keeps_key_trans [OF keeps_key_marks [OF marks_derivatives [OF ok]] inv])
  have q3: "keeps_key qc ad k q2 q3"
    unfolding q3_def by (cases ctx) (simp_all add: keeps_key_marks [OF marks_stale_keys [OF ok]])
  have after: "keeps_key qc ad k q3 (update_onSettled ad ws i vars answer ctx q)"
    unfolding update_onSettled_def Let_def q2_def [symmetric] q3_def [symmetric]
    by (rule keeps_key_trans [OF keeps_key_trans [OF _ settle_parents_keeps [OF ok]] keeps_key_fold])
      (simp_all add: inv)
  show "keeps_key qc ad k q (update_onSettled ad ws i vars answer ctx q)"
    by (rule keeps_key_trans [OF keeps_key_trans [OF q2 q3] after])
  assume "ctx = Some c" "k \<in> set (staleKeys (uc_change c))" "getQueryData qc q k \<noteq> None"
  then have "isStale ad q3 k" "getQueryData qc q3 k \<noteq> None"
    using q2 q3 marks_stale [OF marks_stale_keys [OF ok], of q2 k "staleKeys (uc_change c)"]
    by (simp_all add: q3_def keeps_key_def)
  with after show "isStale ad (update_onSettled ad ws i vars answer ctx q) k" by (simp add: keeps_key_def)
qed

section \<open>A refused update\<close>

text \<open>C15: an update the server refuses leaves no trace: whatever the optimistic change did to lists,
  windows, table pages, the issue's own query, the inbox and the children of a parent, every query but
  the archived inbox reads as before.\<close>

theorem failed_update_restores:
  assumes ok: "query_client_ok qc" "query_admin_ok qc ad" and shape: "shape_ok qc ws q"
    and key: "key \<noteq> inbox_archived ws"
  shows "\<exists>q'. useUpdateIssue qc ad ws i vars None q = (UpdateFailed, q') \<and> getQueryData qc q' key = getQueryData qc q key"
proof -
  let ?p = "uv_patch vars"
  define ch where "ch = applyIssueChange qc ws i ?p (issueChangedDims ?p (detail_data qc ws i q)) (detail_data qc ws i q) q"
  obtain q2 ctx where mut: "update_onMutate qc ws i ?p q = (q2, Some ctx)" "uc_change ctx = ch"
    and changed: "getQueryData qc q2 k \<noteq> getQueryData qc (ch_client ch) k \<Longrightarrow>
         \<exists>parent. given (uc_parentId ctx) = [parent] \<and> k = issue_children ws parent
            \<and> uc_prevChildren ctx = getQueryData qc q k \<and> getQueryData qc q k \<noteq> None"
    and prev: "given (uc_parentId ctx) = [parent] \<Longrightarrow> uc_prevChildren ctx = getQueryData qc q (issue_children ws parent)"
    for k parent
    using mutate_update [OF ok shape ch_def] by blast
  have rest: "restorable qc ws i q ch" unfolding ch_def by (rule change_restorable [OF ok(1)])
  then have snap: "snapshots_ok qc ws i q ch" by (simp add: restorable_def)
  let ?r = "rollbackIssueChange qc ws i ch q2"
  let ?q' = "update_onSettled ad ws i vars None (Some ctx) (update_onError qc ws i ctx q2)"
  have run: "useUpdateIssue qc ad ws i vars None q = (UpdateFailed, ?q')" by (simp add: useUpdateIssue_def mut(1))
  have error: "getQueryData qc (update_onError qc ws i ctx q2) key = getQueryData qc q key"
  proof (cases "\<exists>parent. given (uc_parentId ctx) = [parent] \<and> key = issue_children ws parent \<and> getQueryData qc q key \<noteq> None")
    case True
    then obtain parent d where par: "given (uc_parentId ctx) = [parent]" "key = issue_children ws parent"
      "getQueryData qc q key = Some d" by auto
    with prev [OF par(1)] have "uc_prevChildren ctx = Some d" by simp
    with par show ?thesis by (simp add: update_onError_def mut(2) Let_def client_get_set [OF ok(1)])
  next
    case False
    have "getQueryData qc q2 key = getQueryData qc (ch_client ch) key" using changed [of key] False by blast
    then have r: "getQueryData qc ?r key = getQueryData qc q key"
      using rest key unfolding rollback_get [OF ok(1) snap] by (auto simp: restorable_def)
    have "getQueryData qc (update_onError qc ws i ctx q2) key = getQueryData qc ?r key"
      using False prev given_cases [of "uc_parentId ctx"]
      by (auto simp: update_onError_def mut(2) Let_def client_get_set [OF ok(1)] split: option.splits)
    with r show ?thesis by simp
  qed
  have "getQueryData qc ?q' key = getQueryData qc q key"
    using update_settled(1) [OF ok(2)] error unfolding keeps_key_def by metis
  with run show ?thesis by blast
qed

section \<open>An accepted update\<close>



section \<open>Loading more\<close>

text \<open>Loading more keeps a list right: when the server answers the request for the next page of a
  column with issues of that column, and with its size, the list with the page appended agrees with the
  server again, without repeating an issue the page shares with what was loaded, and it holds at least
  what it held.\<close>

theorem load_more_accurate:
  assumes acc: "accurate db mem c"
    and page: "\<And>s offset issues n. fetch s offset = Some (issues, n) \<Longrightarrow>
      set issues \<subseteq> {i \<in> set db. mem i \<and> iss_status i = s} \<and> distinct (map iss_id issues)
      \<and> n = length (filter (\<lambda>i. mem i \<and> iss_status i = s) db)"
  shows "\<exists>c'. loadMore fetch status (Some c) = Some c' \<and> accurate db mem c'
    \<and> (\<forall>s. \<exists>more. b_issues (getBucket c' s) = b_issues (getBucket c s) @ more)"
proof (cases "loadMore fetch status (Some c) = Some c")
  case True
  with acc show ?thesis by auto
next
  case False
  then obtain offset issues n where f: "fetch status offset = Some (issues, n)"
    and c': "loadMore fetch status (Some c) = Some (append_page c status issues n)"
    by (auto simp: loadMore_def Let_def split: prod.splits if_splits option.splits)
  note page = page [OF f]
  let ?prev = "b_issues (getBucket c status)"
  have old: "accurate_bucket db mem s (getBucket c s)" for s using acc by (simp add: accurate_all)
  have "distinct (map iss_id (?prev @ filter (\<lambda>i. iss_id i \<notin> iss_id ` set ?prev) issues))"
    using old [of status] page by (auto simp: accurate_bucket_def distinct_map_filter) (metis imageI)
  then have "accurate_bucket db mem s (getBucket (append_page c status issues n) s)" for s
    using old [of s] page by (auto simp: append_page_def Let_def accurate_bucket_def getBucket_set)
  then have "accurate db mem (append_page c status issues n)" by (simp add: accurate_all)
  moreover have "\<exists>more. b_issues (getBucket (append_page c status issues n) s) = b_issues (getBucket c s) @ more" for s
    by (simp add: append_page_def Let_def getBucket_set)
  ultimately show ?thesis using c' by blast
qed

theorem load_more_accurate_witness:
  "\<exists>c'. loadMore (\<lambda>s offset. Some (if s = Todo then [child_issue] else [], if s = Todo then 1 else 0)) Todo
      (Some [(Todo, \<lparr>b_issues = [], b_total = 1\<rparr>)]) = Some c' \<and> accurate [child_issue] (\<lambda>_. True) c'"
proof -
  let ?fetch = "\<lambda>s (offset :: nat). Some (if s = Todo then [child_issue] else [], if s = Todo then 1 :: nat else 0)"
  have acc: "accurate [child_issue] (\<lambda>_. True) [(Todo, \<lparr>b_issues = [], b_total = 1\<rparr>)]" by code_simp
  have "set issues \<subseteq> {i \<in> set [child_issue]. True \<and> iss_status i = s} \<and> distinct (map iss_id issues)
      \<and> n = length (filter (\<lambda>i. True \<and> iss_status i = s) [child_issue])"
    if "?fetch s offset = Some (issues, n)" for s offset issues n
    using that by (auto simp: child_issue_def some_issue_def split: if_splits)
  from load_more_accurate [where fetch = ?fetch and status = Todo, OF acc this] show ?thesis by blast
qed

section \<open>A concrete client\<close>

definition rename_vars :: update_vars where
  "rename_vars = \<lparr>uv_patch = no_patch\<lparr>p_title := Some ''new''\<rparr>, uv_attachments = False\<rparr>"

theorem failed_update_restores_witness:
  "\<exists>q'. useUpdateIssue marked_client marked_admin ''ws'' ''i1'' rename_vars None delete_queries = (UpdateFailed, q')
    \<and> getQueryData marked_client q' some_key = getQueryData marked_client delete_queries some_key"
proof -
  have "some_key \<noteq> inbox_archived ''ws''" by (simp add: some_key_def key_defs)
  from failed_update_restores [OF marked_ok delete_shaped this] show ?thesis .
qed


text \<open>
  The server derives one field nobody wrote: an issue without a project that is put into a workflow run
  takes the run's project.
\<close>

definition loose_issue :: issue where
  "loose_issue = (some_issue ''i1'' Todo 1)\<lparr>iss_project_id := None\<rparr>"

definition run_vars :: update_vars where
  "run_vars = \<lparr>uv_patch = no_patch\<lparr>p_other := [(''workflow_instance_id'', ''w1'')]\<rparr>, uv_attachments = False\<rparr>"

definition run_answer :: issue where
  "run_answer = loose_issue\<lparr>iss_project_id := Some ''p1'', iss_other := [(''workflow_instance_id'', ''w1'')]\<rparr>"

definition project_key :: query_key where
  "project_key = issue_myListSorted ''ws'' ''project:p1'' (empty_bag\<lparr>f_project_id := Some ''p1''\<rparr>) empty_bag"

definition run_queries :: listed_queries where
  "run_queries = ([(project_key, DBuckets []), (issue_detail ''ws'' ''i1'', DIssue loose_issue)], [])"

definition in_p1 :: "issue \<Rightarrow> bool" where
  "in_p1 i = (iss_project_id i = Some ''p1'')"

lemma run_contract: "listContractFromKey project_key = (Some ''project:p1'', empty_bag\<lparr>f_project_id := Some ''p1''\<rparr>, empty_bag)"
  "server_contract in_p1 (Some ''project:p1'') (empty_bag\<lparr>f_project_id := Some ''p1''\<rparr>)"
proof -
  show "listContractFromKey project_key = (Some ''project:p1'', empty_bag\<lparr>f_project_id := Some ''p1''\<rparr>, empty_bag)"
    by code_simp
  have "issueMatchesListFilter (partial_of_issue i) (Some ''project:p1'') (empty_bag\<lparr>f_project_id := Some ''p1''\<rparr>)
      = (if in_p1 i then IsMember else NotMember)" for i
    by (simp add: issueMatchesListFilter_def all_members_def filter_field_def empty_bag_def partial_of_issue_def in_p1_def)
  then show "server_contract in_p1 (Some ''project:p1'') (empty_bag\<lparr>f_project_id := Some ''p1''\<rparr>)"
    by (simp add: server_contract_def same_for_filter_def in_p1_def empty_bag_def)
qed

text \<open>The event of the same update, with the flags the server sends: it flags the project only when the
  request names it.\<close>

definition after_event :: "listed_queries option" where
  "after_event = onIssueUpdated marked_client marked_admin ''ws'' ''i1'' (reconcilable run_answer)
     \<lparr>m_assigneeChanged = Some False, m_statusChanged = Some False, m_projectChanged = Some False\<rparr> run_queries"

text \<open>A project the server derives is missed by the lists of that project: an issue without a
  project is put into a run of project p1, and the server answers with the issue in p1; the list of p1,
  right before, is then neither right nor marked stale, whether the mutation reconciles the answer or
  the event is handled.\<close>

theorem derived_project_missed:
  "let (outcome, q') = useUpdateIssue marked_client marked_admin ''ws'' ''i1'' run_vars (Some run_answer) run_queries
   in outcome = Updated \<and> accurate [loose_issue] in_p1 []
      \<and> getQueryData marked_client q' project_key = Some (DBuckets []) \<and> \<not> isStale marked_admin q' project_key
      \<and> (\<exists>q''. after_event = Some q'' \<and> getQueryData marked_client q'' project_key = Some (DBuckets [])
           \<and> \<not> isStale marked_admin q'' project_key)
      \<and> \<not> accurate [run_answer] in_p1 []"
proof -
  have "fst (useUpdateIssue marked_client marked_admin ''ws'' ''i1'' run_vars (Some run_answer) run_queries) = Updated"
    by code_simp
  moreover have "getQueryData marked_client
      (snd (useUpdateIssue marked_client marked_admin ''ws'' ''i1'' run_vars (Some run_answer) run_queries)) project_key
      = Some (DBuckets [])"
    by code_simp
  moreover have "\<not> isStale marked_admin
      (snd (useUpdateIssue marked_client marked_admin ''ws'' ''i1'' run_vars (Some run_answer) run_queries)) project_key"
    by code_simp
  moreover have "after_event \<noteq> None" "getQueryData marked_client (the after_event) project_key = Some (DBuckets [])"
    "\<not> isStale marked_admin (the after_event) project_key"
    by code_simp+
  then have "\<exists>q''. after_event = Some q'' \<and> getQueryData marked_client q'' project_key = Some (DBuckets [])
      \<and> \<not> isStale marked_admin q'' project_key"
    by (metis option.collapse)
  moreover have "accurate [loose_issue] in_p1 []" "\<not> accurate [run_answer] in_p1 []" by code_simp+
  ultimately show ?thesis by (simp add: case_prod_unfold)
qed

section \<open>Lists with a date window\<close>

definition today :: "issue \<Rightarrow> bool" where
  "today i = (iss_updated_at i = ''today'')"

definition window_key :: query_key where
  "window_key = issue_myListSorted ''ws'' ''project:p1'' (empty_bag\<lparr>f_project_id := Some ''p1''\<rparr>)
     (empty_bag\<lparr>s_date_field := Some ''updated_at''\<rparr>)"

definition old_issue :: issue where
  "old_issue = (some_issue ''i1'' Todo 1)\<lparr>iss_project_id := Some ''p1''\<rparr>"

definition fresh_issue :: issue where
  "fresh_issue = (some_issue ''i2'' Todo 2)\<lparr>iss_project_id := Some ''p1'', iss_updated_at := ''today''\<rparr>"

definition window_cache :: list_cache where
  "window_cache = [(Todo, \<lparr>b_issues = [fresh_issue], b_total = 1\<rparr>)]"

definition window_queries :: listed_queries where
  "window_queries = ([(window_key, DBuckets window_cache), (issue_detail ''ws'' ''i1'', DIssue old_issue)], [])"

definition after_window_event :: "issue \<Rightarrow> bool \<Rightarrow> listed_queries option" where
  "after_window_event s projectChanged = onIssueUpdated marked_client marked_admin ''ws'' ''i1'' (reconcilable s)
     \<lparr>m_assigneeChanged = Some False, m_statusChanged = Some False, m_projectChanged = Some projectChanged\<rparr> window_queries"

text \<open>
  What happens outside the condition of the coherence theorems. The list of project p1, restricted to the issues
  updated today, is right before. An older issue of the project gets a new title today: the list now
  misses it and is not marked stale. An older issue leaves the project: its column counts one issue less, although
  the issue was not counted.
\<close>

theorem date_window_missed:
  "accurate [old_issue, fresh_issue] (listed_by in_p1 today) window_cache"
  "(let s = old_issue\<lparr>iss_title := ''new'', iss_updated_at := ''today''\<rparr> in
    case after_window_event s False of None \<Rightarrow> False
    | Some q' \<Rightarrow> getQueryData marked_client q' window_key = Some (DBuckets window_cache) \<and> \<not> isStale marked_admin q' window_key
        \<and> \<not> accurate [s, fresh_issue] (listed_by in_p1 today) window_cache)"
  "(let s = old_issue\<lparr>iss_project_id := None\<rparr>;
        c = [(Todo, \<lparr>b_issues = [fresh_issue], b_total = 0\<rparr>)] in
    case after_window_event s True of None \<Rightarrow> False
    | Some q' \<Rightarrow> getQueryData marked_client q' window_key = Some (DBuckets c) \<and> \<not> isStale marked_admin q' window_key
        \<and> \<not> accurate [s, fresh_issue] (listed_by in_p1 today) c)"
  by code_simp+

end
