(* ===== verification/Hang_Stack.thy ===== *)
theory Hang_Stack
  imports JS_Object
begin

text \<open>
  What leaves the machine about a hang: the frames of the call stack
  (\<open>apps/desktop/src/shared/hang-stack.ts\<close>) and the event built from a breadcrumb
  (\<open>buildFreezeEventProps\<close> of \<open>apps/desktop/src/renderer/src/freeze-flush.ts\<close>).
\<close>

section \<open>Frames\<close>

record HangStackFrame =
  hf_functionName :: jstr
  hf_url :: jstr
  hf_lineNumber :: int
  hf_columnNumber :: int

definition HANG_STACK_MAX_FRAMES :: nat where
  "HANG_STACK_MAX_FRAMES = 20"

definition toNumber :: "json option \<Rightarrow> int" where
  "toNumber v = (case v of Some (JNum n) \<Rightarrow> n | _ \<Rightarrow> 0)"

definition url_segments :: "jstr \<Rightarrow> jstr list" where
  "url_segments url = filter (\<lambda>s. s \<noteq> []) (str_split (CHR ''/'') (takeWhile (\<lambda>c. c \<noteq> CHR ''?'' \<and> c \<noteq> CHR ''#'') url))"

definition redactFrameUrl :: "json option \<Rightarrow> jstr" where
  "redactFrameUrl url =
     (case url of
        Some (JStr s) \<Rightarrow>
          (let segments = url_segments s in
           if segments = [] then [] else str_join (CHR ''/'') (drop (length segments - 2) segments))
      | _ \<Rightarrow> [])"

definition sanitize_frame :: "json \<Rightarrow> HangStackFrame" where
  "sanitize_frame frame =
     (let location = (case json_field frame ''location'' of None \<Rightarrow> frame | Some JNull \<Rightarrow> frame | Some v \<Rightarrow> v)
      in \<lparr>hf_functionName = (case str_field frame ''functionName'' of
             Some f \<Rightarrow> if f = [] then ''(anonymous)'' else f | None \<Rightarrow> ''(anonymous)''),
          hf_url = redactFrameUrl (json_field frame ''url''),
          hf_lineNumber = toNumber (json_field location ''lineNumber''),
          hf_columnNumber = toNumber (json_field location ''columnNumber'')\<rparr>)"

definition sanitizeHangStackFrames :: "json \<Rightarrow> nat \<Rightarrow> HangStackFrame list option" where
  "sanitizeHangStackFrames rawFrames maxFrames =
     (case rawFrames of
        JArr raws \<Rightarrow>
          (let frames = map sanitize_frame (filter is_object (take maxFrames raws)) in
           if frames = [] then None else Some frames)
      | _ \<Rightarrow> None)"

text \<open>A frame as the breadcrumb file and the event hold it.\<close>

definition frame_json :: "HangStackFrame \<Rightarrow> json" where
  "frame_json f = JObj [(''functionName'', JStr (hf_functionName f)), (''url'', JStr (hf_url f)),
     (''lineNumber'', JNum (hf_lineNumber f)), (''columnNumber'', JNum (hf_columnNumber f))]"

section \<open>The event\<close>

definition routeProps :: "json option \<Rightarrow> (jstr \<times> json) list" where
  "routeProps v =
     (case v of
        None \<Rightarrow> []
      | Some route \<Rightarrow>
          if \<not> is_object route then []
          else (case str_field route ''path'' of Some p \<Rightarrow> [(''path'', JStr p)] | None \<Rightarrow> [])
             @ (case str_field route ''surface'' of Some p \<Rightarrow> [(''surface'', JStr p)] | None \<Rightarrow> []))"

definition stackProps :: "json option \<Rightarrow> (jstr \<times> json) list" where
  "stackProps v =
     (case (case v of None \<Rightarrow> None | Some raw \<Rightarrow> sanitizeHangStackFrames raw HANG_STACK_MAX_FRAMES) of
        None \<Rightarrow> []
      | Some frames \<Rightarrow>
          (let top_frame = hd frames in
           [(''stack'', JArr (map frame_json frames)), (''stack_depth'', JNum (int (length frames))),
            (''stack_function'', JStr (hf_functionName top_frame))]
           @ (if hf_url top_frame = [] then [] else [(''stack_url'', JStr (hf_url top_frame))])
           @ [(''stack_line'', JNum (hf_lineNumber top_frame))]))"

definition crashProps :: "json option \<Rightarrow> (jstr \<times> json) list" where
  "crashProps v =
     (case v of
        None \<Rightarrow> []
      | Some details \<Rightarrow>
          if \<not> is_object details then []
          else (case str_field details ''reason'' of Some r \<Rightarrow> [(''crash_reason'', JStr r)] | None \<Rightarrow> [])
             @ (case json_field details ''exitCode'' of Some (JNum n) \<Rightarrow> [(''crash_exit_code'', JNum n)] | _ \<Rightarrow> []))"

text \<open>A property whose value is \<open>undefined\<close> is not sent.\<close>

definition buildFreezeEventProps :: "json \<Rightarrow> (jstr \<times> json) list" where
  "buildFreezeEventProps breadcrumb =
     (let crashed = (str_field breadcrumb ''kind'' = Some ''render-process-gone'');
          ctx = (case json_field breadcrumb ''context'' of None \<Rightarrow> JObj [] | Some JNull \<Rightarrow> JObj [] | Some c \<Rightarrow> c)
      in [(''source'', JStr (if crashed then ''render-process-gone'' else ''main-unresponsive'')), (''recovered'', JBool False)]
         @ (case json_field breadcrumb ''ts'' of None \<Rightarrow> [] | Some ts \<Rightarrow> [(''breadcrumb_ts'', ts)])
         @ (case json_field breadcrumb ''version'' of None \<Rightarrow> [] | Some v \<Rightarrow> [(''crashed_version'', v)])
         @ routeProps (json_field ctx ''desktopRoute'')
         @ stackProps (json_field ctx ''stack'')
         @ crashProps (json_field ctx ''details''))"

section \<open>Redaction\<close>

text \<open>At most the last two segments of a path, without query or fragment.\<close>

definition bundle_tail :: "jstr \<Rightarrow> bool" where
  "bundle_tail s = (\<exists>segs. length segs \<le> 2 \<and> s = str_join (CHR ''/'') segs
     \<and> (\<forall>w \<in> set segs. w \<noteq> [] \<and> set w \<inter> {CHR ''/'', CHR ''?'', CHR ''#''} = {}))"

lemma url_segments_clean:
  assumes "w \<in> set (url_segments s)"
  shows "w \<noteq> [] \<and> set w \<inter> {CHR ''/'', CHR ''?'', CHR ''#''} = {}"
proof -
  let ?t = "takeWhile (\<lambda>c. c \<noteq> CHR ''?'' \<and> c \<noteq> CHR ''#'') s"
  have w: "w \<in> set (str_split (CHR ''/'') ?t)" "w \<noteq> []" using assms by (auto simp: url_segments_def)
  from str_split_parts [OF w(1)] have "CHR ''/'' \<notin> set w" "set w \<subseteq> set ?t" by blast+
  with w(2) show ?thesis by (auto dest!: set_takeWhileD)
qed

lemma redact_tail: "bundle_tail (redactFrameUrl u)"
proof -
  have empty: "bundle_tail []" unfolding bundle_tail_def by (intro exI [of _ "[]"]) simp
  have "bundle_tail (str_join (CHR ''/'') (drop (length (url_segments s) - 2) (url_segments s)))" for s
    unfolding bundle_tail_def using url_segments_clean [of _ s]
    by (intro exI [of _ "drop (length (url_segments s) - 2) (url_segments s)"]) (auto dest!: in_set_dropD)
  with empty show ?thesis by (simp add: redactFrameUrl_def Let_def split: option.split json.split)
qed

lemma join_two: "length segs \<le> 2 \<Longrightarrow> str_join d segs = (case segs of [] \<Rightarrow> [] | [a] \<Rightarrow> a | a # b # _ \<Rightarrow> a @ d # b)"
  by (auto split: list.split)

lemma segments_of_tail:
  assumes "length segs \<le> 2" "\<forall>w \<in> set segs. w \<noteq> [] \<and> set w \<inter> {CHR ''/'', CHR ''?'', CHR ''#''} = {}"
  shows "url_segments (str_join (CHR ''/'') segs) = segs"
proof -
  have clean: "takeWhile (\<lambda>c. c \<noteq> CHR ''?'' \<and> c \<noteq> CHR ''#'') (str_join (CHR ''/'') segs) = str_join (CHR ''/'') segs"
  proof -
    consider "segs = []" | a where "segs = [a]" | a b where "segs = [a, b]"
      using assms(1) by (cases segs; cases "tl segs") auto
    then have "\<forall>c \<in> set (str_join (CHR ''/'') segs). c \<noteq> CHR ''?'' \<and> c \<noteq> CHR ''#''"
      by cases (use assms(2) in auto)
    then show ?thesis by (simp add: takeWhile_eq_all_conv)
  qed
  have ne: "filter (\<lambda>s. s \<noteq> []) segs = segs" using assms(2) by (auto simp: filter_id_conv)
  show ?thesis
  proof (cases segs)
    case Nil
    then show ?thesis by (simp add: url_segments_def)
  next
    case (Cons a rest)
    have "str_split (CHR ''/'') (str_join (CHR ''/'') segs) = segs"
      by (rule str_split_join) (use assms Cons in auto)
    with ne show ?thesis unfolding url_segments_def clean by simp
  qed
qed

lemma redact_of_tail: "bundle_tail s \<Longrightarrow> redactFrameUrl (Some (JStr s)) = s"
  unfolding bundle_tail_def by (auto simp: redactFrameUrl_def Let_def segments_of_tail)

lemma sanitize_of_frame: "bundle_tail (hf_url f) \<Longrightarrow> hf_functionName f \<noteq> [] \<Longrightarrow> sanitize_frame (frame_json f) = f"
  by (simp add: sanitize_frame_def frame_json_def json_field_def str_field_def toNumber_def redact_of_tail)

lemma sanitized_frame: "bundle_tail (hf_url (sanitize_frame r))" "hf_functionName (sanitize_frame r) \<noteq> []"
  by (auto simp: sanitize_frame_def redact_tail Let_def split: option.split)

lemma sanitize_again:
  assumes "sanitizeHangStackFrames raw n = Some frames"
  shows "sanitizeHangStackFrames (JArr (map frame_json frames)) n = Some frames
    \<and> length frames \<le> n \<and> (\<forall>f \<in> set frames. bundle_tail (hf_url f))"
proof -
  obtain raws where raws: "raw = JArr raws" "frames = map sanitize_frame (filter is_object (take n raws))" "frames \<noteq> []"
    using assms by (auto simp: sanitizeHangStackFrames_def Let_def split: json.splits if_splits)
  have good: "bundle_tail (hf_url f) \<and> hf_functionName f \<noteq> []" if "f \<in> set frames" for f
    using that sanitized_frame by (auto simp: raws(2))
  then have "map (sanitize_frame \<circ> frame_json) frames = frames" by (auto intro!: map_idI simp: sanitize_of_frame)
  moreover have len: "length frames \<le> n"
    using length_filter_le [of is_object "take n raws"] by (simp add: raws(2))
  moreover have "filter is_object (take n (map frame_json frames)) = map frame_json frames"
    using len by (auto simp: filter_id_conv is_object_def frame_json_def)
  ultimately show ?thesis using raws(3) good by (auto simp: sanitizeHangStackFrames_def)
qed

text \<open>Sanitizing a stack is idempotent, so sanitizing again what an older build, the breadcrumb
  file and the event have carried loses nothing: the frames kept from any input, written out and read
  again, are the same frames, and each names a script by at most two path segments without query or
  fragment.\<close>

theorem hang_stack_sanitized_once:
  assumes "sanitizeHangStackFrames raw n = Some frames"
  shows "sanitizeHangStackFrames (JArr (map frame_json frames)) n = Some frames
    \<and> length frames \<le> n \<and> (\<forall>f \<in> set frames. bundle_tail (hf_url f))"
  by (rule sanitize_again [OF assms])

theorem hang_stack_sanitized_once_witness:
  "sanitizeHangStackFrames (JArr [frame_json \<lparr>hf_functionName = ''f'', hf_url = ''out/app.js'', hf_lineNumber = 7, hf_columnNumber = 0\<rparr>]) 20
     = Some [\<lparr>hf_functionName = ''f'', hf_url = ''out/app.js'', hf_lineNumber = 7, hf_columnNumber = 0\<rparr>]"
proof -
  have "sanitizeHangStackFrames (JArr [JObj [(''functionName'', JStr ''f''), (''url'', JStr ''file:///home/ann/out/app.js?v=1''),
      (''location'', JObj [(''lineNumber'', JNum 7)]), (''scopeChain'', JArr [])]]) 20
     = Some [\<lparr>hf_functionName = ''f'', hf_url = ''out/app.js'', hf_lineNumber = 7, hf_columnNumber = 0\<rparr>]"
    by code_simp
  from hang_stack_sanitized_once [OF this] show ?thesis by simp
qed

text \<open>The names of the properties an event may have.\<close>

definition event_props :: "jstr set" where
  "event_props = {''source'', ''recovered'', ''breadcrumb_ts'', ''crashed_version'', ''path'', ''surface'', ''stack'',
     ''stack_depth'', ''stack_function'', ''stack_url'', ''stack_line'', ''crash_reason'', ''crash_exit_code''}"

lemma route_names: "fst ` set (routeProps r) \<subseteq> event_props - {''stack''}"
  by (auto simp: routeProps_def event_props_def split: option.splits)

lemma crash_names: "fst ` set (crashProps r) \<subseteq> event_props - {''stack''}"
  by (auto simp: crashProps_def event_props_def split: option.splits json.splits)

lemma stack_names: "fst ` set (stackProps r) \<subseteq> event_props"
  by (auto simp: stackProps_def event_props_def Let_def split: option.splits)

lemma stack_value:
  assumes "(''stack'', v) \<in> set (stackProps r)"
  shows "\<exists>frames. v = JArr (map frame_json frames) \<and> length frames \<le> 20 \<and> (\<forall>f \<in> set frames. bundle_tail (hf_url f))"
proof -
  from assms obtain raw where raw: "r = Some raw" by (cases r) (auto simp: stackProps_def)
  with assms obtain frames where "sanitizeHangStackFrames raw HANG_STACK_MAX_FRAMES = Some frames"
    by (cases "sanitizeHangStackFrames raw HANG_STACK_MAX_FRAMES") (auto simp: stackProps_def)
  with assms raw show ?thesis using sanitize_again [of raw HANG_STACK_MAX_FRAMES frames]
    by (auto simp: stackProps_def Let_def HANG_STACK_MAX_FRAMES_def split: if_splits)
qed

lemma event_parts:
  obtains ctx header where "buildFreezeEventProps b = header @ routeProps (json_field ctx ''desktopRoute'')
      @ stackProps (json_field ctx ''stack'') @ crashProps (json_field ctx ''details'')"
    and "fst ` set header \<subseteq> event_props - {''stack''}"
proof -
  let ?head = "[(''source'', JStr (if str_field b ''kind'' = Some ''render-process-gone'' then ''render-process-gone'' else ''main-unresponsive'')),
      (''recovered'', JBool False)]
    @ (case json_field b ''ts'' of None \<Rightarrow> [] | Some ts \<Rightarrow> [(''breadcrumb_ts'', ts)])
    @ (case json_field b ''version'' of None \<Rightarrow> [] | Some v \<Rightarrow> [(''crashed_version'', v)])"
  let ?ctx = "case json_field b ''context'' of None \<Rightarrow> JObj [] | Some JNull \<Rightarrow> JObj [] | Some c \<Rightarrow> c"
  show ?thesis
  proof (rule that [of ?head ?ctx])
    show "buildFreezeEventProps b = ?head @ routeProps (json_field ?ctx ''desktopRoute'')
      @ stackProps (json_field ?ctx ''stack'') @ crashProps (json_field ?ctx ''details'')"
      by (simp only: buildFreezeEventProps_def Let_def append_assoc)
    show "fst ` set ?head \<subseteq> event_props - {''stack''}"
      by (auto simp: event_props_def split: option.splits)
  qed
qed

text \<open>Whatever the breadcrumb file holds, the event built from it has no property outside the fixed
  list, and its stack, if it has one, is a list of at most twenty frames of the four fields, with
  redacted script names.\<close>

theorem freeze_event_whitelist:
  "set (buildFreezeEventProps b) \<subseteq> (event_props - {''stack''}) \<times> UNIV
     \<union> {(''stack'', JArr (map frame_json frames)) | frames. length frames \<le> 20 \<and> list_all (bundle_tail \<circ> hf_url) frames}"
proof -
  obtain ctx header where parts: "buildFreezeEventProps b = header @ routeProps (json_field ctx ''desktopRoute'')
      @ stackProps (json_field ctx ''stack'') @ crashProps (json_field ctx ''details'')"
    and hd_names: "fst ` set header \<subseteq> event_props - {''stack''}"
    by (rule event_parts)
  define scalars :: "(jstr \<times> json) set" where "scalars = (event_props - {''stack''}) \<times> UNIV"
  define stacks :: "(jstr \<times> json) set" where
    "stacks = {(''stack'', JArr (map frame_json frames)) | frames. length frames \<le> 20 \<and> list_all (bundle_tail \<circ> hf_url) frames}"
  have names: "set ps \<subseteq> scalars" if "fst ` set ps \<subseteq> event_props - {''stack''}" for ps :: "(jstr \<times> json) list"
    using that unfolding scalars_def by force
  have "set (stackProps r) \<subseteq> scalars \<union> stacks" for r
  proof
    fix entry assume e: "entry \<in> set (stackProps r)"
    obtain n v where entry: "entry = (n, v)" by (cases entry)
    have "n \<in> event_props" using subsetD [OF stack_names imageI [OF e]] by (simp add: entry)
    with entry have nv: "entry = (n, v)" "n \<in> event_props" by simp_all
    show "entry \<in> scalars \<union> stacks"
    proof (cases "n = ''stack''")
      case True
      with e nv obtain frames where "v = JArr (map frame_json frames)" "length frames \<le> 20" "\<forall>f \<in> set frames. bundle_tail (hf_url f)"
        using stack_value [of v r] by blast
      then have "(''stack'', v) \<in> stacks" unfolding stacks_def list_all_iff comp_apply by blast
      with True nv(1) show ?thesis by simp
    next
      case False
      with nv show ?thesis unfolding scalars_def by blast
    qed
  qed
  then have "set (buildFreezeEventProps b) \<subseteq> scalars \<union> stacks"
    unfolding parts set_append using names [OF hd_names] names [OF route_names] names [OF crash_names] by blast
  then show ?thesis unfolding scalars_def stacks_def .
qed

end
