(* ===== verification/Failure_Report.thy ===== *)
theory Failure_Report
  imports Hang_Stack JS_Object Machines
begin

text \<open>
  How the desktop application reports a renderer that hangs or dies: the breadcrumb slot on disk
  (\<open>apps/desktop/src/main/freeze-breadcrumb.ts\<close>), the recovery handlers of every window
  (\<open>apps/desktop/src/main/renderer-recovery.ts\<close>, wired in \<open>main/index.ts\<close>), and the report at the
  next boot of a renderer (\<open>apps/desktop/src/renderer/src/freeze-flush.ts\<close>). The main process and
  its windows are one state; the events are what Electron, the user, the clock and the analytics
  client may do. The file system is assumed not to fail.
\<close>

section \<open>The slot\<close>

text \<open>The content of the file: text that is not JSON, or a value. No file is \<open>None\<close>.\<close>

datatype stored = Not_Json | Parsed json

definition FREEZE_BREADCRUMB_TTL_MS :: int where
  "FREEZE_BREADCRUMB_TTL_MS = 7 * 24 * 60 * 60 * 1000"

definition freeze_breadcrumb :: "jstr \<Rightarrow> jstr \<Rightarrow> json \<Rightarrow> int \<Rightarrow> jstr \<Rightarrow> json" where
  "freeze_breadcrumb ownerId kind ctx ts version =
     JObj [(''ownerId'', JStr ownerId), (''kind'', JStr kind), (''context'', ctx), (''ts'', JNum ts), (''version'', JStr version)]"

definition writeFreezeBreadcrumb :: "json \<Rightarrow> stored option \<Rightarrow> stored option" where
  "writeFreezeBreadcrumb breadcrumb file = Some (Parsed breadcrumb)"

definition clearFreezeBreadcrumb :: "stored option \<Rightarrow> jstr option \<Rightarrow> stored option" where
  "clearFreezeBreadcrumb file ownerId =
     (case ownerId of
        None \<Rightarrow> None
      | Some owner \<Rightarrow>
          (case file of
             Some (Parsed parsed) \<Rightarrow>
               if \<not> is_object parsed \<or> json_field parsed ''ownerId'' \<noteq> Some (JStr owner) then file else None
           | _ \<Rightarrow> file))"

definition isExpired :: "json \<Rightarrow> int \<Rightarrow> bool" where
  "isExpired breadcrumb now_ms =
     (case json_field breadcrumb ''ts'' of
        Some (JNum ts) \<Rightarrow> now_ms - ts > FREEZE_BREADCRUMB_TTL_MS
      | _ \<Rightarrow> True)"

definition discard :: "stored option \<Rightarrow> stored option" where
  "discard file = None"

definition readFreezeBreadcrumb :: "stored option \<Rightarrow> int \<Rightarrow> json option \<times> stored option" where
  "readFreezeBreadcrumb file now_ms =
     (case file of
        None \<Rightarrow> (None, file)
      | Some raw \<Rightarrow>
          (let breadcrumb = (case raw of
                 Parsed parsed \<Rightarrow> if is_object parsed \<and> str_field parsed ''kind'' \<noteq> None then Some parsed else None
               | Not_Json \<Rightarrow> None)
           in case breadcrumb of
                None \<Rightarrow> (None, discard file)
              | Some b \<Rightarrow> if isExpired b now_ms then (None, discard file) else (Some b, file)))"

definition ackFreezeBreadcrumb :: "stored option \<Rightarrow> int \<Rightarrow> stored option" where
  "ackFreezeBreadcrumb file ts =
     (case file of
        Some (Parsed parsed) \<Rightarrow>
          if \<not> is_object parsed \<or> json_field parsed ''ts'' \<noteq> Some (JNum ts) then file else None
      | _ \<Rightarrow> file)"

section \<open>State\<close>

record reload_payload =
  payload_kind :: jstr
  payload_context :: "json jsobj"

text \<open>
  One window: its prompt timer, the \<open>reportHang\<close> calls suspended in \<open>readStack\<close>, the flag of its
  recovery handlers, whether it is destroyed, and the route its renderer last told the main process.
\<close>

record recovery_window =
  unresponsivePromptTimer :: bool
  captures :: nat
  unresponsiveBreadcrumbWritten :: bool
  destroyed :: bool
  route_context :: "json option"

text \<open>
  Windows are named by the owner id their breadcrumbs carry (\<open>main:1\<close>, \<open>issue:2\<close>). A report is a
  breadcrumb whose \<open>capture\<close> has not called back yet; an acknowledgement timer holds the \<open>ts\<close> it
  will send. Both live in the renderer of a window.
\<close>

record failure_system =
  isDev :: bool
  app_version :: jstr
  clock_ms :: int
  slot :: "stored option"
  windows :: "jstr \<Rightarrow> recovery_window"
  prompts :: "(jstr \<times> reload_payload) list"
  reloads :: "jstr list"
  reports :: "(jstr \<times> json) list"
  ack_timers :: "(jstr \<times> json option) list"
  captured :: "(jstr \<times> (jstr \<times> json) list) list"

definition on_window :: "jstr \<Rightarrow> (recovery_window \<Rightarrow> recovery_window) \<Rightarrow> failure_system \<Rightarrow> failure_system" where
  "on_window w f s = s\<lparr>windows := (windows s)(w := f (windows s w))\<rparr>"

section \<open>The recovery handlers\<close>

definition isRecoverableRendererExit :: "json \<Rightarrow> bool" where
  "isRecoverableRendererExit details =
     (is_object details \<and> str_field details ''reason'' \<in>
        {Some ''crashed'', Some ''oom'', Some ''abnormal-exit'', Some ''launch-failed'', Some ''integrity-failure''})"

definition getDiagnosticContext :: "recovery_window \<Rightarrow> json jsobj" where
  "getDiagnosticContext win = (case route_context win of Some r \<Rightarrow> [(''desktopRoute'', r)] | None \<Rightarrow> [])"

definition mergeDiagnosticContext :: "recovery_window \<Rightarrow> json jsobj \<Rightarrow> json jsobj" where
  "mergeDiagnosticContext win ctx = obj_assign (getDiagnosticContext win) ctx"

definition persistBreadcrumb :: "jstr \<Rightarrow> reload_payload \<Rightarrow> failure_system \<Rightarrow> failure_system" where
  "persistBreadcrumb w p s =
     (if isDev s then s
      else s\<lparr>slot := writeFreezeBreadcrumb
               (freeze_breadcrumb w (payload_kind p) (JObj (payload_context p)) (clock_ms s) (app_version s)) (slot s)\<rparr>)"

definition clearBreadcrumb :: "jstr \<Rightarrow> failure_system \<Rightarrow> failure_system" where
  "clearBreadcrumb w s = (if isDev s then s else s\<lparr>slot := clearFreezeBreadcrumb (slot s) (Some w)\<rparr>)"

definition maybePromptReload :: "jstr \<Rightarrow> reload_payload \<Rightarrow> failure_system \<Rightarrow> failure_system" where
  "maybePromptReload w p s = (if isDev s then s else s\<lparr>prompts := prompts s @ [(w, p)]\<rparr>)"

definition drop_renderer :: "jstr \<Rightarrow> failure_system \<Rightarrow> failure_system" where
  "drop_renderer w s = s\<lparr>reports := filter (\<lambda>(v, _). v \<noteq> w) (reports s), ack_timers := filter (\<lambda>(v, _). v \<noteq> w) (ack_timers s)\<rparr>"

definition on_process_gone :: "jstr \<Rightarrow> json \<Rightarrow> failure_system \<Rightarrow> failure_system" where
  "on_process_gone w details s =
     (if \<not> isRecoverableRendererExit details then s
      else
        (let p = \<lparr>payload_kind = ''render-process-gone'',
                  payload_context = mergeDiagnosticContext (windows s w) [(''details'', details)]\<rparr>
         in maybePromptReload w p (persistBreadcrumb w p s)))"

definition on_preload_error :: "jstr \<Rightarrow> json \<Rightarrow> json \<Rightarrow> failure_system \<Rightarrow> failure_system" where
  "on_preload_error w preloadPath error s =
     maybePromptReload w \<lparr>payload_kind = ''preload-error'',
       payload_context = mergeDiagnosticContext (windows s w) [(''preloadPath'', preloadPath), (''error'', error)]\<rparr> s"

definition on_unresponsive :: "jstr \<Rightarrow> failure_system \<Rightarrow> failure_system" where
  "on_unresponsive w s =
     (if isDev s \<or> unresponsivePromptTimer (windows s w) then s
      else on_window w (unresponsivePromptTimer_update (\<lambda>_. True)) s)"

text \<open>The timer's callback runs \<open>reportHang\<close> up to its \<open>await readStack\<close>.\<close>

definition on_prompt_delay :: "jstr \<Rightarrow> failure_system \<Rightarrow> failure_system" where
  "on_prompt_delay w s = on_window w (\<lambda>win. win\<lparr>unresponsivePromptTimer := False, captures := captures win + 1\<rparr>) s"

text \<open>The rest of \<open>reportHang\<close>, when the stack has been read or given up.\<close>

definition reportHang :: "jstr \<Rightarrow> json option \<Rightarrow> failure_system \<Rightarrow> failure_system" where
  "reportHang w stack s =
     (let p = \<lparr>payload_kind = ''unresponsive'',
               payload_context = mergeDiagnosticContext (windows s w)
                 (case stack of Some v \<Rightarrow> if js_truthy v then [(''stack'', v)] else [] | None \<Rightarrow> [])\<rparr>
      in maybePromptReload w p
           (on_window w (\<lambda>win. win\<lparr>captures := captures win - 1, unresponsiveBreadcrumbWritten := True\<rparr>)
             (persistBreadcrumb w p s)))"

definition on_responsive :: "jstr \<Rightarrow> failure_system \<Rightarrow> failure_system" where
  "on_responsive w s =
     (let s1 = (if unresponsivePromptTimer (windows s w)
                then on_window w (unresponsivePromptTimer_update (\<lambda>_. False)) s else s)
      in if unresponsiveBreadcrumbWritten (windows s1 w)
         then on_window w (unresponsiveBreadcrumbWritten_update (\<lambda>_. False)) (clearBreadcrumb w s1)
         else s1)"

section \<open>The report\<close>

text \<open>\<open>getLastFreeze\<close> reads the slot in the main process; \<open>capture\<close> hands the event to the client.\<close>

definition flushFreezeBreadcrumb :: "jstr \<Rightarrow> failure_system \<Rightarrow> failure_system" where
  "flushFreezeBreadcrumb w s =
     (let (found, file) = readFreezeBreadcrumb (slot s) (clock_ms s); s1 = s\<lparr>slot := file\<rparr>
      in case found of
           None \<Rightarrow> s1
         | Some b \<Rightarrow>
             s1\<lparr>captured := captured s1 @
                  [(if str_field b ''kind'' = Some ''render-process-gone'' then ''client_crash'' else ''client_unresponsive'',
                    buildFreezeEventProps b)],
                reports := reports s1 @ [(w, b)]\<rparr>)"

definition onCaptured :: "nat \<Rightarrow> failure_system \<Rightarrow> failure_system" where
  "onCaptured i s =
     (let (w, b) = reports s ! i
      in s\<lparr>reports := remove_nth i (reports s), ack_timers := ack_timers s @ [(w, json_field b ''ts'')]\<rparr>)"

text \<open>The timer sends \<open>freeze:ack\<close>, which the main process accepts for a number only.\<close>

definition on_ack :: "nat \<Rightarrow> failure_system \<Rightarrow> failure_system" where
  "on_ack i s =
     (let s1 = s\<lparr>ack_timers := remove_nth i (ack_timers s)\<rparr>
      in case snd (ack_timers s ! i) of
           Some (JNum ts) \<Rightarrow> s1\<lparr>slot := ackFreezeBreadcrumb (slot s1) ts\<rparr>
         | _ \<Rightarrow> s1)"

definition flush_cleanup :: "jstr \<Rightarrow> failure_system \<Rightarrow> failure_system" where
  "flush_cleanup w s = s\<lparr>ack_timers := filter (\<lambda>(v, _). v \<noteq> w) (ack_timers s)\<rparr>"

definition prompt_answered :: "nat \<Rightarrow> bool \<Rightarrow> failure_system \<Rightarrow> failure_system" where
  "prompt_answered i reload s =
     (let w = fst (prompts s ! i); s1 = s\<lparr>prompts := remove_nth i (prompts s)\<rparr>
      in if reload \<and> \<not> destroyed (windows s w) then drop_renderer w (s1\<lparr>reloads := reloads s1 @ [w]\<rparr>) else s1)"

section \<open>The machine\<close>

datatype failure_event =
  Unresponsive jstr
  | PromptDelayOver jstr
  | StackRead jstr "json option"
  | Responsive jstr
  | ProcessGone jstr json
  | PreloadError jstr json json
  | PromptAnswered nat bool
  | RendererBoot jstr
  | HandedOver nat
  | AckDue nat
  | Unmounted jstr
  | PageUnload jstr
  | WindowClosed jstr
  | RouteReported jstr "json option"
  | TimePasses nat

fun failure_step :: "failure_system \<Rightarrow> failure_event \<Rightarrow> failure_system" where
  "failure_step s (Unresponsive w) = on_unresponsive w s"
| "failure_step s (PromptDelayOver w) = on_prompt_delay w s"
| "failure_step s (StackRead w stack) = reportHang w stack s"
| "failure_step s (Responsive w) = on_responsive w s"
| "failure_step s (ProcessGone w details) = on_process_gone w details (drop_renderer w s)"
| "failure_step s (PreloadError w p e) = on_preload_error w p e s"
| "failure_step s (PromptAnswered i reload) = prompt_answered i reload s"
| "failure_step s (RendererBoot w) = flushFreezeBreadcrumb w s"
| "failure_step s (HandedOver i) = onCaptured i s"
| "failure_step s (AckDue i) = on_ack i s"
| "failure_step s (Unmounted w) = flush_cleanup w s"
| "failure_step s (PageUnload w) = drop_renderer w s"
| "failure_step s (WindowClosed w) = drop_renderer w (on_window w (destroyed_update (\<lambda>_. True)) s)"
| "failure_step s (RouteReported w r) = on_window w (route_context_update (\<lambda>_. r)) s"
| "failure_step s (TimePasses d) = s\<lparr>clock_ms := clock_ms s + int d\<rparr>"

text \<open>An event comes from a live window, a pending timer, capture, prompt or report.\<close>

fun failure_enabled :: "failure_system \<Rightarrow> failure_event \<Rightarrow> bool" where
  "failure_enabled s (PromptDelayOver w) = (unresponsivePromptTimer (windows s w) \<and> \<not> destroyed (windows s w))"
| "failure_enabled s (StackRead w _) = (captures (windows s w) > 0 \<and> \<not> destroyed (windows s w))"
| "failure_enabled s (Unresponsive w) = (\<not> destroyed (windows s w))"
| "failure_enabled s (Responsive w) = (\<not> destroyed (windows s w))"
| "failure_enabled s (ProcessGone w _) = (\<not> destroyed (windows s w))"
| "failure_enabled s (PreloadError w _ _) = (\<not> destroyed (windows s w))"
| "failure_enabled s (RendererBoot w) = (\<not> destroyed (windows s w))"
| "failure_enabled s (RouteReported w _) = (\<not> destroyed (windows s w))"
| "failure_enabled s (PromptAnswered i _) = (i < length (prompts s))"
| "failure_enabled s (HandedOver i) = (i < length (reports s))"
| "failure_enabled s (AckDue i) = (i < length (ack_timers s))"
| "failure_enabled s _ = True"

definition fresh_window :: recovery_window where
  "fresh_window = \<lparr>unresponsivePromptTimer = False, captures = 0, unresponsiveBreadcrumbWritten = False,
     destroyed = False, route_context = None\<rparr>"

text \<open>The application starts with whatever file the last session left.\<close>

definition failure_init :: "bool \<Rightarrow> jstr \<Rightarrow> int \<Rightarrow> stored option \<Rightarrow> failure_system" where
  "failure_init dev version now_ms file =
     \<lparr>isDev = dev, app_version = version, clock_ms = now_ms, slot = file, windows = (\<lambda>_. fresh_window), prompts = [],
      reloads = [], reports = [], ack_timers = [], captured = []\<rparr>"

definition failure_start :: "failure_system \<Rightarrow> bool" where
  "failure_start s = (\<exists>dev version now_ms file. s = failure_init dev version now_ms file)"

end
