(* ===== verification/Failure_Properties.thy ===== *)
theory Failure_Properties
  imports Failure_Report
begin

text \<open>
  What the breadcrumb protocol guarantees: a failure that was written is reported at the next boot
  unless a later failure, its owner's return or its age removed it; and a window that came back,
  with no stack being read at that moment, leaves no hang behind. Where the code does not keep what
  its comments promise, a run shows it.
\<close>

named_theorems failure_defs

declare on_window_def [failure_defs] persistBreadcrumb_def [failure_defs] clearBreadcrumb_def [failure_defs]
  maybePromptReload_def [failure_defs] drop_renderer_def [failure_defs] on_process_gone_def [failure_defs]
  on_preload_error_def [failure_defs] on_unresponsive_def [failure_defs] on_prompt_delay_def [failure_defs]
  reportHang_def [failure_defs] on_responsive_def [failure_defs] flushFreezeBreadcrumb_def [failure_defs]
  onCaptured_def [failure_defs] on_ack_def [failure_defs] flush_cleanup_def [failure_defs]
  prompt_answered_def [failure_defs]

lemma set_remove_nth: "set (remove_nth i xs) \<subseteq> set xs"
  by (auto simp: remove_nth_def dest: in_set_takeD in_set_dropD)

section \<open>Reports are made before they are acknowledged\<close>

text \<open>An event with the time stamp \<open>ts\<close> has been handed to the analytics client.\<close>

definition reported :: "failure_system \<Rightarrow> json option \<Rightarrow> bool" where
  "reported s ts = (\<exists>event. event \<in> set (captured s) \<and> map_of (snd event) ''breadcrumb_ts'' = ts)"

definition acks_reported :: "failure_system \<Rightarrow> bool" where
  "acks_reported s = ((\<forall>(w, b) \<in> set (reports s). reported s (json_field b ''ts''))
     \<and> (\<forall>(w, ts) \<in> set (ack_timers s). reported s ts))"

lemma event_ts: "map_of (buildFreezeEventProps b) ''breadcrumb_ts'' = json_field b ''ts''"
proof -
  have "map_of (routeProps r) ''breadcrumb_ts'' = None" for r by (simp add: routeProps_def split: option.split)
  moreover have "map_of (crashProps r) ''breadcrumb_ts'' = None" for r
    by (simp add: crashProps_def split: option.split json.split)
  moreover have "map_of (stackProps r) ''breadcrumb_ts'' = None" for r
    by (simp add: stackProps_def Let_def split: option.split)
  ultimately show ?thesis by (simp add: buildFreezeEventProps_def Let_def map_add_def split: option.split)
qed

lemma reportedI: "(n, buildFreezeEventProps b) \<in> set (captured s) \<Longrightarrow> reported s (json_field b ''ts'')"
  unfolding reported_def by (intro exI [of _ "(n, buildFreezeEventProps b)"]) (simp add: event_ts)

lemma reported_mono: "set (captured s) \<subseteq> set (captured s') \<Longrightarrow> reported s ts \<Longrightarrow> reported s' ts"
  by (auto simp: reported_def)

lemma captured_grows: "set (captured s) \<subseteq> set (captured (failure_step s e))"
  by (cases e) (auto simp: failure_defs Let_def split: option.splits prod.splits json.splits)

lemma acks_reported_step:
  assumes "acks_reported s" "failure_enabled s e"
  shows "acks_reported (failure_step s e)"
proof -
  have old: "reported (failure_step s e) ts" if "reported s ts" for ts
    using that captured_grows reported_mono by blast
  have r: "set (reports (failure_step s e)) \<subseteq> set (reports s) \<union>
      {(w, b). reported (failure_step s e) (json_field b ''ts'')}"
    and t: "set (ack_timers (failure_step s e)) \<subseteq> set (ack_timers s) \<union> {(w, ts). reported s ts}"
  proof -
    show "set (reports (failure_step s e)) \<subseteq> set (reports s) \<union> {(w, b). reported (failure_step s e) (json_field b ''ts'')}"
    proof (cases e)
      case (RendererBoot w)
      then show ?thesis
        by (auto simp: flushFreezeBreadcrumb_def Let_def intro!: reportedI split: option.splits prod.splits)
    qed (use set_remove_nth [of _ "reports s"] in
        \<open>auto simp: failure_defs Let_def split: option.splits prod.splits json.splits\<close>)
    show "set (ack_timers (failure_step s e)) \<subseteq> set (ack_timers s) \<union> {(w, ts). reported s ts}"
    proof (cases e)
      case (HandedOver i)
      then have "reports s ! i \<in> set (reports s)" using assms(2) by simp
      with HandedOver assms(1) show ?thesis
        by (auto simp: onCaptured_def acks_reported_def split: prod.splits)
    qed (use set_remove_nth [of _ "ack_timers s"] in
        \<open>auto simp: failure_defs Let_def split: option.splits prod.splits json.splits\<close>)
  qed
  show ?thesis unfolding acks_reported_def using r t old assms(1) by (fastforce simp: acks_reported_def)
qed

interpretation failure: invariant_machine failure_start failure_step failure_enabled acks_reported
proof
  show "acks_reported s" if "failure_start s" for s
    using that by (auto simp: failure_start_def failure_init_def acks_reported_def)
qed (rule acks_reported_step)

section \<open>A failure is reported\<close>

text \<open>The events that write the slot, and a breadcrumb that \<open>readFreezeBreadcrumb\<close> would return.\<close>

fun writes_slot :: "failure_event \<Rightarrow> bool" where
  "writes_slot (StackRead _ _) = True"
| "writes_slot (ProcessGone _ details) = isRecoverableRendererExit details"
| "writes_slot _ = False"

definition readable :: "json \<Rightarrow> int \<Rightarrow> bool" where
  "readable b now_ms = (is_object b \<and> str_field b ''kind'' \<noteq> None \<and> \<not> isExpired b now_ms)"

lemma readable_earlier: "readable b t' \<Longrightarrow> t \<le> t' \<Longrightarrow> readable b t"
  by (auto simp: readable_def isExpired_def split: option.splits json.splits)

lemma read_readable: "readable b t \<Longrightarrow> readFreezeBreadcrumb (Some (Parsed b)) t = (Some b, Some (Parsed b))"
  by (auto simp: readFreezeBreadcrumb_def readable_def)

lemma clock_step: "clock_ms s \<le> clock_ms (failure_step s e)"
  by (cases e) (auto simp: failure_defs Let_def split: option.splits prod.splits json.splits)

lemma clock_run: "clock_ms s \<le> clock_ms (foldl failure_step s es)"
  by (induction es arbitrary: s) (auto intro: order_trans [OF clock_step])

lemma slot_step:
  assumes "acks_reported s" "slot s = Some (Parsed b)" "readable b (clock_ms s)" "failure_enabled s e" "\<not> writes_slot e"
    and "\<And>w. e = Responsive w \<Longrightarrow> json_field b ''ownerId'' \<noteq> Some (JStr w)"
  shows "slot (failure_step s e) = Some (Parsed b) \<or> reported s (json_field b ''ts'')"
proof (cases e)
  case (AckDue i)
  with assms(4) have "ack_timers s ! i \<in> set (ack_timers s)" by simp
  with assms(1) have "reported s (snd (ack_timers s ! i))" by (auto simp: acks_reported_def)
  with AckDue assms(2) show ?thesis
    by (auto simp: on_ack_def ackFreezeBreadcrumb_def Let_def split: option.splits json.splits)
next
  case (RendererBoot w)
  with assms(2,3) show ?thesis by (simp add: flushFreezeBreadcrumb_def read_readable)
next
  case (Responsive w)
  with assms(2,6) show ?thesis by (simp add: failure_defs Let_def clearFreezeBreadcrumb_def)
qed (use assms(2,5) in \<open>auto simp: failure_defs Let_def split: prod.splits\<close>)

lemma slot_run:
  assumes "acks_reported s" "slot s = Some (Parsed b)" "run_ok failure_step failure_enabled s es"
    "\<forall>e \<in> set es. \<not> writes_slot e \<and> (\<forall>w. e = Responsive w \<longrightarrow> json_field b ''ownerId'' \<noteq> Some (JStr w))"
    "readable b (clock_ms (foldl failure_step s es))"
  shows "slot (foldl failure_step s es) = Some (Parsed b) \<or> reported (foldl failure_step s es) (json_field b ''ts'')"
  using assms
proof (induction es arbitrary: s)
  case (Cons e es)
  have e: "failure_enabled s e" "\<not> writes_slot e" "\<And>w. e = Responsive w \<Longrightarrow> json_field b ''ownerId'' \<noteq> Some (JStr w)"
    using Cons.prems by auto
  have "readable b (clock_ms s)" using Cons.prems(5) clock_run [of s "e # es"] by (rule readable_earlier)
  from slot_step [OF Cons.prems(1,2) this e]
  show ?case
  proof
    assume "slot (failure_step s e) = Some (Parsed b)"
    then show ?thesis
      using Cons.IH [of "failure_step s e"] Cons.prems acks_reported_step [OF Cons.prems(1) e(1)] by simp
  next
    have grows: "set (captured s) \<subseteq> set (captured (foldl failure_step s es))" for s es
      by (induction es arbitrary: s) (auto dest: subsetD [OF captured_grows])
    assume "reported s (json_field b ''ts'')"
    then show ?thesis using grows [of s "e # es"] reported_mono by blast
  qed
qed simp

text \<open>C11: a failure on disk is reported: from any state the application can reach, whatever the windows,
  the user, the clock and the analytics client do next, as long as no later failure is written over it,
  its window does not come back and it has not aged out, after the next boot of any renderer an event
  with its time stamp has been handed to the analytics client. An interrupted report loses nothing:
  the acknowledgement deletes only what was reported.\<close>

theorem failure_reported:
  assumes "reachable failure_start failure_step failure_enabled s"
    and "slot s = Some (Parsed b)"
    and "run_ok failure_step failure_enabled s es"
    and "\<forall>e \<in> set es. \<not> writes_slot e \<and> (\<forall>w. e = Responsive w \<longrightarrow> json_field b ''ownerId'' \<noteq> Some (JStr w))"
    and "readable b (clock_ms (foldl failure_step s es))"
  shows "reported (failure_step (foldl failure_step s es) (RendererBoot w)) (json_field b ''ts'')"
  using slot_run [OF failure.inv_reachable [OF assms(1)] assms(2-5)]
proof
  assume "slot (foldl failure_step s es) = Some (Parsed b)"
  with assms(5) show ?thesis
    by (auto simp: flushFreezeBreadcrumb_def read_readable intro!: reportedI)
qed (rule reported_mono [OF captured_grows])

definition main_crash :: json where
  "main_crash = JObj [(''reason'', JStr ''oom''), (''exitCode'', JNum 5)]"

theorem failure_reported_witness:
  "let s = foldl failure_step (failure_init False ''1.0'' 100 None) [ProcessGone ''main:1'' main_crash, RendererBoot ''main:1'', HandedOver 0];
       s' = foldl failure_step s [Unresponsive ''issue:2'', AckDue 0, Responsive ''issue:2'', TimePasses 9]
   in slot s \<noteq> None \<and> slot s' = None \<and> reported (failure_step s' (RendererBoot ''main:1'')) (Some (JNum 100))"
proof -
  let ?init = "failure_init False ''1.0'' 100 None"
  let ?before = "[ProcessGone ''main:1'' main_crash, RendererBoot ''main:1'', HandedOver 0]"
  let ?after = "[Unresponsive ''issue:2'', AckDue 0, Responsive ''issue:2'', TimePasses 9]"
  let ?b = "freeze_breadcrumb ''main:1'' ''render-process-gone'' (JObj [(''details'', main_crash)]) 100 ''1.0''"
  have r: "reachable failure_start failure_step failure_enabled (foldl failure_step ?init ?before)"
  proof (rule reachable_run)
    show "reachable failure_start failure_step failure_enabled ?init"
      by (rule reachable.init) (auto simp: failure_start_def)
    show "run_ok failure_step failure_enabled ?init ?before" by code_simp
  qed
  have slot: "slot (foldl failure_step ?init ?before) = Some (Parsed ?b)" by code_simp
  have ok: "run_ok failure_step failure_enabled (foldl failure_step ?init ?before) ?after" by code_simp
  have quiet: "\<forall>e \<in> set ?after. \<not> writes_slot e \<and> (\<forall>w. e = Responsive w \<longrightarrow> json_field ?b ''ownerId'' \<noteq> Some (JStr w))"
    by (simp add: freeze_breadcrumb_def json_field_def)
  have fresh: "readable ?b (clock_ms (foldl failure_step (foldl failure_step ?init ?before) ?after))" by code_simp
  have "slot (foldl failure_step (foldl failure_step ?init ?before) ?after) = None" by code_simp
  moreover have "json_field ?b ''ts'' = Some (JNum 100)" by code_simp
  ultimately show ?thesis
    using failure_reported [OF r slot ok quiet fresh, of "''main:1''"] slot by (simp only: Let_def simp_thms) simp
qed

section \<open>A window that came back\<close>

text \<open>The slot holds a hang of the window \<open>w\<close>.\<close>

definition hang_in_slot :: "jstr \<Rightarrow> failure_system \<Rightarrow> bool" where
  "hang_in_slot w s = (case slot s of
     Some (Parsed b) \<Rightarrow> str_field b ''kind'' = Some ''unresponsive'' \<and> json_field b ''ownerId'' = Some (JStr w)
   | _ \<Rightarrow> False)"

text \<open>The flag of the recovery handlers covers every hang the session wrote.\<close>

definition hang_flagged :: "jstr \<Rightarrow> failure_system \<Rightarrow> bool" where
  "hang_flagged w s = (hang_in_slot w s \<longrightarrow> unresponsiveBreadcrumbWritten (windows s w) \<and> \<not> isDev s)"

text \<open>Nothing is on its way to become a hang of \<open>w\<close>.\<close>

definition quiet :: "jstr \<Rightarrow> failure_system \<Rightarrow> bool" where
  "quiet w s = (\<not> unresponsivePromptTimer (windows s w) \<and> captures (windows s w) = 0 \<and> \<not> hang_in_slot w s)"

lemma hang_in_slot_same: "slot s' = slot s \<Longrightarrow> hang_in_slot w s' = hang_in_slot w s"
  by (simp add: hang_in_slot_def)

lemma hang_in_slot_none: "slot s = None \<Longrightarrow> \<not> hang_in_slot w s"
  by (simp add: hang_in_slot_def)

text \<open>Deleting the slot, by whatever operation, makes no hang appear.\<close>

definition slot_shrinks :: "failure_system \<Rightarrow> failure_system \<Rightarrow> bool" where
  "slot_shrinks s s' = (slot s' = slot s \<or> slot s' = None)"

lemma slot_shrinks_hang: "slot_shrinks s s' \<Longrightarrow> hang_in_slot w s' \<Longrightarrow> hang_in_slot w s"
  by (auto simp: slot_shrinks_def hang_in_slot_def)

lemma step_shrinks: "\<not> writes_slot e \<Longrightarrow> slot_shrinks s (failure_step s e)"
  by (cases e) (auto simp: failure_defs Let_def slot_shrinks_def clearFreezeBreadcrumb_def ackFreezeBreadcrumb_def
    readFreezeBreadcrumb_def discard_def split: option.splits prod.splits json.splits stored.splits)

lemma flag_kept:
  "(\<And>w'. e \<noteq> Responsive w') \<Longrightarrow> unresponsiveBreadcrumbWritten (windows s w) \<Longrightarrow> unresponsiveBreadcrumbWritten (windows (failure_step s e) w)"
  by (cases e) (auto simp: failure_defs Let_def split: option.splits prod.splits json.splits)

lemma dev_kept: "isDev (failure_step s e) = isDev s"
  by (cases e) (auto simp: failure_defs Let_def split: option.splits prod.splits json.splits)

text \<open>A crash breadcrumb is not a hang, and a hang names the window that wrote it.\<close>

lemma written_hang:
  "hang_in_slot w (persistBreadcrumb v p s) \<longleftrightarrow>
     (if isDev s then hang_in_slot w s else payload_kind p = ''unresponsive'' \<and> v = w)"
  by (auto simp: hang_in_slot_def persistBreadcrumb_def writeFreezeBreadcrumb_def freeze_breadcrumb_def str_field_def json_field_def)

lemma crash_not_hang:
  "hang_in_slot w (on_process_gone v d s) \<Longrightarrow> hang_in_slot w s \<and> (isDev s \<or> \<not> isRecoverableRendererExit d)"
  using written_hang [of w v _ s]
  by (auto simp: on_process_gone_def maybePromptReload_def Let_def hang_in_slot_def split: if_splits)

lemma report_hang_slot:
  "hang_in_slot w (reportHang v stack s) \<longleftrightarrow> (if isDev s then hang_in_slot w s else v = w)"
  "windows (reportHang v stack s) w = (if v = w then (windows s w)\<lparr>captures := captures (windows s w) - 1,
     unresponsiveBreadcrumbWritten := True\<rparr> else windows s w)"
proof -
  obtain p where "payload_kind p = ''unresponsive''" "slot (reportHang v stack s) = slot (persistBreadcrumb v p s)"
    by (rule that [of "\<lparr>payload_kind = ''unresponsive'', payload_context = mergeDiagnosticContext (windows s v)
          (case stack of Some u \<Rightarrow> if js_truthy u then [(''stack'', u)] else [] | None \<Rightarrow> [])\<rparr>"])
      (simp_all add: reportHang_def maybePromptReload_def on_window_def Let_def)
  then show "hang_in_slot w (reportHang v stack s) \<longleftrightarrow> (if isDev s then hang_in_slot w s else v = w)"
    using written_hang [of w v p s] hang_in_slot_same [of "reportHang v stack s" "persistBreadcrumb v p s" w] by simp
qed (auto simp: reportHang_def maybePromptReload_def on_window_def persistBreadcrumb_def Let_def)

lemma responsive_slot:
  assumes "hang_flagged w s"
  shows "hang_in_slot w (on_responsive v s) \<longleftrightarrow> hang_in_slot w s \<and> v \<noteq> w"
proof (cases "hang_in_slot w s")
  case True
  with assms have "unresponsiveBreadcrumbWritten (windows s w)" "\<not> isDev s" by (auto simp: hang_flagged_def)
  with True show ?thesis
    by (auto simp: failure_defs Let_def hang_in_slot_def clearFreezeBreadcrumb_def str_field_def json_field_def is_object_def
        split: option.splits stored.splits json.splits)
next
  case False
  then show ?thesis using step_shrinks [of "Responsive v" s] slot_shrinks_hang by auto
qed

lemma drop_renderer_same [simp]:
  "slot (drop_renderer w s) = slot s" "windows (drop_renderer w s) = windows s" "isDev (drop_renderer w s) = isDev s"
  "hang_in_slot v (drop_renderer w s) = hang_in_slot v s"
  by (simp_all add: drop_renderer_def hang_in_slot_def)

lemma process_gone_windows [simp]: "windows (on_process_gone v d s) = windows s"
  by (simp add: on_process_gone_def persistBreadcrumb_def maybePromptReload_def Let_def)

lemma hang_flagged_step:
  assumes "hang_flagged w s" "failure_enabled s e"
  shows "hang_flagged w (failure_step s e)"
proof (cases e)
  case (StackRead v stack)
  with assms(1) show ?thesis by (auto simp: hang_flagged_def report_hang_slot dev_kept [of s e, unfolded StackRead, simplified])
next
  case (Responsive v)
  have "unresponsiveBreadcrumbWritten (windows (on_responsive v s) w) = unresponsiveBreadcrumbWritten (windows s w)" if "v \<noteq> w"
    using that by (simp add: failure_defs Let_def)
  with assms(1) Responsive dev_kept [of s e] show ?thesis by (auto simp: hang_flagged_def responsive_slot)
next
  case (ProcessGone v d)
  with assms(1) crash_not_hang [of w v d "drop_renderer v s"] flag_kept [of e s w] dev_kept [of s e] show ?thesis
    by (simp add: hang_flagged_def)
qed (use assms(1) step_shrinks [of e s] slot_shrinks_hang [of s "failure_step s e" w] flag_kept [of e s w] dev_kept [of s e] in
    \<open>auto simp: hang_flagged_def\<close>)

lemma hang_quiet_step:
  assumes "quiet w s" "failure_enabled s e" "e \<noteq> Unresponsive w"
  shows "quiet w (failure_step s e)"
proof (cases e)
  case (StackRead v stack)
  with assms show ?thesis by (auto simp: quiet_def report_hang_slot)
next
  case (ProcessGone v d)
  with assms(1) crash_not_hang [of w v d "drop_renderer v s"] show ?thesis
    by (auto simp: quiet_def)
qed (use assms step_shrinks [of e s] slot_shrinks_hang [of s "failure_step s e" w] in
    \<open>auto simp: quiet_def failure_defs Let_def split: option.splits prod.splits json.splits\<close>)

interpretation hang: invariant_machine "\<lambda>s. failure_start s \<and> \<not> hang_in_slot w s" failure_step failure_enabled "hang_flagged w" for w
proof
  show "hang_flagged w s" if "failure_start s \<and> \<not> hang_in_slot w s" for s
    using that by (simp add: hang_flagged_def)
qed (rule hang_flagged_step)

lemma responsive_quiet:
  assumes "hang_flagged w s" "captures (windows s w) = 0"
  shows "quiet w (on_responsive w s)"
  using assms responsive_slot [OF assms(1), of w] by (simp add: quiet_def) (simp add: failure_defs Let_def)

lemma hang_quiet_run:
  "quiet w s \<Longrightarrow> run_ok failure_step failure_enabled s es \<Longrightarrow> Unresponsive w \<notin> set es \<Longrightarrow> quiet w (foldl failure_step s es)"
  by (induction es arbitrary: s) (auto intro: hang_quiet_step)

text \<open>A window that came back leaves no hang behind: if the last session left none of its owner id and
  no stack of it was being read when it came back, then, until Electron reports it unresponsive again,
  the slot never holds a hang of that window, whatever the other windows do.\<close>

theorem returned_window_leaves_no_hang:
  assumes "reachable (\<lambda>s. failure_start s \<and> \<not> hang_in_slot w s) failure_step failure_enabled s"
    and "captures (windows s w) = 0"
    and "run_ok failure_step failure_enabled (failure_step s (Responsive w)) es"
    and "Unresponsive w \<notin> set es"
  shows "\<not> hang_in_slot w (foldl failure_step (failure_step s (Responsive w)) es)"
proof -
  have "quiet w (failure_step s (Responsive w))"
    using responsive_quiet [OF hang.inv_reachable [OF assms(1)] assms(2)] by simp
  from hang_quiet_run [OF this assms(3,4)] show ?thesis by (simp add: quiet_def)
qed

theorem returned_window_leaves_no_hang_witness:
  "let s = foldl failure_step (failure_init False ''1.0'' 100 None) [Unresponsive ''main:1'', PromptDelayOver ''main:1'', StackRead ''main:1'' None]
   in hang_in_slot ''main:1'' s \<and> \<not> hang_in_slot ''main:1'' (foldl failure_step (failure_step s (Responsive ''main:1''))
        [Unresponsive ''issue:2'', PromptDelayOver ''issue:2'', StackRead ''issue:2'' None])"
proof -
  let ?init = "failure_init False ''1.0'' 100 None"
  let ?before = "[Unresponsive ''main:1'', PromptDelayOver ''main:1'', StackRead ''main:1'' None]"
  let ?after = "[Unresponsive ''issue:2'', PromptDelayOver ''issue:2'', StackRead ''issue:2'' None]"
  have r: "reachable (\<lambda>s. failure_start s \<and> \<not> hang_in_slot ''main:1'' s) failure_step failure_enabled (foldl failure_step ?init ?before)"
  proof (rule reachable_run)
    have "\<not> hang_in_slot ''main:1'' ?init" by code_simp
    then show "reachable (\<lambda>s. failure_start s \<and> \<not> hang_in_slot ''main:1'' s) failure_step failure_enabled ?init"
      by (intro reachable.init conjI) (auto simp: failure_start_def)
    show "run_ok failure_step failure_enabled ?init ?before" by code_simp
  qed
  have c: "captures (windows (foldl failure_step ?init ?before) ''main:1'') = 0" by code_simp
  have ok: "run_ok failure_step failure_enabled (failure_step (foldl failure_step ?init ?before) (Responsive ''main:1'')) ?after" by code_simp
  have "hang_in_slot ''main:1'' (foldl failure_step ?init ?before)" by code_simp
  with returned_window_leaves_no_hang [OF r c ok] show ?thesis unfolding Let_def by simp
qed

text \<open>Without that condition it can: when the window comes back while its stack is still being read,
  \<open>reportHang\<close> writes the breadcrumb after \<open>responsive\<close> has run, and the next boot reports a hang that
  never returned.\<close>

theorem late_stack_reports_returned_hang:
  "let s = foldl failure_step (failure_init False ''1.0'' 100 None)
         [Unresponsive ''main:1'', PromptDelayOver ''main:1'', Responsive ''main:1'', StackRead ''main:1'' None, RendererBoot ''main:1'']
   in map fst (captured s) = [''client_unresponsive'']
      \<and> map_of (snd (hd (captured s))) ''recovered'' = Some (JBool False)"
  by code_simp

text \<open>A crash of a window that had hung is deleted by its next \<open>responsive\<close>: the flag of the hang is
  still set when the crash overwrites the slot under the same owner id, so the crash is never reported.\<close>

theorem crash_after_hang_is_cleared:
  "let s = foldl failure_step (failure_init False ''1.0'' 100 None)
         [Unresponsive ''main:1'', PromptDelayOver ''main:1'', StackRead ''main:1'' None, ProcessGone ''main:1'' main_crash,
          PromptAnswered 0 True];
       s' = failure_step (failure_step s (Responsive ''main:1'')) (RendererBoot ''main:1'')
   in (\<exists>b. slot s = Some (Parsed b) \<and> str_field b ''kind'' = Some ''render-process-gone'') \<and> captured s' = [] \<and> slot s' = None"
proof -
  let ?s = "foldl failure_step (failure_init False ''1.0'' 100 None)
         [Unresponsive ''main:1'', PromptDelayOver ''main:1'', StackRead ''main:1'' None, ProcessGone ''main:1'' main_crash,
          PromptAnswered 0 True]"
  let ?b = "freeze_breadcrumb ''main:1'' ''render-process-gone'' (JObj [(''details'', main_crash)]) 100 ''1.0''"
  have "slot ?s = Some (Parsed ?b)" by code_simp
  moreover have "str_field ?b ''kind'' = Some ''render-process-gone''" by code_simp
  moreover have "captured (failure_step (failure_step ?s (Responsive ''main:1'')) (RendererBoot ''main:1'')) = []" by code_simp
  moreover have "slot (failure_step (failure_step ?s (Responsive ''main:1'')) (RendererBoot ''main:1'')) = None" by code_simp
  ultimately show ?thesis unfolding Let_def by blast
qed

end
