(* ===== verification/Draft_Uploads.thy ===== *)
theory Draft_Uploads
  imports JS_Object
begin

text \<open>
  The upload records of a composer draft (\<open>packages/core/drafts/draft-upload.ts\<close>), the link a
  finished upload leaves in a body and the test that finds it there
  (\<open>packages/core/types/attachment-url.ts\<close>, \<open>packages/core/hooks/use-file-upload.ts\<close>,
  \<open>packages/views/editor/use-coordinated-uploads.ts\<close>). Records and attachments are the objects the
  code passes around; a property with the value \<open>undefined\<close> is left out, as storing it does.
\<close>

section \<open>Upload records\<close>

definition upload_id :: "json \<Rightarrow> jstr option" where
  "upload_id u = str_field u ''clientUploadId''"

definition upload_status :: "json \<Rightarrow> jstr option" where
  "upload_status u = str_field u ''status''"

definition opt_entry :: "jstr \<Rightarrow> json option \<Rightarrow> json jsobj" where
  "opt_entry name v = (case v of Some x \<Rightarrow> [(name, x)] | None \<Rightarrow> [])"

definition uploadedAttachments :: "json list \<Rightarrow> json list" where
  "uploadedAttachments uploads =
     List.map_filter (\<lambda>u. if upload_status u = Some ''uploaded'' then json_field u ''attachment'' else None) uploads"

definition hasUploadingDraft :: "json list \<Rightarrow> bool" where
  "hasUploadingDraft uploads = list_ex (\<lambda>u. upload_status u = Some ''uploading'') uploads"

definition js_or :: "json option \<Rightarrow> json option \<Rightarrow> json option" where
  "js_or a b = (case a of Some v \<Rightarrow> if js_truthy v then Some v else b | None \<Rightarrow> b)"

definition attachmentToDraftUpload :: "json \<Rightarrow> json jsobj" where
  "attachmentToDraftUpload att =
     opt_entry ''clientUploadId'' (js_or (json_field att ''id'') (json_field att ''url''))
     @ [(''status'', JStr ''uploaded'')]
     @ opt_entry ''filename'' (json_field att ''filename'')
     @ opt_entry ''size'' (json_field att ''size_bytes'')
     @ opt_entry ''contentType'' (js_or (json_field att ''content_type'') None)
     @ [(''attachment'', JObj (obj_set ''download_url'' (JStr []) (json_entries att)))]"

definition looksLikeAttachment :: "json \<Rightarrow> bool" where
  "looksLikeAttachment v = (is_object v \<and> str_field v ''id'' \<noteq> None \<and> str_field v ''filename'' \<noteq> None \<and> str_field v ''url'' \<noteq> None)"

definition isDraftUploadShape :: "json \<Rightarrow> bool" where
  "isDraftUploadShape v = (is_object v \<and> upload_id v \<noteq> None \<and> upload_status v \<noteq> None)"

definition normalize_item :: "json \<Rightarrow> json option" where
  "normalize_item item =
     (if isDraftUploadShape item then
        (if upload_status item = Some ''uploading'' then None
         else if upload_status item = Some ''uploaded'' then
           (case json_field item ''attachment'' of
              Some att \<Rightarrow> if looksLikeAttachment att then Some item else None
            | None \<Rightarrow> None)
         else Some item)
      else if looksLikeAttachment item then Some (JObj (attachmentToDraftUpload item))
      else None)"

definition normalizeStoredUploads :: "json option \<Rightarrow> json list" where
  "normalizeStoredUploads raw = (case raw of Some (JArr items) \<Rightarrow> List.map_filter normalize_item items | _ \<Rightarrow> [])"

section \<open>The list of a draft\<close>

text \<open>A record of the list carries the id.\<close>

definition tracks :: "json list \<Rightarrow> jstr \<Rightarrow> bool" where
  "tracks uploads i = list_ex (\<lambda>u. upload_id u = Some i) uploads"

definition settled_upload :: "jstr \<Rightarrow> json \<Rightarrow> json" where
  "settled_upload i att = JObj (obj_set ''clientUploadId'' (JStr i) (attachmentToDraftUpload att))"

definition settle_in :: "jstr \<Rightarrow> json \<Rightarrow> json list \<Rightarrow> json list" where
  "settle_in i att uploads = map (\<lambda>u. if upload_id u = Some i then settled_upload i att else u) uploads"

definition failed_upload :: "jstr \<Rightarrow> json option \<Rightarrow> json \<Rightarrow> json" where
  "failed_upload i error target =
     JObj ([(''clientUploadId'', JStr i), (''status'', JStr ''failed'')]
       @ opt_entry ''filename'' (json_field target ''filename'') @ opt_entry ''size'' (json_field target ''size'')
       @ opt_entry ''contentType'' (json_field target ''contentType'') @ opt_entry ''error'' error)"

definition fail_in :: "jstr \<Rightarrow> json option \<Rightarrow> json list \<Rightarrow> json list" where
  "fail_in i error uploads =
     (case find (\<lambda>u. upload_id u = Some i) uploads of
        None \<Rightarrow> uploads
      | Some target \<Rightarrow> map (\<lambda>u. if upload_id u = Some i then failed_upload i error target else u) uploads)"

definition remove_in :: "jstr \<Rightarrow> json list \<Rightarrow> json list" where
  "remove_in i uploads = filter (\<lambda>u. upload_id u \<noteq> Some i) uploads"

definition add_in :: "json \<Rightarrow> json list \<Rightarrow> json list" where
  "add_in u uploads = (if list_ex (\<lambda>v. upload_id v = upload_id u) uploads then uploads else uploads @ [u])"

section \<open>Links in a body\<close>

fun str_includes :: "jstr \<Rightarrow> jstr \<Rightarrow> bool" where
  "str_includes [] p = (p = [])"
| "str_includes (c # s) p = (str_starts (c # s) p \<or> str_includes s p)"

definition attachmentDownloadPath :: "jstr \<Rightarrow> jstr" where
  "attachmentDownloadPath i = ''/api/attachments/'' @ i @ ''/download''"

definition stripQueryAndFragment :: "jstr \<Rightarrow> jstr" where
  "stripQueryAndFragment url = takeWhile (\<lambda>c. c \<noteq> CHR ''?'' \<and> c \<noteq> CHR ''#'') url"

definition contentReferencesURL :: "jstr \<Rightarrow> jstr option \<Rightarrow> bool" where
  "contentReferencesURL content url =
     (case url of
        None \<Rightarrow> False
      | Some u \<Rightarrow> u \<noteq> [] \<and> (str_includes content u \<or>
          (stripQueryAndFragment u \<noteq> [] \<and> str_includes content (stripQueryAndFragment u))))"

definition att_str :: "json \<Rightarrow> jstr \<Rightarrow> jstr" where
  "att_str att name = (case str_field att name of Some s \<Rightarrow> s | None \<Rightarrow> [])"

definition contentReferencesAttachment :: "jstr \<Rightarrow> json \<Rightarrow> bool" where
  "contentReferencesAttachment content att =
     (content \<noteq> [] \<and>
      (str_includes content (attachmentDownloadPath (att_str att ''id''))
       \<or> contentReferencesURL content (str_field att ''url'')
       \<or> contentReferencesURL content (str_field att ''download_url'')
       \<or> contentReferencesURL content (str_field att ''markdown_url'')))"

definition pickMarkdownLink :: "json \<Rightarrow> jstr" where
  "pickMarkdownLink att =
     (if att_str att ''markdown_url'' \<noteq> [] then att_str att ''markdown_url''
      else if att_str att ''id'' \<noteq> [] then attachmentDownloadPath (att_str att ''id'')
      else att_str att ''url'')"

definition attachmentMarkdown :: "json \<Rightarrow> jstr" where
  "attachmentMarkdown att =
     (if str_starts (att_str att ''content_type'') ''image/'' then ''!['' else ''['')
     @ att_str att ''filename'' @ '']('' @ pickMarkdownLink att @ '')''"

definition newline :: jstr where
  "newline = [char_of (10 :: nat)]"

definition appendMarkdown :: "jstr \<Rightarrow> jstr \<Rightarrow> jstr" where
  "appendMarkdown existing markdown =
     (if str_trim existing \<noteq> [] then str_trim_end existing @ newline @ newline @ markdown else markdown)"

section \<open>Facts\<close>

named_theorems upload_simps

lemma str_includes_prefix: "prefix p s \<Longrightarrow> str_includes s p"
  by (cases s) (auto simp: str_starts_def)

lemma str_includes_append: "str_includes (a @ p @ b) p"
proof (induction a)
  case Nil
  show ?case by (simp add: str_includes_prefix)
next
  case (Cons c a)
  then show ?case by (cases "a @ p @ b") auto
qed

lemma str_includes_later: "str_includes s p \<Longrightarrow> str_includes (a @ s) p"
  by (induction a) auto

lemma upload_id_settled [upload_simps]: "upload_id (settled_upload i att) = Some i"
proof -
  have "map_of (obj_set k v ob) k = Some v" for k v and ob :: "json jsobj"
    using obj_get_set [of k v ob k] by (simp add: obj_get_def)
  then show ?thesis by (simp add: settled_upload_def upload_id_def str_field_def json_field_def)
qed

lemma upload_id_failed [upload_simps]: "upload_id (failed_upload i e u) = Some i"
  by (simp add: failed_upload_def upload_id_def str_field_def json_field_def)

lemma tracks_ids: "tracks us j = (Some j \<in> set (map upload_id us))"
  by (auto simp: tracks_def list_ex_iff image_iff eq_commute)

lemma ids_settle: "map upload_id (settle_in i att us) = map upload_id us"
  by (simp add: settle_in_def upload_simps)

lemma ids_fail: "map upload_id (fail_in i e us) = map upload_id us"
  by (simp add: fail_in_def upload_simps split: option.split)

lemma tracks_settle [upload_simps]: "tracks (settle_in i att us) j = tracks us j"
  by (simp only: tracks_ids ids_settle)

lemma tracks_fail [upload_simps]: "tracks (fail_in i e us) j = tracks us j"
  by (simp only: tracks_ids ids_fail)

lemma tracks_remove [upload_simps]: "tracks (remove_in i us) j \<longleftrightarrow> tracks us j \<and> j \<noteq> i"
  by (auto simp: tracks_def remove_in_def list_ex_iff)

lemma tracks_add [upload_simps]: "tracks (add_in u us) j \<longleftrightarrow> tracks us j \<or> upload_id u = Some j"
  by (auto simp: tracks_def add_in_def list_ex_iff)

lemma settle_untracked: "\<not> tracks us i \<Longrightarrow> settle_in i att us = us"
  by (auto simp: tracks_def settle_in_def list_ex_iff intro: map_idI)

lemma remove_untracked: "\<not> tracks us i \<Longrightarrow> remove_in i us = us"
  by (auto simp: tracks_def remove_in_def list_ex_iff filter_id_conv)

lemma set_settle: "set (settle_in i att us) \<subseteq> insert (settled_upload i att) (set us)"
  by (auto simp: settle_in_def)

text \<open>The link that is written is one that is found.\<close>

lemma markdown_references:
  assumes "att_str att ''url'' \<noteq> [] \<or> att_str att ''id'' \<noteq> [] \<or> att_str att ''markdown_url'' \<noteq> []"
  shows "contentReferencesAttachment (a @ attachmentMarkdown att) att"
proof -
  have url: "contentReferencesURL c (str_field att n)" if "att_str att n \<noteq> []" "str_includes c (att_str att n)" for c n
    using that by (auto simp: contentReferencesURL_def att_str_def split: option.splits)
  have inc: "str_includes (a @ attachmentMarkdown att) (pickMarkdownLink att)"
    unfolding attachmentMarkdown_def using str_includes_append by (metis append.assoc)
  have "a @ attachmentMarkdown att \<noteq> []" by (simp add: attachmentMarkdown_def)
  then show ?thesis
    unfolding contentReferencesAttachment_def using assms inc url
    by (auto simp: pickMarkdownLink_def split: if_splits)
qed

lemma appended_references:
  assumes "att_str att ''url'' \<noteq> [] \<or> att_str att ''id'' \<noteq> [] \<or> att_str att ''markdown_url'' \<noteq> []"
  shows "contentReferencesAttachment (appendMarkdown s (attachmentMarkdown att)) att"
  using markdown_references [OF assms, of "[]"] markdown_references [OF assms, of "str_trim_end s @ newline @ newline"]
  by (simp add: appendMarkdown_def)

section \<open>The normal form\<close>

lemma field_opt: "json_field (JObj (opt_entry n v @ rest)) m = (if m = n \<and> v \<noteq> None then v else json_field (JObj rest) m)"
  by (auto simp: json_field_def opt_entry_def split: option.split)

lemma field_cons: "json_field (JObj ((n, v) # rest)) m = (if m = n then Some v else json_field (JObj rest) m)"
  by (simp add: json_field_def)

lemma wrapped_attachment:
  assumes "looksLikeAttachment att"
  shows "normalize_item (JObj (attachmentToDraftUpload att)) = Some (JObj (attachmentToDraftUpload att))"
    and "upload_status (JObj (attachmentToDraftUpload att)) = Some ''uploaded''"
    and "isDraftUploadShape (JObj (attachmentToDraftUpload att))"
proof -
  from assms obtain i u f where att: "str_field att ''id'' = Some i" "str_field att ''url'' = Some u" "str_field att ''filename'' = Some f"
    unfolding looksLikeAttachment_def by blast
  then have raw: "json_field att ''id'' = Some (JStr i)" "json_field att ''url'' = Some (JStr u)"
    by (simp_all add: str_field_def split: option.splits json.splits)
  let ?key = "if i = [] then u else i"
  have key: "js_or (json_field att ''id'') (json_field att ''url'') = Some (JStr ?key)"
    by (simp add: js_or_def raw js_truthy_def)
  let ?inner = "JObj (obj_set ''download_url'' (JStr []) (json_entries att))"
  have inner_field: "json_field ?inner n = (if n = ''download_url'' then Some (JStr []) else json_field att n)" for n
    using obj_get_set [of "''download_url''" "JStr []" "json_entries att" n]
    by (cases att) (auto simp: json_field_def obj_get_def json_entries_def)
  then have inner: "looksLikeAttachment ?inner"
    using att by (simp add: looksLikeAttachment_def is_object_def str_field_def)
  have fields: "json_field (JObj (attachmentToDraftUpload att)) ''clientUploadId'' = Some (JStr ?key)"
    "json_field (JObj (attachmentToDraftUpload att)) ''status'' = Some (JStr ''uploaded'')"
    "json_field (JObj (attachmentToDraftUpload att)) ''attachment'' = Some ?inner"
    by (simp_all add: attachmentToDraftUpload_def key field_opt field_cons)
  show "isDraftUploadShape (JObj (attachmentToDraftUpload att))"
    by (simp add: isDraftUploadShape_def is_object_def upload_id_def upload_status_def str_field_def fields)
  show "upload_status (JObj (attachmentToDraftUpload att)) = Some ''uploaded''"
    by (simp add: upload_status_def str_field_def fields)
  then show "normalize_item (JObj (attachmentToDraftUpload att)) = Some (JObj (attachmentToDraftUpload att))"
    using inner by (simp add: normalize_item_def isDraftUploadShape_def is_object_def upload_id_def upload_status_def str_field_def fields)
qed

lemma normalize_item_again:
  "normalize_item x = Some y \<Longrightarrow> normalize_item y = Some y \<and> upload_status y \<noteq> Some ''uploading''"
  using wrapped_attachment [of x] by (auto simp: normalize_item_def [of x] split: if_splits option.splits)
    (auto simp: normalize_item_def)

lemma normalized_items: "u \<in> set (normalizeStoredUploads raw) \<Longrightarrow> normalize_item u = Some u \<and> upload_status u \<noteq> Some ''uploading''"
  by (auto simp: normalizeStoredUploads_def map_filter_def split: option.splits json.splits dest: normalize_item_again)

lemma not_uploading_normalized: "\<not> hasUploadingDraft (normalizeStoredUploads raw)"
  using normalized_items [of _ raw] by (auto simp: hasUploadingDraft_def list_ex_iff)

lemma map_filter_same: "(\<And>x. x \<in> set xs \<Longrightarrow> f x = Some x) \<Longrightarrow> List.map_filter f xs = xs"
  by (induction xs) (auto simp: map_filter_simps)

text \<open>Reading stored uploads brings them into a normal form: whatever was stored, by this or an
  older build, reading what was read once more changes nothing, and no record in it claims to be in
  flight.\<close>

theorem stored_uploads_normal_form:
  "normalizeStoredUploads (Some (JArr (normalizeStoredUploads raw))) = normalizeStoredUploads raw
   \<and> \<not> hasUploadingDraft (normalizeStoredUploads raw)"
proof -
  have "List.map_filter normalize_item (normalizeStoredUploads raw) = normalizeStoredUploads raw"
    by (rule map_filter_same) (use normalized_items in blast)
  then show ?thesis using not_uploading_normalized by (simp add: normalizeStoredUploads_def [of "Some (JArr _)"])
qed

end
