(* ===== verification/Composer_Drafts.thy ===== *)
theory Composer_Drafts
  imports Draft_Uploads
begin

text \<open>
  The draft stores of the composers: comments and replies
  (\<open>packages/core/issues/stores/comment-draft-store.ts\<close>) and the create dialog
  (\<open>packages/core/issues/stores/draft-store.ts\<close>), with their persistence per workspace
  (\<open>packages/core/platform/workspace-storage.ts\<close>; \<open>persist\<close> of zustand writes the state after every
  change and, when it hydrates, merges what it finds into the current state, which the default merge
  leaves as it is when nothing is stored).
\<close>

section \<open>Comment drafts\<close>

record comment_draft =
  draft_content :: jstr
  draft_uploads :: "json list"
  draft_updatedAt :: int

text \<open>A stored draft: its \<open>attachments\<close> may have been written by an older build.\<close>

record stored_draft =
  stored_content :: jstr
  stored_attachments :: "json option"
  stored_updatedAt :: int

type_synonym comment_drafts = "comment_draft jsobj"

definition TTL_MS :: int where
  "TTL_MS = 30 * 24 * 60 * 60 * 1000"

definition isMeaningful :: "jstr \<Rightarrow> json list \<Rightarrow> bool" where
  "isMeaningful content uploads = (str_trim content \<noteq> [] \<or> uploads \<noteq> [])"

text \<open>\<open>same_list\<close>: the list passed is the one the draft holds, by reference.\<close>

definition writeDraft :: "int \<Rightarrow> bool \<Rightarrow> comment_drafts \<Rightarrow> jstr \<Rightarrow> jstr \<Rightarrow> json list \<Rightarrow> comment_drafts" where
  "writeDraft now_ms same_list drafts key content uploads =
     (if \<not> isMeaningful content uploads then
        (if key \<notin> set (obj_keys drafts) then drafts else obj_delete key drafts)
      else
        (case obj_get drafts key of
           Some existing \<Rightarrow>
             if draft_content existing = content \<and> same_list then drafts
             else obj_set key \<lparr>draft_content = content, draft_uploads = uploads, draft_updatedAt = now_ms\<rparr> drafts
         | None \<Rightarrow> obj_set key \<lparr>draft_content = content, draft_uploads = uploads, draft_updatedAt = now_ms\<rparr> drafts))"

definition uploadsOf :: "comment_drafts \<Rightarrow> jstr \<Rightarrow> json list" where
  "uploadsOf drafts key = (case obj_get drafts key of Some d \<Rightarrow> draft_uploads d | None \<Rightarrow> [])"

definition contentOf :: "comment_drafts \<Rightarrow> jstr \<Rightarrow> jstr" where
  "contentOf drafts key = (case obj_get drafts key of Some d \<Rightarrow> draft_content d | None \<Rightarrow> [])"

definition pruneStaleDrafts :: "int \<Rightarrow> stored_draft jsobj \<Rightarrow> comment_drafts" where
  "pruneStaleDrafts now_ms drafts =
     fold (\<lambda>(k, v) out.
       (let uploads = normalizeStoredUploads (stored_attachments v)
        in if stored_updatedAt v \<ge> now_ms - TTL_MS \<and> isMeaningful (stored_content v) uploads
           then obj_set k \<lparr>draft_content = stored_content v, draft_uploads = uploads, draft_updatedAt = stored_updatedAt v\<rparr> out
           else out)) drafts []"

definition comment_setDraft :: "int \<Rightarrow> jstr \<Rightarrow> jstr \<Rightarrow> comment_drafts \<Rightarrow> comment_drafts" where
  "comment_setDraft now_ms key content drafts = writeDraft now_ms True drafts key content (uploadsOf drafts key)"

definition appendToDraftContent :: "int \<Rightarrow> jstr \<Rightarrow> jstr \<Rightarrow> comment_drafts \<Rightarrow> comment_drafts" where
  "appendToDraftContent now_ms key markdown drafts =
     writeDraft now_ms True drafts key (appendMarkdown (contentOf drafts key) markdown) (uploadsOf drafts key)"

definition setAttachments :: "int \<Rightarrow> jstr \<Rightarrow> json list \<Rightarrow> comment_drafts \<Rightarrow> comment_drafts" where
  "setAttachments now_ms key attachments drafts =
     writeDraft now_ms False drafts key (contentOf drafts key) (map (\<lambda>a. JObj (attachmentToDraftUpload a)) attachments)"

definition comment_addUpload :: "int \<Rightarrow> jstr \<Rightarrow> json \<Rightarrow> comment_drafts \<Rightarrow> comment_drafts" where
  "comment_addUpload now_ms key u drafts =
     (if list_ex (\<lambda>v. upload_id v = upload_id u) (uploadsOf drafts key) then drafts
      else writeDraft now_ms False drafts key (contentOf drafts key) (uploadsOf drafts key @ [u]))"

definition comment_settleUpload :: "int \<Rightarrow> jstr \<Rightarrow> jstr \<Rightarrow> json \<Rightarrow> comment_drafts \<Rightarrow> comment_drafts" where
  "comment_settleUpload now_ms key i att drafts =
     (if \<not> tracks (uploadsOf drafts key) i then drafts
      else writeDraft now_ms False drafts key (contentOf drafts key) (settle_in i att (uploadsOf drafts key)))"

definition comment_failUpload :: "int \<Rightarrow> jstr \<Rightarrow> jstr \<Rightarrow> json option \<Rightarrow> comment_drafts \<Rightarrow> comment_drafts" where
  "comment_failUpload now_ms key i error drafts =
     (if \<not> tracks (uploadsOf drafts key) i then drafts
      else writeDraft now_ms False drafts key (contentOf drafts key) (fail_in i error (uploadsOf drafts key)))"

definition comment_removeUpload :: "int \<Rightarrow> jstr \<Rightarrow> jstr \<Rightarrow> comment_drafts \<Rightarrow> comment_drafts" where
  "comment_removeUpload now_ms key i drafts =
     (if \<not> tracks (uploadsOf drafts key) i then drafts
      else writeDraft now_ms False drafts key (contentOf drafts key) (remove_in i (uploadsOf drafts key)))"

definition comment_clearDraft :: "jstr \<Rightarrow> comment_drafts \<Rightarrow> comment_drafts" where
  "comment_clearDraft key drafts = (if key \<notin> set (obj_keys drafts) then drafts else obj_delete key drafts)"

section \<open>The create dialog\<close>

text \<open>The slots of the draft are objects, patched by spreads.\<close>

record issue_create_draft =
  ic_shared :: "json jsobj"
  ic_manual :: "json jsobj"
  ic_agent :: "json jsobj"
  ic_agent_mode :: bool

record issue_draft_store =
  ic_draft :: issue_create_draft
  ic_lastAssigneeType :: "json option"
  ic_lastAssigneeId :: "json option"

definition emptyShared :: "json jsobj" where
  "emptyShared = [(''priority'', JStr ''none''), (''dueDate'', JNull), (''attachments'', JArr [])]"

definition emptyManual :: "json jsobj" where
  "emptyManual = [(''title'', JStr []), (''description'', JStr []), (''status'', JStr ''todo''), (''startDate'', JNull),
     (''labelIds'', JArr []), (''propertyValues'', JObj [])]"

definition emptyAgent :: "json jsobj" where
  "emptyAgent = [(''prompt'', JStr [])]"

definition isLegacyFlatDraft :: "json \<Rightarrow> bool" where
  "isLegacyFlatDraft d =
     (json_field d ''manual'' = None \<and> json_field d ''shared'' = None
      \<and> (json_field d ''title'' \<noteq> None \<or> json_field d ''status'' \<noteq> None \<or> json_field d ''labelIds'' \<noteq> None
         \<or> json_field d ''description'' \<noteq> None))"

definition js_nullish :: "json option \<Rightarrow> json \<Rightarrow> json" where
  "js_nullish v default_value = (case v of None \<Rightarrow> default_value | Some JNull \<Rightarrow> default_value | Some x \<Rightarrow> x)"

definition migrateDraft :: "json option \<Rightarrow> issue_create_draft" where
  "migrateDraft raw =
     (let d = (case raw of Some v \<Rightarrow> if is_object v then v else JObj [] | None \<Rightarrow> JObj [])
      in if isLegacyFlatDraft d then
        \<lparr>ic_shared = obj_assign emptyShared (opt_entry ''projectId'' (json_field d ''projectId'')
            @ [(''priority'', js_nullish (json_field d ''priority'') (JStr ''none'')),
               (''dueDate'', js_nullish (json_field d ''dueDate'') JNull),
               (''attachments'', JArr (normalizeStoredUploads (json_field d ''attachments'')))]),
         ic_manual = obj_assign emptyManual
            ([(''title'', js_nullish (json_field d ''title'') (JStr [])),
              (''description'', js_nullish (json_field d ''description'') (JStr [])),
              (''status'', js_nullish (json_field d ''status'') (JStr ''todo'')),
              (''startDate'', js_nullish (json_field d ''startDate'') JNull)]
             @ opt_entry ''assigneeType'' (json_field d ''assigneeType'')
             @ opt_entry ''assigneeId'' (json_field d ''assigneeId'')
             @ [(''labelIds'', (case json_field d ''labelIds'' of Some (JArr xs) \<Rightarrow> JArr xs | _ \<Rightarrow> JArr [])),
                (''propertyValues'', (case json_field d ''propertyValues'' of
                    Some v \<Rightarrow> if is_object v then v else JObj [] | None \<Rightarrow> JObj []))]),
         ic_agent = emptyAgent,
         ic_agent_mode = False\<rparr>
      else
        (let sharedRaw = js_nullish (json_field d ''shared'') (JObj [])
         in \<lparr>ic_shared = obj_assign (obj_assign emptyShared (json_entries sharedRaw))
               [(''attachments'', JArr (normalizeStoredUploads (json_field sharedRaw ''attachments'')))],
             ic_manual = obj_assign emptyManual (json_entries (js_nullish (json_field d ''manual'') (JObj []))),
             ic_agent = obj_assign emptyAgent (json_entries (js_nullish (json_field d ''agent'') (JObj []))),
             ic_agent_mode = (json_field d ''activeMode'' = Some (JStr ''agent''))\<rparr>))"

definition draft_json :: "issue_create_draft \<Rightarrow> json" where
  "draft_json d = JObj [(''shared'', JObj (ic_shared d)), (''manual'', JObj (ic_manual d)), (''agent'', JObj (ic_agent d)),
     (''activeMode'', JStr (if ic_agent_mode d then ''agent'' else ''manual''))]"

definition setShared :: "json jsobj \<Rightarrow> issue_draft_store \<Rightarrow> issue_draft_store" where
  "setShared patch s = s\<lparr>ic_draft := (ic_draft s)\<lparr>ic_shared := obj_assign (ic_shared (ic_draft s)) patch\<rparr>\<rparr>"

definition setManual :: "json jsobj \<Rightarrow> issue_draft_store \<Rightarrow> issue_draft_store" where
  "setManual patch s = s\<lparr>ic_draft := (ic_draft s)\<lparr>ic_manual := obj_assign (ic_manual (ic_draft s)) patch\<rparr>\<rparr>"

definition setAgent :: "json jsobj \<Rightarrow> issue_draft_store \<Rightarrow> issue_draft_store" where
  "setAgent patch s = s\<lparr>ic_draft := (ic_draft s)\<lparr>ic_agent := obj_assign (ic_agent (ic_draft s)) patch\<rparr>\<rparr>"

definition setActiveMode :: "bool \<Rightarrow> issue_draft_store \<Rightarrow> issue_draft_store" where
  "setActiveMode agent s = s\<lparr>ic_draft := (ic_draft s)\<lparr>ic_agent_mode := agent\<rparr>\<rparr>"

definition issue_clearDraft :: "issue_draft_store \<Rightarrow> issue_draft_store" where
  "issue_clearDraft s = s\<lparr>ic_draft :=
     \<lparr>ic_shared = emptyShared,
      ic_manual = obj_assign emptyManual (opt_entry ''assigneeType'' (ic_lastAssigneeType s) @ opt_entry ''assigneeId'' (ic_lastAssigneeId s)),
      ic_agent = emptyAgent, ic_agent_mode = ic_agent_mode (ic_draft s)\<rparr>\<rparr>"

definition setLastAssignee :: "json option \<Rightarrow> json option \<Rightarrow> issue_draft_store \<Rightarrow> issue_draft_store" where
  "setLastAssignee ty i s = s\<lparr>ic_lastAssigneeType := ty, ic_lastAssigneeId := i\<rparr>"

definition issue_resetInMemory :: "issue_draft_store \<Rightarrow> issue_draft_store" where
  "issue_resetInMemory s = \<lparr>ic_draft = migrateDraft None, ic_lastAssigneeType = None, ic_lastAssigneeId = None\<rparr>"

definition sharedUploads :: "issue_draft_store \<Rightarrow> json list" where
  "sharedUploads s = (case obj_get (ic_shared (ic_draft s)) ''attachments'' of Some (JArr us) \<Rightarrow> us | _ \<Rightarrow> [])"

definition setSharedUploads :: "json list \<Rightarrow> issue_draft_store \<Rightarrow> issue_draft_store" where
  "setSharedUploads us s = setShared [(''attachments'', JArr us)] s"

text \<open>\<open>Object.keys\<close> throws on \<open>null\<close> and \<open>undefined\<close>, \<open>some\<close> on what is no array.\<close>

definition keys_length :: "json option \<Rightarrow> nat option" where
  "keys_length v = (case v of Some (JObj fs) \<Rightarrow> Some (length fs) | Some (JArr xs) \<Rightarrow> Some (length xs)
     | Some (JStr s) \<Rightarrow> Some (length s) | Some (JNum _) \<Rightarrow> Some 0 | Some (JBool _) \<Rightarrow> Some 0 | _ \<Rightarrow> None)"

definition opt_truthy :: "json option \<Rightarrow> bool" where
  "opt_truthy v = (case v of Some x \<Rightarrow> js_truthy x | None \<Rightarrow> False)"

definition hasDraft :: "issue_draft_store \<Rightarrow> bool option" where
  "hasDraft s =
     (let d = ic_draft s
      in if opt_truthy (obj_get (ic_manual d) ''title'') \<or> opt_truthy (obj_get (ic_manual d) ''description'')
            \<or> opt_truthy (obj_get (ic_agent d) ''prompt'') then Some True
         else (case keys_length (obj_get (ic_manual d) ''propertyValues'') of
                 None \<Rightarrow> None
               | Some n \<Rightarrow>
                   if n > 0 then Some True
                   else (case obj_get (ic_shared d) ''attachments'' of
                           Some (JArr us) \<Rightarrow> Some (list_ex (\<lambda>u. upload_status u \<in> {Some ''uploaded'', Some ''uploading''}) us)
                         | _ \<Rightarrow> None)))"

section \<open>Persistence per workspace\<close>

record stored_issue =
  si_draft :: "json option"
  si_lastAssigneeType :: "json option"
  si_lastAssigneeId :: "json option"

record composer_stores =
  slug :: "jstr option"
  drafts :: comment_drafts
  comment_disk :: "jstr \<Rightarrow> stored_draft jsobj option"
  issue_draft :: issue_draft_store
  issue_disk :: "jstr \<Rightarrow> stored_issue option"

definition stored_of :: "comment_draft \<Rightarrow> stored_draft" where
  "stored_of d = \<lparr>stored_content = draft_content d, stored_attachments = Some (JArr (draft_uploads d)), stored_updatedAt = draft_updatedAt d\<rparr>"

definition stored_drafts :: "comment_drafts \<Rightarrow> stored_draft jsobj" where
  "stored_drafts ds = map (\<lambda>(k, d). (k, stored_of d)) ds"

definition stored_issue_of :: "issue_draft_store \<Rightarrow> stored_issue" where
  "stored_issue_of d = \<lparr>si_draft = Some (draft_json (ic_draft d)), si_lastAssigneeType = ic_lastAssigneeType d,
     si_lastAssigneeId = ic_lastAssigneeId d\<rparr>"

text \<open>\<open>set\<close> of a persisted store: the new state is written under the active workspace, if there is one.\<close>

definition set_drafts :: "(comment_drafts \<Rightarrow> comment_drafts) \<Rightarrow> composer_stores \<Rightarrow> composer_stores" where
  "set_drafts f s =
     (let ds = f (drafts s)
      in s\<lparr>drafts := ds, comment_disk := (case slug s of Some w \<Rightarrow> (comment_disk s)(w \<mapsto> stored_drafts ds) | None \<Rightarrow> comment_disk s)\<rparr>)"

definition set_issue_draft :: "(issue_draft_store \<Rightarrow> issue_draft_store) \<Rightarrow> composer_stores \<Rightarrow> composer_stores" where
  "set_issue_draft f s =
     (let d = f (issue_draft s)
      in s\<lparr>issue_draft := d, issue_disk := (case slug s of Some w \<Rightarrow> (issue_disk s)(w \<mapsto> stored_issue_of d) | None \<Rightarrow> issue_disk s)\<rparr>)"

text \<open>\<open>setCurrentWorkspace\<close>, whose effects on the stores run in a microtask.\<close>

definition setCurrentWorkspace :: "jstr option \<Rightarrow> composer_stores \<Rightarrow> composer_stores" where
  "setCurrentWorkspace w s = s\<lparr>slug := w\<rparr>"

definition rehydrate_comments :: "int \<Rightarrow> composer_stores \<Rightarrow> composer_stores" where
  "rehydrate_comments now_ms s =
     (let found = (case slug s of Some w \<Rightarrow> comment_disk s w | None \<Rightarrow> None);
          merged = (case found of Some ds \<Rightarrow> ds | None \<Rightarrow> stored_drafts (drafts s))
      in s\<lparr>drafts := pruneStaleDrafts now_ms merged\<rparr>)"

text \<open>What is found is spread over the current store, then the draft is migrated.\<close>

definition merge_issue_draft :: "stored_issue option \<Rightarrow> issue_draft_store \<Rightarrow> issue_draft_store" where
  "merge_issue_draft persisted current =
     \<lparr>ic_draft = migrateDraft (case persisted of Some p \<Rightarrow> si_draft p | None \<Rightarrow> None),
      ic_lastAssigneeType = (case persisted of
          Some p \<Rightarrow> (case si_lastAssigneeType p of None \<Rightarrow> ic_lastAssigneeType current | v \<Rightarrow> v) | None \<Rightarrow> ic_lastAssigneeType current),
      ic_lastAssigneeId = (case persisted of
          Some p \<Rightarrow> (case si_lastAssigneeId p of None \<Rightarrow> ic_lastAssigneeId current | v \<Rightarrow> v) | None \<Rightarrow> ic_lastAssigneeId current)\<rparr>"

definition rehydrate_issue_draft :: "composer_stores \<Rightarrow> composer_stores" where
  "rehydrate_issue_draft s =
     s\<lparr>issue_draft := merge_issue_draft (case slug s of Some w \<Rightarrow> issue_disk s w | None \<Rightarrow> None) (issue_draft s)\<rparr>"

definition clearRegisteredWorkspaceDrafts :: "jstr \<Rightarrow> composer_stores \<Rightarrow> composer_stores" where
  "clearRegisteredWorkspaceDrafts w s = s\<lparr>comment_disk := (comment_disk s)(w := None), issue_disk := (issue_disk s)(w := None)\<rparr>"

definition reset_stores :: "composer_stores \<Rightarrow> composer_stores" where
  "reset_stores s = set_issue_draft issue_resetInMemory (set_drafts (\<lambda>_. []) s)"

end
