(* ===== verification/Upload_Engine.thy ===== *)
theory Upload_Engine
  imports Composer_Drafts Machines
begin

text \<open>
  Uploads that outlive the composer that started them: the coordinator
  (\<open>packages/core/drafts/upload-coordinator.ts\<close>), the engine that ties a request to a draft
  (\<open>packages/views/editor/use-coordinated-uploads.ts\<close>), and its two bindings
  (\<open>packages/views/issues/components/use-comment-uploads.ts\<close>,
  \<open>packages/views/modals/use-issue-create-uploads.ts\<close>). What a live editor answers is part of the
  event that asks it.
\<close>

section \<open>Bindings\<close>

record 's upload_binding =
  ub_registryKey :: jstr
  ub_getUploads :: "'s \<Rightarrow> json list"
  ub_addUpload :: "json \<Rightarrow> 's \<Rightarrow> 's"
  ub_settleUpload :: "jstr \<Rightarrow> json \<Rightarrow> 's \<Rightarrow> 's"
  ub_removeUpload :: "jstr \<Rightarrow> 's \<Rightarrow> 's"
  ub_getBody :: "'s \<Rightarrow> jstr"
  ub_appendToBody :: "jstr \<Rightarrow> 's \<Rightarrow> 's"

definition comment_binding :: "int \<Rightarrow> jstr \<Rightarrow> composer_stores upload_binding" where
  "comment_binding now_ms key =
     \<lparr>ub_registryKey = ''comment:'' @ key,
      ub_getUploads = (\<lambda>s. uploadsOf (drafts s) key),
      ub_addUpload = (\<lambda>u. set_drafts (comment_addUpload now_ms key u)),
      ub_settleUpload = (\<lambda>i att. set_drafts (comment_settleUpload now_ms key i att)),
      ub_removeUpload = (\<lambda>i. set_drafts (comment_removeUpload now_ms key i)),
      ub_getBody = (\<lambda>s. contentOf (drafts s) key),
      ub_appendToBody = (\<lambda>md. set_drafts (appendToDraftContent now_ms key md))\<rparr>"

definition slot_str :: "json jsobj \<Rightarrow> jstr \<Rightarrow> jstr" where
  "slot_str ob name = (case obj_get ob name of Some (JStr s) \<Rightarrow> s | _ \<Rightarrow> [])"

definition create_getBody :: "bool \<Rightarrow> issue_draft_store \<Rightarrow> jstr" where
  "create_getBody agent d =
     (if agent then slot_str (ic_agent (ic_draft d)) ''prompt'' else slot_str (ic_manual (ic_draft d)) ''description'')"

definition create_appendToBody :: "bool \<Rightarrow> jstr \<Rightarrow> issue_draft_store \<Rightarrow> issue_draft_store" where
  "create_appendToBody agent md d =
     (if agent then setAgent [(''prompt'', JStr (appendMarkdown (create_getBody True d) md))] d
      else setManual [(''description'', JStr (appendMarkdown (create_getBody False d) md))] d)"

definition create_binding :: "bool \<Rightarrow> composer_stores upload_binding" where
  "create_binding agent =
     \<lparr>ub_registryKey = ''issue-create:'' @ (if agent then ''agent'' else ''manual''),
      ub_getUploads = (\<lambda>s. sharedUploads (issue_draft s)),
      ub_addUpload = (\<lambda>u s.
        if list_ex (\<lambda>v. upload_id v = upload_id u) (sharedUploads (issue_draft s)) then s
        else set_issue_draft (setSharedUploads (sharedUploads (issue_draft s) @ [u])) s),
      ub_settleUpload = (\<lambda>i att s.
        if \<not> tracks (sharedUploads (issue_draft s)) i then s
        else set_issue_draft (setSharedUploads (settle_in i att (sharedUploads (issue_draft s)))) s),
      ub_removeUpload = (\<lambda>i s.
        if \<not> tracks (sharedUploads (issue_draft s)) i then s
        else set_issue_draft (setSharedUploads (remove_in i (sharedUploads (issue_draft s)))) s),
      ub_getBody = (\<lambda>s. create_getBody agent (issue_draft s)),
      ub_appendToBody = (\<lambda>md. set_issue_draft (create_appendToBody agent md))\<rparr>"

section \<open>The coordinator\<close>

text \<open>A controller is a number; a request is an \<open>uploadFile\<close> call that has not returned.\<close>

record upload_coordinator =
  controllers :: "(jstr, nat) jsmap"
  aborted :: "nat list"
  next_controller :: nat

definition startUpload :: "jstr \<Rightarrow> upload_coordinator \<Rightarrow> nat \<times> upload_coordinator" where
  "startUpload i c =
     (next_controller c, c\<lparr>controllers := map_set i (next_controller c) (controllers c), next_controller := Suc (next_controller c)\<rparr>)"

definition upload_finally :: "jstr \<Rightarrow> nat \<Rightarrow> upload_coordinator \<Rightarrow> upload_coordinator" where
  "upload_finally i n c = (if map_get (controllers c) i = Some n then c\<lparr>controllers := map_delete i (controllers c)\<rparr> else c)"

definition abortUpload :: "jstr \<Rightarrow> upload_coordinator \<Rightarrow> upload_coordinator" where
  "abortUpload i c =
     (case map_get (controllers c) i of
        None \<Rightarrow> c
      | Some n \<Rightarrow> c\<lparr>controllers := map_delete i (controllers c), aborted := n # aborted c\<rparr>)"

definition abortAll :: "upload_coordinator \<Rightarrow> upload_coordinator" where
  "abortAll c = c\<lparr>aborted := map snd (controllers c) @ aborted c, controllers := []\<rparr>"

text \<open>What \<open>uploadFile\<close> ends with: the attachment, or an error that is an \<open>AbortError\<close> or not.\<close>

datatype upload_result = Attached json | Upload_error bool

datatype upload_outcome = Uploaded json | Failed

definition outcome_of :: "upload_coordinator \<Rightarrow> nat \<Rightarrow> upload_result \<Rightarrow> upload_outcome option" where
  "outcome_of c n result =
     (case result of
        Attached att \<Rightarrow> Some (Uploaded att)
      | Upload_error is_abort \<Rightarrow> if n \<in> set (aborted c) \<or> is_abort then None else Some Failed)"

section \<open>The engine\<close>

datatype upload_target = CommentTarget jstr | CreateTarget bool

text \<open>A live editor for the registry key, and whether it replaces a placeholder or takes an insertion.\<close>

record editor_answers =
  ea_live :: bool
  ea_settles :: bool
  ea_inserts :: bool

record upload_request =
  rq_controller :: nat
  rq_id :: jstr
  rq_target :: upload_target
  rq_mount :: nat
  rq_pasted :: "jstr option"

record delivery =
  dl_target :: upload_target
  dl_id :: jstr
  dl_attachment :: json
  dl_tries :: nat

record composer =
  stores :: composer_stores
  coord :: upload_coordinator
  requests :: "upload_request list"
  deliveries :: "delivery list"
  mounted :: "nat list"
  minted :: "jstr list"
  clock :: int

definition MAX_FILE_SIZE :: nat where
  "MAX_FILE_SIZE = 100 * 1024 * 1024"

definition DELIVER_MAX_TRIES :: nat where
  "DELIVER_MAX_TRIES = 100"

definition binding_of :: "int \<Rightarrow> upload_target \<Rightarrow> composer_stores upload_binding" where
  "binding_of now_ms t = (case t of CommentTarget key \<Rightarrow> comment_binding now_ms key | CreateTarget agent \<Rightarrow> create_binding agent)"

text \<open>One attempt: the stores after it, and whether another one is scheduled.\<close>

definition deliverFinishedUpload ::
  "'s upload_binding \<Rightarrow> jstr \<Rightarrow> json \<Rightarrow> nat \<Rightarrow> editor_answers \<Rightarrow> 's \<Rightarrow> 's \<times> bool" where
  "deliverFinishedUpload b i att tries live s =
     (if \<not> tracks (ub_getUploads b s) i then (s, False)
      else if contentReferencesAttachment (ub_getBody b s) att then (s, False)
      else
        (let md = attachmentMarkdown att
         in if ea_live live \<and> ea_settles live then (ub_appendToBody b md s, False)
            else if ea_live live \<and> ea_inserts live then (ub_appendToBody b md s, False)
            else if \<not> ea_live live then (ub_appendToBody b md s, False)
            else if tries \<ge> DELIVER_MAX_TRIES then (ub_appendToBody b md s, False)
            else (s, True)))"

definition deliverPastedTextBack :: "'s upload_binding \<Rightarrow> jstr \<Rightarrow> 's \<Rightarrow> 's" where
  "deliverPastedTextBack b txt s = ub_appendToBody b txt s"

definition upload_placeholder :: "jstr \<Rightarrow> jstr \<Rightarrow> nat \<Rightarrow> jstr \<Rightarrow> json" where
  "upload_placeholder i name bytes ty =
     JObj ([(''clientUploadId'', JStr i), (''status'', JStr ''uploading''), (''filename'', JStr name), (''size'', JNum (int bytes))]
       @ (if ty = [] then [] else [(''contentType'', JStr ty)]))"

definition handleUpload ::
  "upload_target \<Rightarrow> nat \<Rightarrow> jstr \<Rightarrow> jstr \<Rightarrow> nat \<Rightarrow> jstr \<Rightarrow> jstr option \<Rightarrow> composer \<Rightarrow> composer" where
  "handleUpload t m i name bytes ty pasted c =
     (let b = binding_of (clock c) t; c0 = c\<lparr>minted := i # minted c\<rparr>
      in if bytes > MAX_FILE_SIZE then
           c0\<lparr>stores := (case pasted of Some txt \<Rightarrow> deliverPastedTextBack b txt (stores c) | None \<Rightarrow> stores c)\<rparr>
         else
           (let (n, co) = startUpload i (coord c)
            in c0\<lparr>stores := ub_addUpload b (upload_placeholder i name bytes ty) (stores c), coord := co,
                  requests := requests c @ [\<lparr>rq_controller = n, rq_id = i, rq_target = t, rq_mount = m, rq_pasted = pasted\<rparr>]\<rparr>))"

definition deliver :: "upload_target \<Rightarrow> jstr \<Rightarrow> json \<Rightarrow> nat \<Rightarrow> editor_answers \<Rightarrow> composer \<Rightarrow> composer" where
  "deliver t i att tries live c =
     (let (s, retry) = deliverFinishedUpload (binding_of (clock c) t) i att tries live (stores c)
      in c\<lparr>stores := s,
           deliveries := deliveries c @
             (if retry then [\<lparr>dl_target = t, dl_id = i, dl_attachment = att, dl_tries = tries + 1\<rparr>] else [])\<rparr>)"

definition upload_settled :: "upload_request \<Rightarrow> upload_outcome \<Rightarrow> editor_answers \<Rightarrow> composer \<Rightarrow> composer" where
  "upload_settled r outcome live c =
     (let b = binding_of (clock c) (rq_target r)
      in if \<not> tracks (ub_getUploads b (stores c)) (rq_id r) then c
         else
           (case outcome of
              Uploaded att \<Rightarrow>
                (let c1 = c\<lparr>stores := ub_settleUpload b (rq_id r) att (stores c)\<rparr>
                 in if rq_mount r \<in> set (mounted c) then c1 else deliver (rq_target r) (rq_id r) att 0 live c1)
            | Failed \<Rightarrow>
                (let s1 = ub_removeUpload b (rq_id r) (stores c)
                 in c\<lparr>stores := (case rq_pasted r of Some txt \<Rightarrow> deliverPastedTextBack b txt s1 | None \<Rightarrow> s1)\<rparr>)))"

text \<open>The end of a request: the outcome, if there is one, then \<open>finally\<close>.\<close>

definition request_done :: "nat \<Rightarrow> upload_result \<Rightarrow> editor_answers \<Rightarrow> composer \<Rightarrow> composer" where
  "request_done k result live c =
     (let r = requests c ! k;
          c1 = (case outcome_of (coord c) (rq_controller r) result of
                  Some outcome \<Rightarrow> upload_settled r outcome live c | None \<Rightarrow> c)
      in c1\<lparr>requests := remove_nth k (requests c1), coord := upload_finally (rq_id r) (rq_controller r) (coord c1)\<rparr>)"

definition retry_due :: "nat \<Rightarrow> editor_answers \<Rightarrow> composer \<Rightarrow> composer" where
  "retry_due k live c =
     (let d = deliveries c ! k
      in deliver (dl_target d) (dl_id d) (dl_attachment d) (dl_tries d) live (c\<lparr>deliveries := remove_nth k (deliveries c)\<rparr>))"

definition engine_removeUpload :: "upload_target \<Rightarrow> jstr \<Rightarrow> composer \<Rightarrow> composer" where
  "engine_removeUpload t i c =
     (let b = binding_of (clock c) t;
          flying = list_ex (\<lambda>u. upload_id u = Some i \<and> upload_status u = Some ''uploading'') (ub_getUploads b (stores c))
      in c\<lparr>coord := (if flying then abortUpload i (coord c) else coord c), stores := ub_removeUpload b i (stores c)\<rparr>)"

text \<open>The coordinator's half of the submit gate.\<close>

definition isBlocked :: "upload_target \<Rightarrow> composer \<Rightarrow> bool" where
  "isBlocked t c = hasUploadingDraft (ub_getUploads (binding_of (clock c) t) (stores c))"

text \<open>Logging out: requests are aborted before the drafts are cleared.\<close>

definition resetAllRegisteredDrafts :: "composer \<Rightarrow> composer" where
  "resetAllRegisteredDrafts c = c\<lparr>coord := abortAll (coord c), stores := reset_stores (stores c)\<rparr>"

definition edit_body :: "upload_target \<Rightarrow> jstr \<Rightarrow> composer \<Rightarrow> composer" where
  "edit_body t txt c = c\<lparr>stores :=
     (case t of
        CommentTarget key \<Rightarrow> set_drafts (comment_setDraft (clock c) key txt) (stores c)
      | CreateTarget agent \<Rightarrow>
          set_issue_draft (if agent then setAgent [(''prompt'', JStr txt)] else setManual [(''description'', JStr txt)]) (stores c))\<rparr>"

definition clear_target :: "upload_target \<Rightarrow> composer \<Rightarrow> composer" where
  "clear_target t c = c\<lparr>stores :=
     (case t of CommentTarget key \<Rightarrow> set_drafts (comment_clearDraft key) (stores c)
      | CreateTarget _ \<Rightarrow> set_issue_draft issue_clearDraft (stores c))\<rparr>"

section \<open>The machine\<close>

datatype composer_event =
  PickFile upload_target nat jstr jstr nat jstr "jstr option"
  | RequestDone nat upload_result editor_answers
  | RetryDue nat editor_answers
  | RemoveUpload upload_target jstr
  | EditBody upload_target jstr
  | ClearTarget upload_target
  | Mounted nat
  | Unmounted nat
  | SetWorkspace "jstr option"
  | Rehydrate
  | Logout
  | ClearStorage jstr
  | TimePasses nat

fun composer_step :: "composer \<Rightarrow> composer_event \<Rightarrow> composer" where
  "composer_step c (PickFile t m i name bytes ty pasted) = handleUpload t m i name bytes ty pasted c"
| "composer_step c (RequestDone k result live) = request_done k result live c"
| "composer_step c (RetryDue k live) = retry_due k live c"
| "composer_step c (RemoveUpload t i) = engine_removeUpload t i c"
| "composer_step c (EditBody t txt) = edit_body t txt c"
| "composer_step c (ClearTarget t) = clear_target t c"
| "composer_step c (Mounted m) = c\<lparr>mounted := m # mounted c\<rparr>"
| "composer_step c (Unmounted m) = c\<lparr>mounted := removeAll m (mounted c)\<rparr>"
| "composer_step c (SetWorkspace w) = c\<lparr>stores := setCurrentWorkspace w (stores c)\<rparr>"
| "composer_step c Rehydrate = c\<lparr>stores := rehydrate_issue_draft (rehydrate_comments (clock c) (stores c))\<rparr>"
| "composer_step c Logout = resetAllRegisteredDrafts c"
| "composer_step c (ClearStorage w) = c\<lparr>stores := clearRegisteredWorkspaceDrafts w (stores c)\<rparr>"
| "composer_step c (TimePasses d) = c\<lparr>clock := clock c + int d\<rparr>"

text \<open>
  Ids are minted once (\<open>createSafeId\<close>), a timer or request that ends was pending, and
  \<open>uploadFile\<close> ends with an \<open>AbortError\<close> only when its signal was aborted (as \<open>fetch\<close> documents).
\<close>

fun composer_enabled :: "composer \<Rightarrow> composer_event \<Rightarrow> bool" where
  "composer_enabled c (PickFile _ _ i _ _ _ _) = (i \<notin> set (minted c))"
| "composer_enabled c (RequestDone k result _) =
     (k < length (requests c) \<and> (result = Upload_error True \<longrightarrow> rq_controller (requests c ! k) \<in> set (aborted (coord c))))"
| "composer_enabled c (RetryDue k _) = (k < length (deliveries c))"
| "composer_enabled c _ = True"

definition composer_start :: "composer \<Rightarrow> bool" where
  "composer_start c = (requests c = [] \<and> deliveries c = [] \<and> minted c = []
     \<and> coord c = \<lparr>controllers = [], aborted = [], next_controller = 0\<rparr>
     \<and> slug (stores c) = None \<and> drafts (stores c) = [] \<and> issue_draft (stores c) = issue_resetInMemory (issue_draft (stores c)))"

text \<open>
  The interface between the upload engine and a draft (\<open>UploadDraftBinding\<close>) as a locale, its two
  implementations, and what the engine's attempts to deliver a finished upload achieve over any
  binding.
\<close>

section \<open>The interface\<close>

definition has_link :: "json \<Rightarrow> bool" where
  "has_link att = (att_str att ''url'' \<noteq> [] \<or> att_str att ''id'' \<noteq> [] \<or> att_str att ''markdown_url'' \<noteq> [])"

lemma trim_ne: "str_trim s \<noteq> [] \<longleftrightarrow> (\<exists>c \<in> set s. \<not> is_space c)"
  by (auto simp: str_trim_def str_trim_end_def dropWhile_eq_Nil_conv dest: set_dropWhileD)
    (metis dropWhile_eq_Nil_conv hd_dropWhile hd_in_set)

lemma trim_markdown: "str_trim (attachmentMarkdown att) \<noteq> []"
  unfolding trim_ne by (rule bexI [of _ "CHR '']''"]) (auto simp: attachmentMarkdown_def is_space_def)

locale draft_binding =
  fixes b :: "'s upload_binding"
  assumes get_add: "ub_getUploads b (ub_addUpload b u s) = add_in u (ub_getUploads b s)"
    and get_settle: "ub_getUploads b (ub_settleUpload b i att s) = settle_in i att (ub_getUploads b s)"
    and get_remove: "ub_getUploads b (ub_removeUpload b i s) = remove_in i (ub_getUploads b s)"
    and get_append: "ub_getUploads b (ub_appendToBody b md s) = ub_getUploads b s"
    and body_append: "str_trim md \<noteq> [] \<Longrightarrow> ub_getBody b (ub_appendToBody b md s) = appendMarkdown (ub_getBody b s) md"
begin

lemma append_lands:
  "has_link att \<Longrightarrow>
   contentReferencesAttachment (ub_getBody b (ub_appendToBody b (attachmentMarkdown att) s)) att"
  unfolding has_link_def by (simp add: body_append trim_markdown appended_references)

lemma delivered:
  assumes "deliverFinishedUpload b i att tries live s = (s', False)" "tracks (ub_getUploads b s) i"
    and "has_link att"
  shows "contentReferencesAttachment (ub_getBody b s') att \<and> ub_getUploads b s' = ub_getUploads b s"
  using assms append_lands [OF assms(3)]
  by (auto simp: deliverFinishedUpload_def Let_def get_append split: if_splits)

lemma retried:
  "deliverFinishedUpload b i att tries live s = (s', True) \<Longrightarrow> tries < DELIVER_MAX_TRIES \<and> s' = s"
  by (auto simp: deliverFinishedUpload_def Let_def split: if_splits)

text \<open>The attempts of one upload, until one ends: \<open>answers\<close> lists what the editor says.\<close>

lemma bounded: "tries \<ge> DELIVER_MAX_TRIES \<Longrightarrow> \<not> snd (deliverFinishedUpload b i att tries live s)"
  by (auto simp: deliverFinishedUpload_def Let_def)

lemma get_deliver: "ub_getUploads b (fst (deliverFinishedUpload b i att tries live s)) = ub_getUploads b s"
  by (auto simp: deliverFinishedUpload_def Let_def get_append)

end

section \<open>The comment drafts provide it\<close>

named_theorems draft_simps

lemma uploads_write:
  "(same \<Longrightarrow> us = uploadsOf ds key) \<Longrightarrow> uploadsOf (writeDraft t same ds key content us) k = (if k = key then us else uploadsOf ds k)"
  by (auto simp: writeDraft_def uploadsOf_def isMeaningful_def js_simps obj_keys_get split: option.splits)

lemma content_write:
  "contentOf (writeDraft t same ds key content us) key = (if isMeaningful content us then content else [])"
  by (auto simp: writeDraft_def contentOf_def js_simps obj_keys_get split: option.splits)

lemma comment_uploads [draft_simps]:
  "uploadsOf (comment_setDraft t key txt ds) k = uploadsOf ds k"
  "uploadsOf (appendToDraftContent t key txt ds) k = uploadsOf ds k"
  "uploadsOf (comment_addUpload t key u ds) k = (if k = key then add_in u (uploadsOf ds k) else uploadsOf ds k)"
  "uploadsOf (comment_settleUpload t key i att ds) k = (if k = key then settle_in i att (uploadsOf ds k) else uploadsOf ds k)"
  "uploadsOf (comment_removeUpload t key i ds) k = (if k = key then remove_in i (uploadsOf ds k) else uploadsOf ds k)"
  "uploadsOf (comment_clearDraft key ds) k = (if k = key then [] else uploadsOf ds k)"
  by (auto simp: comment_setDraft_def appendToDraftContent_def comment_addUpload_def comment_settleUpload_def
      comment_removeUpload_def uploads_write add_in_def settle_untracked remove_untracked)
    (auto simp: comment_clearDraft_def uploadsOf_def js_simps obj_keys_get)

lemma trim_suffix: "str_trim md \<noteq> [] \<Longrightarrow> str_trim (a @ md) \<noteq> []"
  by (auto simp: trim_ne)

lemma append_meaningful: "str_trim md \<noteq> [] \<Longrightarrow> str_trim (appendMarkdown s md) \<noteq> []"
  using trim_suffix [of md "str_trim_end s @ newline @ newline"] by (simp add: appendMarkdown_def)

lemma set_drafts_simps [draft_simps]:
  "drafts (set_drafts f s) = f (drafts s)" "issue_draft (set_drafts f s) = issue_draft s" "slug (set_drafts f s) = slug s"
  "issue_disk (set_drafts f s) = issue_disk s"
  "drafts (set_issue_draft g s) = drafts s" "issue_draft (set_issue_draft g s) = g (issue_draft s)" "slug (set_issue_draft g s) = slug s"
  "comment_disk (set_issue_draft g s) = comment_disk s"
  by (simp_all add: set_drafts_def set_issue_draft_def Let_def)

interpretation comment: draft_binding "comment_binding t key" for t key
proof
  show "ub_getBody (comment_binding t key) (ub_appendToBody (comment_binding t key) md s) =
      appendMarkdown (ub_getBody (comment_binding t key) s) md" if "str_trim md \<noteq> []" for md s
    using that append_meaningful by (simp add: comment_binding_def draft_simps appendToDraftContent_def content_write isMeaningful_def)
qed (simp_all add: comment_binding_def draft_simps)

section \<open>The create dialog provides it\<close>

lemma obj_get_assign_one [draft_simps]: "obj_get (obj_assign ob [(k, v)]) n = (if n = k then Some v else obj_get ob n)"
  by (simp add: obj_assign_def js_simps)

lemma shared_uploads [draft_simps]:
  "sharedUploads (setSharedUploads us d) = us"
  "sharedUploads (setManual patch d) = sharedUploads d"
  "sharedUploads (setAgent patch d) = sharedUploads d"
  "sharedUploads (create_appendToBody agent md d) = sharedUploads d"
  "sharedUploads (issue_clearDraft d) = []"
  "sharedUploads (issue_resetInMemory d) = []"
  by (simp_all add: sharedUploads_def setSharedUploads_def setShared_def setManual_def setAgent_def create_appendToBody_def
      issue_clearDraft_def obj_get_assign_one)
    (simp_all add: emptyShared_def obj_get_def issue_resetInMemory_def migrateDraft_def isLegacyFlatDraft_def json_field_def
      obj_assign_def obj_set_def obj_keys_def js_nullish_def json_entries_def normalizeStoredUploads_def)

interpretation create: draft_binding "create_binding agent" for agent
proof
  show "ub_getBody (create_binding agent) (ub_appendToBody (create_binding agent) md s) =
      appendMarkdown (ub_getBody (create_binding agent) s) md" for md s
    by (simp add: create_binding_def draft_simps create_getBody_def create_appendToBody_def setAgent_def setManual_def slot_str_def)
qed (auto simp: create_binding_def draft_simps add_in_def settle_untracked remove_untracked)

section \<open>Every target\<close>

lemma binding_cases: "draft_binding (binding_of t target)"
  by (cases target) (simp_all add: binding_of_def comment.draft_binding_axioms create.draft_binding_axioms)

text \<open>C37: a finished upload that has to be delivered lands: when an attempt ends without scheduling
  another, for a comment or the create dialog, whatever the editor answered, and the draft still tracks
  the upload, the body holds a reference that submitting binds, and the upload records are as they were;
  an attempt schedules another only before the hundredth.\<close>

theorem finished_upload_lands:
  assumes "deliverFinishedUpload (binding_of t target) i att tries live s = (s', retry)"
    and "tracks (ub_getUploads (binding_of t target) s) i" "has_link att"
  shows "if retry then tries < 100 \<and> s' = s
    else contentReferencesAttachment (ub_getBody (binding_of t target) s') att
      \<and> ub_getUploads (binding_of t target) s' = ub_getUploads (binding_of t target) s"
  using draft_binding.delivered [OF binding_cases, of t target i att tries live s s']
    draft_binding.retried [OF binding_cases, of t target i att tries live s s'] assms
  by (cases retry) (simp_all add: DELIVER_MAX_TRIES_def)

definition example_att :: json where
  "example_att = JObj [(''id'', JStr ''a1''), (''url'', JStr ''/uploads/a1.png''), (''filename'', JStr ''a1.png''), (''content_type'', JStr ''image/png'')]"

definition empty_stores :: composer_stores where
  "empty_stores = \<lparr>slug = Some ''acme'', drafts = [], comment_disk = (\<lambda>_. None),
     issue_draft = \<lparr>ic_draft = migrateDraft None, ic_lastAssigneeType = None, ic_lastAssigneeId = None\<rparr>, issue_disk = (\<lambda>_. None)\<rparr>"

text \<open>A reply whose file has settled after its composer closed.\<close>

definition example_stores :: composer_stores where
  "example_stores =
     (let b = comment_binding 5 ''new:i1''
      in ub_settleUpload b ''u1'' example_att (ub_addUpload b (upload_placeholder ''u1'' ''a1.png'' 9 ''image/png'') empty_stores))"

theorem finished_upload_lands_witness:
  "contentReferencesAttachment
     (ub_getBody (comment_binding 6 ''new:i1'')
       (fst (deliverFinishedUpload (comment_binding 6 ''new:i1'') ''u1'' example_att 0 \<lparr>ea_live = False, ea_settles = False, ea_inserts = False\<rparr> example_stores)))
     example_att"
proof -
  let ?b = "binding_of 6 (CommentTarget ''new:i1'')"
  let ?live = "\<lparr>ea_live = False, ea_settles = False, ea_inserts = False\<rparr>"
  have tracked: "tracks (ub_getUploads ?b example_stores) ''u1''" by code_simp
  have link: "has_link example_att" by code_simp
  have ends: "snd (deliverFinishedUpload ?b ''u1'' example_att 0 ?live example_stores) = False" by code_simp
  then have "deliverFinishedUpload ?b ''u1'' example_att 0 ?live example_stores
      = (fst (deliverFinishedUpload ?b ''u1'' example_att 0 ?live example_stores), False)"
    by (simp add: prod_eq_iff)
  from finished_upload_lands [OF this tracked link] show ?thesis by (simp add: binding_of_def)
qed

end
