(* ===== verification/Upload_Properties.thy ===== *)
theory Upload_Properties
  imports Upload_Engine
begin

text \<open>
  The composer machine: every placeholder that blocks a submit has a request that can still end, so
  a submit is never blocked for good; and an upload its draft no longer tracks never comes back.
\<close>

section \<open>Pools\<close>

text \<open>The upload lists: one per comment draft, and the one both forms of the create dialog share.\<close>

definition pool_of :: "upload_target \<Rightarrow> jstr option" where
  "pool_of t = (case t of CommentTarget k \<Rightarrow> Some k | CreateTarget _ \<Rightarrow> None)"

definition pool :: "jstr option \<Rightarrow> composer_stores \<Rightarrow> json list" where
  "pool p s = (case p of Some k \<Rightarrow> uploadsOf (drafts s) k | None \<Rightarrow> sharedUploads (issue_draft s))"

lemma pool_binding: "ub_getUploads (binding_of t tg) s = pool (pool_of tg) s"
  by (cases tg) (simp_all add: binding_of_def pool_def pool_of_def comment_binding_def create_binding_def)

lemma pool_same: "drafts s' = drafts s \<Longrightarrow> issue_draft s' = issue_draft s \<Longrightarrow> pool p s' = pool p s"
  by (cases p) (simp_all add: pool_def)

lemma pool_other:
  assumes "p \<noteq> pool_of tg"
  shows "pool p (ub_addUpload (binding_of t tg) u s) = pool p s"
    and "pool p (ub_settleUpload (binding_of t tg) i att s) = pool p s"
    and "pool p (ub_removeUpload (binding_of t tg) i s) = pool p s"
    and "pool p (ub_appendToBody (binding_of t tg) md s) = pool p s"
  using assms
  by (cases tg; cases p; simp add: binding_of_def pool_def pool_of_def comment_binding_def create_binding_def draft_simps)+

lemma pool_op:
  "pool p (ub_addUpload (binding_of t tg) u s) = (if p = pool_of tg then add_in u (pool p s) else pool p s)"
  "pool p (ub_settleUpload (binding_of t tg) i att s) = (if p = pool_of tg then settle_in i att (pool p s) else pool p s)"
  "pool p (ub_removeUpload (binding_of t tg) i s) = (if p = pool_of tg then remove_in i (pool p s) else pool p s)"
  "pool p (ub_appendToBody (binding_of t tg) md s) = pool p s"
  using pool_other draft_binding.get_add [OF binding_cases, of t tg u s] draft_binding.get_settle [OF binding_cases, of t tg i att s]
    draft_binding.get_remove [OF binding_cases, of t tg i s] draft_binding.get_append [OF binding_cases, of t tg md s]
  by (cases "p = pool_of tg"; simp add: pool_binding)+

lemma pool_deliver: "pool p (fst (deliverFinishedUpload (binding_of t tg) i att tries live s)) = pool p s"
  by (auto simp: deliverFinishedUpload_def Let_def pool_op)

lemma pool_pasted: "pool p (deliverPastedTextBack (binding_of t tg) txt s) = pool p s"
  by (simp add: deliverPastedTextBack_def pool_op)

lemma pool_edit: "pool p (stores (edit_body tg txt c)) = pool p (stores c)"
  by (cases tg; cases p) (simp_all add: edit_body_def pool_def draft_simps)

lemma pool_clear: "pool p (stores (clear_target tg c)) = (if p = pool_of tg then [] else pool p (stores c))"
  by (cases tg; cases p) (simp_all add: clear_target_def pool_def pool_of_def draft_simps)

lemma pool_reset: "pool p (reset_stores s) = []"
  by (cases p) (simp_all add: reset_stores_def pool_def draft_simps uploadsOf_def)

text \<open>Everything read back is in normal form.\<close>

lemma prune_entries:
  "(k, d) \<in> set (pruneStaleDrafts t ds) \<Longrightarrow> \<exists>v. (k, v) \<in> set ds \<and> draft_uploads d = normalizeStoredUploads (stored_attachments v)"
proof -
  define f :: "jstr \<times> stored_draft \<Rightarrow> comment_drafts \<Rightarrow> comment_drafts" where
    "f = (\<lambda>(k, v) out. let uploads = normalizeStoredUploads (stored_attachments v)
        in if stored_updatedAt v \<ge> t - TTL_MS \<and> isMeaningful (stored_content v) uploads
           then obj_set k \<lparr>draft_content = stored_content v, draft_uploads = uploads, draft_updatedAt = stored_updatedAt v\<rparr> out
           else out)"
  have "(k, d) \<in> set (fold f ds out) \<Longrightarrow> (k, d) \<in> set out
      \<or> (\<exists>v. (k, v) \<in> set ds \<and> draft_uploads d = normalizeStoredUploads (stored_attachments v))" for out
  proof (induction ds arbitrary: out)
    case (Cons kv ds)
    obtain k' v where kv: "kv = (k', v)" by (cases kv)
    let ?d = "\<lparr>draft_content = stored_content v, draft_uploads = normalizeStoredUploads (stored_attachments v), draft_updatedAt = stored_updatedAt v\<rparr>"
    from Cons.prems have "(k, d) \<in> set (fold f ds (f kv out))" by simp
    from Cons.IH [OF this] show ?case
      using subsetD [OF set_obj_set [of k' ?d out], of "(k, d)"]
      by (auto simp: kv f_def Let_def split: if_splits)
  qed simp
  from this [of "[]"] show "(k, d) \<in> set (pruneStaleDrafts t ds) \<Longrightarrow> ?thesis"
    by (simp add: pruneStaleDrafts_def f_def)
qed

lemma prune_normal: "obj_get (pruneStaleDrafts t ds) k = Some d \<Longrightarrow> \<exists>v. (k, v) \<in> set ds \<and> draft_uploads d = normalizeStoredUploads (stored_attachments v)"
  by (rule prune_entries) (rule obj_get_in)

lemma shared_migrate: "\<exists>raw. sharedUploads \<lparr>ic_draft = migrateDraft d, ic_lastAssigneeType = x, ic_lastAssigneeId = y\<rparr> = normalizeStoredUploads raw"
proof (cases "isLegacyFlatDraft (case d of Some v \<Rightarrow> if is_object v then v else JObj [] | None \<Rightarrow> JObj [])")
  case True
  have snoc: "obj_assign a (b @ [kv]) = obj_assign (obj_assign a b) [kv]" for a b and kv :: "jstr \<times> json"
    by (simp add: obj_assign_def)
  have "obj_get (obj_assign a (b @ [p, q, (''attachments'', v)])) ''attachments'' = Some v" for a b p q and v :: json
    using snoc [of a "b @ [p, q]" "(''attachments'', v)"] by (simp add: draft_simps)
  with True show ?thesis by (simp add: sharedUploads_def migrateDraft_def Let_def) blast
next
  case False
  then show ?thesis by (simp add: sharedUploads_def migrateDraft_def Let_def draft_simps) blast
qed

lemma pool_rehydrated: "\<exists>raw. pool p (rehydrate_issue_draft (rehydrate_comments t s)) = normalizeStoredUploads raw"
proof (cases p)
  case None
  then show ?thesis
    using shared_migrate by (auto simp: pool_def rehydrate_issue_draft_def merge_issue_draft_def rehydrate_comments_def Let_def)
next
  case (Some k)
  let ?ds = "pruneStaleDrafts t (case (case slug s of Some w \<Rightarrow> comment_disk s w | None \<Rightarrow> None) of Some ds \<Rightarrow> ds | None \<Rightarrow> stored_drafts (drafts s))"
  have "\<exists>raw. uploadsOf ?ds k = normalizeStoredUploads raw"
  proof (cases "obj_get ?ds k")
    case None
    then have "uploadsOf ?ds k = normalizeStoredUploads None" by (simp add: uploadsOf_def normalizeStoredUploads_def)
    then show ?thesis by blast
  next
    case (Some d)
    then show ?thesis using prune_normal [OF Some] by (auto simp: uploadsOf_def)
  qed
  with Some show ?thesis by (simp add: pool_def rehydrate_issue_draft_def rehydrate_comments_def Let_def)
qed

section \<open>A placeholder in flight has its request\<close>

definition owned :: "composer \<Rightarrow> jstr option \<Rightarrow> json \<Rightarrow> bool" where
  "owned c p u = (upload_status u = Some ''uploading'' \<longrightarrow>
     (\<exists>r \<in> set (requests c). upload_id u = Some (rq_id r) \<and> pool_of (rq_target r) = p \<and> rq_controller r \<notin> set (aborted (coord c))))"

definition coord_ok :: "upload_request list \<Rightarrow> upload_coordinator \<Rightarrow> jstr list \<Rightarrow> bool" where
  "coord_ok rs co ids =
     (map_ok (controllers co) \<and> distinct (map rq_id rs) \<and> rq_id ` set rs \<subseteq> set ids
      \<and> (\<forall>n \<in> set (aborted co). n < next_controller co)
      \<and> (\<forall>r \<in> set rs. rq_controller r < next_controller co)
      \<and> (\<forall>r \<in> set rs. rq_controller r \<notin> set (aborted co) \<longrightarrow> map_get (controllers co) (rq_id r) = Some (rq_controller r))
      \<and> (\<forall>i n. map_get (controllers co) i = Some n \<longrightarrow> n < next_controller co)
      \<and> (\<forall>i n. map_get (controllers co) i = Some n \<longrightarrow> (\<forall>r \<in> set rs. rq_controller r = n \<longrightarrow> rq_id r = i)))"

lemma coord_ok_start:
  assumes "coord_ok rs co ids" "i \<notin> set ids" "rq_id r = i" "rq_controller r = next_controller co"
  shows "coord_ok (rs @ [r]) (snd (startUpload i co)) (i # ids)"
proof -
  have fresh: "\<And>q. q \<in> set rs \<Longrightarrow> rq_id q \<noteq> i" using assms(1,2) unfolding coord_ok_def by blast
  have older: "\<And>q. q \<in> set rs \<Longrightarrow> rq_controller q < next_controller co" using assms(1) unfolding coord_ok_def by blast
  then have new: "\<And>q. q \<in> set rs \<Longrightarrow> rq_controller q \<noteq> next_controller co" by (metis less_irrefl)
  have "map_ok (map_set i (next_controller co) (controllers co))" using assms(1) by (simp add: coord_ok_def map_ok_set)
  moreover have "i \<notin> rq_id ` set rs" using fresh by (metis imageE)
  then have "distinct (map rq_id (rs @ [r]))" using assms(1,3) by (simp add: coord_ok_def)
  moreover have "\<forall>j n. map_get (map_set i (next_controller co) (controllers co)) j = Some n \<longrightarrow>
      (\<forall>q \<in> set (rs @ [r]). rq_controller q = n \<longrightarrow> rq_id q = j)"
    using assms fresh new by (auto simp: js_simps coord_ok_def)
  moreover have "\<forall>q \<in> set (rs @ [r]). rq_controller q \<notin> set (aborted co) \<longrightarrow>
      map_get (map_set i (next_controller co) (controllers co)) (rq_id q) = Some (rq_controller q)"
    using assms fresh by (auto simp: js_simps coord_ok_def)
  moreover have "rq_id ` set (rs @ [r]) \<subseteq> set (i # ids)" using assms(1,3) by (auto simp: coord_ok_def)
  moreover have "\<forall>n \<in> set (aborted co). n < Suc (next_controller co)" "\<forall>q \<in> set (rs @ [r]). rq_controller q < Suc (next_controller co)"
    "\<forall>j n. map_get (map_set i (next_controller co) (controllers co)) j = Some n \<longrightarrow> n < Suc (next_controller co)"
    using assms(1,4) by (auto simp: coord_ok_def js_simps less_SucI)
  moreover have upd: "controllers (snd (startUpload i co)) = map_set i (next_controller co) (controllers co)"
    "aborted (snd (startUpload i co)) = aborted co" "next_controller (snd (startUpload i co)) = Suc (next_controller co)"
    by (simp_all add: startUpload_def)
  ultimately show ?thesis unfolding coord_ok_def upd by (intro conjI)
qed

lemma coord_ok_ids: "coord_ok rs co ids \<Longrightarrow> coord_ok rs co (i # ids)"
  by (auto simp: coord_ok_def)

lemma coord_ok_abort:
  assumes "coord_ok rs co ids"
  shows "coord_ok rs (abortUpload i co) ids"
    and "r \<in> set rs \<Longrightarrow> rq_id r \<noteq> i \<Longrightarrow> rq_controller r \<notin> set (aborted co) \<Longrightarrow> rq_controller r \<notin> set (aborted (abortUpload i co))"
proof -
  show "coord_ok rs (abortUpload i co) ids"
  proof (cases "map_get (controllers co) i")
    case (Some n)
    moreover have "r \<in> set rs \<Longrightarrow> rq_controller r \<notin> insert n (set (aborted co)) \<Longrightarrow> rq_id r \<noteq> i" for r
      using Some assms by (auto simp: coord_ok_def)
    ultimately show ?thesis using assms by (simp add: coord_ok_def abortUpload_def js_simps map_ok_delete)
  qed (use assms in \<open>simp add: abortUpload_def\<close>)
  show "r \<in> set rs \<Longrightarrow> rq_id r \<noteq> i \<Longrightarrow> rq_controller r \<notin> set (aborted co) \<Longrightarrow> rq_controller r \<notin> set (aborted (abortUpload i co))"
    using assms by (auto simp: coord_ok_def abortUpload_def split: option.split)
qed

lemma coord_ok_abort_all: assumes "coord_ok rs co ids" shows "coord_ok rs (abortAll co) ids"
proof -
  have vals: "map_get (controllers co) i = Some n \<longleftrightarrow> (i, n) \<in> set (controllers co)" for i n
    using assms by (simp add: coord_ok_def map_ok_def map_keys_def map_get_def)
  have "n < next_controller co" if "(i, n) \<in> set (controllers co)" for i n
    using that assms vals by (simp add: coord_ok_def)
  moreover have "rq_controller r \<in> set (aborted (abortAll co))" if "r \<in> set rs" for r
  proof (cases "rq_controller r \<in> set (aborted co)")
    case False
    with that assms have "(rq_id r, rq_controller r) \<in> set (controllers co)" by (simp add: vals [symmetric] coord_ok_def)
    then show ?thesis by (auto simp: abortAll_def intro: rev_image_eqI)
  qed (simp add: abortAll_def)
  ultimately show ?thesis using assms by (auto simp: coord_ok_def abortAll_def)
qed

lemma set_remove_nth_distinct:
  assumes "distinct (map f xs)" "k < length xs"
  shows "set (remove_nth k xs) = {x \<in> set xs. f x \<noteq> f (xs ! k)}" and "distinct (map f (remove_nth k xs))"
proof -
  have split: "xs = take k xs @ xs ! k # drop (Suc k) xs" using assms(2) by (simp add: id_take_nth_drop)
  then have d: "distinct (map f (take k xs @ xs ! k # drop (Suc k) xs))" using assms(1) by metis
  then show "distinct (map f (remove_nth k xs))" by (simp add: remove_nth_def)
  have "set xs = insert (xs ! k) (set (remove_nth k xs))" using arg_cong [OF split, of set] by (simp add: remove_nth_def)
  moreover have "f x \<noteq> f (xs ! k)" if "x \<in> set (remove_nth k xs)" for x
    using d that by (auto simp: remove_nth_def) (metis image_eqI)+
  ultimately show "set (remove_nth k xs) = {x \<in> set xs. f x \<noteq> f (xs ! k)}" by auto
qed

lemma coord_ok_done:
  assumes "coord_ok rs co ids" "k < length rs" "r = rs ! k"
  shows "coord_ok (remove_nth k rs) (upload_finally (rq_id r) (rq_controller r) co) ids"
proof -
  have d: "distinct (map rq_id rs)" using assms(1) by (simp add: coord_ok_def)
  note rest = set_remove_nth_distinct [OF d assms(2), folded assms(3)]
  show ?thesis
    using assms(1) rest by (auto simp: coord_ok_def upload_finally_def js_simps map_ok_delete)
qed

definition requests_ok :: "composer \<Rightarrow> bool" where
  "requests_ok c = coord_ok (requests c) (coord c) (minted c)"

definition composer_inv :: "composer \<Rightarrow> bool" where
  "composer_inv c = (requests_ok c \<and> (\<forall>p. \<forall>u \<in> set (pool p (stores c)). owned c p u)
     \<and> (\<forall>d \<in> set (deliveries c). dl_tries d \<le> DELIVER_MAX_TRIES))"

text \<open>An event that leaves the requests alone and takes every list to a part of it, or to records in normal form.\<close>

lemma composer_inv_kept:
  assumes "composer_inv c" "requests c' = requests c" "coord c' = coord c" "minted c' = minted c" "deliveries c' = deliveries c"
    and "\<And>p u. u \<in> set (pool p (stores c')) \<Longrightarrow> u \<in> set (pool p (stores c)) \<or> upload_status u \<noteq> Some ''uploading''"
  shows "composer_inv c'"
proof -
  have "owned c' p u" if "u \<in> set (pool p (stores c'))" for p u
    using assms(1) assms(6) [OF that] by (auto simp: composer_inv_def owned_def assms(2,3))
  with assms show ?thesis by (simp add: composer_inv_def requests_ok_def)
qed

lemma uploaded_settled: "upload_status (settled_upload i att) = Some ''uploaded''"
proof -
  have "json_field (JObj (obj_set ''clientUploadId'' v ob)) ''status'' = json_field (JObj ob) ''status''" for v and ob :: "json jsobj"
    using obj_get_set [of "''clientUploadId''" v ob "''status''"] by (simp add: json_field_def obj_get_def)
  then show ?thesis
    by (simp add: settled_upload_def upload_status_def str_field_def attachmentToDraftUpload_def field_opt field_cons)
qed

lemma placeholder_id: "upload_id (upload_placeholder i name bytes ty) = Some i"
  by (simp add: upload_placeholder_def upload_id_def str_field_def json_field_def)

lemma inv_pick:
  assumes "composer_inv c" "i \<notin> set (minted c)"
  shows "composer_inv (handleUpload t m i name bytes ty pasted c)"
proof (cases "bytes > MAX_FILE_SIZE")
  case True
  let ?c' = "handleUpload t m i name bytes ty pasted c"
  have same: "pool p (stores ?c') = pool p (stores c)" for p
    using True by (simp add: handleUpload_def Let_def pool_pasted split: option.split)
  have "requests ?c' = requests c" "coord ?c' = coord c" "minted ?c' = i # minted c" "deliveries ?c' = deliveries c"
    using True by (simp_all add: handleUpload_def Let_def)
  with same assms(1) show ?thesis
    by (simp add: composer_inv_def requests_ok_def owned_def coord_ok_ids)
next
  case False
  let ?c' = "handleUpload t m i name bytes ty pasted c"
  let ?r = "\<lparr>rq_controller = next_controller (coord c), rq_id = i, rq_target = t, rq_mount = m, rq_pasted = pasted\<rparr>"
  have parts: "requests ?c' = requests c @ [?r]" "minted ?c' = i # minted c" "deliveries ?c' = deliveries c"
    "coord ?c' = snd (startUpload i (coord c))" "set (aborted (coord ?c')) = set (aborted (coord c))"
    "\<And>p. pool p (stores ?c') = (if p = pool_of t then add_in (upload_placeholder i name bytes ty) (pool p (stores c)) else pool p (stores c))"
    using False by (simp_all add: handleUpload_def Let_def startUpload_def pool_op)
  have "coord_ok (requests c) (coord c) (minted c)" using assms(1) by (simp add: composer_inv_def requests_ok_def)
  then have "requests_ok ?c'" unfolding requests_ok_def parts by (rule coord_ok_start) (simp_all add: assms(2))
  moreover have "owned ?c' p u" if "u \<in> set (pool p (stores ?c'))" for p u
  proof (cases "u \<in> set (pool p (stores c))")
    case True
    with assms(1) have "owned c p u" by (simp add: composer_inv_def)
    then show ?thesis unfolding owned_def parts(1,5) by auto
  next
    case False
    with that have u: "p = pool_of t" "u = upload_placeholder i name bytes ty"
      by (auto simp: parts add_in_def split: if_splits)
    have "next_controller (coord c) \<notin> set (aborted (coord c))" using assms(1) by (auto simp: composer_inv_def requests_ok_def coord_ok_def)
    with u show ?thesis by (simp add: owned_def parts(1) placeholder_id) (simp add: parts(4) startUpload_def)
  qed
  ultimately show ?thesis using assms(1) by (simp add: composer_inv_def parts)
qed

lemma pool_delivered: "pool p (stores (deliver t i att tries live c)) = pool p (stores c)"
  using pool_deliver [of p "clock c" t i att tries live "stores c"] by (simp add: deliver_def prod.case_eq_if)

lemma inv_deliver:
  assumes "composer_inv c" "tries \<le> DELIVER_MAX_TRIES"
  shows "composer_inv (deliver t i att tries live c)"
proof -
  obtain s' retry where d: "deliverFinishedUpload (binding_of (clock c) t) i att tries live (stores c) = (s', retry)"
    by (cases "deliverFinishedUpload (binding_of (clock c) t) i att tries live (stores c)")
  have "pool p s' = pool p (stores c)" for p
    using pool_deliver [of p "clock c" t i att tries live "stores c"] d by simp
  moreover have "retry \<Longrightarrow> tries + 1 \<le> DELIVER_MAX_TRIES"
    using draft_binding.retried [OF binding_cases, of "clock c" t i att tries live "stores c" s'] d by simp
  ultimately show ?thesis
    using assms by (auto simp: deliver_def d composer_inv_def requests_ok_def owned_def)
qed

text \<open>Settling a request leaves no placeholder of its upload in flight; the other records are as they were.\<close>

lemma settled_pool:
  assumes "u \<in> set (pool p (stores (upload_settled r outcome live c)))" "upload_status u = Some ''uploading''"
  shows "u \<in> set (pool p (stores c)) \<and> (p = pool_of (rq_target r) \<longrightarrow> upload_id u \<noteq> Some (rq_id r))"
proof (cases "tracks (pool (pool_of (rq_target r)) (stores c)) (rq_id r)")
  case False
  with assms show ?thesis
    by (auto simp: upload_settled_def Let_def pool_binding tracks_def list_ex_iff)
next
  case True
  show ?thesis
  proof (cases outcome)
    case (Uploaded att)
    from assms(1) Uploaded True have "u \<in> set (if p = pool_of (rq_target r) then settle_in (rq_id r) att (pool p (stores c)) else pool p (stores c))"
      by (simp add: upload_settled_def Let_def pool_binding pool_op pool_delivered split: if_splits)
    with assms(2) uploaded_settled [of "rq_id r" att] show ?thesis by (auto simp: settle_in_def split: if_splits)
  next
    case Failed
    with assms True show ?thesis
      by (auto simp: upload_settled_def Let_def pool_binding pool_op pool_pasted remove_in_def split: if_splits option.splits)
  qed
qed

lemma upload_settled_same [simp]:
  "requests (upload_settled r outcome live c) = requests c" "coord (upload_settled r outcome live c) = coord c"
  "minted (upload_settled r outcome live c) = minted c"
  by (simp_all add: upload_settled_def deliver_def Let_def split: upload_outcome.split prod.split)

lemma inv_settled:
  assumes "composer_inv c"
  shows "composer_inv (upload_settled r outcome live c)"
proof -
  have "\<forall>d \<in> set (deliveries (upload_settled r outcome live c)). dl_tries d \<le> DELIVER_MAX_TRIES"
    using assms by (auto simp: composer_inv_def upload_settled_def deliver_def Let_def DELIVER_MAX_TRIES_def
        split: upload_outcome.splits prod.splits if_splits)
  moreover have "owned (upload_settled r outcome live c) p u" if "u \<in> set (pool p (stores (upload_settled r outcome live c)))" for p u
    using settled_pool [OF that] assms by (auto simp: owned_def composer_inv_def)
  ultimately show ?thesis using assms by (simp add: composer_inv_def requests_ok_def)
qed

lemma aborted_finally [simp]: "aborted (upload_finally i n co) = aborted co"
  by (simp add: upload_finally_def)

lemma inv_done:
  assumes "composer_inv c" "composer_enabled c (RequestDone k result live)"
  shows "composer_inv (request_done k result live c)"
proof -
  let ?r = "requests c ! k"
  define c1 where "c1 = (case outcome_of (coord c) (rq_controller ?r) result of Some outcome \<Rightarrow> upload_settled ?r outcome live c | None \<Rightarrow> c)"
  have same: "requests c1 = requests c" "coord c1 = coord c" "minted c1 = minted c" by (simp_all add: c1_def split: option.split)
  have inv1: "composer_inv c1" using assms(1) inv_settled by (simp add: c1_def split: option.split)
  have k: "k < length (requests c)" using assms(2) by simp
  have ok: "coord_ok (requests c) (coord c) (minted c)" using assms(1) by (simp add: composer_inv_def requests_ok_def)
  then have dist: "distinct (map rq_id (requests c))" by (simp add: coord_ok_def)
  let ?c' = "request_done k result live c"
  have c': "requests ?c' = remove_nth k (requests c)" "coord ?c' = upload_finally (rq_id ?r) (rq_controller ?r) (coord c)"
    "minted ?c' = minted c" "stores ?c' = stores c1" "deliveries ?c' = deliveries c1"
    by (simp_all add: request_done_def Let_def same flip: c1_def)
  have "owned ?c' p u" if u: "u \<in> set (pool p (stores c1))" for p u
    unfolding owned_def
  proof
    assume flying: "upload_status u = Some ''uploading''"
    then obtain q where q: "q \<in> set (requests c)" "upload_id u = Some (rq_id q)" "pool_of (rq_target q) = p"
        "rq_controller q \<notin> set (aborted (coord c))"
    proof -
      have "owned c1 p u" using inv1 u by (simp add: composer_inv_def)
      with flying show ?thesis using that by (auto simp: owned_def same)
    qed
    have "rq_id q \<noteq> rq_id ?r"
    proof
      assume same_id: "rq_id q = rq_id ?r"
      have "?r \<in> set (requests c)" using k by simp
      with same_id q(1) dist have qr: "q = ?r" by (auto simp: distinct_map dest: inj_onD)
      have "outcome_of (coord c) (rq_controller ?r) result \<noteq> None"
      proof (cases result)
        case (Upload_error b)
        with q(4) qr assms(2) show ?thesis by (cases b) (simp_all add: outcome_of_def)
      qed (simp add: outcome_of_def)
      then obtain outcome where "outcome_of (coord c) (rq_controller ?r) result = Some outcome" by blast
      with u settled_pool [of u p ?r outcome live c] flying q qr show False by (simp add: c1_def)
    qed
    then have "q \<in> set (remove_nth k (requests c))" using q(1) set_remove_nth_distinct(1) [OF dist k] by simp
    with q show "\<exists>r \<in> set (requests ?c'). upload_id u = Some (rq_id r) \<and> pool_of (rq_target r) = p \<and> rq_controller r \<notin> set (aborted (coord ?c'))"
      by (auto simp: c')
  qed
  then show ?thesis
    using inv1 coord_ok_done [OF ok k refl] by (simp add: composer_inv_def requests_ok_def c')
qed

lemma inv_remove:
  assumes "composer_inv c"
  shows "composer_inv (engine_removeUpload t i c)"
proof -
  let ?c' = "engine_removeUpload t i c"
  let ?flying = "list_ex (\<lambda>u. upload_id u = Some i \<and> upload_status u = Some ''uploading'') (pool (pool_of t) (stores c))"
  have c': "requests ?c' = requests c" "minted ?c' = minted c" "deliveries ?c' = deliveries c"
    "coord ?c' = (if ?flying then abortUpload i (coord c) else coord c)"
    "\<And>p. pool p (stores ?c') = (if p = pool_of t then remove_in i (pool p (stores c)) else pool p (stores c))"
    by (simp_all add: engine_removeUpload_def Let_def pool_binding pool_op)
  have ok: "coord_ok (requests c) (coord c) (minted c)" using assms by (simp add: composer_inv_def requests_ok_def)
  have owned_old: "owned c p u" if "u \<in> set (pool p (stores c))" for p u using assms that by (simp add: composer_inv_def)
  have "owned ?c' p u" if u: "u \<in> set (pool p (stores ?c'))" for p u
    unfolding owned_def
  proof
    assume up: "upload_status u = Some ''uploading''"
    have u': "u \<in> set (pool p (stores c))" "p = pool_of t \<Longrightarrow> upload_id u \<noteq> Some i"
      using u by (auto simp: c' remove_in_def split: if_splits)
    then obtain q where q: "q \<in> set (requests c)" "upload_id u = Some (rq_id q)" "pool_of (rq_target q) = p"
        "rq_controller q \<notin> set (aborted (coord c))"
      using owned_old up by (auto simp: owned_def)
    have "rq_controller q \<notin> set (aborted (coord ?c'))"
    proof (cases ?flying)
      case True
      then obtain v where v: "v \<in> set (pool (pool_of t) (stores c))" "upload_id v = Some i" "upload_status v = Some ''uploading''"
        by (auto simp: list_ex_iff)
      then obtain r where r: "r \<in> set (requests c)" "rq_id r = i" "pool_of (rq_target r) = pool_of t"
        using owned_old [OF v(1)] by (auto simp: owned_def)
      have "rq_id q \<noteq> i"
      proof
        assume "rq_id q = i"
        with ok q(1) r(1,2) have "q = r" by (auto simp: coord_ok_def distinct_map dest: inj_onD)
        with q(2,3) r(2,3) u'(2) show False by simp
      qed
      with coord_ok_abort(2) [OF ok q(1) _ q(4)] True show ?thesis by (simp add: c')
    qed (use q(4) in \<open>simp add: c'\<close>)
    with q show "\<exists>r \<in> set (requests ?c'). upload_id u = Some (rq_id r) \<and> pool_of (rq_target r) = p \<and> rq_controller r \<notin> set (aborted (coord ?c'))"
      by (auto simp: c'(1))
  qed
  then show ?thesis using assms coord_ok_abort(1) [OF ok] ok by (simp add: composer_inv_def requests_ok_def c')
qed

lemma inv_logout: "composer_inv c \<Longrightarrow> composer_inv (resetAllRegisteredDrafts c)"
  by (simp add: resetAllRegisteredDrafts_def composer_inv_def requests_ok_def pool_reset coord_ok_abort_all)

lemma inv_retry:
  assumes "composer_inv c" "k < length (deliveries c)"
  shows "composer_inv (retry_due k live c)"
proof -
  have "deliveries c ! k \<in> set (deliveries c)" using assms(2) by simp
  then have "dl_tries (deliveries c ! k) \<le> DELIVER_MAX_TRIES" using assms(1) by (simp add: composer_inv_def)
  moreover have "set (remove_nth k (deliveries c)) \<subseteq> set (deliveries c)"
    by (auto simp: remove_nth_def dest: in_set_takeD in_set_dropD)
  then have "composer_inv (c\<lparr>deliveries := remove_nth k (deliveries c)\<rparr>)"
    using assms(1) by (auto simp: composer_inv_def requests_ok_def owned_def)
  ultimately show ?thesis unfolding retry_due_def Let_def by (intro inv_deliver)
qed

lemma composer_inv_step:
  assumes "composer_inv c" "composer_enabled c e"
  shows "composer_inv (composer_step c e)"
proof (cases e)
  case (PickFile t m i name bytes ty pasted)
  with assms inv_pick show ?thesis by simp
next
  case (RequestDone k result live)
  with assms inv_done show ?thesis by simp
next
  case (RetryDue k live)
  with assms inv_retry show ?thesis by simp
next
  case (RemoveUpload t i)
  with assms inv_remove show ?thesis by simp
next
  case Logout
  with assms inv_logout show ?thesis by simp
next
  case Rehydrate
  have "u \<in> set (pool p (stores (composer_step c Rehydrate))) \<Longrightarrow> upload_status u \<noteq> Some ''uploading''" for p u
    using pool_rehydrated [of p "clock c" "stores c"] normalized_items by auto
  with Rehydrate assms(1) show ?thesis by (auto intro!: composer_inv_kept [of c])
next
  case (EditBody t body)
  then show ?thesis
    by (intro composer_inv_kept [OF assms(1)]) (simp_all add: pool_edit, simp_all add: edit_body_def)
next
  case (ClearTarget t)
  then show ?thesis
    by (intro composer_inv_kept [OF assms(1)]) (auto simp: pool_clear split: if_splits, simp_all add: clear_target_def)
next
  case (SetWorkspace w)
  then show ?thesis
    by (intro composer_inv_kept [OF assms(1)]) (auto simp: setCurrentWorkspace_def pool_def split: option.splits)
next
  case (ClearStorage w)
  then show ?thesis
    by (intro composer_inv_kept [OF assms(1)]) (auto simp: clearRegisteredWorkspaceDrafts_def pool_def split: option.splits)
qed (auto intro!: composer_inv_kept [OF assms(1)])

interpretation composer: invariant_machine composer_start composer_step composer_enabled composer_inv
proof
  show "composer_inv c" if "composer_start c" for c
  proof -
    have "sharedUploads (issue_draft (stores c)) = []"
      using that shared_uploads(6) [of "issue_draft (stores c)"] by (simp add: composer_start_def)
    then have "pool p (stores c) = []" for p
      using that by (cases p) (simp_all add: composer_start_def pool_def uploadsOf_def)
    with that show ?thesis by (simp add: composer_inv_def requests_ok_def coord_ok_def composer_start_def)
  qed
qed (rule composer_inv_step)

section \<open>A submit is not blocked for good\<close>

lemma no_request_open: "composer_inv c \<Longrightarrow> requests c = [] \<Longrightarrow> \<not> isBlocked t c"
  by (auto simp: isBlocked_def hasUploadingDraft_def list_ex_iff pool_binding composer_inv_def owned_def)

definition request_ends :: "(upload_result \<times> editor_answers) list \<Rightarrow> composer_event list" where
  "request_ends rs = map (\<lambda>(result, live). RequestDone 0 result live) rs"

lemma requests_run:
  "length rs = length (requests c) \<Longrightarrow> run_ok composer_step composer_enabled c (request_ends rs) \<Longrightarrow>
   requests (foldl composer_step c (request_ends rs)) = []"
proof (induction rs arbitrary: c)
  case (Cons p rs)
  obtain result live where p: "p = (result, live)" by (cases p)
  let ?c1 = "request_done 0 result live c"
  have "requests ?c1 = remove_nth 0 (requests c)"
    by (simp add: request_done_def Let_def split: option.split)
  then have "length rs = length (requests ?c1)" using Cons.prems(1) by (simp add: remove_nth_def)
  with Cons p show ?case by (simp add: request_ends_def)
qed (simp add: request_ends_def)

text \<open>C12: a submit is never blocked for good: whatever was picked, edited, removed, cleared, loaded for
  another workspace or logged out, once the requests in flight have ended, each in any way
  \<open>uploadFile\<close> may, no draft and no dialog holds a placeholder that blocks it.\<close>

theorem uploads_unblock:
  assumes "reachable composer_start composer_step composer_enabled c"
    and "length rs = length (requests c)" "run_ok composer_step composer_enabled c (request_ends rs)"
  shows "\<not> isBlocked t (foldl composer_step c (request_ends rs))"
  using no_request_open composer.inv_run [OF composer.inv_reachable [OF assms(1)] assms(3)] requests_run [OF assms(2,3)] by blast

definition example_start :: composer where
  "example_start = \<lparr>stores = empty_stores\<lparr>slug := None\<rparr>, coord = \<lparr>controllers = [], aborted = [], next_controller = 0\<rparr>,
     requests = [], deliveries = [], mounted = [1], minted = [], clock = 0\<rparr>"

lemma example_reachable:
  "run_ok composer_step composer_enabled example_start es \<Longrightarrow>
   reachable composer_start composer_step composer_enabled (foldl composer_step example_start es)"
  by (rule reachable_run, rule reachable.init)
    (simp_all add: composer_start_def example_start_def empty_stores_def issue_resetInMemory_def)

definition example_picks :: "composer_event list" where
  "example_picks = [SetWorkspace (Some ''acme''), Rehydrate, PickFile (CommentTarget ''new:i1'') 1 ''u1'' ''a1.png'' 9 ''image/png'' None,
     PickFile (CreateTarget True) 1 ''u2'' ''b.txt'' 3 [] (Some ''long text''), Unmounted 1]"

definition no_editor :: editor_answers where
  "no_editor = \<lparr>ea_live = False, ea_settles = False, ea_inserts = False\<rparr>"

theorem uploads_unblock_witness:
  "isBlocked (CommentTarget ''new:i1'') (foldl composer_step example_start example_picks)
   \<and> \<not> isBlocked (CommentTarget ''new:i1'') (foldl composer_step (foldl composer_step example_start example_picks)
        (request_ends [(Attached example_att, no_editor), (Upload_error False, no_editor)]))"
proof -
  let ?c = "foldl composer_step example_start example_picks"
  have "run_ok composer_step composer_enabled example_start example_picks" by code_simp
  then have r: "reachable composer_start composer_step composer_enabled ?c" by (rule example_reachable)
  have len: "length [(Attached example_att, no_editor), (Upload_error False, no_editor)] = length (requests ?c)" by code_simp
  have ok: "run_ok composer_step composer_enabled ?c (request_ends [(Attached example_att, no_editor), (Upload_error False, no_editor)])"
    by code_simp
  have "isBlocked (CommentTarget ''new:i1'') ?c" by code_simp
  with uploads_unblock [OF r len ok] show ?thesis by blast
qed

section \<open>An upload that was given up never comes back\<close>

text \<open>The upload lists in memory, and those that loading a workspace would bring back.\<close>

definition mem_lists :: "composer_stores \<Rightarrow> json list set" where
  "mem_lists s = insert (sharedUploads (issue_draft s)) ((draft_uploads \<circ> snd) ` set (drafts s))"

definition issue_disk_uploads :: "stored_issue \<Rightarrow> json list" where
  "issue_disk_uploads d = sharedUploads \<lparr>ic_draft = migrateDraft (si_draft d), ic_lastAssigneeType = None, ic_lastAssigneeId = None\<rparr>"

definition disk_lists :: "composer_stores \<Rightarrow> json list set" where
  "disk_lists s = {normalizeStoredUploads (stored_attachments v) | w ds k v. comment_disk s w = Some ds \<and> (k, v) \<in> set ds}
     \<union> {issue_disk_uploads d | w d. issue_disk s w = Some d}"

definition lists_forget :: "jstr \<Rightarrow> composer_stores \<Rightarrow> bool" where
  "lists_forget i s = ((\<forall>us \<in> mem_lists s. \<not> tracks us i \<and> list_all isDraftUploadShape us) \<and> (\<forall>us \<in> disk_lists s. \<not> tracks us i))"

text \<open>The upload \<open>i\<close> was started, and no draft, in memory or stored for any workspace, has a record of it.\<close>

definition forgotten :: "jstr \<Rightarrow> composer \<Rightarrow> bool" where
  "forgotten i c = (i \<in> set (minted c) \<and> lists_forget i (stores c))"

abbreviation good_list :: "jstr \<Rightarrow> json list \<Rightarrow> bool" where
  "good_list i us \<equiv> \<not> tracks us i \<and> list_all isDraftUploadShape us"

lemma shape_settled: "isDraftUploadShape (settled_upload j att)"
  by (simp add: isDraftUploadShape_def upload_id_settled uploaded_settled) (simp add: settled_upload_def is_object_def)

lemma shape_placeholder: "isDraftUploadShape (upload_placeholder j name bytes ty)"
  by (simp add: isDraftUploadShape_def placeholder_id) (simp add: upload_placeholder_def is_object_def upload_status_def str_field_def json_field_def)

lemma good_ops:
  assumes "good_list i us"
  shows "good_list i (settle_in j att us)" "good_list i (remove_in j us)"
    "upload_id u \<noteq> Some i \<Longrightarrow> isDraftUploadShape u \<Longrightarrow> good_list i (add_in u us)"
  using assms shape_settled by (auto simp: upload_simps settle_in_def remove_in_def add_in_def list_all_iff tracks_def list_ex_iff)

lemma normalize_item_shape: "normalize_item x = Some y \<Longrightarrow> isDraftUploadShape y"
  using wrapped_attachment(3) [of x] by (auto simp: normalize_item_def split: if_splits option.splits)

lemma good_normalized: "\<not> tracks (normalizeStoredUploads raw) i \<Longrightarrow> good_list i (normalizeStoredUploads raw)"
  by (auto simp: list_all_iff normalizeStoredUploads_def map_filter_def split: option.splits json.splits dest: normalize_item_shape)

lemma normalize_good:
  assumes "good_list i us"
  shows "\<not> tracks (normalizeStoredUploads (Some (JArr us))) i"
proof -
  have "normalize_item u = Some v \<Longrightarrow> isDraftUploadShape u \<Longrightarrow> v = u" for u v
    by (auto simp: normalize_item_def split: if_splits option.splits)
  with assms show ?thesis
    by (fastforce simp: normalizeStoredUploads_def map_filter_def tracks_def list_ex_iff list_all_iff)
qed

lemma disk_issue_normal: "\<exists>raw. issue_disk_uploads d = normalizeStoredUploads raw"
  unfolding issue_disk_uploads_def by (rule shared_migrate)

lemma field_obj: "json_field (JObj ob) n = obj_get ob n"
  by (simp add: json_field_def obj_get_def)

lemma stored_issue_uploads:
  assumes "good_list i (sharedUploads d)"
  shows "\<not> tracks (issue_disk_uploads (stored_issue_of d)) i"
proof -
  let ?v = "obj_get (ic_shared (ic_draft d)) ''attachments''"
  have "issue_disk_uploads (stored_issue_of d) = normalizeStoredUploads ?v"
    by (simp add: issue_disk_uploads_def stored_issue_of_def migrateDraft_def Let_def draft_json_def isLegacyFlatDraft_def
        field_cons field_obj [of "ic_shared (ic_draft d)"] is_object_def js_nullish_def sharedUploads_def draft_simps)
  moreover have "\<not> tracks (normalizeStoredUploads ?v) i"
  proof (cases "\<exists>us. ?v = Some (JArr us)")
    case True
    with assms normalize_good [where i = i] show ?thesis by (auto simp: sharedUploads_def)
  next
    case False
    then have "normalizeStoredUploads ?v = []" by (auto simp: normalizeStoredUploads_def split: option.split json.split)
    then show ?thesis by (simp add: tracks_def)
  qed
  ultimately show ?thesis by simp
qed

definition drafts_forget :: "jstr \<Rightarrow> comment_drafts \<Rightarrow> bool" where
  "drafts_forget i ds = (\<forall>(k, d) \<in> set ds. good_list i (draft_uploads d))"

lemma lists_forget_iff:
  "lists_forget i s \<longleftrightarrow> good_list i (sharedUploads (issue_draft s)) \<and> drafts_forget i (drafts s)
     \<and> (\<forall>w ds k v. comment_disk s w = Some ds \<longrightarrow> (k, v) \<in> set ds \<longrightarrow> \<not> tracks (normalizeStoredUploads (stored_attachments v)) i)
     \<and> (\<forall>w d. issue_disk s w = Some d \<longrightarrow> \<not> tracks (issue_disk_uploads d) i)"
proof -
  have "(\<forall>us \<in> disk_lists s. \<not> tracks us i) \<longleftrightarrow>
      (\<forall>w ds k v. comment_disk s w = Some ds \<longrightarrow> (k, v) \<in> set ds \<longrightarrow> \<not> tracks (normalizeStoredUploads (stored_attachments v)) i)
      \<and> (\<forall>w d. issue_disk s w = Some d \<longrightarrow> \<not> tracks (issue_disk_uploads d) i)"
    unfolding disk_lists_def by blast
  then show ?thesis
    unfolding lists_forget_def mem_lists_def drafts_forget_def by (auto simp: ball_Un)
qed

lemma stored_forget:
  "drafts_forget i ds \<Longrightarrow> (k, v) \<in> set (stored_drafts ds) \<Longrightarrow> \<not> tracks (normalizeStoredUploads (stored_attachments v)) i"
  using normalize_good [where i = i] by (fastforce simp: stored_drafts_def stored_of_def drafts_forget_def)

lemma forget_set_drafts:
  assumes "lists_forget i s" "drafts_forget i (drafts s) \<Longrightarrow> drafts_forget i (f (drafts s))"
  shows "lists_forget i (set_drafts f s)"
proof -
  have mem: "drafts_forget i (f (drafts s))" using assms by (simp add: lists_forget_iff)
  show ?thesis
    using assms(1) mem stored_forget [OF mem]
    by (cases "slug s") (simp_all add: lists_forget_iff set_drafts_def Let_def)
qed

lemma forget_set_issue:
  assumes "lists_forget i s" "good_list i (sharedUploads (issue_draft s)) \<Longrightarrow> good_list i (sharedUploads (g (issue_draft s)))"
  shows "lists_forget i (set_issue_draft g s)"
proof -
  have mem: "good_list i (sharedUploads (g (issue_draft s)))" using assms by (simp add: lists_forget_iff)
  show ?thesis
    using assms(1) mem stored_issue_uploads [OF mem]
    by (cases "slug s") (simp_all add: lists_forget_iff set_issue_draft_def Let_def)
qed

lemma forget_write:
  assumes "drafts_forget i ds" "good_list i us"
  shows "drafts_forget i (writeDraft t same ds key content us)"
proof -
  let ?d = "\<lparr>draft_content = content, draft_uploads = us, draft_updatedAt = t\<rparr>"
  have "drafts_forget i (obj_set key ?d ds)"
    using assms subsetD [OF set_obj_set [of key ?d ds]] by (fastforce simp: drafts_forget_def)
  moreover have "drafts_forget i (obj_delete key ds)" using assms(1) by (auto simp: drafts_forget_def obj_delete_def)
  ultimately show ?thesis using assms(1) by (simp add: writeDraft_def split: option.split)
qed

lemma forget_uploads: "drafts_forget i ds \<Longrightarrow> good_list i (uploadsOf ds key)"
  by (auto simp: uploadsOf_def drafts_forget_def tracks_def split: option.split dest!: obj_get_in)

lemma forget_comment:
  assumes "drafts_forget i ds"
  shows "drafts_forget i (comment_setDraft t key content ds)"
    and "drafts_forget i (appendToDraftContent t key content ds)"
    and "upload_id u \<noteq> Some i \<Longrightarrow> isDraftUploadShape u \<Longrightarrow> drafts_forget i (comment_addUpload t key u ds)"
    and "drafts_forget i (comment_settleUpload t key j att ds)"
    and "drafts_forget i (comment_removeUpload t key j ds)"
    and "drafts_forget i (comment_clearDraft key ds)"
proof -
  note good = forget_uploads [OF assms, of key]
  show "drafts_forget i (comment_setDraft t key content ds)" "drafts_forget i (appendToDraftContent t key content ds)"
    unfolding comment_setDraft_def appendToDraftContent_def by (rule forget_write [OF assms good])+
  show "drafts_forget i (comment_settleUpload t key j att ds)"
    using forget_write [OF assms good_ops(1) [OF good]] assms by (simp add: comment_settleUpload_def)
  show "drafts_forget i (comment_removeUpload t key j ds)"
    using forget_write [OF assms good_ops(2) [OF good]] assms by (simp add: comment_removeUpload_def)
  show "drafts_forget i (comment_addUpload t key u ds)" if "upload_id u \<noteq> Some i" "isDraftUploadShape u"
    using forget_write [OF assms good_ops(3) [OF good that]] assms
    by (cases "list_ex (\<lambda>v. upload_id v = upload_id u) (uploadsOf ds key)") (simp_all add: comment_addUpload_def add_in_def)
  show "drafts_forget i (comment_clearDraft key ds)"
    using assms by (auto simp: comment_clearDraft_def drafts_forget_def obj_delete_def)
qed

lemma forget_binding:
  assumes "lists_forget i s"
  shows "upload_id u \<noteq> Some i \<Longrightarrow> isDraftUploadShape u \<Longrightarrow> lists_forget i (ub_addUpload (binding_of t tg) u s)"
    and "lists_forget i (ub_settleUpload (binding_of t tg) j att s)"
    and "lists_forget i (ub_removeUpload (binding_of t tg) j s)"
    and "lists_forget i (ub_appendToBody (binding_of t tg) md s)"
proof -
  have shared: "good_list i (sharedUploads (issue_draft s))" using assms by (simp add: lists_forget_iff)
  have upd: "lists_forget i (set_issue_draft (setSharedUploads us) s)" if "good_list i us" for us
    by (rule forget_set_issue [OF assms]) (simp add: draft_simps that)
  have drafts: "lists_forget i (set_drafts f s)" if "\<And>ds. drafts_forget i ds \<Longrightarrow> drafts_forget i (f ds)" for f
    by (rule forget_set_drafts [OF assms that])
  have body: "lists_forget i (set_issue_draft (create_appendToBody agent md) s)" for agent
    by (rule forget_set_issue [OF assms]) (simp add: draft_simps)
  show "lists_forget i (ub_appendToBody (binding_of t tg) md s)"
    by (cases tg) (simp_all add: binding_of_def comment_binding_def create_binding_def drafts forget_comment body)
  show "lists_forget i (ub_settleUpload (binding_of t tg) j att s)"
    using assms upd [OF good_ops(1) [OF shared]]
    by (cases tg) (simp_all add: binding_of_def comment_binding_def create_binding_def drafts forget_comment)
  show "lists_forget i (ub_removeUpload (binding_of t tg) j s)"
    using assms upd [OF good_ops(2) [OF shared]]
    by (cases tg) (simp_all add: binding_of_def comment_binding_def create_binding_def drafts forget_comment)
  show "lists_forget i (ub_addUpload (binding_of t tg) u s)" if "upload_id u \<noteq> Some i" "isDraftUploadShape u"
    using assms upd [OF good_ops(3) [OF shared that]] that
    by (cases tg; cases "list_ex (\<lambda>v. upload_id v = upload_id u) (sharedUploads (issue_draft s))")
      (simp_all add: binding_of_def comment_binding_def create_binding_def drafts forget_comment add_in_def)
qed

lemma forget_pasted: "lists_forget i s \<Longrightarrow> lists_forget i (deliverPastedTextBack (binding_of t tg) txt s)"
  by (simp add: deliverPastedTextBack_def forget_binding)

lemma forget_delivered: "lists_forget i (stores c) \<Longrightarrow> lists_forget i (stores (deliver tg j att tries live c))"
  using forget_binding(4) [of i "stores c" "clock c" tg "attachmentMarkdown att"]
  by (simp add: deliver_def deliverFinishedUpload_def Let_def)

lemma forget_settled:
  assumes "lists_forget i (stores c)"
  shows "lists_forget i (stores (upload_settled r outcome live c))"
proof (cases outcome)
  case (Uploaded att)
  let ?c1 = "c\<lparr>stores := ub_settleUpload (binding_of (clock c) (rq_target r)) (rq_id r) att (stores c)\<rparr>"
  have "lists_forget i (stores ?c1)" using assms by (simp add: forget_binding)
  with forget_delivered [OF this] assms Uploaded show ?thesis by (simp add: upload_settled_def Let_def)
next
  case Failed
  with assms show ?thesis
    by (simp add: upload_settled_def Let_def forget_binding forget_pasted split: option.split)
qed

lemma forget_rehydrated:
  assumes "lists_forget i s"
  shows "lists_forget i (rehydrate_issue_draft (rehydrate_comments t s))"
proof -
  let ?found = "case (case slug s of Some w \<Rightarrow> comment_disk s w | None \<Rightarrow> None) of Some ds \<Rightarrow> ds | None \<Rightarrow> stored_drafts (drafts s)"
  have "\<not> tracks (normalizeStoredUploads (stored_attachments v)) i" if "(k, v) \<in> set ?found" for k v
    using that assms stored_forget [of i "drafts s" k v] by (auto simp: lists_forget_iff split: option.splits)
  then have good: "good_list i (normalizeStoredUploads (stored_attachments v))" if "(k, v) \<in> set ?found" for k v
    using that good_normalized by blast
  have "drafts_forget i (pruneStaleDrafts t ?found)"
    unfolding drafts_forget_def using good prune_entries [of _ _ t ?found] by fastforce
  moreover have "good_list i (sharedUploads (merge_issue_draft (case slug s of Some w \<Rightarrow> issue_disk s w | None \<Rightarrow> None) d))" for d
  proof -
    let ?p = "case slug s of Some w \<Rightarrow> issue_disk s w | None \<Rightarrow> None"
    have "sharedUploads (merge_issue_draft ?p d)
        = (case ?p of Some q \<Rightarrow> issue_disk_uploads q | None \<Rightarrow> sharedUploads (issue_resetInMemory d))"
      by (auto simp: merge_issue_draft_def issue_disk_uploads_def issue_resetInMemory_def sharedUploads_def split: option.split)
    moreover have "good_list i (issue_disk_uploads q)" if "?p = Some q" for q
    proof -
      have "\<not> tracks (issue_disk_uploads q) i" using that assms unfolding lists_forget_iff by (cases "slug s") auto
      then show ?thesis using disk_issue_normal [of q] good_normalized by metis
    qed
    ultimately show ?thesis by (auto simp: shared_uploads(6) tracks_def split: option.split)
  qed
  ultimately show ?thesis
    using assms by (cases "slug s") (simp_all add: lists_forget_iff rehydrate_issue_draft_def rehydrate_comments_def Let_def)
qed

lemma forget_reset: "lists_forget i s \<Longrightarrow> lists_forget i (reset_stores s)"
  unfolding reset_stores_def
  by (intro forget_set_issue forget_set_drafts) (simp_all add: drafts_forget_def shared_uploads(6) tracks_def)

lemma forgotten_step:
  assumes "forgotten i c" "composer_enabled c e"
  shows "forgotten i (composer_step c e)"
proof -
  have s: "lists_forget i (stores c)" and m: "i \<in> set (minted c)" using assms(1) by (simp_all add: forgotten_def)
  show ?thesis
  proof (cases e)
    case (PickFile t k j name bytes ty pasted)
    then have "j \<noteq> i" using assms(2) m by auto
    with PickFile s m show ?thesis
      by (simp add: forgotten_def handleUpload_def Let_def startUpload_def forget_pasted forget_binding placeholder_id shape_placeholder
          split: option.split)
  next
    case (RequestDone k result live)
    with s m show ?thesis
      by (simp add: forgotten_def request_done_def Let_def forget_settled split: option.split)
  next
    case (RetryDue k live)
    with s m show ?thesis
      using forget_delivered [of i "c\<lparr>deliveries := remove_nth k (deliveries c)\<rparr>"]
      by (simp add: forgotten_def retry_due_def Let_def) (simp add: deliver_def prod.case_eq_if)
  next
    case (RemoveUpload t j)
    with s m show ?thesis by (simp add: forgotten_def engine_removeUpload_def Let_def forget_binding)
  next
    case (EditBody t body)
    with s m show ?thesis
      by (cases t) (auto simp: forgotten_def edit_body_def draft_simps intro!: forget_set_drafts forget_comment forget_set_issue)
  next
    case (ClearTarget t)
    with s m show ?thesis
      by (cases t) (auto simp: forgotten_def clear_target_def draft_simps tracks_def intro!: forget_set_drafts forget_comment forget_set_issue)
  next
    case Logout
    with s m show ?thesis by (simp add: forgotten_def resetAllRegisteredDrafts_def forget_reset)
  next
    case Rehydrate
    with s m show ?thesis by (simp add: forgotten_def forget_rehydrated)
  next
    case (SetWorkspace w)
    with s m show ?thesis by (simp add: forgotten_def lists_forget_iff setCurrentWorkspace_def)
  next
    case (ClearStorage w)
    with s m show ?thesis by (simp add: forgotten_def lists_forget_iff clearRegisteredWorkspaceDrafts_def)
  qed (use s m in \<open>simp_all add: forgotten_def\<close>)
qed

text \<open>C17: an upload that was given up never comes back: once no draft in memory and none stored for any
  workspace has a record of an upload that was started (it was removed, submitted, cleared, or its user
  logged out), no later event, not the end of its request either, brings one back.\<close>

theorem forgotten_upload_stays_away:
  assumes "forgotten i c" "run_ok composer_step composer_enabled c es"
  shows "forgotten i (foldl composer_step c es)"
  using assms by (induction es arbitrary: c) (auto intro: forgotten_step)

text \<open>A session that has logged out while a request was in flight.\<close>

definition logged_out :: composer where
  "logged_out = example_start\<lparr>minted := [''u1''], coord := \<lparr>controllers = [], aborted = [0], next_controller = 1\<rparr>,
     requests := [\<lparr>rq_controller = 0, rq_id = ''u1'', rq_target = CommentTarget ''new:i1'', rq_mount = 1, rq_pasted = None\<rparr>]\<rparr>"

theorem forgotten_upload_stays_away_witness:
  "requests logged_out \<noteq> [] \<and> forgotten ''u1'' (foldl composer_step logged_out
     [SetWorkspace (Some ''acme''), Rehydrate, RequestDone 0 (Attached example_att) no_editor])"
proof -
  have "sharedUploads (issue_draft empty_stores) = []" by code_simp
  then have "forgotten ''u1'' logged_out"
    by (simp add: forgotten_def logged_out_def example_start_def lists_forget_iff tracks_def)
      (simp add: empty_stores_def drafts_forget_def)
  moreover have "run_ok composer_step composer_enabled logged_out
     [SetWorkspace (Some ''acme''), Rehydrate, RequestDone 0 (Attached example_att) no_editor]" by code_simp
  ultimately have "forgotten ''u1'' (foldl composer_step logged_out
     [SetWorkspace (Some ''acme''), Rehydrate, RequestDone 0 (Attached example_att) no_editor])"
    by (rule forgotten_upload_stays_away)
  moreover have "requests logged_out \<noteq> []" by (simp add: logged_out_def)
  ultimately show ?thesis by blast
qed

end
