(* ===== verification/Draft_Properties.thy ===== *)
theory Draft_Properties
  imports Upload_Properties
begin

text \<open>
  The create dialog's draft survives a restart, and what a switch to a workspace without stored drafts
  leaves in memory.
\<close>

section \<open>Spreads\<close>

lemma distinct_obj_set: "distinct (obj_keys ob) \<Longrightarrow> distinct (obj_keys (obj_set k v ob))"
proof -
  have "k' \<notin> set (obj_keys ob) \<Longrightarrow> distinct (obj_keys ob) \<Longrightarrow> distinct (obj_keys (obj_insert k' v ob))" for k'
  proof (induction k' v ob rule: obj_insert.induct)
    case (2 k v k2 v2 ob)
    then have "k2 \<notin> set (obj_keys (obj_insert k v ob))" by (auto simp: set_keys_obj_insert) (auto simp: obj_keys_def)
    with 2 show ?case by (auto simp: obj_keys_def)
  qed (simp add: obj_keys_def)
  then show "distinct (obj_keys ob) \<Longrightarrow> distinct (obj_keys (obj_set k v ob))"
    by (auto simp: obj_set_def)
qed

lemma distinct_obj_assign: "distinct (obj_keys a) \<Longrightarrow> distinct (obj_keys (obj_assign a b))"
  unfolding obj_assign_def by (induction b arbitrary: a) (auto simp: distinct_obj_set)

lemma obj_get_assign_keep: "obj_get a k \<noteq> None \<Longrightarrow> obj_get (obj_assign a b) k \<noteq> None"
  unfolding obj_assign_def by (induction b arbitrary: a) (auto simp: js_simps)

lemma obj_get_assign:
  assumes "distinct (obj_keys b)"
  shows "obj_get (obj_assign a b) k = (case obj_get b k of Some v \<Rightarrow> Some v | None \<Rightarrow> obj_get a k)"
  using assms unfolding obj_assign_def
proof (induction b arbitrary: a)
  case (Cons kv b)
  obtain k' v where kv: "kv = (k', v)" by (cases kv)
  with Cons.prems have "distinct (obj_keys b)" "obj_get b k' = None"
    by (auto simp: obj_keys_def obj_get_def map_of_eq_None_iff)
  moreover have "obj_get (kv # b) k = (if k = k' then Some v else obj_get b k)" by (simp add: kv obj_get_def)
  ultimately show ?case using Cons.IH [of "obj_set k' v a"] kv by (simp add: js_simps split: option.split)
qed simp

text \<open>Two objects with the same properties, in whatever order.\<close>

definition same_object :: "json jsobj \<Rightarrow> json jsobj \<Rightarrow> bool" where
  "same_object a b = (\<forall>k. obj_get a k = obj_get b k)"

text \<open>An object with every property of \<open>empty\<close>.\<close>

definition completes :: "json jsobj \<Rightarrow> json jsobj \<Rightarrow> bool" where
  "completes empty_data ob = (distinct (obj_keys ob) \<and> (\<forall>k. obj_get empty_data k \<noteq> None \<longrightarrow> obj_get ob k \<noteq> None))"

lemma completes_assign: "completes e ob \<Longrightarrow> completes e (obj_assign ob patch)"
  by (simp add: completes_def distinct_obj_assign obj_get_assign_keep)

lemma completes_self: "distinct (obj_keys e) \<Longrightarrow> completes e e"
  by (simp add: completes_def)

lemma read_back_same: "completes e ob \<Longrightarrow> same_object (obj_assign e ob) ob"
  by (auto simp: completes_def same_object_def obj_get_assign split: option.split)

section \<open>Operations on the dialog\<close>

datatype create_op =
  SetShared "json jsobj"
  | SetUploads "json list"
  | SetManual "json jsobj"
  | SetAgent "json jsobj"
  | SetMode bool
  | ClearCreate
  | SetLast "json option" "json option"

fun create_step :: "issue_draft_store \<Rightarrow> create_op \<Rightarrow> issue_draft_store" where
  "create_step s (SetShared patch) = setShared patch s"
| "create_step s (SetUploads us) = setSharedUploads us s"
| "create_step s (SetManual patch) = setManual patch s"
| "create_step s (SetAgent patch) = setAgent patch s"
| "create_step s (SetMode agent) = setActiveMode agent s"
| "create_step s ClearCreate = issue_clearDraft s"
| "create_step s (SetLast ty i) = setLastAssignee ty i s"

text \<open>A patch of the shared slot that brings no upload list of its own; those go through \<open>SetUploads\<close>.\<close>

fun create_enabled :: "issue_draft_store \<Rightarrow> create_op \<Rightarrow> bool" where
  "create_enabled s (SetShared patch) = (''attachments'' \<notin> set (obj_keys patch))"
| "create_enabled s _ = True"

definition draft_ok :: "issue_draft_store \<Rightarrow> bool" where
  "draft_ok s = (completes emptyShared (ic_shared (ic_draft s)) \<and> completes emptyManual (ic_manual (ic_draft s))
     \<and> completes emptyAgent (ic_agent (ic_draft s)) \<and> (\<exists>us. obj_get (ic_shared (ic_draft s)) ''attachments'' = Some (JArr us)))"

definition migrated :: "json option \<Rightarrow> issue_draft_store" where
  "migrated raw = \<lparr>ic_draft = migrateDraft raw, ic_lastAssigneeType = None, ic_lastAssigneeId = None\<rparr>"

lemma completes_empty: "completes emptyShared emptyShared" "completes emptyManual emptyManual" "completes emptyAgent emptyAgent"
  by (rule completes_self, simp add: emptyShared_def emptyManual_def emptyAgent_def obj_keys_def)+

lemma draft_ok_migrated: "draft_ok (migrated raw)"
proof -
  have snoc: "obj_assign a (b @ [kv]) = obj_assign (obj_assign a b) [kv]" for a b and kv :: "jstr \<times> json"
    by (simp add: obj_assign_def)
  have "obj_get (obj_assign a (b @ [p, q, (''attachments'', v)])) ''attachments'' = Some v" for a b p q and v :: json
    using snoc [of a "b @ [p, q]" "(''attachments'', v)"] by (simp add: draft_simps)
  then show ?thesis
    by (simp add: draft_ok_def migrated_def migrateDraft_def Let_def completes_assign completes_empty draft_simps)
qed

lemma obj_get_assign_absent: "k \<notin> set (obj_keys b) \<Longrightarrow> obj_get (obj_assign a b) k = obj_get a k"
  unfolding obj_assign_def by (induction b arbitrary: a) (auto simp: js_simps obj_keys_def)

lemma draft_ok_step: "draft_ok s \<Longrightarrow> create_enabled s e \<Longrightarrow> draft_ok (create_step s e)"
proof (cases e)
  case ClearCreate
  then show ?thesis
    by (simp add: draft_ok_def issue_clearDraft_def completes_assign completes_empty) (simp add: emptyShared_def obj_get_def)
qed (auto simp: draft_ok_def setShared_def setSharedUploads_def setManual_def setAgent_def setActiveMode_def
      setLastAssignee_def completes_assign draft_simps obj_get_assign_absent)

interpretation create_draft: invariant_machine "\<lambda>s. \<exists>raw. s = migrated raw" create_step create_enabled draft_ok
  by unfold_locales (auto simp: draft_ok_migrated draft_ok_step)

text \<open>What a reload gives: the store that a fresh one becomes when it merges what was stored.\<close>

definition reloaded :: "issue_draft_store \<Rightarrow> issue_draft_store" where
  "reloaded s = merge_issue_draft (Some (stored_issue_of s)) (issue_resetInMemory s)"

lemma reload_ok:
  assumes "draft_ok s"
  shows "same_object (ic_manual (ic_draft (reloaded s))) (ic_manual (ic_draft s))"
    and "same_object (ic_agent (ic_draft (reloaded s))) (ic_agent (ic_draft s))"
    and "ic_agent_mode (ic_draft (reloaded s)) = ic_agent_mode (ic_draft s)"
    and "sharedUploads (reloaded s) = normalizeStoredUploads (Some (JArr (sharedUploads s)))"
    and "\<And>k. k \<noteq> ''attachments'' \<Longrightarrow> obj_get (ic_shared (ic_draft (reloaded s))) k = obj_get (ic_shared (ic_draft s)) k"
    and "ic_lastAssigneeType (reloaded s) = ic_lastAssigneeType s" "ic_lastAssigneeId (reloaded s) = ic_lastAssigneeId s"
proof -
  let ?d = "ic_draft s"
  obtain us where us: "obj_get (ic_shared ?d) ''attachments'' = Some (JArr us)" using assms by (auto simp: draft_ok_def)
  have d: "ic_draft (reloaded s) =
      \<lparr>ic_shared = obj_assign (obj_assign emptyShared (ic_shared ?d)) [(''attachments'', JArr (normalizeStoredUploads (Some (JArr us))))],
       ic_manual = obj_assign emptyManual (ic_manual ?d), ic_agent = obj_assign emptyAgent (ic_agent ?d),
       ic_agent_mode = ic_agent_mode ?d\<rparr>"
    by (simp add: reloaded_def merge_issue_draft_def stored_issue_of_def migrateDraft_def Let_def draft_json_def isLegacyFlatDraft_def
        field_cons field_obj [of "ic_shared ?d"] is_object_def js_nullish_def json_entries_def us)
  show "same_object (ic_manual (ic_draft (reloaded s))) (ic_manual ?d)" "same_object (ic_agent (ic_draft (reloaded s))) (ic_agent ?d)"
    using assms read_back_same by (simp_all add: d draft_ok_def)
  show "ic_agent_mode (ic_draft (reloaded s)) = ic_agent_mode ?d" by (simp add: d)
  show "sharedUploads (reloaded s) = normalizeStoredUploads (Some (JArr (sharedUploads s)))"
    by (simp add: sharedUploads_def d us draft_simps)
  show "obj_get (ic_shared (ic_draft (reloaded s))) k = obj_get (ic_shared ?d) k" if "k \<noteq> ''attachments''" for k
    using that assms read_back_same [of emptyShared "ic_shared ?d"] by (simp add: d draft_simps draft_ok_def same_object_def)
  show "ic_lastAssigneeType (reloaded s) = ic_lastAssigneeType s" "ic_lastAssigneeId (reloaded s) = ic_lastAssigneeId s"
    by (simp_all add: reloaded_def merge_issue_draft_def stored_issue_of_def issue_resetInMemory_def split: option.split)
qed

text \<open>The draft of the create dialog survives a restart: whatever an older build had stored and
  whatever was then edited, switched and cleared, storing the draft and reading it back gives the same
  manual form, prompt, mode, shared fields and last assignee, and the uploads in the normal form that
  drops those in flight.\<close>

theorem create_draft_survives_restart:
  assumes "run_ok create_step create_enabled (migrated raw) es"
  shows "let s = foldl create_step (migrated raw) es; s' = reloaded s
    in same_object (ic_manual (ic_draft s')) (ic_manual (ic_draft s)) \<and> same_object (ic_agent (ic_draft s')) (ic_agent (ic_draft s))
      \<and> ic_agent_mode (ic_draft s') = ic_agent_mode (ic_draft s)
      \<and> same_object (obj_delete ''attachments'' (ic_shared (ic_draft s'))) (obj_delete ''attachments'' (ic_shared (ic_draft s)))
      \<and> sharedUploads s' = normalizeStoredUploads (Some (JArr (sharedUploads s)))
      \<and> ic_lastAssigneeType s' = ic_lastAssigneeType s \<and> ic_lastAssigneeId s' = ic_lastAssigneeId s"
  using reload_ok [OF create_draft.inv_run [OF draft_ok_migrated assms]]
  by (simp add: Let_def same_object_def js_simps)

theorem create_draft_survives_restart_witness:
  "let es = [SetManual [(''title'', JStr ''Crash'')], SetUploads [upload_placeholder ''u1'' ''a.png'' 3 []], SetMode True];
       s = foldl create_step (migrated (Some (JObj [(''title'', JStr ''Old''), (''labelIds'', JArr [JStr ''bug''])]))) es
   in obj_get (ic_manual (ic_draft (reloaded s))) ''title'' = Some (JStr ''Crash'') \<and> ic_agent_mode (ic_draft (reloaded s))
      \<and> sharedUploads s \<noteq> [] \<and> sharedUploads (reloaded s) = []"
proof -
  let ?es = "[SetManual [(''title'', JStr ''Crash'')], SetUploads [upload_placeholder ''u1'' ''a.png'' 3 []], SetMode True]"
  let ?raw = "Some (JObj [(''title'', JStr ''Old''), (''labelIds'', JArr [JStr ''bug''])])"
  let ?s = "foldl create_step (migrated ?raw) ?es"
  have "run_ok create_step create_enabled (migrated ?raw) ?es" by simp
  note back_to = create_draft_survives_restart [OF this, unfolded Let_def same_object_def]
  have "obj_get (ic_manual (ic_draft ?s)) ''title'' = Some (JStr ''Crash'')" "ic_agent_mode (ic_draft ?s)" "sharedUploads ?s \<noteq> []"
    "normalizeStoredUploads (Some (JArr (sharedUploads ?s))) = []"
    by code_simp+
  with back_to show ?thesis unfolding Let_def by metis
qed

section \<open>Switching to a workspace with nothing stored\<close>

text \<open>Switching to a workspace with nothing stored takes drafts along: a comment draft written in one
  workspace stays in memory in the other and its next edit stores it there, and the assignee picked last
  in the first workspace seeds the create dialog of the second.\<close>

theorem drafts_follow_into_new_workspace:
  "let s1 = set_issue_draft (setLastAssignee (Some (JStr ''member'')) (Some (JStr ''acme-member'')))
              (set_drafts (comment_setDraft 5 ''new:acme-issue'' ''secret'') empty_stores);
       s2 = rehydrate_issue_draft (rehydrate_comments 6 (setCurrentWorkspace (Some ''beta'') s1));
       s3 = set_issue_draft issue_clearDraft (set_drafts (comment_setDraft 7 ''new:beta-issue'' ''hello'') s2)
   in contentOf (drafts s2) ''new:acme-issue'' = ''secret''
      \<and> map_option (map fst) (comment_disk s3 ''beta'') = Some [''new:acme-issue'', ''new:beta-issue'']
      \<and> obj_get (ic_manual (ic_draft (issue_draft s3))) ''assigneeId'' = Some (JStr ''acme-member'')"
  by code_simp

end
