(* ===== verification/Shortcuts.thy ===== *)
theory Shortcuts
  imports JS_Object Machines
begin

text \<open>
  Keyboard shortcuts: chords and the policy for them (\<open>packages/core/shortcuts/definitions.ts\<close>),
  the store of overrides with its migration and hydration (\<open>packages/core/shortcuts/store.ts\<close>), the
  recorder of the settings page (\<open>packages/views/settings/components/keyboard-shortcuts-tab.tsx\<close>) and
  the global handler (\<open>packages/views/layout/global-shortcuts.tsx\<close>).
\<close>

section \<open>Chords\<close>

datatype shortcut_platform = Macos | Windows | Linux | Unknown_os

datatype shortcut_runtime = Web | Desktop

record shortcut_modifiers =
  m_primary :: bool
  m_control :: bool
  m_meta :: bool
  m_alt :: bool
  m_shift :: bool

record shortcut_chord =
  ch_key :: jstr
  ch_mods :: shortcut_modifiers

definition no_modifiers :: shortcut_modifiers where
  "no_modifiers = \<lparr>m_primary = False, m_control = False, m_meta = False, m_alt = False, m_shift = False\<rparr>"

definition createShortcutChord :: "jstr \<Rightarrow> shortcut_modifiers \<Rightarrow> shortcut_chord" where
  "createShortcutChord key mods = \<lparr>ch_key = key, ch_mods = mods\<rparr>"

definition plain_chord :: "jstr \<Rightarrow> shortcut_chord" where
  "plain_chord key = createShortcutChord key no_modifiers"

definition primary_chord :: "jstr \<Rightarrow> shortcut_chord" where
  "primary_chord key = createShortcutChord key (no_modifiers\<lparr>m_primary := True\<rparr>)"

section \<open>Actions\<close>

datatype shortcut_action =
  OpenSearch | CreateIssue | ToggleSidebar | FindInIssue | Send | GoInbox | GoChat | GoMyIssues | GoIssues
  | GoProjects | GoAutopilots | GoAgents | GoSquads | GoUsage | GoRuntimes | GoSkills | GoSettings

definition SHORTCUT_ACTIONS :: "shortcut_action list" where
  "SHORTCUT_ACTIONS = [OpenSearch, CreateIssue, ToggleSidebar, FindInIssue, Send, GoInbox, GoChat, GoMyIssues, GoIssues,
     GoProjects, GoAutopilots, GoAgents, GoSquads, GoUsage, GoRuntimes, GoSkills, GoSettings]"

fun action_id :: "shortcut_action \<Rightarrow> jstr" where
  "action_id OpenSearch = ''openSearch''" | "action_id CreateIssue = ''createIssue''"
| "action_id ToggleSidebar = ''toggleSidebar''" | "action_id FindInIssue = ''findInIssue''" | "action_id Send = ''send''"
| "action_id GoInbox = ''goInbox''" | "action_id GoChat = ''goChat''" | "action_id GoMyIssues = ''goMyIssues''"
| "action_id GoIssues = ''goIssues''" | "action_id GoProjects = ''goProjects''" | "action_id GoAutopilots = ''goAutopilots''"
| "action_id GoAgents = ''goAgents''" | "action_id GoSquads = ''goSquads''" | "action_id GoUsage = ''goUsage''"
| "action_id GoRuntimes = ''goRuntimes''" | "action_id GoSkills = ''goSkills''" | "action_id GoSettings = ''goSettings''"

fun defaultShortcut :: "shortcut_action \<Rightarrow> shortcut_chord option" where
  "defaultShortcut OpenSearch = Some (primary_chord ''K'')"
| "defaultShortcut CreateIssue = Some (plain_chord ''C'')"
| "defaultShortcut ToggleSidebar = Some (primary_chord ''B'')"
| "defaultShortcut FindInIssue = Some (primary_chord ''F'')"
| "defaultShortcut Send = Some (primary_chord ''Enter'')"
| "defaultShortcut _ = None"

definition allowInEditable :: "shortcut_action \<Rightarrow> bool" where
  "allowInEditable a = (a \<in> {OpenSearch, FindInIssue, Send})"

section \<open>Key events\<close>

text \<open>A key event: \<open>key\<close> may be missing, and \<open>composing\<close> says whether an input method is composing.\<close>

record key_event =
  ke_key :: "jstr option"
  ke_meta :: bool
  ke_ctrl :: bool
  ke_alt :: bool
  ke_shift :: bool
  ke_altGraph :: bool
  ke_repeat :: bool
  ke_composing :: bool
  ke_prevented :: bool

definition MODIFIER_KEYS :: "jstr list" where
  "MODIFIER_KEYS = [''Alt'', ''AltGraph'', ''CapsLock'', ''Control'', ''Fn'', ''FnLock'', ''Hyper'',
     ''Meta'', ''NumLock'', ''ScrollLock'', ''Shift'', ''Super'', ''Symbol'', ''SymbolLock'']"

definition NON_ACTIONABLE_KEYS :: "jstr list" where
  "NON_ACTIONABLE_KEYS = [''Dead'', ''Process'', ''Unidentified'']"

definition KEY_LABELS :: "(jstr \<times> jstr) list" where
  "KEY_LABELS = [('' '', ''Space''), (''ArrowUp'', ''Up''), (''ArrowDown'', ''Down''), (''ArrowLeft'', ''Left''), (''ArrowRight'', ''Right''),
     (''Esc'', ''Escape''), (''+'', ''Plus''), (''-'', ''Minus''), (''='', ''Equals''), (''_'', ''Underscore'')]"

definition upper_char :: "char \<Rightarrow> char" where
  "upper_char c = (let n = (of_char c :: nat) in if 97 \<le> n \<and> n \<le> 122 then char_of (n - 32) else c)"

definition is_letter :: "char \<Rightarrow> bool" where
  "is_letter c = (let n = (of_char c :: nat) in (97 \<le> n \<and> n \<le> 122) \<or> (65 \<le> n \<and> n \<le> 90))"

definition eventKey :: "key_event \<Rightarrow> jstr option" where
  "eventKey e =
     (case ke_key e of
        None \<Rightarrow> None
      | Some k \<Rightarrow>
          if k \<in> set MODIFIER_KEYS \<or> k \<in> set NON_ACTIONABLE_KEYS then None
          else
            (let key = (case map_of KEY_LABELS k of Some l \<Rightarrow> l | None \<Rightarrow> k)
             in case key of [c] \<Rightarrow> if is_letter c then Some [upper_char c] else Some key | _ \<Rightarrow> Some key))"

definition isShortcutChordActionable :: "shortcut_chord \<Rightarrow> bool" where
  "isShortcutChordActionable sc = (ch_key sc \<noteq> [] \<and> ch_key sc \<notin> set MODIFIER_KEYS \<and> ch_key sc \<notin> set NON_ACTIONABLE_KEYS)"

definition shortcutFromEvent :: "key_event \<Rightarrow> shortcut_platform \<Rightarrow> shortcut_chord option" where
  "shortcutFromEvent e platform =
     (if ke_altGraph e then None
      else
        (case eventKey e of
           None \<Rightarrow> None
         | Some key \<Rightarrow>
             if key = [] then None
             else
               (let mac = (platform = Macos)
                in Some (createShortcutChord key
                     \<lparr>m_primary = (if mac then ke_meta e else ke_ctrl e), m_control = (if mac then ke_ctrl e else False),
                      m_meta = (if mac then False else ke_meta e), m_alt = ke_alt e, m_shift = ke_shift e\<rparr>))))"

definition shortcutChordEquals :: "shortcut_chord option \<Rightarrow> shortcut_chord option \<Rightarrow> bool" where
  "shortcutChordEquals left right =
     (case (left, right) of
        (Some l, Some r) \<Rightarrow>
          ch_key l = ch_key r \<and> m_primary (ch_mods l) = m_primary (ch_mods r) \<and> m_control (ch_mods l) = m_control (ch_mods r)
          \<and> m_meta (ch_mods l) = m_meta (ch_mods r) \<and> m_alt (ch_mods l) = m_alt (ch_mods r) \<and> m_shift (ch_mods l) = m_shift (ch_mods r)
      | (None, None) \<Rightarrow> True
      | _ \<Rightarrow> False)"

definition shortcutMatchesEvent :: "shortcut_chord option \<Rightarrow> key_event \<Rightarrow> shortcut_platform \<Rightarrow> bool" where
  "shortcutMatchesEvent sc e platform =
     (case sc of
        None \<Rightarrow> False
      | Some _ \<Rightarrow>
          (case shortcutFromEvent e platform of None \<Rightarrow> False | Some f \<Rightarrow> shortcutChordEquals sc (Some f)))"

definition isPlainShortcut :: "shortcut_chord option \<Rightarrow> jstr \<Rightarrow> bool" where
  "isPlainShortcut sc key = shortcutChordEquals sc (Some (plain_chord key))"

section \<open>The policy\<close>

definition PRIMARY_RESERVED_KEYS :: "jstr list" where
  "PRIMARY_RESERVED_KEYS = [''W'', ''R'', ''Q'', ''A'', ''C'', ''V'', ''X'', ''Y'', ''Z'',
     ''Equals'', ''Plus'', ''Minus'', ''Underscore'', ''0'']"

definition BROWSER_ONLY_PRIMARY_RESERVED_KEYS :: "jstr list" where
  "BROWSER_ONLY_PRIMARY_RESERVED_KEYS = [''P'', ''L'', ''T'', ''N'', ''D'', ''U'']"

definition isReservedShortcut :: "shortcut_chord \<Rightarrow> shortcut_platform \<Rightarrow> shortcut_runtime \<Rightarrow> bool" where
  "isReservedShortcut sc platform runtime =
     (let m = ch_mods sc; key = ch_key sc
      in key = ''F5''
         \<or> (m_primary m \<and> key \<in> set PRIMARY_RESERVED_KEYS)
         \<or> (m_primary m \<and> key \<in> set BROWSER_ONLY_PRIMARY_RESERVED_KEYS
            \<and> (runtime \<noteq> Desktop \<or> \<not> (\<not> m_control m \<and> \<not> m_meta m \<and> \<not> m_alt m \<and> \<not> m_shift m)))
         \<or> (if platform = Macos then
              (m_primary m \<and> key \<in> {''Space'', ''Tab'', ''M'', ''H''}) \<or> (m_control m \<and> key \<in> {''Up'', ''Down'', ''Left'', ''Right''})
            else m_meta m \<or> (m_alt m \<and> key \<in> {''Tab'', ''F4''})))"

definition PLAIN_GLOBAL_RESERVED_KEYS :: "jstr list" where
  "PLAIN_GLOBAL_RESERVED_KEYS = [''Enter'', ''Space'', ''Tab'', ''Escape'', ''Backspace'', ''Delete'',
     ''Up'', ''Down'', ''Left'', ''Right'', ''Home'', ''End'', ''PageUp'', ''PageDown'']"

definition hasShortcutModifier :: "shortcut_chord \<Rightarrow> bool" where
  "hasShortcutModifier sc = (m_primary (ch_mods sc) \<or> m_control (ch_mods sc) \<or> m_meta (ch_mods sc) \<or> m_alt (ch_mods sc) \<or> m_shift (ch_mods sc))"

definition hasCommandModifier :: "shortcut_chord \<Rightarrow> bool" where
  "hasCommandModifier sc = (m_primary (ch_mods sc) \<or> m_control (ch_mods sc) \<or> m_meta (ch_mods sc))"

definition isShortcutAllowedForAction ::
  "shortcut_action \<Rightarrow> shortcut_chord \<Rightarrow> shortcut_platform \<Rightarrow> shortcut_runtime \<Rightarrow> bool" where
  "isShortcutAllowedForAction a sc platform runtime =
     (if \<not> isShortcutChordActionable sc then False
      else if isReservedShortcut sc platform runtime then False
      else if ch_key sc = ''Tab'' then False
      else if a = Send then
        shortcutChordEquals (Some sc) (Some (plain_chord ''Enter'')) \<or> shortcutChordEquals (Some sc) (Some (primary_chord ''Enter''))
      else if allowInEditable a then hasCommandModifier sc
      else hasShortcutModifier sc \<or> ch_key sc \<notin> set PLAIN_GLOBAL_RESERVED_KEYS)"

definition parseLegacyShortcut :: "jstr \<Rightarrow> shortcut_chord option" where
  "parseLegacyShortcut v =
     (if v = [] then None
      else
        (let parts = str_split (CHR ''+'') v; key = last parts; mods = butlast parts
         in if key = [] then None
            else if \<not> set mods \<subseteq> {''Mod'', ''Ctrl'', ''Meta'', ''Alt'', ''Shift''} then None
            else Some (createShortcutChord key
              \<lparr>m_primary = ''Mod'' \<in> set mods, m_control = ''Ctrl'' \<in> set mods, m_meta = ''Meta'' \<in> set mods,
               m_alt = ''Alt'' \<in> set mods, m_shift = ''Shift'' \<in> set mods\<rparr>)))"

section \<open>The store\<close>

text \<open>\<open>None\<close> as a value is \<open>null\<close>: the action is disabled. An action without an entry has its default.\<close>

type_synonym shortcut_overrides = "shortcut_chord option jsobj"

definition action_of :: "jstr \<Rightarrow> shortcut_action option" where
  "action_of i = find (\<lambda>a. action_id a = i) SHORTCUT_ACTIONS"

definition isRecord :: "json \<Rightarrow> bool" where
  "isRecord v = (case v of JObj _ \<Rightarrow> True | _ \<Rightarrow> False)"

definition bool_field :: "json \<Rightarrow> jstr \<Rightarrow> bool option" where
  "bool_field v name = (case json_field v name of Some (JBool b) \<Rightarrow> Some b | _ \<Rightarrow> None)"

text \<open>\<open>None\<close> is \<open>undefined\<close>, \<open>Some None\<close> is \<open>null\<close>.\<close>

definition sanitizeShortcutChord :: "json \<Rightarrow> shortcut_chord option option" where
  "sanitizeShortcutChord v =
     (if v = JNull then Some None
      else
        (case (str_field v ''key'', json_field v ''modifiers'') of
           (Some key, Some mods) \<Rightarrow>
             if key = [] \<or> \<not> isRecord mods then None
             else
               (case (bool_field mods ''primary'', bool_field mods ''control'', bool_field mods ''meta'', bool_field mods ''alt'', bool_field mods ''shift'') of
                  (Some p, Some c, Some m, Some a, Some s) \<Rightarrow>
                    Some (Some (createShortcutChord key \<lparr>m_primary = p, m_control = c, m_meta = m, m_alt = a, m_shift = s\<rparr>))
                | _ \<Rightarrow> None)
         | _ \<Rightarrow> None))"

definition sanitize_entry ::
  "shortcut_platform \<Rightarrow> shortcut_runtime \<Rightarrow> jstr \<times> json \<Rightarrow> shortcut_overrides \<Rightarrow> shortcut_overrides" where
  "sanitize_entry platform runtime kv ov =
     (case action_of (fst kv) of
        None \<Rightarrow> ov
      | Some a \<Rightarrow>
          (case sanitizeShortcutChord (snd kv) of
             None \<Rightarrow> ov
           | Some None \<Rightarrow> obj_set (fst kv) None ov
           | Some (Some sc) \<Rightarrow> if isShortcutAllowedForAction a sc platform runtime then obj_set (fst kv) (Some sc) ov else ov))"

definition sanitizeShortcutOverrides :: "shortcut_platform \<Rightarrow> shortcut_runtime \<Rightarrow> json option \<Rightarrow> shortcut_overrides" where
  "sanitizeShortcutOverrides platform runtime v =
     (case v of Some (JObj fs) \<Rightarrow> fold (sanitize_entry platform runtime) fs [] | _ \<Rightarrow> [])"

definition mods_json :: "shortcut_modifiers \<Rightarrow> json" where
  "mods_json m = JObj [(''primary'', JBool (m_primary m)), (''control'', JBool (m_control m)), (''meta'', JBool (m_meta m)),
     (''alt'', JBool (m_alt m)), (''shift'', JBool (m_shift m))]"

definition chord_json :: "shortcut_chord option \<Rightarrow> json" where
  "chord_json sc = (case sc of None \<Rightarrow> JNull | Some c \<Rightarrow> JObj [(''key'', JStr (ch_key c)), (''modifiers'', mods_json (ch_mods c))])"

definition overrides_json :: "shortcut_overrides \<Rightarrow> json" where
  "overrides_json ov = JObj (map (\<lambda>(k, sc). (k, chord_json sc)) ov)"

text \<open>\<open>partialize\<close>.\<close>

definition persisted_shortcuts :: "shortcut_overrides \<Rightarrow> json" where
  "persisted_shortcuts ov = JObj [(''overrides'', overrides_json ov)]"

definition legacy_entry :: "jstr \<times> json \<Rightarrow> json jsobj \<Rightarrow> json jsobj" where
  "legacy_entry kv out =
     (if action_of (fst kv) = None then out
      else
        (case snd kv of
           JNull \<Rightarrow> obj_set (fst kv) JNull out
         | JStr v \<Rightarrow> (case parseLegacyShortcut v of Some sc \<Rightarrow> obj_set (fst kv) (chord_json (Some sc)) out | None \<Rightarrow> out)
         | _ \<Rightarrow> out))"

definition migrateShortcutState :: "shortcut_platform \<Rightarrow> shortcut_runtime \<Rightarrow> json \<Rightarrow> int \<Rightarrow> shortcut_overrides" where
  "migrateShortcutState platform runtime persisted version =
     (if version \<ge> 2 then sanitizeShortcutOverrides platform runtime (json_field persisted ''overrides'')
      else
        (let previous = (case json_field persisted ''overrides'' of Some (JObj fs) \<Rightarrow> fs | _ \<Rightarrow> [])
         in sanitizeShortcutOverrides platform runtime (Some (JObj (fold legacy_entry previous [])))))"

text \<open>Hydration: an older version is migrated first, and \<open>merge\<close> sanitizes what it is given.\<close>

definition hydrateShortcuts :: "shortcut_platform \<Rightarrow> shortcut_runtime \<Rightarrow> json \<Rightarrow> int \<Rightarrow> shortcut_overrides" where
  "hydrateShortcuts platform runtime persisted version =
     sanitizeShortcutOverrides platform runtime
       (if version = 2 then json_field persisted ''overrides''
        else Some (overrides_json (migrateShortcutState platform runtime persisted version)))"

definition resolveShortcut :: "shortcut_overrides \<Rightarrow> shortcut_action \<Rightarrow> shortcut_chord option" where
  "resolveShortcut ov a = (case obj_get ov (action_id a) of Some sc \<Rightarrow> sc | None \<Rightarrow> defaultShortcut a)"

definition setShortcut ::
  "shortcut_platform \<Rightarrow> shortcut_runtime \<Rightarrow> shortcut_action \<Rightarrow> shortcut_chord option \<Rightarrow> shortcut_overrides \<Rightarrow> shortcut_overrides" where
  "setShortcut platform runtime a sc ov =
     (if (case sc of Some c \<Rightarrow> \<not> isShortcutAllowedForAction a c platform runtime | None \<Rightarrow> False) then ov
      else if shortcutChordEquals sc (defaultShortcut a) then obj_delete (action_id a) ov
      else obj_set (action_id a) sc ov)"

definition resetShortcut :: "shortcut_action \<Rightarrow> shortcut_overrides \<Rightarrow> shortcut_overrides" where
  "resetShortcut a ov = obj_delete (action_id a) ov"

definition findShortcutConflict :: "shortcut_overrides \<Rightarrow> shortcut_action \<Rightarrow> shortcut_chord \<Rightarrow> shortcut_action option" where
  "findShortcutConflict ov a sc =
     find (\<lambda>b. b \<noteq> a \<and> shortcutChordEquals (resolveShortcut ov b) (Some sc)) SHORTCUT_ACTIONS"

section \<open>The recorder and the handler\<close>

definition capture ::
  "shortcut_platform \<Rightarrow> shortcut_runtime \<Rightarrow> shortcut_action \<Rightarrow> key_event \<Rightarrow> shortcut_overrides \<Rightarrow> shortcut_overrides" where
  "capture platform runtime a e ov =
     (if ke_repeat e \<or> ke_composing e then ov
      else if ke_key e = Some ''Escape'' then ov
      else if ke_key e = Some ''Backspace'' \<or> ke_key e = Some ''Delete'' then setShortcut platform runtime a None ov
      else
        (case shortcutFromEvent e platform of
           None \<Rightarrow> ov
         | Some sc \<Rightarrow>
             if isReservedShortcut sc platform runtime then ov
             else if \<not> isShortcutAllowedForAction a sc platform runtime then ov
             else if findShortcutConflict ov a sc \<noteq> None then ov
             else setShortcut platform runtime a (Some sc) ov))"

definition GLOBAL_ACTIONS :: "shortcut_action list" where
  "GLOBAL_ACTIONS = [OpenSearch, CreateIssue, ToggleSidebar, GoInbox, GoChat, GoMyIssues, GoIssues, GoProjects, GoAutopilots,
     GoAgents, GoSquads, GoUsage, GoRuntimes, GoSkills, GoSettings]"

definition shouldIgnoreGlobalShortcutEvent :: "key_event \<Rightarrow> bool" where
  "shouldIgnoreGlobalShortcutEvent e = (ke_prevented e \<or> ke_repeat e \<or> ke_composing e)"

text \<open>The action the handler runs; \<open>editable\<close> says whether the event's target is an editable element.\<close>

definition global_action :: "shortcut_platform \<Rightarrow> shortcut_overrides \<Rightarrow> bool \<Rightarrow> key_event \<Rightarrow> shortcut_action option" where
  "global_action platform ov editable e =
     (if shouldIgnoreGlobalShortcutEvent e then None
      else find (\<lambda>a. (allowInEditable a \<or> \<not> editable) \<and> shortcutMatchesEvent (resolveShortcut ov a) e platform) GLOBAL_ACTIONS)"

definition shouldHandleSubmitShortcut :: "shortcut_platform \<Rightarrow> key_event \<Rightarrow> shortcut_chord option \<Rightarrow> bool \<Rightarrow> bool" where
  "shouldHandleSubmitShortcut platform e configured composing =
     (\<not> ke_repeat e \<and> \<not> composing \<and> \<not> ke_composing e \<and> shortcutMatchesEvent configured e platform)"

definition shouldReplayNativeEnter :: "key_event \<Rightarrow> shortcut_chord option \<Rightarrow> bool \<Rightarrow> bool" where
  "shouldReplayNativeEnter e configured composing =
     (\<not> composing \<and> \<not> ke_composing e \<and> isPlainShortcut configured ''Enter'' \<and> ke_key e = Some ''Enter''
      \<and> ke_shift e \<and> \<not> ke_meta e \<and> \<not> ke_ctrl e \<and> \<not> ke_alt e)"

datatype shortcut_op =
  Capture shortcut_action key_event
  | Disable shortcut_action
  | Reset shortcut_action
  | ResetAll
  | Hydrate json int

text \<open>The operations of one device: its platform and runtime do not change.\<close>

fun shortcut_step :: "shortcut_platform \<Rightarrow> shortcut_runtime \<Rightarrow> shortcut_overrides \<Rightarrow> shortcut_op \<Rightarrow> shortcut_overrides" where
  "shortcut_step p r ov (Capture a e) = capture p r a e ov"
| "shortcut_step p r ov (Disable a) = setShortcut p r a None ov"
| "shortcut_step p r ov (Reset a) = resetShortcut a ov"
| "shortcut_step p r ov ResetAll = []"
| "shortcut_step p r ov (Hydrate persisted version) = hydrateShortcuts p r persisted version"

end
