(* ===== verification/Shortcut_Properties.thy ===== *)
theory Shortcut_Properties
  imports Shortcuts
begin

text \<open>
  Whatever is stored or recorded, the overrides keep to the policy; typing never runs an action; the
  recorder keeps shortcuts apart, and resetting one action does not.
\<close>

section \<open>Chords and actions\<close>

lemma chord_equals [simp]: "shortcutChordEquals a b \<longleftrightarrow> a = b"
proof (cases a; cases b)
  fix l r assume "a = Some l" "b = Some r"
  then show ?thesis
    by (cases l; cases r; cases "ch_mods l"; cases "ch_mods r") (auto simp: shortcutChordEquals_def)
qed (auto simp: shortcutChordEquals_def)

lemma action_in: "a \<in> set SHORTCUT_ACTIONS"
  by (cases a) (simp_all add: SHORTCUT_ACTIONS_def)

lemma action_of_id [simp]: "action_of (action_id a) = Some a"
  by (cases a) (simp_all add: action_of_def SHORTCUT_ACTIONS_def)

lemma action_id_inj: "action_id a = action_id b \<Longrightarrow> a = b"
  by (metis action_of_id option.inject)

lemma action_of_Some: "action_of i = Some a \<Longrightarrow> i = action_id a"
  by (auto simp: action_of_def dest!: find_in_set)

section \<open>The overrides keep to the policy\<close>

text \<open>Entries of known actions, each disabled or with a chord allowed for it.\<close>

definition entry_ok :: "shortcut_platform \<Rightarrow> shortcut_runtime \<Rightarrow> jstr \<times> shortcut_chord option \<Rightarrow> bool" where
  "entry_ok p r kv = (\<exists>a. fst kv = action_id a \<and> (\<forall>c. snd kv = Some c \<longrightarrow> isShortcutAllowedForAction a c p r))"

definition overrides_ok :: "shortcut_platform \<Rightarrow> shortcut_runtime \<Rightarrow> shortcut_overrides \<Rightarrow> bool" where
  "overrides_ok p r ov = (obj_ok ov \<and> (\<forall>kv \<in> set ov. entry_ok p r kv))"

lemma overrides_ok_set:
  assumes "overrides_ok p r ov" "\<And>c. sc = Some c \<Longrightarrow> isShortcutAllowedForAction a c p r"
  shows "overrides_ok p r (obj_set (action_id a) sc ov)"
proof -
  have "entry_ok p r (action_id a, sc)" using assms(2) by (auto simp: entry_ok_def)
  then show ?thesis
    using assms(1) subsetD [OF set_obj_set [of "action_id a" sc ov]] by (auto simp: overrides_ok_def obj_ok_set)
qed

lemma overrides_ok_delete: "overrides_ok p r ov \<Longrightarrow> overrides_ok p r (obj_delete k ov)"
  by (auto simp: overrides_ok_def obj_ok_delete) (auto simp: obj_delete_def)

lemma overrides_ok_Nil [simp]: "overrides_ok p r []"
  by (simp add: overrides_ok_def)

lemma overrides_ok_entry: "overrides_ok p r ov \<Longrightarrow> overrides_ok p r (sanitize_entry p r kv ov)"
  by (auto simp: sanitize_entry_def split: option.split dest!: action_of_Some intro: overrides_ok_set)

lemma overrides_ok_sanitize: "overrides_ok p r (sanitizeShortcutOverrides p r v)"
proof -
  have "overrides_ok p r ov \<Longrightarrow> overrides_ok p r (fold (sanitize_entry p r) fs ov)" for fs ov
    by (induction fs arbitrary: ov) (simp_all add: overrides_ok_entry)
  then show ?thesis by (simp add: sanitizeShortcutOverrides_def split: option.split json.split)
qed

lemma overrides_ok_setShortcut: "overrides_ok p r ov \<Longrightarrow> overrides_ok p r (setShortcut p r a sc ov)"
  by (auto simp: setShortcut_def intro: overrides_ok_set overrides_ok_delete split: option.splits)

lemma overrides_ok_step: "overrides_ok p r ov \<Longrightarrow> overrides_ok p r (shortcut_step p r ov e)"
  by (cases e) (simp_all add: capture_def resetShortcut_def hydrateShortcuts_def overrides_ok_sanitize
      overrides_ok_setShortcut overrides_ok_delete split: option.split)

interpretation shortcuts: invariant_machine "\<lambda>ov. ov = []" "shortcut_step p r" "\<lambda>_ _. True" "overrides_ok p r" for p r
  by unfold_locales (simp_all add: overrides_ok_step)

abbreviation shortcuts_reachable :: "shortcut_platform \<Rightarrow> shortcut_runtime \<Rightarrow> shortcut_overrides \<Rightarrow> bool" where
  "shortcuts_reachable p r \<equiv> reachable (\<lambda>ov. ov = []) (shortcut_step p r) (\<lambda>_ _. True)"

lemma run_all_ok: "run_ok step (\<lambda>_ _. True) s es"
  by (induction es arbitrary: s) simp_all

lemma defaults_checked:
  "list_all (\<lambda>a. list_all (\<lambda>p. list_all (\<lambda>r. case defaultShortcut a of None \<Rightarrow> True | Some c \<Rightarrow> isShortcutAllowedForAction a c p r)
     [Web, Desktop]) [Macos, Windows, Linux, Unknown_os]) SHORTCUT_ACTIONS"
  by code_simp

lemma default_allowed:
  assumes "defaultShortcut a = Some c"
  shows "isShortcutAllowedForAction a c p r"
proof -
  have "p \<in> set [Macos, Windows, Linux, Unknown_os]" "r \<in> set [Web, Desktop]" by (cases p; simp) (cases r; simp)
  with defaults_checked action_in [of a] have "case defaultShortcut a of None \<Rightarrow> True | Some c \<Rightarrow> isShortcutAllowedForAction a c p r"
    unfolding list_all_iff by blast
  with assms show ?thesis by simp
qed

lemma resolved_allowed:
  assumes "overrides_ok p r ov" "resolveShortcut ov a = Some c"
  shows "isShortcutAllowedForAction a c p r"
proof (cases "obj_get ov (action_id a)")
  case None
  with assms(2) show ?thesis by (simp add: resolveShortcut_def default_allowed)
next
  case (Some sc)
  then have "entry_ok p r (action_id a, Some c)" using assms obj_get_in [OF Some] by (auto simp: overrides_ok_def resolveShortcut_def)
  then show ?thesis by (auto simp: entry_ok_def dest: action_id_inj)
qed

section \<open>Typing never runs an action\<close>

lemma no_command:
  assumes "\<not> ke_meta e" "\<not> ke_ctrl e" "shortcutFromEvent e p = Some sc"
  shows "\<not> hasCommandModifier sc"
  using assms by (auto simp: shortcutFromEvent_def hasCommandModifier_def createShortcutChord_def Let_def split: if_splits option.splits)

text \<open>C22: typing never runs an action: whatever was stored by any build, recorded, disabled or reset, a key
  pressed in an editable element without Control or Meta runs no global action, and it sends only as a
  plain Enter.\<close>

theorem typing_runs_nothing:
  assumes "shortcuts_reachable p r ov" "\<not> ke_meta e" "\<not> ke_ctrl e"
  shows "global_action p ov True e = None
    \<and> (shortcutMatchesEvent (resolveShortcut ov Send) e p \<longrightarrow> eventKey e = Some ''Enter'' \<and> \<not> ke_alt e \<and> \<not> ke_shift e)"
proof -
  have ok: "overrides_ok p r ov" using shortcuts.inv_reachable [OF assms(1)] .
  have matches: "\<exists>c. resolveShortcut ov a = Some c \<and> shortcutFromEvent e p = Some c \<and> isShortcutAllowedForAction a c p r
      \<and> \<not> hasCommandModifier c" if "shortcutMatchesEvent (resolveShortcut ov a) e p" for a
    using that resolved_allowed [OF ok] no_command [OF assms(2,3)]
    by (auto simp: shortcutMatchesEvent_def split: option.splits)
  have "\<not> (allowInEditable a \<and> shortcutMatchesEvent (resolveShortcut ov a) e p)" if "a \<noteq> Send" for a
    using that matches [of a] by (auto simp: isShortcutAllowedForAction_def split: if_splits)
  moreover have "Send \<notin> set GLOBAL_ACTIONS" by (simp add: GLOBAL_ACTIONS_def)
  ultimately have "find (\<lambda>a. allowInEditable a \<and> shortcutMatchesEvent (resolveShortcut ov a) e p) GLOBAL_ACTIONS = None"
    unfolding find_None_iff by metis
  then have "global_action p ov True e = None" by (simp add: global_action_def)
  moreover have "eventKey e = Some ''Enter'' \<and> \<not> ke_alt e \<and> \<not> ke_shift e" if "shortcutMatchesEvent (resolveShortcut ov Send) e p"
  proof -
    from matches [OF that] obtain c where c: "shortcutFromEvent e p = Some c" "isShortcutAllowedForAction Send c p r" "\<not> hasCommandModifier c"
      by blast
    then have "c = plain_chord ''Enter''"
      by (auto simp: isShortcutAllowedForAction_def hasCommandModifier_def primary_chord_def createShortcutChord_def split: if_splits)
    with c(1) show ?thesis
      by (auto simp: shortcutFromEvent_def plain_chord_def createShortcutChord_def no_modifiers_def Let_def split: if_splits option.splits)
  qed
  ultimately show ?thesis by blast
qed

definition key_press :: "jstr \<Rightarrow> key_event" where
  "key_press k = \<lparr>ke_key = Some k, ke_meta = False, ke_ctrl = False, ke_alt = False, ke_shift = False, ke_altGraph = False,
     ke_repeat = False, ke_composing = False, ke_prevented = False\<rparr>"

text \<open>A version 1 preference for the plain key \<open>G\<close>, which the policy refuses.\<close>

definition old_preference :: json where
  "old_preference = JObj [(''overrides'', JObj [(''openSearch'', JStr ''G''), (''goInbox'', JStr ''Alt+I'')])]"

theorem typing_runs_nothing_witness:
  "global_action Windows (hydrateShortcuts Windows Web old_preference 1) True (key_press ''g'') = None
   \<and> global_action Windows (hydrateShortcuts Windows Web old_preference 1) False ((key_press ''i'')\<lparr>ke_alt := True\<rparr>) = Some GoInbox"
proof -
  have "shortcuts_reachable Windows Web (shortcut_step Windows Web [] (Hydrate old_preference 1))"
    by (intro reachable.step reachable.init) simp_all
  then have r: "shortcuts_reachable Windows Web (hydrateShortcuts Windows Web old_preference 1)" by simp
  have "global_action Windows (hydrateShortcuts Windows Web old_preference 1) False ((key_press ''i'')\<lparr>ke_alt := True\<rparr>) = Some GoInbox"
    by code_simp
  with typing_runs_nothing [OF r, of "key_press ''g''"] show ?thesis by (simp add: key_press_def)
qed

section \<open>Storing and hydrating\<close>

lemma allowed_key: "isShortcutAllowedForAction a c p r \<Longrightarrow> ch_key c \<noteq> []"
  by (auto simp: isShortcutAllowedForAction_def isShortcutChordActionable_def split: if_splits)

lemma sanitize_chord_json: "(\<And>c. sc = Some c \<Longrightarrow> ch_key c \<noteq> []) \<Longrightarrow> sanitizeShortcutChord (chord_json sc) = Some sc"
  by (cases sc) (simp_all add: sanitizeShortcutChord_def chord_json_def str_field_def json_field_def isRecord_def mods_json_def
      bool_field_def createShortcutChord_def)

lemma sanitize_entry_json: "entry_ok p r (k, sc) \<Longrightarrow> sanitize_entry p r (k, chord_json sc) ov = obj_set k sc ov"
proof -
  assume "entry_ok p r (k, sc)"
  then obtain a where a: "k = action_id a" "\<And>c. sc = Some c \<Longrightarrow> isShortcutAllowedForAction a c p r" by (auto simp: entry_ok_def)
  then have "sanitizeShortcutChord (chord_json sc) = Some sc" by (blast intro: sanitize_chord_json dest: allowed_key)
  with a show ?thesis by (cases sc) (simp_all add: sanitize_entry_def)
qed

lemma sanitize_json:
  assumes "overrides_ok p r ov"
  shows "sanitizeShortcutOverrides p r (Some (overrides_json ov)) = ov"
proof -
  have "fold (sanitize_entry p r) (map (\<lambda>(k, sc). (k, chord_json sc)) es) out = obj_assign out es"
    if "\<forall>kv \<in> set es. entry_ok p r kv" for es out
    using that by (induction es arbitrary: out) (auto simp: obj_assign_def sanitize_entry_json)
  with assms obj_rebuild [of ov] show ?thesis
    by (simp add: sanitizeShortcutOverrides_def overrides_json_def overrides_ok_def)
qed

text \<open>A restart keeps the shortcuts: on the device that stored them, hydrating what was stored gives
  back exactly the overrides, and so does migrating them once more.\<close>

theorem shortcuts_survive_restart:
  assumes "shortcuts_reachable p r ov"
  shows "hydrateShortcuts p r (persisted_shortcuts ov) 2 = ov
    \<and> migrateShortcutState p r (persisted_shortcuts (hydrateShortcuts p r (persisted_shortcuts ov) 2)) 2 = ov"
  using sanitize_json [OF shortcuts.inv_reachable [OF assms]]
  by (simp add: hydrateShortcuts_def migrateShortcutState_def persisted_shortcuts_def json_field_def)

theorem shortcuts_survive_restart_witness:
  "hydrateShortcuts Macos Desktop (persisted_shortcuts (capture Macos Desktop GoChat ((key_press ''p'')\<lparr>ke_meta := True\<rparr>) [])) 2
     = [(''goChat'', Some (primary_chord ''P''))]"
proof -
  have "shortcuts_reachable Macos Desktop (shortcut_step Macos Desktop [] (Capture GoChat ((key_press ''p'')\<lparr>ke_meta := True\<rparr>)))"
    by (intro reachable.step reachable.init) simp_all
  moreover have "capture Macos Desktop GoChat ((key_press ''p'')\<lparr>ke_meta := True\<rparr>) [] = [(''goChat'', Some (primary_chord ''P''))]"
    by code_simp
  ultimately show ?thesis using shortcuts_survive_restart [of Macos Desktop] by simp
qed

section \<open>Conflicts\<close>

definition conflict_free :: "shortcut_overrides \<Rightarrow> bool" where
  "conflict_free ov = (\<forall>a b c. resolveShortcut ov a = Some c \<longrightarrow> resolveShortcut ov b = Some c \<longrightarrow> a = b)"

lemma conflict_free_default: "conflict_free []"
proof -
  have "defaultShortcut a = Some c \<Longrightarrow> defaultShortcut b = Some c \<Longrightarrow> a = b" for a b c
    by (cases a; cases b) (auto simp: primary_chord_def plain_chord_def createShortcutChord_def no_modifiers_def)
  then show ?thesis by (simp add: conflict_free_def resolveShortcut_def)
qed

lemma resolve_set:
  "(\<And>c. sc = Some c \<Longrightarrow> isShortcutAllowedForAction a c p r) \<Longrightarrow>
   resolveShortcut (setShortcut p r a sc ov) b = (if b = a then sc else resolveShortcut ov b)"
  by (auto simp: setShortcut_def resolveShortcut_def js_simps dest: action_id_inj split: option.splits)

lemma conflict_free_set:
  assumes "conflict_free ov" "\<And>c. sc = Some c \<Longrightarrow> isShortcutAllowedForAction a c p r"
    and "\<And>b. b \<noteq> a \<Longrightarrow> sc \<noteq> None \<Longrightarrow> resolveShortcut ov b \<noteq> sc"
  shows "conflict_free (setShortcut p r a sc ov)"
proof -
  have r: "resolveShortcut (setShortcut p r a sc ov) b = (if b = a then sc else resolveShortcut ov b)" for b
    using resolve_set assms(2) by blast
  show ?thesis
    using assms(1,3) unfolding conflict_free_def r by (metis option.distinct(1))
qed

lemma conflict_found: "findShortcutConflict ov a sc = None \<longleftrightarrow> (\<forall>b. b \<noteq> a \<longrightarrow> resolveShortcut ov b \<noteq> Some sc)"
  by (auto simp: findShortcutConflict_def find_None_iff action_in)

lemma conflict_free_capture: "conflict_free ov \<Longrightarrow> conflict_free (capture p r a e ov)"
  by (auto simp: capture_def conflict_found intro: conflict_free_set split: option.split)

fun records_only :: "shortcut_op \<Rightarrow> bool" where
  "records_only (Capture _ _) = True"
| "records_only (Disable _) = True"
| "records_only ResetAll = True"
| "records_only _ = False"

text \<open>The recorder keeps shortcuts apart: starting from the defaults, recording, disabling and resetting
  all, in any order, never give two actions the same shortcut, so a key runs at most one.\<close>

theorem recorder_avoids_conflicts:
  assumes "list_all records_only ops"
  shows "conflict_free (foldl (shortcut_step p r) [] ops)"
proof -
  have "conflict_free ov \<Longrightarrow> conflict_free (foldl (shortcut_step p r) ov ops)" for ov
    using assms
  proof (induction ops arbitrary: ov)
    case (Cons op ops)
    have "conflict_free (shortcut_step p r ov op)"
      using Cons.prems by (cases op) (auto simp: conflict_free_default conflict_free_capture intro: conflict_free_set)
    with Cons show ?case by simp
  qed simp
  then show ?thesis using conflict_free_default by blast
qed

definition new_search_key :: "shortcut_op list" where
  "new_search_key = [Capture OpenSearch ((key_press ''j'')\<lparr>ke_ctrl := True\<rparr>), Capture GoInbox ((key_press ''k'')\<lparr>ke_ctrl := True\<rparr>)]"

theorem recorder_avoids_conflicts_witness:
  "conflict_free (foldl (shortcut_step Linux Web) [] new_search_key)
   \<and> resolveShortcut (foldl (shortcut_step Linux Web) [] new_search_key) GoInbox = Some (primary_chord ''K'')"
proof -
  have "list_all records_only new_search_key" by code_simp
  moreover have "resolveShortcut (foldl (shortcut_step Linux Web) [] new_search_key) GoInbox = Some (primary_chord ''K'')" by code_simp
  ultimately show ?thesis using recorder_avoids_conflicts by blast
qed

text \<open>Resetting one action does not keep them apart: its default may be the shortcut another action was
  given meanwhile, which the handler then never runs.\<close>

theorem reset_can_conflict:
  "let ov = foldl (shortcut_step Linux Web) [] (new_search_key @ [Reset OpenSearch])
   in resolveShortcut ov OpenSearch = resolveShortcut ov GoInbox \<and> resolveShortcut ov GoInbox \<noteq> None
      \<and> global_action Linux ov False ((key_press ''k'')\<lparr>ke_ctrl := True\<rparr>) = Some OpenSearch"
  by code_simp

end
