(* ===== verification/Chat_Store.thy ===== *)
theory Chat_Store
  imports Draft_Uploads
begin

text \<open>
  The chat store (\<open>packages/core/chat/store.ts\<close>): the drafts of every session with their uploads, the
  restores waiting for a composer, and the ledger of the ones already applied. Every action writes the
  storage first, under keys that carry the slug of the current workspace, and then the memory. The size
  of the panel is not modelled.
\<close>

section \<open>Storage\<close>

text \<open>Plain texts, and texts read as JSON: \<open>None\<close> is a text that does not parse.\<close>

record chat_storage =
  st_text :: "jstr jsobj"
  st_json :: "json option jsobj"

definition AGENT_STORAGE_KEY :: jstr where "AGENT_STORAGE_KEY = ''silieco:chat:selectedAgentId''"
definition PROJECT_STORAGE_KEY :: jstr where "PROJECT_STORAGE_KEY = ''silieco:chat:selectedProjectId''"
definition SESSION_STORAGE_KEY :: jstr where "SESSION_STORAGE_KEY = ''silieco:chat:activeSessionId''"
definition DRAFTS_KEY :: jstr where "DRAFTS_KEY = ''silieco:chat:drafts''"
definition DRAFT_ATTACHMENTS_KEY :: jstr where "DRAFT_ATTACHMENTS_KEY = ''silieco:chat:draft-attachments''"
definition APPLIED_RESTORES_KEY :: jstr where "APPLIED_RESTORES_KEY = ''silieco:chat:applied-draft-restores''"
definition PENDING_SEND_RESTORES_KEY :: jstr where "PENDING_SEND_RESTORES_KEY = ''silieco:chat:pending-send-restores''"
definition DRAFT_NEW_SESSION :: jstr where "DRAFT_NEW_SESSION = ''__new__''"
definition LEGACY_NEW_SESSION_PREFIX :: jstr where "LEGACY_NEW_SESSION_PREFIX = DRAFT_NEW_SESSION @ '':''"
definition CHAT_EXPANDED_KEY :: jstr where "CHAT_EXPANDED_KEY = ''silieco:chat:expanded''"
definition OPEN_KEY :: jstr where "OPEN_KEY = ''silieco:chat:isOpen''"
definition FLOATING_KEY :: jstr where "FLOATING_KEY = ''silieco:chat:floatingChatEnabled''"

text \<open>A missing slug and an empty one are both falsy.\<close>

definition wsKey :: "jstr option \<Rightarrow> jstr \<Rightarrow> jstr" where
  "wsKey slug base = (case slug of Some s \<Rightarrow> if s = [] then base else base @ '':'' @ s | None \<Rightarrow> base)"

definition get_text :: "chat_storage \<Rightarrow> jstr \<Rightarrow> jstr option" where
  "get_text st key = obj_get (st_text st) key"

definition put_text :: "jstr \<Rightarrow> jstr option \<Rightarrow> chat_storage \<Rightarrow> chat_storage" where
  "put_text key v = st_text_update (case v of Some t \<Rightarrow> obj_set key t | None \<Rightarrow> obj_delete key)"

text \<open>What \<open>JSON.parse\<close> yields; a missing item and one that does not parse are read alike.\<close>

definition get_json :: "chat_storage \<Rightarrow> jstr \<Rightarrow> json option" where
  "get_json st key = (case obj_get (st_json st) key of Some v \<Rightarrow> v | None \<Rightarrow> None)"

definition put_json :: "jstr \<Rightarrow> json option \<Rightarrow> chat_storage \<Rightarrow> chat_storage" where
  "put_json key v = st_json_update (case v of Some x \<Rightarrow> obj_set key (Some x) | None \<Rightarrow> obj_delete key)"

text \<open>\<open>Object.entries\<close>.\<close>

definition object_entries :: "json \<Rightarrow> (jstr \<times> json) list" where
  "object_entries v =
     (case v of JObj fs \<Rightarrow> fs | JArr xs \<Rightarrow> map (\<lambda>(i, x). (string_of_nat i, x)) (List.enumerate 0 xs) | _ \<Rightarrow> [])"

definition prune :: "('v \<Rightarrow> bool) \<Rightarrow> 'v jsobj \<Rightarrow> 'v jsobj" where
  "prune keep ob = fold (\<lambda>(k, v) out. if keep v then obj_set k v out else out) ob []"

definition readDrafts :: "chat_storage \<Rightarrow> jstr \<Rightarrow> json jsobj" where
  "readDrafts st key = (case get_json st key of Some v \<Rightarrow> if is_object v then object_entries v else [] | None \<Rightarrow> [])"

definition writeDrafts :: "jstr \<Rightarrow> json jsobj \<Rightarrow> chat_storage \<Rightarrow> chat_storage" where
  "writeDrafts key drafts =
     (let pruned = prune js_truthy drafts in put_json key (if pruned = [] then None else Some (JObj pruned)))"

definition isAttachmentDraft :: "json \<Rightarrow> bool" where
  "isAttachmentDraft v = (is_object v \<and> str_field v ''id'' \<noteq> None \<and> str_field v ''filename'' \<noteq> None)"

definition read_uploads :: "jstr \<times> json \<Rightarrow> json list jsobj \<Rightarrow> json list jsobj" where
  "read_uploads kv out =
     (case snd kv of
        JArr _ \<Rightarrow>
          (let uploads = normalizeStoredUploads (Some (snd kv)) in if uploads \<noteq> [] then obj_set (fst kv) uploads out else out)
      | _ \<Rightarrow> out)"

definition readDraftAttachments :: "chat_storage \<Rightarrow> jstr \<Rightarrow> json list jsobj" where
  "readDraftAttachments st key =
     (case get_json st key of None \<Rightarrow> [] | Some v \<Rightarrow> fold read_uploads (object_entries v) [])"

definition writeDraftAttachments :: "jstr \<Rightarrow> json list jsobj \<Rightarrow> chat_storage \<Rightarrow> chat_storage" where
  "writeDraftAttachments key drafts =
     (let pruned = prune (\<lambda>us. us \<noteq> []) drafts
      in put_json key (if pruned = [] then None else Some (JObj (map (\<lambda>(k, us). (k, JArr us)) pruned))))"

definition json_strings :: "json list \<Rightarrow> jstr list" where
  "json_strings vs = List.map_filter (\<lambda>v. case v of JStr s \<Rightarrow> Some s | _ \<Rightarrow> None) vs"

definition readAppliedRestores :: "chat_storage \<Rightarrow> jstr \<Rightarrow> jstr list" where
  "readAppliedRestores st key = (case get_json st key of Some (JArr vs) \<Rightarrow> json_strings vs | _ \<Rightarrow> [])"

definition writeAppliedRestores :: "jstr \<Rightarrow> jstr list \<Rightarrow> chat_storage \<Rightarrow> chat_storage" where
  "writeAppliedRestores key ids = put_json key (if ids = [] then None else Some (JArr (map JStr ids)))"

section \<open>Restores without a server copy\<close>

text \<open>An absent list of attachments is the empty one.\<close>

record pending_restore =
  pr_id :: jstr
  pr_content :: jstr
  pr_attachments :: "json list"
  pr_sessionId :: jstr

definition pending_json :: "pending_restore \<Rightarrow> json" where
  "pending_json r = JObj [(''id'', JStr (pr_id r)), (''content'', JStr (pr_content r)),
     (''attachments'', JArr (pr_attachments r)), (''sessionId'', JStr (pr_sessionId r))]"

text \<open>\<open>isPendingSendRestore\<close>, and the fields of a value that passes it.\<close>

definition read_pending :: "json \<Rightarrow> pending_restore option" where
  "read_pending v =
     (if \<not> is_object v then None
      else
        (case (str_field v ''id'', str_field v ''content'', str_field v ''sessionId'') of
           (Some i, Some c, Some s) \<Rightarrow>
             Some \<lparr>pr_id = i, pr_content = c,
               pr_attachments = (case json_field v ''attachments'' of Some (JArr as) \<Rightarrow> filter isAttachmentDraft as | _ \<Rightarrow> []),
               pr_sessionId = s\<rparr>
         | _ \<Rightarrow> None))"

definition read_queue :: "jstr \<times> json \<Rightarrow> pending_restore list jsobj \<Rightarrow> pending_restore list jsobj" where
  "read_queue kv out =
     (case snd kv of
        JArr vs \<Rightarrow> (let queued = List.map_filter read_pending vs in if queued \<noteq> [] then obj_set (fst kv) queued out else out)
      | _ \<Rightarrow> out)"

definition readPendingSendRestores :: "chat_storage \<Rightarrow> jstr \<Rightarrow> pending_restore list jsobj" where
  "readPendingSendRestores st key =
     (case get_json st key of None \<Rightarrow> [] | Some v \<Rightarrow> fold read_queue (object_entries v) [])"

definition writePendingSendRestores :: "jstr \<Rightarrow> pending_restore list jsobj \<Rightarrow> chat_storage \<Rightarrow> chat_storage" where
  "writePendingSendRestores key queues =
     (let pruned = prune (\<lambda>q. q \<noteq> []) queues
      in put_json key (if pruned = [] then None else Some (JObj (map (\<lambda>(k, q). (k, JArr (map pending_json q))) pruned))))"

section \<open>The slots of earlier builds\<close>

definition legacy_keys :: "'v jsobj \<Rightarrow> jstr list" where
  "legacy_keys slots = filter (\<lambda>k. str_starts k LEGACY_NEW_SESSION_PREFIX) (obj_keys slots)"

definition migrateLegacyNewChatSlots :: "'v jsobj \<Rightarrow> jstr option \<Rightarrow> 'v jsobj \<times> bool" where
  "migrateLegacyNewChatSlots slots selectedAgentId =
     (let legacyKeys = legacy_keys slots in
      if legacyKeys = [] then (slots, False)
      else
        (let adopted = obj_get slots (LEGACY_NEW_SESSION_PREFIX @ (case selectedAgentId of Some a \<Rightarrow> a | None \<Rightarrow> []));
             n1 = (case adopted of
                     Some v \<Rightarrow> if obj_get slots DRAFT_NEW_SESSION = None then obj_set DRAFT_NEW_SESSION v slots else slots
                   | None \<Rightarrow> slots)
         in (fold obj_delete legacyKeys n1, True)))"

definition loadDraftSlots ::
  "chat_storage \<Rightarrow> jstr \<Rightarrow> jstr \<Rightarrow> jstr option \<Rightarrow> json jsobj \<times> json list jsobj \<times> chat_storage" where
  "loadDraftSlots st draftsKey attachmentsKey selectedAgentId =
     (let (ds, dchanged) = migrateLegacyNewChatSlots (readDrafts st draftsKey) selectedAgentId;
          (us, uchanged) = migrateLegacyNewChatSlots (readDraftAttachments st attachmentsKey) selectedAgentId;
          st1 = (if dchanged then writeDrafts draftsKey ds st else st);
          st2 = (if uchanged then writeDraftAttachments attachmentsKey us st1 else st1)
      in (ds, us, st2))"

section \<open>The store\<close>

record chat_store =
  isOpen :: bool
  floatingChatEnabled :: bool
  activeSessionId :: "jstr option"
  selectedAgentId :: "jstr option"
  selectedProjectId :: "jstr option"
  inputDrafts :: "json jsobj"
  inputDraftAttachments :: "json list jsobj"
  appliedDraftRestoreIds :: "jstr list"
  pendingSendRestores :: "pending_restore list jsobj"
  isExpanded :: bool

text \<open>The store with the storage and the slug it is written under.\<close>

record chat =
  cw_slug :: "jstr option"
  cw_storage :: chat_storage
  cw_store :: chat_store

definition createChatStore :: "jstr option \<Rightarrow> chat_storage \<Rightarrow> chat" where
  "createChatStore sl st =
     (let agent = get_text st (wsKey sl AGENT_STORAGE_KEY);
          (ds, us, st') = loadDraftSlots st (wsKey sl DRAFTS_KEY) (wsKey sl DRAFT_ATTACHMENTS_KEY) agent
      in \<lparr>cw_slug = sl, cw_storage = st',
          cw_store =
            \<lparr>isOpen = (get_text st OPEN_KEY = Some ''true''),
             floatingChatEnabled = (get_text st FLOATING_KEY \<noteq> Some ''false''),
             activeSessionId = get_text st' (wsKey sl SESSION_STORAGE_KEY),
             selectedAgentId = agent,
             selectedProjectId = get_text st' (wsKey sl PROJECT_STORAGE_KEY),
             inputDrafts = ds, inputDraftAttachments = us,
             appliedDraftRestoreIds = readAppliedRestores st' (wsKey sl APPLIED_RESTORES_KEY),
             pendingSendRestores = readPendingSendRestores st' (wsKey sl PENDING_SEND_RESTORES_KEY),
             isExpanded = (get_text st' (wsKey sl CHAT_EXPANDED_KEY) = Some ''true'')\<rparr>\<rparr>)"

definition on_storage :: "(chat_storage \<Rightarrow> chat_storage) \<Rightarrow> chat \<Rightarrow> chat" where
  "on_storage f w = w\<lparr>cw_storage := f (cw_storage w)\<rparr>"

definition on_store :: "(chat_store \<Rightarrow> chat_store) \<Rightarrow> chat \<Rightarrow> chat" where
  "on_store f w = w\<lparr>cw_store := f (cw_store w)\<rparr>"

definition bool_text :: "bool \<Rightarrow> jstr" where
  "bool_text b = (if b then ''true'' else ''false'')"

definition setOpen :: "bool \<Rightarrow> chat \<Rightarrow> chat" where
  "setOpen b w = on_store (isOpen_update (\<lambda>_. b)) (on_storage (put_text OPEN_KEY (Some (bool_text b))) w)"

definition chat_toggle :: "chat \<Rightarrow> chat" where
  "chat_toggle w = setOpen (\<not> isOpen (cw_store w)) w"

definition setFloatingChatEnabled :: "bool \<Rightarrow> chat \<Rightarrow> chat" where
  "setFloatingChatEnabled b w =
     (let w1 = on_storage (put_text FLOATING_KEY (Some (bool_text b))) w;
          w2 = on_store (\<lambda>s. if b then s\<lparr>floatingChatEnabled := True\<rparr> else s\<lparr>floatingChatEnabled := False, isOpen := False\<rparr>) w1
      in if b then w2 else on_storage (put_text OPEN_KEY (Some ''false'')) w2)"

text \<open>An empty id is falsy and is removed from the storage like \<open>null\<close>.\<close>

definition nonempty :: "jstr option \<Rightarrow> jstr option" where
  "nonempty i = (case i of Some s \<Rightarrow> if s = [] then None else Some s | None \<Rightarrow> None)"

definition setActiveSession :: "jstr option \<Rightarrow> chat \<Rightarrow> chat" where
  "setActiveSession i w =
     on_store (activeSessionId_update (\<lambda>_. i)) (on_storage (put_text (wsKey (cw_slug w) SESSION_STORAGE_KEY) (nonempty i)) w)"

definition setSelectedAgentId :: "jstr \<Rightarrow> chat \<Rightarrow> chat" where
  "setSelectedAgentId i w =
     on_store (selectedAgentId_update (\<lambda>_. Some i)) (on_storage (put_text (wsKey (cw_slug w) AGENT_STORAGE_KEY) (Some i)) w)"

definition setSelectedProjectId :: "jstr option \<Rightarrow> chat \<Rightarrow> chat" where
  "setSelectedProjectId i w =
     on_store (selectedProjectId_update (\<lambda>_. i)) (on_storage (put_text (wsKey (cw_slug w) PROJECT_STORAGE_KEY) (nonempty i)) w)"

definition chat_setExpanded :: "bool \<Rightarrow> chat \<Rightarrow> chat" where
  "chat_setExpanded b w =
     on_store (isExpanded_update (\<lambda>_. b))
       (on_storage (put_text (wsKey (cw_slug w) CHAT_EXPANDED_KEY) (if b then Some ''true'' else None)) w)"

section \<open>The ledger and the queues\<close>

definition put_applied :: "jstr list \<Rightarrow> chat \<Rightarrow> chat" where
  "put_applied ids w =
     on_store (appliedDraftRestoreIds_update (\<lambda>_. ids))
       (on_storage (writeAppliedRestores (wsKey (cw_slug w) APPLIED_RESTORES_KEY) ids) w)"

definition markDraftRestoreApplied :: "jstr \<Rightarrow> chat \<Rightarrow> chat" where
  "markDraftRestoreApplied i w =
     (let current = appliedDraftRestoreIds (cw_store w) in if i \<in> set current then w else put_applied (current @ [i]) w)"

definition forgetDraftRestoreApplied :: "jstr \<Rightarrow> chat \<Rightarrow> chat" where
  "forgetDraftRestoreApplied i w =
     (let current = appliedDraftRestoreIds (cw_store w)
      in if i \<notin> set current then w else put_applied (filter (\<lambda>j. j \<noteq> i) current) w)"

definition put_pending :: "pending_restore list jsobj \<Rightarrow> chat \<Rightarrow> chat" where
  "put_pending q w =
     on_store (pendingSendRestores_update (\<lambda>_. q))
       (on_storage (writePendingSendRestores (wsKey (cw_slug w) PENDING_SEND_RESTORES_KEY) q) w)"

definition queue_of :: "chat \<Rightarrow> jstr \<Rightarrow> pending_restore list" where
  "queue_of w sid = (case obj_get (pendingSendRestores (cw_store w)) sid of Some q \<Rightarrow> q | None \<Rightarrow> [])"

definition enqueuePendingSendRestore :: "pending_restore \<Rightarrow> chat \<Rightarrow> chat" where
  "enqueuePendingSendRestore r w =
     (if pr_sessionId r = [] \<or> pr_id r = [] then w
      else if list_ex (\<lambda>x. pr_id x = pr_id r) (queue_of w (pr_sessionId r)) then w
      else put_pending (obj_set (pr_sessionId r) (queue_of w (pr_sessionId r) @ [r]) (pendingSendRestores (cw_store w))) w)"

definition dequeuePendingSendRestore :: "jstr \<Rightarrow> jstr \<Rightarrow> chat \<Rightarrow> chat" where
  "dequeuePendingSendRestore sid i w =
     (if \<not> list_ex (\<lambda>x. pr_id x = i) (queue_of w sid) then w
      else
        (let remaining = filter (\<lambda>x. pr_id x \<noteq> i) (queue_of w sid); q = pendingSendRestores (cw_store w)
         in put_pending (if remaining \<noteq> [] then obj_set sid remaining q else obj_delete sid q) w))"

section \<open>The drafts\<close>

definition put_drafts :: "json jsobj \<Rightarrow> chat \<Rightarrow> chat" where
  "put_drafts ds w =
     on_store (inputDrafts_update (\<lambda>_. ds)) (on_storage (writeDrafts (wsKey (cw_slug w) DRAFTS_KEY) ds) w)"

definition put_uploads :: "json list jsobj \<Rightarrow> chat \<Rightarrow> chat" where
  "put_uploads us w =
     on_store (inputDraftAttachments_update (\<lambda>_. us))
       (on_storage (writeDraftAttachments (wsKey (cw_slug w) DRAFT_ATTACHMENTS_KEY) us) w)"

text \<open>\<open>inputDrafts[id] ?? ""\<close> of slots that hold strings.\<close>

definition chat_draft_text :: "chat \<Rightarrow> jstr \<Rightarrow> jstr" where
  "chat_draft_text w sid = (case obj_get (inputDrafts (cw_store w)) sid of Some (JStr s) \<Rightarrow> s | _ \<Rightarrow> [])"

definition chat_uploads :: "chat \<Rightarrow> jstr \<Rightarrow> json list" where
  "chat_uploads w sid = (case obj_get (inputDraftAttachments (cw_store w)) sid of Some us \<Rightarrow> us | None \<Rightarrow> [])"

definition setInputDraft :: "jstr \<Rightarrow> jstr \<Rightarrow> chat \<Rightarrow> chat" where
  "setInputDraft sid draft w = put_drafts (obj_set sid (JStr draft) (inputDrafts (cw_store w))) w"

definition appendToInputDraft :: "jstr \<Rightarrow> jstr \<Rightarrow> chat \<Rightarrow> chat" where
  "appendToInputDraft sid markdown w =
     put_drafts (obj_set sid (JStr (appendMarkdown (chat_draft_text w sid) markdown)) (inputDrafts (cw_store w))) w"

definition set_uploads :: "jstr \<Rightarrow> json list \<Rightarrow> chat \<Rightarrow> chat" where
  "set_uploads sid us w = put_uploads (obj_set sid us (inputDraftAttachments (cw_store w))) w"

definition setInputDraftAttachments :: "jstr \<Rightarrow> json list \<Rightarrow> chat \<Rightarrow> chat" where
  "setInputDraftAttachments sid us w =
     put_uploads (if us \<noteq> [] then obj_set sid us (inputDraftAttachments (cw_store w))
       else obj_delete sid (inputDraftAttachments (cw_store w))) w"

definition is_upload_of :: "json \<Rightarrow> json \<Rightarrow> bool" where
  "is_upload_of att u =
     (upload_status u = Some ''uploaded'' \<and>
      (case json_field u ''attachment'' of Some a \<Rightarrow> str_field a ''id'' = str_field att ''id'' | None \<Rightarrow> False))"

definition addInputDraftAttachment :: "jstr \<Rightarrow> json \<Rightarrow> chat \<Rightarrow> chat" where
  "addInputDraftAttachment sid att w =
     (if att_str att ''id'' = [] then w
      else
        (let existing = chat_uploads w sid; wrapped = JObj (attachmentToDraftUpload att)
         in set_uploads sid
              (if list_ex (is_upload_of att) existing then map (\<lambda>u. if is_upload_of att u then wrapped else u) existing
               else existing @ [wrapped]) w))"

definition addInputDraftUpload :: "jstr \<Rightarrow> json \<Rightarrow> chat \<Rightarrow> chat" where
  "addInputDraftUpload sid u w =
     (if list_ex (\<lambda>v. upload_id v = upload_id u) (chat_uploads w sid) then w else set_uploads sid (chat_uploads w sid @ [u]) w)"

definition settleInputDraftUpload :: "jstr \<Rightarrow> jstr \<Rightarrow> json \<Rightarrow> chat \<Rightarrow> chat" where
  "settleInputDraftUpload sid i att w =
     (if \<not> tracks (chat_uploads w sid) i then w else set_uploads sid (settle_in i att (chat_uploads w sid)) w)"

definition failInputDraftUpload :: "jstr \<Rightarrow> jstr \<Rightarrow> json option \<Rightarrow> chat \<Rightarrow> chat" where
  "failInputDraftUpload sid i error w =
     (if \<not> tracks (chat_uploads w sid) i then w else set_uploads sid (fail_in i error (chat_uploads w sid)) w)"

definition removeInputDraftUpload :: "jstr \<Rightarrow> jstr \<Rightarrow> chat \<Rightarrow> chat" where
  "removeInputDraftUpload sid i w =
     (if \<not> tracks (chat_uploads w sid) i then w else setInputDraftAttachments sid (remove_in i (chat_uploads w sid)) w)"

definition clearInputDraft :: "jstr \<Rightarrow> chat \<Rightarrow> chat" where
  "clearInputDraft sid w =
     (if sid \<notin> set (obj_keys (inputDrafts (cw_store w))) \<and> sid \<notin> set (obj_keys (inputDraftAttachments (cw_store w))) then w
      else put_uploads (obj_delete sid (inputDraftAttachments (cw_store w)))
        (put_drafts (obj_delete sid (inputDrafts (cw_store w))) w))"

section \<open>Workspaces\<close>

text \<open>\<open>setCurrentWorkspace\<close> sets the slug at once; the stores are read again in a later microtask.\<close>

definition rehydrateChat :: "chat \<Rightarrow> chat" where
  "rehydrateChat w =
     (let sl = cw_slug w; st = cw_storage w;
          nextAgent = get_text st (wsKey sl AGENT_STORAGE_KEY);
          (ds, us, st') = loadDraftSlots st (wsKey sl DRAFTS_KEY) (wsKey sl DRAFT_ATTACHMENTS_KEY) nextAgent
      in w\<lparr>cw_storage := st',
           cw_store := (cw_store w)
             \<lparr>activeSessionId := get_text st (wsKey sl SESSION_STORAGE_KEY), selectedAgentId := nextAgent,
              selectedProjectId := get_text st (wsKey sl PROJECT_STORAGE_KEY),
              inputDrafts := ds, inputDraftAttachments := us,
              appliedDraftRestoreIds := readAppliedRestores st' (wsKey sl APPLIED_RESTORES_KEY),
              pendingSendRestores := readPendingSendRestores st' (wsKey sl PENDING_SEND_RESTORES_KEY)\<rparr>\<rparr>)"

definition set_slug :: "jstr option \<Rightarrow> chat \<Rightarrow> chat" where
  "set_slug sl w = w\<lparr>cw_slug := sl\<rparr>"

text \<open>The part of \<open>clearWorkspaceStorage\<close> and of \<open>resetAllRegisteredDrafts\<close> that concerns the chat.\<close>

definition clearChatStorage :: "jstr \<Rightarrow> chat \<Rightarrow> chat" where
  "clearChatStorage sl =
     on_storage (\<lambda>st.
       fold (\<lambda>key. put_json (key @ '':'' @ sl) None) [DRAFTS_KEY, DRAFT_ATTACHMENTS_KEY, APPLIED_RESTORES_KEY, PENDING_SEND_RESTORES_KEY]
         (fold (\<lambda>key. put_text (key @ '':'' @ sl) None) [AGENT_STORAGE_KEY, PROJECT_STORAGE_KEY, SESSION_STORAGE_KEY, CHAT_EXPANDED_KEY] st))"

definition resetChatDrafts :: "chat \<Rightarrow> chat" where
  "resetChatDrafts = on_store (\<lambda>s. s\<lparr>inputDrafts := [], inputDraftAttachments := [], appliedDraftRestoreIds := [], pendingSendRestores := []\<rparr>)"

end
