(* ===== verification/Chat_Restore.thy ===== *)
theory Chat_Restore
  imports Chat_Store Machines
begin

text \<open>
  How a chat composer gets a prompt back: the hook that offers restores
  (\<open>packages/views/chat/components/use-chat-draft-restore.ts\<close>), the composer that takes them and
  sends (\<open>packages/views/chat/components/chat-input.tsx\<close>, \<open>use-chat-controller.ts\<close>), and the mutation
  that consumes the server's row (\<open>packages/core/chat/mutations.ts\<close>). One composer, the one on screen.
  An effect of a component is an event that may come at any time and reads the state as it then is.
\<close>

section \<open>State\<close>

record restore_row =
  rr_id :: jstr
  rr_session :: jstr
  rr_content :: jstr
  rr_attachments :: "json list"

record restore_request =
  rd_id :: jstr
  rd_content :: jstr
  rd_attachments :: "json list"
  rd_sessionId :: jstr
  rd_serverRestoreId :: "jstr option"

text \<open>A send in flight: the slot, its persisted value and the active session when it began.\<close>

record chat_send =
  sd_key :: jstr
  sd_value :: "json option"
  sd_source :: "jstr option"

text \<open>
  \<open>rs_cache\<close> holds the data of the restore queries and \<open>rs_fetching\<close> the answers on their way, at most
  one per session; \<open>rs_pending\<close> is text typed into the editor that its debounce still holds, and
  \<open>rs_loaded\<close> the slot the editor's document belongs to. \<open>rs_taken\<close> lists the server restores written
  into a draft so far; the code keeps no such list.
\<close>

record restore_system =
  rs_chat :: chat
  rs_server :: "restore_row list"
  rs_cache :: "restore_row list jsobj"
  rs_fetching :: "restore_row list jsobj"
  rs_consuming :: "(jstr \<times> jstr) list"
  rs_enabled :: bool
  rs_request :: "restore_request option"
  rs_reconciling :: "jstr list"
  rs_appliedRef :: "jstr option"
  rs_pending :: "jstr option"
  rs_loaded :: jstr
  rs_sending :: "chat_send option"
  rs_taken :: "jstr list"

definition on_chat :: "(chat \<Rightarrow> chat) \<Rightarrow> restore_system \<Rightarrow> restore_system" where
  "on_chat f s = s\<lparr>rs_chat := f (rs_chat s)\<rparr>"

definition active :: "restore_system \<Rightarrow> jstr option" where
  "active s = activeSessionId (cw_store (rs_chat s))"

definition draftKey :: "restore_system \<Rightarrow> jstr" where
  "draftKey s = (case active s of Some i \<Rightarrow> i | None \<Rightarrow> DRAFT_NEW_SESSION)"

definition rows_of :: "restore_row list jsobj \<Rightarrow> jstr \<Rightarrow> restore_row list" where
  "rows_of ob sid = (case obj_get ob sid of Some rows \<Rightarrow> rows | None \<Rightarrow> [])"

definition ledger :: "restore_system \<Rightarrow> jstr list" where
  "ledger s = appliedDraftRestoreIds (cw_store (rs_chat s))"

section \<open>The hook\<close>

text \<open>\<open>consume\<close> with the optimistic write of the mutation.\<close>

definition consume :: "jstr \<Rightarrow> jstr \<Rightarrow> restore_system \<Rightarrow> restore_system" where
  "consume sid i s =
     s\<lparr>rs_reconciling := i # rs_reconciling s,
       rs_consuming := (sid, i) # rs_consuming s,
       rs_cache := (case obj_get (rs_cache s) sid of
                      None \<Rightarrow> rs_cache s
                    | Some rows \<Rightarrow> obj_set sid (filter (\<lambda>r. rr_id r \<noteq> i) rows) (rs_cache s))\<rparr>"

definition reconcile_row :: "jstr \<Rightarrow> restore_row \<Rightarrow> restore_system \<Rightarrow> restore_system" where
  "reconcile_row sid r s =
     (if rr_session r \<noteq> sid then s
      else if rr_id r \<notin> set (ledger s) then s
      else if rr_id r \<in> set (rs_reconciling s) then s
      else consume sid (rr_id r) s)"

definition run_reconcile :: "restore_system \<Rightarrow> restore_system" where
  "run_reconcile s =
     (case nonempty (active s) of
        None \<Rightarrow> s
      | Some sid \<Rightarrow> if \<not> rs_enabled s then s else fold (reconcile_row sid) (rows_of (rs_cache s) sid) s)"

definition offer_pending :: "pending_restore \<Rightarrow> jstr \<Rightarrow> restore_request" where
  "offer_pending q sid =
     \<lparr>rd_id = pr_id q, rd_content = pr_content q, rd_attachments = pr_attachments q, rd_sessionId = sid, rd_serverRestoreId = None\<rparr>"

definition offer_row :: "restore_row \<Rightarrow> jstr \<Rightarrow> restore_request" where
  "offer_row r sid =
     \<lparr>rd_id = rr_id r, rd_content = rr_content r, rd_attachments = rr_attachments r, rd_sessionId = sid,
      rd_serverRestoreId = Some (rr_id r)\<rparr>"

definition run_offer :: "restore_system \<Rightarrow> restore_system" where
  "run_offer s =
     (if \<not> rs_enabled s then s\<lparr>rs_request := None\<rparr>
      else
        (case nonempty (active s) of
           None \<Rightarrow> s
         | Some sid \<Rightarrow>
             (case rs_request s of
                Some req \<Rightarrow> if rd_sessionId req = [] \<or> rd_sessionId req = sid then s else s\<lparr>rs_request := None\<rparr>
              | None \<Rightarrow>
                  (case queue_of (rs_chat s) sid of
                     q # _ \<Rightarrow> s\<lparr>rs_request := Some (offer_pending q sid)\<rparr>
                   | [] \<Rightarrow>
                       (case find (\<lambda>r. rr_session r = sid \<and> rr_id r \<notin> set (ledger s)) (rows_of (rs_cache s) sid) of
                          None \<Rightarrow> s
                        | Some r \<Rightarrow> s\<lparr>rs_request := Some (offer_row r sid)\<rparr>)))))"

definition handleRestoreDraftApplied :: "restore_system \<Rightarrow> restore_system" where
  "handleRestoreDraftApplied s =
     (case rs_request s of
        None \<Rightarrow> s
      | Some req \<Rightarrow>
          (let s1 =
             (case rd_serverRestoreId req of
                Some i \<Rightarrow>
                  if rd_sessionId req = [] then s
                  else consume (rd_sessionId req) i (on_chat (markDraftRestoreApplied i) s)
              | None \<Rightarrow>
                  if rd_sessionId req = [] then s else on_chat (dequeuePendingSendRestore (rd_sessionId req) (rd_id req)) s)
           in s1\<lparr>rs_request := None\<rparr>))"

section \<open>The composer\<close>

definition attachmentReferenceUrls :: "json \<Rightarrow> jstr list" where
  "attachmentReferenceUrls att =
     filter (\<lambda>u. u \<noteq> [])
       [att_str att ''markdownLink'', att_str att ''markdown_url'', att_str att ''download_url'', att_str att ''url'', att_str att ''link'',
        if att_str att ''id'' \<noteq> [] then attachmentDownloadPath (att_str att ''id'') else []]"

definition isAttachmentReferenced :: "jstr \<Rightarrow> json \<Rightarrow> bool" where
  "isAttachmentReferenced content att = list_ex (str_includes content) (attachmentReferenceUrls att)"

definition keep_upload :: "jstr \<Rightarrow> json \<Rightarrow> bool" where
  "keep_upload markdown u =
     (upload_status u \<noteq> Some ''uploaded'' \<or>
      (case json_field u ''attachment'' of Some att \<Rightarrow> isAttachmentReferenced markdown att | None \<Rightarrow> False))"

definition commitDraft :: "jstr \<Rightarrow> jstr \<Rightarrow> chat \<Rightarrow> chat" where
  "commitDraft key markdown w =
     (let w1 = setInputDraft key markdown w; uploads = chat_uploads w1 key; referenced = filter (keep_upload markdown) uploads
      in if uploads = [] then w1
         else if length referenced \<noteq> length uploads then setInputDraftAttachments key referenced w1
         else w1)"

text \<open>The debounce fires, or its bytes are taken back: they go to the slot that is loaded.\<close>

definition flush :: "restore_system \<Rightarrow> restore_system" where
  "flush s =
     (case rs_pending s of
        None \<Rightarrow> s
      | Some md \<Rightarrow> (on_chat (commitDraft (rs_loaded s) md) s)\<lparr>rs_pending := None\<rparr>)"

text \<open>The layout effect of the composer; \<open>uploading\<close> is what \<open>hasActiveUploads\<close> says.\<close>

definition run_adopt :: "bool \<Rightarrow> restore_system \<Rightarrow> restore_system" where
  "run_adopt uploading s =
     (if rs_loaded s = draftKey s \<or> uploading then s else (flush s)\<lparr>rs_loaded := draftKey s\<rparr>)"

definition run_input :: "restore_system \<Rightarrow> restore_system" where
  "run_input s =
     (case rs_request s of
        None \<Rightarrow> s\<lparr>rs_appliedRef := None\<rparr>
      | Some req \<Rightarrow>
          if rs_appliedRef s = Some (rd_id req) then s
          else if rd_sessionId req \<noteq> [] \<and> rd_sessionId req \<noteq> draftKey s then s
          else if str_trim (chat_draft_text (rs_chat s) (draftKey s)) \<noteq> [] \<or> chat_uploads (rs_chat s) (draftKey s) \<noteq> [] then s
          else
            (let key = draftKey s;
                 s1 = on_chat (\<lambda>w. setInputDraftAttachments key (map (\<lambda>a. JObj (attachmentToDraftUpload a)) (rd_attachments req))
                                (setInputDraft key (rd_content req) w))
                        (s\<lparr>rs_appliedRef := Some (rd_id req)\<rparr>)
             in handleRestoreDraftApplied
                  (s1\<lparr>rs_taken := (case rd_serverRestoreId req of Some i \<Rightarrow> i # rs_taken s | None \<Rightarrow> rs_taken s)\<rparr>)))"

section \<open>Sending\<close>

definition start_send :: "restore_system \<Rightarrow> restore_system" where
  "start_send s =
     (if rs_sending s \<noteq> None \<or> rs_loaded s \<noteq> draftKey s then s
      else
        (let s1 = flush s
         in s1\<lparr>rs_sending := Some \<lparr>sd_key = draftKey s, sd_value = obj_get (inputDrafts (cw_store (rs_chat s1))) (draftKey s),
                                   sd_source = active s\<rparr>\<rparr>))"

definition isStillOnComposeTarget :: "jstr option \<Rightarrow> jstr option \<Rightarrow> bool" where
  "isStillOnComposeTarget liveActiveSessionId sentFromSessionId = (liveActiveSessionId = sentFromSessionId)"

definition commitInput :: "jstr \<Rightarrow> json option \<Rightarrow> jstr list \<Rightarrow> restore_system \<Rightarrow> restore_system" where
  "commitInput keyAtSend valueAtSend extraDraftKeys s =
     (let s1 = flush s;
          liveDraft = obj_get (inputDrafts (cw_store (rs_chat s1))) keyAtSend;
          untouched = (liveDraft = None \<or> liveDraft = valueAtSend);
          s2 = (if untouched then on_chat (clearInputDraft keyAtSend) s1 else s1)
      in fold (\<lambda>key. if key \<noteq> keyAtSend then on_chat (clearInputDraft key) else (\<lambda>x. x)) extraDraftKeys s2)"

text \<open>The server accepted the message into the session \<open>sid\<close>, or refused it.\<close>

definition accept_send :: "jstr \<Rightarrow> restore_system \<Rightarrow> restore_system" where
  "accept_send sid s =
     (case rs_sending s of
        None \<Rightarrow> s
      | Some sd \<Rightarrow>
          (let s1 = (if isStillOnComposeTarget (active s) (sd_source sd) then on_chat (setActiveSession (Some sid)) s else s)
           in (commitInput (sd_key sd) (sd_value sd) [sid] s1)\<lparr>rs_sending := None\<rparr>))"

section \<open>The machine\<close>

text \<open>
  The settling of a consume says whether the server deleted the row, whether the request succeeded and
  whether the query library ran the callbacks given to \<open>mutate\<close>.
\<close>

datatype restore_event =
  Typed jstr | Flushed | Adopt bool | Staged jstr "json list" | Selected "jstr option" | Enable bool
  | RunReconcile | RunOffer | RunInput
  | StartSend | AcceptSend jstr | RejectSend
  | LocalRestore pending_restore | ServerRestored restore_row | ConsumedElsewhere jstr
  | FetchSent jstr | FetchAnswered jstr | ConsumeSettled jstr jstr bool bool bool
  | Reload | SetSlug "jstr option" | Rehydrate

definition fresh_system :: "chat \<Rightarrow> restore_row list \<Rightarrow> jstr list \<Rightarrow> restore_system" where
  "fresh_system w server taken =
     \<lparr>rs_chat = w, rs_server = server, rs_cache = [], rs_fetching = [], rs_consuming = [], rs_enabled = False,
      rs_request = None, rs_reconciling = [], rs_appliedRef = None, rs_pending = None,
      rs_loaded = (case activeSessionId (cw_store w) of Some i \<Rightarrow> i | None \<Rightarrow> DRAFT_NEW_SESSION),
      rs_sending = None, rs_taken = taken\<rparr>"

definition consume_settled :: "jstr \<Rightarrow> jstr \<Rightarrow> bool \<Rightarrow> bool \<Rightarrow> bool \<Rightarrow> restore_system \<Rightarrow> restore_system" where
  "consume_settled sid i deleted success callbacks s =
     (if (sid, i) \<notin> set (rs_consuming s) then s
      else
        (let s1 = s\<lparr>rs_consuming := remove1 (sid, i) (rs_consuming s),
                    rs_server := (if deleted \<or> success then filter (\<lambda>r. rr_id r \<noteq> i) (rs_server s) else rs_server s)\<rparr>;
             s2 = (if callbacks \<and> success then on_chat (forgetDraftRestoreApplied i) s1 else s1)
         in if callbacks then s2\<lparr>rs_reconciling := removeAll i (rs_reconciling s2)\<rparr> else s2))"

fun restore_step :: "restore_system \<Rightarrow> restore_event \<Rightarrow> restore_system" where
  "restore_step s (Typed md) = s\<lparr>rs_pending := Some md\<rparr>"
| "restore_step s Flushed = flush s"
| "restore_step s (Adopt uploading) = run_adopt uploading s"
| "restore_step s (Staged key us) = on_chat (setInputDraftAttachments key us) s"
| "restore_step s (Selected i) = on_chat (setActiveSession i) s"
| "restore_step s (Enable b) = s\<lparr>rs_enabled := b\<rparr>"
| "restore_step s RunReconcile = run_reconcile s"
| "restore_step s RunOffer = run_offer s"
| "restore_step s RunInput = run_input s"
| "restore_step s StartSend = start_send s"
| "restore_step s (AcceptSend sid) = accept_send sid s"
| "restore_step s RejectSend = s\<lparr>rs_sending := None\<rparr>"
| "restore_step s (LocalRestore r) = on_chat (enqueuePendingSendRestore r) s"
| "restore_step s (ServerRestored r) = s\<lparr>rs_server := rs_server s @ [r]\<rparr>"
| "restore_step s (ConsumedElsewhere i) = s\<lparr>rs_server := filter (\<lambda>r. rr_id r \<noteq> i) (rs_server s)\<rparr>"
| "restore_step s (FetchSent sid) = s\<lparr>rs_fetching := obj_set sid (filter (\<lambda>r. rr_session r = sid) (rs_server s)) (rs_fetching s)\<rparr>"
| "restore_step s (FetchAnswered sid) =
     (case obj_get (rs_fetching s) sid of
        None \<Rightarrow> s
      | Some rows \<Rightarrow> s\<lparr>rs_cache := obj_set sid rows (rs_cache s), rs_fetching := obj_delete sid (rs_fetching s)\<rparr>)"
| "restore_step s (ConsumeSettled sid i deleted success callbacks) = consume_settled sid i deleted success callbacks s"
| "restore_step s Reload =
     fresh_system (createChatStore (cw_slug (rs_chat s)) (cw_storage (rs_chat s))) (rs_server s) (rs_taken s)"
| "restore_step s (SetSlug sl) = on_chat (set_slug sl) s"
| "restore_step s Rehydrate = on_chat rehydrateChat s"

end
