(* ===== verification/Chat_Laws.thy ===== *)
theory Chat_Laws
  imports Chat_Restore
begin

named_theorems chat_simps

section \<open>Storage\<close>

lemma get_json_put [chat_simps]: "get_json (put_json k v st) k' = (if k' = k then v else get_json st k')"
  by (cases v) (simp_all add: get_json_def put_json_def js_simps)

lemma get_json_put_text [chat_simps]: "get_json (put_text k v st) k' = get_json st k'"
  by (simp add: get_json_def put_text_def split: option.split)

lemma get_text_put [chat_simps]: "get_text (put_text k v st) k' = (if k' = k then v else get_text st k')"
  by (cases v) (simp_all add: get_text_def put_text_def js_simps)

lemma get_text_put_json [chat_simps]: "get_text (put_json k v st) k' = get_text st k'"
  by (simp add: get_text_def put_json_def split: option.split)

lemma wsKey_inj [chat_simps]: "wsKey sl a = wsKey sl b \<longleftrightarrow> a = b"
  by (auto simp: wsKey_def split: option.splits if_splits)

lemma chat_keys [chat_simps]:
  "PENDING_SEND_RESTORES_KEY \<noteq> DRAFTS_KEY" "PENDING_SEND_RESTORES_KEY \<noteq> DRAFT_ATTACHMENTS_KEY"
  "PENDING_SEND_RESTORES_KEY \<noteq> APPLIED_RESTORES_KEY" "APPLIED_RESTORES_KEY \<noteq> DRAFTS_KEY"
  "APPLIED_RESTORES_KEY \<noteq> DRAFT_ATTACHMENTS_KEY" "DRAFTS_KEY \<noteq> DRAFT_ATTACHMENTS_KEY"
  by (simp_all add: PENDING_SEND_RESTORES_KEY_def DRAFTS_KEY_def DRAFT_ATTACHMENTS_KEY_def APPLIED_RESTORES_KEY_def)

lemmas chat_keys_sym [chat_simps] = chat_keys [THEN not_sym]

lemma prune_filter:
  assumes "obj_ok ob"
  shows "prune keep ob = filter (\<lambda>kv. keep (snd kv)) ob"
proof -
  have "prune keep ob = obj_assign [] (filter (\<lambda>kv. keep (snd kv)) ob)"
  proof -
    have "fold (\<lambda>(k, v) out. if keep v then obj_set k v out else out) es out = obj_assign out (filter (\<lambda>kv. keep (snd kv)) es)" for es out
      by (induction es arbitrary: out) (auto simp: obj_assign_def)
    then show ?thesis by (simp add: prune_def)
  qed
  moreover have "obj_ok (filter (\<lambda>kv. keep (snd kv)) ob)"
    using assms by (auto simp: obj_ok_def obj_keys_def distinct_map inj_on_def sorted_wrt_map sorted_wrt_filter)
  ultimately show ?thesis by (simp add: obj_rebuild)
qed

lemma json_strings_map: "json_strings (map JStr ids) = ids"
  by (induction ids) (simp_all add: json_strings_def map_filter_simps)

lemma read_applied_written: "readAppliedRestores (writeAppliedRestores k ids st) k = ids"
  by (simp add: readAppliedRestores_def writeAppliedRestores_def chat_simps json_strings_map)

lemma read_pending_json: "list_all isAttachmentDraft (pr_attachments r) \<Longrightarrow> read_pending (pending_json r) = Some r"
  by (cases r) (simp add: read_pending_def pending_json_def is_object_def str_field_def json_field_def list_all_iff filter_id_conv)

text \<open>What a queue of the storage always is.\<close>

definition queue_read :: "pending_restore list \<Rightarrow> bool" where
  "queue_read q = (q \<noteq> [] \<and> (\<forall>r \<in> set q. list_all isAttachmentDraft (pr_attachments r)))"

definition queues_ok :: "pending_restore list jsobj \<Rightarrow> bool" where
  "queues_ok qs = (obj_ok qs \<and> (\<forall>kv \<in> set qs. queue_read (snd kv) \<and> distinct (map pr_id (snd kv))))"

lemma read_pending_map:
  "\<forall>r \<in> set q. list_all isAttachmentDraft (pr_attachments r) \<Longrightarrow> List.map_filter read_pending (map pending_json q) = q"
  by (induction q) (simp_all add: map_filter_simps read_pending_json)

lemma read_queues_written:
  assumes "queues_ok qs"
  shows "readPendingSendRestores (writePendingSendRestores k qs st) k = qs"
proof -
  have "filter (\<lambda>kv. snd kv \<noteq> []) qs = qs"
    using assms by (auto simp: queues_ok_def queue_read_def filter_id_conv)
  with assms have p: "prune (\<lambda>q. q \<noteq> []) qs = qs"
    by (simp add: prune_filter queues_ok_def)
  have "fold read_queue (map (\<lambda>(k, q). (k, JArr (map pending_json q))) es) out = obj_assign out es" if "set es \<subseteq> set qs" for es out
    using that
  proof (induction es arbitrary: out)
    case (Cons e es)
    obtain sid q where e: "e = (sid, q)" by (cases e)
    with Cons.prems assms have "List.map_filter read_pending (map pending_json q) = q" "q \<noteq> []"
      using read_pending_map by (auto simp: queues_ok_def queue_read_def)
    with Cons e show ?case by (simp add: obj_assign_def read_queue_def)
  qed (simp add: obj_assign_def)
  from this [of qs "[]"] assms have "fold read_queue (map (\<lambda>(k, q). (k, JArr (map pending_json q))) qs) [] = qs"
    by (simp add: obj_rebuild queues_ok_def)
  with p show ?thesis
    by (simp add: readPendingSendRestores_def writePendingSendRestores_def Let_def chat_simps object_entries_def)
qed

lemma queue_read_filter: "List.map_filter read_pending vs \<noteq> [] \<Longrightarrow> queue_read (List.map_filter read_pending vs)"
  by (auto simp: queue_read_def map_filter_def read_pending_def list_all_iff split: if_splits option.splits json.splits)

lemma read_queue_ok:
  assumes "obj_ok out" "\<forall>kv \<in> set out. queue_read (snd kv)"
  shows "obj_ok (read_queue e out) \<and> (\<forall>kv \<in> set (read_queue e out). queue_read (snd kv))"
proof (cases "snd e")
  case (JArr vs)
  let ?q = "List.map_filter read_pending vs"
  have "\<forall>kv \<in> set (obj_set (fst e) ?q out). queue_read (snd kv)" if "?q \<noteq> []"
    using assms(2) queue_read_filter [OF that] subsetD [OF set_obj_set [of "fst e" ?q out]] by (metis insertE snd_conv)
  with JArr assms show ?thesis by (simp add: read_queue_def Let_def obj_ok_set)
qed (use assms in \<open>simp_all add: read_queue_def\<close>)

lemma read_queues_ok:
  "obj_ok out \<Longrightarrow> \<forall>kv \<in> set out. queue_read (snd kv) \<Longrightarrow>
   obj_ok (fold read_queue es out) \<and> (\<forall>kv \<in> set (fold read_queue es out). queue_read (snd kv))"
proof (induction es arbitrary: out)
  case (Cons e es)
  from Cons.IH [of "read_queue e out"] read_queue_ok [OF Cons.prems, of e] show ?case by simp
qed simp

lemma read_pending_ok:
  "obj_ok (readPendingSendRestores st k)" "\<forall>kv \<in> set (readPendingSendRestores st k). queue_read (snd kv)"
proof -
  have "obj_ok []" by (simp add: obj_ok_def obj_keys_def)
  with read_queues_ok [of "[]"] have "obj_ok (fold read_queue es []) \<and> (\<forall>kv \<in> set (fold read_queue es []). queue_read (snd kv))" for es
    by simp
  then show "obj_ok (readPendingSendRestores st k)" "\<forall>kv \<in> set (readPendingSendRestores st k). queue_read (snd kv)"
    using \<open>obj_ok []\<close> unfolding readPendingSendRestores_def by (metis (no_types, lifting) empty_iff list.set(1) option.case_eq_if)+
qed

lemma queues_ok_read:
  "\<forall>kv \<in> set (readPendingSendRestores st k). distinct (map pr_id (snd kv)) \<Longrightarrow> queues_ok (readPendingSendRestores st k)"
  using read_pending_ok [of st k] by (simp add: queues_ok_def)

section \<open>Writing through\<close>

lemma put_simps [chat_simps]:
  "cw_slug (put_applied ids w) = cw_slug w" "cw_slug (put_pending q w) = cw_slug w" "cw_slug (put_drafts ds w) = cw_slug w"
  "cw_slug (put_uploads us w) = cw_slug w" "cw_slug (setActiveSession i w) = cw_slug w"
  "pendingSendRestores (cw_store (put_applied ids w)) = pendingSendRestores (cw_store w)"
  "pendingSendRestores (cw_store (put_pending q w)) = q"
  "pendingSendRestores (cw_store (put_drafts ds w)) = pendingSendRestores (cw_store w)"
  "pendingSendRestores (cw_store (put_uploads us w)) = pendingSendRestores (cw_store w)"
  "pendingSendRestores (cw_store (setActiveSession i w)) = pendingSendRestores (cw_store w)"
  "appliedDraftRestoreIds (cw_store (put_applied ids w)) = ids"
  "appliedDraftRestoreIds (cw_store (put_pending q w)) = appliedDraftRestoreIds (cw_store w)"
  "appliedDraftRestoreIds (cw_store (put_drafts ds w)) = appliedDraftRestoreIds (cw_store w)"
  "appliedDraftRestoreIds (cw_store (put_uploads us w)) = appliedDraftRestoreIds (cw_store w)"
  "appliedDraftRestoreIds (cw_store (setActiveSession i w)) = appliedDraftRestoreIds (cw_store w)"
  "inputDrafts (cw_store (put_applied ids w)) = inputDrafts (cw_store w)"
  "inputDrafts (cw_store (put_pending q w)) = inputDrafts (cw_store w)"
  "inputDrafts (cw_store (put_drafts ds w)) = ds"
  "inputDrafts (cw_store (put_uploads us w)) = inputDrafts (cw_store w)"
  "inputDrafts (cw_store (setActiveSession i w)) = inputDrafts (cw_store w)"
  "inputDraftAttachments (cw_store (put_applied ids w)) = inputDraftAttachments (cw_store w)"
  "inputDraftAttachments (cw_store (put_pending q w)) = inputDraftAttachments (cw_store w)"
  "inputDraftAttachments (cw_store (put_drafts ds w)) = inputDraftAttachments (cw_store w)"
  "inputDraftAttachments (cw_store (put_uploads us w)) = us"
  "inputDraftAttachments (cw_store (setActiveSession i w)) = inputDraftAttachments (cw_store w)"
  "activeSessionId (cw_store (put_applied ids w)) = activeSessionId (cw_store w)"
  "activeSessionId (cw_store (put_pending q w)) = activeSessionId (cw_store w)"
  "activeSessionId (cw_store (put_drafts ds w)) = activeSessionId (cw_store w)"
  "activeSessionId (cw_store (put_uploads us w)) = activeSessionId (cw_store w)"
  "activeSessionId (cw_store (setActiveSession i w)) = i"
  by (simp_all add: put_applied_def put_pending_def put_drafts_def put_uploads_def setActiveSession_def on_store_def on_storage_def)

lemma put_storage [chat_simps]:
  "cw_storage (put_applied ids w) = writeAppliedRestores (wsKey (cw_slug w) APPLIED_RESTORES_KEY) ids (cw_storage w)"
  "cw_storage (put_pending q w) = writePendingSendRestores (wsKey (cw_slug w) PENDING_SEND_RESTORES_KEY) q (cw_storage w)"
  "cw_storage (put_drafts ds w) = writeDrafts (wsKey (cw_slug w) DRAFTS_KEY) ds (cw_storage w)"
  "cw_storage (put_uploads us w) = writeDraftAttachments (wsKey (cw_slug w) DRAFT_ATTACHMENTS_KEY) us (cw_storage w)"
  "cw_storage (setActiveSession i w) = put_text (wsKey (cw_slug w) SESSION_STORAGE_KEY) (nonempty i) (cw_storage w)"
  by (simp_all add: put_applied_def put_pending_def put_drafts_def put_uploads_def setActiveSession_def on_store_def on_storage_def)

lemma get_json_written [chat_simps]:
  "k' \<noteq> k \<Longrightarrow> get_json (writeAppliedRestores k ids st) k' = get_json st k'"
  "k' \<noteq> k \<Longrightarrow> get_json (writePendingSendRestores k q st) k' = get_json st k'"
  "k' \<noteq> k \<Longrightarrow> get_json (writeDrafts k ds st) k' = get_json st k'"
  "k' \<noteq> k \<Longrightarrow> get_json (writeDraftAttachments k us st) k' = get_json st k'"
  by (simp_all add: writeAppliedRestores_def writePendingSendRestores_def writeDrafts_def writeDraftAttachments_def Let_def chat_simps)

lemma reads_elsewhere [chat_simps]:
  "k' \<noteq> k \<Longrightarrow> readPendingSendRestores (writeAppliedRestores k ids st) k' = readPendingSendRestores st k'"
  "k' \<noteq> k \<Longrightarrow> readPendingSendRestores (writeDrafts k ds st) k' = readPendingSendRestores st k'"
  "k' \<noteq> k \<Longrightarrow> readPendingSendRestores (writeDraftAttachments k us st) k' = readPendingSendRestores st k'"
  "readPendingSendRestores (put_text t v st) k' = readPendingSendRestores st k'"
  "k' \<noteq> k \<Longrightarrow> readAppliedRestores (writePendingSendRestores k q st) k' = readAppliedRestores st k'"
  "k' \<noteq> k \<Longrightarrow> readAppliedRestores (writeDrafts k ds st) k' = readAppliedRestores st k'"
  "k' \<noteq> k \<Longrightarrow> readAppliedRestores (writeDraftAttachments k us st) k' = readAppliedRestores st k'"
  "readAppliedRestores (put_text t v st) k' = readAppliedRestores st k'"
  by (simp_all add: readPendingSendRestores_def readAppliedRestores_def chat_simps)

section \<open>Drafts in the storage\<close>

lemma read_drafts_written:
  "obj_ok ds \<Longrightarrow> readDrafts (writeDrafts k ds st) k = filter (\<lambda>kv. js_truthy (snd kv)) ds"
  by (simp add: readDrafts_def writeDrafts_def Let_def chat_simps prune_filter is_object_def object_entries_def)

lemma read_drafts_elsewhere [chat_simps]:
  "k' \<noteq> k \<Longrightarrow> readDrafts (writeAppliedRestores k ids st) k' = readDrafts st k'"
  "k' \<noteq> k \<Longrightarrow> readDrafts (writePendingSendRestores k q st) k' = readDrafts st k'"
  "k' \<noteq> k \<Longrightarrow> readDrafts (writeDraftAttachments k us st) k' = readDrafts st k'"
  "readDrafts (put_text t v st) k' = readDrafts st k'"
  by (simp_all add: readDrafts_def chat_simps)

definition text_at :: "json jsobj \<Rightarrow> jstr \<Rightarrow> jstr" where
  "text_at ds sid = (case obj_get ds sid of Some (JStr s) \<Rightarrow> s | _ \<Rightarrow> [])"

lemma chat_draft_text_at: "chat_draft_text w sid = text_at (inputDrafts (cw_store w)) sid"
  by (simp add: chat_draft_text_def text_at_def)

lemma text_at_truthy: "obj_ok ds \<Longrightarrow> text_at (filter (\<lambda>kv. js_truthy (snd kv)) ds) sid = text_at ds sid"
proof -
  assume ok: "obj_ok ds"
  have "obj_get (filter (\<lambda>kv. js_truthy (snd kv)) ds) sid = (case obj_get ds sid of Some v \<Rightarrow> if js_truthy v then Some v else None | None \<Rightarrow> None)"
  proof (cases "obj_get ds sid")
    case None
    then have "sid \<notin> fst ` set ds" by (simp add: obj_get_def map_of_eq_None_iff)
    then have "sid \<notin> fst ` set (filter (\<lambda>kv. js_truthy (snd kv)) ds)" by auto
    then have "obj_get (filter (\<lambda>kv. js_truthy (snd kv)) ds) sid = None" by (simp add: obj_get_def map_of_eq_None_iff)
    with None show ?thesis by simp
  next
    case (Some v)
    show ?thesis
    proof (cases "js_truthy v")
      case True
      with Some ok have "(sid, v) \<in> set (filter (\<lambda>kv. js_truthy (snd kv)) ds)" by (simp add: obj_get_in)
      with True Some ok show ?thesis by (simp add: obj_in_get obj_ok_filter)
    next
      case False
      have "(sid, u) \<notin> set (filter (\<lambda>kv. js_truthy (snd kv)) ds)" for u
        using False Some obj_in_get [OF ok, of sid u] by auto
      then have "obj_get (filter (\<lambda>kv. js_truthy (snd kv)) ds) sid = None"
        using obj_get_in [of "filter (\<lambda>kv. js_truthy (snd kv)) ds" sid] by (cases "obj_get (filter (\<lambda>kv. js_truthy (snd kv)) ds) sid") blast+
      with False Some show ?thesis by simp
    qed
  qed
  then show ?thesis
    by (auto simp: text_at_def js_truthy_def split: option.split json.split)
qed

lemma obj_ok_deletes: "obj_ok ob \<Longrightarrow> obj_ok (fold obj_delete ks ob)"
  by (induction ks arbitrary: ob) (simp_all add: obj_ok_delete)

lemma get_deletes: "obj_get (fold obj_delete ks ob) k = (if k \<in> set ks then None else obj_get ob k)"
  by (induction ks arbitrary: ob) (auto simp: js_simps)

lemma migrate_ok: "obj_ok ob \<Longrightarrow> obj_ok (fst (migrateLegacyNewChatSlots ob a))"
  by (auto simp: migrateLegacyNewChatSlots_def Let_def obj_ok_set obj_ok_deletes split: option.split)

lemma migrate_other:
  "\<not> str_starts sid DRAFT_NEW_SESSION \<Longrightarrow> obj_get (fst (migrateLegacyNewChatSlots ob a)) sid = obj_get ob sid"
proof -
  assume n: "\<not> str_starts sid DRAFT_NEW_SESSION"
  then have "sid \<noteq> DRAFT_NEW_SESSION" "sid \<notin> set (legacy_keys ob)"
    by (auto simp: str_starts_def legacy_keys_def LEGACY_NEW_SESSION_PREFIX_def dest: append_prefixD)
  then show ?thesis by (auto simp: migrateLegacyNewChatSlots_def Let_def get_deletes js_simps split: option.split)
qed

lemma load_reads [chat_simps]:
  "b \<noteq> DRAFTS_KEY \<Longrightarrow> b \<noteq> DRAFT_ATTACHMENTS_KEY \<Longrightarrow>
   loadDraftSlots st (wsKey sl DRAFTS_KEY) (wsKey sl DRAFT_ATTACHMENTS_KEY) a = (ds, us, st') \<Longrightarrow>
   readPendingSendRestores st' (wsKey sl b) = readPendingSendRestores st (wsKey sl b)
   \<and> readAppliedRestores st' (wsKey sl b) = readAppliedRestores st (wsKey sl b)"
  by (auto simp: loadDraftSlots_def Let_def chat_simps split: prod.splits if_splits)

lemma load_drafts:
  assumes "loadDraftSlots st (wsKey sl DRAFTS_KEY) (wsKey sl DRAFT_ATTACHMENTS_KEY) a = (ds, us, st')"
    and "obj_ok (readDrafts st (wsKey sl DRAFTS_KEY))"
  shows "ds = fst (migrateLegacyNewChatSlots (readDrafts st (wsKey sl DRAFTS_KEY)) a)" "obj_ok ds"
    and "obj_ok (readDrafts st' (wsKey sl DRAFTS_KEY))"
proof -
  show ds: "ds = fst (migrateLegacyNewChatSlots (readDrafts st (wsKey sl DRAFTS_KEY)) a)"
    using assms(1) by (auto simp: loadDraftSlots_def Let_def split: prod.splits)
  then show ok: "obj_ok ds" using assms(2) by (simp add: migrate_ok)
  show "obj_ok (readDrafts st' (wsKey sl DRAFTS_KEY))"
    using assms ok by (auto simp: loadDraftSlots_def Let_def chat_simps read_drafts_written obj_ok_filter split: prod.splits if_splits)
qed

section \<open>What every operation keeps\<close>

text \<open>The queues and the ledger are in the storage as they are in memory.\<close>

definition chat_inv :: "chat \<Rightarrow> bool" where
  "chat_inv w =
     (obj_ok (inputDrafts (cw_store w)) \<and> queues_ok (pendingSendRestores (cw_store w))
      \<and> obj_ok (readDrafts (cw_storage w) (wsKey (cw_slug w) DRAFTS_KEY))
      \<and> readPendingSendRestores (cw_storage w) (wsKey (cw_slug w) PENDING_SEND_RESTORES_KEY) = pendingSendRestores (cw_store w)
      \<and> readAppliedRestores (cw_storage w) (wsKey (cw_slug w) APPLIED_RESTORES_KEY) = appliedDraftRestoreIds (cw_store w))"

lemma chat_inv_puts:
  "chat_inv w \<Longrightarrow> obj_ok ds \<Longrightarrow> chat_inv (put_drafts ds w)"
  "chat_inv w \<Longrightarrow> chat_inv (put_uploads us w)"
  "chat_inv w \<Longrightarrow> chat_inv (setActiveSession i w)"
  "chat_inv w \<Longrightarrow> chat_inv (put_applied ids w)"
  "chat_inv w \<Longrightarrow> queues_ok q \<Longrightarrow> chat_inv (put_pending q w)"
  by (simp_all add: chat_inv_def chat_simps read_applied_written read_queues_written read_drafts_written obj_ok_filter)

lemma chat_inv_ok: "chat_inv w \<Longrightarrow> obj_ok (inputDrafts (cw_store w))" "chat_inv w \<Longrightarrow> queues_ok (pendingSendRestores (cw_store w))"
  by (simp_all add: chat_inv_def)

lemma queue_of_ok:
  assumes "queues_ok (pendingSendRestores (cw_store w))"
  shows "distinct (map pr_id (queue_of w sid))" "\<forall>r \<in> set (queue_of w sid). list_all isAttachmentDraft (pr_attachments r)"
proof -
  have "queue_of w sid = [] \<or> (sid, queue_of w sid) \<in> set (pendingSendRestores (cw_store w))"
    using obj_get_in [of "pendingSendRestores (cw_store w)" sid] by (simp add: queue_of_def split: option.split)
  with assms show "distinct (map pr_id (queue_of w sid))" "\<forall>r \<in> set (queue_of w sid). list_all isAttachmentDraft (pr_attachments r)"
    by (auto simp: queues_ok_def queue_read_def)
qed

lemma queues_ok_set:
  "queues_ok qs \<Longrightarrow> q \<noteq> [] \<Longrightarrow> distinct (map pr_id q) \<Longrightarrow> \<forall>r \<in> set q. list_all isAttachmentDraft (pr_attachments r) \<Longrightarrow>
   queues_ok (obj_set k q qs)"
  using subsetD [OF set_obj_set [of k q qs]] unfolding queues_ok_def queue_read_def by (metis insertE obj_ok_set snd_conv)

lemma queues_ok_delete: "queues_ok qs \<Longrightarrow> queues_ok (obj_delete k qs)"
  by (auto simp: queues_ok_def obj_ok_delete) (auto simp: obj_delete_def)

lemma chat_inv_drafts:
  assumes "chat_inv w"
  shows "chat_inv (setInputDraft k md w)" "chat_inv (setInputDraftAttachments k us w)" "chat_inv (clearInputDraft k w)"
  using assms chat_inv_ok [OF assms]
  by (simp_all add: setInputDraft_def setInputDraftAttachments_def clearInputDraft_def chat_inv_puts obj_ok_set obj_ok_delete)

lemma chat_inv_commit: "chat_inv w \<Longrightarrow> chat_inv (commitDraft k md w)"
  by (simp add: commitDraft_def Let_def chat_inv_drafts)

lemma chat_inv_ledger: "chat_inv w \<Longrightarrow> chat_inv (markDraftRestoreApplied i w)" "chat_inv w \<Longrightarrow> chat_inv (forgetDraftRestoreApplied i w)"
  by (simp_all add: markDraftRestoreApplied_def forgetDraftRestoreApplied_def Let_def chat_inv_puts)

lemma chat_inv_enqueue:
  assumes "chat_inv w" "list_all isAttachmentDraft (pr_attachments r)"
  shows "chat_inv (enqueuePendingSendRestore r w)"
proof -
  have "queues_ok (obj_set (pr_sessionId r) (queue_of w (pr_sessionId r) @ [r]) (pendingSendRestores (cw_store w)))"
    if "\<not> list_ex (\<lambda>x. pr_id x = pr_id r) (queue_of w (pr_sessionId r))"
    using that assms(2) queue_of_ok [OF chat_inv_ok(2) [OF assms(1)], of "pr_sessionId r"]
    by (intro queues_ok_set chat_inv_ok(2) assms(1)) (auto simp: list_ex_iff)
  with assms(1) show ?thesis by (simp add: enqueuePendingSendRestore_def chat_inv_puts)
qed

lemma chat_inv_dequeue:
  assumes "chat_inv w"
  shows "chat_inv (dequeuePendingSendRestore sid i w)"
proof -
  let ?q = "filter (\<lambda>x. pr_id x \<noteq> i) (queue_of w sid)"
  have "queues_ok (obj_set sid ?q (pendingSendRestores (cw_store w)))" if "?q \<noteq> []"
    using that queue_of_ok [OF chat_inv_ok(2) [OF assms(1)], of sid]
    by (intro queues_ok_set chat_inv_ok(2) assms(1)) (auto simp: distinct_map_filter)
  with assms chat_inv_ok(2) [OF assms] show ?thesis
    by (simp add: dequeuePendingSendRestore_def Let_def chat_inv_puts queues_ok_delete)
qed

lemma chat_inv_rehydrate:
  assumes "chat_inv w"
  shows "chat_inv (rehydrateChat w)"
  using assms load_drafts load_reads [of PENDING_SEND_RESTORES_KEY] load_reads [of APPLIED_RESTORES_KEY]
  by (auto simp: rehydrateChat_def chat_inv_def Let_def chat_keys split: prod.split)

lemma chat_inv_create:
  assumes "obj_ok (readDrafts st (wsKey sl DRAFTS_KEY))" "queues_ok (readPendingSendRestores st (wsKey sl PENDING_SEND_RESTORES_KEY))"
  shows "chat_inv (createChatStore sl st)"
  using assms load_drafts load_reads [of PENDING_SEND_RESTORES_KEY] load_reads [of APPLIED_RESTORES_KEY]
  by (auto simp: createChatStore_def chat_inv_def Let_def chat_keys split: prod.split)

lemma chat_inv_reload: "chat_inv w \<Longrightarrow> chat_inv (createChatStore (cw_slug w) (cw_storage w))"
  by (rule chat_inv_create) (simp_all add: chat_inv_def)

end
