(* ===== verification/Chat_Safety.thy ===== *)
theory Chat_Safety
  imports Chat_Laws
begin

text \<open>
  What the events of the restore protocol keep: the queues and the ledger are in the storage as they are
  in memory, and a request without a row on the server stands for an entry of its session's queue.
\<close>

section \<open>Effects\<close>

lemma distinct_ids: "distinct (map f xs) \<Longrightarrow> x \<in> set xs \<Longrightarrow> y \<in> set xs \<Longrightarrow> f x = f y \<Longrightarrow> x = y"
  by (auto simp: distinct_map inj_on_def)

lemma queue_of_puts [chat_simps]:
  "queue_of (put_applied ids w) k = queue_of w k" "queue_of (put_drafts ds w) k = queue_of w k"
  "queue_of (put_uploads us w) k = queue_of w k" "queue_of (setActiveSession i w) k = queue_of w k"
  "queue_of (put_pending q w) k = (case obj_get q k of Some x \<Rightarrow> x | None \<Rightarrow> [])"
  by (simp_all add: queue_of_def chat_simps)

lemma queue_of_ops [chat_simps]:
  "queue_of (setInputDraft j md w) k = queue_of w k" "queue_of (setInputDraftAttachments j us w) k = queue_of w k"
  "queue_of (clearInputDraft j w) k = queue_of w k" "queue_of (commitDraft j md w) k = queue_of w k"
  "queue_of (markDraftRestoreApplied i w) k = queue_of w k" "queue_of (forgetDraftRestoreApplied i w) k = queue_of w k"
  by (simp_all add: setInputDraft_def setInputDraftAttachments_def clearInputDraft_def commitDraft_def Let_def
      markDraftRestoreApplied_def forgetDraftRestoreApplied_def chat_simps)

lemma queue_enqueue: "set (queue_of w k) \<subseteq> set (queue_of (enqueuePendingSendRestore r w) k)"
  by (auto simp: enqueuePendingSendRestore_def chat_simps js_simps queue_of_def split: option.split)

lemma queue_dequeue [chat_simps]:
  "queue_of (dequeuePendingSendRestore sid i w) k = (if k = sid then filter (\<lambda>x. pr_id x \<noteq> i) (queue_of w k) else queue_of w k)"
proof -
  have "filter (\<lambda>x. pr_id x \<noteq> i) (queue_of w sid) = queue_of w sid" if "\<not> list_ex (\<lambda>x. pr_id x = i) (queue_of w sid)"
    using that by (auto simp: list_ex_iff filter_id_conv)
  then show ?thesis
    by (auto simp: dequeuePendingSendRestore_def Let_def chat_simps js_simps) (simp_all add: queue_of_def)
qed

lemma ledger_ops [chat_simps]:
  "appliedDraftRestoreIds (cw_store (setInputDraft j md w)) = appliedDraftRestoreIds (cw_store w)"
  "appliedDraftRestoreIds (cw_store (setInputDraftAttachments j us w)) = appliedDraftRestoreIds (cw_store w)"
  "appliedDraftRestoreIds (cw_store (clearInputDraft j w)) = appliedDraftRestoreIds (cw_store w)"
  "appliedDraftRestoreIds (cw_store (commitDraft j md w)) = appliedDraftRestoreIds (cw_store w)"
  "appliedDraftRestoreIds (cw_store (enqueuePendingSendRestore r w)) = appliedDraftRestoreIds (cw_store w)"
  "appliedDraftRestoreIds (cw_store (dequeuePendingSendRestore sid i w)) = appliedDraftRestoreIds (cw_store w)"
  "set (appliedDraftRestoreIds (cw_store (markDraftRestoreApplied i w))) = insert i (set (appliedDraftRestoreIds (cw_store w)))"
  "set (appliedDraftRestoreIds (cw_store (forgetDraftRestoreApplied i w))) = set (appliedDraftRestoreIds (cw_store w)) - {i}"
  by (auto simp: setInputDraft_def setInputDraftAttachments_def clearInputDraft_def commitDraft_def Let_def
      enqueuePendingSendRestore_def dequeuePendingSendRestore_def markDraftRestoreApplied_def forgetDraftRestoreApplied_def chat_simps)

lemma slug_ops [chat_simps]:
  "cw_slug (setInputDraft j md w) = cw_slug w" "cw_slug (setInputDraftAttachments j us w) = cw_slug w"
  "cw_slug (clearInputDraft j w) = cw_slug w" "cw_slug (dequeuePendingSendRestore sid i w) = cw_slug w"
  "cw_slug (markDraftRestoreApplied i w) = cw_slug w"
  by (simp_all add: setInputDraft_def setInputDraftAttachments_def clearInputDraft_def Let_def
      dequeuePendingSendRestore_def markDraftRestoreApplied_def chat_simps)

lemma draft_ops [chat_simps]:
  "inputDrafts (cw_store (setInputDraft j md w)) = obj_set j (JStr md) (inputDrafts (cw_store w))"
  "inputDrafts (cw_store (setInputDraftAttachments j us w)) = inputDrafts (cw_store w)"
  "inputDrafts (cw_store (clearInputDraft j w)) = obj_delete j (inputDrafts (cw_store w))"
  "inputDrafts (cw_store (dequeuePendingSendRestore sid i w)) = inputDrafts (cw_store w)"
  "inputDrafts (cw_store (markDraftRestoreApplied i w)) = inputDrafts (cw_store w)"
proof -
  have "obj_delete j ob = ob" if "j \<notin> set (obj_keys ob)" for ob :: "json jsobj"
    using that by (force simp: obj_delete_def obj_keys_def filter_id_conv)
  then show "inputDrafts (cw_store (clearInputDraft j w)) = obj_delete j (inputDrafts (cw_store w))"
    by (simp add: clearInputDraft_def chat_simps)
qed (simp_all add: setInputDraft_def setInputDraftAttachments_def Let_def
      dequeuePendingSendRestore_def markDraftRestoreApplied_def chat_simps)

lemma text_at_set [chat_simps]: "text_at (obj_set k (JStr md) ds) j = (if j = k then md else text_at ds j)"
  by (simp add: text_at_def js_simps)

lemma text_at_delete [chat_simps]: "text_at (obj_delete k ds) j = (if j = k then [] else text_at ds j)"
  by (simp add: text_at_def js_simps)

lemma uploads_ops [chat_simps]:
  "chat_uploads (setInputDraftAttachments j us w) k = (if k = j then us else chat_uploads w k)"
  "chat_uploads (setInputDraft j md w) k = chat_uploads w k"
  "chat_uploads (dequeuePendingSendRestore sid i w) k = chat_uploads w k"
  by (auto simp: setInputDraftAttachments_def setInputDraft_def dequeuePendingSendRestore_def Let_def chat_uploads_def chat_simps js_simps)

section \<open>A reload\<close>

definition drafts_stored :: "chat \<Rightarrow> bool" where
  "drafts_stored w = (obj_ok (inputDrafts (cw_store w)) \<and>
     readDrafts (cw_storage w) (wsKey (cw_slug w) DRAFTS_KEY) = filter (\<lambda>kv. js_truthy (snd kv)) (inputDrafts (cw_store w)))"

lemma stored_set: "obj_ok (inputDrafts (cw_store w)) \<Longrightarrow> drafts_stored (setInputDraft k md w)"
  by (simp add: drafts_stored_def setInputDraft_def chat_simps obj_ok_set read_drafts_written)

lemma stored_other:
  "drafts_stored w \<Longrightarrow> drafts_stored (setInputDraftAttachments k us w)"
  "drafts_stored w \<Longrightarrow> drafts_stored (dequeuePendingSendRestore sid i w)"
  by (auto simp: drafts_stored_def setInputDraftAttachments_def dequeuePendingSendRestore_def Let_def chat_simps)

lemma reload_text:
  assumes "drafts_stored w" "\<not> str_starts sid DRAFT_NEW_SESSION"
  shows "chat_draft_text (createChatStore (cw_slug w) (cw_storage w)) sid = chat_draft_text w sid"
proof -
  obtain ds us st' where l: "loadDraftSlots (cw_storage w) (wsKey (cw_slug w) DRAFTS_KEY) (wsKey (cw_slug w) DRAFT_ATTACHMENTS_KEY)
      (get_text (cw_storage w) (wsKey (cw_slug w) AGENT_STORAGE_KEY)) = (ds, us, st')"
    by (metis prod.collapse)
  from assms(1) have "obj_ok (readDrafts (cw_storage w) (wsKey (cw_slug w) DRAFTS_KEY))"
    by (simp add: drafts_stored_def obj_ok_filter)
  with load_drafts(1) [OF l] migrate_other [OF assms(2)]
  have "obj_get ds sid = obj_get (readDrafts (cw_storage w) (wsKey (cw_slug w) DRAFTS_KEY)) sid" by simp
  then have "text_at ds sid = text_at (inputDrafts (cw_store w)) sid"
    using assms(1) text_at_truthy [of "inputDrafts (cw_store w)" sid] by (simp add: drafts_stored_def text_at_def)
  with l show ?thesis by (simp add: createChatStore_def chat_draft_text_at)
qed

lemma reload_queue:
  assumes "chat_inv w"
  shows "queue_of (createChatStore (cw_slug w) (cw_storage w)) k = queue_of w k"
    and "appliedDraftRestoreIds (cw_store (createChatStore (cw_slug w) (cw_storage w))) = appliedDraftRestoreIds (cw_store w)"
    and "queue_of (rehydrateChat w) k = queue_of w k"
    and "appliedDraftRestoreIds (cw_store (rehydrateChat w)) = appliedDraftRestoreIds (cw_store w)"
  using assms load_reads [of PENDING_SEND_RESTORES_KEY] load_reads [of APPLIED_RESTORES_KEY]
  by (auto simp: createChatStore_def rehydrateChat_def chat_inv_def queue_of_def Let_def chat_keys split: prod.split)

section \<open>No restore is lost\<close>

text \<open>One workspace; the attachments of a restore are rows of the server.\<close>

fun restore_enabled :: "restore_system \<Rightarrow> restore_event \<Rightarrow> bool" where
  "restore_enabled s (SetSlug _) = False"
| "restore_enabled s (LocalRestore r) = list_all isAttachmentDraft (pr_attachments r)"
| "restore_enabled s _ = True"

text \<open>
  The application starts on a storage in which an object lists a key once and a queue an id once, and
  with a server whose rows have distinct ids.
\<close>

definition restore_start :: "restore_system \<Rightarrow> bool" where
  "restore_start s =
     (\<exists>sl st server. s = fresh_system (createChatStore sl st) server [] \<and> distinct (map rr_id server) \<and> obj_ok (readDrafts st (wsKey sl DRAFTS_KEY))
        \<and> (\<forall>kv \<in> set (readPendingSendRestores st (wsKey sl PENDING_SEND_RESTORES_KEY)). distinct (map pr_id (snd kv))))"

abbreviation restores_reachable :: "restore_system \<Rightarrow> bool" where
  "restores_reachable \<equiv> reachable restore_start restore_step restore_enabled"

text \<open>A request without a row on the server stands for an entry of the queue.\<close>

definition request_queued :: "restore_system \<Rightarrow> bool" where
  "request_queued s =
     (\<forall>req. rs_request s = Some req \<and> rd_serverRestoreId req = None \<longrightarrow>
        (\<exists>q \<in> set (queue_of (rs_chat s) (rd_sessionId req)).
           pr_id q = rd_id req \<and> pr_content q = rd_content req \<and> pr_attachments q = rd_attachments req))"

definition queue_inv :: "restore_system \<Rightarrow> bool" where
  "queue_inv s = (chat_inv (rs_chat s) \<and> request_queued s)"

lemma consume_simps [chat_simps]:
  "rs_chat (consume sid i s) = rs_chat s" "rs_request (consume sid i s) = rs_request s" "rs_server (consume sid i s) = rs_server s"
  "rs_fetching (consume sid i s) = rs_fetching s" "rs_taken (consume sid i s) = rs_taken s" "rs_sending (consume sid i s) = rs_sending s"
  by (simp_all add: consume_def)

lemma reconcile_simps [chat_simps]:
  "rs_chat (fold (reconcile_row sid) rows s) = rs_chat s" "rs_request (fold (reconcile_row sid) rows s) = rs_request s"
  by (induction rows arbitrary: s) (simp_all add: reconcile_row_def chat_simps)

lemma run_reconcile_simps [chat_simps]: "rs_chat (run_reconcile s) = rs_chat s" "rs_request (run_reconcile s) = rs_request s"
  by (simp_all add: run_reconcile_def chat_simps split: option.split)

lemma on_chat_simps [chat_simps]:
  "rs_chat (on_chat f s) = f (rs_chat s)" "rs_request (on_chat f s) = rs_request s" "rs_server (on_chat f s) = rs_server s"
  "rs_cache (on_chat f s) = rs_cache s" "rs_fetching (on_chat f s) = rs_fetching s" "rs_consuming (on_chat f s) = rs_consuming s"
  "rs_taken (on_chat f s) = rs_taken s" "rs_sending (on_chat f s) = rs_sending s" "rs_pending (on_chat f s) = rs_pending s"
  "rs_loaded (on_chat f s) = rs_loaded s"
  by (simp_all add: on_chat_def)

text \<open>The part of a state that only a chat operation on drafts changed.\<close>

definition same_restores :: "restore_system \<Rightarrow> restore_system \<Rightarrow> bool" where
  "same_restores s' s =
     ((\<forall>k. queue_of (rs_chat s') k = queue_of (rs_chat s) k)
      \<and> appliedDraftRestoreIds (cw_store (rs_chat s')) = appliedDraftRestoreIds (cw_store (rs_chat s))
      \<and> rs_request s' = rs_request s \<and> rs_server s' = rs_server s \<and> rs_cache s' = rs_cache s \<and> rs_fetching s' = rs_fetching s
      \<and> rs_consuming s' = rs_consuming s \<and> rs_taken s' = rs_taken s \<and> (chat_inv (rs_chat s) \<longrightarrow> chat_inv (rs_chat s')))"

lemma same_refl [simp]: "same_restores s s"
  by (simp add: same_restores_def)

lemma same_trans: "same_restores s2 s1 \<Longrightarrow> same_restores s1 s \<Longrightarrow> same_restores s2 s"
  by (simp add: same_restores_def)

lemma same_ops:
  "same_restores (on_chat (commitDraft k md) s) s" "same_restores (on_chat (clearInputDraft k) s) s"
  "same_restores (on_chat (setActiveSession i) s) s" "same_restores (on_chat (setInputDraftAttachments k us) s) s"
  by (simp_all add: same_restores_def chat_simps chat_inv_commit chat_inv_drafts chat_inv_puts)

lemma same_fields:
  "same_restores (s\<lparr>rs_pending := p\<rparr>) s" "same_restores (s\<lparr>rs_loaded := l\<rparr>) s" "same_restores (s\<lparr>rs_sending := sd\<rparr>) s"
  "same_restores (s\<lparr>rs_enabled := b\<rparr>) s"
  by (simp_all add: same_restores_def)

lemmas same_after = same_ops [THEN same_trans] same_fields [THEN same_trans]

lemma same_flush: "same_restores (flush s) s"
  by (auto simp: flush_def split: option.split intro!: same_after)

lemma same_adopt: "same_restores (run_adopt u s) s"
  by (auto simp: run_adopt_def intro!: same_after same_flush)

lemma same_start: "same_restores (start_send s) s"
  by (auto simp: start_send_def Let_def intro!: same_after same_flush)

lemma same_commit: "same_restores (commitInput k v extra s) s"
proof -
  have "same_restores s1 s \<Longrightarrow> same_restores (fold (\<lambda>key. if key \<noteq> k then on_chat (clearInputDraft key) else (\<lambda>x. x)) extra s1) s" for s1
    by (induction extra arbitrary: s1) (simp_all add: same_after)
  then show ?thesis
    by (simp add: commitInput_def Let_def same_flush same_after)
qed

lemma same_accept: "same_restores (accept_send sid s) s"
  by (auto simp: accept_send_def Let_def split: option.split intro!: same_after same_commit [THEN same_trans])

lemma queue_inv_same: "same_restores s' s \<Longrightarrow> queue_inv s \<Longrightarrow> queue_inv s'"
  by (simp add: same_restores_def queue_inv_def request_queued_def)

text \<open>The events that change nothing but drafts.\<close>

fun draft_event :: "restore_event \<Rightarrow> bool" where
  "draft_event (Typed _) = True" | "draft_event Flushed = True" | "draft_event (Adopt _) = True" | "draft_event (Staged _ _) = True"
| "draft_event (Selected _) = True" | "draft_event (Enable _) = True" | "draft_event StartSend = True"
| "draft_event (AcceptSend _) = True" | "draft_event RejectSend = True" | "draft_event _ = False"

lemma draft_event_same: "draft_event e \<Longrightarrow> same_restores (restore_step s e) s"
  by (cases e) (simp_all add: same_fields same_flush same_adopt same_start same_accept same_ops)

text \<open>What taking a restore does.\<close>

lemma run_input_cases:
  obtains (kept) "rs_chat (run_input s) = rs_chat s" "rs_taken (run_input s) = rs_taken s" "rs_request (run_input s) = rs_request s"
    "rs_cache (run_input s) = rs_cache s" "rs_server (run_input s) = rs_server s" "rs_fetching (run_input s) = rs_fetching s"
    "rs_consuming (run_input s) = rs_consuming s"
  | (taken) req key w where "rs_request s = Some req" "key = draftKey s" "rd_sessionId req \<noteq> [] \<longrightarrow> rd_sessionId req = key"
    "str_trim (chat_draft_text (rs_chat s) key) = []" "chat_uploads (rs_chat s) key = []"
    "w = setInputDraftAttachments key (map (\<lambda>a. JObj (attachmentToDraftUpload a)) (rd_attachments req)) (setInputDraft key (rd_content req) (rs_chat s))"
    "run_input s = handleRestoreDraftApplied (s\<lparr>rs_appliedRef := Some (rd_id req), rs_chat := w,
       rs_taken := (case rd_serverRestoreId req of Some i \<Rightarrow> i # rs_taken s | None \<Rightarrow> rs_taken s)\<rparr>)"
proof (cases "rs_request s")
  case None
  then show ?thesis by (intro kept) (simp_all add: run_input_def)
next
  case (Some req)
  show ?thesis
  proof (cases "rs_appliedRef s = Some (rd_id req) \<or> rd_sessionId req \<noteq> [] \<and> rd_sessionId req \<noteq> draftKey s
      \<or> str_trim (chat_draft_text (rs_chat s) (draftKey s)) \<noteq> [] \<or> chat_uploads (rs_chat s) (draftKey s) \<noteq> []")
    case True
    with Some have "run_input s = s" by (auto simp: run_input_def)
    then show ?thesis by (intro kept) simp_all
  next
    case False
    with Some show ?thesis by (intro taken [of req "draftKey s"]) (auto simp: run_input_def Let_def on_chat_def)
  qed
qed

lemma queue_inv_start: "restore_start s \<Longrightarrow> queue_inv s"
  by (auto simp: restore_start_def queue_inv_def request_queued_def fresh_system_def intro!: chat_inv_create queues_ok_read)

lemma run_offer_simps [chat_simps]: "rs_chat (run_offer s) = rs_chat s"
  by (auto simp: run_offer_def split: option.split list.split)

lemma queue_inv_offer: "queue_inv s \<Longrightarrow> queue_inv (run_offer s)"
  by (auto simp: queue_inv_def chat_simps request_queued_def)
    (auto simp: run_offer_def offer_pending_def offer_row_def split: if_splits option.splits list.splits)

lemma chat_inv_taken:
  "chat_inv w \<Longrightarrow> chat_inv (setInputDraftAttachments key us (setInputDraft key md w))"
  by (simp add: chat_inv_drafts)

lemma queue_inv_input: "queue_inv s \<Longrightarrow> queue_inv (run_input s)"
proof (cases s rule: run_input_cases)
  case (taken req key w)
  assume "queue_inv s"
  then have "chat_inv w" using taken(6) by (simp add: queue_inv_def chat_inv_taken)
  with taken show ?thesis
    by (auto simp: handleRestoreDraftApplied_def queue_inv_def request_queued_def Let_def chat_simps chat_inv_ledger chat_inv_dequeue
        split: option.split)
qed (simp_all add: queue_inv_def request_queued_def)

lemma queue_inv_step:
  assumes "queue_inv s" "restore_enabled s e"
  shows "queue_inv (restore_step s e)"
proof (cases "draft_event e")
  case True
  then show ?thesis using assms(1) draft_event_same queue_inv_same by blast
next
  case False
  show ?thesis
  proof (cases e)
    case (LocalRestore r)
    have "request_queued (on_chat (enqueuePendingSendRestore r) s)"
      using assms(1) queue_enqueue by (fastforce simp: queue_inv_def request_queued_def chat_simps)
    with LocalRestore assms show ?thesis by (simp add: queue_inv_def chat_simps chat_inv_enqueue)
  next
    case (ConsumeSettled sid i d ok cb)
    with assms show ?thesis
      by (auto simp: consume_settled_def queue_inv_def request_queued_def Let_def chat_simps chat_inv_ledger)
  next
    case Reload
    with assms show ?thesis by (simp add: queue_inv_def request_queued_def fresh_system_def chat_inv_reload)
  next
    case Rehydrate
    with assms show ?thesis by (simp add: queue_inv_def request_queued_def chat_simps chat_inv_rehydrate reload_queue)
  next
    case (FetchAnswered sid)
    with assms show ?thesis by (simp add: queue_inv_def request_queued_def split: option.split)
  qed (use assms False in \<open>simp_all add: queue_inv_offer queue_inv_input, simp_all add: queue_inv_def request_queued_def chat_simps\<close>)
qed

interpretation restores: invariant_machine restore_start restore_step restore_enabled queue_inv
  by unfold_locales (simp_all add: queue_inv_start queue_inv_step)

end
