(* ===== verification/Chat_Once.thy ===== *)
theory Chat_Once
  imports Chat_Safety
begin

text \<open>
  What the restore protocol keeps about the rows of the server: a row that was given to a composer is in
  the ledger, or it is neither on the server nor in a query's data.
\<close>

section \<open>A restore of the server is given once\<close>

text \<open>
  No answer of a fetch overlaps a consume of one of its rows: the rows that arrive are still on the
  server, and no consume of them is under way. A new row has a new id.
\<close>

definition row_known :: "restore_system \<Rightarrow> restore_row \<Rightarrow> bool" where
  "row_known s r =
     (r \<in> set (rs_server s) \<or> (\<exists>k. r \<in> set (rows_of (rs_cache s) k)) \<or> (\<exists>k. r \<in> set (rows_of (rs_fetching s) k)))"

definition known :: "restore_system \<Rightarrow> (jstr \<times> jstr) set" where
  "known s =
     {(rr_id r, rr_session r) | r. row_known s r}
     \<union> {(i, rd_sessionId req) | i req. rs_request s = Some req \<and> rd_serverRestoreId req = Some i}
     \<union> {(i, sid) | i sid. (sid, i) \<in> set (rs_consuming s)}"

definition known_rows_list :: "restore_system \<Rightarrow> restore_row list" where
  "known_rows_list s = rs_server s @ concat (map snd (rs_cache s)) @ concat (map snd (rs_fetching s))"

definition known_ids :: "restore_system \<Rightarrow> jstr list" where
  "known_ids s =
     map rr_id (known_rows_list s)
     @ (case Option.bind (rs_request s) rd_serverRestoreId of Some i \<Rightarrow> [i] | None \<Rightarrow> []) @ map snd (rs_consuming s) @ rs_taken s"

fun calm :: "restore_system \<Rightarrow> restore_event \<Rightarrow> bool" where
  "calm s (FetchAnswered sid) =
     list_all (\<lambda>r. rr_id r \<in> rr_id ` set (rs_server s) \<and> rr_id r \<notin> snd ` set (rs_consuming s)) (rows_of (rs_fetching s) sid)"
| "calm s (ServerRestored r) = (rr_id r \<notin> set (known_ids s))"
| "calm s _ = True"

abbreviation calm_reachable :: "restore_system \<Rightarrow> bool" where
  "calm_reachable \<equiv> reachable restore_start restore_step (\<lambda>s e. restore_enabled s e \<and> calm s e)"

lemma rows_of_set [chat_simps]: "rows_of (obj_set k rows ob) j = (if j = k then rows else rows_of ob j)"
  by (simp add: rows_of_def js_simps)

lemma rows_of_delete [chat_simps]: "rows_of (obj_delete k ob) j = (if j = k then [] else rows_of ob j)"
  by (simp add: rows_of_def js_simps)

lemma rows_of_Nil [chat_simps]: "rows_of [] j = []"
  by (simp add: rows_of_def obj_get_def)

lemma rows_consume [chat_simps]:
  "rows_of (rs_cache (consume sid i s)) j = (if j = sid then filter (\<lambda>r. rr_id r \<noteq> i) (rows_of (rs_cache s) j) else rows_of (rs_cache s) j)"
  by (simp add: consume_def rows_of_def js_simps split: option.split)

lemma consuming_consume [chat_simps]: "rs_consuming (consume sid i s) = (sid, i) # rs_consuming s"
  by (simp add: consume_def)

definition fits :: "restore_system \<Rightarrow> jstr \<Rightarrow> jstr \<Rightarrow> bool" where
  "fits s i sid = (\<forall>y. (i, y) \<in> known s \<longrightarrow> y = sid)"

definition rows_ok :: "restore_system \<Rightarrow> bool" where
  "rows_ok s =
     ((\<forall>(i, x) \<in> known s. fits s i x) \<and> (\<forall>k. \<forall>r \<in> set (rows_of (rs_cache s) k). rr_session r = k)
      \<and> (\<forall>k. \<forall>r \<in> set (rows_of (rs_fetching s) k). rr_session r = k))"

definition consuming_ok :: "restore_system \<Rightarrow> bool" where
  "consuming_ok s = (\<forall>k. \<forall>r \<in> set (rows_of (rs_cache s) k). rr_id r \<notin> snd ` set (rs_consuming s))"

definition gone :: "restore_system \<Rightarrow> jstr \<Rightarrow> bool" where
  "gone s i = (i \<notin> rr_id ` set (rs_server s) \<and> (\<forall>k. i \<notin> rr_id ` set (rows_of (rs_cache s) k)))"

definition taken_ok :: "restore_system \<Rightarrow> bool" where
  "taken_ok s = (distinct (rs_taken s) \<and> (\<forall>i \<in> set (rs_taken s). i \<in> set (ledger s) \<or> gone s i))"

definition request_fresh :: "restore_system \<Rightarrow> bool" where
  "request_fresh s =
     (\<forall>req i. rs_request s = Some req \<and> rd_serverRestoreId req = Some i \<longrightarrow> i \<notin> set (rs_taken s) \<and> rd_sessionId req \<noteq> [])"

definition once_inv :: "restore_system \<Rightarrow> bool" where
  "once_inv s = (rows_ok s \<and> consuming_ok s \<and> taken_ok s \<and> request_fresh s)"

lemma known_has_id: "fst ` known s \<subseteq> set (known_ids s)"
proof -
  have "r \<in> set (concat (map snd ob))" if "r \<in> set (rows_of ob k)" for r k ob
  proof (cases "obj_get ob k")
    case (Some rows)
    with that have "r \<in> set rows" by (simp add: rows_of_def)
    moreover have "rows \<in> snd ` set ob" using obj_get_in [OF Some] by force
    ultimately show ?thesis by auto
  qed (use that in \<open>simp add: rows_of_def\<close>)
  then have "r \<in> set (known_rows_list s)" if "row_known s r" for r
    using that unfolding row_known_def known_rows_list_def set_append by blast
  then have rows: "rr_id r \<in> set (known_ids s)" if "row_known s r" for r
    using that unfolding known_ids_def set_append set_map by blast
  have "i \<in> set (known_ids s)" if "rs_request s = Some req" "rd_serverRestoreId req = Some i" for req i
    using that by (simp add: known_ids_def)
  moreover have "i \<in> set (known_ids s)" if "(sid, i) \<in> set (rs_consuming s)" for sid i
    using that by (force simp: known_ids_def)
  ultimately show ?thesis using rows unfolding known_def by auto
qed

lemma taken_has_id: "set (rs_taken s) \<subseteq> set (known_ids s)"
  unfolding known_ids_def by (simp only: set_append) blast

lemma fits_mono: "known s' \<subseteq> known s \<Longrightarrow> fits s i sid \<Longrightarrow> fits s' i sid"
  by (auto simp: fits_def)

lemma known_rows:
  "r \<in> set (rs_server s) \<Longrightarrow> (rr_id r, rr_session r) \<in> known s"
  "r \<in> set (rows_of (rs_cache s) k) \<Longrightarrow> (rr_id r, rr_session r) \<in> known s"
  "r \<in> set (rows_of (rs_fetching s) k) \<Longrightarrow> (rr_id r, rr_session r) \<in> known s"
  unfolding known_def row_known_def by blast+

text \<open>A step that learns of no row.\<close>

lemma rows_ok_mono:
  assumes "rows_ok s" "known s' \<subseteq> known s"
    and "\<And>k. set (rows_of (rs_cache s') k) \<subseteq> set (rows_of (rs_cache s) k) \<union> set (rows_of (rs_fetching s) k)"
    and "\<And>k. set (rows_of (rs_fetching s') k) \<subseteq> set (rows_of (rs_fetching s) k) \<union> {r \<in> set (rs_server s). rr_session r = k}"
  shows "rows_ok s'"
proof -
  have "fits s' i x" if "(i, x) \<in> known s'" for i x
    using that assms(1,2) unfolding rows_ok_def fits_def by blast
  then show ?thesis using assms(1,3,4) unfolding rows_ok_def by blast
qed

lemma gone_mono:
  "gone s i \<Longrightarrow> set (rs_server s') \<subseteq> set (rs_server s) \<Longrightarrow> (\<And>k. set (rows_of (rs_cache s') k) \<subseteq> set (rows_of (rs_cache s) k)) \<Longrightarrow> gone s' i"
  unfolding gone_def by blast

lemma known_same: "same_restores s' s \<Longrightarrow> known s' = known s"
  by (simp add: same_restores_def known_def row_known_def)

lemma once_inv_same:
  assumes "same_restores s' s" "once_inv s"
  shows "once_inv s'"
proof -
  have "fits s' = fits s" using known_same [OF assms(1)] by (simp add: fits_def fun_eq_iff)
  then have "rows_ok s' = rows_ok s"
    using assms(1) known_same [OF assms(1)] by (simp add: same_restores_def rows_ok_def)
  moreover have "gone s' = gone s" "ledger s' = ledger s"
    using assms(1) by (simp_all add: same_restores_def gone_def ledger_def fun_eq_iff)
  then have "taken_ok s' = taken_ok s" using assms(1) by (simp add: same_restores_def taken_ok_def)
  moreover have "consuming_ok s' = consuming_ok s" "request_fresh s' = request_fresh s"
    using assms(1) by (simp_all add: same_restores_def consuming_ok_def request_fresh_def)
  ultimately show ?thesis using assms(2) by (simp add: once_inv_def)
qed

lemma known_consume: "known (consume sid i s) \<subseteq> insert (i, sid) (known s)"
  by (auto simp: known_def row_known_def chat_simps split: if_splits)

lemma ledger_consume [chat_simps]: "ledger (consume sid i s) = ledger s"
  by (simp add: ledger_def chat_simps)

lemma once_inv_consume:
  assumes "once_inv s" "fits s i sid"
  shows "once_inv (consume sid i s)"
proof -
  let ?s = "consume sid i s"
  have sub: "set (rows_of (rs_cache ?s) k) \<subseteq> set (rows_of (rs_cache s) k)" for k by (auto simp: chat_simps)
  have sessions: "rr_session r = k" if "r \<in> set (rows_of (rs_cache s) k)" for r k
    using that assms(1) by (simp add: once_inv_def rows_ok_def)
  have ok: "fits s j x" if "(j, x) \<in> known s" for j x
    using that assms(1) by (auto simp: once_inv_def rows_ok_def)
  have "fits ?s j x" if "(j, x) \<in> known ?s" for j x
  proof (cases "j = i")
    case True
    then have "y = sid" if "(j, y) \<in> known ?s" for y
      using that subsetD [OF known_consume that] assms(2) by (auto simp: fits_def)
    with that show ?thesis by (auto simp: fits_def)
  next
    case False
    then have "(j, y) \<in> known s" if "(j, y) \<in> known ?s" for y
      using subsetD [OF known_consume that] by auto
    with that ok show ?thesis by (metis fits_def)
  qed
  moreover have "rs_fetching ?s = rs_fetching s" by (simp add: chat_simps)
  ultimately have rows: "rows_ok ?s"
    using assms(1) sub sessions unfolding rows_ok_def once_inv_def by fastforce
  have "rr_id r \<noteq> i" if "r \<in> set (rows_of (rs_cache ?s) k)" for r k
  proof (cases "k = sid")
    case False
    with that have "r \<in> set (rows_of (rs_cache s) k)" by (simp add: chat_simps)
    with sessions known_rows(2) have "(rr_id r, k) \<in> known s" by metis
    with False assms(2) show ?thesis by (auto simp: fits_def)
  qed (use that in \<open>simp add: chat_simps\<close>)
  moreover have "rr_id r \<notin> snd ` set (rs_consuming s)" if "r \<in> set (rows_of (rs_cache ?s) k)" for r k
    using subsetD [OF sub that] assms(1) by (simp add: once_inv_def consuming_ok_def)
  ultimately have consuming: "consuming_ok ?s"
    unfolding consuming_ok_def consuming_consume by (metis image_insert insertE list.simps(15) snd_conv)
  have "gone ?s j" if "gone s j" for j
    by (rule gone_mono [OF that]) (simp_all add: sub consume_simps)
  then have "taken_ok ?s" using assms(1) by (auto simp: taken_ok_def once_inv_def chat_simps)
  moreover have "request_fresh ?s" using assms(1) by (auto simp: once_inv_def request_fresh_def chat_simps)
  ultimately show ?thesis using rows consuming by (simp add: once_inv_def)
qed

lemma once_inv_reconcile:
  "once_inv s \<Longrightarrow> \<forall>r \<in> set rows. rr_session r = sid \<longrightarrow> fits s (rr_id r) sid \<Longrightarrow> once_inv (fold (reconcile_row sid) rows s)"
proof (induction rows arbitrary: s)
  case (Cons r rows)
  have later: "fits (reconcile_row sid r s) j sid" if "fits s j sid" for j
    using that subsetD [OF known_consume [of sid "rr_id r" s]] by (auto simp: reconcile_row_def fits_def)
  have "once_inv (reconcile_row sid r s)"
    using Cons.prems by (auto simp: reconcile_row_def intro: once_inv_consume)
  with Cons later show ?case by simp
qed simp

lemma once_inv_run_reconcile:
  assumes "once_inv s"
  shows "once_inv (run_reconcile s)"
proof -
  have "fits s (rr_id r) sid" if "r \<in> set (rows_of (rs_cache s) sid)" "rr_session r = sid" for r sid
    using known_rows(2) [OF that(1)] that(2) assms by (auto simp: once_inv_def rows_ok_def)
  with assms show ?thesis
    by (auto simp: run_reconcile_def split: option.split intro!: once_inv_reconcile)
qed

text \<open>A step after which no more is known, on the server or in the cache, and the ledger is the same.\<close>

lemma once_inv_mono:
  assumes "once_inv s" "known s' \<subseteq> known s" "set (rs_server s') \<subseteq> set (rs_server s)"
    and "\<And>k. set (rows_of (rs_cache s') k) \<subseteq> set (rows_of (rs_cache s) k)"
    and "\<And>k. set (rows_of (rs_fetching s') k) \<subseteq> set (rows_of (rs_fetching s) k) \<union> {r \<in> set (rs_server s). rr_session r = k}"
    and "set (rs_consuming s') \<subseteq> set (rs_consuming s)" "rs_taken s' = rs_taken s" "set (ledger s') = set (ledger s)"
    and "rs_request s' = rs_request s \<or> rs_request s' = None"
  shows "once_inv s'"
proof -
  have "rows_ok s'"
  proof (rule rows_ok_mono [of s])
    show "rows_ok s" using assms(1) by (simp add: once_inv_def)
    show "set (rows_of (rs_cache s') k) \<subseteq> set (rows_of (rs_cache s) k) \<union> set (rows_of (rs_fetching s) k)" for k
      using assms(4) by blast
  qed (rule assms)+
  moreover have "consuming_ok s'" using assms(1,4,6) unfolding once_inv_def consuming_ok_def by blast
  moreover have "gone s' i" if "gone s i" for i using that assms(3,4) by (rule gone_mono)
  then have "taken_ok s'" using assms(1,7,8) by (auto simp: once_inv_def taken_ok_def)
  moreover have "request_fresh s'"
    using assms(9)
  proof
    assume "rs_request s' = rs_request s"
    then have "request_fresh s' = request_fresh s" using assms(7) by (simp only: request_fresh_def)
    with assms(1) show ?thesis by (simp add: once_inv_def)
  qed (simp add: request_fresh_def)
  ultimately show ?thesis by (simp add: once_inv_def)
qed

lemma run_offer_cases:
  obtains (kept) "run_offer s = s" | (dropped) "run_offer s = s\<lparr>rs_request := None\<rparr>"
  | (queued) q sid where "run_offer s = s\<lparr>rs_request := Some (offer_pending q sid)\<rparr>"
  | (row) r sid where "run_offer s = s\<lparr>rs_request := Some (offer_row r sid)\<rparr>" "sid \<noteq> []" "rr_session r = sid"
      "rr_id r \<notin> set (ledger s)" "r \<in> set (rows_of (rs_cache s) sid)"
proof (cases "rs_enabled s")
  case on: True
  show ?thesis
  proof (cases "nonempty (active s)")
    case None
    with on show ?thesis by (intro kept) (simp add: run_offer_def)
  next
    case sid: (Some sid)
    then have ne: "sid \<noteq> []" by (auto simp: nonempty_def split: option.splits if_splits)
    show ?thesis
    proof (cases "rs_request s")
      case (Some req)
      with on sid kept dropped show ?thesis by (cases "rd_sessionId req = [] \<or> rd_sessionId req = sid") (simp_all add: run_offer_def)
    next
      case none: None
      show ?thesis
      proof (cases "queue_of (rs_chat s) sid")
        case (Cons q qs)
        with on sid none queued show ?thesis by (simp add: run_offer_def)
      next
        case nil: Nil
        show ?thesis
        proof (cases "find (\<lambda>r. rr_session r = sid \<and> rr_id r \<notin> set (ledger s)) (rows_of (rs_cache s) sid)")
          case None
          with on sid none nil kept show ?thesis by (simp add: run_offer_def)
        next
          case (Some r)
          with on sid none nil ne find_in_set [OF Some] show ?thesis by (intro row [of r sid]) (simp_all add: run_offer_def)
        qed
      qed
    qed
  qed
next
  case False
  then show ?thesis by (intro dropped) (simp add: run_offer_def)
qed

text \<open>A new request stands for a row the client knows, or for none.\<close>

lemma once_inv_request:
  assumes "once_inv s"
    and "\<And>r i. req = Some r \<Longrightarrow> rd_serverRestoreId r = Some i \<Longrightarrow> (i, rd_sessionId r) \<in> known s \<and> i \<notin> set (rs_taken s) \<and> rd_sessionId r \<noteq> []"
  shows "once_inv (s\<lparr>rs_request := req\<rparr>)"
proof -
  have "known (s\<lparr>rs_request := req\<rparr>) \<subseteq> known s \<union> {(i, rd_sessionId r) | r i. req = Some r \<and> rd_serverRestoreId r = Some i}"
    by (auto simp: known_def row_known_def)
  also have "\<dots> \<subseteq> known s" using assms(2) by blast
  finally have known: "known (s\<lparr>rs_request := req\<rparr>) \<subseteq> known s" .
  have "rows_ok s" using assms(1) by (simp add: once_inv_def)
  then have "rows_ok (s\<lparr>rs_request := req\<rparr>)" by (rule rows_ok_mono [OF _ known]) simp_all
  moreover have "request_fresh (s\<lparr>rs_request := req\<rparr>)" using assms(2) by (simp add: request_fresh_def)
  moreover have "consuming_ok (s\<lparr>rs_request := req\<rparr>) = consuming_ok s" "taken_ok (s\<lparr>rs_request := req\<rparr>) = taken_ok s"
    by (simp_all add: consuming_ok_def taken_ok_def gone_def ledger_def)
  ultimately show ?thesis using assms(1) by (simp add: once_inv_def)
qed

lemma once_inv_offer:
  assumes "once_inv s"
  shows "once_inv (run_offer s)"
proof (cases s rule: run_offer_cases)
  case (row r sid)
  have "rr_id r \<notin> set (rs_taken s)" using assms row(4,5) by (auto simp: once_inv_def taken_ok_def gone_def)
  with row known_rows(2) [OF row(5)] assms show ?thesis
    unfolding row(1) by (intro once_inv_request) (auto simp: offer_row_def)
next
  case (queued q sid)
  with assms show ?thesis unfolding queued by (intro once_inv_request) (auto simp: offer_pending_def)
next
  case dropped
  with assms show ?thesis unfolding dropped by (intro once_inv_request) auto
qed (simp add: assms)

lemma once_inv_input:
  assumes "once_inv s"
  shows "once_inv (run_input s)"
proof (cases s rule: run_input_cases)
  case kept
  then have "known (run_input s) = known s" by (simp add: known_def row_known_def)
  with kept show ?thesis by (intro once_inv_mono [OF assms]) (simp_all add: ledger_def)
next
  case (taken req key w)
  have w: "appliedDraftRestoreIds (cw_store w) = ledger s" by (simp add: taken(6) ledger_def chat_simps)
  show ?thesis
  proof (cases "rd_serverRestoreId req")
    case None
    with taken have "same_restores (run_input s\<lparr>rs_request := rs_request s, rs_chat := rs_chat s\<rparr>) s"
      by (simp add: handleRestoreDraftApplied_def same_restores_def Let_def chat_simps)
    then have eqs: "rs_server (run_input s) = rs_server s" "rs_cache (run_input s) = rs_cache s" "rs_fetching (run_input s) = rs_fetching s"
      "rs_consuming (run_input s) = rs_consuming s" "rs_taken (run_input s) = rs_taken s"
      by (simp_all add: same_restores_def)
    have req: "rs_request (run_input s) = None" "ledger (run_input s) = ledger s"
      using taken None w by (simp_all add: handleRestoreDraftApplied_def ledger_def Let_def chat_simps)
    have "known (run_input s) \<subseteq> known s" by (auto simp: known_def row_known_def eqs req)
    then show ?thesis by (intro once_inv_mono [OF assms]) (simp_all add: eqs req)
  next
    case (Some i)
    let ?t = "s\<lparr>rs_request := None, rs_appliedRef := Some (rd_id req), rs_chat := markDraftRestoreApplied i w, rs_taken := i # rs_taken s\<rparr>"
    have i: "i \<notin> set (rs_taken s)" "rd_sessionId req \<noteq> []"
      using assms taken(1) Some by (auto simp: once_inv_def request_fresh_def)
    have known: "known ?t \<subseteq> known s" by (auto simp: known_def row_known_def)
    have "(i, rd_sessionId req) \<in> known s" using taken(1) Some by (auto simp: known_def row_known_def)
    then have "fits s i (rd_sessionId req)" using assms by (auto simp: once_inv_def rows_ok_def)
    then have fits: "fits ?t i (rd_sessionId req)" using fits_mono [OF known] by blast
    have "rows_ok s" using assms by (simp add: once_inv_def)
    then have "rows_ok ?t" by (rule rows_ok_mono [OF _ known]) simp_all
    moreover have "gone ?t j = gone s j" for j by (simp add: gone_def)
    then have "taken_ok ?t"
      using assms i(1) w by (auto simp: once_inv_def taken_ok_def ledger_def chat_simps)
    moreover have "consuming_ok ?t = consuming_ok s" by (simp add: consuming_ok_def)
    ultimately have "once_inv ?t" using assms by (simp add: once_inv_def request_fresh_def)
    then have "once_inv (consume (rd_sessionId req) i ?t)" using fits by (rule once_inv_consume)
    moreover have "run_input s = consume (rd_sessionId req) i ?t"
      using taken(1,7) Some i(2)
      by (cases "obj_get (rs_cache s) (rd_sessionId req)") (simp_all add: handleRestoreDraftApplied_def consume_def on_chat_def Let_def)
    ultimately show ?thesis by simp
  qed
qed

lemma once_inv_settled:
  assumes "once_inv s"
  shows "once_inv (consume_settled sid i deleted ok cb s)"
proof (cases "(sid, i) \<in> set (rs_consuming s)")
  case True
  let ?t = "consume_settled sid i deleted ok cb s"
  have eqs: "rs_cache ?t = rs_cache s" "rs_fetching ?t = rs_fetching s" "rs_taken ?t = rs_taken s" "rs_request ?t = rs_request s"
    "set (rs_server ?t) \<subseteq> set (rs_server s)" "set (rs_consuming ?t) \<subseteq> set (rs_consuming s)"
    using True set_remove1_subset [of "(sid, i)" "rs_consuming s"]
    by (auto simp: consume_settled_def Let_def chat_simps)
  have known: "known ?t \<subseteq> known s" using eqs unfolding known_def row_known_def by auto
  have "rows_ok s" using assms by (simp add: once_inv_def)
  then have "rows_ok ?t" by (rule rows_ok_mono [OF _ known]) (simp_all add: eqs)
  moreover have "consuming_ok ?t" using assms eqs(1,6) unfolding once_inv_def consuming_ok_def by auto
  moreover have "request_fresh ?t" using assms eqs(3,4) by (auto simp: once_inv_def request_fresh_def)
  moreover have "taken_ok ?t"
  proof -
    have gone: "gone ?t j" if "gone s j" for j by (rule gone_mono [OF that]) (simp_all add: eqs)
    have "gone ?t i" if "ok"
    proof -
      have "i \<notin> rr_id ` set (rows_of (rs_cache s) k)" for k
        using assms True by (force simp: once_inv_def consuming_ok_def)
      moreover have "i \<notin> rr_id ` set (rs_server ?t)" using True that by (auto simp: consume_settled_def Let_def chat_simps)
      ultimately show ?thesis by (simp add: gone_def eqs(1))
    qed
    moreover have "set (ledger ?t) = (if cb \<and> ok then set (ledger s) - {i} else set (ledger s))"
      using True by (simp add: consume_settled_def Let_def ledger_def chat_simps)
    ultimately show ?thesis
      using assms gone eqs(3) by (auto simp: once_inv_def taken_ok_def)
  qed
  ultimately show ?thesis by (simp add: once_inv_def)
qed (simp add: consume_settled_def assms)

lemma once_inv_answer:
  assumes "once_inv s" "calm s (FetchAnswered sid)"
  shows "once_inv (restore_step s (FetchAnswered sid))"
proof (cases "obj_get (rs_fetching s) sid")
  case (Some rows)
  define t where "t = s\<lparr>rs_cache := obj_set sid rows (rs_cache s), rs_fetching := obj_delete sid (rs_fetching s)\<rparr>"
  have rows: "rows_of (rs_fetching s) sid = rows" using Some by (simp add: rows_of_def)
  have cache: "rows_of (rs_cache t) k = (if k = sid then rows else rows_of (rs_cache s) k)" for k by (simp add: t_def chat_simps)
  have fetching: "set (rows_of (rs_fetching t) k) \<subseteq> set (rows_of (rs_fetching s) k)" for k by (simp add: t_def chat_simps)
  have eqs: "rs_server t = rs_server s" "rs_consuming t = rs_consuming s" "rs_taken t = rs_taken s" "rs_request t = rs_request s"
    "ledger t = ledger s" by (simp_all add: t_def ledger_def)
  have fresh: "rr_id r \<in> rr_id ` set (rs_server s)" "rr_id r \<notin> snd ` set (rs_consuming s)" if "r \<in> set rows" for r
    using assms(2) rows that by (auto simp: list_all_iff)
  have sub: "set (rows_of (rs_cache t) k) \<subseteq> set (rows_of (rs_cache s) k) \<union> set (rows_of (rs_fetching s) k)" for k
    using rows unfolding cache by auto
  have "row_known s r" if "row_known t r" for r
    using that sub fetching unfolding row_known_def eqs(1) by blast
  then have known: "known t \<subseteq> known s" unfolding known_def eqs by blast
  have "rows_ok s" using assms by (simp add: once_inv_def)
  then have "rows_ok t" by (rule rows_ok_mono [OF _ known]) (use sub fetching in \<open>auto\<close>)
  moreover have "consuming_ok t"
    using assms(1) fresh(2) unfolding once_inv_def consuming_ok_def eqs cache by auto
  moreover have "gone t j" if "gone s j" for j
    using that fresh(1) unfolding gone_def eqs cache by auto
  then have "taken_ok t" using assms(1) by (auto simp: once_inv_def taken_ok_def eqs)
  moreover have "request_fresh t = request_fresh s" by (simp only: request_fresh_def eqs)
  ultimately show ?thesis using Some assms(1) by (simp add: once_inv_def t_def)
qed (simp add: assms)

lemma once_inv_start: "restore_start s \<Longrightarrow> once_inv s"
proof -
  assume "restore_start s"
  then obtain w server where s: "s = fresh_system w server []" "distinct (map rr_id server)"
    by (auto simp: restore_start_def)
  have known: "(i, x) \<in> known s \<longleftrightarrow> (\<exists>r \<in> set server. i = rr_id r \<and> x = rr_session r)" for i x
    by (auto simp: s(1) known_def row_known_def fresh_system_def chat_simps)
  have "fits s i x" if "(i, x) \<in> known s" for i x
    using that distinct_ids [OF s(2)] unfolding fits_def known by metis
  moreover have "rs_cache s = []" "rs_fetching s = []" "rs_taken s = []" "rs_request s = None" by (simp_all add: s(1) fresh_system_def)
  ultimately show ?thesis
    by (auto simp: once_inv_def rows_ok_def consuming_ok_def taken_ok_def request_fresh_def chat_simps)
qed

lemma once_inv_step:
  assumes "queue_inv s" "once_inv s" "restore_enabled s e" "calm s e"
  shows "once_inv (restore_step s e)"
proof (cases "draft_event e")
  case True
  then show ?thesis using assms(2) draft_event_same once_inv_same by blast
next
  case False
  have chat: "chat_inv (rs_chat s)" using assms(1) by (simp add: queue_inv_def)
  have mono: "once_inv s'" if "known s' \<subseteq> known s" "set (rs_server s') \<subseteq> set (rs_server s)" "rs_cache s' = rs_cache s \<or> rs_cache s' = []"
    "\<And>k. set (rows_of (rs_fetching s') k) \<subseteq> set (rows_of (rs_fetching s) k) \<union> {r \<in> set (rs_server s). rr_session r = k}"
    "set (rs_consuming s') \<subseteq> set (rs_consuming s)" "rs_taken s' = rs_taken s" "set (ledger s') = set (ledger s)"
    "rs_request s' = rs_request s \<or> rs_request s' = None" for s'
    using that(3) by (intro once_inv_mono [OF assms(2) that(1,2) _ that(4-8)]) (auto simp: chat_simps)
  show ?thesis
  proof (cases e)
    case (LocalRestore r)
    show ?thesis unfolding LocalRestore by (rule mono) (auto simp: known_def row_known_def chat_simps ledger_def)
  next
    case (ServerRestored r)
    define t where "t = s\<lparr>rs_server := rs_server s @ [r]\<rparr>"
    have new: "rr_id r \<notin> fst ` known s" "rr_id r \<notin> set (rs_taken s)"
      using assms(4) ServerRestored known_has_id [of s] taken_has_id [of s] by auto
    have "row_known t x \<longleftrightarrow> x = r \<or> row_known s x" for x by (auto simp: t_def row_known_def)
    then have known: "known t = insert (rr_id r, rr_session r) (known s)" by (auto simp: t_def known_def)
    have "fits t i x" if "(i, x) \<in> known t" for i x
    proof (cases "i = rr_id r")
      case True
      then have "(i, y) \<notin> known s" for y using new(1) by force
      with that show ?thesis by (auto simp: known fits_def)
    next
      case False
      with that have "fits s i x" using assms(2) by (auto simp: known once_inv_def rows_ok_def)
      with False show ?thesis by (auto simp: known fits_def)
    qed
    moreover have "rs_cache t = rs_cache s" "rs_fetching t = rs_fetching s" by (simp_all add: t_def)
    ultimately have "rows_ok t" using assms(2) by (auto simp: once_inv_def rows_ok_def)
    moreover have "gone t j" if "gone s j" "j \<noteq> rr_id r" for j using that by (auto simp: gone_def t_def)
    moreover have "rs_taken t = rs_taken s" "ledger t = ledger s" by (simp_all add: t_def ledger_def)
    ultimately have "taken_ok t" using assms(2) new(2) by (metis once_inv_def taken_ok_def)
    moreover have "consuming_ok t = consuming_ok s" "request_fresh t = request_fresh s"
      by (simp_all add: consuming_ok_def request_fresh_def t_def)
    ultimately have "once_inv t" using assms(2) \<open>rows_ok t\<close> by (simp add: once_inv_def)
    then show ?thesis by (simp add: ServerRestored t_def)
  next
    case (ConsumedElsewhere i)
    show ?thesis unfolding ConsumedElsewhere by (rule mono) (auto simp: known_def row_known_def ledger_def)
  next
    case (FetchSent sid)
    show ?thesis unfolding FetchSent by (rule mono) (auto simp: known_def row_known_def ledger_def chat_simps split: if_splits)
  next
    case Reload
    show ?thesis unfolding Reload
      by (rule mono) (auto simp: known_def row_known_def ledger_def fresh_system_def chat_simps reload_queue [OF chat])
  next
    case Rehydrate
    show ?thesis unfolding Rehydrate by (rule mono) (auto simp: known_def row_known_def ledger_def chat_simps reload_queue [OF chat])
  next
    case (FetchAnswered sid)
    with assms show ?thesis by (metis once_inv_answer)
  qed (use assms False in \<open>simp_all add: once_inv_offer once_inv_input once_inv_run_reconcile once_inv_settled\<close>)
qed

interpretation once: invariant_machine restore_start restore_step "\<lambda>s e. restore_enabled s e \<and> calm s e" "\<lambda>s. queue_inv s \<and> once_inv s"
  by unfold_locales (simp_all add: queue_inv_start queue_inv_step once_inv_start once_inv_step)

end
