(* ===== verification/Chat_Properties.thy ===== *)
theory Chat_Properties
  imports Chat_Safety Upload_Engine Chat_Once
begin

text \<open>
  The chat composer's binding of an upload to a draft slot (\<open>makeUploadBinding\<close> in
  \<open>packages/views/chat/components/chat-input.tsx\<close>) provides the interface of the upload engine.
\<close>

definition chat_binding :: "jstr \<Rightarrow> chat upload_binding" where
  "chat_binding key =
     \<lparr>ub_registryKey = ''chat:'' @ key,
      ub_getUploads = (\<lambda>w. chat_uploads w key),
      ub_addUpload = addInputDraftUpload key,
      ub_settleUpload = settleInputDraftUpload key,
      ub_removeUpload = removeInputDraftUpload key,
      ub_getBody = (\<lambda>w. chat_draft_text w key),
      ub_appendToBody = appendToInputDraft key\<rparr>"

lemma uploads_set: "chat_uploads (set_uploads key us w) key = us"
  by (simp add: set_uploads_def chat_uploads_def chat_simps js_simps)

interpretation chat: draft_binding "chat_binding key" for key
proof
  show "ub_getUploads (chat_binding key) (ub_addUpload (chat_binding key) u w) = add_in u (ub_getUploads (chat_binding key) w)" for u w
    by (simp add: chat_binding_def addInputDraftUpload_def uploads_set add_in_def)
  show "ub_getUploads (chat_binding key) (ub_settleUpload (chat_binding key) i att w) = settle_in i att (ub_getUploads (chat_binding key) w)" for i att w
    by (simp add: chat_binding_def settleInputDraftUpload_def uploads_set settle_untracked)
  show "ub_getUploads (chat_binding key) (ub_removeUpload (chat_binding key) i w) = remove_in i (ub_getUploads (chat_binding key) w)" for i w
    by (simp add: chat_binding_def removeInputDraftUpload_def chat_simps remove_untracked)
  show "ub_getUploads (chat_binding key) (ub_appendToBody (chat_binding key) md w) = ub_getUploads (chat_binding key) w" for md w
    by (simp add: chat_binding_def appendToInputDraft_def chat_uploads_def chat_simps)
  show "ub_getBody (chat_binding key) (ub_appendToBody (chat_binding key) md w) = appendMarkdown (ub_getBody (chat_binding key) w) md" for md w
    by (simp add: chat_binding_def appendToInputDraft_def chat_draft_text_at chat_simps)
qed

text \<open>A finished upload lands in the chat draft it was started from: when an attempt to deliver it ends
  without scheduling another and the draft still tracks the upload, the draft's text holds a reference the
  send binds, and the uploads are as they were; another attempt is scheduled only before the hundredth.\<close>

theorem chat_upload_lands:
  assumes "deliverFinishedUpload (chat_binding key) i att tries live w = (w', retry)" "tracks (chat_uploads w key) i" "has_link att"
  shows "if retry then tries < 100 \<and> w' = w
    else contentReferencesAttachment (chat_draft_text w' key) att \<and> chat_uploads w' key = chat_uploads w key"
proof (cases retry)
  case True
  with chat.retried [of key i att tries live w w'] assms(1) show ?thesis by (simp add: DELIVER_MAX_TRIES_def)
next
  case False
  with chat.delivered [of key i att tries live w w'] assms show ?thesis by (simp add: chat_binding_def)
qed

definition photo :: json where
  "photo = JObj [(''id'', JStr ''a1''), (''filename'', JStr ''p.png''), (''content_type'', JStr ''image/png'')]"

definition uploading_chat :: chat where
  "uploading_chat = addInputDraftUpload ''s1'' (JObj [(''clientUploadId'', JStr ''u1''), (''status'', JStr ''uploading'')])
     (setInputDraft ''s1'' ''see'' (createChatStore (Some ''acme'') \<lparr>st_text = [], st_json = []\<rparr>))"

theorem chat_upload_lands_witness:
  "contentReferencesAttachment
     (chat_draft_text (fst (deliverFinishedUpload (chat_binding ''s1'') ''u1'' photo 0 \<lparr>ea_live = False, ea_settles = False, ea_inserts = False\<rparr> uploading_chat)) ''s1'') photo"
proof -
  let ?r = "deliverFinishedUpload (chat_binding ''s1'') ''u1'' photo 0 \<lparr>ea_live = False, ea_settles = False, ea_inserts = False\<rparr> uploading_chat"
  have "\<not> snd ?r" "tracks (chat_uploads uploading_chat ''s1'') ''u1''" "has_link photo" by code_simp+
  moreover from this(1) have "?r = (fst ?r, False)" by (metis prod.collapse)
  ultimately show ?thesis using chat_upload_lands [of "''s1''" "''u1''" photo 0 _ uploading_chat "fst ?r" False] by simp
qed

text \<open>
  A prompt that only the client holds stays queued until it is in the persisted draft of its session; a
  prompt of the server is given to a composer once; an accepted send clears what it sent. And where the
  protocol does not keep its word.
\<close>

section \<open>No restore is lost\<close>

lemma only_input_dequeues:
  assumes "queue_inv s" "restore_enabled s e" "e \<noteq> RunInput"
  shows "set (queue_of (rs_chat s) k) \<subseteq> set (queue_of (rs_chat (restore_step s e)) k)"
proof (cases "draft_event e")
  case True
  then show ?thesis using draft_event_same [of e s] by (simp add: same_restores_def)
next
  case False
  then show ?thesis
    using assms queue_enqueue reload_queue
    by (cases e) (auto simp: chat_simps consume_settled_def Let_def queue_inv_def fresh_system_def split: option.splits)
qed

text \<open>C10: no restored prompt is lost: whatever happens in a workspace, reloads included, a prompt that has
  no copy on the server stays queued for its session, until the composer writes it with its attachments
  into the draft of that session; that draft was empty, and a reload finds the prompt in it.\<close>

theorem restores_not_lost:
  assumes "restores_reachable s" "restore_enabled s e" "r \<in> set (queue_of (rs_chat s) sid)" "\<not> str_starts sid DRAFT_NEW_SESSION"
  shows "r \<in> set (queue_of (rs_chat (restore_step s e)) sid)
    \<or> (e = RunInput \<and> str_trim (chat_draft_text (rs_chat s) sid) = [] \<and> chat_uploads (rs_chat s) sid = []
       \<and> chat_draft_text (rs_chat (run_input s)) sid = pr_content r
       \<and> chat_uploads (rs_chat (run_input s)) sid = map (\<lambda>a. JObj (attachmentToDraftUpload a)) (pr_attachments r)
       \<and> chat_draft_text (rs_chat (restore_step (run_input s) Reload)) sid = pr_content r)"
proof (cases "r \<in> set (queue_of (rs_chat (restore_step s e)) sid)")
  case False
  have inv: "queue_inv s" using restores.inv_reachable [OF assms(1)] .
  with False assms(2,3) only_input_dequeues have e: "e = RunInput" by blast
  show ?thesis
  proof (cases s rule: run_input_cases)
    case kept
    with False e assms(3) show ?thesis by simp
  next
    case (taken req key w)
    have w: "queue_of w k = queue_of (rs_chat s) k" for k by (simp add: taken(6) chat_simps)
    from taken(1,7) False e assms(3) have server: "rd_serverRestoreId req = None" and ne: "rd_sessionId req \<noteq> []"
      and gone: "rd_sessionId req = sid" "pr_id r = rd_id req"
      by (auto simp: handleRestoreDraftApplied_def Let_def chat_simps w split: option.splits if_splits)
    from inv taken(1) server obtain q where q: "q \<in> set (queue_of (rs_chat s) sid)" "pr_id q = rd_id req" "pr_content q = rd_content req"
      "pr_attachments q = rd_attachments req"
      using gone(1) by (auto simp: queue_inv_def request_queued_def)
    have "q = r"
      using queue_of_ok(1) [of "rs_chat s" sid] inv q(1,2) assms(3) gone(2) distinct_ids [of pr_id _ q r]
      by (simp add: queue_inv_def chat_inv_def)
    have key: "key = sid" using taken(3) ne gone(1) by simp
    have after: "rs_chat (run_input s) = dequeuePendingSendRestore sid (rd_id req) w"
      using taken(1,7) server ne gone(1) by (simp add: handleRestoreDraftApplied_def Let_def chat_simps)
    have ok: "obj_ok (inputDrafts (cw_store (rs_chat s)))" using inv by (simp add: queue_inv_def chat_inv_def)
    then have "drafts_stored (rs_chat (run_input s))"
      unfolding after taken(6) by (intro stored_other stored_set)
    moreover have "chat_draft_text (rs_chat (run_input s)) sid = pr_content r"
      using q(3) \<open>q = r\<close> key by (simp add: after taken(6) chat_draft_text_at chat_simps)
    ultimately show ?thesis
      using e taken(4,5) key reload_text [OF _ assms(4)] q(4) \<open>q = r\<close>
      by (simp add: fresh_system_def) (simp add: after taken(6) chat_simps)
  qed
qed simp

text \<open>A cancelled prompt comes back while its session shows another draft; the application is reloaded.\<close>

definition empty_storage :: chat_storage where
  "empty_storage = \<lparr>st_text = [], st_json = []\<rparr>"

definition chat_started :: restore_system where
  "chat_started = fresh_system (createChatStore (Some ''acme'') empty_storage) [] []"

definition cancelled :: pending_restore where
  "cancelled = \<lparr>pr_id = ''m1'', pr_content = ''fix it'', pr_attachments = [], pr_sessionId = ''s1''\<rparr>"

definition cancelled_and_reloaded :: "restore_event list" where
  "cancelled_and_reloaded = [Selected (Some ''s1''), Adopt False, Typed ''next'', Flushed, Enable True, LocalRestore cancelled,
     RunOffer, RunInput, Reload, Enable True, Typed [], Flushed, RunOffer]"

lemma chat_started_start: "restore_start chat_started"
proof -
  have "obj_ok (readDrafts empty_storage (wsKey (Some ''acme'') DRAFTS_KEY))"
    "\<forall>kv \<in> set (readPendingSendRestores empty_storage (wsKey (Some ''acme'') PENDING_SEND_RESTORES_KEY)). distinct (map pr_id (snd kv))"
    by (simp_all add: readDrafts_def readPendingSendRestores_def get_json_def empty_storage_def obj_get_def obj_ok_def obj_keys_def)
  then show ?thesis unfolding restore_start_def chat_started_def by (metis distinct.simps(1) list.simps(8))
qed

theorem restores_not_lost_witness:
  "let s = foldl restore_step chat_started cancelled_and_reloaded
   in queue_of (rs_chat s) ''s1'' = [cancelled] \<and> chat_draft_text (rs_chat (run_input s)) ''s1'' = ''fix it''
      \<and> queue_of (rs_chat (run_input s)) ''s1'' = []"
proof -
  let ?s = "foldl restore_step chat_started cancelled_and_reloaded"
  have "run_ok restore_step restore_enabled chat_started cancelled_and_reloaded" by code_simp
  then have "restores_reachable ?s" using chat_started_start by (blast intro: reachable_run reachable.init)
  moreover have q: "queue_of (rs_chat ?s) ''s1'' = [cancelled]" by code_simp
  moreover have "queue_of (rs_chat (run_input ?s)) ''s1'' = []" by code_simp
  moreover have "\<not> str_starts ''s1'' DRAFT_NEW_SESSION" by code_simp
  ultimately show ?thesis
    using restores_not_lost [of ?s RunInput cancelled "''s1''"] by (simp add: Let_def cancelled_def)
qed

section \<open>A restore of the server is given once\<close>

text \<open>C13: the composer is given a restore of the server at most once: whatever fails or is lost among the
  requests that consume it, and however often the application is reloaded or fetches again, as long as no
  fetch overlaps a consume of one of its rows.\<close>

theorem restored_at_most_once:
  assumes "calm_reachable s"
  shows "distinct (rs_taken s)"
  using once.inv_reachable [OF assms] by (simp add: once_inv_def taken_ok_def)

definition finalized :: restore_row where
  "finalized = \<lparr>rr_id = ''m1'', rr_session = ''s1'', rr_content = ''fix it'', rr_attachments = []\<rparr>"

text \<open>The request that consumes the row is lost; after a reload the row is fetched again.\<close>

definition lost_consume :: "restore_event list" where
  "lost_consume = [Selected (Some ''s1''), Adopt False, Enable True, ServerRestored finalized, FetchSent ''s1'', FetchAnswered ''s1'',
     RunOffer, RunInput, ConsumeSettled ''s1'' ''m1'' False False True, Reload, Enable True, FetchSent ''s1'', FetchAnswered ''s1'',
     Typed [], Flushed, RunOffer, RunInput, RunReconcile, ConsumeSettled ''s1'' ''m1'' True True True]"

theorem restored_at_most_once_witness:
  "let s = foldl restore_step chat_started lost_consume in rs_taken s = [''m1''] \<and> distinct (rs_taken s) \<and> rs_server s = []"
proof -
  have "run_ok restore_step (\<lambda>s e. restore_enabled s e \<and> calm s e) chat_started lost_consume" by code_simp
  then have "calm_reachable (foldl restore_step chat_started lost_consume)"
    using chat_started_start by (blast intro: reachable_run reachable.init)
  moreover have "rs_taken (foldl restore_step chat_started lost_consume) = [''m1'']"
    "rs_server (foldl restore_step chat_started lost_consume) = []" by code_simp+
  ultimately show ?thesis using restored_at_most_once by (metis (no_types, lifting))
qed

text \<open>A fetch that overlaps the consume offers the prompt again: its answer brings back the row that
  the consume had removed from the query's data, the success removes the id from the ledger, and the
  composer is given the prompt a second time, after the first one was sent.\<close>

theorem overlapping_fetch_restores_again:
  "let s = foldl restore_step chat_started
     [Selected (Some ''s1''), Adopt False, Enable True, ServerRestored finalized, FetchSent ''s1'', FetchAnswered ''s1'',
      RunOffer, FetchSent ''s1'', RunInput, FetchAnswered ''s1'', ConsumeSettled ''s1'' ''m1'' True True True,
      StartSend, AcceptSend ''s1'', RunInput, RunOffer, RunInput]
   in rs_server s = [] \<and> rs_taken s = [''m1'', ''m1''] \<and> chat_draft_text (rs_chat s) ''s1'' = ''fix it''"
  by code_simp

section \<open>Where a prompt is lost\<close>

text \<open>A cancelled prompt that arrives after a switch of the workspace is lost: it is queued under the
  workspace that is then current, so its own session never offers it, and the queue of its own workspace
  stays empty.\<close>

theorem late_cancel_restored_elsewhere:
  "let s = foldl restore_step chat_started
     [Selected (Some ''s1''), Adopt False, Enable True, SetSlug (Some ''other''), Rehydrate, LocalRestore cancelled,
      SetSlug (Some ''acme''), Rehydrate, Selected (Some ''s1''), Adopt False, RunOffer, RunInput]
   in queue_of (rs_chat s) ''s1'' = [] \<and> chat_draft_text (rs_chat s) ''s1'' = []
      \<and> obj_get (readPendingSendRestores (cw_storage (rs_chat s)) ''silieco:chat:pending-send-restores:other'') ''s1'' = Some [cancelled]"
  by code_simp

text \<open>A prompt is lost to the keys typed just before it: the composer takes it while the debounce
  still holds them, and the debounce then writes them over it.\<close>

theorem restore_overwritten_by_typing:
  "let s = foldl restore_step chat_started
     [Selected (Some ''s1''), Adopt False, Enable True, LocalRestore cancelled, Typed ''n'', RunOffer, RunInput, Flushed]
   in queue_of (rs_chat s) ''s1'' = [] \<and> chat_draft_text (rs_chat s) ''s1'' = ''n''"
  by code_simp

section \<open>Sending\<close>

lemma clear_text [chat_simps]: "chat_draft_text (clearInputDraft j w) k = (if k = j then [] else chat_draft_text w k)"
  by (simp add: chat_draft_text_at chat_simps)

lemma text_cleared: "k \<noteq> sid \<or> k = j \<Longrightarrow> text_at (if sid \<noteq> j then obj_delete sid ds else ds) k = text_at ds k"
  by (auto simp: text_at_delete)

lemma text_deleted: "text_at (if P then obj_delete j ds else ds) k = (if k = j \<and> P then [] else text_at ds k)"
  by (simp add: text_at_delete)

text \<open>An accepted send clears what it sent and nothing else: the slot it was sent from loses its text
  only while that text is what was sent, a text typed meanwhile stays, and so do the texts of all the other
  sessions but the one the message went to.\<close>

theorem accepted_send_clears_what_it_sent:
  assumes "rs_sending s = Some sd" "k \<noteq> sid \<or> k = sd_key sd"
  shows "chat_draft_text (rs_chat (restore_step s (AcceptSend sid))) k =
    (if k = sd_key sd \<and> obj_get (inputDrafts (cw_store (rs_chat (flush s)))) k \<in> {None, sd_value sd} then []
     else chat_draft_text (rs_chat (flush s)) k)"
proof -
  have active: "inputDrafts (cw_store (rs_chat (flush (on_chat (setActiveSession i) s)))) = inputDrafts (cw_store (rs_chat (flush s)))" for i
    by (simp add: flush_def on_chat_simps commitDraft_def Let_def chat_simps split: option.split)
  let ?ds = "inputDrafts (cw_store (rs_chat (flush s)))"
  let ?ds1 = "if obj_get ?ds (sd_key sd) \<in> {None, sd_value sd} then obj_delete (sd_key sd) ?ds else ?ds"
  have commit: "inputDrafts (cw_store (rs_chat (commitInput (sd_key sd) (sd_value sd) [sid] s1))) = (if sid \<noteq> sd_key sd then obj_delete sid ?ds1 else ?ds1)"
    if "inputDrafts (cw_store (rs_chat (flush s1))) = ?ds" for s1
    using that by (simp add: commitInput_def Let_def chat_simps)
  define s1 where "s1 = (if isStillOnComposeTarget (active s) (sd_source sd) then on_chat (setActiveSession (Some sid)) s else s)"
  have "inputDrafts (cw_store (rs_chat (flush s1))) = ?ds" by (simp add: s1_def active)
  moreover have "accept_send sid s = (commitInput (sd_key sd) (sd_value sd) [sid] s1)\<lparr>rs_sending := None\<rparr>"
    by (simp add: accept_send_def Let_def assms(1) s1_def)
  ultimately have "inputDrafts (cw_store (rs_chat (accept_send sid s))) = (if sid \<noteq> sd_key sd then obj_delete sid ?ds1 else ?ds1)"
    using commit [of s1] by simp
  then have after: "chat_draft_text (rs_chat (restore_step s (AcceptSend sid))) k = text_at (if sid \<noteq> sd_key sd then obj_delete sid ?ds1 else ?ds1) k"
    by (simp only: restore_step.simps chat_draft_text_at)
  have "chat_draft_text (rs_chat (restore_step s (AcceptSend sid))) k
      = (if k = sd_key sd \<and> obj_get ?ds (sd_key sd) \<in> {None, sd_value sd} then [] else text_at ?ds k)"
    unfolding after by (rule trans [OF text_cleared [OF assms(2)] text_deleted])
  also have "\<dots> = (if k = sd_key sd \<and> obj_get ?ds k \<in> {None, sd_value sd} then [] else text_at ?ds k)"
    by (rule if_cong) auto
  finally show ?thesis by (simp only: chat_draft_text_at)
qed

definition sent_and_typed :: "restore_event list" where
  "sent_and_typed = [Selected (Some ''s1''), Adopt False, Typed ''first'', StartSend, Typed ''second'']"

theorem accepted_send_clears_what_it_sent_witness:
  "let s = foldl restore_step chat_started sent_and_typed
   in chat_draft_text (rs_chat (restore_step s (AcceptSend ''s1''))) ''s1'' = ''second''"
proof -
  let ?s = "foldl restore_step chat_started sent_and_typed"
  let ?sd = "\<lparr>sd_key = ''s1'', sd_value = Some (JStr ''first''), sd_source = Some ''s1''\<rparr>"
  have "rs_sending ?s = Some ?sd" by code_simp
  moreover have "obj_get (inputDrafts (cw_store (rs_chat (flush ?s)))) ''s1'' = Some (JStr ''second'')"
    "chat_draft_text (rs_chat (flush ?s)) ''s1'' = ''second''" by code_simp+
  ultimately show ?thesis
    using accepted_send_clears_what_it_sent [of ?s ?sd "''s1''" "''s1''"] by simp
qed

text \<open>A send that creates a session clears a text already typed into that session: the session is in
  the list before the message is accepted, and its slot is cleared without looking.\<close>

theorem created_session_loses_text:
  "let s = foldl restore_step chat_started
     [Adopt False, Typed ''hello'', StartSend, Selected (Some ''s1''), Adopt False, Typed ''second thought'', Flushed];
       t = restore_step s (AcceptSend ''s1'')
   in chat_draft_text (rs_chat s) ''s1'' = ''second thought'' \<and> chat_draft_text (rs_chat t) ''s1'' = []"
  by code_simp

section \<open>Slots of earlier builds\<close>

text \<open>C?: text and attachments can disagree on the new-chat draft that survives the migration: when the
  unified slot holds a text and no attachments, the text stays and a legacy slot's attachments are adopted.\<close>

definition legacy_upload :: json where
  "legacy_upload = JObj [(''clientUploadId'', JStr ''u''), (''status'', JStr ''failed'')]"

theorem migrated_slots_disagree:
  "let st = writeDraftAttachments ''a'' [(''__new__:ag'', [legacy_upload])]
              (writeDrafts ''d'' [(''__new__'', JStr ''newer''), (''__new__:ag'', JStr ''older'')] empty_storage)
   in loadDraftSlots st ''d'' ''a'' (Some ''ag'')
      = ([(''__new__'', JStr ''newer'')], [(''__new__'', [legacy_upload])], snd (snd (loadDraftSlots st ''d'' ''a'' (Some ''ag''))))"
  by code_simp

end
