(* ===== verification/Board_Model.thy ===== *)
theory Board_Model
  imports Issue_Coherence JS_Object
begin

text \<open>
  The columns of the issue board and of the issue list
  (\<open>packages/views/issues/utils/drag-utils.ts\<close>, \<open>buildGroups\<close> in \<open>components/board-view.tsx\<close> and
  \<open>buildListGroups\<close> in \<open>components/list-view.tsx\<close>): which column an issue belongs to, where a dropped
  card lands, and what is asked of the server. Positions are exact rationals. A column map is an object from
  column identifiers to issue identifiers. \<open>pv\<close> stands for the read \<open>issue.properties?.[id]\<close>.
\<close>

section \<open>Columns\<close>

type_synonym property_read = "issue \<Rightarrow> jstr \<Rightarrow> json option"

record create_data =
  cd_status :: "IssueStatus option"
  cd_assignee :: "(IssueAssigneeType option \<times> jstr option) option"

text \<open>
  \<open>BoardColumnGroup\<close>. An absent assignee field reads as \<open>null\<close> everywhere; an absent option
  (\<open>None\<close>) differs from the \<open>null\<close> of the column without a value (\<open>Some None\<close>).
\<close>

record board_group =
  bg_id :: jstr
  bg_title :: jstr
  bg_status :: "IssueStatus option"
  bg_assignee_type :: "IssueAssigneeType option"
  bg_assignee_id :: "jstr option"
  bg_property_id :: "jstr option"
  bg_property_option :: "jstr option option"
  bg_option_color :: "jstr option"
  bg_total :: "nat option"
  bg_create :: "create_data option"

definition blank_group :: board_group where
  "blank_group = \<lparr>bg_id = [], bg_title = [], bg_status = None, bg_assignee_type = None, bg_assignee_id = None,
     bg_property_id = None, bg_property_option = None, bg_option_color = None, bg_total = None, bg_create = None\<rparr>"

type_synonym columns = "jstr list jsobj"

fun status_text :: "IssueStatus \<Rightarrow> jstr" where
  "status_text Backlog = ''backlog''"
| "status_text Todo = ''todo''"
| "status_text InProgress = ''in_progress''"
| "status_text InReview = ''in_review''"
| "status_text Done = ''done''"
| "status_text Blocked = ''blocked''"
| "status_text Cancelled = ''cancelled''"

fun assignee_text :: "IssueAssigneeType \<Rightarrow> jstr" where
  "assignee_text AMember = ''member''"
| "assignee_text AAgent = ''agent''"
| "assignee_text ASquad = ''squad''"

definition UNASSIGNED_GROUP_ID :: jstr where
  "UNASSIGNED_GROUP_ID = ''assignee:unassigned''"

definition PROPERTY_VIEW_PREFIX :: jstr where
  "PROPERTY_VIEW_PREFIX = ''property:''"

definition propertyIdFromViewKey :: "jstr \<Rightarrow> jstr option" where
  "propertyIdFromViewKey key =
     (if str_starts key PROPERTY_VIEW_PREFIX then Some (drop (length PROPERTY_VIEW_PREFIX) key) else None)"

definition statusGroupId :: "IssueStatus \<Rightarrow> jstr" where
  "statusGroupId status = ''status:'' @ status_text status"

definition propertyGroupId :: "jstr \<Rightarrow> jstr option \<Rightarrow> jstr" where
  "propertyGroupId propertyId optionId =
     ''property:'' @ propertyId @ '':'' @ (case optionId of None \<Rightarrow> ''none'' | Some v \<Rightarrow> v)"

text \<open>The test \<open>type && id\<close> is false for an empty identifier.\<close>

definition assigneeGroupId :: "IssueAssigneeType option \<Rightarrow> jstr option \<Rightarrow> jstr" where
  "assigneeGroupId ty i =
     (case (ty, i) of
        (Some t, Some v) \<Rightarrow> if v = [] then UNASSIGNED_GROUP_ID else ''assignee:'' @ assignee_text t @ '':'' @ v
      | _ \<Rightarrow> UNASSIGNED_GROUP_ID)"

text \<open>\<open>typeof value === "string" ? value : null\<close>\<close>

definition option_of_value :: "json option \<Rightarrow> jstr option" where
  "option_of_value v = (case v of Some (JStr w) \<Rightarrow> Some w | _ \<Rightarrow> None)"

text \<open>An empty property identifier is falsy, so that the last branch is taken.\<close>

definition getIssueGroupId :: "property_read \<Rightarrow> issue \<Rightarrow> jstr \<Rightarrow> jstr list option \<Rightarrow> jstr" where
  "getIssueGroupId pv i grouping knownOptionIds =
     (if grouping = ''status'' then statusGroupId (iss_status i)
      else case propertyIdFromViewKey grouping of
        Some (c # cs) \<Rightarrow>
          let propertyId = c # cs;
              optionId = option_of_value (pv i propertyId);
              optionId' = (case (optionId, knownOptionIds) of
                 (Some w, Some known) \<Rightarrow> if w \<in> set known then Some w else None
               | _ \<Rightarrow> optionId)
          in propertyGroupId propertyId optionId'
      | _ \<Rightarrow> assigneeGroupId (iss_assignee_type i) (iss_assignee_id i))"

text \<open>\<open>cols[gid].push(id)\<close> if the column exists.\<close>

definition push_id :: "jstr \<Rightarrow> jstr \<Rightarrow> columns \<Rightarrow> columns" where
  "push_id gid x cols = (case obj_get cols gid of None \<Rightarrow> cols | Some ids \<Rightarrow> obj_set gid (ids @ [x]) cols)"

definition buildColumns ::
  "property_read \<Rightarrow> issue list \<Rightarrow> board_group list \<Rightarrow> jstr \<Rightarrow> jstr list option \<Rightarrow> columns" where
  "buildColumns pv issues groups grouping known =
     fold (\<lambda>i. push_id (getIssueGroupId pv i grouping known) (iss_id i)) issues
       (fold (\<lambda>g. obj_set (bg_id g) []) groups [])"

section \<open>Where a card lands\<close>

type_synonym issue_map = "(jstr, issue) jsmap"

definition issue_map_of :: "issue list \<Rightarrow> issue_map" where
  "issue_map_of issues = fold (\<lambda>i. map_set (iss_id i) i) issues []"

definition getPos :: "issue_map \<Rightarrow> jstr \<Rightarrow> rat" where
  "getPos m k = (case map_get m k of None \<Rightarrow> 0 | Some i \<Rightarrow> iss_position i)"

definition computePosition :: "jstr list \<Rightarrow> jstr \<Rightarrow> issue_map \<Rightarrow> rat" where
  "computePosition ids activeId m =
     (case find_index (\<lambda>x. x = activeId) ids of
        None \<Rightarrow> 0
      | Some idx \<Rightarrow>
          if length ids = 1 then getPos m activeId
          else if idx = 0 then getPos m (ids ! 1) - 1
          else if idx = length ids - 1 then getPos m (ids ! (idx - 1)) + 1
          else (getPos m (ids ! (idx - 1)) + getPos m (ids ! (idx + 1))) / 2)"

definition getMoveAnchors :: "jstr list \<Rightarrow> jstr \<Rightarrow> jstr option \<times> jstr option" where
  "getMoveAnchors ids activeId =
     (case find_index (\<lambda>x. x = activeId) ids of
        None \<Rightarrow> (None, None)
      | Some idx \<Rightarrow>
          (if 0 < idx then Some (ids ! (idx - 1)) else None,
           if idx < length ids - 1 then Some (ids ! (idx + 1)) else None))"

definition insertIdByPosition :: "jstr list \<Rightarrow> jstr \<Rightarrow> rat \<Rightarrow> issue_map \<Rightarrow> jstr list" where
  "insertIdByPosition ids k position m =
     (case find_index (\<lambda>x. case map_get m x of None \<Rightarrow> False | Some i \<Rightarrow> position < iss_position i) ids of
        None \<Rightarrow> ids @ [k]
      | Some idx \<Rightarrow> take idx ids @ [k] @ drop idx ids)"

definition findColumn :: "columns \<Rightarrow> jstr \<Rightarrow> jstr list \<Rightarrow> jstr option" where
  "findColumn cols k columnIds =
     (if k \<in> set columnIds then Some k else map_option fst (find (\<lambda>(c, ids). k \<in> set ids) cols))"

definition issueMatchesGroup :: "property_read \<Rightarrow> issue \<Rightarrow> board_group \<Rightarrow> bool" where
  "issueMatchesGroup pv i g =
     (case bg_status g of
        Some s \<Rightarrow> iss_status i = s
      | None \<Rightarrow>
          (case bg_property_id g of
             Some propertyId \<Rightarrow>
               option_of_value (pv i propertyId) = (case bg_property_option g of None \<Rightarrow> None | Some opt \<Rightarrow> opt)
           | None \<Rightarrow> iss_assignee_type i = bg_assignee_type g \<and> iss_assignee_id i = bg_assignee_id g))"

definition getMoveUpdates :: "board_group \<Rightarrow> rat \<Rightarrow> issue_patch" where
  "getMoveUpdates g position =
     (case bg_status g of
        Some s \<Rightarrow> no_patch\<lparr>p_status := Some s, p_position := Some position\<rparr>
      | None \<Rightarrow>
          (case bg_property_id g of
             Some _ \<Rightarrow> no_patch\<lparr>p_position := Some position\<rparr>
           | None \<Rightarrow> no_patch\<lparr>p_assignee_type := Some (bg_assignee_type g),
                       p_assignee_id := Some (bg_assignee_id g), p_position := Some position\<rparr>))"

text \<open>The collision strategy: \<open>pointer\<close> and \<open>closest\<close> are what the drag library's own strategies return. A
  card under the pointer wins over the column it is in.\<close>

definition makeKanbanCollision :: "jstr list \<Rightarrow> jstr list \<Rightarrow> jstr list \<Rightarrow> jstr list" where
  "makeKanbanCollision groupIds pointer closest =
     (if pointer \<noteq> []
      then let items = filter (\<lambda>c. c \<notin> set groupIds) pointer in if items \<noteq> [] then items else pointer
      else closest)"

section \<open>The columns of a board\<close>

record select_option =
  so_id :: jstr
  so_name :: jstr
  so_color :: jstr

record select_property =
  sp_id :: jstr
  sp_options :: "select_option list"

definition status_group :: "IssueStatus \<Rightarrow> board_group" where
  "status_group s = blank_group\<lparr>bg_id := statusGroupId s, bg_title := status_text s, bg_status := Some s,
     bg_create := Some \<lparr>cd_status = Some s, cd_assignee = None\<rparr>\<rparr>"

definition option_group :: "jstr \<Rightarrow> select_option \<Rightarrow> board_group" where
  "option_group pid opt = blank_group\<lparr>bg_id := propertyGroupId pid (Some (so_id opt)), bg_title := so_name opt,
     bg_property_id := Some pid, bg_property_option := Some (Some (so_id opt)), bg_option_color := Some (so_color opt)\<rparr>"

definition no_value_group :: "jstr \<Rightarrow> jstr \<Rightarrow> board_group" where
  "no_value_group pid label = blank_group\<lparr>bg_id := propertyGroupId pid None, bg_title := label,
     bg_property_id := Some pid, bg_property_option := Some None\<rparr>"

text \<open>The group of an assignee: \<open>name\<close> is \<open>getActorName\<close>, \<open>label\<close> the text for no assignee.\<close>

definition assignee_group ::
  "(IssueAssigneeType \<Rightarrow> jstr \<Rightarrow> jstr) \<Rightarrow> jstr \<Rightarrow> issue \<Rightarrow> board_group" where
  "assignee_group name label i =
     (let gid = assigneeGroupId (iss_assignee_type i) (iss_assignee_id i) in
      case (iss_assignee_type i, iss_assignee_id i) of
        (Some t, Some (c # cs)) \<Rightarrow>
          blank_group\<lparr>bg_id := gid, bg_title := name t (c # cs), bg_assignee_type := Some t,
            bg_assignee_id := Some (c # cs),
            bg_create := Some \<lparr>cd_status = None, cd_assignee = Some (Some t, Some (c # cs))\<rparr>\<rparr>
      | _ \<Rightarrow> blank_group\<lparr>bg_id := gid, bg_title := label,
               bg_create := Some \<lparr>cd_status = None, cd_assignee = Some (None, None)\<rparr>\<rparr>)"

fun collect_groups :: "(issue \<Rightarrow> board_group) \<Rightarrow> issue list \<Rightarrow> board_group list \<Rightarrow> board_group list" where
  "collect_groups mk [] acc = acc"
| "collect_groups mk (i # rest) acc =
     (if list_ex (\<lambda>g. bg_id g = assigneeGroupId (iss_assignee_type i) (iss_assignee_id i)) acc
      then collect_groups mk rest acc
      else collect_groups mk rest (acc @ [mk i]))"

fun assignee_order :: "IssueAssigneeType option \<Rightarrow> int" where
  "assignee_order (Some AMember) = 0"
| "assignee_order (Some AAgent) = 1"
| "assignee_order (Some ASquad) = 2"
| "assignee_order None = 3"

text \<open>\<open>lc\<close> is \<open>localeCompare\<close>.\<close>

definition compare_groups :: "(jstr \<Rightarrow> jstr \<Rightarrow> int) \<Rightarrow> board_group \<Rightarrow> board_group \<Rightarrow> int" where
  "compare_groups lc a b =
     (let aOrder = assignee_order (bg_assignee_type a); bOrder = assignee_order (bg_assignee_type b)
      in if aOrder \<noteq> bOrder then aOrder - bOrder else lc (bg_title a) (bg_title b))"

text \<open>A stable sort by a comparison function: \<open>Array.prototype.toSorted\<close>.\<close>

fun insert_cmp :: "('a \<Rightarrow> 'a \<Rightarrow> int) \<Rightarrow> 'a \<Rightarrow> 'a list \<Rightarrow> 'a list" where
  "insert_cmp cmp x [] = [x]"
| "insert_cmp cmp x (y # ys) = (if cmp x y \<le> 0 then x # y # ys else y # insert_cmp cmp x ys)"

definition toSorted :: "('a \<Rightarrow> 'a \<Rightarrow> int) \<Rightarrow> 'a list \<Rightarrow> 'a list" where
  "toSorted cmp xs = foldr (insert_cmp cmp) xs []"

definition buildGroups ::
  "(jstr \<Rightarrow> jstr \<Rightarrow> int) \<Rightarrow> issue list \<Rightarrow> IssueStatus list \<Rightarrow> jstr \<Rightarrow> (IssueAssigneeType \<Rightarrow> jstr \<Rightarrow> jstr)
     \<Rightarrow> jstr \<Rightarrow> select_property option \<Rightarrow> jstr \<Rightarrow> board_group list" where
  "buildGroups lc issues visibleStatuses grouping getActorName noAssigneeLabel groupingProperty noValueLabel =
     (if grouping = ''status'' then map status_group visibleStatuses
      else case groupingProperty of
        Some p \<Rightarrow> map (option_group (sp_id p)) (sp_options p) @ [no_value_group (sp_id p) noValueLabel]
      | None \<Rightarrow>
          toSorted (compare_groups lc)
            (collect_groups (assignee_group getActorName noAssigneeLabel) issues []))"

definition buildListGroups :: "IssueStatus list \<Rightarrow> board_group list" where
  "buildListGroups visibleStatuses = map status_group visibleStatuses"

text \<open>What the board groups by when the property it was grouped by is gone; the list holds the properties of
  type \<open>select\<close>.\<close>

definition effective_grouping :: "jstr \<Rightarrow> select_property list \<Rightarrow> jstr \<times> select_property option" where
  "effective_grouping storeGrouping selectProperties =
     (case propertyIdFromViewKey storeGrouping of
        Some (c # cs) \<Rightarrow>
          (case find (\<lambda>p. sp_id p = c # cs) selectProperties of
             None \<Rightarrow> (''status'', None)
           | Some p \<Rightarrow> (storeGrouping, Some p))
      | _ \<Rightarrow> (storeGrouping, None))"

end
