(* ===== verification/Board_Drag.thy ===== *)
theory Board_Drag
  imports Board_Model
begin

text \<open>
  Dragging a card: the settle hook (\<open>packages/views/issues/components/use-drag-settle.ts\<close>), the
  handlers of the board (\<open>components/board-view.tsx\<close>) and of the list (\<open>components/list-view.tsx\<close>),
  and the surface's update mutation they share with the menus of the cards
  (\<open>surface/use-issue-surface-actions.ts\<close>). A handler runs on the props of the last render. What the
  drag library and the query library decide is in the events: a cancelled drag calls no handler of these
  components, and \<open>fires n latest\<close> says whether the callbacks handed to the \<open>n\<close>-th call of
  \<open>mutate\<close> still run when \<open>latest\<close> is the latest call.
\<close>

section \<open>State\<close>

record board_props =
  bp_issues :: "issue list"
  bp_groups :: "board_group list"
  bp_grouping :: jstr
  bp_options :: "jstr list option"
  bp_sort_by :: jstr

datatype board_write =
    MoveIssue jstr issue_patch "jstr option" "jstr option"
  | UpdateIssue jstr issue_patch
  | SetProperty jstr jstr jstr
  | UnsetProperty jstr jstr

datatype board_error = TypeError

text \<open>
  \<open>bs_pointer\<close> is the card the drag library holds, \<open>bs_inflight\<close> the calls of \<open>mutate\<close> under
  way, each with whether it was handed the callback that ends a settle, \<open>bs_latest\<close> the latest call, and
  \<open>bs_sent\<close> every write so far.
\<close>

record board_state =
  bs_props :: board_props
  bs_columns :: columns
  bs_map :: issue_map
  bs_active :: "issue option"
  bs_dragging :: bool
  bs_settling :: bool
  bs_recent :: bool
  bs_version :: nat
  bs_pointer :: "jstr option"
  bs_next :: nat
  bs_latest :: "nat option"
  bs_inflight :: "(nat \<times> bool) list"
  bs_sent :: "board_write list"
  bs_error :: "board_error option"

type_synonym 'a array_mover = "'a list \<Rightarrow> nat \<Rightarrow> nat \<Rightarrow> 'a list"

section \<open>The settle hook\<close>

definition columnsEqual :: "columns \<Rightarrow> columns \<Rightarrow> bool" where
  "columnsEqual a b =
     (length (obj_keys a) = length (obj_keys b) \<and>
      list_all (\<lambda>k. case (obj_get a k, obj_get b k) of (Some av, Some bv) \<Rightarrow> av = bv | _ \<Rightarrow> False) (obj_keys a))"

definition setColumns :: "columns \<Rightarrow> board_state \<Rightarrow> board_state" where
  "setColumns nxt s = (if columnsEqual (bs_columns s) nxt then s else s\<lparr>bs_columns := nxt\<rparr>)"

definition props_columns :: "property_read \<Rightarrow> board_props \<Rightarrow> columns" where
  "props_columns pv p = buildColumns pv (bp_issues p) (bp_groups p) (bp_grouping p) (bp_options p)"

definition group_ids :: "board_props \<Rightarrow> jstr list" where
  "group_ids p = map bg_id (bp_groups p)"

text \<open>A render: the issue map follows the props unless it is frozen.\<close>

definition rerender :: "board_state \<Rightarrow> board_state" where
  "rerender s = (if bs_dragging s \<or> bs_settling s then s else s\<lparr>bs_map := issue_map_of (bp_issues (bs_props s))\<rparr>)"

text \<open>The resync effect.\<close>

definition resync :: "property_read \<Rightarrow> board_state \<Rightarrow> board_state" where
  "resync pv s = (if bs_dragging s \<or> bs_settling s then s else setColumns (props_columns pv (bs_props s)) s)"

definition beginSettle :: "board_state \<Rightarrow> board_state" where
  "beginSettle s = s\<lparr>bs_settling := True\<rparr>"

definition settle_callback :: "property_read \<Rightarrow> board_state \<Rightarrow> board_state" where
  "settle_callback pv s = resync pv (rerender (s\<lparr>bs_settling := False, bs_version := bs_version s + 1\<rparr>))"

section \<open>The surface's mutation\<close>

text \<open>One observer for all calls of a surface; a call replaces the callbacks of the one before.\<close>

definition call_mutate :: "bool \<Rightarrow> board_write \<Rightarrow> board_state \<Rightarrow> board_state" where
  "call_mutate release w s =
     s\<lparr>bs_next := bs_next s + 1, bs_latest := Some (bs_next s),
       bs_inflight := bs_inflight s @ [(bs_next s, release)], bs_sent := bs_sent s @ [w]\<rparr>"

definition moveIssue :: "jstr \<Rightarrow> issue_patch \<Rightarrow> jstr option \<times> jstr option \<Rightarrow> board_state \<Rightarrow> board_state" where
  "moveIssue issueId updates anchors s = call_mutate True (MoveIssue issueId updates (fst anchors) (snd anchors)) s"

definition updateIssue :: "jstr \<Rightarrow> issue_patch \<Rightarrow> board_state \<Rightarrow> board_state" where
  "updateIssue issueId updates s = call_mutate False (UpdateIssue issueId updates) s"

definition applyPropertyGroupValue :: "board_group \<Rightarrow> jstr \<Rightarrow> board_state \<Rightarrow> board_state" where
  "applyPropertyGroupValue g issueId s =
     (case bg_property_id g of
        None \<Rightarrow> s
      | Some pid \<Rightarrow>
          (case bg_property_option g of
             Some None \<Rightarrow> s\<lparr>bs_sent := bs_sent s @ [UnsetProperty issueId pid]\<rparr>
           | Some (Some v) \<Rightarrow> s\<lparr>bs_sent := bs_sent s @ [SetProperty issueId pid v]\<rparr>
           | None \<Rightarrow> s))"

section \<open>The handlers of the board\<close>

text \<open>The test \<open>!column\<close> is true for the empty string too.\<close>

definition named :: "jstr option \<Rightarrow> jstr option" where
  "named c = (if c = Some [] then None else c)"

definition handleDragStart :: "jstr \<Rightarrow> board_state \<Rightarrow> board_state" where
  "handleDragStart activeId s = rerender (s\<lparr>bs_dragging := True, bs_active := map_get (bs_map s) activeId\<rparr>)"

text \<open>The local move of a card over another column: reading an absent column throws.\<close>

definition move_over :: "columns \<Rightarrow> jstr \<Rightarrow> jstr \<Rightarrow> jstr \<Rightarrow> jstr \<Rightarrow> board_error + columns" where
  "move_over prev activeId overId activeCol overCol =
     (case (obj_get prev activeCol, obj_get prev overCol) of
        (Some fromIds, Some toIds) \<Rightarrow>
          let oldIds = filter (\<lambda>x. x \<noteq> activeId) fromIds;
              insertIndex = (case find_index (\<lambda>x. x = overId) toIds of Some n \<Rightarrow> n | None \<Rightarrow> length toIds)
          in Inr (obj_set overCol (insert_nth insertIndex activeId toIds) (obj_set activeCol oldIds prev))
      | _ \<Rightarrow> Inl TypeError)"

definition handleDragOver :: "jstr \<Rightarrow> jstr option \<Rightarrow> board_state \<Rightarrow> board_error + board_state" where
  "handleDragOver activeId hovered s =
     (case hovered of
        None \<Rightarrow> Inr s
      | Some overId \<Rightarrow>
          if bs_recent s then Inr s
          else
            let gids = group_ids (bs_props s); prev = bs_columns s in
            case (named (findColumn prev activeId gids), named (findColumn prev overId gids)) of
              (Some activeCol, Some overCol) \<Rightarrow>
                if activeCol = overCol then Inr s
                else if bp_sort_by (bs_props s) \<noteq> ''position'' then Inr s
                else (case move_over prev activeId overId activeCol overCol of
                        Inl e \<Rightarrow> Inl e
                      | Inr nxt \<Rightarrow> Inr (setColumns nxt (s\<lparr>bs_recent := True\<rparr>)))
            | _ \<Rightarrow> Inr s)"

definition resetColumns :: "property_read \<Rightarrow> board_state \<Rightarrow> board_state" where
  "resetColumns pv s = setColumns (props_columns pv (bs_props s)) s"

text \<open>The reorder within a column, under the manual order only.\<close>

definition reorder :: "jstr array_mover \<Rightarrow> columns \<Rightarrow> jstr \<Rightarrow> jstr \<Rightarrow> jstr \<Rightarrow> board_error + columns" where
  "reorder am cols activeId overId col =
     (case obj_get cols col of
        None \<Rightarrow> Inl TypeError
      | Some ids \<Rightarrow>
          (case (find_index (\<lambda>x. x = activeId) ids, find_index (\<lambda>x. x = overId) ids) of
             (Some oldIndex, Some newIndex) \<Rightarrow>
               if oldIndex = newIndex then Inr cols else Inr (obj_set col (am ids oldIndex newIndex) cols)
           | _ \<Rightarrow> Inr cols))"

text \<open>A drop while the order is not the manual one: only the group changes.\<close>

definition drop_by_group ::
  "property_read \<Rightarrow> jstr \<Rightarrow> jstr \<Rightarrow> jstr \<Rightarrow> board_group \<Rightarrow> board_state \<Rightarrow> board_state" where
  "drop_by_group pv activeId activeCol overCol finalGroup s =
     (case map_get (bs_map s) activeId of
        None \<Rightarrow> resetColumns pv s
      | Some currentIssue \<Rightarrow>
          if issueMatchesGroup pv currentIssue finalGroup then resetColumns pv s
          else
            let cols = bs_columns s;
                ids = (case obj_get cols overCol of None \<Rightarrow> [] | Some xs \<Rightarrow> xs);
                targetIds = insertIdByPosition (filter (\<lambda>x. x \<noteq> activeId) ids) activeId
                  (iss_position currentIssue) (bs_map s);
                fromIds = filter (\<lambda>x. x \<noteq> activeId) (case obj_get cols activeCol of None \<Rightarrow> [] | Some xs \<Rightarrow> xs);
                s1 = setColumns (obj_set overCol targetIds (obj_set activeCol fromIds cols)) s
            in applyPropertyGroupValue finalGroup activeId
                 (moveIssue activeId (getMoveUpdates finalGroup (iss_position currentIssue))
                   (getMoveAnchors targetIds activeId) (beginSettle s1)))"

text \<open>A drop under the manual order, after the columns have been brought to \<open>finalColumns\<close>.\<close>

definition drop_at_position ::
  "property_read \<Rightarrow> jstr \<Rightarrow> jstr list \<Rightarrow> board_group \<Rightarrow> board_state \<Rightarrow> board_state" where
  "drop_at_position pv activeId finalIds finalGroup s =
     (let newPosition = computePosition finalIds activeId (bs_map s) in
      if (case map_get (bs_map s) activeId of
            None \<Rightarrow> False
          | Some currentIssue \<Rightarrow>
              issueMatchesGroup pv currentIssue finalGroup \<and> iss_position currentIssue = newPosition)
      then s
      else applyPropertyGroupValue finalGroup activeId
             (moveIssue activeId (getMoveUpdates finalGroup newPosition) (getMoveAnchors finalIds activeId)
               (beginSettle s)))"

text \<open>\<open>groupMap.get\<close>: the last group with the identifier.\<close>

definition find_group :: "board_props \<Rightarrow> jstr \<Rightarrow> board_group option" where
  "find_group p c = find (\<lambda>g. bg_id g = c) (rev (bp_groups p))"

definition handleDragEnd ::
  "jstr array_mover \<Rightarrow> property_read \<Rightarrow> jstr \<Rightarrow> jstr option \<Rightarrow> board_state \<Rightarrow> board_error + board_state" where
  "handleDragEnd am pv activeId hovered s0 =
     (let s = s0\<lparr>bs_dragging := False, bs_active := None\<rparr>;
          gids = group_ids (bs_props s); cols = bs_columns s;
          manual = (bp_sort_by (bs_props s) = ''position'')
      in case hovered of
        None \<Rightarrow> Inr (resetColumns pv s)
      | Some overId \<Rightarrow>
          (case (named (findColumn cols activeId gids), named (findColumn cols overId gids)) of
             (Some activeCol, Some overCol) \<Rightarrow>
               (case (if activeCol = overCol \<and> manual then reorder am cols activeId overId activeCol
                      else Inr cols) of
                  Inl e \<Rightarrow> Inl e
                | Inr finalColumns \<Rightarrow>
                    let s1 = setColumns finalColumns s;
                        finalCol = named (if manual then findColumn finalColumns activeId gids else Some overCol)
                    in case finalCol of
                      None \<Rightarrow> Inr (resetColumns pv s1)
                    | Some fc \<Rightarrow>
                        (case find_group (bs_props s) fc of
                           None \<Rightarrow> Inr (resetColumns pv s1)
                         | Some finalGroup \<Rightarrow>
                             if \<not> manual then Inr (drop_by_group pv activeId activeCol overCol finalGroup s1)
                             else (case obj_get finalColumns fc of
                                     None \<Rightarrow> Inl TypeError
                                   | Some finalIds \<Rightarrow> Inr (drop_at_position pv activeId finalIds finalGroup s1))))
           | _ \<Rightarrow> Inr (resetColumns pv s)))"

section \<open>The handlers of the list\<close>

definition list_columns :: "property_read \<Rightarrow> board_props \<Rightarrow> columns" where
  "list_columns pv p = buildColumns pv (bp_issues p) (bp_groups p) ''status'' None"

definition list_reset :: "property_read \<Rightarrow> board_state \<Rightarrow> board_state" where
  "list_reset pv s = setColumns (list_columns pv (bs_props s)) s"

definition list_drag_over :: "jstr \<Rightarrow> jstr option \<Rightarrow> board_state \<Rightarrow> board_error + board_state" where
  "list_drag_over activeId hovered s =
     (case hovered of
        None \<Rightarrow> Inr s
      | Some overId \<Rightarrow>
          if bs_recent s then Inr s
          else
            let gids = group_ids (bs_props s); prev = bs_columns s;
                activeCol = named (findColumn prev activeId gids);
                overCol = named (findColumn prev overId gids)
            in if activeCol = None \<or> overCol = None \<or> activeCol = overCol then Inr s
               else if bp_sort_by (bs_props s) \<noteq> ''position'' then Inr s
               else (case move_over prev activeId overId (the activeCol) (the overCol) of
                       Inl e \<Rightarrow> Inl e
                     | Inr nxt \<Rightarrow> Inr (setColumns nxt (s\<lparr>bs_recent := True\<rparr>))))"

definition list_drop_by_group ::
  "property_read \<Rightarrow> jstr \<Rightarrow> jstr \<Rightarrow> jstr \<Rightarrow> board_group \<Rightarrow> board_state \<Rightarrow> board_state" where
  "list_drop_by_group pv activeId activeCol finalCol finalGroup s =
     (case map_get (bs_map s) activeId of
        None \<Rightarrow> list_reset pv s
      | Some currentIssue \<Rightarrow>
          if issueMatchesGroup pv currentIssue finalGroup then list_reset pv s
          else
            let cols = bs_columns s;
                ids = (case obj_get cols finalCol of None \<Rightarrow> [] | Some xs \<Rightarrow> xs);
                targetIds = insertIdByPosition (filter (\<lambda>x. x \<noteq> activeId) ids) activeId
                  (iss_position currentIssue) (bs_map s);
                fromIds = filter (\<lambda>x. x \<noteq> activeId) (case obj_get cols activeCol of None \<Rightarrow> [] | Some xs \<Rightarrow> xs);
                s1 = setColumns (obj_set finalCol targetIds (obj_set activeCol fromIds cols)) s
            in moveIssue activeId (getMoveUpdates finalGroup (iss_position currentIssue))
                 (getMoveAnchors targetIds activeId) (beginSettle s1))"

definition list_drop_at_position ::
  "property_read \<Rightarrow> jstr \<Rightarrow> jstr list \<Rightarrow> board_group \<Rightarrow> board_state \<Rightarrow> board_state" where
  "list_drop_at_position pv activeId finalIds finalGroup s =
     (let newPosition = computePosition finalIds activeId (bs_map s);
          currentIssue = map_get (bs_map s) activeId
      in if currentIssue \<noteq> None \<and> issueMatchesGroup pv (the currentIssue) finalGroup
            \<and> iss_position (the currentIssue) = newPosition
         then s
         else moveIssue activeId (getMoveUpdates finalGroup newPosition) (getMoveAnchors finalIds activeId)
                (beginSettle s))"

text \<open>\<open>canMove\<close> tells whether the list was given \<open>onMoveIssue\<close>.\<close>

definition list_drag_end ::
  "jstr array_mover \<Rightarrow> property_read \<Rightarrow> bool \<Rightarrow> jstr \<Rightarrow> jstr option \<Rightarrow> board_state \<Rightarrow> board_error + board_state" where
  "list_drag_end am pv canMove activeId hovered s0 =
     (let s = s0\<lparr>bs_dragging := False, bs_active := None\<rparr>;
          gids = group_ids (bs_props s); cols = bs_columns s
      in if hovered = None \<or> \<not> canMove then Inr (list_reset pv s)
         else
           let overId = the hovered;
               activeCol = named (findColumn cols activeId gids); overCol = named (findColumn cols overId gids)
           in if activeCol = None \<or> overCol = None then Inr (list_reset pv s)
              else
                case (if activeCol = overCol \<and> bp_sort_by (bs_props s) = ''position''
                      then reorder am cols activeId overId (the activeCol) else Inr cols) of
                  Inl e \<Rightarrow> Inl e
                | Inr finalColumns \<Rightarrow>
                    let s1 = setColumns finalColumns s;
                        finalCol = (if bp_sort_by (bs_props s) = ''position''
                          then named (findColumn finalColumns activeId gids) else overCol)
                    in case finalCol of
                      None \<Rightarrow> Inr (list_reset pv s1)
                    | Some fc \<Rightarrow>
                        (case find_group (bs_props s) fc of
                           None \<Rightarrow> Inr (list_reset pv s1)
                         | Some finalGroup \<Rightarrow>
                             if bp_sort_by (bs_props s) \<noteq> ''position''
                             then Inr (list_drop_by_group pv activeId (the activeCol) fc finalGroup s1)
                             else (case obj_get finalColumns fc of
                                     None \<Rightarrow> Inl TypeError
                                   | Some finalIds \<Rightarrow> Inr (list_drop_at_position pv activeId finalIds finalGroup s1))))"

end
