(* ===== verification/Board_Laws.thy ===== *)
theory Board_Laws
  imports Board_Drag
begin

text \<open>
  What the column functions do to a column map: which cards it shows, how often, and where an
  inserted card stands.
\<close>

section \<open>The cards a column map shows\<close>

definition shown :: "columns \<Rightarrow> jstr list" where
  "shown cols = concat (map snd cols)"

lemma shown_Nil [simp]: "shown [] = []"
  by (simp add: shown_def)

lemma shown_Cons: "shown ((k, ids) # cols) = ids @ shown cols"
  by (simp add: shown_def)

lemma mset_shown_insert: "mset (shown (obj_insert k v cols)) = mset v + mset (shown cols)"
  by (induction k v cols rule: obj_insert.induct) (auto simp: shown_Cons)

lemma shown_replace_absent:
  "k \<notin> set (obj_keys cols) \<Longrightarrow> map (\<lambda>(k', v'). (k', if k' = k then v else v')) cols = cols"
  by (induction cols) (auto simp: obj_keys_def)

lemma mset_shown_replace:
  "obj_ok cols \<Longrightarrow> obj_get cols k = Some ids \<Longrightarrow>
   mset (shown (map (\<lambda>(k', v'). (k', if k' = k then v else v')) cols)) + mset ids = mset (shown cols) + mset v"
proof (induction cols)
  case (Cons c cols)
  obtain k' w where c: "c = (k', w)" by (cases c)
  from Cons.prems have ok: "obj_ok cols" by (simp add: obj_ok_def obj_keys_def)
  show ?case
  proof (cases "k' = k")
    case True
    with Cons.prems c have "k \<notin> set (obj_keys cols)" "w = ids"
      by (auto simp: obj_ok_def obj_keys_def obj_get_def)
    with True c show ?thesis by (simp add: shown_Cons shown_replace_absent)
  next
    case False
    with Cons.prems(2) c have "obj_get cols k = Some ids" by (simp add: obj_get_def)
    from Cons.IH [OF ok this] False c show ?thesis by (simp add: shown_Cons)
  qed
qed simp

lemma mset_shown_set:
  "obj_ok cols \<Longrightarrow> obj_get cols k = Some ids \<Longrightarrow>
   mset (shown (obj_set k v cols)) + mset ids = mset (shown cols) + mset v"
  using mset_shown_replace [of cols k ids v] by (simp add: obj_set_def obj_keys_get)

lemma mset_shown_new: "obj_get cols k = None \<Longrightarrow> mset (shown (obj_set k v cols)) = mset v + mset (shown cols)"
  by (simp add: obj_set_def obj_keys_get mset_shown_insert)

text \<open>A column that gets a rearrangement of its cards shows the same cards.\<close>

lemma mset_shown_same:
  "obj_ok cols \<Longrightarrow> obj_get cols k = Some ids \<Longrightarrow> mset v = mset ids \<Longrightarrow> mset (shown (obj_set k v cols)) = mset (shown cols)"
  using mset_shown_set [of cols k ids v] by simp

lemma shown_column: "obj_get cols k = Some ids \<Longrightarrow> set ids \<subseteq> set (shown cols)"
  by (auto simp: shown_def dest!: obj_get_in)

lemma distinct_column:
  assumes "obj_ok cols" "obj_get cols k = Some ids" "distinct (shown cols)"
  shows "distinct ids"
proof -
  from mset_shown_set [OF assms(1,2), of "[]"]
  have "mset (shown cols) = mset (shown (obj_set k [] cols) @ ids)" by simp
  with assms(3) have "distinct (shown (obj_set k [] cols) @ ids)" by (metis mset_eq_imp_distinct_iff)
  then show ?thesis by simp
qed

text \<open>A card is in one column at most.\<close>

lemma one_column:
  assumes "obj_ok cols" "distinct (shown cols)" "obj_get cols k = Some ids" "obj_get cols k' = Some ids'"
    "x \<in> set ids" "x \<in> set ids'"
  shows "k = k'"
proof (rule ccontr)
  assume "k \<noteq> k'"
  then have "obj_get (obj_set k [] cols) k' = Some ids'" using assms(4) by (simp add: obj_get_set)
  then have "x \<in> set (shown (obj_set k [] cols))" using assms(6) shown_column by fastforce
  then have "x \<in># mset (shown (obj_set k [] cols))" by simp
  moreover have "mset (shown (obj_set k [] cols)) + mset ids = mset (shown cols)"
    using mset_shown_set [OF assms(1,3), of "[]"] by simp
  moreover from assms(5) have "x \<in># mset ids" by simp
  ultimately have "count (mset (shown cols)) x \<ge> 2"
    by (metis Suc_1 Suc_leI add_mono count_greater_eq_one_iff count_union one_add_one)
  moreover have "count (mset (shown cols)) x \<le> 1"
    using assms(2) by (simp add: distinct_count_atmost_1)
  ultimately show False by simp
qed

section \<open>Finding a column\<close>

lemma findColumn_group: "k \<in> set gids \<Longrightarrow> findColumn cols k gids = Some k"
  by (simp add: findColumn_def)

lemma findColumn_card:
  assumes "findColumn cols k gids = Some c" "k \<notin> set gids" "obj_ok cols"
  obtains ids where "obj_get cols c = Some ids" "k \<in> set ids"
proof -
  from assms(1,2) obtain ids where "(c, ids) \<in> set cols" "k \<in> set ids"
    by (auto simp: findColumn_def dest: find_in_set)
  with assms(3) that show ?thesis by (blast dest: obj_in_get)
qed

lemma findColumn_shown:
  assumes "k \<notin> set gids" "obj_ok cols" "distinct (shown cols)" "obj_get cols c = Some ids" "k \<in> set ids"
  shows "findColumn cols k gids = Some c"
proof -
  from obj_get_in [OF assms(4)] assms(5)
  have "find (\<lambda>(c, ids). k \<in> set ids) cols \<noteq> None" by (auto simp: find_None_iff)
  then obtain c' ids' where f: "find (\<lambda>(c, ids). k \<in> set ids) cols = Some (c', ids')" by auto
  then have "obj_get cols c' = Some ids'" "k \<in> set ids'"
    using assms(2) by (auto dest!: find_in_set intro: obj_in_get)
  with one_column [OF assms(2,3,4) _ assms(5)] have "c' = c" by blast
  with f assms(1) show ?thesis by (simp add: findColumn_def)
qed

section \<open>Building the columns\<close>

definition empty_columns :: "board_group list \<Rightarrow> columns" where
  "empty_columns groups = fold (\<lambda>g. obj_set (bg_id g) []) groups []"

lemma obj_ok_push: "obj_ok cols \<Longrightarrow> obj_ok (push_id g x cols)"
  by (simp add: push_id_def obj_ok_set split: option.splits)

lemma get_push:
  "obj_get (push_id g x cols) k = (if k = g then map_option (\<lambda>ids. ids @ [x]) (obj_get cols k) else obj_get cols k)"
  by (simp add: push_id_def obj_get_set split: option.splits)

lemma empty_columns_acc:
  fixes cols :: columns
  shows "obj_ok cols \<Longrightarrow> obj_ok (fold (\<lambda>g. obj_set (bg_id g) []) groups cols) \<and>
   obj_get (fold (\<lambda>g. obj_set (bg_id g) []) groups cols) k =
     (if k \<in> bg_id ` set groups then Some [] else obj_get cols k)"
  by (induction groups arbitrary: cols) (auto simp: obj_ok_set obj_get_set)

lemma empty_columns:
  "obj_ok (empty_columns groups)"
  "obj_get (empty_columns groups) k = (if k \<in> bg_id ` set groups then Some [] else None)"
  using empty_columns_acc [of "[]" groups k] by (simp_all add: empty_columns_def)

lemma build_acc:
  "obj_ok cols \<Longrightarrow>
   obj_ok (fold (\<lambda>i. push_id (g i) (iss_id i)) issues cols) \<and>
   obj_get (fold (\<lambda>i. push_id (g i) (iss_id i)) issues cols) k =
     map_option (\<lambda>ids. ids @ map iss_id (filter (\<lambda>i. g i = k) issues)) (obj_get cols k)"
proof (induction issues arbitrary: cols)
  case (Cons i issues)
  from Cons.IH [OF obj_ok_push [OF Cons.prems]] show ?case by (auto simp: get_push option.map_comp comp_def)
qed (simp add: option.map_ident)

lemma buildColumns_ok: "obj_ok (buildColumns pv issues groups grouping known)"
  using build_acc [OF empty_columns(1) [of groups], where g = "\<lambda>i. getIssueGroupId pv i grouping known"
      and issues = issues]
  by (simp add: buildColumns_def empty_columns_def)

lemma buildColumns_get:
  "obj_get (buildColumns pv issues groups grouping known) k =
     (if k \<in> bg_id ` set groups
      then Some (map iss_id (filter (\<lambda>i. getIssueGroupId pv i grouping known = k) issues)) else None)"
  using build_acc [OF empty_columns(1) [of groups], where k = k
      and g = "\<lambda>i. getIssueGroupId pv i grouping known" and issues = issues] empty_columns(2) [of groups k]
  by (simp add: buildColumns_def empty_columns_def)

text \<open>The built columns show the issues that have a column, each once.\<close>

lemma mset_shown_push:
  assumes "obj_ok cols"
  shows "mset (shown (push_id g x cols)) = (if obj_get cols g = None then mset (shown cols) else add_mset x (mset (shown cols)))"
proof (cases "obj_get cols g")
  case (Some ids)
  from mset_shown_set [OF assms Some, of "ids @ [x]"] Some show ?thesis by (simp add: push_id_def)
qed (simp add: push_id_def)

lemma mset_shown_build_acc:
  "obj_ok cols \<Longrightarrow>
   mset (shown (fold (\<lambda>i. push_id (g i) (iss_id i)) issues cols)) =
     mset (shown cols) + mset (map iss_id (filter (\<lambda>i. obj_get cols (g i) \<noteq> None) issues))"
proof (induction issues arbitrary: cols)
  case (Cons i issues)
  have "obj_get (push_id (g i) (iss_id i) cols) k = None \<longleftrightarrow> obj_get cols k = None" for k
    by (simp add: get_push)
  with Cons.IH [OF obj_ok_push [OF Cons.prems, of "g i" "iss_id i"]] show ?case
    by (simp add: mset_shown_push [OF Cons.prems])
qed simp

lemma shown_empty_columns: "shown (empty_columns groups) = []"
proof -
  have "\<forall>ids \<in> snd ` set (fold (\<lambda>g. obj_set (bg_id g) []) groups cols). ids = []"
    if "\<forall>ids \<in> snd ` set cols. ids = []" for cols :: columns
    using that
  proof (induction groups arbitrary: cols)
    case (Cons g groups)
    from Cons.prems set_obj_set [of "bg_id g" "[]" cols]
    have "\<forall>ids \<in> snd ` set (obj_set (bg_id g) [] cols). ids = []" by fastforce
    from Cons.IH [OF this] show ?case by simp
  qed simp
  from this [of "[]"] show ?thesis by (auto simp: shown_def empty_columns_def)
qed

lemma mset_shown_build:
  "mset (shown (buildColumns pv issues groups grouping known)) =
     mset (map iss_id (filter (\<lambda>i. getIssueGroupId pv i grouping known \<in> bg_id ` set groups) issues))"
  using mset_shown_build_acc [OF empty_columns(1) [of groups], where issues = issues
      and g = "\<lambda>i. getIssueGroupId pv i grouping known"]
  by (simp add: buildColumns_def empty_columns_def [symmetric] empty_columns(2) shown_empty_columns cong: filter_cong)

lemma distinct_shown_build:
  assumes "distinct (map iss_id issues)"
  shows "distinct (shown (buildColumns pv issues groups grouping known))"
proof -
  have "distinct (map iss_id (filter (\<lambda>i. getIssueGroupId pv i grouping known \<in> bg_id ` set groups) issues))"
    using assms by (rule distinct_map_filter)
  with mset_shown_build [of pv issues groups grouping known] show ?thesis by (metis mset_eq_imp_distinct_iff)
qed

lemma shown_build_subset: "set (shown (buildColumns pv issues groups grouping known)) \<subseteq> iss_id ` set issues"
  using arg_cong [OF mset_shown_build, of set_mset pv issues groups grouping known] by auto

section \<open>The guarded setter\<close>

lemma columnsEqual_get:
  assumes "columnsEqual a b" "obj_ok a" "obj_ok b"
  shows "obj_get a k = obj_get b k"
proof -
  have both: "obj_get b x = obj_get a x \<and> obj_get b x \<noteq> None" if "x \<in> set (obj_keys a)" for x
  proof -
    from assms(1) that have "case (obj_get a x, obj_get b x) of (Some av, Some bv) \<Rightarrow> av = bv | _ \<Rightarrow> False"
      by (simp add: columnsEqual_def list_all_iff)
    then show ?thesis by (simp split: option.splits)
  qed
  then have sub: "x \<in> set (obj_keys a) \<Longrightarrow> obj_get b x = obj_get a x" for x by blast
  from both have "set (obj_keys a) \<subseteq> set (obj_keys b)" by (auto simp: obj_keys_get)
  moreover have "card (set (obj_keys a)) = card (set (obj_keys b))"
    using assms by (simp add: columnsEqual_def obj_ok_def distinct_card)
  ultimately have same: "set (obj_keys a) = set (obj_keys b)" by (simp add: card_subset_eq)
  show ?thesis
  proof (cases "k \<in> set (obj_keys a)")
    case True
    then show ?thesis by (simp add: sub)
  next
    case False
    with same have "obj_get a k = None" "obj_get b k = None" by (metis obj_keys_get)+
    then show ?thesis by simp
  qed
qed

text \<open>Column maps with the same content show the same cards.\<close>

lemma mset_shown_keys:
  assumes "obj_ok cols"
  shows "mset (shown cols) = (\<Sum>k\<in>set (obj_keys cols). mset (case obj_get cols k of None \<Rightarrow> [] | Some ids \<Rightarrow> ids))"
  using assms
proof (induction cols)
  case (Cons c cols)
  obtain k ids where c: "c = (k, ids)" by (cases c)
  from Cons.prems have ok: "obj_ok cols" by (simp add: obj_ok_def obj_keys_def)
  from Cons.prems c have new: "k \<notin> set (obj_keys cols)" by (simp add: obj_ok_def obj_keys_def)
  have "(\<Sum>x\<in>set (obj_keys cols). mset (case obj_get (c # cols) x of None \<Rightarrow> [] | Some ids \<Rightarrow> ids))
      = (\<Sum>x\<in>set (obj_keys cols). mset (case obj_get cols x of None \<Rightarrow> [] | Some ids \<Rightarrow> ids))"
    using new c by (intro sum.cong) (auto simp: obj_get_def)
  with Cons.IH [OF ok] new c show ?case by (simp add: shown_Cons obj_keys_def obj_get_def)
qed (simp add: obj_keys_def)

lemma mset_shown_cong:
  assumes "obj_ok a" "obj_ok b" "\<And>k. obj_get a k = obj_get b k"
  shows "mset (shown a) = mset (shown b)"
proof -
  have "set (obj_keys a) = set (obj_keys b)" using assms(3) by (auto simp: obj_keys_get)
  with assms show ?thesis by (simp add: mset_shown_keys)
qed

definition cols_ok :: "columns \<Rightarrow> bool" where
  "cols_ok cols = (obj_ok cols \<and> distinct (shown cols))"

lemma setColumns_get:
  "obj_ok (bs_columns s) \<Longrightarrow> obj_ok nxt \<Longrightarrow> obj_get (bs_columns (setColumns nxt s)) k = obj_get nxt k"
  by (simp add: setColumns_def columnsEqual_get)

lemma setColumns_ok: "obj_ok (bs_columns s) \<Longrightarrow> obj_ok nxt \<Longrightarrow> obj_ok (bs_columns (setColumns nxt s))"
  by (simp add: setColumns_def)

lemma setColumns_shown:
  assumes "obj_ok (bs_columns s)" "obj_ok nxt"
  shows "mset (shown (bs_columns (setColumns nxt s))) = mset (shown nxt)"
  using assms by (intro mset_shown_cong setColumns_ok setColumns_get)

lemma setColumns_fields [simp]:
  "bs_props (setColumns c s) = bs_props s" "bs_map (setColumns c s) = bs_map s"
  "bs_active (setColumns c s) = bs_active s" "bs_dragging (setColumns c s) = bs_dragging s"
  "bs_settling (setColumns c s) = bs_settling s" "bs_recent (setColumns c s) = bs_recent s"
  "bs_version (setColumns c s) = bs_version s" "bs_pointer (setColumns c s) = bs_pointer s"
  "bs_next (setColumns c s) = bs_next s" "bs_latest (setColumns c s) = bs_latest s"
  "bs_inflight (setColumns c s) = bs_inflight s" "bs_sent (setColumns c s) = bs_sent s"
  "bs_error (setColumns c s) = bs_error s"
  by (simp_all add: setColumns_def)

end
