(* ===== verification/Board_Machine.thy ===== *)
theory Board_Machine
  imports Board_Laws Machines
begin

text \<open>
  The board as a machine: renders, the calls of the drag library, animation frames, writes from
  the menus of the cards and the ends of writes, in any order. Every event leaves each card in at most one
  column, and the events of a drag neither lose nor double a card.
\<close>

section \<open>Events\<close>

datatype board_event =
    Render "issue list" "board_group list" jstr "jstr list option"
  | SortBy jstr
  | DragStart jstr
  | DragOver jstr "jstr option"
  | DragEnd jstr "jstr option"
  | DragCancel
  | Frame
  | MenuUpdate jstr issue_patch
  | Settled nat

definition caught :: "board_state \<Rightarrow> board_error + board_state \<Rightarrow> board_state" where
  "caught s r = (case r of Inl e \<Rightarrow> s\<lparr>bs_error := Some e\<rparr> | Inr s' \<Rightarrow> s')"

definition render_props :: "property_read \<Rightarrow> board_props \<Rightarrow> board_state \<Rightarrow> board_state" where
  "render_props pv p s = resync pv (rerender (s\<lparr>bs_props := p\<rparr>))"

definition settled :: "property_read \<Rightarrow> (nat \<Rightarrow> nat option \<Rightarrow> bool) \<Rightarrow> nat \<Rightarrow> board_state \<Rightarrow> board_state" where
  "settled pv fires n s =
     (let s1 = s\<lparr>bs_inflight := filter (\<lambda>(m, _). m \<noteq> n) (bs_inflight s)\<rparr> in
      if (n, True) \<in> set (bs_inflight s) \<and> fires n (bs_latest s) then settle_callback pv s1 else s1)"

fun board_step ::
  "jstr array_mover \<Rightarrow> property_read \<Rightarrow> (nat \<Rightarrow> nat option \<Rightarrow> bool) \<Rightarrow> board_state \<Rightarrow> board_event \<Rightarrow> board_state" where
  "board_step am pv fires s (Render issues groups grouping known) =
     render_props pv \<lparr>bp_issues = issues, bp_groups = groups, bp_grouping = grouping, bp_options = known,
       bp_sort_by = bp_sort_by (bs_props s)\<rparr> s"
| "board_step am pv fires s (SortBy k) = rerender (s\<lparr>bs_props := (bs_props s)\<lparr>bp_sort_by := k\<rparr>\<rparr>)"
| "board_step am pv fires s (DragStart a) = (handleDragStart a s)\<lparr>bs_pointer := Some a\<rparr>"
| "board_step am pv fires s (DragOver a ov) = caught s (handleDragOver a ov s)"
| "board_step am pv fires s (DragEnd a ov) =
     caught s (map_sum id rerender (handleDragEnd am pv a ov (s\<lparr>bs_pointer := None\<rparr>)))"
| "board_step am pv fires s DragCancel = s\<lparr>bs_pointer := None\<rparr>"
| "board_step am pv fires s Frame = s\<lparr>bs_recent := False\<rparr>"
| "board_step am pv fires s (MenuUpdate k patch) = updateIssue k patch s"
| "board_step am pv fires s (Settled n) = settled pv fires n s"

text \<open>Identifiers of issues hold no colon; those of columns do.\<close>

definition plain_id :: "jstr \<Rightarrow> bool" where
  "plain_id k = (CHR '':'' \<notin> set k)"

definition props_ok :: "board_props \<Rightarrow> bool" where
  "props_ok p = (distinct (map iss_id (bp_issues p)) \<and> list_all (\<lambda>i. plain_id (iss_id i)) (bp_issues p)
     \<and> distinct (map bg_id (bp_groups p)) \<and> list_all (\<lambda>g. \<not> plain_id (bg_id g)) (bp_groups p))"

text \<open>What the drag library documents of \<open>arrayMove\<close>, on the columns of the board.\<close>

definition moves_item :: "'a array_mover \<Rightarrow> 'a list \<Rightarrow> bool" where
  "moves_item am ids = list_all (\<lambda>i. list_all (\<lambda>j. am ids i j = insert_nth j (ids ! i) (remove_nth i ids))
     [0..<length ids]) [0..<length ids]"

definition move_item :: "'a array_mover" where
  "move_item xs i j = insert_nth j (xs ! i) (remove_nth i xs)"

lemma moves_itemD:
  "moves_item am ids \<Longrightarrow> i < length ids \<Longrightarrow> j < length ids \<Longrightarrow> am ids i j = move_item ids i j"
  by (simp add: moves_item_def list_all_iff move_item_def)

lemma moves_move_item [simp]: "moves_item move_item ids"
  by (simp add: moves_item_def list_all_iff move_item_def)

lemma mset_move_item: "i < length xs \<Longrightarrow> mset (move_item xs i j) = mset xs"
  by (metis move_item_def mset_insert_nth mset_remove_nth)

fun event_ok :: "jstr array_mover \<Rightarrow> board_state \<Rightarrow> board_event \<Rightarrow> bool" where
  "event_ok am s (Render issues groups grouping known) =
     props_ok \<lparr>bp_issues = issues, bp_groups = groups, bp_grouping = grouping, bp_options = known,
       bp_sort_by = bp_sort_by (bs_props s)\<rparr>"
| "event_ok am s (DragStart a) = (bs_pointer s = None \<and> a \<in> set (shown (bs_columns s)))"
| "event_ok am s (DragOver a ov) = (bs_pointer s = Some a)"
| "event_ok am s (DragEnd a ov) = (bs_pointer s = Some a \<and> list_all (\<lambda>(k, ids). moves_item am ids) (bs_columns s))"
| "event_ok am s DragCancel = (bs_pointer s \<noteq> None)"
| "event_ok am s (Settled n) = (n \<in> fst ` set (bs_inflight s))"
| "event_ok am s _ = True"

definition board_enabled :: "jstr array_mover \<Rightarrow> board_state \<Rightarrow> board_event \<Rightarrow> bool" where
  "board_enabled am s e = (bs_error s = None \<and> event_ok am s e)"

text \<open>The board mounts with the columns of its first props.\<close>

definition mounted :: "property_read \<Rightarrow> board_props \<Rightarrow> board_state" where
  "mounted pv p = \<lparr>bs_props = p, bs_columns = props_columns pv p, bs_map = issue_map_of (bp_issues p),
     bs_active = None, bs_dragging = False, bs_settling = False, bs_recent = False, bs_version = 0,
     bs_pointer = None, bs_next = 0, bs_latest = None, bs_inflight = [], bs_sent = [], bs_error = None\<rparr>"

definition board_start :: "property_read \<Rightarrow> board_state \<Rightarrow> bool" where
  "board_start pv s = (\<exists>p. props_ok p \<and> s = mounted pv p)"

section \<open>What a drag does to the cards\<close>

definition keeps_cards :: "columns \<Rightarrow> columns \<Rightarrow> bool" where
  "keeps_cards a b = (obj_ok b \<and> mset (shown b) = mset (shown a))"

lemma keeps_cards_refl: "obj_ok a \<Longrightarrow> keeps_cards a a"
  by (simp add: keeps_cards_def)

lemma keeps_cards_trans: "keeps_cards a b \<Longrightarrow> keeps_cards b c \<Longrightarrow> keeps_cards a c"
  by (simp add: keeps_cards_def)

lemma keeps_distinct: "keeps_cards a b \<Longrightarrow> distinct (shown a) \<Longrightarrow> distinct (shown b)"
  unfolding keeps_cards_def by (metis mset_eq_imp_distinct_iff)

lemma keeps_set: "keeps_cards a b \<Longrightarrow> set (shown b) = set (shown a)"
  unfolding keeps_cards_def by (metis set_mset_mset)

lemma keeps_setColumns: "obj_ok (bs_columns s) \<Longrightarrow> keeps_cards (bs_columns s) nxt \<Longrightarrow> keeps_cards (bs_columns s) (bs_columns (setColumns nxt s))"
  by (simp only: keeps_cards_def setColumns_ok setColumns_shown)

lemma mset_filter_other:
  "distinct ids \<Longrightarrow> x \<in> set ids \<Longrightarrow> mset ids = add_mset x (mset (filter (\<lambda>y. y \<noteq> x) ids))"
proof (induction ids)
  case (Cons y ids)
  show ?case
  proof (cases "y = x")
    case True
    with Cons.prems have "filter (\<lambda>z. z \<noteq> x) ids = ids" by (auto simp: filter_id_conv)
    with True show ?thesis by simp
  next
    case False
    with Cons show ?thesis by simp
  qed
qed simp

text \<open>Moving a card from its column to another one.\<close>

lemma keeps_transfer:
  assumes ok: "obj_ok cols" "distinct (shown cols)"
    and src: "obj_get cols c = Some ids" "x \<in> set ids"
    and dst: "c' \<noteq> c" "mset target = add_mset x (mset (case obj_get cols c' of None \<Rightarrow> [] | Some xs \<Rightarrow> xs))"
  shows "keeps_cards cols (obj_set c' target (obj_set c (filter (\<lambda>y. y \<noteq> x) ids) cols))"
proof -
  let ?mid = "obj_set c (filter (\<lambda>y. y \<noteq> x) ids) cols"
  have okm: "obj_ok ?mid" by (simp add: ok(1) obj_ok_set)
  have "mset ids = add_mset x (mset (filter (\<lambda>y. y \<noteq> x) ids))"
    by (rule mset_filter_other [OF distinct_column [OF ok(1) src(1) ok(2)] src(2)])
  then have "mset (shown ?mid) + add_mset x (mset (filter (\<lambda>y. y \<noteq> x) ids))
      = mset (shown cols) + mset (filter (\<lambda>y. y \<noteq> x) ids)"
    using mset_shown_set [OF ok(1) src(1), of "filter (\<lambda>y. y \<noteq> x) ids"] by (simp only:)
  then have mid: "add_mset x (mset (shown ?mid)) = mset (shown cols)" by simp
  have get: "obj_get ?mid c' = obj_get cols c'" using dst(1) by (simp add: obj_get_set)
  have "mset (shown (obj_set c' target ?mid)) = mset (shown cols)"
  proof (cases "obj_get cols c'")
    case None
    then have "obj_get ?mid c' = None" "mset target = {#x#}" using get dst(2) by simp_all
    with mset_shown_new [of ?mid c' target] mid show ?thesis by simp
  next
    case (Some xs)
    then have "obj_get ?mid c' = Some xs" "mset target = add_mset x (mset xs)" using get dst(2) by simp_all
    with mset_shown_set [OF okm, of c' xs target]
    have "mset (shown (obj_set c' target ?mid)) + mset xs = mset (shown ?mid) + add_mset x (mset xs)" by (simp only:)
    also have "\<dots> = add_mset x (mset (shown ?mid)) + mset xs" by simp
    finally show ?thesis using mid by (simp only: add_right_cancel)
  qed
  with okm show ?thesis by (simp add: keeps_cards_def obj_ok_set)
qed

lemma mset_insertIdByPosition: "mset (insertIdByPosition ids k position m) = add_mset k (mset ids)"
proof -
  have "mset (take n ids) + mset (drop n ids) = mset ids" for n
    by (metis append_take_drop_id mset_append)
  then show ?thesis by (simp add: insertIdByPosition_def split: option.splits)
qed

lemma keeps_move_over:
  assumes "cols_ok prev" "activeId \<notin> set gids" "findColumn prev activeId gids = Some c" "c' \<noteq> c"
    "move_over prev activeId ov c c' = Inr nxt"
  shows "keeps_cards prev nxt"
proof -
  have ok: "obj_ok prev" "distinct (shown prev)" using assms(1) by (simp_all add: cols_ok_def)
  obtain ids where ids: "obj_get prev c = Some ids" "activeId \<in> set ids"
    by (rule findColumn_card [OF assms(3,2) ok(1)])
  with assms(5) obtain xs n where xs: "obj_get prev c' = Some xs"
    and nxt: "nxt = obj_set c' (insert_nth n activeId xs) (obj_set c (filter (\<lambda>y. y \<noteq> activeId) ids) prev)"
    by (auto simp: move_over_def Let_def split: option.splits)
  have "mset (insert_nth n activeId xs) = add_mset activeId (mset (case obj_get prev c' of None \<Rightarrow> [] | Some xs \<Rightarrow> xs))"
    by (simp add: xs mset_insert_nth)
  from keeps_transfer [OF ok ids assms(4) this] show ?thesis by (simp add: nxt)
qed

lemma keeps_reorder:
  assumes "obj_ok cols" "list_all (\<lambda>(k, ids). moves_item am ids) cols" "reorder am cols a b c = Inr nxt"
  shows "keeps_cards cols nxt"
proof (cases "nxt = cols")
  case False
  with assms(3) obtain ids i j where c: "obj_get cols c = Some ids" "find_index (\<lambda>x. x = a) ids = Some i"
    "find_index (\<lambda>x. x = b) ids = Some j" and nxt: "nxt = obj_set c (am ids i j) cols"
    by (auto simp: reorder_def split: option.splits if_splits)
  have "i < length ids" "j < length ids" using c(2,3) by (blast dest: find_index_Some)+
  moreover have "moves_item am ids" using assms(2) obj_get_in [OF c(1)] by (auto simp: list_all_iff)
  ultimately have "mset (am ids i j) = mset ids" by (metis moves_itemD mset_move_item)
  with mset_shown_same [OF assms(1) c(1)] show ?thesis by (simp add: keeps_cards_def nxt assms(1) obj_ok_set)
qed (simp add: keeps_cards_refl assms(1))

section \<open>The handlers keep the cards\<close>

definition drag_outcome :: "property_read \<Rightarrow> board_state \<Rightarrow> columns \<Rightarrow> bool" where
  "drag_outcome pv s cols = (keeps_cards (bs_columns s) cols \<or> keeps_cards (props_columns pv (bs_props s)) cols)"

lemma props_columns_ok: "props_ok p \<Longrightarrow> cols_ok (props_columns pv p)"
  by (simp add: cols_ok_def props_columns_def buildColumns_ok distinct_shown_build props_ok_def)

lemma setColumns_self [simp]: "setColumns (bs_columns s) s = s"
  by (simp add: setColumns_def)

lemma outcome_reset:
  "obj_ok (bs_columns s) \<Longrightarrow> drag_outcome pv s (bs_columns (resetColumns pv s))"
  by (simp add: drag_outcome_def resetColumns_def keeps_cards_def setColumns_ok setColumns_shown
      props_columns_def buildColumns_ok)

lemma apply_fields [simp]:
  "bs_columns (applyPropertyGroupValue g k s) = bs_columns s" "bs_props (applyPropertyGroupValue g k s) = bs_props s"
  "bs_map (applyPropertyGroupValue g k s) = bs_map s" "bs_settling (applyPropertyGroupValue g k s) = bs_settling s"
  "bs_dragging (applyPropertyGroupValue g k s) = bs_dragging s" "bs_pointer (applyPropertyGroupValue g k s) = bs_pointer s"
  "bs_next (applyPropertyGroupValue g k s) = bs_next s" "bs_latest (applyPropertyGroupValue g k s) = bs_latest s"
  "bs_inflight (applyPropertyGroupValue g k s) = bs_inflight s" "bs_error (applyPropertyGroupValue g k s) = bs_error s"
  by (simp_all add: applyPropertyGroupValue_def split: option.splits)

lemma call_fields [simp]:
  "bs_columns (call_mutate r w s) = bs_columns s" "bs_props (call_mutate r w s) = bs_props s"
  "bs_map (call_mutate r w s) = bs_map s" "bs_settling (call_mutate r w s) = bs_settling s"
  "bs_dragging (call_mutate r w s) = bs_dragging s" "bs_pointer (call_mutate r w s) = bs_pointer s"
  "bs_error (call_mutate r w s) = bs_error s" "bs_next (call_mutate r w s) = bs_next s + 1"
  "bs_latest (call_mutate r w s) = Some (bs_next s)" "bs_inflight (call_mutate r w s) = bs_inflight s @ [(bs_next s, r)]"
  by (simp_all add: call_mutate_def)

lemma rerender_fields [simp]:
  "bs_columns (rerender s) = bs_columns s" "bs_props (rerender s) = bs_props s" "bs_settling (rerender s) = bs_settling s"
  "bs_dragging (rerender s) = bs_dragging s" "bs_pointer (rerender s) = bs_pointer s" "bs_next (rerender s) = bs_next s"
  "bs_latest (rerender s) = bs_latest s" "bs_inflight (rerender s) = bs_inflight s" "bs_error (rerender s) = bs_error s"
  "bs_sent (rerender s) = bs_sent s" "bs_recent (rerender s) = bs_recent s"
  by (simp_all add: rerender_def)

lemma outcome_drop_by_group:
  assumes ok: "cols_ok (bs_columns s)" and a: "a \<notin> set gids" "findColumn (bs_columns s) a gids = Some c"
  shows "drag_outcome pv s (bs_columns (drop_by_group pv a c c' g s))"
proof -
  have oks: "obj_ok (bs_columns s)" "distinct (shown (bs_columns s))" using ok by (simp_all add: cols_ok_def)
  obtain ids where ids: "obj_get (bs_columns s) c = Some ids" "a \<in> set ids"
    by (rule findColumn_card [OF a(2,1) oks(1)])
  define xs where "xs = (case obj_get (bs_columns s) c' of None \<Rightarrow> [] | Some xs \<Rightarrow> xs)"
  have keeps: "keeps_cards (bs_columns s)
     (obj_set c' (insertIdByPosition (filter (\<lambda>x. x \<noteq> a) xs) a p m) (obj_set c (filter (\<lambda>x. x \<noteq> a) ids) (bs_columns s)))" for p m
  proof (cases "c' = c")
    case True
    with ids(1) have xs: "xs = ids" by (simp add: xs_def)
    have "mset (insertIdByPosition (filter (\<lambda>x. x \<noteq> a) ids) a p m) = mset ids"
      unfolding mset_insertIdByPosition
      by (rule mset_filter_other [OF distinct_column [OF oks(1) ids(1) oks(2)] ids(2), symmetric])
    with mset_shown_same [OF oks(1) ids(1)] True xs show ?thesis
      by (simp add: keeps_cards_def obj_set_set obj_ok_set oks(1))
  next
    case False
    have "a \<notin> set xs"
    proof
      assume "a \<in> set xs"
      then obtain ys where "obj_get (bs_columns s) c' = Some ys" "a \<in> set ys" by (cases "obj_get (bs_columns s) c'") (auto simp: xs_def)
      from one_column [OF oks this(1) ids(1) this(2) ids(2)] False show False by simp
    qed
    then have f: "filter (\<lambda>x. x \<noteq> a) xs = xs" by (auto simp: filter_id_conv)
    show ?thesis unfolding f
      by (rule keeps_transfer [OF oks ids False]) (simp add: mset_insertIdByPosition xs_def)
  qed
  show ?thesis
  proof (cases "map_get (bs_map s) a")
    case None
    then show ?thesis by (simp add: drop_by_group_def outcome_reset oks(1))
  next
    case (Some i)
    then show ?thesis
      using keeps_setColumns [OF oks(1) keeps] outcome_reset [OF oks(1), of pv]
      by (simp add: drop_by_group_def Let_def moveIssue_def beginSettle_def ids(1) xs_def [symmetric] drag_outcome_def)
  qed
qed

lemma named_Some: "named c = Some d \<Longrightarrow> c = Some d"
  by (simp add: named_def split: if_splits)

lemma drop_at_columns [simp]: "bs_columns (drop_at_position pv a ids g s) = bs_columns s"
  by (simp add: drop_at_position_def Let_def moveIssue_def beginSettle_def)

lemma handleDragOver_outcome:
  assumes "cols_ok (bs_columns s)" "a \<notin> set (group_ids (bs_props s))" "handleDragOver a ov s = Inr s'"
  shows "keeps_cards (bs_columns s) (bs_columns s')"
proof -
  have ok: "obj_ok (bs_columns s)" using assms(1) by (simp add: cols_ok_def)
  show ?thesis
  proof (cases "s' = s")
    case False
    with assms(3) obtain ovId c c' nxt where
      c: "named (findColumn (bs_columns s) a (group_ids (bs_props s))) = Some c" "c \<noteq> c'"
      and nxt: "move_over (bs_columns s) a ovId c c' = Inr nxt" "s' = setColumns nxt (s\<lparr>bs_recent := True\<rparr>)"
      by (auto simp: handleDragOver_def Let_def split: option.splits if_splits sum.splits)
    have "keeps_cards (bs_columns s) nxt"
      by (rule keeps_move_over [OF assms(1,2) named_Some [OF c(1)] c(2) [symmetric] nxt(1)])
    with keeps_setColumns [of "s\<lparr>bs_recent := True\<rparr>" nxt] ok nxt(2) show ?thesis by simp
  qed (simp add: keeps_cards_refl ok)
qed

text \<open>How a drop ends: with a reset, a change of group, or a change of position.\<close>

lemma handleDragEnd_cases:
  assumes "handleDragEnd am pv a ov s = Inr s'"
    and t: "t = s\<lparr>bs_dragging := False, bs_active := None\<rparr>"
  obtains (reset) "s' = resetColumns pv t"
  | (go) ovId c c' fin where "ov = Some ovId"
      "named (findColumn (bs_columns t) a (group_ids (bs_props t))) = Some c"
      "named (findColumn (bs_columns t) ovId (group_ids (bs_props t))) = Some c'"
      "(if c = c' \<and> bp_sort_by (bs_props t) = ''position'' then reorder am (bs_columns t) a ovId c
        else Inr (bs_columns t)) = Inr fin"
      "s' = resetColumns pv (setColumns fin t) \<or>
       (\<exists>g. bp_sort_by (bs_props t) \<noteq> ''position'' \<and> find_group (bs_props t) c' = Some g
          \<and> s' = drop_by_group pv a c c' g (setColumns fin t)) \<or>
       (\<exists>fc ids g. bp_sort_by (bs_props t) = ''position''
          \<and> findColumn fin a (group_ids (bs_props t)) = Some fc \<and> find_group (bs_props t) fc = Some g
          \<and> obj_get fin fc = Some ids \<and> s' = drop_at_position pv a ids g (setColumns fin t))"
proof (cases ov)
  case None
  with assms show ?thesis by (auto simp: handleDragEnd_def intro: reset)
next
  case ov: (Some ovId)
  note unfolded = assms(1) [unfolded handleDragEnd_def t [symmetric] Let_def ov option.case]
  show ?thesis
  proof (cases "named (findColumn (bs_columns t) a (group_ids (bs_props t)))")
    case None
    with unfolded show ?thesis by (auto intro: reset)
  next
    case c: (Some c)
    show ?thesis
    proof (cases "named (findColumn (bs_columns t) ovId (group_ids (bs_props t)))")
      case None
      with c unfolded show ?thesis by (auto intro: reset)
    next
      case c': (Some c')
      define r where "r = (if c = c' \<and> bp_sort_by (bs_props t) = ''position'' then reorder am (bs_columns t) a ovId c
        else Inr (bs_columns t))"
      show ?thesis
      proof (cases r)
        case (Inl e)
        with unfolded c c' show ?thesis by (simp add: r_def [symmetric])
      next
        case fin: (Inr fin)
        show ?thesis
        proof (rule go [OF ov c c' fin [unfolded r_def]])
          show "s' = resetColumns pv (setColumns fin t) \<or>
            (\<exists>g. bp_sort_by (bs_props t) \<noteq> ''position'' \<and> find_group (bs_props t) c' = Some g
               \<and> s' = drop_by_group pv a c c' g (setColumns fin t)) \<or>
            (\<exists>fc ids g. bp_sort_by (bs_props t) = ''position''
               \<and> findColumn fin a (group_ids (bs_props t)) = Some fc \<and> find_group (bs_props t) fc = Some g
               \<and> obj_get fin fc = Some ids \<and> s' = drop_at_position pv a ids g (setColumns fin t))"
            using unfolded [unfolded c c' option.case prod.case, folded r_def, unfolded fin sum.case]
            by (cases "bp_sort_by (bs_props t) = ''position''")
              (auto dest!: named_Some split: option.splits)
        qed
      qed
    qed
  qed
qed

lemma handleDragEnd_outcome:
  assumes ok: "cols_ok (bs_columns s)" and a: "a \<notin> set (group_ids (bs_props s))"
    and am: "list_all (\<lambda>(k, ids). moves_item am ids) (bs_columns s)" and r: "handleDragEnd am pv a ov s = Inr s'"
  shows "drag_outcome pv s (bs_columns s')"
proof -
  define t where "t = s\<lparr>bs_dragging := False, bs_active := None\<rparr>"
  have t: "bs_columns t = bs_columns s" "bs_props t = bs_props s" by (simp_all add: t_def)
  have oks: "obj_ok (bs_columns t)" using ok by (simp add: cols_ok_def t)
  have same: "drag_outcome pv t cols = drag_outcome pv s cols" for cols by (simp add: drag_outcome_def t)
  have reset: "drag_outcome pv s (bs_columns (resetColumns pv t))" using outcome_reset [OF oks, of pv] by (simp add: same)
  show ?thesis
  proof (cases "s' = resetColumns pv t")
    case False
    from r t_def obtain ovId c c' fin where
      c: "named (findColumn (bs_columns t) a (group_ids (bs_props t))) = Some c"
      and fin: "(if c = c' \<and> bp_sort_by (bs_props t) = ''position'' then reorder am (bs_columns t) a ovId c
                 else Inr (bs_columns t)) = Inr fin"
      and s': "s' = resetColumns pv (setColumns fin t) \<or>
        (\<exists>g. bp_sort_by (bs_props t) \<noteq> ''position'' \<and> s' = drop_by_group pv a c c' g (setColumns fin t)) \<or>
        (\<exists>ids g. s' = drop_at_position pv a ids g (setColumns fin t))"
      by (rule handleDragEnd_cases) (use False in blast)+
    have keeps: "keeps_cards (bs_columns t) fin"
      using fin keeps_reorder [OF oks am [folded t(1)]] keeps_cards_refl [OF oks] by (auto split: if_splits)
    have s1: "keeps_cards (bs_columns t) (bs_columns (setColumns fin t))"
      by (rule keeps_setColumns [OF oks keeps])
    from s' show ?thesis
    proof (elim disjE exE conjE)
      assume eq: "s' = resetColumns pv (setColumns fin t)"
      have "obj_ok (bs_columns (setColumns fin t))" using s1 by (simp add: keeps_cards_def)
      from outcome_reset [OF this] s1 show ?thesis
        by (auto simp: eq drag_outcome_def t intro: keeps_cards_trans)
    next
      fix g
      assume ns: "bp_sort_by (bs_props t) \<noteq> ''position''" and eq: "s' = drop_by_group pv a c c' g (setColumns fin t)"
      from fin ns have "fin = bs_columns t" by (simp split: if_splits)
      then have "s' = drop_by_group pv a c c' g t" using eq by simp
      moreover have "drag_outcome pv t (bs_columns (drop_by_group pv a c c' g t))"
        by (rule outcome_drop_by_group [OF ok [folded t(1)] a [folded t(2)] named_Some [OF c]])
      ultimately show ?thesis by (simp add: same)
    next
      fix ids g
      assume "s' = drop_at_position pv a ids g (setColumns fin t)"
      with s1 show ?thesis by (simp add: drag_outcome_def t)
    qed
  qed (simp add: reset)
qed

text \<open>
  What every event of the board keeps: each card is in at most one column, and the calls of
  \<open>mutate\<close> under way are told apart. While no menu writes, the settle lock is held only as long as the
  latest call is under way.
\<close>

definition calls_ok :: "board_state \<Rightarrow> bool" where
  "calls_ok s = (distinct (map fst (bs_inflight s)) \<and> (\<forall>n \<in> fst ` set (bs_inflight s). n < bs_next s)
     \<and> (\<forall>l. bs_latest s = Some l \<longrightarrow> l < bs_next s))"

definition board_inv :: "board_state \<Rightarrow> bool" where
  "board_inv s = (props_ok (bs_props s) \<and> cols_ok (bs_columns s) \<and> (\<forall>x \<in> set (shown (bs_columns s)). plain_id x)
     \<and> (\<forall>a. bs_pointer s = Some a \<longrightarrow> plain_id a) \<and> calls_ok s)"

lemma board_invD:
  assumes "board_inv s"
  shows "props_ok (bs_props s)" "cols_ok (bs_columns s)" "obj_ok (bs_columns s)" "distinct (shown (bs_columns s))"
    "x \<in> set (shown (bs_columns s)) \<Longrightarrow> plain_id x" "bs_pointer s = Some a \<Longrightarrow> plain_id a" "calls_ok s"
  using assms by (simp_all add: board_inv_def cols_ok_def)

lemma plain_no_group: "props_ok p \<Longrightarrow> plain_id a \<Longrightarrow> a \<notin> set (group_ids p)"
  by (auto simp: props_ok_def group_ids_def list_all_iff)

lemma shown_props_plain: "props_ok p \<Longrightarrow> x \<in> set (shown (props_columns pv p)) \<Longrightarrow> plain_id x"
  using shown_build_subset [of pv "bp_issues p" "bp_groups p" "bp_grouping p" "bp_options p"]
  by (auto simp: props_ok_def list_all_iff props_columns_def)

text \<open>Columns that come out of a drag or of a resync are as good as those before.\<close>

lemma outcome_inv:
  assumes "board_inv s" "drag_outcome pv s cols"
  shows "cols_ok cols \<and> (\<forall>x \<in> set (shown cols). plain_id x)"
  using assms(2) unfolding drag_outcome_def
proof
  assume k: "keeps_cards (bs_columns s) cols"
  with board_invD(4,5) [OF assms(1)] show ?thesis
    by (auto simp: cols_ok_def keeps_set [OF k] keeps_distinct [OF k]) (simp add: keeps_cards_def)
next
  assume k: "keeps_cards (props_columns pv (bs_props s)) cols"
  with props_columns_ok [OF board_invD(1) [OF assms(1)], of pv] shown_props_plain [OF board_invD(1) [OF assms(1)], of _ pv]
  show ?thesis by (auto simp: cols_ok_def keeps_set [OF k] keeps_distinct [OF k]) (simp add: keeps_cards_def)
qed

lemma resync_outcome: "obj_ok (bs_columns s) \<Longrightarrow> drag_outcome pv s (bs_columns (resync pv s))"
  using outcome_reset [of s pv] by (auto simp: resync_def resetColumns_def drag_outcome_def keeps_cards_refl)

lemma resync_fields [simp]:
  "bs_props (resync pv s) = bs_props s" "bs_pointer (resync pv s) = bs_pointer s" "bs_next (resync pv s) = bs_next s"
  "bs_latest (resync pv s) = bs_latest s" "bs_inflight (resync pv s) = bs_inflight s" "bs_error (resync pv s) = bs_error s"
  "bs_settling (resync pv s) = bs_settling s" "bs_dragging (resync pv s) = bs_dragging s"
  "bs_recent (resync pv s) = bs_recent s" "bs_sent (resync pv s) = bs_sent s"
  by (simp_all add: resync_def)

text \<open>An event that leaves the fields of the mutations alone.\<close>

definition same_calls :: "board_state \<Rightarrow> board_state \<Rightarrow> bool" where
  "same_calls s s' = (bs_next s' = bs_next s \<and> bs_latest s' = bs_latest s \<and> bs_inflight s' = bs_inflight s)"

definition one_call :: "bool \<Rightarrow> board_state \<Rightarrow> board_state \<Rightarrow> bool" where
  "one_call r s s' = (bs_next s' = bs_next s + 1 \<and> bs_latest s' = Some (bs_next s)
     \<and> bs_inflight s' = bs_inflight s @ [(bs_next s, r)])"

lemma calls_same: "calls_ok s \<Longrightarrow> same_calls s s' \<Longrightarrow> calls_ok s'"
  by (simp add: calls_ok_def same_calls_def)

lemma calls_one: "calls_ok s \<Longrightarrow> one_call r s s' \<Longrightarrow> calls_ok s'"
  by (fastforce simp: calls_ok_def one_call_def)

lemma inv_with:
  assumes "board_inv s" "props_ok (bs_props s')" "drag_outcome pv s (bs_columns s')"
    "bs_pointer s' = None \<or> (\<exists>a. bs_pointer s' = Some a \<and> plain_id a)" "calls_ok s'"
  shows "board_inv s'"
  using outcome_inv [OF assms(1,3)] assms(2,4,5) by (auto simp: board_inv_def)

lemma outcome_same: "obj_ok (bs_columns s) \<Longrightarrow> drag_outcome pv s (bs_columns s)"
  by (simp add: drag_outcome_def keeps_cards_refl)

text \<open>The effect of a drop on the mutations: nothing, or one more call that ends a settle.\<close>

definition drop_calls :: "board_state \<Rightarrow> board_state \<Rightarrow> bool" where
  "drop_calls s s' = ((same_calls s s' \<and> bs_settling s' = bs_settling s) \<or> (one_call True s s' \<and> bs_settling s'))"

definition same_frame :: "board_state \<Rightarrow> board_state \<Rightarrow> bool" where
  "same_frame s s' = (bs_props s' = bs_props s \<and> bs_pointer s' = bs_pointer s \<and> bs_error s' = bs_error s)"

lemma handleDragOver_frame:
  "handleDragOver a ov s = Inr s' \<Longrightarrow>
   same_frame s s' \<and> same_calls s s' \<and> bs_settling s' = bs_settling s \<and> bs_dragging s' = bs_dragging s"
  by (auto simp: handleDragOver_def Let_def same_frame_def same_calls_def split: option.splits if_splits sum.splits)

lemma drop_by_group_frame:
  "same_frame s (drop_by_group pv a c c' g s) \<and> drop_calls s (drop_by_group pv a c c' g s)
   \<and> bs_dragging (drop_by_group pv a c c' g s) = bs_dragging s"
  by (simp add: drop_by_group_def Let_def same_frame_def drop_calls_def same_calls_def one_call_def resetColumns_def
      moveIssue_def beginSettle_def split: option.split)

lemma drop_at_position_frame:
  "same_frame s (drop_at_position pv a ids g s) \<and> drop_calls s (drop_at_position pv a ids g s)
   \<and> bs_dragging (drop_at_position pv a ids g s) = bs_dragging s"
  by (simp add: drop_at_position_def Let_def same_frame_def drop_calls_def same_calls_def one_call_def
      moveIssue_def beginSettle_def)

lemma frame_setColumns:
  "same_frame (setColumns c s) s' = same_frame s s'" "drop_calls (setColumns c s) s' = drop_calls s s'"
  by (simp_all add: same_frame_def drop_calls_def same_calls_def one_call_def)

lemma handleDragEnd_frame:
  assumes "handleDragEnd am pv a ov s = Inr s'"
  shows "same_frame s s' \<and> drop_calls s s' \<and> \<not> bs_dragging s'"
proof -
  define t where "t = s\<lparr>bs_dragging := False, bs_active := None\<rparr>"
  have drag: "\<not> bs_dragging t" by (simp add: t_def)
  have "same_frame t s' \<and> drop_calls t s' \<and> bs_dragging s' = bs_dragging t"
    using assms t_def
  proof (cases rule: handleDragEnd_cases)
    case reset
    then show ?thesis by (simp add: resetColumns_def same_frame_def drop_calls_def same_calls_def)
  next
    case (go ovId c c' fin)
    from go(5) show ?thesis
    proof (elim disjE exE conjE)
      assume "s' = resetColumns pv (setColumns fin t)"
      then show ?thesis by (simp add: resetColumns_def same_frame_def drop_calls_def same_calls_def)
    next
      fix g assume "s' = drop_by_group pv a c c' g (setColumns fin t)"
      with drop_by_group_frame [of "setColumns fin t" pv a c c' g] show ?thesis by (simp add: frame_setColumns)
    next
      fix fc ids g assume "s' = drop_at_position pv a ids g (setColumns fin t)"
      with drop_at_position_frame [of "setColumns fin t" pv a ids g] show ?thesis by (simp add: frame_setColumns)
    qed
  qed
  with drag show ?thesis by (simp add: same_frame_def drop_calls_def same_calls_def one_call_def t_def)
qed

section \<open>Every event keeps the invariant\<close>

lemma inv_mounted: "props_ok p \<Longrightarrow> board_inv (mounted pv p)"
  using props_columns_ok [of p pv] shown_props_plain [of p _ pv]
  by (simp add: board_inv_def mounted_def calls_ok_def)

text \<open>The columns after an event: those before, rearranged, or those of the props.\<close>

lemma step_outcome:
  assumes inv: "board_inv s" and en: "board_enabled am s e"
  shows "keeps_cards (bs_columns s) (bs_columns (board_step am pv fires s e)) \<or>
    keeps_cards (props_columns pv (bs_props (board_step am pv fires s e))) (bs_columns (board_step am pv fires s e))"
proof -
  note ok = board_invD(3) [OF inv]
  have keep: "keeps_cards (bs_columns s) (bs_columns s)" using ok by (rule keeps_cards_refl)
  show ?thesis
  proof (cases e)
    case (Render issues groups grouping known)
    define p where "p = \<lparr>bp_issues = issues, bp_groups = groups, bp_grouping = grouping, bp_options = known,
       bp_sort_by = bp_sort_by (bs_props s)\<rparr>"
    have "drag_outcome pv (rerender (s\<lparr>bs_props := p\<rparr>)) (bs_columns (render_props pv p s))"
      unfolding render_props_def by (rule resync_outcome) (simp add: ok)
    then show ?thesis by (simp add: Render p_def [symmetric] drag_outcome_def) (simp add: render_props_def)
  next
    case (DragOver a ov)
    with en have a: "a \<notin> set (group_ids (bs_props s))"
      using plain_no_group [OF board_invD(1) [OF inv] board_invD(6) [OF inv, of a]] by (simp add: board_enabled_def)
    show ?thesis
    proof (cases "handleDragOver a ov s")
      case (Inr s')
      with handleDragOver_outcome [OF board_invD(2) [OF inv] a Inr] show ?thesis by (simp add: DragOver caught_def)
    qed (simp add: DragOver caught_def keep)
  next
    case (DragEnd a ov)
    with en have a: "a \<notin> set (group_ids (bs_props s))" and am: "list_all (\<lambda>(k, ids). moves_item am ids) (bs_columns s)"
      using plain_no_group [OF board_invD(1) [OF inv] board_invD(6) [OF inv, of a]] by (simp_all add: board_enabled_def)
    show ?thesis
    proof (cases "handleDragEnd am pv a ov (s\<lparr>bs_pointer := None\<rparr>)")
      case (Inr s')
      have "drag_outcome pv (s\<lparr>bs_pointer := None\<rparr>) (bs_columns s')"
        by (rule handleDragEnd_outcome [OF _ _ _ Inr]) (simp_all add: board_invD(2) [OF inv] a am)
      moreover have "bs_props s' = bs_props s" using handleDragEnd_frame [OF Inr] by (simp add: same_frame_def)
      ultimately show ?thesis by (simp add: DragEnd caught_def Inr drag_outcome_def)
    qed (simp add: DragEnd caught_def keep)
  next
    case (Settled n)
    define t where "t = rerender (s\<lparr>bs_inflight := filter (\<lambda>(m, _). m \<noteq> n) (bs_inflight s), bs_settling := False,
      bs_version := bs_version s + 1\<rparr>)"
    have "drag_outcome pv t (bs_columns (resync pv t))" by (rule resync_outcome) (simp add: t_def ok)
    then have o: "drag_outcome pv s (bs_columns (resync pv t))" by (simp add: drag_outcome_def t_def)
    have s': "board_step am pv fires s e = s\<lparr>bs_inflight := filter (\<lambda>(m, _). m \<noteq> n) (bs_inflight s)\<rparr> \<or>
      board_step am pv fires s e = resync pv t"
      by (simp add: Settled settled_def Let_def settle_callback_def t_def)
    have p: "bs_props t = bs_props s" by (simp add: t_def)
    from s' show ?thesis
    proof
      assume eq: "board_step am pv fires s e = resync pv t"
      from o show ?thesis unfolding eq by (simp add: drag_outcome_def p)
    qed (simp add: keep)
  qed (use keep in \<open>simp_all add: handleDragStart_def updateIssue_def\<close>)
qed

lemma step_outcome':
  assumes "board_inv s" "board_enabled am s e" "bs_props (board_step am pv fires s e) = bs_props s"
  shows "drag_outcome pv s (bs_columns (board_step am pv fires s e))"
  using step_outcome [OF assms(1,2), of pv fires] assms(3) by (simp add: drag_outcome_def)

lemma calls_settled: "calls_ok s \<Longrightarrow> calls_ok (s\<lparr>bs_inflight := filter (\<lambda>(m, _). m \<noteq> n) (bs_inflight s)\<rparr>)"
  by (auto simp: calls_ok_def distinct_map_filter)

lemma inv_step:
  assumes inv: "board_inv s" and en: "board_enabled am s e"
  shows "board_inv (board_step am pv fires s e)"
proof -
  have calls: "calls_ok s" and props: "props_ok (bs_props s)" using board_invD [OF inv] by blast+
  have cols: "cols_ok (bs_columns (board_step am pv fires s e)) \<and>
      (\<forall>x \<in> set (shown (bs_columns (board_step am pv fires s e))). plain_id x)"
    if "props_ok (bs_props (board_step am pv fires s e))"
  proof -
    from step_outcome [OF inv en, of pv fires] show ?thesis
    proof
      assume "keeps_cards (bs_columns s) (bs_columns (board_step am pv fires s e))"
      then have "drag_outcome pv s (bs_columns (board_step am pv fires s e))" by (simp add: drag_outcome_def)
      with inv show ?thesis by (rule outcome_inv)
    next
      assume k: "keeps_cards (props_columns pv (bs_props (board_step am pv fires s e))) (bs_columns (board_step am pv fires s e))"
      show ?thesis
        using props_columns_ok [OF that, of pv] shown_props_plain [OF that, of _ pv] keeps_set [OF k] keeps_distinct [OF k] k
        by (auto simp: cols_ok_def keeps_cards_def)
    qed
  qed
  have rest: "props_ok (bs_props (board_step am pv fires s e)) \<and> calls_ok (board_step am pv fires s e) \<and>
      (\<forall>a. bs_pointer (board_step am pv fires s e) = Some a \<longrightarrow> plain_id a)"
  proof (cases e)
    case (Render issues groups grouping known)
    with en calls board_invD(6) [OF inv] show ?thesis
      by (simp add: board_enabled_def render_props_def calls_ok_def)
  next
    case (SortBy k)
    with props calls board_invD(6) [OF inv] show ?thesis by (simp add: props_ok_def calls_ok_def)
  next
    case (DragStart a)
    with en props calls board_invD(5) [OF inv] show ?thesis
      by (simp add: handleDragStart_def board_enabled_def calls_ok_def)
  next
    case (DragOver a ov)
    show ?thesis
    proof (cases "handleDragOver a ov s")
      case (Inr s')
      from handleDragOver_frame [OF Inr] calls_same [OF calls] props board_invD(6) [OF inv] show ?thesis
        by (simp add: DragOver Inr caught_def same_frame_def)
    qed (use props calls board_invD(6) [OF inv] in \<open>simp add: DragOver caught_def calls_ok_def\<close>)
  next
    case (DragEnd a ov)
    show ?thesis
    proof (cases "handleDragEnd am pv a ov (s\<lparr>bs_pointer := None\<rparr>)")
      case (Inr s')
      have c: "calls_ok (s\<lparr>bs_pointer := None\<rparr>)" using calls by (simp add: calls_ok_def)
      from handleDragEnd_frame [OF Inr] calls_same [OF c] calls_one [OF c] have "calls_ok s'"
        by (auto simp: drop_calls_def)
      with handleDragEnd_frame [OF Inr] props show ?thesis
        by (simp add: DragEnd Inr caught_def same_frame_def) (simp add: calls_ok_def)
    qed (use props calls board_invD(6) [OF inv] in \<open>simp add: DragEnd caught_def calls_ok_def\<close>)
  next
    case (MenuUpdate k patch)
    have "one_call False s (updateIssue k patch s)" by (simp add: updateIssue_def one_call_def)
    from calls_one [OF calls this] props board_invD(6) [OF inv] show ?thesis by (simp add: MenuUpdate) (simp add: updateIssue_def)
  next
    case (Settled n)
    with calls_settled [OF calls, of n] props board_invD(6) [OF inv] show ?thesis
      by (simp add: settled_def Let_def settle_callback_def calls_ok_def)
  qed (use props calls board_invD(6) [OF inv] in \<open>simp_all add: calls_ok_def\<close>)
  with cols show ?thesis by (simp add: board_inv_def)
qed

interpretation board: invariant_machine "board_start pv" "board_step am pv fires" "board_enabled am" board_inv
  for pv am fires
  by unfold_locales (auto simp: board_start_def intro: inv_mounted inv_step)

end
