(* ===== verification/Board_Refine.thy ===== *)
theory Board_Refine
  imports Board_Machine
begin

text \<open>
  The position a drop computes and the slot the cache gives it: with strictly increasing
  positions the two agree, so that the board's insertion and the cache's insertion are the same.
\<close>

lemma find_index_first:
  "\<forall>x \<in> set xs. \<not> P x \<Longrightarrow> ys \<noteq> [] \<Longrightarrow> P (hd ys) \<Longrightarrow> find_index P (xs @ ys) = Some (length xs)"
  by (induction xs) (auto simp: neq_Nil_conv)

lemma find_index_id:
  "a \<notin> set xs \<Longrightarrow> find_index (\<lambda>x. x = a) (xs @ a # ys) = Some (length xs)"
  by (rule find_index_first) auto

text \<open>The board's insertion is the cache's insertion on the identifiers.\<close>

lemma map_insert_nth: "map f (insert_nth n x xs) = insert_nth n (f x) (map f xs)"
  by (simp add: insert_nth_def take_map drop_map)

lemma insertId_insert:
  assumes "\<And>x. x \<in> set xs \<Longrightarrow> map_get m (iss_id x) = Some x"
  shows "insertIdByPosition (map iss_id xs) (iss_id i) (iss_position i) m = map iss_id (insertByPosition xs i)"
proof -
  have "find_index (\<lambda>x. case map_get m x of None \<Rightarrow> False | Some j \<Rightarrow> iss_position i < iss_position j) (map iss_id xs)
      = find_index (\<lambda>j. iss_position i < iss_position j) xs"
    using assms by (induction xs) auto
  then show ?thesis
    by (auto simp: insertIdByPosition_def insertByPosition_def map_insert_nth insert_nth_def take_map drop_map
        split: option.splits)
qed

text \<open>The computed position lies strictly between the neighbours.\<close>

lemma computePosition_between:
  assumes "a \<notin> set as" "as @ bs \<noteq> []" "sorted_wrt (\<lambda>x y. getPos m x < getPos m y) (as @ bs)"
  shows "(\<forall>x \<in> set as. getPos m x < computePosition (as @ a # bs) a m)
    \<and> (\<forall>y \<in> set bs. computePosition (as @ a # bs) a m < getPos m y)"
proof -
  have pos: "computePosition (as @ a # bs) a m =
     (if as = [] then getPos m (hd bs) - 1 else if bs = [] then getPos m (last as) + 1
      else (getPos m (last as) + getPos m (hd bs)) / 2)"
    using assms(2) find_index_id [OF assms(1), of bs]
    by (cases bs) (auto simp: computePosition_def nth_append last_conv_nth hd_conv_nth)
  have low: "getPos m x \<le> getPos m (last as)" if "x \<in> set as" for x
  proof -
    from that obtain ys y where as: "as = ys @ [y]" by (cases as rule: rev_exhaust) auto
    with that assms(3) show ?thesis by (auto simp: sorted_wrt_append)
  qed
  have high: "getPos m (hd bs) \<le> getPos m y" if "y \<in> set bs" for y
    using that assms(3) by (cases bs) (auto simp: sorted_wrt_append)
  have mid: "getPos m (last as) < getPos m (hd bs)" if "as \<noteq> []" "bs \<noteq> []"
    using that assms(3) by (auto simp: sorted_wrt_append)
  show ?thesis
  proof (intro conjI ballI)
    fix x assume x: "x \<in> set as"
    then have "as \<noteq> []" by auto
    with low [OF x] mid show "getPos m x < computePosition (as @ a # bs) a m"
      unfolding pos by (cases "bs = []") (auto simp: field_simps)
  next
    fix y assume y: "y \<in> set bs"
    then have "bs \<noteq> []" by auto
    with high [OF y] mid show "computePosition (as @ a # bs) a m < getPos m y"
      unfolding pos by (cases "as = []") (auto simp: field_simps)
  qed
qed

lemma insert_between:
  assumes "map iss_id xs = as @ bs" "\<And>x. x \<in> set xs \<Longrightarrow> iss_id x \<in> set as \<Longrightarrow> iss_position x \<le> iss_position i"
    "\<And>x. x \<in> set xs \<Longrightarrow> iss_id x \<in> set bs \<Longrightarrow> iss_position i < iss_position x"
  shows "map iss_id (insertByPosition xs i) = as @ iss_id i # bs"
proof -
  obtain us vs where xs: "xs = us @ vs" "map iss_id us = as" "map iss_id vs = bs"
    using assms(1) by (auto simp: map_eq_append_conv)
  have us: "\<forall>x \<in> set us. \<not> iss_position i < iss_position x" using assms(2) xs by force
  have vs: "\<forall>x \<in> set vs. iss_position i < iss_position x" using assms(3) xs by force
  show ?thesis
  proof (cases "vs = []")
    case True
    with us xs show ?thesis by (simp add: insertByPosition_def find_index_None [THEN iffD2])
  next
    case False
    then have "iss_position i < iss_position (hd vs)" using vs by simp
    from find_index_first [OF us False this] xs(2,3) show ?thesis
      by (simp add: insertByPosition_def xs(1) insert_nth_def)
  qed
qed

definition increasing :: "issue list \<Rightarrow> bool" where
  "increasing xs = sorted_wrt (\<lambda>x y. iss_position x < iss_position y) xs"

lemma increasing_filter: "increasing xs \<Longrightarrow> increasing (filter P xs)"
  by (simp add: increasing_def sorted_wrt_filter)

text \<open>A drop at the computed position lands in the slot it was dropped on.\<close>

lemma insert_at_computed:
  assumes ids: "map iss_id xs = as @ bs" and a: "a \<notin> set as" and inc: "increasing xs"
    and m: "\<And>x. x \<in> set xs \<Longrightarrow> map_get m (iss_id x) = Some x"
    and i: "iss_id i = a" "iss_position i = computePosition (as @ a # bs) a m"
  shows "map iss_id (insertByPosition xs i) = as @ a # bs"
proof (cases "xs = []")
  case True
  with ids i show ?thesis by (simp add: insertByPosition_def)
next
  case False
  then have ne: "as @ bs \<noteq> []" using ids by auto
  have get: "getPos m (iss_id x) = iss_position x" if "x \<in> set xs" for x using m [OF that] by (simp add: getPos_def)
  have "sorted_wrt (\<lambda>x y. getPos m (iss_id x) < getPos m (iss_id y)) xs"
    using inc unfolding increasing_def by (rule sorted_wrt_mono_rel [rotated]) (simp add: get)
  then have "sorted_wrt (\<lambda>x y. getPos m x < getPos m y) (map iss_id xs)" by (simp add: sorted_wrt_map)
  with computePosition_between [OF a ne] ids
  have b: "\<forall>x \<in> set as. getPos m x < iss_position i" "\<forall>y \<in> set bs. iss_position i < getPos m y"
    by (simp_all add: i(2))
  show ?thesis unfolding i(1) [symmetric]
    by (rule insert_between [OF ids]) (use b get in force)+
qed

text \<open>An issue put back at its own position is where it was.\<close>

lemma insert_own:
  assumes "increasing xs" "distinct (map iss_id xs)" "i \<in> set xs"
  shows "insertByPosition (filter (\<lambda>j. iss_id j \<noteq> iss_id i) xs) i = xs"
proof -
  obtain us vs where xs: "xs = us @ i # vs" using assms(3) by (meson split_list)
  have f: "filter (\<lambda>j. iss_id j \<noteq> iss_id i) xs = us @ vs"
  proof -
    have "iss_id i \<notin> set (map iss_id us)" "iss_id i \<notin> set (map iss_id vs)" using assms(2) by (auto simp: xs)
    then have "filter (\<lambda>j. iss_id j \<noteq> iss_id i) us = us" "filter (\<lambda>j. iss_id j \<noteq> iss_id i) vs = vs"
      by (auto simp: filter_id_conv) (metis image_eqI)+
    then show ?thesis by (simp add: xs)
  qed
  have us: "\<forall>x \<in> set us. \<not> iss_position i < iss_position x"
    and vs: "\<forall>x \<in> set vs. iss_position i < iss_position x"
    using assms(1) by (simp_all add: increasing_def xs sorted_wrt_append less_imp_le not_less)
  show ?thesis
  proof (cases "vs = []")
    case True
    with us show ?thesis unfolding f by (simp add: insertByPosition_def find_index_None [THEN iffD2] xs)
  next
    case False
    then have "iss_position i < iss_position (hd vs)" using vs by simp
    from find_index_first [OF us False this] show ?thesis
      unfolding f by (simp add: insertByPosition_def insert_nth_def xs)
  qed
qed

lemma map_get_issue_map_acc:
  "distinct (map iss_id xs) \<Longrightarrow>
   map_get (fold (\<lambda>i. map_set (iss_id i) i) xs m) k =
     (case find (\<lambda>i. iss_id i = k) xs of Some i \<Rightarrow> Some i | None \<Rightarrow> map_get m k)"
proof (induction xs arbitrary: m)
  case (Cons x xs)
  from Cons.prems have "\<forall>y \<in> set xs. iss_id y \<noteq> iss_id x" by (metis distinct.simps(2) image_eqI list.set_map list.simps(9))
  then have "find (\<lambda>i. iss_id i = iss_id x) xs = None" by (simp add: find_None_iff)
  with Cons show ?case by (auto simp: map_get_set split: option.splits)
qed simp

lemma map_get_issue_map:
  assumes "distinct (map iss_id xs)" "i \<in> set xs"
  shows "map_get (issue_map_of xs) (iss_id i) = Some i"
proof (cases "find (\<lambda>j. iss_id j = iss_id i) xs")
  case None
  with assms(2) show ?thesis by (auto simp: find_None_iff)
next
  case (Some j)
  then have "j \<in> set xs" "iss_id j = iss_id i" by (blast dest: find_in_set)+
  with assms have "j = i" by (auto simp: distinct_map dest: inj_onD)
  with Some show ?thesis by (simp add: issue_map_of_def map_get_issue_map_acc [OF assms(1)])
qed

text \<open>
  The board as an abstraction of the bucketed list cache: one column per status, holding the
  identifiers of the bucket. A drag of one card ends with the columns the cache will show once it is patched
  with the very request the drop sent, or it sends nothing and ends with the columns the cache shows.
\<close>

section \<open>Columns and buckets\<close>

definition bucket_ids :: "list_cache \<Rightarrow> IssueStatus \<Rightarrow> jstr list" where
  "bucket_ids resp st = map iss_id (b_issues (getBucket resp st))"

text \<open>Every bucket holds issues of its status, and no issue is in the cache twice.\<close>

definition buckets_ok :: "list_cache \<Rightarrow> bool" where
  "buckets_ok resp = ((\<forall>st. \<forall>i \<in> set (b_issues (getBucket resp st)). iss_status i = st)
     \<and> (\<forall>st. distinct (bucket_ids resp st))
     \<and> (\<forall>st st'. st \<noteq> st' \<longrightarrow> set (bucket_ids resp st) \<inter> set (bucket_ids resp st') = {}))"

definition ordered_buckets :: "list_cache \<Rightarrow> bool" where
  "ordered_buckets resp = (\<forall>st. increasing (b_issues (getBucket resp st)))"

text \<open>The columns of the visible statuses \<open>ss\<close> show the cache.\<close>

definition shows_cache :: "IssueStatus list \<Rightarrow> list_cache \<Rightarrow> columns \<Rightarrow> bool" where
  "shows_cache ss resp cols = (\<forall>st \<in> set ss. obj_get cols (statusGroupId st) = Some (bucket_ids resp st))"

text \<open>The props of a board by status over that cache.\<close>

definition props_over :: "IssueStatus list \<Rightarrow> list_cache \<Rightarrow> board_props \<Rightarrow> bool" where
  "props_over ss resp p = (props_ok p \<and> bp_grouping p = ''status'' \<and> bp_groups p = map status_group ss
     \<and> (\<forall>st \<in> set ss. filter (\<lambda>i. iss_status i = st) (bp_issues p) = b_issues (getBucket resp st)))"

lemma statusGroupId_inj: "statusGroupId a = statusGroupId b \<longleftrightarrow> a = b"
  by (cases a; cases b) (simp_all add: statusGroupId_def)

lemma statusGroupId_ne: "statusGroupId st \<noteq> []"
  by (simp add: statusGroupId_def)

lemma bg_id_status [simp]: "bg_id (status_group st) = statusGroupId st" "bg_status (status_group st) = Some st"
    "bg_property_id (status_group st) = None"
  by (simp_all add: status_group_def blank_group_def)

lemma props_overD:
  assumes "props_over ss resp p"
  shows "props_ok p" "group_ids p = map statusGroupId ss" "shows_cache ss resp (props_columns pv p)"
    "obj_get (props_columns pv p) c \<noteq> None \<Longrightarrow> c \<in> set (group_ids p)"
    "st \<in> set ss \<Longrightarrow> i \<in> set (b_issues (getBucket resp st)) \<Longrightarrow> map_get (issue_map_of (bp_issues p)) (iss_id i) = Some i"
proof -
  note p = assms [unfolded props_over_def]
  show "props_ok p" "group_ids p = map statusGroupId ss" using p by (simp_all add: group_ids_def)
  have "getIssueGroupId pv i (bp_grouping p) (bp_options p) = statusGroupId (iss_status i)" for i
    using p by (simp add: getIssueGroupId_def)
  then show "shows_cache ss resp (props_columns pv p)"
    using p by (auto simp: shows_cache_def props_columns_def buildColumns_get bucket_ids_def statusGroupId_inj image_image)
  show "obj_get (props_columns pv p) c \<noteq> None \<Longrightarrow> c \<in> set (group_ids p)"
    by (auto simp: props_columns_def buildColumns_get group_ids_def split: if_splits)
  assume st: "st \<in> set ss" "i \<in> set (b_issues (getBucket resp st))"
  with p have "i \<in> set (filter (\<lambda>i. iss_status i = st) (bp_issues p))" by (metis (full_types))
  then have "i \<in> set (bp_issues p)" by simp
  then show "map_get (issue_map_of (bp_issues p)) (iss_id i) = Some i"
    using p by (intro map_get_issue_map) (simp_all add: props_ok_def)
qed

section \<open>The cache after the request of a drop\<close>

definition status_move :: "IssueStatus \<Rightarrow> rat \<Rightarrow> issue_patch" where
  "status_move st p = no_patch\<lparr>p_status := Some st, p_position := Some p\<rparr>"

lemma move_updates_status: "getMoveUpdates (status_group st) p = status_move st p"
  by (simp add: getMoveUpdates_def status_move_def)

lemma merge_status_move [simp]:
  "iss_id (merge_issue i (status_move st p)) = iss_id i" "iss_position (merge_issue i (status_move st p)) = p"
  "iss_status (merge_issue i (status_move st p)) = st"
  by (simp_all add: merge_issue_def status_move_def over_def)

lemma location_unique:
  assumes "buckets_ok resp" "i \<in> set (b_issues (getBucket resp st))"
  shows "findIssueLocation resp (iss_id i) = Some (st, i)"
proof (cases "findIssueLocation resp (iss_id i)")
  case None
  with location_None [OF None assms(2)] show ?thesis by simp
next
  case (Some r)
  obtain st' j where r: "r = (st', j)" by (cases r)
  from location_Some [OF Some [unfolded r]] have j: "j \<in> set (b_issues (getBucket resp st'))" "iss_id j = iss_id i" by auto
  then have "iss_id i \<in> set (bucket_ids resp st')" "iss_id i \<in> set (bucket_ids resp st)"
    using assms(2) by (auto simp: bucket_ids_def) (metis image_eqI)
  then have "st' = st" using assms(1) by (fastforce simp: buckets_ok_def)
  moreover have "distinct (map iss_id (b_issues (getBucket resp st)))" using assms(1) by (simp add: buckets_ok_def bucket_ids_def)
  ultimately have "j = i" using j assms(2) by (auto simp: distinct_map dest: inj_onD)
  with \<open>st' = st\<close> show ?thesis by (simp add: Some r)
qed

lemma filter_bucket: "map iss_id (filter (\<lambda>j. iss_id j \<noteq> a) xs) = filter (\<lambda>x. x \<noteq> a) (map iss_id xs)"
  by (simp add: filter_map comp_def)

lemma patched_buckets:
  assumes ok: "buckets_ok resp" and i: "i \<in> set (b_issues (getBucket resp st))" "iss_id i = a"
    and moved: "st' = st \<Longrightarrow> p \<noteq> iss_position i"
  shows "\<exists>resp'. patchIssueInBuckets resp a (status_move st' p) = Some resp' \<and>
    bucket_ids resp' st' = map iss_id (insertByPosition (filter (\<lambda>j. iss_id j \<noteq> a) (b_issues (getBucket resp st')))
      (merge_issue i (status_move st' p))) \<and>
    (\<forall>r. r \<noteq> st' \<longrightarrow> bucket_ids resp' r = filter (\<lambda>x. x \<noteq> a) (bucket_ids resp r))"
proof -
  have loc: "findIssueLocation resp a = Some (st, i)" using location_unique [OF ok i(1)] i(2) by simp
  have other: "filter (\<lambda>x. x \<noteq> a) (bucket_ids resp r) = bucket_ids resp r" if "r \<noteq> st" for r
  proof -
    have "a \<in> set (bucket_ids resp st)" using i by (force simp: bucket_ids_def)
    with ok that have "a \<notin> set (bucket_ids resp r)" by (fastforce simp: buckets_ok_def)
    then show ?thesis by (auto simp: filter_id_conv)
  qed
  show ?thesis
  proof (cases "st' = st")
    case True
    with moved show ?thesis
      by (simp add: patchIssueInBuckets_def loc Let_def status_move_def over_def bucket_ids_def getBucket_set)
        (use other in \<open>simp add: bucket_ids_def True\<close>)
  next
    case False
    have "filter (\<lambda>j. iss_id j \<noteq> a) (b_issues (getBucket resp st')) = b_issues (getBucket resp st')"
      using other [OF False] by (simp add: bucket_ids_def filter_id_conv)
    then show ?thesis
      using False other
      by (simp add: patchIssueInBuckets_def loc Let_def status_move_def over_def bucket_ids_def getBucket_set filter_bucket)
  qed
qed

section \<open>During the drag\<close>

text \<open>Up to the card \<open>a\<close>, the columns are those of the cache.\<close>

definition held :: "IssueStatus list \<Rightarrow> list_cache \<Rightarrow> jstr \<Rightarrow> columns \<Rightarrow> bool" where
  "held ss resp a cols = (cols_ok cols \<and> a \<in> set (shown cols)
     \<and> (\<forall>c. obj_get cols c \<noteq> None \<longrightarrow> c \<in> statusGroupId ` set ss)
     \<and> (\<forall>st \<in> set ss. \<exists>ids. obj_get cols (statusGroupId st) = Some ids
          \<and> filter (\<lambda>x. x \<noteq> a) ids = filter (\<lambda>x. x \<noteq> a) (bucket_ids resp st)))"

lemma held_column:
  assumes "held ss resp a cols" "obj_get cols c = Some ids"
  obtains st where "st \<in> set ss" "c = statusGroupId st"
    "filter (\<lambda>x. x \<noteq> a) ids = filter (\<lambda>x. x \<noteq> a) (bucket_ids resp st)"
  using assms unfolding held_def by fastforce

text \<open>Rearranging the cards with \<open>a\<close> moved keeps the rest.\<close>

lemma held_keeps:
  assumes "held ss resp a cols" "keeps_cards cols cols'"
    "\<And>c. obj_get cols' c = None \<longleftrightarrow> obj_get cols c = None"
    "\<And>c ids ids'. obj_get cols c = Some ids \<Longrightarrow> obj_get cols' c = Some ids' \<Longrightarrow> filter (\<lambda>x. x \<noteq> a) ids' = filter (\<lambda>x. x \<noteq> a) ids"
  shows "held ss resp a cols'"
proof -
  have "\<exists>ids. obj_get cols' (statusGroupId st) = Some ids \<and> filter (\<lambda>x. x \<noteq> a) ids = filter (\<lambda>x. x \<noteq> a) (bucket_ids resp st)"
    if st: "st \<in> set ss" for st
  proof -
    from assms(1) st obtain ids where ids: "obj_get cols (statusGroupId st) = Some ids"
      "filter (\<lambda>x. x \<noteq> a) ids = filter (\<lambda>x. x \<noteq> a) (bucket_ids resp st)" by (auto simp: held_def)
    with assms(3) [of "statusGroupId st"] obtain ids' where ids': "obj_get cols' (statusGroupId st) = Some ids'" by auto
    from assms(4) [OF ids(1) ids'] ids(2) ids' show ?thesis by auto
  qed
  moreover have "cols_ok cols'" using assms(1,2) keeps_distinct [OF assms(2)] by (simp add: held_def cols_ok_def keeps_cards_def)
  ultimately show ?thesis
    using assms(1,3) keeps_set [OF assms(2)] by (auto simp: held_def)
qed

lemma filter_insert_nth: "filter (\<lambda>x. x \<noteq> a) (insert_nth n a xs) = filter (\<lambda>x. x \<noteq> a) xs"
proof -
  have "filter (\<lambda>x. x \<noteq> a) (take n xs @ drop n xs) = filter (\<lambda>x. x \<noteq> a) xs" by (simp only: append_take_drop_id)
  then show ?thesis by (simp add: insert_nth_def del: append_take_drop_id)
qed

lemma filter_remove_nth: "n < length xs \<Longrightarrow> xs ! n = a \<Longrightarrow> filter (\<lambda>x. x \<noteq> a) (remove_nth n xs) = filter (\<lambda>x. x \<noteq> a) xs"
  by (subst (2) id_take_nth_drop [of n xs]) (simp_all add: remove_nth_def)

lemma held_setColumns:
  assumes "held ss resp a nxt" "obj_ok (bs_columns s)"
  shows "held ss resp a (bs_columns (setColumns nxt s))"
proof (rule held_keeps [OF assms(1)])
  have ok: "obj_ok nxt" using assms(1) by (simp add: held_def cols_ok_def)
  show "keeps_cards nxt (bs_columns (setColumns nxt s))"
    by (simp add: keeps_cards_def setColumns_ok [OF assms(2) ok] setColumns_shown [OF assms(2) ok])
qed (use assms in \<open>simp_all add: setColumns_get held_def cols_ok_def\<close>)

lemma held_found:
  assumes "held ss resp a cols" "findColumn cols k (map statusGroupId ss) = Some c"
  obtains st ids where "st \<in> set ss" "c = statusGroupId st" "obj_get cols c = Some ids"
proof (cases "k \<in> set (map statusGroupId ss)")
  case True
  with assms that show ?thesis by (fastforce simp: findColumn_def held_def)
next
  case False
  have "obj_ok cols" using assms(1) by (simp add: held_def cols_ok_def)
  from findColumn_card [OF assms(2) False this] obtain ids where "obj_get cols c = Some ids" by blast
  with held_column [OF assms(1) this] that show ?thesis by metis
qed

lemma held_move_over:
  assumes h: "held ss resp a cols" and a: "a \<notin> set (map statusGroupId ss)"
    and c: "findColumn cols a (map statusGroupId ss) = Some c" "findColumn cols k (map statusGroupId ss) = Some c'" "c \<noteq> c'"
  shows "\<exists>nxt. move_over cols a k c c' = Inr nxt \<and> held ss resp a nxt"
proof -
  have ok: "cols_ok cols" using h by (simp add: held_def)
  obtain ids where ids: "obj_get cols c = Some ids" by (rule held_found [OF h c(1)])
  obtain xs where xs: "obj_get cols c' = Some xs" by (rule held_found [OF h c(2)])
  obtain nxt where nxt: "move_over cols a k c c' = Inr nxt" using ids xs by (simp add: move_over_def Let_def)
  have "held ss resp a nxt"
  proof (rule held_keeps [OF h keeps_move_over [OF ok a c(1) c(3) [symmetric] nxt]])
    show "obj_get nxt d = None \<longleftrightarrow> obj_get cols d = None" for d
      using nxt ids xs by (auto simp: move_over_def Let_def obj_get_set split: if_splits)
    show "filter (\<lambda>x. x \<noteq> a) us' = filter (\<lambda>x. x \<noteq> a) us"
      if "obj_get cols d = Some us" "obj_get nxt d = Some us'" for d us us'
      using that nxt ids xs c(3) by (auto simp: move_over_def Let_def obj_get_set filter_insert_nth split: if_splits)
  qed
  with nxt show ?thesis by blast
qed

lemma held_reorder:
  assumes h: "held ss resp a cols" and am: "list_all (\<lambda>(k, ids). moves_item am ids) cols"
    and c: "obj_get cols c \<noteq> None"
  shows "\<exists>nxt. reorder am cols a k c = Inr nxt \<and> held ss resp a nxt"
proof -
  have ok: "obj_ok cols" using h by (simp add: held_def cols_ok_def)
  obtain ids where ids: "obj_get cols c = Some ids" using c by auto
  then have "\<exists>nxt. reorder am cols a k c = Inr nxt" by (simp add: reorder_def split: option.split)
  then obtain nxt where nxt: "reorder am cols a k c = Inr nxt" by blast
  have "held ss resp a nxt"
  proof (cases "nxt = cols")
    case False
    with nxt ids obtain i j where ij: "find_index (\<lambda>x. x = a) ids = Some i" "find_index (\<lambda>x. x = k) ids = Some j"
      and eq: "nxt = obj_set c (am ids i j) cols"
      by (auto simp: reorder_def split: option.splits if_splits)
    have len: "i < length ids" "j < length ids" "ids ! i = a" using ij by (auto dest: find_index_Some)
    have "moves_item am ids" using am obj_get_in [OF ids] by (auto simp: list_all_iff)
    then have mv: "am ids i j = insert_nth j a (remove_nth i ids)" using len by (simp add: moves_itemD [of am ids] move_item_def)
    show ?thesis
    proof (rule held_keeps [OF h keeps_reorder [OF ok am nxt]])
      show "obj_get nxt d = None \<longleftrightarrow> obj_get cols d = None" for d using ids by (simp add: eq obj_get_set)
      show "filter (\<lambda>x. x \<noteq> a) us' = filter (\<lambda>x. x \<noteq> a) us"
        if "obj_get cols d = Some us" "obj_get nxt d = Some us'" for d us us'
        using that ids len by (auto simp: eq obj_get_set mv filter_insert_nth filter_remove_nth split: if_splits)
    qed
  qed (simp add: h)
  with nxt show ?thesis by blast
qed

end
