(* ===== verification/Board_Drop.thy ===== *)
theory Board_Drop
  imports Board_Refine
begin

text \<open>The end of a drag on a board by status, and the whole drag from the first event to the drop.\<close>

section \<open>The drop\<close>

text \<open>
  Nothing was sent and the columns show the cache; or one request was sent, and the columns
  show the cache patched with it, in which the anchors of the request are the neighbours of the card.
\<close>

definition drop_agrees :: "IssueStatus list \<Rightarrow> list_cache \<Rightarrow> jstr \<Rightarrow> board_state \<Rightarrow> board_state \<Rightarrow> bool" where
  "drop_agrees ss resp a s s' =
     ((bs_sent s' = bs_sent s \<and> shows_cache ss resp (bs_columns s')) \<or>
      (\<exists>st p resp'. bs_sent s' = bs_sent s @ [MoveIssue a (status_move st p)
           (fst (getMoveAnchors (bucket_ids resp' st) a)) (snd (getMoveAnchors (bucket_ids resp' st) a))]
         \<and> patchIssueInBuckets resp a (status_move st p) = Some resp' \<and> st \<in> set ss
         \<and> shows_cache ss resp' (bs_columns s')))"

text \<open>The map of a board knows the issues of the visible columns.\<close>

definition map_over :: "IssueStatus list \<Rightarrow> list_cache \<Rightarrow> issue_map \<Rightarrow> bool" where
  "map_over ss resp m = (\<forall>st \<in> set ss. \<forall>i \<in> set (b_issues (getBucket resp st)). map_get m (iss_id i) = Some i)"

lemma held_other:
  assumes h: "held ss resp a cols" and ids: "obj_get cols (statusGroupId st) = Some ids" "a \<in> set ids"
    and r: "r \<in> set ss" "r \<noteq> st"
  shows "obj_get cols (statusGroupId r) = Some (filter (\<lambda>x. x \<noteq> a) (bucket_ids resp r))"
proof -
  from h r obtain us where us: "obj_get cols (statusGroupId r) = Some us"
    "filter (\<lambda>x. x \<noteq> a) us = filter (\<lambda>x. x \<noteq> a) (bucket_ids resp r)" by (auto simp: held_def)
  have "a \<notin> set us"
  proof
    assume "a \<in> set us"
    with one_column [OF _ _ us(1) ids(1) _ ids(2)] h have "statusGroupId r = statusGroupId st"
      by (simp add: held_def cols_ok_def)
    with r(2) show False by (simp add: statusGroupId_inj)
  qed
  then have "filter (\<lambda>x. x \<noteq> a) us = us" by (auto simp: filter_id_conv)
  with us show ?thesis by simp
qed

lemma held_split:
  assumes h: "held ss resp a cols" and st: "st \<in> set ss" and ids: "obj_get cols (statusGroupId st) = Some ids" "a \<in> set ids"
  obtains us vs where "ids = us @ a # vs" "a \<notin> set us"
    "map iss_id (filter (\<lambda>j. iss_id j \<noteq> a) (b_issues (getBucket resp st))) = us @ vs"
proof -
  have "distinct ids" using h ids by (auto simp: held_def cols_ok_def intro: distinct_column)
  moreover obtain us vs where uv: "ids = us @ a # vs" using ids(2) by (meson split_list)
  ultimately have a: "a \<notin> set us" "a \<notin> set vs" by auto
  have "filter (\<lambda>x. x \<noteq> a) ids = filter (\<lambda>x. x \<noteq> a) (bucket_ids resp st)" using h st ids by (auto simp: held_def)
  moreover have "filter (\<lambda>x. x \<noteq> a) us = us" "filter (\<lambda>x. x \<noteq> a) vs = vs" using a by (auto simp: filter_id_conv)
  ultimately have "map iss_id (filter (\<lambda>j. iss_id j \<noteq> a) (b_issues (getBucket resp st))) = us @ vs"
    by (simp add: filter_bucket bucket_ids_def uv)
  with that uv a show ?thesis by blast
qed

lemma card_issue:
  assumes "a \<in> set (bucket_ids resp st)"
  obtains i where "i \<in> set (b_issues (getBucket resp st))" "iss_id i = a"
  using assms by (auto simp: bucket_ids_def)

lemma drop_at_position_agrees:
  assumes ok: "buckets_ok resp" "ordered_buckets resp" and m: "map_over ss resp (bs_map s)"
    and h: "held ss resp a (bs_columns s)"
    and ids: "obj_get (bs_columns s) (statusGroupId st') = Some ids" "a \<in> set ids" "st' \<in> set ss"
    and home: "st \<in> set ss" "i \<in> set (b_issues (getBucket resp st))" "iss_id i = a"
  shows "drop_agrees ss resp a s (drop_at_position pv a ids (status_group st') s)"
proof -
  obtain us vs where uv: "ids = us @ a # vs" "a \<notin> set us"
    and rest: "map iss_id (filter (\<lambda>j. iss_id j \<noteq> a) (b_issues (getBucket resp st'))) = us @ vs"
    by (rule held_split [OF h ids(3,1,2)])
  define p where "p = computePosition ids a (bs_map s)"
  have cur: "map_get (bs_map s) a = Some i" using m home by (auto simp: map_over_def)
  have inc: "increasing (filter (\<lambda>j. iss_id j \<noteq> a) (b_issues (getBucket resp st')))"
    using ok(2) by (simp add: ordered_buckets_def increasing_filter)
  have known: "map_get (bs_map s) (iss_id x) = Some x" if "x \<in> set (filter (\<lambda>j. iss_id j \<noteq> a) (b_issues (getBucket resp st')))" for x
    using that m ids(3) by (auto simp: map_over_def)
  have slot: "map iss_id (insertByPosition (filter (\<lambda>j. iss_id j \<noteq> a) (b_issues (getBucket resp st'))) x) = ids"
    if "iss_id x = a" "iss_position x = p" for x
    unfolding uv(1) using that p_def [unfolded uv(1)] by (intro insert_at_computed [OF rest uv(2) inc known]) auto
  have matches: "issueMatchesGroup pv i (status_group st') \<longleftrightarrow> st = st'"
    using ok(1) home by (auto simp: issueMatchesGroup_def buckets_ok_def)
  show ?thesis
  proof (cases "st = st' \<and> iss_position i = p")
    case True
    then have unsent: "drop_at_position pv a ids (status_group st') s = s"
      by (simp add: drop_at_position_def cur matches p_def [symmetric])
    have "insertByPosition (filter (\<lambda>j. iss_id j \<noteq> a) (b_issues (getBucket resp st'))) i = b_issues (getBucket resp st')"
      using insert_own [of "b_issues (getBucket resp st')" i] True home ok by (simp add: ordered_buckets_def buckets_ok_def bucket_ids_def)
    with slot [OF home(3)] True have own: "ids = bucket_ids resp st'" by (simp add: bucket_ids_def)
    have "shows_cache ss resp (bs_columns s)"
      unfolding shows_cache_def
    proof
      fix r assume r: "r \<in> set ss"
      show "obj_get (bs_columns s) (statusGroupId r) = Some (bucket_ids resp r)"
      proof (cases "r = st'")
        case False
        have "a \<in> set (bucket_ids resp st')" using ids(2) own by simp
        with False ok(1) have "a \<notin> set (bucket_ids resp r)" by (fastforce simp: buckets_ok_def)
        then have "filter (\<lambda>x. x \<noteq> a) (bucket_ids resp r) = bucket_ids resp r" by (auto simp: filter_id_conv)
        with held_other [OF h ids(1,2) r False] show ?thesis by simp
      qed (simp add: ids(1) own)
    qed
    then show ?thesis by (simp add: drop_agrees_def unsent)
  next
    case False
    then have "\<not> (issueMatchesGroup pv i (status_group st') \<and> iss_position i = p)" by (simp add: matches)
    then have sent: "drop_at_position pv a ids (status_group st') s =
        moveIssue a (status_move st' p) (getMoveAnchors ids a) (beginSettle s)"
      by (auto simp: drop_at_position_def cur p_def [symmetric] move_updates_status applyPropertyGroupValue_def)
    from False obtain resp' where resp': "patchIssueInBuckets resp a (status_move st' p) = Some resp'"
      "bucket_ids resp' st' = map iss_id (insertByPosition (filter (\<lambda>j. iss_id j \<noteq> a) (b_issues (getBucket resp st')))
        (merge_issue i (status_move st' p)))"
      "\<forall>r. r \<noteq> st' \<longrightarrow> bucket_ids resp' r = filter (\<lambda>x. x \<noteq> a) (bucket_ids resp r)"
      using patched_buckets [OF ok(1) home(2,3), of st' p] by auto
    have new: "bucket_ids resp' st' = ids" using resp'(2) slot [of "merge_issue i (status_move st' p)"] home(3) by simp
    have "shows_cache ss resp' (bs_columns s)"
      unfolding shows_cache_def
    proof
      fix r assume "r \<in> set ss"
      then show "obj_get (bs_columns s) (statusGroupId r) = Some (bucket_ids resp' r)"
        using new ids(1) resp'(3) held_other [OF h ids(1,2)] by (cases "r = st'") simp_all
    qed
    then show ?thesis
      using resp'(1) new ids(3) unfolding drop_agrees_def sent
      by (intro disjI2 exI [of _ st'] exI [of _ p] exI [of _ resp'])
        (simp add: moveIssue_def call_mutate_def beginSettle_def)
  qed
qed

lemma reset_agrees:
  assumes "props_over ss resp (bs_props s)" "obj_ok (bs_columns s)"
  shows "drop_agrees ss resp a s (resetColumns pv s)"
proof -
  have "shows_cache ss resp (bs_columns (resetColumns pv s))"
    using props_overD(3) [OF assms(1), of pv] assms(2)
    by (simp add: shows_cache_def resetColumns_def setColumns_get props_columns_def buildColumns_ok)
  then show ?thesis by (simp add: drop_agrees_def resetColumns_def)
qed

lemma agrees_from: "drop_agrees ss resp a s s' \<Longrightarrow> bs_sent t = bs_sent s \<Longrightarrow> drop_agrees ss resp a t s'"
  by (simp add: drop_agrees_def)

lemma drop_by_group_agrees:
  assumes ok: "buckets_ok resp" and p: "props_over ss resp (bs_props s)" and m: "map_over ss resp (bs_map s)"
    and cols: "cols_ok (bs_columns s)" and vis: "shows_cache ss resp (bs_columns s)"
    and c: "findColumn (bs_columns s) a (group_ids (bs_props s)) = Some c" and plain: "a \<notin> set (group_ids (bs_props s))"
    and st': "st' \<in> set ss"
    and home: "st \<in> set ss" "i \<in> set (b_issues (getBucket resp st))" "iss_id i = a"
  shows "drop_agrees ss resp a s (drop_by_group pv a c (statusGroupId st') (status_group st') s)"
proof -
  have oks: "obj_ok (bs_columns s)" "distinct (shown (bs_columns s))" using cols by (simp_all add: cols_ok_def)
  have cur: "map_get (bs_map s) a = Some i" using m home by (auto simp: map_over_def)
  have own: "obj_get (bs_columns s) (statusGroupId st) = Some (bucket_ids resp st)" using vis home by (simp add: shows_cache_def)
  have "a \<in> set (bucket_ids resp st)" using home by (force simp: bucket_ids_def)
  from findColumn_shown [OF plain oks own this] c have c: "c = statusGroupId st" by simp
  have matches: "issueMatchesGroup pv i (status_group st') \<longleftrightarrow> st = st'"
    using ok home by (auto simp: issueMatchesGroup_def buckets_ok_def)
  show ?thesis
  proof (cases "st = st'")
    case True
    then show ?thesis using reset_agrees [OF p oks(1)] by (simp add: drop_by_group_def cur matches)
  next
    case False
    have other: "filter (\<lambda>x. x \<noteq> a) (bucket_ids resp r) = bucket_ids resp r" if "r \<noteq> st" for r
      using that ok \<open>a \<in> set (bucket_ids resp st)\<close> by (fastforce simp: buckets_ok_def filter_id_conv)
    have fi: "filter (\<lambda>j. iss_id j \<noteq> a) (b_issues (getBucket resp st')) = b_issues (getBucket resp st')"
      using other [of st'] False by (simp add: bucket_ids_def filter_id_conv)
    obtain resp' where resp': "patchIssueInBuckets resp a (status_move st' (iss_position i)) = Some resp'"
      "bucket_ids resp' st' = map iss_id (insertByPosition (b_issues (getBucket resp st')) (merge_issue i (status_move st' (iss_position i))))"
      "\<forall>r. r \<noteq> st' \<longrightarrow> bucket_ids resp' r = filter (\<lambda>x. x \<noteq> a) (bucket_ids resp r)"
      using patched_buckets [OF ok home(2,3), of st' "iss_position i"] False fi by auto
    have target: "insertIdByPosition (filter (\<lambda>x. x \<noteq> a) (bucket_ids resp st')) a (iss_position i) (bs_map s) = bucket_ids resp' st'"
      using insertId_insert [of "b_issues (getBucket resp st')" "bs_map s" "merge_issue i (status_move st' (iss_position i))"]
        m st' other [of st'] False home(3) by (simp add: resp'(2) map_over_def) (simp add: bucket_ids_def)
    define nxt where "nxt = obj_set (statusGroupId st') (bucket_ids resp' st')
      (obj_set (statusGroupId st) (filter (\<lambda>x. x \<noteq> a) (bucket_ids resp st)) (bs_columns s))"
    have sent: "drop_by_group pv a c (statusGroupId st') (status_group st') s =
        moveIssue a (status_move st' (iss_position i)) (getMoveAnchors (bucket_ids resp' st') a) (beginSettle (setColumns nxt s))"
      using vis st' own
      by (simp add: drop_by_group_def cur matches False c Let_def move_updates_status applyPropertyGroupValue_def target
          shows_cache_def nxt_def)
    have "obj_ok nxt" by (simp add: nxt_def obj_ok_set oks(1))
    then have get: "obj_get (bs_columns (setColumns nxt s)) k = obj_get nxt k" for k by (rule setColumns_get [OF oks(1)])
    have "shows_cache ss resp' (bs_columns (setColumns nxt s))"
      unfolding shows_cache_def get using resp'(3) False vis other
      by (auto simp: shows_cache_def nxt_def obj_get_set statusGroupId_inj)
    then show ?thesis
      using resp'(1) st' unfolding drop_agrees_def sent
      by (intro disjI2 exI [of _ st'] exI [of _ "iss_position i"] exI [of _ resp'])
        (simp add: moveIssue_def call_mutate_def beginSettle_def)
  qed
qed

section \<open>The whole drag\<close>

definition in_sync :: "IssueStatus list \<Rightarrow> list_cache \<Rightarrow> board_state \<Rightarrow> bool" where
  "in_sync ss resp s = (props_over ss resp (bs_props s) \<and> cols_ok (bs_columns s)
     \<and> bs_map s = issue_map_of (bp_issues (bs_props s)) \<and> shows_cache ss resp (bs_columns s)
     \<and> set (obj_keys (bs_columns s)) \<subseteq> set (map statusGroupId ss)
     \<and> \<not> bs_dragging s \<and> \<not> bs_settling s \<and> bs_pointer s = None \<and> bs_error s = None)"

text \<open>What holds between the start of a drag from \<open>s\<close> and its drop.\<close>

definition mid_drag :: "IssueStatus list \<Rightarrow> list_cache \<Rightarrow> board_state \<Rightarrow> jstr \<Rightarrow> board_state \<Rightarrow> bool" where
  "mid_drag ss resp s a t = (bs_props t = bs_props s \<and> bs_map t = bs_map s \<and> bs_sent t = bs_sent s
     \<and> bs_pointer t = Some a \<and> bs_error t = None \<and> held ss resp a (bs_columns t)
     \<and> (bp_sort_by (bs_props s) \<noteq> ''position'' \<longrightarrow> bs_columns t = bs_columns s))"

fun drag_move :: "jstr \<Rightarrow> board_event \<Rightarrow> bool" where
  "drag_move a (DragOver b ov) = (b = a)"
| "drag_move a Frame = True"
| "drag_move a _ = False"

lemma home_of:
  assumes "in_sync ss resp s" "a \<in> set (shown (bs_columns s))"
  obtains st i where "st \<in> set ss" "i \<in> set (b_issues (getBucket resp st))" "iss_id i = a"
proof -
  from assms(2) obtain c ids where c: "(c, ids) \<in> set (bs_columns s)" "a \<in> set ids" by (auto simp: shown_def)
  from assms(1) c(1) have get: "obj_get (bs_columns s) c = Some ids" by (simp add: in_sync_def cols_ok_def obj_in_get)
  then have "c \<in> set (obj_keys (bs_columns s))" by (simp add: obj_keys_get)
  with assms(1) obtain st where st: "st \<in> set ss" "c = statusGroupId st" by (auto simp: in_sync_def)
  with assms(1) get have "ids = bucket_ids resp st" by (simp add: in_sync_def shows_cache_def)
  with c(2) st(1) that show ?thesis by (auto intro: card_issue)
qed

lemma start_drag:
  assumes "in_sync ss resp s" "a \<in> set (shown (bs_columns s))"
  shows "mid_drag ss resp s a (board_step am pv fires s (DragStart a))"
proof -
  have "held ss resp a (bs_columns s)"
    using assms by (auto simp: held_def in_sync_def shows_cache_def obj_keys_get)
  then show ?thesis
    using assms(1) by (simp add: mid_drag_def handleDragStart_def in_sync_def) (simp add: rerender_def)
qed

lemma plain_in_drag:
  assumes "in_sync ss resp s" "a \<in> set (shown (bs_columns s))"
  shows "a \<notin> set (group_ids (bs_props s))"
proof -
  obtain st i where i: "st \<in> set ss" "i \<in> set (b_issues (getBucket resp st))" "iss_id i = a" by (rule home_of [OF assms])
  have p: "props_over ss resp (bs_props s)" using assms(1) by (simp add: in_sync_def)
  then have "filter (\<lambda>i. iss_status i = st) (bp_issues (bs_props s)) = b_issues (getBucket resp st)"
    using i(1) by (simp add: props_over_def)
  with i(2) have "i \<in> set (filter (\<lambda>i. iss_status i = st) (bp_issues (bs_props s)))" by simp
  then have "i \<in> set (bp_issues (bs_props s))" by simp
  then have "plain_id a" using p i(3) by (auto simp: props_over_def props_ok_def list_all_iff)
  with p show ?thesis by (intro plain_no_group) (simp_all add: props_over_def)
qed

lemma move_drag:
  assumes s: "in_sync ss resp s" "a \<in> set (shown (bs_columns s))" and mid: "mid_drag ss resp s a t" and e: "drag_move a e"
  shows "mid_drag ss resp s a (board_step am pv fires t e)"
proof (cases e)
  case (DragOver b ov)
  have "props_over ss resp (bs_props t)" using mid s(1) by (simp add: mid_drag_def in_sync_def)
  note g = props_overD(2) [OF this]
  have a: "a \<notin> set (map statusGroupId ss)" using plain_in_drag [OF s] mid g by (simp add: mid_drag_def)
  have h: "held ss resp a (bs_columns t)" using mid by (simp add: mid_drag_def)
  obtain r where r: "handleDragOver a ov t = r" by blast
  have "\<exists>t'. r = Inr t' \<and> mid_drag ss resp s a t'"
  proof (cases "r = Inr t")
    case False
    with r obtain ovId c c' where *: "ov = Some ovId" "bp_sort_by (bs_props t) = ''position''" "c \<noteq> c'"
      "findColumn (bs_columns t) a (map statusGroupId ss) = Some c"
      "findColumn (bs_columns t) ovId (map statusGroupId ss) = Some c'"
      and eq: "r = (case move_over (bs_columns t) a ovId c c' of Inl e \<Rightarrow> Inl e
                    | Inr nxt \<Rightarrow> Inr (setColumns nxt (t\<lparr>bs_recent := True\<rparr>)))"
      by (auto simp: handleDragOver_def Let_def g dest!: named_Some split: option.splits if_splits)
    obtain nxt where nxt: "move_over (bs_columns t) a ovId c c' = Inr nxt" "held ss resp a nxt"
      using held_move_over [OF h a *(4,5,3)] by blast
    have "obj_ok (bs_columns t)" using h by (simp add: held_def cols_ok_def)
    with held_setColumns [OF nxt(2), of "t\<lparr>bs_recent := True\<rparr>"] mid *(2)
    have "mid_drag ss resp s a (setColumns nxt (t\<lparr>bs_recent := True\<rparr>))" by (simp add: mid_drag_def)
    with eq nxt(1) show ?thesis by simp
  qed (use mid in blast)
  with r DragOver e show ?thesis by (auto simp: caught_def)
qed (use e mid in \<open>simp_all add: mid_drag_def\<close>)

lemma moves_drag:
  assumes "in_sync ss resp s" "a \<in> set (shown (bs_columns s))"
  shows "mid_drag ss resp s a t \<Longrightarrow> list_all (drag_move a) es \<Longrightarrow> mid_drag ss resp s a (foldl (board_step am pv fires) t es)"
  by (induction es arbitrary: t) (auto intro: move_drag [OF assms])

lemma end_drag:
  assumes s: "in_sync ss resp s" "a \<in> set (shown (bs_columns s))"
    and ok: "buckets_ok resp" "bp_sort_by (bs_props s) = ''position'' \<Longrightarrow> ordered_buckets resp"
    and mid: "mid_drag ss resp s a t" and am: "list_all (\<lambda>(k, ids). moves_item am ids) (bs_columns t)"
  shows "\<exists>t'. handleDragEnd am pv a ov (t\<lparr>bs_pointer := None\<rparr>) = Inr t' \<and> drop_agrees ss resp a s t'"
proof -
  define u where "u = t\<lparr>bs_pointer := None, bs_dragging := False, bs_active := None\<rparr>"
  have u: "(t\<lparr>bs_pointer := None\<rparr>)\<lparr>bs_dragging := False, bs_active := None\<rparr> = u" by (simp add: u_def)
  note md = mid [unfolded mid_drag_def]
  have uf: "bs_props u = bs_props s" "bs_map u = bs_map s" "bs_sent u = bs_sent s" "bs_columns u = bs_columns t"
    using md by (simp_all add: u_def)
  have p: "props_over ss resp (bs_props u)" using s(1) uf by (simp add: in_sync_def)
  have g: "group_ids (bs_props u) = map statusGroupId ss" using props_overD(2) [OF p] .
  have plain: "a \<notin> set (map statusGroupId ss)" using plain_in_drag [OF s] uf g by simp
  have h: "held ss resp a (bs_columns u)" using md uf by simp
  have oks: "obj_ok (bs_columns u)" "distinct (shown (bs_columns u))" using h by (simp_all add: held_def cols_ok_def)
  have m: "map_over ss resp (bs_map u)"
    using p s(1) uf unfolding map_over_def in_sync_def by (metis props_overD(5))
  obtain st i where home: "st \<in> set ss" "i \<in> set (b_issues (getBucket resp st))" "iss_id i = a" by (rule home_of [OF s])
  have reset: "drop_agrees ss resp a s (resetColumns pv w)"
    if "bs_props w = bs_props u" "obj_ok (bs_columns w)" "bs_sent w = bs_sent u" for w
    by (rule agrees_from [OF reset_agrees]) (use that p uf in simp_all)
  have grp: "find_group (bs_props u) (statusGroupId r) = Some (status_group r)" if "r \<in> set ss" for r
  proof -
    have "find (\<lambda>q. bg_id q = statusGroupId r) (rev (map status_group ss)) = Some (status_group r)"
      using that by (induction ss rule: rev_induct) (auto simp: statusGroupId_inj)
    then show ?thesis using p by (simp add: find_group_def props_over_def)
  qed
  define r where "r = handleDragEnd am pv a ov (t\<lparr>bs_pointer := None\<rparr>)"
  note unfolded = r_def [unfolded handleDragEnd_def u Let_def]
  show ?thesis
  proof (cases ov)
    case None
    with unfolded have "r = Inr (resetColumns pv u)" by simp
    with reset [of u] oks show ?thesis unfolding r_def [symmetric] by simp
  next
    case ov: (Some ovId)
    show ?thesis
    proof (cases "named (findColumn (bs_columns u) a (group_ids (bs_props u))) = None \<or>
        named (findColumn (bs_columns u) ovId (group_ids (bs_props u))) = None")
      case True
      with unfolded ov have "r = Inr (resetColumns pv u)" by (auto split: option.splits)
      with reset [of u] oks show ?thesis by (simp add: r_def [symmetric])
    next
      case False
      then obtain c c' where cs: "named (findColumn (bs_columns u) a (group_ids (bs_props u))) = Some c"
        "named (findColumn (bs_columns u) ovId (group_ids (bs_props u))) = Some c'" by auto
      note c = named_Some [OF cs(1), unfolded g] and c' = named_Some [OF cs(2), unfolded g]
      obtain rs ids where rs: "rs \<in> set ss" "c' = statusGroupId rs" "obj_get (bs_columns u) c' = Some ids"
        by (rule held_found [OF h c'])
      show ?thesis
      proof (cases "bp_sort_by (bs_props u) = ''position''")
        case False
        with unfolded ov cs grp [OF rs(1)] rs(2)
        have "r = Inr (drop_by_group pv a c (statusGroupId rs) (status_group rs) u)"
          by (simp add: named_def statusGroupId_ne)
        moreover have "shows_cache ss resp (bs_columns u)" using md s(1) False uf by (simp add: in_sync_def)
        then have "drop_agrees ss resp a u (drop_by_group pv a c (statusGroupId rs) (status_group rs) u)"
          using plain c g by (intro drop_by_group_agrees [OF ok(1) p m _ _ _ _ rs(1) home]) (simp_all add: oks cols_ok_def)
        ultimately show ?thesis using uf(3) by (simp add: r_def [symmetric] agrees_from)
      next
        case man: True
        then have ord: "ordered_buckets resp" using ok(2) uf by simp
        have "obj_get (bs_columns u) c \<noteq> None" by (rule held_found [OF h c]) simp
        then have "\<exists>fin. (if c = c' then reorder am (bs_columns u) a ovId c else Inr (bs_columns u)) = Inr fin
            \<and> held ss resp a fin"
          using held_reorder [OF h am [folded uf(4)], of c ovId] h by (cases "c = c'") simp_all
        then obtain fin where fin: "(if c = c' then reorder am (bs_columns u) a ovId c else Inr (bs_columns u)) = Inr fin"
          "held ss resp a fin" by blast
        have okf: "obj_ok fin" "distinct (shown fin)" using fin(2) by (simp_all add: held_def cols_ok_def)
        obtain fs fids where f: "fs \<in> set ss" "obj_get fin (statusGroupId fs) = Some fids" "a \<in> set fids"
          "findColumn fin a (map statusGroupId ss) = Some (statusGroupId fs)"
        proof -
          from fin(2) obtain k xs where kx: "(k, xs) \<in> set fin" "a \<in> set xs" by (auto simp: held_def shown_def)
          then have get: "obj_get fin k = Some xs" using okf by (simp add: obj_in_get)
          with fin(2) obtain q where "q \<in> set ss" "k = statusGroupId q" by (auto elim: held_column)
          with that get kx(2) findColumn_shown [OF plain okf get kx(2)] show ?thesis by blast
        qed
        have rr: "r = Inr (drop_at_position pv a fids (status_group fs) (setColumns fin u))"
          using unfolded ov cs man fin(1) f grp [OF f(1)] g by (simp add: named_def statusGroupId_ne)
        have hs: "held ss resp a (bs_columns (setColumns fin u))" by (rule held_setColumns [OF fin(2) oks(1)])
        have "obj_get (bs_columns (setColumns fin u)) (statusGroupId fs) = Some fids"
          by (simp add: setColumns_get oks okf f)
        with drop_at_position_agrees [OF ok(1) ord _ hs this f(3,1) home] m
        have "drop_agrees ss resp a (setColumns fin u) (drop_at_position pv a fids (status_group fs) (setColumns fin u))"
          by simp
        with rr uf(3) show ?thesis by (simp add: r_def [symmetric] agrees_from)
      qed
    qed
  qed
qed

end
