(* ===== verification/Board_Locks.thy ===== *)
theory Board_Locks
  imports Board_Drop
begin

text \<open>
  When the columns follow the cache again: the settle lock ends with the latest call of
  \<open>mutate\<close>, unless a menu has made a call of its own meanwhile; a cancelled drag leaves the board frozen.
  And the handlers of the list are those of the board.
\<close>

section \<open>The lock without menu writes\<close>

text \<open>The query library runs the callbacks of the latest call.\<close>

definition latest_fires :: "(nat \<Rightarrow> nat option \<Rightarrow> bool) \<Rightarrow> bool" where
  "latest_fires fires = (\<forall>n. fires n (Some n))"

fun is_menu :: "board_event \<Rightarrow> bool" where
  "is_menu (MenuUpdate _ _) = True"
| "is_menu _ = False"

definition calm_enabled ::
  "jstr array_mover \<Rightarrow> (nat \<Rightarrow> nat option \<Rightarrow> bool) \<Rightarrow> board_state \<Rightarrow> board_event \<Rightarrow> bool" where
  "calm_enabled am fires s e = (latest_fires fires \<and> board_enabled am s e \<and> \<not> is_menu e)"

definition lock_inv :: "board_state \<Rightarrow> bool" where
  "lock_inv s = (bs_settling s \<longrightarrow> (\<exists>l. bs_latest s = Some l \<and> (l, True) \<in> set (bs_inflight s)))"

lemma lock_same: "lock_inv s \<Longrightarrow> same_calls s s' \<Longrightarrow> bs_settling s' = bs_settling s \<Longrightarrow> lock_inv s'"
  by (simp add: lock_inv_def same_calls_def)

lemma lock_drop: "lock_inv s \<Longrightarrow> drop_calls s s' \<Longrightarrow> lock_inv s'"
  by (auto simp: drop_calls_def lock_inv_def one_call_def same_calls_def)

lemma callback_fields [simp]:
  "bs_settling (settle_callback pv s) = False" "bs_inflight (settle_callback pv s) = bs_inflight s"
  "bs_latest (settle_callback pv s) = bs_latest s" "bs_dragging (settle_callback pv s) = bs_dragging s"
  "bs_props (settle_callback pv s) = bs_props s" "bs_next (settle_callback pv s) = bs_next s"
  "bs_error (settle_callback pv s) = bs_error s"
  by (simp_all add: settle_callback_def)

lemma lock_settled:
  assumes "lock_inv s" "latest_fires fires"
  shows "lock_inv (settled pv fires n s)"
proof (cases "(n, True) \<in> set (bs_inflight s) \<and> fires n (bs_latest s)")
  case True
  then show ?thesis by (simp add: settled_def Let_def lock_inv_def)
next
  case False
  with assms show ?thesis by (auto simp: settled_def Let_def lock_inv_def latest_fires_def)
qed

lemma lock_step:
  assumes "lock_inv s" "calm_enabled am fires s e"
  shows "lock_inv (board_step am pv fires s e)"
proof (cases e)
  case (DragOver a ov)
  show ?thesis
  proof (cases "handleDragOver a ov s")
    case (Inr s')
    with handleDragOver_frame [OF Inr] lock_same [OF assms(1)] show ?thesis by (simp add: DragOver caught_def)
  qed (use assms(1) in \<open>simp add: DragOver caught_def lock_inv_def\<close>)
next
  case (DragEnd a ov)
  have l: "lock_inv (s\<lparr>bs_pointer := None\<rparr>)" using assms(1) by (simp add: lock_inv_def)
  show ?thesis
  proof (cases "handleDragEnd am pv a ov (s\<lparr>bs_pointer := None\<rparr>)")
    case (Inr s')
    with handleDragEnd_frame [OF Inr] lock_drop [OF l] have "lock_inv s'" by blast
    then show ?thesis by (simp add: DragEnd caught_def Inr) (simp add: lock_inv_def)
  qed (use assms(1) in \<open>simp add: DragEnd caught_def lock_inv_def\<close>)
next
  case (MenuUpdate k patch)
  with assms(2) show ?thesis by (simp add: calm_enabled_def)
next
  case (Settled n)
  with assms show ?thesis by (simp add: calm_enabled_def lock_settled)
qed (use assms(1) in \<open>simp_all add: lock_inv_def render_props_def handleDragStart_def\<close>)

lemma lock_start: "board_start pv s \<Longrightarrow> lock_inv s"
  by (auto simp: board_start_def mounted_def lock_inv_def)

lemma calm_inv: "board_inv s \<Longrightarrow> calm_enabled am fires s e \<Longrightarrow> board_inv (board_step am pv fires s e)"
  by (auto simp: calm_enabled_def intro: inv_step)

interpretation locks: invariant_machine "board_start pv" "board_step am pv fires" "calm_enabled am fires"
    "\<lambda>s. board_inv s \<and> lock_inv s" for pv am fires
  by unfold_locales (blast intro: board.inv_start lock_start calm_inv lock_step)+

section \<open>The end of the calls\<close>

definition follows_cache :: "property_read \<Rightarrow> board_state \<Rightarrow> bool" where
  "follows_cache pv s = (\<forall>c. obj_get (bs_columns s) c = obj_get (props_columns pv (bs_props s)) c)"

lemma follows_resync:
  assumes "obj_ok (bs_columns s)" "\<not> bs_dragging s" "\<not> bs_settling s"
  shows "follows_cache pv (resync pv s)"
  using assms by (simp add: follows_cache_def resync_def setColumns_get props_columns_def buildColumns_ok)

lemma settled_follows:
  assumes "\<not> bs_dragging s" "obj_ok (bs_columns s)" "bs_settling s \<or> follows_cache pv s"
  shows "bs_settling (settled pv fires n s) \<or> follows_cache pv (settled pv fires n s)"
proof (cases "(n, True) \<in> set (bs_inflight s) \<and> fires n (bs_latest s)")
  case True
  have "follows_cache pv (settle_callback pv (s\<lparr>bs_inflight := filter (\<lambda>(m, _). m \<noteq> n) (bs_inflight s)\<rparr>))"
    unfolding settle_callback_def by (rule follows_resync) (simp_all add: assms)
  with True show ?thesis by (simp add: settled_def Let_def)
next
  case False
  with assms(3) show ?thesis by (auto simp: settled_def Let_def follows_cache_def)
qed

lemma settled_fields:
  "bs_dragging (settled pv fires n s) = bs_dragging s" "bs_error (settled pv fires n s) = bs_error s"
  "bs_inflight (settled pv fires n s) = filter (\<lambda>(m, _). m \<noteq> n) (bs_inflight s)"
  by (simp_all add: settled_def Let_def)

lemma settle_all:
  assumes "\<not> bs_dragging s" "bs_error s = None" "board_inv s" "lock_inv s" "latest_fires fires"
    "distinct ns" "set ns = fst ` set (bs_inflight s)" "bs_settling s \<or> follows_cache pv s"
  shows "let t = foldl (board_step am pv fires) s (map Settled ns) in
    \<not> bs_settling t \<and> bs_inflight t = [] \<and> follows_cache pv t"
  using assms
proof (induction ns arbitrary: s)
  case Nil
  then have "bs_inflight s = []" by simp
  with Nil show ?case by (simp add: lock_inv_def)
next
  case (Cons n ns)
  have en: "board_enabled am s (Settled n)"
    using Cons.prems(7) by (simp add: board_enabled_def Cons.prems(2)) (metis insertI1)
  have inv: "board_inv (settled pv fires n s)" using inv_step [OF Cons.prems(3) en, of pv fires] by simp
  have "set ns = fst ` set (bs_inflight (settled pv fires n s))"
  proof -
    have "fst ` set (filter (\<lambda>(m, _). m \<noteq> n) (bs_inflight s)) = fst ` set (bs_inflight s) - {n}" by force
    with Cons.prems(6,7) show ?thesis by (simp add: settled_fields) auto
  qed
  from Cons.IH [OF _ _ inv lock_settled [OF Cons.prems(4,5)] Cons.prems(5) _ this
      settled_follows [OF Cons.prems(1) board_invD(3) [OF Cons.prems(3)] Cons.prems(8)]] Cons.prems
  show ?case by (simp add: settled_fields)
qed

section \<open>Boards that stay frozen\<close>

text \<open>The events that are not calls of the drag library.\<close>

fun no_drag :: "board_event \<Rightarrow> bool" where
  "no_drag (DragStart _) = False"
| "no_drag (DragOver _ _) = False"
| "no_drag (DragEnd _ _) = False"
| "no_drag _ = True"

definition overtaken :: "board_state \<Rightarrow> bool" where
  "overtaken s = (bs_settling s \<and> calls_ok s \<and> (\<exists>l. bs_latest s = Some l \<and> (l, True) \<notin> set (bs_inflight s)))"

lemma frozen_render: "bs_dragging s \<or> bs_settling s \<Longrightarrow> bs_columns (render_props pv p s) = bs_columns s"
  by (auto simp: render_props_def resync_def)

lemma dragging_frozen:
  "bs_dragging s \<Longrightarrow> no_drag e \<Longrightarrow>
   bs_dragging (board_step am pv fires s e) \<and> bs_columns (board_step am pv fires s e) = bs_columns s"
  by (cases e)
    (simp_all add: frozen_render render_props_def updateIssue_def settled_def Let_def settle_callback_def resync_def)

lemma overtaken_frozen:
  assumes "overtaken s" "no_drag e" and only: "\<And>n m. fires n m \<longleftrightarrow> m = Some n"
  shows "overtaken (board_step am pv fires s e) \<and> bs_columns (board_step am pv fires s e) = bs_columns s"
proof (cases e)
  case (Settled n)
  from assms(1) obtain l where l: "bs_latest s = Some l" "(l, True) \<notin> set (bs_inflight s)" "bs_settling s" "calls_ok s"
    by (auto simp: overtaken_def)
  then have "settled pv fires n s = s\<lparr>bs_inflight := filter (\<lambda>(m, _). m \<noteq> n) (bs_inflight s)\<rparr>"
    by (auto simp: settled_def Let_def only)
  with l calls_settled [OF l(4), of n] show ?thesis by (simp add: Settled overtaken_def)
next
  case (MenuUpdate k patch)
  have "one_call False s (updateIssue k patch s)" by (simp add: updateIssue_def one_call_def)
  with assms(1) calls_one [of s False] have "calls_ok (updateIssue k patch s)" by (auto simp: overtaken_def)
  moreover have "(bs_next s, True) \<notin> set (bs_inflight s)" using assms(1) by (force simp: overtaken_def calls_ok_def)
  ultimately show ?thesis using assms(1) by (simp add: MenuUpdate overtaken_def) (simp add: updateIssue_def)
qed (use assms in \<open>simp_all add: overtaken_def calls_ok_def render_props_def resync_def\<close>)

lemma overtaken_run:
  "overtaken s \<Longrightarrow> list_all no_drag es \<Longrightarrow> (\<And>n m. fires n m \<longleftrightarrow> m = Some n) \<Longrightarrow>
   bs_columns (foldl (board_step am pv fires) s es) = bs_columns s"
  by (induction es arbitrary: s) (simp_all add: overtaken_frozen)

lemma dragging_run:
  "bs_dragging s \<Longrightarrow> list_all no_drag es \<Longrightarrow> bs_columns (foldl (board_step am pv fires) s es) = bs_columns s"
  by (induction es arbitrary: s) (simp_all add: dragging_frozen)

lemma menu_overtakes:
  assumes "board_inv s" "bs_settling s"
  shows "overtaken (board_step am pv fires s (MenuUpdate k patch))"
proof -
  have c: "calls_ok s" using assms(1) by (simp add: board_inv_def)
  have "one_call False s (updateIssue k patch s)" by (simp add: updateIssue_def one_call_def)
  from calls_one [OF c this] have "calls_ok (updateIssue k patch s)" .
  moreover have "(bs_next s, True) \<notin> set (bs_inflight s)" using c by (force simp: calls_ok_def)
  ultimately show ?thesis using assms(2) by (simp add: overtaken_def) (simp add: updateIssue_def)
qed

section \<open>The list's handlers\<close>

lemma list_over: "list_drag_over a ov s = handleDragOver a ov s"
  by (auto simp: list_drag_over_def handleDragOver_def Let_def split: option.splits)

lemma list_group: "bp_groups (bs_props s) = buildListGroups ss \<Longrightarrow> find_group (bs_props s) c = Some g \<Longrightarrow> bg_property_id g = None"
  by (auto simp: find_group_def buildListGroups_def dest!: find_in_set)

lemma list_reset_eq:
  "bp_grouping (bs_props s) = ''status'' \<Longrightarrow> bp_options (bs_props s) = None \<Longrightarrow> list_reset pv s = resetColumns pv s"
  by (simp add: list_reset_def list_columns_def resetColumns_def props_columns_def)

lemma list_by_group:
  assumes "bp_grouping (bs_props s) = ''status''" "bp_options (bs_props s) = None" "bg_property_id g = None"
  shows "list_drop_by_group pv a c c' g s = drop_by_group pv a c c' g s"
  using assms by (simp add: list_drop_by_group_def drop_by_group_def list_reset_eq applyPropertyGroupValue_def Let_def
      split: option.split)

lemma list_at_position:
  "bg_property_id g = None \<Longrightarrow> list_drop_at_position pv a ids g s = drop_at_position pv a ids g s"
  by (auto simp: list_drop_at_position_def drop_at_position_def applyPropertyGroupValue_def Let_def split: option.split)

lemma named_idem: "named c = Some d \<Longrightarrow> named (Some d) = Some d"
  by (auto simp: named_def split: if_splits)

lemma list_end:
  assumes "bp_grouping (bs_props s) = ''status''" "bp_options (bs_props s) = None"
    "bp_groups (bs_props s) = buildListGroups visibleStatuses"
  shows "list_drag_end am pv True a ov s = handleDragEnd am pv a ov s"
proof -
  define t where "t = s\<lparr>bs_dragging := False, bs_active := None\<rparr>"
  have t: "bp_grouping (bs_props t) = ''status''" "bp_options (bs_props t) = None"
    "bp_groups (bs_props t) = buildListGroups visibleStatuses"
    using assms by (simp_all add: t_def)
  have r: "list_reset pv u = resetColumns pv u" if "bs_props u = bs_props t" for u
    using t that by (simp add: list_reset_eq)
  have b: "list_drop_by_group pv a c c' q u = drop_by_group pv a c c' q u"
    "list_drop_at_position pv a ids q u = drop_at_position pv a ids q u"
    if "find_group (bs_props t) d = Some q" "bs_props u = bs_props t" for c c' d q u ids
    using t that list_group [OF t(3) that(1)] by (simp_all add: list_by_group list_at_position)
  note unfolded = list_drag_end_def handleDragEnd_def t_def [symmetric] Let_def
  show ?thesis
  proof (cases ov)
    case (Some ovId)
    show ?thesis
    proof (cases "named (findColumn (bs_columns t) a (group_ids (bs_props t)))")
      case c: (Some c)
      show ?thesis
      proof (cases "named (findColumn (bs_columns t) ovId (group_ids (bs_props t)))")
        case c': (Some c')
        note i = named_idem [OF c']
        show ?thesis
        proof (cases "bp_sort_by (bs_props t) = ''position''")
          case True
          then show ?thesis unfolding unfolded by (simp add: Some c c' r b split: sum.split option.split)
        next
          case False
          then show ?thesis unfolding unfolded by (simp add: Some c c' i r b split: option.split)
        qed
      qed (simp add: unfolded Some c r)
    qed (simp add: unfolded Some r)
  qed (simp add: unfolded r)
qed

end
