(* ===== verification/Board_Properties.thy ===== *)
theory Board_Properties
  imports Board_Locks
begin

text \<open>
  What dragging a card guarantees: the board ends as the patched cache, no card is lost or
  doubled, the settle lock ends, and the list behaves as the board. And what freezes a board, what leaves it
  stale, and what makes a drag over it throw.
\<close>

section \<open>Properties\<close>

text \<open>C9: a drag on a board by status ends as the cache it stands for. From a board that shows its
  cache, whatever columns and cards the pointer passes, the drop throws no error; either it sends nothing and
  the board shows that cache again, or it sends one move, and the board shows the cache patched with that
  move, in which the anchors sent are the neighbours of the card. Nothing else happens during the drag: no
  render with other issues, no menu write, no end of an earlier move (what a change of the cache meanwhile
  leaves behind is \<open>unchanged_drop_leaves_board_stale\<close>). Under the manual order the positions must increase
  strictly within a column; they are exact rationals, while the program halves doubles.\<close>

theorem drag_ends_as_cache:
  assumes "in_sync ss resp s" "buckets_ok resp" "bp_sort_by (bs_props s) = ''position'' \<Longrightarrow> ordered_buckets resp"
    and "list_all (drag_move a) es"
    and "run_ok (board_step am pv fires) (board_enabled am) s (DragStart a # es @ [DragEnd a ov])"
  shows "let t = foldl (board_step am pv fires) s (DragStart a # es @ [DragEnd a ov]) in
    bs_error t = None \<and> drop_agrees ss resp a s t"
proof -
  define u where "u = foldl (board_step am pv fires) (board_step am pv fires s (DragStart a)) es"
  have a: "a \<in> set (shown (bs_columns s))" using assms(5) by (simp add: board_enabled_def)
  have mid: "mid_drag ss resp s a u"
    unfolding u_def by (rule moves_drag [OF assms(1) a start_drag [OF assms(1) a] assms(4)])
  have "run_ok (board_step am pv fires) (board_enabled am) u [DragEnd a ov]"
    using assms(5) unfolding u_def by (simp add: run_ok_append)
  then have "list_all (\<lambda>(k, ids). moves_item am ids) (bs_columns u)" by (simp add: board_enabled_def)
  from end_drag [OF assms(1) a assms(2,3) mid this] obtain t' where
    t': "handleDragEnd am pv a ov (u\<lparr>bs_pointer := None\<rparr>) = Inr t'" "drop_agrees ss resp a s t'" by blast
  have "board_step am pv fires u (DragEnd a ov) = rerender t'" by (simp add: caught_def t'(1))
  moreover have "bs_error t' = None" using handleDragEnd_frame [OF t'(1)] mid by (simp add: same_frame_def mid_drag_def)
  moreover have "drop_agrees ss resp a s (rerender t')" using t'(2) by (simp add: drop_agrees_def)
  ultimately show ?thesis by (simp add: u_def)
qed

text \<open>C27: no event loses or doubles a card. In every reachable board each issue is in one column at
  most, and the cards shown after an event are those shown before it, or those of the props.\<close>

theorem board_keeps_cards:
  assumes "reachable (board_start pv) (board_step am pv fires) (board_enabled am) s" "board_enabled am s e"
  shows "let t = board_step am pv fires s e in
    distinct (shown (bs_columns t)) \<and>
    (mset (shown (bs_columns t)) = mset (shown (bs_columns s)) \<or>
     mset (shown (bs_columns t)) = mset (shown (props_columns pv (bs_props t))))"
  using board.inv_reachable [OF assms(1)] step_outcome [OF _ assms(2), of pv fires] inv_step [OF _ assms(2), of pv fires]
  by (simp add: Let_def keeps_cards_def board_invD(4)) blast

text \<open>C36: the settle lock ends. On a board to which no menu has written, when no drag is held and only the ends of
  the calls under way follow, in any order, then after the last of them the board is not locked and its
  columns are those of the cache, moves that failed included. A menu write while a move settles, and a drag
  that is cancelled, are outside: they freeze the columns (\<open>frozen_until_next_drag\<close>).\<close>

theorem board_unlocks:
  assumes "reachable (board_start pv) (board_step am pv fires) (calm_enabled am fires) s" "latest_fires fires"
    and "bs_error s = None" "bs_settling s" "\<not> bs_dragging s" "distinct ns" "set ns = fst ` set (bs_inflight s)"
  shows "let t = foldl (board_step am pv fires) s (map Settled ns) in
    \<not> bs_settling t \<and> bs_inflight t = [] \<and> follows_cache pv t"
  using locks.inv_reachable [OF assms(1)] settle_all [OF assms(5,3) _ _ assms(2,6,7)] assms(4) by blast

text \<open>What freezes a board. A write from the menu of a card while a move settles takes the callback
  that ends the lock away, and a drag that is cancelled never reaches the handler that ends it: from then on
  no render, no answer and no further menu write changes the columns, until another drag ends.\<close>

theorem frozen_until_next_drag:
  assumes "reachable (board_start pv) (board_step am pv fires) (board_enabled am) s"
    and "\<And>n m. fires n m \<longleftrightarrow> m = Some n"
    and "(e = MenuUpdate k patch \<and> bs_settling s) \<or> (e = DragCancel \<and> bs_dragging s)" "list_all no_drag es"
  shows "bs_columns (foldl (board_step am pv fires) s (e # es)) = bs_columns s"
proof (cases "e = DragCancel")
  case True
  with assms(3) have "bs_dragging (board_step am pv fires s e)" by auto
  from dragging_run [OF this assms(4)] True show ?thesis by simp
next
  case False
  then have e: "e = MenuUpdate k patch" "bs_settling s" using assms(3) by auto
  from overtaken_run [OF menu_overtakes [OF board.inv_reachable [OF assms(1)] e(2)] assms(4,2)]
  show ?thesis by (simp add: e) (simp add: updateIssue_def)
qed

text \<open>The list is the board by status. On the same columns and props the handlers of the list view
  do what those of the board do, errors included, when the list may move issues.\<close>

theorem list_is_board_by_status:
  assumes "bp_grouping (bs_props s) = ''status''" "bp_options (bs_props s) = None"
    "bp_groups (bs_props s) = buildListGroups visibleStatuses"
  shows "list_drag_over a ov s = handleDragOver a ov s \<and> list_drag_end am pv True a ov s = handleDragEnd am pv a ov s"
  using list_over list_end [OF assms] by blast

section \<open>A concrete board\<close>

definition card :: "jstr \<Rightarrow> IssueStatus \<Rightarrow> rat \<Rightarrow> issue" where
  "card k st pos =
     \<lparr>iss_id = k, iss_title = ''Task'', iss_status = st, iss_priority = Medium, iss_assignee_type = None,
      iss_assignee_id = None, iss_creator_id = ''u1'', iss_parent_issue_id = None, iss_project_id = None,
      iss_position = pos, iss_start_date = None, iss_due_date = None, iss_created_at = ''2026-01-01'',
      iss_updated_at = ''2026-01-01'', iss_other = []\<rparr>"

definition demo_cache :: list_cache where
  "demo_cache = [(Todo, \<lparr>b_issues = [card ''a'' Todo 1, card ''b'' Todo 2], b_total = 2\<rparr>),
     (Done, \<lparr>b_issues = [card ''c'' Done 1, card ''d'' Done 3], b_total = 2\<rparr>)]"

definition demo_issues :: "issue list" where
  "demo_issues = [card ''a'' Todo 1, card ''b'' Todo 2, card ''c'' Done 1, card ''d'' Done 3]"

definition demo_props :: "jstr \<Rightarrow> board_props" where
  "demo_props k = \<lparr>bp_issues = demo_issues, bp_groups = map status_group [Todo, Done], bp_grouping = ''status'',
     bp_options = None, bp_sort_by = k\<rparr>"

definition no_values :: property_read where
  "no_values i pid = None"

definition last_call_fires :: "nat \<Rightarrow> nat option \<Rightarrow> bool" where
  "last_call_fires n m = (m = Some n)"

definition demo_board :: board_state where
  "demo_board = mounted no_values (demo_props ''position'')"

text \<open>Card \<open>a\<close> is dragged over card \<open>d\<close> of the other column and dropped there.\<close>

definition demo_moves :: "board_event list" where
  "demo_moves = [DragOver ''a'' (Some ''d''), Frame]"

definition demo_drag :: "board_event list" where
  "demo_drag = DragStart ''a'' # demo_moves @ [DragEnd ''a'' (Some ''a'')]"

abbreviation demo_run :: "board_state \<Rightarrow> board_event list \<Rightarrow> board_state" where
  "demo_run s es \<equiv> foldl (board_step move_item no_values last_call_fires) s es"

abbreviation demo_ok :: "board_state \<Rightarrow> board_event list \<Rightarrow> bool" where
  "demo_ok s es \<equiv> run_ok (board_step move_item no_values last_call_fires) (board_enabled move_item) s es"

lemma demo_props_ok: "props_ok (demo_props ''position'')"
  by code_simp

lemma demo_bucket: "b_issues (getBucket demo_cache st) =
    (if st = Todo then [card ''a'' Todo 1, card ''b'' Todo 2] else if st = Done then [card ''c'' Done 1, card ''d'' Done 3] else [])"
  by (simp add: getBucket_def demo_cache_def map_get_def EMPTY_BUCKET_def)

lemma demo_buckets: "buckets_ok demo_cache" "ordered_buckets demo_cache"
  by (auto simp: buckets_ok_def ordered_buckets_def increasing_def bucket_ids_def demo_bucket card_def)

lemma demo_start: "reachable (board_start no_values) st en demo_board"
  by (rule reachable.init) (use demo_props_ok in \<open>auto simp: board_start_def demo_board_def\<close>)

lemma demo_shows: "list_all (\<lambda>st. obj_get (bs_columns demo_board) (statusGroupId st) = Some (bucket_ids demo_cache st)) [Todo, Done]"
  by code_simp

lemma demo_keys: "list_all (\<lambda>k. k \<in> set (map statusGroupId [Todo, Done])) (obj_keys (bs_columns demo_board))"
  by code_simp

lemma demo_filters: "list_all (\<lambda>st. filter (\<lambda>i. iss_status i = st) demo_issues = b_issues (getBucket demo_cache st)) [Todo, Done]"
  by (simp add: demo_bucket demo_issues_def card_def)

lemma demo_sync: "in_sync [Todo, Done] demo_cache demo_board"
proof -
  have "props_over [Todo, Done] demo_cache (demo_props ''position'')"
    using demo_filters demo_props_ok by (simp add: props_over_def demo_props_def)
  moreover have "cols_ok (bs_columns demo_board)"
    using board_invD(2) [OF inv_mounted [OF demo_props_ok]] by (simp add: demo_board_def)
  moreover have "shows_cache [Todo, Done] demo_cache (bs_columns demo_board)"
    using demo_shows by (simp add: shows_cache_def)
  moreover have "set (obj_keys (bs_columns demo_board)) \<subseteq> set (map statusGroupId [Todo, Done])"
    using demo_keys by (auto simp: list_all_iff)
  ultimately show ?thesis by (simp add: in_sync_def demo_board_def mounted_def)
qed

lemma demo_drag_ok: "demo_ok demo_board demo_drag"
  by code_simp

theorem drag_ends_as_cache_witness:
  "let t = demo_run demo_board demo_drag in
    bs_error t = None \<and> drop_agrees [Todo, Done] demo_cache ''a'' demo_board t"
  unfolding demo_drag_def
  by (rule drag_ends_as_cache [OF demo_sync demo_buckets _ demo_drag_ok [unfolded demo_drag_def]]) (simp add: demo_moves_def)

lemma demo_drag_sends:
  "bs_sent (demo_run demo_board demo_drag) = [MoveIssue ''a'' (status_move Done 2) (Some ''c'') (Some ''d'')]
   \<and> bs_columns (demo_run demo_board demo_drag) = [(statusGroupId Todo, [''b'']), (statusGroupId Done, [''c'', ''a'', ''d''])]"
  by code_simp

theorem board_keeps_cards_witness:
  "let t = board_step move_item no_values last_call_fires demo_board (DragStart ''a'') in
    distinct (shown (bs_columns t)) \<and>
    (mset (shown (bs_columns t)) = mset (shown (bs_columns demo_board)) \<or>
     mset (shown (bs_columns t)) = mset (shown (props_columns no_values (bs_props t))))"
  by (rule board_keeps_cards [OF demo_start]) (code_simp)

lemma demo_dropped:
  "reachable (board_start no_values) (board_step move_item no_values last_call_fires)
     (calm_enabled move_item last_call_fires) (demo_run demo_board demo_drag)"
proof (rule reachable_run [OF demo_start])
  have "run_ok (board_step move_item no_values last_call_fires) (calm_enabled move_item last_call_fires) s es"
    if "demo_ok s es" "list_all (\<lambda>e. \<not> is_menu e) es" for s es
    using that by (induction es arbitrary: s) (auto simp: calm_enabled_def latest_fires_def last_call_fires_def)
  from this [OF demo_drag_ok] show "run_ok (board_step move_item no_values last_call_fires)
      (calm_enabled move_item last_call_fires) demo_board demo_drag"
    by (simp add: demo_drag_def demo_moves_def)
qed

lemma demo_dropped_fields:
  "let t = demo_run demo_board demo_drag in bs_error t = None \<and> bs_settling t \<and> \<not> bs_dragging t \<and> bs_inflight t = [(0, True)]"
  by code_simp

theorem board_unlocks_witness:
  "let t = demo_run (demo_run demo_board demo_drag) (map Settled [0]) in
    \<not> bs_settling t \<and> bs_inflight t = [] \<and> follows_cache no_values t"
  by (rule board_unlocks [OF demo_dropped])
    (use demo_dropped_fields in \<open>simp_all add: Let_def latest_fires_def last_call_fires_def\<close>)

lemma demo_dropped':
  "reachable (board_start no_values) (board_step move_item no_values last_call_fires) (board_enabled move_item)
     (demo_run demo_board demo_drag)"
  by (rule reachable_run [OF demo_start demo_drag_ok])

text \<open>The card \<open>b\<close> changes in the cache after the write of the menu, and both writes end: the board does not see it.\<close>

definition later_issues :: "issue list" where
  "later_issues = [card ''c'' Done 1, card ''a'' Done 2, card ''b'' Done (5/2), card ''d'' Done 3]"

definition later_events :: "board_event list" where
  "later_events = [Render later_issues (map status_group [Todo, Done]) ''status'' None, Settled 1, Settled 0]"

theorem frozen_until_next_drag_witness:
  "bs_columns (demo_run (demo_run demo_board demo_drag) (MenuUpdate ''b'' (status_move Done (5/2)) # later_events))
     = bs_columns (demo_run demo_board demo_drag)"
  by (rule frozen_until_next_drag [OF demo_dropped', where k = "''b''" and patch = "status_move Done (5/2)"])
    (use demo_dropped_fields in \<open>simp_all add: Let_def last_call_fires_def later_events_def\<close>)

lemma menu_write_leaves_board_stale:
  "let t = demo_run (demo_run demo_board demo_drag) (MenuUpdate ''b'' (status_move Done (5/2)) # later_events) in
    bs_inflight t = [] \<and> bs_pointer t = None \<and> bs_columns t \<noteq> props_columns no_values (bs_props t)"
  by code_simp

theorem list_is_board_by_status_witness:
  "list_drag_over ''a'' (Some ''d'') demo_board = handleDragOver ''a'' (Some ''d'') demo_board
   \<and> list_drag_end move_item no_values True ''a'' (Some ''d'') demo_board
      = handleDragEnd move_item no_values ''a'' (Some ''d'') demo_board"
  by (rule list_is_board_by_status [where visibleStatuses = "[Todo, Done]"])
    (simp_all add: demo_board_def mounted_def demo_props_def buildListGroups_def)

section \<open>Where the board does not follow its cache\<close>

text \<open>A drop that changes nothing returns without a resync. The card \<open>b\<close> left the column during the drag:
  nothing is under way any more, and the board still shows it in its old column.\<close>

lemma unchanged_drop_leaves_board_stale:
  "let t = demo_run demo_board [DragStart ''a'',
       Render [card ''a'' Todo 1, card ''c'' Done 1, card ''b'' Done 2, card ''d'' Done 3]
         (map status_group [Todo, Done]) ''status'' None,
       DragEnd ''a'' (Some ''a'')] in
    bs_error t = None \<and> bs_sent t = [] \<and> \<not> bs_dragging t \<and> \<not> bs_settling t \<and>
    obj_get (bs_columns t) (statusGroupId Todo) = Some [''a'', ''b''] \<and>
    obj_get (props_columns no_values (bs_props t)) (statusGroupId Todo) = Some [''a'']"
  by code_simp

text \<open>A column that appears during a drag is on the screen and among the group identifiers, but not in the
  frozen column map: under the manual order, passing over it reads an absent column.\<close>

lemma passing_a_new_column_throws:
  "bs_error (demo_run demo_board [DragStart ''a'',
       Render (demo_issues @ [card ''e'' Blocked 1]) (map status_group [Todo, Done, Blocked]) ''status'' None,
       DragOver ''a'' (Some (statusGroupId Blocked))]) = Some TypeError"
  by code_simp

text \<open>A value whose option is gone puts the issue into the column without a value, and no column matches it:
  dropping the card back into its own column sends a move and unsets the property.\<close>

definition stale_value :: property_read where
  "stale_value i pid = Some (JStr ''gone'')"

definition option_board :: board_state where
  "option_board = mounted stale_value
     \<lparr>bp_issues = [card ''a'' Todo 1],
      bp_groups = [option_group ''p'' \<lparr>so_id = ''o1'', so_name = ''One'', so_color = ''red''\<rparr>, no_value_group ''p'' ''No value''],
      bp_grouping = ''property:p'', bp_options = Some [''o1''], bp_sort_by = ''position''\<rparr>"

lemma drop_in_own_column_unsets_value:
  "let t = foldl (board_step move_item stale_value last_call_fires) option_board [DragStart ''a'', DragEnd ''a'' (Some ''a'')] in
    bs_sent t = [MoveIssue ''a'' (no_patch\<lparr>p_position := Some 1\<rparr>) None None, UnsetProperty ''a'' ''p'']"
  by code_simp

text \<open>The library calls the handler when the target changes. A change within the frame of the last local move
  is dropped by the throttle, and the drop then lands where the last local move put the card.\<close>

lemma throttled_move_lands_in_previous_column:
  "let t = demo_run demo_board
      [DragStart ''a'', DragOver ''a'' (Some (statusGroupId Done)), DragOver ''a'' (Some (statusGroupId Todo)), Frame,
       DragEnd ''a'' (Some (statusGroupId Todo))] in
    obj_get (bs_columns t) (statusGroupId Done) = Some [''c'', ''d'', ''a''] \<and>
    bs_sent t = [MoveIssue ''a'' (status_move Done 4) (Some ''d'') None]"
  by code_simp

end
