(* ===== verification/View_State.thy ===== *)
theory View_State
  imports Issue_Model
begin

text \<open>
  The state of an issue view (\<open>packages/core/issues/stores/view-store.ts\<close>): the actions of
  \<open>viewStoreSlice\<close>, what is persisted, and how a persisted state is merged. A persisted field is an option;
  for the fields whose shape the merge examines, \<open>Misshapen\<close> stands for any value of another shape.
\<close>

section \<open>State\<close>

datatype ViewMode = VBoard | VList | VTable | VGantt | VSwimlane

datatype GanttZoom = ZDay | ZWeek | ZMonth

datatype SwimlaneGrouping = SLParent | SLProject | SLAssignee

datatype SortDirection = Asc | Desc

datatype CardKey = CPriority | CDescription | CAssignee | CStartDate | CDueDate | CProject | CChildProgress | CLabels

datatype TableCalculation = CalcNone | CalcSum | CalcAverage | CalcCount

record actor_filter =
  af_type :: IssueAssigneeType
  af_id :: jstr

record date_filter =
  df_field :: jstr
  df_from :: jstr
  df_to :: jstr

record table_column =
  tc_key :: jstr
  tc_width :: "int option"

text \<open>\<open>Record<SwimlaneGrouping, string[]>\<close>\<close>

record lanes =
  ln_parent :: "jstr list"
  ln_project :: "jstr list"
  ln_assignee :: "jstr list"

record view_state =
  v_viewMode :: ViewMode
  v_grouping :: jstr
  v_statusFilters :: "IssueStatus list"
  v_priorityFilters :: "IssuePriority list"
  v_assigneeFilters :: "actor_filter list"
  v_includeNoAssignee :: bool
  v_creatorFilters :: "actor_filter list"
  v_projectFilters :: "jstr list"
  v_includeNoProject :: bool
  v_labelFilters :: "jstr list"
  v_propertyFilters :: "jstr list jsobj"
  v_dateFilter :: "date_filter option"
  v_agentRunningFilter :: bool
  v_sortBy :: jstr
  v_sortDirection :: SortDirection
  v_cardProperties :: "(CardKey, bool) jsmap"
  v_cardPropertyIds :: "jstr list"
  v_showSubIssues :: bool
  v_listCollapsedStatuses :: "IssueStatus list"
  v_ganttZoom :: GanttZoom
  v_ganttShowCompleted :: bool
  v_swimlaneGrouping :: SwimlaneGrouping
  v_swimlaneOrders :: lanes
  v_collapsedSwimlanes :: lanes
  v_tableColumns :: "table_column list"
  v_tableGrouping :: jstr
  v_tableCollapsedGroups :: "jstr list"
  v_tableCollapsedParents :: "jstr list"
  v_tableHierarchy :: bool
  v_tableCalculation :: TableCalculation

definition DEFAULT_TABLE_COLUMNS :: "table_column list" where
  "DEFAULT_TABLE_COLUMNS =
     [\<lparr>tc_key = ''title'', tc_width = Some 360\<rparr>, \<lparr>tc_key = ''status'', tc_width = Some 150\<rparr>,
      \<lparr>tc_key = ''priority'', tc_width = Some 130\<rparr>, \<lparr>tc_key = ''assignee'', tc_width = Some 180\<rparr>,
      \<lparr>tc_key = ''due_date'', tc_width = Some 140\<rparr>, \<lparr>tc_key = ''labels'', tc_width = Some 220\<rparr>]"

definition no_lanes :: lanes where
  "no_lanes = \<lparr>ln_parent = [], ln_project = [], ln_assignee = []\<rparr>"

definition default_view :: view_state where
  "default_view =
     \<lparr>v_viewMode = VBoard, v_grouping = ''status'', v_statusFilters = [], v_priorityFilters = [],
      v_assigneeFilters = [], v_includeNoAssignee = False, v_creatorFilters = [], v_projectFilters = [],
      v_includeNoProject = False, v_labelFilters = [], v_propertyFilters = [], v_dateFilter = None,
      v_agentRunningFilter = False, v_sortBy = ''position'', v_sortDirection = Asc,
      v_cardProperties = [(CPriority, True), (CDescription, True), (CAssignee, True), (CStartDate, True),
        (CDueDate, True), (CProject, True), (CChildProgress, True), (CLabels, True)],
      v_cardPropertyIds = [], v_showSubIssues = True, v_listCollapsedStatuses = [], v_ganttZoom = ZWeek,
      v_ganttShowCompleted = False, v_swimlaneGrouping = SLAssignee, v_swimlaneOrders = no_lanes,
      v_collapsedSwimlanes = no_lanes, v_tableColumns = DEFAULT_TABLE_COLUMNS, v_tableGrouping = ''none'',
      v_tableCollapsedGroups = [], v_tableCollapsedParents = [], v_tableHierarchy = True,
      v_tableCalculation = CalcNone\<rparr>"

section \<open>Actions\<close>

text \<open>\<open>xs.includes(x) ? xs.filter((y) => y !== x) : [...xs, x]\<close>\<close>

definition toggle_in :: "'a \<Rightarrow> 'a list \<Rightarrow> 'a list" where
  "toggle_in x xs = (if x \<in> set xs then filter (\<lambda>y. y \<noteq> x) xs else xs @ [x])"

definition setViewMode :: "ViewMode \<Rightarrow> view_state \<Rightarrow> view_state" where
  "setViewMode mode s = s\<lparr>v_viewMode := mode\<rparr>"

definition setGanttZoom :: "GanttZoom \<Rightarrow> view_state \<Rightarrow> view_state" where
  "setGanttZoom zoom s = s\<lparr>v_ganttZoom := zoom\<rparr>"

definition toggleGanttShowCompleted :: "view_state \<Rightarrow> view_state" where
  "toggleGanttShowCompleted s = s\<lparr>v_ganttShowCompleted := \<not> v_ganttShowCompleted s\<rparr>"

definition setGrouping :: "jstr \<Rightarrow> view_state \<Rightarrow> view_state" where
  "setGrouping grouping s = s\<lparr>v_grouping := grouping\<rparr>"

definition toggleStatusFilter :: "IssueStatus \<Rightarrow> view_state \<Rightarrow> view_state" where
  "toggleStatusFilter status s = s\<lparr>v_statusFilters := toggle_in status (v_statusFilters s)\<rparr>"

definition togglePriorityFilter :: "IssuePriority \<Rightarrow> view_state \<Rightarrow> view_state" where
  "togglePriorityFilter priority s = s\<lparr>v_priorityFilters := toggle_in priority (v_priorityFilters s)\<rparr>"

definition toggleAssigneeFilter :: "actor_filter \<Rightarrow> view_state \<Rightarrow> view_state" where
  "toggleAssigneeFilter value s = s\<lparr>v_assigneeFilters := toggle_in value (v_assigneeFilters s)\<rparr>"

definition toggleNoAssignee :: "view_state \<Rightarrow> view_state" where
  "toggleNoAssignee s = s\<lparr>v_includeNoAssignee := \<not> v_includeNoAssignee s\<rparr>"

definition toggleCreatorFilter :: "actor_filter \<Rightarrow> view_state \<Rightarrow> view_state" where
  "toggleCreatorFilter value s = s\<lparr>v_creatorFilters := toggle_in value (v_creatorFilters s)\<rparr>"

definition toggleProjectFilter :: "jstr \<Rightarrow> view_state \<Rightarrow> view_state" where
  "toggleProjectFilter projectId s = s\<lparr>v_projectFilters := toggle_in projectId (v_projectFilters s)\<rparr>"

definition toggleNoProject :: "view_state \<Rightarrow> view_state" where
  "toggleNoProject s = s\<lparr>v_includeNoProject := \<not> v_includeNoProject s\<rparr>"

definition toggleLabelFilter :: "jstr \<Rightarrow> view_state \<Rightarrow> view_state" where
  "toggleLabelFilter labelId s = s\<lparr>v_labelFilters := toggle_in labelId (v_labelFilters s)\<rparr>"

definition togglePropertyFilter :: "jstr \<Rightarrow> jstr \<Rightarrow> view_state \<Rightarrow> view_state" where
  "togglePropertyFilter propertyId optionId s =
     (let current = (case obj_get (v_propertyFilters s) propertyId of None \<Rightarrow> [] | Some xs \<Rightarrow> xs);
          nxt = toggle_in optionId current
      in s\<lparr>v_propertyFilters :=
           (if nxt = [] then obj_delete propertyId (v_propertyFilters s)
            else obj_set propertyId nxt (v_propertyFilters s))\<rparr>)"

definition setDateFilter :: "date_filter option \<Rightarrow> view_state \<Rightarrow> view_state" where
  "setDateFilter f s = s\<lparr>v_dateFilter := f\<rparr>"

definition toggleAgentRunningFilter :: "view_state \<Rightarrow> view_state" where
  "toggleAgentRunningFilter s = s\<lparr>v_agentRunningFilter := \<not> v_agentRunningFilter s\<rparr>"

definition hideStatus :: "IssueStatus \<Rightarrow> view_state \<Rightarrow> view_state" where
  "hideStatus status s =
     (if v_statusFilters s = [] then s\<lparr>v_statusFilters := filter (\<lambda>x. x \<noteq> status) ALL_STATUSES\<rparr>
      else s\<lparr>v_statusFilters := filter (\<lambda>x. x \<noteq> status) (v_statusFilters s)\<rparr>)"

definition showStatus :: "IssueStatus \<Rightarrow> view_state \<Rightarrow> view_state" where
  "showStatus status s =
     (if v_statusFilters s = [] then s
      else if status \<in> set (v_statusFilters s) then s
      else s\<lparr>v_statusFilters := v_statusFilters s @ [status]\<rparr>)"

definition clearFilters :: "view_state \<Rightarrow> view_state" where
  "clearFilters s = s\<lparr>v_statusFilters := [], v_priorityFilters := [], v_assigneeFilters := [],
     v_includeNoAssignee := False, v_creatorFilters := [], v_projectFilters := [], v_includeNoProject := False,
     v_labelFilters := [], v_propertyFilters := [], v_dateFilter := None, v_agentRunningFilter := False\<rparr>"

definition setSortBy :: "jstr \<Rightarrow> view_state \<Rightarrow> view_state" where
  "setSortBy field s = s\<lparr>v_sortBy := field\<rparr>"

definition setSortDirection :: "SortDirection \<Rightarrow> view_state \<Rightarrow> view_state" where
  "setSortDirection dir s = s\<lparr>v_sortDirection := dir\<rparr>"

definition toggleCardProperty :: "CardKey \<Rightarrow> view_state \<Rightarrow> view_state" where
  "toggleCardProperty key s =
     s\<lparr>v_cardProperties := map_set key (map_get (v_cardProperties s) key \<noteq> Some True) (v_cardProperties s)\<rparr>"

definition toggleCardPropertyId :: "jstr \<Rightarrow> view_state \<Rightarrow> view_state" where
  "toggleCardPropertyId propertyId s = s\<lparr>v_cardPropertyIds := toggle_in propertyId (v_cardPropertyIds s)\<rparr>"

definition toggleShowSubIssues :: "view_state \<Rightarrow> view_state" where
  "toggleShowSubIssues s = s\<lparr>v_showSubIssues := \<not> v_showSubIssues s\<rparr>"

definition toggleListCollapsed :: "IssueStatus \<Rightarrow> view_state \<Rightarrow> view_state" where
  "toggleListCollapsed status s = s\<lparr>v_listCollapsedStatuses := toggle_in status (v_listCollapsedStatuses s)\<rparr>"

definition setSwimlaneGrouping :: "SwimlaneGrouping \<Rightarrow> view_state \<Rightarrow> view_state" where
  "setSwimlaneGrouping grouping s = s\<lparr>v_swimlaneGrouping := grouping\<rparr>"

fun lane_get :: "SwimlaneGrouping \<Rightarrow> lanes \<Rightarrow> jstr list" where
  "lane_get SLParent l = ln_parent l"
| "lane_get SLProject l = ln_project l"
| "lane_get SLAssignee l = ln_assignee l"

fun lane_set :: "SwimlaneGrouping \<Rightarrow> jstr list \<Rightarrow> lanes \<Rightarrow> lanes" where
  "lane_set SLParent xs l = l\<lparr>ln_parent := xs\<rparr>"
| "lane_set SLProject xs l = l\<lparr>ln_project := xs\<rparr>"
| "lane_set SLAssignee xs l = l\<lparr>ln_assignee := xs\<rparr>"

definition setSwimlaneOrder :: "jstr list \<Rightarrow> view_state \<Rightarrow> view_state" where
  "setSwimlaneOrder order s = s\<lparr>v_swimlaneOrders := lane_set (v_swimlaneGrouping s) order (v_swimlaneOrders s)\<rparr>"

definition toggleSwimlaneCollapsed :: "jstr \<Rightarrow> view_state \<Rightarrow> view_state" where
  "toggleSwimlaneCollapsed key s =
     (let grouping = v_swimlaneGrouping s; current = lane_get grouping (v_collapsedSwimlanes s)
      in s\<lparr>v_collapsedSwimlanes := lane_set grouping (toggle_in key current) (v_collapsedSwimlanes s)\<rparr>)"

definition toggleTableColumn :: "jstr \<Rightarrow> view_state \<Rightarrow> view_state" where
  "toggleTableColumn key s =
     (if key = ''title'' then s
      else if list_ex (\<lambda>c. tc_key c = key) (v_tableColumns s)
      then s\<lparr>v_tableColumns := filter (\<lambda>c. tc_key c \<noteq> key) (v_tableColumns s)\<rparr>
      else s\<lparr>v_tableColumns := v_tableColumns s @ [\<lparr>tc_key = key, tc_width = None\<rparr>]\<rparr>)"

definition reorderTableColumn :: "jstr \<Rightarrow> jstr \<Rightarrow> view_state \<Rightarrow> view_state" where
  "reorderTableColumn active target s =
     (if active = ''title'' \<or> target = ''title'' \<or> active = target then s
      else case (find_index (\<lambda>c. tc_key c = active) (v_tableColumns s), find_index (\<lambda>c. tc_key c = target) (v_tableColumns s)) of
        (Some src, Some dst) \<Rightarrow>
          s\<lparr>v_tableColumns := insert_nth dst (v_tableColumns s ! src) (remove_nth src (v_tableColumns s))\<rparr>
      | _ \<Rightarrow> s)"

definition setTableColumnWidth :: "jstr \<Rightarrow> int option \<Rightarrow> view_state \<Rightarrow> view_state" where
  "setTableColumnWidth key width s =
     s\<lparr>v_tableColumns := map (\<lambda>c. if tc_key c = key then c\<lparr>tc_width := width\<rparr> else c) (v_tableColumns s)\<rparr>"

definition setTableGrouping :: "jstr \<Rightarrow> view_state \<Rightarrow> view_state" where
  "setTableGrouping grouping s = s\<lparr>v_tableGrouping := grouping\<rparr>"

definition toggleTableGroupCollapsed :: "jstr \<Rightarrow> view_state \<Rightarrow> view_state" where
  "toggleTableGroupCollapsed key s = s\<lparr>v_tableCollapsedGroups := toggle_in key (v_tableCollapsedGroups s)\<rparr>"

definition toggleTableParentCollapsed :: "jstr \<Rightarrow> view_state \<Rightarrow> view_state" where
  "toggleTableParentCollapsed issueId s = s\<lparr>v_tableCollapsedParents := toggle_in issueId (v_tableCollapsedParents s)\<rparr>"

definition toggleTableHierarchy :: "view_state \<Rightarrow> view_state" where
  "toggleTableHierarchy s = s\<lparr>v_tableHierarchy := \<not> v_tableHierarchy s\<rparr>"

definition setTableCalculation :: "TableCalculation \<Rightarrow> view_state \<Rightarrow> view_state" where
  "setTableCalculation calculation s = s\<lparr>v_tableCalculation := calculation\<rparr>"

datatype view_op =
    SetViewMode ViewMode | SetGanttZoom GanttZoom | ToggleGanttShowCompleted | SetGrouping jstr
  | ToggleStatusFilter IssueStatus | TogglePriorityFilter IssuePriority | ToggleAssigneeFilter actor_filter
  | ToggleNoAssignee | ToggleCreatorFilter actor_filter | ToggleProjectFilter jstr | ToggleNoProject
  | ToggleLabelFilter jstr | TogglePropertyFilter jstr jstr | SetDateFilter "date_filter option"
  | ToggleAgentRunningFilter | HideStatus IssueStatus | ShowStatus IssueStatus | ClearFilters | SetSortBy jstr
  | SetSortDirection SortDirection | ToggleCardProperty CardKey | ToggleCardPropertyId jstr | ToggleShowSubIssues
  | ToggleListCollapsed IssueStatus | SetSwimlaneGrouping SwimlaneGrouping | SetSwimlaneOrder "jstr list"
  | ToggleSwimlaneCollapsed jstr | ToggleTableColumn jstr | ReorderTableColumn jstr jstr
  | SetTableColumnWidth jstr "int option" | SetTableGrouping jstr | ToggleTableGroupCollapsed jstr
  | ToggleTableParentCollapsed jstr | ToggleTableHierarchy | SetTableCalculation TableCalculation

fun view_step :: "view_op \<Rightarrow> view_state \<Rightarrow> view_state" where
  "view_step (SetViewMode m) = setViewMode m"
| "view_step (SetGanttZoom z) = setGanttZoom z"
| "view_step ToggleGanttShowCompleted = toggleGanttShowCompleted"
| "view_step (SetGrouping g) = setGrouping g"
| "view_step (ToggleStatusFilter x) = toggleStatusFilter x"
| "view_step (TogglePriorityFilter x) = togglePriorityFilter x"
| "view_step (ToggleAssigneeFilter x) = toggleAssigneeFilter x"
| "view_step ToggleNoAssignee = toggleNoAssignee"
| "view_step (ToggleCreatorFilter x) = toggleCreatorFilter x"
| "view_step (ToggleProjectFilter x) = toggleProjectFilter x"
| "view_step ToggleNoProject = toggleNoProject"
| "view_step (ToggleLabelFilter x) = toggleLabelFilter x"
| "view_step (TogglePropertyFilter p x) = togglePropertyFilter p x"
| "view_step (SetDateFilter f) = setDateFilter f"
| "view_step ToggleAgentRunningFilter = toggleAgentRunningFilter"
| "view_step (HideStatus x) = hideStatus x"
| "view_step (ShowStatus x) = showStatus x"
| "view_step ClearFilters = clearFilters"
| "view_step (SetSortBy f) = setSortBy f"
| "view_step (SetSortDirection d) = setSortDirection d"
| "view_step (ToggleCardProperty k) = toggleCardProperty k"
| "view_step (ToggleCardPropertyId k) = toggleCardPropertyId k"
| "view_step ToggleShowSubIssues = toggleShowSubIssues"
| "view_step (ToggleListCollapsed x) = toggleListCollapsed x"
| "view_step (SetSwimlaneGrouping g) = setSwimlaneGrouping g"
| "view_step (SetSwimlaneOrder xs) = setSwimlaneOrder xs"
| "view_step (ToggleSwimlaneCollapsed k) = toggleSwimlaneCollapsed k"
| "view_step (ToggleTableColumn k) = toggleTableColumn k"
| "view_step (ReorderTableColumn a b) = reorderTableColumn a b"
| "view_step (SetTableColumnWidth k w) = setTableColumnWidth k w"
| "view_step (SetTableGrouping g) = setTableGrouping g"
| "view_step (ToggleTableGroupCollapsed k) = toggleTableGroupCollapsed k"
| "view_step (ToggleTableParentCollapsed k) = toggleTableParentCollapsed k"
| "view_step ToggleTableHierarchy = toggleTableHierarchy"
| "view_step (SetTableCalculation c) = setTableCalculation c"

section \<open>What a view shows of the statuses\<close>

definition visible_statuses :: "IssueStatus list \<Rightarrow> IssueStatus list" where
  "visible_statuses statusFilters =
     (if statusFilters \<noteq> [] then filter (\<lambda>s. s \<in> set statusFilters) ALL_STATUSES else ALL_STATUSES)"

definition hidden_statuses :: "IssueStatus list \<Rightarrow> IssueStatus list" where
  "hidden_statuses visible = filter (\<lambda>s. s \<notin> set visible) ALL_STATUSES"

section \<open>Persistence\<close>

datatype 'a shaped = Shaped 'a | Misshapen

record part_lanes =
  pl_parent :: "jstr list option"
  pl_project :: "jstr list option"
  pl_assignee :: "jstr list option"

text \<open>\<open>Partial\<close> of the fields of a view, in what was stored; an entry of the table columns without a string key is \<open>None\<close>.\<close>

record persisted_view =
  pv_viewMode :: "ViewMode option"
  pv_grouping :: "jstr option"
  pv_statusFilters :: "IssueStatus list option"
  pv_priorityFilters :: "IssuePriority list option"
  pv_assigneeFilters :: "actor_filter list option"
  pv_includeNoAssignee :: "bool option"
  pv_creatorFilters :: "actor_filter list option"
  pv_projectFilters :: "jstr list option"
  pv_includeNoProject :: "bool option"
  pv_labelFilters :: "jstr list option"
  pv_propertyFilters :: "jstr list jsobj option"
  pv_dateFilter :: "date_filter option option"
  pv_agentRunningFilter :: "bool option"
  pv_sortBy :: "jstr option"
  pv_sortDirection :: "SortDirection option"
  pv_cardProperties :: "(CardKey, bool) jsmap option"
  pv_cardPropertyIds :: "jstr list option"
  pv_showSubIssues :: "bool option"
  pv_listCollapsedStatuses :: "IssueStatus list option"
  pv_ganttZoom :: "GanttZoom option"
  pv_ganttShowCompleted :: "bool option"
  pv_swimlaneGrouping :: "SwimlaneGrouping option"
  pv_swimlaneOrders :: "part_lanes shaped option"
  pv_collapsedSwimlanes :: "part_lanes shaped option"
  pv_tableColumns :: "table_column option list shaped option"
  pv_tableGrouping :: "jstr option"
  pv_tableCollapsedGroups :: "jstr list shaped option"
  pv_tableCollapsedParents :: "jstr list shaped option"
  pv_tableHierarchy :: "bool option"
  pv_tableCalculation :: "TableCalculation option"

definition all_lanes :: "lanes \<Rightarrow> part_lanes" where
  "all_lanes l = \<lparr>pl_parent = Some (ln_parent l), pl_project = Some (ln_project l), pl_assignee = Some (ln_assignee l)\<rparr>"

definition view_partialize :: "view_state \<Rightarrow> persisted_view" where
  "view_partialize s =
     \<lparr>pv_viewMode = Some (v_viewMode s), pv_grouping = Some (v_grouping s),
      pv_statusFilters = Some (v_statusFilters s), pv_priorityFilters = Some (v_priorityFilters s),
      pv_assigneeFilters = Some (v_assigneeFilters s), pv_includeNoAssignee = Some (v_includeNoAssignee s),
      pv_creatorFilters = Some (v_creatorFilters s), pv_projectFilters = Some (v_projectFilters s),
      pv_includeNoProject = Some (v_includeNoProject s), pv_labelFilters = Some (v_labelFilters s),
      pv_propertyFilters = Some (v_propertyFilters s), pv_dateFilter = None, pv_agentRunningFilter = None,
      pv_sortBy = Some (v_sortBy s),
      pv_sortDirection = Some (v_sortDirection s), pv_cardProperties = Some (v_cardProperties s),
      pv_cardPropertyIds = Some (v_cardPropertyIds s), pv_showSubIssues = Some (v_showSubIssues s),
      pv_listCollapsedStatuses = Some (v_listCollapsedStatuses s), pv_ganttZoom = Some (v_ganttZoom s),
      pv_ganttShowCompleted = Some (v_ganttShowCompleted s), pv_swimlaneGrouping = Some (v_swimlaneGrouping s),
      pv_swimlaneOrders = Some (Shaped (all_lanes (v_swimlaneOrders s))),
      pv_collapsedSwimlanes = Some (Shaped (all_lanes (v_collapsedSwimlanes s))),
      pv_tableColumns = Some (Shaped (map Some (v_tableColumns s))), pv_tableGrouping = Some (v_tableGrouping s),
      pv_tableCollapsedGroups = Some (Shaped (v_tableCollapsedGroups s)),
      pv_tableCollapsedParents = Some (Shaped (v_tableCollapsedParents s)),
      pv_tableHierarchy = Some (v_tableHierarchy s), pv_tableCalculation = Some (v_tableCalculation s)\<rparr>"

text \<open>\<open>isRecord(p) ? { ...current, ...p } : current\<close>\<close>

definition merge_lanes :: "part_lanes shaped option \<Rightarrow> lanes \<Rightarrow> lanes" where
  "merge_lanes p current =
     (case p of
        Some (Shaped l) \<Rightarrow> \<lparr>ln_parent = over (pl_parent l) (ln_parent current),
          ln_project = over (pl_project l) (ln_project current), ln_assignee = over (pl_assignee l) (ln_assignee current)\<rparr>
      | _ \<Rightarrow> current)"

definition merge_array :: "'a list shaped option \<Rightarrow> 'a list \<Rightarrow> 'a list" where
  "merge_array p current = (case p of Some (Shaped xs) \<Rightarrow> xs | _ \<Rightarrow> current)"

text \<open>\<open>Array.from(new Map(columns.map((c) => [c.key, c])).values())\<close>: the last column of a key, at the place of
  the first.\<close>

definition dedupe_columns :: "table_column list \<Rightarrow> table_column list" where
  "dedupe_columns cols = map snd (fold (\<lambda>c. map_set (tc_key c) c) cols [])"

definition merge_table_columns :: "table_column option list shaped option \<Rightarrow> table_column list \<Rightarrow> table_column list" where
  "merge_table_columns p current =
     (let persisted = (case p of Some (Shaped xs) \<Rightarrow> List.map_filter id xs | _ \<Rightarrow> current);
          deduped = filter (\<lambda>c. tc_key c \<noteq> ''title'') (dedupe_columns persisted);
          title = (case find (\<lambda>c. tc_key c = ''title'') persisted of
             Some c \<Rightarrow> c
           | None \<Rightarrow> (case current of c # _ \<Rightarrow> c | [] \<Rightarrow> \<lparr>tc_key = ''title'', tc_width = None\<rparr>))
      in title # deduped)"

definition no_view :: persisted_view where
  "no_view = \<lparr>pv_viewMode = None, pv_grouping = None, pv_statusFilters = None, pv_priorityFilters = None,
     pv_assigneeFilters = None, pv_includeNoAssignee = None, pv_creatorFilters = None, pv_projectFilters = None,
     pv_includeNoProject = None, pv_labelFilters = None, pv_propertyFilters = None, pv_dateFilter = None,
     pv_agentRunningFilter = None, pv_sortBy = None,
     pv_sortDirection = None, pv_cardProperties = None, pv_cardPropertyIds = None, pv_showSubIssues = None,
     pv_listCollapsedStatuses = None, pv_ganttZoom = None, pv_ganttShowCompleted = None, pv_swimlaneGrouping = None,
     pv_swimlaneOrders = None, pv_collapsedSwimlanes = None, pv_tableColumns = None, pv_tableGrouping = None,
     pv_tableCollapsedGroups = None, pv_tableCollapsedParents = None, pv_tableHierarchy = None,
     pv_tableCalculation = None\<rparr>"

definition mergeViewStatePersisted :: "persisted_view option \<Rightarrow> view_state \<Rightarrow> view_state" where
  "mergeViewStatePersisted persisted current =
     (let p = (case persisted of None \<Rightarrow> no_view | Some q \<Rightarrow> q) in
      \<lparr>v_viewMode = over (pv_viewMode p) (v_viewMode current),
       v_grouping = over (pv_grouping p) (v_grouping current),
       v_statusFilters = over (pv_statusFilters p) (v_statusFilters current),
       v_priorityFilters = over (pv_priorityFilters p) (v_priorityFilters current),
       v_assigneeFilters = over (pv_assigneeFilters p) (v_assigneeFilters current),
       v_includeNoAssignee = over (pv_includeNoAssignee p) (v_includeNoAssignee current),
       v_creatorFilters = over (pv_creatorFilters p) (v_creatorFilters current),
       v_projectFilters = over (pv_projectFilters p) (v_projectFilters current),
       v_includeNoProject = over (pv_includeNoProject p) (v_includeNoProject current),
       v_labelFilters = over (pv_labelFilters p) (v_labelFilters current),
       v_propertyFilters = over (pv_propertyFilters p) (v_propertyFilters current),
       v_dateFilter = over (pv_dateFilter p) (v_dateFilter current),
       v_agentRunningFilter = over (pv_agentRunningFilter p) (v_agentRunningFilter current),
       v_sortBy = over (pv_sortBy p) (v_sortBy current),
       v_sortDirection = over (pv_sortDirection p) (v_sortDirection current),
       v_cardProperties = fold (\<lambda>(k, b). map_set k b)
         (case pv_cardProperties p of None \<Rightarrow> [] | Some m \<Rightarrow> m) (v_cardProperties current),
       v_cardPropertyIds = over (pv_cardPropertyIds p) (v_cardPropertyIds current),
       v_showSubIssues = over (pv_showSubIssues p) (v_showSubIssues current),
       v_listCollapsedStatuses = over (pv_listCollapsedStatuses p) (v_listCollapsedStatuses current),
       v_ganttZoom = over (pv_ganttZoom p) (v_ganttZoom current),
       v_ganttShowCompleted = over (pv_ganttShowCompleted p) (v_ganttShowCompleted current),
       v_swimlaneGrouping = over (pv_swimlaneGrouping p) (v_swimlaneGrouping current),
       v_swimlaneOrders = merge_lanes (pv_swimlaneOrders p) (v_swimlaneOrders current),
       v_collapsedSwimlanes = merge_lanes (pv_collapsedSwimlanes p) (v_collapsedSwimlanes current),
       v_tableColumns = merge_table_columns (pv_tableColumns p) (v_tableColumns current),
       v_tableGrouping = over (pv_tableGrouping p) (v_tableGrouping current),
       v_tableCollapsedGroups = merge_array (pv_tableCollapsedGroups p) (v_tableCollapsedGroups current),
       v_tableCollapsedParents = merge_array (pv_tableCollapsedParents p) (v_tableCollapsedParents current),
       v_tableHierarchy = over (pv_tableHierarchy p) (v_tableHierarchy current),
       v_tableCalculation = over (pv_tableCalculation p) (v_tableCalculation current)\<rparr>)"

text \<open>\<open>useClearFiltersOnWorkspaceChange\<close>: the effect, with the identifier it saw before.\<close>

definition clear_on_workspace_change :: "jstr option \<Rightarrow> jstr option \<Rightarrow> view_state \<Rightarrow> view_state" where
  "clear_on_workspace_change prev wsId s =
     (case (prev, wsId) of
        (Some p, Some w) \<Rightarrow> if p \<noteq> [] \<and> w \<noteq> [] \<and> w \<noteq> p then clearFilters s else s
      | _ \<Rightarrow> s)"

end
