(* ===== verification/View_Properties.thy ===== *)
theory View_Properties
  imports View_State Machines
begin

text \<open>
  The view states of the issue surfaces (\<open>packages/core/issues/stores/surface-view-store.ts\<close>): one store
  per surface, a registry of what each surface persists, and the storage, which holds one registry per
  workspace. The microtasks a switch of the workspace queues (rehydrate the registry, then reset the stores)
  run before the next event. Also the store of My Issues (\<open>my-issues-view-store.ts\<close>), which
  persists by itself.
\<close>

section \<open>Well-formed views\<close>

definition table_ok :: "table_column list \<Rightarrow> bool" where
  "table_ok cols = (cols \<noteq> [] \<and> tc_key (hd cols) = ''title'' \<and> distinct (map tc_key cols))"

definition card_keys :: "CardKey list" where
  "card_keys = [CPriority, CDescription, CAssignee, CStartDate, CDueDate, CProject, CChildProgress, CLabels]"

definition view_ok :: "view_state \<Rightarrow> bool" where
  "view_ok v = (table_ok (v_tableColumns v) \<and> map_keys (v_cardProperties v) = card_keys)"

lemma default_view_ok: "view_ok default_view"
  by (simp add: view_ok_def default_view_def table_ok_def DEFAULT_TABLE_COLUMNS_def map_keys_def card_keys_def)

lemma table_ok_filter: "table_ok cols \<Longrightarrow> key \<noteq> ''title'' \<Longrightarrow> table_ok (filter (\<lambda>c. tc_key c \<noteq> key) cols)"
  by (cases cols) (auto simp: table_ok_def distinct_map_filter)

lemma table_ok_append:
  "table_ok cols \<Longrightarrow> tc_key c \<notin> tc_key ` set cols \<Longrightarrow> table_ok (cols @ [c])"
  by (auto simp: table_ok_def)

lemma table_ok_cong: "table_ok a \<Longrightarrow> map tc_key b = map tc_key a \<Longrightarrow> table_ok b"
  by (cases a; cases b) (auto simp: table_ok_def)

lemma table_ok_width:
  "table_ok cols \<Longrightarrow> table_ok (map (\<lambda>c. if tc_key c = key then c\<lparr>tc_width := w\<rparr> else c) cols)"
  by (erule table_ok_cong) simp

text \<open>Moving a column other than the title among the columns after it.\<close>

lemma table_ok_reorder:
  assumes ok: "table_ok cols" and i: "i < length cols" "tc_key (cols ! i) \<noteq> ''title''"
    and j: "j < length cols" "tc_key (cols ! j) \<noteq> ''title''"
  shows "table_ok (insert_nth j (cols ! i) (remove_nth i cols))"
proof -
  obtain c rest where cols: "cols = c # rest" "tc_key c = ''title''" using ok by (cases cols) (auto simp: table_ok_def)
  obtain i' j' where ij: "i = Suc i'" "j = Suc j'" using i j cols by (cases i; cases j) auto
  have eq: "insert_nth j (cols ! i) (remove_nth i cols) = c # insert_nth j' (rest ! i') (remove_nth i' rest)"
    by (simp add: insert_nth_def remove_nth_def cols ij)
  have "mset (insert_nth j' (rest ! i') (remove_nth i' rest)) = mset rest"
    using i(1) cols ij by (metis Suc_less_eq length_Cons mset_insert_nth mset_remove_nth)
  then have "mset (map tc_key (insert_nth j' (rest ! i') (remove_nth i' rest))) = mset (map tc_key rest)"
    by (metis mset_map)
  then have "distinct (map tc_key (c # insert_nth j' (rest ! i') (remove_nth i' rest))) = distinct (map tc_key cols)"
    unfolding cols by (intro mset_eq_imp_distinct_iff) simp
  with ok have "distinct (map tc_key (c # insert_nth j' (rest ! i') (remove_nth i' rest)))" by (simp add: table_ok_def)
  then show ?thesis unfolding eq table_ok_def by (simp add: cols(2))
qed

lemma card_map_set: "map_keys m = card_keys \<Longrightarrow> map_keys (map_set k b m) = card_keys"
  by (cases k) (auto simp: map_set_def card_keys_def map_keys_def)

lemma find_index_key: "find_index (\<lambda>c. tc_key c = k) cols = Some i \<Longrightarrow> i < length cols \<and> tc_key (cols ! i) = k"
  by (blast dest: find_index_Some)

lemma view_step_ok: "view_ok v \<Longrightarrow> view_ok (view_step op v)"
proof (cases op)
  case (ToggleTableColumn k)
  then show "view_ok v \<Longrightarrow> ?thesis"
    by (auto simp: view_ok_def toggleTableColumn_def list_ex_iff intro: table_ok_filter intro!: table_ok_append)
next
  case (ReorderTableColumn a b)
  then show "view_ok v \<Longrightarrow> ?thesis"
    by (auto simp: view_ok_def reorderTableColumn_def dest!: find_index_key split: option.splits intro!: table_ok_reorder)
qed (simp_all add: view_ok_def setViewMode_def setGanttZoom_def toggleGanttShowCompleted_def setGrouping_def
    toggleStatusFilter_def togglePriorityFilter_def toggleAssigneeFilter_def toggleNoAssignee_def toggleCreatorFilter_def
    toggleProjectFilter_def toggleNoProject_def toggleLabelFilter_def togglePropertyFilter_def setDateFilter_def
    toggleAgentRunningFilter_def hideStatus_def showStatus_def clearFilters_def setSortBy_def setSortDirection_def
    toggleCardProperty_def card_map_set toggleCardPropertyId_def toggleShowSubIssues_def toggleListCollapsed_def
    setSwimlaneGrouping_def setSwimlaneOrder_def toggleSwimlaneCollapsed_def Let_def setTableColumnWidth_def table_ok_width
    setTableGrouping_def toggleTableGroupCollapsed_def toggleTableParentCollapsed_def toggleTableHierarchy_def
    setTableCalculation_def)

section \<open>Merging\<close>

lemma dedupe_acc:
  "map_ok m \<Longrightarrow> \<forall>(k, c) \<in> set m. tc_key c = k \<Longrightarrow>
   map_ok (fold (\<lambda>c. map_set (tc_key c) c) cols m) \<and> (\<forall>(k, c) \<in> set (fold (\<lambda>c. map_set (tc_key c) c) cols m). tc_key c = k)"
proof (induction cols arbitrary: m)
  case (Cons c cols)
  have "\<forall>(k, d) \<in> set (map_set (tc_key c) c m). tc_key d = k"
    using Cons.prems(2) by (auto simp: map_set_def)
  from Cons.IH [OF map_ok_set [OF Cons.prems(1)] this] show ?case by simp
qed simp

lemma distinct_dedupe: "distinct (map tc_key (dedupe_columns cols))"
proof -
  have "map_ok (fold (\<lambda>c. map_set (tc_key c) c) cols [])" "\<forall>(k, c) \<in> set (fold (\<lambda>c. map_set (tc_key c) c) cols []). tc_key c = k"
    using dedupe_acc [of "[]" cols] by simp_all
  moreover from this(2) have "map tc_key (map snd (fold (\<lambda>c. map_set (tc_key c) c) cols [])) = map fst (fold (\<lambda>c. map_set (tc_key c) c) cols [])"
    by auto
  ultimately show ?thesis by (simp add: dedupe_columns_def map_ok_def map_keys_def del: map_map)
qed

lemma table_ok_merge:
  assumes "table_ok current"
  shows "table_ok (merge_table_columns p current)"
proof -
  define persisted where "persisted = (case p of Some (Shaped xs) \<Rightarrow> List.map_filter id xs | _ \<Rightarrow> current)"
  define title where "title = (case find (\<lambda>c. tc_key c = ''title'') persisted of
      Some c \<Rightarrow> c | None \<Rightarrow> (case current of c # _ \<Rightarrow> c | [] \<Rightarrow> \<lparr>tc_key = ''title'', tc_width = None\<rparr>))"
  have "tc_key title = ''title''"
    using assms by (auto simp: title_def table_ok_def dest: find_in_set split: option.splits list.splits)
  moreover have "merge_table_columns p current = title # filter (\<lambda>c. tc_key c \<noteq> ''title'') (dedupe_columns persisted)"
    by (simp add: merge_table_columns_def persisted_def [symmetric] title_def Let_def)
  ultimately show ?thesis by (auto simp: table_ok_def distinct_map_filter distinct_dedupe)
qed

lemma card_fold: "map_keys m = card_keys \<Longrightarrow> map_keys (fold (\<lambda>(k, b). map_set k b) xs m) = card_keys"
  by (induction xs arbitrary: m) (auto simp: card_map_set)

lemma merge_view_ok: "view_ok current \<Longrightarrow> view_ok (mergeViewStatePersisted p current)"
  by (simp add: view_ok_def mergeViewStatePersisted_def Let_def table_ok_merge card_fold split: option.split)

text \<open>What is written is read back, but for the two filters that are not persisted.\<close>

definition without_transient :: "view_state \<Rightarrow> view_state" where
  "without_transient v = v\<lparr>v_dateFilter := None, v_agentRunningFilter := False\<rparr>"

lemma dedupe_distinct_acc:
  "distinct (map tc_key (map snd m @ cols)) \<Longrightarrow> \<forall>(k, c) \<in> set m. tc_key c = k \<Longrightarrow>
   map snd (fold (\<lambda>c. map_set (tc_key c) c) cols m) = map snd m @ cols"
proof (induction cols arbitrary: m)
  case (Cons c cols)
  from Cons.prems(2) have "map fst m = map tc_key (map snd m)" by auto
  with Cons.prems(1) have "tc_key c \<notin> set (map_keys m)" by (simp add: map_keys_def image_image)
  then have "map_set (tc_key c) c m = m @ [(tc_key c, c)]" by (simp add: map_set_def)
  with Cons.IH [of "m @ [(tc_key c, c)]"] Cons.prems show ?case by auto
qed simp

lemma merge_table_same: "table_ok cols \<Longrightarrow> merge_table_columns (Some (Shaped (map Some cols))) current = cols"
proof -
  assume ok: "table_ok cols"
  then obtain c rest where cols: "cols = c # rest" "tc_key c = ''title''" by (cases cols) (auto simp: table_ok_def)
  have "List.map_filter id (map Some cols) = cols" by (induction cols) (simp_all add: List.map_filter_simps)
  moreover have "dedupe_columns cols = cols"
    using dedupe_distinct_acc [of "[]" cols] ok by (simp add: dedupe_columns_def table_ok_def)
  moreover have "filter (\<lambda>c. tc_key c \<noteq> ''title'') rest = rest"
    using ok cols by (auto simp: table_ok_def filter_id_conv) (metis image_eqI)
  ultimately show ?thesis by (simp add: merge_table_columns_def cols)
qed

lemma card_explicit:
  assumes "map_keys m = card_keys"
  obtains a b c d e f g h where
    "m = [(CPriority, a), (CDescription, b), (CAssignee, c), (CStartDate, d), (CDueDate, e), (CProject, f), (CChildProgress, g), (CLabels, h)]"
proof -
  from assms have "map fst m = [CPriority, CDescription, CAssignee, CStartDate, CDueDate, CProject, CChildProgress, CLabels]"
    by (simp add: map_keys_def card_keys_def)
  then show ?thesis by (auto simp: map_eq_Cons_conv intro: that)
qed

lemma card_merge_same: "map_keys m = card_keys \<Longrightarrow> map_keys c = card_keys \<Longrightarrow> fold (\<lambda>(k, b). map_set k b) m c = m"
  by (elim card_explicit) (simp add: map_set_def map_keys_def)

lemma merge_view_partialize:
  assumes "view_ok v"
  shows "mergeViewStatePersisted (Some (view_partialize v)) default_view = without_transient v"
proof -
  have "table_ok (v_tableColumns v)" "map_keys (v_cardProperties v) = card_keys" using assms by (simp_all add: view_ok_def)
  moreover have "map_keys (v_cardProperties default_view) = card_keys" using default_view_ok by (simp add: view_ok_def)
  ultimately show ?thesis
    by (simp add: mergeViewStatePersisted_def view_partialize_def Let_def over_def merge_lanes_def all_lanes_def
        merge_array_def merge_table_same card_merge_same without_transient_def default_view_def)
qed

section \<open>The surfaces\<close>

record surface_entry =
  se_state :: persisted_view
  se_updatedAt :: jstr

type_synonym registry = "surface_entry jsobj"

record surface_sys =
  ss_slug :: "jstr option"
  ss_surfaces :: registry
  ss_stores :: "(jstr, view_state) jsmap"
  ss_storage :: "(jstr, registry) jsmap"

text \<open>The workspace the storage names its items by; an empty slug is none.\<close>

definition active_slug :: "surface_sys \<Rightarrow> jstr option" where
  "active_slug s = (if ss_slug s = Some [] then None else ss_slug s)"

definition write_registry :: "surface_sys \<Rightarrow> surface_sys" where
  "write_registry s = (case active_slug s of None \<Rightarrow> s | Some w \<Rightarrow> s\<lparr>ss_storage := map_set w (ss_surfaces s) (ss_storage s)\<rparr>)"

definition setSurfaceState :: "jstr \<Rightarrow> jstr \<Rightarrow> view_state \<Rightarrow> surface_sys \<Rightarrow> surface_sys" where
  "setSurfaceState now key v s =
     write_registry (s\<lparr>ss_surfaces := obj_set key \<lparr>se_state = view_partialize v, se_updatedAt = now\<rparr> (ss_surfaces s)\<rparr>)"

definition clearSurfaceState :: "jstr \<Rightarrow> surface_sys \<Rightarrow> surface_sys" where
  "clearSurfaceState key s =
     write_registry (if obj_get (ss_surfaces s) key = None then s else s\<lparr>ss_surfaces := obj_delete key (ss_surfaces s)\<rparr>)"

definition pruneSurfaceStates :: "jstr list \<Rightarrow> surface_sys \<Rightarrow> surface_sys" where
  "pruneSurfaceStates valid s =
     (let kept = filter (\<lambda>(k, e). k \<in> set valid) (ss_surfaces s) in
      write_registry (if length kept = length (ss_surfaces s) then s else s\<lparr>ss_surfaces := kept\<rparr>))"

definition registry_view :: "registry \<Rightarrow> jstr \<Rightarrow> view_state" where
  "registry_view r key = mergeViewStatePersisted (map_option se_state (obj_get r key)) default_view"

text \<open>A view with the two filters as the registry has them: without, unless the stored item, which no \<open>partialize\<close>
  of the program writes them to, holds some.\<close>

definition settled_view :: "registry \<Rightarrow> jstr \<Rightarrow> view_state \<Rightarrow> view_state" where
  "settled_view r key v =
     v\<lparr>v_dateFilter := over (Option.bind (obj_get r key) (pv_dateFilter \<circ> se_state)) None,
       v_agentRunningFilter := over (Option.bind (obj_get r key) (pv_agentRunningFilter \<circ> se_state)) False\<rparr>"

text \<open>The reset of one store and of all stores; the registry is not written meanwhile.\<close>

definition resetStoreFromRegistry :: "jstr \<Rightarrow> surface_sys \<Rightarrow> surface_sys" where
  "resetStoreFromRegistry key s =
     (if map_get (ss_stores s) key = None then s
      else s\<lparr>ss_stores := map_set key (registry_view (ss_surfaces s) key) (ss_stores s)\<rparr>)"

definition resetAllSurfaceStoresFromRegistry :: "surface_sys \<Rightarrow> surface_sys" where
  "resetAllSurfaceStoresFromRegistry s =
     s\<lparr>ss_stores := map (\<lambda>(k, v). (k, registry_view (ss_surfaces s) k)) (ss_stores s)\<rparr>"

definition stored_registry :: "surface_sys \<Rightarrow> registry" where
  "stored_registry s =
     (case active_slug s of
        None \<Rightarrow> []
      | Some w \<Rightarrow> (case map_get (ss_storage s) w of None \<Rightarrow> [] | Some r \<Rightarrow> r))"

definition rehydrate_registry :: "surface_sys \<Rightarrow> surface_sys" where
  "rehydrate_registry s = s\<lparr>ss_surfaces := stored_registry s\<rparr>"

definition switch_workspace :: "jstr option \<Rightarrow> surface_sys \<Rightarrow> surface_sys" where
  "switch_workspace slug s =
     (if ss_slug s = slug then s
      else resetAllSurfaceStoresFromRegistry (rehydrate_registry (s\<lparr>ss_slug := slug\<rparr>)))"

definition getIssueSurfaceViewStore :: "jstr \<Rightarrow> surface_sys \<Rightarrow> surface_sys" where
  "getIssueSurfaceViewStore key s =
     (if map_get (ss_stores s) key \<noteq> None then s
      else s\<lparr>ss_stores := map_set key (registry_view (ss_surfaces s) key) (ss_stores s)\<rparr>)"

text \<open>An updater that returns the state it was given notifies no listener.\<close>

fun returns_state :: "view_op \<Rightarrow> view_state \<Rightarrow> bool" where
  "returns_state (ShowStatus x) v = (v_statusFilters v = [] \<or> x \<in> set (v_statusFilters v))"
| "returns_state (ToggleTableColumn k) v = (k = ''title'')"
| "returns_state (ReorderTableColumn a b) v =
     (a = ''title'' \<or> b = ''title'' \<or> a = b \<or> find_index (\<lambda>c. tc_key c = a) (v_tableColumns v) = None
      \<or> find_index (\<lambda>c. tc_key c = b) (v_tableColumns v) = None)"
| "returns_state _ _ = False"

definition store_action :: "jstr \<Rightarrow> view_op \<Rightarrow> jstr \<Rightarrow> surface_sys \<Rightarrow> surface_sys" where
  "store_action key op now s =
     (case map_get (ss_stores s) key of
        None \<Rightarrow> s
      | Some v \<Rightarrow>
          if returns_state op v then s
          else setSurfaceState now key (view_step op v)
                 (s\<lparr>ss_stores := map_set key (view_step op v) (ss_stores s)\<rparr>))"

definition clearIssueSurfaceViewState :: "jstr \<Rightarrow> surface_sys \<Rightarrow> surface_sys" where
  "clearIssueSurfaceViewState key s = resetStoreFromRegistry key (clearSurfaceState key s)"

definition pruneIssueSurfaceViewStates :: "jstr list \<Rightarrow> surface_sys \<Rightarrow> surface_sys" where
  "pruneIssueSurfaceViewStates valid s =
     (let s1 = pruneSurfaceStates valid s in
      fold (\<lambda>k. if k \<in> set valid then id else resetStoreFromRegistry k) (map_keys (ss_stores s1)) s1)"

definition reload_app :: "surface_sys \<Rightarrow> surface_sys" where
  "reload_app s = s\<lparr>ss_slug := None, ss_surfaces := [], ss_stores := []\<rparr>"

datatype surface_event =
    SwitchTo "jstr option"
  | GetStore jstr
  | StoreOp jstr view_op jstr
  | ClearSurface jstr
  | PruneSurfaces "jstr list"
  | Reload

fun surface_step :: "surface_sys \<Rightarrow> surface_event \<Rightarrow> surface_sys" where
  "surface_step s (SwitchTo slug) = switch_workspace slug s"
| "surface_step s (GetStore key) = getIssueSurfaceViewStore key s"
| "surface_step s (StoreOp key op now) = store_action key op now s"
| "surface_step s (ClearSurface key) = clearIssueSurfaceViewState key s"
| "surface_step s (PruneSurfaces valid) = pruneIssueSurfaceViewStates valid s"
| "surface_step s Reload = reload_app s"

text \<open>At the start the storage may hold whatever earlier builds left.\<close>

definition surface_start :: "surface_sys \<Rightarrow> bool" where
  "surface_start s = (ss_slug s = None \<and> ss_surfaces s = [] \<and> ss_stores s = []
     \<and> (\<forall>(w, r) \<in> set (ss_storage s). obj_ok r))"

section \<open>My Issues\<close>

record my_view =
  mv_view :: view_state
  mv_scope :: jstr

text \<open>The store's merge, and a rehydration: \<open>stored\<close> is the item of the workspace.\<close>

definition merge_my_view :: "(persisted_view \<times> jstr option) option \<Rightarrow> my_view \<Rightarrow> my_view" where
  "merge_my_view stored current =
     \<lparr>mv_view = mergeViewStatePersisted (map_option fst stored) (mv_view current),
      mv_scope = over (case stored of None \<Rightarrow> None | Some (_, sc) \<Rightarrow> sc) (mv_scope current)\<rparr>"

definition myIssuesRelationFromScope :: "jstr \<Rightarrow> jstr" where
  "myIssuesRelationFromScope scope = (if scope = ''agents'' then ''involved'' else scope)"

text \<open>
  What the view stores guarantee: every view is well formed whatever was stored, the view of a
  surface survives the visit of another workspace and a restart, and hiding a status hides it. And the
  cases in which hiding shows everything, and a workspace inherits the scope of the one before.
\<close>

section \<open>What every event keeps\<close>

definition storage_linked :: "surface_sys \<Rightarrow> bool" where
  "storage_linked s = (active_slug s \<noteq> None \<longrightarrow> ss_surfaces s = stored_registry s)"

definition surface_inv :: "surface_sys \<Rightarrow> bool" where
  "surface_inv s = (storage_linked s \<and>
     (\<forall>k v. map_get (ss_stores s) k = Some v \<longrightarrow> view_ok v \<and> settled_view (ss_surfaces s) k v = registry_view (ss_surfaces s) k))"

lemma registry_view_ok: "view_ok (registry_view r k)"
  by (simp add: registry_view_def merge_view_ok default_view_ok)

lemma registry_view_settled: "settled_view r k (registry_view r k) = registry_view r k"
  by (cases "obj_get r k") (simp_all add: registry_view_def settled_view_def mergeViewStatePersisted_def Let_def no_view_def
      default_view_def over_def split: option.split)

lemma settled_cong: "obj_get r k = obj_get r' k \<Longrightarrow> settled_view r k v = settled_view r' k v"
  by (simp add: settled_view_def)

lemma settled_written:
  "settled_view (obj_set key \<lparr>se_state = view_partialize v, se_updatedAt = now\<rparr> r) key u = without_transient u"
  by (simp add: settled_view_def obj_get_set view_partialize_def over_def without_transient_def)

lemma registry_view_cong: "obj_get r k = obj_get r' k \<Longrightarrow> registry_view r k = registry_view r' k"
  by (simp add: registry_view_def)

lemma write_fields [simp]:
  "ss_slug (write_registry s) = ss_slug s" "ss_surfaces (write_registry s) = ss_surfaces s"
  "ss_stores (write_registry s) = ss_stores s"
  by (simp_all add: write_registry_def split: option.split)

lemma write_linked: "storage_linked (write_registry s)"
  by (simp add: storage_linked_def write_registry_def stored_registry_def active_slug_def map_get_set split: option.split)

lemma reset_fields [simp]:
  "ss_slug (resetStoreFromRegistry k s) = ss_slug s" "ss_surfaces (resetStoreFromRegistry k s) = ss_surfaces s"
  "ss_storage (resetStoreFromRegistry k s) = ss_storage s"
  by (simp_all add: resetStoreFromRegistry_def)

lemma reset_get:
  "map_get (ss_stores (resetStoreFromRegistry k s)) k' =
     (if k' = k \<and> map_get (ss_stores s) k \<noteq> None then Some (registry_view (ss_surfaces s) k) else map_get (ss_stores s) k')"
  by (simp add: resetStoreFromRegistry_def map_get_set)

lemma linked_cong:
  "ss_slug s' = ss_slug s \<Longrightarrow> ss_surfaces s' = ss_surfaces s \<Longrightarrow> ss_storage s' = ss_storage s \<Longrightarrow> storage_linked s' = storage_linked s"
  by (simp add: storage_linked_def active_slug_def stored_registry_def cong: option.case_cong)

lemma map_get_map: "map_get (map (\<lambda>(k, v). (k, f k)) m) k = (if map_get m k = None then None else Some (f k))"
  by (induction m) (auto simp: map_get_def)

lemma obj_get_filter: "obj_get (filter (\<lambda>(k, e). P k) ob) k = (if P k then obj_get ob k else None)"
  by (induction ob) (auto simp: obj_get_def)

lemma prune_resets:
  "let t = fold (\<lambda>k. if k \<in> set valid then id else resetStoreFromRegistry k) ks s in
    ss_slug t = ss_slug s \<and> ss_surfaces t = ss_surfaces s \<and> ss_storage t = ss_storage s \<and>
    (\<forall>k. map_get (ss_stores t) k = (if k \<in> set ks \<and> k \<notin> set valid \<and> map_get (ss_stores s) k \<noteq> None
       then Some (registry_view (ss_surfaces s) k) else map_get (ss_stores s) k))"
  by (induction ks arbitrary: s) (auto simp: Let_def reset_get)

lemma inv_stores:
  assumes "storage_linked t"
    "\<And>k v. map_get (ss_stores t) k = Some v \<Longrightarrow> v = registry_view (ss_surfaces t) k \<or>
       (view_ok v \<and> settled_view (ss_surfaces t) k v = registry_view (ss_surfaces t) k)"
  shows "surface_inv t"
  unfolding surface_inv_def using assms registry_view_ok registry_view_settled by metis

lemma inv_store: "surface_inv s \<Longrightarrow> map_get (ss_stores s) k = Some v \<Longrightarrow> view_ok v \<and> settled_view (ss_surfaces s) k v = registry_view (ss_surfaces s) k"
  by (simp add: surface_inv_def)

lemma inv_switch:
  assumes "surface_inv s"
  shows "surface_inv (switch_workspace slug s)"
proof (cases "ss_slug s = slug")
  case False
  show ?thesis
  proof (rule inv_stores)
    show "storage_linked (switch_workspace slug s)"
      using False by (simp add: switch_workspace_def resetAllSurfaceStoresFromRegistry_def rehydrate_registry_def
          storage_linked_def stored_registry_def active_slug_def cong: option.case_cong)
    show "v = registry_view (ss_surfaces (switch_workspace slug s)) k \<or> (view_ok v \<and> settled_view (ss_surfaces (switch_workspace slug s)) k v = registry_view (ss_surfaces (switch_workspace slug s)) k)"
      if "map_get (ss_stores (switch_workspace slug s)) k = Some v" for k v
      using that False by (simp add: switch_workspace_def resetAllSurfaceStoresFromRegistry_def map_get_map split: if_splits)
  qed
qed (simp add: assms switch_workspace_def)

lemma inv_store_action:
  assumes inv: "surface_inv s"
  shows "surface_inv (store_action key op now s)"
proof (cases "map_get (ss_stores s) key")
  case (Some v)
  have ok: "view_ok (view_step op v)" using inv_store [OF inv Some] by (simp add: view_step_ok)
  show ?thesis
  proof (cases "returns_state op v")
    case False
    define t where "t = store_action key op now s"
    have t: "t = setSurfaceState now key (view_step op v) (s\<lparr>ss_stores := map_set key (view_step op v) (ss_stores s)\<rparr>)"
      using Some False by (simp add: t_def store_action_def)
    have "surface_inv t"
    proof (rule inv_stores)
      show "storage_linked t" unfolding t setSurfaceState_def by (rule write_linked)
      show "u = registry_view (ss_surfaces t) k \<or> (view_ok u \<and> settled_view (ss_surfaces t) k u = registry_view (ss_surfaces t) k)"
        if "map_get (ss_stores t) k = Some u" for k u
      proof (cases "k = key")
        case True
        then have "u = view_step op v" using that by (simp add: t setSurfaceState_def map_get_set)
        with ok True show ?thesis
          by (simp add: t setSurfaceState_def registry_view_def obj_get_set merge_view_partialize settled_written)
      next
        case False
        then have u: "map_get (ss_stores s) k = Some u" using that by (simp add: t setSurfaceState_def map_get_set)
        have same: "obj_get (ss_surfaces t) k = obj_get (ss_surfaces s) k"
          using False by (simp add: t setSurfaceState_def obj_get_set)
        note registry_view_cong [OF same] settled_cong [OF same, of u]
        with inv_store [OF inv u] show ?thesis by simp
      qed
    qed
    then show ?thesis by (simp add: t_def)
  qed (simp add: store_action_def Some inv)
qed (simp add: store_action_def inv)

lemma inv_clear:
  assumes inv: "surface_inv s"
  shows "surface_inv (clearIssueSurfaceViewState key s)"
proof -
  define u where "u = clearSurfaceState key s"
  have u: "storage_linked u" "ss_stores u = ss_stores s" "obj_get (ss_surfaces u) k = (if k = key then None else obj_get (ss_surfaces s) k)" for k
    by (simp_all add: u_def clearSurfaceState_def write_linked obj_get_delete)
  show ?thesis
  proof (rule inv_stores)
    show "storage_linked (clearIssueSurfaceViewState key s)"
      using u(1) linked_cong [of "resetStoreFromRegistry key u" u]
      by (simp add: clearIssueSurfaceViewState_def u_def [symmetric])
    show "v = registry_view (ss_surfaces (clearIssueSurfaceViewState key s)) k \<or>
        (view_ok v \<and> settled_view (ss_surfaces (clearIssueSurfaceViewState key s)) k v = registry_view (ss_surfaces (clearIssueSurfaceViewState key s)) k)"
      if "map_get (ss_stores (clearIssueSurfaceViewState key s)) k = Some v" for k v
    proof (cases "k = key")
      case True
      with that show ?thesis
        by (auto simp: clearIssueSurfaceViewState_def u_def [symmetric] reset_get split: if_splits)
    next
      case False
      with that u(2) have v: "map_get (ss_stores s) k = Some v"
        by (simp add: clearIssueSurfaceViewState_def u_def [symmetric] reset_get)
      have same: "obj_get (ss_surfaces u) k = obj_get (ss_surfaces s) k" using u(3) False by simp
      note registry_view_cong [OF same] settled_cong [OF same, of v]
      with inv_store [OF inv v] show ?thesis by (simp add: clearIssueSurfaceViewState_def u_def [symmetric])
    qed
  qed
qed

lemma inv_prune:
  assumes inv: "surface_inv s"
  shows "surface_inv (pruneIssueSurfaceViewStates valid s)"
proof -
  define u where "u = pruneSurfaceStates valid s"
  have kept: "obj_get (ss_surfaces u) k = (if k \<in> set valid then obj_get (ss_surfaces s) k else None)" for k
  proof (cases "length (filter (\<lambda>(k, e). k \<in> set valid) (ss_surfaces s)) = length (ss_surfaces s)")
    case True
    then have "filter (\<lambda>(k, e). k \<in> set valid) (ss_surfaces s) = ss_surfaces s"
      by (metis filter_id_conv length_filter_less nless_le)
    then show ?thesis
      using obj_get_filter [of "\<lambda>k. k \<in> set valid" "ss_surfaces s" k] by (simp add: u_def pruneSurfaceStates_def Let_def)
  next
    case False
    then show ?thesis by (simp add: u_def pruneSurfaceStates_def Let_def obj_get_filter)
  qed
  have u: "storage_linked u" "ss_stores u = ss_stores s" by (simp_all add: u_def pruneSurfaceStates_def Let_def write_linked)
  define t where "t = pruneIssueSurfaceViewStates valid s"
  have t: "ss_slug t = ss_slug u" "ss_surfaces t = ss_surfaces u" "ss_storage t = ss_storage u"
    "map_get (ss_stores t) k = (if k \<in> set (map_keys (ss_stores u)) \<and> k \<notin> set valid \<and> map_get (ss_stores u) k \<noteq> None
       then Some (registry_view (ss_surfaces u) k) else map_get (ss_stores u) k)" for k
    using prune_resets [of valid "map_keys (ss_stores u)" u]
    by (simp_all add: t_def pruneIssueSurfaceViewStates_def u_def [symmetric] Let_def)
  have "surface_inv t"
  proof (rule inv_stores)
    show "storage_linked t" using u(1) linked_cong [OF t(1-3)] by simp
    show "v = registry_view (ss_surfaces t) k \<or> (view_ok v \<and> settled_view (ss_surfaces t) k v = registry_view (ss_surfaces t) k)"
      if v: "map_get (ss_stores t) k = Some v" for k v
    proof (cases "k \<in> set valid")
      case True
      with v u(2) have "map_get (ss_stores s) k = Some v" by (simp add: t)
      moreover have same: "obj_get (ss_surfaces t) k = obj_get (ss_surfaces s) k" using True kept by (simp add: t)
      moreover note registry_view_cong [OF same] settled_cong [OF same, of v]
      ultimately show ?thesis using inv_store [OF inv] by simp
    next
      case False
      with v show ?thesis by (auto simp: t map_keys_get split: if_splits)
    qed
  qed
  then show ?thesis by (simp add: t_def)
qed

lemma inv_get:
  assumes "surface_inv s"
  shows "surface_inv (getIssueSurfaceViewStore key s)"
proof (rule inv_stores)
  show "storage_linked (getIssueSurfaceViewStore key s)"
    using assms linked_cong [of "getIssueSurfaceViewStore key s" s] by (simp add: getIssueSurfaceViewStore_def surface_inv_def)
  show "v = registry_view (ss_surfaces (getIssueSurfaceViewStore key s)) k \<or>
      (view_ok v \<and> settled_view (ss_surfaces (getIssueSurfaceViewStore key s)) k v = registry_view (ss_surfaces (getIssueSurfaceViewStore key s)) k)"
    if "map_get (ss_stores (getIssueSurfaceViewStore key s)) k = Some v" for k v
    using that inv_store [OF assms] by (auto simp: getIssueSurfaceViewStore_def map_get_set split: if_splits)
qed

lemma surface_step_inv: "surface_inv s \<Longrightarrow> surface_inv (surface_step s e)"
proof (cases e)
  case Reload
  then show "surface_inv s \<Longrightarrow> ?thesis"
    by (simp add: reload_app_def surface_inv_def storage_linked_def active_slug_def)
qed (simp_all add: inv_switch inv_get inv_store_action inv_clear inv_prune)

lemma surface_start_inv: "surface_start s \<Longrightarrow> surface_inv s"
  by (simp add: surface_start_def surface_inv_def storage_linked_def active_slug_def)

interpretation surfaces: invariant_machine surface_start surface_step "\<lambda>_ _. True" surface_inv
  by unfold_locales (blast intro: surface_start_inv surface_step_inv)+

section \<open>Other workspaces\<close>

definition elsewhere :: "jstr \<Rightarrow> surface_event \<Rightarrow> bool" where
  "elsewhere w e = (e \<noteq> SwitchTo (Some w))"

lemma write_storage: "ss_slug s \<noteq> Some w \<Longrightarrow> map_get (ss_storage (write_registry s)) w = map_get (ss_storage s) w"
  by (auto simp: write_registry_def active_slug_def map_get_set split: option.split)

lemma elsewhere_step:
  assumes "ss_slug s \<noteq> Some w" "elsewhere w e"
  shows "ss_slug (surface_step s e) \<noteq> Some w \<and> map_get (ss_storage (surface_step s e)) w = map_get (ss_storage s) w"
proof (cases e)
  case (SwitchTo slug)
  with assms show ?thesis
    by (auto simp: elsewhere_def switch_workspace_def resetAllSurfaceStoresFromRegistry_def rehydrate_registry_def)
next
  case (PruneSurfaces valid)
  with assms prune_resets [of valid "map_keys (ss_stores (pruneSurfaceStates valid s))" "pruneSurfaceStates valid s"] show ?thesis
    by (simp add: pruneIssueSurfaceViewStates_def Let_def) (simp add: pruneSurfaceStates_def Let_def write_storage)
qed (use assms in \<open>auto simp: getIssueSurfaceViewStore_def store_action_def setSurfaceState_def write_storage
    clearIssueSurfaceViewState_def clearSurfaceState_def reload_app_def split: option.split\<close>)

lemma elsewhere_run:
  "ss_slug s \<noteq> Some w \<Longrightarrow> list_all (elsewhere w) es \<Longrightarrow>
   ss_slug (foldl surface_step s es) \<noteq> Some w \<and> map_get (ss_storage (foldl surface_step s es)) w = map_get (ss_storage s) w"
  by (induction es arbitrary: s) (simp_all add: elsewhere_step)

lemma stores_kept_step:
  "e \<noteq> Reload \<Longrightarrow> map_get (ss_stores s) k \<noteq> None \<Longrightarrow> map_get (ss_stores (surface_step s e)) k \<noteq> None"
proof (cases e)
  case (PruneSurfaces valid)
  assume "map_get (ss_stores s) k \<noteq> None"
  then show ?thesis
    using PruneSurfaces prune_resets [of valid "map_keys (ss_stores (pruneSurfaceStates valid s))" "pruneSurfaceStates valid s"]
    by (simp add: pruneIssueSurfaceViewStates_def Let_def) (simp add: pruneSurfaceStates_def Let_def)
qed (auto simp: switch_workspace_def resetAllSurfaceStoresFromRegistry_def rehydrate_registry_def map_get_map
    getIssueSurfaceViewStore_def store_action_def setSurfaceState_def map_get_set clearIssueSurfaceViewState_def
    clearSurfaceState_def reset_get split: option.split)

lemma stores_kept_run:
  "list_all (\<lambda>e. e \<noteq> Reload) es \<Longrightarrow> map_get (ss_stores s) k \<noteq> None \<Longrightarrow> map_get (ss_stores (foldl surface_step s es)) k \<noteq> None"
  by (induction es arbitrary: s) (simp_all add: stores_kept_step del: surface_step.simps not_None_eq)

text \<open>Coming to a workspace: every store shows what the storage of that workspace holds.\<close>

lemma arrive:
  assumes "ss_slug s \<noteq> Some w" "w \<noteq> []" "map_get (ss_storage s) w = r"
  shows "ss_surfaces (surface_step s (SwitchTo (Some w))) = (case r of None \<Rightarrow> [] | Some x \<Rightarrow> x) \<and>
    map_get (ss_stores (surface_step s (SwitchTo (Some w)))) k =
      (if map_get (ss_stores s) k = None then None else Some (registry_view (case r of None \<Rightarrow> [] | Some x \<Rightarrow> x) k))"
  using assms by (simp add: switch_workspace_def resetAllSurfaceStoresFromRegistry_def rehydrate_registry_def map_get_map
      stored_registry_def active_slug_def)

section \<open>Properties\<close>

text \<open>C33: the view of a surface survives the visit of another workspace, and a restart. Whatever is done to any
  surface meanwhile, back in the workspace the surface shows the view it showed when the workspace was left,
  but for the date and the working filter, which are not persisted: they are off, unless the item some other build
  stored holds them.\<close>

theorem surface_views_survive:
  assumes "reachable surface_start surface_step (\<lambda>_ _. True) s" "active_slug s = Some w"
    "map_get (ss_stores s) key = Some v" "slug \<noteq> Some w"
    "list_all (\<lambda>e. elsewhere w e \<and> e \<noteq> Reload) es" "list_all (elsewhere w) es'"
  shows "map_get (ss_stores (foldl surface_step s (SwitchTo slug # es @ [SwitchTo (Some w)]))) key = Some (settled_view (ss_surfaces s) key v)
    \<and> map_get (ss_stores (foldl surface_step s (Reload # es' @ [SwitchTo (Some w), GetStore key]))) key = Some (settled_view (ss_surfaces s) key v)"
proof -
  have inv: "surface_inv s" by (rule surfaces.inv_reachable [OF assms(1)])
  have w: "ss_slug s = Some w" "w \<noteq> []" using assms(2) by (auto simp: active_slug_def split: if_splits)
  define r where "r = (case map_get (ss_storage s) w of None \<Rightarrow> [] | Some x \<Rightarrow> x)"
  have reg: "ss_surfaces s = r"
    using inv assms(2) by (simp add: surface_inv_def storage_linked_def stored_registry_def r_def)
  have v: "settled_view (ss_surfaces s) key v = registry_view r key" using inv_store [OF inv assms(3)] by (simp add: reg)
  define a where "a = surface_step s (SwitchTo slug)"
  have a: "ss_slug a \<noteq> Some w" "map_get (ss_storage a) w = map_get (ss_storage s) w" "map_get (ss_stores a) key \<noteq> None"
    using assms(3,4) w by (simp_all add: a_def switch_workspace_def resetAllSurfaceStoresFromRegistry_def
        rehydrate_registry_def map_get_map)
  have es: "list_all (elsewhere w) es" "list_all (\<lambda>e. e \<noteq> Reload) es" using assms(5) by (simp_all add: list_all_iff)
  have "map_get (ss_stores (surface_step (foldl surface_step a es) (SwitchTo (Some w)))) key = Some (registry_view r key)"
    using arrive [OF _ w(2), of "foldl surface_step a es" "map_get (ss_storage s) w" key] elsewhere_run [OF a(1) es(1)] a(2)
      stores_kept_run [OF es(2) a(3)]
    by (simp add: r_def del: surface_step.simps)
  then have one: "map_get (ss_stores (foldl surface_step s (SwitchTo slug # es @ [SwitchTo (Some w)]))) key = Some (settled_view (ss_surfaces s) key v)"
    by (simp add: a_def v del: surface_step.simps)
  define b where "b = foldl surface_step (surface_step s Reload) es'"
  have "ss_slug (surface_step s Reload) \<noteq> Some w" "map_get (ss_storage (surface_step s Reload)) w = map_get (ss_storage s) w"
    by (simp_all add: reload_app_def)
  with elsewhere_run [OF _ assms(6)] have b: "ss_slug b \<noteq> Some w" "map_get (ss_storage b) w = map_get (ss_storage s) w"
    unfolding b_def by metis+
  define c where "c = surface_step b (SwitchTo (Some w))"
  have c: "ss_surfaces c = r" "map_get (ss_stores c) key = (if map_get (ss_stores b) key = None then None else Some (registry_view r key))"
    using arrive [OF b(1) w(2) b(2), of key] by (simp_all add: c_def r_def del: surface_step.simps)
  then have "map_get (ss_stores (surface_step c (GetStore key))) key = Some (registry_view r key)"
    by (simp add: getIssueSurfaceViewStore_def map_get_set split: if_splits)
  with one show ?thesis by (simp add: b_def c_def v del: surface_step.simps)
qed

text \<open>C40: every view is well formed. Whatever earlier builds stored, and whatever is done, the table of every
  surface has the title as its first column and no column twice, and every toggle of a card is set.\<close>

theorem views_well_formed:
  assumes "reachable surface_start surface_step (\<lambda>_ _. True) s" "map_get (ss_stores s) key = Some v"
  shows "(\<exists>c rest. v_tableColumns v = c # rest \<and> tc_key c = ''title'') \<and> distinct (map tc_key (v_tableColumns v))
    \<and> (\<forall>k. map_get (v_cardProperties v) k \<noteq> None)"
proof -
  have ok: "view_ok v" using inv_store [OF surfaces.inv_reachable [OF assms(1)] assms(2)] by blast
  have "map_get (v_cardProperties v) k \<noteq> None" for k
    unfolding map_keys_get [symmetric] using ok by (cases k) (simp_all add: view_ok_def card_keys_def)
  with ok show ?thesis by (cases "v_tableColumns v") (auto simp: view_ok_def table_ok_def)
qed

text \<open>Hiding a status hides it, and showing it shows it, with the others as they were, but for one case:
  hiding the only visible status shows all of them.\<close>

theorem hide_and_show_status:
  "visible_statuses (v_statusFilters (hideStatus st v)) =
     (if visible_statuses (v_statusFilters v) = [st] then ALL_STATUSES
      else filter (\<lambda>x. x \<noteq> st) (visible_statuses (v_statusFilters v)))
   \<and> visible_statuses (v_statusFilters (showStatus st v)) =
     filter (\<lambda>x. x = st \<or> x \<in> set (visible_statuses (v_statusFilters v))) ALL_STATUSES"
proof
  have all: "set ALL_STATUSES = UNIV" "distinct ALL_STATUSES"
    using IssueStatus.exhaust by (auto simp: ALL_STATUSES_def)
  let ?f = "v_statusFilters v"
  have vis: "set (visible_statuses fs) = (if fs = [] then UNIV else set fs)" for fs
    using all(1) by (simp add: visible_statuses_def)
  show "visible_statuses (v_statusFilters (hideStatus st v)) =
     (if visible_statuses ?f = [st] then ALL_STATUSES else filter (\<lambda>x. x \<noteq> st) (visible_statuses ?f))"
  proof (cases "?f = []")
    case True
    then have "visible_statuses ?f \<noteq> [st]" by (simp add: visible_statuses_def ALL_STATUSES_def)
    moreover have "filter (\<lambda>x. x \<noteq> st) ALL_STATUSES \<noteq> []" by (cases st) (simp_all add: ALL_STATUSES_def)
    ultimately show ?thesis using True by (auto simp: hideStatus_def visible_statuses_def all intro!: filter_cong)
  next
    case False
    have only: "visible_statuses ?f = [st] \<longleftrightarrow> filter (\<lambda>x. x \<noteq> st) ?f = []"
    proof
      assume "visible_statuses ?f = [st]"
      then have "set ?f = {st}" using vis [of ?f] False by simp
      then show "filter (\<lambda>x. x \<noteq> st) ?f = []" by (simp add: filter_empty_conv)
    next
      assume "filter (\<lambda>x. x \<noteq> st) ?f = []"
      then have "set ?f = {st}" using False by (auto simp: filter_empty_conv neq_Nil_conv)
      then show "visible_statuses ?f = [st]" using False by (cases st) (simp_all add: visible_statuses_def ALL_STATUSES_def)
    qed
    show ?thesis using False only by (auto simp: hideStatus_def visible_statuses_def conj_commute intro!: filter_cong)
  qed
  show "visible_statuses (v_statusFilters (showStatus st v)) =
     filter (\<lambda>x. x = st \<or> x \<in> set (visible_statuses ?f)) ALL_STATUSES"
    by (auto simp: showStatus_def visible_statuses_def all intro!: filter_cong filter_True [symmetric])
qed

section \<open>A concrete run\<close>

definition fresh_surfaces :: surface_sys where
  "fresh_surfaces = \<lparr>ss_slug = None, ss_surfaces = [], ss_stores = [], ss_storage = []\<rparr>"

definition acme_run :: "surface_event list" where
  "acme_run = [SwitchTo (Some ''acme''), GetStore ''workspace'', StoreOp ''workspace'' (ToggleStatusFilter Todo) ''t1'',
     StoreOp ''workspace'' (ToggleTableColumn ''project'') ''t2'', StoreOp ''workspace'' ToggleAgentRunningFilter ''t3'']"

definition other_run :: "surface_event list" where
  "other_run = [GetStore ''my'', StoreOp ''workspace'' (HideStatus Done) ''t4'', ClearSurface ''my'']"

definition acme_view :: view_state where
  "acme_view = toggleAgentRunningFilter (toggleTableColumn ''project'' (toggleStatusFilter Todo default_view))"

lemma acme_reachable: "reachable surface_start surface_step (\<lambda>_ _. True) (foldl surface_step fresh_surfaces acme_run)"
proof (rule reachable_run)
  show "reachable surface_start surface_step (\<lambda>_ _. True) fresh_surfaces"
    by (rule reachable.init) (simp add: surface_start_def fresh_surfaces_def)
  have "run_ok surface_step (\<lambda>_ _. True) s es" for s es by (induction es arbitrary: s) simp_all
  then show "run_ok surface_step (\<lambda>_ _. True) fresh_surfaces acme_run" .
qed

lemma acme_store: "map_get (ss_stores (foldl surface_step fresh_surfaces acme_run)) ''workspace'' = Some acme_view
    \<and> active_slug (foldl surface_step fresh_surfaces acme_run) = Some ''acme''"
  by code_simp

theorem surface_views_survive_witness:
  "map_get (ss_stores (foldl surface_step (foldl surface_step fresh_surfaces acme_run)
      (SwitchTo (Some ''beta'') # other_run @ [SwitchTo (Some ''acme'')]))) ''workspace'' = Some (without_transient acme_view)
   \<and> map_get (ss_stores (foldl surface_step (foldl surface_step fresh_surfaces acme_run)
      (Reload # [] @ [SwitchTo (Some ''acme''), GetStore ''workspace'']))) ''workspace'' = Some (without_transient acme_view)"
proof -
  have "settled_view (ss_surfaces (foldl surface_step fresh_surfaces acme_run)) ''workspace'' acme_view = without_transient acme_view"
    by code_simp
  then show ?thesis
    using surface_views_survive [OF acme_reachable, of "''acme''" "''workspace''" acme_view "Some ''beta''" other_run "[]"] acme_store
    by (simp add: other_run_def elsewhere_def del: surface_step.simps foldl_Cons foldl_append append_Cons)
qed

theorem views_well_formed_witness:
  "(\<exists>c rest. v_tableColumns acme_view = c # rest \<and> tc_key c = ''title'') \<and> distinct (map tc_key (v_tableColumns acme_view))
    \<and> (\<forall>k. map_get (v_cardProperties acme_view) k \<noteq> None)"
  by (rule views_well_formed [OF acme_reachable, where key = "''workspace''"]) (use acme_store in simp)

section \<open>Where views are not kept apart\<close>

text \<open>Hiding the last visible status shows every status.\<close>

lemma hide_last_status_shows_all:
  "v_statusFilters (hideStatus Todo (toggleStatusFilter Todo default_view)) = []
   \<and> visible_statuses (v_statusFilters (hideStatus Todo (toggleStatusFilter Todo default_view))) = ALL_STATUSES"
  by code_simp

text \<open>In a workspace that stored nothing, My Issues keeps the scope and the filters of the workspace before.\<close>

lemma my_issues_inherits_previous_workspace:
  "mv_scope (merge_my_view None current) = mv_scope current
   \<and> v_statusFilters (mv_view (merge_my_view None current)) = v_statusFilters (mv_view current)"
  by (simp add: merge_my_view_def mergeViewStatePersisted_def over_def no_view_def)

end
