(* ===== verification/Issue_Filters.thy ===== *)
theory Issue_Filters
  imports View_State JS_Object
begin

text \<open>
  The client's filters (\<open>packages/views/issues/utils/filter.ts\<close>): the flat list and the
  assignee groups the server sends. The reads of object-valued fields are parameters: \<open>pv\<close> for
  \<open>issue.properties?.[id]\<close> and \<open>labels\<close> for the identifiers of \<open>issue.labels\<close>; the type
  of the creator is a field of the issue that no other rule reads.
\<close>

section \<open>Filters\<close>

record issue_filters =
  fl_statusFilters :: "IssueStatus list"
  fl_priorityFilters :: "IssuePriority list"
  fl_assigneeFilters :: "actor_filter list"
  fl_includeNoAssignee :: bool
  fl_assigneeFilterActive :: "bool option"
  fl_creatorFilters :: "actor_filter list"
  fl_projectFilters :: "jstr list"
  fl_includeNoProject :: bool
  fl_labelFilters :: "jstr list"
  fl_propertyFilters :: "jstr list jsobj option"
  fl_workingOnly :: bool
  fl_showSubIssues :: "bool option"

text \<open>The context: whether the activity map, if there is one, marks an issue as working, and the set of
  running issues, if there is one.\<close>

record filter_context =
  fx_activity :: "(jstr, bool) jsmap option"
  fx_running :: "jstr list option"

fun bool_string :: "bool \<Rightarrow> jstr" where
  "bool_string True = ''true''"
| "bool_string False = ''false''"

text \<open>An entry of an array matches if it is a string among the selected.\<close>

definition selected_entry :: "jstr list \<Rightarrow> json \<Rightarrow> bool" where
  "selected_entry selected v = (case v of JStr w \<Rightarrow> w \<in> set selected | _ \<Rightarrow> False)"

definition matches_property :: "(jstr \<Rightarrow> json option) \<Rightarrow> jstr \<times> jstr list \<Rightarrow> bool" where
  "matches_property value entry =
     (let selected = snd entry in
      if selected = [] then True
      else case value (fst entry) of
        None \<Rightarrow> False
      | Some (JStr w) \<Rightarrow> w \<in> set selected
      | Some (JArr vs) \<Rightarrow> list_ex (selected_entry selected) vs
      | Some (JBool b) \<Rightarrow> bool_string b \<in> set selected
      | Some _ \<Rightarrow> False)"

definition issueMatchesPropertyFilters :: "(issue \<Rightarrow> jstr \<Rightarrow> json option) \<Rightarrow> issue \<Rightarrow> jstr list jsobj option \<Rightarrow> bool" where
  "issueMatchesPropertyFilters pv i propertyFilters =
     (case propertyFilters of None \<Rightarrow> True | Some fs \<Rightarrow> list_all (matches_property (pv i)) fs)"

definition issueIsWorking :: "jstr \<Rightarrow> filter_context \<Rightarrow> bool" where
  "issueIsWorking issueId ctx =
     (case fx_activity ctx of
        Some m \<Rightarrow> map_get m issueId = Some True
      | None \<Rightarrow> (case fx_running ctx of None \<Rightarrow> False | Some ids \<Rightarrow> issueId \<in> set ids))"

text \<open>An empty identifier is falsy.\<close>

definition truthy_id :: "jstr option \<Rightarrow> bool" where
  "truthy_id v = (v \<noteq> None \<and> v \<noteq> Some [])"

definition hasAssigneeFilter :: "issue_filters \<Rightarrow> bool" where
  "hasAssigneeFilter f = (fl_assigneeFilterActive f = Some True \<or> fl_assigneeFilters f \<noteq> [] \<or> fl_includeNoAssignee f)"

definition hasProjectFilter :: "issue_filters \<Rightarrow> bool" where
  "hasProjectFilter f = (fl_projectFilters f \<noteq> [] \<or> fl_includeNoProject f)"

definition assignee_passes :: "issue_filters \<Rightarrow> issue \<Rightarrow> bool" where
  "assignee_passes f i =
     (if \<not> hasAssigneeFilter f then True
      else if \<not> truthy_id (iss_assignee_id i) then fl_includeNoAssignee f
      else if fl_assigneeFilters f \<noteq> []
      then list_ex (\<lambda>a. Some (af_type a) = iss_assignee_type i \<and> Some (af_id a) = iss_assignee_id i) (fl_assigneeFilters f)
      else False)"

definition creator_type :: "issue \<Rightarrow> jstr option" where
  "creator_type i = obj_get (iss_other i) ''creator_type''"

fun actor_text :: "IssueAssigneeType \<Rightarrow> jstr" where
  "actor_text AMember = ''member''"
| "actor_text AAgent = ''agent''"
| "actor_text ASquad = ''squad''"

definition creator_passes :: "issue_filters \<Rightarrow> issue \<Rightarrow> bool" where
  "creator_passes f i =
     (fl_creatorFilters f = [] \<or>
      list_ex (\<lambda>a. Some (actor_text (af_type a)) = creator_type i \<and> af_id a = iss_creator_id i) (fl_creatorFilters f))"

definition project_passes :: "issue_filters \<Rightarrow> issue \<Rightarrow> bool" where
  "project_passes f i =
     (if \<not> hasProjectFilter f then True
      else if \<not> truthy_id (iss_project_id i) then fl_includeNoProject f
      else if fl_projectFilters f \<noteq> [] then the (iss_project_id i) \<in> set (fl_projectFilters f)
      else False)"

definition label_passes :: "(issue \<Rightarrow> jstr list option) \<Rightarrow> issue_filters \<Rightarrow> issue \<Rightarrow> bool" where
  "label_passes labels f i =
     (fl_labelFilters f = [] \<or>
      (case labels i of None \<Rightarrow> False | Some ls \<Rightarrow> ls \<noteq> [] \<and> list_ex (\<lambda>l. l \<in> set (fl_labelFilters f)) ls))"

definition issue_passes ::
  "(issue \<Rightarrow> jstr \<Rightarrow> json option) \<Rightarrow> (issue \<Rightarrow> jstr list option) \<Rightarrow> issue_filters \<Rightarrow> filter_context \<Rightarrow> issue \<Rightarrow> bool" where
  "issue_passes pv labels f ctx i =
     (if fl_workingOnly f \<and> \<not> issueIsWorking (iss_id i) ctx then False
      else if fl_showSubIssues f = Some False \<and> truthy_id (iss_parent_issue_id i) then False
      else if fl_statusFilters f \<noteq> [] \<and> iss_status i \<notin> set (fl_statusFilters f) then False
      else if fl_priorityFilters f \<noteq> [] \<and> iss_priority i \<notin> set (fl_priorityFilters f) then False
      else if \<not> assignee_passes f i then False
      else if \<not> creator_passes f i then False
      else if \<not> project_passes f i then False
      else if \<not> label_passes labels f i then False
      else issueMatchesPropertyFilters pv i (fl_propertyFilters f))"

definition applyIssueFilters ::
  "(issue \<Rightarrow> jstr \<Rightarrow> json option) \<Rightarrow> (issue \<Rightarrow> jstr list option) \<Rightarrow> issue list \<Rightarrow> issue_filters \<Rightarrow> filter_context \<Rightarrow> issue list" where
  "applyIssueFilters pv labels issues f ctx = filter (issue_passes pv labels f ctx) issues"

section \<open>Assignee groups\<close>

record assignee_issue_group =
  ag_id :: jstr
  ag_assignee_type :: "IssueAssigneeType option"
  ag_assignee_id :: "jstr option"
  ag_issues :: "issue list"
  ag_total :: nat

record group_filters =
  gf_showSubIssues :: "bool option"
  gf_agentRunningFilter :: "bool option"
  gf_runningIssueIds :: "jstr list option"
  gf_propertyFilters :: "jstr list jsobj option"

definition hasPropertyFilters :: "group_filters \<Rightarrow> bool" where
  "hasPropertyFilters f =
     list_ex (\<lambda>(k, selected). selected \<noteq> []) (case gf_propertyFilters f of None \<Rightarrow> [] | Some fs \<Rightarrow> fs)"

definition group_issue_passes :: "(issue \<Rightarrow> jstr \<Rightarrow> json option) \<Rightarrow> group_filters \<Rightarrow> issue \<Rightarrow> bool" where
  "group_issue_passes pv f i =
     (if gf_agentRunningFilter f = Some True \<and>
         \<not> (case gf_runningIssueIds f of None \<Rightarrow> False | Some ids \<Rightarrow> iss_id i \<in> set ids) then False
      else if gf_showSubIssues f = Some False \<and> truthy_id (iss_parent_issue_id i) then False
      else if hasPropertyFilters f \<and> \<not> issueMatchesPropertyFilters pv i (gf_propertyFilters f) then False
      else True)"

definition filterAssigneeGroups ::
  "(issue \<Rightarrow> jstr \<Rightarrow> json option) \<Rightarrow> assignee_issue_group list option \<Rightarrow> group_filters \<Rightarrow> assignee_issue_group list option" where
  "filterAssigneeGroups pv groups f =
     (case groups of
        None \<Rightarrow> None
      | Some gs \<Rightarrow>
          if gf_agentRunningFilter f \<noteq> Some True \<and> gf_showSubIssues f \<noteq> Some False \<and> \<not> hasPropertyFilters f then Some gs
          else Some (filter (\<lambda>g. length (ag_issues g) > 0)
            (map (\<lambda>g. let issues = filter (group_issue_passes pv f) (ag_issues g)
                      in g\<lparr>ag_issues := issues, ag_total := length issues\<rparr>) gs)))"

section \<open>The flat list\<close>

text \<open>The parameters of \<open>filterIssues\<close>: those of the groups and the ones the server applies to groups.\<close>

record issue_filter_input = group_filters +
  in_statusFilters :: "IssueStatus list"
  in_priorityFilters :: "IssuePriority list"
  in_assigneeFilters :: "actor_filter list"
  in_includeNoAssignee :: bool
  in_assigneeFilterActive :: "bool option"
  in_creatorFilters :: "actor_filter list"
  in_projectFilters :: "jstr list"
  in_includeNoProject :: bool
  in_labelFilters :: "jstr list"

definition filterIssues ::
  "(issue \<Rightarrow> jstr \<Rightarrow> json option) \<Rightarrow> (issue \<Rightarrow> jstr list option) \<Rightarrow> issue list \<Rightarrow> issue_filter_input \<Rightarrow> issue list" where
  "filterIssues pv labels issues f =
     applyIssueFilters pv labels issues
       \<lparr>fl_statusFilters = in_statusFilters f, fl_priorityFilters = in_priorityFilters f,
        fl_assigneeFilters = in_assigneeFilters f, fl_includeNoAssignee = in_includeNoAssignee f,
        fl_assigneeFilterActive = in_assigneeFilterActive f, fl_creatorFilters = in_creatorFilters f,
        fl_projectFilters = in_projectFilters f, fl_includeNoProject = in_includeNoProject f,
        fl_labelFilters = in_labelFilters f, fl_propertyFilters = gf_propertyFilters f,
        fl_workingOnly = (gf_agentRunningFilter f = Some True), fl_showSubIssues = gf_showSubIssues f\<rparr>
       \<lparr>fx_activity = None, fx_running = gf_runningIssueIds f\<rparr>"

section \<open>The groups and the flat list agree\<close>

text \<open>The filters of the flat list that are left when the server has applied the others.\<close>

definition client_only :: "group_filters \<Rightarrow> issue_filter_input" where
  "client_only f = group_filters.extend f
     \<lparr>in_statusFilters = [], in_priorityFilters = [], in_assigneeFilters = [], in_includeNoAssignee = False,
      in_assigneeFilterActive = None, in_creatorFilters = [], in_projectFilters = [], in_includeNoProject = False,
      in_labelFilters = []\<rparr>"

lemma no_property_filters: "\<not> hasPropertyFilters f \<Longrightarrow> issueMatchesPropertyFilters pv i (gf_propertyFilters f)"
  by (auto simp: hasPropertyFilters_def issueMatchesPropertyFilters_def matches_property_def list_ex_iff list_all_iff
      split: option.splits)

lemma flat_filter: "filterIssues pv labels issues (client_only f) = filter (group_issue_passes pv f) issues"
  unfolding filterIssues_def applyIssueFilters_def
  by (rule filter_cong [OF refl], cases "hasPropertyFilters f")
    (auto simp: issue_passes_def group_issue_passes_def client_only_def group_filters.defs assignee_passes_def
      hasAssigneeFilter_def creator_passes_def project_passes_def hasProjectFilter_def label_passes_def
      issueIsWorking_def no_property_filters)

definition narrow_group :: "(issue \<Rightarrow> jstr \<Rightarrow> json option) \<Rightarrow> group_filters \<Rightarrow> assignee_issue_group \<Rightarrow> assignee_issue_group" where
  "narrow_group pv f g = (let issues = filter (group_issue_passes pv f) (ag_issues g)
     in g\<lparr>ag_issues := issues, ag_total := length issues\<rparr>)"

lemma narrow_group_issues [simp]:
  "ag_issues (narrow_group pv f g) = filter (group_issue_passes pv f) (ag_issues g)"
  "ag_total (narrow_group pv f g) = length (filter (group_issue_passes pv f) (ag_issues g))"
  by (simp_all add: narrow_group_def Let_def)

lemma groups_narrowed:
  "gf_agentRunningFilter f = Some True \<or> gf_showSubIssues f = Some False \<or> hasPropertyFilters f \<Longrightarrow>
   filterAssigneeGroups pv (Some gs) f = Some (filter (\<lambda>g. ag_issues g \<noteq> []) (map (narrow_group pv f) gs))"
  by (auto simp only: filterAssigneeGroups_def narrow_group_def [abs_def] option.case length_greater_0_conv split: if_splits)

lemma concat_nonempty: "concat (map f (filter (\<lambda>g. f g \<noteq> []) gs)) = concat (map f gs)"
  by (induction gs) auto

text \<open>The assignee groups and the flat list filter alike. The issues of the filtered groups, in order, are
  what the flat filter keeps of the issues of the groups; and unless the groups are returned as they came,
  every total is the number of issues shown and no group is shown empty.\<close>

theorem groups_filter_as_list:
  "\<exists>gs'. filterAssigneeGroups pv (Some gs) f = Some gs'
    \<and> concat (map ag_issues gs') = filterIssues pv labels (concat (map ag_issues gs)) (client_only f)
    \<and> (gs' = gs \<or> list_all (\<lambda>g. ag_total g = length (ag_issues g) \<and> ag_issues g \<noteq> []) gs')"
proof (cases "gf_agentRunningFilter f \<noteq> Some True \<and> gf_showSubIssues f \<noteq> Some False \<and> \<not> hasPropertyFilters f")
  case True
  then have "group_issue_passes pv f i" for i by (simp add: group_issue_passes_def)
  then show ?thesis using True by (simp add: filterAssigneeGroups_def flat_filter)
next
  case False
  then have eq: "filterAssigneeGroups pv (Some gs) f = Some (filter (\<lambda>g. ag_issues g \<noteq> []) (map (narrow_group pv f) gs))"
    by (intro groups_narrowed) auto
  have issues: "concat (map ag_issues (filter (\<lambda>g. ag_issues g \<noteq> []) (map (narrow_group pv f) gs))) =
      filter (group_issue_passes pv f) (concat (map ag_issues gs))"
    unfolding concat_nonempty by (simp add: filter_concat comp_def)
  have shown: "list_all (\<lambda>g. ag_total g = length (ag_issues g) \<and> ag_issues g \<noteq> [])
      (filter (\<lambda>g. ag_issues g \<noteq> []) (map (narrow_group pv f) gs))"
    by (auto simp: list_all_iff)
  show ?thesis using eq issues shown by (auto simp only: flat_filter)
qed

end
