(* ===== verification/Comment_Cache.thy ===== *)
theory Comment_Cache
  imports Timeline Machines
begin

text \<open>
  The cached timeline of an issue and its writers: the socket handlers of
  \<open>packages/views/issues/hooks/use-issue-timeline.ts\<close> and the comment mutations of
  \<open>packages/core/issues/mutations.ts\<close>; the reactions of the issue
  (\<open>use-issue-reactions.ts\<close>) and its subscribers (\<open>use-issue-subscribers.ts\<close>). A cache is
  \<open>None\<close> before the first fetch lands. An absent field and \<open>null\<close> are both \<open>None\<close>; of an attachment
  only the identifier is read.
\<close>

section \<open>Entries\<close>

record reaction =
  rx_id :: jstr
  rx_target :: jstr
  rx_actor_type :: jstr
  rx_actor_id :: jstr
  rx_emoji :: jstr
  rx_created_at :: jstr

record attachment =
  at_id :: jstr
  at_rest :: jstr

record comment =
  cm_id :: jstr
  cm_issue_id :: jstr
  cm_author_type :: jstr
  cm_author_id :: jstr
  cm_content :: jstr
  cm_type :: jstr
  cm_parent_id :: "jstr option"
  cm_reactions :: "reaction list option"
  cm_attachments :: "attachment list option"
  cm_created_at :: jstr
  cm_updated_at :: "jstr option"
  cm_resolved_at :: "jstr option"
  cm_resolved_by_type :: "jstr option"
  cm_resolved_by_id :: "jstr option"
  cm_source_task_id :: "jstr option"

record full_entry = TimelineEntry +
  fe_content :: "jstr option"
  fe_updated_at :: "jstr option"
  fe_comment_type :: "jstr option"
  fe_reactions :: "reaction list option"
  fe_attachments :: "attachment list option"
  fe_resolved_by_type :: "jstr option"
  fe_resolved_by_id :: "jstr option"
  fe_source_task_id :: "jstr option"

text \<open>\<open>xs ?? []\<close>\<close>

definition or_none :: "'a list option \<Rightarrow> 'a list" where
  "or_none xs = (case xs of None \<Rightarrow> [] | Some l \<Rightarrow> l)"

definition commentToTimelineEntry :: "comment \<Rightarrow> full_entry" where
  "commentToTimelineEntry c =
     \<lparr>te_type = CommentEntry, te_id = cm_id c, te_actor_type = cm_author_type c, te_actor_id = cm_author_id c,
      te_created_at = cm_created_at c, te_action = None, te_parent_id = cm_parent_id c,
      te_resolved_at = cm_resolved_at c, te_coalesced_count = None, te_rest = [],
      fe_content = Some (cm_content c), fe_updated_at = cm_updated_at c, fe_comment_type = Some (cm_type c),
      fe_reactions = Some (or_none (cm_reactions c)), fe_attachments = Some (or_none (cm_attachments c)),
      fe_resolved_by_type = cm_resolved_by_type c, fe_resolved_by_id = cm_resolved_by_id c,
      fe_source_task_id = cm_source_task_id c\<rparr>"

type_synonym timeline_cache = "full_entry list option"

section \<open>Socket events\<close>

definition has_entry :: "jstr \<Rightarrow> full_entry list \<Rightarrow> bool" where
  "has_entry i es = list_ex (\<lambda>e. te_id e = i) es"

definition append_entry :: "full_entry \<Rightarrow> timeline_cache \<Rightarrow> timeline_cache" where
  "append_entry entry cache =
     (case cache of
        None \<Rightarrow> Some [entry]
      | Some old \<Rightarrow> if has_entry (te_id entry) old then Some old else Some (sortTimelineEntriesAsc (old @ [entry])))"

definition replace_entry :: "comment \<Rightarrow> timeline_cache \<Rightarrow> timeline_cache" where
  "replace_entry c cache =
     map_option (map (\<lambda>e. if te_id e = cm_id c then commentToTimelineEntry c else e)) cache"

text \<open>The sweeps over the entries that collect the replies below the identifiers, until one adds none.\<close>

definition sweep_entry :: "full_entry \<Rightarrow> jstr list \<Rightarrow> jstr list" where
  "sweep_entry e ids =
     (if some_text (te_parent_id e) \<and> the (te_parent_id e) \<in> set ids \<and> te_id e \<notin> set ids then ids @ [te_id e] else ids)"

definition sweep :: "full_entry list \<Rightarrow> jstr list \<Rightarrow> jstr list" where
  "sweep es ids = fold sweep_entry es ids"

lemma sweep_appends:
  "\<exists>added. sweep es ids = ids @ added \<and> set added \<subseteq> te_id ` set es \<and> set added \<inter> set ids = {}"
  unfolding sweep_def
proof (induction es arbitrary: ids)
  case (Cons e es)
  from Cons.IH [of "sweep_entry e ids"] show ?case by (auto simp: sweep_entry_def split: if_splits)
qed simp

function cascade :: "full_entry list \<Rightarrow> jstr list \<Rightarrow> jstr list" where
  "cascade es ids = (let ids' = sweep es ids in if ids' = ids then ids else cascade es ids')"
  by pat_completeness auto
termination
proof (relation "measure (\<lambda>(es, ids). card (te_id ` set es - set ids))")
  fix es ids ids'
  assume "ids' = sweep es ids" "ids' \<noteq> ids"
  with sweep_appends [of es ids] obtain added where
    "ids' = ids @ added" "added \<noteq> []" "set added \<subseteq> te_id ` set es" "set added \<inter> set ids = {}" by auto
  then have "te_id ` set es - set ids' \<subset> te_id ` set es - set ids" by (cases added) auto
  then show "((es, ids'), es, ids) \<in> measure (\<lambda>(es, ids). card (te_id ` set es - set ids))"
    by (simp add: psubset_card_mono)
qed simp

declare cascade.simps [simp del]

definition remove_thread_below :: "jstr \<Rightarrow> timeline_cache \<Rightarrow> timeline_cache" where
  "remove_thread_below commentId cache =
     (case cache of
        None \<Rightarrow> None
      | Some old \<Rightarrow> (let idsToRemove = cascade old [commentId] in Some (filter (\<lambda>e. te_id e \<notin> set idsToRemove) old)))"

definition with_reactions :: "jstr \<Rightarrow> (reaction list \<Rightarrow> reaction list) \<Rightarrow> timeline_cache \<Rightarrow> timeline_cache" where
  "with_reactions commentId f cache =
     map_option (map (\<lambda>e. if te_id e \<noteq> commentId then e else e\<lparr>fe_reactions := Some (f (or_none (fe_reactions e)))\<rparr>)) cache"

definition add_reaction :: "reaction \<Rightarrow> reaction list \<Rightarrow> reaction list" where
  "add_reaction r existing = (if list_ex (\<lambda>x. rx_id x = rx_id r) existing then existing else existing @ [r])"

definition remove_reaction :: "jstr \<Rightarrow> jstr \<Rightarrow> jstr \<Rightarrow> reaction list \<Rightarrow> reaction list" where
  "remove_reaction emoji actor_type actor_id rs =
     filter (\<lambda>r. \<not> (rx_emoji r = emoji \<and> rx_actor_type r = actor_type \<and> rx_actor_id r = actor_id)) rs"

datatype timeline_event =
    CommentCreated comment
  | CommentUpdated comment
  | CommentResolved comment
  | CommentUnresolved comment
  | CommentDeleted jstr jstr
  | ActivityCreated jstr "full_entry option"
  | ReactionAdded reaction jstr
  | ReactionRemoved jstr jstr jstr jstr jstr

text \<open>An entry of an activity without an identifier is ignored.\<close>

fun on_timeline_event :: "jstr \<Rightarrow> timeline_event \<Rightarrow> timeline_cache \<Rightarrow> timeline_cache" where
  "on_timeline_event issueId (CommentCreated c) cache =
     (if cm_issue_id c \<noteq> issueId then cache else append_entry (commentToTimelineEntry c) cache)"
| "on_timeline_event issueId (CommentUpdated c) cache = (if cm_issue_id c \<noteq> issueId then cache else replace_entry c cache)"
| "on_timeline_event issueId (CommentResolved c) cache = (if cm_issue_id c \<noteq> issueId then cache else replace_entry c cache)"
| "on_timeline_event issueId (CommentUnresolved c) cache = (if cm_issue_id c \<noteq> issueId then cache else replace_entry c cache)"
| "on_timeline_event issueId (CommentDeleted comment_id issue_id) cache =
     (if issue_id \<noteq> issueId then cache else remove_thread_below comment_id cache)"
| "on_timeline_event issueId (ActivityCreated issue_id entry) cache =
     (if issue_id \<noteq> issueId then cache
      else case entry of None \<Rightarrow> cache | Some e \<Rightarrow> if te_id e = [] then cache else append_entry e cache)"
| "on_timeline_event issueId (ReactionAdded r issue_id) cache =
     (if issue_id \<noteq> issueId then cache else with_reactions (rx_target r) (add_reaction r) cache)"
| "on_timeline_event issueId (ReactionRemoved comment_id issue_id emoji actor_type actor_id) cache =
     (if issue_id \<noteq> issueId then cache else with_reactions comment_id (remove_reaction emoji actor_type actor_id) cache)"

section \<open>Mutations\<close>

definition createComment_success :: "comment \<Rightarrow> timeline_cache \<Rightarrow> timeline_cache" where
  "createComment_success c cache =
     append_entry ((commentToTimelineEntry c)\<lparr>te_resolved_at := None, fe_resolved_by_type := None,
       fe_resolved_by_id := None, fe_source_task_id := None\<rparr>) cache"

definition updateComment_mutate :: "jstr \<Rightarrow> jstr \<Rightarrow> jstr list \<Rightarrow> timeline_cache \<Rightarrow> timeline_cache" where
  "updateComment_mutate commentId content attachmentIds cache =
     map_option (map (\<lambda>e. if te_id e = commentId
       then e\<lparr>fe_content := Some content,
              fe_attachments := map_option (filter (\<lambda>a. at_id a \<in> set attachmentIds)) (fe_attachments e)\<rparr>
       else e)) cache"

definition deleteComment_mutate :: "jstr \<Rightarrow> timeline_cache \<Rightarrow> timeline_cache" where
  "deleteComment_mutate commentId prev =
     (let toRemove = (case prev of None \<Rightarrow> [commentId] | Some es \<Rightarrow> cascade es [commentId])
      in map_option (filter (\<lambda>e. te_id e \<notin> set toRemove)) prev)"

text \<open>\<open>collectThreadCommentIds\<close>: a guarded walk up to the root, and an expansion down with a stack.\<close>

definition comments_by_id :: "full_entry list \<Rightarrow> (jstr, full_entry) jsmap" where
  "comments_by_id es = fold (\<lambda>e. if te_type e = CommentEntry then map_set (te_id e) e else id) es []"

lemma map_get_value: "map_get m k = Some v \<Longrightarrow> v \<in> snd ` set m"
  by (force simp: map_get_def dest: map_of_SomeD)

function climb_ids :: "(jstr, full_entry) jsmap \<Rightarrow> full_entry option \<Rightarrow> jstr list \<Rightarrow> jstr \<Rightarrow> jstr" where
  "climb_ids byId cur guarded rootId =
     (case cur of
        None \<Rightarrow> rootId
      | Some e \<Rightarrow>
          if some_text (te_parent_id e) \<and> map_get byId (the (te_parent_id e)) \<noteq> None \<and> te_id e \<notin> set guarded
          then climb_ids byId (map_get byId (the (te_parent_id e))) (te_id e # guarded) (the (te_parent_id e))
          else rootId)"
  by pat_completeness auto
termination
proof (relation "measure (\<lambda>(byId, cur, guarded, rootId).
    card (te_id ` (set_option cur \<union> snd ` set byId) - set guarded))")
  fix byId :: "(jstr, full_entry) jsmap" and cur :: "full_entry option" and guarded and rootId :: jstr and e
  assume e: "cur = Some e" "some_text (te_parent_id e) \<and> map_get byId (the (te_parent_id e)) \<noteq> None \<and> te_id e \<notin> set guarded"
  let ?next = "map_get byId (the (te_parent_id e))"
  have "set_option ?next \<subseteq> snd ` set byId" by (auto dest: map_get_value)
  then have "te_id ` (set_option ?next \<union> snd ` set byId) - set (te_id e # guarded) \<subset>
      te_id ` (set_option cur \<union> snd ` set byId) - set guarded" using e by auto
  then show "((byId, ?next, te_id e # guarded, the (te_parent_id e)), byId, cur, guarded, rootId)
      \<in> measure (\<lambda>(byId, cur, guarded, rootId). card (te_id ` (set_option cur \<union> snd ` set byId) - set guarded))"
    by (simp add: psubset_card_mono)
qed simp

declare climb_ids.simps [simp del]

definition add_child :: "full_entry \<Rightarrow> (jstr, jstr list) jsmap \<Rightarrow> (jstr, jstr list) jsmap" where
  "add_child e m =
     (if some_text (te_parent_id e)
      then map_set (the (te_parent_id e)) (or_none (map_get m (the (te_parent_id e))) @ [te_id e]) m else m)"

definition childrenByParent :: "(jstr, full_entry) jsmap \<Rightarrow> (jstr, jstr list) jsmap" where
  "childrenByParent byId = fold add_child (map snd byId) []"

fun push_children :: "jstr list \<Rightarrow> jstr list \<Rightarrow> jstr list \<Rightarrow> jstr list \<times> jstr list" where
  "push_children [] ids stack = (ids, stack)"
| "push_children (c # cs) ids stack =
     (if c \<in> set ids then push_children cs ids stack else push_children cs (ids @ [c]) (stack @ [c]))"

lemma push_children_grows:
  "push_children cs ids stack = (ids', stack') \<Longrightarrow>
   \<exists>added. ids' = ids @ added \<and> stack' = stack @ added \<and> set added = set cs - set ids \<and> distinct added"
proof (induction cs ids stack rule: push_children.induct)
  case (2 c cs ids stack)
  then show ?case
    by (cases "c \<in> set ids") (auto simp: insert_Diff_if dest: )
qed simp

text \<open>The expansion: the top of the stack is its last element.\<close>

function expand_thread :: "(jstr, jstr list) jsmap \<Rightarrow> jstr list \<Rightarrow> jstr list \<Rightarrow> jstr list" where
  "expand_thread children ids stack =
     (if stack = [] then ids
      else let (ids', stack') = push_children (or_none (map_get children (last stack))) ids (butlast stack)
           in expand_thread children ids' stack')"
  by pat_completeness auto
termination
proof (relation "measures [\<lambda>(children, ids, stack). card (\<Union> (set ` snd ` set children) - set ids), \<lambda>(children, ids, stack). length stack]")
  fix children :: "(jstr, jstr list) jsmap" and ids stack x ids' stack'
  assume stack: "stack \<noteq> []" and x: "x = push_children (or_none (map_get children (last stack))) ids (butlast stack)" "(ids', stack') = x"
  obtain added where added: "ids' = ids @ added" "stack' = butlast stack @ added"
    "set added = set (or_none (map_get children (last stack))) - set ids"
    using push_children_grows [of "or_none (map_get children (last stack))" ids "butlast stack" ids' stack'] x by auto
  have sub: "set (or_none (map_get children (last stack))) \<subseteq> \<Union> (set ` snd ` set children)"
  proof (cases "map_get children (last stack)")
    case (Some l)
    with map_get_value [OF Some] show ?thesis by (auto simp: or_none_def)
  qed (simp add: or_none_def)
  show "((children, ids', stack'), children, ids, stack)
      \<in> measures [\<lambda>(children, ids, stack). card (\<Union> (set ` snd ` set children) - set ids), \<lambda>(children, ids, stack). length stack]"
  proof (cases "added = []")
    case True
    with added stack show ?thesis by simp
  next
    case False
    with added sub have "\<Union> (set ` snd ` set children) - set ids' \<subset> \<Union> (set ` snd ` set children) - set ids"
      by (cases added) auto
    then have "card (\<Union> (set ` snd ` set children) - set ids') < card (\<Union> (set ` snd ` set children) - set ids)"
      by (intro psubset_card_mono) auto
    then show ?thesis by simp
  qed
qed simp

declare expand_thread.simps [simp del]

definition collectThreadCommentIds :: "full_entry list \<Rightarrow> jstr \<Rightarrow> jstr list" where
  "collectThreadCommentIds es commentId =
     (let byId = comments_by_id es;
          rootId = climb_ids byId (map_get byId commentId) [] commentId
      in expand_thread (childrenByParent byId) [rootId] [rootId])"

definition resolve_entry :: "jstr \<Rightarrow> bool \<Rightarrow> jstr \<Rightarrow> jstr list \<Rightarrow> full_entry \<Rightarrow> full_entry" where
  "resolve_entry commentId resolved now threadIds e =
     (if te_id e = commentId
      then e\<lparr>te_resolved_at := if resolved then Some now else None,
             fe_resolved_by_type := if resolved then fe_resolved_by_type e else None,
             fe_resolved_by_id := if resolved then fe_resolved_by_id e else None\<rparr>
      else if resolved \<and> some_text (te_resolved_at e) \<and> te_id e \<in> set threadIds
      then e\<lparr>te_resolved_at := None, fe_resolved_by_type := None, fe_resolved_by_id := None\<rparr>
      else e)"

definition resolveComment_mutate :: "jstr \<Rightarrow> bool \<Rightarrow> jstr \<Rightarrow> timeline_cache \<Rightarrow> timeline_cache" where
  "resolveComment_mutate commentId resolved now cache =
     (case cache of
        None \<Rightarrow> None
      | Some old \<Rightarrow>
          (let threadIds = (if resolved then collectThreadCommentIds old commentId else [])
           in Some (map (resolve_entry commentId resolved now threadIds) old)))"

text \<open>\<open>if (ctx?.prev !== undefined) qc.setQueryData(key, ctx.prev)\<close>\<close>

definition restore_timeline :: "timeline_cache \<Rightarrow> timeline_cache \<Rightarrow> timeline_cache" where
  "restore_timeline prev cache = (if prev \<noteq> None then prev else cache)"

section \<open>Reactions\<close>

record reaction_vars =
  rv_target :: jstr
  rv_emoji :: jstr
  rv_existing :: "reaction option"

definition is_mine :: "jstr \<Rightarrow> jstr \<Rightarrow> reaction \<Rightarrow> bool" where
  "is_mine userId emoji r = (rx_emoji r = emoji \<and> rx_actor_type r = ''member'' \<and> rx_actor_id r = userId)"

text \<open>A click: the variables of the mutation, read from the cached reactions.\<close>

definition toggle_vars :: "jstr \<Rightarrow> jstr \<Rightarrow> jstr \<Rightarrow> reaction list \<Rightarrow> reaction_vars" where
  "toggle_vars userId target emoji rs = \<lparr>rv_target = target, rv_emoji = emoji, rv_existing = find (is_mine userId emoji) rs\<rparr>"

definition apply_pending :: "jstr \<Rightarrow> reaction_vars \<Rightarrow> reaction list \<Rightarrow> reaction list" where
  "apply_pending userId vars rs =
     (case rv_existing vars of
        Some r \<Rightarrow> filter (\<lambda>x. rx_id x \<noteq> rx_id r) rs
      | None \<Rightarrow>
          if list_ex (is_mine userId (rv_emoji vars)) rs then rs
          else rs @ [\<lparr>rx_id = ''optimistic-'' @ rv_emoji vars, rx_target = rv_target vars, rx_actor_type = ''member'',
                 rx_actor_id = userId, rx_emoji = rv_emoji vars, rx_created_at = []\<rparr>])"

definition toggleReaction :: "jstr \<Rightarrow> jstr \<Rightarrow> jstr \<Rightarrow> full_entry list \<Rightarrow> reaction_vars option" where
  "toggleReaction userId commentId emoji timeline =
     (if userId = [] then None
      else let entry = find (\<lambda>e. te_id e = commentId) timeline
           in Some (toggle_vars userId commentId emoji (or_none (Option.bind entry fe_reactions))))"

definition optimisticTimeline :: "jstr \<Rightarrow> reaction_vars list \<Rightarrow> full_entry list \<Rightarrow> full_entry list" where
  "optimisticTimeline userId pending timeline =
     (if pending = [] then timeline
      else map (\<lambda>e.
        let pendingForEntry = filter (\<lambda>v. rv_target v = te_id e) pending
        in if pendingForEntry = [] then e
           else e\<lparr>fe_reactions := Some (fold (apply_pending userId) pendingForEntry (or_none (fe_reactions e)))\<rparr>) timeline)"

text \<open>The reactions of the issue itself: \<open>rx_target\<close> is the issue.\<close>

definition issue_reaction_added :: "jstr \<Rightarrow> reaction \<Rightarrow> jstr \<Rightarrow> reaction list option \<Rightarrow> reaction list option" where
  "issue_reaction_added issueId r issue_id cache = (if issue_id \<noteq> issueId then cache else map_option (add_reaction r) cache)"

definition issue_reaction_removed ::
  "jstr \<Rightarrow> jstr \<Rightarrow> jstr \<Rightarrow> jstr \<Rightarrow> jstr \<Rightarrow> reaction list option \<Rightarrow> reaction list option" where
  "issue_reaction_removed issueId issue_id emoji actor_type actor_id cache =
     (if issue_id \<noteq> issueId then cache else map_option (remove_reaction emoji actor_type actor_id) cache)"

definition issue_reactions :: "jstr \<Rightarrow> reaction_vars list \<Rightarrow> reaction list option \<Rightarrow> reaction list" where
  "issue_reactions userId pending cache =
     (let serverReactions = or_none cache
      in if pending = [] then serverReactions else fold (apply_pending userId) pending serverReactions)"

definition toggle_issue_reaction :: "jstr \<Rightarrow> jstr \<Rightarrow> jstr \<Rightarrow> reaction list option \<Rightarrow> reaction_vars option" where
  "toggle_issue_reaction userId issueId emoji cache =
     (if userId = [] then None else Some (toggle_vars userId issueId emoji (or_none cache)))"

section \<open>Subscribers\<close>

record issue_subscriber =
  sb_issue_id :: jstr
  sb_user_type :: jstr
  sb_user_id :: jstr
  sb_reason :: jstr
  sb_created_at :: jstr

definition is_subscriber :: "jstr \<Rightarrow> jstr \<Rightarrow> issue_subscriber \<Rightarrow> bool" where
  "is_subscriber user_type user_id s = (sb_user_id s = user_id \<and> sb_user_type s = user_type)"

definition subscriber_added :: "jstr \<Rightarrow> issue_subscriber \<Rightarrow> issue_subscriber list option \<Rightarrow> issue_subscriber list option" where
  "subscriber_added issueId p cache =
     (if sb_issue_id p \<noteq> issueId then cache
      else map_option (\<lambda>old. if list_ex (is_subscriber (sb_user_type p) (sb_user_id p)) old then old else old @ [p]) cache)"

definition subscriber_removed ::
  "jstr \<Rightarrow> jstr \<Rightarrow> jstr \<Rightarrow> jstr \<Rightarrow> issue_subscriber list option \<Rightarrow> issue_subscriber list option" where
  "subscriber_removed issueId issue_id user_type user_id cache =
     (if issue_id \<noteq> issueId then cache else map_option (filter (\<lambda>s. \<not> is_subscriber user_type user_id s)) cache)"

definition toggleSubscriber_mutate ::
  "jstr \<Rightarrow> jstr \<Rightarrow> jstr \<Rightarrow> jstr \<Rightarrow> bool \<Rightarrow> issue_subscriber list option \<Rightarrow> issue_subscriber list option" where
  "toggleSubscriber_mutate now issueId userType userId subscribed cache =
     (if subscribed then map_option (filter (\<lambda>s. \<not> is_subscriber userType userId s)) cache
      else if list_ex (is_subscriber userType userId) (or_none cache) then cache
      else Some (or_none cache @ [\<lparr>sb_issue_id = issueId, sb_user_type = userType, sb_user_id = userId,
             sb_reason = ''manual'', sb_created_at = now\<rparr>]))"

definition restore_subscribers ::
  "issue_subscriber list option \<Rightarrow> issue_subscriber list option \<Rightarrow> issue_subscriber list option" where
  "restore_subscribers prev cache = (if prev \<noteq> None then prev else cache)"

definition isSubscribed :: "jstr \<Rightarrow> issue_subscriber list option \<Rightarrow> bool" where
  "isSubscribed userId cache = list_ex (is_subscriber ''member'' userId) (or_none cache)"

section \<open>The cache as a machine\<close>

text \<open>The cache, and the snapshots that the mutations under way would restore.\<close>

record timeline_sys =
  ts_cache :: timeline_cache
  ts_prevs :: "timeline_cache list"

datatype timeline_input =
    SocketEvent timeline_event
  | CreateSucceeded comment
  | EditStarted jstr jstr "jstr list"
  | DeleteStarted jstr
  | ResolveStarted jstr bool jstr
  | MutationFailed nat
  | MutationSucceeded nat
  | FetchLanded "full_entry list"

definition optimistic :: "(timeline_cache \<Rightarrow> timeline_cache) \<Rightarrow> timeline_sys \<Rightarrow> timeline_sys" where
  "optimistic f s = s\<lparr>ts_cache := f (ts_cache s), ts_prevs := ts_prevs s @ [ts_cache s]\<rparr>"

fun timeline_step :: "jstr \<Rightarrow> timeline_sys \<Rightarrow> timeline_input \<Rightarrow> timeline_sys" where
  "timeline_step issueId s (SocketEvent ev) = s\<lparr>ts_cache := on_timeline_event issueId ev (ts_cache s)\<rparr>"
| "timeline_step issueId s (CreateSucceeded c) = s\<lparr>ts_cache := createComment_success c (ts_cache s)\<rparr>"
| "timeline_step issueId s (EditStarted i content atts) = optimistic (updateComment_mutate i content atts) s"
| "timeline_step issueId s (DeleteStarted i) = optimistic (deleteComment_mutate i) s"
| "timeline_step issueId s (ResolveStarted i resolved now) = optimistic (resolveComment_mutate i resolved now) s"
| "timeline_step issueId s (MutationFailed n) =
     s\<lparr>ts_cache := restore_timeline (ts_prevs s ! n) (ts_cache s), ts_prevs := take n (ts_prevs s) @ drop (Suc n) (ts_prevs s)\<rparr>"
| "timeline_step issueId s (MutationSucceeded n) = s\<lparr>ts_prevs := take n (ts_prevs s) @ drop (Suc n) (ts_prevs s)\<rparr>"
| "timeline_step issueId s (FetchLanded es) = s\<lparr>ts_cache := Some es\<rparr>"

end
