(* ===== verification/Comment_Properties.thy ===== *)
theory Comment_Properties
  imports Comment_Cache Timeline_Properties
begin

text \<open>
  What the writers of the cached timeline guarantee: it stays in order and without doubles, the socket
  handlers keep a fetched timeline in step with a model of the server's rows and broadcasts, a deletion takes
  the replies below along, and a resolution is the only one of its thread.
\<close>

section \<open>Sorted caches\<close>

definition entry_key :: "full_entry \<Rightarrow> jstr \<times> jstr" where
  "entry_key e = (te_created_at e, te_id e)"

definition cache_ok :: "full_entry list \<Rightarrow> bool" where
  "cache_ok es = (sorted (map entry_key es) \<and> distinct (map te_id es))"

lemma sort_fold: "sortTimelineEntriesAsc es = sort_key entry_key (es :: full_entry list)"
  by (simp add: sortTimelineEntriesAsc_def entry_key_def [abs_def])

lemma sort_ok:
  assumes "distinct (map te_id es)"
  shows "cache_ok (sortTimelineEntriesAsc es) \<and> set (sortTimelineEntriesAsc es) = set es"
proof -
  have "mset (map te_id (sort_key entry_key es)) = mset (map te_id es)" by simp
  then have "distinct (map te_id (sort_key entry_key es))" using assms mset_eq_imp_distinct_iff by blast
  then show ?thesis by (simp add: cache_ok_def sort_fold)
qed

lemma has_entry_iff: "has_entry i es \<longleftrightarrow> i \<in> te_id ` set es"
  by (auto simp: has_entry_def list_ex_iff)

definition put_new :: "full_entry \<Rightarrow> full_entry set \<Rightarrow> full_entry set" where
  "put_new e S = (if te_id e \<in> te_id ` S then S else insert e S)"

lemma append_entry_ok:
  assumes "cache_ok es"
  shows "\<exists>es'. append_entry e (Some es) = Some es' \<and> cache_ok es'
    \<and> set es' = put_new e (set es)"
  using assms sort_ok [of "es @ [e]"]
  by (auto simp: append_entry_def has_entry_iff cache_ok_def put_new_def)

lemma map_same_keys:
  assumes "cache_ok es" "\<And>e. e \<in> set es \<Longrightarrow> entry_key (f e) = entry_key e"
  shows "cache_ok (map f es)"
proof -
  have "map entry_key (map f es) = map entry_key es" "map te_id (map f es) = map te_id es"
    using assms(2) by (simp_all add: entry_key_def)
  with assms(1) show ?thesis by (simp add: cache_ok_def del: map_map)
qed

lemma filter_ok: "cache_ok es \<Longrightarrow> cache_ok (filter P es)"
  by (simp add: cache_ok_def sorted_filter distinct_map_filter)

text \<open>A cache is determined by its entries.\<close>

lemma cache_unique:
  assumes "cache_ok a" "cache_ok b" "set a = set b"
  shows "a = b"
proof (rule map_sorted_distinct_set_unique)
  show "inj_on entry_key (set a \<union> set b)"
    using assms by (auto simp: cache_ok_def distinct_map inj_on_def entry_key_def)
  have "distinct (map entry_key es)" if "cache_ok es" for es
    using that by (auto simp: cache_ok_def distinct_map inj_on_def entry_key_def)
  then show "distinct (map entry_key a)" "distinct (map entry_key b)" using assms by blast+
qed (use assms in \<open>simp_all add: cache_ok_def\<close>)

section \<open>The replies below a comment\<close>

inductive under :: "full_entry set \<Rightarrow> jstr \<Rightarrow> jstr \<Rightarrow> bool" for S t where
  self: "under S t t"
| reply: "under S t p \<Longrightarrow> e \<in> S \<Longrightarrow> some_text (te_parent_id e) \<Longrightarrow> te_parent_id e = Some p \<Longrightarrow> under S t (te_id e)"

lemma sweep_sound:
  "\<forall>i \<in> set ids. under S t i \<Longrightarrow> set es \<subseteq> S \<Longrightarrow> \<forall>i \<in> set (sweep es ids). under S t i"
  unfolding sweep_def
proof (induction es arbitrary: ids)
  case (Cons e es)
  have "\<forall>i \<in> set (sweep_entry e ids). under S t i"
    using Cons.prems by (auto simp: sweep_entry_def some_text_def intro: under.reply)
  then show ?case using Cons.IH Cons.prems(2) by simp
qed simp

lemma sweep_closed:
  assumes "sweep es ids = ids" "e \<in> set es" "some_text (te_parent_id e)" "the (te_parent_id e) \<in> set ids"
  shows "te_id e \<in> set ids"
proof -
  have mono: "set ids \<subseteq> set (sweep fs ids)" for fs ids using sweep_appends [of fs ids] by auto
  obtain xs ys where es: "es = xs @ e # ys" using assms(2) by (meson split_list)
  have "the (te_parent_id e) \<in> set (sweep xs ids)" using assms(4) mono by blast
  then have "te_id e \<in> set (sweep_entry e (sweep xs ids))" using assms(3) by (auto simp: sweep_entry_def)
  then have "te_id e \<in> set (sweep ys (sweep_entry e (sweep xs ids)))" using mono by blast
  then show ?thesis using assms(1) by (simp add: es sweep_def)
qed

lemma cascade_sound: "\<forall>i \<in> set ids. under (set es) t i \<Longrightarrow> \<forall>i \<in> set (cascade es ids). under (set es) t i"
proof (induction es ids rule: cascade.induct)
  case (1 es ids)
  from 1(1) [OF refl] 1(2) sweep_sound [OF 1(2) subset_refl] show ?case
    by (subst cascade.simps) (simp add: Let_def)
qed

lemma cascade_fix: "sweep es (cascade es ids) = cascade es ids \<and> set ids \<subseteq> set (cascade es ids)"
proof (induction es ids rule: cascade.induct)
  case (1 es ids)
  show ?case
  proof (cases "sweep es ids = ids")
    case True
    then show ?thesis by (simp add: cascade.simps [of es ids])
  next
    case False
    then have "cascade es ids = cascade es (sweep es ids)" by (simp add: cascade.simps [of es ids])
    with 1 [OF refl False] sweep_appends [of es ids] show ?thesis by auto
  qed
qed

text \<open>The loop collects the closure.\<close>

lemma cascade_under: "set (cascade es [t]) = {i. under (set es) t i}"
proof (intro set_eqI iffI CollectI)
  fix i assume "i \<in> set (cascade es [t])"
  then show "under (set es) t i" using cascade_sound [of "[t]" es t] by (auto intro: under.self)
next
  fix i assume "i \<in> {i. under (set es) t i}"
  then have "under (set es) t i" by simp
  then show "i \<in> set (cascade es [t])"
  proof induction
    case self
    then show ?case using cascade_fix [of es "[t]"] by auto
  next
    case (reply p e)
    then show ?case using sweep_closed [OF conjunct1 [OF cascade_fix] reply.hyps(2)] by simp
  qed
qed

lemma removes_under: "remove_thread_below i (Some es) = Some (filter (\<lambda>e. \<not> under (set es) i (te_id e)) es)"
  by (simp add: remove_thread_below_def Let_def cascade_under)

lemma delete_is_removal: "deleteComment_mutate i cache = remove_thread_below i cache"
  by (cases cache) (simp_all add: deleteComment_mutate_def remove_thread_below_def Let_def)

section \<open>Events\<close>

text \<open>What an event does to the cached entries of the issue, whatever their order.\<close>

definition put_comment :: "comment \<Rightarrow> full_entry set \<Rightarrow> full_entry set" where
  "put_comment c S = (\<lambda>e. if te_id e = cm_id c then commentToTimelineEntry c else e) ` S"

definition put_reactions :: "jstr \<Rightarrow> (reaction list \<Rightarrow> reaction list) \<Rightarrow> full_entry set \<Rightarrow> full_entry set" where
  "put_reactions i f S = (\<lambda>e. if te_id e \<noteq> i then e else e\<lparr>fe_reactions := Some (f (or_none (fe_reactions e)))\<rparr>) ` S"

fun concerns :: "jstr \<Rightarrow> timeline_event \<Rightarrow> bool" where
  "concerns issueId (CommentCreated c) = (cm_issue_id c = issueId)"
| "concerns issueId (CommentUpdated c) = (cm_issue_id c = issueId)"
| "concerns issueId (CommentResolved c) = (cm_issue_id c = issueId)"
| "concerns issueId (CommentUnresolved c) = (cm_issue_id c = issueId)"
| "concerns issueId (CommentDeleted _ i) = (i = issueId)"
| "concerns issueId (ActivityCreated i entry) = (i = issueId \<and> entry \<noteq> None \<and> te_id (the entry) \<noteq> [])"
| "concerns issueId (ReactionAdded _ i) = (i = issueId)"
| "concerns issueId (ReactionRemoved _ i _ _ _) = (i = issueId)"

fun change_of :: "timeline_event \<Rightarrow> full_entry set \<Rightarrow> full_entry set" where
  "change_of (CommentCreated c) S = put_new (commentToTimelineEntry c) S"
| "change_of (CommentUpdated c) S = put_comment c S"
| "change_of (CommentResolved c) S = put_comment c S"
| "change_of (CommentUnresolved c) S = put_comment c S"
| "change_of (CommentDeleted i _) S = {e \<in> S. \<not> under S i (te_id e)}"
| "change_of (ActivityCreated _ entry) S = put_new (the entry) S"
| "change_of (ReactionAdded r _) S = put_reactions (rx_target r) (add_reaction r) S"
| "change_of (ReactionRemoved i _ emoji at ai) S = put_reactions i (remove_reaction emoji at ai) S"

text \<open>A comment keeps the date of its creation.\<close>

fun keeps_date :: "timeline_event \<Rightarrow> full_entry set \<Rightarrow> bool" where
  "keeps_date (CommentUpdated c) S = (\<forall>e \<in> S. te_id e = cm_id c \<longrightarrow> te_created_at e = cm_created_at c)"
| "keeps_date (CommentResolved c) S = (\<forall>e \<in> S. te_id e = cm_id c \<longrightarrow> te_created_at e = cm_created_at c)"
| "keeps_date (CommentUnresolved c) S = (\<forall>e \<in> S. te_id e = cm_id c \<longrightarrow> te_created_at e = cm_created_at c)"
| "keeps_date _ S = True"

lemma entry_of_comment [simp]:
  "te_id (commentToTimelineEntry c) = cm_id c" "te_created_at (commentToTimelineEntry c) = cm_created_at c"
  "te_parent_id (commentToTimelineEntry c) = cm_parent_id c"
  by (simp_all add: commentToTimelineEntry_def)

lemma replace_ok:
  assumes "cache_ok es" "\<forall>e \<in> set es. te_id e = cm_id c \<longrightarrow> te_created_at e = cm_created_at c"
  shows "\<exists>es'. replace_entry c (Some es) = Some es' \<and> cache_ok es' \<and> set es' = put_comment c (set es)"
  using map_same_keys [OF assms(1), of "\<lambda>e. if te_id e = cm_id c then commentToTimelineEntry c else e"] assms(2)
  by (auto simp: replace_entry_def put_comment_def entry_key_def)

lemma reactions_ok:
  assumes "cache_ok es"
  shows "\<exists>es'. with_reactions i f (Some es) = Some es' \<and> cache_ok es' \<and> set es' = put_reactions i f (set es)"
  using map_same_keys [OF assms, of "\<lambda>e. if te_id e \<noteq> i then e else e\<lparr>fe_reactions := Some (f (or_none (fe_reactions e)))\<rparr>"]
  by (auto simp: with_reactions_def put_reactions_def entry_key_def)

lemma unconcerned: "\<not> concerns issueId ev \<Longrightarrow> on_timeline_event issueId ev cache = cache"
  by (cases ev) (auto split: option.split)

lemma event_refines:
  assumes "cache_ok es" "concerns issueId ev" "keeps_date ev (set es)"
  shows "\<exists>es'. on_timeline_event issueId ev (Some es) = Some es' \<and> cache_ok es' \<and> set es' = change_of ev (set es)"
proof -
  have "set (filter (\<lambda>e. \<not> under (set es) i (te_id e)) es) = {e \<in> set es. \<not> under (set es) i (te_id e)}" for i by auto
  with assms append_entry_ok [OF assms(1)] replace_ok [OF assms(1)] reactions_ok [OF assms(1)] filter_ok [OF assms(1)]
  show ?thesis by (cases ev) (auto simp: removes_under)
qed

section \<open>The server's timeline\<close>

text \<open>The server keeps the rows of the comments of the issue, with their reactions and attachments, and the
  activities (\<open>core/internal/handler/comment.go\<close>, \<open>reaction.go\<close>, \<open>activity.go\<close>,
  \<open>core/internal/service/task.go\<close>). An activity is kept as the entry made of it.\<close>

record server_rows =
  sv_comments :: "comment list"
  sv_activities :: "full_entry list"

text \<open>What \<open>commentsToEntries\<close> sends for a row: empty lists are omitted.\<close>

definition omitempty :: "'a list option \<Rightarrow> 'a list option" where
  "omitempty xs = (if or_none xs = [] then None else xs)"

definition commentsToEntries :: "comment \<Rightarrow> full_entry" where
  "commentsToEntries c =
     \<lparr>te_type = CommentEntry, te_id = cm_id c, te_actor_type = cm_author_type c, te_actor_id = cm_author_id c,
      te_created_at = cm_created_at c, te_action = None, te_parent_id = cm_parent_id c,
      te_resolved_at = cm_resolved_at c, te_coalesced_count = None, te_rest = [],
      fe_content = Some (cm_content c), fe_updated_at = cm_updated_at c, fe_comment_type = Some (cm_type c),
      fe_reactions = omitempty (cm_reactions c), fe_attachments = omitempty (cm_attachments c),
      fe_resolved_by_type = cm_resolved_by_type c, fe_resolved_by_id = cm_resolved_by_id c,
      fe_source_task_id = cm_source_task_id c\<rparr>"

definition timelineHardCap :: nat where "timelineHardCap = 2000"

definition server_entries :: "server_rows \<Rightarrow> full_entry list" where
  "server_entries S =
     map commentsToEntries (take timelineHardCap (sort_key (\<lambda>c. (cm_created_at c, cm_id c)) (sv_comments S)))
     @ take timelineHardCap (sort_key entry_key (sv_activities S))"

definition ListTimeline :: "server_rows \<Rightarrow> full_entry list" where
  "ListTimeline S = sort_key entry_key (server_entries S)"

text \<open>What the requests of any client, the agents and the server itself do to the rows.\<close>

datatype server_op =
    Post comment
  | AgentPost comment
  | Edit jstr jstr "attachment list option" "jstr option" jstr
  | Resolve jstr jstr jstr jstr
  | Unresolve jstr jstr
  | Reopen jstr jstr
  | Delete jstr
  | Log full_entry
  | React reaction
  | Unreact jstr jstr jstr jstr
  | Elsewhere timeline_event

text \<open>The rows an insertion makes; the comments of agents have no attachments.\<close>

definition new_row :: "comment \<Rightarrow> comment" where
  "new_row c = c\<lparr>cm_reactions := None, cm_resolved_at := None, cm_resolved_by_type := None, cm_resolved_by_id := None\<rparr>"

definition agent_row :: "comment \<Rightarrow> comment" where
  "agent_row c = (new_row c)\<lparr>cm_attachments := None\<rparr>"

definition edited :: "jstr \<Rightarrow> attachment list option \<Rightarrow> jstr option \<Rightarrow> jstr \<Rightarrow> comment \<Rightarrow> comment" where
  "edited content atts task now c =
     c\<lparr>cm_content := content, cm_attachments := (if atts = None then cm_attachments c else atts),
       cm_source_task_id := task, cm_updated_at := Some now\<rparr>"

definition coalesce :: "'a option \<Rightarrow> 'a \<Rightarrow> 'a option" where
  "coalesce x y = (if x = None then Some y else x)"

definition resolved_row :: "jstr \<Rightarrow> jstr \<Rightarrow> jstr \<Rightarrow> comment \<Rightarrow> comment" where
  "resolved_row actor_type actor_id now c =
     c\<lparr>cm_resolved_at := coalesce (cm_resolved_at c) now, cm_resolved_by_type := coalesce (cm_resolved_by_type c) actor_type,
       cm_resolved_by_id := coalesce (cm_resolved_by_id c) actor_id,
       cm_updated_at := (if cm_resolved_at c = None then Some now else cm_updated_at c)\<rparr>"

definition unresolved_row :: "jstr \<Rightarrow> comment \<Rightarrow> comment" where
  "unresolved_row now c =
     c\<lparr>cm_resolved_at := None, cm_resolved_by_type := None, cm_resolved_by_id := None,
       cm_updated_at := (if cm_resolved_at c \<noteq> None then Some now else cm_updated_at c)\<rparr>"

text \<open>A second reaction of the same actor with the same emoji is the row that is there.\<close>

definition same_reaction :: "reaction \<Rightarrow> reaction \<Rightarrow> bool" where
  "same_reaction r x = (rx_actor_type x = rx_actor_type r \<and> rx_actor_id x = rx_actor_id r \<and> rx_emoji x = rx_emoji r)"

definition AddReaction :: "reaction \<Rightarrow> comment \<Rightarrow> comment" where
  "AddReaction r c =
     (if list_ex (same_reaction r) (or_none (cm_reactions c)) then c
      else c\<lparr>cm_reactions := Some (or_none (cm_reactions c) @ [r])\<rparr>)"

definition RemoveReaction :: "jstr \<Rightarrow> jstr \<Rightarrow> jstr \<Rightarrow> comment \<Rightarrow> comment" where
  "RemoveReaction emoji at ai c =
     c\<lparr>cm_reactions := Some (filter (\<lambda>r. \<not> (rx_actor_type r = at \<and> rx_actor_id r = ai \<and> rx_emoji r = emoji)) (or_none (cm_reactions c)))\<rparr>"

text \<open>\<open>ON DELETE CASCADE\<close>: the rows that refer to a deleted row go with it, level by level.\<close>

definition refers :: "jstr set \<Rightarrow> comment \<Rightarrow> bool" where
  "refers gone c = (case cm_parent_id c of None \<Rightarrow> False | Some p \<Rightarrow> p \<in> gone)"

function delete_cascade :: "jstr list \<Rightarrow> comment list \<Rightarrow> comment list" where
  "delete_cascade gone rows =
     (if filter (refers (set gone)) rows = [] then rows
      else delete_cascade (map cm_id (filter (refers (set gone)) rows)) (filter (\<lambda>c. \<not> refers (set gone) c) rows))"
  by pat_completeness auto
termination
proof (relation "measure (\<lambda>(gone, rows). length rows)")
  fix gone rows
  assume hit: "filter (refers (set gone)) rows \<noteq> []"
  have "length (filter (refers (set gone)) rows) > 0" unfolding length_greater_0_conv by (rule hit)
  with sum_length_filter_compl [of "refers (set gone)" rows]
  show "((map cm_id (filter (refers (set gone)) rows), filter (\<lambda>c. \<not> refers (set gone) c) rows), gone, rows)
      \<in> measure (\<lambda>(gone, rows). length rows)"
    by (simp only: in_measure prod.case)
qed simp

declare delete_cascade.simps [simp del]

definition row_of :: "jstr \<Rightarrow> server_rows \<Rightarrow> comment option" where
  "row_of i S = find (\<lambda>c. cm_id c = i) (sv_comments S)"

definition change_row :: "jstr \<Rightarrow> (comment \<Rightarrow> comment) \<Rightarrow> server_rows \<Rightarrow> server_rows" where
  "change_row i f S = S\<lparr>sv_comments := map (\<lambda>c. if cm_id c = i then f c else c) (sv_comments S)\<rparr>"

fun server_step :: "server_op \<Rightarrow> server_rows \<Rightarrow> server_rows" where
  "server_step (Post c) S = S\<lparr>sv_comments := sv_comments S @ [new_row c]\<rparr>"
| "server_step (AgentPost c) S = S\<lparr>sv_comments := sv_comments S @ [agent_row c]\<rparr>"
| "server_step (Edit i content atts task now) S = change_row i (edited content atts task now) S"
| "server_step (Resolve i actor_type actor_id now) S = change_row i (resolved_row actor_type actor_id now) S"
| "server_step (Unresolve i now) S = change_row i (unresolved_row now) S"
| "server_step (Reopen i now) S = change_row i (unresolved_row now) S"
| "server_step (Delete i) S =
     (if row_of i S = None then S
      else S\<lparr>sv_comments := delete_cascade [i] (filter (\<lambda>c. cm_id c \<noteq> i) (sv_comments S))\<rparr>)"
| "server_step (Log entry) S = S\<lparr>sv_activities := sv_activities S @ [entry]\<rparr>"
| "server_step (React r) S = change_row (rx_target r) (AddReaction r) S"
| "server_step (Unreact i emoji at ai) S = change_row i (RemoveReaction emoji at ai) S"
| "server_step (Elsewhere ev) S = S"

text \<open>The events it then broadcasts. A comment of an agent is announced without \<open>updated_at\<close>, and a thread
  reopened by a reply without the reactions, the attachments and the task of its root; a resolution that changes
  nothing is not announced.\<close>

definition agent_payload :: "comment \<Rightarrow> comment" where
  "agent_payload c = (agent_row c)\<lparr>cm_updated_at := None\<rparr>"

definition reopened_payload :: "comment \<Rightarrow> comment" where
  "reopened_payload c = c\<lparr>cm_reactions := None, cm_attachments := None, cm_source_task_id := None\<rparr>"

definition on_row :: "jstr \<Rightarrow> server_rows \<Rightarrow> (comment \<Rightarrow> timeline_event list) \<Rightarrow> timeline_event list" where
  "on_row i S f = (case row_of i S of None \<Rightarrow> [] | Some c \<Rightarrow> f c)"

fun announced :: "jstr \<Rightarrow> server_rows \<Rightarrow> server_op \<Rightarrow> timeline_event list" where
  "announced issueId S (Post c) = [CommentCreated (new_row c)]"
| "announced issueId S (AgentPost c) = [CommentCreated (agent_payload c)]"
| "announced issueId S (Edit i content atts task now) =
     on_row i S (\<lambda>c. [CommentUpdated (edited content atts task now c)])"
| "announced issueId S (Resolve i actor_type actor_id now) =
     on_row i S (\<lambda>c. if cm_resolved_at c \<noteq> None then [] else [CommentResolved (resolved_row actor_type actor_id now c)])"
| "announced issueId S (Unresolve i now) =
     on_row i S (\<lambda>c. if cm_resolved_at c = None then [] else [CommentUnresolved (unresolved_row now c)])"
| "announced issueId S (Reopen i now) =
     on_row i S (\<lambda>c. if cm_resolved_at c = None then [] else [CommentUnresolved (reopened_payload (unresolved_row now c))])"
| "announced issueId S (Delete i) = on_row i S (\<lambda>c. [CommentDeleted i issueId])"
| "announced issueId S (Log entry) = [ActivityCreated issueId (Some entry)]"
| "announced issueId S (React r) =
     on_row (rx_target r) S (\<lambda>c. [ReactionAdded (case find (same_reaction r) (or_none (cm_reactions c)) of None \<Rightarrow> r | Some x \<Rightarrow> x) issueId])"
| "announced issueId S (Unreact i emoji at ai) = on_row i S (\<lambda>c. [ReactionRemoved i issueId emoji at ai])"
| "announced issueId S (Elsewhere ev) = [ev]"

fun broadcasts :: "jstr \<Rightarrow> server_rows \<Rightarrow> server_op list \<Rightarrow> timeline_event list" where
  "broadcasts issueId S [] = []"
| "broadcasts issueId S (op # ops) = announced issueId S op @ broadcasts issueId (server_step op S) ops"

text \<open>Identifiers are not empty and used once, who resolved a comment is known of a resolved one only, and a reaction
  names its comment.\<close>

definition row_ids :: "server_rows \<Rightarrow> jstr list" where
  "row_ids S = map cm_id (sv_comments S) @ map te_id (sv_activities S)"

definition row_ok :: "jstr \<Rightarrow> comment \<Rightarrow> bool" where
  "row_ok issueId c = (cm_issue_id c = issueId \<and> cm_parent_id c \<noteq> Some []
     \<and> (cm_resolved_by_type c = None \<longleftrightarrow> cm_resolved_at c = None) \<and> (cm_resolved_by_id c = None \<longleftrightarrow> cm_resolved_at c = None)
     \<and> list_all (\<lambda>r. rx_target r = cm_id c) (or_none (cm_reactions c)))"

definition server_ok :: "jstr \<Rightarrow> server_rows \<Rightarrow> bool" where
  "server_ok issueId S = (distinct (row_ids S) \<and> [] \<notin> set (row_ids S) \<and> list_all (row_ok issueId) (sv_comments S)
     \<and> list_all (\<lambda>e. te_parent_id e = None) (sv_activities S))"

definition within_cap :: "server_rows \<Rightarrow> bool" where
  "within_cap S = (length (sv_comments S) \<le> timelineHardCap \<and> length (sv_activities S) \<le> timelineHardCap)"

text \<open>The database gives new rows new identifiers. A thread is reopened only where the payload, which leaves them out,
  says the truth: where its root has no reactions, no attachments and no task.\<close>

fun admissible :: "jstr \<Rightarrow> server_rows \<Rightarrow> server_op \<Rightarrow> bool" where
  "admissible issueId S (Post c) =
     (cm_id c \<notin> set (row_ids S) \<and> cm_id c \<noteq> [] \<and> cm_issue_id c = issueId \<and> cm_parent_id c \<noteq> Some [])"
| "admissible issueId S (AgentPost c) =
     (cm_id c \<notin> set (row_ids S) \<and> cm_id c \<noteq> [] \<and> cm_issue_id c = issueId \<and> cm_parent_id c \<noteq> Some [])"
| "admissible issueId S (Reopen i now) =
     (case row_of i S of None \<Rightarrow> True
      | Some c \<Rightarrow> cm_resolved_at c = None
          \<or> or_none (cm_reactions c) = [] \<and> or_none (cm_attachments c) = [] \<and> cm_source_task_id c = None)"
| "admissible issueId S (Log e) = (te_id e \<notin> set (row_ids S) \<and> te_id e \<noteq> [] \<and> te_parent_id e = None)"
| "admissible issueId S (React r) =
     (case row_of (rx_target r) S of None \<Rightarrow> True
      | Some c \<Rightarrow> \<not> list_ex (\<lambda>x. rx_id x = rx_id r) (or_none (cm_reactions c)))"
| "admissible issueId S (Elsewhere ev) = (\<not> concerns issueId ev)"
| "admissible issueId S _ = True"

fun admissible_run :: "jstr \<Rightarrow> server_rows \<Rightarrow> server_op list \<Rightarrow> bool" where
  "admissible_run issueId S [] = True"
| "admissible_run issueId S (op # ops) = (admissible issueId S op \<and> admissible_run issueId (server_step op S) ops)"

text \<open>What the page shows of an entry: no page reads when it was updated, and a list that is absent is empty.\<close>

definition seen :: "full_entry \<Rightarrow> full_entry" where
  "seen e = e\<lparr>fe_updated_at := None, fe_reactions := Some (or_none (fe_reactions e)), fe_attachments := Some (or_none (fe_attachments e))\<rparr>"

section \<open>The cache follows the server\<close>

lemma or_none_cases [simp]: "or_none None = []" "or_none (Some xs) = xs" "or_none (omitempty ys) = or_none ys"
  by (simp_all add: or_none_def omitempty_def)

lemma seen_keeps [simp]:
  "te_id (seen e) = te_id e" "te_created_at (seen e) = te_created_at e" "te_parent_id (seen e) = te_parent_id e"
  "seen (seen e) = seen e" "entry_key (seen e) = entry_key e"
  "or_none (fe_reactions (seen e)) = or_none (fe_reactions e)"
  "seen (seen e\<lparr>fe_reactions := rs\<rparr>) = seen (e\<lparr>fe_reactions := rs\<rparr>)"
  by (simp_all add: seen_def entry_key_def)

lemma seen_fetched [simp]: "seen (commentsToEntries c) = seen (commentToTimelineEntry c)"
  by (simp add: seen_def commentsToEntries_def commentToTimelineEntry_def)

definition held :: "server_rows \<Rightarrow> full_entry set" where
  "held S = commentToTimelineEntry ` set (sv_comments S) \<union> set (sv_activities S)"

lemma listed_view:
  assumes "within_cap S"
  shows "seen ` set (ListTimeline S) = seen ` held S"
  using assms by (auto simp: ListTimeline_def server_entries_def held_def within_cap_def image_Un image_image)

lemma listed_ok:
  assumes "server_ok issueId S" "within_cap S"
  shows "cache_ok (ListTimeline S)"
proof -
  have "map te_id (server_entries S) = map cm_id (sort_key (\<lambda>c. (cm_created_at c, cm_id c)) (sv_comments S))
      @ map te_id (sort_key entry_key (sv_activities S))"
    using assms(2) by (simp add: server_entries_def within_cap_def comp_def commentsToEntries_def)
  then have "mset (map te_id (server_entries S)) = mset (row_ids S)" by (simp add: row_ids_def)
  then have "distinct (map te_id (server_entries S))"
    using assms(1) mset_eq_imp_distinct_iff by (fastforce simp: server_ok_def)
  then show ?thesis unfolding ListTimeline_def using sort_ok [of "server_entries S"] by (simp add: sort_fold)
qed

lemma under_seen: "under (seen ` A) t i = under A t i"
proof
  assume "under (seen ` A) t i"
  then show "under A t i"
  proof induction
    case (reply p e)
    then obtain x where "x \<in> A" "e = seen x" by auto
    with reply.IH reply.hyps(3,4) show ?case using under.reply [of A t p x] by simp
  qed (rule under.self)
next
  assume "under A t i"
  then show "under (seen ` A) t i"
  proof induction
    case (reply p e)
    then have "under (seen ` A) t (te_id (seen e))" by (intro under.reply [of _ _ p "seen e"]) simp_all
    then show ?case by simp
  qed (rule under.self)
qed

text \<open>An event does the same to what is seen.\<close>

lemma change_seen: "seen ` change_of ev A = seen ` change_of ev (seen ` A)"
proof (cases ev)
  case (CommentDeleted i j)
  have "change_of ev (seen ` A) = seen ` change_of ev A" by (auto simp: CommentDeleted under_seen)
  then show ?thesis by (simp add: image_image)
qed (auto simp: put_new_def put_comment_def put_reactions_def image_image simp del: if_image_distrib intro!: image_cong)

definition follows :: "server_rows \<Rightarrow> full_entry list \<Rightarrow> bool" where
  "follows S es = (cache_ok es \<and> seen ` set es = seen ` held S)"

lemma event_follows:
  assumes es: "follows S es" and ev: "concerns issueId ev" "keeps_date ev (held S)"
    and S': "seen ` change_of ev (held S) = seen ` held S'"
  shows "\<exists>es'. on_timeline_event issueId ev (Some es) = Some es' \<and> follows S' es'"
proof -
  have "keeps_date ev (set es)" using ev(2) es
  proof -
    have "te_created_at e = d" if "e \<in> set es" "te_id e = i" "\<forall>e \<in> held S. te_id e = i \<longrightarrow> te_created_at e = d" for e i d
    proof -
      have "seen e \<in> seen ` held S" using es that(1) by (auto simp: follows_def)
      then obtain x where "x \<in> held S" "seen e = seen x" by auto
      with that show ?thesis by (metis seen_keeps(1,2))
    qed
    with ev(2) show ?thesis by (cases ev) auto
  qed
  moreover have "seen ` change_of ev (set es) = seen ` held S'"
    using es S' by (simp add: follows_def change_seen [of ev "set es"] change_seen [of ev "held S"])
  ultimately show ?thesis
    using event_refines [of es issueId ev] es ev(1) by (force simp: follows_def)
qed

lemma row_ids_distinct:
  assumes "server_ok issueId S"
  shows "distinct (map cm_id (sv_comments S))" "cm_id ` set (sv_comments S) \<inter> te_id ` set (sv_activities S) = {}"
  using assms by (auto simp: server_ok_def row_ids_def)

lemma row_found:
  assumes "row_of i S = Some c"
  shows "c \<in> set (sv_comments S) \<and> cm_id c = i"
  using assms by (auto simp: row_of_def find_Some_iff)

lemma only_row:
  assumes "server_ok issueId S" "row_of i S = Some c" "d \<in> set (sv_comments S)" "cm_id d = i"
  shows "d = c"
  using row_ids_distinct(1) [OF assms(1)] row_found [OF assms(2)] assms(3,4) by (auto simp: distinct_map inj_on_def)

lemma no_row: "row_of i S = None \<Longrightarrow> change_row i f S = S"
  by (cases S) (auto simp: row_of_def change_row_def find_None_iff intro!: map_idI)

lemma same_row:
  assumes "server_ok issueId S" "row_of i S = Some c" "f c = c"
  shows "change_row i f S = S"
proof -
  have "map (\<lambda>d. if cm_id d = i then f d else d) (sv_comments S) = sv_comments S"
    by (rule map_idI) (use only_row [OF assms(1,2)] assms(3) in auto)
  then show ?thesis by (simp add: change_row_def)
qed

text \<open>A change of one row, told by an event on its entry.\<close>

lemma changed_row:
  assumes "server_ok issueId S" "row_of i S = Some c"
    and g: "seen (g (commentToTimelineEntry c)) = seen (commentToTimelineEntry (f c))"
  shows "seen ` (\<lambda>e. if te_id e = i then g e else e) ` held S = seen ` held (change_row i f S)"
proof -
  have "seen (if te_id (commentToTimelineEntry d) = i then g (commentToTimelineEntry d) else commentToTimelineEntry d)
      = seen (commentToTimelineEntry (if cm_id d = i then f d else d))" if "d \<in> set (sv_comments S)" for d
    using only_row [OF assms(1,2) that] g by auto
  then have coms: "seen ` (\<lambda>e. if te_id e = i then g e else e) ` commentToTimelineEntry ` set (sv_comments S)
      = seen ` commentToTimelineEntry ` (\<lambda>d. if cm_id d = i then f d else d) ` set (sv_comments S)"
    unfolding image_image by (intro image_cong) simp_all
  have "te_id e \<noteq> i" if "e \<in> set (sv_activities S)" for e
    using row_ids_distinct(2) [OF assms(1)] row_found [OF assms(2)] that by force
  then have "(\<lambda>e. if te_id e = i then g e else e) ` set (sv_activities S) = (\<lambda>e. e) ` set (sv_activities S)"
    by (intro image_cong) auto
  with coms show ?thesis by (simp add: held_def change_row_def image_Un del: if_image_distrib)
qed

text \<open>The levels of the cascade are the closure.\<close>

lemma cascade_deletes:
  assumes C: "inj_on cm_id C" "\<And>c. c \<in> C \<Longrightarrow> cm_parent_id c \<noteq> Some []"
    and E: "\<And>e. e \<in> E \<Longrightarrow> te_parent_id e \<noteq> None \<Longrightarrow> e \<in> commentToTimelineEntry ` C" "commentToTimelineEntry ` C \<subseteq> E"
  shows "set rows \<subseteq> C \<Longrightarrow> \<forall>g \<in> set gone. under E i g \<Longrightarrow> \<forall>c \<in> C - set rows. under E i (cm_id c) \<Longrightarrow>
     \<forall>c \<in> set rows. cm_id c \<noteq> i \<Longrightarrow>
     \<forall>c \<in> set rows. \<forall>p \<in> insert i (cm_id ` (C - set rows)). cm_parent_id c = Some p \<longrightarrow> p \<in> set gone \<Longrightarrow>
     set (delete_cascade gone rows) = {c \<in> C. \<not> under E i (cm_id c)}"
proof (induction gone rows rule: delete_cascade.induct)
  case (1 gone rows)
  let ?hit = "filter (refers (set gone)) rows" and ?rest = "filter (\<lambda>c. \<not> refers (set gone) c) rows"
  show ?case
  proof (cases "?hit = []")
    case True
    then have none: "\<forall>c \<in> set rows. \<not> refers (set gone) c" by (simp add: filter_empty_conv)
    have "x \<in> insert i (cm_id ` (C - set rows))" if "under E i x" for x
      using that
    proof induction
      case (reply p e)
      then obtain c where c: "c \<in> C" "e = commentToTimelineEntry c" using E(1) by (metis imageE option.distinct(1))
      with reply have "c \<notin> set rows" using none 1(6) by (fastforce simp: refers_def)
      with c show ?case by auto
    qed simp
    then have "\<not> under E i (cm_id c)" if "c \<in> set rows" for c
      using that 1(2,5) C(1) by (fastforce simp: inj_on_def)
    with 1(2,4) True show ?thesis by (auto simp: delete_cascade.simps [of gone rows])
  next
    case False
    have hit: "under E i (cm_id c)" if "c \<in> set rows" "refers (set gone) c" for c
    proof -
      note c = that
      obtain p where p: "cm_parent_id c = Some p" "p \<in> set gone"
        using c(2) by (auto simp: refers_def split: option.splits)
      with c 1(2) C(2) [of c] have "some_text (te_parent_id (commentToTimelineEntry c))"
        by (auto simp: some_text_def)
      moreover have "commentToTimelineEntry c \<in> E" using c(1) 1(2) E(2) by auto
      ultimately show ?thesis using under.reply [of E i p "commentToTimelineEntry c"] 1(3) p by simp
    qed
    have "set (delete_cascade (map cm_id ?hit) ?rest) = {c \<in> C. \<not> under E i (cm_id c)}"
    proof (rule 1(1) [OF False])
      show "\<forall>c \<in> set ?rest. \<forall>p \<in> insert i (cm_id ` (C - set ?rest)). cm_parent_id c = Some p \<longrightarrow> p \<in> set (map cm_id ?hit)"
        using 1(2,6) by (fastforce simp: refers_def)
    qed (use 1(2,4,5) hit in auto)
    with False show ?thesis by (simp add: delete_cascade.simps [of gone rows])
  qed
qed

lemma deleted_rows:
  assumes "server_ok issueId S" "row_of i S = Some c"
  shows "set (sv_comments (server_step (Delete i) S)) = {d \<in> set (sv_comments S). \<not> under (held S) i (cm_id d)}"
    and "held (server_step (Delete i) S) = {e \<in> held S. \<not> under (held S) i (te_id e)}"
proof -
  let ?C = "set (sv_comments S)"
  have acts: "te_parent_id e = None" "te_id e \<noteq> i" if "e \<in> set (sv_activities S)" for e
    using assms(1) that row_ids_distinct(2) [OF assms(1)] row_found [OF assms(2)]
    by (force simp: server_ok_def list_all_iff)+
  have E: "e \<in> commentToTimelineEntry ` ?C" if "e \<in> held S" "te_parent_id e \<noteq> None" for e
    using that acts(1) by (auto simp: held_def)
  have "set (delete_cascade [i] (filter (\<lambda>c. cm_id c \<noteq> i) (sv_comments S))) = {d \<in> ?C. \<not> under (held S) i (cm_id d)}"
  proof (rule cascade_deletes)
    show "inj_on cm_id ?C" using row_ids_distinct(1) [OF assms(1)] by (simp add: distinct_map)
    show "d \<in> ?C \<Longrightarrow> cm_parent_id d \<noteq> Some []" for d using assms(1) by (auto simp: server_ok_def list_all_iff row_ok_def)
  qed (auto simp: held_def under.self acts(1))
  then show rows: "set (sv_comments (server_step (Delete i) S)) = {d \<in> ?C. \<not> under (held S) i (cm_id d)}"
    using assms(2) by simp
  have "\<not> under (held S) i (te_id e)" if "e \<in> set (sv_activities S)" for e
  proof
    assume "under (held S) i (te_id e)"
    then show False
    proof cases
      case self
      with acts(2) [OF that] show False by simp
    next
      case (reply p x)
      then obtain d where "d \<in> ?C" "te_id e = cm_id d" using E [of x] by auto
      with row_ids_distinct(2) [OF assms(1)] that show False by force
    qed
  qed
  with rows assms(2) show "held (server_step (Delete i) S) = {e \<in> held S. \<not> under (held S) i (te_id e)}"
    by (auto simp: held_def)
qed

lemma change_row_ok:
  assumes "server_ok issueId S" "\<And>c. row_of i S = Some c \<Longrightarrow> row_ok issueId c \<Longrightarrow> row_ok issueId (f c) \<and> cm_id (f c) = cm_id c"
  shows "server_ok issueId (change_row i f S)"
proof (cases "row_of i S")
  case (Some c)
  have d: "row_ok issueId d \<and> (cm_id d = i \<longrightarrow> row_ok issueId (f d) \<and> cm_id (f d) = i)" if "d \<in> set (sv_comments S)" for d
    using that assms only_row [OF assms(1) Some that] Some by (auto simp: server_ok_def list_all_iff)
  then have "map cm_id (map (\<lambda>c. if cm_id c = i then f c else c) (sv_comments S)) = map cm_id (sv_comments S)" by simp
  with assms(1) d show ?thesis by (auto simp: server_ok_def row_ids_def change_row_def list_all_iff simp del: map_map)
qed (simp add: no_row assms(1))

lemma delete_cascade_filter: "\<exists>P. delete_cascade gone rows = filter P rows"
proof (induction gone rows rule: delete_cascade.induct)
  case (1 gone rows)
  show ?case
  proof (cases "filter (refers (set gone)) rows = []")
    case True
    then have "delete_cascade gone rows = filter (\<lambda>_. True) rows" by (simp add: delete_cascade.simps [of gone rows])
    then show ?thesis by blast
  next
    case False
    with 1 [OF False] show ?thesis by (auto simp: delete_cascade.simps [of gone rows])
  qed
qed

lemma row_functions:
  "cm_id (new_row c) = cm_id c" "cm_id (agent_row c) = cm_id c" "cm_id (edited content atts task now c) = cm_id c"
  "cm_id (resolved_row actor_type actor_id now c) = cm_id c" "cm_id (unresolved_row now c) = cm_id c"
  "cm_id (AddReaction r c) = cm_id c" "cm_id (RemoveReaction emoji at ai c) = cm_id c"
  "cm_issue_id c = issueId \<Longrightarrow> cm_parent_id c \<noteq> Some [] \<Longrightarrow> row_ok issueId (new_row c)"
  "cm_issue_id c = issueId \<Longrightarrow> cm_parent_id c \<noteq> Some [] \<Longrightarrow> row_ok issueId (agent_row c)"
  "row_ok issueId c \<Longrightarrow> row_ok issueId (edited content atts task now c)"
  "row_ok issueId c \<Longrightarrow> row_ok issueId (resolved_row actor_type actor_id now c)"
  "row_ok issueId c \<Longrightarrow> row_ok issueId (unresolved_row now c)"
  "row_ok issueId c \<Longrightarrow> cm_id c = rx_target r \<Longrightarrow> row_ok issueId (AddReaction r c)"
  "row_ok issueId c \<Longrightarrow> row_ok issueId (RemoveReaction emoji at ai c)"
  by (simp_all add: new_row_def agent_row_def row_ok_def edited_def resolved_row_def unresolved_row_def AddReaction_def
      RemoveReaction_def list_all_iff coalesce_def)

lemma server_step_ok:
  assumes "server_ok issueId S" "admissible issueId S op"
  shows "server_ok issueId (server_step op S)"
proof (cases op)
  case (Delete i)
  obtain P where P: "delete_cascade [i] (filter (\<lambda>c. cm_id c \<noteq> i) (sv_comments S)) = filter P (sv_comments S)"
    using delete_cascade_filter [of "[i]" "filter (\<lambda>c. cm_id c \<noteq> i) (sv_comments S)"] by auto
  have "distinct (map cm_id (filter P (sv_comments S)) @ map te_id (sv_activities S))"
    using assms(1) by (auto simp: server_ok_def row_ids_def distinct_map_filter)
  with assms(1) show ?thesis by (auto simp: Delete P server_ok_def row_ids_def list_all_iff)
next
  case (Post c)
  with assms show ?thesis by (auto simp: server_ok_def row_ids_def row_functions)
next
  case (AgentPost c)
  with assms show ?thesis by (auto simp: server_ok_def row_ids_def row_functions)
next
  case (Log e)
  with assms show ?thesis by (auto simp: server_ok_def row_ids_def)
qed (simp_all add: assms(1) change_row_ok [OF assms(1)] row_functions row_found)

lemma held_new: "held (S\<lparr>sv_comments := sv_comments S @ [c]\<rparr>) = insert (commentToTimelineEntry c) (held S)"
  "held (S\<lparr>sv_activities := sv_activities S @ [e]\<rparr>) = insert e (held S)"
  by (auto simp: held_def)

lemma held_ids: "te_id ` held S = set (row_ids S)"
  by (auto simp: held_def row_ids_def image_Un image_image)

text \<open>The event of a changed row.\<close>

lemma told_row:
  assumes "server_ok issueId S" "row_of i S = Some c" "cm_id p = i" "cm_created_at p = cm_created_at c"
    "seen (commentToTimelineEntry p) = seen (commentToTimelineEntry (f c))"
  shows "seen ` put_comment p (held S) = seen ` held (change_row i f S)"
    and "\<forall>e \<in> held S. te_id e = cm_id p \<longrightarrow> te_created_at e = cm_created_at p"
proof -
  show "seen ` put_comment p (held S) = seen ` held (change_row i f S)"
    unfolding put_comment_def assms(3) using changed_row [OF assms(1,2), of "\<lambda>_. commentToTimelineEntry p" f] assms(5) by simp
  show "\<forall>e \<in> held S. te_id e = cm_id p \<longrightarrow> te_created_at e = cm_created_at p"
  proof (intro ballI impI)
    fix e assume e: "e \<in> held S" "te_id e = cm_id p"
    show "te_created_at e = cm_created_at p"
    proof (cases "e \<in> set (sv_activities S)")
      case True
      with e(2) row_found [OF assms(2)] row_ids_distinct(2) [OF assms(1)] assms(3) show ?thesis by force
    next
      case False
      then obtain d where "d \<in> set (sv_comments S)" "e = commentToTimelineEntry d" using e(1) by (auto simp: held_def)
      with only_row [OF assms(1,2), of d] e(2) assms(3,4) show ?thesis by simp
    qed
  qed
qed

lemma told_reactions:
  assumes "server_ok issueId S" "row_of i S = Some c" "f c = c\<lparr>cm_reactions := Some (g (or_none (cm_reactions c)))\<rparr> \<or> f c = c \<and> g (or_none (cm_reactions c)) = or_none (cm_reactions c)"
  shows "seen ` put_reactions i g (held S) = seen ` held (change_row i f S)"
proof -
  have "put_reactions i g (held S)
      = (\<lambda>e. if te_id e = i then e\<lparr>fe_reactions := Some (g (or_none (fe_reactions e)))\<rparr> else e) ` held S"
    unfolding put_reactions_def by (intro image_cong) auto
  moreover have "seen ((commentToTimelineEntry c)\<lparr>fe_reactions := Some (g (or_none (fe_reactions (commentToTimelineEntry c))))\<rparr>)
      = seen (commentToTimelineEntry (f c))"
    using assms(3) by (elim disjE) (simp_all add: seen_def commentToTimelineEntry_def)
  ultimately show ?thesis using changed_row [OF assms(1,2), of "\<lambda>e. e\<lparr>fe_reactions := Some (g (or_none (fe_reactions e)))\<rparr>" f]
    by simp
qed

lemma event_step:
  assumes "announced issueId S op = [ev]" "follows S es" "concerns issueId ev" "keeps_date ev (held S)"
    "seen ` change_of ev (held S) = seen ` held (server_step op S)"
  shows "\<exists>es'. fold (on_timeline_event issueId) (announced issueId S op) (Some es) = Some es' \<and> follows (server_step op S) es'"
  using event_follows [OF assms(2-5)] assms(1) by simp

text \<open>The row of a comment that is told whole.\<close>

lemma told_step:
  assumes S: "server_ok issueId S" "row_of i S = Some c" and es: "follows S es"
    and op: "announced issueId S op = [ev]" "server_step op S = change_row i f S"
    and ev: "ev = CommentUpdated p \<or> ev = CommentResolved p \<or> ev = CommentUnresolved p"
    and p: "cm_id p = cm_id c" "cm_issue_id p = cm_issue_id c" "cm_created_at p = cm_created_at c"
      "seen (commentToTimelineEntry p) = seen (commentToTimelineEntry (f c))"
  shows "\<exists>es'. fold (on_timeline_event issueId) (announced issueId S op) (Some es) = Some es' \<and> follows (server_step op S) es'"
proof (rule event_step [OF op(1) es])
  have i: "cm_id p = i" "cm_issue_id p = issueId"
    using S p(1,2) row_found [OF S(2)] by (auto simp: server_ok_def list_all_iff row_ok_def)
  note told = told_row [where f = f, OF S i(1) p(3,4)]
  show "concerns issueId ev" using ev i(2) by auto
  show "keeps_date ev (held S)" using ev told(2) by auto
  show "seen ` change_of ev (held S) = seen ` held (server_step op S)" using ev told(1) op(2) by auto
qed

lemma no_announcement:
  assumes "follows S es" "announced issueId S op = []" "server_step op S = S"
  shows "\<exists>es'. fold (on_timeline_event issueId) (announced issueId S op) (Some es) = Some es' \<and> follows (server_step op S) es'"
  using assms by simp

lemma op_follows:
  assumes S: "server_ok issueId S" "admissible issueId S op" and es: "follows S es"
  shows "\<exists>es'. fold (on_timeline_event issueId) (announced issueId S op) (Some es) = Some es' \<and> follows (server_step op S) es'"
proof -
  note quiet = no_announcement [OF es]
  have fresh: "seen ` put_new e (held S) = seen ` insert e (held S)" if "te_id e \<notin> set (row_ids S)" for e
    using that by (simp add: put_new_def held_ids)
  show ?thesis
  proof (cases op)
    case (Post c)
    show ?thesis
      by (rule event_step [OF _ es, of _ _ "CommentCreated (new_row c)"])
        (use Post S fresh [of "commentToTimelineEntry (new_row c)"] in \<open>simp_all add: row_functions held_new new_row_def\<close>)
  next
    case (AgentPost c)
    have "seen ` put_new (commentToTimelineEntry (agent_payload c)) (held S) = seen ` insert (commentToTimelineEntry (agent_row c)) (held S)"
      using fresh [of "commentToTimelineEntry (agent_payload c)"] AgentPost S(2)
      by (simp add: agent_payload_def agent_row_def new_row_def commentToTimelineEntry_def seen_def)
    then show ?thesis
      by (intro event_step [OF _ es, of _ _ "CommentCreated (agent_payload c)"])
        (use AgentPost S in \<open>simp_all add: held_new agent_payload_def agent_row_def new_row_def\<close>)
  next
    case (Edit i content atts task now)
    show ?thesis
    proof (cases "row_of i S")
      case (Some c)
      show ?thesis
        by (rule told_step [OF S(1) Some es, of _ "CommentUpdated (edited content atts task now c)" "edited content atts task now" "edited content atts task now c"])
          (simp_all add: Edit on_row_def Some, simp_all add: edited_def)
    qed (intro quiet, simp_all add: Edit on_row_def no_row)
  next
    case (Resolve i at ai now)
    show ?thesis
    proof (cases "row_of i S")
      case (Some c)
      have c: "row_ok issueId c" using S(1) row_found [OF Some] by (auto simp: server_ok_def list_all_iff)
      show ?thesis
      proof (cases "cm_resolved_at c = None")
        case True
        then show ?thesis
          by (intro told_step [OF S(1) Some es, of _ "CommentResolved (resolved_row at ai now c)" "resolved_row at ai now" "resolved_row at ai now c"])
            (simp_all add: Resolve on_row_def Some resolved_row_def)
      next
        case False
        with c have "resolved_row at ai now c = c" by (cases c) (auto simp: resolved_row_def coalesce_def row_ok_def)
        with False show ?thesis by (intro quiet) (simp_all add: Resolve on_row_def Some same_row [OF S(1) Some])
      qed
    qed (intro quiet, simp_all add: Resolve on_row_def no_row)
  next
    case (Unresolve i now)
    show ?thesis
    proof (cases "row_of i S")
      case (Some c)
      have c: "row_ok issueId c" using S(1) row_found [OF Some] by (auto simp: server_ok_def list_all_iff)
      show ?thesis
      proof (cases "cm_resolved_at c = None")
        case True
        with c show ?thesis
          by (intro quiet) (simp_all add: Unresolve on_row_def Some same_row [OF S(1) Some] unresolved_row_def row_ok_def)
      next
        case False
        then show ?thesis
          by (intro told_step [OF S(1) Some es, of _ "CommentUnresolved (unresolved_row now c)" "unresolved_row now" "unresolved_row now c"])
            (simp_all add: Unresolve on_row_def Some unresolved_row_def)
      qed
    qed (intro quiet, simp_all add: Unresolve on_row_def no_row)
  next
    case (Reopen i now)
    show ?thesis
    proof (cases "row_of i S")
      case (Some c)
      have c: "row_ok issueId c" using S(1) row_found [OF Some] by (auto simp: server_ok_def list_all_iff)
      show ?thesis
      proof (cases "cm_resolved_at c = None")
        case True
        with c show ?thesis
          by (intro quiet) (simp_all add: Reopen on_row_def Some same_row [OF S(1) Some] unresolved_row_def row_ok_def)
      next
        case False
        with S(2) Some have "or_none (cm_reactions c) = []" "or_none (cm_attachments c) = []" "cm_source_task_id c = None"
          by (simp_all add: Reopen)
        with False show ?thesis
          by (intro told_step [OF S(1) Some es, of _ "CommentUnresolved (reopened_payload (unresolved_row now c))" "unresolved_row now" "reopened_payload (unresolved_row now c)"])
            (simp_all add: Reopen on_row_def Some unresolved_row_def reopened_payload_def commentToTimelineEntry_def seen_def)
      qed
    qed (intro quiet, simp_all add: Reopen on_row_def no_row)
  next
    case (Delete i)
    show ?thesis
    proof (cases "row_of i S")
      case (Some c)
      show ?thesis
        by (rule event_step [OF _ es, of _ _ "CommentDeleted i issueId"])
          (use Delete Some deleted_rows(2) [OF S(1) Some] in \<open>simp_all add: on_row_def\<close>)
    qed (intro quiet, simp_all add: Delete on_row_def)
  next
    case (Log e)
    show ?thesis
      by (rule event_step [OF _ es, of _ _ "ActivityCreated issueId (Some e)"])
        (use Log S fresh [of e] in \<open>simp_all add: held_new\<close>)
  next
    case (React r)
    show ?thesis
    proof (cases "row_of (rx_target r) S")
      case (Some c)
      define x where "x = (case find (same_reaction r) (or_none (cm_reactions c)) of None \<Rightarrow> r | Some x \<Rightarrow> x)"
      have c: "row_ok issueId c" "cm_id c = rx_target r"
        using S(1) row_found [OF Some] by (auto simp: server_ok_def list_all_iff)
      have x: "rx_target x = rx_target r \<and> (AddReaction r c = c\<lparr>cm_reactions := Some (add_reaction x (or_none (cm_reactions c)))\<rparr>
          \<or> AddReaction r c = c \<and> add_reaction x (or_none (cm_reactions c)) = or_none (cm_reactions c))"
      proof (cases "find (same_reaction r) (or_none (cm_reactions c))")
        case None
        then have "x = r" by (simp add: x_def)
        with None S(2) Some show ?thesis
          by (simp add: React AddReaction_def add_reaction_def list_ex_iff find_None_iff)
      next
        case (Some y)
        then have "x = y" by (simp add: x_def)
        moreover from Some have y: "y \<in> set (or_none (cm_reactions c))" "same_reaction r y" by (auto simp: find_Some_iff)
        ultimately show ?thesis using c
          by (auto simp: AddReaction_def add_reaction_def list_ex_iff row_ok_def list_all_iff)
      qed
      have "seen ` put_reactions (rx_target x) (add_reaction x) (held S) = seen ` held (change_row (rx_target r) (AddReaction r) S)"
        using told_reactions [OF S(1) Some, of "AddReaction r" "add_reaction x"] x by simp
      then show ?thesis
        by (intro event_step [OF _ es, of _ _ "ReactionAdded x issueId"]) (simp_all add: React on_row_def Some x_def)
    qed (intro quiet, simp_all add: React on_row_def no_row)
  next
    case (Unreact i emoji at ai)
    show ?thesis
    proof (cases "row_of i S")
      case (Some c)
      have "seen ` put_reactions i (remove_reaction emoji at ai) (held S) = seen ` held (change_row i (RemoveReaction emoji at ai) S)"
      proof (rule told_reactions [OF S(1) Some], rule disjI1)
        have "(\<lambda>r. \<not> (rx_actor_type r = at \<and> rx_actor_id r = ai \<and> rx_emoji r = emoji))
            = (\<lambda>r. \<not> (rx_emoji r = emoji \<and> rx_actor_type r = at \<and> rx_actor_id r = ai))" by auto
        then show "RemoveReaction emoji at ai c = c\<lparr>cm_reactions := Some (remove_reaction emoji at ai (or_none (cm_reactions c)))\<rparr>"
          unfolding RemoveReaction_def remove_reaction_def by (rule arg_cong)
      qed
      then show ?thesis
        by (intro event_step [OF _ es, of _ _ "ReactionRemoved i issueId emoji at ai"])
          (simp_all add: Unreact on_row_def Some)
    qed (intro quiet, simp_all add: Unreact on_row_def no_row)
  next
    case (Elsewhere ev)
    with S(2) es show ?thesis by (simp add: unconcerned)
  qed
qed

lemma run_follows:
  "server_ok issueId S \<Longrightarrow> admissible_run issueId S ops \<Longrightarrow> follows S es \<Longrightarrow>
   \<exists>es'. fold (on_timeline_event issueId) (broadcasts issueId S ops) (Some es) = Some es'
     \<and> follows (fold server_step ops S) es' \<and> server_ok issueId (fold server_step ops S)"
proof (induction ops arbitrary: S es)
  case (Cons op ops)
  from op_follows [OF Cons.prems(1) _ Cons.prems(3), of op] Cons.prems(2) obtain es1 where
    "fold (on_timeline_event issueId) (announced issueId S op) (Some es) = Some es1" "follows (server_step op S) es1" by auto
  with Cons.IH [of "server_step op S" es1] server_step_ok [OF Cons.prems(1)] Cons.prems(2) show ?case by simp
qed simp

text \<open>C16: the socket handlers keep a fetched timeline up to date. The server's rows change by any requests: comments are
  posted by members and agents, edited, resolved, reopened and deleted with all replies below, reactions come and
  go, activities are logged, and other issues change. When the handlers are given what the server broadcasts, in its
  order, the cache shows what a fetch of the timeline would bring now, entry for entry and in the same order. The
  lists fit in the cap of the server, whose clock is UTC. One broadcast is excluded unless it is harmless: the one of
  a thread reopened by a reply leaves the reactions, the attachments and the task of the root out, and the root must
  not have any.\<close>

theorem events_keep_timeline:
  assumes "server_ok issueId S" "admissible_run issueId S ops" "within_cap S" "within_cap (fold server_step ops S)"
  shows "\<exists>es. fold (on_timeline_event issueId) (broadcasts issueId S ops) (Some (ListTimeline S)) = Some es
    \<and> map seen es = map seen (ListTimeline (fold server_step ops S))"
proof -
  let ?S' = "fold server_step ops S"
  have "follows S (ListTimeline S)" by (simp add: follows_def listed_ok [OF assms(1,3)] listed_view [OF assms(3)])
  from run_follows [OF assms(1,2) this] obtain es where es:
    "fold (on_timeline_event issueId) (broadcasts issueId S ops) (Some (ListTimeline S)) = Some es"
    "cache_ok es" "seen ` set es = seen ` held ?S'" "server_ok issueId ?S'" by (auto simp: follows_def)
  have "cache_ok (map seen es)" "cache_ok (map seen (ListTimeline ?S'))"
    using map_same_keys [OF es(2)] map_same_keys [OF listed_ok [OF es(4) assms(4)]] by auto
  with es(1,3) listed_view [OF assms(4)] cache_unique show ?thesis by (metis list.set_map)
qed

section \<open>The cache in every state\<close>

definition cached_ok :: "timeline_cache \<Rightarrow> bool" where
  "cached_ok cache = (case cache of None \<Rightarrow> True | Some es \<Rightarrow> cache_ok es)"

definition timeline_start :: "timeline_sys \<Rightarrow> bool" where
  "timeline_start s = (s = \<lparr>ts_cache = None, ts_prevs = []\<rparr>)"

fun offered :: "jstr \<Rightarrow> timeline_sys \<Rightarrow> timeline_input \<Rightarrow> bool" where
  "offered issueId s (SocketEvent ev) = (concerns issueId ev \<longrightarrow> keeps_date ev (set (or_none (ts_cache s))))"
| "offered issueId s (MutationFailed n) = (n < length (ts_prevs s))"
| "offered issueId s (FetchLanded es) = cache_ok es"
| "offered issueId s _ = True"

definition timeline_inv :: "timeline_sys \<Rightarrow> bool" where
  "timeline_inv s = (cached_ok (ts_cache s) \<and> (\<forall>p \<in> set (ts_prevs s). cached_ok p))"

lemma cached_append: "cached_ok cache \<Longrightarrow> cached_ok (append_entry e cache)"
proof (cases cache)
  case (Some es)
  then show "cached_ok cache \<Longrightarrow> ?thesis" using append_entry_ok [of es e] by (auto simp: cached_ok_def)
qed (simp add: cached_ok_def append_entry_def cache_ok_def)

lemma cached_event:
  assumes "cached_ok cache" "concerns issueId ev \<Longrightarrow> keeps_date ev (set (or_none cache))"
  shows "cached_ok (on_timeline_event issueId ev cache)"
proof (cases cache)
  case None
  then show ?thesis
    by (cases ev) (auto simp: cached_ok_def append_entry_def cache_ok_def replace_entry_def with_reactions_def
        remove_thread_below_def split: option.split)
next
  case (Some es)
  with event_refines [of es issueId ev] unconcerned [of issueId ev cache] assms show ?thesis
    by (cases "concerns issueId ev") (auto simp: cached_ok_def)
qed

lemma cached_map: "cached_ok cache \<Longrightarrow> (\<And>e. entry_key (f e) = entry_key e) \<Longrightarrow> cached_ok (map_option (map f) cache)"
  by (cases cache) (auto simp: cached_ok_def intro: map_same_keys)

lemma cached_mutations:
  assumes "cached_ok cache"
  shows "cached_ok (updateComment_mutate i content atts cache)" "cached_ok (deleteComment_mutate i cache)"
    "cached_ok (resolveComment_mutate i resolved now cache)"
proof -
  show "cached_ok (updateComment_mutate i content atts cache)"
    unfolding updateComment_mutate_def using assms by (rule cached_map) (simp add: entry_key_def)
  show "cached_ok (deleteComment_mutate i cache)"
    using assms by (cases cache) (simp_all add: deleteComment_mutate_def cached_ok_def filter_ok)
  have "entry_key (resolve_entry i resolved now ids e) = entry_key e" for ids e
    by (simp add: resolve_entry_def entry_key_def)
  then show "cached_ok (resolveComment_mutate i resolved now cache)"
    using assms by (cases cache) (auto simp: resolveComment_mutate_def cached_ok_def Let_def intro!: map_same_keys)
qed

lemma timeline_inv_step: "timeline_inv s \<Longrightarrow> offered issueId s inp \<Longrightarrow> timeline_inv (timeline_step issueId s inp)"
proof (cases inp)
  case (MutationFailed n)
  then show "timeline_inv s \<Longrightarrow> offered issueId s inp \<Longrightarrow> ?thesis"
    by (auto simp: timeline_inv_def restore_timeline_def dest: in_set_takeD in_set_dropD nth_mem)
qed (auto simp: timeline_inv_def cached_event createComment_success_def cached_append optimistic_def cached_mutations
    cached_ok_def [of "Some _"] dest: in_set_takeD in_set_dropD)

interpretation timelines: invariant_machine timeline_start "timeline_step issueId" "offered issueId" timeline_inv for issueId
proof
  show "timeline_start s \<Longrightarrow> timeline_inv s" for s
    by (simp add: timeline_start_def timeline_inv_def cached_ok_def)
qed (rule timeline_inv_step)

text \<open>C31: the cached timeline is always sorted by date and identifier and no identifier is in it twice, whatever the
  interleaving of socket events, creations that answer before or after their broadcast, optimistic changes, their
  rollbacks and fetches. A comment keeps its date, and a fetch brings a sorted list without doubles. That every
  announced entry is there is not claimed: a fetch answered before an event may land after it
  (\<open>fetch_overtakes_event\<close>).\<close>

theorem timeline_in_order:
  assumes "reachable timeline_start (timeline_step issueId) (offered issueId) s" "ts_cache s = Some es"
  shows "sorted (map (\<lambda>e. (te_created_at e, te_id e)) es) \<and> distinct (map te_id es)"
  using timelines.inv_reachable [OF assms(1)] assms(2)
  by (simp add: timeline_inv_def cached_ok_def cache_ok_def entry_key_def [abs_def])

section \<open>Deletion\<close>

text \<open>C32: deleting a comment removes it and every reply below it, and nothing else. The broadcast of the
  deletion then changes nothing, and a failure before any other change brings the timeline back.\<close>

theorem delete_takes_replies:
  "deleteComment_mutate i (Some es) = Some (filter (\<lambda>e. \<not> under (set es) i (te_id e)) es)
   \<and> on_timeline_event issueId (CommentDeleted i issueId) (deleteComment_mutate i (Some es)) = deleteComment_mutate i (Some es)
   \<and> restore_timeline (Some es) (deleteComment_mutate i (Some es)) = Some es"
proof -
  have gone: "e = i" if "under {e \<in> set es. \<not> under (set es) i (te_id e)} i e" for e
    using that
  proof induction
    case (reply p e)
    then have "under (set es) i (te_id e)" by (auto intro: under.intros)
    with reply.hyps(2) show ?case by simp
  qed simp
  have "filter (\<lambda>e. \<not> under {e \<in> set es. \<not> under (set es) i (te_id e)} i (te_id e))
      (filter (\<lambda>e. \<not> under (set es) i (te_id e)) es) = filter (\<lambda>e. \<not> under (set es) i (te_id e)) es"
    using gone by (auto simp: filter_filter intro!: filter_cong under.self)
  then show ?thesis
    by (simp add: delete_is_removal removes_under restore_timeline_def)
qed

section \<open>Resolution\<close>

definition thread_comments :: "full_entry list \<Rightarrow> full_entry list" where
  "thread_comments es = filter (\<lambda>e. te_type e = CommentEntry) es"

lemma comments_by_id_list:
  "distinct (map te_id es) \<Longrightarrow> comments_by_id es = map (\<lambda>e. (te_id e, e)) (thread_comments es)"
proof (induction es rule: rev_induct)
  case (snoc e es)
  then have "te_id e \<notin> set (map_keys (map (\<lambda>e. (te_id e, e)) (thread_comments es)))"
    by (auto simp: map_keys_def thread_comments_def)
  with snoc show ?case by (auto simp: comments_by_id_def thread_comments_def map_set_def)
qed (simp add: comments_by_id_def thread_comments_def)

lemma comment_get:
  assumes "distinct (map te_id es)" "e \<in> set (thread_comments es)"
  shows "map_get (comments_by_id es) (te_id e) = Some e"
proof -
  have "distinct (map te_id (thread_comments es))" using assms(1) by (simp add: thread_comments_def distinct_map_filter)
  then have "map_of (map (\<lambda>e. (te_id e, e)) (thread_comments es)) (te_id e) = Some e"
    using assms(2) by (intro map_of_is_SomeI) (simp_all add: comp_def)
  then show ?thesis by (simp add: comments_by_id_list [OF assms(1)] map_get_def)
qed

lemma children_list:
  "or_none (map_get (childrenByParent m) i) =
     map te_id (filter (\<lambda>e. some_text (te_parent_id e) \<and> te_parent_id e = Some i) (map snd m))"
proof -
  have "or_none (map_get (fold add_child es []) i) =
      map te_id (filter (\<lambda>e. some_text (te_parent_id e) \<and> te_parent_id e = Some i) es)" for es :: "full_entry list"
  proof (induction es rule: rev_induct)
    case (snoc e es)
    have "map_get (fold add_child (es @ [e]) []) i =
        (if some_text (te_parent_id e) \<and> te_parent_id e = Some i
         then Some (or_none (map_get (fold add_child es []) i) @ [te_id e]) else map_get (fold add_child es []) i)"
      by (auto simp: add_child_def map_get_set some_text_def)
    with snoc show ?case by (auto simp: or_none_def)
  qed (simp add: or_none_def)
  then show ?thesis by (simp add: childrenByParent_def)
qed

lemma expand_nil: "expand_thread children ids [] = ids"
  by (simp add: expand_thread.simps)

lemma expand_sound:
  assumes "\<And>j x. x \<in> set (or_none (map_get children j)) \<Longrightarrow> under S t j \<Longrightarrow> under S t x"
  shows "set stack \<subseteq> set ids \<Longrightarrow> \<forall>i \<in> set ids. under S t i \<Longrightarrow> \<forall>i \<in> set (expand_thread children ids stack). under S t i"
  using assms
proof (induction children ids stack rule: expand_thread.induct)
  case (1 children ids stack)
  show ?case
  proof (cases "stack = []")
    case True
    with 1 show ?thesis by (simp add: expand_nil)
  next
    case False
    obtain ids' stack' where p: "push_children (or_none (map_get children (last stack))) ids (butlast stack) = (ids', stack')"
      by fastforce
    obtain added where a: "ids' = ids @ added" "stack' = butlast stack @ added"
      "set added = set (or_none (map_get children (last stack))) - set ids"
      using push_children_grows [OF p] by blast
    have "last stack \<in> set ids" using False 1(2) by auto
    then have "\<forall>i \<in> set ids'. under S t i" using 1(3) 1(4) a by auto
    moreover have "set stack' \<subseteq> set ids'" using a 1(2) by (auto dest: in_set_butlastD)
    ultimately have "\<forall>i \<in> set (expand_thread children ids' stack'). under S t i"
      using 1(1) [OF False p [symmetric] refl] 1(4) by blast
    with False show ?thesis by (simp add: expand_thread.simps [of children ids stack] p)
  qed
qed

lemma expand_closed:
  "set stack \<subseteq> set ids \<Longrightarrow> (\<And>i. i \<in> set ids - set stack \<Longrightarrow> set (or_none (map_get children i)) \<subseteq> set ids) \<Longrightarrow>
   set ids \<subseteq> set (expand_thread children ids stack) \<and>
   (\<forall>i \<in> set (expand_thread children ids stack). set (or_none (map_get children i)) \<subseteq> set (expand_thread children ids stack))"
proof (induction children ids stack rule: expand_thread.induct)
  case (1 children ids stack)
  show ?case
  proof (cases "stack = []")
    case True
    with 1 show ?thesis by (simp add: expand_nil)
  next
    case False
    obtain ids' stack' where p: "push_children (or_none (map_get children (last stack))) ids (butlast stack) = (ids', stack')"
      by fastforce
    obtain added where a: "ids' = ids @ added" "stack' = butlast stack @ added"
      "set added = set (or_none (map_get children (last stack))) - set ids"
      using push_children_grows [OF p] by blast
    have "set stack' \<subseteq> set ids'" using a 1(2) by (auto dest: in_set_butlastD)
    moreover have "set (or_none (map_get children i)) \<subseteq> set ids'" if "i \<in> set ids' - set stack'" for i
    proof (cases "i = last stack")
      case False
      have "set stack = insert (last stack) (set (butlast stack))"
        using \<open>stack \<noteq> []\<close> by (metis append_butlast_last_id list.simps(15) rotate1.simps(2) set_rotate1)
      with that False a have "i \<in> set ids - set stack" by auto
      with 1(3) a show ?thesis by fastforce
    qed (use a in auto)
    ultimately have "set ids' \<subseteq> set (expand_thread children ids' stack') \<and>
      (\<forall>i \<in> set (expand_thread children ids' stack'). set (or_none (map_get children i)) \<subseteq> set (expand_thread children ids' stack'))"
      using 1(1) [OF False p [symmetric] refl] by blast
    with False a show ?thesis by (auto simp: expand_thread.simps [of children ids stack] p)
  qed
qed

text \<open>With the children of a set of comments the expansion is the closure.\<close>

lemma expand_under:
  assumes "\<And>j. set (or_none (map_get children j)) = te_id ` {e \<in> S. some_text (te_parent_id e) \<and> te_parent_id e = Some j}"
  shows "set (expand_thread children [t] [t]) = {i. under S t i}"
proof (intro set_eqI iffI CollectI)
  fix i assume "i \<in> set (expand_thread children [t] [t])"
  moreover have "\<And>j x. x \<in> set (or_none (map_get children j)) \<Longrightarrow> under S t j \<Longrightarrow> under S t x"
    unfolding assms by (auto intro: under.reply)
  then have "\<forall>i \<in> set (expand_thread children [t] [t]). under S t i"
    by (rule expand_sound) (simp_all add: under.self)
  ultimately show "under S t i" by blast
next
  fix i assume "i \<in> {i. under S t i}"
  then have "under S t i" by simp
  then show "i \<in> set (expand_thread children [t] [t])"
  proof induction
    case self
    then show ?case using expand_closed [of "[t]" "[t]" children] by auto
  next
    case (reply p e)
    moreover have "set (or_none (map_get children p)) \<subseteq> set (expand_thread children [t] [t])"
      using expand_closed [of "[t]" "[t]" children] reply.IH by auto
    ultimately show ?case unfolding assms by auto
  qed
qed

definition ranked :: "full_entry set \<Rightarrow> (full_entry \<Rightarrow> nat) \<Rightarrow> bool" where
  "ranked S rank = (\<forall>e \<in> S. some_text (te_parent_id e) \<longrightarrow>
     (\<exists>p \<in> S. te_parent_id e = Some (te_id p) \<and> rank p < rank e))"

lemma climb_root:
  assumes ids: "distinct (map te_id es)" and ra: "ranked (set (thread_comments es)) rank"
  shows "e \<in> set (thread_comments es) \<Longrightarrow>
    (\<And>g. g \<in> set guarded \<Longrightarrow> \<exists>x \<in> set (thread_comments es). te_id x = g \<and> rank e < rank x) \<Longrightarrow>
    \<exists>r \<in> set (thread_comments es). climb_ids (comments_by_id es) (Some e) guarded (te_id e) = te_id r
      \<and> \<not> some_text (te_parent_id r) \<and> under (set (thread_comments es)) (te_id r) (te_id e)"
proof (induction e arbitrary: guarded rule: measure_induct_rule [of rank])
  case (less e)
  show ?case
  proof (cases "some_text (te_parent_id e)")
    case False
    with less.prems show ?thesis by (intro bexI [of _ e]) (simp_all add: climb_ids.simps under.self)
  next
    case True
    with ra less.prems(1) obtain p where p: "p \<in> set (thread_comments es)" "te_parent_id e = Some (te_id p)" "rank p < rank e"
      by (auto simp: ranked_def)
    have "te_id e \<notin> set guarded"
    proof
      assume "te_id e \<in> set guarded"
      with less.prems(2) obtain x where "x \<in> set (thread_comments es)" "te_id x = te_id e" "rank e < rank x" by blast
      moreover from this(1,2) less.prems(1) have "x = e"
        using ids by (auto simp: thread_comments_def distinct_map inj_on_def)
      ultimately show False by simp
    qed
    then have step: "climb_ids (comments_by_id es) (Some e) guarded (te_id e) =
        climb_ids (comments_by_id es) (Some p) (te_id e # guarded) (te_id p)"
      using True p comment_get [OF ids p(1)] by (simp add: climb_ids.simps [of _ "Some e"])
    have "\<exists>x \<in> set (thread_comments es). te_id x = g \<and> rank p < rank x" if "g \<in> set (te_id e # guarded)" for g
    proof (cases "g = te_id e")
      case True
      with less.prems(1) p(3) show ?thesis by blast
    next
      case False
      with that less.prems(2) obtain x where "x \<in> set (thread_comments es)" "te_id x = g" "rank e < rank x" by auto
      moreover from this(3) p(3) have "rank p < rank x" by simp
      ultimately show ?thesis by blast
    qed
    from less.IH [OF p(3,1) this] obtain r where r: "r \<in> set (thread_comments es)"
      "climb_ids (comments_by_id es) (Some p) (te_id e # guarded) (te_id p) = te_id r"
      "\<not> some_text (te_parent_id r)" "under (set (thread_comments es)) (te_id r) (te_id p)" by blast
    from under.reply [OF r(4) less.prems(1) True p(2)] r(1-3) show ?thesis
      by (intro bexI [of _ r]) (simp_all add: step)
  qed
qed

lemma thread_ids:
  assumes ids: "distinct (map te_id es)" and ra: "ranked (set (thread_comments es)) rank" and c: "c \<in> set (thread_comments es)"
  shows "\<exists>r \<in> set (thread_comments es). \<not> some_text (te_parent_id r) \<and> under (set (thread_comments es)) (te_id r) (te_id c)
    \<and> set (collectThreadCommentIds es (te_id c)) = {i. under (set (thread_comments es)) (te_id r) i}"
proof -
  have "\<exists>r \<in> set (thread_comments es). climb_ids (comments_by_id es) (Some c) [] (te_id c) = te_id r
      \<and> \<not> some_text (te_parent_id r) \<and> under (set (thread_comments es)) (te_id r) (te_id c)"
    by (rule climb_root [OF ids ra c]) simp
  then obtain r where r: "r \<in> set (thread_comments es)" "climb_ids (comments_by_id es) (Some c) [] (te_id c) = te_id r"
    "\<not> some_text (te_parent_id r)" "under (set (thread_comments es)) (te_id r) (te_id c)" by blast
  have "set (or_none (map_get (childrenByParent (comments_by_id es)) j)) =
      te_id ` {e \<in> set (thread_comments es). some_text (te_parent_id e) \<and> te_parent_id e = Some j}" for j
    unfolding children_list by (simp add: comments_by_id_list [OF ids] comp_def)
  from expand_under [OF this] r show ?thesis
    by (intro bexI [of _ r]) (simp_all add: collectThreadCommentIds_def Let_def comment_get [OF ids c])
qed

section \<open>The thread as the page shows it\<close>

definition plain :: "full_entry \<Rightarrow> TimelineEntry" where
  "plain e = TimelineEntry.truncate e"

lemma plain_fields [simp]:
  "te_type (plain e) = te_type e" "te_id (plain e) = te_id e" "te_parent_id (plain e) = te_parent_id e"
  "te_resolved_at (plain e) = te_resolved_at e"
  by (simp_all add: plain_def TimelineEntry.truncate_def)

lemma chain_iff_under:
  "(\<exists>cs. chain (map plain es) t cs \<and> i = (if cs = [] then t else te_id (last cs)))
    \<longleftrightarrow> under (set (thread_comments es)) t i"
proof
  assume "\<exists>cs. chain (map plain es) t cs \<and> i = (if cs = [] then t else te_id (last cs))"
  then obtain cs where "chain (map plain es) t cs" "i = (if cs = [] then t else te_id (last cs))" by blast
  then show "under (set (thread_comments es)) t i"
  proof (induction cs arbitrary: i rule: rev_induct)
    case (snoc c cs)
    then have cs: "chain (map plain es) t cs" and "c \<in> set (map plain es)" "is_reply c"
      and p: "te_parent_id c = Some (if cs = [] then t else te_id (last cs))" and i: "i = te_id c"
      by (simp_all add: path_append)
    then obtain e where e: "e \<in> set (thread_comments es)" "c = plain e" "some_text (te_parent_id e)"
      by (auto simp: is_reply_def thread_comments_def)
    from under.reply [OF snoc.IH [OF cs refl] e(1,3)] p i e(2) show ?case by simp
  qed (simp add: under.self)
next
  assume "under (set (thread_comments es)) t i"
  then show "\<exists>cs. chain (map plain es) t cs \<and> i = (if cs = [] then t else te_id (last cs))"
  proof induction
    case self
    show ?case by (intro exI [of _ "[]"]) simp
  next
    case (reply p e)
    then obtain cs where "chain (map plain es) t cs" "p = (if cs = [] then t else te_id (last cs))" by blast
    with reply.hyps(2-4) show ?case
      by (intro exI [of _ "cs @ [plain e]"]) (auto simp: path_append is_reply_def thread_comments_def)
  qed
qed

lemma thread_of_ids:
  assumes "distinct (map te_id es)" "r \<in> set es" "is_root (plain r)"
  shows "te_id ` set (thread_of (map plain es) (plain r)) = {i. under (set (thread_comments es)) (te_id r) i}"
proof -
  have ids: "distinct (map te_id (map plain es))" using assms(1) by (simp add: comp_def)
  have mem: "x \<in> set (thread_of (map plain es) (plain r)) \<longleftrightarrow>
      (\<exists>cs. chain (map plain es) (te_id r) cs \<and> x = last (plain r # cs))" for x
    using thread_member [OF ids, of "plain r"] assms(2,3) by simp
  have "te_id (last (plain r # cs)) = (if cs = [] then te_id r else te_id (last cs))" for cs by simp
  note last_id = this
  have "i \<in> te_id ` set (thread_of (map plain es) (plain r)) \<longleftrightarrow> under (set (thread_comments es)) (te_id r) i" for i
    unfolding chain_iff_under [symmetric] image_iff Bex_def mem last_id [symmetric] by blast
  then show ?thesis by blast
qed

text \<open>A change of entries that keeps identifiers, types and parents keeps the threads.\<close>

lemma under_map:
  assumes "\<And>e. te_id (f e) = te_id e \<and> te_type (f e) = te_type e \<and> te_parent_id (f e) = te_parent_id e"
  shows "under (set (thread_comments (map f es))) t i = under (set (thread_comments es)) t i"
proof -
  have "thread_comments (map f es) = map f (thread_comments es)" by (simp add: thread_comments_def filter_map comp_def assms)
  then have eq: "set (thread_comments (map f es)) = f ` set (thread_comments es)" by simp
  show ?thesis
  proof
    assume "under (set (thread_comments (map f es))) t i"
    then show "under (set (thread_comments es)) t i"
    proof induction
      case (reply p e)
      then obtain x where "x \<in> set (thread_comments es)" "e = f x" by (auto simp: eq)
      with reply.IH reply.hyps(3,4) show ?case using under.reply [of _ t p x] by (simp add: assms)
    qed (rule under.self)
  next
    assume "under (set (thread_comments es)) t i"
    then show "under (set (thread_comments (map f es))) t i"
    proof induction
      case (reply p e)
      then have "under (set (thread_comments (map f es))) t (te_id (f e))"
        by (intro under.reply [of _ _ p "f e"]) (simp_all add: eq assms)
      then show ?case by (simp add: assms)
    qed (rule under.self)
  qed
qed

lemma image_outside:
  "(\<And>e. g (f e) = g e) \<Longrightarrow> (\<And>e. g e \<notin> T \<Longrightarrow> f e = e) \<Longrightarrow> {e \<in> f ` A. g e \<notin> T} = {e \<in> A. g e \<notin> T}"
  by (auto simp: image_iff) metis

lemma latest_cons:
  obtains ch where "latest_resolved chosen (r # rs) = latest_resolved ch rs"
    "(ch = chosen \<and> (some_text (te_resolved_at r) \<longrightarrow> chosen \<noteq> None)) \<or> (ch = Some r \<and> some_text (te_resolved_at r))"
  by (rule that [of "if some_text (te_resolved_at r)
      then (case chosen of None \<Rightarrow> Some r | Some c \<Rightarrow> if the (te_resolved_at c) < the (te_resolved_at r) then Some r else chosen)
      else chosen"]) (auto split: option.split)

lemma latest_resolved_sound:
  "latest_resolved chosen rs = Some x \<Longrightarrow> chosen = Some x \<or> (x \<in> set rs \<and> some_text (te_resolved_at x))"
proof (induction rs arbitrary: chosen)
  case (Cons r rs)
  obtain ch where "latest_resolved chosen (r # rs) = latest_resolved ch rs"
    "(ch = chosen \<and> (some_text (te_resolved_at r) \<longrightarrow> chosen \<noteq> None)) \<or> (ch = Some r \<and> some_text (te_resolved_at r))"
    by (rule latest_cons)
  with Cons.prems Cons.IH [of ch] show ?case by auto
qed simp

lemma latest_resolved_none: "latest_resolved chosen rs = None \<Longrightarrow> chosen = None \<and> (\<forall>r \<in> set rs. \<not> some_text (te_resolved_at r))"
proof (induction rs arbitrary: chosen)
  case (Cons r rs)
  obtain ch where "latest_resolved chosen (r # rs) = latest_resolved ch rs"
    "(ch = chosen \<and> (some_text (te_resolved_at r) \<longrightarrow> chosen \<noteq> None)) \<or> (ch = Some r \<and> some_text (te_resolved_at r))"
    by (rule latest_cons)
  with Cons.prems Cons.IH [of ch] show ?case by auto
qed simp

lemma resolve_entry_keeps:
  "te_id (resolve_entry i b now ids e) = te_id e \<and> te_type (resolve_entry i b now ids e) = te_type e
   \<and> te_parent_id (resolve_entry i b now ids e) = te_parent_id e"
  by (simp add: resolve_entry_def)

lemma sole_resolution:
  assumes sole: "\<And>e. e \<in> set (root # replies) \<Longrightarrow> some_text (te_resolved_at e) \<longleftrightarrow> te_id e = c"
    and c: "c \<in> te_id ` set (root # replies)"
  shows "deriveThreadResolution root replies = (if c = te_id root then RootResolution else ReplyResolution c)"
proof (cases "c = te_id root")
  case True
  then show ?thesis using sole [of root] by (simp add: deriveThreadResolution_def)
next
  case False
  with c obtain e where e: "e \<in> set replies" "te_id e = c" by auto
  obtain x where x: "latest_resolved None replies = Some x"
    using latest_resolved_none [of None replies] sole [of e] e by (cases "latest_resolved None replies") auto
  with latest_resolved_sound [OF x] sole [of x] have "te_id x = c" by simp
  with False x sole [of root] show ?thesis by (simp add: deriveThreadResolution_def)
qed

text \<open>C21: resolving a comment makes it the resolution of its thread, and the only one. In the thread the page then
  shows, exactly the comment is resolved, and the entries outside of the thread are as they were.\<close>

theorem resolution_is_the_only_one:
  assumes ids: "distinct (map te_id es)" and ra: "ranked (set (thread_comments es)) rank"
    and c: "c \<in> set (thread_comments es)" and now: "now \<noteq> []"
  shows "\<exists>es' root replies. resolveComment_mutate (te_id c) True now (Some es) = Some es'
    \<and> root \<in> set (map plain es') \<and> is_root root
    \<and> collectThreadReplies (length es') (te_id root) (repliesByParent (map plain es')) = Some replies
    \<and> te_id c \<in> te_id ` set (root # replies)
    \<and> deriveThreadResolution root replies = (if te_id c = te_id root then RootResolution else ReplyResolution (te_id c))
    \<and> (\<forall>e \<in> set (root # replies). some_text (te_resolved_at e) \<longleftrightarrow> te_id e = te_id c)
    \<and> {e \<in> set es'. te_id e \<notin> te_id ` set (root # replies)} = {e \<in> set es. te_id e \<notin> te_id ` set (root # replies)}"
proof -
  obtain r where r: "r \<in> set (thread_comments es)" "\<not> some_text (te_parent_id r)"
    and rc: "under (set (thread_comments es)) (te_id r) (te_id c)"
    and coll: "set (collectThreadCommentIds es (te_id c)) = {i. under (set (thread_comments es)) (te_id r) i}"
    using thread_ids [OF ids ra c] by blast
  define f where "f = resolve_entry (te_id c) True now (collectThreadCommentIds es (te_id c))"
  define es' where "es' = map f es"
  have f: "te_id (f e) = te_id e \<and> te_type (f e) = te_type e \<and> te_parent_id (f e) = te_parent_id e" for e
    by (simp add: f_def resolve_entry_keeps)
  have ids': "distinct (map te_id es')" using ids by (simp add: es'_def comp_def f)
  define root where "root = plain (f r)"
  have root: "root \<in> set (map plain es')" "is_root root" "f r \<in> set es'"
    using r by (auto simp: root_def es'_def is_root_def f thread_comments_def)
  define replies where "replies = sortTimelineEntriesAsc (tl (thread_of (map plain es') root))"
  have pids: "distinct (map te_id (map plain es'))" using ids' by (simp add: comp_def)
  have collect: "collectThreadReplies (length es') (te_id root) (repliesByParent (map plain es')) = Some replies"
    using collect_thread [OF pids root(1,2)] by (simp add: replies_def)
  have members: "set (root # replies) = set (thread_of (map plain es') root)"
    by (simp add: replies_def sortTimelineEntriesAsc_def thread_of_def)
  have thread: "te_id ` set (root # replies) = {i. under (set (thread_comments es)) (te_id r) i}"
    unfolding members using thread_of_ids [OF ids' root(3)] root(2) under_map [OF f, of es]
    by (simp add: root_def f es'_def)
  have cin: "te_id c \<in> te_id ` set (root # replies)" unfolding thread using rc by simp
  have sole: "some_text (te_resolved_at e) \<longleftrightarrow> te_id e = te_id c" if e: "e \<in> set (root # replies)" for e
  proof -
    have "set (root # replies) \<subseteq> set (map plain es')"
      unfolding members using thread_member [OF pids root(1,2)] chain_members root(1) by (force simp: last_in_set)
    with e obtain x where x: "x \<in> set es" "e = plain (f x)" by (auto simp: es'_def)
    have "te_id x \<in> set (collectThreadCommentIds es (te_id c))"
      using e thread x(2) f coll by (metis (no_types) imageI plain_fields(2))
    then show ?thesis using x now by (auto simp: f_def resolve_entry_def some_text_def)
  qed
  have "f e = e" if "te_id e \<notin> te_id ` set (root # replies)" for e
    using that cin unfolding thread coll [symmetric] by (auto simp: f_def resolve_entry_def)
  then have outside: "{e \<in> set es'. te_id e \<notin> te_id ` set (root # replies)} = {e \<in> set es. te_id e \<notin> te_id ` set (root # replies)}"
    unfolding es'_def set_map using f by (intro image_outside) simp_all
  have "resolveComment_mutate (te_id c) True now (Some es) = Some es'"
    by (simp add: resolveComment_mutate_def Let_def es'_def f_def)
  with root(1,2) collect cin sole_resolution [OF sole cin] sole outside show ?thesis by blast
qed

section \<open>Reactions\<close>

definition flipped :: "jstr \<Rightarrow> jstr \<Rightarrow> jstr \<Rightarrow> reaction list \<Rightarrow> reaction list" where
  "flipped userId target emoji rs =
     (if list_ex (is_mine userId emoji) rs then filter (\<lambda>r. \<not> is_mine userId emoji r) rs
      else rs @ [\<lparr>rx_id = ''optimistic-'' @ emoji, rx_target = target, rx_actor_type = ''member'',
             rx_actor_id = userId, rx_emoji = emoji, rx_created_at = []\<rparr>])"

text \<open>The reactions as the server keeps them: an actor has an emoji once.\<close>

definition reactions_ok :: "reaction list \<Rightarrow> bool" where
  "reactions_ok rs = (distinct (map rx_id rs) \<and> distinct (map (\<lambda>r. (rx_actor_type r, rx_actor_id r, rx_emoji r)) rs))"

lemma reactions_unique:
  assumes "reactions_ok rs" "a \<in> set rs" "b \<in> set rs" "is_mine u em a"
  shows "rx_id b = rx_id a \<longleftrightarrow> is_mine u em b"
proof -
  have ids: "inj_on rx_id (set rs)" and keys: "inj_on (\<lambda>r. (rx_actor_type r, rx_actor_id r, rx_emoji r)) (set rs)"
    using assms(1) by (simp_all add: reactions_ok_def distinct_map)
  have "rx_id b = rx_id a \<longleftrightarrow> b = a" using inj_on_eq_iff [OF ids assms(3,2)] by simp
  moreover have "is_mine u em b \<longleftrightarrow> b = a"
    using inj_on_eq_iff [OF keys assms(3,2)] assms(4) by (auto simp: is_mine_def)
  ultimately show ?thesis by simp
qed

lemma pending_flips:
  assumes "reactions_ok rs"
  shows "apply_pending u (toggle_vars u t em rs) rs = flipped u t em rs"
proof (cases "find (is_mine u em) rs")
  case None
  then have "\<not> list_ex (is_mine u em) rs" by (simp add: find_None_iff list_ex_iff)
  with None show ?thesis by (simp add: apply_pending_def toggle_vars_def flipped_def)
next
  case (Some a)
  then have a: "a \<in> set rs" "is_mine u em a" by (auto dest: find_in_set simp: find_Some_iff)
  then have "list_ex (is_mine u em) rs" by (auto simp: list_ex_iff)
  moreover have "filter (\<lambda>x. rx_id x \<noteq> rx_id a) rs = filter (\<lambda>r. \<not> is_mine u em r) rs"
    using reactions_unique [OF assms a(1) _ a(2)] by (intro filter_cong refl) auto
  ultimately show ?thesis using Some by (simp add: apply_pending_def toggle_vars_def flipped_def)
qed

lemma remove_mine: "remove_reaction em ''member'' u rs = filter (\<lambda>r. \<not> is_mine u em r) rs"
  by (simp add: remove_reaction_def is_mine_def)

lemma pending_landed:
  assumes "reactions_ok rs" "is_mine u em r"
  shows "apply_pending u (toggle_vars u t em rs)
      (if list_ex (is_mine u em) rs then remove_reaction em ''member'' u rs else add_reaction r rs)
    = (if list_ex (is_mine u em) rs then remove_reaction em ''member'' u rs else add_reaction r rs)
    \<or> (\<not> list_ex (is_mine u em) rs \<and> rx_id r \<in> rx_id ` set rs)"
proof (cases "find (is_mine u em) rs")
  case None
  then have "\<not> list_ex (is_mine u em) rs" by (simp add: find_None_iff list_ex_iff)
  with None assms(2) show ?thesis
    by (auto simp: apply_pending_def toggle_vars_def add_reaction_def list_ex_iff)
      (metis image_eqI)
next
  case (Some a)
  then have a: "a \<in> set rs" "is_mine u em a" by (auto dest: find_in_set simp: find_Some_iff)
  then have "list_ex (is_mine u em) rs" by (auto simp: list_ex_iff)
  moreover have "filter (\<lambda>x. rx_id x \<noteq> rx_id a) (remove_reaction em ''member'' u rs) = remove_reaction em ''member'' u rs"
    unfolding remove_mine filter_filter using reactions_unique [OF assms(1) a(1) _ a(2)] by (intro filter_cong refl) auto
  ultimately show ?thesis using Some by (simp add: apply_pending_def toggle_vars_def)
qed

lemma toggled_entry:
  assumes "distinct (map te_id es)" "e \<in> set es" "u \<noteq> []"
  shows "toggleReaction u (te_id e) em es = Some (toggle_vars u (te_id e) em (or_none (fe_reactions e)))"
proof -
  have "find (\<lambda>x. te_id x = te_id e) es = Some e"
    using assms(1,2) by (induction es) (auto simp: image_iff)
  then show ?thesis using assms(3) by (simp add: toggleReaction_def)
qed

lemma optimistic_one:
  "optimisticTimeline u [v] es =
     map (\<lambda>e. if te_id e \<noteq> rv_target v then e else e\<lparr>fe_reactions := Some (apply_pending u v (or_none (fe_reactions e)))\<rparr>) es"
  by (auto simp: optimisticTimeline_def)

lemma with_reactions_cong:
  "(\<And>e. e \<in> set es \<Longrightarrow> te_id e = i \<Longrightarrow> f (or_none (fe_reactions e)) = g (or_none (fe_reactions e))) \<Longrightarrow>
   with_reactions i f (Some es) = with_reactions i g (Some es)"
  by (simp add: with_reactions_def)

lemma toggle_target [simp]: "rv_target (toggle_vars u t em rs) = t"
  by (simp add: toggle_vars_def)

lemma optimistic_with: "Some (optimisticTimeline u [v] es) = with_reactions (rv_target v) (apply_pending u v) (Some es)"
  by (simp add: optimistic_one with_reactions_def)

lemma with_reactions_compose:
  "with_reactions i g (with_reactions i f (Some es)) = with_reactions i (g \<circ> f) (Some es)"
  by (simp add: with_reactions_def comp_def or_none_def)

text \<open>A click on a reaction shows at once, and once. While the request is under way the comment shows the
  reaction flipped and every other as it was; when its broadcast arrives before the answer, the
  timeline shows what the broadcast brought.\<close>

theorem reaction_click_shows_once:
  assumes ids: "distinct (map te_id es)" and e: "e \<in> set es" "reactions_ok (or_none (fe_reactions e))" and u: "u \<noteq> []"
    and r: "is_mine u em r" "rx_target r = te_id e" "rx_id r \<notin> rx_id ` set (or_none (fe_reactions e))"
    and ev: "ev = (if list_ex (is_mine u em) (or_none (fe_reactions e)) then ReactionRemoved (te_id e) issueId em ''member'' u
      else ReactionAdded r issueId)"
  shows "\<exists>v. toggleReaction u (te_id e) em es = Some v
    \<and> Some (optimisticTimeline u [v] es) = with_reactions (te_id e) (flipped u (te_id e) em) (Some es)
    \<and> map_option (optimisticTimeline u [v]) (on_timeline_event issueId ev (Some es)) = on_timeline_event issueId ev (Some es)"
proof -
  let ?rs = "or_none (fe_reactions e)"
  let ?v = "toggle_vars u (te_id e) em ?rs"
  have only: "x = e" if "x \<in> set es" "te_id x = te_id e" for x
    using that ids e(1) by (auto simp: distinct_map inj_on_def)
  have shown: "Some (optimisticTimeline u [?v] es) = with_reactions (te_id e) (flipped u (te_id e) em) (Some es)"
    unfolding optimistic_with toggle_target
    by (rule with_reactions_cong) (use only pending_flips [OF e(2)] in blast)
  define f where "f = (if list_ex (is_mine u em) ?rs then remove_reaction em ''member'' u else add_reaction r)"
  have event: "on_timeline_event issueId ev (Some es) = with_reactions (te_id e) f (Some es)"
    using r(2) by (simp add: ev f_def)
  have "with_reactions (te_id e) (apply_pending u ?v \<circ> f) (Some es) = with_reactions (te_id e) f (Some es)"
  proof (rule with_reactions_cong)
    fix x assume "x \<in> set es" "te_id x = te_id e"
    then have x: "x = e" by (rule only)
    show "(apply_pending u ?v \<circ> f) (or_none (fe_reactions x)) = f (or_none (fe_reactions x))"
      using pending_landed [OF e(2) r(1), of "te_id e"] r(3) unfolding x by (auto simp: f_def split: if_splits)
  qed
  then have "map_option (optimisticTimeline u [?v]) (with_reactions (te_id e) f (Some es)) = with_reactions (te_id e) f (Some es)"
    by (simp add: with_reactions_compose [symmetric]) (simp add: with_reactions_def optimistic_one)
  with shown event toggled_entry [OF ids e(1) u] show ?thesis by auto
qed

text \<open>A second click before the first request ends repeats it: both read the cached reactions.\<close>

lemma second_click_repeats: "apply_pending u v (apply_pending u v rs) = apply_pending u v rs"
  by (auto simp: apply_pending_def is_mine_def split: option.split)

section \<open>Subscribers\<close>

text \<open>A change of the subscription shows at once, its broadcast changes nothing more, and a failure takes it
  back.\<close>

theorem subscription_toggles:
  assumes "sb_issue_id p = issueId" "sb_user_type p = ''member''" "sb_user_id p = u"
  shows "isSubscribed u (toggleSubscriber_mutate now issueId ''member'' u (isSubscribed u (Some subs)) (Some subs)) = (\<not> isSubscribed u (Some subs))
    \<and> (if isSubscribed u (Some subs) then subscriber_removed issueId issueId ''member'' u else subscriber_added issueId p)
        (toggleSubscriber_mutate now issueId ''member'' u (isSubscribed u (Some subs)) (Some subs))
      = toggleSubscriber_mutate now issueId ''member'' u (isSubscribed u (Some subs)) (Some subs)
    \<and> restore_subscribers (Some subs) (toggleSubscriber_mutate now issueId ''member'' u (isSubscribed u (Some subs)) (Some subs)) = Some subs"
proof (cases "list_ex (is_subscriber ''member'' u) subs")
  case True
  then show ?thesis
    by (auto simp: isSubscribed_def toggleSubscriber_mutate_def or_none_def subscriber_removed_def restore_subscribers_def list_ex_iff)
next
  case False
  have "is_subscriber ''member'' u \<lparr>sb_issue_id = issueId, sb_user_type = ''member'', sb_user_id = u, sb_reason = ''manual'',
      sb_created_at = now\<rparr>" by (simp add: is_subscriber_def)
  with False assms show ?thesis
    by (simp add: isSubscribed_def toggleSubscriber_mutate_def or_none_def subscriber_added_def restore_subscribers_def)
qed

section \<open>A concrete timeline\<close>

definition some_comment :: "jstr \<Rightarrow> jstr option \<Rightarrow> jstr \<Rightarrow> comment" where
  "some_comment i parent created =
     \<lparr>cm_id = i, cm_issue_id = ''i1'', cm_author_type = ''member'', cm_author_id = ''u1'', cm_content = ''hello'',
      cm_type = ''comment'', cm_parent_id = parent, cm_reactions = None, cm_attachments = None,
      cm_created_at = created, cm_updated_at = Some created, cm_resolved_at = None, cm_resolved_by_type = None,
      cm_resolved_by_id = None, cm_source_task_id = None\<rparr>"

definition thumb :: "jstr \<Rightarrow> jstr \<Rightarrow> reaction" where
  "thumb i target = \<lparr>rx_id = i, rx_target = target, rx_actor_type = ''member'', rx_actor_id = ''u1'', rx_emoji = ''up'',
     rx_created_at = ''t9''\<rparr>"

text \<open>A thread whose root is resolved and has a reaction, and another comment.\<close>

definition thread_root :: comment where
  "thread_root = (some_comment ''c1'' None ''t1'')\<lparr>cm_resolved_at := Some ''t3'', cm_resolved_by_type := Some ''member'',
     cm_resolved_by_id := Some ''u1'', cm_reactions := Some [thumb ''r1'' ''c1'']\<rparr>"

definition some_rows :: server_rows where
  "some_rows = \<lparr>sv_comments = [thread_root, some_comment ''c2'' (Some ''c1'') ''t2'', some_comment ''c3'' None ''t3''],
     sv_activities = []\<rparr>"

definition fetched_timeline :: "full_entry list" where
  "fetched_timeline = map commentToTimelineEntry
     [thread_root, some_comment ''c2'' (Some ''c1'') ''t2'', some_comment ''c3'' None ''t3'']"

definition some_ops :: "server_op list" where
  "some_ops =
     [Post (some_comment ''c5'' (Some ''c2'') ''t5''), AgentPost (some_comment ''c4'' None ''t4''),
      React (thumb ''r2'' ''c4''), Edit ''c3'' ''bye'' None None ''t6'', Resolve ''c4'' ''member'' ''u1'' ''t6'',
      Unreact ''c1'' ''up'' ''member'' ''u1'', Reopen ''c1'' ''t7'', Delete ''c2'',
      Elsewhere (CommentDeleted ''c1'' ''i2'')]"

lemma fetched_ok: "cache_ok fetched_timeline"
  by (simp add: cache_ok_def fetched_timeline_def entry_key_def some_comment_def thread_root_def
      commentToTimelineEntry_def)

theorem events_keep_timeline_witness:
  "\<exists>es. fold (on_timeline_event ''i1'') (broadcasts ''i1'' some_rows some_ops) (Some (ListTimeline some_rows)) = Some es
    \<and> map seen es = map seen (ListTimeline (fold server_step some_ops some_rows))"
proof (rule events_keep_timeline)
  show "server_ok ''i1'' some_rows" by code_simp
  show "admissible_run ''i1'' some_rows some_ops" by code_simp
  show "within_cap some_rows" by code_simp
  show "within_cap (fold server_step some_ops some_rows)" by code_simp
qed

theorem timeline_in_order_witness:
  "sorted (map (\<lambda>e. (te_created_at e, te_id e)) fetched_timeline) \<and> distinct (map te_id fetched_timeline)"
proof (rule timeline_in_order)
  have start: "reachable timeline_start (timeline_step ''i1'') (offered ''i1'') \<lparr>ts_cache = None, ts_prevs = []\<rparr>"
    by (rule reachable.init) (simp add: timeline_start_def)
  show "reachable timeline_start (timeline_step ''i1'') (offered ''i1'') (timeline_step ''i1'' \<lparr>ts_cache = None, ts_prevs = []\<rparr> (FetchLanded fetched_timeline))"
    by (rule reachable.step [OF start]) (simp add: fetched_ok)
qed simp

theorem resolution_is_the_only_one_witness:
  "\<exists>es' root replies. resolveComment_mutate ''c2'' True ''t6'' (Some fetched_timeline) = Some es'
    \<and> root \<in> set (map plain es') \<and> is_root root
    \<and> collectThreadReplies (length es') (te_id root) (repliesByParent (map plain es')) = Some replies
    \<and> ''c2'' \<in> te_id ` set (root # replies)
    \<and> deriveThreadResolution root replies = (if ''c2'' = te_id root then RootResolution else ReplyResolution ''c2'')
    \<and> (\<forall>e \<in> set (root # replies). some_text (te_resolved_at e) \<longleftrightarrow> te_id e = ''c2'')
    \<and> {e \<in> set es'. te_id e \<notin> te_id ` set (root # replies)} = {e \<in> set fetched_timeline. te_id e \<notin> te_id ` set (root # replies)}"
proof -
  have c2: "te_id (commentToTimelineEntry (some_comment ''c2'' (Some ''c1'') ''t2'')) = ''c2''" by (simp add: some_comment_def)
  show ?thesis
    by (rule resolution_is_the_only_one [of fetched_timeline "\<lambda>e. if te_id e = ''c2'' then 1 else 0"
          "commentToTimelineEntry (some_comment ''c2'' (Some ''c1'') ''t2'')" "''t6''", unfolded c2])
      (simp_all add: fetched_timeline_def ranked_def thread_comments_def some_comment_def thread_root_def
        commentToTimelineEntry_def some_text_def)
qed

theorem reaction_click_shows_once_witness:
  "\<exists>v. toggleReaction ''u1'' ''c3'' ''up'' fetched_timeline = Some v
    \<and> Some (optimisticTimeline ''u1'' [v] fetched_timeline) = with_reactions ''c3'' (flipped ''u1'' ''c3'' ''up'') (Some fetched_timeline)
    \<and> map_option (optimisticTimeline ''u1'' [v]) (on_timeline_event ''i1'' (ReactionAdded (thumb ''r3'' ''c3'') ''i1'') (Some fetched_timeline))
      = on_timeline_event ''i1'' (ReactionAdded (thumb ''r3'' ''c3'') ''i1'') (Some fetched_timeline)"
proof -
  have c3: "te_id (commentToTimelineEntry (some_comment ''c3'' None ''t3'')) = ''c3''" by (simp add: some_comment_def)
  show ?thesis
    by (rule reaction_click_shows_once [of fetched_timeline "commentToTimelineEntry (some_comment ''c3'' None ''t3'')" "''u1''" "''up''"
          "thumb ''r3'' ''c3''", unfolded c3])
      (simp_all add: fetched_timeline_def some_comment_def thread_root_def commentToTimelineEntry_def reactions_ok_def
        or_none_def is_mine_def thumb_def)
qed

theorem subscription_toggles_witness:
  "isSubscribed ''u1'' (toggleSubscriber_mutate ''t1'' ''i1'' ''member'' ''u1'' (isSubscribed ''u1'' (Some [])) (Some []))
    = (\<not> isSubscribed ''u1'' (Some []))
    \<and> (if isSubscribed ''u1'' (Some []) then subscriber_removed ''i1'' ''i1'' ''member'' ''u1''
       else subscriber_added ''i1'' \<lparr>sb_issue_id = ''i1'', sb_user_type = ''member'', sb_user_id = ''u1'', sb_reason = ''manual'', sb_created_at = ''t2''\<rparr>)
        (toggleSubscriber_mutate ''t1'' ''i1'' ''member'' ''u1'' (isSubscribed ''u1'' (Some [])) (Some []))
      = toggleSubscriber_mutate ''t1'' ''i1'' ''member'' ''u1'' (isSubscribed ''u1'' (Some [])) (Some [])
    \<and> restore_subscribers (Some []) (toggleSubscriber_mutate ''t1'' ''i1'' ''member'' ''u1'' (isSubscribed ''u1'' (Some [])) (Some [])) = Some []"
  by (rule subscription_toggles) simp_all

section \<open>Where the cache goes wrong\<close>

text \<open>The server announces that a reply reopened a thread with a payload that leaves the reactions and the attachments
  of the root out, and the handler takes the payload for the whole comment.\<close>

lemma reopened_root_loses_reactions:
  "fe_reactions (hd (ListTimeline (server_step (Reopen ''c1'' ''t7'') some_rows))) = Some [thumb ''r1'' ''c1'']
   \<and> map_option (fe_reactions \<circ> hd) (fold (on_timeline_event ''i1'') (broadcasts ''i1'' some_rows [Reopen ''c1'' ''t7''])
       (Some (ListTimeline some_rows))) = Some (Some [])"
  by code_simp

text \<open>A comment announced after the server answered the fetch and before the answer lands is lost.\<close>

lemma fetch_overtakes_event:
  "map_option (map te_id) (ts_cache (foldl (timeline_step ''i1'') \<lparr>ts_cache = None, ts_prevs = []\<rparr>
     [SocketEvent (CommentCreated (some_comment ''c4'' None ''t4'')), FetchLanded fetched_timeline]))
   = Some [''c1'', ''c2'', ''c3'']"
  by code_simp

text \<open>Subscribing before the list has loaded shows the user as the only subscriber, also after a failure.\<close>

lemma early_subscription_not_restored:
  "map_option length (restore_subscribers None (toggleSubscriber_mutate ''t1'' ''i1'' ''member'' ''u1'' False None)) = Some 1"
  by code_simp

end
