(* ===== verification/Trace_Events.thy ===== *)
theory Trace_Events
  imports JS_Object "HOL-Library.Sublist"
begin

text \<open>
  The presenter of the execution transcript
  (\<open>packages/views/common/task-transcript/trace-event-presenter.ts\<close>): the kind, label, summary and body of
  an event, and the line diff of an edit. \<open>JSON.parse\<close>, \<open>JSON.stringify\<close> and the reading of dates are
  parameters.
\<close>

section \<open>Events\<close>

record trace_event =
  ev_type :: jstr
  ev_tool :: "jstr option"
  ev_content :: "jstr option"
  ev_input :: "json jsobj option"
  ev_output :: "jstr option"
  ev_created_at :: "jstr option"

datatype trace_kind = KAgent | KThinking | KToolUse | KToolResult | KError | KGeneric

definition traceEventKind :: "trace_event \<Rightarrow> trace_kind" where
  "traceEventKind ev =
     (if ev_type ev = ''text'' then KAgent else if ev_type ev = ''thinking'' then KThinking
      else if ev_type ev = ''tool_use'' then KToolUse else if ev_type ev = ''tool_result'' then KToolResult
      else if ev_type ev = ''error'' then KError else KGeneric)"

definition text_or :: "jstr option \<Rightarrow> jstr \<Rightarrow> jstr" where
  "text_or v d = (case v of None \<Rightarrow> d | Some s \<Rightarrow> if s = [] then d else s)"

definition traceEventLabel :: "trace_event \<Rightarrow> jstr" where
  "traceEventLabel ev =
     (case traceEventKind ev of
        KAgent \<Rightarrow> ''Agent'' | KThinking \<Rightarrow> ''Thinking'' | KToolUse \<Rightarrow> text_or (ev_tool ev) ''Tool''
      | KToolResult \<Rightarrow> text_or (ev_tool ev) ''Result'' | KError \<Rightarrow> ''Error''
      | KGeneric \<Rightarrow> text_or (Some (ev_type ev)) ''Event'')"

section \<open>Summaries\<close>

definition shortenTracePath :: "jstr \<Rightarrow> jstr" where
  "shortenTracePath p =
     (let parts = str_split (CHR ''/'') p in
      if length parts \<le> 3 then p else ''.../'' @ str_join (CHR ''/'') (drop (length parts - 2) parts))"

text \<open>
  \<open>SHELL_WRAPPER_PATTERN\<close>: the word up to the first white space is a shell, alone or after a path with two
  slashes or more; flags follow, then a quoted body up to the end. White space is in no word and a flag does
  not begin with a quote, so there is one way to match.
\<close>

definition path_char :: "char \<Rightarrow> bool" where
  "path_char c = (c \<in> set ''abcdefghijklmnopqrstuvwxyzABCDEFGHIJKLMNOPQRSTUVWXYZ0123456789_./-'')"

definition is_lower :: "char \<Rightarrow> bool" where
  "is_lower c = (c \<in> set ''abcdefghijklmnopqrstuvwxyz'')"

definition shell_word :: "jstr \<Rightarrow> bool" where
  "shell_word w =
     list_ex (\<lambda>shell. w = shell \<or>
         (suffix (CHR ''/'' # shell) w \<and>
          (let path = take (length w - length shell) w
           in 2 \<le> length path \<and> hd path = CHR ''/'' \<and> list_all path_char path)))
       [''zsh'', ''bash'', ''sh'', ''fish'']"

text \<open>Flags, each with the white space after it; the bound is the length of the text.\<close>

fun skip_flags :: "nat \<Rightarrow> jstr \<Rightarrow> jstr" where
  "skip_flags 0 s = s"
| "skip_flags (Suc n) s =
     (case s of
        c # rest \<Rightarrow>
          (let name = takeWhile is_lower rest; after = dropWhile is_lower rest
           in if c = CHR ''-'' \<and> name \<noteq> [] \<and> after \<noteq> [] \<and> is_space (hd after)
              then skip_flags n (dropWhile is_space after) else s)
      | [] \<Rightarrow> s)"

definition stripShellWrapper :: "jstr \<Rightarrow> jstr" where
  "stripShellWrapper command =
     (let s = str_trim command;
          w = takeWhile (\<lambda>c. \<not> is_space c) s;
          spaces = dropWhile (\<lambda>c. \<not> is_space c) s;
          rest = skip_flags (length s) (dropWhile is_space spaces)
      in if shell_word w \<and> spaces \<noteq> [] \<and> 3 \<le> length rest \<and> hd rest \<in> {CHR 0x22, CHR 0x27} \<and> last rest = hd rest
         then butlast (tl rest) else command)"

definition clip :: "jstr \<Rightarrow> nat \<Rightarrow> jstr" where
  "clip s n = (if length s > n then take n s @ ''...'' else s)"

definition str_arg :: "json jsobj \<Rightarrow> jstr \<Rightarrow> jstr" where
  "str_arg input k = (case obj_get input k of Some (JStr s) \<Rightarrow> s | _ \<Rightarrow> [])"

fun short_text :: "json \<Rightarrow> bool" where
  "short_text (JStr s) = (0 < length s \<and> length s < 120)"
| "short_text _ = False"

definition traceToolArgSummary :: "json jsobj option \<Rightarrow> jstr" where
  "traceToolArgSummary inp =
     (case inp of
        None \<Rightarrow> []
      | Some input \<Rightarrow>
          if str_arg input ''query'' \<noteq> [] then str_arg input ''query''
          else if str_arg input ''file_path'' \<noteq> [] then shortenTracePath (str_arg input ''file_path'')
          else if str_arg input ''path'' \<noteq> [] then shortenTracePath (str_arg input ''path'')
          else if str_arg input ''pattern'' \<noteq> [] then str_arg input ''pattern''
          else if str_arg input ''description'' \<noteq> [] then str_arg input ''description''
          else if str_arg input ''command'' \<noteq> [] then clip (stripShellWrapper (str_arg input ''command'')) 120
          else if str_arg input ''prompt'' \<noteq> [] then clip (str_arg input ''prompt'') 120
          else if str_arg input ''skill'' \<noteq> [] then str_arg input ''skill''
          else (case find short_text (map snd input) of Some (JStr s) \<Rightarrow> s | _ \<Rightarrow> []))"

abbreviation newline :: char where
  "newline \<equiv> CHR 0x0A"

definition firstLine :: "jstr option \<Rightarrow> jstr" where
  "firstLine v =
     (case v of
        None \<Rightarrow> []
      | Some s \<Rightarrow> (case find (\<lambda>l. str_trim l \<noteq> []) (str_split newline s) of None \<Rightarrow> [] | Some l \<Rightarrow> l))"

text \<open>\<open>replace(/\s+/g, " ")\<close>\<close>

fun squeeze :: "jstr \<Rightarrow> jstr" where
  "squeeze [] = []"
| "squeeze (c # s) =
     (if is_space c then (case s of [] \<Rightarrow> '' '' | d # _ \<Rightarrow> if is_space d then squeeze s else CHR '' '' # squeeze s)
      else c # squeeze s)"

definition collapseWhitespace :: "jstr option \<Rightarrow> jstr" where
  "collapseWhitespace v = str_trim (squeeze (case v of None \<Rightarrow> [] | Some s \<Rightarrow> s))"

definition unwrapToolOutput :: "(jstr \<Rightarrow> json option) \<Rightarrow> jstr \<Rightarrow> jstr" where
  "unwrapToolOutput parse raw =
     (let trimmed = str_trim raw in
      if length trimmed < 2 \<or> hd trimmed \<noteq> CHR 0x22 \<or> last trimmed \<noteq> CHR 0x22 then raw
      else case parse trimmed of Some (JStr s) \<Rightarrow> s | _ \<Rightarrow> raw)"

definition traceEventSummary :: "(jstr \<Rightarrow> json option) \<Rightarrow> trace_event \<Rightarrow> jstr" where
  "traceEventSummary parse ev =
     (case traceEventKind ev of
        KThinking \<Rightarrow> clip (firstLine (ev_content ev)) 200
      | KToolUse \<Rightarrow> traceToolArgSummary (ev_input ev)
      | KToolResult \<Rightarrow>
          clip (collapseWhitespace (Some (unwrapToolOutput parse (case ev_output ev of None \<Rightarrow> [] | Some s \<Rightarrow> s)))) 200
      | _ \<Rightarrow> firstLine (case ev_content ev of None \<Rightarrow> ev_output ev | Some s \<Rightarrow> Some s))"

text \<open>The text of \<open>copy all\<close>; \<open>toISO\<close> is the timestamp of a date that reads as one.\<close>

definition traceEventCopyText ::
  "(jstr \<Rightarrow> json option) \<Rightarrow> (json jsobj \<Rightarrow> jstr) \<Rightarrow> (jstr \<Rightarrow> jstr option) \<Rightarrow> trace_event \<Rightarrow> jstr" where
  "traceEventCopyText parse stringify toISO ev =
     (let label = traceEventLabel ev;
          body = (case traceEventKind ev of
            KToolUse \<Rightarrow> (case ev_input ev of None \<Rightarrow> [] | Some input \<Rightarrow> stringify input)
          | KToolResult \<Rightarrow> unwrapToolOutput parse (case ev_output ev of None \<Rightarrow> [] | Some s \<Rightarrow> s)
          | _ \<Rightarrow> (case ev_content ev of None \<Rightarrow> [] | Some s \<Rightarrow> s));
          date = (case ev_created_at ev of None \<Rightarrow> None | Some d \<Rightarrow> if d = [] then None else toISO d);
          timestamp = (case date of None \<Rightarrow> [] | Some t \<Rightarrow> ''['' @ t @ ''] '')
      in if body \<noteq> [] then timestamp @ ''['' @ label @ ''] '' @ body else timestamp @ ''['' @ label @ '']'')"

section \<open>The line diff\<close>

datatype TraceDiffLine = DAdd jstr | DRemove jstr | DContext jstr | DGap nat

definition toLines :: "jstr \<Rightarrow> jstr list" where
  "toLines v = (if v = [] then [] else str_split newline v)"

definition MAX_DIFF_CELLS :: nat where
  "MAX_DIFF_CELLS = 250000"

text \<open>The flat table, filled from the last cell back; a read outside of it is 0.\<close>

definition lcs_at :: "nat \<Rightarrow> nat list \<Rightarrow> nat \<Rightarrow> nat \<Rightarrow> nat" where
  "lcs_at width lcs i j = (if i * width + j < length lcs then lcs ! (i * width + j) else 0)"

definition fill_cell :: "jstr list \<Rightarrow> jstr list \<Rightarrow> nat \<Rightarrow> nat \<Rightarrow> nat \<Rightarrow> nat list \<Rightarrow> nat list" where
  "fill_cell before after width i j lcs =
     lcs[i * width + j :=
       (if before ! i = after ! j then lcs_at width lcs (i + 1) (j + 1) + 1
        else max (lcs_at width lcs (i + 1) j) (lcs_at width lcs i (j + 1)))]"

definition fill_row :: "jstr list \<Rightarrow> jstr list \<Rightarrow> nat \<Rightarrow> nat \<Rightarrow> nat list \<Rightarrow> nat list" where
  "fill_row before after width i lcs = fold (fill_cell before after width i) (rev [0..<length after]) lcs"

definition lcs_table :: "jstr list \<Rightarrow> jstr list \<Rightarrow> nat list" where
  "lcs_table before after =
     (let width = length after + 1
      in fold (fill_row before after width) (rev [0..<length before]) (replicate ((length before + 1) * width) 0))"

function diff_walk :: "(nat \<Rightarrow> nat \<Rightarrow> nat) \<Rightarrow> jstr list \<Rightarrow> jstr list \<Rightarrow> nat \<Rightarrow> nat \<Rightarrow> TraceDiffLine list" where
  "diff_walk lcs before after i j =
     (if i < length before \<and> j < length after
      then (if before ! i = after ! j then DContext (before ! i) # diff_walk lcs before after (i + 1) (j + 1)
            else if lcs (i + 1) j \<ge> lcs i (j + 1) then DRemove (before ! i) # diff_walk lcs before after (i + 1) j
            else DAdd (after ! j) # diff_walk lcs before after i (j + 1))
      else map DRemove (drop i before) @ map DAdd (drop j after))"
  by pat_completeness auto
termination
  by (relation "measure (\<lambda>(lcs, before, after, i, j). (length before - i) + (length after - j))") auto

declare diff_walk.simps [simp del]

definition diffTraceLines :: "jstr list \<Rightarrow> jstr list \<Rightarrow> TraceDiffLine list" where
  "diffTraceLines before after =
     (if length before * length after > MAX_DIFF_CELLS then map DRemove before @ map DAdd after
      else diff_walk (lcs_at (length after + 1) (lcs_table before after)) before after 0 0)"

fun is_context :: "TraceDiffLine \<Rightarrow> bool" where
  "is_context (DContext _) = True"
| "is_context _ = False"

definition DIFF_CONTEXT_LINES :: nat where
  "DIFF_CONTEXT_LINES = 3"

text \<open>The loop over the lines; \<open>leading\<close> is \<open>index === 0\<close>.\<close>

function collapse_from :: "nat \<Rightarrow> bool \<Rightarrow> TraceDiffLine list \<Rightarrow> TraceDiffLine list" where
  "collapse_from contextLines leading lines =
     (case lines of
        [] \<Rightarrow> []
      | line # rest \<Rightarrow>
          if \<not> is_context line then line # collapse_from contextLines False rest
          else
            (let run = takeWhile is_context lines; after = dropWhile is_context lines;
                 head = (if leading then 0 else contextLines); tail = (if after = [] then 0 else contextLines)
             in (if length run \<le> head + tail + 1 then run
                 else take head run @ DGap (length run - head - tail) # drop (length run - tail) run)
                @ collapse_from contextLines False after))"
  by pat_completeness auto
termination
  by (relation "measure (\<lambda>(k, leading, lines). length lines)") (auto simp: le_imp_less_Suc length_dropWhile_le)

declare collapse_from.simps [simp del]

definition collapseDiffContext :: "TraceDiffLine list \<Rightarrow> nat \<Rightarrow> TraceDiffLine list" where
  "collapseDiffContext lines contextLines = collapse_from contextLines True lines"

section \<open>Bodies\<close>

datatype FileMutation = MReplace jstr "jstr list" "jstr list" | MWrite jstr jstr

definition field_text :: "json jsobj \<Rightarrow> jstr \<Rightarrow> jstr option" where
  "field_text input k = (case obj_get input k of Some (JStr s) \<Rightarrow> Some s | _ \<Rightarrow> None)"

definition readFileMutation :: "json jsobj \<Rightarrow> FileMutation option" where
  "readFileMutation input =
     (case (case field_text input ''file_path'' of None \<Rightarrow> field_text input ''path'' | Some p \<Rightarrow> Some p) of
        None \<Rightarrow> None
      | Some path \<Rightarrow>
          (case (field_text input ''old_string'', field_text input ''new_string'') of
             (Some old, Some new) \<Rightarrow> Some (MReplace path (toLines old) (toLines new))
           | _ \<Rightarrow> map_option (MWrite path) (field_text input ''content'')))"

datatype TraceEventDetail = DiffDetail jstr "TraceDiffLine list" | FileDetail jstr jstr nat | TextDetail jstr

definition traceEventDetail ::
  "(jstr \<Rightarrow> json option) \<Rightarrow> (json jsobj \<Rightarrow> jstr) \<Rightarrow> trace_event \<Rightarrow> TraceEventDetail" where
  "traceEventDetail parse stringify ev =
     (case traceEventKind ev of
        KToolUse \<Rightarrow>
          (case ev_input ev of
             None \<Rightarrow> TextDetail []
           | Some input \<Rightarrow>
               (case readFileMutation input of
                  Some (MReplace path before after) \<Rightarrow>
                    DiffDetail path (collapseDiffContext (diffTraceLines before after) DIFF_CONTEXT_LINES)
                | Some (MWrite path content) \<Rightarrow> FileDetail path content (length (toLines content))
                | None \<Rightarrow> TextDetail (stringify input)))
      | KToolResult \<Rightarrow> TextDetail (unwrapToolOutput parse (case ev_output ev of None \<Rightarrow> [] | Some s \<Rightarrow> s))
      | _ \<Rightarrow> TextDetail (case ev_content ev of None \<Rightarrow> [] | Some s \<Rightarrow> s))"

definition traceEventHasDetail :: "trace_event \<Rightarrow> bool" where
  "traceEventHasDetail ev =
     (case traceEventKind ev of
        KToolUse \<Rightarrow> ev_input ev \<noteq> None \<and> ev_input ev \<noteq> Some []
      | KToolResult \<Rightarrow> text_or (ev_output ev) [] \<noteq> []
      | _ \<Rightarrow> text_or (ev_content ev) [] \<noteq> [])"

definition traceEventSummaryIsMono :: "trace_kind \<Rightarrow> bool" where
  "traceEventSummaryIsMono kind = (kind = KToolUse \<or> kind = KToolResult)"

datatype detail_density = Expanded | Collapsed | Smart

definition traceEventDefaultExpanded :: "trace_event \<Rightarrow> detail_density \<Rightarrow> bool" where
  "traceEventDefaultExpanded ev density =
     (if \<not> traceEventHasDetail ev then False
      else case density of
        Expanded \<Rightarrow> True
      | Collapsed \<Rightarrow> False
      | Smart \<Rightarrow> traceEventKind ev = KAgent \<or> traceEventKind ev = KError)"

section \<open>Longest common subsequences\<close>

fun lcs_len :: "jstr list \<Rightarrow> jstr list \<Rightarrow> nat" where
  "lcs_len (x # xs) (y # ys) =
     (if x = y then lcs_len xs ys + 1 else max (lcs_len xs (y # ys)) (lcs_len (x # xs) ys))"
| "lcs_len _ _ = 0"

lemma lcs_len_nil [simp]: "lcs_len [] ys = 0" "lcs_len xs [] = 0"
  by (cases xs; simp)+

lemma subseq_tl: "subseq zs (x # xs) \<Longrightarrow> subseq (tl zs) xs"
  by (cases zs) (auto split: if_splits dest: subseq_Cons')

lemma lcs_len_bound: "subseq zs xs \<Longrightarrow> subseq zs ys \<Longrightarrow> length zs \<le> lcs_len xs ys"
proof (induction xs ys arbitrary: zs rule: lcs_len.induct)
  case (1 x xs y ys)
  show ?case
  proof (cases "x = y")
    case True
    with 1 have "length (tl zs) \<le> lcs_len xs ys" by (blast dest: subseq_tl)
    with True show ?thesis by simp
  next
    case False
    have "subseq zs xs \<or> subseq zs ys"
      using 1(4,5) False by (cases zs) (auto split: if_splits)
    with 1 False have "length zs \<le> lcs_len xs (y # ys) \<or> length zs \<le> lcs_len (x # xs) ys" by blast
    with False show ?thesis by auto
  qed
qed simp_all

lemma lcs_len_attained: "\<exists>zs. subseq zs xs \<and> subseq zs ys \<and> length zs = lcs_len xs ys"
proof (induction xs ys rule: lcs_len.induct)
  case (1 x xs y ys)
  show ?case
  proof (cases "x = y")
    case True
    with 1(1) obtain zs where "subseq zs xs" "subseq zs ys" "length zs = lcs_len xs ys" by blast
    with True show ?thesis by (intro exI [of _ "x # zs"]) simp
  next
    case False
    with 1(2,3) obtain zs zs' where "subseq zs xs" "subseq zs (y # ys)" "length zs = lcs_len xs (y # ys)"
      "subseq zs' (x # xs)" "subseq zs' ys" "length zs' = lcs_len (x # xs) ys" by blast
    with False show ?thesis
      by (intro exI [of _ "if lcs_len xs (y # ys) \<ge> lcs_len (x # xs) ys then zs else zs'"]) (auto intro: list_emb_Cons)
  qed
qed auto

lemma lcs_len_mono: "lcs_len xs ys \<le> lcs_len xs (y # ys)"
  using lcs_len_attained [of xs ys] lcs_len_bound by (metis list_emb_Cons)

section \<open>The table\<close>

text \<open>The cells from row \<open>i\<close> on are right, and those before it still 0.\<close>

definition rows_right :: "jstr list \<Rightarrow> jstr list \<Rightarrow> nat \<Rightarrow> nat list \<Rightarrow> bool" where
  "rows_right before after i t =
     (length t = (length before + 1) * (length after + 1)
      \<and> (\<forall>i' j. i \<le> i' \<longrightarrow> i' \<le> length before \<longrightarrow> j \<le> length after \<longrightarrow>
           t ! (i' * (length after + 1) + j) = lcs_len (drop i' before) (drop j after))
      \<and> (\<forall>k < i * (length after + 1). t ! k = 0))"

text \<open>In row \<open>i\<close> the cells from column \<open>j\<close> on are right.\<close>

definition cells_right :: "jstr list \<Rightarrow> jstr list \<Rightarrow> nat \<Rightarrow> nat \<Rightarrow> nat list \<Rightarrow> bool" where
  "cells_right before after i j t =
     (length t = (length before + 1) * (length after + 1)
      \<and> (\<forall>i' j. i < i' \<longrightarrow> i' \<le> length before \<longrightarrow> j \<le> length after \<longrightarrow>
           t ! (i' * (length after + 1) + j) = lcs_len (drop i' before) (drop j after))
      \<and> (\<forall>j'. j \<le> j' \<longrightarrow> j' \<le> length after \<longrightarrow>
           t ! (i * (length after + 1) + j') = lcs_len (drop i before) (drop j' after))
      \<and> (\<forall>k < i * (length after + 1) + j. t ! k = 0))"

lemma cell_bound:
  assumes "i \<le> n" "j \<le> m"
  shows "i * (m + 1) + j < (n + 1) * (m + (1::nat))"
proof -
  have "i * (m + 1) \<le> n * (m + 1)" using assms(1) by (rule mult_le_mono1)
  moreover have "(n + 1) * (m + 1) = n * (m + 1) + (m + 1)" by simp
  ultimately show ?thesis using assms(2) by linarith
qed

lemma later_row:
  assumes "i < i'" "j \<le> m"
  shows "i * (m + 1) + j < i' * (m + (1::nat))"
proof -
  have "(i + 1) * (m + 1) \<le> i' * (m + 1)" using assms(1) by (intro mult_le_mono1) simp
  moreover have "(i + 1) * (m + 1) = i * (m + 1) + (m + 1)" by simp
  ultimately show ?thesis using assms(2) by linarith
qed

lemma fill_cell_right:
  assumes i: "i < length before" and j: "j < length after" and t: "cells_right before after i (Suc j) t"
  shows "cells_right before after i j (fill_cell before after (length after + 1) i j t)"
proof -
  define w where "w = length after + 1"
  let ?w = w
  let ?L = "\<lambda>i j. lcs_len (drop i before) (drop j after)"
  have bound: "\<And>i' j'. i' \<le> length before \<Longrightarrow> j' \<le> length after \<Longrightarrow> i' * w + j' < (length before + 1) * w"
    and later: "\<And>i' j'. i < i' \<Longrightarrow> j' \<le> length after \<Longrightarrow> i * w + j' < i' * w"
    using cell_bound later_row by (simp_all only: w_def)
  have len: "length t = (length before + 1) * ?w"
    and rows: "\<And>i' j. i < i' \<Longrightarrow> i' \<le> length before \<Longrightarrow> j \<le> length after \<Longrightarrow> t ! (i' * ?w + j) = ?L i' j"
    and row: "\<And>j'. Suc j \<le> j' \<Longrightarrow> j' \<le> length after \<Longrightarrow> t ! (i * ?w + j') = ?L i j'"
    and zero: "\<And>k. k < i * ?w + Suc j \<Longrightarrow> t ! k = 0"
    using t by (simp_all only: cells_right_def w_def)
  have at: "lcs_at ?w t i' j' = t ! (i' * ?w + j')" if "i' \<le> length before" "j' \<le> length after" for i' j'
    using bound [OF that] by (simp add: lcs_at_def len)
  have here: "i * ?w + j < length t" using bound [of i j] i j by (simp add: len)
  have "lcs_at ?w t (i + 1) (j + 1) = ?L (i + 1) (j + 1)" "lcs_at ?w t (i + 1) j = ?L (i + 1) j" "lcs_at ?w t i (j + 1) = ?L i (j + 1)"
    using i j at [of "i + 1" "j + 1"] at [of "i + 1" j] at [of i "j + 1"] rows [of "i + 1" "j + 1"] rows [of "i + 1" j] row [of "j + 1"] by simp_all
  then have cell: "fill_cell before after ?w i j t = t[i * ?w + j := ?L i j]"
    using i j by (simp add: fill_cell_def Cons_nth_drop_Suc [symmetric])
  have "t[i * w + j := ?L i j] ! (i' * w + j') = ?L i' j'" if "i < i'" "i' \<le> length before" "j' \<le> length after" for i' j'
  proof -
    have "i * w + j \<noteq> i' * w + j'" using later [OF that(1), of j] j by simp
    with rows [OF that] show ?thesis by (simp only: nth_list_update_neq not_False_eq_True)
  qed
  moreover have "t[i * w + j := ?L i j] ! (i * w + j') = ?L i j'" if "j \<le> j'" "j' \<le> length after" for j'
    using row [of j'] here that by (cases "j' = j") simp_all
  moreover have "t[i * w + j := ?L i j] ! k = 0" if "k < i * w + j" for k
    using zero [of k] that by simp
  ultimately show ?thesis
    unfolding cells_right_def w_def [symmetric] cell using len by simp
qed

lemma fill_cells_right:
  assumes "i < length before"
  shows "j \<le> length after \<Longrightarrow> cells_right before after i j t \<Longrightarrow>
    cells_right before after i 0 (fold (fill_cell before after (length after + 1) i) (rev [0..<j]) t)"
proof (induction j arbitrary: t)
  case (Suc j)
  with fill_cell_right [OF assms, of j after t] show ?case by simp
qed simp

lemma fill_row_right:
  assumes "i < length before" "rows_right before after (Suc i) t"
  shows "rows_right before after i (fill_row before after (length after + 1) i t)"
proof -
  have zero: "\<And>k. k < Suc i * (length after + 1) \<Longrightarrow> t ! k = 0" using assms(2) by (simp add: rows_right_def)
  have "cells_right before after i (length after) t"
    unfolding cells_right_def
  proof (intro conjI allI impI)
    fix j' assume "length after \<le> j'" "j' \<le> length after"
    then show "t ! (i * (length after + 1) + j') = lcs_len (drop i before) (drop j' after)" by (simp add: zero)
  qed (use assms(2) zero in \<open>simp_all add: rows_right_def\<close>)
  from fill_cells_right [OF assms(1) le_refl this]
  have "cells_right before after i 0 (fill_row before after (length after + 1) i t)" by (simp add: fill_row_def)
  then show ?thesis
    unfolding cells_right_def rows_right_def by (metis add_0_right le_eq_less_or_eq zero_le)
qed

lemma fill_rows_right:
  "i \<le> length before \<Longrightarrow> rows_right before after i t \<Longrightarrow>
   rows_right before after 0 (fold (fill_row before after (length after + 1)) (rev [0..<i]) t)"
proof (induction i arbitrary: t)
  case (Suc i)
  with fill_row_right [of i before after t] show ?case by simp
qed simp

lemma table_right:
  assumes "i \<le> length before" "j \<le> length after"
  shows "lcs_at (length after + 1) (lcs_table before after) i j = lcs_len (drop i before) (drop j after)"
proof -
  have "rows_right before after (length before) (replicate ((length before + 1) * (length after + 1)) 0)"
    unfolding rows_right_def
  proof (intro conjI allI impI)
    fix i' j assume "length before \<le> i'" "i' \<le> length before" "j \<le> length after"
    then show "replicate ((length before + 1) * (length after + 1)) 0 ! (i' * (length after + 1) + j) = lcs_len (drop i' before) (drop j after)"
      using cell_bound [of i' "length before" j "length after"] by (simp only: nth_replicate drop_all lcs_len_nil)
  next
    fix k assume "k < length before * (length after + 1)"
    then have "k < (length before + 1) * (length after + 1)" by simp
    then show "replicate ((length before + 1) * (length after + 1)) 0 ! k = (0::nat)" by (rule nth_replicate)
  qed simp
  from fill_rows_right [OF le_refl this] have "rows_right before after 0 (lcs_table before after)"
    by (simp only: lcs_table_def Let_def)
  with assms cell_bound [OF assms] show ?thesis by (simp add: rows_right_def lcs_at_def)
qed

end
