(* ===== verification/Trace_Properties.thy ===== *)
theory Trace_Properties
  imports Trace_Events
begin

text \<open>
  What the execution transcript shows of an edit: the diff is minimal, and the rows shown for it hide only
  unchanged lines away from the changes. Then the one-line summaries.
\<close>

section \<open>The diff\<close>

definition before_of :: "TraceDiffLine list \<Rightarrow> jstr list" where
  "before_of d = concat (map (\<lambda>l. case l of DRemove x \<Rightarrow> [x] | DContext x \<Rightarrow> [x] | _ \<Rightarrow> []) d)"

definition after_of :: "TraceDiffLine list \<Rightarrow> jstr list" where
  "after_of d = concat (map (\<lambda>l. case l of DAdd x \<Rightarrow> [x] | DContext x \<Rightarrow> [x] | _ \<Rightarrow> []) d)"

definition context_of :: "TraceDiffLine list \<Rightarrow> jstr list" where
  "context_of d = concat (map (\<lambda>l. case l of DContext x \<Rightarrow> [x] | _ \<Rightarrow> []) d)"

definition changed_lines :: "TraceDiffLine list \<Rightarrow> nat" where
  "changed_lines d = length (filter (\<lambda>l. \<not> is_context l) d)"

lemma of_nil [simp]: "before_of [] = []" "after_of [] = []" "context_of [] = []" "changed_lines [] = 0"
  by (simp_all add: before_of_def after_of_def context_of_def changed_lines_def)

lemma of_cons [simp]:
  "before_of (DAdd x # d) = before_of d" "before_of (DRemove x # d) = x # before_of d"
  "before_of (DContext x # d) = x # before_of d" "before_of (DGap n # d) = before_of d"
  "after_of (DAdd x # d) = x # after_of d" "after_of (DRemove x # d) = after_of d"
  "after_of (DContext x # d) = x # after_of d" "after_of (DGap n # d) = after_of d"
  "context_of (DAdd x # d) = context_of d" "context_of (DRemove x # d) = context_of d"
  "context_of (DContext x # d) = x # context_of d" "context_of (DGap n # d) = context_of d"
  by (simp_all add: before_of_def after_of_def context_of_def)

lemma of_append [simp]:
  "before_of (d @ e) = before_of d @ before_of e" "after_of (d @ e) = after_of d @ after_of e"
  "context_of (d @ e) = context_of d @ context_of e"
  by (simp_all add: before_of_def after_of_def context_of_def)

lemma of_block [simp]:
  "before_of (map DRemove xs) = xs" "before_of (map DAdd xs) = []" "after_of (map DRemove xs) = []" "after_of (map DAdd xs) = xs"
  "context_of (map DRemove xs) = []" "context_of (map DAdd xs) = []"
  by (induction xs) simp_all

text \<open>A gap stands for lines and is in no diff.\<close>

definition gap_free :: "TraceDiffLine list \<Rightarrow> bool" where
  "gap_free d = (\<forall>h. DGap h \<notin> set d)"

lemma context_common: "subseq (context_of d) (before_of d) \<and> subseq (context_of d) (after_of d)"
proof (induction d)
  case (Cons l d)
  then show ?case by (cases l) (auto intro: list_emb_Cons)
qed simp

lemma changes_count: "gap_free d \<Longrightarrow> changed_lines d + 2 * length (context_of d) = length (before_of d) + length (after_of d)"
proof (induction d)
  case (Cons l d)
  then show ?case by (cases l) (auto simp: gap_free_def changed_lines_def)
qed simp

lemma walk_sides: "before_of (diff_walk t b a i j) = drop i b \<and> after_of (diff_walk t b a i j) = drop j a"
proof (induction t b a i j rule: diff_walk.induct)
  case (1 t b a i j)
  have "drop i b = b ! i # drop (i + 1) b" "drop j a = a ! j # drop (j + 1) a" if "i < length b" "j < length a"
    using that by (simp_all add: Cons_nth_drop_Suc)
  with 1 show ?case
    by (subst (1 2) diff_walk.simps) auto
qed

lemma walk_gap_free: "gap_free (diff_walk t b a i j)"
proof (induction t b a i j rule: diff_walk.induct)
  case (1 t b a i j)
  then show ?case by (subst diff_walk.simps) (auto simp: gap_free_def)
qed

text \<open>On a right table the walk keeps a longest common subsequence, and never puts a removal after an addition.\<close>

definition table_ok :: "(nat \<Rightarrow> nat \<Rightarrow> nat) \<Rightarrow> jstr list \<Rightarrow> jstr list \<Rightarrow> bool" where
  "table_ok t b a = (\<forall>i \<le> length b. \<forall>j \<le> length a. t i j = lcs_len (drop i b) (drop j a))"

lemma walk_context:
  "table_ok t b a \<Longrightarrow> length (context_of (diff_walk t b a i j)) = lcs_len (drop i b) (drop j a)"
proof (induction t b a i j rule: diff_walk.induct)
  case (1 t b a i j)
  show ?case
  proof (cases "i < length b \<and> j < length a")
    case True
    then have d: "drop i b = b ! i # drop (i + 1) b" "drop j a = a ! j # drop (j + 1) a" by (simp_all add: Cons_nth_drop_Suc)
    have t: "t (i + 1) j = lcs_len (drop (i + 1) b) (drop j a)" "t i (j + 1) = lcs_len (drop i b) (drop (j + 1) a)"
      using 1(4) True by (simp_all add: table_ok_def)
    from 1 True t show ?thesis by (subst diff_walk.simps) (auto simp: d)
  next
    case False
    then have "drop i b = [] \<or> drop j a = []" by auto
    with False show ?thesis by (subst diff_walk.simps) auto
  qed
qed

lemma walk_after_add:
  assumes t: "table_ok t b a" and i: "i < length b" "j < length a" and less: "t (i + 1) j < t i (j + 1)"
  shows "\<exists>l rest. diff_walk t b a i (j + 1) = l # rest \<and> (\<forall>x. l \<noteq> DRemove x)"
proof -
  have j: "j + 1 < length a"
  proof (rule ccontr)
    assume "\<not> j + 1 < length a"
    then have "drop (j + 1) a = []" by simp
    moreover have "t i (j + 1) = lcs_len (drop i b) (drop (j + 1) a)" using t i by (simp add: table_ok_def)
    ultimately show False using less by simp
  qed
  show ?thesis
  proof (cases "b ! i = a ! (j + 1)")
    case True
    with i j show ?thesis by (subst diff_walk.simps) simp
  next
    case False
    have d: "drop i b = b ! i # drop (i + 1) b" "drop (j + 1) a = a ! (j + 1) # drop (j + 2) a"
      using i j by (simp_all add: Cons_nth_drop_Suc)
    have at: "t (i + 1) (j + 1) = lcs_len (drop (i + 1) b) (drop (j + 1) a)" "t i (j + 2) = lcs_len (drop i b) (drop (j + 2) a)"
      "t i (j + 1) = lcs_len (drop i b) (drop (j + 1) a)" "t (i + 1) j = lcs_len (drop (i + 1) b) (drop j a)"
      using t i j by (simp_all add: table_ok_def)
    have "drop j a = a ! j # drop (j + 1) a" using i by (simp add: Cons_nth_drop_Suc)
    then have "t (i + 1) (j + 1) \<le> t (i + 1) j" using lcs_len_mono at by simp
    moreover have "t i (j + 1) = max (t (i + 1) (j + 1)) (t i (j + 2))"
      unfolding at d using False by (simp only: lcs_len.simps if_False)
    ultimately have "\<not> t (i + 1) (j + 1) \<ge> t i (j + 2)" using less by auto
    with False i j show ?thesis by (subst diff_walk.simps) simp
  qed
qed

fun removal_after_addition :: "TraceDiffLine list \<Rightarrow> bool" where
  "removal_after_addition (DAdd x # DRemove y # d) = True"
| "removal_after_addition (l # d) = removal_after_addition d"
| "removal_after_addition [] = False"

lemma removal_add: "removal_after_addition (DAdd x # d) \<longleftrightarrow> (\<exists>y e. d = DRemove y # e) \<or> removal_after_addition d"
proof (cases d)
  case (Cons l e)
  then show ?thesis by (cases l) auto
qed simp

lemma removal_blocks: "\<not> removal_after_addition (map DRemove xs @ map DAdd ys)"
proof (induction xs)
  case Nil
  show ?case by (induction ys) (auto simp: removal_add)
qed simp

lemma walk_order: "table_ok t b a \<Longrightarrow> \<not> removal_after_addition (diff_walk t b a i j)"
proof (induction t b a i j rule: diff_walk.induct)
  case (1 t b a i j)
  show ?case
  proof (cases "i < length b \<and> j < length a")
    case True
    show ?thesis
    proof (cases "b ! i = a ! j \<or> t (i + 1) j \<ge> t i (j + 1)")
      case False
      with walk_after_add [OF 1(4), of i j] True obtain l rest where
        "diff_walk t b a i (j + 1) = l # rest" "\<forall>x. l \<noteq> DRemove x" by auto
      with 1 True False show ?thesis by (subst diff_walk.simps) (auto simp: removal_add)
    qed (use 1 True in \<open>subst diff_walk.simps; auto\<close>)
  next
    case False
    then have "diff_walk t b a i j = map DRemove (drop i b) @ map DAdd (drop j a)"
      by (simp only: diff_walk.simps [of t b a i j] if_False)
    then show ?thesis by (simp add: removal_blocks)
  qed
qed

lemma diff_table: "table_ok (lcs_at (length a + 1) (lcs_table b a)) b a"
  using table_right by (simp add: table_ok_def)

lemma diff_parts:
  "before_of (diffTraceLines b a) = b" "after_of (diffTraceLines b a) = a" "gap_free (diffTraceLines b a)"
  by (simp_all add: diffTraceLines_def walk_sides walk_gap_free) (auto simp: gap_free_def)

lemma blocks_gap_free: "gap_free (map DRemove xs @ map DAdd ys)"
  by (auto simp: gap_free_def)

lemma diff_minimal:
  assumes "length b * length a \<le> MAX_DIFF_CELLS" "gap_free d" "before_of d = b" "after_of d = a"
  shows "changed_lines (diffTraceLines b a) \<le> changed_lines d"
proof -
  have "length (context_of (diffTraceLines b a)) = lcs_len b a"
    using assms(1) walk_context [OF diff_table [where b = b and a = a], of 0 0] by (simp add: diffTraceLines_def)
  moreover have "length (context_of d) \<le> lcs_len b a"
    using lcs_len_bound context_common [of d] assms(3,4) by blast
  moreover note changes_count [OF diff_parts(3), of b a] changes_count [OF assms(2)]
  ultimately show ?thesis by (simp add: diff_parts assms(3,4))
qed

lemma diff_order: "\<not> removal_after_addition (diffTraceLines b a)"
  using walk_order [OF diff_table [where b = b and a = a]] by (auto simp: diffTraceLines_def removal_blocks)

section \<open>What is hidden\<close>

text \<open>The shown rows \<open>c\<close> stand for the lines \<open>d\<close>: a gap of \<open>h\<close> hides \<open>h\<close> unchanged lines.\<close>

fun shows_as :: "TraceDiffLine list \<Rightarrow> TraceDiffLine list \<Rightarrow> bool" where
  "shows_as [] d = (d = [])"
| "shows_as (DGap h # c) d = (2 \<le> h \<and> h \<le> length d \<and> list_all is_context (take h d) \<and> shows_as c (drop h d))"
| "shows_as (l # c) d = (case d of [] \<Rightarrow> False | l' # d' \<Rightarrow> l = l' \<and> shows_as c d')"

lemma shows_as_nothing [simp]: "shows_as c [] \<longleftrightarrow> c = []"
proof (cases c)
  case (Cons l c')
  then show ?thesis by (cases l) auto
qed simp

lemma shows_as_append: "shows_as c d \<Longrightarrow> shows_as c' d' \<Longrightarrow> shows_as (c @ c') (d @ d')"
  by (induction c d rule: shows_as.induct) (auto split: list.splits)

lemma shows_as_self: "gap_free d \<Longrightarrow> shows_as d d"
proof (induction d)
  case (Cons l d)
  then show ?case by (cases l) (auto simp: gap_free_def)
qed simp

lemma contexts_gap_free: "list_all is_context d \<Longrightarrow> gap_free d"
  by (auto simp: gap_free_def list_all_iff)

text \<open>The rows of one unchanged stretch.\<close>

definition stretch :: "nat \<Rightarrow> nat \<Rightarrow> TraceDiffLine list \<Rightarrow> TraceDiffLine list" where
  "stretch h t run =
     (if length run \<le> h + t + 1 then run
      else take h run @ DGap (length run - h - t) # drop (length run - t) run)"

lemma collapse_nil [simp]: "collapse_from k leading [] = []"
  by (simp add: collapse_from.simps)

lemma collapse_change: "\<not> is_context l \<Longrightarrow> collapse_from k leading (l # d) = l # collapse_from k False d"
  by (simp add: collapse_from.simps [of _ _ "l # d"])

lemma collapse_run:
  assumes "run \<noteq> []" "list_all is_context run" "rest = [] \<or> \<not> is_context (hd rest)"
  shows "collapse_from k leading (run @ rest) =
    stretch (if leading then 0 else k) (if rest = [] then 0 else k) run @ collapse_from k False rest"
proof -
  obtain l run' where run: "run = l # run'" using assms(1) by (cases run) auto
  have parts: "takeWhile is_context (run @ rest) = run" "dropWhile is_context (run @ rest) = rest"
    using assms(2,3) by (cases rest; auto simp: list_all_iff takeWhile_append2 dropWhile_append2)+
  show ?thesis
    using assms(2) parts unfolding run
    by (subst collapse_from.simps) (simp add: Let_def stretch_def del: takeWhile.simps dropWhile.simps)
qed

lemma stretch_shows: "list_all is_context run \<Longrightarrow> shows_as (stretch h t run) run"
proof (cases "length run \<le> h + t + 1")
  case True
  assume "list_all is_context run"
  with True show ?thesis by (simp add: stretch_def shows_as_self contexts_gap_free)
next
  case False
  assume run: "list_all is_context run"
  let ?g = "length run - h - t"
  have "shows_as (take h run) (take h run)"
    using run by (intro shows_as_self contexts_gap_free) (auto simp: list_all_iff dest: in_set_takeD)
  moreover have "shows_as (drop (length run - t) run) (drop (length run - t) run)"
    using run by (intro shows_as_self contexts_gap_free) (auto simp: list_all_iff dest: in_set_dropD)
  then have "shows_as (DGap ?g # drop (length run - t) run) (drop h run)"
    using False run by (auto simp: list_all_iff add.commute dest!: in_set_takeD in_set_dropD)
  ultimately have "shows_as (take h run @ DGap ?g # drop (length run - t) run) (take h run @ drop h run)"
    by (rule shows_as_append)
  with False show ?thesis by (simp add: stretch_def)
qed

lemma stretch_prefix: "prefix (take h run) (stretch h t run)"
  by (auto simp: stretch_def take_is_prefix)

lemma stretch_suffix: "suffix (drop (length run - t) run) (stretch h t run)"
  by (simp add: stretch_def suffix_drop suffix_appendI suffix_ConsI)

text \<open>A list of lines is a sequence of changes and unchanged stretches.\<close>

lemma lines_induct [case_names nil change run]:
  assumes "P []"
    and "\<And>l d. \<not> is_context l \<Longrightarrow> P d \<Longrightarrow> P (l # d)"
    and "\<And>run rest. run \<noteq> [] \<Longrightarrow> list_all is_context run \<Longrightarrow> rest = [] \<or> \<not> is_context (hd rest) \<Longrightarrow> P rest \<Longrightarrow> P (run @ rest)"
  shows "P d"
proof (induction "length d" arbitrary: d rule: less_induct)
  case less
  show ?case
  proof (cases d)
    case (Cons l d')
    show ?thesis
    proof (cases "is_context l")
      case True
      let ?run = "takeWhile is_context d" and ?rest = "dropWhile is_context d"
      have "list_all is_context ?run" by (auto simp: list_all_iff dest: set_takeWhileD)
      moreover have "?rest = [] \<or> \<not> is_context (hd ?rest)" using hd_dropWhile by blast
      moreover have "P ?rest" using Cons True by (intro less) (simp add: le_imp_less_Suc length_dropWhile_le)
      ultimately have "P (?run @ ?rest)" using Cons True by (intro assms(3)) auto
      then show ?thesis by simp
    qed (use Cons less assms(2) in simp)
  qed (simp add: assms(1))
qed

lemma collapse_shows: "gap_free d \<Longrightarrow> shows_as (collapse_from k leading d) d"
proof (induction d arbitrary: leading rule: lines_induct)
  case (change l d)
  then show ?case by (cases l) (auto simp: collapse_change gap_free_def)
next
  case (run r rest)
  then have "gap_free rest" by (auto simp: gap_free_def)
  with run show ?case by (simp add: collapse_run shows_as_append stretch_shows)
qed simp

text \<open>The unchanged lines next to a change stay.\<close>

lemma collapse_after: "prefix (take k (takeWhile is_context d)) (collapse_from k False d)"
proof (induction d rule: lines_induct)
  case (run r rest)
  then have "takeWhile is_context (r @ rest) = r" by (cases rest) (auto simp: list_all_iff takeWhile_append2)
  with run stretch_prefix [of k r] show ?case by (auto simp: collapse_run intro: prefix_order.trans)
qed (simp_all add: collapse_change)

abbreviation contexts_before :: "nat \<Rightarrow> TraceDiffLine list \<Rightarrow> TraceDiffLine list" where
  "contexts_before k u \<equiv> rev (take k (takeWhile is_context (rev u)))"

definition keeps_change ::
  "nat \<Rightarrow> TraceDiffLine list \<Rightarrow> TraceDiffLine list \<Rightarrow> TraceDiffLine \<Rightarrow> TraceDiffLine list \<Rightarrow> bool" where
  "keeps_change k c u l v =
     (\<exists>u' v'. c = u' @ l # v' \<and> shows_as u' u \<and> shows_as v' v
        \<and> suffix (contexts_before k u) u' \<and> prefix (take k (takeWhile is_context v)) v')"

lemma change_after_run:
  assumes "r @ rest = u @ l # v" "list_all is_context r" "\<not> is_context l"
  shows "\<exists>u2. u = r @ u2 \<and> rest = u2 @ l # v"
proof -
  from assms(1) consider us where "r = u @ us" "us @ rest = l # v" | us where "u = r @ us" "rest = us @ l # v"
    by (auto simp: append_eq_append_conv2)
  then show ?thesis
  proof cases
    case 1
    then have "us = []" using assms(2,3) by (cases us) auto
    with 1 show ?thesis by simp
  qed simp
qed

lemma collapse_keeps:
  "gap_free d \<Longrightarrow> d = u @ l # v \<Longrightarrow> \<not> is_context l \<Longrightarrow> keeps_change k (collapse_from k leading d) u l v"
proof (induction d arbitrary: leading u rule: lines_induct)
  case (change m d)
  show ?case
  proof (cases u)
    case Nil
    with change.prems have "m = l" "d = v" "gap_free v" by (auto simp: gap_free_def)
    with change.hyps(1) Nil show ?thesis
      unfolding keeps_change_def
      by (intro exI [of _ "[]"] exI [of _ "collapse_from k False v"]) (simp add: collapse_change collapse_shows collapse_after)
  next
    case (Cons m' u2)
    with change have m: "m' = m" and d: "d = u2 @ l # v" and free: "gap_free d" by (auto simp: gap_free_def)
    from change.IH [OF free d change.prems(3)] obtain u' v' where k: "collapse_from k False d = u' @ l # v'" "shows_as u' u2" "shows_as v' v"
      "suffix (contexts_before k u2) u'" "prefix (take k (takeWhile is_context v)) v'" unfolding keeps_change_def by blast
    have "shows_as (m # u') (m # u2)" using k(2) change.prems(1) by (cases m) (auto simp: gap_free_def)
    moreover have "contexts_before k (m # u2) = contexts_before k u2"
      using change.hyps by (simp add: takeWhile_tail)
    ultimately show ?thesis
      using change.hyps k m Cons d unfolding keeps_change_def
      by (intro exI [of _ "m # u'"] exI [of _ v']) (simp add: collapse_change suffix_Cons)
  qed
next
  case (run r rest)
  obtain u2 where u: "u = r @ u2" and rest: "rest = u2 @ l # v"
    using change_after_run [OF run.prems(2) run.hyps(2) run.prems(3)] by blast
  have free: "gap_free rest" using run.prems(1) by (auto simp: gap_free_def)
  from run.IH [OF free rest run.prems(3)] obtain u' v' where
    k: "collapse_from k False rest = u' @ l # v'" "shows_as u' u2" "shows_as v' v"
      "suffix (contexts_before k u2) u'" "prefix (take k (takeWhile is_context v)) v'" unfolding keeps_change_def by blast
  define s where "s = stretch (if leading then 0 else k) k r"
  have "collapse_from k leading (r @ rest) = s @ u' @ l # v'"
    using collapse_run [OF run.hyps(1-3), of k leading] k(1) rest by (auto simp: s_def)
  moreover have "shows_as (s @ u') u"
    unfolding u s_def by (intro shows_as_append stretch_shows run.hyps k(2))
  moreover have "suffix (contexts_before k u) (s @ u')"
  proof (cases u2)
    case Nil
    then have "u' = []" using k(2) by simp
    moreover have "takeWhile is_context (rev r) = rev r"
      using run.hyps(2) by (auto simp: list_all_iff takeWhile_eq_all_conv)
    then have "contexts_before k u = drop (length r - k) r"
      using Nil u by (simp only: append_Nil2 take_rev rev_rev_ident)
    ultimately show ?thesis using stretch_suffix by (simp add: s_def)
  next
    case (Cons m u3)
    then have "\<not> is_context m" using run.hyps(3) rest by simp
    then have "contexts_before k u = contexts_before k u2" using Cons u by (simp add: takeWhile_append takeWhile_tail)
    with k(4) show ?thesis by (simp add: suffix_appendI)
  qed
  ultimately show ?case
    using k(3,5) unfolding keeps_change_def by (intro exI [of _ "s @ u'"] exI [of _ v']) simp
qed simp

lemma join_toLines: "str_join newline (toLines s) = s"
  by (simp add: toLines_def str_join_split)

section \<open>Summaries\<close>

lemma is_space_newline [simp]: "is_space newline"
  by (simp add: is_space_def)

lemma set_trim: "set (str_trim s) \<subseteq> set s"
  by (auto simp: str_trim_def str_trim_end_def dest!: set_dropWhileD)

lemma set_clip: "set (clip s n) \<subseteq> set s \<union> {CHR ''.''}"
  by (auto simp: clip_def dest: in_set_takeD)

lemma length_clip: "length (clip s n) \<le> n + 3"
  by (simp add: clip_def)

lemma set_skip_flags: "set (skip_flags n s) \<subseteq> set s"
proof (induction n s rule: skip_flags.induct)
  case (2 n s)
  then show ?case by (auto simp: Let_def split: list.splits if_splits dest!: set_dropWhileD)
qed simp

lemma set_strip: "set (stripShellWrapper s) \<subseteq> set s"
proof -
  have "set (skip_flags n (dropWhile is_space (dropWhile (\<lambda>c. \<not> is_space c) (str_trim s)))) \<subseteq> set s" for n
    using set_skip_flags set_trim by (blast dest: set_dropWhileD)
  then show ?thesis
    by (auto simp: stripShellWrapper_def Let_def dest!: in_set_butlastD list.set_sel(2) [rotated])
qed

lemma set_join: "set (str_join d ws) \<subseteq> insert d (\<Union> (set ` set ws))"
  by (induction d ws rule: str_join.induct) auto

lemma set_shorten: "set (shortenTracePath p) \<subseteq> set p \<union> {CHR ''.'', CHR ''/''}"
proof -
  have "set (str_join (CHR ''/'') (drop n (str_split (CHR ''/'') p))) \<subseteq> set p \<union> {CHR ''/''}" for n
    using set_join [of "CHR ''/''" "drop n (str_split (CHR ''/'') p)"] str_split_parts [of _ "CHR ''/''" p]
    by (fastforce dest: in_set_dropD)
  then show ?thesis by (auto simp: shortenTracePath_def Let_def)
qed

lemma set_squeeze: "\<forall>c \<in> set (squeeze s). \<not> is_space c \<or> c = CHR '' ''"
proof (induction s)
  case (Cons c s)
  have "set (squeeze (c # s)) \<subseteq> insert (CHR '' '') (set (squeeze s)) \<union> (if is_space c then {} else {c})"
  proof (cases s)
    case (Cons d s')
    show ?thesis unfolding squeeze.simps(2) [of c s] by (auto simp: Cons simp del: squeeze.simps)
  qed simp
  with Cons show ?case by (auto split: if_splits)
qed simp

lemma firstLine_one_line: "newline \<notin> set (firstLine v)"
proof (cases v)
  case (Some s)
  show ?thesis
  proof (cases "find (\<lambda>l. str_trim l \<noteq> []) (str_split newline s)")
    case found: (Some l)
    from str_split_parts [OF conjunct1 [OF find_in_set [OF found]]] Some found show ?thesis by (simp add: firstLine_def)
  qed (simp add: firstLine_def Some)
qed (simp add: firstLine_def)

definition one_line_texts :: "json jsobj \<Rightarrow> bool" where
  "one_line_texts input = (\<forall>v \<in> snd ` set input. \<forall>s. v = JStr s \<longrightarrow> newline \<notin> set s)"

lemma str_arg_one_line: "one_line_texts input \<Longrightarrow> newline \<notin> set (str_arg input k)"
proof (cases "obj_get input k")
  case (Some v)
  assume "one_line_texts input"
  moreover have "(k, v) \<in> set input" using Some by (auto simp: obj_get_def dest: map_of_SomeD)
  ultimately show ?thesis using Some by (cases v) (force simp: str_arg_def one_line_texts_def)+
qed (simp add: str_arg_def)

lemma one_line_parts:
  assumes "newline \<notin> set s"
  shows "newline \<notin> set (clip s n)" "newline \<notin> set (stripShellWrapper s)" "newline \<notin> set (shortenTracePath s)"
  using assms set_clip [of s n] set_strip [of s] set_shorten [of s] by auto

lemma tool_one_line:
  assumes "one_line_texts input"
  shows "newline \<notin> set (traceToolArgSummary (Some input))"
proof -
  note f = str_arg_one_line [OF assms]
  have "newline \<notin> set (case find short_text (map snd input) of Some (JStr s) \<Rightarrow> s | _ \<Rightarrow> [])"
  proof (cases "find short_text (map snd input)")
    case (Some v)
    with assms show ?thesis by (cases v) (auto simp: one_line_texts_def dest!: find_in_set)
  qed simp
  with f show ?thesis by (simp add: traceToolArgSummary_def one_line_parts)
qed

section \<open>Shell wrappers\<close>

lemma not_lower [simp]: "\<not> is_lower (CHR '' '')"
  by (simp add: is_lower_def)

lemma skip_flags_word:
  "q \<in> {CHR 0x22, CHR 0x27} \<Longrightarrow> \<forall>f \<in> set flags. f \<noteq> [] \<and> list_all is_lower f \<Longrightarrow> length flags \<le> n \<Longrightarrow>
   skip_flags n (concat (map (\<lambda>f. CHR ''-'' # f @ '' '') flags) @ q # s) = q # s"
proof (induction flags arbitrary: n)
  case Nil
  then show ?case by (cases n) auto
next
  case (Cons f flags)
  then obtain m where n: "n = Suc m" by (cases n) auto
  let ?rest = "concat (map (\<lambda>f. CHR ''-'' # f @ '' '') flags) @ q # s"
  have f: "takeWhile is_lower (f @ CHR '' '' # ?rest) = f" "dropWhile is_lower (f @ CHR '' '' # ?rest) = CHR '' '' # ?rest"
    using Cons.prems(2) by (simp_all add: list_all_iff takeWhile_append2 dropWhile_append2 is_lower_def)
  have "dropWhile is_space (CHR '' '' # ?rest) = ?rest"
    using Cons.prems(1) by (cases flags) (auto simp: is_space_def)
  with Cons f n show ?case by (auto simp: Let_def is_space_def)
qed

lemma shell_word_chars: "shell_word w \<Longrightarrow> w \<noteq> [] \<and> (\<forall>c \<in> set w. \<not> is_space c)"
proof -
  have chars: "\<not> is_space c" if "path_char c" for c
    using that by (auto simp: path_char_def is_space_def)
  assume w: "shell_word w"
  then obtain shell where shell: "shell \<in> set [''zsh'', ''bash'', ''sh'', ''fish'']"
    "w = shell \<or> suffix (CHR ''/'' # shell) w \<and> list_all path_char (take (length w - length shell) w)"
    unfolding shell_word_def Let_def list_ex_iff by blast
  then have "\<exists>path. w = path @ shell \<and> list_all path_char path"
    by (elim disjE conjE) (auto simp: suffix_def simp del: set_simps)
  moreover have "shell \<noteq> [] \<and> (\<forall>c \<in> set shell. \<not> is_space c)" using shell(1) by (auto simp: is_space_def)
  ultimately show ?thesis using chars by (auto simp: list_all_iff)
qed

text \<open>A command wrapped in a shell call, with any flags, is summarised by the command inside the quotes.\<close>

lemma strip_wrapper:
  assumes "shell_word w" "\<forall>f \<in> set flags. f \<noteq> [] \<and> list_all is_lower f" "q \<in> {CHR 0x22, CHR 0x27}" "body \<noteq> []"
  shows "stripShellWrapper (w @ '' '' @ concat (map (\<lambda>f. CHR ''-'' # f @ '' '') flags) @ q # body @ [q]) = body"
proof -
  let ?flags = "concat (map (\<lambda>f. CHR ''-'' # f @ '' '') flags)"
  let ?c = "w @ '' '' @ ?flags @ q # body @ [q]"
  have w: "w \<noteq> []" "\<forall>c \<in> set w. \<not> is_space c" using shell_word_chars [OF assms(1)] by blast+
  have q: "\<not> is_space q" and space: "is_space (CHR '' '')" using assms(3) by (auto simp: is_space_def)
  have trim: "str_trim ?c = ?c" using w q by (intro str_trim_id) (auto simp: hd_append)
  have parts: "takeWhile (\<lambda>c. \<not> is_space c) ?c = w" "dropWhile (\<lambda>c. \<not> is_space c) ?c = '' '' @ ?flags @ q # body @ [q]"
    using w(2) space by (simp_all add: takeWhile_append2 dropWhile_append2)
  have "dropWhile is_space ('' '' @ ?flags @ q # body @ [q]) = ?flags @ q # body @ [q]"
    using q space by (cases flags) (auto simp: is_space_def)
  moreover have "length flags \<le> length ?flags" by (induction flags) auto
  then have "skip_flags (length ?c) (?flags @ q # body @ [q]) = q # body @ [q]"
    using assms(2,3) by (intro skip_flags_word) auto
  moreover have "3 \<le> length (q # body @ [q])" using assms(4) by (cases body) auto
  ultimately show ?thesis
    unfolding stripShellWrapper_def trim Let_def parts using assms(1,3) by auto
qed

section \<open>Properties\<close>

text \<open>C26: 
  C?: the diff of an edit reads as the old lines without the additions and as the new lines without the
  removals, no removal follows an addition directly, and as long as the table is built no diff with these two
  sides has fewer changed lines.
\<close>

theorem diff_is_minimal:
  "before_of (diffTraceLines before after) = before \<and> after_of (diffTraceLines before after) = after
   \<and> gap_free (diffTraceLines before after)
   \<and> \<not> removal_after_addition (diffTraceLines before after)
   \<and> (length before * length after \<le> 250000 \<longrightarrow>
       (\<forall>d. gap_free d \<longrightarrow> before_of d = before \<longrightarrow> after_of d = after \<longrightarrow>
          changed_lines (diffTraceLines before after) \<le> changed_lines d))"
  using diff_minimal [of before after] by (auto simp: diff_parts diff_order MAX_DIFF_CELLS_def)

definition sample_diff :: "TraceDiffLine list" where
  "sample_diff = [DRemove ''a'', DContext ''b'', DAdd ''c'']"

theorem diff_is_minimal_witness:
  "changed_lines (diffTraceLines [''a'', ''b''] [''b'', ''c'']) \<le> changed_lines sample_diff
   \<and> before_of (diffTraceLines [''a'', ''b''] [''b'', ''c'']) = [''a'', ''b'']"
proof -
  have "gap_free sample_diff" "before_of sample_diff = [''a'', ''b'']" "after_of sample_diff = [''b'', ''c'']"
    by (simp_all add: sample_diff_def gap_free_def)
  then show ?thesis
    using diff_is_minimal [of "[''a'', ''b'']" "[''b'', ''c'']"] by simp
qed

text \<open>C39: 
  C?: an edit is shown as a diff of its two texts. The rows stand for every line: a gap hides at least two
  unchanged lines and tells their number, every added or removed line is shown, and so are the unchanged lines
  next to it, up to three on each side.
\<close>

theorem edit_shows_every_change:
  assumes "traceEventKind ev = KToolUse" "ev_input ev = Some input"
    and "field_text input ''file_path'' = Some path \<or> field_text input ''file_path'' = None \<and> field_text input ''path'' = Some path"
    and "field_text input ''old_string'' = Some old" "field_text input ''new_string'' = Some new"
  shows "\<exists>rows d. traceEventDetail parse stringify ev = DiffDetail path rows
     \<and> gap_free d \<and> str_join newline (before_of d) = old \<and> str_join newline (after_of d) = new
     \<and> shows_as rows d
     \<and> (\<forall>u l v. d = u @ l # v \<longrightarrow> \<not> is_context l \<longrightarrow> keeps_change 3 rows u l v)"
proof -
  let ?d = "diffTraceLines (toLines old) (toLines new)"
  have "readFileMutation input = Some (MReplace path (toLines old) (toLines new))"
    using assms(3-5) by (auto simp: readFileMutation_def)
  then have "traceEventDetail parse stringify ev = DiffDetail path (collapseDiffContext ?d 3)"
    using assms(1,2) by (simp add: traceEventDetail_def DIFF_CONTEXT_LINES_def)
  moreover have "shows_as (collapseDiffContext ?d 3) ?d"
    by (simp add: collapseDiffContext_def collapse_shows diff_parts)
  moreover have "\<forall>u l v. ?d = u @ l # v \<longrightarrow> \<not> is_context l \<longrightarrow> keeps_change 3 (collapseDiffContext ?d 3) u l v"
    unfolding collapseDiffContext_def using collapse_keeps diff_parts(3) by blast
  ultimately show ?thesis
    using diff_parts [of "toLines old" "toLines new"] join_toLines by metis
qed

definition sample_event :: "(jstr \<times> json) list \<Rightarrow> trace_event" where
  "sample_event input =
     \<lparr>ev_type = ''tool_use'', ev_tool = Some ''Edit'', ev_content = None, ev_input = Some input, ev_output = None, ev_created_at = None\<rparr>"

definition sample_edit :: "(jstr \<times> json) list" where
  "sample_edit = [(''path'', JStr ''a.ts''), (''old_string'', JStr ''x''), (''new_string'', JStr ''y'')]"

theorem edit_shows_every_change_witness:
  "\<exists>rows. traceEventDetail (\<lambda>_. None) (\<lambda>_. []) (sample_event sample_edit) = DiffDetail ''a.ts'' rows"
proof -
  have "traceEventKind (sample_event sample_edit) = KToolUse" "ev_input (sample_event sample_edit) = Some sample_edit"
    "field_text sample_edit ''file_path'' = None" "field_text sample_edit ''path'' = Some ''a.ts''"
    "field_text sample_edit ''old_string'' = Some ''x''" "field_text sample_edit ''new_string'' = Some ''y''"
    by (simp_all add: sample_event_def sample_edit_def traceEventKind_def field_text_def obj_get_def)
  then show ?thesis
    using edit_shows_every_change [of "sample_event sample_edit" sample_edit "''a.ts''" "''x''" "''y''" "\<lambda>_. None" "\<lambda>_. []"]
    by blast
qed

text \<open>
  C?: the summary of an event is one line, unless it is a tool call one of whose texts has a line break; the
  summary of thinking and of a tool result is short.
\<close>

theorem summary_is_one_line:
  assumes "\<forall>input. traceEventKind ev = KToolUse \<longrightarrow> ev_input ev = Some input \<longrightarrow> one_line_texts input"
  shows "newline \<notin> set (traceEventSummary parse ev)
    \<and> (traceEventKind ev \<in> {KThinking, KToolResult} \<longrightarrow> length (traceEventSummary parse ev) \<le> 203)"
proof -
  have "newline \<notin> set (collapseWhitespace v)" for v
  proof -
    have "newline \<notin> set (squeeze s)" for s using set_squeeze [of s] by auto
    with set_trim show ?thesis unfolding collapseWhitespace_def by blast
  qed
  moreover have "newline \<notin> set (traceToolArgSummary (ev_input ev))" if "traceEventKind ev = KToolUse"
    using assms that tool_one_line by (cases "ev_input ev") (auto simp: traceToolArgSummary_def)
  ultimately have "newline \<notin> set (traceEventSummary parse ev)"
    by (auto simp: traceEventSummary_def firstLine_one_line one_line_parts split: trace_kind.splits)
  moreover have "length (traceEventSummary parse ev) \<le> 203" if "traceEventKind ev \<in> {KThinking, KToolResult}"
    using that length_clip [of _ 200] by (auto simp: traceEventSummary_def)
  ultimately show ?thesis by blast
qed

theorem summary_is_one_line_witness:
  "newline \<notin> set (traceEventSummary (\<lambda>_. None) (sample_event sample_edit))"
  by (rule conjunct1 [OF summary_is_one_line]) (auto simp: sample_event_def sample_edit_def one_line_texts_def)

text \<open>Without the assumption it is not, although the comment of \<open>traceEventSummary\<close> says so.\<close>

lemma summary_may_break:
  "newline \<in> set (traceEventSummary parse (sample_event [(''query'', JStr (''a'' @ [newline] @ ''b''))]))"
  by (simp add: traceEventSummary_def sample_event_def traceEventKind_def traceToolArgSummary_def str_arg_def obj_get_def)

end
