(* ===== verification/Spec2Isabelle.thy ===== *)
theory Spec2Isabelle
  imports Tab_Properties Tab_Behaviour Cron_Semantics Issue_Properties Flag_Service Permission_Rules Ws_Properties
    Presence Inbox_Groups Tab_Coordinator_Properties Tab_Nav_Properties Timeline_Properties Exception_Fuse Issue_Update_Properties
    Failure_Properties Draft_Properties Shortcut_Properties Chat_Properties Board_Properties
    View_Properties Issue_Filters Comment_Properties Trace_Properties
begin

text \<open>
  Verification of the core of the SiliEco client: the logic under \<open>packages/core\<close>,
  \<open>packages/views\<close> and \<open>apps/desktop/src\<close> that keeps state, decides, or must not lose what a
  user wrote. The client is a React application over the query library and zustand stores; the
  server is a separate Go program, of which only what two components rely on is modelled. Each part below is translated function by function, with the names of
  the source, and its theorems are about the translated functions.

  \<^bold>\<open>The parts and how they interact.\<close>

  The desktop shell shows tabs. The tab store (\<open>tab-store.ts\<close>) holds a history per tab, grouped by
  workspace, and persists it; the navigation adapter (\<open>navigation.tsx\<close>) turns links into store actions;
  the tab coordinator (\<open>tab-coordinator.ts\<close>) is the only writer of the router, which it keeps equal to the
  active history entry. The pages read issues through the query cache. An issue change, made by a mutation
  (\<open>issues/mutations.ts\<close>) or announced over the socket (\<open>ws-client.ts\<close>, \<open>ws-updaters.ts\<close>), is
  applied to every cached list by the cache coordinator (\<open>cache-coordinator.ts\<close>), which either makes a list
  right or reports its key stale; a refused mutation restores what it snapshotted. The board and the list let
  a user move an issue by dragging; the columns on the screen are a copy of the cache that is frozen while a
  drag or its mutation is under way. The composers (comments, the create dialog, the chat) write drafts that
  survive a reload, and uploads that outlive the composer. The main process of the desktop application
  reports renderers that hang or crash.

  \<^bold>\<open>Theories and sources.\<close>

  \<^item> \<open>JS_Prelude\<close>, \<open>JS_Object\<close>: the values of the language. Strings are
    lists of code units below 256; objects and maps are association lists in property or insertion order,
    and both interpret the locale \<open>keyed_store\<close>; the signed 32-bit operators (\\<open>Flag_Hash\\<close>) are related to 32-bit
    words; JSON numbers are integers. \<open>Machines\<close> holds the locale \<open>invariant_machine\<close>: a start
    state, a step function over events, the events the environment offers, and an invariant; a component
    interprets it on its own step function.
  \<^item> \<open>Tab_Urls\<close>, \<open>Tab_Store\<close>, \<open>Tab_Persist\<close>, \<open>Tab_Scroll\<close>: \<open>reserved-slugs.ts\<close> and
    \<open>tab-store.ts\<close>. \<open>Tab_Invariants\<close>, \<open>Tab_Preservation\<close>, \<open>Tab_Machine\<close>, \<open>Tab_Safety\<close>,
    \<open>Tab_Behaviour\<close>, \<open>Tab_Example\<close>, \<open>Tab_Properties\<close>: the store invariant under the locale
    \<open>url_policy\<close>, interpreted for any normalised URL and for URLs of the tab's own workspace (a condition on
    the callers that the store does not enforce; a theorem that needs it says so), and what the actions and the
    persistence do.
  \<^item> \<open>Tab_Coordinator\<close>, \<open>Tab_Coordinator_Inv\<close>, \<open>Tab_Coordinator_Properties\<close>: \<open>tab-coordinator.ts\<close>.
    \<open>Tab_Navigation\<close>, \<open>Tab_Nav_Properties\<close>: \<open>navigation.tsx\<close> and \<open>window-overlay-store.ts\<close>.
  \<^item> \<open>Cron_Fields\<close>, \<open>Cron_Config\<close>: \<open>schedule-editor/cron-mapping.ts\<close> and \<open>model.ts\<close>;
    \<open>Cron_Text\<close>, \<open>Cron_Correct\<close>, \<open>Cron_Roundtrip\<close>, \<open>Cron_Semantics\<close>: reading and writing a
    schedule are inverse, but for the unused minute of a pattern in minutes, and the rewrites keep the values a field selects.
  \<^item> \<open>Issue_Model\<close>, \<open>Issue_Cache\<close>: \<open>types/issue.ts\<close>, \<open>cache-helpers.ts\<close>,
    \<open>surface/membership.ts\<close>, \<open>cache-coordinator.ts\<close>; \<open>Issue_Coherence\<close>, \<open>Issue_Client\<close>,
    \<open>Issue_Change\<close>, \<open>Issue_Properties\<close>: each bucketed list is right for the server's state or stale.
    \<open>Issue_Delete\<close>, \<open>Issue_Delete_Properties\<close>: \<open>delete-cache.ts\<close> and the delete
    mutation. \<open>Issue_Events\<close>, \<open>Issue_Event_Properties\<close>: \<open>issues/ws-updaters.ts\<close>. \<open>Issue_Update\<close>,
    \<open>Issue_Update_Properties\<close>: create, update and load more of \<open>mutations.ts\<close>. \<open>Recent_Issues\<close>:
    \<open>recent-issues-store.ts\<close>.
  \<^item> \<open>Board_Model\<close>, \<open>Board_Drag\<close>: \<open>utils/drag-utils.ts\<close>, \<open>use-drag-settle.ts\<close>, the drag
    handlers of \<open>board-view.tsx\<close> and \<open>list-view.tsx\<close>, \<open>use-issue-surface-actions.ts\<close>;
    \<open>Board_Laws\<close>, \<open>Board_Machine\<close>, \<open>Board_Refine\<close>,
    \<open>Board_Drop\<close>, \<open>Board_Locks\<close>, \<open>Board_Properties\<close>: a drag ends as the cache patched with the request
    it sent, and when the columns follow the cache again.
  \<^item> \<open>View_State\<close>, \<open>View_Properties\<close>: \<open>stores/view-store.ts\<close>,
    \<open>surface-view-store.ts\<close>, \<open>my-issues-view-store.ts\<close>: the state of an issue view with every action,
    what is persisted and how it is merged, and one store per surface over a registry that the storage
    keeps per workspace. A view comes back as it was left, and is well formed whatever earlier
    builds stored. \<open>Issue_Filters\<close>: \<open>issues/utils/filter.ts\<close>; the flat list and the assignee groups filter alike.
  \<^item> \<open>Timeline\<close>, \<open>Timeline_Properties\<close>: \<open>timeline-sort.ts\<close>,
    \<open>thread-utils.ts\<close> and the timeline view of \<open>issue-detail.tsx\<close>. \<open>Comment_Cache\<close>,
    \<open>Comment_Properties\<close>: the writers of the cached timeline (\<open>use-issue-timeline.ts\<close> and the comment
    mutations of \<open>mutations.ts\<close>), \<open>use-issue-reactions.ts\<close>, \<open>use-issue-subscribers.ts\<close>: the cache
    stays in step with a model of the server's rows and broadcasts (\<open>handler/comment.go\<close>,
    \<open>handler/activity.go\<close>, \<open>service/task.go\<close> and the queries), a deletion takes the replies along, a
    resolution is the only one of its thread.
    \<open>Inbox_Groups\<close>:
    \<open>inbox/queries.ts\<close>. \<open>Presence\<close>: \<open>derive-presence.ts\<close> and \<open>derive-health.ts\<close>.
  \<^item> \<open>Flag_Hash\<close>, \<open>Flag_Service\<close>: \<open>feature-flags/\<close>, with the locale
    \<open>flag_provider\<close>. \<open>Permission_Rules\<close>: \<open>permissions/\<close>, and the gates of
    the members page (\<open>members-tab.tsx\<close>) against the server's in \<open>handler/workspace.go\<close>: the members over
    time keep an owner. \<open>Exception_Fuse\<close>:
    \<open>exception-dedupe.ts\<close>. \<open>Ws_Client\<close>, \<open>Ws_Properties\<close>: \<open>ws-client.ts\<close>.
  \<^item> \<open>Hang_Stack\<close>, \<open>Failure_Report\<close>, \<open>Failure_Properties\<close>: \<open>hang-stack.ts\<close>,
    \<open>freeze-breadcrumb.ts\<close>, \<open>renderer-recovery.ts\<close>, \<open>freeze-flush.ts\<close>.
  \<^item> \<open>Draft_Uploads\<close>, \<open>Composer_Drafts\<close>, \<open>Draft_Properties\<close>: \<open>draft-upload.ts\<close>,
    \<open>comment-draft-store.ts\<close>, \<open>draft-store.ts\<close>. \<open>Upload_Engine\<close>,
    \<open>Upload_Properties\<close>: \<open>upload-coordinator.ts\<close> and \<open>use-coordinated-uploads.ts\<close>, with the locale
    \<open>draft_binding\<close> interpreted for comments, the create dialog and the chat.
  \<^item> \<open>Chat_Store\<close>, \<open>Chat_Restore\<close>: \<open>chat/store.ts\<close>, \<open>use-chat-draft-restore.ts\<close>,
    \<open>chat-input.tsx\<close>, \<open>use-chat-controller.ts\<close>, \<open>chat/mutations.ts\<close>. \<open>Chat_Laws\<close>,
    \<open>Chat_Safety\<close>, \<open>Chat_Once\<close>, \<open>Chat_Properties\<close>: a prompt that comes back to a
    composer is not lost and not given twice.
  \<^item> \<open>Shortcuts\<close>, \<open>Shortcut_Properties\<close>: \<open>shortcuts/definitions.ts\<close>, \<open>shortcuts/store.ts\<close>, the
    recorder and the two key handlers.
  \<^item> \<open>Trace_Events\<close>, \<open>Trace_Properties\<close>: \<open>trace-event-presenter.ts\<close>, what the
    transcript of an agent's run shows: the line diff of an edit is minimal, and its rows hide no change.

  \<^bold>\<open>State and effects.\<close> A store is a record and an action a function on it. What a React component
  does with a store is an event of a step function, run on the state as it is when the event arrives; the
  order of events is free, so a property of every reachable state holds for every interleaving of clicks,
  answers, messages, timers and reloads that the event type has. An answer of the server, the clock, the
  identifiers a generator draws and the contents of the storage are arguments of events. A function that
  throws has an error value in its result. Where a function returns its argument unchanged and a caller tests
  for that, the model returns an option.

  \<^bold>\<open>What is a parameter.\<close> The router's \<open>resolve\<close> and its moment of publication; \<open>decodeURIComponent\<close>,
  date parsing and the locale's collation; the parser of a frame of the socket; the query client, whose
  documented behaviour (a write is read back, an invalidation marks, a cancelled fetch does not write) is
  stated in \<open>query_client_ok\<close> and \<open>query_admin_ok\<close>, with a concrete client in the witnesses; the
  provider interface of the flags; the agreement between the server's lists and the membership rules,
  \<open>server_contract\<close>: a list holds the issues of its relation (\<open>rel\<close>: assignee, creator and project as
  the key says) that are also inside the date window and the property filter of the list (\<open>win\<close>), if it
  has any. For bucketed lists the client has no rule about \<open>win\<close> and does not mark them stale either, so the
  theorems on the issue cache speak of issues that are inside before and after a change; what happens to others
  is \<open>date_window_missed\<close>, and what a project derived by the server does is \<open>derived_project_missed\<close>.

  \<^bold>\<open>Bounds and fuel.\<close> The walks over parents in a timeline carry the length of the timeline as their
  fuel, which is proved to be enough on cyclic parents too (\<open>resolved_threads_terminate\<close>). Store listeners
  that write the store again are nested at most twice, since the second write changes nothing the listener
  reads. The delivery of a finished upload makes at most the hundred attempts the source's schedule allows.
  Totals are naturals, so a decrement at zero stays there as \<open>Math.max\<close> makes it. Positions are exact
  rationals, not doubles: a position halved more than about fifty times between the same neighbours collides
  in the program and not here. Code units above 255 are left out; no modelled function tells them apart.

  \<^bold>\<open>What the groups of lemmas show.\<close> The theories named \<open>..._Properties\<close> hold the claims, each
  with a witness that runs it on concrete data where it has hypotheses. Invariants (tabs, coordinator,
  socket, composers, chat, shortcuts, failures) are proved event by event and lifted by
  \<open>invariant_machine\<close>. Coherence of the issue cache is proved per list and lifted over the stages of a
  change. Where the code does not do what it or its comment says, a lemma runs it and shows the outcome.

  \<^bold>\<open>Not modelled.\<close> The Go server beyond the rows of a timeline and the gates on members, the command line
  and the daemon (another language, reached by requests); the methods of \<open>api/client.ts\<close> and the schemas of \<open>api/schemas.ts\<close> (requests, and
  declarations for a library that is not in the repository); the dispatch table and timers of
  \<open>use-realtime-sync.ts\<close>; the batch mutations of issues; rendering, layout and virtual
  scrolling of the views; the editor, which is an extension of a library; the mobile client, the landing pages,
  the documentation site, translations and styles; child processes, windows and updates of the desktop main
  process. The storage and the file system do not fail, save for the exception fuse, whose storage may.
\<close>

end
